(* ===== verification/Prelude.thy ===== *)
theory Prelude
  imports Main "HOL-Library.List_Lexorder" "HOL-Library.Char_ord"
begin

text \<open>
  What the component theories share: the collections of proof hints, the names
  of the types that several components use, and generic lemmas on lists, sums,
  maps and loops.

  Python strings are modelled as \<open>string\<close>, read as Latin-1 text: one \<open>char\<close>
  per code point below 256.  \<open>HOL-Library.List_Lexorder\<close> orders them by code
  point, which is how Python orders \<open>str\<close> values, so \<open>sort\<close> is \<open>sorted\<close>.
\<close>

section \<open>Collections of proof hints\<close>

named_theorems wf_intros \<open>introduction rules for the well-formedness invariants\<close>
named_theorems step_simps \<open>one-step equations of the loops and operations\<close>
named_theorems frame_simps \<open>fields and keys an operation leaves alone\<close>

section \<open>Names of types\<close>

type_synonym lane_id = string

text \<open>
  A Python exception is its class; the text of its message is not modelled.
\<close>

datatype py_exn = TypeError | ValueError | KeyError | IndexError | OverflowError | RuntimeError

type_synonym 'a result = "py_exn + 'a"

section \<open>Errors as values\<close>

definition bind_result :: "'a result \<Rightarrow> ('a \<Rightarrow> 'b result) \<Rightarrow> 'b result" where
  "bind_result r f = (case r of Inl e \<Rightarrow> Inl e | Inr x \<Rightarrow> f x)"

lemma bind_result_simps [simp]:
  "bind_result (Inl e) f = Inl e"
  "bind_result (Inr x) f = f x"
  by (simp_all add: bind_result_def)

lemma bind_result_Inr_iff: "bind_result r f = Inr y \<longleftrightarrow> (\<exists>x. r = Inr x \<and> f x = Inr y)"
  by (cases r) auto

fun map_result :: "('a \<Rightarrow> 'b result) \<Rightarrow> 'a list \<Rightarrow> 'b list result" where
  "map_result f [] = Inr []"
| "map_result f (x # xs) =
     bind_result (f x) (\<lambda>y. bind_result (map_result f xs) (\<lambda>ys. Inr (y # ys)))"

lemma map_result_Inr_length: "map_result f xs = Inr ys \<Longrightarrow> length ys = length xs"
  by (induction xs arbitrary: ys) (auto simp: bind_result_Inr_iff)

lemma map_result_Inr_set:
  "map_result f xs = Inr ys \<Longrightarrow> y \<in> set ys \<Longrightarrow> \<exists>x \<in> set xs. f x = Inr y"
  by (induction xs arbitrary: ys) (auto simp: bind_result_Inr_iff)

section \<open>Tables filled by a loop\<close>

text \<open>
  A loop \<open>for l in xs: table[l] = F(table, l)\<close> where \<open>F\<close> reads the table at the keys
  \<open>D l\<close> only, all of them written earlier: the finished table satisfies the
  recursion equation.
\<close>

definition table_step :: "(('k \<rightharpoonup> 'v) \<Rightarrow> 'k \<Rightarrow> 'v) \<Rightarrow> 'k \<Rightarrow> ('k \<rightharpoonup> 'v) \<Rightarrow> ('k \<rightharpoonup> 'v)" where
  "table_step F l m = m(l \<mapsto> F m l)"

definition fill_table :: "(('k \<rightharpoonup> 'v) \<Rightarrow> 'k \<Rightarrow> 'v) \<Rightarrow> 'k list \<Rightarrow> ('k \<rightharpoonup> 'v)" where
  "fill_table F xs = fold (table_step F) xs Map.empty"

lemma fill_table_Nil [simp]: "fill_table F [] = Map.empty"
  by (simp add: fill_table_def)

lemma fill_table_snoc [simp]:
  "fill_table F (xs @ [x]) = (fill_table F xs)(x \<mapsto> F (fill_table F xs) x)"
  by (simp add: fill_table_def table_step_def)

lemma distinct_split_last:
  assumes eq: "xs @ [x] = ys @ l # zs" and dist: "distinct (xs @ [x])"
  shows "x \<notin> set ys"
proof -
  have "distinct (ys @ l # zs)" using dist unfolding eq .
  moreover have "last (ys @ l # zs) = x" using eq [symmetric] by simp
  then have "x \<in> set (l # zs)" by (metis last_appendR last_in_set list.distinct(1))
  ultimately show ?thesis by auto
qed

lemma fill_table_eqs:
  assumes "distinct xs"
    and earlier: "\<And>ys x zs. xs = ys @ x # zs \<Longrightarrow> D x \<subseteq> set ys"
    and reads: "\<And>m m' l. (\<And>d. d \<in> D l \<Longrightarrow> m d = m' d) \<Longrightarrow> F m l = F m' l"
  shows "dom (fill_table F xs) = set xs \<and> (\<forall>l \<in> set xs. fill_table F xs l = Some (F (fill_table F xs) l))"
  using assms(1,2)
proof (induction xs rule: rev_induct)
  case Nil
  then show ?case by simp
next
  case (snoc x xs)
  let ?T = "fill_table F xs"
  have earlier': "D y \<subseteq> set ys" if "xs = ys @ y # zs" for ys y zs
    using snoc.prems(2) [of ys y "zs @ [x]"] that by simp
  have IH: "dom ?T = set xs" "\<And>l. l \<in> set xs \<Longrightarrow> ?T l = Some (F ?T l)"
    using snoc.IH snoc.prems(1) earlier' by auto
  have "x \<notin> D l" if mem: "l \<in> set (xs @ [x])" for l
  proof -
    obtain ys zs where l: "xs @ [x] = ys @ l # zs" using split_list [OF mem] by blast
    have "D l \<subseteq> set ys" by (rule snoc.prems(2) [OF l])
    moreover have "x \<notin> set ys" by (rule distinct_split_last [OF l snoc.prems(1)])
    ultimately show ?thesis by auto
  qed
  then have same: "F (?T(x \<mapsto> v)) l = F ?T l" if "l \<in> set (xs @ [x])" for l v
    using that by (intro reads) auto
  have "dom (?T(x \<mapsto> F ?T x)) = set (xs @ [x])" using IH(1) by simp
  moreover have "(?T(x \<mapsto> F ?T x)) l = Some (F (?T(x \<mapsto> F ?T x)) l)" if "l \<in> set (xs @ [x])" for l
  proof (cases "l = x")
    case True
    then show ?thesis using same [of x] by simp
  next
    case False
    then have "?T l = Some (F ?T l)" using that by (intro IH(2)) simp
    then show ?thesis using False same [OF that] by simp
  qed
  ultimately show ?case unfolding fill_table_snoc by blast
qed

end
