(* ===== verification/PyValue.thy ===== *)
theory PyValue
  imports Prelude Complex_Main
begin

text \<open>
  The dynamic values of the Python sources: what \<open>json.loads\<close> builds and what a
  \<open>Mapping[str, Any]\<close> holds, with the built-in operations the code applies to
  them (truthiness, \<open>str\<close>, \<open>repr\<close>, \<open>int\<close>, \<open>dict.get\<close>, the \<open>str\<close> methods).

  A float is an exact rational, an infinity or a NaN: rounding is not modelled,
  and \<open>-0.0\<close> is \<open>0.0\<close>.  How Python prints a float, how it reads one from text, and
  which texts \<open>datetime.fromisoformat\<close> accepts (with the answer whether the time has an
  offset) are fields of a record that the definitions using them take as an argument.
\<close>

section \<open>Values\<close>

datatype pyfloat = Finite rat | PosInf | NegInf | NaN

datatype pyval =
    PNone
  | PBool bool
  | PInt int
  | PFloat pyfloat
  | PStr string
  | PBytes string
  | PList "pyval list"
  | PTuple "pyval list"
  | PDict "(pyval \<times> pyval) list"
  | PObj string "(string \<times> pyval) list"

record py_lib =
  float_repr :: "pyfloat \<Rightarrow> string"
  float_of_str :: "string \<Rightarrow> pyfloat option"
  iso_has_offset :: "string \<Rightarrow> bool option"

fun py_truthy :: "pyval \<Rightarrow> bool" where
  "py_truthy PNone = False"
| "py_truthy (PBool b) = b"
| "py_truthy (PInt i) = (i \<noteq> 0)"
| "py_truthy (PFloat f) = (f \<noteq> Finite 0)"
| "py_truthy (PStr s) = (s \<noteq> [])"
| "py_truthy (PBytes s) = (s \<noteq> [])"
| "py_truthy (PList xs) = (xs \<noteq> [])"
| "py_truthy (PTuple xs) = (xs \<noteq> [])"
| "py_truthy (PDict kvs) = (kvs \<noteq> [])"
| "py_truthy (PObj _ _) = True"

definition py_or :: "pyval \<Rightarrow> pyval \<Rightarrow> pyval" where
  "py_or a b = (if py_truthy a then a else b)"

fun is_pstr :: "pyval \<Rightarrow> bool" where
  "is_pstr (PStr _) = True"
| "is_pstr _ = False"

fun is_mapping :: "pyval \<Rightarrow> bool" where
  "is_mapping (PDict _) = True"
| "is_mapping _ = False"

text \<open>
  \<open>d.get(k)\<close> and \<open>d.get(k, default)\<close> for a string key: only a \<open>str\<close> key equals one.
  A value that is not a dict has no items, which is how the sources read it after
  their \<open>isinstance\<close> tests.
\<close>

fun py_items :: "pyval \<Rightarrow> (pyval \<times> pyval) list" where
  "py_items (PDict kvs) = kvs"
| "py_items _ = []"

definition py_lookup :: "pyval \<Rightarrow> string \<Rightarrow> pyval option" where
  "py_lookup d k = map_of (py_items d) (PStr k)"

definition py_get_default :: "pyval \<Rightarrow> string \<Rightarrow> pyval \<Rightarrow> pyval" where
  "py_get_default d k v = (case py_lookup d k of None \<Rightarrow> v | Some x \<Rightarrow> x)"

definition py_get :: "pyval \<Rightarrow> string \<Rightarrow> pyval" where
  "py_get d k = py_get_default d k PNone"

lemma py_lookup_simps [simp]:
  "py_lookup (PDict []) k = None"
  "py_lookup (PDict ((PStr k', v) # kvs)) k = (if k' = k then Some v else py_lookup (PDict kvs) k)"
  by (simp_all add: py_lookup_def)

section \<open>Text\<close>

definition py_isspace :: "char \<Rightarrow> bool" where
  "py_isspace c = (let n = (of_char c :: nat) in (9 \<le> n \<and> n \<le> 13) \<or> (28 \<le> n \<and> n \<le> 32) \<or> n = 133 \<or> n = 160)"

definition py_strip :: "string \<Rightarrow> string" where
  "py_strip s = rev (dropWhile py_isspace (rev (dropWhile py_isspace s)))"

definition py_lower_char :: "char \<Rightarrow> char" where
  "py_lower_char c =
     (let n = (of_char c :: nat)
      in if (65 \<le> n \<and> n \<le> 90) \<or> (192 \<le> n \<and> n \<le> 222 \<and> n \<noteq> 215) then char_of (n + 32) else c)"

definition py_lower :: "string \<Rightarrow> string" where
  "py_lower s = map py_lower_char s"

fun starts_with :: "string \<Rightarrow> string \<Rightarrow> bool" where
  "starts_with s [] = True"
| "starts_with [] (p # ps) = False"
| "starts_with (c # cs) (p # ps) = (c = p \<and> starts_with cs ps)"

fun in_str :: "string \<Rightarrow> string \<Rightarrow> bool" where
  "in_str p [] = (p = [])"
| "in_str p (c # cs) = (starts_with (c # cs) p \<or> in_str p cs)"

text \<open>\<open>s.splitlines()\<close>: a line ends at any Unicode line boundary, and CR LF is one.\<close>

definition is_line_break :: "char \<Rightarrow> bool" where
  "is_line_break c = (let n = (of_char c :: nat) in (10 \<le> n \<and> n \<le> 13) \<or> (28 \<le> n \<and> n \<le> 30) \<or> n = 133)"

fun splitlines_from :: "string \<Rightarrow> string \<Rightarrow> string list" where
  "splitlines_from cur [] = (if cur = [] then [] else [rev cur])"
| "splitlines_from cur (c # cs) =
     (if of_char c = (13::nat) then
        (case cs of
           [] \<Rightarrow> [rev cur]
         | d # ds \<Rightarrow> rev cur # (if of_char d = (10::nat) then splitlines_from [] ds else splitlines_from [] cs))
      else if is_line_break c then rev cur # splitlines_from [] cs
      else splitlines_from (c # cur) cs)"

definition py_splitlines :: "string \<Rightarrow> string list" where
  "py_splitlines s = splitlines_from [] s"

text \<open>\<open>s.split(c)\<close> for a one-character separator: never the empty list.\<close>

fun split_char :: "char \<Rightarrow> string \<Rightarrow> string list" where
  "split_char d [] = [[]]"
| "split_char d (c # cs) =
     (if c = d then [] # split_char d cs
      else (case split_char d cs of [] \<Rightarrow> [[c]] | w # ws \<Rightarrow> (c # w) # ws))"

lemma length_dropWhile_less [termination_simp]: "length (dropWhile P xs) < Suc (length xs)"
  by (simp add: length_dropWhile_le less_Suc_eq_le)

text \<open>\<open>s.split()\<close>: the maximal runs of characters that are not white space.\<close>

fun py_split_ws :: "string \<Rightarrow> string list" where
  "py_split_ws [] = []"
| "py_split_ws (c # cs) =
     (if py_isspace c then py_split_ws cs
      else (c # takeWhile (\<lambda>x. \<not> py_isspace x) cs) # py_split_ws (dropWhile (\<lambda>x. \<not> py_isspace x) cs))"

definition rstrip_char :: "char \<Rightarrow> string \<Rightarrow> string" where
  "rstrip_char d s = rev (dropWhile (\<lambda>c. c = d) (rev s))"

fun join_with :: "string \<Rightarrow> string list \<Rightarrow> string" where
  "join_with sep [] = []"
| "join_with sep [w] = w"
| "join_with sep (w # ws) = w @ sep @ join_with sep ws"

lemma split_char_not_Nil [simp]: "split_char d s \<noteq> []"
  by (induction s) (auto split: list.splits)

lemma starts_with_iff: "starts_with s p \<longleftrightarrow> (\<exists>r. s = p @ r)"
  by (induction s p rule: starts_with.induct) auto

lemma starts_with_append [simp]: "starts_with (p @ r) p"
  by (simp add: starts_with_iff)

lemma starts_with_refl [simp]: "starts_with s s"
  by (simp add: starts_with_iff)

lemma in_str_Cons_iff: "in_str p (c # cs) \<longleftrightarrow> starts_with (c # cs) p \<or> in_str p cs"
  by simp

lemma in_str_iff: "in_str p s \<longleftrightarrow> (\<exists>a b. s = a @ p @ b)"
proof (induction s)
  case Nil
  then show ?case by simp
next
  case (Cons c cs)
  have "(\<exists>a b. c # cs = a @ p @ b) \<longleftrightarrow> (\<exists>b. c # cs = p @ b) \<or> (\<exists>a b. cs = a @ p @ b)"
    by (metis append_Cons append_Nil list.sel(3) tl_append2)
  then show ?case
    unfolding in_str_Cons_iff starts_with_iff Cons.IH by blast
qed

lemma in_str_join:
  "in_str p w \<Longrightarrow> w \<in> set ws \<Longrightarrow> in_str p (join_with sep ws)"
proof (induction sep ws rule: join_with.induct)
  case (3 sep w' v ws)
  then show ?case
    unfolding in_str_iff by (auto; metis append.assoc)
qed auto

section \<open>Numbers in text, \<open>str\<close> and \<open>repr\<close>\<close>

fun nat_digits :: "nat \<Rightarrow> string" where
  "nat_digits n = (if n < 10 then [char_of (48 + n)] else nat_digits (n div 10) @ [char_of (48 + n mod 10)])"

declare nat_digits.simps [simp del]

definition int_str :: "int \<Rightarrow> string" where
  "int_str i = (if i < 0 then CHR ''-'' # nat_digits (nat (- i)) else nat_digits (nat i))"

definition hex_digit :: "nat \<Rightarrow> char" where
  "hex_digit n = char_of (if n < 10 then 48 + n else 87 + n)"

definition repr_char :: "char \<Rightarrow> char \<Rightarrow> string" where
  "repr_char q c =
     (let n = (of_char c :: nat)
      in if c = q \<or> n = 92 then [CHR 92, c]
         else if n = 9 then [CHR 92, CHR ''t'']
         else if n = 10 then [CHR 92, CHR ''n'']
         else if n = 13 then [CHR 92, CHR ''r'']
         else if n < 32 \<or> (127 \<le> n \<and> n \<le> 160) \<or> n = 173
         then [CHR 92, CHR ''x'', hex_digit (n div 16), hex_digit (n mod 16)]
         else [c])"

definition repr_str :: "string \<Rightarrow> string" where
  "repr_str s =
     (let q = (if CHR 39 \<in> set s \<and> CHR 34 \<notin> set s then CHR 34 else CHR 39)
      in q # concat (map (repr_char q) s) @ [q])"

text \<open>Bytes above 126 are escaped in a \<open>bytes\<close> literal.\<close>

definition repr_byte :: "char \<Rightarrow> char \<Rightarrow> string" where
  "repr_byte q c =
     (let n = (of_char c :: nat)
      in if n \<ge> 127 then [CHR 92, CHR ''x'', hex_digit (n div 16), hex_digit (n mod 16)]
         else repr_char q c)"

definition repr_bytes :: "string \<Rightarrow> string" where
  "repr_bytes s =
     (let q = (if CHR 39 \<in> set s \<and> CHR 34 \<notin> set s then CHR 34 else CHR 39)
      in CHR ''b'' # q # concat (map (repr_byte q) s) @ [q])"

fun py_repr :: "py_lib \<Rightarrow> pyval \<Rightarrow> string" where
  "py_repr L PNone = ''None''"
| "py_repr L (PBool b) = (if b then ''True'' else ''False'')"
| "py_repr L (PInt i) = int_str i"
| "py_repr L (PFloat f) = float_repr L f"
| "py_repr L (PStr s) = repr_str s"
| "py_repr L (PBytes s) = repr_bytes s"
| "py_repr L (PList xs) = ''['' @ join_with '', '' (map (py_repr L) xs) @ '']''"
| "py_repr L (PTuple xs) =
     ''('' @ join_with '', '' (map (py_repr L) xs) @ (if length xs = 1 then '',)'' else '')'')"
| "py_repr L (PDict kvs) =
     ''{'' @ join_with '', '' (map (\<lambda>(k, v). py_repr L k @ '': '' @ py_repr L v) kvs) @ ''}''"
| "py_repr L (PObj c fs) =
     c @ ''('' @ join_with '', '' (map (\<lambda>(k, v). k @ ''='' @ py_repr L v) fs) @ '')''"

definition py_str :: "py_lib \<Rightarrow> pyval \<Rightarrow> string" where
  "py_str L v = (case v of PStr s \<Rightarrow> s | _ \<Rightarrow> py_repr L v)"

lemma py_str_PStr [simp]: "py_str L (PStr s) = s"
  by (simp add: py_str_def)

text \<open>
  \<open>int(x)\<close>.  Text may have white space around it, a sign and single underscores
  between digits.
\<close>

definition is_digit :: "char \<Rightarrow> bool" where
  "is_digit c = (48 \<le> (of_char c :: nat) \<and> (of_char c :: nat) \<le> 57)"

fun digits_value :: "nat \<Rightarrow> string \<Rightarrow> nat option" where
  "digits_value acc [] = Some acc"
| "digits_value acc (c # cs) =
     (if is_digit c then digits_value (10 * acc + (of_char c - 48)) cs
      else if c = CHR ''_'' then
        (case cs of [] \<Rightarrow> None
         | d # ds \<Rightarrow> if is_digit d then digits_value (10 * acc + (of_char d - 48)) ds else None)
      else None)"

definition parse_digits :: "string \<Rightarrow> nat option" where
  "parse_digits s = (case s of [] \<Rightarrow> None | c # cs \<Rightarrow> if is_digit c then digits_value 0 s else None)"

definition py_int_of_str :: "string \<Rightarrow> int option" where
  "py_int_of_str s =
     (case py_strip s of
        [] \<Rightarrow> None
      | c # cs \<Rightarrow>
          if c = CHR ''-'' then map_option (\<lambda>n. - int n) (parse_digits cs)
          else if c = CHR ''+'' then map_option int (parse_digits cs)
          else map_option int (parse_digits (c # cs)))"

definition trunc_rat :: "rat \<Rightarrow> int" where
  "trunc_rat q = (if q < 0 then - \<lfloor>- q\<rfloor> else \<lfloor>q\<rfloor>)"

fun py_int :: "pyval \<Rightarrow> int result" where
  "py_int (PBool b) = Inr (if b then 1 else 0)"
| "py_int (PInt i) = Inr i"
| "py_int (PFloat (Finite q)) = Inr (trunc_rat q)"
| "py_int (PFloat NaN) = Inl ValueError"
| "py_int (PFloat PosInf) = Inl OverflowError"
| "py_int (PFloat NegInf) = Inl OverflowError"
| "py_int (PStr s) = (case py_int_of_str s of Some i \<Rightarrow> Inr i | None \<Rightarrow> Inl ValueError)"
| "py_int (PBytes s) = (case py_int_of_str s of Some i \<Rightarrow> Inr i | None \<Rightarrow> Inl ValueError)"
| "py_int _ = Inl TypeError"

fun py_float :: "py_lib \<Rightarrow> pyval \<Rightarrow> pyfloat result" where
  "py_float L (PBool b) = Inr (Finite (if b then 1 else 0))"
| "py_float L (PInt i) =
     (if \<bar>i\<bar> < 2 ^ 1024 - 2 ^ 970 then Inr (Finite (of_int i)) else Inl OverflowError)"
| "py_float L (PFloat f) = Inr f"
| "py_float L (PStr s) = (case float_of_str L s of Some f \<Rightarrow> Inr f | None \<Rightarrow> Inl ValueError)"
| "py_float L (PBytes s) = (case float_of_str L s of Some f \<Rightarrow> Inr f | None \<Rightarrow> Inl ValueError)"
| "py_float L _ = Inl TypeError"

end
