(* ===== verification/CycleSearch.thy ===== *)
theory CycleSearch
  imports Prelude "HOL-Library.While_Combinator"
begin

text \<open>
  The iterative depth-first search of \<open>_cycle_problems\<close> in \<open>wave_scheduler.py\<close>: a
  stack of nodes with the children still to visit, colours (0 white, 1 on the
  path, 2 finished), the current path with its index, and the set of cycles found.
  The definitions are over any adjacency function; the locale \<open>digraph\<close> says what
  the search needs of it and holds its correctness: every list reported is a
  cycle, and when none is reported the graph is acyclic.
\<close>

section \<open>The search\<close>

record 'a dfs =
  color :: "'a \<Rightarrow> nat"
  dfs_path :: "'a list"
  path_index :: "'a \<rightharpoonup> nat"
  cycles :: "'a list list"
  dfs_stack :: "('a \<times> 'a list) list"

definition rotations :: "'a list \<Rightarrow> 'a list list" where
  "rotations c = map (\<lambda>i. drop i c @ take i c) [0..<length c]"

definition record_cycle :: "'a::linorder \<Rightarrow> 'a dfs \<Rightarrow> 'a dfs" where
  "record_cycle child s =
     (case path_index s child of
        None \<Rightarrow> s
      | Some i \<Rightarrow> s\<lparr>cycles := List.insert (Min (set (rotations (drop i (dfs_path s))))) (cycles s)\<rparr>)"

definition enter_node :: "('a \<Rightarrow> 'a list) \<Rightarrow> 'a \<Rightarrow> 'a dfs \<Rightarrow> 'a dfs" where
  "enter_node adj x s =
     s\<lparr>color := (color s)(x := 1),
       path_index := (path_index s)(x \<mapsto> length (dfs_path s)),
       dfs_path := dfs_path s @ [x],
       dfs_stack := (x, adj x) # dfs_stack s\<rparr>"

definition leave_node :: "'a \<Rightarrow> ('a \<times> 'a list) list \<Rightarrow> 'a dfs \<Rightarrow> 'a dfs" where
  "leave_node x rest s =
     s\<lparr>dfs_stack := rest,
       color := (color s)(x := 2),
       path_index := (path_index s)(x := None),
       dfs_path := butlast (dfs_path s)\<rparr>"

definition dfs_step :: "('a::linorder \<Rightarrow> 'a list) \<Rightarrow> 'a dfs \<Rightarrow> 'a dfs" where
  "dfs_step adj s =
     (case dfs_stack s of
        [] \<Rightarrow> s
      | (node, []) # rest \<Rightarrow> leave_node node rest s
      | (node, child # cs) # rest \<Rightarrow>
          (let s' = s\<lparr>dfs_stack := (node, cs) # rest\<rparr>
           in if color s child = 0 then enter_node adj child s'
              else if color s child = 1 then record_cycle child s'
              else s'))"

definition dfs_loop :: "('a::linorder \<Rightarrow> 'a list) \<Rightarrow> 'a dfs \<Rightarrow> 'a dfs" where
  "dfs_loop adj s = while (\<lambda>s. dfs_stack s \<noteq> []) (dfs_step adj) s"

definition dfs_root :: "('a::linorder \<Rightarrow> 'a list) \<Rightarrow> 'a \<Rightarrow> 'a dfs \<Rightarrow> 'a dfs" where
  "dfs_root adj root s = (if color s root \<noteq> 0 then s else dfs_loop adj (enter_node adj root s))"

definition dfs_init :: "'a dfs" where
  "dfs_init = \<lparr>color = (\<lambda>_. 0), dfs_path = [], path_index = Map.empty, cycles = [], dfs_stack = []\<rparr>"

definition find_cycles :: "'a::linorder list \<Rightarrow> ('a \<Rightarrow> 'a list) \<Rightarrow> 'a list list" where
  "find_cycles nodes adj = sort (cycles (fold (dfs_root adj) (sort nodes) dfs_init))"

section \<open>What a reported list is\<close>

definition is_cycle :: "('a \<Rightarrow> 'a list) \<Rightarrow> 'a list \<Rightarrow> bool" where
  "is_cycle adj c \<longleftrightarrow> c \<noteq> [] \<and> distinct c \<and> successively (\<lambda>x y. y \<in> set (adj x)) (c @ [hd c])"

definition edge_rel :: "'a set \<Rightarrow> ('a \<Rightarrow> 'a list) \<Rightarrow> ('a \<times> 'a) set" where
  "edge_rel V adj = {(x, y). x \<in> V \<and> y \<in> set (adj x)}"

lemma is_cycle_rotate:
  assumes "is_cycle adj c" and "i < length c"
  shows "is_cycle adj (drop i c @ take i c)"
proof (cases "i = 0")
  case True
  with assms show ?thesis by simp
next
  case False
  define a b where "a = take i c" and "b = drop i c"
  have c: "c = a @ b" and "a \<noteq> []" and "b \<noteq> []"
    using assms(2) False by (auto simp: a_def b_def)
  then show ?thesis
    using assms(1) unfolding is_cycle_def a_def [symmetric] b_def [symmetric]
    by (auto simp: successively_append_iff hd_append)
qed

lemma is_cycle_min_rotation:
  assumes "is_cycle adj c"
  shows "is_cycle adj (Min (set (rotations c)))"
proof -
  have "Min (set (rotations c)) \<in> set (rotations c)"
    using assms by (intro Min_in) (auto simp: rotations_def is_cycle_def)
  then show ?thesis
    using assms is_cycle_rotate by (auto simp: rotations_def)
qed

lemma successively_trancl:
  "successively (\<lambda>x y. (x, y) \<in> r) (x # xs @ [y]) \<Longrightarrow> (x, y) \<in> r\<^sup>+"
  by (induction xs arbitrary: x) (auto intro: trancl_into_trancl2)

lemma is_cycle_not_acyclic:
  assumes "is_cycle adj c" and "set c \<subseteq> V"
  shows "\<not> acyclic (edge_rel V adj)"
proof -
  obtain x xs where c: "c = x # xs"
    using assms(1) by (cases c) (auto simp: is_cycle_def)
  have "successively (\<lambda>a b. b \<in> set (adj a)) (x # xs @ [x])"
    using assms(1) c by (simp add: is_cycle_def)
  moreover have "\<And>a. a \<in> set (x # xs @ [x]) \<Longrightarrow> a \<in> V"
    using assms(2) c by auto
  ultimately have "successively (\<lambda>a b. (a, b) \<in> edge_rel V adj) (x # xs @ [x])"
    by (auto simp: edge_rel_def intro: successively_mono)
  then show ?thesis
    by (auto simp: acyclic_def dest: successively_trancl)
qed

section \<open>Correctness of the search\<close>

text \<open>
  The children of a stacked node that are no longer pending have been dealt with:
  each is finished or is the node stacked right above.
\<close>

fun stack_done :: "('a \<Rightarrow> 'a list) \<Rightarrow> ('a \<Rightarrow> nat) \<Rightarrow> 'a option \<Rightarrow> ('a \<times> 'a list) list \<Rightarrow> bool" where
  "stack_done adj col up [] = True"
| "stack_done adj col up ((x, rest) # st) =
     ((\<forall>y \<in> set (adj x). y \<in> set rest \<or> col y = 2 \<or> Some y = up) \<and> stack_done adj col (Some x) st)"

definition finished_rel :: "('a \<Rightarrow> 'a list) \<Rightarrow> ('a \<Rightarrow> nat) \<Rightarrow> ('a \<times> 'a) set" where
  "finished_rel adj col = {(x, y). col x = 2 \<and> col y = 2 \<and> y \<in> set (adj x)}"

definition path_ok :: "('a \<Rightarrow> 'a list) \<Rightarrow> 'a dfs \<Rightarrow> bool" where
  "path_ok adj s \<longleftrightarrow>
     map fst (dfs_stack s) = rev (dfs_path s) \<and> distinct (dfs_path s) \<and>
     (\<forall>x. color s x = 1 \<longleftrightarrow> x \<in> set (dfs_path s)) \<and> (\<forall>x. color s x \<le> 2) \<and>
     (\<forall>x i. path_index s x = Some i \<longleftrightarrow> i < length (dfs_path s) \<and> dfs_path s ! i = x) \<and>
     successively (\<lambda>x y. y \<in> set (adj x)) (dfs_path s) \<and>
     (\<forall>(x, rest) \<in> set (dfs_stack s). set rest \<subseteq> set (adj x))"

definition cycles_ok :: "('a \<Rightarrow> 'a list) \<Rightarrow> 'a set \<Rightarrow> 'a dfs \<Rightarrow> bool" where
  "cycles_ok adj V s \<longleftrightarrow> (\<forall>c \<in> set (cycles s). is_cycle adj c \<and> set c \<subseteq> V)"

definition finished_ok :: "('a \<Rightarrow> 'a list) \<Rightarrow> 'a dfs \<Rightarrow> bool" where
  "finished_ok adj s \<longleftrightarrow>
     (cycles s = [] \<longrightarrow>
        (\<forall>x y. color s x = 2 \<longrightarrow> y \<in> set (adj x) \<longrightarrow> color s y = 2) \<and>
        acyclic (finished_rel adj (color s)) \<and>
        stack_done adj (color s) None (dfs_stack s))"

lemma stack_done_mono:
  "stack_done adj col up st \<Longrightarrow> (\<And>y. col y = 2 \<Longrightarrow> col' y = 2) \<Longrightarrow> stack_done adj col' up st"
  by (induction adj col up st rule: stack_done.induct) auto

text \<open>Finishing a node whose children are all finished adds no cycle.\<close>

lemma acyclic_finish:
  assumes acyc: "acyclic (finished_rel adj col)" and "col x \<noteq> 2"
    and closed: "\<And>u v. col u = 2 \<Longrightarrow> v \<in> set (adj u) \<Longrightarrow> col v = 2"
    and kids: "\<And>v. v \<in> set (adj x) \<Longrightarrow> col v = 2"
  shows "acyclic (finished_rel adj (col(x := 2)))"
proof -
  let ?r = "finished_rel adj col" and ?r' = "finished_rel adj (col(x := 2))"
  have into: "b \<noteq> x" if "(a, b) \<in> ?r'" for a b
    using that assms(2) closed kids by (auto simp: finished_rel_def split: if_splits)
  have step: "(a, b) \<in> ?r" if "(a, b) \<in> ?r'" "a \<noteq> x" for a b
    using that into [OF that(1)] by (auto simp: finished_rel_def split: if_splits)
  have into_plus: "b \<noteq> x" if "(a, b) \<in> ?r'\<^sup>+" for a b
    using that by (cases rule: tranclE) (auto dest: into)
  have lift: "a \<noteq> x \<longrightarrow> (a, b) \<in> ?r\<^sup>+" if "(a, b) \<in> ?r'\<^sup>+" for a b
    using that
  proof (induction rule: trancl_induct)
    case (base b)
    then show ?case using step by blast
  next
    case (step b c)
    have "b \<noteq> x" using step.hyps(1) by (rule into_plus)
    with step.hyps(2) have "(b, c) \<in> ?r" by (rule \<open>\<And>b a. (a, b) \<in> ?r' \<Longrightarrow> a \<noteq> x \<Longrightarrow> (a, b) \<in> ?r\<close>)
    with step.IH show ?case by (blast intro: trancl_into_trancl)
  qed
  have "(a, a) \<notin> ?r'\<^sup>+" for a
  proof
    assume loop: "(a, a) \<in> ?r'\<^sup>+"
    then have "a \<noteq> x" by (rule into_plus)
    with lift [OF loop] have "(a, a) \<in> ?r\<^sup>+" by simp
    with acyc show False by (auto simp: acyclic_def)
  qed
  then show ?thesis by (auto simp: acyclic_def)
qed

lemma path_ok_color: "path_ok adj s \<Longrightarrow> color s x = 1 \<longleftrightarrow> x \<in> set (dfs_path s)"
  by (simp add: path_ok_def)

lemma path_ok_advance:
  "path_ok adj s \<Longrightarrow> dfs_stack s = (x, y # ys) # rest \<Longrightarrow> path_ok adj (s\<lparr>dfs_stack := (x, ys) # rest\<rparr>)"
  by (auto simp: path_ok_def)

lemma path_ok_enter:
  assumes "path_ok adj s" and "color s x = 0"
    and "dfs_path s = [] \<or> x \<in> set (adj (last (dfs_path s)))"
  shows "path_ok adj (enter_node adj x s)"
proof -
  have x: "x \<notin> set (dfs_path s)"
    using assms(2) path_ok_color [OF assms(1)] by (metis zero_neq_one)
  have idx: "((path_index s)(x \<mapsto> length (dfs_path s))) y = Some i \<longleftrightarrow>
      i < Suc (length (dfs_path s)) \<and> (dfs_path s @ [x]) ! i = y" for y i
    using assms(1) x by (auto simp: path_ok_def nth_append less_Suc_eq in_set_conv_nth)
  show ?thesis
    using assms x idx by (auto simp: path_ok_def enter_node_def successively_append_iff)
qed

lemma path_ok_stack_top:
  "path_ok adj s \<Longrightarrow> dfs_stack s = (x, ys) # rest \<Longrightarrow>
     dfs_path s = butlast (dfs_path s) @ [x] \<and> map fst rest = rev (butlast (dfs_path s))"
proof -
  assume "path_ok adj s" and st: "dfs_stack s = (x, ys) # rest"
  then have "x # map fst rest = rev (dfs_path s)" by (simp add: path_ok_def)
  then have "dfs_path s = rev (map fst rest) @ [x]" by (metis rev.simps(2) rev_rev_ident)
  then show ?thesis by simp
qed

lemma path_ok_leave:
  assumes ok: "path_ok adj s" and st: "dfs_stack s = (x, ys) # rest"
  shows "path_ok adj (leave_node x rest s)"
proof -
  obtain p where p: "dfs_path s = p @ [x]" and rest: "map fst rest = rev p"
    using path_ok_stack_top [OF ok st] by blast
  have x: "x \<notin> set p" and "distinct p" and cx: "color s x = 1"
    using ok p by (auto simp: path_ok_def)
  have idx: "((path_index s)(x := None)) y = Some i \<longleftrightarrow> i < length p \<and> p ! i = y" for y i
    using ok x p by (auto simp: path_ok_def nth_append less_Suc_eq in_set_conv_nth)
  have "(\<forall>y. ((color s)(x := 2)) y = 1 \<longleftrightarrow> y \<in> set p)"
    using ok x p by (auto simp: path_ok_def)
  then show ?thesis
    using ok st p rest idx \<open>distinct p\<close>
    by (auto simp: path_ok_def leave_node_def successively_append_iff)
qed

text \<open>A child on the path closes a cycle with the path below it.\<close>

lemma path_ok_cycle:
  assumes ok: "path_ok adj s" and st: "dfs_stack s = (x, ys) # rest"
    and "color s y = 1" and "y \<in> set (adj x)"
  obtains i where "path_index s y = Some i" and "is_cycle adj (drop i (dfs_path s))"
proof -
  have "y \<in> set (dfs_path s)" using ok \<open>color s y = 1\<close> by (simp add: path_ok_def)
  then obtain i where i: "i < length (dfs_path s)" "dfs_path s ! i = y"
    by (auto simp: in_set_conv_nth)
  then have idx: "path_index s y = Some i" using ok by (simp add: path_ok_def)
  let ?c = "drop i (dfs_path s)"
  have "successively (\<lambda>x y. y \<in> set (adj x)) (take i (dfs_path s) @ ?c)"
    using ok by (simp add: path_ok_def)
  then have chain: "successively (\<lambda>x y. y \<in> set (adj x)) ?c"
    by (simp only: successively_append_iff)
  have "hd ?c = y" and "?c \<noteq> []" and "distinct ?c"
    using i ok by (auto simp: hd_drop_conv_nth path_ok_def)
  moreover have "last ?c = x"
    using path_ok_stack_top [OF ok st] i(1) by (metis last_drop last_snoc)
  ultimately have "is_cycle adj ?c"
    using chain \<open>y \<in> set (adj x)\<close> by (simp add: is_cycle_def successively_append_iff)
  with idx show thesis by (rule that)
qed

lemma record_cycle_frame [simp]:
  "color (record_cycle y s) = color s"
  "dfs_stack (record_cycle y s) = dfs_stack s"
  "dfs_path (record_cycle y s) = dfs_path s"
  by (simp_all add: record_cycle_def split: option.split)

lemma finished_rel_grey: "col x \<noteq> 2 \<Longrightarrow> finished_rel adj (col(x := Suc 0)) = finished_rel adj col"
  by (auto simp: finished_rel_def)

lemma finished_ok_enter:
  assumes "color s x = 0"
    and "cycles s = [] \<Longrightarrow> (\<forall>u v. color s u = 2 \<longrightarrow> v \<in> set (adj u) \<longrightarrow> color s v = 2) \<and>
        acyclic (finished_rel adj (color s)) \<and> stack_done adj (color s) (Some x) (dfs_stack s)"
  shows "finished_ok adj (enter_node adj x s)"
proof -
  have "stack_done adj ((color s)(x := 1)) (Some x) (dfs_stack s)" if "cycles s = []"
    using assms that by (auto elim!: stack_done_mono)
  then show ?thesis
    using assms by (auto simp: finished_ok_def enter_node_def finished_rel_grey)
qed

lemma path_ok_cycles [simp]: "path_ok adj (s\<lparr>cycles := C\<rparr>) = path_ok adj s"
  by (simp add: path_ok_def)

text \<open>What the search asks of a graph: the children of a node are nodes.\<close>

locale digraph =
  fixes nodes :: "'a::linorder list" and adj :: "'a \<Rightarrow> 'a list"
  assumes adj_closed: "x \<in> set nodes \<Longrightarrow> y \<in> set (adj x) \<Longrightarrow> y \<in> set nodes"
begin

definition search_inv :: "'a dfs \<Rightarrow> bool" where
  "search_inv s \<longleftrightarrow>
     path_ok adj s \<and> cycles_ok adj (set nodes) s \<and> finished_ok adj s \<and>
     (\<forall>x. color s x \<noteq> 0 \<longrightarrow> x \<in> set nodes)"

lemma search_inv_enter_root:
  assumes inv: "search_inv s" and "dfs_stack s = []" and "color s x = 0" and "x \<in> set nodes"
  shows "search_inv (enter_node adj x s)"
proof -
  have "dfs_path s = []" using assms by (auto simp: search_inv_def path_ok_def)
  then have "path_ok adj (enter_node adj x s)"
    using assms by (intro path_ok_enter) (auto simp: search_inv_def)
  moreover have "finished_ok adj (enter_node adj x s)"
    using assms by (intro finished_ok_enter) (simp_all add: search_inv_def finished_ok_def)
  ultimately show ?thesis
    using assms by (auto simp: search_inv_def cycles_ok_def enter_node_def)
qed

lemma search_inv_white:
  assumes inv: "search_inv s" and st: "dfs_stack s = (x, y # ys) # rest" and "color s y = 0"
  shows "search_inv (enter_node adj y (s\<lparr>dfs_stack := (x, ys) # rest\<rparr>))" (is "search_inv ?t")
proof -
  let ?s = "s\<lparr>dfs_stack := (x, ys) # rest\<rparr>"
  have ok: "path_ok adj s" using inv by (simp add: search_inv_def)
  have top: "last (dfs_path s) = x"
    using path_ok_stack_top [OF ok st] by (metis last_snoc)
  have "color s x = 1" using ok st path_ok_color [OF ok] path_ok_stack_top [OF ok st]
    by (metis in_set_conv_decomp)
  then have x: "x \<in> set nodes" using inv by (simp add: search_inv_def)
  have y: "y \<in> set (adj x)" using ok st by (auto simp: path_ok_def)
  have "path_ok adj ?t"
    using path_ok_advance [OF ok st] \<open>color s y = 0\<close> top y by (intro path_ok_enter) auto
  moreover have "finished_ok adj ?t"
    using inv st \<open>color s y = 0\<close>
    by (intro finished_ok_enter) (auto simp: search_inv_def finished_ok_def)
  ultimately show ?thesis
    using inv adj_closed [OF x y] by (auto simp: search_inv_def cycles_ok_def enter_node_def)
qed

lemma search_inv_grey:
  assumes inv: "search_inv s" and st: "dfs_stack s = (x, y # ys) # rest" and "color s y = 1"
  shows "search_inv (record_cycle y (s\<lparr>dfs_stack := (x, ys) # rest\<rparr>))"
proof -
  have ok: "path_ok adj s" using inv by (simp add: search_inv_def)
  have "y \<in> set (adj x)" using ok st by (auto simp: path_ok_def)
  then obtain i where i: "path_index s y = Some i" "is_cycle adj (drop i (dfs_path s))"
    using path_ok_cycle [OF ok st \<open>color s y = 1\<close>] by blast
  let ?c = "Min (set (rotations (drop i (dfs_path s))))"
  have "?c \<in> set (rotations (drop i (dfs_path s)))"
    using i(2) by (intro Min_in) (auto simp: rotations_def is_cycle_def)
  then have "set ?c \<subseteq> set (dfs_path s)"
    by (auto simp: rotations_def dest!: in_set_takeD in_set_dropD)
  moreover have "set (dfs_path s) \<subseteq> set nodes"
    using inv path_ok_color [OF ok, symmetric] by (auto simp: search_inv_def)
  ultimately have "cycles_ok adj (set nodes) (record_cycle y (s\<lparr>dfs_stack := (x, ys) # rest\<rparr>))"
    using inv i is_cycle_min_rotation [OF i(2)]
    by (auto simp: search_inv_def cycles_ok_def record_cycle_def)
  moreover have "record_cycle y (s\<lparr>dfs_stack := (x, ys) # rest\<rparr>) =
      s\<lparr>dfs_stack := (x, ys) # rest, cycles := List.insert ?c (cycles s)\<rparr>"
    using i(1) by (simp add: record_cycle_def)
  ultimately show ?thesis
    using inv path_ok_advance [OF ok st]
    by (auto simp: search_inv_def finished_ok_def List.insert_def)
qed

lemma search_inv_black:
  assumes inv: "search_inv s" and st: "dfs_stack s = (x, y # ys) # rest" and "color s y = 2"
  shows "search_inv (s\<lparr>dfs_stack := (x, ys) # rest\<rparr>)"
  using assms path_ok_advance [of adj s x y ys rest]
  by (auto simp: search_inv_def finished_ok_def cycles_ok_def)

lemma search_inv_leave:
  assumes inv: "search_inv s" and st: "dfs_stack s = (x, []) # rest"
  shows "search_inv (leave_node x rest s)"
proof -
  have ok: "path_ok adj s" using inv by (simp add: search_inv_def)
  have cx: "color s x = 1"
    using path_ok_color [OF ok] path_ok_stack_top [OF ok st] by (metis in_set_conv_decomp)
  have fin: "finished_ok adj (leave_node x rest s)" if "cycles s = []"
  proof -
    have closed: "\<And>u v. color s u = 2 \<Longrightarrow> v \<in> set (adj u) \<Longrightarrow> color s v = 2"
      and kids: "\<And>v. v \<in> set (adj x) \<Longrightarrow> color s v = 2"
      and acyc: "acyclic (finished_rel adj (color s))"
      and rest: "stack_done adj (color s) (Some x) rest"
      using inv st that by (auto simp: search_inv_def finished_ok_def)
    have "stack_done adj ((color s)(x := 2)) None rest"
      using rest by (cases rest) (auto elim!: stack_done_mono)
    moreover have "acyclic (finished_rel adj ((color s)(x := 2)))"
      by (rule acyclic_finish [OF acyc _ closed kids]) (use cx in simp)
    ultimately show ?thesis
      using closed kids by (auto simp: finished_ok_def leave_node_def)
  qed
  then have "finished_ok adj (leave_node x rest s)"
    by (cases "cycles s = []") (auto simp: finished_ok_def leave_node_def)
  then show ?thesis
    using inv path_ok_leave [OF ok st] cx by (auto simp: search_inv_def cycles_ok_def leave_node_def)
qed

lemma search_inv_step:
  assumes inv: "search_inv s" and "dfs_stack s \<noteq> []"
  shows "search_inv (dfs_step adj s)"
proof -
  obtain x ch rest where st: "dfs_stack s = (x, ch) # rest"
    using assms(2) by (cases "dfs_stack s") auto
  have ok: "path_ok adj s" using inv by (simp add: search_inv_def)
  show ?thesis
  proof (cases ch)
    case Nil
    then show ?thesis using search_inv_leave [OF inv] st by (simp add: dfs_step_def)
  next
    case (Cons y ys)
    have "color s y \<le> 2" using ok by (simp add: path_ok_def)
    then consider "color s y = 0" | "color s y = 1" | "color s y = 2" by linarith
    then show ?thesis
      using search_inv_white [OF inv] search_inv_grey [OF inv] search_inv_black [OF inv] st Cons
      by cases (simp_all add: dfs_step_def)
  qed
qed

text \<open>The loop ends: each step colours a white node or uses up a pending child or a stack entry.\<close>

definition search_order :: "('a dfs \<times> 'a dfs) set" where
  "search_order =
     measures [\<lambda>s. card {x \<in> set nodes. color s x = 0},
               \<lambda>s. sum_list (map (length \<circ> snd) (dfs_stack s)) + length (dfs_stack s)]"

lemma white_set_shrinks:
  "x \<in> set nodes \<Longrightarrow> col x = 0 \<Longrightarrow>
     card {z \<in> set nodes. (col(x := Suc 0)) z = 0} < card {z \<in> set nodes. col z = 0}"
  by (rule psubset_card_mono) auto

lemma dfs_step_decreases:
  assumes inv: "search_inv s" and "dfs_stack s \<noteq> []"
  shows "(dfs_step adj s, s) \<in> search_order"
proof -
  obtain x ch rest where st: "dfs_stack s = (x, ch) # rest"
    using assms(2) by (cases "dfs_stack s") auto
  have ok: "path_ok adj s" using inv by (simp add: search_inv_def)
  have cx: "color s x = 1"
    using path_ok_color [OF ok] path_ok_stack_top [OF ok st] by (metis in_set_conv_decomp)
  then have x: "x \<in> set nodes" using inv by (simp add: search_inv_def)
  show ?thesis
  proof (cases ch)
    case Nil
    have "{z \<in> set nodes. ((color s)(x := 2)) z = 0} = {z \<in> set nodes. color s z = 0}"
      using cx by auto
    then show ?thesis
      using st Nil by (simp add: search_order_def dfs_step_def leave_node_def)
  next
    case (Cons y ys)
    have "y \<in> set (adj x)" using ok st Cons by (auto simp: path_ok_def)
    then have "y \<in> set nodes" by (rule adj_closed [OF x])
    then have white: "color s y = 0 \<Longrightarrow>
        card {z \<in> set nodes. ((color s)(y := Suc 0)) z = 0} < card {z \<in> set nodes. color s z = 0}"
      by (rule white_set_shrinks)
    show ?thesis
    proof (cases "color s y = 0")
      case True
      then show ?thesis
        using st Cons white by (simp add: search_order_def dfs_step_def enter_node_def)
    next
      case False
      then show ?thesis
        using st Cons by (simp add: search_order_def dfs_step_def Let_def)
    qed
  qed
qed

lemma dfs_loop_terminates:
  assumes "search_inv s"
  shows "\<exists>t. while_option (\<lambda>s. dfs_stack s \<noteq> []) (dfs_step adj) s = Some t"
proof (rule wf_while_option_Some [where P = search_inv])
  have "wf search_order" by (simp add: search_order_def)
  then show "wf {(t, s). (search_inv s \<and> dfs_stack s \<noteq> []) \<and> t = dfs_step adj s}"
    by (rule wf_subset) (auto intro: dfs_step_decreases)
qed (use assms search_inv_step in auto)

lemma dfs_step_keeps_coloured: "color s x \<noteq> 0 \<Longrightarrow> color (dfs_step adj s) x \<noteq> 0"
  by (auto simp: dfs_step_def enter_node_def leave_node_def record_cycle_def Let_def
      split: list.split option.split prod.split)

lemma dfs_loop_post:
  assumes "search_inv s"
  shows "search_inv (dfs_loop adj s) \<and> dfs_stack (dfs_loop adj s) = [] \<and>
     (\<forall>x. color s x \<noteq> 0 \<longrightarrow> color (dfs_loop adj s) x \<noteq> 0)"
  unfolding dfs_loop_def
  by (rule while_rule [where P = "\<lambda>t. search_inv t \<and> (\<forall>x. color s x \<noteq> 0 \<longrightarrow> color t x \<noteq> 0)"
        and r = search_order])
     (use assms search_inv_step dfs_step_keeps_coloured dfs_step_decreases in
       \<open>simp_all add: search_order_def\<close>)

lemma dfs_root_post:
  assumes "search_inv s" and "dfs_stack s = []" and "x \<in> set nodes"
  shows "search_inv (dfs_root adj x s) \<and> dfs_stack (dfs_root adj x s) = [] \<and>
     color (dfs_root adj x s) x \<noteq> 0 \<and> (\<forall>y. color s y \<noteq> 0 \<longrightarrow> color (dfs_root adj x s) y \<noteq> 0)"
proof (cases "color s x = 0")
  case True
  have "search_inv (enter_node adj x s)"
    by (rule search_inv_enter_root) (use assms True in auto)
  note post = dfs_loop_post [OF this]
  show ?thesis using True post by (auto simp: dfs_root_def enter_node_def)
next
  case False
  then show ?thesis using assms by (simp add: dfs_root_def)
qed

lemma dfs_fold_post:
  assumes "set xs \<subseteq> set nodes" and "search_inv s" and "dfs_stack s = []"
  shows "search_inv (fold (dfs_root adj) xs s) \<and> dfs_stack (fold (dfs_root adj) xs s) = [] \<and>
     (\<forall>x. x \<in> set xs \<or> color s x \<noteq> 0 \<longrightarrow> color (fold (dfs_root adj) xs s) x \<noteq> 0)"
  using assms
proof (induction xs arbitrary: s)
  case Nil
  then show ?case by simp
next
  case (Cons x xs)
  from Cons.prems have post: "search_inv (dfs_root adj x s)" "dfs_stack (dfs_root adj x s) = []"
    "color (dfs_root adj x s) x \<noteq> 0" "\<forall>y. color s y \<noteq> 0 \<longrightarrow> color (dfs_root adj x s) y \<noteq> 0"
    using dfs_root_post by auto
  show ?case
    using Cons.IH [OF _ post(1,2)] Cons.prems(1) post(3,4) by auto
qed

lemma search_inv_init: "search_inv dfs_init"
  by (simp add: search_inv_def dfs_init_def path_ok_def cycles_ok_def finished_ok_def
      finished_rel_def acyclic_def)

lemma search_final:
  defines "s \<equiv> fold (dfs_root adj) (sort nodes) dfs_init"
  shows "search_inv s \<and> (\<forall>x. color s x = (if x \<in> set nodes then 2 else 0))"
proof -
  have post: "search_inv s" "dfs_stack s = []" and seen: "\<forall>x \<in> set nodes. color s x \<noteq> 0"
    using dfs_fold_post [of "sort nodes" dfs_init] search_inv_init
    by (simp_all add: s_def dfs_init_def)
  then have ok: "path_ok adj s" and "dfs_path s = []"
    by (auto simp: search_inv_def path_ok_def)
  then have "color s x \<noteq> 1" and "color s x \<le> 2" for x
    by (auto simp: path_ok_def)
  then have "color s x = 2" if "color s x \<noteq> 0" for x
    using that by (metis One_nat_def le_SucE le_antisym not_less_eq_eq numeral_2_eq_2 le_0_eq)
  then show ?thesis
    using post seen by (auto simp: search_inv_def)
qed

lemma find_cycles_sound:
  assumes "c \<in> set (find_cycles nodes adj)"
  shows "is_cycle adj c \<and> set c \<subseteq> set nodes"
  using assms search_final by (simp add: find_cycles_def search_inv_def cycles_ok_def)

lemma find_cycles_complete: "find_cycles nodes adj = [] \<longleftrightarrow> acyclic (edge_rel (set nodes) adj)"
proof
  let ?s = "fold (dfs_root adj) (sort nodes) dfs_init"
  assume "find_cycles nodes adj = []"
  then have "cycles ?s = []" by (metis find_cycles_def length_0_conv length_sort)
  then have "acyclic (finished_rel adj (color ?s))"
    using search_final by (simp add: search_inv_def finished_ok_def)
  moreover have "finished_rel adj (color ?s) = edge_rel (set nodes) adj"
    using search_final adj_closed by (auto simp: finished_rel_def edge_rel_def split: if_splits)
  ultimately show "acyclic (edge_rel (set nodes) adj)" by simp
next
  assume acyc: "acyclic (edge_rel (set nodes) adj)"
  have "\<not> c \<in> set (find_cycles nodes adj)" for c
    using acyc find_cycles_sound is_cycle_not_acyclic by blast
  then show "find_cycles nodes adj = []" by (cases "find_cycles nodes adj") auto
qed

end

end
