(* ===== verification/WaveDag.thy ===== *)
theory WaveDag
  imports PyValue CycleSearch
begin

text \<open>
  The data of \<open>wave_scheduler.py\<close> and its validation: \<open>LaneSpec\<close>, \<open>WaveSpec\<close> with
  its normalising constructor, and \<open>validate\<close> with the cycle search of
  \<open>CycleSearch\<close>.  The public functions of the module start with \<open>_coerce_spec\<close>; the
  definitions below take the coerced \<open>WaveSpec\<close>, and \<open>with_spec\<close> puts the
  coercion in front.
\<close>

section \<open>Lanes and waves\<close>

record lane_spec =
  depends_on :: "lane_id list"
  lane_paths :: "string list"
  weight :: int

record wave_spec =
  wave :: string
  lanes :: "(lane_id \<times> lane_spec) list"

fun string_items :: "pyval list \<Rightarrow> string list result" where
  "string_items [] = Inr []"
| "string_items (v # vs) =
     (case v of
        PStr s \<Rightarrow> if s = [] then Inl ValueError else bind_result (string_items vs) (\<lambda>ss. Inr (s # ss))
      | _ \<Rightarrow> Inl ValueError)"

definition string_tuple :: "pyval \<Rightarrow> string list result" where
  "string_tuple v =
     (case v of
        PNone \<Rightarrow> Inr []
      | PList vs \<Rightarrow> bind_result (string_items vs) (\<lambda>ss. Inr (sort (remdups ss)))
      | PTuple vs \<Rightarrow> bind_result (string_items vs) (\<lambda>ss. Inr (sort (remdups ss)))
      | _ \<Rightarrow> Inl TypeError)"

text \<open>A lane is given as a mapping or as a \<open>LaneSpec\<close> object; both are read by field name.\<close>

definition raw_fields :: "pyval \<Rightarrow> (string \<Rightarrow> pyval option) option" where
  "raw_fields v =
     (case v of
        PObj c fs \<Rightarrow> if c = ''LaneSpec'' then Some (map_of fs) else None
      | PDict _ \<Rightarrow> Some (py_lookup v)
      | _ \<Rightarrow> None)"

definition field_or :: "(string \<Rightarrow> pyval option) \<Rightarrow> string \<Rightarrow> pyval \<Rightarrow> pyval" where
  "field_or get k v = (case get k of None \<Rightarrow> v | Some x \<Rightarrow> x)"

definition coerce_weight :: "pyval \<Rightarrow> int result" where
  "coerce_weight v =
     (case v of PInt w \<Rightarrow> if w < 0 then Inl ValueError else Inr w | _ \<Rightarrow> Inl TypeError)"

definition coerce_lane :: "pyval \<Rightarrow> lane_spec result" where
  "coerce_lane raw =
     (case raw_fields raw of
        None \<Rightarrow> Inl TypeError
      | Some get \<Rightarrow>
          bind_result (string_tuple (field_or get ''depends_on'' (PTuple []))) (\<lambda>ds.
          bind_result (string_tuple (field_or get ''paths'' (PTuple []))) (\<lambda>ps.
          bind_result (coerce_weight (field_or get ''weight'' (PInt 1))) (\<lambda>w.
          Inr \<lparr>depends_on = ds, lane_paths = ps, weight = w\<rparr>))))"

fun normalize_lanes :: "(pyval \<times> pyval) list \<Rightarrow> (lane_id \<times> lane_spec) list result" where
  "normalize_lanes [] = Inr []"
| "normalize_lanes ((k, raw) # rest) =
     (case k of
        PStr l \<Rightarrow>
          if l = [] then Inl ValueError
          else bind_result (coerce_lane raw) (\<lambda>x. bind_result (normalize_lanes rest) (\<lambda>ys. Inr ((l, x) # ys)))
      | _ \<Rightarrow> Inl ValueError)"

text \<open>\<open>WaveSpec(wave=..., lanes=...)\<close> with its \<open>__post_init__\<close>.\<close>

definition make_wave_spec :: "pyval \<Rightarrow> pyval \<Rightarrow> wave_spec result" where
  "make_wave_spec w ls =
     (case w of
        PStr name \<Rightarrow>
          (case ls of
             PDict kvs \<Rightarrow>
               bind_result (normalize_lanes kvs) (\<lambda>xs. Inr \<lparr>wave = name, lanes = sort_key fst xs\<rparr>)
           | _ \<Rightarrow> Inl TypeError)
      | _ \<Rightarrow> Inl TypeError)"

definition from_dict :: "pyval \<Rightarrow> wave_spec result" where
  "from_dict data =
     (if \<not> is_mapping data then Inl TypeError
      else case py_lookup data ''wave'' of
        None \<Rightarrow> Inl ValueError
      | Some w \<Rightarrow>
          if \<not> is_pstr w then Inl TypeError
          else if \<not> is_mapping (py_get data ''lanes'') then Inl TypeError
          else make_wave_spec w (py_get data ''lanes''))"

datatype spec_input = SpecObj wave_spec | SpecRaw pyval

fun coerce_spec :: "spec_input \<Rightarrow> wave_spec result" where
  "coerce_spec (SpecObj sp) = Inr sp"
| "coerce_spec (SpecRaw d) = from_dict d"

definition with_spec :: "(wave_spec \<Rightarrow> 'a result) \<Rightarrow> spec_input \<Rightarrow> 'a result" where
  "with_spec f i = bind_result (coerce_spec i) f"

section \<open>Reading a wave\<close>

definition lane_ids :: "wave_spec \<Rightarrow> lane_id list" where
  "lane_ids sp = map fst (lanes sp)"

definition deps_of :: "wave_spec \<Rightarrow> lane_id \<Rightarrow> lane_id list" where
  "deps_of sp l = (case map_of (lanes sp) l of None \<Rightarrow> [] | Some x \<Rightarrow> depends_on x)"

definition lane_weight :: "wave_spec \<Rightarrow> lane_id \<Rightarrow> int" where
  "lane_weight sp l = (case map_of (lanes sp) l of None \<Rightarrow> 0 | Some x \<Rightarrow> weight x)"

definition paths_of :: "wave_spec \<Rightarrow> lane_id \<Rightarrow> string list" where
  "paths_of sp l = (case map_of (lanes sp) l of None \<Rightarrow> [] | Some x \<Rightarrow> lane_paths x)"

text \<open>What the constructor establishes.\<close>

definition wf_lane :: "lane_spec \<Rightarrow> bool" where
  "wf_lane x \<longleftrightarrow>
     sorted (depends_on x) \<and> distinct (depends_on x) \<and> [] \<notin> set (depends_on x) \<and>
     sorted (lane_paths x) \<and> distinct (lane_paths x) \<and> [] \<notin> set (lane_paths x) \<and> 0 \<le> weight x"

definition wf_spec :: "wave_spec \<Rightarrow> bool" where
  "wf_spec sp \<longleftrightarrow>
     sorted (lane_ids sp) \<and> distinct (lane_ids sp) \<and> [] \<notin> set (lane_ids sp) \<and>
     (\<forall>(l, x) \<in> set (lanes sp). wf_lane x)"

section \<open>Validation\<close>

datatype problem =
    SelfDependency lane_id
  | DanglingDependency lane_id lane_id
  | NonCanonicalPath lane_id string
  | CycleProblem "lane_id list"

definition path_non_canonical :: "string \<Rightarrow> bool" where
  "path_non_canonical p \<longleftrightarrow>
     CHR 92 \<in> set p \<or> list_ex (\<lambda>seg. seg = [] \<or> seg = ''.'' \<or> seg = ''..'') (split_char CHR ''/'' p)"

definition non_canonical_owned_paths :: "wave_spec \<Rightarrow> problem list" where
  "non_canonical_owned_paths sp =
     concat (map (\<lambda>(l, x). map (NonCanonicalPath l) (filter path_non_canonical (lane_paths x))) (lanes sp))"

definition dependency_problems :: "wave_spec \<Rightarrow> problem list" where
  "dependency_problems sp =
     concat (map (\<lambda>(l, x). concat (map (\<lambda>d.
        if d = l then [SelfDependency l]
        else if d \<notin> set (lane_ids sp) then [DanglingDependency l d]
        else []) (depends_on x))) (lanes sp))"

text \<open>The children of a lane: the lanes that depend on it, sorted; self edges are left out.\<close>

definition cycle_adjacency :: "wave_spec \<Rightarrow> lane_id \<Rightarrow> lane_id list" where
  "cycle_adjacency sp d =
     (if d \<in> set (lane_ids sp)
      then sort (concat (map (\<lambda>(l, x). map (\<lambda>_. l) (filter (\<lambda>d'. d' = d \<and> d' \<noteq> l) (depends_on x))) (lanes sp)))
      else [])"

definition cycle_problems :: "wave_spec \<Rightarrow> problem list" where
  "cycle_problems sp = map CycleProblem (find_cycles (lane_ids sp) (cycle_adjacency sp))"

definition validate :: "wave_spec \<Rightarrow> problem list" where
  "validate sp = dependency_problems sp @ non_canonical_owned_paths sp @ cycle_problems sp"

section \<open>The constructor establishes the invariant\<close>

lemma string_items_nonempty: "string_items vs = Inr ss \<Longrightarrow> [] \<notin> set ss"
  by (induction vs arbitrary: ss) (auto simp: bind_result_Inr_iff split: pyval.splits if_splits)

lemma string_tuple_normal:
  "string_tuple v = Inr ss \<Longrightarrow> sorted ss \<and> distinct ss \<and> [] \<notin> set ss"
  by (auto simp: string_tuple_def bind_result_Inr_iff dest: string_items_nonempty split: pyval.splits)

lemma coerce_lane_wf: "coerce_lane raw = Inr x \<Longrightarrow> wf_lane x"
  by (auto simp: coerce_lane_def bind_result_Inr_iff wf_lane_def coerce_weight_def
      dest: string_tuple_normal split: option.splits pyval.splits if_splits)

lemma normalize_lanes_Inr:
  "normalize_lanes kvs = Inr ys \<Longrightarrow>
     map fst kvs = map (PStr \<circ> fst) ys \<and> [] \<notin> set (map fst ys) \<and> (\<forall>(l, x) \<in> set ys. wf_lane x)"
proof (induction kvs arbitrary: ys)
  case Nil
  then show ?case by simp
next
  case (Cons kv kvs)
  obtain k raw where kv: "kv = (k, raw)" by (cases kv)
  with Cons.prems obtain l x zs where "k = PStr l" "l \<noteq> []" "coerce_lane raw = Inr x"
    "normalize_lanes kvs = Inr zs" "ys = (l, x) # zs"
    by (auto simp: bind_result_Inr_iff split: pyval.splits if_splits)
  with Cons.IH [of zs] kv show ?case by (auto dest: coerce_lane_wf)
qed

lemma make_wave_spec_wf:
  assumes "make_wave_spec w (PDict kvs) = Inr sp" and "distinct (map fst kvs)"
  shows "wf_spec sp"
proof -
  obtain name ys where ys: "normalize_lanes kvs = Inr ys" and sp: "sp = \<lparr>wave = name, lanes = sort_key fst ys\<rparr>"
    using assms(1) by (auto simp: make_wave_spec_def bind_result_Inr_iff split: pyval.splits)
  have keys: "map fst kvs = map (PStr \<circ> fst) ys" and "[] \<notin> set (map fst ys)"
    and lanes: "\<forall>(l, x) \<in> set ys. wf_lane x"
    using normalize_lanes_Inr [OF ys] by auto
  have "distinct (map fst ys)"
    using assms(2) unfolding keys by (auto simp: distinct_map inj_on_def)
  then have "distinct (map fst (sort_key fst ys))" by (simp add: distinct_map)
  with \<open>[] \<notin> set (map fst ys)\<close> lanes show ?thesis
    by (auto simp: wf_spec_def lane_ids_def sp)
qed

section \<open>What an empty list of problems means\<close>

definition dep_rel :: "wave_spec \<Rightarrow> (lane_id \<times> lane_id) set" where
  "dep_rel sp = {(d, l). l \<in> set (lane_ids sp) \<and> d \<in> set (deps_of sp l)}"

definition wave_ok :: "wave_spec \<Rightarrow> bool" where
  "wave_ok sp \<longleftrightarrow>
     (\<forall>l \<in> set (lane_ids sp). set (deps_of sp l) \<subseteq> set (lane_ids sp)) \<and>
     acyclic (dep_rel sp) \<and>
     (\<forall>l \<in> set (lane_ids sp). \<forall>p \<in> set (paths_of sp l). \<not> path_non_canonical p)"

lemma lanes_lookup:
  assumes "wf_spec sp"
  shows "(l, x) \<in> set (lanes sp) \<longleftrightarrow> map_of (lanes sp) l = Some x"
  using assms by (auto simp: wf_spec_def lane_ids_def map_of_eq_Some_iff)

lemma lane_ids_lookup: "l \<in> set (lane_ids sp) \<longleftrightarrow> (\<exists>x. map_of (lanes sp) l = Some x)"
  using map_of_eq_None_iff [of "lanes sp" l] by (auto simp: lane_ids_def)

lemma deps_of_lane: "wf_spec sp \<Longrightarrow> (l, x) \<in> set (lanes sp) \<Longrightarrow> deps_of sp l = depends_on x"
  by (simp add: deps_of_def lanes_lookup)

lemma paths_of_lane: "wf_spec sp \<Longrightarrow> (l, x) \<in> set (lanes sp) \<Longrightarrow> paths_of sp l = lane_paths x"
  by (simp add: paths_of_def lanes_lookup)

lemma lane_ids_lane: "l \<in> set (lane_ids sp) \<Longrightarrow> \<exists>x. (l, x) \<in> set (lanes sp)"
  by (auto simp: lane_ids_def)

lemma deps_of_wf: "wf_spec sp \<Longrightarrow> sorted (deps_of sp l) \<and> distinct (deps_of sp l)"
  by (auto simp: deps_of_def wf_spec_def wf_lane_def dest!: map_of_SomeD split: option.split)

lemma lane_weight_nonneg: "wf_spec sp \<Longrightarrow> 0 \<le> lane_weight sp l"
  by (auto simp: lane_weight_def wf_spec_def wf_lane_def dest!: map_of_SomeD split: option.split)

lemma cycle_adjacency_set:
  assumes "wf_spec sp"
  shows "l \<in> set (cycle_adjacency sp d) \<longleftrightarrow>
    d \<in> set (lane_ids sp) \<and> l \<in> set (lane_ids sp) \<and> d \<in> set (deps_of sp l) \<and> d \<noteq> l"
proof -
  have "l \<in> set (cycle_adjacency sp d) \<longleftrightarrow>
      d \<in> set (lane_ids sp) \<and> (\<exists>x. (l, x) \<in> set (lanes sp) \<and> d \<in> set (depends_on x) \<and> d \<noteq> l)"
    by (auto simp: cycle_adjacency_def)
  also have "\<dots> \<longleftrightarrow> d \<in> set (lane_ids sp) \<and> l \<in> set (lane_ids sp) \<and> d \<in> set (deps_of sp l) \<and> d \<noteq> l"
  proof -
    have "(\<exists>x. (l, x) \<in> set (lanes sp) \<and> d \<in> set (depends_on x) \<and> d \<noteq> l) \<longleftrightarrow>
        l \<in> set (lane_ids sp) \<and> d \<in> set (deps_of sp l) \<and> d \<noteq> l"
      by (auto simp: lane_ids_lookup lanes_lookup [OF assms] deps_of_def)
    then show ?thesis by blast
  qed
  finally show ?thesis .
qed

interpretation wave_digraph: digraph "lane_ids sp" "cycle_adjacency sp" for sp
  by unfold_locales (force simp: cycle_adjacency_def lane_ids_def split: if_splits)

lemma concat_map_pairs_Nil:
  "concat (map (\<lambda>(l, x). f l x) ls) = [] \<longleftrightarrow> (\<forall>(l, x) \<in> set ls. f l x = [])"
  by (induction ls) auto

lemma dependency_problems_of_lane:
  "concat (map (\<lambda>d. if d = l then [SelfDependency l]
      else if d \<notin> V then [DanglingDependency l d] else []) ds) = [] \<longleftrightarrow>
    (\<forall>d \<in> set ds. d \<noteq> l \<and> d \<in> V)"
  by (induction ds) auto

lemma dependency_problems_Nil:
  assumes "wf_spec sp"
  shows "dependency_problems sp = [] \<longleftrightarrow>
    (\<forall>l \<in> set (lane_ids sp). \<forall>d \<in> set (deps_of sp l). d \<noteq> l \<and> d \<in> set (lane_ids sp))"
proof -
  have "dependency_problems sp = [] \<longleftrightarrow>
      (\<forall>(l, x) \<in> set (lanes sp). \<forall>d \<in> set (depends_on x). d \<noteq> l \<and> d \<in> set (lane_ids sp))"
    by (simp only: dependency_problems_def concat_map_pairs_Nil dependency_problems_of_lane)
  then show ?thesis
    using deps_of_lane [OF assms] by (force simp: lane_ids_def)
qed

lemma non_canonical_Nil:
  assumes "wf_spec sp"
  shows "non_canonical_owned_paths sp = [] \<longleftrightarrow>
    (\<forall>l \<in> set (lane_ids sp). \<forall>p \<in> set (paths_of sp l). \<not> path_non_canonical p)"
proof -
  have "non_canonical_owned_paths sp = [] \<longleftrightarrow>
      (\<forall>(l, x) \<in> set (lanes sp). \<forall>p \<in> set (lane_paths x). \<not> path_non_canonical p)"
    by (simp only: non_canonical_owned_paths_def concat_map_pairs_Nil map_is_Nil_conv filter_empty_conv)
  then show ?thesis
    using paths_of_lane [OF assms] by (force simp: lane_ids_def)
qed

lemma cycle_problems_Nil: "cycle_problems sp = [] \<longleftrightarrow> acyclic (edge_rel (set (lane_ids sp)) (cycle_adjacency sp))"
  by (simp add: cycle_problems_def wave_digraph.find_cycles_complete)

lemma edge_rel_dep_rel:
  assumes "wf_spec sp" and "dependency_problems sp = []"
  shows "edge_rel (set (lane_ids sp)) (cycle_adjacency sp) = dep_rel sp"
  using assms by (auto simp: edge_rel_def dep_rel_def cycle_adjacency_set dependency_problems_Nil)

lemma wave_ok_no_self: "wave_ok sp \<Longrightarrow> l \<in> set (lane_ids sp) \<Longrightarrow> l \<notin> set (deps_of sp l)"
  by (auto simp: wave_ok_def acyclic_def dep_rel_def)

lemma validate_Nil:
  assumes "wf_spec sp"
  shows "validate sp = [] \<longleftrightarrow> wave_ok sp"
proof
  assume v: "validate sp = []"
  then have "dependency_problems sp = []" by (simp add: validate_def)
  with v show "wave_ok sp"
    using edge_rel_dep_rel [OF assms] cycle_problems_Nil [of sp] non_canonical_Nil [OF assms]
      dependency_problems_Nil [OF assms]
    by (auto simp: validate_def wave_ok_def)
next
  assume ok: "wave_ok sp"
  then have dep: "dependency_problems sp = []"
    using wave_ok_no_self by (auto simp: dependency_problems_Nil [OF assms] wave_ok_def)
  then show "validate sp = []"
    using ok edge_rel_dep_rel [OF assms dep] cycle_problems_Nil [of sp] non_canonical_Nil [OF assms]
    by (auto simp: validate_def wave_ok_def)
qed

lemma validate_cycle_sound:
  assumes "wf_spec sp" and "CycleProblem c \<in> set (validate sp)"
  shows "c \<noteq> [] \<and> distinct c \<and> set c \<subseteq> set (lane_ids sp) \<and>
    successively (\<lambda>x y. x \<in> set (deps_of sp y) \<and> x \<noteq> y) (c @ [hd c])"
proof -
  have "c \<in> set (find_cycles (lane_ids sp) (cycle_adjacency sp))"
    using assms(2)
    by (auto simp: validate_def cycle_problems_def dependency_problems_def non_canonical_owned_paths_def
        split: if_splits)
  then have c: "is_cycle (cycle_adjacency sp) c" and sub: "set c \<subseteq> set (lane_ids sp)"
    using wave_digraph.find_cycles_sound by auto
  have "successively (\<lambda>x y. y \<in> set (cycle_adjacency sp x)) (c @ [hd c])"
    using c by (simp add: is_cycle_def)
  then have "successively (\<lambda>x y. x \<in> set (deps_of sp y) \<and> x \<noteq> y) (c @ [hd c])"
    by (rule successively_mono) (simp add: cycle_adjacency_set [OF assms(1)])
  with c sub show ?thesis by (simp add: is_cycle_def)
qed

end
