(* ===== verification/KahnOrder.thy ===== *)
theory KahnOrder
  imports Prelude "HOL-Library.While_Combinator"
begin

text \<open>
  Kahn's algorithm with a heap of ready nodes, the loop that \<open>_topological_order\<close>
  and \<open>integration_order\<close> of \<open>wave_scheduler.py\<close> share.  The heap of \<open>heapq\<close> is a
  sorted list.  The locale \<open>dep_graph\<close> is what both callers promise about their
  \<open>indegree\<close> and \<open>forward\<close> tables; inside it the loop is shown to emit, at every
  position, the least node whose dependencies are all emitted, until none is left.
\<close>

section \<open>The loop\<close>

definition heap_push :: "'a::linorder \<Rightarrow> 'a list \<Rightarrow> 'a list" where
  "heap_push x h = insort x h"

definition heapify :: "'a::linorder list \<Rightarrow> 'a list" where
  "heapify xs = sort xs"

record 'a kahn =
  indegree :: "'a \<Rightarrow> int"
  ready :: "'a list"
  emitted :: "'a list"

definition relax :: "'a::linorder \<Rightarrow> ('a \<Rightarrow> int) \<times> 'a list \<Rightarrow> ('a \<Rightarrow> int) \<times> 'a list" where
  "relax child = (\<lambda>(deg, rd).
     let deg' = deg(child := deg child - 1)
     in (deg', if deg' child = 0 then heap_push child rd else rd))"

definition kahn_step :: "('a::linorder \<Rightarrow> 'a list) \<Rightarrow> 'a kahn \<Rightarrow> 'a kahn" where
  "kahn_step fwd s =
     (case ready s of
        [] \<Rightarrow> s
      | x # h \<Rightarrow>
          (let (deg, rd) = fold relax (fwd x) (indegree s, h)
           in \<lparr>indegree = deg, ready = rd, emitted = emitted s @ [x]\<rparr>))"

definition kahn_start :: "'a::linorder list \<Rightarrow> ('a \<Rightarrow> int) \<Rightarrow> 'a kahn" where
  "kahn_start nodes deg =
     \<lparr>indegree = deg, ready = heapify (filter (\<lambda>l. deg l = 0) nodes), emitted = []\<rparr>"

definition kahn_order :: "'a::linorder list \<Rightarrow> ('a \<Rightarrow> int) \<Rightarrow> ('a \<Rightarrow> 'a list) \<Rightarrow> 'a list" where
  "kahn_order nodes deg fwd =
     emitted (while (\<lambda>s. ready s \<noteq> []) (kahn_step fwd) (kahn_start nodes deg))"

section \<open>What the order is\<close>

text \<open>
  The nodes that may come next after a set of emitted ones, and the lists that
  always take the least of them.
\<close>

definition avail :: "('a \<Rightarrow> 'a list) \<Rightarrow> 'a set \<Rightarrow> 'a set \<Rightarrow> 'a set" where
  "avail deps V D = {l \<in> V. l \<notin> D \<and> set (deps l) \<subseteq> D}"

definition least_first :: "('a::linorder \<Rightarrow> 'a list) \<Rightarrow> 'a set \<Rightarrow> 'a list \<Rightarrow> bool" where
  "least_first deps V xs \<longleftrightarrow>
     (\<forall>i < length xs. xs ! i \<in> avail deps V (set (take i xs)) \<and>
        (\<forall>l \<in> avail deps V (set (take i xs)). xs ! i \<le> l))"

lemma least_first_Nil [simp]: "least_first deps V []"
  by (simp add: least_first_def)

lemma least_first_snoc:
  "least_first deps V (xs @ [x]) \<longleftrightarrow>
     least_first deps V xs \<and> x \<in> avail deps V (set xs) \<and> (\<forall>l \<in> avail deps V (set xs). x \<le> l)"
  by (auto simp: least_first_def nth_append less_Suc_eq)

lemma least_first_subset: "least_first deps V xs \<Longrightarrow> set xs \<subseteq> V"
  by (auto simp: least_first_def avail_def in_set_conv_nth)

lemma least_first_distinct: "least_first deps V xs \<Longrightarrow> distinct xs"
  by (induction xs rule: rev_induct) (auto simp: least_first_snoc avail_def)

lemma least_first_deps_before:
  "least_first deps V xs \<Longrightarrow> i < length xs \<Longrightarrow> d \<in> set (deps (xs ! i)) \<Longrightarrow> d \<in> set (take i xs)"
  by (auto simp: least_first_def avail_def)

lemma least_first_deps_closed:
  "least_first deps V xs \<Longrightarrow> x \<in> set xs \<Longrightarrow> set (deps x) \<subseteq> set xs"
proof -
  assume lf: "least_first deps V xs" and "x \<in> set xs"
  then obtain i where "i < length xs" "xs ! i = x" by (auto simp: in_set_conv_nth)
  then show "set (deps x) \<subseteq> set xs"
    using least_first_deps_before [OF lf] by (auto dest: in_set_takeD)
qed

lemma least_first_butlast: "least_first deps V (xs @ ys) \<Longrightarrow> least_first deps V xs"
proof (induction ys rule: rev_induct)
  case (snoc y ys)
  then show ?case by (simp add: least_first_snoc flip: append_assoc)
qed simp

text \<open>At most one list takes the least node everywhere and stops only when none is left.\<close>

lemma least_first_prefix_unique:
  assumes "least_first deps V xs" and "least_first deps V ys" and "length xs \<le> length ys"
  shows "xs = take (length xs) ys"
  using assms
proof (induction xs rule: rev_induct)
  case Nil
  then show ?case by simp
next
  case (snoc x xs)
  let ?n = "length xs"
  have "xs = take ?n ys"
    using snoc.IH snoc.prems by (simp add: least_first_snoc)
  then have same: "set (take ?n ys) = set xs" by simp
  have x: "x \<in> avail deps V (set xs)" "\<forall>l \<in> avail deps V (set xs). x \<le> l"
    using snoc.prems(1) by (simp_all add: least_first_snoc)
  have "?n < length ys" using snoc.prems(3) by simp
  then have "ys ! ?n \<in> avail deps V (set xs)" "\<forall>l \<in> avail deps V (set xs). ys ! ?n \<le> l"
    using snoc.prems(2) unfolding least_first_def same [symmetric] by blast+
  with x have "ys ! ?n = x" by (auto intro: antisym)
  moreover note \<open>xs = take ?n ys\<close>
  ultimately show ?case
    using snoc.prems(3) by (simp add: take_Suc_conv_app_nth)
qed

lemma least_first_unique:
  assumes xs: "least_first deps V xs" "avail deps V (set xs) = {}"
    and ys: "least_first deps V ys" "avail deps V (set ys) = {}"
  shows "xs = ys"
proof -
  have stuck: "length vs \<le> length us"
    if "least_first deps V us" "avail deps V (set us) = {}" "least_first deps V vs"
      "us = take (length us) vs" for us vs
  proof (rule ccontr)
    assume "\<not> length vs \<le> length us"
    then have "vs ! length us \<in> avail deps V (set (take (length us) vs))"
      using that(3) by (simp add: least_first_def)
    with that(2,4) show False by simp
  qed
  show ?thesis
  proof (cases "length xs \<le> length ys")
    case True
    then have "xs = take (length xs) ys" using xs ys by (intro least_first_prefix_unique) auto
    with stuck [OF xs ys(1)] True show ?thesis by simp
  next
    case False
    then have "ys = take (length ys) xs" using xs ys by (intro least_first_prefix_unique) auto
    with stuck [OF ys xs(1)] False show ?thesis by simp
  qed
qed

section \<open>One pass over the children of a node\<close>

lemma relax_apply:
  "relax c (deg, rd) = (deg(c := deg c - 1), if deg c = 1 then insort c rd else rd)"
  by (simp add: relax_def heap_push_def)

lemma fold_relax_degree: "fst (fold relax cs (deg, rd)) l = deg l - int (count_list cs l)"
  by (induction cs arbitrary: deg rd) (auto simp: relax_apply)

lemma fold_relax_ready:
  "set (snd (fold relax cs (deg, rd))) =
     set rd \<union> {l. 1 \<le> deg l \<and> deg l \<le> int (count_list cs l)}"
proof (induction cs arbitrary: deg rd)
  case Nil
  show ?case by auto
next
  case (Cons c cs)
  show ?case
    unfolding fold.simps comp_apply relax_apply Cons.IH
    by (auto simp: set_insort_key)
qed

lemma fold_relax_sorted: "sorted rd \<Longrightarrow> sorted (snd (fold relax cs (deg, rd)))"
  by (induction cs arbitrary: deg rd) (auto simp: relax_apply sorted_insort)

lemma fold_relax_distinct:
  "distinct rd \<Longrightarrow> \<forall>l \<in> set rd. deg l \<le> 0 \<Longrightarrow> distinct (snd (fold relax cs (deg, rd)))"
proof (induction cs arbitrary: deg rd)
  case Nil
  then show ?case by simp
next
  case (Cons c cs)
  show ?case
    unfolding fold.simps comp_apply relax_apply
    by (rule Cons.IH) (use Cons.prems in \<open>auto simp: distinct_insort set_insort_key\<close>)
qed

section \<open>Correctness, for any caller's tables\<close>

lemma length_filter_remove:
  "x \<notin> D \<Longrightarrow>
     length (filter (\<lambda>d. d \<notin> insert x D) ds) + count_list ds x = length (filter (\<lambda>d. d \<notin> D) ds)"
  by (induction ds) auto

text \<open>
  A caller builds a graph \<open>g\<close> (kept well formed by \<open>invar\<close>): the candidate nodes, the
  dependencies counted in \<open>indegree\<close>, and the \<open>forward\<close> lists that the loop decrements.
  The law is that \<open>forward\<close> lists a candidate once for each time it depends on the node.
\<close>

locale dep_graph =
  fixes invar :: "'g \<Rightarrow> bool"
    and cands :: "'g \<Rightarrow> 'a::linorder list"
    and deps :: "'g \<Rightarrow> 'a \<Rightarrow> 'a list"
    and fwd :: "'g \<Rightarrow> 'a \<Rightarrow> 'a list"
  assumes cands_distinct: "invar g \<Longrightarrow> distinct (cands g)"
    and fwd_cands: "invar g \<Longrightarrow> d \<in> set (cands g) \<Longrightarrow> set (fwd g d) \<subseteq> set (cands g)"
    and fwd_count: "invar g \<Longrightarrow> d \<in> set (cands g) \<Longrightarrow> l \<in> set (cands g) \<Longrightarrow>
      count_list (fwd g d) l = count_list (deps g l) d"
begin

definition degree :: "'g \<Rightarrow> 'a \<Rightarrow> int" where
  "degree g l = int (length (deps g l))"

definition kahn_inv :: "'g \<Rightarrow> 'a kahn \<Rightarrow> bool" where
  "kahn_inv g s \<longleftrightarrow>
     least_first (deps g) (set (cands g)) (emitted s) \<and> sorted (ready s) \<and> distinct (ready s) \<and>
     set (ready s) = avail (deps g) (set (cands g)) (set (emitted s)) \<and>
     (\<forall>l \<in> set (cands g). indegree s l = int (length (filter (\<lambda>d. d \<notin> set (emitted s)) (deps g l))))"

lemma kahn_inv_start:
  assumes "invar g"
  shows "kahn_inv g (kahn_start (cands g) (degree g))"
  using cands_distinct [OF assms]
  by (auto simp: kahn_inv_def kahn_start_def heapify_def avail_def degree_def)

lemma kahn_inv_zero:
  assumes "kahn_inv g s" and "l \<in> set (cands g)"
  shows "indegree s l = 0 \<longleftrightarrow> set (deps g l) \<subseteq> set (emitted s)"
  using assms by (auto simp: kahn_inv_def filter_empty_conv)

lemma kahn_inv_step:
  assumes g: "invar g" and inv: "kahn_inv g s" and rd: "ready s = x # h"
  shows "kahn_inv g (kahn_step (fwd g) s)"
proof -
  define deg' rd' where "deg' = fst (fold relax (fwd g x) (indegree s, h))"
    and "rd' = snd (fold relax (fwd g x) (indegree s, h))"
  let ?C = "set (cands g)" and ?E = "set (emitted s)"
  have step: "kahn_step (fwd g) s = \<lparr>indegree = deg', ready = rd', emitted = emitted s @ [x]\<rparr>"
    using rd by (simp add: kahn_step_def deg'_def rd'_def split: prod.split)
  have lf: "least_first (deps g) ?C (emitted s)" using inv by (simp add: kahn_inv_def)
  have sorted: "sorted (x # h)" and dist: "distinct (x # h)"
    and avail: "set (x # h) = avail (deps g) ?C ?E"
    using inv rd by (auto simp: kahn_inv_def)
  have x: "x \<in> avail (deps g) ?C ?E" and least: "\<forall>l \<in> avail (deps g) ?C ?E. x \<le> l"
    using sorted avail by auto
  then have xC: "x \<in> ?C" and xE: "x \<notin> ?E" by (auto simp: avail_def)
  have deg: "deg' l = int (length (filter (\<lambda>d. d \<notin> set (emitted s @ [x])) (deps g l)))"
    if "l \<in> ?C" for l
    using inv that fwd_count [OF g xC that] length_filter_remove [OF xE, of "deps g l"]
    by (simp add: deg'_def fold_relax_degree kahn_inv_def)
  have zero: "deg' l = 0 \<longleftrightarrow> set (deps g l) \<subseteq> insert x ?E" if "l \<in> ?C" for l
    using deg [OF that] by (auto simp: filter_empty_conv)
  have old: "deg' l = indegree s l - int (count_list (fwd g x) l)" for l
    by (simp add: deg'_def fold_relax_degree)
  have nonneg: "0 \<le> deg' l" if "l \<in> ?C" for l using deg [OF that] by simp
  have "l \<in> set rd' \<longleftrightarrow> l \<in> avail (deps g) ?C (set (emitted s @ [x]))" for l
  proof (cases "l \<in> ?C")
    case False
    then have "count_list (fwd g x) l = 0"
      using fwd_cands [OF g xC] by (auto simp: count_list_0_iff)
    then show ?thesis
      using False avail by (auto simp: rd'_def fold_relax_ready avail_def)
  next
    case True
    have h: "l \<in> set h \<longleftrightarrow> l \<noteq> x \<and> l \<notin> ?E \<and> indegree s l = 0"
      using avail dist kahn_inv_zero [OF inv True] True by (auto simp: avail_def)
    have past: "indegree s l = 0" if "l \<in> insert x ?E"
      using that x least_first_deps_closed [OF lf] kahn_inv_zero [OF inv True]
      by (auto simp: avail_def)
    have "l \<in> set rd' \<longleftrightarrow> l \<in> set h \<or> 1 \<le> indegree s l \<and> deg' l = 0"
      using nonneg [OF True] old [of l] by (auto simp: rd'_def fold_relax_ready)
    then show ?thesis
      using h past zero [OF True] old [of l] nonneg [OF True] True by (auto simp: avail_def)
  qed
  then have "set rd' = avail (deps g) ?C (set (emitted s @ [x]))" by blast
  moreover have "sorted rd'" using sorted by (simp add: rd'_def fold_relax_sorted)
  moreover have "distinct rd'"
  proof -
    have "indegree s l = 0" if "l \<in> set h" for l
    proof -
      have "l \<in> avail (deps g) ?C ?E" using that unfolding avail [symmetric] by simp
      then show ?thesis using kahn_inv_zero [OF inv, of l] by (simp add: avail_def)
    qed
    then have "\<forall>l \<in> set h. indegree s l \<le> 0" by simp
    then show ?thesis using dist by (simp add: rd'_def fold_relax_distinct)
  qed
  ultimately show ?thesis
    using lf x least deg by (simp add: step kahn_inv_def least_first_snoc)
qed

lemma kahn_inv_stuck:
  "kahn_inv g s \<Longrightarrow> ready s = [] \<Longrightarrow>
     least_first (deps g) (set (cands g)) (emitted s) \<and> avail (deps g) (set (cands g)) (set (emitted s)) = {}"
  by (simp add: kahn_inv_def)

lemma kahn_inv_step':
  "invar g \<Longrightarrow> kahn_inv g s \<Longrightarrow> ready s \<noteq> [] \<Longrightarrow> kahn_inv g (kahn_step (fwd g) s)"
  using kahn_inv_step by (auto simp: neq_Nil_conv)

lemma kahn_measure:
  assumes "invar g" and "kahn_inv g s" and "ready s \<noteq> []"
  shows "length (cands g) - length (emitted (kahn_step (fwd g) s)) < length (cands g) - length (emitted s)"
proof -
  obtain x h where rd: "ready s = x # h" using assms(3) by (cases "ready s") auto
  let ?t = "kahn_step (fwd g) s"
  have "least_first (deps g) (set (cands g)) (emitted ?t)"
    using kahn_inv_step [OF assms(1,2) rd] by (simp add: kahn_inv_def)
  then have "length (emitted ?t) \<le> length (cands g)"
    using least_first_subset least_first_distinct cands_distinct [OF assms(1)]
    by (metis card_mono distinct_card finite_set)
  moreover have "length (emitted ?t) = Suc (length (emitted s))"
    using rd by (simp add: kahn_step_def split: prod.split)
  ultimately show ?thesis by simp
qed

lemma kahn_terminates:
  assumes "invar g"
  shows "\<exists>t. while_option (\<lambda>s. ready s \<noteq> []) (kahn_step (fwd g)) (kahn_start (cands g) (degree g)) = Some t"
  by (rule measure_while_option_Some
      [where P = "kahn_inv g" and f = "\<lambda>s. length (cands g) - length (emitted s)"])
     (use kahn_inv_step' kahn_measure kahn_inv_start assms in auto)

lemma kahn_order_spec:
  assumes "invar g"
  defines "xs \<equiv> kahn_order (cands g) (degree g) (fwd g)"
  shows "least_first (deps g) (set (cands g)) xs \<and> avail (deps g) (set (cands g)) (set xs) = {}"
  unfolding xs_def kahn_order_def
  by (rule while_rule [where P = "kahn_inv g"
        and r = "measure (\<lambda>s. length (cands g) - length (emitted s))"])
     (use kahn_inv_step' kahn_measure kahn_inv_start kahn_inv_stuck assms in auto)

text \<open>A node is emitted exactly when all its ancestors are candidates, if no candidate depends on itself.\<close>

lemma kahn_order_set:
  assumes g: "invar g" and acyc: "acyclic {(d, l). l \<in> set (cands g) \<and> d \<in> set (deps g l)}"
  shows "set (kahn_order (cands g) (degree g) (fwd g)) =
    {l \<in> set (cands g). \<forall>a. (a, l) \<in> {(d, l). l \<in> set (cands g) \<and> d \<in> set (deps g l)}\<^sup>* \<longrightarrow> a \<in> set (cands g)}"
    (is "set ?xs = {l \<in> ?C. \<forall>a. (a, l) \<in> ?r\<^sup>* \<longrightarrow> a \<in> ?C}")
proof
  have lf: "least_first (deps g) ?C ?xs" and stuck: "avail (deps g) ?C (set ?xs) = {}"
    using kahn_order_spec [OF g] by auto
  have closed: "a \<in> set ?xs" if "(a, l) \<in> ?r\<^sup>*" "l \<in> set ?xs" for a l
    using that by (induction rule: converse_rtrancl_induct) (use least_first_deps_closed [OF lf] in auto)
  then show "set ?xs \<subseteq> {l \<in> ?C. \<forall>a. (a, l) \<in> ?r\<^sup>* \<longrightarrow> a \<in> ?C}"
    using least_first_subset [OF lf] by blast
  have "finite ?r"
    by (rule finite_subset [of _ "(\<Union>l \<in> ?C. set (deps g l)) \<times> ?C"]) auto
  then have "wf ?r" using acyc by (rule finite_acyclic_wf)
  have "l \<in> ?C \<longrightarrow> (\<forall>a. (a, l) \<in> ?r\<^sup>* \<longrightarrow> a \<in> ?C) \<longrightarrow> l \<in> set ?xs" for l
    using \<open>wf ?r\<close>
  proof (induction l rule: wf_induct_rule)
    case (less l)
    show ?case
    proof (intro impI)
      assume l: "l \<in> ?C" and anc: "\<forall>a. (a, l) \<in> ?r\<^sup>* \<longrightarrow> a \<in> ?C"
      have "d \<in> set ?xs" if "d \<in> set (deps g l)" for d
      proof -
        have d: "(d, l) \<in> ?r" using that l by simp
        then have "\<forall>a. (a, d) \<in> ?r\<^sup>* \<longrightarrow> a \<in> ?C" using anc by (blast intro: rtrancl_into_rtrancl)
        with less.IH [OF d] show ?thesis by blast
      qed
      then show "l \<in> set ?xs" using stuck l by (auto simp: avail_def)
    qed
  qed
  then show "{l \<in> ?C. \<forall>a. (a, l) \<in> ?r\<^sup>* \<longrightarrow> a \<in> ?C} \<subseteq> set ?xs" by blast
qed

end

end
