(* ===== verification/WaveOrder.thy ===== *)
theory WaveOrder
  imports WaveDag KahnOrder "HOL-Library.Product_Lexorder"
begin

text \<open>
  The orders and path lengths of \<open>wave_scheduler.py\<close>: \<open>_topological_order\<close>,
  \<open>integration_order\<close>, \<open>levels\<close>, \<open>width_profile\<close>, \<open>_remaining_path_lengths\<close> and
  \<open>critical_path\<close>.  A dict that a loop fills is a map; a key is read after the
  loop has written it, so \<open>get0\<close> never sees a missing one (the topological order
  gives this, and the recursion equations below state the values).
\<close>

section \<open>Definitions\<close>

definition forward_lists :: "wave_spec \<Rightarrow> lane_id \<Rightarrow> lane_id list" where
  "forward_lists sp d =
     concat (map (\<lambda>(l, x). map (\<lambda>_. l) (filter (\<lambda>d'. d' = d) (depends_on x))) (lanes sp))"

definition lane_degree :: "wave_spec \<Rightarrow> lane_id \<Rightarrow> int" where
  "lane_degree sp l = int (length (deps_of sp l))"

definition topological_order :: "wave_spec \<Rightarrow> lane_id list option" where
  "topological_order sp =
     (if validate sp \<noteq> [] then None
      else let xs = kahn_order (lane_ids sp) (lane_degree sp) (forward_lists sp)
           in if length xs = length (lanes sp) then Some xs else None)"

text \<open>
  The candidates are a Python set, whose iteration order is not specified; the
  order chosen here (that of the lanes) only permutes the lists the loop decrements.
\<close>

definition integration_candidates :: "wave_spec \<Rightarrow> lane_id set \<Rightarrow> lane_id list" where
  "integration_candidates sp don = filter (\<lambda>l. l \<in> don) (lane_ids sp)"

definition integration_forward :: "wave_spec \<Rightarrow> lane_id list \<Rightarrow> lane_id \<Rightarrow> lane_id list" where
  "integration_forward sp cs d =
     concat (map (\<lambda>l. map (\<lambda>_. l) (filter (\<lambda>d'. d' = d \<and> d' \<in> set cs) (deps_of sp l))) cs)"

definition integration_order :: "wave_spec \<Rightarrow> lane_id set \<Rightarrow> lane_id list" where
  "integration_order sp don =
     (if validate sp \<noteq> [] then []
      else let cs = integration_candidates sp don
           in kahn_order cs (lane_degree sp) (integration_forward sp cs))"

definition get0 :: "('k \<rightharpoonup> 'v::zero) \<Rightarrow> 'k \<Rightarrow> 'v" where
  "get0 m k = (case m k of None \<Rightarrow> 0 | Some v \<Rightarrow> v)"

definition level_entry :: "wave_spec \<Rightarrow> (lane_id \<rightharpoonup> nat) \<Rightarrow> lane_id \<Rightarrow> nat" where
  "level_entry sp res l =
     (if deps_of sp l = [] then 0 else 1 + Max (set (map (get0 res) (deps_of sp l))))"

definition level_table :: "wave_spec \<Rightarrow> lane_id list \<Rightarrow> (lane_id \<rightharpoonup> nat)" where
  "level_table sp order = fill_table (level_entry sp) order"

definition levels :: "wave_spec \<Rightarrow> (lane_id \<times> nat) list" where
  "levels sp =
     (case topological_order sp of
        None \<Rightarrow> []
      | Some order \<Rightarrow> map (\<lambda>l. (l, get0 (level_table sp order) l)) (sort order))"

definition width_profile :: "wave_spec \<Rightarrow> nat list" where
  "width_profile sp =
     (let ls = levels sp
      in if ls = [] then []
         else fold (\<lambda>(_, v) prof. prof[v := prof ! v + 1]) ls (replicate (Max (set (map snd ls)) + 1) 0))"

definition remaining_entry :: "wave_spec \<Rightarrow> (lane_id \<rightharpoonup> nat) \<Rightarrow> lane_id \<Rightarrow> nat" where
  "remaining_entry sp res l =
     (if forward_lists sp l = [] then 0 else Max (set (map (\<lambda>c. get0 res c + 1) (forward_lists sp l))))"

definition remaining_path_lengths :: "wave_spec \<Rightarrow> lane_id list \<Rightarrow> (lane_id \<rightharpoonup> nat)" where
  "remaining_path_lengths sp order = fill_table (remaining_entry sp) (rev order)"

text \<open>
  \<open>weight_from\<close> and \<open>next_lane\<close> are filled together: an entry is the weight of the
  best path from the lane and the child it goes to, if there is one.
\<close>

definition weight_of_entry :: "(lane_id \<rightharpoonup> int \<times> lane_id option) \<Rightarrow> lane_id \<Rightarrow> int" where
  "weight_of_entry t l = (case t l of None \<Rightarrow> 0 | Some (w, _) \<Rightarrow> w)"

definition next_of_entry :: "(lane_id \<rightharpoonup> int \<times> lane_id option) \<Rightarrow> (lane_id \<rightharpoonup> lane_id)" where
  "next_of_entry t l = (case t l of None \<Rightarrow> None | Some (_, n) \<Rightarrow> n)"

definition heaviest :: "(lane_id \<rightharpoonup> int \<times> lane_id option) \<Rightarrow> lane_id list \<Rightarrow> lane_id" where
  "heaviest t ls = arg_min_list (\<lambda>l. (- weight_of_entry t l, l)) ls"

definition weight_entry ::
    "wave_spec \<Rightarrow> (lane_id \<rightharpoonup> int \<times> lane_id option) \<Rightarrow> lane_id \<Rightarrow> int \<times> lane_id option" where
  "weight_entry sp t l =
     (if forward_lists sp l = [] then (lane_weight sp l, None)
      else let best = heaviest t (forward_lists sp l)
           in (lane_weight sp l + weight_of_entry t best, Some best))"

definition weight_table :: "wave_spec \<Rightarrow> lane_id list \<Rightarrow> (lane_id \<rightharpoonup> int \<times> lane_id option)" where
  "weight_table sp order = fill_table (weight_entry sp) (rev order)"

definition follow_step :: "(lane_id \<rightharpoonup> lane_id) \<Rightarrow> lane_id \<times> lane_id list \<Rightarrow> lane_id \<times> lane_id list" where
  "follow_step nxt = (\<lambda>(cur, path). case nxt cur of None \<Rightarrow> (cur, path) | Some n \<Rightarrow> (n, path @ [n]))"

definition follow :: "(lane_id \<rightharpoonup> lane_id) \<Rightarrow> lane_id \<Rightarrow> lane_id list" where
  "follow nxt start = snd (while (\<lambda>(cur, path). nxt cur \<noteq> None) (follow_step nxt) (start, [start]))"

definition critical_path :: "wave_spec \<Rightarrow> lane_id list" where
  "critical_path sp =
     (case topological_order sp of
        None \<Rightarrow> []
      | Some [] \<Rightarrow> []
      | Some order \<Rightarrow>
          (let t = weight_table sp order;
               roots = filter (\<lambda>l. deps_of sp l = []) (lane_ids sp)
           in follow (next_of_entry t) (heaviest t roots)))"

section \<open>The two orders\<close>

lemma forward_lists_set:
  "wf_spec sp \<Longrightarrow> l \<in> set (forward_lists sp d) \<longleftrightarrow> l \<in> set (lane_ids sp) \<and> d \<in> set (deps_of sp l)"
proof -
  assume wf: "wf_spec sp"
  have "l \<in> set (forward_lists sp d) \<longleftrightarrow> (\<exists>x. (l, x) \<in> set (lanes sp) \<and> d \<in> set (depends_on x))"
    by (force simp: forward_lists_def)
  then show ?thesis
    by (auto simp: lane_ids_lookup lanes_lookup [OF wf] deps_of_def)
qed

lemma count_list_const: "count_list (map (\<lambda>_. a) xs) l = (if l = a then length xs else 0)"
  by (induction xs) auto

lemma count_list_filter_eq: "length (filter (\<lambda>d'. d' = d) ds) = count_list ds d"
  by (induction ds) auto

lemma count_list_children:
  "distinct (map fst ls) \<Longrightarrow>
    count_list (concat (map (\<lambda>(l, x). map (\<lambda>_. l) (f l x)) ls)) l =
    (case map_of ls l of None \<Rightarrow> 0 | Some x \<Rightarrow> length (f l x))"
proof (induction ls)
  case Nil
  then show ?case by simp
next
  case (Cons kx ls)
  obtain k x where kx: "kx = (k, x)" by (cases kx)
  show ?case
    using Cons.prems kx map_of_eq_None_iff [of ls k]
    by (auto simp: Cons.IH count_list_const count_list_append split: option.split)
qed

interpretation topo: dep_graph wf_spec lane_ids deps_of forward_lists
proof
  fix sp d l assume wf: "wf_spec sp"
  show "distinct (lane_ids sp)" using wf by (simp add: wf_spec_def)
  show "set (forward_lists sp d) \<subseteq> set (lane_ids sp)" using forward_lists_set [OF wf] by blast
  have "distinct (map fst (lanes sp))" using wf by (simp add: wf_spec_def lane_ids_def)
  then show "count_list (forward_lists sp d) l = count_list (deps_of sp l) d"
    by (simp add: forward_lists_def count_list_children deps_of_def count_list_filter_eq split: option.split)
qed

lemma integration_forward_count:
  assumes "distinct cs" and "d \<in> set cs" and "l \<in> set cs"
  shows "count_list (integration_forward sp cs d) l = count_list (deps_of sp l) d"
proof -
  have "count_list (concat (map (\<lambda>l. map (\<lambda>_. l) (f l)) cs)) l = length (f l)"
    if "distinct cs" "l \<in> set cs" for f :: "lane_id \<Rightarrow> lane_id list" and cs
    using that
  proof (induction cs)
    case (Cons c cs)
    have "count_list (concat (map (\<lambda>l. map (\<lambda>_. l) (f l)) cs)) l = 0" if "l \<notin> set cs"
      using that by (auto simp: count_list_0_iff)
    with Cons show ?case by (auto simp: count_list_append count_list_const)
  qed simp
  from this [OF assms(1,3)] show ?thesis
    using assms(2) by (simp add: integration_forward_def count_list_filter_eq cong: conj_cong)
qed

interpretation integ: dep_graph "\<lambda>(sp, don). wf_spec sp" "\<lambda>(sp, don). integration_candidates sp don"
  "\<lambda>(sp, don). deps_of sp" "\<lambda>(sp, don). integration_forward sp (integration_candidates sp don)"
proof (unfold_locales, goal_cases)
  case (1 g)
  then show ?case by (auto simp: integration_candidates_def wf_spec_def split: prod.splits)
next
  case (2 g d)
  then show ?case by (auto simp: integration_forward_def split: prod.splits)
next
  case (3 g d l)
  then show ?case
    by (auto simp: integration_candidates_def wf_spec_def split: prod.splits intro!: integration_forward_count)
qed

lemma topo_degree: "topo.degree sp = lane_degree sp"
  by (simp add: fun_eq_iff topo.degree_def lane_degree_def)

lemma integ_degree: "integ.degree (sp, don) = lane_degree sp"
  by (simp add: fun_eq_iff integ.degree_def lane_degree_def)

lemma dep_rel_kahn: "{(d, l). l \<in> set (lane_ids sp) \<and> d \<in> set (deps_of sp l)} = dep_rel sp"
  by (simp add: dep_rel_def)

lemma dep_rel_ancestor_lane:
  "(a, l) \<in> (dep_rel sp)\<^sup>* \<Longrightarrow> wave_ok sp \<Longrightarrow> l \<in> set (lane_ids sp) \<Longrightarrow> a \<in> set (lane_ids sp)"
  by (induction rule: converse_rtrancl_induct) (auto simp: dep_rel_def wave_ok_def)

lemma topological_order_Some:
  assumes wf: "wf_spec sp" and ok: "wave_ok sp"
  obtains xs where "topological_order sp = Some xs" and "least_first (deps_of sp) (set (lane_ids sp)) xs"
    and "set xs = set (lane_ids sp)"
proof -
  let ?xs = "kahn_order (lane_ids sp) (lane_degree sp) (forward_lists sp)"
  have lf: "least_first (deps_of sp) (set (lane_ids sp)) ?xs"
    using topo.kahn_order_spec [OF wf] by (simp add: topo_degree)
  have "acyclic (dep_rel sp)" using ok by (simp add: wave_ok_def)
  then have set: "set ?xs = set (lane_ids sp)"
    using topo.kahn_order_set [OF wf] dep_rel_ancestor_lane [OF _ ok]
    by (auto simp: dep_rel_kahn topo_degree)
  have "length ?xs = length (lanes sp)"
    using distinct_card [OF least_first_distinct [OF lf]] distinct_card [of "lane_ids sp"] set wf
    by (simp add: wf_spec_def lane_ids_def)
  with lf set show thesis
    using that validate_Nil [OF wf] ok by (simp add: topological_order_def)
qed

lemma topological_order_None: "wf_spec sp \<Longrightarrow> topological_order sp = None \<longleftrightarrow> \<not> wave_ok sp"
  by (metis option.distinct(1) topological_order_Some topological_order_def validate_Nil)

lemma topological_order_wave_ok: "wf_spec sp \<Longrightarrow> topological_order sp = Some xs \<Longrightarrow> wave_ok sp"
  using topological_order_None by fastforce

text \<open>
  \<open>integration_order\<close> lists the lanes whose whole ancestry is done, each time the
  least one whose prerequisites are listed.
\<close>

lemma integration_order_spec:
  assumes wf: "wf_spec sp" and ok: "wave_ok sp"
  shows "set (integration_order sp don) = {l \<in> set (lane_ids sp). \<forall>a. (a, l) \<in> (dep_rel sp)\<^sup>* \<longrightarrow> a \<in> don}"
    and "least_first (deps_of sp) (set (lane_ids sp) \<inter> don) (integration_order sp don)"
proof -
  let ?cs = "integration_candidates sp don"
  let ?r = "{(d, l). l \<in> set ?cs \<and> d \<in> set (deps_of sp l)}"
  have order: "integration_order sp don = kahn_order ?cs (lane_degree sp) (integration_forward sp ?cs)"
    using validate_Nil [OF wf] ok by (simp add: integration_order_def Let_def)
  have cs: "set ?cs = set (lane_ids sp) \<inter> don" by (auto simp: integration_candidates_def)
  have sub: "?r \<subseteq> dep_rel sp" by (auto simp: dep_rel_def cs)
  then have acyc: "acyclic ?r" using ok by (auto simp: wave_ok_def intro: acyclic_subset)
  have up: "(a, l) \<in> ?r\<^sup>*" if "(a, l) \<in> (dep_rel sp)\<^sup>*" "l \<in> set ?cs" "\<forall>a. (a, l) \<in> ?r\<^sup>* \<longrightarrow> a \<in> set ?cs" for a l
    using that
  proof (induction rule: converse_rtrancl_induct)
    case (step a b)
    have bl: "(b, l) \<in> ?r\<^sup>*" using step.IH step.prems by blast
    then have "b \<in> set ?cs" using step.prems by blast
    then have "(a, b) \<in> ?r" using step.hyps(1) by (simp add: dep_rel_def)
    then show ?case using bl by (rule converse_rtrancl_into_rtrancl)
  qed blast
  have down: "(a, l) \<in> (dep_rel sp)\<^sup>*" if "(a, l) \<in> ?r\<^sup>*" for a l
    using rtrancl_mono [OF sub] that by blast
  have closed: "l \<in> set ?cs \<and> (\<forall>a. (a, l) \<in> ?r\<^sup>* \<longrightarrow> a \<in> set ?cs) \<longleftrightarrow>
      l \<in> set (lane_ids sp) \<and> (\<forall>a. (a, l) \<in> (dep_rel sp)\<^sup>* \<longrightarrow> a \<in> don)" (is "?L \<longleftrightarrow> ?R") for l
  proof
    assume L: ?L
    then have "a \<in> don" if "(a, l) \<in> (dep_rel sp)\<^sup>*" for a
      using up [OF that] cs by blast
    then show ?R using L cs by blast
  next
    assume R: ?R
    then have l: "l \<in> set ?cs" using cs by blast
    have "a \<in> set ?cs" if "(a, l) \<in> ?r\<^sup>*" for a
      using R down [OF that] dep_rel_ancestor_lane [OF down [OF that] ok] cs by blast
    then show ?L using l by blast
  qed
  have "set (integration_order sp don) = {l \<in> set ?cs. \<forall>a. (a, l) \<in> ?r\<^sup>* \<longrightarrow> a \<in> set ?cs}"
    using integ.kahn_order_set [of "(sp, don)"] wf acyc unfolding order by (simp add: integ_degree)
  then show "set (integration_order sp don) = {l \<in> set (lane_ids sp). \<forall>a. (a, l) \<in> (dep_rel sp)\<^sup>* \<longrightarrow> a \<in> don}"
    using closed by blast
  show "least_first (deps_of sp) (set (lane_ids sp) \<inter> don) (integration_order sp don)"
    using integ.kahn_order_spec [of "(sp, don)"] wf by (simp add: order integ_degree cs)
qed

section \<open>Tables over the topological order\<close>

lemma topological_order_least_first:
  assumes "wf_spec sp" and "topological_order sp = Some xs"
  shows "least_first (deps_of sp) (set (lane_ids sp)) xs" and "set xs = set (lane_ids sp)"
    and "distinct xs"
proof -
  obtain ys where "topological_order sp = Some ys"
    and ys: "least_first (deps_of sp) (set (lane_ids sp)) ys" "set ys = set (lane_ids sp)"
    by (rule topological_order_Some [OF assms(1) topological_order_wave_ok [OF assms]])
  then have "ys = xs" using assms(2) by simp
  with ys show "least_first (deps_of sp) (set (lane_ids sp)) xs" "set xs = set (lane_ids sp)" "distinct xs"
    by (simp_all add: least_first_distinct)
qed

lemma order_deps_earlier:
  assumes "least_first deps V xs" and "xs = ys @ x # zs"
  shows "set (deps x) \<subseteq> set ys"
  using least_first_deps_before [OF assms(1), of "length ys"] assms(2) by auto

lemma order_children_later:
  assumes wf: "wf_spec sp" and top: "topological_order sp = Some xs" and rev: "rev xs = ys @ x # zs"
  shows "set (forward_lists sp x) \<subseteq> set ys"
proof
  fix c assume "c \<in> set (forward_lists sp x)"
  then have c: "c \<in> set (lane_ids sp)" "x \<in> set (deps_of sp c)"
    using forward_lists_set [OF wf] by auto
  have xs: "xs = rev zs @ x # rev ys" using arg_cong [OF rev, of rev] by simp
  note lf = topological_order_least_first [OF wf top]
  have "c \<in> set xs" using c lf(2) by simp
  then obtain as bs where split: "xs = as @ c # bs" by (auto dest: split_list)
  have "x \<in> set as" using order_deps_earlier [OF lf(1) split] c by blast
  then obtain as1 as2 where "as = as1 @ x # as2" by (auto dest: split_list)
  then have "xs = as1 @ x # (as2 @ c # bs)" using split by simp
  moreover have "distinct xs" by (rule lf(3))
  ultimately have "rev ys = as2 @ c # bs"
    using xs append_Cons_eq_iff [of x as1 "as2 @ c # bs" "rev zs" "rev ys"] by auto
  then have "c \<in> set (rev ys)" by simp
  then show "c \<in> set ys" by simp
qed

lemma level_entry_reads:
  "(\<And>d. d \<in> set (deps_of sp l) \<Longrightarrow> m d = m' d) \<Longrightarrow> level_entry sp m l = level_entry sp m' l"
  by (simp add: level_entry_def get0_def cong: image_cong)

lemma remaining_entry_reads:
  "(\<And>d. d \<in> set (forward_lists sp l) \<Longrightarrow> m d = m' d) \<Longrightarrow> remaining_entry sp m l = remaining_entry sp m' l"
  by (simp add: remaining_entry_def get0_def cong: image_cong)

lemma arg_min_list_cong: "xs \<noteq> [] \<Longrightarrow> (\<And>x. x \<in> set xs \<Longrightarrow> f x = g x) \<Longrightarrow> arg_min_list f xs = arg_min_list g xs"
proof (induction f xs rule: arg_min_list.induct)
  case (2 f x y zs)
  have "arg_min_list f (y # zs) = arg_min_list g (y # zs)" using 2 by auto
  moreover have "arg_min_list g (y # zs) \<in> set (y # zs)" by (rule arg_min_list_in) simp
  ultimately show ?case using 2(3) by (simp add: Let_def)
qed auto

lemma heaviest_in: "ls \<noteq> [] \<Longrightarrow> heaviest t ls \<in> set ls"
  by (simp add: heaviest_def arg_min_list_in)

lemma heaviest_max:
  assumes "l \<in> set ls"
  shows "weight_of_entry t l \<le> weight_of_entry t (heaviest t ls)"
proof -
  let ?f = "\<lambda>l. (- weight_of_entry t l, l)"
  have "?f (heaviest t ls) = Min (?f ` set ls)"
    unfolding heaviest_def using assms by (intro f_arg_min_list_f) auto
  then have "?f (heaviest t ls) \<le> ?f l" using assms by simp
  then show ?thesis by (auto simp: less_eq_prod_def)
qed

lemma weight_entry_reads:
  assumes "\<And>d. d \<in> set (forward_lists sp l) \<Longrightarrow> m d = m' d"
  shows "weight_entry sp m l = weight_entry sp m' l"
proof (cases "forward_lists sp l = []")
  case False
  have w: "weight_of_entry m d = weight_of_entry m' d" if "d \<in> set (forward_lists sp l)" for d
    using assms [OF that] by (simp add: weight_of_entry_def)
  have "heaviest m (forward_lists sp l) = heaviest m' (forward_lists sp l)"
    unfolding heaviest_def using False w by (intro arg_min_list_cong) auto
  then show ?thesis
    using w [OF heaviest_in [OF False, of m']] by (simp add: weight_entry_def Let_def)
qed (simp add: weight_entry_def)

lemma level_table_eq:
  assumes "wf_spec sp" and "topological_order sp = Some xs"
  shows "dom (level_table sp xs) = set xs \<and>
    (\<forall>l \<in> set xs. level_table sp xs l = Some (level_entry sp (level_table sp xs) l))"
  unfolding level_table_def
  by (rule fill_table_eqs [where D = "\<lambda>l. set (deps_of sp l)"])
     (simp add: topological_order_least_first [OF assms],
      erule order_deps_earlier [OF topological_order_least_first(1) [OF assms]],
      erule level_entry_reads)

lemma remaining_table_eq:
  assumes "wf_spec sp" and "topological_order sp = Some xs"
  shows "dom (remaining_path_lengths sp xs) = set xs \<and>
    (\<forall>l \<in> set xs. remaining_path_lengths sp xs l =
       Some (remaining_entry sp (remaining_path_lengths sp xs) l))"
  unfolding remaining_path_lengths_def set_rev [of xs, symmetric]
  by (rule fill_table_eqs [where D = "\<lambda>l. set (forward_lists sp l)"])
     (simp add: topological_order_least_first [OF assms], erule order_children_later [OF assms],
      erule remaining_entry_reads)

lemma weight_table_eq:
  assumes "wf_spec sp" and "topological_order sp = Some xs"
  shows "dom (weight_table sp xs) = set xs \<and>
    (\<forall>l \<in> set xs. weight_table sp xs l = Some (weight_entry sp (weight_table sp xs) l))"
  unfolding weight_table_def set_rev [of xs, symmetric]
  by (rule fill_table_eqs [where D = "\<lambda>l. set (forward_lists sp l)"])
     (simp add: topological_order_least_first [OF assms], erule order_children_later [OF assms],
      erule weight_entry_reads)

section \<open>Levels and the width profile\<close>

definition lane_level :: "wave_spec \<Rightarrow> lane_id \<Rightarrow> nat" where
  "lane_level sp l = get0 (map_of (levels sp)) l"

lemma levels_lookup:
  assumes "topological_order sp = Some xs"
  shows "map_of (levels sp) l = (if l \<in> set xs then Some (get0 (level_table sp xs) l) else None)"
  using assms by (simp add: levels_def map_of_map_restrict restrict_map_def)

lemma levels_keys:
  assumes "wf_spec sp" and "wave_ok sp"
  shows "map fst (levels sp) = lane_ids sp"
proof -
  obtain xs where top: "topological_order sp = Some xs"
    using topological_order_None [OF assms(1)] assms(2) by auto
  have "map fst (levels sp) = sort xs" using top by (simp add: levels_def comp_def)
  also have "\<dots> = lane_ids sp"
    using topological_order_least_first [OF assms(1) top] assms(1)
    by (intro sorted_distinct_set_unique) (auto simp: wf_spec_def)
  finally show ?thesis .
qed

lemma lane_level_eq:
  assumes "wf_spec sp" and "wave_ok sp" and "l \<in> set (lane_ids sp)"
  shows "lane_level sp l =
    (if deps_of sp l = [] then 0 else 1 + Max (lane_level sp ` set (deps_of sp l)))"
proof -
  obtain xs where top: "topological_order sp = Some xs"
    using topological_order_None [OF assms(1)] assms(2) by auto
  note xs = topological_order_least_first [OF assms(1) top]
  have level: "lane_level sp d = get0 (level_table sp xs) d" if "d \<in> set (lane_ids sp)" for d
    using that levels_lookup [OF top] xs(2) by (simp add: lane_level_def get0_def)
  have "set (deps_of sp l) \<subseteq> set (lane_ids sp)" using assms(2,3) by (simp add: wave_ok_def)
  then have "lane_level sp ` set (deps_of sp l) = get0 (level_table sp xs) ` set (deps_of sp l)"
    using level by (intro image_cong) auto
  moreover have "level_table sp xs l = Some (level_entry sp (level_table sp xs) l)"
    using level_table_eq [OF assms(1) top] xs(2) assms(3) by blast
  then have "get0 (level_table sp xs) l = level_entry sp (level_table sp xs) l"
    by (simp add: get0_def)
  ultimately show ?thesis
    using level [OF assms(3)] by (simp add: level_entry_def)
qed

lemma lane_level_dep_less:
  assumes "wf_spec sp" and "wave_ok sp" and "l \<in> set (lane_ids sp)" and "d \<in> set (deps_of sp l)"
  shows "lane_level sp d < lane_level sp l"
proof -
  have "lane_level sp d \<le> Max (lane_level sp ` set (deps_of sp l))" using assms(4) by simp
  moreover have "deps_of sp l \<noteq> []" using assms(4) by auto
  ultimately show ?thesis using lane_level_eq [OF assms(1-3)] by simp
qed

lemma fold_count_profile:
  "\<forall>(l, v) \<in> set ls. v < length prof \<Longrightarrow>
     length (fold (\<lambda>(_, v) prof. prof[v := prof ! v + 1]) ls prof) = length prof \<and>
     (\<forall>k < length prof. fold (\<lambda>(_, v) prof. prof[v := prof ! v + 1]) ls prof ! k =
        (prof ! k + length (filter (\<lambda>(_, v). v = k) ls) :: nat))"
proof (induction ls arbitrary: prof)
  case Nil
  then show ?case by simp
next
  case (Cons lv ls)
  obtain l v where lv: "lv = (l, v)" by (cases lv)
  with Cons show ?case by (auto simp: nth_list_update)
qed

lemma width_profile_spec:
  "length (width_profile sp) = (if levels sp = [] then 0 else Max (snd ` set (levels sp)) + 1) \<and>
   (\<forall>k < length (width_profile sp). width_profile sp ! k = length (filter (\<lambda>(_, v). v = k) (levels sp)))"
proof (cases "levels sp = []")
  case True
  then show ?thesis by (simp add: width_profile_def)
next
  case False
  obtain n where n: "n = Max (snd ` set (levels sp)) + 1" by simp
  have "v < n" if "(l, v) \<in> set (levels sp)" for l v
  proof -
    have "v \<in> snd ` set (levels sp)" using that by force
    then show ?thesis by (simp add: n less_Suc_eq_le)
  qed
  then have "\<forall>(l, v) \<in> set (levels sp). v < length (replicate n (0::nat))" by auto
  from fold_count_profile [OF this]
  have "length (fold (\<lambda>(_, v) prof. prof[v := prof ! v + 1]) (levels sp) (replicate n (0::nat))) = n \<and>
      (\<forall>k < n. fold (\<lambda>(_, v) prof. prof[v := prof ! v + 1]) (levels sp) (replicate n 0) ! k =
        length (filter (\<lambda>(_, v). v = k) (levels sp)))"
    by simp
  with False show ?thesis
    unfolding width_profile_def Let_def set_map n [symmetric] by simp
qed

section \<open>The critical path\<close>

text \<open>Chains of the wave: each lane depends on the one before it.\<close>

definition dep_chain :: "wave_spec \<Rightarrow> lane_id list \<Rightarrow> bool" where
  "dep_chain sp p \<longleftrightarrow>
     p \<noteq> [] \<and> set p \<subseteq> set (lane_ids sp) \<and> successively (\<lambda>d l. d \<in> set (deps_of sp l)) p"

definition chain_weight :: "wave_spec \<Rightarrow> lane_id list \<Rightarrow> int" where
  "chain_weight sp p = sum_list (map (lane_weight sp) p)"

lemma dep_chain_Cons:
  "dep_chain sp (x # p) \<longleftrightarrow>
     x \<in> set (lane_ids sp) \<and> (p = [] \<or> dep_chain sp p \<and> x \<in> set (deps_of sp (hd p)))"
  by (cases p) (auto simp: dep_chain_def)

lemma dep_chain_snoc:
  "p \<noteq> [] \<Longrightarrow> dep_chain sp (p @ [x]) \<longleftrightarrow>
     dep_chain sp p \<and> x \<in> set (lane_ids sp) \<and> last p \<in> set (deps_of sp x)"
  by (auto simp: dep_chain_def successively_append_iff)

lemma dep_rel_wf: "wave_ok sp \<Longrightarrow> wf (dep_rel sp)"
  and dep_rel_wf_converse: "wave_ok sp \<Longrightarrow> wf ((dep_rel sp)\<inverse>)"
proof -
  assume ok: "wave_ok sp"
  have "dep_rel sp \<subseteq> set (lane_ids sp) \<times> set (lane_ids sp)"
    using ok by (auto simp: wave_ok_def dep_rel_def)
  then have "finite (dep_rel sp)" by (rule finite_subset) simp
  then show "wf (dep_rel sp)" "wf ((dep_rel sp)\<inverse>)"
    using ok by (auto simp: wave_ok_def finite_acyclic_wf finite_acyclic_wf_converse)
qed

lemma forward_dep_rel:
  "wf_spec sp \<Longrightarrow> c \<in> set (forward_lists sp l) \<longleftrightarrow> (l, c) \<in> dep_rel sp"
  by (auto simp: forward_lists_set dep_rel_def)

text \<open>What the finished table says of a lane.\<close>

lemma weight_table_sink:
  assumes "wf_spec sp" and "topological_order sp = Some xs" and "l \<in> set (lane_ids sp)"
    and "forward_lists sp l = []"
  shows "weight_of_entry (weight_table sp xs) l = lane_weight sp l \<and> next_of_entry (weight_table sp xs) l = None"
proof -
  have "weight_table sp xs l = Some (weight_entry sp (weight_table sp xs) l)"
    using weight_table_eq [OF assms(1,2)] topological_order_least_first(2) [OF assms(1,2)] assms(3) by blast
  then show ?thesis using assms(4) by (simp add: weight_of_entry_def next_of_entry_def weight_entry_def)
qed

lemma weight_table_inner:
  assumes "wf_spec sp" and "topological_order sp = Some xs" and "l \<in> set (lane_ids sp)"
    and "forward_lists sp l \<noteq> []"
  defines "t \<equiv> weight_table sp xs"
  obtains b where "next_of_entry t l = Some b" and "(l, b) \<in> dep_rel sp"
    and "weight_of_entry t l = lane_weight sp l + weight_of_entry t b"
    and "\<And>c. (l, c) \<in> dep_rel sp \<Longrightarrow> weight_of_entry t c \<le> weight_of_entry t b"
proof -
  have t: "t l = Some (weight_entry sp t l)" unfolding t_def
    using weight_table_eq [OF assms(1,2)] topological_order_least_first(2) [OF assms(1,2)] assms(3) by blast
  let ?b = "heaviest t (forward_lists sp l)"
  have "next_of_entry t l = Some ?b" "weight_of_entry t l = lane_weight sp l + weight_of_entry t ?b"
    using t assms(4)
    unfolding next_of_entry_def weight_of_entry_def [of t l] weight_entry_def Let_def by simp_all
  then show thesis
    using that heaviest_in [OF assms(4)] heaviest_max forward_dep_rel [OF assms(1)] by blast
qed

lemma weight_from_nonneg:
  assumes wf: "wf_spec sp" and top: "topological_order sp = Some xs" and "l \<in> set (lane_ids sp)"
  shows "0 \<le> weight_of_entry (weight_table sp xs) l"
  using dep_rel_wf_converse [OF topological_order_wave_ok [OF wf top]] assms(3)
proof (induction l rule: wf_induct_rule)
  case (less l)
  show ?case
  proof (cases "forward_lists sp l = []")
    case True
    then show ?thesis using weight_table_sink [OF wf top less.prems] lane_weight_nonneg [OF wf] by simp
  next
    case False
    obtain b where b: "(l, b) \<in> dep_rel sp"
      "weight_of_entry (weight_table sp xs) l = lane_weight sp l + weight_of_entry (weight_table sp xs) b"
      using weight_table_inner [OF wf top less.prems False] by metis
    have "0 \<le> weight_of_entry (weight_table sp xs) b"
      using b(1) by (intro less.IH) (auto simp: dep_rel_def)
    then show ?thesis using b(2) lane_weight_nonneg [OF wf, of l] by simp
  qed
qed

lemma weight_from_ge:
  assumes wf: "wf_spec sp" and top: "topological_order sp = Some xs" and l: "l \<in> set (lane_ids sp)"
  shows "lane_weight sp l \<le> weight_of_entry (weight_table sp xs) l"
proof (cases "forward_lists sp l = []")
  case True
  then show ?thesis using weight_table_sink [OF wf top l] by simp
next
  case False
  obtain b where b: "(l, b) \<in> dep_rel sp"
    "weight_of_entry (weight_table sp xs) l = lane_weight sp l + weight_of_entry (weight_table sp xs) b"
    by (rule weight_table_inner [OF wf top l False])
  have "b \<in> set (lane_ids sp)" using b(1) by (simp add: dep_rel_def)
  then have "0 \<le> weight_of_entry (weight_table sp xs) b" by (rule weight_from_nonneg [OF wf top])
  with b(2) show ?thesis by simp
qed

lemma weight_from_edge:
  assumes wf: "wf_spec sp" and top: "topological_order sp = Some xs" and e: "(d, l) \<in> dep_rel sp"
  shows "lane_weight sp d + weight_of_entry (weight_table sp xs) l \<le> weight_of_entry (weight_table sp xs) d"
proof -
  have "d \<in> set (lane_ids sp)"
    using e topological_order_wave_ok [OF wf top] by (auto simp: dep_rel_def wave_ok_def)
  moreover have "forward_lists sp d \<noteq> []" using e forward_dep_rel [OF wf] by force
  ultimately show ?thesis using weight_table_inner [OF wf top] e by (metis add_left_mono)
qed

lemma chain_weight_bound:
  assumes wf: "wf_spec sp" and top: "topological_order sp = Some xs" and "dep_chain sp p"
  shows "chain_weight sp p \<le> weight_of_entry (weight_table sp xs) (hd p)"
  using assms(3)
proof (induction p)
  case Nil
  then show ?case by (simp add: dep_chain_def)
next
  case (Cons x p)
  then have x: "x \<in> set (lane_ids sp)" by (simp add: dep_chain_Cons)
  show ?case
  proof (cases "p = []")
    case True
    then show ?thesis using weight_from_ge [OF wf top x] by (simp add: chain_weight_def)
  next
    case False
    with Cons have p: "dep_chain sp p" and "x \<in> set (deps_of sp (hd p))"
      by (simp_all add: dep_chain_Cons)
    then have "(x, hd p) \<in> dep_rel sp" using False by (auto simp: dep_chain_def dep_rel_def)
    from weight_from_edge [OF wf top this] Cons.IH [OF p] show ?thesis
      by (simp add: chain_weight_def)
  qed
qed

lemma root_above:
  assumes wf: "wf_spec sp" and top: "topological_order sp = Some xs" and "l \<in> set (lane_ids sp)"
  shows "\<exists>r \<in> set (lane_ids sp). deps_of sp r = [] \<and>
    weight_of_entry (weight_table sp xs) l \<le> weight_of_entry (weight_table sp xs) r"
  using dep_rel_wf [OF topological_order_wave_ok [OF wf top]] assms(3)
proof (induction l rule: wf_induct_rule)
  case (less l)
  show ?case
  proof (cases "deps_of sp l")
    case Nil
    then show ?thesis using less.prems by auto
  next
    case (Cons d ds)
    then have e: "(d, l) \<in> dep_rel sp" using less.prems by (simp add: dep_rel_def)
    then have d: "d \<in> set (lane_ids sp)"
      using topological_order_wave_ok [OF wf top] less.prems by (auto simp: dep_rel_def wave_ok_def)
    from less.IH [OF e d] weight_from_edge [OF wf top e] lane_weight_nonneg [OF wf, of d]
    show ?thesis by (meson add_increasing order_trans order_refl)
  qed
qed

text \<open>Following \<open>next_lane\<close> walks down the edges of the wave, so it ends, at a sink.\<close>

lemma next_of_entry_edge:
  assumes wf: "wf_spec sp" and top: "topological_order sp = Some xs" and cur: "cur \<in> set (lane_ids sp)"
    and nxt: "next_of_entry (weight_table sp xs) cur = Some n"
  shows "(cur, n) \<in> dep_rel sp" and "n \<in> set (lane_ids sp)"
    and "weight_of_entry (weight_table sp xs) cur =
      lane_weight sp cur + weight_of_entry (weight_table sp xs) n"
proof -
  have "forward_lists sp cur \<noteq> []"
    using nxt weight_table_sink [OF wf top cur] by auto
  then obtain b where "next_of_entry (weight_table sp xs) cur = Some b" "(cur, b) \<in> dep_rel sp"
    "weight_of_entry (weight_table sp xs) cur = lane_weight sp cur + weight_of_entry (weight_table sp xs) b"
    by (rule weight_table_inner [OF wf top cur])
  with nxt show "(cur, n) \<in> dep_rel sp" "weight_of_entry (weight_table sp xs) cur =
      lane_weight sp cur + weight_of_entry (weight_table sp xs) n"
    by simp_all
  then show "n \<in> set (lane_ids sp)" by (simp add: dep_rel_def)
qed

lemma next_of_entry_None:
  assumes "wf_spec sp" and "topological_order sp = Some xs" and "cur \<in> set (lane_ids sp)"
    and "next_of_entry (weight_table sp xs) cur = None"
  shows "forward_lists sp cur = []" and "weight_of_entry (weight_table sp xs) cur = lane_weight sp cur"
proof -
  show empty: "forward_lists sp cur = []"
  proof (rule ccontr)
    assume "forward_lists sp cur \<noteq> []"
    from weight_table_inner [OF assms(1-3) this] show False using assms(4) by auto
  qed
  show "weight_of_entry (weight_table sp xs) cur = lane_weight sp cur"
    using weight_table_sink [OF assms(1-3) empty] by simp
qed

definition follow_order :: "wave_spec \<Rightarrow> ((lane_id \<times> lane_id list) \<times> (lane_id \<times> lane_id list)) set" where
  "follow_order sp = inv_image ((dep_rel sp)\<inverse>) fst"

lemma wf_follow_order: "wave_ok sp \<Longrightarrow> wf (follow_order sp)"
  by (simp add: follow_order_def dep_rel_wf_converse)

lemma follow_step_decreases:
  assumes "wf_spec sp" and "topological_order sp = Some xs" and "fst st \<in> set (lane_ids sp)"
    and "next_of_entry (weight_table sp xs) (fst st) \<noteq> None"
  shows "(follow_step (next_of_entry (weight_table sp xs)) st, st) \<in> follow_order sp"
    and "fst (follow_step (next_of_entry (weight_table sp xs)) st) \<in> set (lane_ids sp)"
  using next_of_entry_edge [OF assms(1-3)] assms(4)
  by (auto simp: follow_step_def follow_order_def split: prod.splits option.splits)

lemma follow_terminates:
  assumes wf: "wf_spec sp" and top: "topological_order sp = Some xs" and "s \<in> set (lane_ids sp)"
  shows "\<exists>t. while_option (\<lambda>(cur, path). next_of_entry (weight_table sp xs) cur \<noteq> None)
    (follow_step (next_of_entry (weight_table sp xs))) (s, [s]) = Some t"
proof (rule wf_while_option_Some [where P = "\<lambda>st. fst st \<in> set (lane_ids sp)"])
  show "wf {(t, st). (fst st \<in> set (lane_ids sp) \<and>
      (case st of (cur, path) \<Rightarrow> next_of_entry (weight_table sp xs) cur \<noteq> None)) \<and>
      t = follow_step (next_of_entry (weight_table sp xs)) st}"
    by (rule wf_subset [OF wf_follow_order [OF topological_order_wave_ok [OF wf top]]])
       (use follow_step_decreases(1) [OF wf top] in auto)
qed (use follow_step_decreases(2) [OF wf top] assms(3) in auto)

lemma follow_spec:
  assumes wf: "wf_spec sp" and top: "topological_order sp = Some xs" and s: "s \<in> set (lane_ids sp)"
  defines "t \<equiv> weight_table sp xs"
  defines "p \<equiv> follow (next_of_entry t) s"
  shows "dep_chain sp p \<and> hd p = s \<and> forward_lists sp (last p) = [] \<and> chain_weight sp p = weight_of_entry t s"
proof -
  let ?P = "\<lambda>(cur, path). dep_chain sp path \<and> hd path = s \<and> last path = cur \<and>
      chain_weight sp path - lane_weight sp cur + weight_of_entry t cur = weight_of_entry t s"
  have lane: "cur \<in> set (lane_ids sp)" if "?P (cur, path)" for cur path
    using that by (auto simp: dep_chain_def)
  have step: "?P (follow_step (next_of_entry t) st)"
    if P: "?P st" and more: "case st of (cur, path) \<Rightarrow> next_of_entry t cur \<noteq> None" for st
  proof -
    obtain cur path where st: "st = (cur, path)" by (cases st)
    obtain n where n: "next_of_entry t cur = Some n" using more st by auto
    note e = next_of_entry_edge [OF wf top lane [OF P [unfolded st]] n [unfolded t_def]]
    have path: "path \<noteq> []" "last path \<in> set (deps_of sp n)"
      using P st e(1) by (auto simp: dep_chain_def dep_rel_def)
    then show ?thesis
      using P st n e(2,3)
      by (simp add: follow_step_def dep_chain_snoc chain_weight_def t_def)
  qed
  have "dep_chain sp path \<and> hd path = s \<and> forward_lists sp (last path) = [] \<and>
      chain_weight sp path = weight_of_entry t s"
    if P: "?P (cur, path)" and "next_of_entry t cur = None" for cur path
    using P next_of_entry_None [OF wf top lane [OF P]] that(2) by (simp add: t_def)
  then show ?thesis
    unfolding p_def follow_def
    by (intro while_rule [where P = ?P and r = "follow_order sp"
          and Q = "\<lambda>st. dep_chain sp (snd st) \<and> hd (snd st) = s \<and> forward_lists sp (last (snd st)) = [] \<and>
            chain_weight sp (snd st) = weight_of_entry t s"])
       (use s step lane follow_step_decreases(1) [OF wf top] wf_follow_order topological_order_wave_ok [OF wf top]
        in \<open>auto simp: dep_chain_def chain_weight_def t_def\<close>)
qed

lemma critical_path_maximal:
  assumes wf: "wf_spec sp" and ok: "wave_ok sp" and ne: "lane_ids sp \<noteq> []"
  shows "dep_chain sp (critical_path sp) \<and> deps_of sp (hd (critical_path sp)) = [] \<and>
    (\<forall>l \<in> set (lane_ids sp). last (critical_path sp) \<notin> set (deps_of sp l)) \<and>
    (\<forall>p. dep_chain sp p \<longrightarrow> chain_weight sp p \<le> chain_weight sp (critical_path sp))"
proof -
  obtain xs where top: "topological_order sp = Some xs" and xs: "set xs = set (lane_ids sp)"
    by (rule topological_order_Some [OF wf ok])
  define t where "t = weight_table sp xs"
  define roots where "roots = filter (\<lambda>l. deps_of sp l = []) (lane_ids sp)"
  obtain x rest where split: "xs = x # rest" using ne xs by (cases xs) auto
  have cp: "critical_path sp = follow (next_of_entry t) (heaviest t roots)"
    by (simp add: critical_path_def top t_def roots_def split Let_def)
  have "roots \<noteq> []"
    using root_above [OF wf top, of x] xs split by (auto simp: roots_def filter_empty_conv)
  then have r: "heaviest t roots \<in> set (lane_ids sp)" "deps_of sp (heaviest t roots) = []"
    using heaviest_in [of roots t] by (auto simp: roots_def)
  note path = follow_spec [OF wf top r(1), folded t_def cp]
  have "chain_weight sp p \<le> chain_weight sp (critical_path sp)" if p: "dep_chain sp p" for p
  proof -
    have "hd p \<in> set (lane_ids sp)" using p by (auto simp: dep_chain_def)
    from root_above [OF wf top this] obtain q where q: "q \<in> set roots"
      "weight_of_entry t (hd p) \<le> weight_of_entry t q"
      by (auto simp: roots_def t_def)
    have "chain_weight sp (critical_path sp) = weight_of_entry t (heaviest t roots)"
      using path by (simp add: cp)
    then show ?thesis
      using chain_weight_bound [OF wf top p, folded t_def] q(2) heaviest_max [OF q(1), of t] by linarith
  qed
  moreover have "last (critical_path sp) \<notin> set (deps_of sp l)" if "l \<in> set (lane_ids sp)" for l
  proof
    assume "last (critical_path sp) \<in> set (deps_of sp l)"
    then have "l \<in> set (forward_lists sp (last (critical_path sp)))"
      using that by (simp add: forward_lists_set [OF wf])
    then show False using path unfolding cp by simp
  qed
  ultimately show ?thesis using path r unfolding cp by auto
qed

end
