(* ===== verification/Fnmatch.thy ===== *)
theory Fnmatch
  imports PyValue
begin

text \<open>
  \<open>fnmatch.fnmatchcase\<close> of the Python standard library, which the wave scheduler
  uses to compare owned-path patterns: the pattern is cut into items and the items
  are matched against the whole name.  Bracket expressions follow
  \<open>fnmatch.translate\<close>: an unclosed bracket is a literal, a leading \<open>!\<close> negates,
  hyphens make ranges, and empty ranges are removed from the right.
\<close>

section \<open>Pattern items\<close>

datatype glob_item = GStar | GAny | GNever | GLit char | GClass bool "string list"

text \<open>The text of a bracket expression and what follows its closing bracket.\<close>

definition bracket_split :: "string \<Rightarrow> (string \<times> string) option" where
  "bracket_split s =
     (let (p1, s1) = (case s of c # cs \<Rightarrow> if c = CHR ''!'' then ([c], cs) else ([], s) | [] \<Rightarrow> ([], s));
          (p2, s2) = (case s1 of c # cs \<Rightarrow> if c = CHR '']'' then ([c], cs) else ([], s1) | [] \<Rightarrow> ([], s1));
          body = takeWhile (\<lambda>c. c \<noteq> CHR '']'') s2;
          rest = dropWhile (\<lambda>c. c \<noteq> CHR '']'') s2
      in case rest of [] \<Rightarrow> None | _ # r \<Rightarrow> Some (p1 @ p2 @ body, r))"

text \<open>Cut at the hyphens that make ranges; \<open>k\<close> is where the next one may stand.\<close>

fun hyphen_from :: "nat \<Rightarrow> string \<Rightarrow> nat option" where
  "hyphen_from k [] = None"
| "hyphen_from 0 (c # cs) = (if c = CHR ''-'' then Some 0 else map_option Suc (hyphen_from 0 cs))"
| "hyphen_from (Suc k) (c # cs) = map_option Suc (hyphen_from k cs)"

lemma hyphen_from_less: "hyphen_from k s = Some m \<Longrightarrow> m < length s"
  by (induction k s arbitrary: m rule: hyphen_from.induct) (auto split: if_splits)

function range_chunks :: "nat \<Rightarrow> string \<Rightarrow> string list" where
  "range_chunks k s =
     (case hyphen_from k s of
        None \<Rightarrow> if s = [] then [] else [s]
      | Some m \<Rightarrow> take m s # range_chunks 2 (drop (Suc m) s))"
  by pat_completeness auto
termination
  by (relation "measure (\<lambda>(k, s). length s)") (auto dest: hyphen_from_less)

declare range_chunks.simps [simp del]

text \<open>A hyphen at the very end is a literal that belongs to the last chunk.\<close>

definition bracket_chunks :: "string \<Rightarrow> string list" where
  "bracket_chunks s =
     (let ws = range_chunks (case s of c # _ \<Rightarrow> if c = CHR ''!'' then 2 else 1 | [] \<Rightarrow> 1) s
      in if length (join_with ''-'' ws) < length s then butlast ws @ [last ws @ ''-''] else ws)"

fun drop_empty_ranges :: "string list \<Rightarrow> string list" where
  "drop_empty_ranges [] = []"
| "drop_empty_ranges [w] = [w]"
| "drop_empty_ranges (w # ws) =
     (case drop_empty_ranges ws of
        [] \<Rightarrow> [w]
      | v # vs \<Rightarrow> if last w > hd v then (butlast w @ tl v) # vs else w # v # vs)"

definition bracket_item :: "string \<Rightarrow> glob_item" where
  "bracket_item s =
     (let ws = (if CHR ''-'' \<in> set s then drop_empty_ranges (bracket_chunks s) else [s])
      in case ws of
           [[]] \<Rightarrow> GNever
         | (c # cs) # vs \<Rightarrow>
             if c = CHR ''!'' then (if cs = [] \<and> vs = [] then GAny else GClass True (cs # vs))
             else GClass False ws
         | _ \<Rightarrow> GClass False ws)"

lemma bracket_split_less: "bracket_split s = Some (stuff, r) \<Longrightarrow> length r < length s"
  unfolding bracket_split_def
  by (auto simp: Let_def split: list.splits if_splits)
     (metis le_imp_less_Suc length_Cons length_dropWhile_le Suc_lessD less_SucI Suc_le_lessD)+

function glob_items :: "string \<Rightarrow> glob_item list" where
  "glob_items [] = []"
| "glob_items (c # cs) =
     (if c = CHR ''*'' then GStar # glob_items cs
      else if c = CHR ''?'' then GAny # glob_items cs
      else if c = CHR ''['' then
        (case bracket_split cs of
           None \<Rightarrow> GLit c # glob_items cs
         | Some (stuff, r) \<Rightarrow> bracket_item stuff # glob_items r)
      else GLit c # glob_items cs)"
  by pat_completeness auto
termination
  by (relation "measure length") (auto dest: bracket_split_less)

section \<open>Matching\<close>

fun class_mem :: "string list \<Rightarrow> char \<Rightarrow> bool" where
  "class_mem [] c = False"
| "class_mem [w] c = (c \<in> set w)"
| "class_mem ([] # v # vs) c = (c = CHR ''-'' \<or> class_mem (v # vs) c)"
| "class_mem ((a # w) # v # vs) c =
     (c \<in> set (butlast (a # w)) \<or> (last (a # w) \<le> c \<and> c \<le> hd v) \<or> class_mem (tl v # vs) c)"

fun item_match :: "glob_item \<Rightarrow> char \<Rightarrow> bool" where
  "item_match GStar c = True"
| "item_match GAny c = True"
| "item_match GNever c = False"
| "item_match (GLit d) c = (c = d)"
| "item_match (GClass neg ws) c = (class_mem ws c \<noteq> neg)"

fun glob_match :: "glob_item list \<Rightarrow> string \<Rightarrow> bool" where
  "glob_match [] s = (s = [])"
| "glob_match (GStar # is) [] = glob_match is []"
| "glob_match (GStar # is) (c # cs) = (glob_match is (c # cs) \<or> glob_match (GStar # is) cs)"
| "glob_match (i # is) [] = False"
| "glob_match (i # is) (c # cs) = (item_match i c \<and> glob_match is cs)"

definition fnmatchcase :: "string \<Rightarrow> string \<Rightarrow> bool" where
  "fnmatchcase name pat = glob_match (glob_items pat) name"

definition is_glob_char :: "char \<Rightarrow> bool" where
  "is_glob_char c = (c = CHR ''*'' \<or> c = CHR ''?'' \<or> c = CHR ''['')"

section \<open>What the overlap test uses\<close>

lemma glob_items_literal:
  "\<forall>c \<in> set pat. \<not> is_glob_char c \<Longrightarrow> glob_items pat = map GLit pat"
  by (induction pat) (auto simp: is_glob_char_def)

lemma glob_match_literals: "glob_match (map GLit pat) s \<longleftrightarrow> s = pat"
proof (induction pat arbitrary: s)
  case Nil
  then show ?case by simp
next
  case (Cons p ps)
  then show ?case by (cases s) simp_all
qed

text \<open>A pattern without special characters matches itself only.\<close>

lemma fnmatchcase_literal:
  "\<forall>c \<in> set pat. \<not> is_glob_char c \<Longrightarrow> fnmatchcase name pat \<longleftrightarrow> name = pat"
  by (simp add: fnmatchcase_def glob_items_literal glob_match_literals)

lemma glob_match_star_suffix: "glob_match is s \<Longrightarrow> glob_match (GStar # is) (p @ s)"
proof (induction p)
  case Nil
  then show ?case by (cases s) simp_all
next
  case (Cons c cs)
  then show ?case by simp
qed

lemma fnmatchcase_star: "fnmatchcase name ''*''"
  using glob_match_star_suffix [of "[]" "[]" name] by (simp add: fnmatchcase_def)

end
