(* ===== verification/Selection.thy ===== *)
theory Selection
  imports Prelude "HOL-Library.Sublist"
begin

text \<open>
  The greedy selection that the wave frontier and the landing set share: go through
  the candidates in their order and keep one when it clashes with none kept before.
\<close>

definition greedy_step :: "('a \<Rightarrow> 'a \<Rightarrow> bool) \<Rightarrow> 'a \<Rightarrow> 'a list \<Rightarrow> 'a list" where
  "greedy_step clash c sel = (if list_ex (clash c) sel then sel else sel @ [c])"

definition greedy :: "('a \<Rightarrow> 'a \<Rightarrow> bool) \<Rightarrow> 'a list \<Rightarrow> 'a list" where
  "greedy clash cs = fold (greedy_step clash) cs []"

lemma greedy_Nil [simp]: "greedy clash [] = []"
  by (simp add: greedy_def)

lemma greedy_snoc: "greedy clash (cs @ [c]) = greedy_step clash c (greedy clash cs)"
  by (simp add: greedy_def)

lemma list_ex_set: "list_ex P xs \<longleftrightarrow> (\<exists>x \<in> set xs. P x)"
  by (induction xs) auto

locale exclusion =
  fixes clash :: "'a \<Rightarrow> 'a \<Rightarrow> bool"
  assumes clash_sym: "clash a b \<Longrightarrow> clash b a"
begin

lemma greedy_subseq: "subseq (greedy clash cs) cs"
proof (induction cs rule: rev_induct)
  case Nil
  then show ?case by simp
next
  case (snoc c cs)
  then show ?case
    by (simp add: greedy_snoc greedy_step_def list_emb_append_mono subseq_rev_drop_many)
qed

lemma greedy_clash_free: "sorted_wrt (\<lambda>a b. \<not> clash a b \<and> \<not> clash b a) (greedy clash cs)"
  using clash_sym
  by (induction cs rule: rev_induct)
     (auto simp: greedy_snoc greedy_step_def sorted_wrt_append list_ex_set)

lemma greedy_maximal:
  "c \<in> set cs \<Longrightarrow> c \<in> set (greedy clash cs) \<or> (\<exists>s \<in> set (greedy clash cs). clash c s)"
  by (induction cs rule: rev_induct) (auto simp: greedy_snoc greedy_step_def list_ex_set)

lemma greedy_set: "set (greedy clash cs) \<subseteq> set cs"
  using greedy_subseq [of cs] by (auto dest: subseq_order.order_trans simp: subseq_singleton_left [symmetric])

lemma greedy_distinct: "distinct cs \<Longrightarrow> distinct (greedy clash cs)"
  using greedy_set
  by (induction cs rule: rev_induct) (fastforce simp: greedy_snoc greedy_step_def)+

text \<open>No set of candidates that is free of clashes is a proper superset of the selection.\<close>

lemma greedy_no_larger:
  assumes sub: "set (greedy clash cs) \<subseteq> S" and cand: "S \<subseteq> set cs"
    and free: "\<And>a b. a \<in> S \<Longrightarrow> b \<in> S \<Longrightarrow> a \<noteq> b \<Longrightarrow> \<not> clash a b"
  shows "S = set (greedy clash cs)"
proof
  show "S \<subseteq> set (greedy clash cs)"
  proof
    fix c assume c: "c \<in> S"
    show "c \<in> set (greedy clash cs)"
    proof (rule ccontr)
      assume no: "c \<notin> set (greedy clash cs)"
      then obtain s where "s \<in> set (greedy clash cs)" "clash c s"
        using greedy_maximal [of c cs] c cand by auto
      then show False using free [OF c, of s] sub no by auto
    qed
  qed
qed (rule sub)

end

end
