(* ===== verification/WaveFrontier.thy ===== *)
theory WaveFrontier
  imports WaveOrder Fnmatch Selection
begin

text \<open>
  The conflict graph and the admission queries of \<open>wave_scheduler.py\<close>: \<open>conflicts\<close>
  (owned paths that may overlap), \<open>blocked\<close> (the breadth-first search for the
  nearest failed or parked ancestor) and \<open>frontier\<close> (the greedy choice of lanes that
  may run now).  A \<open>frozenset\<close> of lane ids is a set, the dict of lane states an
  association list.
\<close>

type_synonym lane_states = "(lane_id \<times> string) list"

definition conflict_holding_states :: "string set" where
  "conflict_holding_states = {''running'', ''collected'', ''gated''}"

definition blocking_states :: "string set" where
  "blocking_states = {''failed'', ''parked''}"

definition state_of :: "lane_states \<Rightarrow> lane_id \<Rightarrow> string" where
  "state_of st l = (case map_of st l of None \<Rightarrow> ''pending'' | Some s \<Rightarrow> s)"

section \<open>Path overlap\<close>

definition glob_literal_prefix :: "string \<Rightarrow> string" where
  "glob_literal_prefix pattern = takeWhile (\<lambda>c. \<not> is_glob_char c) pattern"

definition dirs_overlap :: "string \<Rightarrow> string \<Rightarrow> bool" where
  "dirs_overlap ld rd \<longleftrightarrow>
     ld \<noteq> [] \<and> rd \<noteq> [] \<and> (ld = rd \<or> starts_with ld (rd @ ''/'') \<or> starts_with rd (ld @ ''/''))"

definition path_overlap :: "string \<Rightarrow> string \<Rightarrow> bool" where
  "path_overlap left right =
     (if left = right then True
      else if dirs_overlap (rstrip_char CHR ''/'' left) (rstrip_char CHR ''/'' right) then True
      else if fnmatchcase left right \<or> fnmatchcase right left then True
      else if \<not> list_ex is_glob_char left \<or> \<not> list_ex is_glob_char right then False
      else starts_with (glob_literal_prefix left) (glob_literal_prefix right) \<or>
           starts_with (glob_literal_prefix right) (glob_literal_prefix left))"

definition lanes_overlap :: "lane_spec \<Rightarrow> lane_spec \<Rightarrow> bool" where
  "lanes_overlap x y = list_ex (\<lambda>p. list_ex (path_overlap p) (lane_paths y)) (lane_paths x)"

fun conflict_pairs :: "(lane_id \<times> lane_spec) list \<Rightarrow> (lane_id \<times> lane_id) list" where
  "conflict_pairs [] = []"
| "conflict_pairs ((l, x) # rest) =
     map (\<lambda>(r, y). (l, r)) (filter (\<lambda>(r, y). lanes_overlap x y) rest) @ conflict_pairs rest"

definition conflicts :: "wave_spec \<Rightarrow> lane_id set set result" where
  "conflicts sp =
     (if non_canonical_owned_paths sp \<noteq> [] then Inl ValueError
      else Inr (set (map (\<lambda>(l, r). {l, r}) (conflict_pairs (lanes sp)))))"

section \<open>The nearest blocking ancestor\<close>

record bfs =
  bfs_queue :: "(lane_id \<times> nat) list"
  bfs_seen :: "lane_id list"
  bfs_cands :: "(nat \<times> lane_id) list"

definition bfs_step :: "wave_spec \<Rightarrow> lane_states \<Rightarrow> bfs \<Rightarrow> bfs" where
  "bfs_step sp st s =
     (case bfs_queue s of
        [] \<Rightarrow> s
      | (a, n) # q \<Rightarrow>
          if a \<in> set (bfs_seen s) then s\<lparr>bfs_queue := q\<rparr>
          else \<lparr>bfs_queue = q @ map (\<lambda>d. (d, n + 1)) (deps_of sp a),
                bfs_seen = a # bfs_seen s,
                bfs_cands = (if state_of st a \<in> blocking_states then bfs_cands s @ [(n, a)] else bfs_cands s)\<rparr>)"

definition bfs_start :: "wave_spec \<Rightarrow> lane_id \<Rightarrow> bfs" where
  "bfs_start sp l = \<lparr>bfs_queue = map (\<lambda>d. (d, 1)) (deps_of sp l), bfs_seen = [], bfs_cands = []\<rparr>"

definition blocking_candidates :: "wave_spec \<Rightarrow> lane_states \<Rightarrow> lane_id \<Rightarrow> (nat \<times> lane_id) list" where
  "blocking_candidates sp st l =
     bfs_cands (while (\<lambda>s. bfs_queue s \<noteq> []) (bfs_step sp st) (bfs_start sp l))"

definition blocked_by :: "wave_spec \<Rightarrow> lane_states \<Rightarrow> lane_id \<Rightarrow> lane_id option" where
  "blocked_by sp st l =
     (let cs = blocking_candidates sp st l in if cs = [] then None else Some (snd (Min (set cs))))"

definition blocked :: "wave_spec \<Rightarrow> lane_states \<Rightarrow> (lane_id \<times> lane_id) list" where
  "blocked sp st =
     (if validate sp \<noteq> [] then []
      else concat (map (\<lambda>l. case blocked_by sp st l of None \<Rightarrow> [] | Some b \<Rightarrow> [(l, b)]) (lane_ids sp)))"

section \<open>The frontier\<close>

definition busy_lanes :: "lane_states \<Rightarrow> lane_id list" where
  "busy_lanes st = map fst (filter (\<lambda>(l, s). s \<in> conflict_holding_states) st)"

definition frontier_candidates :: "wave_spec \<Rightarrow> lane_states \<Rightarrow> lane_id set set \<Rightarrow> lane_id list" where
  "frontier_candidates sp st cf =
     filter (\<lambda>l. state_of st l = ''pending'' \<and> l \<notin> set (map fst (blocked sp st)) \<and>
                 list_all (\<lambda>d. state_of st d = ''integrated'') (deps_of sp l) \<and>
                 \<not> list_ex (\<lambda>b. {l, b} \<in> cf) (busy_lanes st))
            (lane_ids sp)"

definition frontier_ranked :: "wave_spec \<Rightarrow> lane_states \<Rightarrow> lane_id set set \<Rightarrow> lane_id list \<Rightarrow> lane_id list" where
  "frontier_ranked sp st cf order =
     (let remaining = remaining_path_lengths sp order
      in sort_key (\<lambda>l. (- int (get0 remaining l), l)) (frontier_candidates sp st cf))"

text \<open>\<open>width\<close> is a Python value: \<open>None\<close>, an \<open>int\<close> that is not a \<open>bool\<close>, or a type error.\<close>

definition cut_width :: "pyval \<Rightarrow> 'a list \<Rightarrow> 'a list result" where
  "cut_width width xs =
     (case width of PNone \<Rightarrow> Inr xs | PInt w \<Rightarrow> Inr (take (nat (max 0 w)) xs) | _ \<Rightarrow> Inl TypeError)"

definition frontier :: "wave_spec \<Rightarrow> lane_states \<Rightarrow> pyval \<Rightarrow> lane_id list result" where
  "frontier sp st width =
     (case topological_order sp of
        None \<Rightarrow> Inr []
      | Some order \<Rightarrow>
          bind_result (conflicts sp) (\<lambda>cf.
            cut_width width (greedy (\<lambda>l s. {l, s} \<in> cf) (frontier_ranked sp st cf order))))"

section \<open>The conflict graph\<close>

lemma dirs_overlap_sym: "dirs_overlap a b \<longleftrightarrow> dirs_overlap b a"
  by (auto simp: dirs_overlap_def)

lemma path_overlap_sym: "path_overlap a b \<longleftrightarrow> path_overlap b a"
  unfolding path_overlap_def using dirs_overlap_sym by auto

lemma path_overlap_refl [simp]: "path_overlap p p"
  by (simp add: path_overlap_def)

lemma lanes_overlap_iff:
  "lanes_overlap x y \<longleftrightarrow> (\<exists>p \<in> set (lane_paths x). \<exists>q \<in> set (lane_paths y). path_overlap p q)"
  by (simp add: lanes_overlap_def list_ex_set)

lemma lanes_overlap_sym: "lanes_overlap x y \<longleftrightarrow> lanes_overlap y x"
  unfolding lanes_overlap_iff using path_overlap_sym by blast

lemma conflict_pairs_set:
  "distinct (map fst ls) \<Longrightarrow>
    (l, r) \<in> set (conflict_pairs ls) \<or> (r, l) \<in> set (conflict_pairs ls) \<longleftrightarrow>
    l \<noteq> r \<and> (\<exists>x y. (l, x) \<in> set ls \<and> (r, y) \<in> set ls \<and> lanes_overlap x y)"
proof (induction ls)
  case Nil
  then show ?case by simp
next
  case (Cons kx ls)
  obtain k z where kx: "kx = (k, z)" by (cases kx)
  have k: "(k, y) \<notin> set ls" for y using Cons.prems kx by force
  have IH: "(l, r) \<in> set (conflict_pairs ls) \<or> (r, l) \<in> set (conflict_pairs ls) \<longleftrightarrow>
    l \<noteq> r \<and> (\<exists>x y. (l, x) \<in> set ls \<and> (r, y) \<in> set ls \<and> lanes_overlap x y)"
    using Cons by simp
  have new: "(a, b) \<in> set (map (\<lambda>(r, y). (k, r)) (filter (\<lambda>(r, y). lanes_overlap z y) ls)) \<longleftrightarrow>
      a = k \<and> (\<exists>y. (b, y) \<in> set ls \<and> lanes_overlap z y)" for a b
    by (force simp: image_iff)
  show ?case
    unfolding kx conflict_pairs.simps set_append Un_iff new
    using IH k lanes_overlap_sym by (cases "l = k"; cases "r = k") auto
qed

text \<open>Two lanes conflict when they are different and own paths that overlap.\<close>

definition conflicting :: "wave_spec \<Rightarrow> lane_id \<Rightarrow> lane_id \<Rightarrow> bool" where
  "conflicting sp l r \<longleftrightarrow>
     l \<noteq> r \<and> (\<exists>p \<in> set (paths_of sp l). \<exists>q \<in> set (paths_of sp r). path_overlap p q)"

lemma conflicting_sym: "conflicting sp l r \<Longrightarrow> conflicting sp r l"
  unfolding conflicting_def using path_overlap_sym by blast

lemma conflicting_lanes:
  "wf_spec sp \<Longrightarrow> conflicting sp l r \<longleftrightarrow>
    l \<noteq> r \<and> (\<exists>x y. (l, x) \<in> set (lanes sp) \<and> (r, y) \<in> set (lanes sp) \<and> lanes_overlap x y)"
  by (cases "map_of (lanes sp) l"; cases "map_of (lanes sp) r")
     (simp_all add: conflicting_def lanes_overlap_iff paths_of_def lanes_lookup)

lemma conflicts_mem:
  assumes wf: "wf_spec sp" and cf: "conflicts sp = Inr cf"
  shows "{l, r} \<in> cf \<longleftrightarrow> conflicting sp l r"
proof -
  have "{l, r} \<in> cf \<longleftrightarrow> (l, r) \<in> set (conflict_pairs (lanes sp)) \<or> (r, l) \<in> set (conflict_pairs (lanes sp))"
    using cf by (auto simp: conflicts_def doubleton_eq_iff image_iff split: if_splits)
  then show ?thesis
    using wf conflict_pairs_set [of "lanes sp" l r]
    by (simp add: conflicting_lanes [OF wf] wf_spec_def lane_ids_def)
qed

lemma conflicts_elems:
  assumes wf: "wf_spec sp" and cf: "conflicts sp = Inr cf" and e: "e \<in> cf"
  shows "\<exists>l r. e = {l, r} \<and> l \<noteq> r \<and> l \<in> set (lane_ids sp) \<and> r \<in> set (lane_ids sp)"
proof -
  obtain l r where lr: "e = {l, r}" using cf e by (auto simp: conflicts_def split: if_splits)
  then have "conflicting sp l r" using conflicts_mem [OF wf cf] e by simp
  then have "l \<noteq> r \<and> l \<in> set (lane_ids sp) \<and> r \<in> set (lane_ids sp)"
    by (force simp: conflicting_lanes [OF wf] lane_ids_def)
  then show ?thesis using lr by blast
qed

lemma conflicts_ok: "wf_spec sp \<Longrightarrow> wave_ok sp \<Longrightarrow> \<exists>cf. conflicts sp = Inr cf"
  by (simp add: conflicts_def non_canonical_Nil wave_ok_def)

interpretation wave_conflict: exclusion "conflicting sp" for sp
  by unfold_locales (rule conflicting_sym)

section \<open>The breadth-first search\<close>

lemma dep_rel_extend:
  "(a, l) \<in> dep_rel sp ^^ n \<Longrightarrow> a \<in> set (lane_ids sp) \<Longrightarrow> d \<in> set (deps_of sp a) \<Longrightarrow> (d, l) \<in> dep_rel sp ^^ Suc n"
  by (rule relpow_Suc_I2) (auto simp: dep_rel_def)

lemma dep_rel_pow_lane:
  assumes ok: "wave_ok sp" and n: "(1::nat) \<le> n" and walk: "(a, l) \<in> dep_rel sp ^^ n"
  shows "a \<in> set (lane_ids sp)"
proof -
  obtain m where "n = Suc m" using n by (cases n) auto
  then obtain y where "(a, y) \<in> dep_rel sp" using relpow_Suc_D2 [OF walk [unfolded \<open>n = Suc m\<close>]] by blast
  then show ?thesis using ok by (auto simp: dep_rel_def wave_ok_def)
qed

text \<open>
  The invariant, over the list \<open>vis\<close> of the visits so far (lane and distance): the
  code keeps only their lanes and those that block.
\<close>

definition bfs_inv :: "wave_spec \<Rightarrow> lane_states \<Rightarrow> lane_id \<Rightarrow> bfs \<Rightarrow> (lane_id \<times> nat) list \<Rightarrow> bool" where
  "bfs_inv sp st l s vis \<longleftrightarrow>
     bfs_seen s = rev (map fst vis) \<and>
     bfs_cands s = map prod.swap (filter (\<lambda>(a, n). state_of st a \<in> blocking_states) vis) \<and>
     (\<forall>(a, n) \<in> set (vis @ bfs_queue s). 1 \<le> n \<and> (a, l) \<in> dep_rel sp ^^ n) \<and>
     sorted (map snd (vis @ bfs_queue s)) \<and>
     (\<forall>n \<in> set (map snd (bfs_queue s)). \<forall>m \<in> set (map snd (bfs_queue s)). n \<le> m + 1) \<and>
     (\<forall>d \<in> set (deps_of sp l). \<exists>k \<le> 1. (d, k) \<in> set (vis @ bfs_queue s)) \<and>
     (\<forall>(a, n) \<in> set vis. \<forall>d \<in> set (deps_of sp a). \<exists>k \<le> n + 1. (d, k) \<in> set (vis @ bfs_queue s))"

lemma bfs_inv_next:
  "bfs_inv sp st l s vis \<Longrightarrow> (b, n) \<in> set vis \<Longrightarrow> d \<in> set (deps_of sp b) \<Longrightarrow>
    \<exists>k \<le> n + 1. (d, k) \<in> set (vis @ bfs_queue s)"
  unfolding bfs_inv_def by blast

lemma bfs_inv_first:
  "bfs_inv sp st l s vis \<Longrightarrow> d \<in> set (deps_of sp l) \<Longrightarrow> \<exists>k \<le> 1. (d, k) \<in> set (vis @ bfs_queue s)"
  unfolding bfs_inv_def by blast

lemma bfs_inv_start:
  assumes "l \<in> set (lane_ids sp)"
  shows "bfs_inv sp st l (bfs_start sp l) []"
  using assms by (auto simp: bfs_inv_def bfs_start_def dep_rel_def comp_def sorted_wrt_iff_nth_less)

lemma bfs_inv_skip:
  assumes inv: "bfs_inv sp st l s vis" and q: "bfs_queue s = (a, n) # q" and seen: "a \<in> set (bfs_seen s)"
  shows "bfs_inv sp st l (bfs_step sp st s) vis"
proof -
  obtain k where k: "(a, k) \<in> set vis" using inv seen by (auto simp: bfs_inv_def)
  moreover have "sorted (map snd (vis @ (a, n) # q))" using inv q by (simp add: bfs_inv_def)
  ultimately have "k \<le> n" by (force simp: sorted_append)
  have cover: "\<exists>k \<le> j. (d, k) \<in> set (vis @ q)" if "\<exists>k \<le> j. (d, k) \<in> set (vis @ (a, n) # q)" for d j
    using that k \<open>k \<le> n\<close> by (auto intro: order_trans)
  have "bfs_step sp st s = s\<lparr>bfs_queue := q\<rparr>" using q seen by (simp add: bfs_step_def)
  moreover have "(\<forall>d \<in> set (deps_of sp l). \<exists>k \<le> 1. (d, k) \<in> set (vis @ q)) \<and>
      (\<forall>(b, m) \<in> set vis. \<forall>d \<in> set (deps_of sp b). \<exists>k \<le> m + 1. (d, k) \<in> set (vis @ q))"
    using inv unfolding bfs_inv_def q by (blast intro: cover)
  ultimately show ?thesis
    using inv unfolding bfs_inv_def q by (auto simp: sorted_append)
qed

lemma bfs_inv_visit:
  assumes ok: "wave_ok sp" and inv: "bfs_inv sp st l s vis" and q: "bfs_queue s = (a, n) # q"
    and seen: "a \<notin> set (bfs_seen s)"
  shows "bfs_inv sp st l (bfs_step sp st s) (vis @ [(a, n)])"
proof -
  have walk: "1 \<le> n" "(a, l) \<in> dep_rel sp ^^ n" using inv q by (auto simp: bfs_inv_def)
  have lane: "a \<in> set (lane_ids sp)" by (rule dep_rel_pow_lane [OF ok walk])
  have new: "(d, l) \<in> dep_rel sp ^^ Suc n" if "d \<in> set (deps_of sp a)" for d
    by (rule dep_rel_extend [OF walk(2) lane that])
  have order: "sorted (map snd (vis @ (a, n) # q))" and near: "\<forall>m \<in> set (map snd q). m \<le> n + 1"
    using inv unfolding bfs_inv_def q by auto
  have step: "bfs_step sp st s =
      \<lparr>bfs_queue = q @ map (\<lambda>d. (d, n + 1)) (deps_of sp a), bfs_seen = a # bfs_seen s,
       bfs_cands = (if state_of st a \<in> blocking_states then bfs_cands s @ [(n, a)] else bfs_cands s)\<rparr>"
    using q seen by (simp add: bfs_step_def)
  have 1: "\<forall>(b, m) \<in> set ((vis @ [(a, n)]) @ q @ map (\<lambda>d. (d, n + 1)) (deps_of sp a)).
      1 \<le> m \<and> (b, l) \<in> dep_rel sp ^^ m"
    using inv new unfolding bfs_inv_def q by auto
  have 2: "sorted (map snd ((vis @ [(a, n)]) @ q @ map (\<lambda>d. (d, n + 1)) (deps_of sp a)))"
    using order near by (fastforce simp: sorted_append comp_def map_replicate_const)
  have 3: "\<forall>i \<in> set (map snd (q @ map (\<lambda>d. (d, n + 1)) (deps_of sp a))).
      \<forall>j \<in> set (map snd (q @ map (\<lambda>d. (d, n + 1)) (deps_of sp a))). i \<le> j + 1"
    using order near by (force simp: sorted_append)
  let ?new = "map (\<lambda>d. (d, n + 1)) (deps_of sp a)"
  have grow: "\<exists>k \<le> j. (d, k) \<in> set ((vis @ [(a, n)]) @ q @ ?new)"
    if "\<exists>k \<le> j. (d, k) \<in> set (vis @ bfs_queue s)" for d j
    using that unfolding q by auto
  have 4: "\<forall>d \<in> set (deps_of sp l). \<exists>k \<le> 1. (d, k) \<in> set ((vis @ [(a, n)]) @ q @ ?new)"
    by (intro ballI grow bfs_inv_first [OF inv])
  have "\<exists>k \<le> m + 1. (d, k) \<in> set ((vis @ [(a, n)]) @ q @ ?new)"
    if b: "(b, m) \<in> set (vis @ [(a, n)])" and d: "d \<in> set (deps_of sp b)" for b m d
  proof (cases "(b, m) \<in> set vis")
    case True
    then show ?thesis by (intro grow bfs_inv_next [OF inv True d])
  next
    case False
    then show ?thesis using b d by (intro exI [of _ "m + 1"]) auto
  qed
  then have 5: "\<forall>(b, m) \<in> set (vis @ [(a, n)]). \<forall>d \<in> set (deps_of sp b).
      \<exists>k \<le> m + 1. (d, k) \<in> set ((vis @ [(a, n)]) @ q @ ?new)"
    by blast
  have 6: "a # bfs_seen s = rev (map fst (vis @ [(a, n)]))" using inv by (simp add: bfs_inv_def)
  have 7: "(if state_of st a \<in> blocking_states then bfs_cands s @ [(n, a)] else bfs_cands s) =
      map prod.swap (filter (\<lambda>(a, n). state_of st a \<in> blocking_states) (vis @ [(a, n)]))"
    using inv by (simp add: bfs_inv_def)
  show ?thesis
    unfolding bfs_inv_def step bfs.simps by (intro conjI 1 2 3 4 5 6 7)
qed

definition bfs_order :: "wave_spec \<Rightarrow> (bfs \<times> bfs) set" where
  "bfs_order sp = inv_image (less_than <*lex*> less_than)
     (\<lambda>s. (card (set (lane_ids sp) - set (bfs_seen s)), length (bfs_queue s)))"

lemma wf_bfs_order: "wf (bfs_order sp)"
  by (auto simp: bfs_order_def)

lemma bfs_step_decreases:
  assumes ok: "wave_ok sp" and inv: "bfs_inv sp st l s vis" and more: "bfs_queue s \<noteq> []"
  shows "(bfs_step sp st s, s) \<in> bfs_order sp"
proof -
  obtain a n q where q: "bfs_queue s = (a, n) # q" using more by (cases "bfs_queue s") auto
  have "a \<in> set (lane_ids sp)"
    using inv q dep_rel_pow_lane [OF ok] by (auto simp: bfs_inv_def)
  then have "a \<notin> set (bfs_seen s) \<Longrightarrow>
      card (set (lane_ids sp) - insert a (set (bfs_seen s))) < card (set (lane_ids sp) - set (bfs_seen s))"
    by (intro psubset_card_mono) auto
  then show ?thesis using q by (auto simp: bfs_order_def bfs_step_def)
qed

text \<open>Every ancestor is visited at its shortest distance.\<close>

definition shortest :: "wave_spec \<Rightarrow> lane_id \<Rightarrow> lane_id \<Rightarrow> nat \<Rightarrow> bool" where
  "shortest sp l a n \<longleftrightarrow>
     1 \<le> n \<and> (a, l) \<in> dep_rel sp ^^ n \<and> (\<forall>m. 1 \<le> m \<longrightarrow> (a, l) \<in> dep_rel sp ^^ m \<longrightarrow> n \<le> m)"

lemma bfs_inv_covers:
  assumes inv: "bfs_inv sp st l s vis" and stop: "bfs_queue s = []"
  shows "(a, l) \<in> dep_rel sp ^^ Suc n \<Longrightarrow> \<exists>k \<le> Suc n. (a, k) \<in> set vis"
proof (induction n arbitrary: a)
  case 0
  then have "a \<in> set (deps_of sp l)" by (simp add: dep_rel_def)
  from bfs_inv_first [OF inv this] stop show ?case by simp
next
  case (Suc n)
  then obtain b where b: "(a, b) \<in> dep_rel sp" "(b, l) \<in> dep_rel sp ^^ Suc n"
    using relpow_Suc_D2 [OF Suc.prems] by blast
  obtain k where k: "k \<le> Suc n" "(b, k) \<in> set vis" using Suc.IH [OF b(2)] by blast
  have "a \<in> set (deps_of sp b)" using b(1) by (simp add: dep_rel_def)
  then obtain j where "j \<le> k + 1" "(a, j) \<in> set vis"
    using bfs_inv_next [OF inv k(2)] stop by auto
  then show ?case using k(1) by (intro exI [of _ j]) auto
qed

lemma bfs_inv_shortest:
  assumes inv: "bfs_inv sp st l s vis" and stop: "bfs_queue s = []" and dist: "distinct (bfs_seen s)"
  shows "(a, n) \<in> set vis \<longleftrightarrow> shortest sp l a n"
proof
  assume mem: "(a, n) \<in> set vis"
  have "distinct (map fst vis)" using inv dist by (simp add: bfs_inv_def)
  then have uniq: "k = n" if "(a, k) \<in> set vis" for k
    using that mem by (rule eq_key_imp_eq_value)
  have "n \<le> m" if "1 \<le> m" "(a, l) \<in> dep_rel sp ^^ m" for m
    using bfs_inv_covers [OF inv stop, of a "m - 1"] that uniq by (cases m) auto
  then show "shortest sp l a n" using inv mem by (auto simp: bfs_inv_def shortest_def)
next
  assume s: "shortest sp l a n"
  obtain k where k: "k \<le> n" "(a, k) \<in> set vis"
    using bfs_inv_covers [OF inv stop, of a "n - 1"] s by (cases n) (auto simp: shortest_def)
  moreover have "n \<le> k" using k(2) inv s by (auto simp: bfs_inv_def shortest_def)
  ultimately show "(a, n) \<in> set vis" by simp
qed

lemma blocking_candidates_set:
  assumes ok: "wave_ok sp" and l: "l \<in> set (lane_ids sp)"
  shows "set (blocking_candidates sp st l) = {(n, a). state_of st a \<in> blocking_states \<and> shortest sp l a n}"
proof -
  let ?P = "\<lambda>s. (\<exists>vis. bfs_inv sp st l s vis) \<and> distinct (bfs_seen s)"
  let ?Q = "\<lambda>s. set (bfs_cands s) = {(n, a). state_of st a \<in> blocking_states \<and> shortest sp l a n}"
  have step: "?P (bfs_step sp st s)" if P: "?P s" and more: "bfs_queue s \<noteq> []" for s
  proof -
    obtain vis where inv: "bfs_inv sp st l s vis" using P by blast
    obtain a n q where q: "bfs_queue s = (a, n) # q" using more by (cases "bfs_queue s") auto
    have "distinct (bfs_seen (bfs_step sp st s))" using P q by (simp add: bfs_step_def)
    then show ?thesis
      using bfs_inv_skip [OF inv q] bfs_inv_visit [OF ok inv q] by blast
  qed
  have stop: "?Q s" if P: "?P s" and e: "\<not> bfs_queue s \<noteq> []" for s
  proof -
    obtain vis where inv: "bfs_inv sp st l s vis" using P by blast
    have "(n, a) \<in> set (bfs_cands s) \<longleftrightarrow> (a, n) \<in> set vis \<and> state_of st a \<in> blocking_states" for n a
      using inv by (force simp: bfs_inv_def)
    then show ?thesis using bfs_inv_shortest [OF inv] P e by auto
  qed
  show ?thesis
    unfolding blocking_candidates_def
  proof (rule while_rule [where P = ?P and Q = ?Q and r = "bfs_order sp"])
    show "?P (bfs_start sp l)" using bfs_inv_start [OF l] by (auto simp: bfs_start_def)
  qed (use step stop wf_bfs_order bfs_step_decreases [OF ok] in auto)
qed

text \<open>The nearest blocking ancestor, the smallest lane id among the equally near ones.\<close>

definition nearest_blocker :: "wave_spec \<Rightarrow> lane_states \<Rightarrow> lane_id \<Rightarrow> lane_id \<Rightarrow> bool" where
  "nearest_blocker sp st l b \<longleftrightarrow> state_of st b \<in> blocking_states \<and>
     (\<exists>n. shortest sp l b n \<and>
       (\<forall>a m. state_of st a \<in> blocking_states \<longrightarrow> shortest sp l a m \<longrightarrow> n < m \<or> n = m \<and> b \<le> a))"

lemma blocked_by_Some:
  assumes ok: "wave_ok sp" and l: "l \<in> set (lane_ids sp)"
  shows "blocked_by sp st l = Some b \<longleftrightarrow> nearest_blocker sp st l b"
proof -
  define C where "C = set (blocking_candidates sp st l)"
  have mem_C: "(n, a) \<in> C \<longleftrightarrow> state_of st a \<in> blocking_states \<and> shortest sp l a n" for n a
    by (simp add: C_def blocking_candidates_set [OF ok l])
  have by_C: "blocked_by sp st l = (if C = {} then None else Some (snd (Min C)))" and fin: "finite C"
    by (simp_all add: blocked_by_def Let_def C_def)
  show ?thesis
  proof
    assume some: "blocked_by sp st l = Some b"
    obtain n a where min: "Min C = (n, a)" by (cases "Min C")
    have ne: "C \<noteq> {}" and b: "a = b" using some min by (auto simp: by_C split: if_splits)
    have "(n, b) \<in> C" using Min_in [OF fin ne] min b by simp
    moreover have "(n, b) \<le> (m, c)" if "(m, c) \<in> C" for m c
      using Min_le [OF fin that] min b by simp
    ultimately show "nearest_blocker sp st l b"
      unfolding nearest_blocker_def by (force simp: mem_C less_eq_prod_def intro!: exI [of _ n])
  next
    assume "nearest_blocker sp st l b"
    then obtain n where mem: "(n, b) \<in> C" and low: "\<And>m a. (m, a) \<in> C \<Longrightarrow> (n, b) \<le> (m, a)"
      by (auto simp: nearest_blocker_def mem_C)
    have "Min C = (n, b)" by (rule Min_eqI [OF fin]) (use mem low in auto)
    then show "blocked_by sp st l = Some b" using mem by (auto simp: by_C)
  qed
qed

lemma blocked_iff:
  assumes wf: "wf_spec sp" and ok: "wave_ok sp"
  shows "(l, b) \<in> set (blocked sp st) \<longleftrightarrow> l \<in> set (lane_ids sp) \<and> nearest_blocker sp st l b"
  using blocked_by_Some [OF ok] validate_Nil [OF wf] ok
  by (force simp: blocked_def split: option.splits)

lemma shortest_exists: "(\<exists>n. shortest sp l a n) \<longleftrightarrow> (a, l) \<in> (dep_rel sp)\<^sup>+"
proof
  assume "(a, l) \<in> (dep_rel sp)\<^sup>+"
  then obtain k where k: "(1::nat) \<le> k \<and> (a, l) \<in> dep_rel sp ^^ k"
    by (auto simp: trancl_power Suc_le_eq)
  define n where "n = (LEAST k. (1::nat) \<le> k \<and> (a, l) \<in> dep_rel sp ^^ k)"
  have "1 \<le> n \<and> (a, l) \<in> dep_rel sp ^^ n" unfolding n_def by (rule LeastI [of _ k]) (rule k)
  moreover have "n \<le> m" if "1 \<le> m" "(a, l) \<in> dep_rel sp ^^ m" for m
    unfolding n_def by (rule Least_le) (use that in blast)
  ultimately show "\<exists>n. shortest sp l a n" by (auto simp: shortest_def)
next
  assume "\<exists>n. shortest sp l a n"
  then show "(a, l) \<in> (dep_rel sp)\<^sup>+"
    by (auto simp: shortest_def trancl_power Suc_le_eq)
qed

definition has_blocker :: "wave_spec \<Rightarrow> lane_states \<Rightarrow> lane_id \<Rightarrow> bool" where
  "has_blocker sp st l \<longleftrightarrow> (\<exists>a. (a, l) \<in> (dep_rel sp)\<^sup>+ \<and> state_of st a \<in> blocking_states)"

lemma blocked_keys:
  assumes wf: "wf_spec sp" and ok: "wave_ok sp"
  shows "set (map fst (blocked sp st)) = {l \<in> set (lane_ids sp). has_blocker sp st l}"
proof -
  have "blocked_by sp st l \<noteq> None \<longleftrightarrow> has_blocker sp st l" if l: "l \<in> set (lane_ids sp)" for l
  proof -
    have "blocked_by sp st l \<noteq> None \<longleftrightarrow> set (blocking_candidates sp st l) \<noteq> {}"
      by (simp add: blocked_by_def Let_def)
    also have "\<dots> \<longleftrightarrow> (\<exists>a n. state_of st a \<in> blocking_states \<and> shortest sp l a n)"
      unfolding blocking_candidates_set [OF ok l] by blast
    finally show ?thesis using shortest_exists [of sp l] by (auto simp: has_blocker_def)
  qed
  moreover have "validate sp = []" using validate_Nil [OF wf] ok by simp
  ultimately show ?thesis
    by (force simp: blocked_def split: option.splits)
qed

section \<open>What the frontier is\<close>

definition may_start :: "wave_spec \<Rightarrow> lane_states \<Rightarrow> lane_id \<Rightarrow> bool" where
  "may_start sp st l \<longleftrightarrow>
     l \<in> set (lane_ids sp) \<and> state_of st l = ''pending'' \<and> \<not> has_blocker sp st l \<and>
     (\<forall>d \<in> set (deps_of sp l). state_of st d = ''integrated'') \<and>
     (\<forall>(b, s) \<in> set st. s \<in> conflict_holding_states \<longrightarrow> \<not> conflicting sp l b)"

lemma frontier_candidates_set:
  assumes wf: "wf_spec sp" and ok: "wave_ok sp" and cf: "conflicts sp = Inr cf"
  shows "set (frontier_candidates sp st cf) = {l. may_start sp st l}"
  using blocked_keys [OF wf ok, of st] conflicts_mem [OF wf cf]
  by (auto simp: frontier_candidates_def may_start_def busy_lanes_def list_ex_set list_all_iff)

lemma frontier_spec:
  assumes wf: "wf_spec sp" and ok: "wave_ok sp"
  obtains sel where "\<And>width. frontier sp st width = cut_width width sel" and "distinct sel"
    and "set sel \<subseteq> {l. may_start sp st l}"
    and "sorted_wrt (\<lambda>a b. \<not> conflicting sp a b) sel"
    and "\<And>l. may_start sp st l \<Longrightarrow> l \<in> set sel \<or> (\<exists>s \<in> set sel. conflicting sp l s)"
proof -
  obtain xs where top: "topological_order sp = Some xs" by (rule topological_order_Some [OF wf ok])
  obtain cf where cf: "conflicts sp = Inr cf" using conflicts_ok [OF wf ok] by blast
  let ?cs = "frontier_ranked sp st cf xs"
  let ?sel = "greedy (conflicting sp) ?cs"
  have "(\<lambda>l s. {l, s} \<in> cf) = conflicting sp" by (intro ext) (simp add: conflicts_mem [OF wf cf])
  then have 1: "frontier sp st width = cut_width width ?sel" for width
    by (simp add: frontier_def top cf)
  have cs: "set ?cs = {l. may_start sp st l}"
    by (simp add: frontier_ranked_def Let_def frontier_candidates_set [OF wf ok cf])
  have "distinct ?cs"
    using wf by (simp add: frontier_ranked_def Let_def frontier_candidates_def wf_spec_def)
  then have 2: "distinct ?sel" by (rule wave_conflict.greedy_distinct)
  have 3: "set ?sel \<subseteq> {l. may_start sp st l}" using wave_conflict.greedy_set [of sp ?cs] cs by simp
  have 4: "sorted_wrt (\<lambda>a b. \<not> conflicting sp a b) ?sel"
    using wave_conflict.greedy_clash_free [of sp ?cs] by (rule sorted_wrt_mono_rel [rotated]) simp
  have 5: "l \<in> set ?sel \<or> (\<exists>s \<in> set ?sel. conflicting sp l s)" if "may_start sp st l" for l
    using wave_conflict.greedy_maximal [of l ?cs sp] that cs by simp
  show ?thesis by (rule that [OF 1 2 3 4 5])
qed

lemma frontier_invalid: "validate sp \<noteq> [] \<Longrightarrow> frontier sp st width = Inr []"
  by (simp add: frontier_def topological_order_def)

end
