(* ===== verification/WaveProperties.thy ===== *)
theory WaveProperties
  imports WaveFrontier
begin

text \<open>
  What the wave scheduler (\<open>wave_scheduler.py\<close>) promises, over the definitions of
  \<open>WaveDag\<close>, \<open>WaveOrder\<close> and \<open>WaveFrontier\<close>, each property with an instance on one wave.
\<close>

definition demo_wave :: wave_spec where
  "demo_wave = \<lparr>wave = ''w1'', lanes =
     [(''api'', \<lparr>depends_on = [''schema''], lane_paths = [''src/api/*''], weight = 3\<rparr>),
      (''cli'', \<lparr>depends_on = [''api''], lane_paths = [''src/cli''], weight = 1\<rparr>),
      (''docs'', \<lparr>depends_on = [''schema''], lane_paths = [''docs'', ''src/api/README''], weight = 2\<rparr>),
      (''schema'', \<lparr>depends_on = [], lane_paths = [''schema''], weight = 1\<rparr>)]\<rparr>"

definition demo_cyclic :: wave_spec where
  "demo_cyclic = \<lparr>wave = ''w2'', lanes =
     [(''a'', \<lparr>depends_on = [''b''], lane_paths = [], weight = 1\<rparr>),
      (''b'', \<lparr>depends_on = [''a''], lane_paths = [], weight = 1\<rparr>)]\<rparr>"

lemma demo_wf: "wf_spec demo_wave" "validate demo_wave = []"
  by code_simp+

lemma valid_wave_ok: "wf_spec sp \<Longrightarrow> validate sp = [] \<Longrightarrow> wave_ok sp"
  using validate_Nil by blast

section \<open>Starting lanes\<close>

text \<open>
  C1 (safety): the frontier of a valid wave is one list that the width only cuts: it has no
  repeated lane, every lane in it may start now (pending, no failed or parked ancestor, every
  dependency integrated, no overlap with a busy lane), no two of its lanes own overlapping
  paths, and a lane that may start is left out only because it overlaps one that is in.
\<close>

theorem frontier_safe_maximal:
  assumes wf: "wf_spec sp" and valid: "validate sp = []"
  shows "\<exists>sel. (\<forall>width. frontier sp st width = cut_width width sel) \<and> distinct sel \<and>
    (\<forall>l \<in> set sel. may_start sp st l) \<and> sorted_wrt (\<lambda>a b. \<not> conflicting sp a b) sel \<and>
    (\<forall>l. may_start sp st l \<longrightarrow> l \<in> set sel \<or> (\<exists>s \<in> set sel. conflicting sp l s))"
proof -
  obtain sel where "\<And>width. frontier sp st width = cut_width width sel" "distinct sel"
      "set sel \<subseteq> {l. may_start sp st l}" "sorted_wrt (\<lambda>a b. \<not> conflicting sp a b) sel"
      "\<And>l. may_start sp st l \<Longrightarrow> l \<in> set sel \<or> (\<exists>s \<in> set sel. conflicting sp l s)"
    using frontier_spec [OF wf valid_wave_ok [OF wf valid]] by metis
  then show ?thesis by (intro exI [of _ sel]) auto
qed

theorem frontier_safe_maximal_witness:
  "\<exists>sel. (\<forall>width. frontier demo_wave [(''schema'', ''integrated'')] width = cut_width width sel) \<and> distinct sel \<and>
    (\<forall>l \<in> set sel. may_start demo_wave [(''schema'', ''integrated'')] l) \<and>
    sorted_wrt (\<lambda>a b. \<not> conflicting demo_wave a b) sel \<and>
    (\<forall>l. may_start demo_wave [(''schema'', ''integrated'')] l \<longrightarrow>
       l \<in> set sel \<or> (\<exists>s \<in> set sel. conflicting demo_wave l s))"
  by (rule frontier_safe_maximal [OF demo_wf])

text \<open>
  Property (bounds): a width \<open>w\<close> returns at most \<open>max 0 w\<close> lanes, the first ones of the unlimited
  frontier; and a spec that does not validate starts nothing.
\<close>

theorem frontier_width:
  assumes "frontier sp st PNone = Inr xs"
  shows "frontier sp st (PInt w) = Inr (take (nat (max 0 w)) xs) \<and> (validate sp \<noteq> [] \<longrightarrow> xs = [])"
  using assms frontier_invalid [of sp st PNone]
  by (auto simp: frontier_def cut_width_def bind_result_Inr_iff split: option.splits)

theorem frontier_width_witness:
  "frontier demo_wave [(''schema'', ''integrated'')] PNone = Inr [''api''] \<and>
   frontier demo_wave [(''schema'', ''integrated'')] (PInt 0) = Inr (take (nat (max 0 0)) [''api''])"
proof -
  have "frontier demo_wave [(''schema'', ''integrated'')] PNone = Inr [''api'']" by code_simp
  then show ?thesis using frontier_width [of demo_wave "[(''schema'', ''integrated'')]" "[''api'']" 0] by simp
qed

text \<open>
  Property (functional): \<open>blocked\<close> pairs a lane with the failed or parked ancestor at the smallest
  distance, the smallest name among those at that distance, and lists no other pair.
\<close>

theorem blocked_nearest:
  assumes wf: "wf_spec sp" and valid: "validate sp = []"
  shows "(l, b) \<in> set (blocked sp st) \<longleftrightarrow> l \<in> set (lane_ids sp) \<and> nearest_blocker sp st l b"
  by (rule blocked_iff [OF wf valid_wave_ok [OF wf valid]])

theorem blocked_nearest_witness:
  "nearest_blocker demo_wave [(''schema'', ''failed''), (''api'', ''parked'')] ''cli'' ''api''"
proof -
  have "(''cli'', ''api'') \<in> set (blocked demo_wave [(''schema'', ''failed''), (''api'', ''parked'')])"
    by code_simp
  then show ?thesis using blocked_nearest [OF demo_wf] by blast
qed

text \<open>
  Property (functional): the conflict pairs of a wave are exactly the pairs of different lanes that
  own overlapping paths, in either order.
\<close>

theorem conflicts_exact:
  assumes wf: "wf_spec sp" and valid: "validate sp = []"
  shows "\<exists>cf. conflicts sp = Inr cf \<and> (\<forall>l r. {l, r} \<in> cf \<longleftrightarrow> conflicting sp l r) \<and>
    (\<forall>e \<in> cf. \<exists>l r. e = {l, r} \<and> l \<noteq> r \<and> l \<in> set (lane_ids sp) \<and> r \<in> set (lane_ids sp))"
proof -
  obtain cf where cf: "conflicts sp = Inr cf" using conflicts_ok [OF wf valid_wave_ok [OF wf valid]] by blast
  show ?thesis using conflicts_mem [OF wf cf] conflicts_elems [OF wf cf] cf by blast
qed

theorem conflicts_exact_witness: "conflicting demo_wave ''docs'' ''api''"
proof -
  have "conflicts demo_wave = Inr {{''api'', ''docs''}}" by code_simp
  then show ?thesis using conflicts_exact [OF demo_wf] by (auto simp: insert_commute)
qed

section \<open>Validating a spec\<close>

text \<open>
  C37 (equivalence): the problems that \<open>validate\<close> lists are complete: the list is empty exactly
  when every dependency is a declared lane, the dependencies are acyclic and every path is
  canonical.
\<close>

theorem validate_complete:
  assumes "wf_spec sp"
  shows "validate sp = [] \<longleftrightarrow> wave_ok sp"
  by (rule validate_Nil [OF assms])

theorem validate_complete_witness: "wave_ok demo_wave \<and> \<not> wave_ok demo_cyclic"
proof -
  have "wf_spec demo_cyclic" "validate demo_cyclic \<noteq> []" by code_simp+
  then show ?thesis using validate_complete demo_wf by blast
qed

text \<open>
  Property (functional): a cycle that \<open>validate\<close> reports is a cycle of the wave: different declared
  lanes, each a dependency of the next and the last of the first.
\<close>

theorem reported_cycle_real:
  assumes "wf_spec sp" and "CycleProblem c \<in> set (validate sp)"
  shows "c \<noteq> [] \<and> distinct c \<and> set c \<subseteq> set (lane_ids sp) \<and>
    successively (\<lambda>x y. x \<in> set (deps_of sp y) \<and> x \<noteq> y) (c @ [hd c])"
  by (rule validate_cycle_sound [OF assms])

theorem reported_cycle_real_witness:
  "CycleProblem [''a'', ''b''] \<in> set (validate demo_cyclic) \<and> distinct [''a'', ''b'']"
proof -
  have "wf_spec demo_cyclic" "CycleProblem [''a'', ''b''] \<in> set (validate demo_cyclic)" by code_simp+
  then show ?thesis using reported_cycle_real by blast
qed

text \<open>
  C38 (type): a wave built from a parsed mapping has sorted, distinct, nonblank lanes,
  dependencies and paths and no negative weight.
\<close>

theorem built_wave_wf:
  assumes "from_dict (PDict kvs) = Inr sp" and "py_get (PDict kvs) ''lanes'' = PDict ls" and "distinct (map fst ls)"
  shows "wf_spec sp"
  using assms make_wave_spec_wf [OF _ assms(3)]
  by (auto simp: from_dict_def split: option.splits if_splits)

theorem built_wave_wf_witness:
  "\<exists>sp. from_dict (PDict [(PStr ''wave'', PStr ''w''), (PStr ''lanes'', PDict
     [(PStr ''b'', PDict [(PStr ''depends_on'', PList [PStr ''a'', PStr ''a''])]), (PStr ''a'', PDict [])])]) = Inr sp \<and>
   lane_ids sp = [''a'', ''b''] \<and> wf_spec sp"
proof -
  let ?ls = "[(PStr ''b'', PDict [(PStr ''depends_on'', PList [PStr ''a'', PStr ''a''])]), (PStr ''a'', PDict [])]"
  let ?d = "[(PStr ''wave'', PStr ''w''), (PStr ''lanes'', PDict ?ls)]"
  let ?sp = "\<lparr>wave = ''w'', lanes = [(''a'', \<lparr>depends_on = [], lane_paths = [], weight = 1\<rparr>),
      (''b'', \<lparr>depends_on = [''a''], lane_paths = [], weight = 1\<rparr>)]\<rparr>"
  have "from_dict (PDict ?d) = Inr ?sp" "py_get (PDict ?d) ''lanes'' = PDict ?ls" "distinct (map fst ?ls)"
       "lane_ids ?sp = [''a'', ''b'']"
    by code_simp+
  then show ?thesis using built_wave_wf [of ?d ?sp ?ls] by blast
qed

section \<open>Ordering lanes\<close>

text \<open>
  Property (functional): the topological order exists exactly for a valid wave, and then takes, again
  and again, the least lane whose dependencies have all been taken, until every lane is.
\<close>

theorem topological_least_first:
  assumes wf: "wf_spec sp"
  shows "(case topological_order sp of
      None \<Rightarrow> \<not> wave_ok sp
    | Some xs \<Rightarrow> wave_ok sp \<and> set xs = set (lane_ids sp) \<and> least_first (deps_of sp) (set (lane_ids sp)) xs)"
proof (cases "wave_ok sp")
  case True
  then obtain xs where "topological_order sp = Some xs" "least_first (deps_of sp) (set (lane_ids sp)) xs"
      "set xs = set (lane_ids sp)"
    using topological_order_Some [OF wf] by blast
  then show ?thesis using True by simp
next
  case False
  then show ?thesis using topological_order_None [OF wf] by simp
qed

theorem topological_least_first_witness:
  "least_first (deps_of demo_wave) (set (lane_ids demo_wave)) [''schema'', ''api'', ''cli'', ''docs'']"
proof -
  have "topological_order demo_wave = Some [''schema'', ''api'', ''cli'', ''docs'']" by code_simp
  then show ?thesis using topological_least_first [OF demo_wf(1)] by simp
qed

text \<open>
  Property (functional): the integration order holds exactly the done lanes whose ancestors are all
  done, least first.
\<close>

theorem integration_closed:
  assumes wf: "wf_spec sp" and valid: "validate sp = []"
  shows "set (integration_order sp don) = {l \<in> set (lane_ids sp). \<forall>a. (a, l) \<in> (dep_rel sp)\<^sup>* \<longrightarrow> a \<in> don} \<and>
    least_first (deps_of sp) (set (lane_ids sp) \<inter> don) (integration_order sp don)"
  using integration_order_spec [OF wf valid_wave_ok [OF wf valid]] by blast

theorem integration_closed_witness:
  "least_first (deps_of demo_wave) (set (lane_ids demo_wave) \<inter> {''cli'', ''docs'', ''schema''}) [''schema'', ''docs'']"
proof -
  have "integration_order demo_wave {''cli'', ''docs'', ''schema''} = [''schema'', ''docs'']" by code_simp
  then show ?thesis using integration_closed [OF demo_wf, of "{''cli'', ''docs'', ''schema''}"] by simp
qed

text \<open>
  Property (functional): the critical path runs from a lane without dependencies to one that nothing
  depends on, and no dependency chain of the wave weighs more.
\<close>

theorem critical_path_heaviest:
  assumes wf: "wf_spec sp" and valid: "validate sp = []" and ne: "lane_ids sp \<noteq> []"
  shows "dep_chain sp (critical_path sp) \<and> deps_of sp (hd (critical_path sp)) = [] \<and>
    (\<forall>l \<in> set (lane_ids sp). last (critical_path sp) \<notin> set (deps_of sp l)) \<and>
    (\<forall>p. dep_chain sp p \<longrightarrow> chain_weight sp p \<le> chain_weight sp (critical_path sp))"
  by (rule critical_path_maximal [OF wf valid_wave_ok [OF wf valid] ne])

theorem critical_path_heaviest_witness:
  "dep_chain demo_wave [''schema'', ''docs''] \<and> chain_weight demo_wave [''schema'', ''docs''] \<le> 5"
proof -
  have "critical_path demo_wave = [''schema'', ''api'', ''cli'']" "chain_weight demo_wave [''schema'', ''api'', ''cli''] = 5"
       "lane_ids demo_wave \<noteq> []" "dep_chain demo_wave [''schema'', ''docs'']"
    by code_simp+
  then show ?thesis using critical_path_heaviest [OF demo_wf] by auto
qed

text \<open>
  Property (functional): a lane's level is 0 without dependencies and otherwise one more than the
  highest level among them, and the width profile counts the lanes of every level.
\<close>

theorem levels_and_widths:
  assumes "wf_spec sp" and "validate sp = []" and "l \<in> set (lane_ids sp)"
  shows "lane_level sp l = (if deps_of sp l = [] then 0 else 1 + Max (lane_level sp ` set (deps_of sp l))) \<and>
    length (width_profile sp) = (if levels sp = [] then 0 else Max (snd ` set (levels sp)) + 1) \<and>
    (\<forall>k < length (width_profile sp). width_profile sp ! k = length (filter (\<lambda>(_, v). v = k) (levels sp)))"
  using lane_level_eq [OF assms(1) valid_wave_ok [OF assms(1,2)] assms(3)] width_profile_spec by blast

theorem levels_and_widths_witness:
  "lane_level demo_wave ''cli'' = 1 + Max (lane_level demo_wave ` {''api''}) \<and> width_profile demo_wave = [1, 2, 1]"
proof -
  have "''cli'' \<in> set (lane_ids demo_wave)" "deps_of demo_wave ''cli'' = [''api'']" "width_profile demo_wave = [1, 2, 1]"
    by code_simp+
  then show ?thesis using levels_and_widths [OF demo_wf, of "''cli''"] by simp
qed

end
