(* ===== verification/WaveAdmission.thy ===== *)
theory WaveAdmission
  imports PyValue
begin

text \<open>
  \<open>wave_admission.py\<close>: whether the machine can take one more lane.  \<open>decide\<close> reads
  the gauges, adds up what the pending submissions and the candidate will use and
  compares the sums with the limits; a gauge that is missing or malformed refuses.
  The readers that turn the text of the cgroup and proc files, the environment and
  the output of \<open>git count-objects\<close> into gauges follow; the texts themselves are the
  fields of a \<open>host\<close>.
\<close>

definition GIB :: int where "GIB = 1024 ^ 3"
definition MIB :: int where "MIB = 1024 ^ 2"

section \<open>Numbers\<close>

text \<open>\<open>int | float\<close>; the floats are finite.\<close>

datatype pynum = NInt int | NFloat rat

fun num_rat :: "pynum \<Rightarrow> rat" where
  "num_rat (NInt i) = of_int i"
| "num_rat (NFloat q) = q"

fun num_int :: "pynum \<Rightarrow> int" where
  "num_int (NInt i) = i"
| "num_int (NFloat q) = trunc_rat q"

fun finite_number :: "bool \<Rightarrow> pyval \<Rightarrow> pynum option" where
  "finite_number integer (PInt i) = (if i < 0 then None else Some (NInt i))"
| "finite_number integer (PFloat (Finite q)) =
     (if q < 0 then None
      else if integer \<and> of_int \<lfloor>q\<rfloor> \<noteq> q then None
      else if integer then Some (NInt (trunc_rat q)) else Some (NFloat q))"
| "finite_number integer v = None"

definition gauge_number :: "pyval \<Rightarrow> string \<Rightarrow> bool \<Rightarrow> pynum option" where
  "gauge_number gauges name integer = finite_number integer (py_get gauges name)"

datatype limit = NoLimit | Limit int

definition limit_value :: "pyval \<Rightarrow> string \<Rightarrow> limit option" where
  "limit_value gauges name =
     (let v = py_get gauges name
      in if v = PStr ''max'' then Some NoLimit
         else map_option (Limit \<circ> num_int) (finite_number True v))"

section \<open>Costs\<close>

record resource_costs =
  pids :: int
  anon_bytes :: int
  disk_bytes :: int

definition resources :: "string list" where
  "resources = [''pids'', ''anon_bytes'', ''disk_bytes'']"

definition cost_of :: "resource_costs \<Rightarrow> string \<Rightarrow> int" where
  "cost_of c key = (if key = ''pids'' then pids c else if key = ''anon_bytes'' then anon_bytes c else disk_bytes c)"

definition add_cost :: "string \<Rightarrow> int \<Rightarrow> resource_costs \<Rightarrow> resource_costs" where
  "add_cost key v c =
     (if key = ''pids'' then c\<lparr>pids := pids c + v\<rparr>
      else if key = ''anon_bytes'' then c\<lparr>anon_bytes := anon_bytes c + v\<rparr>
      else c\<lparr>disk_bytes := disk_bytes c + v\<rparr>)"

definition no_cost :: resource_costs where
  "no_cost = \<lparr>pids = 0, anon_bytes = 0, disk_bytes = 0\<rparr>"

text \<open>\<open>iter(x)\<close>: \<open>None\<close> is the \<open>TypeError\<close> of a value that cannot be iterated.\<close>

fun py_iter :: "pyval \<Rightarrow> pyval list option" where
  "py_iter (PStr s) = Some (map (\<lambda>c. PStr [c]) s)"
| "py_iter (PBytes s) = Some (map (\<lambda>c. PInt (int (of_char c))) s)"
| "py_iter (PList xs) = Some xs"
| "py_iter (PTuple xs) = Some xs"
| "py_iter (PDict kvs) = Some (map fst kvs)"
| "py_iter _ = None"

fun entry_costs ::
    "resource_costs \<Rightarrow> nat \<Rightarrow> pyval \<Rightarrow> string list \<Rightarrow> resource_costs \<times> string list
      \<Rightarrow> (resource_costs \<times> string list) option" where
  "entry_costs cand i entry [] acc = Some acc"
| "entry_costs cand i entry (key # keys) (totals, estimates) =
     (case py_lookup entry key of
        None \<Rightarrow> entry_costs cand i entry keys
          (add_cost key (cost_of cand key) totals, estimates @ [''pending['' @ int_str (int i) @ ''].'' @ key])
      | Some v \<Rightarrow>
          (case finite_number True v of
             None \<Rightarrow> None
           | Some n \<Rightarrow> entry_costs cand i entry keys (add_cost key (num_int n) totals, estimates)))"

fun entries_costs ::
    "resource_costs \<Rightarrow> nat \<Rightarrow> pyval list \<Rightarrow> resource_costs \<times> string list
      \<Rightarrow> (resource_costs \<times> string list) option" where
  "entries_costs cand i [] acc = Some acc"
| "entries_costs cand i (entry # entries) acc =
     (if \<not> is_mapping entry then None
      else case entry_costs cand i entry resources acc of
        None \<Rightarrow> None
      | Some acc' \<Rightarrow> entries_costs cand (i + 1) entries acc')"

definition pending_resource_costs :: "pyval \<Rightarrow> resource_costs \<Rightarrow> (resource_costs \<times> string list) option" where
  "pending_resource_costs pending cand =
     (case pending of
        PBool _ \<Rightarrow> None
      | PInt n \<Rightarrow>
          if n < 0 then None
          else Some (\<lparr>pids = n * pids cand, anon_bytes = n * anon_bytes cand, disk_bytes = n * disk_bytes cand\<rparr>, [])
      | v \<Rightarrow>
          (case py_iter v of
             None \<Rightarrow> None
           | Some entries \<Rightarrow> entries_costs cand 0 entries (no_cost, [])))"

section \<open>The decision\<close>

record admission_decision =
  admitted :: bool
  reason :: string
  error_cells :: "(pyval \<times> pyval) list"
  cost_estimates :: "string list"
  pending_costs :: "resource_costs option"
  projected_costs :: "resource_costs option"

definition default_error_cells :: "(pyval \<times> pyval) list" where
  "default_error_cells =
     [(PStr ''vm_pids'', PStr ''not_instrumented''), (PStr ''vm_memory_oom_kill'', PNone),
      (PStr ''vm_memory_psi_burst'', PStr ''not_instrumented''), (PStr ''vm_cpu'', PStr ''not_instrumented''),
      (PStr ''vm_disk'', PStr ''not_instrumented'')]"

definition decision :: "bool \<Rightarrow> string \<Rightarrow> pyval \<Rightarrow> string list \<Rightarrow> admission_decision" where
  "decision adm why gauges estimates =
     (let cells = py_get gauges ''resource_error_cells''
      in \<lparr>admitted = adm, reason = why,
          error_cells = (if is_mapping cells then py_items cells else default_error_cells),
          cost_estimates = estimates, pending_costs = None, projected_costs = None\<rparr>)"

text \<open>The required gauges: name, whether an integer, and the gauge the refusal names.\<close>

definition required_gauges :: "(string \<times> bool \<times> string) list" where
  "required_gauges =
     [(''pids_current'', True, ''vm_pids''),
      (''memory_anon_bytes'', True, ''vm_memory''),
      (''memory_psi_avg60'', False, ''vm_memory_psi''),
      (''cpu_psi_avg60'', False, ''vm_cpu_psi''),
      (''disk_free_bytes'', True, ''vm_disk''),
      (''disk_floor_bytes'', True, ''vm_disk''),
      (''memory_headroom_pct'', True, ''vm_memory''),
      (''memory_psi_max'', False, ''vm_memory_psi''),
      (''cpu_psi_max'', False, ''vm_cpu_psi''),
      (''pids_reserve'', True, ''vm_pids''),
      (''memory_reserve_bytes'', True, ''vm_memory'')]"

definition needs_positive :: "string \<Rightarrow> bool" where
  "needs_positive name \<longleftrightarrow> name = ''pids_reserve'' \<or> name = ''memory_reserve_bytes''"

fun read_required :: "pyval \<Rightarrow> (string \<times> bool \<times> string) list \<Rightarrow> string + (string \<times> pynum) list" where
  "read_required gauges [] = Inr []"
| "read_required gauges ((name, integer, why) # rest) =
     (case gauge_number gauges name integer of
        None \<Rightarrow> Inl why
      | Some v \<Rightarrow>
          if needs_positive name \<and> num_rat v \<le> 0 then Inl why
          else (case read_required gauges rest of Inl e \<Rightarrow> Inl e | Inr vs \<Rightarrow> Inr ((name, v) # vs)))"

definition value_of :: "(string \<times> pynum) list \<Rightarrow> string \<Rightarrow> pynum" where
  "value_of vs name = (case map_of vs name of None \<Rightarrow> NInt 0 | Some v \<Rightarrow> v)"

definition int_of :: "(string \<times> pynum) list \<Rightarrow> string \<Rightarrow> int" where
  "int_of vs name = num_int (value_of vs name)"

fun read_costs :: "pyval \<Rightarrow> (string \<times> string) list \<Rightarrow> resource_costs \<Rightarrow> string + resource_costs" where
  "read_costs measured [] acc = Inr acc"
| "read_costs measured ((key, gauge_name) # rest) acc =
     (case finite_number True (py_get measured key) of
        None \<Rightarrow> Inl gauge_name
      | Some c \<Rightarrow> read_costs measured rest (add_cost key (num_int c) acc))"

definition cost_gauges :: "(string \<times> string) list" where
  "cost_gauges = [(''pids'', ''vm_pids''), (''anon_bytes'', ''vm_memory''), (''disk_bytes'', ''vm_disk'')]"

text \<open>The memory limit: \<open>Inl\<close> when the host bound is unmeasured, \<open>Inr None\<close> under the exemption.\<close>

definition memory_limit :: "pyval \<Rightarrow> (string \<times> pynum) list \<Rightarrow> limit \<Rightarrow> string + int option" where
  "memory_limit gauges vs mem_max =
     (case mem_max of
        Limit m \<Rightarrow>
          Inr (Some (min (m * int_of vs ''memory_headroom_pct'' div 100)
                         (m - int_of vs ''memory_reserve_bytes'')))
      | NoLimit \<Rightarrow>
          if py_get gauges ''unlimited_memory_exemption'' = PBool True then Inr None
          else (case gauge_number gauges ''memory_available_bytes'' True of
                  None \<Rightarrow> Inl ''vm_admission_unmeasured:vm_memory_limit''
                | Some a \<Rightarrow> Inr (Some (int_of vs ''memory_anon_bytes'' +
                    max 0 (num_int a - int_of vs ''memory_reserve_bytes'')))))"

definition projected :: "(string \<times> pynum) list \<Rightarrow> resource_costs \<Rightarrow> resource_costs \<Rightarrow> resource_costs" where
  "projected vs totals costs =
     \<lparr>pids = int_of vs ''pids_current'' + pids totals + pids costs,
      anon_bytes = int_of vs ''memory_anon_bytes'' + anon_bytes totals + anon_bytes costs,
      disk_bytes = disk_bytes totals + disk_bytes costs\<rparr>"

text \<open>The comparisons, in the order of the code, on the measured values.\<close>

definition judge ::
    "pyval \<Rightarrow> (string \<times> pynum) list \<Rightarrow> limit \<Rightarrow> limit \<Rightarrow> resource_costs \<Rightarrow> bool \<times> string" where
  "judge gauges vs pids_max mem_max proj =
     (if \<not> (1 \<le> int_of vs ''memory_headroom_pct'' \<and> int_of vs ''memory_headroom_pct'' \<le> 100)
      then (False, ''vm_admission_unmeasured:vm_memory_headroom'')
      else if (case pids_max of NoLimit \<Rightarrow> False | Limit m \<Rightarrow> pids proj + int_of vs ''pids_reserve'' > m)
      then (False, ''vm_pids'')
      else (case memory_limit gauges vs mem_max of
        Inl why \<Rightarrow> (False, why)
      | Inr bound \<Rightarrow>
          if (case bound of None \<Rightarrow> False | Some m \<Rightarrow> anon_bytes proj > m) then (False, ''vm_memory'')
          else if num_rat (value_of vs ''memory_psi_avg60'') > num_rat (value_of vs ''memory_psi_max'')
          then (False, ''vm_memory_psi'')
          else if num_rat (value_of vs ''cpu_psi_avg60'') > num_rat (value_of vs ''cpu_psi_max'')
          then (False, ''vm_cpu_psi'')
          else if int_of vs ''disk_free_bytes'' - disk_bytes proj < int_of vs ''disk_floor_bytes''
          then (False, ''vm_disk'')
          else if mem_max = NoLimit \<and> py_get gauges ''unlimited_memory_exemption'' = PBool True
          then (True, ''admit:WORKBAY_REMOTE_GATE_ALLOW_UNLIMITED_MEMORY'')
          else (True, ''admit'')))"

definition decide :: "pyval \<Rightarrow> pyval \<Rightarrow> pyval \<Rightarrow> admission_decision" where
  "decide gauges pending measured_cost =
     (let refuse = (\<lambda>why. decision False (''vm_admission_unmeasured:'' @ why) gauges [])
      in case read_required gauges required_gauges of
        Inl why \<Rightarrow> refuse why
      | Inr vs \<Rightarrow>
      (case limit_value gauges ''pids_max'' of
        None \<Rightarrow> refuse ''vm_pids''
      | Some pids_max \<Rightarrow>
      (case limit_value gauges ''memory_max_bytes'' of
        None \<Rightarrow> refuse ''vm_memory''
      | Some mem_max \<Rightarrow>
      (case read_costs measured_cost cost_gauges no_cost of
        Inl g \<Rightarrow> refuse (g @ ''_cost'')
      | Inr costs \<Rightarrow>
      (case pending_resource_costs pending costs of
        None \<Rightarrow> refuse ''vm_pending''
      | Some (totals, estimates) \<Rightarrow>
          (let proj = projected vs totals costs;
               (adm, why) = judge gauges vs pids_max mem_max proj
           in (decision adm why gauges estimates)
                \<lparr>pending_costs := Some totals, projected_costs := Some proj\<rparr>))))))"

section \<open>Reading the host\<close>

text \<open>
  What the readers see: the text of a file (\<open>None\<close> when it cannot be read as ASCII),
  the environment, the free disk space and the standard output of
  \<open>git count-objects -v\<close> (\<open>None\<close> when the call fails).
\<close>

record host =
  read_file :: "string \<Rightarrow> string option"
  environ :: "string \<Rightarrow> string option"
  user_id :: int
  disk_free :: "int option"
  count_objects :: "string option"

definition path_join :: "string \<Rightarrow> string \<Rightarrow> string" where
  "path_join r n = (if r = [] then n else r @ ''/'' @ n)"

definition read_text :: "host \<Rightarrow> string \<Rightarrow> string option" where
  "read_text h path = map_option py_strip (read_file h path)"

definition all_digits :: "string \<Rightarrow> bool" where
  "all_digits s \<longleftrightarrow> s \<noteq> [] \<and> list_all is_digit s"

definition digits_int :: "string \<Rightarrow> int" where
  "digits_int s = foldl (\<lambda>acc c. 10 * acc + int (of_char c - 48)) 0 s"

definition read_uint :: "host \<Rightarrow> string \<Rightarrow> int option" where
  "read_uint h path =
     (case read_text h path of
        None \<Rightarrow> None
      | Some s \<Rightarrow> if all_digits s then Some (digits_int s) else None)"

definition read_ceiling :: "host \<Rightarrow> string \<Rightarrow> limit option" where
  "read_ceiling h path =
     (case read_text h path of
        None \<Rightarrow> None
      | Some s \<Rightarrow>
          if s = ''max'' then Some NoLimit
          else if all_digits s then Some (Limit (digits_int s)) else None)"

text \<open>
  The line readers share a loop: a line that \<open>f\<close> skips (\<open>None\<close>), one that is malformed
  (\<open>Some None\<close>) or one with a value.  Exactly one line must have a value.
\<close>

fun scan_lines :: "(string list \<Rightarrow> 'a option option) \<Rightarrow> string list \<Rightarrow> 'a list option" where
  "scan_lines f [] = Some []"
| "scan_lines f (line # rest) =
     (case f (py_split_ws line) of
        None \<Rightarrow> scan_lines f rest
      | Some None \<Rightarrow> None
      | Some (Some v) \<Rightarrow> map_option ((#) v) (scan_lines f rest))"

definition only_value :: "'a list option \<Rightarrow> 'a option" where
  "only_value vs = (case vs of Some [v] \<Rightarrow> Some v | _ \<Rightarrow> None)"

definition read_single :: "(string list \<Rightarrow> 'a option option) \<Rightarrow> host \<Rightarrow> string \<Rightarrow> 'a option" where
  "read_single f h path =
     (case read_text h path of
        None \<Rightarrow> None
      | Some s \<Rightarrow> only_value (scan_lines f (py_splitlines s)))"

definition counter_line :: "string \<Rightarrow> string list \<Rightarrow> int option option" where
  "counter_line key toks =
     (case toks of
        [] \<Rightarrow> None
      | k # vs \<Rightarrow>
          if k \<noteq> key then None
          else Some (case vs of [v] \<Rightarrow> if all_digits v then Some (digits_int v) else None | _ \<Rightarrow> None))"

definition read_anon :: "host \<Rightarrow> string \<Rightarrow> int option" where
  "read_anon = read_single (counter_line ''anon'')"

definition read_memory_oom_kill :: "host \<Rightarrow> string \<Rightarrow> int option" where
  "read_memory_oom_kill = read_single (counter_line ''oom_kill'')"

text \<open>\<open>[0-9]+(?:\.[0-9]+)?\<close>\<close>

definition decimal_text :: "string \<Rightarrow> bool" where
  "decimal_text s \<longleftrightarrow>
     (case split_char CHR ''.'' s of
        [a] \<Rightarrow> all_digits a
      | [a, b] \<Rightarrow> all_digits a \<and> all_digits b
      | _ \<Rightarrow> False)"

definition psi_line :: "py_lib \<Rightarrow> string list \<Rightarrow> pyfloat option option" where
  "psi_line L toks =
     (case toks of
        [] \<Rightarrow> None
      | k # vs \<Rightarrow>
          if k \<noteq> ''some'' then None
          else Some (case map (drop 6) (filter (\<lambda>item. starts_with item ''avg60='') vs) of
                 [v] \<Rightarrow> if decimal_text v then float_of_str L v else None
               | _ \<Rightarrow> None))"

definition read_psi_avg60 :: "py_lib \<Rightarrow> host \<Rightarrow> string \<Rightarrow> pyfloat option" where
  "read_psi_avg60 L = read_single (psi_line L)"

definition mem_available_line :: "string list \<Rightarrow> int option option" where
  "mem_available_line toks =
     (case toks of
        [] \<Rightarrow> None
      | k # vs \<Rightarrow>
          if k \<noteq> ''MemAvailable:'' then None
          else Some (case vs of
                 [v, u] \<Rightarrow> if all_digits v \<and> u = ''kB'' then Some (digits_int v * 1024) else None
               | _ \<Rightarrow> None))"

definition read_mem_available :: "host \<Rightarrow> string \<Rightarrow> int option" where
  "read_mem_available = read_single mem_available_line"

definition env_number :: "py_lib \<Rightarrow> host \<Rightarrow> string \<Rightarrow> int \<Rightarrow> bool \<Rightarrow> pynum option" where
  "env_number L h name dflt integer =
     (case environ h name of
        None \<Rightarrow> Some (NInt dflt)
      | Some raw \<Rightarrow>
          if integer then (case py_int_of_str raw of None \<Rightarrow> None | Some i \<Rightarrow> finite_number True (PInt i))
          else (case float_of_str L raw of None \<Rightarrow> None | Some f \<Rightarrow> finite_number False (PFloat f)))"

definition env_positive_integer :: "py_lib \<Rightarrow> host \<Rightarrow> string \<Rightarrow> int \<Rightarrow> int option" where
  "env_positive_integer L h name dflt =
     (case env_number L h name dflt True of
        None \<Rightarrow> None
      | Some v \<Rightarrow> if num_rat v \<le> 0 then None else Some (num_int v))"

fun num_val :: "pynum \<Rightarrow> pyval" where
  "num_val (NInt i) = PInt i"
| "num_val (NFloat q) = PFloat (Finite q)"

definition opt_val :: "('a \<Rightarrow> pyval) \<Rightarrow> 'a option \<Rightarrow> pyval" where
  "opt_val f v = (case v of None \<Rightarrow> PNone | Some x \<Rightarrow> f x)"

fun limit_val :: "limit \<Rightarrow> pyval" where
  "limit_val NoLimit = PStr ''max''"
| "limit_val (Limit m) = PInt m"

text \<open>
  \<open>int(disk_floor_gb * GIB)\<close>: scaling a float by a power of two is exact until it
  overflows to infinity, and \<open>int\<close> of an infinity raises.
\<close>

fun disk_floor :: "pynum \<Rightarrow> int result" where
  "disk_floor (NInt i) = Inr (i * GIB)"
| "disk_floor (NFloat q) =
     (if q * of_int GIB \<ge> 2 ^ 1024 then Inl OverflowError else Inr (trunc_rat (q * of_int GIB)))"

definition read_gauges :: "py_lib \<Rightarrow> host \<Rightarrow> pyval result" where
  "read_gauges L h =
     (let root = (case environ h ''WORKBAY_REMOTE_GATE_PIDS_ROOT'' of
                    None \<Rightarrow> ''/sys/fs/cgroup/user.slice/user-'' @ int_str (user_id h) @ ''.slice''
                  | Some r \<Rightarrow> r);
          file = path_join root;
          floor = (case env_number L h ''WORKBAY_REMOTE_GATE_DISK_FLOOR_GB'' 10 False of
                     None \<Rightarrow> Inr PNone
                   | Some g \<Rightarrow> bind_result (disk_floor g) (\<lambda>b. Inr (PInt b)));
          reserve = map_option (\<lambda>m. m * MIB)
                      (env_positive_integer L h ''WORKBAY_REMOTE_GATE_MEMORY_FLOOR_MB'' 512)
      in bind_result floor (\<lambda>disk_floor_bytes. Inr (PDict
        [(PStr ''pids_current'', opt_val PInt (read_uint h (file ''pids.current''))),
         (PStr ''pids_max'', opt_val limit_val (read_ceiling h (file ''pids.max''))),
         (PStr ''memory_anon_bytes'', opt_val PInt (read_anon h (file ''memory.stat''))),
         (PStr ''memory_max_bytes'', opt_val limit_val (read_ceiling h (file ''memory.max''))),
         (PStr ''memory_available_bytes'', opt_val PInt (read_mem_available h ''/proc/meminfo'')),
         (PStr ''memory_psi_avg60'', opt_val PFloat (read_psi_avg60 L h (file ''memory.pressure''))),
         (PStr ''cpu_psi_avg60'', opt_val PFloat (read_psi_avg60 L h (file ''cpu.pressure''))),
         (PStr ''disk_free_bytes'', opt_val PInt (disk_free h)),
         (PStr ''disk_floor_bytes'', disk_floor_bytes),
         (PStr ''memory_headroom_pct'', opt_val num_val (env_number L h ''WORKBAY_REMOTE_GATE_HEADROOM_PCT'' 75 True)),
         (PStr ''memory_psi_max'', opt_val num_val (env_number L h ''WORKBAY_REMOTE_GATE_MEM_PSI_MAX'' 10 False)),
         (PStr ''cpu_psi_max'', opt_val num_val (env_number L h ''WORKBAY_REMOTE_GATE_CPU_PSI_MAX'' 60 False)),
         (PStr ''pids_reserve'', opt_val PInt (env_positive_integer L h ''WORKBAY_REMOTE_GATE_PID_FLOOR'' 64)),
         (PStr ''memory_reserve_bytes'', opt_val PInt reserve),
         (PStr ''unlimited_memory_exemption'',
           PBool (environ h ''WORKBAY_REMOTE_GATE_ALLOW_UNLIMITED_MEMORY'' = Some ''1'')),
         (PStr ''resource_error_cells'', PDict
           [(PStr ''vm_pids'', PStr ''not_instrumented''),
            (PStr ''vm_memory_oom_kill'', opt_val PInt (read_memory_oom_kill h (file ''memory.events''))),
            (PStr ''vm_memory_psi_burst'', PStr ''not_instrumented''),
            (PStr ''vm_cpu'', PStr ''not_instrumented''),
            (PStr ''vm_disk'', PStr ''not_instrumented'')])])))"

text \<open>\<open>_object_disk_bytes\<close>: the two sizes, each on one line, in KiB.\<close>

fun scan_sizes :: "string list \<Rightarrow> (string \<times> int) list \<Rightarrow> (string \<times> int) list option" where
  "scan_sizes [] sizes = Some sizes"
| "scan_sizes (line # rest) sizes =
     (let key = takeWhile (\<lambda>c. c \<noteq> CHR '':'') line;
          found = (CHR '':'' \<in> set line);
          value = py_strip (drop (length key + 1) line)
      in if key \<noteq> ''size-pack'' \<and> key \<noteq> ''size'' then scan_sizes rest sizes
         else if \<not> found \<or> \<not> all_digits value \<or> key \<in> set (map fst sizes) then None
         else scan_sizes rest (sizes @ [(key, digits_int value)]))"

definition object_disk_bytes :: "host \<Rightarrow> int option" where
  "object_disk_bytes h =
     (case count_objects h of
        None \<Rightarrow> None
      | Some out \<Rightarrow>
          (case scan_sizes (py_splitlines out) [] of
             None \<Rightarrow> None
           | Some sizes \<Rightarrow>
               (case (map_of sizes ''size-pack'', map_of sizes ''size'') of
                  (Some a, Some b) \<Rightarrow> Some ((a + b) * 1024)
                | _ \<Rightarrow> None)))"

definition lane_cost :: "py_lib \<Rightarrow> host \<Rightarrow> pyval" where
  "lane_cost L h = PDict
     [(PStr ''pids'', opt_val (PInt \<circ> num_int) (env_number L h ''WORKBAY_REMOTE_GATE_LANE_PIDS_FLOOR'' 66 True)),
      (PStr ''anon_bytes'', opt_val (\<lambda>m. PInt (num_int m * MIB))
         (env_number L h ''WORKBAY_REMOTE_GATE_LANE_ANON_FLOOR_MB'' 512 True)),
      (PStr ''disk_bytes'', opt_val PInt (object_disk_bytes h))]"

text \<open>The callback \<open>check\<close> that \<open>measured\<close> builds.\<close>

definition measured_check :: "py_lib \<Rightarrow> host \<Rightarrow> pyval \<Rightarrow> admission_decision result" where
  "measured_check L h pending =
     bind_result (read_gauges L h) (\<lambda>g. Inr (decide g pending (lane_cost L h)))"

section \<open>When a lane is admitted\<close>

lemma num_int_nonneg: "finite_number integer v = Some n \<Longrightarrow> 0 \<le> num_int n"
  by (cases "(integer, v)" rule: finite_number.cases) (auto simp: trunc_rat_def split: if_splits)

lemma finite_number_integer: "finite_number True v = Some n \<Longrightarrow> n = NInt (num_int n)"
  by (cases "(True, v)" rule: finite_number.cases) (auto split: if_splits)

text \<open>Every bound the candidate has to respect, on the measured values.\<close>

definition memory_fits :: "pyval \<Rightarrow> (string \<times> pynum) list \<Rightarrow> limit \<Rightarrow> int \<Rightarrow> bool" where
  "memory_fits gauges vs mem_max added \<longleftrightarrow>
     (case mem_max of
        Limit m \<Rightarrow>
          int_of vs ''memory_anon_bytes'' + added + int_of vs ''memory_reserve_bytes'' \<le> m \<and>
          100 * (int_of vs ''memory_anon_bytes'' + added) \<le> m * int_of vs ''memory_headroom_pct''
      | NoLimit \<Rightarrow>
          py_get gauges ''unlimited_memory_exemption'' = PBool True \<or>
          (\<exists>a. gauge_number gauges ''memory_available_bytes'' True = Some a \<and>
            added \<le> max 0 (num_int a - int_of vs ''memory_reserve_bytes'')))"

definition fits ::
    "pyval \<Rightarrow> (string \<times> pynum) list \<Rightarrow> limit \<Rightarrow> limit \<Rightarrow> resource_costs \<Rightarrow> resource_costs \<Rightarrow> bool" where
  "fits gauges vs pids_max mem_max totals costs \<longleftrightarrow>
     1 \<le> int_of vs ''memory_headroom_pct'' \<and> int_of vs ''memory_headroom_pct'' \<le> 100 \<and>
     (\<forall>m. pids_max = Limit m \<longrightarrow>
        int_of vs ''pids_current'' + pids totals + pids costs + int_of vs ''pids_reserve'' \<le> m) \<and>
     memory_fits gauges vs mem_max (anon_bytes totals + anon_bytes costs) \<and>
     num_rat (value_of vs ''memory_psi_avg60'') \<le> num_rat (value_of vs ''memory_psi_max'') \<and>
     num_rat (value_of vs ''cpu_psi_avg60'') \<le> num_rat (value_of vs ''cpu_psi_max'') \<and>
     int_of vs ''disk_floor_bytes'' + disk_bytes totals + disk_bytes costs \<le> int_of vs ''disk_free_bytes''"

lemma le_div_100: "(x::int) \<le> m div 100 \<longleftrightarrow> 100 * x \<le> m"
proof -
  have "m = 100 * (m div 100) + m mod 100" "0 \<le> m mod 100" "m mod 100 < 100" by simp_all
  then show ?thesis by linarith
qed

lemma memory_limit_fits:
  "(case memory_limit gauges vs mem_max of
      Inl why \<Rightarrow> False
    | Inr bound \<Rightarrow> (case bound of None \<Rightarrow> True | Some m \<Rightarrow> int_of vs ''memory_anon_bytes'' + added \<le> m)) \<longleftrightarrow>
     memory_fits gauges vs mem_max added"
proof (cases mem_max)
  case NoLimit
  then show ?thesis by (simp add: memory_limit_def memory_fits_def split: option.split)
next
  case (Limit m)
  then show ?thesis by (simp add: memory_limit_def memory_fits_def le_div_100 le_diff_eq conj_commute)
qed

lemma fst_if: "fst (if b then x else y) = (if b then fst x else fst y)"
  by simp

lemma judge_admits:
  "fst (judge gauges vs pids_max mem_max (projected vs totals costs)) \<longleftrightarrow>
     fits gauges vs pids_max mem_max totals costs"
  unfolding judge_def fits_def memory_limit_fits [symmetric] projected_def
  by (cases pids_max; cases "memory_limit gauges vs mem_max")
     (simp_all add: fst_if not_less not_le add.assoc le_diff_eq algebra_simps split: option.split)

lemma decision_admitted [simp]: "admitted (decision adm why gauges est) = adm"
  by (simp add: decision_def Let_def)

lemma decide_admitted:
  "admitted (decide gauges pending cost) \<longleftrightarrow>
     (\<exists>vs pids_max mem_max costs totals est.
        read_required gauges required_gauges = Inr vs \<and>
        limit_value gauges ''pids_max'' = Some pids_max \<and>
        limit_value gauges ''memory_max_bytes'' = Some mem_max \<and>
        read_costs cost cost_gauges no_cost = Inr costs \<and>
        pending_resource_costs pending costs = Some (totals, est) \<and>
        fits gauges vs pids_max mem_max totals costs)"
proof -
  have "admitted (let (adm, why) = j in (decision adm why gauges est)\<lparr>pending_costs := p, projected_costs := q\<rparr>)
      \<longleftrightarrow> fst j" for j est p q
    by (cases j) simp
  then show ?thesis
    by (auto simp: decide_def judge_admits [symmetric] Let_def split: sum.splits option.splits prod.splits)
qed

section \<open>Pending submissions\<close>

text \<open>What one pending entry adds for a resource: its own number, or the candidate's cost.\<close>

definition entry_share :: "resource_costs \<Rightarrow> pyval \<Rightarrow> string \<Rightarrow> int" where
  "entry_share cand entry key =
     (case py_lookup entry key of
        None \<Rightarrow> cost_of cand key
      | Some v \<Rightarrow> (case finite_number True v of None \<Rightarrow> 0 | Some n \<Rightarrow> num_int n))"

definition entry_ok :: "pyval \<Rightarrow> bool" where
  "entry_ok entry \<longleftrightarrow> is_mapping entry \<and>
     (\<forall>key \<in> set resources. \<forall>v. py_lookup entry key = Some v \<longrightarrow> finite_number True v \<noteq> None)"

definition plus_costs :: "resource_costs \<Rightarrow> int \<Rightarrow> int \<Rightarrow> int \<Rightarrow> resource_costs" where
  "plus_costs c a b d = \<lparr>pids = pids c + a, anon_bytes = anon_bytes c + b, disk_bytes = disk_bytes c + d\<rparr>"

lemma entry_costs_fold:
  "\<forall>key \<in> set keys. \<forall>v. py_lookup entry key = Some v \<longrightarrow> finite_number True v \<noteq> None \<Longrightarrow>
    \<exists>est'. entry_costs cand i entry keys (t, est) =
      Some (fold (\<lambda>key. add_cost key (entry_share cand entry key)) keys t, est')"
proof (induction keys arbitrary: t est)
  case (Cons key keys)
  show ?case
  proof (cases "py_lookup entry key")
    case None
    then show ?thesis using Cons by (simp add: entry_share_def)
  next
    case (Some v)
    then obtain n where "finite_number True v = Some n" using Cons.prems by auto
    then show ?thesis using Cons Some by (simp add: entry_share_def)
  qed
qed simp

lemma entry_costs_ok:
  assumes "entry_ok entry"
  shows "\<exists>est'. entry_costs cand i entry resources (t, est) = Some
    (plus_costs t (entry_share cand entry ''pids'') (entry_share cand entry ''anon_bytes'')
      (entry_share cand entry ''disk_bytes''), est')"
proof -
  have "fold (\<lambda>key. add_cost key (f key)) resources t = plus_costs t (f ''pids'') (f ''anon_bytes'') (f ''disk_bytes'')"
    for f
    by (cases t) (simp add: resources_def plus_costs_def add_cost_def)
  then show ?thesis using entry_costs_fold [of resources entry cand i t est] assms by (simp add: entry_ok_def)
qed

lemma entry_costs_None:
  "key \<in> set keys \<Longrightarrow> py_lookup entry key = Some v \<Longrightarrow> finite_number True v = None \<Longrightarrow>
    entry_costs cand i entry keys acc = None"
  by (induction cand i entry keys acc rule: entry_costs.induct) (auto split: option.split)

lemma entry_costs_bad:
  "is_mapping entry \<Longrightarrow> \<not> entry_ok entry \<Longrightarrow> entry_costs cand i entry resources acc = None"
  by (auto simp: entry_ok_def intro: entry_costs_None)

lemma entries_costs_ok:
  assumes "\<forall>e \<in> set es. entry_ok e"
  shows "\<exists>est'. entries_costs cand i es (t, est) = Some
    (plus_costs t (\<Sum>e\<leftarrow>es. entry_share cand e ''pids'') (\<Sum>e\<leftarrow>es. entry_share cand e ''anon_bytes'')
      (\<Sum>e\<leftarrow>es. entry_share cand e ''disk_bytes''), est')"
  using assms
proof (induction es arbitrary: i t est)
  case Nil
  then show ?case by (simp add: plus_costs_def)
next
  case (Cons e es)
  let ?t = "plus_costs t (entry_share cand e ''pids'') (entry_share cand e ''anon_bytes'')
      (entry_share cand e ''disk_bytes'')"
  obtain est1 where e: "entry_costs cand i e resources (t, est) = Some (?t, est1)"
    using entry_costs_ok [of e] Cons.prems by fastforce
  moreover have "is_mapping e" using Cons.prems by (simp add: entry_ok_def)
  ultimately show ?case
    using Cons.IH [of "i + 1" ?t est1] Cons.prems by (auto simp: plus_costs_def add.assoc)
qed

lemma entries_costs_bad:
  "\<not> (\<forall>e \<in> set es. entry_ok e) \<Longrightarrow> entries_costs cand i es acc = None"
proof (induction es arbitrary: i acc)
  case (Cons e es)
  show ?case
  proof (cases "entry_ok e")
    case True
    then have "\<not> (\<forall>e \<in> set es. entry_ok e)" using Cons.prems by simp
    then show ?thesis using Cons.IH by (simp split: option.split)
  next
    case False
    then show ?thesis using entry_costs_bad by (auto simp: entry_ok_def)
  qed
qed simp

lemma pending_list_costs:
  "pending_resource_costs (PList es) cand =
     (if \<forall>e \<in> set es. entry_ok e
      then Some (\<lparr>pids = \<Sum>e\<leftarrow>es. entry_share cand e ''pids'',
                  anon_bytes = \<Sum>e\<leftarrow>es. entry_share cand e ''anon_bytes'',
                  disk_bytes = \<Sum>e\<leftarrow>es. entry_share cand e ''disk_bytes''\<rparr>,
                 snd (the (entries_costs cand 0 es (no_cost, []))))
      else None)"
  using entries_costs_ok [of es cand 0 no_cost "[]"] entries_costs_bad [of es cand 0 "(no_cost, [])"]
  by (auto simp: pending_resource_costs_def plus_costs_def no_cost_def)

lemma entry_share_nonneg:
  "0 \<le> cost_of cand key \<Longrightarrow> 0 \<le> entry_share cand e key"
  by (auto simp: entry_share_def num_int_nonneg split: option.split)

lemma entry_share_empty [simp]: "entry_share cand (PDict []) key = cost_of cand key"
  by (simp add: entry_share_def)

lemma entry_ok_empty [simp]: "entry_ok (PDict [])"
  by (simp add: entry_ok_def)

lemma read_costs_nonneg:
  assumes "read_costs cost cost_gauges no_cost = Inr c"
  shows "0 \<le> cost_of c key"
  using assms
  by (auto simp: cost_gauges_def no_cost_def add_cost_def cost_of_def num_int_nonneg split: option.splits)

lemma fits_mono:
  assumes "fits gauges vs pids_max mem_max totals costs"
    and "pids t \<le> pids totals" "anon_bytes t \<le> anon_bytes totals" "disk_bytes t \<le> disk_bytes totals"
  shows "fits gauges vs pids_max mem_max t costs"
proof -
  have "memory_fits gauges vs mem_max (anon_bytes t + anon_bytes costs)"
    if "memory_fits gauges vs mem_max (anon_bytes totals + anon_bytes costs)"
    using that assms(3) by (cases mem_max) (force simp: memory_fits_def)+
  then show ?thesis using assms unfolding fits_def by force
qed

lemma decide_fewer_pending:
  assumes adm: "admitted (decide gauges p cost)"
    and less: "\<And>c totals est. read_costs cost cost_gauges no_cost = Inr c \<Longrightarrow>
      pending_resource_costs p c = Some (totals, est) \<Longrightarrow>
      \<exists>t est'. pending_resource_costs p' c = Some (t, est') \<and>
        pids t \<le> pids totals \<and> anon_bytes t \<le> anon_bytes totals \<and> disk_bytes t \<le> disk_bytes totals"
  shows "admitted (decide gauges p' cost)"
proof -
  obtain vs pids_max mem_max costs totals est where *:
      "read_required gauges required_gauges = Inr vs" "limit_value gauges ''pids_max'' = Some pids_max"
      "limit_value gauges ''memory_max_bytes'' = Some mem_max" "read_costs cost cost_gauges no_cost = Inr costs"
      "pending_resource_costs p costs = Some (totals, est)" "fits gauges vs pids_max mem_max totals costs"
    using adm unfolding decide_admitted by blast
  obtain t est' where t: "pending_resource_costs p' costs = Some (t, est')"
      "pids t \<le> pids totals" "anon_bytes t \<le> anon_bytes totals" "disk_bytes t \<le> disk_bytes totals"
    using less [OF *(4,5)] by blast
  have "fits gauges vs pids_max mem_max t costs"
    by (rule fits_mono [OF *(6) t(2-4)])
  then show ?thesis unfolding decide_admitted using * t(1) by blast
qed

lemma cost_of_simps [simp]:
  "cost_of c ''pids'' = pids c" "cost_of c ''anon_bytes'' = anon_bytes c" "cost_of c ''disk_bytes'' = disk_bytes c"
  by (simp_all add: cost_of_def)

lemma decide_pending_drop:
  assumes "admitted (decide gauges (PList (xs @ e # ys)) cost)"
  shows "admitted (decide gauges (PList (xs @ ys)) cost)"
proof (rule decide_fewer_pending [OF assms])
  fix c totals est
  assume c: "read_costs cost cost_gauges no_cost = Inr c"
    and p: "pending_resource_costs (PList (xs @ e # ys)) c = Some (totals, est)"
  have "0 \<le> entry_share c e key" for key
    by (rule entry_share_nonneg) (rule read_costs_nonneg [OF c])
  then show "\<exists>t est'. pending_resource_costs (PList (xs @ ys)) c = Some (t, est') \<and>
      pids t \<le> pids totals \<and> anon_bytes t \<le> anon_bytes totals \<and> disk_bytes t \<le> disk_bytes totals"
    using p by (auto simp: pending_list_costs split: if_splits)
qed

lemma decide_pending_int_mono:
  assumes "admitted (decide gauges (PInt n) cost)" and "0 \<le> m" and "m \<le> n"
  shows "admitted (decide gauges (PInt m) cost)"
proof (rule decide_fewer_pending [OF assms(1)])
  fix c totals est
  assume c: "read_costs cost cost_gauges no_cost = Inr c"
    and p: "pending_resource_costs (PInt n) c = Some (totals, est)"
  have "m * k \<le> n * k" if "0 \<le> k" for k using that assms(3) by (rule mult_right_mono [rotated])
  moreover have "0 \<le> pids c" "0 \<le> anon_bytes c" "0 \<le> disk_bytes c"
    using read_costs_nonneg [OF c, of "''pids''"] read_costs_nonneg [OF c, of "''anon_bytes''"]
      read_costs_nonneg [OF c, of "''disk_bytes''"] by simp_all
  ultimately show "\<exists>t est'. pending_resource_costs (PInt m) c = Some (t, est') \<and>
      pids t \<le> pids totals \<and> anon_bytes t \<le> anon_bytes totals \<and> disk_bytes t \<le> disk_bytes totals"
    using p assms(2) by (auto simp: pending_resource_costs_def split: if_splits)
qed

text \<open>\<open>n\<close> submissions without declared costs count as the number \<open>n\<close>.\<close>

lemma decide_pending_count:
  "admitted (decide gauges (PList (replicate n (PDict []))) cost) \<longleftrightarrow> admitted (decide gauges (PInt (int n)) cost)"
proof -
  have sum: "(\<Sum>e\<leftarrow>replicate n (PDict []). entry_share c e key) = int n * cost_of c key" for c key
    by (simp add: map_replicate sum_list_replicate)
  have ok: "\<forall>e \<in> set (replicate n (PDict [])). entry_ok e" by auto
  let ?N = "\<lambda>c. \<lparr>pids = int n * pids c, anon_bytes = int n * anon_bytes c, disk_bytes = int n * disk_bytes c\<rparr>"
  have list: "(\<exists>est. pending_resource_costs (PList (replicate n (PDict []))) c = Some (t, est)) \<longleftrightarrow> t = ?N c" for c t
    unfolding pending_list_costs if_P [OF ok] sum by auto
  have int: "(\<exists>est. pending_resource_costs (PInt (int n)) c = Some (t, est)) \<longleftrightarrow> t = ?N c" for c t
    by (auto simp: pending_resource_costs_def)
  have adm: "admitted (decide gauges p cost) \<longleftrightarrow>
     (\<exists>vs pids_max mem_max costs totals.
        read_required gauges required_gauges = Inr vs \<and>
        limit_value gauges ''pids_max'' = Some pids_max \<and>
        limit_value gauges ''memory_max_bytes'' = Some mem_max \<and>
        read_costs cost cost_gauges no_cost = Inr costs \<and>
        (\<exists>est. pending_resource_costs p costs = Some (totals, est)) \<and>
        fits gauges vs pids_max mem_max totals costs)" for p
    unfolding decide_admitted by blast
  show ?thesis unfolding adm list int ..
qed

section \<open>The readers refuse what is not exactly one value\<close>

lemma scan_lines_Some:
  "scan_lines f ls = Some vs \<longleftrightarrow>
     filter (\<lambda>x. x \<noteq> None) (map (f \<circ> py_split_ws) ls) = map (Some \<circ> Some) vs"
proof (induction ls arbitrary: vs)
  case (Cons l ls)
  show ?case
  proof (cases "f (py_split_ws l)")
    case None
    then show ?thesis using Cons.IH by simp
  next
    case (Some r)
    then show ?thesis using Cons.IH by (cases r; cases vs) auto
  qed
qed auto

lemma read_single_Some:
  "read_single f h path = Some v \<longleftrightarrow>
     (\<exists>s. read_text h path = Some s \<and>
       filter (\<lambda>x. x \<noteq> None) (map (f \<circ> py_split_ws) (py_splitlines s)) = [Some (Some v)])"
proof -
  have "only_value r = Some v \<longleftrightarrow> r = Some [v]" for r :: "'a list option"
    by (auto simp: only_value_def split: option.splits list.splits)
  then show ?thesis by (auto simp: read_single_def scan_lines_Some split: option.splits)
qed

lemma digits_int_nonneg: "0 \<le> digits_int s"
proof -
  have "0 \<le> acc \<Longrightarrow> 0 \<le> foldl (\<lambda>acc c. 10 * acc + int (of_char c - 48)) acc s" for acc
    by (induction s arbitrary: acc) auto
  then show ?thesis by (simp add: digits_int_def)
qed

text \<open>An admission through the readers rests on files that were all read.\<close>

lemma read_required_all:
  "read_required g req = Inr vs \<Longrightarrow> (name, integer, why) \<in> set req \<Longrightarrow> gauge_number g name integer \<noteq> None"
  by (induction g req arbitrary: vs rule: read_required.induct)
     (auto split: option.splits if_splits sum.splits)

lemma measured_check_admitted:
  assumes "measured_check L h pending = Inr d" and "admitted d"
  obtains g where "read_gauges L h = Inr g" and "admitted (decide g pending (lane_cost L h))"
  using assms by (auto simp: measured_check_def bind_result_Inr_iff)

lemma finite_number_opt_val: "finite_number integer (opt_val f v) \<noteq> None \<Longrightarrow> v \<noteq> None"
  by (cases v) (auto simp: opt_val_def)

lemma read_gauges_Inr:
  assumes "read_gauges L h = Inr g"
  defines "file \<equiv> path_join (case environ h ''WORKBAY_REMOTE_GATE_PIDS_ROOT'' of
                    None \<Rightarrow> ''/sys/fs/cgroup/user.slice/user-'' @ int_str (user_id h) @ ''.slice''
                  | Some r \<Rightarrow> r)"
  shows "py_get g ''pids_current'' = opt_val PInt (read_uint h (file ''pids.current''))"
    and "py_get g ''memory_anon_bytes'' = opt_val PInt (read_anon h (file ''memory.stat''))"
    and "py_get g ''memory_psi_avg60'' = opt_val PFloat (read_psi_avg60 L h (file ''memory.pressure''))"
    and "py_get g ''cpu_psi_avg60'' = opt_val PFloat (read_psi_avg60 L h (file ''cpu.pressure''))"
    and "py_get g ''disk_free_bytes'' = opt_val PInt (disk_free h)"
    and "py_get g ''pids_max'' = opt_val limit_val (read_ceiling h (file ''pids.max''))"
  using assms(1) unfolding file_def
  by (auto simp: read_gauges_def Let_def bind_result_Inr_iff py_get_def py_get_default_def)

lemma admitted_files_read:
  assumes "measured_check L h pending = Inr d" and "admitted d"
  defines "file \<equiv> path_join (case environ h ''WORKBAY_REMOTE_GATE_PIDS_ROOT'' of
                    None \<Rightarrow> ''/sys/fs/cgroup/user.slice/user-'' @ int_str (user_id h) @ ''.slice''
                  | Some r \<Rightarrow> r)"
  shows "read_uint h (file ''pids.current'') \<noteq> None \<and> read_anon h (file ''memory.stat'') \<noteq> None \<and>
    read_psi_avg60 L h (file ''memory.pressure'') \<noteq> None \<and> read_psi_avg60 L h (file ''cpu.pressure'') \<noteq> None \<and>
    disk_free h \<noteq> None \<and> object_disk_bytes h \<noteq> None"
proof -
  obtain g where g: "read_gauges L h = Inr g" and adm: "admitted (decide g pending (lane_cost L h))"
    using measured_check_admitted [OF assms(1,2)] .
  obtain vs c where vs: "read_required g required_gauges = Inr vs"
    and c: "read_costs (lane_cost L h) cost_gauges no_cost = Inr c"
    using adm unfolding decide_admitted by blast
  note req = read_required_all [OF vs, unfolded gauge_number_def]
  have "finite_number True (opt_val PInt (object_disk_bytes h)) \<noteq> None"
    using c by (auto simp: cost_gauges_def lane_cost_def py_get_def py_get_default_def split: option.splits)
  moreover have "finite_number True (py_get g ''pids_current'') \<noteq> None"
    "finite_number True (py_get g ''memory_anon_bytes'') \<noteq> None"
    "finite_number False (py_get g ''memory_psi_avg60'') \<noteq> None"
    "finite_number False (py_get g ''cpu_psi_avg60'') \<noteq> None"
    "finite_number True (py_get g ''disk_free_bytes'') \<noteq> None"
    by (rule req, simp add: required_gauges_def)+
  ultimately show ?thesis
    unfolding read_gauges_Inr [OF g, folded file_def]
    by (intro conjI; elim finite_number_opt_val)
qed

end
