(* ===== verification/AdmissionProperties.thy ===== *)
theory AdmissionProperties
  imports WaveAdmission
begin

text \<open>
  What lane admission (\<open>wave_admission.py\<close>) promises: when a lane is admitted, how pending
  submissions count, which files an admission rests on, and where it raises.
\<close>

definition demo_gauges :: pyval where
  "demo_gauges = PDict
     [(PStr ''pids_current'', PInt 100), (PStr ''pids_max'', PInt 400),
      (PStr ''memory_anon_bytes'', PInt 1000), (PStr ''memory_max_bytes'', PInt 8000),
      (PStr ''memory_psi_avg60'', PInt 1), (PStr ''cpu_psi_avg60'', PInt 5),
      (PStr ''disk_free_bytes'', PInt 900), (PStr ''disk_floor_bytes'', PInt 100),
      (PStr ''memory_headroom_pct'', PInt 75), (PStr ''memory_psi_max'', PInt 10), (PStr ''cpu_psi_max'', PInt 60),
      (PStr ''pids_reserve'', PInt 64), (PStr ''memory_reserve_bytes'', PInt 500)]"

definition demo_cost :: pyval where
  "demo_cost = PDict [(PStr ''pids'', PInt 66), (PStr ''anon_bytes'', PInt 512), (PStr ''disk_bytes'', PInt 40)]"

text \<open>
  C2 (safety): a lane is admitted exactly when every gauge, limit and cost is measured and the
  usage that results, pending submissions and reserves included, stays within the process,
  memory, pressure and disk bounds.
\<close>

theorem admitted_iff_fits:
  "admitted (decide gauges pending cost) \<longleftrightarrow>
     (\<exists>vs pids_max mem_max costs totals est.
        read_required gauges required_gauges = Inr vs \<and>
        limit_value gauges ''pids_max'' = Some pids_max \<and>
        limit_value gauges ''memory_max_bytes'' = Some mem_max \<and>
        read_costs cost cost_gauges no_cost = Inr costs \<and>
        pending_resource_costs pending costs = Some (totals, est) \<and>
        fits gauges vs pids_max mem_max totals costs)"
  by (rule decide_admitted)

text \<open>
  Property (invariant): an admission survives the loss of any pending submission.
\<close>

theorem admitted_without_pending:
  assumes "admitted (decide gauges (PList (xs @ e # ys)) cost)"
  shows "admitted (decide gauges (PList (xs @ ys)) cost)"
  by (rule decide_pending_drop [OF assms])

theorem admitted_without_pending_witness:
  "admitted (decide demo_gauges (PList ([demo_cost] @ demo_cost # [])) demo_cost) \<and>
   admitted (decide demo_gauges (PList ([demo_cost] @ [])) demo_cost)"
proof -
  have "admitted (decide demo_gauges (PList ([demo_cost] @ demo_cost # [])) demo_cost)" by code_simp
  then show ?thesis using admitted_without_pending by blast
qed

text \<open>
  Property (equivalence): a count of pending submissions decides as a list of as many entries without
  measured costs, and a smaller count never turns an admission into a refusal.
\<close>

theorem pending_count:
  assumes "m \<le> n"
  shows "(admitted (decide gauges (PList (replicate n (PDict []))) cost) \<longleftrightarrow> admitted (decide gauges (PInt (int n)) cost)) \<and>
    (admitted (decide gauges (PInt (int n)) cost) \<longrightarrow> admitted (decide gauges (PInt (int m)) cost))"
  using decide_pending_count decide_pending_int_mono [of gauges "int n" cost "int m"] assms by auto

theorem pending_count_witness:
  "admitted (decide demo_gauges (PList (replicate 2 (PDict []))) demo_cost) \<and>
   admitted (decide demo_gauges (PInt 1) demo_cost)"
proof -
  have "admitted (decide demo_gauges (PInt (int 2)) demo_cost)" by code_simp
  then show ?thesis using pending_count [of 1 2 demo_gauges demo_cost] by simp
qed

definition demo_files :: "string \<Rightarrow> string option" where
  "demo_files = map_of
     [(''/cg/pids.current'', ''100''), (''/cg/pids.max'', ''max''), (''/cg/memory.stat'', ''anon 4096''),
      (''/cg/memory.max'', ''17179869184''), (''/cg/memory.pressure'', ''some avg10=0.00 avg60=1.00 total=5''),
      (''/cg/cpu.pressure'', ''some avg10=0.00 avg60=1.00 total=5'')]"

definition demo_host :: host where
  "demo_host = \<lparr>read_file = demo_files, environ = map_of [(''WORKBAY_REMOTE_GATE_PIDS_ROOT'', ''/cg'')],
     user_id = 1000, disk_free = Some (32 * 1024 ^ 3), count_objects = Some (''size: 4'' @ [CHR 0x0A] @ ''size-pack: 8'')\<rparr>"

definition gauge_lib :: py_lib where
  "gauge_lib = \<lparr>float_repr = (\<lambda>_. ''1.0''),
     float_of_str = (\<lambda>s. if s = ''1.00'' then Some (Finite 1) else if s = ''1e300'' then Some (Finite (10 ^ 300)) else None),
     iso_has_offset = (\<lambda>_. Some True)\<rparr>"

text \<open>
  Property (safety): no admission rests on an unread file: the process count, the anonymous memory,
  both pressure files, the free disk space and the repository's size were all measured.
\<close>

theorem admission_measured:
  assumes "measured_check L h pending = Inr d" and "admitted d"
    and "environ h ''WORKBAY_REMOTE_GATE_PIDS_ROOT'' = Some dir"
  shows "read_uint h (path_join dir ''pids.current'') \<noteq> None \<and> read_anon h (path_join dir ''memory.stat'') \<noteq> None \<and>
    read_psi_avg60 L h (path_join dir ''memory.pressure'') \<noteq> None \<and>
    read_psi_avg60 L h (path_join dir ''cpu.pressure'') \<noteq> None \<and>
    disk_free h \<noteq> None \<and> object_disk_bytes h \<noteq> None"
  using admitted_files_read [OF assms(1,2)] assms(3) by simp

theorem admission_measured_witness:
  "(case measured_check gauge_lib demo_host (PInt 1) of Inl _ \<Rightarrow> False | Inr d \<Rightarrow> admitted d) \<and>
   read_anon demo_host (path_join ''/cg'' ''memory.stat'') \<noteq> None"
proof -
  have ok: "case measured_check gauge_lib demo_host (PInt 1) of Inl _ \<Rightarrow> False | Inr d \<Rightarrow> admitted d" by code_simp
  then obtain d where "measured_check gauge_lib demo_host (PInt 1) = Inr d" "admitted d"
    by (cases "measured_check gauge_lib demo_host (PInt 1)") auto
  moreover have "environ demo_host ''WORKBAY_REMOTE_GATE_PIDS_ROOT'' = Some ''/cg''" by code_simp
  ultimately show ?thesis using admission_measured ok by blast
qed

text \<open>
  Property (error): a disk floor so large that its byte count is infinite raises \<open>OverflowError\<close> out
  of the check instead of refusing the lane as unmeasured.
\<close>

theorem disk_floor_overflow:
  assumes "env_number L h ''WORKBAY_REMOTE_GATE_DISK_FLOOR_GB'' 10 False = Some (NFloat q)"
    and "2 ^ 1024 \<le> q * of_int GIB"
  shows "measured_check L h pending = Inl OverflowError"
  using assms by (simp add: measured_check_def read_gauges_def Let_def)

theorem disk_floor_overflow_witness:
  "measured_check gauge_lib (demo_host\<lparr>environ := map_of [(''WORKBAY_REMOTE_GATE_DISK_FLOOR_GB'', ''1e300'')]\<rparr>) (PInt 0)
     = Inl OverflowError"
proof -
  let ?h = "demo_host\<lparr>environ := map_of [(''WORKBAY_REMOTE_GATE_DISK_FLOOR_GB'', ''1e300'')]\<rparr>"
  have "env_number gauge_lib ?h ''WORKBAY_REMOTE_GATE_DISK_FLOOR_GB'' 10 False = Some (NFloat (10 ^ 300))"
    by (simp add: env_number_def gauge_lib_def)
  moreover have "(2::rat) ^ 1024 \<le> 10 ^ 300 * of_int GIB" by (simp add: GIB_def)
  ultimately show ?thesis by (rule disk_floor_overflow)
qed

end
