(* ===== verification/BreakerState.thy ===== *)
theory BreakerState
  imports PyValue "HOL-Library.AList"
begin

text \<open>
  The persisted state of \<open>dispatch_breaker.py\<close>: \<open>BreakerState\<close>, its way to JSON and
  back (\<open>asdict\<close>, \<open>_coerce_state\<close>), the state file (\<open>_read_data\<close>, \<open>_write_data\<close>) and the
  numbers, texts and keys the operations use.  The operations are in
  \<open>DispatchBreaker\<close>, the classification of results in \<open>FailureClass\<close>.

  A float is exact (see \<open>PyValue\<close>), so the subtractions of times are too.  The
  order of the keys of a stored dict is not observable: the operations look keys up
  or sort them.
\<close>

section \<open>Floats and times\<close>

fun float_sub :: "pyfloat \<Rightarrow> pyfloat \<Rightarrow> pyfloat" where
  "float_sub (Finite a) (Finite b) = Finite (a - b)"
| "float_sub NaN _ = NaN"
| "float_sub _ NaN = NaN"
| "float_sub PosInf PosInf = NaN"
| "float_sub NegInf NegInf = NaN"
| "float_sub PosInf _ = PosInf"
| "float_sub NegInf _ = NegInf"
| "float_sub _ PosInf = NegInf"
| "float_sub _ NegInf = PosInf"

fun float_pos :: "pyfloat \<Rightarrow> bool" where
  "float_pos (Finite q) = (0 < q)"
| "float_pos PosInf = True"
| "float_pos _ = False"

text \<open>\<open>a == b\<close>: a NaN differs from everything.\<close>

definition float_eq :: "pyfloat \<Rightarrow> pyfloat \<Rightarrow> bool" where
  "float_eq a b \<longleftrightarrow> a = b \<and> a \<noteq> NaN"

definition round_half_even :: "rat \<Rightarrow> int" where
  "round_half_even q =
     (let n = \<lfloor>q\<rfloor>; r = q - of_int n
      in if r < 1 / 2 then n else if r > 1 / 2 then n + 1 else if even n then n else n + 1)"

fun pad_left :: "nat \<Rightarrow> string \<Rightarrow> string" where
  "pad_left n s = replicate (n - length s) CHR ''0'' @ s"

text \<open>\<open>f"{x:.3f}"\<close> of a number that is not negative.\<close>

fun format3 :: "pyfloat \<Rightarrow> string" where
  "format3 (Finite q) =
     (let n = round_half_even (q * 1000) in int_str (n div 1000) @ ''.'' @ pad_left 3 (int_str (n mod 1000)))"
| "format3 PosInf = ''inf''"
| "format3 NegInf = ''-inf''"
| "format3 NaN = ''nan''"

text \<open>
  \<open>datetime.fromtimestamp(t, timezone.utc).isoformat()\<close>: the civil date of a day
  count since 1970-01-01, in eras of 400 years that start in March.  A time outside the
  years 1 to 9999 raises; the class of that exception is given as \<open>ValueError\<close>.
\<close>

definition civil_date :: "int \<Rightarrow> int \<times> int \<times> int" where
  "civil_date days =
     (let z = days + 719468;
          era = z div 146097;
          doe = z mod 146097;
          yoe = (doe - doe div 1460 + doe div 36524 - doe div 146096) div 365;
          doy = doe - (365 * yoe + yoe div 4 - yoe div 100);
          mp = (5 * doy + 2) div 153;
          d = doy - (153 * mp + 2) div 5 + 1;
          m = (if mp < 10 then mp + 3 else mp - 9)
      in (yoe + era * 400 + (if m \<le> 2 then 1 else 0), m, d))"

fun iso_utc :: "pyfloat \<Rightarrow> string result" where
  "iso_utc (Finite q) =
     (let us = round_half_even (q * 1000000);
          (y, m, d) = civil_date (us div 86400000000);
          t = us mod 86400000000;
          secs = t div 1000000;
          pad = (\<lambda>n i. pad_left n (int_str i))
      in if y < 1 \<or> 9999 < y then Inl ValueError
         else Inr (pad 4 y @ ''-'' @ pad 2 m @ ''-'' @ pad 2 d @ ''T'' @
           pad 2 (secs div 3600) @ '':'' @ pad 2 (secs div 60 mod 60) @ '':'' @ pad 2 (secs mod 60) @
           (if t mod 1000000 = 0 then [] else ''.'' @ pad 6 (t mod 1000000)) @ ''+00:00''))"
| "iso_utc _ = Inl ValueError"

section \<open>The state of one backend\<close>

datatype phase = Closed | Opened | HalfOpen

datatype fault = Configuration | Transport

record breaker_state =
  phase :: phase
  failure_count :: int
  fault :: "fault option"
  opened_at :: "pyfloat option"
  trial_in_progress :: bool
  trial_started_at :: "pyfloat option"
  trial_owner_pid :: "int option"
  trial_owner_pass_id :: "string option"
  trial_owner_session :: "string option"
  checkpoint_count :: int

fun phase_name :: "phase \<Rightarrow> string" where
  "phase_name Closed = ''closed''"
| "phase_name Opened = ''open''"
| "phase_name HalfOpen = ''half_open''"

definition phase_of :: "string \<Rightarrow> phase option" where
  "phase_of s =
     (if s = ''closed'' then Some Closed else if s = ''open'' then Some Opened
      else if s = ''half_open'' then Some HalfOpen else None)"

fun fault_name :: "fault \<Rightarrow> string" where
  "fault_name Configuration = ''configuration''"
| "fault_name Transport = ''transport''"

text \<open>\<open>BreakerState(state, count, class, opened_at, False, None)\<close>.\<close>

definition plain_state :: "phase \<Rightarrow> int \<Rightarrow> fault option \<Rightarrow> pyfloat option \<Rightarrow> breaker_state" where
  "plain_state p n f t =
     \<lparr>phase = p, failure_count = n, fault = f, opened_at = t, trial_in_progress = False,
      trial_started_at = None, trial_owner_pid = None, trial_owner_pass_id = None,
      trial_owner_session = None, checkpoint_count = 0\<rparr>"

definition closed_state :: breaker_state where
  "closed_state = plain_state Closed 0 None None"

definition opt_py :: "('a \<Rightarrow> pyval) \<Rightarrow> 'a option \<Rightarrow> pyval" where
  "opt_py f v = (case v of None \<Rightarrow> PNone | Some x \<Rightarrow> f x)"

definition asdict :: "breaker_state \<Rightarrow> pyval" where
  "asdict s = PDict
     [(PStr ''state'', PStr (phase_name (phase s))),
      (PStr ''failure_count'', PInt (failure_count s)),
      (PStr ''failure_class'', opt_py (PStr \<circ> fault_name) (fault s)),
      (PStr ''opened_at'', opt_py PFloat (opened_at s)),
      (PStr ''trial_in_progress'', PBool (trial_in_progress s)),
      (PStr ''trial_started_at'', opt_py PFloat (trial_started_at s)),
      (PStr ''trial_owner_pid'', opt_py PInt (trial_owner_pid s)),
      (PStr ''trial_owner_pass_id'', opt_py PStr (trial_owner_pass_id s)),
      (PStr ''trial_owner_session'', opt_py PStr (trial_owner_session s)),
      (PStr ''checkpoint_count'', PInt (checkpoint_count s))]"

definition optional_text :: "py_lib \<Rightarrow> pyval \<Rightarrow> string option" where
  "optional_text L v =
     (let t = py_strip (py_str L (py_or v (PStr []))) in if t = [] then None else Some t)"

text \<open>\<open>max(0, int(v or 0))\<close>\<close>

definition count_of :: "pyval \<Rightarrow> int result" where
  "count_of v = bind_result (py_int (py_or v (PInt 0))) (\<lambda>i. Inr (max 0 i))"

definition opt_result :: "(pyval \<Rightarrow> 'a result) \<Rightarrow> pyval \<Rightarrow> 'a option result" where
  "opt_result f v = (if v = PNone then Inr None else bind_result (f v) (\<lambda>x. Inr (Some x)))"

text \<open>
  \<open>v in {"configuration", "transport"}\<close>: a list or a dict cannot be hashed.
\<close>

fun fault_of :: "pyval \<Rightarrow> fault option result" where
  "fault_of (PStr s) =
     Inr (if s = ''configuration'' then Some Configuration else if s = ''transport'' then Some Transport else None)"
| "fault_of (PList _) = Inl TypeError"
| "fault_of (PDict _) = Inl TypeError"
| "fault_of _ = Inr None"

text \<open>
  The two \<open>try\<close> blocks of \<open>_coerce_state\<close>: the first turns every error of the
  checkpoint count into 0, the second gives a closed breaker on a \<open>TypeError\<close> or a
  \<open>ValueError\<close> and lets an \<open>OverflowError\<close> through.
\<close>

definition coerce_state :: "py_lib \<Rightarrow> pyval option \<Rightarrow> breaker_state result" where
  "coerce_state L row =
     (case row of
        Some (PDict kvs) \<Rightarrow>
          (let v = py_get (PDict kvs)
           in case phase_of (py_str L (py_or (v ''state'') (PStr ''closed''))) of
                None \<Rightarrow> Inr closed_state
              | Some p \<Rightarrow>
                  (let ckpt = (case count_of (v ''checkpoint_count'') of Inl _ \<Rightarrow> 0 | Inr n \<Rightarrow> n);
                       nums =
                         bind_result (count_of (v ''failure_count'')) (\<lambda>n.
                         bind_result (opt_result (py_float L) (v ''opened_at'')) (\<lambda>op.
                         bind_result (opt_result (py_float L) (v ''trial_started_at'')) (\<lambda>ts.
                         bind_result (opt_result py_int (v ''trial_owner_pid'')) (\<lambda>pid.
                         Inr (n, op, ts, pid)))))
                   in case nums of
                        Inl TypeError \<Rightarrow> Inr closed_state
                      | Inl ValueError \<Rightarrow> Inr closed_state
                      | Inl e \<Rightarrow> Inl e
                      | Inr (n, op, ts, pid) \<Rightarrow>
                          bind_result (fault_of (v ''failure_class'')) (\<lambda>f. Inr
                            \<lparr>phase = p, failure_count = n, fault = f, opened_at = op,
                             trial_in_progress = py_truthy (py_get_default (PDict kvs) ''trial_in_progress'' (PBool False)),
                             trial_started_at = ts, trial_owner_pid = pid,
                             trial_owner_pass_id = optional_text L (v ''trial_owner_pass_id''),
                             trial_owner_session = optional_text L (v ''trial_owner_session''),
                             checkpoint_count = ckpt\<rparr>)))
      | _ \<Rightarrow> Inr closed_state)"

section \<open>The state file\<close>

text \<open>
  What reading the file gives: an \<open>OSError\<close> (a missing file is one), bytes that are
  not UTF-8, text that is not JSON, or a JSON value.  \<open>UnicodeDecodeError\<close> is a
  \<open>ValueError\<close> that is neither an \<open>OSError\<close> nor a \<open>JSONDecodeError\<close>.
\<close>

datatype durable = Unreadable | NotUtf8 | NotJson | Json pyval

type_synonym breaker_data = "(string \<times> pyval) list"

fun dict_rows :: "(pyval \<times> pyval) list \<Rightarrow> breaker_data" where
  "dict_rows [] = []"
| "dict_rows ((PStr k, PDict r) # rest) = (k, PDict r) # dict_rows rest"
| "dict_rows (_ # rest) = dict_rows rest"

fun read_data :: "durable \<Rightarrow> breaker_data result" where
  "read_data Unreadable = Inr []"
| "read_data NotJson = Inr []"
| "read_data NotUtf8 = Inl ValueError"
| "read_data (Json v) = Inr (case v of PDict kvs \<Rightarrow> dict_rows kvs | _ \<Rightarrow> [])"

definition write_data :: "breaker_data \<Rightarrow> durable" where
  "write_data data = Json (PDict (map (\<lambda>(k, v). (PStr k, v)) data))"

definition load_state :: "py_lib \<Rightarrow> breaker_data \<Rightarrow> string \<Rightarrow> breaker_state result" where
  "load_state L data key = coerce_state L (map_of data key)"

definition put_state :: "string \<Rightarrow> breaker_state \<Rightarrow> breaker_data \<Rightarrow> breaker_data" where
  "put_state key s data = AList.update key (asdict s) data"

definition store_state :: "durable \<Rightarrow> string \<Rightarrow> breaker_state \<Rightarrow> durable result" where
  "store_state file backend_id s =
     bind_result (read_data file) (\<lambda>data. Inr (write_data (put_state backend_id s data)))"

section \<open>The store keeps what is put into it\<close>

text \<open>The states the code can build: counts that are not negative, owner texts stripped and not empty.\<close>

definition plain_text :: "string option \<Rightarrow> bool" where
  "plain_text t \<longleftrightarrow> (\<forall>s. t = Some s \<longrightarrow> s \<noteq> [] \<and> py_strip s = s)"

definition wf_state :: "breaker_state \<Rightarrow> bool" where
  "wf_state s \<longleftrightarrow> 0 \<le> failure_count s \<and> 0 \<le> checkpoint_count s \<and>
     plain_text (trial_owner_pass_id s) \<and> plain_text (trial_owner_session s)"

lemma phase_of_name [simp]: "phase_of (phase_name p) = Some p"
  by (cases p) (simp_all add: phase_of_def)

lemma phase_name_truthy [simp]: "py_or (PStr (phase_name p)) w = PStr (phase_name p)"
  by (cases p) (simp_all add: py_or_def)

lemma count_of_int [simp]: "0 \<le> n \<Longrightarrow> count_of (PInt n) = Inr n"
  by (simp add: count_of_def py_or_def)

lemma opt_result_opt_py [simp]:
  "opt_result (py_float L) (opt_py PFloat x) = Inr x"
  "opt_result py_int (opt_py PInt i) = Inr i"
  by (cases x; simp add: opt_result_def opt_py_def) (cases i; simp add: opt_result_def opt_py_def)

lemma fault_of_name [simp]: "fault_of (opt_py (PStr \<circ> fault_name) f) = Inr f"
proof (cases f)
  case (Some x)
  then show ?thesis by (cases x) (simp_all add: opt_py_def)
qed (simp add: opt_py_def)

lemma optional_text_plain [simp]: "plain_text t \<Longrightarrow> optional_text L (opt_py PStr t) = t"
  by (cases t) (auto simp: optional_text_def opt_py_def plain_text_def py_or_def py_strip_def)

lemma coerce_asdict:
  assumes "wf_state s"
  shows "coerce_state L (Some (asdict s)) = Inr s"
  using assms
  by (cases s) (simp add: coerce_state_def asdict_def wf_state_def py_get_def py_get_default_def)

lemma dropWhile_snoc_stop: "\<not> P c \<Longrightarrow> dropWhile P (xs @ [c]) = dropWhile P xs @ [c]"
  by (induction xs) auto

lemma strip_idem [simp]: "py_strip (py_strip s) = py_strip s"
proof -
  have "dropWhile py_isspace (rev (dropWhile py_isspace (rev u))) = rev (dropWhile py_isspace (rev u))"
    if u: "dropWhile py_isspace u = u" for u
  proof (cases u)
    case (Cons c cs)
    then have "\<not> py_isspace c"
      using u by (metis dropWhile.simps(2) length_dropWhile_le impossible_Cons)
    then show ?thesis using Cons by (simp add: dropWhile_snoc_stop)
  qed simp
  then show ?thesis by (simp add: py_strip_def dropWhile_idem)
qed

lemma plain_optional_text [simp]: "plain_text (optional_text L v)"
  by (simp add: plain_text_def optional_text_def Let_def)

lemma count_of_nonneg: "count_of v = Inr n \<Longrightarrow> 0 \<le> n"
  by (auto simp: count_of_def bind_result_Inr_iff)

lemma wf_closed [simp]: "wf_state closed_state"
  by (simp add: wf_state_def closed_state_def plain_state_def plain_text_def)

lemma wf_state_make:
  "wf_state \<lparr>phase = p, failure_count = n, fault = f, opened_at = op, trial_in_progress = b,
     trial_started_at = ts, trial_owner_pid = pid, trial_owner_pass_id = a, trial_owner_session = e,
     checkpoint_count = c\<rparr> \<longleftrightarrow> 0 \<le> n \<and> 0 \<le> c \<and> plain_text a \<and> plain_text e"
  by (simp add: wf_state_def)

lemma coerce_state_wf: "coerce_state L row = Inr s \<Longrightarrow> wf_state s"
  by (auto simp: coerce_state_def Let_def bind_result_Inr_iff wf_state_make
      split: option.splits pyval.splits sum.splits py_exn.splits) (erule count_of_nonneg)+

lemma dict_rows_map [simp]:
  "\<forall>(k, v) \<in> set data. is_mapping v \<Longrightarrow> dict_rows (map (\<lambda>(k, v). (PStr k, v)) data) = data"
proof (induction data)
  case (Cons kv data)
  then show ?case by (cases kv; cases "snd kv") auto
qed simp

lemma dict_rows_mappings: "(k, v) \<in> set (dict_rows kvs) \<Longrightarrow> is_mapping v"
  by (induction kvs rule: dict_rows.induct) auto

definition rows_ok :: "breaker_data \<Rightarrow> bool" where
  "rows_ok data \<longleftrightarrow> (\<forall>(k, v) \<in> set data. is_mapping v)"

lemma read_data_rows: "read_data file = Inr data \<Longrightarrow> rows_ok data"
  by (cases "file") (auto simp: rows_ok_def dest: dict_rows_mappings split: pyval.splits)

lemma read_write [simp]: "rows_ok data \<Longrightarrow> read_data (write_data data) = Inr data"
  by (simp add: write_data_def rows_ok_def)

lemma asdict_mapping [simp]: "is_mapping (asdict s)"
  by (simp add: asdict_def)

lemma update_set: "set (AList.update k v xs) \<subseteq> insert (k, v) (set xs)"
  by (induction xs) auto

lemma rows_ok_put [simp]: "rows_ok data \<Longrightarrow> rows_ok (put_state k s data)"
  using update_set [of k "asdict s" data] by (auto simp: rows_ok_def put_state_def)

lemma load_put:
  "wf_state s \<Longrightarrow> load_state L (put_state k s data) k' = (if k' = k then Inr s else load_state L data k')"
  by (simp add: load_state_def put_state_def update_conv' coerce_asdict)

end
