(* ===== verification/DispatchBreaker.thy ===== *)
theory DispatchBreaker
  imports BreakerState
begin

text \<open>
  The operations of \<open>dispatch_breaker.py\<close> on the state file: \<open>record_failure\<close>,
  \<open>record_success\<close>, \<open>finish_trial\<close>, \<open>admit\<close>, \<open>inspect\<close>, \<open>breaker_state\<close> and \<open>reset\<close>.
  An operation runs under the file lock, so it is one step from the file it reads to
  the file it leaves (the deadline of the lock, which raises before anything is read,
  is left out, and so is the logging).  The clock's answer and the process id are
  arguments.
\<close>

section \<open>Settings and keys\<close>

type_synonym environment = "string \<Rightarrow> string option"

definition transport_threshold :: int where "transport_threshold = 3"
definition configuration_threshold :: int where "configuration_threshold = 1"
definition cooldown_s :: pyfloat where "cooldown_s = Finite 300"

text \<open>\<open>value <= 0\<close> is false of a NaN.\<close>

fun float_not_pos :: "pyfloat \<Rightarrow> bool" where
  "float_not_pos (Finite q) = (q \<le> 0)"
| "float_not_pos NegInf = True"
| "float_not_pos _ = False"

definition positive_env_number :: "(string \<Rightarrow> 'a option) \<Rightarrow> ('a \<Rightarrow> bool) \<Rightarrow> environment \<Rightarrow> string \<Rightarrow> 'a \<Rightarrow> 'a result" where
  "positive_env_number cast not_pos env name dflt =
     (case env name of
        None \<Rightarrow> Inr dflt
      | Some raw \<Rightarrow>
          (case cast raw of None \<Rightarrow> Inl ValueError | Some v \<Rightarrow> if not_pos v then Inl ValueError else Inr v))"

text \<open>Threshold, cooldown, and whether an override is invalid (the defaults are used then).\<close>

definition settings :: "py_lib \<Rightarrow> environment \<Rightarrow> int \<times> pyfloat \<times> bool" where
  "settings L env =
     (let t = positive_env_number py_int_of_str (\<lambda>n. n \<le> 0) env
                ''WORKBAY_DISPATCH_BREAKER_TRANSPORT_THRESHOLD'' transport_threshold;
          c = positive_env_number (float_of_str L) float_not_pos env
                ''WORKBAY_DISPATCH_BREAKER_COOLDOWN_S'' cooldown_s
      in case (t, c) of
           (Inr n, Inr s) \<Rightarrow> (n, s, False)
         | _ \<Rightarrow> (transport_threshold, cooldown_s, True))"

definition norm_text :: "string option \<Rightarrow> string" where
  "norm_text t = (case t of None \<Rightarrow> [] | Some s \<Rightarrow> py_strip s)"

definition config_mark :: string where "config_mark = ''::configuration::''"

definition configuration_key :: "string \<Rightarrow> string option \<Rightarrow> string" where
  "configuration_key backend model =
     (if norm_text model = [] then backend else backend @ config_mark @ norm_text model)"

section \<open>Recording outcomes\<close>

definition failure_step :: "int \<Rightarrow> bool \<Rightarrow> fault \<Rightarrow> pyfloat \<Rightarrow> breaker_state \<Rightarrow> breaker_state" where
  "failure_step threshold bad cls now old =
     (if bad then plain_state Opened (failure_count old) (Some cls) (Some now)
      else case cls of
        Configuration \<Rightarrow>
          plain_state Opened
            (if fault old = Some Configuration then failure_count old + 1 else configuration_threshold)
            (Some Configuration) (Some now)
      | Transport \<Rightarrow>
          (let count = (if fault old = Some Transport then failure_count old + 1 else 1)
           in if phase old = Opened \<or> phase old = HalfOpen \<or> count \<ge> threshold
              then plain_state Opened count (Some Transport) (Some now)
              else plain_state Closed count (Some Transport) None))
     \<lparr>checkpoint_count := checkpoint_count old\<rparr>"

definition checkpoint_step :: "breaker_state \<Rightarrow> breaker_state" where
  "checkpoint_step old =
     (if fault old = Some Configuration then old else closed_state)\<lparr>checkpoint_count := checkpoint_count old + 1\<rparr>"

text \<open>\<open>None\<close> leaves the row alone; a class that is not known raises.\<close>

definition outcome_step :: "int \<Rightarrow> bool \<Rightarrow> string \<Rightarrow> pyfloat \<Rightarrow> breaker_state \<Rightarrow> breaker_state option result" where
  "outcome_step threshold bad cls now old =
     (if cls = ''neutral'' then Inr None
      else if cls = ''checkpoint'' then Inr (Some (checkpoint_step old))
      else if cls = ''configuration'' then Inr (Some (failure_step threshold bad Configuration now old))
      else if cls = ''transport'' then Inr (Some (failure_step threshold bad Transport now old))
      else Inl ValueError)"

definition failure_key :: "string \<Rightarrow> string \<Rightarrow> string option \<Rightarrow> string" where
  "failure_key backend cls model = (if cls = ''configuration'' then configuration_key backend model else backend)"

definition record_failure ::
    "py_lib \<Rightarrow> environment \<Rightarrow> durable \<Rightarrow> string \<Rightarrow> string \<Rightarrow> string option \<Rightarrow> pyfloat
      \<Rightarrow> (breaker_state \<times> durable) result" where
  "record_failure L env state_file backend cls model now =
     bind_result (read_data state_file) (\<lambda>data.
     bind_result (load_state L data (failure_key backend cls model)) (\<lambda>old.
       case settings L env of (threshold, _, bad) \<Rightarrow>
         bind_result (outcome_step threshold bad cls now old) (\<lambda>r.
           Inr (case r of None \<Rightarrow> (old, state_file)
                | Some new \<Rightarrow> (new, write_data (put_state (failure_key backend cls model) new data))))))"

definition success_step :: "breaker_state \<Rightarrow> breaker_state" where
  "success_step old = closed_state\<lparr>checkpoint_count := checkpoint_count old\<rparr>"

definition record_success :: "py_lib \<Rightarrow> durable \<Rightarrow> string \<Rightarrow> (breaker_state \<times> durable) result" where
  "record_success L state_file backend =
     bind_result (read_data state_file) (\<lambda>data.
     bind_result (load_state L data backend) (\<lambda>old.
       let new = success_step old in Inr (new, write_data (put_state backend new data))))"

section \<open>Admission\<close>

record admission =
  allowed :: bool
  adm_phase :: phase
  adm_reason :: string
  adm_fault :: "fault option"
  breaker_key :: "string option"
  adm_opened_at :: "string option"
  trial_state :: "breaker_state option"
  trial_armable :: bool

definition admission :: "bool \<Rightarrow> phase \<Rightarrow> string \<Rightarrow> fault option \<Rightarrow> admission" where
  "admission ok p why f =
     \<lparr>allowed = ok, adm_phase = p, adm_reason = why, adm_fault = f, breaker_key = None,
      adm_opened_at = None, trial_state = None, trial_armable = False\<rparr>"

definition refusal :: "string \<Rightarrow> breaker_state \<Rightarrow> string \<Rightarrow> admission result" where
  "refusal key s why =
     bind_result (case opened_at s of None \<Rightarrow> Inr None | Some t \<Rightarrow> bind_result (iso_utc t) (\<lambda>x. Inr (Some x)))
       (\<lambda>ts. Inr ((admission False (phase s) why (fault s))\<lparr>breaker_key := Some key, adm_opened_at := ts\<rparr>))"

text \<open>What the caller of \<open>admit\<close> passes, with the answer of \<open>os.getpid()\<close>.\<close>

record trial_caller =
  own_pid :: int
  given_pid :: "int option"
  given_pass_id :: "string option"
  given_session :: "string option"

definition trial_owner :: "py_lib \<Rightarrow> trial_caller \<Rightarrow> int \<times> string option \<times> string option" where
  "trial_owner L c =
     (case given_pid c of None \<Rightarrow> own_pid c | Some p \<Rightarrow> p,
      optional_text L (opt_py PStr (given_pass_id c)), optional_text L (opt_py PStr (given_session c)))"

definition half_open_state :: "py_lib \<Rightarrow> breaker_state \<Rightarrow> pyfloat \<Rightarrow> trial_caller \<Rightarrow> breaker_state" where
  "half_open_state L old started c =
     (let (pid, pass_id, session) = trial_owner L c
      in \<lparr>phase = HalfOpen, failure_count = failure_count old, fault = Some Transport, opened_at = opened_at old,
          trial_in_progress = True, trial_started_at = Some started, trial_owner_pid = Some pid,
          trial_owner_pass_id = pass_id, trial_owner_session = session,
          checkpoint_count = checkpoint_count old\<rparr>)"

text \<open>\<open>max(0.0, x)\<close> keeps \<open>x\<close> only when it is greater than zero, so a NaN gives zero.\<close>

definition remaining_cooldown :: "pyfloat \<Rightarrow> pyfloat \<Rightarrow> pyfloat \<Rightarrow> pyfloat" where
  "remaining_cooldown cooldown started current =
     (let x = float_sub cooldown (float_sub current started) in if float_pos x then x else Finite 0)"

definition opt_repr :: "py_lib \<Rightarrow> ('a \<Rightarrow> pyval) \<Rightarrow> 'a option \<Rightarrow> string" where
  "opt_repr L f v = py_repr L (opt_py f v)"

definition trial_refusal_reason :: "py_lib \<Rightarrow> breaker_state \<Rightarrow> pyfloat \<Rightarrow> string" where
  "trial_refusal_reason L s remaining =
     ''half-open trial already in progress (pid='' @ opt_repr L PInt (trial_owner_pid s) @
     '' pass_id='' @ opt_repr L PStr (trial_owner_pass_id s) @
     '' session='' @ opt_repr L PStr (trial_owner_session s) @ ''); remaining_cooldown_s='' @ format3 remaining"

definition configuration_keys :: "breaker_data \<Rightarrow> string option \<Rightarrow> string list" where
  "configuration_keys data backend =
     (let b = norm_text backend
      in if b = [] then []
         else b # sort (filter (\<lambda>k. starts_with k (b @ config_mark)) (map fst data)))"

text \<open>The first key whose row is an open configuration latch; a row that cannot be read raises.\<close>

fun first_latch ::
    "py_lib \<Rightarrow> breaker_data \<Rightarrow> string set \<Rightarrow> string list \<Rightarrow> (string \<times> breaker_state) option result" where
  "first_latch L data seen [] = Inr None"
| "first_latch L data seen (key # keys) =
     (if key \<in> seen then first_latch L data seen keys
      else bind_result (load_state L data key) (\<lambda>s.
        if phase s = Opened \<and> fault s = Some Configuration then Inr (Some (key, s))
        else first_latch L data (insert key seen) keys))"

definition first_open_configuration ::
    "py_lib \<Rightarrow> breaker_data \<Rightarrow> string option \<Rightarrow> string option \<Rightarrow> (string \<times> breaker_state) option result" where
  "first_open_configuration L data backend model =
     (let b = norm_text backend; m = norm_text model
      in if b = [] then Inr None
         else first_latch L data {}
           (if m \<noteq> [] then [configuration_key b (Some m), b] else configuration_keys data (Some b)))"

definition settings_reason :: string where
  "settings_reason = ''invalid dispatch breaker environment override''"

definition cooldown_reason :: "pyfloat \<Rightarrow> string" where
  "cooldown_reason remaining =
     ''transport breaker cooldown has not elapsed; remaining_cooldown_s='' @ format3 remaining"

text \<open>
  What the row of the backend says, shared by \<open>admit\<close> and \<open>inspect\<close>: closed, a trial or
  cooldown that still holds (with the refusal), or a trial that may be armed.
\<close>

datatype verdict = Healthy | Holding string | Armable string string

definition row_verdict :: "py_lib \<Rightarrow> pyfloat \<Rightarrow> pyfloat \<Rightarrow> breaker_state \<Rightarrow> verdict" where
  "row_verdict L cooldown now old =
     (case phase old of
        Closed \<Rightarrow> Healthy
      | HalfOpen \<Rightarrow>
          (case trial_started_at old of
             None \<Rightarrow> Armable ''transport breaker half-open trial re-armed''
               ''half-open trial has no lease timestamp; next admission may re-arm; remaining_cooldown_s=0.000''
           | Some started \<Rightarrow>
               (let remaining = remaining_cooldown cooldown started now
                in if float_pos remaining then Holding (trial_refusal_reason L old remaining)
                   else Armable ''transport breaker half-open trial re-armed''
                     ''half-open trial lease elapsed; next admission may re-arm; remaining_cooldown_s=0.000''))
      | Opened \<Rightarrow>
          (let opened = (case opened_at old of Some t \<Rightarrow> t | None \<Rightarrow> now);
               remaining = remaining_cooldown cooldown opened now
           in if float_pos remaining then Holding (cooldown_reason remaining)
              else Armable ''transport breaker half-open trial''
                ''transport breaker cooldown elapsed; trial not armed''))"

text \<open>
  \<open>admit\<close>: the answer and the file it leaves.  Only an armed trial writes.
\<close>

definition armed :: "string \<Rightarrow> breaker_state \<Rightarrow> string \<Rightarrow> admission" where
  "armed backend new why =
     (admission True HalfOpen why (Some Transport))\<lparr>breaker_key := Some backend, trial_state := Some new\<rparr>"

definition admit_row ::
    "py_lib \<Rightarrow> pyfloat \<Rightarrow> durable \<Rightarrow> breaker_data \<Rightarrow> string \<Rightarrow> trial_caller \<Rightarrow> pyfloat \<Rightarrow> breaker_state
      \<Rightarrow> (admission \<times> durable) result" where
  "admit_row L cooldown state_file data backend caller now old =
     (case row_verdict L cooldown now old of
        Healthy \<Rightarrow> Inr (admission True Closed ''breaker closed'' (fault old), state_file)
      | Holding why \<Rightarrow> bind_result (refusal backend old why) (\<lambda>a. Inr (a, state_file))
      | Armable why _ \<Rightarrow>
          (let new = half_open_state L old now caller
           in Inr (armed backend new why, write_data (put_state backend new data))))"

definition admit ::
    "py_lib \<Rightarrow> environment \<Rightarrow> durable \<Rightarrow> string \<Rightarrow> string option \<Rightarrow> trial_caller \<Rightarrow> pyfloat
      \<Rightarrow> (admission \<times> durable) result" where
  "admit L env state_file backend model caller now =
     (case settings L env of (_, cooldown, bad) \<Rightarrow>
        if bad then Inr ((admission False Opened settings_reason None)\<lparr>breaker_key := Some backend\<rparr>, state_file)
        else bind_result (read_data state_file) (\<lambda>data.
        bind_result (first_open_configuration L data (Some backend) model) (\<lambda>latch.
        case latch of
          Some (key, s) \<Rightarrow>
            bind_result (refusal key s ''configuration breaker requires operator reset'') (\<lambda>a. Inr (a, state_file))
        | None \<Rightarrow>
            bind_result (load_state L data backend) (admit_row L cooldown state_file data backend caller now))))"

definition inspect_row :: "py_lib \<Rightarrow> pyfloat \<Rightarrow> pyfloat \<Rightarrow> breaker_state \<Rightarrow> admission" where
  "inspect_row L cooldown now old =
     (case row_verdict L cooldown now old of
        Healthy \<Rightarrow> admission True Closed ''breaker closed'' (fault old)
      | Holding why \<Rightarrow> admission False (phase old) why (fault old)
      | Armable _ why \<Rightarrow>
          (admission False (phase old) why
            (if phase old = Opened \<and> fault old = None then Some Transport else fault old))\<lparr>trial_armable := True\<rparr>)"

definition inspect ::
    "py_lib \<Rightarrow> environment \<Rightarrow> durable \<Rightarrow> string option \<Rightarrow> string option \<Rightarrow> pyfloat \<Rightarrow> admission result" where
  "inspect L env state_file backend model now =
     (case settings L env of (_, cooldown, bad) \<Rightarrow>
        if bad then Inr (admission False Opened settings_reason None)
        else bind_result (read_data state_file) (\<lambda>data.
        bind_result (first_open_configuration L data backend model) (\<lambda>latch.
        case latch of
          Some (key, s) \<Rightarrow>
            Inr (admission False Opened (''configuration breaker '' @ key @ '' is open; operator reset required'')
              (Some Configuration))
        | None \<Rightarrow>
            if norm_text backend = [] then Inr (admission True Closed ''breaker closed'' None)
            else bind_result (load_state L data (norm_text backend)) (\<lambda>old. Inr (inspect_row L cooldown now old)))))"

section \<open>Finishing a trial\<close>

text \<open>\<open>a == b\<close> on values that may be \<open>None\<close>.\<close>

definition same_time :: "pyfloat option \<Rightarrow> pyfloat option \<Rightarrow> bool" where
  "same_time a b =
     (case (a, b) of (None, None) \<Rightarrow> True | (Some x, Some y) \<Rightarrow> float_eq x y | _ \<Rightarrow> False)"

definition same_lease :: "breaker_state \<Rightarrow> breaker_state \<Rightarrow> bool" where
  "same_lease old trial \<longleftrightarrow>
     phase old = HalfOpen \<and> trial_in_progress old \<and>
     same_time (trial_started_at old) (trial_started_at trial) \<and>
     trial_owner_pid old = trial_owner_pid trial \<and>
     trial_owner_pass_id old = trial_owner_pass_id trial \<and>
     trial_owner_session old = trial_owner_session trial"

definition healthy_step :: "string \<Rightarrow> breaker_state \<Rightarrow> breaker_state" where
  "healthy_step outcome old =
     closed_state\<lparr>checkpoint_count := checkpoint_count old + (if outcome = ''checkpoint'' then 1 else 0)\<rparr>"

text \<open>A transport fault reported by a trial whose lease is not the current one.\<close>

definition late_transport_step :: "int \<Rightarrow> bool \<Rightarrow> pyfloat \<Rightarrow> breaker_state \<Rightarrow> breaker_state" where
  "late_transport_step threshold bad now old =
     (let count = (if fault old = Some Transport then failure_count old + 1 else 1)
      in if phase old = HalfOpen \<and> trial_in_progress old \<and> trial_started_at old \<noteq> None
         then old\<lparr>failure_count := count\<rparr>
         else if bad then plain_state Opened (failure_count old) (Some Transport) (Some now)
         else if phase old = Opened \<or> phase old = HalfOpen \<or> count \<ge> threshold
         then plain_state Opened count (Some Transport) (Some now)
         else plain_state Closed count (Some Transport) None)
     \<lparr>checkpoint_count := checkpoint_count old\<rparr>"

definition release_step :: "string \<Rightarrow> pyfloat \<Rightarrow> breaker_state \<Rightarrow> breaker_state" where
  "release_step outcome now old =
     (if outcome = ''transport''
      then plain_state Opened (failure_count old + 1) (Some Transport) (Some now)
      else plain_state Opened (failure_count old) (Some Transport) (opened_at old))
     \<lparr>checkpoint_count := checkpoint_count old\<rparr>"

text \<open>The decision under the lock: \<open>None\<close> leaves the row alone.\<close>

definition finish_step ::
    "int \<Rightarrow> bool \<Rightarrow> string \<Rightarrow> pyfloat \<Rightarrow> breaker_state \<Rightarrow> breaker_state \<Rightarrow> breaker_state option result" where
  "finish_step threshold bad outcome now trial old =
     (if \<not> same_lease old trial then
        (if outcome = ''neutral'' then Inr None
         else if outcome = ''success'' \<or> outcome = ''checkpoint'' then Inr (Some (healthy_step outcome old))
         else if outcome = ''transport'' then Inr (Some (late_transport_step threshold bad now old))
         else Inl ValueError)
      else if outcome = ''success'' \<or> outcome = ''checkpoint'' then Inr (Some (healthy_step outcome old))
      else if outcome = ''neutral'' \<or> outcome = ''transport'' then Inr (Some (release_step outcome now old))
      else Inl ValueError)"

definition finish_trial ::
    "py_lib \<Rightarrow> environment \<Rightarrow> durable \<Rightarrow> admission \<Rightarrow> string \<Rightarrow> pyfloat \<Rightarrow> (breaker_state \<times> durable) result" where
  "finish_trial L env state_file adm outcome now =
     (case (breaker_key adm, trial_state adm) of
        (Some key, Some trial) \<Rightarrow>
          bind_result (read_data state_file) (\<lambda>data.
          bind_result (load_state L data key) (\<lambda>old.
            if in_str config_mark key \<or> fault old = Some Configuration then Inr (old, state_file)
            else (case settings L env of (threshold, _, bad) \<Rightarrow>
              bind_result (finish_step threshold bad outcome now trial old) (\<lambda>r.
                Inr (case r of None \<Rightarrow> (old, state_file)
                     | Some new \<Rightarrow> (new, write_data (put_state key new data)))))))
      | _ \<Rightarrow> Inl ValueError)"

section \<open>Reset\<close>

definition breaker_row :: "py_lib \<Rightarrow> durable \<Rightarrow> string \<Rightarrow> pyval result" where
  "breaker_row L state_file backend =
     bind_result (read_data state_file) (\<lambda>data. bind_result (load_state L data backend) (\<lambda>s. Inr (asdict s)))"

definition reset_targets :: "breaker_data \<Rightarrow> string \<Rightarrow> string list" where
  "reset_targets data backend =
     (if backend = ''all'' \<or> backend = ''*'' then sort (map fst data)
      else sort (filter (\<lambda>k. k = backend \<or> starts_with k (backend @ config_mark)) (map fst data)))"

text \<open>Popping a row coerces it (for the log), so a damaged one raises before the file is written.\<close>

fun pop_rows :: "py_lib \<Rightarrow> string list \<Rightarrow> breaker_data \<Rightarrow> breaker_data result" where
  "pop_rows L [] data = Inr data"
| "pop_rows L (k # ks) data =
     bind_result (load_state L data k) (\<lambda>_. pop_rows L ks (AList.delete k data))"

definition reset :: "py_lib \<Rightarrow> durable \<Rightarrow> string \<Rightarrow> (string list \<times> durable) result" where
  "reset L state_file backend =
     bind_result (read_data state_file) (\<lambda>data.
       let targets = reset_targets data backend
       in bind_result (pop_rows L targets data) (\<lambda>left.
         Inr (targets, if targets = [] then state_file else write_data left)))"

text \<open>\<open>consume_reset_env\<close>: the targets, the file and the environment.\<close>

definition consume_reset_env ::
    "py_lib \<Rightarrow> durable \<Rightarrow> environment \<Rightarrow> (string list \<times> durable \<times> environment) result" where
  "consume_reset_env L state_file env =
     (case env ''WORKBAY_DISPATCH_BREAKER_RESET'' of
        None \<Rightarrow> Inr ([], state_file, env)
      | Some request \<Rightarrow>
          (let target = py_strip request;
               popped = env(''WORKBAY_DISPATCH_BREAKER_RESET'' := None)
           in if target = [] then Inr ([], state_file, popped)
              else bind_result (reset L state_file target) (\<lambda>(targets, f). Inr (targets, f, popped))))"

end
