(* ===== verification/BreakerLaws.thy ===== *)
theory BreakerLaws
  imports DispatchBreaker
begin

text \<open>
  The laws of the dispatch breaker.  \<open>keyed_store\<close> is the interface between the
  operations and the state file: what is put under a key is what a later read of that
  key gives, and no other key changes.  The operations are one-key updates of that
  store, which gives the isolation of the backends and the invariants at once.
\<close>

section \<open>A store with one state per key\<close>

lemma map_sum_Inr_iff: "map_sum id g r = Inr y \<longleftrightarrow> (\<exists>x. r = Inr x \<and> y = g x)"
  by (cases r) auto

definition modify :: "('f \<Rightarrow> 'k \<Rightarrow> 's result) \<Rightarrow> ('f \<Rightarrow> 'k \<Rightarrow> 's \<Rightarrow> 'f result) \<Rightarrow> 'k \<Rightarrow> ('s \<Rightarrow> 's) \<Rightarrow> 'f \<Rightarrow> 'f result" where
  "modify look put k g f = bind_result (look f k) (\<lambda>s. put f k (g s))"

fun modify_all ::
    "('f \<Rightarrow> 'k \<Rightarrow> 's result) \<Rightarrow> ('f \<Rightarrow> 'k \<Rightarrow> 's \<Rightarrow> 'f result) \<Rightarrow> ('k \<times> ('s \<Rightarrow> 's)) list \<Rightarrow> 'f \<Rightarrow> 'f result" where
  "modify_all look put [] f = Inr f"
| "modify_all look put ((k, g) # ms) f = bind_result (modify look put k g f) (modify_all look put ms)"

locale keyed_store =
  fixes look :: "'f \<Rightarrow> 'k \<Rightarrow> 's result"
    and put :: "'f \<Rightarrow> 'k \<Rightarrow> 's \<Rightarrow> 'f result"
    and good :: "'s \<Rightarrow> bool"
  assumes look_good: "look f k = Inr s \<Longrightarrow> good s"
    and put_ok: "look f k = Inr s' \<Longrightarrow> \<exists>f'. put f k s = Inr f'"
    and look_put: "put f k s = Inr f' \<Longrightarrow> good s \<Longrightarrow> look f' k' = (if k' = k then Inr s else look f k')"
begin

lemma modify_Inr:
  assumes "look f k = Inr s"
  shows "\<exists>f'. modify look put k g f = Inr f'"
  using put_ok [OF assms] assms by (simp add: modify_def)

lemma modify_look:
  assumes "modify look put k g f = Inr f'" and "\<And>s. good s \<Longrightarrow> good (g s)"
  shows "look f' k' = (if k' = k then map_sum id g (look f k) else look f k')"
proof -
  obtain s where s: "look f k = Inr s" "put f k (g s) = Inr f'"
    using assms(1) by (auto simp: modify_def bind_result_Inr_iff)
  then show ?thesis using look_put [OF s(2)] assms(2) look_good by auto
qed

lemma modify_frame:
  "modify look put k g f = Inr f' \<Longrightarrow> (\<And>s. good s \<Longrightarrow> good (g s)) \<Longrightarrow> k' \<noteq> k \<Longrightarrow> look f' k' = look f k'"
  by (simp add: modify_look)

text \<open>What a key holds after many updates is decided by the updates of that key.\<close>

lemma modify_all_look:
  assumes "modify_all look put ms f = Inr f'" and "\<forall>(k, g) \<in> set ms. \<forall>s. good s \<longrightarrow> good (g s)"
  shows "look f' k = map_sum id (fold (\<lambda>(_, g) s. g s) (filter (\<lambda>(k', _). k' = k) ms)) (look f k)"
  using assms
proof (induction ms arbitrary: f)
  case Nil
  then show ?case by (simp add: sum.map_ident id_def)
next
  case (Cons m ms)
  obtain k1 g where m: "m = (k1, g)" by (cases m)
  then obtain f1 where f1: "modify look put k1 g f = Inr f1" "modify_all look put ms f1 = Inr f'"
    using Cons.prems(1) by (auto simp: bind_result_Inr_iff)
  have "good s \<Longrightarrow> good (g s)" for s using Cons.prems(2) m by auto
  then have "look f1 k = (if k = k1 then map_sum id g (look f k1) else look f k)"
    by (rule modify_look [OF f1(1)])
  moreover have "look f' k = map_sum id (fold (\<lambda>(_, g) s. g s) (filter (\<lambda>(k', _). k' = k) ms)) (look f1 k)"
    by (rule Cons.IH [OF f1(2)]) (use Cons.prems(2) in auto)
  ultimately show ?case by (cases "look f k") (auto simp: m)
qed

lemma modify_all_Inr:
  assumes "\<forall>(k, g) \<in> set ms. \<exists>s. look f k = Inr s" and "\<forall>(k, g) \<in> set ms. \<forall>s. good s \<longrightarrow> good (g s)"
  shows "\<exists>f'. modify_all look put ms f = Inr f'"
  using assms
proof (induction ms arbitrary: f)
  case (Cons m ms)
  obtain k1 g where m: "m = (k1, g)" by (cases m)
  obtain f1 where f1: "modify look put k1 g f = Inr f1"
    using modify_Inr Cons.prems(1) m by fastforce
  have "good s \<Longrightarrow> good (g s)" for s using Cons.prems(2) m by auto
  then have look1: "look f1 k = (if k = k1 then map_sum id g (look f k1) else look f k)" for k
    by (rule modify_look [OF f1])
  have "\<exists>s. look f1 k = Inr s" if "(k, h) \<in> set ms" for k h
    using Cons.prems(1) that m by (auto simp: look1)
  then have "\<exists>f'. modify_all look put ms f1 = Inr f'"
    by (intro Cons.IH) (use Cons.prems(2) in auto)
  then show ?case using m f1 by simp
qed simp

end

section \<open>The state file is such a store\<close>

definition view_state :: "py_lib \<Rightarrow> durable \<Rightarrow> string \<Rightarrow> breaker_state result" where
  "view_state L f k = bind_result (read_data f) (\<lambda>data. load_state L data k)"

lemma view_write [simp]: "rows_ok data \<Longrightarrow> view_state L (write_data data) k = load_state L data k"
  by (simp add: view_state_def)

lemma load_state_wf: "load_state L data k = Inr s \<Longrightarrow> wf_state s"
  unfolding load_state_def by (rule coerce_state_wf)

interpretation breaker_store: keyed_store "view_state L" "store_state" wf_state for L
proof
  show "view_state L f k = Inr s \<Longrightarrow> wf_state s" for f k s
    by (auto simp: view_state_def bind_result_Inr_iff dest: load_state_wf)
  show "view_state L f k = Inr s' \<Longrightarrow> \<exists>f'. store_state f k s = Inr f'" for f k s' s
    by (auto simp: view_state_def store_state_def bind_result_Inr_iff)
  show "store_state f k s = Inr f' \<Longrightarrow> wf_state s \<Longrightarrow>
      view_state L f' k' = (if k' = k then Inr s else view_state L f k')" for f k s f' k'
    using read_data_rows [of f]
    by (auto simp: store_state_def bind_result_Inr_iff load_put) (simp add: view_state_def load_put)
qed

lemma modify_store:
  "modify (view_state L) store_state k g f =
     bind_result (read_data f) (\<lambda>data. bind_result (load_state L data k) (\<lambda>s. Inr (write_data (put_state k (g s) data))))"
  by (cases "read_data f"; cases "load_state L (projr (read_data f)) k")
     (auto simp: modify_def view_state_def store_state_def)

section \<open>The steps keep the invariant\<close>

lemma wf_plain [simp]: "wf_state (plain_state p n f t) \<longleftrightarrow> 0 \<le> n"
  by (simp add: wf_state_def plain_state_def plain_text_def)

lemma wf_counts: "wf_state s \<Longrightarrow> 0 \<le> failure_count s \<and> 0 \<le> checkpoint_count s"
  by (simp add: wf_state_def)

section \<open>The calls that write, as one-key updates\<close>

datatype breaker_call =
    CallFailure string string "string option" pyfloat
  | CallSuccess string
  | CallFinish admission string pyfloat
  | CallAdmit string "string option" trial_caller pyfloat
  | CallReset string

fun run_call :: "py_lib \<Rightarrow> environment \<Rightarrow> breaker_call \<Rightarrow> durable \<Rightarrow> durable result" where
  "run_call L env (CallFailure b cls m now) f = map_sum id snd (record_failure L env f b cls m now)"
| "run_call L env (CallSuccess b) f = map_sum id snd (record_success L f b)"
| "run_call L env (CallFinish adm outcome now) f = map_sum id snd (finish_trial L env f adm outcome now)"
| "run_call L env (CallAdmit b m c now) f = map_sum id snd (admit L env f b m c now)"
| "run_call L env (CallReset b) f = map_sum id snd (reset L f b)"

text \<open>\<open>call_update c k old new\<close>: the call \<open>c\<close> may replace the state \<open>old\<close> under the key \<open>k\<close> by \<open>new\<close>.\<close>

inductive call_update ::
    "py_lib \<Rightarrow> environment \<Rightarrow> breaker_call \<Rightarrow> string \<Rightarrow> breaker_state \<Rightarrow> breaker_state \<Rightarrow> bool"
  for L env where
  checkpoint: "call_update L env (CallFailure b ''checkpoint'' m now) b old (checkpoint_step old)"
| configuration: "settings L env = (t, c, bad) \<Longrightarrow>
    call_update L env (CallFailure b ''configuration'' m now) (configuration_key b m) old
      (failure_step t bad Configuration now old)"
| transport: "settings L env = (t, c, bad) \<Longrightarrow>
    call_update L env (CallFailure b ''transport'' m now) b old (failure_step t bad Transport now old)"
| success: "call_update L env (CallSuccess b) b old (success_step old)"
| healthy: "breaker_key adm = Some k \<Longrightarrow> \<not> in_str config_mark k \<Longrightarrow> fault old \<noteq> Some Configuration \<Longrightarrow>
    call_update L env (CallFinish adm outcome now) k old (healthy_step outcome old)"
| late: "breaker_key adm = Some k \<Longrightarrow> \<not> in_str config_mark k \<Longrightarrow> fault old \<noteq> Some Configuration \<Longrightarrow>
    settings L env = (t, c, bad) \<Longrightarrow> trial_state adm = Some trial \<Longrightarrow> \<not> same_lease old trial \<Longrightarrow>
    call_update L env (CallFinish adm ''transport'' now) k old (late_transport_step t bad now old)"
| release: "breaker_key adm = Some k \<Longrightarrow> \<not> in_str config_mark k \<Longrightarrow> fault old \<noteq> Some Configuration \<Longrightarrow>
    trial_state adm = Some trial \<Longrightarrow> same_lease old trial \<Longrightarrow>
    call_update L env (CallFinish adm outcome now) k old (release_step outcome now old)"
| arm: "phase old \<noteq> Closed \<Longrightarrow>
    call_update L env (CallAdmit b m caller now) b old (half_open_state L old now caller)"

inductive_cases call_updateE: "call_update L env c k old new"

definition updated :: "py_lib \<Rightarrow> durable \<Rightarrow> string \<Rightarrow> breaker_state \<Rightarrow> breaker_state \<Rightarrow> durable \<Rightarrow> bool" where
  "updated L f k old new f' \<longleftrightarrow> view_state L f k = Inr old \<and> store_state f k new = Inr f'"

lemma updatedI:
  "read_data f = Inr data \<Longrightarrow> load_state L data k = Inr old \<Longrightarrow> f' = write_data (put_state k new data) \<Longrightarrow>
    updated L f k old new f'"
  by (simp add: updated_def view_state_def store_state_def)

lemma outcome_step_update:
  assumes "outcome_step t bad cls now old = Inr (Some new)" and "settings L env = (t, c, bad)"
  shows "call_update L env (CallFailure b cls m now) (failure_key b cls m) old new"
  using assms
  by (auto simp: outcome_step_def failure_key_def split: if_splits intro: call_update.intros)

lemma outcome_step_None: "outcome_step t bad cls now old = Inr None \<longleftrightarrow> cls = ''neutral''"
  by (simp add: outcome_step_def)

lemma record_failure_effect:
  assumes "record_failure L env f b cls m now = Inr (s, f')"
  shows "f' = f \<and> cls = ''neutral'' \<or>
    (\<exists>k old. call_update L env (CallFailure b cls m now) k old s \<and> updated L f k old s f')"
proof -
  obtain t c bad where set: "settings L env = (t, c, bad)" by (cases "settings L env")
  let ?k = "failure_key b cls m"
  obtain data old r where d: "read_data f = Inr data" "load_state L data ?k = Inr old"
    and r: "outcome_step t bad cls now old = Inr r"
    and res: "(s, f') = (case r of None \<Rightarrow> (old, f) | Some new \<Rightarrow> (new, write_data (put_state ?k new data)))"
    using assms set by (auto simp: record_failure_def bind_result_Inr_iff)
  show ?thesis
  proof (cases r)
    case None
    then show ?thesis using res r by (simp add: outcome_step_None)
  next
    case (Some new)
    then have s: "s = new" and f: "f' = write_data (put_state ?k new data)" using res by auto
    show ?thesis
      unfolding s using updatedI [OF d f] outcome_step_update [OF r [unfolded Some] set] by blast
  qed
qed

lemma record_success_effect:
  assumes "record_success L f b = Inr (s, f')"
  shows "\<exists>old. call_update L env (CallSuccess b) b old s \<and> updated L f b old s f'"
proof -
  obtain data old where d: "read_data f = Inr data" "load_state L data b = Inr old"
    and s: "s = success_step old" and f: "f' = write_data (put_state b s data)"
    using assms by (auto simp: record_success_def bind_result_Inr_iff Let_def)
  have "updated L f b old s f'" by (rule updatedI [OF d f])
  moreover have "call_update L env (CallSuccess b) b old s" unfolding s by (rule call_update.success)
  ultimately show ?thesis by blast
qed

lemma finish_step_update:
  assumes "finish_step t bad outcome now trial old = Inr (Some new)" and "settings L env = (t, c, bad)"
    and "breaker_key adm = Some k" and "trial_state adm = Some trial"
    and "\<not> in_str config_mark k" and "fault old \<noteq> Some Configuration"
  shows "call_update L env (CallFinish adm outcome now) k old new"
proof (cases "same_lease old trial")
  case True
  then have "new = healthy_step outcome old \<or> new = release_step outcome now old"
    using assms(1) by (auto simp: finish_step_def split: if_splits)
  then show ?thesis
    using call_update.healthy [OF assms(3,5,6)] call_update.release [OF assms(3,5,6,4) True] by metis
next
  case False
  then have "new = healthy_step outcome old \<or> outcome = ''transport'' \<and> new = late_transport_step t bad now old"
    using assms(1) by (auto simp: finish_step_def split: if_splits)
  then show ?thesis
    using call_update.healthy [OF assms(3,5,6)] call_update.late [OF assms(3,5,6,2,4) False] by metis
qed

lemma finish_trial_cases:
  assumes "finish_trial L env f adm outcome now = Inr (s, f')" and set: "settings L env = (t, c, bad)"
  obtains key trial data old where "breaker_key adm = Some key" "trial_state adm = Some trial"
    "read_data f = Inr data" "load_state L data key = Inr old"
    "(in_str config_mark key \<or> fault old = Some Configuration) \<and> s = old \<and> f' = f \<or>
     \<not> in_str config_mark key \<and> fault old \<noteq> Some Configuration \<and>
      (\<exists>r. finish_step t bad outcome now trial old = Inr r \<and>
        (s, f') = (case r of None \<Rightarrow> (old, f) | Some new \<Rightarrow> (new, write_data (put_state key new data))))"
proof -
  obtain key trial where a: "breaker_key adm = Some key" "trial_state adm = Some trial"
    using assms(1) by (auto simp: finish_trial_def split: option.splits)
  obtain data old where d: "read_data f = Inr data" "load_state L data key = Inr old"
    using assms(1) a by (auto simp: finish_trial_def bind_result_Inr_iff)
  show thesis
    by (rule that [OF a d]) (use assms a d in \<open>auto simp: finish_trial_def bind_result_Inr_iff split: if_splits\<close>)
qed

lemma finish_trial_effect:
  assumes "finish_trial L env f adm outcome now = Inr (s, f')"
  shows "f' = f \<or> (\<exists>k old. call_update L env (CallFinish adm outcome now) k old s \<and> updated L f k old s f')"
proof -
  obtain t c bad where set: "settings L env = (t, c, bad)" by (cases "settings L env")
  from assms set obtain key trial data old where a: "breaker_key adm = Some key" "trial_state adm = Some trial"
    and d: "read_data f = Inr data" "load_state L data key = Inr old"
    and res: "(in_str config_mark key \<or> fault old = Some Configuration) \<and> s = old \<and> f' = f \<or>
     \<not> in_str config_mark key \<and> fault old \<noteq> Some Configuration \<and>
      (\<exists>r. finish_step t bad outcome now trial old = Inr r \<and>
        (s, f') = (case r of None \<Rightarrow> (old, f) | Some new \<Rightarrow> (new, write_data (put_state key new data))))"
    by (rule finish_trial_cases)
  show ?thesis
    using res
  proof (elim disjE conjE exE)
    fix r
    assume k: "\<not> in_str config_mark key" "fault old \<noteq> Some Configuration"
      and r: "finish_step t bad outcome now trial old = Inr r"
      and e: "(s, f') = (case r of None \<Rightarrow> (old, f) | Some new \<Rightarrow> (new, write_data (put_state key new data)))"
    show ?thesis
    proof (cases r)
      case (Some new)
      then have s: "s = new" and f: "f' = write_data (put_state key new data)" using e by auto
      show ?thesis
        unfolding s using updatedI [OF d f] finish_step_update [OF r [unfolded Some] set a k] by blast
    qed (use e in simp)
  qed blast+
qed

lemma row_verdict_Closed: "row_verdict L c now old = Healthy \<longleftrightarrow> phase old = Closed"
  by (auto simp: row_verdict_def Let_def split: phase.split option.split)

lemma refusal_Inr: "refusal k s why = Inr a \<Longrightarrow> trial_state a = None \<and> \<not> allowed a"
  by (auto simp: refusal_def bind_result_Inr_iff admission_def)

lemma admit_row_cases:
  assumes "admit_row L c f data b caller now old = Inr (a, f')"
  shows "f' = f \<and> trial_state a = None \<or>
    phase old \<noteq> Closed \<and> trial_state a = Some (half_open_state L old now caller) \<and> allowed a \<and>
       f' = write_data (put_state b (half_open_state L old now caller) data)"
proof (cases "row_verdict L c now old")
  case (Armable why why')
  then have "phase old \<noteq> Closed" using row_verdict_Closed [of L c now old] by simp
  with Armable show ?thesis using assms by (auto simp: admit_row_def armed_def Let_def admission_def)
qed (use assms in \<open>auto simp: admit_row_def bind_result_Inr_iff admission_def dest: refusal_Inr\<close>)

lemma admit_cases:
  assumes "admit L env f b m caller now = Inr (a, f')"
  shows "f' = f \<and> trial_state a = None \<or>
    (\<exists>data old. read_data f = Inr data \<and> load_state L data b = Inr old \<and> phase old \<noteq> Closed \<and>
       trial_state a = Some (half_open_state L old now caller) \<and> allowed a \<and>
       f' = write_data (put_state b (half_open_state L old now caller) data))"
proof -
  obtain t c bad where set: "settings L env = (t, c, bad)" by (cases "settings L env")
  show ?thesis
  proof (cases bad)
    case True
    then show ?thesis using assms set by (auto simp: admit_def admission_def)
  next
    case False
    then obtain data latch where data: "read_data f = Inr data"
      and latch: "first_open_configuration L data (Some b) m = Inr latch"
      using assms set by (auto simp: admit_def bind_result_Inr_iff)
    show ?thesis
    proof (cases latch)
      case None
      then obtain old where "load_state L data b = Inr old" "admit_row L c f data b caller now old = Inr (a, f')"
        using assms set False data latch by (auto simp: admit_def bind_result_Inr_iff)
      then show ?thesis using admit_row_cases data by blast
    next
      case (Some ks)
      obtain key s0 where ks: "ks = (key, s0)" by (cases ks)
      obtain a0 where "refusal key s0 ''configuration breaker requires operator reset'' = Inr a0" "a = a0" "f' = f"
        using assms set False data latch Some ks by (auto simp: admit_def bind_result_Inr_iff)
      then show ?thesis using refusal_Inr by simp
    qed
  qed
qed

lemma admit_effect:
  assumes "admit L env f b m caller now = Inr (a, f')"
  shows "f' = f \<and> trial_state a = None \<or>
    (\<exists>old new. trial_state a = Some new \<and> allowed a \<and>
       call_update L env (CallAdmit b m caller now) b old new \<and> updated L f b old new f')"
proof (cases "f' = f \<and> trial_state a = None")
  case False
  then obtain data old where d: "read_data f = Inr data" "load_state L data b = Inr old" and p: "phase old \<noteq> Closed"
    and a: "trial_state a = Some (half_open_state L old now caller)" "allowed a"
    and f: "f' = write_data (put_state b (half_open_state L old now caller) data)"
    using admit_cases [OF assms] by blast
  have "updated L f b old (half_open_state L old now caller) f'" by (rule updatedI [OF d f])
  moreover have "call_update L env (CallAdmit b m caller now) b old (half_open_state L old now caller)"
    by (rule call_update.arm [OF p])
  ultimately show ?thesis using a by blast
qed simp

lemma run_call_effect:
  assumes "run_call L env c f = Inr f'" and "\<And>b. c \<noteq> CallReset b"
  shows "f' = f \<or> (\<exists>k old new. call_update L env c k old new \<and> updated L f k old new f')"
proof (cases c)
  case (CallFailure b cls m now)
  then obtain s where "record_failure L env f b cls m now = Inr (s, f')"
    using assms(1) by (auto simp: map_sum_Inr_iff)
  then show ?thesis using record_failure_effect CallFailure by blast
next
  case (CallSuccess b)
  then obtain s where "record_success L f b = Inr (s, f')" using assms(1) by (auto simp: map_sum_Inr_iff)
  then show ?thesis using record_success_effect CallSuccess by blast
next
  case (CallFinish adm outcome now)
  then obtain s where "finish_trial L env f adm outcome now = Inr (s, f')"
    using assms(1) by (auto simp: map_sum_Inr_iff)
  then show ?thesis using finish_trial_effect CallFinish by blast
next
  case (CallAdmit b m caller now)
  then obtain a where "admit L env f b m caller now = Inr (a, f')" using assms(1) by (auto simp: map_sum_Inr_iff)
  then show ?thesis using admit_effect CallAdmit by blast
next
  case (CallReset b)
  then show ?thesis using assms(2) by blast
qed

section \<open>Invariants of every call\<close>

lemma wf_checkpoint_set: "0 \<le> c \<Longrightarrow> wf_state s \<Longrightarrow> wf_state (s\<lparr>checkpoint_count := c\<rparr>)"
  by (simp add: wf_state_def)

lemma wf_healthy_step: "wf_state old \<Longrightarrow> wf_state (healthy_step outcome old)"
  unfolding healthy_step_def by (rule wf_checkpoint_set) (auto dest: wf_counts)

lemma wf_success_step: "wf_state old \<Longrightarrow> wf_state (success_step old)"
  unfolding success_step_def by (rule wf_checkpoint_set) (auto dest: wf_counts)

lemma wf_checkpoint_step: "wf_state old \<Longrightarrow> wf_state (checkpoint_step old)"
  unfolding checkpoint_step_def by (rule wf_checkpoint_set) (auto dest: wf_counts)

lemma wf_failure_step: "wf_state old \<Longrightarrow> wf_state (failure_step t bad cls now old)"
  unfolding failure_step_def
  by (rule wf_checkpoint_set; drule wf_counts) (auto simp: configuration_threshold_def Let_def split: fault.split)

lemma wf_late_step: "wf_state old \<Longrightarrow> wf_state (late_transport_step t bad now old)"
  unfolding late_transport_step_def
  by (rule wf_checkpoint_set) (auto simp: Let_def wf_state_def plain_state_def plain_text_def)

lemma wf_release_step: "wf_state old \<Longrightarrow> wf_state (release_step outcome now old)"
  unfolding release_step_def by (rule wf_checkpoint_set; drule wf_counts) auto

lemma wf_half_open: "wf_state old \<Longrightarrow> wf_state (half_open_state L old now caller)"
  by (auto simp: half_open_state_def wf_state_def trial_owner_def Let_def)

lemmas wf_steps [wf_intros] =
  wf_healthy_step wf_success_step wf_checkpoint_step wf_failure_step wf_late_step wf_release_step wf_half_open

lemma call_update_wf: "call_update L env c k old new \<Longrightarrow> wf_state old \<Longrightarrow> wf_state new"
  by (induction rule: call_update.induct) (auto intro: wf_intros)

lemma updated_view:
  assumes "updated L f k old new f'" and "wf_state old \<Longrightarrow> wf_state new"
  shows "view_state L f' k' = (if k' = k then Inr new else view_state L f k')"
proof -
  have "wf_state new"
    using assms breaker_store.look_good by (auto simp: updated_def)
  then show ?thesis using assms(1) breaker_store.look_put unfolding updated_def by blast
qed

text \<open>A call is a step; one that raises leaves the file alone.\<close>

inductive breaker_step :: "py_lib \<Rightarrow> environment \<Rightarrow> breaker_call \<Rightarrow> durable \<Rightarrow> durable \<Rightarrow> bool" for L env where
  returns: "run_call L env c f = Inr f' \<Longrightarrow> breaker_step L env c f f'"
| raises: "run_call L env c f = Inl e \<Longrightarrow> breaker_step L env c f f"

inductive breaker_run :: "py_lib \<Rightarrow> environment \<Rightarrow> breaker_call list \<Rightarrow> durable \<Rightarrow> durable \<Rightarrow> bool" for L env where
  stop: "breaker_run L env [] f f"
| step: "breaker_step L env c f f' \<Longrightarrow> breaker_run L env cs f' f'' \<Longrightarrow> breaker_run L env (c # cs) f f''"

inductive_cases breaker_stepE: "breaker_step L env c f f'"

lemma breaker_step_effect:
  assumes "breaker_step L env c f f'" and "\<And>b. c \<noteq> CallReset b"
  shows "f' = f \<or> (\<exists>k old new. call_update L env c k old new \<and> updated L f k old new f')"
  using assms(1)
proof (cases rule: breaker_step.cases)
  case returns
  then show ?thesis using run_call_effect assms(2) by blast
qed simp

text \<open>A call other than a reset changes one key at most, by an update of its own.\<close>

lemma breaker_step_view:
  assumes step: "breaker_step L env c f f'" and nr: "\<And>b. c \<noteq> CallReset b"
  shows "view_state L f' k = view_state L f k \<or>
    (\<exists>old new. call_update L env c k old new \<and> view_state L f k = Inr old \<and> view_state L f' k = Inr new)"
  using breaker_step_effect [OF step nr]
proof (elim disjE exE conjE)
  fix k0 old new
  assume u: "call_update L env c k0 old new" "updated L f k0 old new f'"
  have v: "view_state L f' k = (if k = k0 then Inr new else view_state L f k)"
    by (rule updated_view [OF u(2) call_update_wf [OF u(1)]])
  show ?thesis
  proof (cases "k = k0")
    case True
    then show ?thesis using u v by (auto simp: updated_def)
  qed (use v in simp)
qed simp

lemma checkpoint_count_steps [simp]:
  "checkpoint_count (success_step s) = checkpoint_count s"
  "checkpoint_count (failure_step t bad cls now s) = checkpoint_count s"
  "checkpoint_count (late_transport_step t bad now s) = checkpoint_count s"
  "checkpoint_count (release_step outcome now s) = checkpoint_count s"
  "checkpoint_count (half_open_state L s now caller) = checkpoint_count s"
  "checkpoint_count (checkpoint_step s) = checkpoint_count s + 1"
  by (simp_all add: success_step_def failure_step_def late_transport_step_def release_step_def
      half_open_state_def checkpoint_step_def Let_def split: prod.split)

lemma call_update_checkpoint: "call_update L env c k old new \<Longrightarrow> checkpoint_count old \<le> checkpoint_count new"
  by (induction rule: call_update.induct) (simp_all add: healthy_step_def)

lemma breaker_run_checkpoint:
  assumes "breaker_run L env cs f f'" and "\<forall>c \<in> set cs. \<forall>b. c \<noteq> CallReset b"
    and "view_state L f k = Inr s"
  shows "\<exists>s'. view_state L f' k = Inr s' \<and> checkpoint_count s \<le> checkpoint_count s'"
  using assms
proof (induction arbitrary: s rule: breaker_run.induct)
  case (step c f f1 cs f2)
  obtain s1 where s1: "view_state L f1 k = Inr s1" "checkpoint_count s \<le> checkpoint_count s1"
    using breaker_step_view [OF step.hyps(1), of k] step.prems call_update_checkpoint by fastforce
  then show ?case using step.IH [of s1] step.prems by fastforce
qed simp

section \<open>A configuration latch stays until a reset\<close>

definition is_latch :: "breaker_state \<Rightarrow> bool" where
  "is_latch s \<longleftrightarrow> phase s = Opened \<and> fault s = Some Configuration"

text \<open>The calls of backends whose ids do not contain the separator of the latch keys.\<close>

fun plain_call :: "breaker_call \<Rightarrow> bool" where
  "plain_call (CallFailure b cls m now) = (\<not> in_str config_mark b)"
| "plain_call (CallSuccess b) = (\<not> in_str config_mark b)"
| "plain_call (CallFinish adm outcome now) = True"
| "plain_call (CallAdmit b m caller now) = (\<not> in_str config_mark b)"
| "plain_call (CallReset b) = False"

lemma failure_step_latch: "is_latch (failure_step t bad Configuration now old)"
  by (simp add: is_latch_def failure_step_def plain_state_def)

lemma call_update_latch:
  "call_update L env c k old new \<Longrightarrow> plain_call c \<Longrightarrow> in_str config_mark k \<Longrightarrow> is_latch new"
  by (induction rule: call_update.induct) (auto simp: failure_step_latch)

lemma scoped_key_marked:
  "norm_text m \<noteq> [] \<Longrightarrow> in_str config_mark (configuration_key b m)"
  by (auto simp: configuration_key_def in_str_iff)

lemma latch_sticky:
  assumes "breaker_run L env cs f f'" and "\<forall>c \<in> set cs. plain_call c" and "in_str config_mark k"
    and "\<exists>s. view_state L f k = Inr s \<and> is_latch s"
  shows "\<exists>s. view_state L f' k = Inr s \<and> is_latch s"
  using assms
proof (induction rule: breaker_run.induct)
  case (step c f f1 cs f2)
  have "c \<noteq> CallReset b" for b using step.prems(1) by auto
  then have "\<exists>s. view_state L f1 k = Inr s \<and> is_latch s"
    using breaker_step_view [OF step.hyps(1), of k] call_update_latch step.prems by fastforce
  then show ?case using step.IH step.prems by simp
qed simp

text \<open>An open latch for a backend and a model refuses every admission of the pair.\<close>

lemma first_latch_head:
  "load_state L data k = Inr s \<Longrightarrow> is_latch s \<Longrightarrow> k \<notin> seen \<Longrightarrow> first_latch L data seen (k # ks) = Inr (Some (k, s))"
  by (simp add: is_latch_def)

lemma first_open_configuration_latched:
  assumes m: "norm_text m \<noteq> []" and b: "py_strip b = b" "b \<noteq> []"
    and l: "load_state L data (configuration_key b m) = Inr s" "is_latch s"
  shows "first_open_configuration L data (Some b) m = Inr (Some (configuration_key b m, s))"
proof -
  have nb: "norm_text (Some b) = b" using b by (simp add: norm_text_def)
  have "configuration_key b (Some (norm_text m)) = configuration_key b m"
    using strip_idem [of "the m"] by (cases m) (auto simp: configuration_key_def norm_text_def py_strip_def)
  then show ?thesis
    using m b first_latch_head [OF l, of "{}"] unfolding first_open_configuration_def nb
    by (simp add: Let_def)
qed

lemma latched_admit_refused:
  assumes m: "norm_text m \<noteq> []" and b: "py_strip b = b" "b \<noteq> []"
    and v: "view_state L f (configuration_key b m) = Inr s" "is_latch s"
    and a: "admit L env f b m caller now = Inr (a, f')"
  shows "\<not> allowed a \<and> f' = f"
proof -
  obtain data where d: "read_data f = Inr data" "load_state L data (configuration_key b m) = Inr s"
    using v(1) by (auto simp: view_state_def bind_result_Inr_iff)
  obtain t c bad where set: "settings L env = (t, c, bad)" by (cases "settings L env")
  show ?thesis
  proof (cases bad)
    case True
    then show ?thesis using a set by (auto simp: admit_def admission_def)
  next
    case False
    then have "\<exists>a0. refusal (configuration_key b m) s ''configuration breaker requires operator reset'' = Inr a0 \<and>
        a = a0 \<and> f' = f"
      using a set d first_open_configuration_latched [OF m b d(2) v(2)]
      by (auto simp: admit_def bind_result_Inr_iff)
    then show ?thesis using refusal_Inr by blast
  qed
qed

end
