(* ===== verification/BreakerTrials.thy ===== *)
theory BreakerTrials
  imports BreakerLaws
begin

text \<open>
  Counting to the threshold, half-open trials, \<open>inspect\<close> against \<open>admit\<close>, and what a
  reset leaves.
\<close>

section \<open>Transport failures count per backend\<close>

lemma record_transport_modify:
  assumes "settings L env = (t, c, bad)"
  shows "run_call L env (CallFailure b ''transport'' m now) f =
    modify (view_state L) store_state b (failure_step t bad Transport now) f"
  using assms
  by (cases "read_data f"; cases "load_state L (projr (read_data f)) b")
     (simp_all add: modify_store record_failure_def failure_key_def outcome_step_def)

text \<open>Transport failures of several backends, in the order they are recorded.\<close>

fun record_transports :: "py_lib \<Rightarrow> environment \<Rightarrow> (string \<times> pyfloat) list \<Rightarrow> durable \<Rightarrow> durable result" where
  "record_transports L env [] f = Inr f"
| "record_transports L env ((b, now) # rest) f =
     bind_result (run_call L env (CallFailure b ''transport'' None now) f) (record_transports L env rest)"

lemma record_transports_modify:
  assumes "settings L env = (t, c, bad)"
  shows "record_transports L env es f =
    modify_all (view_state L) store_state (map (\<lambda>(b, now). (b, failure_step t bad Transport now)) es) f"
proof (induction es arbitrary: f)
  case (Cons e es)
  have "record_transports L env es =
      modify_all (view_state L) store_state (map (\<lambda>(b, now). (b, failure_step t bad Transport now)) es)"
    by (rule ext) (rule Cons.IH)
  then show ?case
    by (cases e) (simp add: record_transport_modify [OF assms] del: run_call.simps)
qed simp

definition counted :: "int \<Rightarrow> int \<Rightarrow> breaker_state \<Rightarrow> bool" where
  "counted t n s \<longleftrightarrow> fault s = Some Transport \<and> failure_count s = n \<and> phase s = (if t \<le> n then Opened else Closed)"

lemma failure_step_first:
  "phase s = Closed \<Longrightarrow> fault s \<noteq> Some Transport \<Longrightarrow> 1 \<le> t \<Longrightarrow> counted t 1 (failure_step t False Transport now s)"
  by (auto simp: counted_def failure_step_def plain_state_def Let_def)

lemma failure_step_next:
  "counted t n s \<Longrightarrow> counted t (n + 1) (failure_step t False Transport now s)"
  by (auto simp: counted_def failure_step_def plain_state_def Let_def)

lemma fold_failures:
  "counted t n s \<Longrightarrow> counted t (n + int (length es)) (fold (\<lambda>(_, now). failure_step t False Transport now) es s)"
proof (induction es arbitrary: s n)
  case (Cons e es)
  obtain b now where e: "e = (b, now)" by (cases e)
  have "counted t ((n + 1) + int (length es)) (fold (\<lambda>(_, now). failure_step t False Transport now) es
      (failure_step t False Transport now s))"
    by (rule Cons.IH [OF failure_step_next [OF Cons.prems]])
  then show ?case by (simp add: e add.assoc)
qed simp

lemma filter_map_steps:
  "filter (\<lambda>(k, _). k = b) (map (\<lambda>(b, now). (b, g now)) es) = map (\<lambda>(b, now). (b, g now)) (filter (\<lambda>(k, _). k = b) es)"
  by (induction es) auto

lemma transport_threshold_reached:
  assumes set: "settings L env = (t, c, False)" "1 \<le> t"
    and fresh: "view_state L f b = Inr s" "phase s = Closed" "fault s \<noteq> Some Transport"
    and run: "record_transports L env es f = Inr f'"
    and n: "n = length (filter (\<lambda>(k, _). k = b) es)" "n \<noteq> 0"
  shows "\<exists>s'. view_state L f' b = Inr s' \<and> failure_count s' = int n \<and>
    phase s' = (if t \<le> int n then Opened else Closed)"
proof -
  let ?g = "\<lambda>now. failure_step t False Transport now"
  let ?mine = "filter (\<lambda>(k, _). k = b) es"
  have wf: "\<forall>(k, g) \<in> set (map (\<lambda>(b, now). (b, ?g now)) es). \<forall>s. wf_state s \<longrightarrow> wf_state (g s)"
    by (auto intro: wf_intros)
  have "view_state L f' b = map_sum id (fold (\<lambda>(_, g). g) (map (\<lambda>(b, now). (b, ?g now)) ?mine)) (Inr s)"
    using breaker_store.modify_all_look [OF run [unfolded record_transports_modify [OF set(1)]] wf, of b]
    unfolding filter_map_steps fresh(1) .
  moreover have "(\<lambda>(_, g). g) \<circ> (\<lambda>(b :: string, now). (b, ?g now)) = (\<lambda>(_, now). ?g now)" by auto
  ultimately have v: "view_state L f' b = Inr (fold (\<lambda>(_, now). ?g now) ?mine s)"
    by (simp add: fold_map)
  obtain e rest where e: "?mine = e # rest" using n by (cases ?mine) auto
  have "counted t (1 + int (length rest)) (fold (\<lambda>(_, now). ?g now) rest (?g (snd e) s))"
    by (rule fold_failures [OF failure_step_first]) (use fresh set in auto)
  then show ?thesis
    using v e n by (simp add: counted_def case_prod_beta)
qed

text \<open>Recording never fails on a store whose rows can all be read.\<close>

lemma record_transports_total:
  assumes "settings L env = (t, c, bad)" and "\<forall>(b, _) \<in> set es. \<exists>s. view_state L f b = Inr s"
  shows "\<exists>f'. record_transports L env es f = Inr f'"
  unfolding record_transports_modify [OF assms(1)]
  by (rule breaker_store.modify_all_Inr) (use assms(2) in \<open>auto intro: wf_intros\<close>)

section \<open>One half-open trial at a time\<close>

lemma half_open_state_fields [simp]:
  "phase (half_open_state L old now caller) = HalfOpen"
  "trial_in_progress (half_open_state L old now caller)"
  "trial_started_at (half_open_state L old now caller) = Some now"
  "failure_count (half_open_state L old now caller) = failure_count old"
  "opened_at (half_open_state L old now caller) = opened_at old"
  by (simp_all add: half_open_state_def Let_def split: prod.split)

lemma armed_trial_view:
  assumes "admit L env f b m caller now = Inr (a, f')" and "trial_state a = Some new"
  shows "view_state L f' b = Inr new \<and> phase new = HalfOpen \<and> trial_started_at new = Some now \<and> allowed a"
proof -
  obtain data old where d: "read_data f = Inr data" "load_state L data b = Inr old"
    and new: "new = half_open_state L old now caller" and f: "f' = write_data (put_state b new data)" and a: "allowed a"
    using admit_cases [OF assms(1)] assms(2) by auto
  have "wf_state new" unfolding new by (rule wf_half_open [OF load_state_wf [OF d(2)]])
  then show ?thesis using read_data_rows [OF d(1)] by (simp add: f a load_put) (simp add: new)
qed

lemma admit_holding:
  assumes v: "view_state L f b = Inr s" and hold: "row_verdict L c now s = Holding why"
    and set: "settings L env = (t, c, bad)" and a: "admit L env f b m caller now = Inr (a, f')"
  shows "\<not> allowed a \<and> f' = f"
proof -
  obtain data where d: "read_data f = Inr data" "load_state L data b = Inr s"
    using v by (auto simp: view_state_def bind_result_Inr_iff)
  show ?thesis
  proof (cases bad)
    case True
    then show ?thesis using a set by (auto simp: admit_def admission_def)
  next
    case False
    then obtain latch where l: "first_open_configuration L data (Some b) m = Inr latch"
      using a set d by (auto simp: admit_def bind_result_Inr_iff)
    show ?thesis
    proof (cases latch)
      case None
      then have "refusal b s why = Inr a \<and> f' = f"
        using a set d l False hold by (auto simp: admit_def admit_row_def bind_result_Inr_iff)
      then show ?thesis using refusal_Inr by blast
    next
      case (Some ks)
      obtain key old where "ks = (key, old)" by (cases ks)
      then have "refusal key old ''configuration breaker requires operator reset'' = Inr a \<and> f' = f"
        using a set d l False Some by (auto simp: admit_def bind_result_Inr_iff)
      then show ?thesis using refusal_Inr by blast
    qed
  qed
qed

lemma trial_exclusive:
  assumes "admit L env f b m caller now = Inr (a, f')" and "trial_state a = Some new"
    and "settings L env = (t, c, bad)" and "float_pos (remaining_cooldown c now now')"
    and "admit L env f' b m' caller' now' = Inr (a', f'')"
  shows "\<not> allowed a' \<and> f'' = f'"
proof -
  have v: "view_state L f' b = Inr new" "phase new = HalfOpen" "trial_started_at new = Some now"
    using armed_trial_view [OF assms(1,2)] by auto
  have "\<exists>why. row_verdict L c now' new = Holding why"
    using v assms(4) by (simp add: row_verdict_def Let_def)
  then show ?thesis using admit_holding [OF v(1) _ assms(3,5)] by blast
qed

text \<open>A trial that finishes late cannot take the lease of the current one away.\<close>

lemma late_finish_keeps_lease:
  assumes fin: "finish_trial L env f adm outcome now = Inr (s, f')"
    and k: "breaker_key adm = Some k" "trial_state adm = Some trial"
    and v: "view_state L f k = Inr old"
    and live: "phase old = HalfOpen" "trial_in_progress old" "trial_started_at old \<noteq> None"
    and other: "\<not> same_lease old trial" and out: "outcome = ''neutral'' \<or> outcome = ''transport''"
  shows "view_state L f' k = Inr s \<and> same_lease s = same_lease old \<and> opened_at s = opened_at old"
proof -
  obtain t c bad where set: "settings L env = (t, c, bad)" by (cases "settings L env")
  obtain data where d: "read_data f = Inr data" "load_state L data k = Inr old"
    using v by (auto simp: view_state_def bind_result_Inr_iff)
  consider "s = old" "f' = f" | "s = late_transport_step t bad now old" "f' = write_data (put_state k s data)"
    using fin set k d other out
    by (auto simp: finish_trial_def bind_result_Inr_iff finish_step_def split: if_splits)
  then show ?thesis
  proof cases
    case 1
    then show ?thesis using v by simp
  next
    case 2
    have "wf_state s" unfolding 2(1) by (rule wf_late_step [OF load_state_wf [OF d(2)]])
    then have "view_state L f' k = Inr s" using 2(2) read_data_rows [OF d(1)] by (simp add: load_put)
    moreover have "same_lease s = same_lease old \<and> opened_at s = opened_at old"
      using live unfolding 2(1) by (simp add: late_transport_step_def fun_eq_iff same_lease_def)
    ultimately show ?thesis by simp
  qed
qed

section \<open>\<open>inspect\<close> foretells \<open>admit\<close>\<close>

lemma inspect_admit:
  assumes b: "py_strip b = b" "b \<noteq> []"
    and i: "inspect L env f (Some b) m now = Inr i"
    and a: "admit L env f b m caller now = Inr (a, f')"
  shows "allowed a \<longleftrightarrow> allowed i \<or> trial_armable i"
proof -
  obtain t c bad where set: "settings L env = (t, c, bad)" by (cases "settings L env")
  have nb: "norm_text (Some b) = b" using b by (simp add: norm_text_def)
  show ?thesis
  proof (cases bad)
    case True
    then show ?thesis using a i set by (auto simp: admit_def inspect_def admission_def)
  next
    case False
    then obtain data latch where d: "read_data f = Inr data"
      and l: "first_open_configuration L data (Some b) m = Inr latch"
      using a set by (auto simp: admit_def bind_result_Inr_iff)
    show ?thesis
    proof (cases latch)
      case None
      then obtain old where "admit_row L c f data b caller now old = Inr (a, f')" "i = inspect_row L c now old"
        using a i set False d l nb b(2) by (auto simp: admit_def inspect_def bind_result_Inr_iff)
      then show ?thesis
        by (cases "row_verdict L c now old")
           (auto simp: admit_row_def inspect_row_def bind_result_Inr_iff admission_def armed_def Let_def
             dest: refusal_Inr)
    next
      case (Some ks)
      obtain key s where ks: "ks = (key, s)" by (cases ks)
      have "\<not> allowed i \<and> \<not> trial_armable i"
        using i set False d l Some ks by (auto simp: inspect_def admission_def)
      moreover have "\<exists>a0. refusal key s ''configuration breaker requires operator reset'' = Inr a0 \<and> a = a0"
        using a set False d l Some ks by (auto simp: admit_def bind_result_Inr_iff)
      ultimately show ?thesis using refusal_Inr by blast
    qed
  qed
qed

section \<open>Reset\<close>

lemma pop_rows_lookup:
  "pop_rows L ks data = Inr left \<Longrightarrow> map_of left k = (if k \<in> set ks then None else map_of data k)"
  by (induction ks arbitrary: data) (auto simp: bind_result_Inr_iff delete_conv')

lemma rows_ok_delete: "rows_ok data \<Longrightarrow> rows_ok (AList.delete k data)"
  by (simp add: rows_ok_def AList.delete_eq)

lemma pop_rows_rows: "pop_rows L ks data = Inr left \<Longrightarrow> rows_ok data \<Longrightarrow> rows_ok left"
  by (induction ks arbitrary: data) (auto simp: bind_result_Inr_iff rows_ok_delete)

lemma reset_view:
  assumes "reset L f b = Inr (ts, f')" and "b \<noteq> ''all''" "b \<noteq> ''*''"
  shows "view_state L f' k =
    (if k = b \<or> starts_with k (b @ config_mark) then Inr closed_state else view_state L f k)"
proof -
  obtain data left where d: "read_data f = Inr data" and left: "pop_rows L (reset_targets data b) data = Inr left"
    and f: "f' = (if reset_targets data b = [] then f else write_data left)"
    using assms(1) by (auto simp: reset_def bind_result_Inr_iff Let_def)
  have v: "view_state L f' k = load_state L left k"
  proof (cases "reset_targets data b = []")
    case True
    then show ?thesis using f left d by (simp add: view_state_def)
  next
    case False
    then show ?thesis using f pop_rows_rows [OF left read_data_rows [OF d]] by simp
  qed
  have "map_of data k = None" if "k \<notin> set (reset_targets data b)" "k = b \<or> starts_with k (b @ config_mark)"
    using that assms(2,3) by (force simp: reset_targets_def map_of_eq_None_iff)
  then have "map_of left k = (if k = b \<or> starts_with k (b @ config_mark) then None else map_of data k)"
    using pop_rows_lookup [OF left, of k] assms(2,3) by (auto simp: reset_targets_def)
  then show ?thesis
    using v d by (simp add: load_state_def view_state_def coerce_state_def)
qed

lemma closed_no_latch:
  "\<forall>k \<in> set ks. load_state L data k = Inr closed_state \<Longrightarrow> first_latch L data seen ks = Inr None"
  by (induction ks arbitrary: seen) (auto simp: closed_state_def plain_state_def)

lemma reset_admits:
  assumes r: "reset L f b = Inr (ts, f')" and b: "py_strip b = b" "b \<noteq> []" "b \<noteq> ''all''" "b \<noteq> ''*''"
    and set: "settings L env = (t, c, False)"
  shows "\<exists>a. admit L env f' b m caller now = Inr (a, f') \<and> allowed a"
proof -
  obtain s where "view_state L f' b = Inr s"
    using reset_view [OF r b(3,4), of b] by simp
  then obtain data where d: "read_data f' = Inr data" by (auto simp: view_state_def bind_result_Inr_iff)
  have closed: "load_state L data k = Inr closed_state" if "k = b \<or> starts_with k (b @ config_mark)" for k
    using reset_view [OF r b(3,4), of k] that d by (simp add: view_state_def)
  have nb: "norm_text (Some b) = b" using b by (simp add: norm_text_def)
  have keys: "\<forall>k \<in> set (configuration_keys data (Some b)). load_state L data k = Inr closed_state"
    unfolding configuration_keys_def nb by (auto simp: Let_def closed)
  have "load_state L data (configuration_key b m') = Inr closed_state" for m'
    by (rule closed) (auto simp: configuration_key_def starts_with_iff)
  then have "\<forall>k \<in> set (if norm_text m \<noteq> [] then [configuration_key b (Some (norm_text m)), b]
      else configuration_keys data (Some b)). load_state L data k = Inr closed_state"
    using keys closed [of b] by simp
  from closed_no_latch [OF this] have "first_open_configuration L data (Some b) m = Inr None"
    using b(2) unfolding first_open_configuration_def nb by (simp add: Let_def)
  then show ?thesis
    using set d closed [of b]
    by (simp add: admit_def admit_row_def row_verdict_def admission_def closed_state_def plain_state_def)
qed

end
