(* ===== verification/FailureClass.thy ===== *)
theory FailureClass
  imports DispatchBreaker
begin

text \<open>
  \<open>classify_failure\<close> of \<open>dispatch_breaker.py\<close>: the class a dispatch result has for the
  breaker, from its typed fields first and from its text last.  A result is a Python
  dict; a test \<open>v in {...}\<close> raises a \<open>TypeError\<close> when \<open>v\<close> cannot be hashed.
\<close>

fun py_hashable :: "pyval \<Rightarrow> bool" where
  "py_hashable (PList _) = False"
| "py_hashable (PDict _) = False"
| "py_hashable (PTuple xs) = list_all py_hashable xs"
| "py_hashable _ = True"

definition in_names :: "pyval \<Rightarrow> string list \<Rightarrow> bool result" where
  "in_names v names =
     (if \<not> py_hashable v then Inl TypeError
      else Inr (case v of PStr s \<Rightarrow> s \<in> set names | _ \<Rightarrow> False))"

definition nonblank :: "pyval \<Rightarrow> bool" where
  "nonblank v = (case v of PStr s \<Rightarrow> py_strip s \<noteq> [] | _ \<Rightarrow> False)"

section \<open>Refusal texts\<close>

text \<open>
  \<open>refusing \S+ dispatch with (a build model|retired model|model)\<close>, ignoring case: a
  run of non-blanks ends at the first blank, so the match has no choice but its start.
\<close>

definition refusal_here :: "string \<Rightarrow> bool" where
  "refusal_here s \<longleftrightarrow>
     starts_with s ''refusing '' \<and>
     (let t = drop 9 s;
          w = takeWhile (\<lambda>c. \<not> py_isspace c) t;
          r = drop (length w) t;
          u = drop 15 r
      in w \<noteq> [] \<and> starts_with r '' dispatch with '' \<and>
         (starts_with u ''a build model'' \<or> starts_with u ''retired model'' \<or> starts_with u ''model''))"

fun refusal_somewhere :: "string \<Rightarrow> bool" where
  "refusal_somewhere [] = refusal_here []"
| "refusal_somewhere (c # cs) = (refusal_here (c # cs) \<or> refusal_somewhere cs)"

definition refusal_phrases :: "string list" where
  "refusal_phrases =
     [''grok-build family refused'', ''allowed is the configured pin'', ''allowed is the curated allow-list'']"

definition is_deterministic_dispatch_refusal :: "string \<Rightarrow> bool" where
  "is_deterministic_dispatch_refusal text =
     (if py_strip text = [] then False
      else if refusal_somewhere (py_lower text) then True
      else list_ex (\<lambda>p. in_str p (py_lower text)) refusal_phrases)"

section \<open>Typed markers\<close>

definition prespawn_markers :: "string list" where
  "prespawn_markers = [''recipe_placeholder_set_empty'', ''recipe_resolver_skew'']"

fun prespawn_refusal :: "py_lib \<Rightarrow> pyval list \<Rightarrow> bool result" where
  "prespawn_refusal L [] = Inr False"
| "prespawn_refusal L (source # rest) =
     (if nonblank (py_get source ''capability_receipt_reason'') then Inr True
      else bind_result (in_names (py_get source ''preflight'') prespawn_markers) (\<lambda>marked.
        if marked then Inr True
        else if (case py_get source ''missing_fields'' of
                   PList items \<Rightarrow> list_ex (\<lambda>item. py_str L item = ''gate_host'') items
                 | _ \<Rightarrow> False) then Inr True
        else prespawn_refusal L rest))"

definition degenerate_no_attempt :: "pyval list \<Rightarrow> bool" where
  "degenerate_no_attempt sources =
     list_ex (\<lambda>source. py_get source ''outcome'' = PStr ''degenerate_no_attempt'' \<or>
                       nonblank (py_get source ''degenerate_reason'')) sources"

definition operator_stop :: "pyval list \<Rightarrow> bool" where
  "operator_stop sources = list_ex (\<lambda>source. py_get source ''operator_stop'' = PBool True) sources"

definition probe_is :: "bool \<Rightarrow> string \<Rightarrow> string \<Rightarrow> pyval \<Rightarrow> bool" where
  "probe_is ok why verdict v \<longleftrightarrow>
     is_mapping v \<and> py_get v ''ok'' = PBool ok \<and> py_get v ''reason'' = PStr why \<and>
     py_get v ''verdict'' = PStr verdict"

definition is_capacity_probe_result :: "pyval \<Rightarrow> bool" where
  "is_capacity_probe_result v \<longleftrightarrow>
     probe_is False ''probe_capacity'' ''unknown'' v \<and>
     (case py_get v ''live_probe_count'' of PInt n \<Rightarrow> 0 < n | _ \<Rightarrow> False)"

definition is_positive_probe_result :: "pyval \<Rightarrow> bool" where
  "is_positive_probe_result = probe_is True ''committed'' ''positive''"

definition is_retryable_timeout_probe_result :: "pyval \<Rightarrow> bool" where
  "is_retryable_timeout_probe_result = probe_is False ''timeout'' ''unknown''"

definition failure_classes :: "string list" where
  "failure_classes = [''configuration'', ''transport'', ''neutral'', ''checkpoint'']"

fun stamped_class :: "pyval list \<Rightarrow> string option" where
  "stamped_class [] = None"
| "stamped_class (v # vs) =
     (case v of
        PStr s \<Rightarrow> if s \<in> set failure_classes then Some s else stamped_class vs
      | _ \<Rightarrow> stamped_class vs)"

definition class_stamp :: "pyval \<Rightarrow> pyval \<Rightarrow> string option" where
  "class_stamp result raw = stamped_class [py_get result ''failure_class'', py_get raw ''failure_class'']"

definition bounded_preflight_capacity_deferral :: "pyval \<Rightarrow> pyval \<Rightarrow> bool" where
  "bounded_preflight_capacity_deferral result raw =
     (case py_get raw ''failure_reason'' of
        PStr why \<Rightarrow>
          (why = ''capability_missing'' \<or> why = ''capability_unknown'') \<and>
          class_stamp result raw = Some ''transport'' \<and>
          (let probes = concat (map (\<lambda>f. case py_lookup raw f of None \<Rightarrow> [] | Some p \<Rightarrow> [p])
                          [''writable_roots_probe'', ''workspace_write_probe''])
           in probes \<noteq> [] \<and>
              list_all (\<lambda>p. is_capacity_probe_result p \<or> is_positive_probe_result p \<or>
                            is_retryable_timeout_probe_result p) probes \<and>
              list_ex is_capacity_probe_result probes)
      | _ \<Rightarrow> False)"

section \<open>The classification\<close>

definition neutral_defer_reasons :: "string list" where
  "neutral_defer_reasons =
     [''vm_lane_cap'', ''vm_memory_pressure'', ''vm_measured_saturation'', ''vm_admission_unmeasured'',
      ''same_branch_lane_active'', ''sandbox_occupied'', ''lane_scope_busy'', ''host_memory_guard'', ''unknown'']"

definition configuration_markers :: "string list" where
  "configuration_markers =
     [''resolve_effective_model'', ''allowed_models'', ''workbay-fm-08'', ''missing binary'', ''malformed backend spec'']"

definition transport_markers :: "string list" where
  "transport_markers =
     [''ssh connection failed'', ''vm unreachable'', ''wall-clock expiry'', ''wall clock expiry'', ''http 402'',
      ''out of usage'', ''rate_limited'', ''quota'', ''timed out after'', ''connection refused'']"

definition lowered :: "py_lib \<Rightarrow> pyval \<Rightarrow> string" where
  "lowered L v = py_lower (py_str L (py_or v (PStr [])))"

definition result_text :: "py_lib \<Rightarrow> pyval \<Rightarrow> string" where
  "result_text L result =
     (let blockers = (case py_get result ''blockers'' of
                        PList items \<Rightarrow> join_with '' '' (map (py_str L) items)
                      | _ \<Rightarrow> [])
      in py_lower (py_str L (py_or (py_get result ''error'') (PStr [])) @ '' '' @ blockers @ '' '' @
                   py_str L (py_or (py_get result ''outcome'') (PStr []))))"

definition text_class :: "string \<Rightarrow> string option" where
  "text_class text =
     (if is_deterministic_dispatch_refusal text \<or> list_ex (\<lambda>m. in_str m text) configuration_markers
      then Some ''configuration''
      else if list_ex (\<lambda>m. in_str m text) transport_markers then Some ''transport'' else None)"

definition raw_payload :: "pyval \<Rightarrow> pyval" where
  "raw_payload result =
     (if is_mapping (py_get result ''raw_payload'') then py_get result ''raw_payload'' else PDict [])"

definition classify_failure :: "py_lib \<Rightarrow> pyval \<Rightarrow> string option result" where
  "classify_failure L result =
     (let raw = raw_payload result;
          defer_reason = lowered L (py_get raw ''defer_reason'')
      in if py_get result ''ok'' = PBool True then Inr None
         else if py_get result ''outcome'' = PStr ''disk_headroom_refused'' then Inr None
         else if starts_with defer_reason ''residual_timeout_'' then Inr (Some ''neutral'')
         else if bounded_preflight_capacity_deferral result raw then Inr (Some ''neutral'')
         else bind_result (prespawn_refusal L [result, raw]) (\<lambda>prespawn.
           if prespawn then Inr (Some ''neutral'')
           else if degenerate_no_attempt [result, raw] then Inr (Some ''neutral'')
           else if operator_stop [result, raw] then Inr (Some ''neutral'')
           else case class_stamp result raw of
             Some c \<Rightarrow> Inr (Some c)
           | None \<Rightarrow>
               if defer_reason \<in> set neutral_defer_reasons then Inr (Some ''neutral'')
               else if lowered L (py_get raw ''resumable_reason'') = ''wall_clock_expiry''
               then Inr (Some (if py_get raw ''resumable_work'' = PBool True then ''checkpoint'' else ''transport''))
               else if py_get raw ''origin'' \<noteq> PStr ''dispatch'' then Inr None
               else Inr (text_class (result_text L result))))"

section \<open>What a class rests on\<close>

lemma stamped_class_known: "stamped_class vs = Some c \<Longrightarrow> c \<in> set failure_classes"
  by (induction vs) (auto split: pyval.splits if_splits)

lemma class_stamp_known: "class_stamp result raw = Some c \<Longrightarrow> c \<in> set failure_classes"
  unfolding class_stamp_def by (rule stamped_class_known)

declare prespawn_refusal.simps [simp del]

lemma text_class_known: "text_class t = Some c \<Longrightarrow> c \<in> set failure_classes"
  by (auto simp: text_class_def failure_classes_def split: if_splits)

lemma classify_known:
  assumes "classify_failure L result = Inr (Some c)"
  shows "c \<in> set failure_classes"
proof -
  have n: "''neutral'' \<in> set failure_classes" "''checkpoint'' \<in> set failure_classes"
    "''transport'' \<in> set failure_classes"
    by (simp_all add: failure_classes_def)
  show ?thesis
    using assms n
    by (auto simp: classify_failure_def Let_def bind_result_Inr_iff
        dest: class_stamp_known text_class_known split: if_splits option.splits)
qed

lemma classified_recorded:
  assumes "classify_failure L result = Inr (Some c)"
  shows "\<exists>r. outcome_step t bad c now old = Inr r"
  using classify_known [OF assms] by (auto simp: failure_classes_def outcome_step_def)

text \<open>A fault charged to the configuration or the transport carries none of the neutral markers.\<close>

definition charged :: "string \<Rightarrow> bool" where
  "charged c \<longleftrightarrow> c \<noteq> ''neutral''"

lemma classify_charged:
  assumes c: "classify_failure L result = Inr (Some c)" "charged c"
  defines "raw \<equiv> raw_payload result"
  shows "py_get result ''ok'' \<noteq> PBool True \<and> \<not> operator_stop [result, raw] \<and>
    \<not> degenerate_no_attempt [result, raw] \<and> prespawn_refusal L [result, raw] = Inr False \<and>
    \<not> bounded_preflight_capacity_deferral result raw"
  using assms(1,2) unfolding raw_def
  by (auto simp: classify_failure_def Let_def bind_result_Inr_iff charged_def split: if_splits)

text \<open>Text is read only for results that the dispatch layer stamped as its own.\<close>

lemma classify_text_origin:
  assumes c: "classify_failure L result = Inr (Some c)" "charged c"
    and none: "class_stamp result (raw_payload result) = None"
    and no_expiry: "lowered L (py_get (raw_payload result) ''resumable_reason'') \<noteq> ''wall_clock_expiry''"
  shows "py_get (raw_payload result) ''origin'' = PStr ''dispatch'' \<and> text_class (result_text L result) = Some c"
  using assms
  by (auto simp: classify_failure_def Let_def bind_result_Inr_iff charged_def split: if_splits)

end
