(* ===== verification/BreakerProperties.thy ===== *)
theory BreakerProperties
  imports BreakerTrials FailureClass
begin

text \<open>
  What the dispatch breaker (\<open>dispatch_breaker.py\<close>) promises: what is stored is what is read,
  a configuration latch holds until the operator resets it, transport failures open the breaker
  at the threshold, one half-open trial at a time, and which results are charged at all.
\<close>

section \<open>Running a list of calls\<close>

text \<open>A call that raises leaves the file as it was.\<close>

definition run_calls :: "py_lib \<Rightarrow> environment \<Rightarrow> breaker_call list \<Rightarrow> durable \<Rightarrow> durable" where
  "run_calls L env cs f = fold (\<lambda>c f. case run_call L env c f of Inl _ \<Rightarrow> f | Inr f' \<Rightarrow> f') cs f"

lemma run_calls_run: "breaker_run L env cs f (run_calls L env cs f)"
proof (induction cs arbitrary: f)
  case Nil
  then show ?case by (simp add: run_calls_def breaker_run.stop)
next
  case (Cons c cs)
  let ?f = "case run_call L env c f of Inl _ \<Rightarrow> f | Inr f' \<Rightarrow> f'"
  have "breaker_step L env c f ?f"
    by (cases "run_call L env c f") (simp_all add: breaker_step.intros del: run_call.simps)
  then show ?case using Cons.IH [of ?f] by (auto simp: run_calls_def intro: breaker_run.step)
qed

definition demo_lib :: py_lib where
  "demo_lib = \<lparr>float_repr = (\<lambda>_. ''1.0''), float_of_str = (\<lambda>_. None), iso_has_offset = (\<lambda>_. Some True)\<rparr>"

definition no_env :: environment where "no_env = (\<lambda>_. None)"

definition demo_caller :: trial_caller where
  "demo_caller = \<lparr>own_pid = 7, given_pid = None, given_pass_id = Some ''pass'', given_session = None\<rparr>"

definition demo_latched :: durable where
  "demo_latched = run_calls demo_lib no_env [CallFailure ''codex'' ''configuration'' (Some ''gpt'') (Finite 10)] Unreadable"

definition demo_calls :: "breaker_call list" where
  "demo_calls = [CallSuccess ''codex'', CallFailure ''codex'' ''transport'' None (Finite 20)]"

section \<open>The configuration latch\<close>

text \<open>
  C3 (safety): once a model-scoped configuration failure is latched, every later admission of
  that backend and model is refused and changes nothing, whatever failures, successes, trials
  and admissions are recorded in between, raising calls included, until a reset.
\<close>

theorem latch_refuses_until_reset:
  assumes "breaker_run L env cs f f'" and "\<forall>c \<in> set cs. plain_call c"
    and "norm_text m \<noteq> []" and "py_strip b = b" "b \<noteq> []"
    and "view_state L f (configuration_key b m) = Inr s" "is_latch s"
    and "admit L env f' b m caller now = Inr (a, f'')"
  shows "\<not> allowed a \<and> f'' = f'"
proof -
  obtain s' where "view_state L f' (configuration_key b m) = Inr s'" "is_latch s'"
    using latch_sticky [OF assms(1,2) scoped_key_marked [OF assms(3)]] assms(6,7) by blast
  then show ?thesis using latched_admit_refused assms(3-5,8) by blast
qed

theorem latch_refuses_until_reset_witness:
  "(case admit demo_lib no_env (run_calls demo_lib no_env demo_calls demo_latched) ''codex'' (Some ''gpt'') demo_caller (Finite 900) of
     Inl _ \<Rightarrow> False | Inr (a, f) \<Rightarrow> \<not> allowed a)"
proof -
  have "\<forall>c \<in> set demo_calls. plain_call c" "norm_text (Some ''gpt'') \<noteq> []" "py_strip ''codex'' = ''codex''" "''codex'' \<noteq> []"
    by code_simp+
  moreover have "case view_state demo_lib demo_latched (configuration_key ''codex'' (Some ''gpt'')) of
      Inl _ \<Rightarrow> False | Inr s \<Rightarrow> is_latch s"
    by code_simp
  then obtain s where "view_state demo_lib demo_latched (configuration_key ''codex'' (Some ''gpt'')) = Inr s" "is_latch s"
    by (auto split: sum.splits)
  moreover have "case admit demo_lib no_env (run_calls demo_lib no_env demo_calls demo_latched) ''codex'' (Some ''gpt'')
      demo_caller (Finite 900) of Inl _ \<Rightarrow> False | Inr _ \<Rightarrow> True"
    by code_simp
  then obtain a f where "admit demo_lib no_env (run_calls demo_lib no_env demo_calls demo_latched) ''codex'' (Some ''gpt'')
      demo_caller (Finite 900) = Inr (a, f)"
    by (auto split: sum.splits)
  ultimately show ?thesis using latch_refuses_until_reset [OF run_calls_run] by fastforce
qed

text \<open>
  Property (functional): a latch stored under the backend alone, for a failure without a model, is
  closed by the next recorded success of the backend, without any reset.
\<close>

theorem unscoped_latch_cleared:
  assumes "view_state L f b = Inr s" and "is_latch s"
  shows "\<exists>f'. record_success L f b = Inr (success_step s, f') \<and> view_state L f' b = Inr (success_step s) \<and>
    phase (success_step s) = Closed"
proof -
  obtain data where d: "read_data f = Inr data" "load_state L data b = Inr s"
    using assms(1) by (auto simp: view_state_def bind_result_Inr_iff)
  then have call: "record_success L f b = Inr (success_step s, write_data (put_state b (success_step s) data))"
    by (simp add: record_success_def Let_def)
  have "wf_state (success_step s)"
    using wf_counts [OF load_state_wf [OF d(2)]]
    by (simp add: success_step_def closed_state_def plain_state_def wf_state_def plain_text_def)
  then have "view_state L (write_data (put_state b (success_step s) data)) b = Inr (success_step s)"
    using read_data_rows [OF d(1)] by (simp add: load_put)
  with call show ?thesis by (simp add: success_step_def closed_state_def plain_state_def)
qed

definition demo_unscoped :: durable where
  "demo_unscoped = run_calls demo_lib no_env [CallFailure ''codex'' ''configuration'' None (Finite 10)] Unreadable"

theorem unscoped_latch_cleared_witness:
  "\<exists>s f'. is_latch s \<and> record_success demo_lib demo_unscoped ''codex'' = Inr (success_step s, f')"
proof -
  have "case view_state demo_lib demo_unscoped ''codex'' of Inl _ \<Rightarrow> False | Inr s \<Rightarrow> is_latch s" by code_simp
  then obtain s where s: "view_state demo_lib demo_unscoped ''codex'' = Inr s" "is_latch s" by (auto split: sum.splits)
  show ?thesis using unscoped_latch_cleared [OF s] s(2) by blast
qed

text \<open>
  Property (liveness): after a reset of a backend its next admission is allowed and the file stays as
  the reset left it, unless the settings are invalid.
\<close>

theorem reset_then_admitted:
  assumes r: "reset L f b = Inr (ts, f')" and b: "py_strip b = b" "b \<noteq> []" "b \<noteq> ''all''" "b \<noteq> ''*''"
    and set: "settings L env = (t, c, False)"
  shows "\<exists>a. admit L env f' b m caller now = Inr (a, f') \<and> allowed a"
  by (rule reset_admits [OF r b set])

theorem reset_then_admitted_witness:
  "\<exists>ts f' a. reset demo_lib demo_latched ''codex'' = Inr (ts, f') \<and>
     admit demo_lib no_env f' ''codex'' (Some ''gpt'') demo_caller (Finite 11) = Inr (a, f') \<and> allowed a"
proof -
  have "case reset demo_lib demo_latched ''codex'' of Inl _ \<Rightarrow> False | Inr _ \<Rightarrow> True" by code_simp
  then obtain ts f' where r: "reset demo_lib demo_latched ''codex'' = Inr (ts, f')" by (auto split: sum.splits)
  have b: "py_strip ''codex'' = ''codex''" "''codex'' \<noteq> []" "''codex'' \<noteq> ''all''" "''codex'' \<noteq> ''*''" by code_simp+
  have "settings demo_lib no_env = (3, Finite 300, False)" by code_simp
  then show ?thesis using reset_then_admitted [OF r b] r by blast
qed

section \<open>Transport failures and trials\<close>

text \<open>
  Property (functional): whatever failures of other backends are interleaved, a closed breaker counts
  exactly its own transport failures and is open once their number reaches the threshold.
\<close>

theorem opens_at_threshold:
  assumes set: "settings L env = (t, c, False)" "1 \<le> t"
    and fresh: "view_state L f b = Inr s" "phase s = Closed" "fault s \<noteq> Some Transport"
    and n: "n = length (filter (\<lambda>(k, _). k = b) es)" "n \<noteq> 0"
    and rows: "\<forall>(k, _) \<in> set es. \<exists>s. view_state L f k = Inr s"
  shows "\<exists>f' s'. record_transports L env es f = Inr f' \<and> view_state L f' b = Inr s' \<and>
    failure_count s' = int n \<and> phase s' = (if t \<le> int n then Opened else Closed)"
proof -
  obtain f' where run: "record_transports L env es f = Inr f'"
    using record_transports_total [OF set(1) rows] by blast
  show ?thesis using transport_threshold_reached [OF set fresh run n] run by blast
qed

theorem opens_at_threshold_witness:
  "\<exists>f' s'. record_transports demo_lib no_env
      [(''codex'', Finite 1), (''claude'', Finite 2), (''codex'', Finite 3), (''codex'', Finite 4)] Unreadable = Inr f' \<and>
     view_state demo_lib f' ''codex'' = Inr s' \<and> failure_count s' = 3 \<and> phase s' = Opened"
proof -
  let ?es = "[(''codex'', Finite 1), (''claude'', Finite 2), (''codex'', Finite 3), (''codex'', Finite 4)]"
  have v: "view_state demo_lib Unreadable k = Inr closed_state" for k
    by (simp add: view_state_def load_state_def coerce_state_def)
  have set: "settings demo_lib no_env = (3, Finite 300, False)" by code_simp
  have "phase closed_state = Closed" "fault closed_state \<noteq> Some Transport" by code_simp+
  from opens_at_threshold [OF set _ v this, of 3 "''codex''" ?es] v show ?thesis by auto
qed

text \<open>
  C4 (safety): while the cooldown of a trial that an admission armed has not elapsed, every other
  admission of the backend, for any model and caller, is refused and changes nothing.
\<close>

theorem one_trial_at_a_time:
  assumes "admit L env f b m caller now = Inr (a, f')" and "trial_state a = Some new"
    and "settings L env = (t, c, bad)" and "float_pos (remaining_cooldown c now now')"
    and "admit L env f' b m' caller' now' = Inr (a', f'')"
  shows "\<not> allowed a' \<and> f'' = f'"
  by (rule trial_exclusive [OF assms])

definition demo_open :: durable where
  "demo_open = run_calls demo_lib no_env (replicate 3 (CallFailure ''codex'' ''transport'' None (Finite 0))) Unreadable"

theorem one_trial_at_a_time_witness:
  "\<exists>a f'. admit demo_lib no_env demo_open ''codex'' None demo_caller (Finite 400) = Inr (a, f') \<and> allowed a \<and>
     (case admit demo_lib no_env f' ''codex'' None demo_caller (Finite 500) of
        Inl _ \<Rightarrow> False | Inr (a', f'') \<Rightarrow> \<not> allowed a' \<and> f'' = f')"
proof -
  have "case admit demo_lib no_env demo_open ''codex'' None demo_caller (Finite 400) of
      Inl _ \<Rightarrow> False | Inr (a, f') \<Rightarrow> allowed a \<and> trial_state a \<noteq> None \<and>
        \<not> isl (admit demo_lib no_env f' ''codex'' None demo_caller (Finite 500))"
    by code_simp
  then obtain a f' new where a: "admit demo_lib no_env demo_open ''codex'' None demo_caller (Finite 400) = Inr (a, f')"
      "trial_state a = Some new" and ok: "allowed a"
    and again: "\<not> isl (admit demo_lib no_env f' ''codex'' None demo_caller (Finite 500))"
    by (auto split: sum.splits)
  obtain a' f'' where a': "admit demo_lib no_env f' ''codex'' None demo_caller (Finite 500) = Inr (a', f'')"
    using again by (cases "admit demo_lib no_env f' ''codex'' None demo_caller (Finite 500)") auto
  have set: "settings demo_lib no_env = (3, Finite 300, False)" by code_simp
  have "float_pos (remaining_cooldown (Finite 300) (Finite 400) (Finite 500))" by code_simp
  from one_trial_at_a_time [OF a set this a'] show ?thesis using a(1) a' ok by auto
qed

text \<open>
  Property (invariant): a trial that finishes late, after another trial took the lease, leaves the
  current lease and the opening time as they are when it reports a neutral or transport outcome.
\<close>

theorem late_finish_harmless:
  assumes fin: "finish_trial L env f adm outcome now = Inr (s, f')"
    and k: "breaker_key adm = Some k" "trial_state adm = Some trial"
    and v: "view_state L f k = Inr old"
    and live: "phase old = HalfOpen" "trial_in_progress old" "trial_started_at old \<noteq> None"
    and other: "\<not> same_lease old trial" and out: "outcome = ''neutral'' \<or> outcome = ''transport''"
  shows "view_state L f' k = Inr s \<and> same_lease s = same_lease old \<and> opened_at s = opened_at old"
  by (rule late_finish_keeps_lease [OF fin k v live other out])

definition demo_stale :: admission where
  "demo_stale = armed ''codex'' (half_open_state demo_lib closed_state (Finite 100) demo_caller) ''trial''"

definition demo_trial :: durable where
  "demo_trial = run_calls demo_lib no_env [CallAdmit ''codex'' None demo_caller (Finite 400)] demo_open"

theorem late_finish_harmless_witness:
  "\<exists>s f'. finish_trial demo_lib no_env demo_trial demo_stale ''transport'' (Finite 450) = Inr (s, f') \<and>
     view_state demo_lib f' ''codex'' = Inr s \<and> opened_at s = Some (Finite 0)"
proof -
  let ?t = "half_open_state demo_lib closed_state (Finite 100) demo_caller"
  have "case (finish_trial demo_lib no_env demo_trial demo_stale ''transport'' (Finite 450), view_state demo_lib demo_trial ''codex'') of
      (Inr (s, f'), Inr old) \<Rightarrow> phase old = HalfOpen \<and> trial_in_progress old \<and> trial_started_at old \<noteq> None \<and>
         \<not> same_lease old ?t \<and> opened_at old = Some (Finite 0)
    | _ \<Rightarrow> False"
    by code_simp
  then obtain s f' old where fin: "finish_trial demo_lib no_env demo_trial demo_stale ''transport'' (Finite 450) = Inr (s, f')"
    and v: "view_state demo_lib demo_trial ''codex'' = Inr old"
    and live: "phase old = HalfOpen" "trial_in_progress old" "trial_started_at old \<noteq> None"
    and other: "\<not> same_lease old ?t" and op: "opened_at old = Some (Finite 0)"
    by (auto split: sum.splits prod.splits)
  have k: "breaker_key demo_stale = Some ''codex''" "trial_state demo_stale = Some ?t"
    by (simp_all add: demo_stale_def armed_def)
  from late_finish_harmless [OF fin k v live other] fin op show ?thesis by auto
qed

text \<open>
  Property (invariant): no call but a reset lowers the checkpoint count of any row, over runs of any
  length in which calls may raise.
\<close>

theorem checkpoints_never_lost:
  assumes "breaker_run L env cs f f'" and "\<forall>c \<in> set cs. \<forall>b. c \<noteq> CallReset b"
    and "view_state L f k = Inr s"
  shows "\<exists>s'. view_state L f' k = Inr s' \<and> checkpoint_count s \<le> checkpoint_count s'"
  by (rule breaker_run_checkpoint [OF assms])

theorem checkpoints_never_lost_witness:
  "\<exists>s'. view_state demo_lib (run_calls demo_lib no_env (CallFailure ''codex'' ''checkpoint'' None (Finite 9) # demo_calls) demo_open) ''codex''
     = Inr s' \<and> 0 \<le> checkpoint_count s'"
proof -
  let ?cs = "CallFailure ''codex'' ''checkpoint'' None (Finite 9) # demo_calls"
  have "\<forall>c \<in> set ?cs. \<forall>b. c \<noteq> CallReset b" by (simp add: demo_calls_def)
  moreover have "case view_state demo_lib demo_open ''codex'' of Inl _ \<Rightarrow> False | Inr s \<Rightarrow> checkpoint_count s = 0" by code_simp
  then obtain s where "view_state demo_lib demo_open ''codex'' = Inr s" "checkpoint_count s = 0" by (auto split: sum.splits)
  ultimately show ?thesis using checkpoints_never_lost [OF run_calls_run, of ?cs] by fastforce
qed

text \<open>
  Property (equivalence): the read-only inspection predicts the admission: admit allows exactly when
  inspect, at the same time and file, allows or says that a trial may be armed.
\<close>

theorem inspect_predicts_admit:
  assumes b: "py_strip b = b" "b \<noteq> []"
    and i: "inspect L env f (Some b) m now = Inr i"
    and a: "admit L env f b m caller now = Inr (a, f')"
  shows "allowed a \<longleftrightarrow> allowed i \<or> trial_armable i"
  by (rule inspect_admit [OF b i a])

theorem inspect_predicts_admit_witness:
  "\<exists>i a f'. inspect demo_lib no_env demo_open (Some ''codex'') None (Finite 400) = Inr i \<and> trial_armable i \<and>
     admit demo_lib no_env demo_open ''codex'' None demo_caller (Finite 400) = Inr (a, f') \<and> allowed a"
proof -
  have "case (inspect demo_lib no_env demo_open (Some ''codex'') None (Finite 400),
      admit demo_lib no_env demo_open ''codex'' None demo_caller (Finite 400)) of
      (Inr i, Inr _) \<Rightarrow> trial_armable i | _ \<Rightarrow> False"
    by code_simp
  then obtain i a f' where i: "inspect demo_lib no_env demo_open (Some ''codex'') None (Finite 400) = Inr i" "trial_armable i"
    and a: "admit demo_lib no_env demo_open ''codex'' None demo_caller (Finite 400) = Inr (a, f')"
    by (auto split: sum.splits prod.splits)
  have b: "py_strip ''codex'' = ''codex''" "''codex'' \<noteq> []" by code_simp+
  from inspect_predicts_admit [OF b i(1) a] i a show ?thesis by blast
qed

section \<open>The state file\<close>

text \<open>
  Property (roundtrip): a stored row is read back as the same state, every other row is unchanged, and
  every row that the reader accepts is one that can be stored this way.
\<close>

theorem stored_row_read_back:
  assumes "wf_state s" and "store_state f k s = Inr f'"
  shows "view_state L f' k' = (if k' = k then Inr s else view_state L f k') \<and>
    (\<forall>row r. coerce_state L row = Inr r \<longrightarrow> wf_state r)"
  using breaker_store.look_put [OF assms(2,1)] coerce_state_wf by blast

theorem stored_row_read_back_witness:
  "view_state demo_lib (write_data (put_state ''codex'' closed_state [])) ''codex'' = Inr closed_state"
proof -
  have "store_state NotJson ''codex'' closed_state = Inr (write_data (put_state ''codex'' closed_state []))"
    by (simp add: store_state_def)
  from stored_row_read_back [OF wf_closed this] show ?thesis by simp
qed

text \<open>
  Property (error): a stored failure count of infinity, which the JSON reader accepts, makes the
  admission of the backend raise \<open>OverflowError\<close> instead of starting from a closed breaker.
\<close>

theorem infinite_count_raises:
  assumes "read_data f = Inr data" and "map_of data b = Some (PDict kvs)"
    and "phase_of (py_str L (py_or (py_get (PDict kvs) ''state'') (PStr ''closed''))) = Some p"
    and "py_get (PDict kvs) ''failure_count'' = PFloat PosInf"
    and "norm_text (Some b) = b" "b \<noteq> []" and "settings L env = (t, c, False)"
  shows "admit L env f b None caller now = Inl OverflowError"
proof -
  have "load_state L data b = Inl OverflowError"
    using assms(2-4) by (simp add: load_state_def coerce_state_def count_of_def py_or_def)
  then show ?thesis
    using assms(1,5-7)
    by (simp add: admit_def first_open_configuration_def configuration_keys_def norm_text_def Let_def)
qed

theorem infinite_count_raises_witness:
  "admit demo_lib no_env (Json (PDict [(PStr ''codex'', PDict [(PStr ''failure_count'', PFloat PosInf)])])) ''codex''
     None demo_caller (Finite 0) = Inl OverflowError"
proof -
  have "settings demo_lib no_env = (3, Finite 300, False)" "norm_text (Some ''codex'') = ''codex''" by code_simp+
  moreover have "phase_of (py_str demo_lib (py_or (py_get (PDict [(PStr ''failure_count'', PFloat PosInf)]) ''state'') (PStr ''closed''))) = Some Closed"
    by code_simp
  moreover have "py_get (PDict [(PStr ''failure_count'', PFloat PosInf)]) ''failure_count'' = PFloat PosInf" by code_simp
  ultimately show ?thesis
    using infinite_count_raises [of "Json (PDict [(PStr ''codex'', PDict [(PStr ''failure_count'', PFloat PosInf)])])"
      "[(''codex'', PDict [(PStr ''failure_count'', PFloat PosInf)])]" "''codex''"]
    by fastforce
qed

section \<open>Which results are charged\<close>

text \<open>
  Property (safety): a result that is charged to the configuration or the transport is not a success,
  an operator stop, a run that was never attempted, a refusal before the spawn or a bounded
  capacity deferral, and recording its class never raises.
\<close>

theorem charged_results:
  assumes c: "classify_failure L result = Inr (Some cls)" "charged cls"
  shows "py_get result ''ok'' \<noteq> PBool True \<and> \<not> operator_stop [result, raw_payload result] \<and>
    \<not> degenerate_no_attempt [result, raw_payload result] \<and>
    prespawn_refusal L [result, raw_payload result] = Inr False \<and>
    \<not> bounded_preflight_capacity_deferral result (raw_payload result) \<and>
    (\<exists>r. outcome_step t bad cls now old = Inr r)"
  using classify_charged [OF c] classified_recorded [OF c(1)] by blast

theorem charged_results_witness:
  "let result = PDict [(PStr ''ok'', PBool False), (PStr ''failure_class'', PStr ''transport'')]
   in classify_failure demo_lib result = Inr (Some ''transport'') \<and> \<not> operator_stop [result, raw_payload result]"
proof -
  let ?r = "PDict [(PStr ''ok'', PBool False), (PStr ''failure_class'', PStr ''transport'')]"
  have "classify_failure demo_lib ?r = Inr (Some ''transport'')" "charged ''transport''" by code_simp+
  then show ?thesis using charged_results by (simp add: Let_def)
qed

end
