(* ===== verification/Worklist.thy ===== *)
theory Worklist
  imports Prelude "HOL-Library.While_Combinator"
begin

text \<open>
  The depth-first search with an explicit stack that the lane graph uses several
  times: pop a node, drop it if it is seen or to be skipped, otherwise mark it and
  push its neighbours.  What it has seen at the end is what can be reached.
\<close>

record 'a worklist =
  wl_stack :: "'a list"
  wl_seen :: "'a list"

text \<open>\<open>next S n\<close> is what is pushed for \<open>n\<close> when \<open>S\<close> is the set of the nodes seen, \<open>n\<close> among them.\<close>

definition wl_step :: "('a \<Rightarrow> bool) \<Rightarrow> ('a set \<Rightarrow> 'a \<Rightarrow> 'a list) \<Rightarrow> 'a worklist \<Rightarrow> 'a worklist" where
  "wl_step skip nxt s =
     (let node = last (wl_stack s); rest = butlast (wl_stack s)
      in if node \<in> set (wl_seen s) \<or> skip node then s\<lparr>wl_stack := rest\<rparr>
         else \<lparr>wl_stack = rest @ nxt (insert node (set (wl_seen s))) node, wl_seen = wl_seen s @ [node]\<rparr>)"

definition wl_run :: "('a \<Rightarrow> bool) \<Rightarrow> ('a set \<Rightarrow> 'a \<Rightarrow> 'a list) \<Rightarrow> 'a list \<Rightarrow> 'a list \<Rightarrow> 'a worklist" where
  "wl_run skip nxt stack seen =
     while (\<lambda>s. wl_stack s \<noteq> []) (wl_step skip nxt) \<lparr>wl_stack = stack, wl_seen = seen\<rparr>"

text \<open>The nodes reached from \<open>S\<close> along \<open>succs\<close> without entering \<open>B\<close>.\<close>

definition avoid_rel :: "('a \<Rightarrow> 'a set) \<Rightarrow> 'a set \<Rightarrow> ('a \<times> 'a) set" where
  "avoid_rel succs B = {(x, y). y \<in> succs x \<and> y \<notin> B}"

definition reach_avoiding :: "('a \<Rightarrow> 'a set) \<Rightarrow> 'a set \<Rightarrow> 'a set \<Rightarrow> 'a set" where
  "reach_avoiding succs B S = {y. \<exists>x \<in> S - B. (x, y) \<in> (avoid_rel succs B)\<^sup>*}"

lemma reach_avoiding_step:
  "x \<in> reach_avoiding succs B S \<Longrightarrow> y \<in> succs x \<Longrightarrow> y \<notin> B \<Longrightarrow> y \<in> reach_avoiding succs B S"
  unfolding reach_avoiding_def avoid_rel_def by (blast intro: rtrancl_into_rtrancl)

lemma reach_avoiding_start: "x \<in> S \<Longrightarrow> x \<notin> B \<Longrightarrow> x \<in> reach_avoiding succs B S"
  unfolding reach_avoiding_def by blast

lemma reach_avoiding_disjoint: "x \<in> reach_avoiding succs B S \<Longrightarrow> x \<notin> B"
  unfolding reach_avoiding_def avoid_rel_def by (auto elim: rtranclE)

lemma reach_avoiding_least:
  assumes "S - B \<subseteq> V" and "\<And>x y. x \<in> V \<Longrightarrow> y \<in> succs x \<Longrightarrow> y \<notin> B \<Longrightarrow> y \<in> V"
  shows "reach_avoiding succs B S \<subseteq> V"
proof
  fix y assume "y \<in> reach_avoiding succs B S"
  then obtain x where "x \<in> S - B" "(x, y) \<in> (avoid_rel succs B)\<^sup>*" by (auto simp: reach_avoiding_def)
  from this(2,1) show "y \<in> V"
    by (induction rule: rtrancl_induct) (use assms in \<open>auto simp: avoid_rel_def\<close>)
qed

text \<open>Starting from the neighbours of a node and never coming back to it reaches everything else it reaches.\<close>

lemma reach_avoiding_self:
  "reach_avoiding succs (insert l B) (succs l) = {a. (l, a) \<in> (avoid_rel succs B)\<^sup>+ \<and> a \<noteq> l}"
proof
  have "y \<noteq> l \<and> (l, y) \<in> (avoid_rel succs B)\<^sup>+" if mem: "y \<in> reach_avoiding succs (insert l B) (succs l)" for y
  proof -
    obtain x where x: "x \<in> succs l" "x \<notin> B" and p: "(x, y) \<in> (avoid_rel succs (insert l B))\<^sup>*"
      using mem unfolding reach_avoiding_def by blast
    have "avoid_rel succs (insert l B) \<subseteq> avoid_rel succs B" by (auto simp: avoid_rel_def)
    then have "(x, y) \<in> (avoid_rel succs B)\<^sup>*" using p rtrancl_mono by blast
    moreover have "(l, x) \<in> avoid_rel succs B" using x by (simp add: avoid_rel_def)
    ultimately show ?thesis using reach_avoiding_disjoint [OF mem] by auto
  qed
  then show "reach_avoiding succs (insert l B) (succs l) \<subseteq> {a. (l, a) \<in> (avoid_rel succs B)\<^sup>+ \<and> a \<noteq> l}"
    by blast
  have "a = l \<or> a \<in> reach_avoiding succs (insert l B) (succs l)" if "(l, a) \<in> (avoid_rel succs B)\<^sup>*" for a
    using that
  proof (induction rule: rtrancl_induct)
    case (step b a)
    then have e: "a \<in> succs b" "a \<notin> B" by (auto simp: avoid_rel_def)
    show ?case
    proof (cases "a = l")
      case False
      then show ?thesis
        using step.IH e reach_avoiding_step [of b succs "insert l B" "succs l" a]
          reach_avoiding_start [of a "succs l" "insert l B" succs] by auto
    qed simp
  qed simp
  then show "{a. (l, a) \<in> (avoid_rel succs B)\<^sup>+ \<and> a \<noteq> l} \<subseteq> reach_avoiding succs (insert l B) (succs l)"
    using trancl_into_rtrancl by fast
qed

locale worklist_graph =
  fixes skip :: "'a \<Rightarrow> bool"
    and nxt :: "'a set \<Rightarrow> 'a \<Rightarrow> 'a list"
    and succs :: "'a \<Rightarrow> 'a set"
    and univ :: "'a set"
  assumes finite_univ: "finite univ"
    and nxt_succs: "set (nxt S n) \<subseteq> succs n"
    and succs_univ: "succs n \<subseteq> univ"
    and nxt_complete: "y \<in> succs n \<Longrightarrow> y \<in> set (nxt S n) \<or> y \<in> S \<or> skip y"
begin

definition wl_inv :: "'a list \<Rightarrow> 'a list \<Rightarrow> 'a worklist \<Rightarrow> bool" where
  "wl_inv stack0 seen0 s \<longleftrightarrow>
     (let B = set seen0 \<union> {n. skip n}; R = reach_avoiding succs B (set stack0)
      in \<exists>vis. wl_seen s = seen0 @ vis \<and> distinct vis \<and> set vis \<subseteq> R \<and>
         set (wl_stack s) \<subseteq> (R \<union> B) \<inter> (set stack0 \<union> univ) \<and>
         set stack0 \<subseteq> B \<union> set vis \<union> set (wl_stack s) \<and>
         (\<forall>v \<in> set vis. succs v \<subseteq> B \<union> set vis \<union> set (wl_stack s)))"

lemma wl_inv_start: "wl_inv stack0 seen0 \<lparr>wl_stack = stack0, wl_seen = seen0\<rparr>"
  by (auto simp: wl_inv_def Let_def intro: reach_avoiding_start)

lemma wl_inv_step:
  assumes inv: "wl_inv stack0 seen0 s" and more: "wl_stack s \<noteq> []"
  shows "wl_inv stack0 seen0 (wl_step skip nxt s)"
proof -
  define B where "B = set seen0 \<union> {n. skip n}"
  define R where "R = reach_avoiding succs B (set stack0)"
  obtain vis where seen: "wl_seen s = seen0 @ vis" and vis: "distinct vis" "set vis \<subseteq> R"
    and stack: "set (wl_stack s) \<subseteq> (R \<union> B) \<inter> (set stack0 \<union> univ)"
    and start: "set stack0 \<subseteq> B \<union> set vis \<union> set (wl_stack s)"
    and closed: "\<forall>v \<in> set vis. succs v \<subseteq> B \<union> set vis \<union> set (wl_stack s)"
    using inv by (auto simp: wl_inv_def Let_def B_def R_def)
  obtain rest n where n: "wl_stack s = rest @ [n]" using more by (cases "wl_stack s" rule: rev_cases) auto
  show ?thesis
  proof (cases "n \<in> set (wl_seen s) \<or> skip n")
    case True
    then have "n \<in> B \<union> set vis" using seen by (auto simp: B_def)
    then show ?thesis
      unfolding wl_inv_def Let_def B_def [symmetric] R_def [symmetric]
      using True n seen vis stack start closed by (intro exI [of _ vis]) (auto simp: wl_step_def)
  next
    case False
    then have nB: "n \<notin> B" "n \<notin> set vis" using seen by (auto simp: B_def)
    then have nR: "n \<in> R" using stack n by auto
    let ?S = "insert n (set (wl_seen s))"
    have push: "y \<in> (R \<union> B) \<inter> (set stack0 \<union> univ)" if "y \<in> set (nxt ?S n)" for y
      using that nxt_succs [of ?S n] succs_univ [of n] nR unfolding R_def by (blast intro: reach_avoiding_step)
    have all: "succs n \<subseteq> B \<union> set (vis @ [n]) \<union> set (nxt ?S n)"
      using nxt_complete [of _ n ?S] seen by (auto simp: B_def)
    have step: "wl_step skip nxt s = \<lparr>wl_stack = rest @ nxt ?S n, wl_seen = seen0 @ (vis @ [n])\<rparr>"
      using False n seen by (simp add: wl_step_def Let_def)
    have "distinct (vis @ [n])" "set (vis @ [n]) \<subseteq> R"
      "set (rest @ nxt ?S n) \<subseteq> (R \<union> B) \<inter> (set stack0 \<union> univ)"
      "set stack0 \<subseteq> B \<union> set (vis @ [n]) \<union> set (rest @ nxt ?S n)"
      "\<forall>v \<in> set (vis @ [n]). succs v \<subseteq> B \<union> set (vis @ [n]) \<union> set (rest @ nxt ?S n)"
      using vis nB nR stack n push start closed all by (simp, simp, auto)
    then show ?thesis
      unfolding wl_inv_def Let_def B_def [symmetric] R_def [symmetric] step worklist.simps by blast
  qed
qed

definition wl_order :: "'a list \<Rightarrow> ('a worklist \<times> 'a worklist) set" where
  "wl_order stack0 = inv_image (less_than <*lex*> less_than)
     (\<lambda>s. (card ((set stack0 \<union> univ) - set (wl_seen s)), length (wl_stack s)))"

lemma wl_step_decreases:
  assumes inv: "wl_inv stack0 seen0 s" and more: "wl_stack s \<noteq> []"
  shows "(wl_step skip nxt s, s) \<in> wl_order stack0"
proof -
  obtain rest n where n: "wl_stack s = rest @ [n]" using more by (cases "wl_stack s" rule: rev_cases) auto
  have "n \<in> set stack0 \<union> univ" using inv n by (auto simp: wl_inv_def Let_def)
  then have "n \<notin> set (wl_seen s) \<Longrightarrow>
      card ((set stack0 \<union> univ) - insert n (set (wl_seen s))) < card ((set stack0 \<union> univ) - set (wl_seen s))"
    using finite_univ by (intro psubset_card_mono) auto
  then show ?thesis using n by (auto simp: wl_order_def wl_step_def Let_def)
qed

lemma wl_run_spec:
  obtains vis where "wl_seen (wl_run skip nxt stack0 seen0) = seen0 @ vis" and "distinct vis"
    and "set vis = reach_avoiding succs (set seen0 \<union> {n. skip n}) (set stack0)"
proof -
  let ?B = "set seen0 \<union> {n. skip n}"
  let ?Q = "\<lambda>s. \<exists>vis. wl_seen s = seen0 @ vis \<and> distinct vis \<and> set vis = reach_avoiding succs ?B (set stack0)"
  have stop: "?Q s" if inv: "wl_inv stack0 seen0 s" and e: "wl_stack s = []" for s
  proof -
    obtain vis where v: "wl_seen s = seen0 @ vis" "distinct vis" "set vis \<subseteq> reach_avoiding succs ?B (set stack0)"
      and c: "set stack0 \<subseteq> ?B \<union> set vis" "\<forall>v \<in> set vis. succs v \<subseteq> ?B \<union> set vis"
      using inv e by (auto simp: wl_inv_def Let_def)
    have "reach_avoiding succs ?B (set stack0) \<subseteq> set vis"
      by (rule reach_avoiding_least) (use c in blast)+
    then show ?thesis using v by blast
  qed
  have "?Q (wl_run skip nxt stack0 seen0)"
    unfolding wl_run_def
    by (rule while_rule [where P = "wl_inv stack0 seen0" and r = "wl_order stack0"])
       (use wl_inv_start wl_inv_step stop wl_step_decreases in \<open>auto simp: wl_order_def\<close>)
  then show thesis using that by blast
qed

end

end
