(* ===== verification/LaneGraph.thy ===== *)
theory LaneGraph
  imports PyValue Worklist "HOL-Library.Product_Lexorder"
begin

text \<open>
  The lane graph of \<open>lane_ready_set.py\<close>: the manifest's lanes and \<open>depends_on\<close>
  entries, the searches over them (ancestors, descendants, reachability, the
  bottlenecks), the memoised longest chains and the readiness test.  An entry whose
  prerequisites are not a list is \<open>None\<close>.
\<close>

type_synonym deps_map = "(lane_id \<times> lane_id list option) list"
type_synonym lane_deps = "(lane_id \<times> lane_id list) list"

section \<open>The manifest\<close>

fun string_keys :: "(pyval \<times> pyval) list \<Rightarrow> string list" where
  "string_keys [] = []"
| "string_keys ((PStr s, v) # rest) = (if s = [] then string_keys rest else s # string_keys rest)"
| "string_keys (_ # rest) = string_keys rest"

definition manifest_lanes :: "pyval \<Rightarrow> lane_id list" where
  "manifest_lanes manifest = sort (string_keys (py_items (py_get manifest ''lanes'')))"

fun nonblank_strings :: "pyval list \<Rightarrow> string list" where
  "nonblank_strings [] = []"
| "nonblank_strings (PStr s # vs) = (if py_strip s = [] then nonblank_strings vs else s # nonblank_strings vs)"
| "nonblank_strings (_ # vs) = nonblank_strings vs"

fun deps_entries :: "(pyval \<times> pyval) list \<Rightarrow> deps_map" where
  "deps_entries [] = []"
| "deps_entries ((PStr l, v) # rest) =
     (if l = [] then deps_entries rest
      else (l, case v of PList vs \<Rightarrow> Some (nonblank_strings vs) | _ \<Rightarrow> None) # deps_entries rest)"
| "deps_entries (_ # rest) = deps_entries rest"

definition depends_on_map :: "pyval \<Rightarrow> deps_map" where
  "depends_on_map manifest = deps_entries (py_items (py_get manifest ''depends_on''))"

text \<open>\<open>depends_on.get(lane)\<close> when it is a list.\<close>

definition list_deps :: "deps_map \<Rightarrow> lane_id \<Rightarrow> lane_id list" where
  "list_deps deps l = (case map_of deps l of Some (Some ps) \<Rightarrow> ps | _ \<Rightarrow> [])"

definition invalid_entry :: "deps_map \<Rightarrow> lane_id \<Rightarrow> bool" where
  "invalid_entry deps l \<longleftrightarrow> map_of deps l = Some None"

section \<open>Searches\<close>

definition depends_on_ancestors :: "deps_map \<Rightarrow> lane_id \<Rightarrow> lane_id list" where
  "depends_on_ancestors deps l =
     (if l = [] then []
      else tl (wl_seen (wl_run (\<lambda>n. n = []) (\<lambda>S n. filter (\<lambda>p. p \<noteq> [] \<and> p \<notin> S) (list_deps deps n))
             (list_deps deps l) [l])))"

definition collect_unknown_lanes :: "lane_id list \<Rightarrow> deps_map \<Rightarrow> lane_id list" where
  "collect_unknown_lanes ids deps =
     sort (remdups (filter (\<lambda>p. p \<notin> set ids)
       (concat (map (\<lambda>(l, ps). l # (case ps of None \<Rightarrow> [] | Some ps \<Rightarrow> filter (\<lambda>p. p \<noteq> []) ps)) deps))))"

fun declared_depends_on :: "lane_id list \<Rightarrow> deps_map \<Rightarrow> lane_deps" where
  "declared_depends_on ids [] = []"
| "declared_depends_on ids ((l, ps) # rest) =
     (case ps of
        None \<Rightarrow> declared_depends_on ids rest
      | Some ps \<Rightarrow>
          if l \<in> set ids then (l, filter (\<lambda>p. p \<in> set ids) ps) # declared_depends_on ids rest
          else declared_depends_on ids rest)"

definition dep_get :: "lane_deps \<Rightarrow> lane_id \<Rightarrow> lane_id list" where
  "dep_get deps l = (case map_of deps l of None \<Rightarrow> [] | Some ps \<Rightarrow> ps)"

text \<open>\<open>reverse[p]\<close> after the loop over \<open>depends_on.items()\<close>; \<open>self\<close> tells whether self edges stay.\<close>

definition dependents :: "bool \<Rightarrow> lane_id list \<Rightarrow> lane_deps \<Rightarrow> lane_id \<Rightarrow> lane_id list" where
  "dependents self ids deps p =
     (if p \<in> set ids
      then concat (map (\<lambda>(l, ps). if l \<in> set ids then map (\<lambda>_. l) (filter (\<lambda>q. q = p \<and> (self \<or> q \<noteq> l)) ps) else [])
             deps)
      else [])"

definition descendant_count :: "lane_id list \<Rightarrow> lane_deps \<Rightarrow> lane_id \<Rightarrow> nat" where
  "descendant_count ids deps l =
     length (wl_seen (wl_run (\<lambda>n. n = l \<or> n \<notin> set ids) (\<lambda>_ n. dependents True ids deps n)
       (dependents True ids deps l) []))"

definition descendant_counts :: "lane_id list \<Rightarrow> lane_deps \<Rightarrow> (lane_id \<times> nat) list" where
  "descendant_counts ids deps = map (\<lambda>l. (l, descendant_count ids deps l)) ids"

definition scheduling_forward :: "lane_id list \<Rightarrow> lane_deps \<Rightarrow> lane_id \<Rightarrow> lane_id list" where
  "scheduling_forward ids deps = dependents False ids deps"

definition dependency_roots :: "lane_id list \<Rightarrow> lane_deps \<Rightarrow> lane_id list" where
  "dependency_roots ids deps = filter (\<lambda>l. \<not> list_ex (\<lambda>p. p \<in> set ids) (dep_get deps l)) ids"

definition reachable_from_roots ::
    "lane_id list \<Rightarrow> (lane_id \<Rightarrow> lane_id list) \<Rightarrow> lane_id option \<Rightarrow> lane_id list" where
  "reachable_from_roots roots fwd forbidden =
     wl_seen (wl_run (\<lambda>n. Some n = forbidden) (\<lambda>S n. filter (\<lambda>d. Some d \<noteq> forbidden \<and> d \<notin> S) (fwd n))
       (filter (\<lambda>r. Some r \<noteq> forbidden) roots) [])"

definition directed_critical_lanes :: "lane_id list \<Rightarrow> lane_deps \<Rightarrow> lane_id list" where
  "directed_critical_lanes ids deps =
     (if length ids < 2 then []
      else let fwd = scheduling_forward ids deps;
               roots = dependency_roots ids deps;
               baseline_orphans = set ids - set (reachable_from_roots roots fwd None)
           in filter (\<lambda>x.
                let after_orphans = (set ids - {x}) - set (reachable_from_roots roots fwd (Some x));
                    before_orphans = baseline_orphans - {x}
                in after_orphans - before_orphans \<noteq> {}) ids)"

section \<open>Longest chains\<close>

text \<open>
  \<open>_dfs\<close> with its memo; \<open>stk\<close> is \<open>on_stack\<close>, which the call restores, so it is an
  argument.  A node outside \<open>ids\<close> is never visited (the loop skips it); the guard in
  the first equation makes the recursion terminate.
\<close>

type_synonym chain_memo = "lane_id \<rightharpoonup> nat"

function chain_dfs :: "lane_id list \<Rightarrow> (lane_id \<Rightarrow> lane_id list) \<Rightarrow> lane_id set \<Rightarrow> chain_memo \<Rightarrow> lane_id \<Rightarrow> nat \<times> chain_memo"
  and chain_loop ::
    "lane_id list \<Rightarrow> (lane_id \<Rightarrow> lane_id list) \<Rightarrow> lane_id set \<Rightarrow> chain_memo \<Rightarrow> lane_id list \<Rightarrow> nat \<Rightarrow> nat \<times> chain_memo" where
  "chain_dfs ids kids stk memo l =
     (case memo l of
        Some v \<Rightarrow> (v, memo)
      | None \<Rightarrow>
          if l \<in> stk \<or> l \<notin> set ids then (0, memo)
          else (case chain_loop ids kids (insert l stk) memo (kids l) 0 of (best, m) \<Rightarrow> (best, m(l \<mapsto> best))))"
| "chain_loop ids kids stk memo [] best = (best, memo)"
| "chain_loop ids kids stk memo (c # cs) best =
     (if c \<notin> set ids then chain_loop ids kids stk memo cs best
      else (case chain_dfs ids kids stk memo c of (v, m) \<Rightarrow> chain_loop ids kids stk m cs (max best (1 + v))))"
  by pat_completeness auto

lemma card_one_less [simp]: "l \<in> set ids \<Longrightarrow> l \<notin> stk \<Longrightarrow> card (set ids - stk) - Suc 0 < card (set ids - stk)"
  by (metis DiffI card_gt_0_iff diff_less emptyE finite_Diff finite_set lessI less_numeral_extra(1))

termination chain_dfs
proof (relation "inv_image (less_than <*lex*> less_than) (\<lambda>x. case x of
    Inl (ids, kids, stk, memo, l) \<Rightarrow> (card (set ids - stk), 0)
  | Inr (ids, kids, stk, memo, cs, best) \<Rightarrow> (card (set ids - stk), Suc (length cs)))")
qed auto

definition remaining_chain_lengths :: "lane_id list \<Rightarrow> lane_deps \<Rightarrow> (lane_id \<times> nat) list" where
  "remaining_chain_lengths ids deps =
     fst (fold (\<lambda>l (out, memo).
       case chain_dfs ids (dependents False ids deps) {} memo l of (v, m) \<Rightarrow> (out @ [(l, v)], m)) ids ([], Map.empty))"

section \<open>Readiness\<close>

text \<open>
  The loop of \<open>_transitive_prereqs_satisfied\<close> over the edge proofs: \<open>ec_failed\<close> is its
  \<open>return False\<close>.
\<close>

record edge_check =
  ec_pending :: "lane_id list"
  ec_seen :: "lane_id list"
  ec_failed :: bool

definition edges_proved :: "deps_map \<Rightarrow> lane_deps \<Rightarrow> lane_id \<Rightarrow> bool" where
  "edges_proved deps facts l \<longleftrightarrow> \<not> invalid_entry deps l \<and>
     list_all (\<lambda>p. py_strip p \<noteq> [] \<and> py_strip p \<in> set (dep_get facts l)) (list_deps deps l)"

definition edge_step :: "deps_map \<Rightarrow> lane_deps \<Rightarrow> edge_check \<Rightarrow> edge_check" where
  "edge_step deps facts s =
     (let l = last (ec_pending s); rest = butlast (ec_pending s)
      in if l \<in> set (ec_seen s) then s\<lparr>ec_pending := rest\<rparr>
         else if \<not> edges_proved deps facts l then s\<lparr>ec_failed := True\<rparr>
         else \<lparr>ec_pending = rest @ map py_strip (list_deps deps l), ec_seen = ec_seen s @ [l], ec_failed = False\<rparr>)"

definition edge_run :: "deps_map \<Rightarrow> lane_deps \<Rightarrow> lane_id \<Rightarrow> edge_check" where
  "edge_run deps facts l =
     while (\<lambda>s. ec_pending s \<noteq> [] \<and> \<not> ec_failed s) (edge_step deps facts)
       \<lparr>ec_pending = [l], ec_seen = [], ec_failed = False\<rparr>"

definition transitive_prereqs_satisfied ::
    "lane_id \<Rightarrow> deps_map \<Rightarrow> lane_id list \<Rightarrow> lane_deps option \<Rightarrow> bool" where
  "transitive_prereqs_satisfied l deps satisfied facts =
     (case facts of
        Some fs \<Rightarrow> \<not> ec_failed (edge_run deps fs l)
      | None \<Rightarrow>
          if invalid_entry deps l then False
          else list_all (\<lambda>p. p \<in> set satisfied) (depends_on_ancestors deps l))"

record ready_row =
  row_lane :: lane_id
  row_descendants :: nat
  row_chain :: nat
  row_critical :: bool

definition assoc0 :: "(lane_id \<times> nat) list \<Rightarrow> lane_id \<Rightarrow> nat" where
  "assoc0 xs l = (case map_of xs l of None \<Rightarrow> 0 | Some n \<Rightarrow> n)"

definition dispatch_order :: "lane_id list \<Rightarrow> deps_map \<Rightarrow> lane_id list" where
  "dispatch_order ids deps =
     (let declared = declared_depends_on ids deps;
          counts = descendant_counts ids declared;
          chains = remaining_chain_lengths ids declared
      in sort_key (\<lambda>l. (- int (assoc0 chains l), - int (assoc0 counts l), l)) ids)"

definition compute_ready_set ::
    "pyval \<Rightarrow> lane_id list \<Rightarrow> lane_id list \<Rightarrow> lane_deps option \<Rightarrow> ready_row list \<times> lane_id list" where
  "compute_ready_set manifest satisfied completed facts =
     (let sat = filter (\<lambda>s. s \<noteq> []) satisfied;
          com = filter (\<lambda>c. c \<noteq> []) completed;
          ids = manifest_lanes manifest;
          raw = depends_on_map manifest;
          declared = declared_depends_on ids raw;
          counts = descendant_counts ids declared;
          chains = remaining_chain_lengths ids declared;
          critical = directed_critical_lanes ids declared;
          rows = map (\<lambda>l. \<lparr>row_lane = l, row_descendants = assoc0 counts l, row_chain = assoc0 chains l,
                            row_critical = (l \<in> set critical)\<rparr>)
                   (filter (\<lambda>l. l \<notin> set com \<and> transitive_prereqs_satisfied l raw sat facts) ids)
      in (sort_key (\<lambda>r. (- int (row_chain r), - int (row_descendants r), row_lane r)) rows,
          collect_unknown_lanes ids raw))"

section \<open>What the searches find\<close>

definition mentioned :: "deps_map \<Rightarrow> lane_id set" where
  "mentioned deps = (\<Union>(l, ps) \<in> set deps. case ps of None \<Rightarrow> {} | Some ps \<Rightarrow> set ps)"

lemma finite_mentioned: "finite (mentioned deps)"
  by (auto simp: mentioned_def split: option.split)

lemma list_deps_mentioned: "set (list_deps deps l) \<subseteq> mentioned deps"
proof (cases "map_of deps l")
  case (Some v)
  then have "(l, v) \<in> set deps" by (rule map_of_SomeD)
  then show ?thesis using Some by (cases v) (auto simp: list_deps_def mentioned_def intro!: bexI [of _ "(l, v)"])
qed (simp add: list_deps_def)

interpretation ancestor_search: worklist_graph "\<lambda>n. n = []"
  "\<lambda>S n. filter (\<lambda>p. p \<noteq> [] \<and> p \<notin> S) (list_deps deps n)" "\<lambda>n. set (list_deps deps n)" "mentioned deps" for deps
  by unfold_locales (use finite_mentioned list_deps_mentioned in auto)

definition dep_edges :: "deps_map \<Rightarrow> (lane_id \<times> lane_id) set" where
  "dep_edges deps = {(l, p). p \<in> set (list_deps deps l) \<and> p \<noteq> []}"

lemma ancestors_spec:
  assumes "l \<noteq> []"
  shows "set (depends_on_ancestors deps l) = {a. (l, a) \<in> (dep_edges deps)\<^sup>+ \<and> a \<noteq> l}"
    and "distinct (depends_on_ancestors deps l)"
proof -
  obtain vis where v: "wl_seen (wl_run (\<lambda>n. n = []) (\<lambda>S n. filter (\<lambda>p. p \<noteq> [] \<and> p \<notin> S) (list_deps deps n))
      (list_deps deps l) [l]) = [l] @ vis" "distinct vis"
    "set vis = reach_avoiding (\<lambda>n. set (list_deps deps n)) (set [l] \<union> {n. n = []}) (set (list_deps deps l))"
    by (rule ancestor_search.wl_run_spec)
  then have anc: "depends_on_ancestors deps l = vis" using assms by (simp add: depends_on_ancestors_def)
  have "avoid_rel (\<lambda>n. set (list_deps deps n)) {[]} = dep_edges deps" by (auto simp: avoid_rel_def dep_edges_def)
  then show "set (depends_on_ancestors deps l) = {a. (l, a) \<in> (dep_edges deps)\<^sup>+ \<and> a \<noteq> l}"
    using reach_avoiding_self [of "\<lambda>n. set (list_deps deps n)" l "{[]}"] anc v(3) by (simp add: insert_commute)
  show "distinct (depends_on_ancestors deps l)" using anc v(2) by simp
qed

lemma dependents_sub: "set (dependents self ids deps p) \<subseteq> set ids"
  by (auto simp: dependents_def split: if_splits)

lemma dependents_mem:
  assumes "distinct (map fst deps)"
  shows "l \<in> set (dependents self ids deps p) \<longleftrightarrow>
    p \<in> set ids \<and> l \<in> set ids \<and> p \<in> set (dep_get deps l) \<and> (self \<or> p \<noteq> l)"
proof -
  have "l \<in> set (dependents self ids deps p) \<longleftrightarrow>
      p \<in> set ids \<and> l \<in> set ids \<and> (\<exists>ps. (l, ps) \<in> set deps \<and> p \<in> set ps) \<and> (self \<or> p \<noteq> l)"
    by (auto simp: dependents_def split: if_splits)
  moreover have "(\<exists>ps. (l, ps) \<in> set deps \<and> p \<in> set ps) \<longleftrightarrow> p \<in> set (dep_get deps l)"
    using assms by (auto simp: dep_get_def map_of_eq_Some_iff split: option.split dest: map_of_eq_None_iff [THEN iffD1])
  ultimately show ?thesis by blast
qed

text \<open>Lanes in the scheduling direction: from a prerequisite to what depends on it.\<close>

definition sched_rel :: "lane_id list \<Rightarrow> lane_deps \<Rightarrow> (lane_id \<times> lane_id) set" where
  "sched_rel ids deps = {(p, l). p \<in> set ids \<and> l \<in> set ids \<and> p \<in> set (dep_get deps l)}"

interpretation descendant_search: worklist_graph "\<lambda>n. n = l \<or> n \<notin> set ids" "\<lambda>_ n. dependents True ids deps n"
  "\<lambda>n. set (dependents True ids deps n)" "set ids" for l ids deps
  by unfold_locales (use dependents_sub in auto)

lemma descendant_count_spec:
  assumes "distinct (map fst deps)"
  shows "descendant_count ids deps l = card {d. (l, d) \<in> (sched_rel ids deps)\<^sup>+ \<and> d \<noteq> l}"
proof -
  let ?succs = "\<lambda>n. set (dependents True ids deps n)"
  obtain vis where v: "wl_seen (wl_run (\<lambda>n. n = l \<or> n \<notin> set ids) (\<lambda>_ n. dependents True ids deps n)
      (dependents True ids deps l) []) = [] @ vis" "distinct vis"
    "set vis = reach_avoiding ?succs (set [] \<union> {n. n = l \<or> n \<notin> set ids}) (?succs l)"
    by (rule descendant_search.wl_run_spec)
  have B: "set [] \<union> {n. n = l \<or> n \<notin> set ids} = insert l {n. n \<notin> set ids}" by auto
  have "avoid_rel ?succs {n. n \<notin> set ids} = sched_rel ids deps"
    using dependents_mem [OF assms] by (auto simp: avoid_rel_def sched_rel_def)
  then have "set vis = {d. (l, d) \<in> (sched_rel ids deps)\<^sup>+ \<and> d \<noteq> l}"
    using v(3) reach_avoiding_self [of ?succs l "{n. n \<notin> set ids}"] unfolding B by simp
  then show ?thesis using v(1,2) distinct_card [of vis] by (simp add: descendant_count_def)
qed

section \<open>Bottlenecks\<close>

interpretation root_search: worklist_graph "\<lambda>n. Some n = forbidden"
  "\<lambda>S n. filter (\<lambda>d. Some d \<noteq> forbidden \<and> d \<notin> S) (scheduling_forward ids deps n)"
  "\<lambda>n. set (scheduling_forward ids deps n)" "set ids" for forbidden ids deps
  by unfold_locales (use dependents_sub in \<open>auto simp: scheduling_forward_def\<close>)

definition sched_succs :: "lane_id list \<Rightarrow> lane_deps \<Rightarrow> lane_id \<Rightarrow> lane_id set" where
  "sched_succs ids deps n = set (scheduling_forward ids deps n)"

lemma reachable_from_roots_spec:
  "set (reachable_from_roots roots (scheduling_forward ids deps) forbidden) =
    reach_avoiding (sched_succs ids deps) {n. Some n = forbidden} (set roots)"
proof -
  obtain vis where v: "wl_seen (wl_run (\<lambda>n. Some n = forbidden)
      (\<lambda>S n. filter (\<lambda>d. Some d \<noteq> forbidden \<and> d \<notin> S) (scheduling_forward ids deps n))
      (filter (\<lambda>r. Some r \<noteq> forbidden) roots) []) = [] @ vis" "distinct vis"
    "set vis = reach_avoiding (\<lambda>n. set (scheduling_forward ids deps n)) (set [] \<union> {n. Some n = forbidden})
      (set (filter (\<lambda>r. Some r \<noteq> forbidden) roots))"
    by (rule root_search.wl_run_spec)
  have "reach_avoiding succs B (set (filter (\<lambda>r. Some r \<noteq> forbidden) roots)) = reach_avoiding succs B (set roots)"
    if "B = {n. Some n = forbidden}" for succs B
    using that by (auto simp: reach_avoiding_def)
  then show ?thesis using v by (simp add: reachable_from_roots_def sched_succs_def [abs_def])
qed

text \<open>
  A lane is a bottleneck when some other lane can be reached from the roots, but not
  without passing through it.
\<close>

lemma critical_spec:
  "x \<in> set (directed_critical_lanes ids deps) \<longleftrightarrow>
    x \<in> set ids \<and> (\<exists>p \<in> set ids. p \<noteq> x \<and>
      p \<in> reach_avoiding (sched_succs ids deps) {} (set (dependency_roots ids deps)) \<and>
      p \<notin> reach_avoiding (sched_succs ids deps) {x} (set (dependency_roots ids deps)))"
proof (cases "length ids < 2")
  case True
  then have "\<forall>p \<in> set ids. \<forall>q \<in> set ids. p = q" by (cases ids) (auto simp: less_Suc_eq)
  then show ?thesis using True by (auto simp: directed_critical_lanes_def)
next
  case False
  have B: "{n. Some n = Some x} = {x}" for x :: lane_id by auto
  show ?thesis
    using False
    by (auto simp: directed_critical_lanes_def Let_def reachable_from_roots_spec B)
qed

end
