(* ===== verification/LaneChains.thy ===== *)
theory LaneChains
  imports LaneGraph
begin

text \<open>
  The memoised longest chains and the readiness test of the lane graph, and what
  \<open>compute_ready_set\<close> returns.
\<close>

section \<open>The memo holds the longest chains\<close>

definition kid_rel :: "lane_id list \<Rightarrow> (lane_id \<Rightarrow> lane_id list) \<Rightarrow> (lane_id \<times> lane_id) set" where
  "kid_rel ids kids = {(l, c). l \<in> set ids \<and> c \<in> set ids \<and> c \<in> set (kids l)}"

definition best_of :: "lane_id list \<Rightarrow> (lane_id \<Rightarrow> nat) \<Rightarrow> lane_id list \<Rightarrow> nat \<Rightarrow> nat" where
  "best_of ids f cs b = fold (\<lambda>c b. if c \<in> set ids then max b (1 + f c) else b) cs b"

lemma best_of_simps [simp]:
  "best_of ids f [] b = b"
  "best_of ids f (c # cs) b = best_of ids f cs (if c \<in> set ids then max b (1 + f c) else b)"
  by (simp_all add: best_of_def)

lemma best_of_cong: "(\<And>c. c \<in> set cs \<Longrightarrow> c \<in> set ids \<Longrightarrow> f c = g c) \<Longrightarrow> best_of ids f cs b = best_of ids g cs b"
  by (induction cs arbitrary: b) auto

lemma best_of_Max: "best_of ids f cs b = Max (insert b ((\<lambda>c. 1 + f c) ` (set cs \<inter> set ids)))"
proof (induction cs arbitrary: b)
  case (Cons c cs)
  show ?case
  proof (cases "c \<in> set ids")
    case True
    let ?A = "(\<lambda>c. 1 + f c) ` (set cs \<inter> set ids)"
    have "Max (insert (max b (1 + f c)) ?A) = Max (insert b (insert (1 + f c) ?A))"
      by (cases "?A = {}") (simp_all add: max.assoc)
    then show ?thesis using True by (simp add: Cons.IH)
  qed (simp add: Cons.IH)
qed simp

definition memo_ok :: "lane_id list \<Rightarrow> (lane_id \<Rightarrow> lane_id list) \<Rightarrow> chain_memo \<Rightarrow> bool" where
  "memo_ok ids kids memo \<longleftrightarrow>
     (\<forall>x v. memo x = Some v \<longrightarrow> (\<forall>c \<in> set (kids x) \<inter> set ids. memo c \<noteq> None) \<and>
        v = best_of ids (the \<circ> memo) (kids x) 0)"

lemma memo_ok_empty [simp]: "memo_ok ids kids Map.empty"
  by (simp add: memo_ok_def)

lemma memo_ok_insert:
  assumes m: "memo_ok ids kids m" and kids: "\<forall>c \<in> set (kids l) \<inter> set ids. m c \<noteq> None" and l: "l \<in> set ids"
    and irr: "l \<notin> set (kids l)" and b: "b = best_of ids (the \<circ> m) (kids l) 0"
  shows "memo_ok ids kids (m(l \<mapsto> b)) \<and> m \<subseteq>\<^sub>m m(l \<mapsto> b)"
proof (cases "m l")
  case (Some v)
  then have "m(l \<mapsto> b) = m" using m b by (auto simp: memo_ok_def)
  then show ?thesis using m by (simp add: map_le_def)
next
  case None
  have same: "best_of ids (the \<circ> m(l \<mapsto> b)) (kids x) 0 = best_of ids (the \<circ> m) (kids x) 0"
    if "l \<notin> set (kids x)" for x
    by (rule best_of_cong) (use that in auto)
  have "l \<notin> set (kids x)" if mem: "m x \<noteq> None" for x
  proof
    assume "l \<in> set (kids x)"
    moreover obtain v where "m x = Some v" using mem by blast
    ultimately have "m l \<noteq> None" using m l unfolding memo_ok_def by blast
    then show False using None by simp
  qed
  then show ?thesis
    using m kids irr b None same by (auto simp: memo_ok_def map_le_def)
qed

lemma memo_extends: "m \<subseteq>\<^sub>m m' \<Longrightarrow> m c \<noteq> None \<Longrightarrow> m' c = m c"
  by (auto simp: map_le_def dom_def)

lemma chain_dfs_loop_ok:
  shows "acyclic (kid_rel ids kids) \<Longrightarrow> memo_ok ids kids memo \<Longrightarrow> l \<in> set ids \<Longrightarrow>
      \<forall>s \<in> stk. (s, l) \<in> (kid_rel ids kids)\<^sup>+ \<Longrightarrow> chain_dfs ids kids stk memo l = (v, m) \<Longrightarrow>
      memo_ok ids kids m \<and> memo \<subseteq>\<^sub>m m \<and> m l = Some v"
    and "acyclic (kid_rel ids kids) \<Longrightarrow> memo_ok ids kids memo \<Longrightarrow>
      \<forall>c \<in> set cs \<inter> set ids. \<forall>s \<in> stk. (s, c) \<in> (kid_rel ids kids)\<^sup>+ \<Longrightarrow>
      chain_loop ids kids stk memo cs b0 = (b, m) \<Longrightarrow>
      memo_ok ids kids m \<and> memo \<subseteq>\<^sub>m m \<and> (\<forall>c \<in> set cs \<inter> set ids. m c \<noteq> None) \<and>
        b = best_of ids (the \<circ> m) cs b0"
proof (induction ids kids stk memo l and ids kids stk memo cs b0 arbitrary: v m and b m rule: chain_dfs_chain_loop.induct)
  case (1 ids kids stk memo l)
  let ?r = "kid_rel ids kids"
  have stk: "l \<notin> stk" using 1(2,5) by (auto simp: acyclic_def)
  have irr: "l \<notin> set (kids l)" using 1(2,4) by (auto simp: acyclic_def kid_rel_def)
  show ?case
  proof (cases "memo l")
    case (Some w)
    then show ?thesis using 1(3,6) by (simp add: map_le_def)
  next
    case None
    obtain b m1 where loop: "chain_loop ids kids (insert l stk) memo (kids l) 0 = (b, m1)" by fastforce
    have res: "v = b" "m = m1(l \<mapsto> b)" using 1(6) None stk 1(4) loop by auto
    have kid: "(l, c) \<in> ?r" if "c \<in> set (kids l) \<inter> set ids" for c
      using that 1(4) by (simp add: kid_rel_def)
    have "\<forall>c \<in> set (kids l) \<inter> set ids. \<forall>s \<in> insert l stk. (s, c) \<in> ?r\<^sup>+"
      using kid 1(5) by (auto intro: trancl_into_trancl)
    then have m1: "memo_ok ids kids m1" "memo \<subseteq>\<^sub>m m1" "\<forall>c \<in> set (kids l) \<inter> set ids. m1 c \<noteq> None"
      "b = best_of ids (the \<circ> m1) (kids l) 0"
      using 1(1) [OF None _ 1(2,3) _ loop] stk 1(4) by blast+
    have ins: "memo_ok ids kids (m1(l \<mapsto> b))" "m1 \<subseteq>\<^sub>m m1(l \<mapsto> b)"
      using memo_ok_insert [OF m1(1,3) 1(4) irr m1(4)] by auto
    have "memo \<subseteq>\<^sub>m m1(l \<mapsto> b)" by (rule map_le_trans [OF m1(2) ins(2)])
    then show ?thesis unfolding res using ins(1) by (simp only: fun_upd_same simp_thms)
  qed
next
  case (2 ids kids stk memo best)
  then show ?case by simp
next
  case (3 ids kids stk memo c cs best)
  show ?case
  proof (cases "c \<in> set ids")
    case False
    then show ?thesis using 3(1) [OF False 3(4,5)] 3(6,7) by auto
  next
    case True
    obtain w m1 where dfs: "chain_dfs ids kids stk memo c = (w, m1)" by fastforce
    have loop: "chain_loop ids kids stk m1 cs (max best (1 + w)) = (b, m)"
      using 3(7) True dfs by simp
    have nn: "\<not> c \<notin> set ids" using True by simp
    have "\<forall>s \<in> stk. (s, c) \<in> (kid_rel ids kids)\<^sup>+" using 3(6) True by simp
    from 3(2) [OF nn 3(4,5) True this dfs]
    have m1: "memo_ok ids kids m1" "memo \<subseteq>\<^sub>m m1" "m1 c = Some w" by auto
    have "\<forall>c \<in> set cs \<inter> set ids. \<forall>s \<in> stk. (s, c) \<in> (kid_rel ids kids)\<^sup>+" using 3(6) by simp
    note rest = 3(3) [OF nn dfs [symmetric] 3(4) m1(1) this loop]
    have m: "memo_ok ids kids m" "m1 \<subseteq>\<^sub>m m" "\<forall>c \<in> set cs \<inter> set ids. m c \<noteq> None"
      "b = best_of ids (the \<circ> m) cs (max best (1 + w))"
      by (rule rest [THEN conjunct1] rest [THEN conjunct2, THEN conjunct1]
          rest [THEN conjunct2, THEN conjunct2, THEN conjunct1]
          rest [THEN conjunct2, THEN conjunct2, THEN conjunct2])+
    have mc: "m c = Some w" using memo_extends [OF m(2), of c] m1(3) by simp
    have "memo \<subseteq>\<^sub>m m" by (rule map_le_trans [OF m1(2) m(2)])
    moreover have "b = best_of ids (the \<circ> m) (c # cs) best"
      using m(4) by (simp only: best_of_simps if_P [OF True] comp_apply mc option.sel)
    moreover have "\<forall>x \<in> set (c # cs) \<inter> set ids. m x \<noteq> None" using m(3) mc by auto
    ultimately show ?thesis using m(1) by blast
  qed
qed

text \<open>The loop of \<open>_remaining_chain_lengths\<close> over the lanes fills the memo for all of them.\<close>

definition chain_out :: "lane_id list \<Rightarrow> (lane_id \<Rightarrow> lane_id list) \<Rightarrow> lane_id list \<Rightarrow> (lane_id \<times> nat) list \<times> chain_memo" where
  "chain_out ids kids ls =
     fold (\<lambda>l (out, memo). case chain_dfs ids kids {} memo l of (v, m) \<Rightarrow> (out @ [(l, v)], m)) ls ([], Map.empty)"

lemma chain_out_ok:
  assumes acyc: "acyclic (kid_rel ids kids)" and sub: "set ls \<subseteq> set ids"
  shows "memo_ok ids kids (snd (chain_out ids kids ls)) \<and>
    fst (chain_out ids kids ls) = map (\<lambda>l. (l, the (snd (chain_out ids kids ls) l))) ls \<and>
    (\<forall>l \<in> set ls. snd (chain_out ids kids ls) l \<noteq> None)"
  using sub
proof (induction ls rule: rev_induct)
  case Nil
  then show ?case by (simp add: chain_out_def)
next
  case (snoc l ls)
  obtain out memo where o1: "chain_out ids kids ls = (out, memo)" by (cases "chain_out ids kids ls")
  obtain v m where dfs: "chain_dfs ids kids {} memo l = (v, m)" by fastforce
  have o2: "chain_out ids kids (ls @ [l]) = (out @ [(l, v)], m)"
    using o1 dfs by (simp add: chain_out_def)
  have IH: "memo_ok ids kids memo" "out = map (\<lambda>l. (l, the (memo l))) ls" "\<forall>l \<in> set ls. memo l \<noteq> None"
    using snoc o1 by auto
  have m: "memo_ok ids kids m" "memo \<subseteq>\<^sub>m m" "m l = Some v"
    using chain_dfs_loop_ok(1) [OF acyc IH(1) _ _ dfs] snoc.prems by auto
  have "m x = memo x" if "x \<in> set ls" for x using memo_extends [OF m(2)] IH(3) that by blast
  then show ?case using m IH unfolding o2 by auto
qed

definition chain_length :: "lane_id list \<Rightarrow> lane_deps \<Rightarrow> lane_id \<Rightarrow> nat" where
  "chain_length ids deps l = assoc0 (remaining_chain_lengths ids deps) l"

definition direct_dependents :: "lane_id list \<Rightarrow> lane_deps \<Rightarrow> lane_id \<Rightarrow> lane_id set" where
  "direct_dependents ids deps p = {l \<in> set ids. l \<noteq> p \<and> p \<in> set ids \<and> p \<in> set (dep_get deps l)}"

lemma map_of_graph: "l \<in> set ls \<Longrightarrow> map_of (map (\<lambda>l. (l, f l)) ls) l = Some (f l)"
  by (induction ls) auto

lemma chain_length_eq:
  assumes dist: "distinct (map fst deps)" and acyc: "acyclic (sched_rel ids deps - Id)" and l: "l \<in> set ids"
  shows "chain_length ids deps l =
    (if direct_dependents ids deps l = {} then 0 else 1 + Max (chain_length ids deps ` direct_dependents ids deps l))"
proof -
  let ?kids = "dependents False ids deps"
  have kids: "set (?kids p) \<inter> set ids = direct_dependents ids deps p" for p
    using dependents_mem [OF dist, of _ False ids p] by (auto simp: direct_dependents_def)
  have "kid_rel ids ?kids = sched_rel ids deps - Id"
    using dependents_mem [OF dist, of _ False ids] by (auto simp: kid_rel_def sched_rel_def)
  then have ac: "acyclic (kid_rel ids ?kids)" using acyc by simp
  define m where "m = snd (chain_out ids ?kids ids)"
  have ok: "memo_ok ids ?kids m" "\<forall>l \<in> set ids. m l \<noteq> None"
    and out: "remaining_chain_lengths ids deps = map (\<lambda>l. (l, the (m l))) ids"
    using chain_out_ok [OF ac subset_refl] by (simp_all add: m_def chain_out_def remaining_chain_lengths_def)
  have len: "chain_length ids deps x = the (m x)" if "x \<in> set ids" for x
    using map_of_graph [OF that, of "\<lambda>l. the (m l)"] by (simp add: chain_length_def assoc0_def out)
  obtain v where v: "m l = Some v" using ok(2) l by blast
  then have "v = best_of ids (the \<circ> m) (?kids l) 0" using ok(1) by (simp add: memo_ok_def)
  also have "\<dots> = Max (insert 0 ((\<lambda>c. 1 + chain_length ids deps c) ` direct_dependents ids deps l))"
    unfolding best_of_Max kids using len by (auto simp: direct_dependents_def intro!: arg_cong [of _ _ "\<lambda>A. Max (insert 0 A)"])
  finally have eq: "chain_length ids deps l = Max (insert 0 ((\<lambda>c. 1 + chain_length ids deps c) ` direct_dependents ids deps l))"
    using len [OF l] v by simp
  have fin: "finite (direct_dependents ids deps l)" by (simp add: direct_dependents_def)
  show ?thesis
  proof (cases "direct_dependents ids deps l = {}")
    case False
    have "Max ((\<lambda>c. 1 + chain_length ids deps c) ` direct_dependents ids deps l) =
        1 + Max (chain_length ids deps ` direct_dependents ids deps l)"
      using fin False by (subst image_image [symmetric]) (rule mono_Max_commute [symmetric], auto simp: mono_def)
    then show ?thesis using eq fin False by simp
  qed (use eq in simp)
qed

section \<open>When a lane is ready\<close>

text \<open>The edges the proofs are checked along: to the prerequisite with its blanks stripped.\<close>

definition proof_edges :: "deps_map \<Rightarrow> (lane_id \<times> lane_id) set" where
  "proof_edges deps = {(l, p). \<exists>q \<in> set (list_deps deps l). p = py_strip q}"

definition edge_inv :: "deps_map \<Rightarrow> lane_deps \<Rightarrow> lane_id \<Rightarrow> edge_check \<Rightarrow> bool" where
  "edge_inv deps facts l s \<longleftrightarrow>
     (\<forall>x \<in> set (ec_pending s) \<union> set (ec_seen s). (l, x) \<in> (proof_edges deps)\<^sup>*) \<and>
     (if ec_failed s then \<exists>x. (l, x) \<in> (proof_edges deps)\<^sup>* \<and> \<not> edges_proved deps facts x
      else l \<in> set (ec_seen s) \<union> set (ec_pending s) \<and>
        (\<forall>x \<in> set (ec_seen s). edges_proved deps facts x \<and>
           (\<forall>y. (x, y) \<in> proof_edges deps \<longrightarrow> y \<in> set (ec_seen s) \<union> set (ec_pending s))))"

lemma edge_inv_step:
  assumes inv: "edge_inv deps facts l s" and more: "ec_pending s \<noteq> []" "\<not> ec_failed s"
  shows "edge_inv deps facts l (edge_step deps facts s)"
proof -
  obtain rest x where x: "ec_pending s = rest @ [x]" using more by (cases "ec_pending s" rule: rev_cases) auto
  have reach: "(l, x) \<in> (proof_edges deps)\<^sup>*" using inv x by (auto simp: edge_inv_def)
  then have next': "(l, py_strip q) \<in> (proof_edges deps)\<^sup>*" if "q \<in> set (list_deps deps x)" for q
    using that by (auto simp: proof_edges_def intro: rtrancl_into_rtrancl)
  consider "x \<in> set (ec_seen s)" | "x \<notin> set (ec_seen s)" "\<not> edges_proved deps facts x"
    | "x \<notin> set (ec_seen s)" "edges_proved deps facts x" by blast
  then show ?thesis
  proof cases
    case 1
    then show ?thesis using inv more x by (auto simp: edge_inv_def edge_step_def)
  next
    case 2
    then show ?thesis using inv more x reach by (auto simp: edge_inv_def edge_step_def)
  next
    case 3
    then have s: "edge_step deps facts s =
        \<lparr>ec_pending = rest @ map py_strip (list_deps deps x), ec_seen = ec_seen s @ [x], ec_failed = False\<rparr>"
      using x by (simp add: edge_step_def Let_def)
    have "(x, y) \<in> proof_edges deps \<Longrightarrow> y \<in> py_strip ` set (list_deps deps x)" for y
      by (auto simp: proof_edges_def)
    then show ?thesis
      unfolding s using inv more x reach next' 3(2) by (auto simp: edge_inv_def)
  qed
qed

definition edge_order :: "deps_map \<Rightarrow> lane_id \<Rightarrow> (edge_check \<times> edge_check) set" where
  "edge_order deps l = inv_image (less_than <*lex*> less_than <*lex*> less_than)
     (\<lambda>s. (if ec_failed s then 0 else 1 :: nat,
           card (insert l (py_strip ` mentioned deps) - set (ec_seen s)), length (ec_pending s)))"

lemma proof_edges_univ: "(l, x) \<in> (proof_edges deps)\<^sup>* \<Longrightarrow> x \<in> insert l (py_strip ` mentioned deps)"
  by (induction rule: rtrancl_induct) (use list_deps_mentioned in \<open>auto simp: proof_edges_def\<close>)

lemma edge_step_decreases:
  assumes inv: "edge_inv deps facts l s" and more: "ec_pending s \<noteq> []" "\<not> ec_failed s"
  shows "(edge_step deps facts s, s) \<in> edge_order deps l"
proof -
  obtain rest x where x: "ec_pending s = rest @ [x]" using more by (cases "ec_pending s" rule: rev_cases) auto
  let ?U = "insert l (py_strip ` mentioned deps)"
  have "(l, x) \<in> (proof_edges deps)\<^sup>*" using inv x by (auto simp: edge_inv_def)
  then have "x \<in> ?U" by (rule proof_edges_univ)
  moreover have "finite ?U" using finite_mentioned by simp
  ultimately have "x \<notin> set (ec_seen s) \<Longrightarrow> card (?U - insert x (set (ec_seen s))) < card (?U - set (ec_seen s))"
    by (intro psubset_card_mono) auto
  then show ?thesis using x more by (auto simp: edge_order_def edge_step_def Let_def)
qed

lemma edge_run_spec:
  "\<not> ec_failed (edge_run deps facts l) \<longleftrightarrow>
    (\<forall>x. (l, x) \<in> (proof_edges deps)\<^sup>* \<longrightarrow> edges_proved deps facts x)"
proof -
  let ?Q = "\<lambda>s. \<not> ec_failed s \<longleftrightarrow> (\<forall>x. (l, x) \<in> (proof_edges deps)\<^sup>* \<longrightarrow> edges_proved deps facts x)"
  have stop: "?Q s" if inv: "edge_inv deps facts l s" and e: "\<not> (ec_pending s \<noteq> [] \<and> \<not> ec_failed s)" for s
  proof (cases "ec_failed s")
    case True
    then show ?thesis using inv by (auto simp: edge_inv_def)
  next
    case False
    then have c: "l \<in> set (ec_seen s)" "\<forall>x \<in> set (ec_seen s). edges_proved deps facts x"
      "\<forall>x \<in> set (ec_seen s). \<forall>y. (x, y) \<in> proof_edges deps \<longrightarrow> y \<in> set (ec_seen s)"
      using inv e by (auto simp: edge_inv_def)
    have "x \<in> set (ec_seen s)" if "(l, x) \<in> (proof_edges deps)\<^sup>*" for x
      using that by (induction rule: rtrancl_induct) (use c in auto)
    then show ?thesis using c False by blast
  qed
  have start: "edge_inv deps facts l \<lparr>ec_pending = [l], ec_seen = [], ec_failed = False\<rparr>"
    by (simp add: edge_inv_def)
  have wf: "wf (edge_order deps l)" by (auto simp: edge_order_def)
  show ?thesis
    unfolding edge_run_def
    by (rule while_rule [where P = "edge_inv deps facts l" and r = "edge_order deps l" and Q = ?Q])
       (use start wf edge_inv_step stop edge_step_decreases in blast)+
qed

lemma transitive_prereqs_spec:
  assumes "l \<noteq> []"
  shows "transitive_prereqs_satisfied l deps satisfied facts \<longleftrightarrow>
    (case facts of
       Some fs \<Rightarrow> \<forall>x. (l, x) \<in> (proof_edges deps)\<^sup>* \<longrightarrow> edges_proved deps fs x
     | None \<Rightarrow> \<not> invalid_entry deps l \<and>
         (\<forall>a. (l, a) \<in> (dep_edges deps)\<^sup>+ \<longrightarrow> a \<noteq> l \<longrightarrow> a \<in> set satisfied))"
  using ancestors_spec(1) [OF assms, of deps] edge_run_spec
  by (auto simp: transitive_prereqs_satisfied_def list_all_iff split: option.split)

section \<open>The ready set\<close>

lemma string_keys_nonempty: "[] \<notin> set (string_keys kvs)"
  by (induction kvs rule: string_keys.induct) auto

lemma manifest_lanes_nonempty: "l \<in> set (manifest_lanes m) \<Longrightarrow> l \<noteq> []"
  using string_keys_nonempty by (auto simp: manifest_lanes_def)

lemma ready_rows_sorted:
  "sorted (map (\<lambda>r. (- int (row_chain r), - int (row_descendants r), row_lane r))
     (fst (compute_ready_set manifest satisfied completed facts)))"
  by (simp add: compute_ready_set_def Let_def)

lemma ready_set_lanes:
  "row_lane ` set (fst (compute_ready_set manifest satisfied completed facts)) =
    {l \<in> set (manifest_lanes manifest). l \<notin> set completed \<and>
       transitive_prereqs_satisfied l (depends_on_map manifest) (filter (\<lambda>s. s \<noteq> []) satisfied) facts}"
  using manifest_lanes_nonempty [of _ manifest]
  by (auto simp: compute_ready_set_def Let_def image_iff)

end
