(* ===== verification/LaneLayers.thy ===== *)
theory LaneLayers
  imports LaneChains KahnOrder
begin

text \<open>
  \<open>compute_layers\<close> and \<open>compute_slack\<close> of \<open>lane_ready_set.py\<close>: Kahn's algorithm that
  emits a whole layer at a time, and the slack of a lane against the longest chain.
\<close>

section \<open>Definitions\<close>

text \<open>\<open>indegree\<close>, the frontier and the layers emitted so far.\<close>

record layering =
  ly_degree :: "lane_id \<Rightarrow> int"
  ly_frontier :: "lane_id list"
  ly_layers :: "lane_id list list"

definition layer_child :: "lane_id \<Rightarrow> (lane_id \<Rightarrow> int) \<times> lane_id list \<Rightarrow> (lane_id \<Rightarrow> int) \<times> lane_id list" where
  "layer_child c = (\<lambda>(deg, nxt).
     let deg' = deg(c := deg c - 1) in (deg', if deg' c = 0 then List.insert c nxt else nxt))"

definition layer_step :: "(lane_id \<Rightarrow> lane_id list) \<Rightarrow> layering \<Rightarrow> layering" where
  "layer_step fwd s =
     (case fold layer_child (concat (map fwd (ly_frontier s))) (ly_degree s, []) of
        (deg, nxt) \<Rightarrow> \<lparr>ly_degree = deg, ly_frontier = sort nxt, ly_layers = ly_layers s @ [ly_frontier s]\<rparr>)"

definition layer_degree :: "lane_deps \<Rightarrow> lane_id \<Rightarrow> int" where
  "layer_degree deps l = int (length (remdups (dep_get deps l)))"

definition layer_start :: "lane_id list \<Rightarrow> lane_deps \<Rightarrow> layering" where
  "layer_start ids deps =
     \<lparr>ly_degree = layer_degree deps, ly_frontier = sort (filter (\<lambda>l. layer_degree deps l = 0) ids), ly_layers = []\<rparr>"

definition layer_run :: "lane_id list \<Rightarrow> lane_deps \<Rightarrow> layering" where
  "layer_run ids deps =
     while (\<lambda>s. ly_frontier s \<noteq> []) (layer_step (scheduling_forward ids deps)) (layer_start ids deps)"

definition layers_of :: "lane_id list \<Rightarrow> lane_deps \<Rightarrow> lane_id list list result" where
  "layers_of ids deps =
     (let layers = ly_layers (layer_run ids deps)
      in if length (concat layers) \<noteq> length ids then Inl ValueError else Inr layers)"

definition compute_layers :: "pyval \<Rightarrow> lane_id list list result" where
  "compute_layers manifest =
     (let ids = manifest_lanes manifest
      in if ids = [] then Inr [] else layers_of ids (declared_depends_on ids (depends_on_map manifest)))"

definition prefix_step :: "lane_id \<Rightarrow> lane_id \<Rightarrow> (lane_id \<Rightarrow> nat) \<Rightarrow> (lane_id \<Rightarrow> nat)" where
  "prefix_step l c prefix = prefix(c := max (prefix c) (prefix l + 1))"

definition prefix_lengths :: "(lane_id \<Rightarrow> lane_id list) \<Rightarrow> lane_id list \<Rightarrow> (lane_id \<Rightarrow> nat)" where
  "prefix_lengths fwd ls = fold (\<lambda>l. fold (prefix_step l) (fwd l)) ls (\<lambda>_. 0)"

definition slack_of :: "lane_id list \<Rightarrow> lane_deps \<Rightarrow> lane_id list \<Rightarrow> (lane_id \<times> int) list" where
  "slack_of ids deps ls =
     (let prefix = prefix_lengths (scheduling_forward ids deps) ls;
          suffix = assoc0 (remaining_chain_lengths ls deps);
          through = (\<lambda>l. prefix l + suffix l);
          longest = Max (set (map through ls))
      in map (\<lambda>l. (l, int longest - int (through l))) (sort ls))"

definition compute_slack :: "pyval \<Rightarrow> (lane_id \<times> int) list result" where
  "compute_slack manifest =
     bind_result (compute_layers manifest) (\<lambda>layers.
       let ls = concat layers; ids = manifest_lanes manifest
       in Inr (if ls = [] then []
               else slack_of ls (declared_depends_on ls (depends_on_map manifest)) ls))"

section \<open>One layer\<close>

lemma fold_layer_child:
  "fold layer_child cs (deg, nxt) = (deg', nxt') \<Longrightarrow>
    deg' = (\<lambda>l. deg l - int (count_list cs l)) \<and> (distinct nxt \<longrightarrow> distinct nxt') \<and>
    set nxt' = set nxt \<union> {l. 1 \<le> deg l \<and> deg l \<le> int (count_list cs l)}"
proof (induction cs arbitrary: deg nxt)
  case Nil
  then show ?case by auto
next
  case (Cons c cs)
  let ?d = "deg(c := deg c - 1)"
  let ?n = "if ?d c = 0 then List.insert c nxt else nxt"
  have step: "layer_child c (deg, nxt) = (?d, ?n)" by (simp add: layer_child_def Let_def)
  have run: "fold layer_child cs (?d, ?n) = (deg', nxt')"
    using Cons.prems by (simp only: fold_simps step)
  have IH: "deg' = (\<lambda>l. ?d l - int (count_list cs l))" "distinct ?n \<longrightarrow> distinct nxt'"
    "set nxt' = set ?n \<union> {l. 1 \<le> ?d l \<and> ?d l \<le> int (count_list cs l)}"
    using Cons.IH [OF run] by auto
  have "deg' = (\<lambda>l. deg l - int (count_list (c # cs) l))" unfolding IH(1) by auto
  moreover have "distinct nxt \<longrightarrow> distinct nxt'" using IH(2) by (simp add: List.insert_def split: if_splits)
  moreover have "set nxt' = set nxt \<union> {l. 1 \<le> deg l \<and> deg l \<le> int (count_list (c # cs) l)}"
    unfolding IH(3) by (auto split: if_splits)
  ultimately show ?case by blast
qed

lemma layer_step_spec:
  fixes s fwd
  defines "cs \<equiv> concat (map fwd (ly_frontier s))"
  shows "ly_degree (layer_step fwd s) = (\<lambda>l. ly_degree s l - int (count_list cs l))"
    and "distinct (ly_frontier (layer_step fwd s))" and "sorted (ly_frontier (layer_step fwd s))"
    and "set (ly_frontier (layer_step fwd s)) = {l. 1 \<le> ly_degree s l \<and> ly_degree s l \<le> int (count_list cs l)}"
    and "ly_layers (layer_step fwd s) = ly_layers s @ [ly_frontier s]"
proof -
  obtain deg nxt where run: "fold layer_child cs (ly_degree s, []) = (deg, nxt)" by fastforce
  then have step: "layer_step fwd s = \<lparr>ly_degree = deg, ly_frontier = sort nxt, ly_layers = ly_layers s @ [ly_frontier s]\<rparr>"
    by (simp add: layer_step_def cs_def)
  note f = fold_layer_child [OF run]
  show "ly_degree (layer_step fwd s) = (\<lambda>l. ly_degree s l - int (count_list cs l))"
    "distinct (ly_frontier (layer_step fwd s))" "sorted (ly_frontier (layer_step fwd s))"
    "set (ly_frontier (layer_step fwd s)) = {l. 1 \<le> ly_degree s l \<and> ly_degree s l \<le> int (count_list cs l)}"
    "ly_layers (layer_step fwd s) = ly_layers s @ [ly_frontier s]"
    unfolding step using f by simp_all
qed

section \<open>Layering ends\<close>

definition ly_inv :: "lane_id list \<Rightarrow> layering \<Rightarrow> bool" where
  "ly_inv ids s \<longleftrightarrow>
     distinct (concat (ly_layers s) @ ly_frontier s) \<and> set (concat (ly_layers s) @ ly_frontier s) \<subseteq> set ids \<and>
     (\<forall>l \<in> set (concat (ly_layers s) @ ly_frontier s). ly_degree s l \<le> 0)"

lemma count_list_pos: "1 \<le> int (count_list cs l) \<Longrightarrow> l \<in> set cs"
  by (metis count_notin not_one_le_zero of_nat_0)

lemma ly_inv_step:
  assumes inv: "ly_inv ids s"
  shows "ly_inv ids (layer_step (scheduling_forward ids deps) s)"
proof -
  let ?fwd = "scheduling_forward ids deps"
  let ?cs = "concat (map ?fwd (ly_frontier s))"
  note st = layer_step_spec [of ?fwd s]
  have new: "l \<in> set ids \<and> 1 \<le> ly_degree s l" if "l \<in> set (ly_frontier (layer_step ?fwd s))" for l
  proof -
    have "1 \<le> ly_degree s l" "1 \<le> int (count_list ?cs l)" using that unfolding st(4) by auto
    moreover then have "l \<in> set ?cs" by (intro count_list_pos)
    then obtain p where "l \<in> set (?fwd p)" by auto
    then have "l \<in> set ids" unfolding scheduling_forward_def by (rule dependents_sub [THEN subsetD])
    ultimately show ?thesis by blast
  qed
  have old: "ly_degree s l \<le> 0" if "l \<in> set (concat (ly_layers s)) \<union> set (ly_frontier s)" for l
    using inv that by (auto simp: ly_inv_def)
  have disj: "(set (concat (ly_layers s)) \<union> set (ly_frontier s)) \<inter> set (ly_frontier (layer_step ?fwd s)) = {}"
    using new old by fastforce
  have deg: "ly_degree (layer_step ?fwd s) l \<le> 0"
    if "l \<in> set (concat (ly_layers s)) \<union> set (ly_frontier s) \<union> set (ly_frontier (layer_step ?fwd s))" for l
  proof (cases "l \<in> set (ly_frontier (layer_step ?fwd s))")
    case True
    then show ?thesis unfolding st(4) unfolding st(1) by simp
  next
    case False
    then show ?thesis using old [of l] that unfolding st(1) by fastforce
  qed
  show ?thesis
    using inv disj deg new st(2) unfolding ly_inv_def st(5) by auto
qed

lemma ly_inv_start:
  assumes "distinct ids"
  shows "ly_inv ids (layer_start ids deps)"
  using assms by (simp add: ly_inv_def layer_start_def)

lemma ly_measure:
  assumes inv: "ly_inv ids s" and more: "ly_frontier s \<noteq> []"
  shows "length ids - length (concat (ly_layers (layer_step fwd s))) < length ids - length (concat (ly_layers s))"
proof -
  have "distinct (concat (ly_layers s) @ ly_frontier s)" "set (concat (ly_layers s) @ ly_frontier s) \<subseteq> set ids"
    using inv by (auto simp: ly_inv_def)
  then have "length (concat (ly_layers s) @ ly_frontier s) \<le> length ids"
    by (metis card_length card_mono distinct_card finite_set order_trans)
  then show ?thesis using more by (cases "ly_frontier s") (simp_all add: layer_step_spec(5))
qed

lemma layering_terminates:
  assumes "distinct ids"
  shows "\<exists>t. while_option (\<lambda>s. ly_frontier s \<noteq> []) (layer_step (scheduling_forward ids deps)) (layer_start ids deps) = Some t"
  by (rule measure_while_option_Some [where P = "ly_inv ids" and f = "\<lambda>s. length ids - length (concat (ly_layers s))"])
     (use ly_inv_step ly_measure ly_inv_start [OF assms] in auto)

section \<open>Layers of a graph without repeated prerequisites\<close>

definition plain_deps :: "lane_id list \<Rightarrow> lane_deps \<Rightarrow> bool" where
  "plain_deps ids deps \<longleftrightarrow>
     distinct ids \<and> distinct (map fst deps) \<and>
     (\<forall>l \<in> set ids. distinct (dep_get deps l) \<and> set (dep_get deps l) \<subseteq> set ids)"

lemma count_dependents:
  assumes "distinct (map fst deps)" and "p \<in> set ids" and "l \<in> set ids"
  shows "count_list (dependents False ids deps p) l = (if p = l then 0 else count_list (dep_get deps l) p)"
proof -
  have flt: "count_list (map (\<lambda>_. k) xs) l = (if k = l then length xs else 0)" for k and xs :: "lane_id list"
    by (induction xs) auto
  have len: "length (filter (\<lambda>q. q = p \<and> (False \<or> q \<noteq> l)) ps) = (if p = l then 0 else count_list ps p)" for ps
    by (induction ps) auto
  have "count_list (concat (map (\<lambda>(k, ps). if k \<in> set ids then map (\<lambda>_. k) (filter (\<lambda>q. q = p \<and> (False \<or> q \<noteq> k)) ps) else []) ds)) l
      = (if p = l then 0 else count_list (case map_of ds l of None \<Rightarrow> [] | Some ps \<Rightarrow> ps) p)"
    if "distinct (map fst ds)" for ds
    using that
  proof (induction ds)
    case (Cons d ds)
    obtain k ps where d: "d = (k, ps)" by (cases d)
    show ?case
    proof (cases "k = l")
      case True
      then have "map_of ds l = None" using Cons.prems d by (simp add: map_of_eq_None_iff)
      then show ?thesis using Cons True d assms(3) len flt by simp
    next
      case False
      then show ?thesis using Cons d flt by simp
    qed
  qed simp
  from this [OF assms(1)] show ?thesis using assms(2) by (simp add: dependents_def dep_get_def)
qed

lemma count_list_distinct: "distinct xs \<Longrightarrow> count_list xs x = (if x \<in> set xs then 1 else 0)"
  by (induction xs) auto

lemma count_list_concat_map: "count_list (concat (map f xs)) l = sum_list (map (\<lambda>x. count_list (f x) l) xs)"
  by (induction xs) auto

lemma sum_list_indicator:
  "distinct xs \<Longrightarrow> sum_list (map (\<lambda>x. if P x then 1 else 0) xs) = card {x \<in> set xs. P x}"
  by (simp add: sum_list_distinct_conv_sum_set sum.If_cases Int_def conj_commute)

text \<open>What the layer takes off an indegree: the prerequisites that are in it.\<close>

lemma layer_count:
  assumes plain: "plain_deps ids deps" and layer: "distinct ls" "set ls \<subseteq> set ids" and l: "l \<in> set ids"
  shows "count_list (concat (map (scheduling_forward ids deps) ls)) l = card ((set (dep_get deps l) - {l}) \<inter> set ls)"
proof -
  have "count_list (scheduling_forward ids deps p) l = (if p \<in> set (dep_get deps l) - {l} then 1 else 0)"
    if "p \<in> set ls" for p
    using that layer plain l count_dependents [of deps p ids l]
    by (auto simp: scheduling_forward_def plain_deps_def count_list_distinct)
  then have "count_list (concat (map (scheduling_forward ids deps) ls)) l =
      sum_list (map (\<lambda>p. if p \<in> set (dep_get deps l) - {l} then 1 else 0) ls)"
    unfolding count_list_concat_map by (intro arg_cong [of _ _ sum_list] map_cong) auto
  also have "\<dots> = card {p \<in> set ls. p \<in> set (dep_get deps l) - {l}}"
    by (rule sum_list_indicator [OF layer(1)])
  also have "{p \<in> set ls. p \<in> set (dep_get deps l) - {l}} = (set (dep_get deps l) - {l}) \<inter> set ls" by blast
  finally show ?thesis .
qed

definition emitted_set :: "layering \<Rightarrow> lane_id set" where
  "emitted_set s = set (concat (ly_layers s))"

text \<open>
  The frontier holds the lanes that are not emitted and whose prerequisites are; an
  indegree counts the prerequisites that are not.
\<close>

definition layered :: "lane_id list \<Rightarrow> lane_deps \<Rightarrow> lane_id list list \<Rightarrow> bool" where
  "layered ids deps ls \<longleftrightarrow>
     (\<forall>i < length ls. sorted (ls ! i) \<and>
        set (ls ! i) = avail (dep_get deps) (set ids) (set (concat (take i ls))))"

lemma layered_snoc:
  "layered ids deps (ls @ [f]) \<longleftrightarrow>
     layered ids deps ls \<and> sorted f \<and> set f = avail (dep_get deps) (set ids) (set (concat ls))"
  by (auto simp: layered_def nth_append less_Suc_eq)

definition ly_state :: "lane_id list \<Rightarrow> lane_deps \<Rightarrow> layering \<Rightarrow> bool" where
  "ly_state ids deps s \<longleftrightarrow> ly_inv ids s \<and> layered ids deps (ly_layers s) \<and> sorted (ly_frontier s) \<and>
     set (ly_frontier s) = avail (dep_get deps) (set ids) (emitted_set s) \<and>
     (\<forall>l \<in> set ids. ly_degree s l = int (card (set (dep_get deps l) - (emitted_set s - {l}))))"

lemma ly_state_start:
  assumes "plain_deps ids deps"
  shows "ly_state ids deps (layer_start ids deps)"
proof -
  have "layer_degree deps l = int (card (set (dep_get deps l)))" for l
    by (simp add: layer_degree_def length_remdups_card_conv)
  then have "set (ly_frontier (layer_start ids deps)) = avail (dep_get deps) (set ids) {}"
    and "\<forall>l \<in> set ids. ly_degree (layer_start ids deps) l = int (card (set (dep_get deps l)))"
    by (auto simp: layer_start_def avail_def)
  moreover have "ly_inv ids (layer_start ids deps)" using assms by (simp add: ly_inv_start plain_deps_def)
  moreover have "ly_layers (layer_start ids deps) = []" "sorted (ly_frontier (layer_start ids deps))"
    by (simp_all add: layer_start_def)
  ultimately show ?thesis by (simp add: ly_state_def layered_def emitted_set_def)
qed

lemma ly_state_step:
  assumes plain: "plain_deps ids deps" and st: "ly_state ids deps s"
  shows "ly_state ids deps (layer_step (scheduling_forward ids deps) s)"
proof -
  let ?fwd = "scheduling_forward ids deps"
  let ?t = "layer_step ?fwd s"
  let ?E = "emitted_set s" and ?F = "set (ly_frontier s)"
  note step = layer_step_spec [of ?fwd s]
  have inv: "ly_inv ids s" using st by (simp add: ly_state_def)
  have F: "?F = avail (dep_get deps) (set ids) ?E" using st by (simp add: ly_state_def)
  have dist: "distinct (ly_frontier s)" "?F \<subseteq> set ids" "?E \<inter> ?F = {}" "?E \<subseteq> set ids"
    using inv by (auto simp: ly_inv_def emitted_set_def)
  have E': "emitted_set ?t = ?E \<union> ?F" unfolding emitted_set_def step(5) by simp
  have deg: "ly_degree ?t l = int (card (set (dep_get deps l) - (?E \<union> ?F - {l})))" if l: "l \<in> set ids" for l
  proof -
    let ?D = "set (dep_get deps l)"
    have "ly_degree s l = int (card (?D - (?E - {l})))" using st l by (simp add: ly_state_def)
    moreover have "int (count_list (concat (map ?fwd (ly_frontier s))) l) = int (card ((?D - {l}) \<inter> ?F))"
      by (simp only: layer_count [OF plain dist(1,2) l])
    moreover have "card (?D - (?E - {l})) = card (?D - (?E \<union> ?F - {l})) + card ((?D - {l}) \<inter> ?F)"
    proof -
      have "?D - (?E - {l}) = (?D - (?E \<union> ?F - {l})) \<union> ((?D - {l}) \<inter> ?F)" using dist(3) by auto
      moreover have "(?D - (?E \<union> ?F - {l})) \<inter> ((?D - {l}) \<inter> ?F) = {}" by auto
      ultimately show ?thesis by (simp add: card_Un_disjoint)
    qed
    ultimately show ?thesis unfolding step(1) by simp
  qed
  have "l \<in> set (ly_frontier ?t) \<longleftrightarrow> l \<in> avail (dep_get deps) (set ids) (?E \<union> ?F)" for l
  proof (cases "l \<in> set ids")
    case True
    let ?D = "set (dep_get deps l)"
    have "l \<in> set (ly_frontier ?t) \<longleftrightarrow> 1 \<le> ly_degree s l \<and> ly_degree ?t l \<le> 0"
      unfolding step(4) unfolding step(1) by auto
    also have "\<dots> \<longleftrightarrow> ?D - (?E - {l}) \<noteq> {} \<and> ?D - (?E \<union> ?F - {l}) = {}"
      using st True deg [OF True] by (auto simp: ly_state_def Suc_le_eq card_gt_0_iff)
    also have "\<dots> \<longleftrightarrow> l \<notin> ?E \<union> ?F \<and> ?D \<subseteq> ?E \<union> ?F"
    proof
      assume a: "?D - (?E - {l}) \<noteq> {} \<and> ?D - (?E \<union> ?F - {l}) = {}"
      then have "?D \<subseteq> ?E \<union> ?F" "l \<notin> ?D" by auto
      moreover have "l \<notin> ?F" using a \<open>l \<notin> ?D\<close> unfolding F avail_def by auto
      moreover have "l \<notin> ?E"
      proof
        assume "l \<in> ?E"
        then have "ly_degree s l \<le> 0" using inv by (auto simp: ly_inv_def emitted_set_def)
        then show False using a st True by (auto simp: ly_state_def)
      qed
      ultimately show "l \<notin> ?E \<union> ?F \<and> ?D \<subseteq> ?E \<union> ?F" by blast
    next
      assume a: "l \<notin> ?E \<union> ?F \<and> ?D \<subseteq> ?E \<union> ?F"
      then have "\<not> ?D \<subseteq> ?E" using True unfolding F avail_def by auto
      then show "?D - (?E - {l}) \<noteq> {} \<and> ?D - (?E \<union> ?F - {l}) = {}" using a by blast
    qed
    finally show ?thesis using True by (auto simp: avail_def)
  next
    case False
    then show ?thesis using ly_inv_step [OF inv, of deps] by (auto simp: avail_def ly_inv_def)
  qed
  then have "set (ly_frontier ?t) = avail (dep_get deps) (set ids) (?E \<union> ?F)" by blast
  moreover have "layered ids deps (ly_layers ?t)"
    using st F unfolding step(5) layered_snoc by (simp add: ly_state_def emitted_set_def)
  ultimately show ?thesis
    unfolding ly_state_def E' using ly_inv_step [OF inv] deg step(3) by blast
qed

lemma layer_run_spec:
  assumes plain: "plain_deps ids deps"
  shows "ly_state ids deps (layer_run ids deps) \<and> ly_frontier (layer_run ids deps) = []"
  unfolding layer_run_def
  by (rule while_rule [where P = "ly_state ids deps"
        and r = "measure (\<lambda>s. length ids - length (concat (ly_layers s)))"])
     (use ly_state_start [OF plain] ly_state_step [OF plain] ly_measure in \<open>auto simp: ly_state_def\<close>)

definition prereq_rel :: "lane_id list \<Rightarrow> lane_deps \<Rightarrow> (lane_id \<times> lane_id) set" where
  "prereq_rel ids deps = {(p, l). l \<in> set ids \<and> p \<in> set (dep_get deps l)}"

text \<open>
  The layering exists exactly when the graph has no cycle; then the \<open>i\<close>-th layer holds
  the lanes whose prerequisites are all in earlier layers and that were not emitted.
\<close>

lemma layers_of_spec:
  assumes plain: "plain_deps ids deps"
  shows "(case layers_of ids deps of
      Inl e \<Rightarrow> e = ValueError \<and> \<not> acyclic (prereq_rel ids deps)
    | Inr ls \<Rightarrow> acyclic (prereq_rel ids deps) \<and> layered ids deps ls \<and> distinct (concat ls) \<and> set (concat ls) = set ids)"
proof -
  let ?s = "layer_run ids deps"
  let ?E = "set (concat (ly_layers ?s))"
  have st: "ly_state ids deps ?s" and stop: "ly_frontier ?s = []" using layer_run_spec [OF plain] by auto
  then have lay: "layered ids deps (ly_layers ?s)" and dist: "distinct (concat (ly_layers ?s))"
    and sub: "?E \<subseteq> set ids" and stuck: "avail (dep_get deps) (set ids) ?E = {}"
    by (auto simp: ly_state_def ly_inv_def emitted_set_def)
  have len: "length (concat (ly_layers ?s)) = length ids \<longleftrightarrow> ?E = set ids"
    using dist sub plain by (metis card_subset_eq distinct_card finite_set plain_deps_def)
  have fin: "finite (prereq_rel ids deps)"
    by (rule finite_subset [of _ "set ids \<times> set ids"]) (use plain in \<open>auto simp: prereq_rel_def plain_deps_def\<close>)
  have all: "?E = set ids" if "acyclic (prereq_rel ids deps)"
  proof (rule ccontr)
    assume "?E \<noteq> set ids"
    then obtain x where x: "x \<in> set ids - ?E" using sub by blast
    have "wf (prereq_rel ids deps)" by (rule finite_acyclic_wf [OF fin that])
    then obtain z where z: "z \<in> set ids - ?E" "\<And>y. (y, z) \<in> prereq_rel ids deps \<Longrightarrow> y \<notin> set ids - ?E"
      using wfE_min [OF _ x] by metis
    have "p \<in> ?E" if "p \<in> set (dep_get deps z)" for p
    proof -
      have "p \<in> set ids" using plain that z(1) unfolding plain_deps_def by blast
      moreover have "(p, z) \<in> prereq_rel ids deps" using that z(1) by (simp add: prereq_rel_def)
      ultimately show ?thesis using z(2) by blast
    qed
    then have "z \<in> avail (dep_get deps) (set ids) ?E" using z(1) by (auto simp: avail_def)
    then show False using stuck by simp
  qed
  have acyc: "acyclic (prereq_rel ids deps)" if e: "?E = set ids"
  proof -
    define ls where "ls = ly_layers ?s"
    define pos where "pos l = (LEAST i. i < length ls \<and> l \<in> set (ls ! i))" for l
    have pos: "pos l < length ls \<and> l \<in> set (ls ! pos l)" if "l \<in> set ids" for l
    proof -
      have "\<exists>i. i < length ls \<and> l \<in> set (ls ! i)"
        using that e [symmetric] by (auto simp: ls_def in_set_conv_nth [of _ "ly_layers ?s"])
      then show ?thesis unfolding pos_def by (rule LeastI_ex)
    qed
    have "pos p < pos l" if r: "(p, l) \<in> prereq_rel ids deps" for p l
    proof -
      have l: "l \<in> set ids" "p \<in> set (dep_get deps l)" using r by (auto simp: prereq_rel_def)
      then have "p \<in> set (concat (take (pos l) ls))"
        using lay pos [OF l(1)] unfolding layered_def ls_def [symmetric] avail_def by blast
      then obtain i where "i < pos l" "i < length ls" "p \<in> set (ls ! i)"
        by (auto simp: in_set_conv_nth [of _ "take (pos l) ls"])
      then show ?thesis unfolding pos_def [of p] by (metis (mono_tags, lifting) Least_le le_less_trans)
    qed
    then have "prereq_rel ids deps \<subseteq> measure pos" by auto
    then show ?thesis by (rule acyclic_subset [rotated]) (rule wf_acyclic [OF wf_measure])
  qed
  show ?thesis using len all acyc lay dist by (auto simp: layers_of_def Let_def)
qed

section \<open>The first two layers, whatever is repeated\<close>

lemma layer_run_starts:
  fixes deps :: lane_deps
  assumes "distinct ids"
  defines "s \<equiv> layer_start ids deps"
  defines "t \<equiv> layer_step (scheduling_forward ids deps) s"
  assumes "ly_frontier s \<noteq> []" "ly_frontier t \<noteq> []"
  shows "\<exists>later. ly_layers (layer_run ids deps) = [ly_frontier s, ly_frontier t] @ later"
proof -
  let ?fwd = "scheduling_forward ids deps"
  let ?P = "\<lambda>x. x = s \<or> x = t \<or> (\<exists>later. ly_layers x = [ly_frontier s, ly_frontier t] @ later)"
  obtain u where u: "while_option (\<lambda>s. ly_frontier s \<noteq> []) (layer_step ?fwd) s = Some u"
    using layering_terminates [OF assms(1)] by (auto simp: s_def)
  have step: "?P (layer_step ?fwd x)" if "?P x" for x
  proof -
    have "ly_layers s = []" by (simp add: s_def layer_start_def)
    then have "ly_layers (layer_step ?fwd t) = [ly_frontier s, ly_frontier t] @ []" by (simp add: t_def layer_step_spec(5))
    then show ?thesis using that layer_step_spec(5) [of ?fwd x] t_def by auto
  qed
  have "?P u" by (rule while_option_rule [OF _ u]) (use step in blast)+
  moreover have "ly_frontier u = []" using while_option_stop [OF u] by simp
  ultimately have "\<exists>later. ly_layers u = [ly_frontier s, ly_frontier t] @ later" using assms(4,5) by auto
  moreover have "layer_run ids deps = u" using u by (simp add: layer_run_def while_def s_def)
  ultimately show ?thesis by simp
qed

text \<open>A lane whose distinct prerequisites are no more than the mentions of one source goes into the second layer.\<close>

lemma second_layer:
  assumes "distinct ids" "distinct (map fst deps)" "layers_of ids deps = Inr layers"
    and "l \<in> set ids" "d \<in> set ids" "d \<in> set (dep_get deps l)" "dep_get deps d = []"
    and "length (remdups (dep_get deps l)) \<le> count_list (dep_get deps l) d"
  shows "l \<in> set (layers ! 1)" "layers ! 0 = sort (filter (\<lambda>x. dep_get deps x = []) ids)"
proof -
  let ?s = "layer_start ids deps"
  let ?t = "layer_step (scheduling_forward ids deps) ?s"
  have f: "ly_frontier ?s = sort (filter (\<lambda>x. dep_get deps x = []) ids)"
    by (simp add: layer_start_def layer_degree_def remdups_eq_nil_iff)
  then have d: "d \<in> set (ly_frontier ?s)" using assms(5,7) by simp
  have "d \<noteq> l" using assms(6,7) by auto
  then have "count_list (scheduling_forward ids deps d) l = count_list (dep_get deps l) d"
    using count_dependents [OF assms(2,5,4)] by (simp add: scheduling_forward_def)
  moreover have "count_list (scheduling_forward ids deps d) l \<le>
      sum_list (map (\<lambda>x. count_list (scheduling_forward ids deps x) l) (ly_frontier ?s))"
    using d by (intro member_le_sum_list) simp_all
  ultimately have "length (remdups (dep_get deps l)) \<le>
      count_list (concat (map (scheduling_forward ids deps) (ly_frontier ?s))) l"
    using assms(8) by (simp add: count_list_concat_map)
  moreover have "0 < length (remdups (dep_get deps l))" using assms(6) by (cases "dep_get deps l") auto
  ultimately have l: "l \<in> set (ly_frontier ?t)"
    unfolding layer_step_spec(4) by (simp add: layer_start_def layer_degree_def Suc_le_eq)
  then have "ly_frontier ?s \<noteq> []" "ly_frontier ?t \<noteq> []" using d by auto
  then obtain later where "ly_layers (layer_run ids deps) = [ly_frontier ?s, ly_frontier ?t] @ later"
    using layer_run_starts [OF assms(1)] by blast
  then have "layers = [ly_frontier ?s, ly_frontier ?t] @ later" using assms(3) by (simp add: layers_of_def Let_def split: if_splits)
  then show "l \<in> set (layers ! 1)" "layers ! 0 = sort (filter (\<lambda>x. dep_get deps x = []) ids)" using l f by simp_all
qed

end
