(* ===== verification/LandingSet.thy ===== *)
theory LandingSet
  imports PyValue Selection "HOL-Library.AList"
begin

text \<open>
  Landing in \<open>lane_ready_set.py\<close>: \<open>_content_gate_refusal\<close>, the choice of one landing
  wave in \<open>compute_landing_ready_set\<close>, and \<open>inspect_landing_ready_set\<close>, which resolves
  the branches with git first.  A candidate is the association list of a Python dict.
\<close>

type_synonym row = "(pyval \<times> pyval) list"

section \<open>The content gate\<close>

datatype refusal_kind =
    GateRed | GateInconclusive | GateMissing | GateStaleBase | GateStaleRevision
  | WriteSetInconclusive | WriteSetOverlap

fun refusal_name :: "refusal_kind \<Rightarrow> string" where
  "refusal_name GateRed = ''content_gate_red''"
| "refusal_name GateInconclusive = ''content_gate_inconclusive''"
| "refusal_name GateMissing = ''content_gate_missing''"
| "refusal_name GateStaleBase = ''content_gate_stale_base''"
| "refusal_name GateStaleRevision = ''content_gate_stale_revision''"
| "refusal_name WriteSetInconclusive = ''write_set_inconclusive''"
| "refusal_name WriteSetOverlap = ''write_set_overlap''"

definition is_hex :: "char \<Rightarrow> bool" where
  "is_hex c = (let n = (of_char c :: nat) in (48 \<le> n \<and> n \<le> 57) \<or> (97 \<le> n \<and> n \<le> 102))"

definition is_sha :: "string \<Rightarrow> bool" where
  "is_sha s \<longleftrightarrow> length s = 40 \<and> list_all is_hex s"

definition gate_fields :: "string list" where
  "gate_fields = [''status'', ''gate_cmd'', ''evidence_ref'', ''observed_at'', ''base_sha'', ''tested_sha'']"

definition filled :: "pyval \<Rightarrow> bool" where
  "filled v = (case v of PStr s \<Rightarrow> py_strip s \<noteq> [] | _ \<Rightarrow> False)"

fun replace_Z :: "string \<Rightarrow> string" where
  "replace_Z [] = []"
| "replace_Z (c # cs) = (if c = CHR ''Z'' then ''+00:00'' @ replace_Z cs else c # replace_Z cs)"

definition text_of :: "pyval \<Rightarrow> string" where
  "text_of v = (case v of PStr s \<Rightarrow> s | _ \<Rightarrow> [])"

text \<open>
  \<open>not x or not re.fullmatch(...) or gate[...] != x\<close>: a value that is true but not a
  string makes \<open>re.fullmatch\<close> raise.
\<close>

definition sha_mismatch :: "pyval \<Rightarrow> pyval \<Rightarrow> bool result" where
  "sha_mismatch want have_sha =
     (if \<not> py_truthy want then Inr True
      else case want of
        PStr s \<Rightarrow> Inr (\<not> is_sha s \<or> have_sha \<noteq> PStr s)
      | _ \<Rightarrow> Inl TypeError)"

definition content_gate_refusal :: "py_lib \<Rightarrow> pyval \<Rightarrow> pyval \<Rightarrow> pyval \<Rightarrow> refusal_kind option result" where
  "content_gate_refusal L gate main_sha candidate_sha =
     (if gate = PNone \<or> gate = PDict [] then Inr (Some GateMissing)
      else if \<not> is_mapping gate then Inr (Some GateInconclusive)
      else if py_get gate ''status'' = PStr ''red'' then Inr (Some GateRed)
      else if py_get gate ''status'' = PStr ''missing'' then Inr (Some GateMissing)
      else if py_get gate ''status'' \<noteq> PStr ''green'' then Inr (Some GateInconclusive)
      else if \<not> list_all (\<lambda>k. filled (py_get gate k)) gate_fields then Inr (Some GateInconclusive)
      else (case iso_has_offset L (replace_Z (text_of (py_get gate ''observed_at''))) of
        None \<Rightarrow> Inr (Some GateInconclusive)
      | Some False \<Rightarrow> Inr (Some GateInconclusive)
      | Some True \<Rightarrow>
          bind_result (sha_mismatch main_sha (py_get gate ''base_sha'')) (\<lambda>stale_base.
          if stale_base then Inr (Some GateStaleBase)
          else bind_result (sha_mismatch candidate_sha (py_get gate ''tested_sha'')) (\<lambda>stale_rev.
          Inr (if stale_rev then Some GateStaleRevision else None)))))"

section \<open>One landing wave\<close>

text \<open>A write set is a list or a tuple of paths; \<open>None\<close> is a value of another kind or a bad path.\<close>

fun good_paths :: "pyval list \<Rightarrow> string list option" where
  "good_paths [] = Some []"
| "good_paths (v # vs) =
     (case v of PStr p \<Rightarrow> if p = [] then None else map_option ((#) p) (good_paths vs) | _ \<Rightarrow> None)"

definition write_set_paths :: "pyval \<Rightarrow> string list option" where
  "write_set_paths v = (case v of PList vs \<Rightarrow> good_paths vs | PTuple vs \<Rightarrow> good_paths vs | _ \<Rightarrow> None)"

definition row_get :: "row \<Rightarrow> string \<Rightarrow> pyval" where
  "row_get r k = py_get (PDict r) k"

definition put_field :: "string \<Rightarrow> pyval \<Rightarrow> row \<Rightarrow> row" where
  "put_field k v r = AList.update (PStr k) v r"

definition drop_field :: "string \<Rightarrow> row \<Rightarrow> row" where
  "drop_field k r = AList.delete (PStr k) r"

definition base_row :: "row \<Rightarrow> row" where
  "base_row cand = put_field ''content_gate'' (row_get cand ''content_gate'') (drop_field ''write_set'' (drop_field ''refusal_kind'' cand))"

record landing =
  ready_rows :: "row list"
  refused_rows :: "row list"
  occupied :: "string set"

definition refuse_row :: "refusal_kind \<Rightarrow> row \<Rightarrow> landing \<Rightarrow> landing" where
  "refuse_row why r s =
     s\<lparr>refused_rows := refused_rows s @ [put_field ''refusal_kind'' (PStr (refusal_name why)) r]\<rparr>"

definition landing_step :: "py_lib \<Rightarrow> pyval \<Rightarrow> (pyval \<Rightarrow> pyval) \<Rightarrow> row \<Rightarrow> landing \<Rightarrow> landing result" where
  "landing_step L main_sha write_sets cand s =
     bind_result (content_gate_refusal L (row_get cand ''content_gate'') main_sha (row_get cand ''candidate_sha''))
       (\<lambda>why. Inr
         (case why of
            Some k \<Rightarrow> refuse_row k (base_row cand) s
          | None \<Rightarrow>
              (case write_set_paths (write_sets (py_get_default (PDict cand) ''lane_id'' (PStr []))) of
                 None \<Rightarrow> refuse_row WriteSetInconclusive (base_row cand) s
               | Some ps \<Rightarrow>
                   (let r = put_field ''write_set'' (PList (map PStr (sort (remdups ps)))) (base_row cand)
                    in if occupied s \<inter> set ps \<noteq> {} then refuse_row WriteSetOverlap r s
                       else \<lparr>ready_rows = ready_rows s @ [r], refused_rows = refused_rows s,
                             occupied = occupied s \<union> set ps\<rparr>))))"

fun landing_loop :: "py_lib \<Rightarrow> pyval \<Rightarrow> (pyval \<Rightarrow> pyval) \<Rightarrow> row list \<Rightarrow> landing \<Rightarrow> landing result" where
  "landing_loop L main_sha write_sets [] s = Inr s"
| "landing_loop L main_sha write_sets (c # cs) s =
     bind_result (landing_step L main_sha write_sets c s) (landing_loop L main_sha write_sets cs)"

definition compute_landing_ready_set :: "py_lib \<Rightarrow> row list \<Rightarrow> pyval \<Rightarrow> (pyval \<Rightarrow> pyval) \<Rightarrow> landing result" where
  "compute_landing_ready_set L candidates main_sha write_sets =
     landing_loop L main_sha write_sets candidates \<lparr>ready_rows = [], refused_rows = [], occupied = {}\<rparr>"

section \<open>Resolving the candidates\<close>

text \<open>
  \<open>git n args\<close> is the standard output of the command, or \<open>None\<close> when it fails; \<open>n\<close> is 0
  for the opening look at \<open>HEAD\<close>, \<open>i + 1\<close> while candidate \<open>i\<close> is resolved and one more
  than the number of candidates for the closing look.
\<close>

type_synonym git = "nat \<Rightarrow> string list \<Rightarrow> string option"

definition git_text :: "string option \<Rightarrow> string" where
  "git_text out = (case out of None \<Rightarrow> [] | Some s \<Rightarrow> py_strip s)"

definition git_head :: "git \<Rightarrow> nat \<Rightarrow> string" where
  "git_head git n = git_text (git n [''rev-parse'', ''--verify'', ''HEAD^{commit}''])"

definition sha_val :: "string \<Rightarrow> pyval" where
  "sha_val s = (if s = [] then PNone else PStr s)"

text \<open>The candidate with its tip, and its write set when one can be established.\<close>

definition resolve_candidate :: "py_lib \<Rightarrow> git \<Rightarrow> string \<Rightarrow> nat \<Rightarrow> row \<Rightarrow> (row \<times> pyval) result" where
  "resolve_candidate L git main n cand0 =
     (let cand = drop_field ''candidate_sha'' cand0
      in case row_get cand ''branch'' of
        PStr branch \<Rightarrow>
          if branch = [] then Inr (cand, PNone)
          else
            (let tip = git_text (git n [''rev-parse'', ''--verify'', ''--end-of-options'', branch @ ''^{commit}''])
             in if \<not> is_sha tip then Inr (cand, PNone)
                else
                  (let cand' = put_field ''candidate_sha'' (PStr tip) cand
                   in bind_result (content_gate_refusal L (row_get cand' ''content_gate'') (sha_val main) (PStr tip))
                        (\<lambda>why. Inr
                          (if why \<noteq> None then (cand', PNone)
                           else (case py_splitlines (case git n [''merge-base'', ''--all'', main, tip] of
                                                       None \<Rightarrow> [] | Some s \<Rightarrow> s) of
                             [base] \<Rightarrow>
                               if \<not> is_sha base then (cand', PNone)
                               else (case git n [''diff'', ''--name-only'', ''--no-renames'', ''-z'', base, tip, ''--''] of
                                  None \<Rightarrow> (cand', PNone)
                                | Some d \<Rightarrow> (cand', PList (map PStr (filter (\<lambda>p. p \<noteq> []) (split_char CHR 0x00 d)))))
                           | _ \<Rightarrow> (cand', PNone))))))
      | _ \<Rightarrow> Inr (cand, PNone))"

fun resolve_all ::
    "py_lib \<Rightarrow> git \<Rightarrow> string \<Rightarrow> nat \<Rightarrow> row list \<Rightarrow> (pyval \<times> pyval) list
      \<Rightarrow> (row list \<times> (pyval \<times> pyval) list) result" where
  "resolve_all L git main n [] ws = Inr ([], ws)"
| "resolve_all L git main n (c # cs) ws =
     bind_result (resolve_candidate L git main n c) (\<lambda>(c', w).
     bind_result (resolve_all L git main (n + 1) cs
         (AList.update (py_get_default (PDict c') ''lane_id'' (PStr [])) w ws)) (\<lambda>(cs', ws').
     Inr (c' # cs', ws')))"

definition inspect_landing_ready_set :: "py_lib \<Rightarrow> git \<Rightarrow> row list \<Rightarrow> landing result" where
  "inspect_landing_ready_set L git candidates =
     (let main = git_head git 0
      in bind_result (resolve_all L git main 1 candidates []) (\<lambda>(cs, ws).
        let moved = (git_head git (length candidates + 1) \<noteq> main)
        in compute_landing_ready_set L cs (if moved then PNone else sha_val main)
             (\<lambda>l. case map_of ws l of None \<Rightarrow> PNone | Some w \<Rightarrow> w)))"

section \<open>The landing wave is a greedy selection\<close>

definition claimed :: "(pyval \<Rightarrow> pyval) \<Rightarrow> row \<Rightarrow> string list option" where
  "claimed write_sets cand = write_set_paths (write_sets (py_get_default (PDict cand) ''lane_id'' (PStr [])))"

definition claim_set :: "(pyval \<Rightarrow> pyval) \<Rightarrow> row \<Rightarrow> string set" where
  "claim_set write_sets cand = (case claimed write_sets cand of None \<Rightarrow> {} | Some ps \<Rightarrow> set ps)"

definition gate_open :: "py_lib \<Rightarrow> pyval \<Rightarrow> row \<Rightarrow> bool" where
  "gate_open L main_sha cand \<longleftrightarrow>
     content_gate_refusal L (row_get cand ''content_gate'') main_sha (row_get cand ''candidate_sha'') = Inr None"

definition eligible :: "py_lib \<Rightarrow> pyval \<Rightarrow> (pyval \<Rightarrow> pyval) \<Rightarrow> row \<Rightarrow> bool" where
  "eligible L main_sha write_sets cand \<longleftrightarrow> gate_open L main_sha cand \<and> claimed write_sets cand \<noteq> None"

definition write_clash :: "(pyval \<Rightarrow> pyval) \<Rightarrow> row \<Rightarrow> row \<Rightarrow> bool" where
  "write_clash write_sets a b \<longleftrightarrow> claim_set write_sets a \<inter> claim_set write_sets b \<noteq> {}"

interpretation landing_exclusion: exclusion "write_clash ws" for ws
  by unfold_locales (auto simp: write_clash_def)

definition ready_row :: "(pyval \<Rightarrow> pyval) \<Rightarrow> row \<Rightarrow> row" where
  "ready_row write_sets cand =
     put_field ''write_set''
       (PList (map PStr (sort (remdups (case claimed write_sets cand of None \<Rightarrow> [] | Some ps \<Rightarrow> ps))))) (base_row cand)"

definition landed :: "py_lib \<Rightarrow> pyval \<Rightarrow> (pyval \<Rightarrow> pyval) \<Rightarrow> row list \<Rightarrow> row list" where
  "landed L main_sha ws cands = greedy (write_clash ws) (filter (eligible L main_sha ws) cands)"

lemma landing_loop_snoc:
  "landing_loop L m ws (cs @ [c]) s = bind_result (landing_loop L m ws cs s) (landing_step L m ws c)"
proof (induction cs arbitrary: s)
  case Nil
  show ?case by (cases "landing_step L m ws c s") simp_all
next
  case (Cons d cs)
  then show ?case by (cases "landing_step L m ws d s") simp_all
qed

lemma refuse_row_fields:
  "ready_rows (refuse_row k r s) = ready_rows s \<and> occupied (refuse_row k r s) = occupied s \<and>
    (\<exists>why q. refused_rows (refuse_row k r s) = refused_rows s @ [put_field ''refusal_kind'' (PStr (refusal_name why)) q])"
  by (auto simp: refuse_row_def)

lemma landing_step_cases:
  assumes "landing_step L m ws c s = Inr t"
  shows "if eligible L m ws c \<and> occupied s \<inter> claim_set ws c = {}
    then t = \<lparr>ready_rows = ready_rows s @ [ready_row ws c], refused_rows = refused_rows s,
              occupied = occupied s \<union> claim_set ws c\<rparr>
    else ready_rows t = ready_rows s \<and> occupied t = occupied s \<and>
      (\<exists>why r. refused_rows t = refused_rows s @ [put_field ''refusal_kind'' (PStr (refusal_name why)) r])"
proof -
  obtain why where why: "content_gate_refusal L (row_get c ''content_gate'') m (row_get c ''candidate_sha'') = Inr why"
    using assms by (auto simp: landing_step_def bind_result_Inr_iff)
  show ?thesis
  proof (cases why)
    case (Some k)
    then have "\<not> eligible L m ws c" "t = refuse_row k (base_row c) s"
      using why assms by (auto simp: eligible_def gate_open_def landing_step_def)
    then show ?thesis using refuse_row_fields by auto
  next
    case None
    then have gate: "gate_open L m c" using why by (simp add: gate_open_def)
    show ?thesis
    proof (cases "claimed ws c")
      case none: None
      then have "\<not> eligible L m ws c" "t = refuse_row WriteSetInconclusive (base_row c) s"
        using why assms None by (auto simp: eligible_def landing_step_def claimed_def)
      then show ?thesis using refuse_row_fields by auto
    next
      case (Some ps)
      then have el: "eligible L m ws c" and cl: "claim_set ws c = set ps"
        using gate by (auto simp: eligible_def claim_set_def)
      have "t = (if occupied s \<inter> set ps \<noteq> {} then refuse_row WriteSetOverlap (ready_row ws c) s
          else \<lparr>ready_rows = ready_rows s @ [ready_row ws c], refused_rows = refused_rows s,
                occupied = occupied s \<union> set ps\<rparr>)"
        using assms why None Some by (cases "occupied s \<inter> set ps = {}") (simp_all add: landing_step_def claimed_def ready_row_def Let_def)
      then show ?thesis using el cl refuse_row_fields by auto
    qed
  qed
qed

lemma landing_loop_greedy:
  assumes "compute_landing_ready_set L cands m ws = Inr s"
  shows "ready_rows s = map (ready_row ws) (landed L m ws cands) \<and>
    occupied s = \<Union> (claim_set ws ` set (landed L m ws cands)) \<and>
    length (ready_rows s) + length (refused_rows s) = length cands"
  using assms
proof (induction cands arbitrary: s rule: rev_induct)
  case Nil
  then show ?case by (auto simp: compute_landing_ready_set_def landed_def)
next
  case (snoc c cands)
  obtain s0 where s0: "compute_landing_ready_set L cands m ws = Inr s0" and step: "landing_step L m ws c s0 = Inr s"
    using snoc.prems by (auto simp: compute_landing_ready_set_def landing_loop_snoc bind_result_Inr_iff)
  have IH: "ready_rows s0 = map (ready_row ws) (landed L m ws cands)"
    "occupied s0 = \<Union> (claim_set ws ` set (landed L m ws cands))"
    "length (ready_rows s0) + length (refused_rows s0) = length cands"
    using snoc.IH [OF s0] by auto
  have clash: "occupied s0 \<inter> claim_set ws c = {} \<longleftrightarrow> \<not> list_ex (write_clash ws c) (landed L m ws cands)"
    by (auto simp: IH(2) list_ex_set write_clash_def)
  have next': "landed L m ws (cands @ [c]) =
      (if eligible L m ws c \<and> \<not> list_ex (write_clash ws c) (landed L m ws cands)
       then landed L m ws cands @ [c] else landed L m ws cands)"
    by (auto simp: landed_def greedy_snoc greedy_step_def)
  show ?case
  proof (cases "eligible L m ws c \<and> occupied s0 \<inter> claim_set ws c = {}")
    case True
    then show ?thesis using landing_step_cases [OF step] IH clash next' by auto
  next
    case False
    then have same: "ready_rows s = ready_rows s0" "occupied s = occupied s0"
      and "length (refused_rows s) = length (refused_rows s0) + 1"
      using landing_step_cases [OF step] unfolding if_not_P [OF False] by auto
    then show ?thesis using False IH clash next' by auto
  qed
qed

text \<open>The candidates that land: all green on the current base and tip, no path claimed twice, none left out for nothing.\<close>

lemma landing_spec:
  assumes "compute_landing_ready_set L cands m ws = Inr s"
  obtains cs where "ready_rows s = map (ready_row ws) cs" and "subseq cs (filter (eligible L m ws) cands)"
    and "sorted_wrt (\<lambda>a b. claim_set ws a \<inter> claim_set ws b = {}) cs"
    and "\<And>c. c \<in> set cands \<Longrightarrow> eligible L m ws c \<Longrightarrow>
      c \<in> set cs \<or> (\<exists>b \<in> set cs. claim_set ws c \<inter> claim_set ws b \<noteq> {})"
proof -
  let ?cs = "landed L m ws cands"
  have 1: "ready_rows s = map (ready_row ws) ?cs" using landing_loop_greedy [OF assms] by simp
  have 2: "subseq ?cs (filter (eligible L m ws) cands)"
    unfolding landed_def by (rule landing_exclusion.greedy_subseq)
  have 3: "sorted_wrt (\<lambda>a b. claim_set ws a \<inter> claim_set ws b = {}) ?cs"
    unfolding landed_def using landing_exclusion.greedy_clash_free
    by (rule sorted_wrt_mono_rel [rotated]) (simp add: write_clash_def)
  have 4: "c \<in> set ?cs \<or> (\<exists>b \<in> set ?cs. claim_set ws c \<inter> claim_set ws b \<noteq> {})"
    if "c \<in> set cands" "eligible L m ws c" for c
    using landing_exclusion.greedy_maximal [of c "filter (eligible L m ws) cands" ws] that
    by (auto simp: landed_def write_clash_def)
  show thesis by (rule that [OF 1 2 3 4])
qed

section \<open>What an open gate means\<close>

lemma sha_mismatch_False: "sha_mismatch want have_sha = Inr False \<longleftrightarrow> (\<exists>s. want = PStr s \<and> is_sha s \<and> have_sha = PStr s)"
proof (cases want)
  case (PStr s)
  then show ?thesis by (cases s) (auto simp: sha_mismatch_def is_sha_def)
qed (auto simp: sha_mismatch_def)

lemma content_gate_open:
  "content_gate_refusal L gate main_sha cand_sha = Inr None \<longleftrightarrow>
    is_mapping gate \<and> gate \<noteq> PDict [] \<and> py_get gate ''status'' = PStr ''green'' \<and>
    list_all (\<lambda>k. filled (py_get gate k)) gate_fields \<and>
    iso_has_offset L (replace_Z (text_of (py_get gate ''observed_at''))) = Some True \<and>
    (\<exists>b. main_sha = PStr b \<and> is_sha b \<and> py_get gate ''base_sha'' = PStr b) \<and>
    (\<exists>t. cand_sha = PStr t \<and> is_sha t \<and> py_get gate ''tested_sha'' = PStr t)"
  unfolding sha_mismatch_False [symmetric]
  by (cases gate)
     (auto simp: content_gate_refusal_def bind_result_Inr_iff split: option.split bool.split if_splits)

text \<open>When \<open>HEAD\<close> has moved since the inspection began, or cannot be read, nothing lands.\<close>

lemma inspect_moved:
  assumes "inspect_landing_ready_set L git cands = Inr s"
    and "git_head git (length cands + 1) \<noteq> git_head git 0 \<or> git_head git 0 = []"
  shows "ready_rows s = []"
proof -
  obtain cs ws where "compute_landing_ready_set L cs PNone ws = Inr s"
    using assms by (auto simp: inspect_landing_ready_set_def bind_result_Inr_iff Let_def sha_val_def split: if_splits)
  then have "ready_rows s = map (ready_row ws) (landed L PNone ws cs)" using landing_loop_greedy by blast
  moreover have "\<not> eligible L PNone ws c" for c
    by (simp add: eligible_def gate_open_def content_gate_open)
  ultimately show ?thesis by (simp add: landed_def)
qed

end
