(* ===== verification/LaneProperties.thy ===== *)
theory LaneProperties
  imports LaneLayers LandingSet
begin

text \<open>
  What the lane planner (\<open>lane_ready_set.py\<close>) promises: which lanes are ready and in which
  order, the graph measures that rank them, the layers, and which candidates may land together.
\<close>

definition demo_manifest :: pyval where
  "demo_manifest = PDict
     [(PStr ''lanes'', PDict [(PStr ''a'', PNone), (PStr ''b'', PNone), (PStr ''c'', PNone), (PStr ''d'', PNone)]),
      (PStr ''depends_on'', PDict [(PStr ''b'', PList [PStr ''a'']), (PStr ''c'', PList [PStr ''b'']),
         (PStr ''d'', PList [PStr ''a''])])]"

definition demo_deps :: lane_deps where
  "demo_deps = [(''b'', [''a'']), (''c'', [''b'']), (''d'', [''a''])]"

definition abcd :: "lane_id list" where "abcd = [''a'', ''b'', ''c'', ''d'']"

lemma manifest_lanes_nonblank: "l \<in> set (manifest_lanes manifest) \<Longrightarrow> l \<noteq> []"
proof -
  have "l \<in> set (string_keys kvs) \<Longrightarrow> l \<noteq> []" for kvs
    by (induction kvs rule: string_keys.induct) (auto split: if_splits)
  then show "l \<in> set (manifest_lanes manifest) \<Longrightarrow> l \<noteq> []" by (simp add: manifest_lanes_def)
qed

lemma dep_edges_target: "(l, a) \<in> (dep_edges deps)\<^sup>+ \<Longrightarrow> a \<noteq> []"
  by (induction rule: trancl.induct) (auto simp: dep_edges_def)

section \<open>Ready lanes\<close>

text \<open>
  Property (functional): the ready lanes are exactly the manifest's lanes that are not completed and
  whose prerequisites hold: without edge facts, every transitive prerequisite is satisfied and
  the lane's own entry is a list; with them, every edge below the lane is proved.
\<close>

theorem ready_lanes_exact:
  "row_lane ` set (fst (compute_ready_set manifest satisfied completed facts)) =
    {l \<in> set (manifest_lanes manifest). l \<notin> set completed \<and>
       (case facts of
          Some fs \<Rightarrow> (proof_edges (depends_on_map manifest))\<^sup>* `` {l} \<subseteq> Collect (edges_proved (depends_on_map manifest) fs)
        | None \<Rightarrow> \<not> invalid_entry (depends_on_map manifest) l \<and>
            (dep_edges (depends_on_map manifest))\<^sup>+ `` {l} - {l} \<subseteq> set satisfied)}"
proof -
  have "transitive_prereqs_satisfied l (depends_on_map manifest) (filter (\<lambda>s. s \<noteq> []) satisfied) facts \<longleftrightarrow>
     (case facts of
          Some fs \<Rightarrow> (proof_edges (depends_on_map manifest))\<^sup>* `` {l} \<subseteq> Collect (edges_proved (depends_on_map manifest) fs)
        | None \<Rightarrow> \<not> invalid_entry (depends_on_map manifest) l \<and>
            (dep_edges (depends_on_map manifest))\<^sup>+ `` {l} - {l} \<subseteq> set satisfied)"
    if "l \<in> set (manifest_lanes manifest)" for l
    unfolding transitive_prereqs_spec [OF manifest_lanes_nonblank [OF that]]
    by (cases facts) (auto dest: dep_edges_target)
  then show ?thesis unfolding ready_set_lanes by blast
qed

text \<open>
  Property (functional): the ready rows come longest remaining chain first, then most descendants,
  then by name.
\<close>

theorem ready_rows_ranked:
  "sorted (map (\<lambda>r. (- int (row_chain r), - int (row_descendants r), row_lane r))
     (fst (compute_ready_set manifest satisfied completed facts)))"
  by (rule ready_rows_sorted)

text \<open>
  Property (equivalence): the worklist that collects a lane's ancestors terminates with every lane
  reachable over the dependency edges, cyclic ones included, once each and never itself.
\<close>

theorem ancestors_exact:
  assumes "l \<noteq> []"
  shows "set (depends_on_ancestors deps l) = (dep_edges deps)\<^sup>+ `` {l} - {l} \<and> distinct (depends_on_ancestors deps l)"
  using ancestors_spec [OF assms] by auto

theorem ancestors_exact_witness:
  "(dep_edges [(''c'', Some [''b'']), (''b'', Some [''a'', ''c''])])\<^sup>+ `` {''c''} - {''c''} = {''a'', ''b''}"
proof -
  have "set (depends_on_ancestors [(''c'', Some [''b'']), (''b'', Some [''a'', ''c''])] ''c'') = {''a'', ''b''}" by code_simp
  then show ?thesis using ancestors_exact [of "''c''" "[(''c'', Some [''b'']), (''b'', Some [''a'', ''c''])]"] by simp
qed

text \<open>
  Property (functional): a lane's descendant count is the number of lanes that depend on it, directly
  or through others, itself excluded.
\<close>

theorem descendants_counted:
  assumes "distinct (map fst deps)"
  shows "descendant_count ids deps l = card ((sched_rel ids deps)\<^sup>+ `` {l} - {l})"
proof -
  have "{d. (l, d) \<in> (sched_rel ids deps)\<^sup>+ \<and> d \<noteq> l} = (sched_rel ids deps)\<^sup>+ `` {l} - {l}" by blast
  then show ?thesis using descendant_count_spec [OF assms] by simp
qed

theorem descendants_counted_witness: "card ((sched_rel abcd demo_deps)\<^sup>+ `` {''a''} - {''a''}) = 3"
proof -
  have "distinct (map fst demo_deps)" "descendant_count abcd demo_deps ''a'' = 3" by code_simp+
  then show ?thesis using descendants_counted by metis
qed

text \<open>
  Property (functional): a lane is critical exactly when some other lane is reached from the roots but
  not by a path that avoids it.
\<close>

theorem critical_lanes_dominate:
  "x \<in> set (directed_critical_lanes ids deps) \<longleftrightarrow>
    x \<in> set ids \<and> (\<exists>p \<in> set ids. p \<noteq> x \<and>
      p \<in> reach_avoiding (sched_succs ids deps) {} (set (dependency_roots ids deps)) \<and>
      p \<notin> reach_avoiding (sched_succs ids deps) {x} (set (dependency_roots ids deps)))"
  by (rule critical_spec)

text \<open>
  Property (equivalence): on an acyclic graph the memoised depth-first search gives every lane the
  length of the longest chain of lanes that depend on it.
\<close>

theorem remaining_chain_longest:
  assumes "distinct (map fst deps)" and "acyclic (sched_rel ids deps - Id)" and "l \<in> set ids"
  shows "chain_length ids deps l =
    (if direct_dependents ids deps l = {} then 0 else 1 + Max (chain_length ids deps ` direct_dependents ids deps l))"
  by (rule chain_length_eq [OF assms])

theorem remaining_chain_longest_witness: "chain_length abcd demo_deps ''a'' = 2 \<and> direct_dependents abcd demo_deps ''c'' = {}"
proof -
  have dist: "distinct (map fst demo_deps)" and len: "chain_length abcd demo_deps ''a'' = 2" "chain_length abcd demo_deps ''c'' = 0"
    and mem: "''c'' \<in> set abcd"
    by code_simp+
  have "sched_rel abcd demo_deps \<subseteq> {(''a'', ''b''), (''b'', ''c''), (''a'', ''d'')}"
    by (auto simp: sched_rel_def demo_deps_def dep_get_def split: if_splits option.splits)
  then have "sched_rel abcd demo_deps - Id \<subseteq> {(''a'', ''b''), (''b'', ''c''), (''a'', ''d'')}" by blast
  moreover have "acyclic {(''a'', ''b''), (''b'', ''c''), (''a'', ''d'')}"
    by (rule acyclicI_order [of _ "\<lambda>s. - int (length (takeWhile (\<lambda>c. c < hd s) ''abcd''))"]) auto
  ultimately have "acyclic (sched_rel abcd demo_deps - Id)" by (meson acyclic_subset)
  from remaining_chain_longest [OF dist this mem] show ?thesis using len by (auto split: if_splits)
qed

section \<open>Layers\<close>

text \<open>
  Property (functional): for prerequisites without repetition the layers hold every lane once, each
  layer being all the lanes whose prerequisites lie in earlier layers, in order of name; and the
  code raises \<open>ValueError\<close> exactly when the prerequisites are cyclic.
\<close>

theorem layers_are_the_earliest:
  assumes "plain_deps ids deps"
  shows "(case layers_of ids deps of
      Inl e \<Rightarrow> e = ValueError \<and> \<not> acyclic (prereq_rel ids deps)
    | Inr ls \<Rightarrow> acyclic (prereq_rel ids deps) \<and> layered ids deps ls \<and> distinct (concat ls) \<and> set (concat ls) = set ids)"
  by (rule layers_of_spec [OF assms])

theorem layers_are_the_earliest_witness:
  "layers_of abcd demo_deps = Inr [[''a''], [''b'', ''d''], [''c'']] \<and> acyclic (prereq_rel abcd demo_deps)"
proof -
  have "plain_deps abcd demo_deps" "layers_of abcd demo_deps = Inr [[''a''], [''b'', ''d''], [''c'']]" by code_simp+
  then show ?thesis using layers_are_the_earliest [of abcd demo_deps] by simp
qed

text \<open>
  C39 (termination): the layering loop ends for any dependencies, cyclic or repeated ones included.
\<close>

theorem layering_ends:
  assumes "distinct ids"
  shows "\<exists>t. while_option (\<lambda>s. ly_frontier s \<noteq> []) (layer_step (scheduling_forward ids deps)) (layer_start ids deps) = Some t"
  by (rule layering_terminates [OF assms])

theorem layering_ends_witness:
  "\<exists>t. while_option (\<lambda>s. ly_frontier s \<noteq> []) (layer_step (scheduling_forward abcd [(''a'', [''b'']), (''b'', [''a''])]))
     (layer_start abcd [(''a'', [''b'']), (''b'', [''a''])]) = Some t"
  by (rule layering_ends) code_simp

text \<open>
  C40 (error): a prerequisite that is listed twice is taken off the count twice, so a lane is not put after all of its
  prerequisites.  In any graph that is layered, a lane that names one prerequisite \<open>d\<close> without prerequisites at least
  as often as it has distinct prerequisites is in the second layer, whatever else it depends on, and none of its
  prerequisites that have prerequisites themselves is in the only layer before it.
\<close>

theorem repeated_prerequisite_misplaced:
  assumes "distinct ids" "distinct (map fst deps)" "layers_of ids deps = Inr layers"
    and "l \<in> set ids" "d \<in> set ids" "d \<in> set (dep_get deps l)" "dep_get deps d = []"
    and "length (remdups (dep_get deps l)) \<le> count_list (dep_get deps l) d"
  shows "l \<in> set (layers ! 1) \<and> (\<forall>e \<in> set (dep_get deps l). dep_get deps e \<noteq> [] \<longrightarrow> e \<notin> set (layers ! 0))"
  using second_layer [OF assms] by simp

text \<open>Lane c waits for a and b, lane b for a, and c names a twice; the manifest gives c the layer of b.\<close>

definition abc :: "lane_id list" where
  "abc = [''a'', ''b'', ''c'']"

definition twice_deps :: lane_deps where
  "twice_deps = [(''b'', [''a'']), (''c'', [''a'', ''a'', ''b''])]"

lemma twice_manifest:
  "compute_layers (PDict
     [(PStr ''lanes'', PDict [(PStr ''a'', PNone), (PStr ''b'', PNone), (PStr ''c'', PNone)]),
      (PStr ''depends_on'', PDict [(PStr ''b'', PList [PStr ''a'']),
         (PStr ''c'', PList [PStr ''a'', PStr ''a'', PStr ''b''])])]) = layers_of abc twice_deps"
  by code_simp

theorem repeated_prerequisite_misplaced_witness:
  "layers_of abc twice_deps = Inr [[''a''], [''b'', ''c'']] \<and> ''b'' \<in> set (dep_get twice_deps ''c'') \<and>
   ''c'' \<in> set ([[''a''], [''b'', ''c'']] ! 1) \<and> ''b'' \<notin> set ([[''a''], [''b'', ''c'']] ! 0)"
proof -
  have run: "layers_of abc twice_deps = Inr [[''a''], [''b'', ''c'']]" by code_simp
  have "distinct abc" "distinct (map fst twice_deps)" "''c'' \<in> set abc" "''a'' \<in> set abc" "''a'' \<in> set (dep_get twice_deps ''c'')"
    "dep_get twice_deps ''a'' = []"
    "length (remdups (dep_get twice_deps ''c'')) \<le> count_list (dep_get twice_deps ''c'') ''a''"
    "''b'' \<in> set (dep_get twice_deps ''c'')" "dep_get twice_deps ''b'' \<noteq> []" by code_simp+
  with run repeated_prerequisite_misplaced [OF _ _ run] show ?thesis by blast
qed

section \<open>Landing\<close>

text \<open>
  C5 (safety): the candidates that may land have an open content gate and a known write set, no
  two of them write the same path, they keep the order of the request, a candidate that is
  refused without a reason of its own overlaps one that lands, and every candidate is answered.
\<close>

theorem landing_safe_maximal:
  assumes run: "compute_landing_ready_set L cands m ws = Inr s"
  shows "\<exists>cs. ready_rows s = map (ready_row ws) cs \<and> subseq cs (filter (eligible L m ws) cands) \<and>
    sorted_wrt (\<lambda>a b. claim_set ws a \<inter> claim_set ws b = {}) cs \<and>
    (\<forall>c \<in> set cands. eligible L m ws c \<longrightarrow> c \<in> set cs \<or> (\<exists>b \<in> set cs. claim_set ws c \<inter> claim_set ws b \<noteq> {})) \<and>
    length (ready_rows s) + length (refused_rows s) = length cands"
proof -
  obtain cs where "ready_rows s = map (ready_row ws) cs" "subseq cs (filter (eligible L m ws) cands)"
      "sorted_wrt (\<lambda>a b. claim_set ws a \<inter> claim_set ws b = {}) cs"
      "\<And>c. c \<in> set cands \<Longrightarrow> eligible L m ws c \<Longrightarrow>
        c \<in> set cs \<or> (\<exists>b \<in> set cs. claim_set ws c \<inter> claim_set ws b \<noteq> {})"
    using landing_spec [OF run] by metis
  moreover have "length (ready_rows s) + length (refused_rows s) = length cands"
    using landing_loop_greedy [OF run] by blast
  ultimately show ?thesis by blast
qed

definition iso_lib :: py_lib where
  "iso_lib = \<lparr>float_repr = (\<lambda>_. []), float_of_str = (\<lambda>_. None), iso_has_offset = (\<lambda>s. Some (in_str ''+00:00'' s))\<rparr>"

definition sha_a :: string where "sha_a = replicate 40 CHR ''a''"
definition sha_b :: string where "sha_b = replicate 40 CHR ''b''"

definition demo_gate :: pyval where
  "demo_gate = PDict [(PStr ''status'', PStr ''green''), (PStr ''gate_cmd'', PStr ''make check''),
     (PStr ''evidence_ref'', PStr ''run:1''), (PStr ''observed_at'', PStr ''2026-01-01T00:00:00Z''),
     (PStr ''base_sha'', PStr sha_a), (PStr ''tested_sha'', PStr sha_b)]"

definition demo_row :: "string \<Rightarrow> row" where
  "demo_row l = [(PStr ''lane_id'', PStr l), (PStr ''candidate_sha'', PStr sha_b), (PStr ''content_gate'', demo_gate)]"

definition demo_writes :: "pyval \<Rightarrow> pyval" where
  "demo_writes l = (if l = PStr ''x'' then PList [PStr ''f'', PStr ''g''] else if l = PStr ''y'' then PList [PStr ''g'']
     else PList [PStr ''h''])"

theorem landing_safe_maximal_witness:
  "\<exists>s. compute_landing_ready_set iso_lib [demo_row ''x'', demo_row ''y'', demo_row ''z''] (PStr sha_a) demo_writes = Inr s \<and>
     length (ready_rows s) = 2 \<and> length (refused_rows s) = 1"
proof -
  let ?cs = "[demo_row ''x'', demo_row ''y'', demo_row ''z'']"
  have "case compute_landing_ready_set iso_lib ?cs (PStr sha_a) demo_writes of
      Inl _ \<Rightarrow> False | Inr s \<Rightarrow> length (ready_rows s) = 2"
    by code_simp
  then obtain s where s: "compute_landing_ready_set iso_lib ?cs (PStr sha_a) demo_writes = Inr s" "length (ready_rows s) = 2"
    by (auto split: sum.splits)
  then show ?thesis using landing_safe_maximal [OF s(1)] by auto
qed

text \<open>
  Property (functional): the content gate is open exactly for a green record whose fields are all
  filled, observed at a time with an offset, for this base and this tested revision.
\<close>

theorem content_gate_exact:
  "content_gate_refusal L gate main_sha cand_sha = Inr None \<longleftrightarrow>
    is_mapping gate \<and> gate \<noteq> PDict [] \<and> py_get gate ''status'' = PStr ''green'' \<and>
    list_all (\<lambda>k. filled (py_get gate k)) gate_fields \<and>
    iso_has_offset L (replace_Z (text_of (py_get gate ''observed_at''))) = Some True \<and>
    (\<exists>b. main_sha = PStr b \<and> is_sha b \<and> py_get gate ''base_sha'' = PStr b) \<and>
    (\<exists>t. cand_sha = PStr t \<and> is_sha t \<and> py_get gate ''tested_sha'' = PStr t)"
  by (rule content_gate_open)

text \<open>
  Property (safety): when the head of the main branch moved while the candidates were resolved, or
  could not be read, nothing may land.
\<close>

theorem moved_head_lands_nothing:
  assumes "inspect_landing_ready_set L git cands = Inr s"
    and "git_head git (length cands + 1) \<noteq> git_head git 0 \<or> git_head git 0 = []"
  shows "ready_rows s = []"
  by (rule inspect_moved [OF assms])

definition moving_git :: git where
  "moving_git n args = (if n = 0 then Some sha_a else Some sha_b)"

theorem moved_head_lands_nothing_witness:
  "\<exists>s. inspect_landing_ready_set iso_lib moving_git [(PStr ''branch'', PStr ''f'') # demo_row ''x''] = Inr s \<and> ready_rows s = []"
proof -
  let ?cs = "[(PStr ''branch'', PStr ''f'') # demo_row ''x'']"
  have "case inspect_landing_ready_set iso_lib moving_git ?cs of Inl _ \<Rightarrow> False | Inr _ \<Rightarrow> True" by code_simp
  then obtain s where s: "inspect_landing_ready_set iso_lib moving_git ?cs = Inr s" by (auto split: sum.splits)
  have "git_head moving_git (length ?cs + 1) \<noteq> git_head moving_git 0 \<or> git_head moving_git 0 = []" by code_simp
  from moved_head_lands_nothing [OF s this] s show ?thesis by blast
qed

end
