(* ===== verification/ResourceLifecycle.thy ===== *)
theory ResourceLifecycle
  imports PyValue
begin

text \<open>
  \<open>resource_lifecycle.py\<close> of the protocol package: the retention contract's packets and
  the two admission functions, which compare what was asked with what was observed and
  list every reason to hold.  The packets are records whose fields have passed the
  validation of pydantic (not modelled); an aware time is its count of microseconds.
  The digest of a packet (SHA-256 over its canonical JSON) is an argument.
\<close>

section \<open>Packets\<close>

datatype proof_state = Verified | Unknown | Denied | Contradictory

datatype operation = Archive | Retire | WithdrawMaterialization

record evidence_ref =
  ev_ref :: string
  ev_digest :: string

record owner =
  repository :: string

datatype resource_kind = Directory | Artifact | GitRepository | GitWorktree | DockerImage | DockerVolume

record resource_identity =
  res_owner :: owner
  res_kind :: resource_kind
  res_identity :: string

datatype source_identity = GitSource string string | DockerSource string

record Proof =
  proof_state :: proof_state
  proof_evidence :: "evidence_ref list"
  observed_at :: "int option"
  valid_until :: "int option"

definition unknown_proof :: Proof where
  "unknown_proof = \<lparr>proof_state = Unknown, proof_evidence = [], observed_at = None, valid_until = None\<rparr>"

record workbay_identity =
  wb_task :: "string option"
  wb_lane :: "string option"
  wb_pass_id :: "string option"
  wb_job :: "string option"

record orca_identity =
  orca_run :: "string option"
  orca_task :: "string option"
  orca_dispatch :: "string option"

record correlation =
  cor_workbay :: "workbay_identity option"
  cor_orca :: "orca_identity option"
  cor_join :: "Proof option"

datatype stream_state = Active | Idle | Dormant | Completed

record stream_expectation =
  st_state :: stream_state
  st_cadence :: "int option"
  st_deadline :: "int option"
  st_grace :: int

record registration =
  reg_resource :: resource_identity
  reg_source :: source_identity
  reg_operation :: operation
  reg_policy :: string
  reg_evidence :: "evidence_ref list"
  reg_correlation :: correlation
  reg_stream :: "stream_expectation option"

datatype edge_relation =
    RelGit | RelSymlink | RelEditable | RelProcess | RelMount | RelContainer | RelChildImage
  | RelRollback | RelDbVolume | RelOther

datatype edge_state = EdgeRequired | EdgeReleased | EdgeUnknown

record dependency_edge =
  edge_consumer :: resource_identity
  edge_provider :: resource_identity
  edge_relation :: edge_relation
  edge_state :: edge_state
  edge_proof :: Proof

record dependency_snapshot =
  dep_edges :: "dependency_edge list"
  dep_inventory_complete :: Proof
  dep_no_live_consumers :: Proof
  dep_scc_clear :: Proof
  dep_members :: "resource_identity list"

datatype custody_scope = FullBytes | Types | Links | Refs | Reflogs | Ignored

record custody_ack =
  cus_resource :: resource_identity
  cus_source :: source_identity
  cus_scope :: "custody_scope list"
  cus_archive :: evidence_ref
  cus_acknowledgement :: Proof
  cus_fidelity :: Proof
  cus_fsck :: "Proof option"

record retention_plan =
  plan_id :: string
  plan_operation_id :: string
  plan_registration :: registration
  plan_dependencies :: dependency_snapshot
  plan_custody :: custody_ack
  plan_created_at :: int

record docker_facts =
  dk_inventory_complete :: Proof
  dk_no_running :: Proof
  dk_no_stopped :: Proof
  dk_no_child_images :: Proof
  dk_rollback_released :: Proof
  dk_db_volume_released :: Proof
  dk_db_volume_permission :: "Proof option"

record retention_probe =
  pr_plan_digest :: string
  pr_registration :: registration
  pr_dependencies_digest :: string
  pr_custody_digest :: string
  pr_owner_verified :: Proof
  pr_source_verified :: Proof
  pr_policy_allowed :: Proof
  pr_completion :: Proof
  pr_no_live_use :: Proof
  pr_dependencies_clear :: Proof
  pr_custody_valid :: Proof
  pr_docker :: "docker_facts option"

record apply_request =
  ap_plan :: retention_plan
  ap_expected_digest :: string
  ap_probe :: retention_probe
  ap_dry_run :: bool

record execution_request =
  rq_resource :: resource_identity
  rq_source :: source_identity
  rq_execution_user :: string
  rq_agent_binary :: string
  rq_workspace :: string
  rq_backend :: string
  rq_provider :: string
  rq_account_ref :: string
  rq_profile_ref :: string
  rq_model :: string
  rq_effort :: string
  rq_service_tier :: string
  rq_correlation :: correlation

record execution_observation =
  ob_resource :: "resource_identity option"
  ob_source :: "source_identity option"
  ob_execution_user :: "string option"
  ob_agent_binary :: "string option"
  ob_workspace :: "string option"
  ob_workspace_accessible :: "bool option"
  ob_backend :: "string option"
  ob_provider :: "string option"
  ob_account_ref :: "string option"
  ob_profile_ref :: "string option"
  ob_served_model :: "string option"
  ob_effort :: "string option"
  ob_service_tier :: "string option"
  ob_supported_models :: "string list option"
  ob_identity_verified :: Proof
  ob_binary_executable :: Proof
  ob_workspace_verified :: Proof
  ob_source_verified :: Proof
  ob_authenticated :: Proof
  ob_catalogue_verified :: Proof
  ob_served_execution_verified :: Proof
  ob_remote_available :: Proof
  ob_cost_allowed :: Proof
  ob_runtime_verified :: Proof
  ob_handoff_available :: Proof

section \<open>Holds\<close>

record held_reason =
  code :: string
  subject :: string

definition hold_of :: "string \<Rightarrow> string \<Rightarrow> held_reason" where
  "hold_of c s = \<lparr>code = c, subject = s\<rparr>"

text \<open>The \<open>Literal\<close> of \<open>Hold.code\<close>: pydantic raises on a code outside it.\<close>

definition hold_codes :: "string list" where
  "hold_codes =
     [''proof_unknown'', ''proof_denied'', ''proof_contradictory'', ''proof_missing_evidence'',
      ''proof_missing_freshness'', ''proof_stale'', ''proof_future'', ''proof_invalid_window'',
      ''execution_user_unknown'', ''execution_user_mismatch'', ''agent_binary_unknown'',
      ''agent_binary_mismatch'', ''agent_binary_not_absolute'', ''workspace_unknown'',
      ''workspace_mismatch'', ''workspace_not_absolute'', ''workspace_access_unknown'',
      ''workspace_inaccessible'', ''source_unknown'', ''source_mismatch'', ''resource_unknown'',
      ''resource_mismatch'', ''foreign_owner'', ''backend_unknown'', ''backend_mismatch'',
      ''provider_unknown'', ''provider_mismatch'', ''account_ref_unknown'', ''account_ref_mismatch'',
      ''profile_ref_unknown'', ''profile_ref_mismatch'', ''served_model_unknown'',
      ''served_model_mismatch'', ''effort_unknown'', ''effort_mismatch'', ''service_tier_unknown'',
      ''service_tier_mismatch'', ''model_catalogue_unknown'', ''model_unsupported'', ''plan_changed'',
      ''registration_changed'', ''dependencies_changed'', ''custody_changed'', ''custody_scope_missing'',
      ''custody_source_mismatch'', ''custody_resource_mismatch'', ''custody_fsck_missing'',
      ''dependency_required'', ''dependency_unknown'', ''scc_held'', ''docker_facts_missing'',
      ''db_volume_permission_missing'', ''stream_expectation_missing'']"

datatype scope = Execution | Retention

text \<open>\<open>effects_authorized\<close> is the literal \<open>false\<close> in both packets.\<close>

datatype admission_result = Allow scope | Held scope "held_reason list"

definition result_of :: "scope \<Rightarrow> held_reason list \<Rightarrow> admission_result" where
  "result_of sc holds = (if holds = [] then Allow sc else Held sc holds)"

definition proof_holds :: "Proof option \<Rightarrow> string \<Rightarrow> int \<Rightarrow> held_reason list" where
  "proof_holds p subj now =
     (case p of
        None \<Rightarrow> [hold_of ''proof_unknown'' subj]
      | Some pf \<Rightarrow>
          (case proof_state pf of
             Unknown \<Rightarrow> [hold_of ''proof_unknown'' subj]
           | Denied \<Rightarrow> [hold_of ''proof_denied'' subj]
           | Contradictory \<Rightarrow> [hold_of ''proof_contradictory'' subj]
           | Verified \<Rightarrow>
               if proof_evidence pf = [] then [hold_of ''proof_missing_evidence'' subj]
               else (case (observed_at pf, valid_until pf) of
                 (Some a, Some b) \<Rightarrow>
                   if b < a then [hold_of ''proof_invalid_window'' subj]
                   else if a > now then [hold_of ''proof_future'' subj]
                   else if now > b then [hold_of ''proof_stale'' subj]
                   else []
               | _ \<Rightarrow> [hold_of ''proof_missing_freshness'' subj])))"

text \<open>\<open>_require_aware_now\<close>: a naive time is \<open>None\<close>.\<close>

definition with_aware_now :: "int option \<Rightarrow> (int \<Rightarrow> 'a) \<Rightarrow> 'a result" where
  "with_aware_now now f = (case now of None \<Rightarrow> Inl ValueError | Some t \<Rightarrow> Inr (f t))"

section \<open>Admitting an execution\<close>

definition compare_field :: "string \<Rightarrow> 'a \<Rightarrow> 'a option \<Rightarrow> held_reason list" where
  "compare_field name expected actual =
     (case actual of
        None \<Rightarrow> [hold_of (name @ ''_unknown'') name]
      | Some a \<Rightarrow> if a \<noteq> expected then [hold_of (name @ ''_mismatch'') name] else [])"

definition compare_resource :: "resource_identity \<Rightarrow> resource_identity option \<Rightarrow> held_reason list" where
  "compare_resource expected actual =
     (case actual of
        None \<Rightarrow> [hold_of ''resource_unknown'' ''resource'']
      | Some a \<Rightarrow>
          if a \<noteq> expected
          then [hold_of (if res_owner a \<noteq> res_owner expected then ''foreign_owner'' else ''resource_mismatch'') ''resource'']
          else [])"

definition not_absolute :: "string \<Rightarrow> bool" where
  "not_absolute v \<longleftrightarrow> \<not> starts_with v ''/'' \<or> ''..'' \<in> set (split_char CHR ''/'' v)"

definition absolute_holds :: "string \<Rightarrow> string \<Rightarrow> string option \<Rightarrow> held_reason list" where
  "absolute_holds name requested observed =
     concat (map (\<lambda>(label, v). case v of
         None \<Rightarrow> []
       | Some p \<Rightarrow> if not_absolute p then [hold_of (name @ ''_not_absolute'') (label @ ''.'' @ name)] else [])
       [(''requested'', Some requested), (''observed'', observed)])"

definition field_holds :: "execution_request \<Rightarrow> execution_observation \<Rightarrow> held_reason list" where
  "field_holds rq ob =
     compare_resource (rq_resource rq) (ob_resource ob) @
     compare_field ''source'' (rq_source rq) (ob_source ob) @
     compare_field ''execution_user'' (rq_execution_user rq) (ob_execution_user ob) @
     compare_field ''agent_binary'' (rq_agent_binary rq) (ob_agent_binary ob) @
     compare_field ''workspace'' (rq_workspace rq) (ob_workspace ob) @
     compare_field ''backend'' (rq_backend rq) (ob_backend ob) @
     compare_field ''provider'' (rq_provider rq) (ob_provider ob) @
     compare_field ''account_ref'' (rq_account_ref rq) (ob_account_ref ob) @
     compare_field ''profile_ref'' (rq_profile_ref rq) (ob_profile_ref ob) @
     compare_field ''effort'' (rq_effort rq) (ob_effort ob) @
     compare_field ''service_tier'' (rq_service_tier rq) (ob_service_tier ob)"

definition model_holds :: "execution_request \<Rightarrow> execution_observation \<Rightarrow> held_reason list" where
  "model_holds rq ob =
     (if ob_workspace_accessible ob = Some True then []
      else [hold_of (if ob_workspace_accessible ob = None then ''workspace_access_unknown''
                     else ''workspace_inaccessible'') ''workspace'']) @
     (case ob_supported_models ob of
        None \<Rightarrow> [hold_of ''model_catalogue_unknown'' ''supported_models'']
      | Some ms \<Rightarrow> if rq_model rq \<notin> set ms then [hold_of ''model_unsupported'' ''supported_models''] else []) @
     (case ob_served_model ob of
        None \<Rightarrow> [hold_of ''served_model_unknown'' ''served_model'']
      | Some m \<Rightarrow> if m \<noteq> rq_model rq then [hold_of ''served_model_mismatch'' ''served_model''] else [])"

definition observed_proofs :: "execution_observation \<Rightarrow> (string \<times> Proof) list" where
  "observed_proofs ob =
     [(''identity_verified'', ob_identity_verified ob), (''binary_executable'', ob_binary_executable ob),
      (''workspace_verified'', ob_workspace_verified ob), (''source_verified'', ob_source_verified ob),
      (''authenticated'', ob_authenticated ob), (''catalogue_verified'', ob_catalogue_verified ob),
      (''served_execution_verified'', ob_served_execution_verified ob),
      (''remote_available'', ob_remote_available ob), (''cost_allowed'', ob_cost_allowed ob),
      (''runtime_verified'', ob_runtime_verified ob), (''handoff_available'', ob_handoff_available ob)]"

definition proofs_holds :: "string \<Rightarrow> (string \<times> Proof) list \<Rightarrow> int \<Rightarrow> held_reason list" where
  "proofs_holds pre ps now = concat (map (\<lambda>(name, p). proof_holds (Some p) (pre @ name) now) ps)"

definition execution_holds :: "execution_request \<Rightarrow> execution_observation \<Rightarrow> int \<Rightarrow> held_reason list" where
  "execution_holds rq ob now =
     field_holds rq ob @
     absolute_holds ''agent_binary'' (rq_agent_binary rq) (ob_agent_binary ob) @
     absolute_holds ''workspace'' (rq_workspace rq) (ob_workspace ob) @
     model_holds rq ob @
     proofs_holds [] (observed_proofs ob) now"

definition admit_execution :: "execution_request \<Rightarrow> execution_observation \<Rightarrow> int option \<Rightarrow> admission_result result" where
  "admit_execution rq ob now = with_aware_now now (\<lambda>t. result_of Execution (execution_holds rq ob t))"

section \<open>Admitting a retention\<close>

record digests =
  digest_plan :: "retention_plan \<Rightarrow> string"
  digest_dependencies :: "dependency_snapshot \<Rightarrow> string"
  digest_custody :: "custody_ack \<Rightarrow> string"

definition when_hold :: "bool \<Rightarrow> string \<Rightarrow> string \<Rightarrow> held_reason list" where
  "when_hold b c s = (if b then [hold_of c s] else [])"

definition binding_holds :: "digests \<Rightarrow> apply_request \<Rightarrow> owner \<Rightarrow> held_reason list" where
  "binding_holds D rq own =
     (let plan = ap_plan rq; probe = ap_probe rq; reg = plan_registration plan; digest = digest_plan D plan
      in when_hold (res_owner (reg_resource reg) \<noteq> own \<or> res_owner (reg_resource (pr_registration probe)) \<noteq> own)
           ''foreign_owner'' ''resource.owner'' @
         when_hold (ap_expected_digest rq \<noteq> digest \<or> pr_plan_digest probe \<noteq> digest) ''plan_changed'' ''plan'' @
         when_hold (reg_source (pr_registration probe) \<noteq> reg_source reg) ''source_mismatch'' ''registration.source'' @
         when_hold (pr_registration probe \<noteq> reg) ''registration_changed'' ''registration'' @
         when_hold (pr_dependencies_digest probe \<noteq> digest_dependencies D (plan_dependencies plan))
           ''dependencies_changed'' ''dependencies'' @
         when_hold (pr_custody_digest probe \<noteq> digest_custody D (plan_custody plan)) ''custody_changed'' ''custody'')"

definition probe_proofs :: "retention_probe \<Rightarrow> (string \<times> Proof) list" where
  "probe_proofs pr =
     [(''owner_verified'', pr_owner_verified pr), (''source_verified'', pr_source_verified pr),
      (''policy_allowed'', pr_policy_allowed pr), (''completion'', pr_completion pr),
      (''no_live_use'', pr_no_live_use pr), (''dependencies_clear'', pr_dependencies_clear pr),
      (''custody_valid'', pr_custody_valid pr)]"

definition edge_holds :: "resource_identity \<Rightarrow> int \<Rightarrow> dependency_edge \<Rightarrow> held_reason list" where
  "edge_holds res now e =
     proof_holds (Some (edge_proof e)) ''dependency.edge'' now @
     when_hold (edge_provider e = res \<and> edge_state e \<noteq> EdgeReleased)
       (if edge_state e = EdgeRequired then ''dependency_required'' else ''dependency_unknown'')
       ''dependency.provider''"

definition dependency_holds :: "resource_identity \<Rightarrow> dependency_snapshot \<Rightarrow> int \<Rightarrow> held_reason list" where
  "dependency_holds res deps now =
     proofs_holds ''dependencies.''
       [(''inventory_complete'', dep_inventory_complete deps), (''no_live_consumers'', dep_no_live_consumers deps),
        (''scc_clear'', dep_scc_clear deps)] now @
     when_hold (length (dep_members deps) > 1) ''scc_held'' ''dependencies.component_members'' @
     concat (map (edge_holds res now) (dep_edges deps))"

fun is_git_source :: "source_identity \<Rightarrow> bool" where
  "is_git_source (GitSource _ _) = True"
| "is_git_source (DockerSource _) = False"

definition required_scope :: "registration \<Rightarrow> custody_scope list" where
  "required_scope reg =
     [FullBytes, Types, Links, Ignored] @ (if is_git_source (reg_source reg) then [Refs, Reflogs] else [])"

definition custody_holds :: "registration \<Rightarrow> custody_ack \<Rightarrow> int \<Rightarrow> held_reason list" where
  "custody_holds reg cus now =
     when_hold (cus_resource cus \<noteq> reg_resource reg) ''custody_resource_mismatch'' ''custody.resource'' @
     when_hold (cus_source cus \<noteq> reg_source reg) ''custody_source_mismatch'' ''custody.source'' @
     (if is_git_source (reg_source reg) then
        (case cus_fsck cus of
           None \<Rightarrow> [hold_of ''custody_fsck_missing'' ''custody.restored_fsck'']
         | Some p \<Rightarrow> proof_holds (Some p) ''custody.restored_fsck'' now)
      else []) @
     when_hold (\<not> list_all (\<lambda>x. x \<in> set (cus_scope cus)) (required_scope reg)) ''custody_scope_missing'' ''custody.scope'' @
     proofs_holds ''custody.'' [(''acknowledgement'', cus_acknowledgement cus), (''fidelity'', cus_fidelity cus)] now"

definition docker_proofs :: "docker_facts \<Rightarrow> (string \<times> Proof) list" where
  "docker_proofs d =
     [(''inventory_complete'', dk_inventory_complete d), (''no_running_containers'', dk_no_running d),
      (''no_stopped_containers'', dk_no_stopped d), (''no_child_images'', dk_no_child_images d),
      (''rollback_released'', dk_rollback_released d), (''db_volume_released'', dk_db_volume_released d)]"

definition docker_holds :: "resource_kind \<Rightarrow> docker_facts option \<Rightarrow> int \<Rightarrow> held_reason list" where
  "docker_holds kind docker now =
     (if kind \<noteq> DockerImage \<and> kind \<noteq> DockerVolume then []
      else case docker of
        None \<Rightarrow> [hold_of ''docker_facts_missing'' ''docker'']
      | Some d \<Rightarrow>
          proofs_holds ''docker.'' (docker_proofs d) now @
          (if kind = DockerVolume then
             (case dk_db_volume_permission d of
                None \<Rightarrow> [hold_of ''db_volume_permission_missing'' ''docker.db_volume_permission'']
              | Some p \<Rightarrow> proof_holds (Some p) ''docker.db_volume_permission'' now)
           else []))"

definition stream_holds :: "registration \<Rightarrow> held_reason list" where
  "stream_holds reg =
     (case reg_stream reg of
        None \<Rightarrow> []
      | Some st \<Rightarrow>
          when_hold (st_state st = Active \<and> st_cadence st = None \<and> st_deadline st = None)
            ''stream_expectation_missing'' ''registration.stream'')"

definition retention_holds :: "digests \<Rightarrow> apply_request \<Rightarrow> owner \<Rightarrow> int \<Rightarrow> held_reason list" where
  "retention_holds D rq own now =
     (let plan = ap_plan rq; probe = ap_probe rq; reg = plan_registration plan
      in binding_holds D rq own @
         proofs_holds [] (probe_proofs probe) now @
         dependency_holds (reg_resource reg) (plan_dependencies plan) now @
         custody_holds reg (plan_custody plan) now @
         docker_holds (res_kind (reg_resource reg)) (pr_docker probe) now @
         stream_holds reg)"

definition admit_retention :: "digests \<Rightarrow> apply_request \<Rightarrow> owner \<Rightarrow> int option \<Rightarrow> admission_result result" where
  "admit_retention D rq own now = with_aware_now now (\<lambda>t. result_of Retention (retention_holds D rq own t))"

section \<open>A fresh positive proof\<close>

definition fresh :: "int \<Rightarrow> Proof \<Rightarrow> bool" where
  "fresh now p \<longleftrightarrow> proof_state p = Verified \<and> proof_evidence p \<noteq> [] \<and>
     (\<exists>a b. observed_at p = Some a \<and> valid_until p = Some b \<and> a \<le> now \<and> now \<le> b)"

lemma proof_holds_Nil: "proof_holds (Some p) s now = [] \<longleftrightarrow> fresh now p"
  by (auto simp: proof_holds_def fresh_def split: proof_state.splits option.splits)

lemma proofs_holds_Nil: "proofs_holds pre ps now = [] \<longleftrightarrow> (\<forall>(name, p) \<in> set ps. fresh now p)"
  by (auto simp: proofs_holds_def proof_holds_Nil)

lemma when_hold_Nil [simp]: "when_hold b c s = [] \<longleftrightarrow> \<not> b"
  by (simp add: when_hold_def)

lemma compare_field_Nil [simp]: "compare_field name e a = [] \<longleftrightarrow> a = Some e"
  by (auto simp: compare_field_def split: option.split)

lemma compare_resource_Nil [simp]: "compare_resource e a = [] \<longleftrightarrow> a = Some e"
  by (auto simp: compare_resource_def split: option.split)

lemma absolute_holds_Nil:
  "absolute_holds name r v = [] \<longleftrightarrow> \<not> not_absolute r \<and> (\<forall>p. v = Some p \<longrightarrow> \<not> not_absolute p)"
  by (auto simp: absolute_holds_def split: option.split)

text \<open>The windows are intervals, so freshness at two times is freshness between them.\<close>

lemma fresh_between: "fresh t1 p \<Longrightarrow> fresh t2 p \<Longrightarrow> t1 \<le> t \<Longrightarrow> t \<le> t2 \<Longrightarrow> fresh t p"
  by (auto simp: fresh_def)

section \<open>Allowed exactly when nothing is missing\<close>

definition served_as_asked :: "execution_request \<Rightarrow> execution_observation \<Rightarrow> bool" where
  "served_as_asked rq ob \<longleftrightarrow>
     ob_resource ob = Some (rq_resource rq) \<and> ob_source ob = Some (rq_source rq) \<and>
     ob_execution_user ob = Some (rq_execution_user rq) \<and> ob_agent_binary ob = Some (rq_agent_binary rq) \<and>
     ob_workspace ob = Some (rq_workspace rq) \<and> ob_backend ob = Some (rq_backend rq) \<and>
     ob_provider ob = Some (rq_provider rq) \<and> ob_account_ref ob = Some (rq_account_ref rq) \<and>
     ob_profile_ref ob = Some (rq_profile_ref rq) \<and> ob_effort ob = Some (rq_effort rq) \<and>
     ob_service_tier ob = Some (rq_service_tier rq) \<and> ob_served_model ob = Some (rq_model rq) \<and>
     (\<exists>ms. ob_supported_models ob = Some ms \<and> rq_model rq \<in> set ms) \<and>
     ob_workspace_accessible ob = Some True \<and>
     \<not> not_absolute (rq_agent_binary rq) \<and> \<not> not_absolute (rq_workspace rq)"

lemma execution_holds_Nil:
  "execution_holds rq ob now = [] \<longleftrightarrow> served_as_asked rq ob \<and> (\<forall>(name, p) \<in> set (observed_proofs ob). fresh now p)"
proof -
  have "field_holds rq ob = [] \<longleftrightarrow>
      ob_resource ob = Some (rq_resource rq) \<and> ob_source ob = Some (rq_source rq) \<and>
     ob_execution_user ob = Some (rq_execution_user rq) \<and> ob_agent_binary ob = Some (rq_agent_binary rq) \<and>
     ob_workspace ob = Some (rq_workspace rq) \<and> ob_backend ob = Some (rq_backend rq) \<and>
     ob_provider ob = Some (rq_provider rq) \<and> ob_account_ref ob = Some (rq_account_ref rq) \<and>
     ob_profile_ref ob = Some (rq_profile_ref rq) \<and> ob_effort ob = Some (rq_effort rq) \<and>
     ob_service_tier ob = Some (rq_service_tier rq)"
    by (simp add: field_holds_def)
  moreover have "model_holds rq ob = [] \<longleftrightarrow> ob_workspace_accessible ob = Some True \<and>
      (\<exists>ms. ob_supported_models ob = Some ms \<and> rq_model rq \<in> set ms) \<and> ob_served_model ob = Some (rq_model rq)"
    by (auto simp: model_holds_def split: option.splits)
  ultimately show ?thesis
    by (auto simp: execution_holds_def absolute_holds_Nil proofs_holds_Nil served_as_asked_def)
qed

text \<open>Every proof that a retention request carries and needs.\<close>

definition needed_proofs :: "apply_request \<Rightarrow> Proof set" where
  "needed_proofs rq =
     (let plan = ap_plan rq; probe = ap_probe rq; reg = plan_registration plan;
          deps = plan_dependencies plan; cus = plan_custody plan; kind = res_kind (reg_resource reg)
      in snd ` set (probe_proofs probe) \<union>
         {dep_inventory_complete deps, dep_no_live_consumers deps, dep_scc_clear deps} \<union>
         edge_proof ` set (dep_edges deps) \<union>
         {cus_acknowledgement cus, cus_fidelity cus} \<union>
         (if is_git_source (reg_source reg) then set_option (cus_fsck cus) else {}) \<union>
         (if kind = DockerImage \<or> kind = DockerVolume
          then (case pr_docker probe of None \<Rightarrow> {} | Some d \<Rightarrow> snd ` set (docker_proofs d)) else {}) \<union>
         (if kind = DockerVolume
          then (case pr_docker probe of None \<Rightarrow> {} | Some d \<Rightarrow> set_option (dk_db_volume_permission d)) else {}))"

text \<open>The conditions of a retention that do not depend on the time.\<close>

definition retention_bound :: "digests \<Rightarrow> apply_request \<Rightarrow> owner \<Rightarrow> bool" where
  "retention_bound D rq own \<longleftrightarrow>
     (let plan = ap_plan rq; probe = ap_probe rq; reg = plan_registration plan;
          deps = plan_dependencies plan; cus = plan_custody plan; kind = res_kind (reg_resource reg)
      in res_owner (reg_resource reg) = own \<and> pr_registration probe = reg \<and>
         ap_expected_digest rq = digest_plan D plan \<and> pr_plan_digest probe = digest_plan D plan \<and>
         pr_dependencies_digest probe = digest_dependencies D deps \<and>
         pr_custody_digest probe = digest_custody D cus \<and>
         length (dep_members deps) \<le> 1 \<and>
         (\<forall>e \<in> set (dep_edges deps). edge_provider e = reg_resource reg \<longrightarrow> edge_state e = EdgeReleased) \<and>
         cus_resource cus = reg_resource reg \<and> cus_source cus = reg_source reg \<and>
         set (required_scope reg) \<subseteq> set (cus_scope cus) \<and>
         (is_git_source (reg_source reg) \<longrightarrow> cus_fsck cus \<noteq> None) \<and>
         (kind = DockerImage \<or> kind = DockerVolume \<longrightarrow> pr_docker probe \<noteq> None) \<and>
         (\<forall>d. kind = DockerVolume \<and> pr_docker probe = Some d \<longrightarrow> dk_db_volume_permission d \<noteq> None) \<and>
         (\<forall>st. reg_stream reg = Some st \<and> st_state st = Active \<longrightarrow> st_cadence st \<noteq> None \<or> st_deadline st \<noteq> None))"

lemma binding_holds_Nil:
  "binding_holds D rq own = [] \<longleftrightarrow>
     (let plan = ap_plan rq; probe = ap_probe rq; reg = plan_registration plan
      in res_owner (reg_resource reg) = own \<and> pr_registration probe = reg \<and>
         ap_expected_digest rq = digest_plan D plan \<and> pr_plan_digest probe = digest_plan D plan \<and>
         pr_dependencies_digest probe = digest_dependencies D (plan_dependencies plan) \<and>
         pr_custody_digest probe = digest_custody D (plan_custody plan))"
  by (auto simp: binding_holds_def Let_def)

lemma edge_holds_Nil:
  "edge_holds res now e = [] \<longleftrightarrow> fresh now (edge_proof e) \<and> (edge_provider e = res \<longrightarrow> edge_state e = EdgeReleased)"
  by (auto simp: edge_holds_def proof_holds_Nil)

lemma custody_holds_Nil:
  "custody_holds reg cus now = [] \<longleftrightarrow>
     cus_resource cus = reg_resource reg \<and> cus_source cus = reg_source reg \<and>
     set (required_scope reg) \<subseteq> set (cus_scope cus) \<and>
     fresh now (cus_acknowledgement cus) \<and> fresh now (cus_fidelity cus) \<and>
     (is_git_source (reg_source reg) \<longrightarrow> (\<exists>p. cus_fsck cus = Some p \<and> fresh now p))"
  by (auto simp: custody_holds_def proofs_holds_Nil proof_holds_Nil list_all_iff split: option.splits)

lemma docker_holds_Nil:
  "docker_holds kind docker now = [] \<longleftrightarrow>
     (kind = DockerImage \<or> kind = DockerVolume \<longrightarrow>
       (\<exists>d. docker = Some d \<and> (\<forall>(name, p) \<in> set (docker_proofs d). fresh now p) \<and>
         (kind = DockerVolume \<longrightarrow> (\<exists>p. dk_db_volume_permission d = Some p \<and> fresh now p))))"
  by (auto simp: docker_holds_def proofs_holds_Nil proof_holds_Nil split: option.splits)

lemma stream_holds_Nil:
  "stream_holds reg = [] \<longleftrightarrow>
     (\<forall>st. reg_stream reg = Some st \<and> st_state st = Active \<longrightarrow> st_cadence st \<noteq> None \<or> st_deadline st \<noteq> None)"
  by (auto simp: stream_holds_def split: option.split)

lemma dependency_holds_Nil:
  "dependency_holds res deps now = [] \<longleftrightarrow>
     fresh now (dep_inventory_complete deps) \<and> fresh now (dep_no_live_consumers deps) \<and>
     fresh now (dep_scc_clear deps) \<and> length (dep_members deps) \<le> 1 \<and>
     (\<forall>e \<in> set (dep_edges deps). fresh now (edge_proof e) \<and> (edge_provider e = res \<longrightarrow> edge_state e = EdgeReleased))"
  by (auto simp: dependency_holds_def proofs_holds_Nil edge_holds_Nil not_less)

lemma docker_needed:
  "(kind = DockerImage \<or> kind = DockerVolume \<longrightarrow> docker \<noteq> None) \<and>
   (\<forall>d. kind = DockerVolume \<and> docker = Some d \<longrightarrow> dk_db_volume_permission d \<noteq> None) \<and>
   (\<forall>p \<in> (if kind = DockerImage \<or> kind = DockerVolume
          then (case docker of None \<Rightarrow> {} | Some d \<Rightarrow> snd ` set (docker_proofs d)) else {}). fresh now p) \<and>
   (\<forall>p \<in> (if kind = DockerVolume
          then (case docker of None \<Rightarrow> {} | Some d \<Rightarrow> set_option (dk_db_volume_permission d)) else {}). fresh now p)
   \<longleftrightarrow> docker_holds kind docker now = []"
proof (cases docker)
  case None
  then show ?thesis by (auto simp: docker_holds_Nil)
next
  case (Some d)
  show ?thesis by (cases "dk_db_volume_permission d"; cases kind) (simp_all add: Some docker_holds_Nil case_prod_beta)
qed

lemma custody_needed:
  "cus_resource cus = reg_resource reg \<and> cus_source cus = reg_source reg \<and>
   set (required_scope reg) \<subseteq> set (cus_scope cus) \<and> (is_git_source (reg_source reg) \<longrightarrow> cus_fsck cus \<noteq> None) \<and>
   (\<forall>p \<in> {cus_acknowledgement cus, cus_fidelity cus}. fresh now p) \<and>
   (\<forall>p \<in> (if is_git_source (reg_source reg) then set_option (cus_fsck cus) else {}). fresh now p)
   \<longleftrightarrow> custody_holds reg cus now = []"
  by (cases "cus_fsck cus") (auto simp: custody_holds_Nil)

lemma dependency_needed:
  "length (dep_members deps) \<le> 1 \<and>
   (\<forall>e \<in> set (dep_edges deps). edge_provider e = res \<longrightarrow> edge_state e = EdgeReleased) \<and>
   (\<forall>p \<in> {dep_inventory_complete deps, dep_no_live_consumers deps, dep_scc_clear deps}. fresh now p) \<and>
   (\<forall>p \<in> edge_proof ` set (dep_edges deps). fresh now p)
   \<longleftrightarrow> dependency_holds res deps now = []"
  by (simp add: dependency_holds_Nil) blast

lemma retention_holds_Nil:
  "retention_holds D rq own now = [] \<longleftrightarrow> retention_bound D rq own \<and> (\<forall>p \<in> needed_proofs rq. fresh now p)"
proof -
  have split: "(\<forall>(name, p) \<in> set ps. fresh now p) \<longleftrightarrow> (\<forall>p \<in> snd ` set ps. fresh now p)" for ps :: "(string \<times> Proof) list"
    by auto
  show ?thesis
    unfolding retention_holds_def Let_def append_is_Nil_conv binding_holds_Nil proofs_holds_Nil stream_holds_Nil split
      retention_bound_def needed_proofs_def ball_Un
      docker_needed [symmetric] custody_needed [symmetric] dependency_needed [symmetric]
    by (simp only: conj_ac)
qed

section \<open>Every hold has a code that the packet accepts\<close>

text \<open>Membership is decided by syntactic equality alone, which is quick on string literals.\<close>

lemmas hold_code_mem = hold_codes_def list.set insert_iff append.simps simp_thms ball_triv

definition coded :: "held_reason list \<Rightarrow> bool" where
  "coded hs = list_all (\<lambda>h. code h \<in> set hold_codes) hs"

lemma coded_simps [simp]:
  "coded []"
  "coded (hold_of c s # hs) \<longleftrightarrow> c \<in> set hold_codes \<and> coded hs"
  "coded (xs @ ys) \<longleftrightarrow> coded xs \<and> coded ys"
  "coded (concat hss) \<longleftrightarrow> (\<forall>hs \<in> set hss. coded hs)"
  by (auto simp: coded_def hold_of_def list_all_iff)

lemma if_coded: "coded (if b then xs else ys) \<longleftrightarrow> (b \<longrightarrow> coded xs) \<and> (\<not> b \<longrightarrow> coded ys)"
  by simp

lemma when_hold_coded [simp]: "coded (when_hold b c s) \<longleftrightarrow> (b \<longrightarrow> c \<in> set hold_codes)"
  by (simp add: when_hold_def)

lemma proof_holds_coded [simp]: "coded (proof_holds p s now)"
  unfolding proof_holds_def
  by (simp split: option.split proof_state.split) (simp only: hold_code_mem)

lemma proofs_holds_coded [simp]: "coded (proofs_holds pre ps now)"
  by (simp add: proofs_holds_def case_prod_beta)

lemma compare_field_coded [simp]:
  "coded (compare_field name e a) \<longleftrightarrow>
     (a = None \<longrightarrow> name @ ''_unknown'' \<in> set hold_codes) \<and>
     (a \<noteq> None \<and> a \<noteq> Some e \<longrightarrow> name @ ''_mismatch'' \<in> set hold_codes)"
  by (cases a) (simp_all add: compare_field_def)

lemma field_holds_coded [simp]: "coded (field_holds rq ob)"
  unfolding field_holds_def compare_resource_def
  by (simp split: option.split) (simp only: hold_code_mem)

lemma absolute_holds_coded [simp]: "name @ ''_not_absolute'' \<in> set hold_codes \<Longrightarrow> coded (absolute_holds name r v)"
  by (simp add: absolute_holds_def split: option.split)

lemma model_holds_coded [simp]: "coded (model_holds rq ob)"
  unfolding model_holds_def by (simp split: option.split) (simp only: hold_code_mem)

lemma execution_holds_coded: "coded (execution_holds rq ob now)"
proof -
  have "''agent_binary'' @ ''_not_absolute'' \<in> set hold_codes" "''workspace'' @ ''_not_absolute'' \<in> set hold_codes"
    by (simp_all only: hold_code_mem)
  then show ?thesis unfolding execution_holds_def coded_simps by (intro conjI) (rule absolute_holds_coded | simp)+
qed

lemma dependency_holds_coded [simp]: "coded (dependency_holds res deps now)"
  unfolding dependency_holds_def edge_holds_def by simp (simp only: hold_code_mem)

lemma custody_holds_coded [simp]: "coded (custody_holds reg cus now)"
  unfolding custody_holds_def by (simp split: option.split) (simp only: hold_code_mem)

lemma docker_holds_coded [simp]: "coded (docker_holds kind docker now)"
  unfolding docker_holds_def by (simp split: option.split) (simp only: hold_code_mem)

lemma stream_holds_coded [simp]: "coded (stream_holds reg)"
  unfolding stream_holds_def by (simp split: option.split) (simp only: hold_code_mem)

lemma binding_holds_coded [simp]: "coded (binding_holds D rq own)"
  unfolding binding_holds_def Let_def by simp (simp only: hold_code_mem)

lemma retention_holds_coded: "coded (retention_holds D rq own now)"
  by (simp add: retention_holds_def Let_def)

section \<open>The two admissions\<close>

lemma result_of_iff [simp]:
  "result_of sc hs = Allow sc' \<longleftrightarrow> hs = [] \<and> sc' = sc"
  "result_of sc hs = Held sc' hs' \<longleftrightarrow> hs \<noteq> [] \<and> sc' = sc \<and> hs' = hs"
  by (auto simp: result_of_def)

lemma with_aware_now_Inr [simp]: "with_aware_now now f = Inr r \<longleftrightarrow> (\<exists>t. now = Some t \<and> f t = r)"
  by (cases now) (auto simp: with_aware_now_def)

lemma fresh_all_between:
  "\<forall>p \<in> A. fresh t1 p \<Longrightarrow> \<forall>p \<in> A. fresh t2 p \<Longrightarrow> t1 \<le> t \<Longrightarrow> t \<le> t2 \<Longrightarrow> \<forall>p \<in> A. fresh t p"
  using fresh_between by blast

lemma retention_between:
  "retention_holds D rq own t1 = [] \<Longrightarrow> retention_holds D rq own t2 = [] \<Longrightarrow> t1 \<le> t \<Longrightarrow> t \<le> t2 \<Longrightarrow>
   retention_holds D rq own t = []"
  unfolding retention_holds_Nil using fresh_all_between by blast

end
