(* ===== verification/RetentionProperties.thy ===== *)
theory RetentionProperties
  imports ResourceLifecycle
begin

text \<open>
  What the retention contract (\<open>resource_lifecycle.py\<close>) promises: the two admissions allow
  exactly when nothing is missing, name only known reasons, and never flicker while every
  proof stays fresh.
\<close>

definition demo_proof :: Proof where
  "demo_proof = \<lparr>proof_state = Verified, proof_evidence = [\<lparr>ev_ref = ''ev:1'', ev_digest = ''d''\<rparr>],
     observed_at = Some 10, valid_until = Some 90\<rparr>"

definition demo_resource :: resource_identity where
  "demo_resource = \<lparr>res_owner = \<lparr>repository = ''repo:x''\<rparr>, res_kind = GitWorktree, res_identity = ''wt''\<rparr>"

definition demo_correlation :: correlation where
  "demo_correlation = \<lparr>cor_workbay = None, cor_orca = None, cor_join = None\<rparr>"

definition demo_request :: execution_request where
  "demo_request = \<lparr>rq_resource = demo_resource, rq_source = GitSource ''r'' ''t'', rq_execution_user = ''u'',
     rq_agent_binary = ''/bin/agent'', rq_workspace = ''/work'', rq_backend = ''b'', rq_provider = ''p'',
     rq_account_ref = ''opaque:a'', rq_profile_ref = ''opaque:p'', rq_model = ''m'', rq_effort = ''low'',
     rq_service_tier = ''standard'', rq_correlation = demo_correlation\<rparr>"

definition demo_observation :: execution_observation where
  "demo_observation = \<lparr>ob_resource = Some demo_resource, ob_source = Some (GitSource ''r'' ''t''), ob_execution_user = Some ''u'',
     ob_agent_binary = Some ''/bin/agent'', ob_workspace = Some ''/work'', ob_workspace_accessible = Some True,
     ob_backend = Some ''b'', ob_provider = Some ''p'', ob_account_ref = Some ''opaque:a'', ob_profile_ref = Some ''opaque:p'',
     ob_served_model = Some ''m'', ob_effort = Some ''low'', ob_service_tier = Some ''standard'',
     ob_supported_models = Some [''n'', ''m''], ob_identity_verified = demo_proof, ob_binary_executable = demo_proof,
     ob_workspace_verified = demo_proof, ob_source_verified = demo_proof, ob_authenticated = demo_proof,
     ob_catalogue_verified = demo_proof, ob_served_execution_verified = demo_proof, ob_remote_available = demo_proof,
     ob_cost_allowed = demo_proof, ob_runtime_verified = demo_proof, ob_handoff_available = demo_proof\<rparr>"

text \<open>
  Property (safety): an execution is allowed exactly at an aware time at which every requested value
  was observed as asked, the model is in the catalogue and is the one served, the paths are
  absolute, and all eleven proofs are verified, with evidence, inside their window.
\<close>

theorem execution_allowed_exactly:
  "admit_execution rq ob now = Inr (Allow Execution) \<longleftrightarrow>
    (\<exists>t. now = Some t \<and> served_as_asked rq ob \<and> snd ` set (observed_proofs ob) \<subseteq> Collect (fresh t))"
  by (cases now) (auto simp: admit_execution_def execution_holds_Nil)

text \<open>
  C6 (safety): a retention is allowed exactly at an aware time at which the owner, registration
  and digests are those of the plan, no dependency edge or component holds the resource, the
  custody covers the required scope, and every proof the plan and the probe need is fresh.
\<close>

theorem retention_allowed_exactly:
  "admit_retention D rq own now = Inr (Allow Retention) \<longleftrightarrow>
    (\<exists>t. now = Some t \<and> retention_bound D rq own \<and> needed_proofs rq \<subseteq> Collect (fresh t))"
  by (cases now) (auto simp: admit_retention_def retention_holds_Nil)

text \<open>
  Property (type): an admission that holds names at least one reason and every reason has a code of
  the packet's closed list, so building the answer never raises; only a naive time does.
\<close>

theorem holds_are_coded:
  "admit_execution rq ob (Some t) = Inr r \<and> admit_retention D ap own (Some t) = Inr r' \<longrightarrow>
    (\<forall>sc hs. r = Held sc hs \<or> r' = Held sc hs \<longrightarrow> hs \<noteq> [] \<and> coded hs)"
  using execution_holds_coded retention_holds_coded
  by (auto simp: admit_execution_def admit_retention_def)

definition demo_digests :: digests where
  "demo_digests = \<lparr>digest_plan = plan_id, digest_dependencies = (\<lambda>_. ''dd''), digest_custody = (\<lambda>_. ''dc'')\<rparr>"

definition demo_registration :: registration where
  "demo_registration = \<lparr>reg_resource = demo_resource, reg_source = GitSource ''r'' ''t'', reg_operation = Retire,
     reg_policy = ''v1'', reg_evidence = [\<lparr>ev_ref = ''ev:1'', ev_digest = ''d''\<rparr>],
     reg_correlation = demo_correlation, reg_stream = None\<rparr>"

definition demo_plan :: retention_plan where
  "demo_plan = \<lparr>plan_id = ''p1'', plan_operation_id = ''o1'', plan_registration = demo_registration,
     plan_dependencies = \<lparr>dep_edges = [], dep_inventory_complete = demo_proof, dep_no_live_consumers = demo_proof,
       dep_scc_clear = demo_proof, dep_members = []\<rparr>,
     plan_custody = \<lparr>cus_resource = demo_resource, cus_source = GitSource ''r'' ''t'',
       cus_scope = [FullBytes, Types, Links, Refs, Reflogs, Ignored],
       cus_archive = \<lparr>ev_ref = ''ev:2'', ev_digest = ''d''\<rparr>, cus_acknowledgement = demo_proof,
       cus_fidelity = demo_proof, cus_fsck = Some demo_proof\<rparr>,
     plan_created_at = 5\<rparr>"

definition demo_apply :: apply_request where
  "demo_apply = \<lparr>ap_plan = demo_plan, ap_expected_digest = ''p1'',
     ap_probe = \<lparr>pr_plan_digest = ''p1'', pr_registration = demo_registration, pr_dependencies_digest = ''dd'',
       pr_custody_digest = ''dc'', pr_owner_verified = demo_proof, pr_source_verified = demo_proof,
       pr_policy_allowed = demo_proof, pr_completion = demo_proof, pr_no_live_use = demo_proof,
       pr_dependencies_clear = demo_proof, pr_custody_valid = demo_proof, pr_docker = None\<rparr>,
     ap_dry_run = True\<rparr>"

theorem holds_are_coded_witness:
  "\<exists>hs. admit_execution demo_request demo_observation (Some 95) = Inr (Held Execution hs) \<and> length hs = 11 \<and> coded hs"
proof -
  have "case admit_execution demo_request demo_observation (Some 95) of
      Inr (Held Execution hs) \<Rightarrow> length hs = 11 | _ \<Rightarrow> False"
    by code_simp
  then obtain hs where "admit_execution demo_request demo_observation (Some 95) = Inr (Held Execution hs)" "length hs = 11"
    by (auto split: sum.splits admission_result.splits scope.splits)
  moreover have "admit_retention demo_digests demo_apply \<lparr>repository = ''repo:x''\<rparr> (Some 95) =
      Inr (result_of Retention (retention_holds demo_digests demo_apply \<lparr>repository = ''repo:x''\<rparr> 95))"
    by (simp add: admit_retention_def)
  ultimately show ?thesis using holds_are_coded by blast
qed

text \<open>
  Property (invariant): the evidence windows are intervals, so a retention allowed at two times is
  allowed at every time between them.
\<close>

theorem retention_stays_allowed:
  assumes "admit_retention D rq own (Some t1) = Inr (Allow Retention)"
    and "admit_retention D rq own (Some t2) = Inr (Allow Retention)" and "t1 \<le> t" "t \<le> t2"
  shows "admit_retention D rq own (Some t) = Inr (Allow Retention)"
  using assms retention_between [of D rq own t1 t2 t] by (simp add: admit_retention_def)

theorem retention_stays_allowed_witness:
  "admit_retention demo_digests demo_apply \<lparr>repository = ''repo:x''\<rparr> (Some 50) = Inr (Allow Retention)"
proof -
  have "admit_retention demo_digests demo_apply \<lparr>repository = ''repo:x''\<rparr> (Some 10) = Inr (Allow Retention)"
       "admit_retention demo_digests demo_apply \<lparr>repository = ''repo:x''\<rparr> (Some 90) = Inr (Allow Retention)"
    by code_simp+
  then show ?thesis by (rule retention_stays_allowed) simp_all
qed

end
