(* ===== verification/Convergence.thy ===== *)
theory Convergence
  imports PyValue "HOL-Library.Sublist"
begin

text \<open>
  \<open>convergence.py\<close> of the protocol package: the control machine of a candidate, and the packets
  whose validators say which combinations of fields may exist.  A packet is a record whose single
  fields have passed their own types (pydantic, not modelled); each \<open>model_validator\<close> is a function
  that returns the packet or \<open>ValueError\<close>.  Next to it stand the clauses of the packet's
  \<open>json_schema_extra\<close>, read as Draft 2020-12 reads them on a packet with all its fields.  A time is
  its count of microseconds.
\<close>

section \<open>The control machine\<close>

datatype control_state =
    UnknownState | Implementing | CandidatePending | CandidateValidated | Reviewed | Shipping
  | Finished | RejectedWithEvidence | BlockedExternal

datatype candidate_event =
    Initialize | Land | Validate | Review | Ship | Reject | Complete | Block | Unblock

definition block_restore_states :: "control_state list" where
  "block_restore_states =
     [Implementing, CandidatePending, CandidateValidated, Reviewed, Shipping, RejectedWithEvidence]"

definition terminal_states :: "control_state list" where
  "terminal_states = [Finished]"

fun legal_transition :: "control_state \<Rightarrow> candidate_event \<Rightarrow> control_state option" where
  "legal_transition UnknownState Initialize = Some Implementing"
| "legal_transition Implementing Land = Some CandidatePending"
| "legal_transition CandidatePending Validate = Some CandidateValidated"
| "legal_transition CandidateValidated Review = Some Reviewed"
| "legal_transition Reviewed Ship = Some Shipping"
| "legal_transition Shipping Complete = Some Finished"
| "legal_transition CandidatePending Reject = Some RejectedWithEvidence"
| "legal_transition CandidateValidated Reject = Some RejectedWithEvidence"
| "legal_transition Reviewed Reject = Some RejectedWithEvidence"
| "legal_transition RejectedWithEvidence Initialize = Some Implementing"
| "legal_transition _ _ = None"

definition admitted_to_state ::
    "control_state \<Rightarrow> candidate_event \<Rightarrow> control_state option \<Rightarrow> control_state option" where
  "admitted_to_state s e blocked_from =
     (if s = UnknownState \<and> e \<noteq> Initialize then None
      else if e = Block \<and> s \<notin> set terminal_states then Some BlockedExternal
      else if e = Unblock then
        (case blocked_from of
           Some b \<Rightarrow> if s = BlockedExternal \<and> b \<in> set block_restore_states then Some b else None
         | None \<Rightarrow> None)
      else legal_transition s e)"

record transition_admission =
  from_state :: control_state
  adm_event :: candidate_event
  to_state :: control_state

definition triple_is_admitted :: "transition_admission \<Rightarrow> transition_admission result" where
  "triple_is_admitted a =
     (if admitted_to_state (from_state a) (adm_event a) (if adm_event a = Unblock then Some (to_state a) else None)
         \<noteq> Some (to_state a)
      then Inl ValueError else Inr a)"

text \<open>\<open>TransitionRefusedError\<close> is a \<open>ValueError\<close>.\<close>

definition admit_candidate_transition ::
    "control_state \<Rightarrow> candidate_event \<Rightarrow> control_state option \<Rightarrow> transition_admission result" where
  "admit_candidate_transition s e blocked_from =
     (case admitted_to_state s e blocked_from of
        None \<Rightarrow> Inl ValueError
      | Some t \<Rightarrow> triple_is_admitted \<lparr>from_state = s, adm_event = e, to_state = t\<rparr>)"

datatype ship_stage =
    Preflight | Merge | IntegrationVerify | MarkDone | CloseLanes | Archive | RemoveWorktree
  | DeleteBranch | LocalReap | RemoteReapVerify | Render | StageComplete

section \<open>Worker outcomes\<close>

record landed_work =
  lw_commit :: "string option"
  lw_ref :: "string option"
  lw_tests :: "bool option"

datatype ceremony_kind = Stopped | Exhausted | Failed | TransportClosed | CompactionFailed | McpWriteRejected

record ceremony_status =
  cer_kind :: "ceremony_kind option"
  cer_retryable :: bool

record worker_outcome =
  wo_landed :: landed_work
  wo_ceremony :: ceremony_status
  wo_merge_ready :: bool

text \<open>
  What \<open>^[^\r\n]*\S[^\r\n]*\<close> can cover.  The validator asks for a full match.  A schema searches, so there the \<open>$\<close> also
  holds before a final newline; its other clauses forbid line breaks and the empty text.
\<close>

definition ref_line :: "string \<Rightarrow> bool" where
  "ref_line s \<longleftrightarrow> list_all (\<lambda>c. c \<noteq> CHR 0x0A \<and> c \<noteq> CHR 0x0D) s \<and> list_ex (\<lambda>c. \<not> py_isspace c) s"

definition is_nonblank_ref :: "string option \<Rightarrow> bool" where
  "is_nonblank_ref r = (case r of None \<Rightarrow> False | Some s \<Rightarrow> ref_line s)"

definition nonblank_ref_schema :: "string option \<Rightarrow> bool" where
  "nonblank_ref_schema r =
     (case r of
        None \<Rightarrow> False
      | Some s \<Rightarrow> 1 \<le> length s \<and> \<not> list_ex (\<lambda>c. c = CHR 0x0A \<or> c = CHR 0x0D) s \<and>
          (ref_line s \<or> (s \<noteq> [] \<and> last s = CHR 0x0A \<and> ref_line (butlast s))))"

definition merge_ready_identity :: "worker_outcome \<Rightarrow> worker_outcome result" where
  "merge_ready_identity w =
     (if wo_merge_ready w then
        (if lw_commit (wo_landed w) = None then Inl ValueError
         else if \<not> is_nonblank_ref (lw_ref (wo_landed w)) then Inl ValueError
         else Inr w)
      else Inr w)"

definition worker_schema :: "worker_outcome \<Rightarrow> bool" where
  "worker_schema w \<longleftrightarrow>
     (wo_merge_ready w \<longrightarrow> lw_commit (wo_landed w) \<noteq> None \<and> nonblank_ref_schema (lw_ref (wo_landed w)))"

section \<open>Review attempts\<close>

datatype review_kind = KVerdict | KTimeout | KUnparseable | KTransportFailure

datatype verdict = Pass | PassWithFindings | Fail

record partial_finding =
  pf_stable_id :: string
  pf_severity :: string
  pf_description :: string
  pf_offset :: int

record review_attempt =
  ra_candidate_sha :: string
  ra_lens :: string
  ra_input_digest :: string
  ra_input_bytes :: int
  ra_fingerprint :: string
  ra_kind :: review_kind
  ra_verdict :: "verdict option"
  ra_findings :: "partial_finding list"
  ra_analysis_budget :: int
  ra_finalization_budget :: int
  ra_analysis_ended :: "int option"
  ra_finalization_started :: "int option"
  ra_retryable :: bool

definition terminal_review_kinds :: "review_kind list" where
  "terminal_review_kinds = [KVerdict, KTimeout, KUnparseable]"

definition verdict_matches_kind :: "review_attempt \<Rightarrow> bool" where
  "verdict_matches_kind r \<longleftrightarrow> (if ra_kind r = KVerdict then ra_verdict r \<noteq> None else ra_verdict r = None)"

definition receipt_invariants :: "review_attempt \<Rightarrow> review_attempt result" where
  "receipt_invariants r =
     (if \<not> verdict_matches_kind r then Inl ValueError
      else if ra_kind r = KTransportFailure then
        (if ra_analysis_ended r \<noteq> None \<or> ra_finalization_started r \<noteq> None then Inl ValueError else Inr r)
      else (case ra_analysis_ended r of
        None \<Rightarrow> Inl ValueError
      | Some ended \<Rightarrow>
          if (ra_kind r = KVerdict \<or> ra_kind r = KUnparseable) \<and> ra_finalization_started r = None then Inl ValueError
          else if (case ra_finalization_started r of None \<Rightarrow> False | Some f \<Rightarrow> f < ended) then Inl ValueError
          else if ra_kind r \<in> set terminal_review_kinds \<and> ra_retryable r then Inl ValueError
          else Inr r))"

definition review_schema :: "review_attempt \<Rightarrow> bool" where
  "review_schema r \<longleftrightarrow>
     (if ra_kind r = KVerdict then ra_verdict r \<noteq> None else ra_verdict r = None) \<and>
     (ra_kind r \<in> set [KVerdict, KUnparseable] \<longrightarrow> ra_analysis_ended r \<noteq> None \<and> ra_finalization_started r \<noteq> None) \<and>
     (ra_kind r = KTimeout \<longrightarrow> ra_analysis_ended r \<noteq> None) \<and>
     (ra_kind r = KTransportFailure \<longrightarrow> ra_analysis_ended r = None \<and> ra_finalization_started r = None) \<and>
     (ra_kind r \<in> set [KVerdict, KTimeout, KUnparseable] \<longrightarrow> \<not> ra_retryable r)"

text \<open>What a schema cannot say: the two times are in order.\<close>

definition times_ordered :: "review_attempt \<Rightarrow> bool" where
  "times_ordered r \<longleftrightarrow>
     (case (ra_analysis_ended r, ra_finalization_started r) of (Some a, Some f) \<Rightarrow> a \<le> f | _ \<Rightarrow> True)"

section \<open>Candidate dispositions\<close>

datatype tip_kind = TipUnknown | Undisposed | Integrated | RejectedNamed

record landed_tip =
  tip_commit :: string
  tip_ref :: "string option"
  tip_disposition :: tip_kind

record candidate_disposition =
  cd_task :: string
  cd_sha :: "string option"
  cd_tips :: "landed_tip list"
  control_state :: control_state
  blocked_from :: "control_state option"
  cd_fingerprint :: string
  cd_repeated :: int

definition closed_tip_dispositions :: "tip_kind list" where
  "closed_tip_dispositions = [Integrated, RejectedNamed]"

definition legacy_unknown_and_sha :: "candidate_disposition \<Rightarrow> candidate_disposition result" where
  "legacy_unknown_and_sha d =
     (if control_state d = UnknownState then
        (if list_ex (\<lambda>t. tip_disposition t \<noteq> TipUnknown) (cd_tips d) then Inl ValueError else Inr d)
      else if cd_sha d = None then Inl ValueError
      else Inr d)"

definition blocked_from_restore_state :: "candidate_disposition \<Rightarrow> candidate_disposition result" where
  "blocked_from_restore_state d =
     (if control_state d = BlockedExternal then
        (if (case blocked_from d of None \<Rightarrow> True | Some b \<Rightarrow> b \<notin> set block_restore_states) then Inl ValueError else Inr d)
      else if blocked_from d \<noteq> None then Inl ValueError
      else Inr d)"

definition terminal_tip_dispositions :: "candidate_disposition \<Rightarrow> candidate_disposition result" where
  "terminal_tip_dispositions d =
     (if control_state d \<in> set [Finished, Shipping, RejectedWithEvidence] \<and>
         (cd_tips d = [] \<or> list_ex (\<lambda>t. tip_disposition t \<notin> set closed_tip_dispositions) (cd_tips d))
      then Inl ValueError
      else if control_state d = RejectedWithEvidence \<and> \<not> list_ex (\<lambda>t. tip_disposition t = RejectedNamed) (cd_tips d)
      then Inl ValueError
      else Inr d)"

text \<open>The three validators in the order of the class.\<close>

definition validate_disposition :: "candidate_disposition \<Rightarrow> candidate_disposition result" where
  "validate_disposition d =
     bind_result (legacy_unknown_and_sha d) (\<lambda>d. bind_result (blocked_from_restore_state d) terminal_tip_dispositions)"

definition disposition_schema :: "candidate_disposition \<Rightarrow> bool" where
  "disposition_schema d \<longleftrightarrow>
     (if control_state d = UnknownState
      then blocked_from d = None \<and> list_all (\<lambda>t. tip_disposition t = TipUnknown) (cd_tips d)
      else cd_sha d \<noteq> None) \<and>
     (if control_state d = BlockedExternal
      then (\<exists>b \<in> set block_restore_states. blocked_from d = Some b) else blocked_from d = None) \<and>
     (control_state d \<in> set [Finished, Shipping] \<longrightarrow>
        1 \<le> length (cd_tips d) \<and> list_all (\<lambda>t. tip_disposition t \<in> set closed_tip_dispositions) (cd_tips d)) \<and>
     (control_state d = RejectedWithEvidence \<longrightarrow>
        1 \<le> length (filter (\<lambda>t. tip_disposition t = RejectedNamed) (cd_tips d)) \<and> 1 \<le> length (cd_tips d) \<and>
        list_all (\<lambda>t. tip_disposition t \<in> set closed_tip_dispositions) (cd_tips d))"

section \<open>Merge capabilities\<close>

record merge_capability =
  mc_task :: string
  mc_sha :: string
  mc_review_run :: string
  mc_close_check :: string
  mc_tests :: "int list"
  mc_open_findings :: int
  mc_consumed_at :: "int option"

text \<open>
  The keyword arguments of \<open>validated_copy\<close>, one constructor per field, and the payload they
  make.  \<open>valid\<close> is what pydantic checks of the single fields.
\<close>

datatype cap_update =
    SetTask string | SetSha string | SetReviewRun string | SetCloseCheck string | SetTests "int list"
  | SetOpenFindings int | SetConsumedAt "int option"

fun apply_update :: "cap_update \<Rightarrow> merge_capability \<Rightarrow> merge_capability" where
  "apply_update (SetTask v) c = c\<lparr>mc_task := v\<rparr>"
| "apply_update (SetSha v) c = c\<lparr>mc_sha := v\<rparr>"
| "apply_update (SetReviewRun v) c = c\<lparr>mc_review_run := v\<rparr>"
| "apply_update (SetCloseCheck v) c = c\<lparr>mc_close_check := v\<rparr>"
| "apply_update (SetTests v) c = c\<lparr>mc_tests := v\<rparr>"
| "apply_update (SetOpenFindings v) c = c\<lparr>mc_open_findings := v\<rparr>"
| "apply_update (SetConsumedAt v) c = c\<lparr>mc_consumed_at := v\<rparr>"

definition mixin_validated_copy ::
    "(merge_capability \<Rightarrow> bool) \<Rightarrow> cap_update list \<Rightarrow> merge_capability \<Rightarrow> merge_capability result" where
  "mixin_validated_copy valid us c = (let c' = fold apply_update us c in if valid c' then Inr c' else Inl ValueError)"

text \<open>\<open>at\<close> is \<open>None\<close> for no time or a naive one.\<close>

definition consume ::
    "(merge_capability \<Rightarrow> bool) \<Rightarrow> int option \<Rightarrow> merge_capability \<Rightarrow> merge_capability result" where
  "consume valid t c =
     (case t of
        None \<Rightarrow> Inl ValueError
      | Some u \<Rightarrow>
          if mc_consumed_at c \<noteq> None then Inl ValueError
          else mixin_validated_copy valid [SetConsumedAt (Some u)] c)"

fun is_consumed_update :: "cap_update \<Rightarrow> bool" where
  "is_consumed_update (SetConsumedAt _) = True"
| "is_consumed_update _ = False"

definition same_bound_fields :: "merge_capability \<Rightarrow> merge_capability \<Rightarrow> bool" where
  "same_bound_fields c d \<longleftrightarrow>
     mc_task c = mc_task d \<and> mc_sha c = mc_sha d \<and> mc_review_run c = mc_review_run d \<and>
     mc_close_check c = mc_close_check d \<and> mc_tests c = mc_tests d \<and> mc_open_findings c = mc_open_findings d"

definition validated_copy ::
    "(merge_capability \<Rightarrow> bool) \<Rightarrow> cap_update list \<Rightarrow> merge_capability \<Rightarrow> merge_capability result" where
  "validated_copy valid us c =
     (if list_ex is_consumed_update us then Inl ValueError
      else bind_result (mixin_validated_copy valid us c) (\<lambda>d.
        if same_bound_fields d c then Inr d else Inl ValueError))"

section \<open>Context packets and ship cleanup\<close>

datatype context_status = Selected | Unavailable

record context_entry =
  ce_kind :: string
  ce_id :: string
  ce_task :: "string option"
  ce_score :: rat
  ce_snippet :: string

datatype invocation_mode = OnnxQuery | StoredVectorQuery | Degraded

datatype score_semantics = CosineRank

record context_packet =
  cp_status :: context_status
  cp_reason :: "string option"
  cp_provider :: "string option"
  cp_query_model :: "string option"
  cp_artifact_digest :: "string option"
  cp_store_models :: "string list"
  cp_mode :: invocation_mode
  cp_server_sha :: "string option"
  cp_server_started :: "int option"
  cp_semantics :: "score_semantics option"
  cp_entries :: "context_entry list"

definition status_invariants :: "context_packet \<Rightarrow> context_packet result" where
  "status_invariants p =
     (case cp_status p of
        Unavailable \<Rightarrow>
          if cp_reason p = None \<or> cp_reason p = Some [] then Inl ValueError
          else if cp_entries p \<noteq> [] then Inl ValueError else Inr p
      | Selected \<Rightarrow>
          if cp_entries p = [] then Inl ValueError
          else if cp_semantics p \<noteq> Some CosineRank then Inl ValueError else Inr p)"

definition packet_schema :: "context_packet \<Rightarrow> bool" where
  "packet_schema p \<longleftrightarrow>
     (if cp_status p = Unavailable
      then length (cp_entries p) \<le> 0 \<and> (\<exists>s \<in> set_option (cp_reason p). 1 \<le> length s)
      else 1 \<le> length (cp_entries p) \<and> cp_semantics p = Some CosineRank)"

datatype remote_cleanup = NotApplicable | CleanupRequired | CleanupVerified | CleanupFailed

record ship_cleanup =
  sc_stage :: ship_stage
  sc_receipts :: bool
  sc_cleanup :: remote_cleanup

definition cleanup_matches_receipts :: "ship_cleanup \<Rightarrow> ship_cleanup result" where
  "cleanup_matches_receipts s =
     (if \<not> sc_receipts s then (if sc_cleanup s \<noteq> NotApplicable then Inl ValueError else Inr s)
      else if sc_cleanup s = NotApplicable then Inl ValueError
      else if sc_stage s = StageComplete \<and> sc_cleanup s \<noteq> CleanupVerified then Inl ValueError
      else Inr s)"

definition cleanup_schema :: "ship_cleanup \<Rightarrow> bool" where
  "cleanup_schema s \<longleftrightarrow>
     (if \<not> sc_receipts s then sc_cleanup s = NotApplicable
      else sc_cleanup s \<in> set [CleanupRequired, CleanupVerified, CleanupFailed]) \<and>
     (sc_receipts s \<and> sc_stage s = StageComplete \<longrightarrow> sc_cleanup s = CleanupVerified)"

section \<open>The oracle and the proof object agree\<close>

lemma restore_not_blocked: "b \<in> set block_restore_states \<Longrightarrow> b \<noteq> BlockedExternal \<and> b \<noteq> UnknownState \<and> b \<noteq> Finished"
  by (auto simp: block_restore_states_def)

lemma admitted_Unblock:
  "admitted_to_state s Unblock bf = Some t \<longleftrightarrow> s = BlockedExternal \<and> bf = Some t \<and> t \<in> set block_restore_states"
  by (auto simp: admitted_to_state_def split: option.split if_splits)

lemma admitted_not_Unblock: "e \<noteq> Unblock \<Longrightarrow> admitted_to_state s e bf = admitted_to_state s e None"
  by (simp add: admitted_to_state_def)

lemma triple_is_admitted_Inr:
  "triple_is_admitted a = Inr b \<longleftrightarrow>
     b = a \<and> (\<exists>bf. admitted_to_state (from_state a) (adm_event a) bf = Some (to_state a))"
proof (cases "adm_event a = Unblock")
  case True
  then show ?thesis by (auto simp: triple_is_admitted_def admitted_Unblock)
next
  case False
  then have "\<And>bf. admitted_to_state (from_state a) (adm_event a) bf = admitted_to_state (from_state a) (adm_event a) None"
    by (rule admitted_not_Unblock)
  then have "(\<exists>bf. admitted_to_state (from_state a) (adm_event a) bf = Some (to_state a)) \<longleftrightarrow>
      admitted_to_state (from_state a) (adm_event a) None = Some (to_state a)" by metis
  with False show ?thesis by (auto simp: triple_is_admitted_def)
qed

lemma admit_candidate_Inr:
  "admit_candidate_transition s e bf = Inr a \<longleftrightarrow>
     a = \<lparr>from_state = s, adm_event = e, to_state = to_state a\<rparr> \<and> admitted_to_state s e bf = Some (to_state a)"
  by (cases a) (auto simp: admit_candidate_transition_def triple_is_admitted_Inr split: option.splits)

lemma legal_not_special:
  "legal_transition s e = Some t \<Longrightarrow>
     e \<noteq> Block \<and> e \<noteq> Unblock \<and> s \<noteq> BlockedExternal \<and> t \<noteq> BlockedExternal \<and> t \<noteq> UnknownState"
  by (induction s e rule: legal_transition.induct) auto

text \<open>The three ways an event is admitted.\<close>

lemma admitted_cases:
  assumes "admitted_to_state s e bf = Some t"
  obtains "e = Block" "t = BlockedExternal" "s \<noteq> UnknownState" "s \<noteq> Finished"
  | "e = Unblock" "s = BlockedExternal" "bf = Some t" "t \<in> set block_restore_states"
  | "legal_transition s e = Some t" "e \<noteq> Block" "e \<noteq> Unblock" "s \<noteq> BlockedExternal" "t \<noteq> BlockedExternal"
proof (cases "e = Unblock")
  case True
  with assms that(2) show ?thesis by (simp add: admitted_Unblock)
next
  case False
  have known: "s \<noteq> UnknownState \<or> e = Initialize"
    using assms by (simp add: admitted_to_state_def split: if_splits)
  show ?thesis
  proof (cases "e = Block \<and> s \<noteq> Finished")
    case True
    with assms known that(1) show ?thesis by (simp add: admitted_to_state_def terminal_states_def split: if_splits)
  next
    case neither: False
    with False known have "admitted_to_state s e bf = legal_transition s e"
      by (simp add: admitted_to_state_def terminal_states_def)
    with assms have "legal_transition s e = Some t" by simp
    with legal_not_special [OF this] that(3) show ?thesis by blast
  qed
qed

section \<open>Validators and schemas agree\<close>

lemma checked_Inr: "(if P then Inl e else Inr r) = Inr r' \<longleftrightarrow> r' = r \<and> \<not> P"
  by auto

lemma review_agree: "receipt_invariants r = Inr r' \<longleftrightarrow> r' = r \<and> review_schema r \<and> times_ordered r"
proof (cases "ra_analysis_ended r")
  case None
  then show ?thesis
    by (cases "ra_kind r")
       (simp_all add: receipt_invariants_def review_schema_def times_ordered_def verdict_matches_kind_def
          checked_Inr)
next
  case (Some a)
  then show ?thesis
    by (cases "ra_kind r"; cases "ra_finalization_started r")
       (simp_all add: receipt_invariants_def review_schema_def times_ordered_def verdict_matches_kind_def
          terminal_review_kinds_def checked_Inr not_less)
qed

lemma filter_ge_1: "1 \<le> length (filter P xs) \<longleftrightarrow> list_ex P xs"
  by (induction xs) auto

lemma not_list_ex: "\<not> list_ex (\<lambda>x. \<not> P x) xs \<longleftrightarrow> list_all P xs"
  by (induction xs) auto

lemma legacy_Inr:
  "legacy_unknown_and_sha d = Inr d' \<longleftrightarrow> d' = d \<and>
     (if control_state d = UnknownState then list_all (\<lambda>t. tip_disposition t = TipUnknown) (cd_tips d)
      else cd_sha d \<noteq> None)"
  by (simp add: legacy_unknown_and_sha_def checked_Inr not_list_ex)

lemma blocked_from_Inr:
  "blocked_from_restore_state d = Inr d' \<longleftrightarrow> d' = d \<and>
     (if control_state d = BlockedExternal
      then (\<exists>b \<in> set block_restore_states. blocked_from d = Some b) else blocked_from d = None)"
  by (cases "blocked_from d") (auto simp: blocked_from_restore_state_def checked_Inr)

lemma terminal_tips_Inr:
  "terminal_tip_dispositions d = Inr d' \<longleftrightarrow> d' = d \<and>
     (control_state d \<in> set [Finished, Shipping, RejectedWithEvidence] \<longrightarrow>
        cd_tips d \<noteq> [] \<and> list_all (\<lambda>t. tip_disposition t \<in> set closed_tip_dispositions) (cd_tips d)) \<and>
     (control_state d = RejectedWithEvidence \<longrightarrow> list_ex (\<lambda>t. tip_disposition t = RejectedNamed) (cd_tips d))"
  unfolding terminal_tip_dispositions_def not_list_ex [symmetric] by (auto split: if_splits)

lemma disposition_agree: "validate_disposition d = Inr d' \<longleftrightarrow> d' = d \<and> disposition_schema d"
proof -
  have "validate_disposition d = Inr d' \<longleftrightarrow> legacy_unknown_and_sha d = Inr d \<and>
      blocked_from_restore_state d = Inr d \<and> terminal_tip_dispositions d = Inr d'"
    by (auto simp: validate_disposition_def bind_result_Inr_iff legacy_Inr blocked_from_Inr)
  also have "\<dots> \<longleftrightarrow> d' = d \<and> disposition_schema d"
    unfolding legacy_Inr blocked_from_Inr terminal_tips_Inr disposition_schema_def filter_ge_1
    by (cases "control_state d"; simp add: Suc_le_eq; blast)
  finally show ?thesis .
qed

lemma nonblank_ref_agree: "nonblank_ref_schema r \<longleftrightarrow> is_nonblank_ref r"
proof (cases r)
  case (Some s)
  have "ref_line s \<Longrightarrow> s \<noteq> [] \<and> \<not> list_ex (\<lambda>c. c = CHR 0x0A \<or> c = CHR 0x0D) s"
    unfolding ref_line_def list_all_iff list_ex_iff by fastforce
  moreover have "s \<noteq> [] \<Longrightarrow> last s = CHR 0x0A \<Longrightarrow> list_ex (\<lambda>c. c = CHR 0x0A \<or> c = CHR 0x0D) s"
    unfolding list_ex_iff using last_in_set by blast
  moreover have "1 \<le> length s \<longleftrightarrow> s \<noteq> []" by (cases s) simp_all
  ultimately have "1 \<le> length s \<and> \<not> list_ex (\<lambda>c. c = CHR 0x0A \<or> c = CHR 0x0D) s \<and>
      (ref_line s \<or> (s \<noteq> [] \<and> last s = CHR 0x0A \<and> ref_line (butlast s))) \<longleftrightarrow> ref_line s" by argo
  then show ?thesis by (simp only: Some nonblank_ref_schema_def is_nonblank_ref_def option.case)
qed (simp add: nonblank_ref_schema_def is_nonblank_ref_def)

lemma worker_agree: "merge_ready_identity w = Inr w' \<longleftrightarrow> w' = w \<and> worker_schema w"
  by (auto simp: merge_ready_identity_def worker_schema_def nonblank_ref_agree)

lemma packet_agree: "status_invariants p = Inr p' \<longleftrightarrow> p' = p \<and> packet_schema p"
  by (cases "cp_status p"; cases "cp_reason p") (auto simp: status_invariants_def packet_schema_def Suc_le_eq)

lemma cleanup_agree: "cleanup_matches_receipts s = Inr s' \<longleftrightarrow> s' = s \<and> cleanup_schema s"
  by (cases "sc_cleanup s") (auto simp: cleanup_matches_receipts_def cleanup_schema_def)

section \<open>Capabilities are used once\<close>

lemma fold_unconsumed:
  "\<not> list_ex is_consumed_update us \<Longrightarrow> mc_consumed_at (fold apply_update us c) = mc_consumed_at c"
proof (induction us arbitrary: c)
  case (Cons u us)
  then show ?case by (cases u) auto
qed simp

lemma validated_copy_same: "validated_copy valid us c = Inr d \<Longrightarrow> d = c"
  using fold_unconsumed [of us c]
  by (cases c; cases d)
     (auto simp: validated_copy_def mixin_validated_copy_def same_bound_fields_def bind_result_Inr_iff Let_def
        split: if_splits)

lemma consume_Inr:
  "consume valid t c = Inr d \<longleftrightarrow>
     (\<exists>u. t = Some u \<and> mc_consumed_at c = None \<and> d = c\<lparr>mc_consumed_at := Some u\<rparr> \<and> valid d)"
  by (auto simp: consume_def mixin_validated_copy_def Let_def split: option.splits)

end
