(* ===== verification/ConvergenceProperties.thy ===== *)
theory ConvergenceProperties
  imports Convergence
begin

text \<open>
  Properties of \<open>Convergence\<close>: which runs of the control machine reach \<open>Finished\<close>, what the
  transition proof object accepts, that validators and published schemas agree, and that a merge
  capability is used once.
\<close>

section \<open>Runs\<close>

text \<open>
  A candidate is a control state with its \<open>blocked_from\<close>.  A step admits an event and keeps the pair
  in the form \<open>CandidateDisposition\<close> validates: entering \<open>BlockedExternal\<close> remembers the state left
  (a second \<open>Block\<close> keeps what is remembered), every other state has none.
\<close>

definition remembered :: "control_state \<Rightarrow> control_state option \<Rightarrow> control_state \<Rightarrow> control_state option" where
  "remembered s bf t =
     (if t = BlockedExternal then (if s = BlockedExternal then bf else Some s) else None)"

inductive candidate_run ::
    "candidate_event list \<Rightarrow> control_state \<Rightarrow> control_state option \<Rightarrow> bool" where
  run_start: "candidate_run [] UnknownState None"
| run_admit: "candidate_run es s bf \<Longrightarrow> admit_candidate_transition s e bf = Inr a \<Longrightarrow>
    candidate_run (es @ [e]) (to_state a) (remembered s bf (to_state a))"

definition effective_state :: "control_state \<Rightarrow> control_state option \<Rightarrow> control_state" where
  "effective_state s bf = (case bf of Some b \<Rightarrow> b | None \<Rightarrow> s)"

text \<open>The events a state owes its existence to.\<close>

fun milestones :: "control_state \<Rightarrow> candidate_event list" where
  "milestones Implementing = [Initialize]"
| "milestones CandidatePending = [Initialize, Land]"
| "milestones CandidateValidated = [Initialize, Land, Validate]"
| "milestones Reviewed = [Initialize, Land, Validate, Review]"
| "milestones Shipping = [Initialize, Land, Validate, Review, Ship]"
| "milestones Finished = [Initialize, Land, Validate, Review, Ship, Complete]"
| "milestones RejectedWithEvidence = [Initialize, Land]"
| "milestones _ = []"

lemma legal_milestones:
  "legal_transition s e = Some t \<Longrightarrow> subseq (milestones t) (milestones s @ [e])"
  by (induction s e rule: legal_transition.induct) auto

definition run_ok :: "candidate_event list \<Rightarrow> control_state \<Rightarrow> control_state option \<Rightarrow> bool" where
  "run_ok es s bf \<longleftrightarrow>
     (s = BlockedExternal \<longleftrightarrow> bf \<noteq> None) \<and> set_option bf \<subseteq> set block_restore_states \<and>
     subseq (milestones (effective_state s bf)) es"

lemma subseq_snoc: "subseq xs es \<Longrightarrow> subseq xs (es @ [e])"
  by (rule list_emb_prefix)

lemma restorable: "s \<noteq> UnknownState \<Longrightarrow> s \<noteq> Finished \<Longrightarrow> s \<noteq> BlockedExternal \<Longrightarrow> s \<in> set block_restore_states"
  by (cases s) (simp_all add: block_restore_states_def)

lemma run_ok_step:
  assumes "run_ok es s bf" "admitted_to_state s e bf = Some t"
  shows "run_ok (es @ [e]) t (remembered s bf t)"
  using assms(2)
proof (cases rule: admitted_cases)
  case 1
  with assms(1) restorable [of s] show ?thesis
    by (cases "s = BlockedExternal")
       (auto simp: run_ok_def remembered_def effective_state_def subseq_snoc)
next
  case 2
  with assms(1) restore_not_blocked [of t] show ?thesis
    by (auto simp: run_ok_def remembered_def effective_state_def subseq_snoc)
next
  case 3
  with assms(1) have "bf = None" by (simp add: run_ok_def)
  with assms(1) have "subseq (milestones s @ [e]) (es @ [e])"
    by (simp add: run_ok_def effective_state_def)
  from subseq_order.trans [OF legal_milestones [OF 3(1)] this] 3 show ?thesis
    by (simp add: run_ok_def remembered_def effective_state_def)
qed

lemma run_ok: "candidate_run es s bf \<Longrightarrow> run_ok es s bf"
proof (induction rule: candidate_run.induct)
  case run_start
  show ?case by (simp add: run_ok_def effective_state_def)
next
  case (run_admit es s bf e a)
  from run_admit.hyps(2) have "admitted_to_state s e bf = Some (to_state a)" by (simp add: admit_candidate_Inr)
  from run_ok_step [OF run_admit.IH this] show ?case .
qed

text \<open>
  C35 (safety): nothing ships unseen.  A run of admitted events that ends in \<open>Finished\<close> holds
  Initialize, Land, Validate, Review, Ship and Complete in this order, whatever was rejected,
  blocked, unblocked and started again between; a run in \<open>Shipping\<close> holds the first five.
\<close>

theorem finished_was_reviewed:
  "(candidate_run es Finished bf \<longrightarrow> subseq [Initialize, Land, Validate, Review, Ship, Complete] es) \<and>
   (candidate_run es Shipping bf \<longrightarrow> subseq [Initialize, Land, Validate, Review, Ship] es)"
  using run_ok [of es Finished bf] run_ok [of es Shipping bf]
  by (auto simp: run_ok_def effective_state_def)

lemma demo_run:
  "candidate_run [Initialize, Land, Validate, Block, Unblock, Review, Ship, Complete] Finished None"
proof -
  have step: "\<And>es s bf e t. candidate_run es s bf \<Longrightarrow>
      admit_candidate_transition s e bf = Inr \<lparr>from_state = s, adm_event = e, to_state = t\<rparr> \<Longrightarrow>
      candidate_run (es @ [e]) t (remembered s bf t)"
    by (drule run_admit, assumption) simp
  note eval = admit_candidate_transition_def triple_is_admitted_def admitted_to_state_def terminal_states_def
    block_restore_states_def remembered_def
  have "candidate_run [Initialize] Implementing None"
    using step [OF run_start, of Initialize Implementing] by (simp add: eval)
  from step [OF this, of Land CandidatePending] have "candidate_run [Initialize, Land] CandidatePending None"
    by (simp add: eval)
  from step [OF this, of Validate CandidateValidated]
  have "candidate_run [Initialize, Land, Validate] CandidateValidated None" by (simp add: eval)
  from step [OF this, of Block BlockedExternal]
  have "candidate_run [Initialize, Land, Validate, Block] BlockedExternal (Some CandidateValidated)"
    by (simp add: eval)
  from step [OF this, of Unblock CandidateValidated]
  have "candidate_run [Initialize, Land, Validate, Block, Unblock] CandidateValidated None" by (simp add: eval)
  from step [OF this, of Review Reviewed]
  have "candidate_run [Initialize, Land, Validate, Block, Unblock, Review] Reviewed None" by (simp add: eval)
  from step [OF this, of Ship Shipping]
  have "candidate_run [Initialize, Land, Validate, Block, Unblock, Review, Ship] Shipping None" by (simp add: eval)
  from step [OF this, of Complete Finished] show ?thesis by (simp add: eval)
qed

theorem finished_was_reviewed_witness:
  "subseq [Initialize, Land, Validate, Review, Ship, Complete]
     [Initialize, Land, Validate, Block, Unblock, Review, Ship, Complete]"
  using finished_was_reviewed [of "[Initialize, Land, Validate, Block, Unblock, Review, Ship, Complete]" None] demo_run
  by blast

section \<open>The proof object\<close>

text \<open>
  Property (equivalence): the proof object and the oracle are one table.  A triple validates exactly when
  some \<open>blocked_from\<close> makes \<open>admit_candidate_transition\<close> return it, so no other way builds a
  transition; and what the oracle returns starts where it was asked, in a state other than
  UnknownState, and never from Finished.
\<close>

theorem proof_object_is_oracle:
  "(triple_is_admitted a = Inr b \<longleftrightarrow>
      b = a \<and> (\<exists>bf. admit_candidate_transition (from_state a) (adm_event a) bf = Inr a)) \<and>
   (admit_candidate_transition s e bf = Inr c \<longrightarrow>
      from_state c = s \<and> adm_event c = e \<and> to_state c \<noteq> UnknownState \<and> s \<noteq> Finished)"
proof
  show "triple_is_admitted a = Inr b \<longleftrightarrow>
      b = a \<and> (\<exists>bf. admit_candidate_transition (from_state a) (adm_event a) bf = Inr a)"
    by (simp add: triple_is_admitted_Inr admit_candidate_Inr)
  show "admit_candidate_transition s e bf = Inr c \<longrightarrow>
      from_state c = s \<and> adm_event c = e \<and> to_state c \<noteq> UnknownState \<and> s \<noteq> Finished"
  proof
    assume "admit_candidate_transition s e bf = Inr c"
    then have c: "c = \<lparr>from_state = s, adm_event = e, to_state = to_state c\<rparr>"
      and admitted: "admitted_to_state s e bf = Some (to_state c)" by (simp_all add: admit_candidate_Inr)
    have "to_state c \<noteq> UnknownState \<and> s \<noteq> Finished"
      using admitted
    proof (cases rule: admitted_cases)
      case 3
      with legal_not_special [OF 3(1)] show ?thesis by (cases "s = Finished"; cases e; simp)
    qed (use restore_not_blocked in auto)
    with c show "from_state c = s \<and> adm_event c = e \<and> to_state c \<noteq> UnknownState \<and> s \<noteq> Finished"
      by (metis transition_admission.select_convs(1,2))
  qed
qed

theorem proof_object_is_oracle_witness:
  "from_state \<lparr>from_state = BlockedExternal, adm_event = Unblock, to_state = Reviewed\<rparr> = BlockedExternal"
  using proof_object_is_oracle [of undefined undefined BlockedExternal Unblock "Some Reviewed"
    "\<lparr>from_state = BlockedExternal, adm_event = Unblock, to_state = Reviewed\<rparr>"]
  by (simp add: admit_candidate_transition_def triple_is_admitted_def admitted_to_state_def block_restore_states_def)

section \<open>Validators and schemas\<close>

text \<open>
  C36 (equivalence): for worker outcomes, candidate dispositions, context packets and ship cleanups the
  validators accept exactly what the published schemas accept, and return it unchanged.  For review attempts the
  validator accepts exactly what the schema accepts and whose finalization does not start before the analysis
  ended, which the schema does not ask.
\<close>

theorem validators_are_schemas:
  "(merge_ready_identity w = Inr w' \<longleftrightarrow> w' = w \<and> worker_schema w) \<and>
   (validate_disposition d = Inr d' \<longleftrightarrow> d' = d \<and> disposition_schema d) \<and>
   (status_invariants p = Inr p' \<longleftrightarrow> p' = p \<and> packet_schema p) \<and>
   (cleanup_matches_receipts c = Inr c' \<longleftrightarrow> c' = c \<and> cleanup_schema c) \<and>
   (receipt_invariants r = Inr r' \<longleftrightarrow> r' = r \<and> review_schema r \<and> times_ordered r)"
  by (simp only: worker_agree disposition_agree packet_agree cleanup_agree review_agree simp_thms)

section \<open>Capabilities\<close>

text \<open>
  Property (safety): a merge capability is used once and binds what it was issued for.  A \<open>consume\<close> that
  succeeds sets the time and nothing else, and every later \<open>consume\<close> of its result fails; a
  \<open>validated_copy\<close> that succeeds is the capability itself.
\<close>

theorem capability_used_once:
  "(consume valid t c = Inr d \<longrightarrow>
      mc_consumed_at c = None \<and> (\<exists>u. t = Some u \<and> d = c\<lparr>mc_consumed_at := Some u\<rparr>) \<and>
      same_bound_fields c d \<and> (\<forall>t'. consume valid t' d = Inl ValueError)) \<and>
   (validated_copy valid us c = Inr d \<longrightarrow> d = c)"
  using validated_copy_same [of valid us c d]
  by (auto simp: consume_Inr same_bound_fields_def) (auto simp: consume_def split: option.splits)

theorem capability_used_once_witness:
  "\<forall>t'. consume (\<lambda>_. True) t' \<lparr>mc_task = ''T'', mc_sha = ''ab'', mc_review_run = ''r'', mc_close_check = ''c'',
     mc_tests = [1], mc_open_findings = 0, mc_consumed_at = Some 7\<rparr> = Inl ValueError"
  using capability_used_once [of "\<lambda>_. True" "Some 7"
    "\<lparr>mc_task = ''T'', mc_sha = ''ab'', mc_review_run = ''r'', mc_close_check = ''c'', mc_tests = [1],
      mc_open_findings = 0, mc_consumed_at = None\<rparr>"
    "\<lparr>mc_task = ''T'', mc_sha = ''ab'', mc_review_run = ''r'', mc_close_check = ''c'', mc_tests = [1],
      mc_open_findings = 0, mc_consumed_at = Some 7\<rparr>"]
  by (simp add: consume_Inr)

end
