(* ===== verification/CoordJournal.thy ===== *)
theory CoordJournal
  imports PyValue
begin

text \<open>
  The durable files of \<open>coordination.py\<close> and the commit through \<open>journal.json\<close>.  A state 's is
  written by the theories that import this one; here it is a value.  \<open>holds.json\<close> and
  \<open>journal.json\<close> are replaced as a whole (\<open>os.replace\<close>), \<open>events.jsonl\<close> grows by appended bytes.
  A commit is a list of steps on the disk; a process that dies leaves what the steps before made,
  and of an append any number of its bytes.  JSON text is a parameter (\<open>json.dumps\<close> and
  \<open>json.loads\<close>; \<open>json_copy\<close> is the one after the other, \<open>None\<close> for an exception), as are uuids, the clock and the text of the marker in \<open>events.torn\<close>.
\<close>

section \<open>Lines of bytes\<close>

abbreviation newline :: char where "newline \<equiv> CHR 0x0A"

text \<open>\<open>bytes.splitlines()\<close>: a line ends at LF, CR or CR LF.\<close>

fun bytes_lines_from :: "string \<Rightarrow> string \<Rightarrow> string list" where
  "bytes_lines_from cur [] = (if cur = [] then [] else [rev cur])"
| "bytes_lines_from cur (c # cs) =
     (if c = newline then rev cur # bytes_lines_from [] cs
      else if c = CHR 0x0D then
        (case cs of
           [] \<Rightarrow> [rev cur]
         | d # ds \<Rightarrow> rev cur # (if d = newline then bytes_lines_from [] ds else bytes_lines_from [] cs))
      else bytes_lines_from (c # cur) cs)"

definition bytes_splitlines :: "string \<Rightarrow> string list" where
  "bytes_splitlines b = bytes_lines_from [] b"

text \<open>What \<open>data[: data.rfind(newline) + 1]\<close> keeps.\<close>

definition complete_lines :: "string \<Rightarrow> string" where
  "complete_lines b = rev (dropWhile (\<lambda>c. c \<noteq> newline) (rev b))"

section \<open>Events and files\<close>

record json_lib =
  dumps :: "pyval \<Rightarrow> string"
  loads :: "string \<Rightarrow> pyval option"
  json_copy :: "pyval \<Rightarrow> pyval option"
  torn_marker :: "nat \<Rightarrow> string"

record event_record =
  ev_id :: string
  ev_seq :: int
  ev_ts :: rat
  ev_kind :: string
  ev_actor :: string
  ev_fields :: pyval

definition event_json :: "event_record \<Rightarrow> pyval" where
  "event_json e = PDict
     [(PStr ''schema_version'', PInt 1), (PStr ''event_id'', PStr (ev_id e)), (PStr ''seq'', PInt (ev_seq e)),
      (PStr ''ts'', PFloat (Finite (ev_ts e))), (PStr ''kind'', PStr (ev_kind e)),
      (PStr ''actor'', PStr (ev_actor e)), (PStr ''fields'', ev_fields e)]"

definition event_line :: "json_lib \<Rightarrow> event_record \<Rightarrow> string" where
  "event_line J e = dumps J (event_json e) @ [newline]"

fun py_seq :: "pyval \<Rightarrow> int option" where
  "py_seq v = (case py_get v ''seq'' of PInt n \<Rightarrow> Some n | _ \<Rightarrow> None)"

definition event_of_line :: "json_lib \<Rightarrow> string \<Rightarrow> pyval option" where
  "event_of_line J l =
     (case loads J l of
        None \<Rightarrow> None
      | Some v \<Rightarrow>
          if is_mapping v \<and> (case py_seq v of None \<Rightarrow> False | Some n \<Rightarrow> 1 \<le> n) \<and> is_pstr (py_get v ''kind'')
          then Some v else None)"

definition event_records :: "json_lib \<Rightarrow> string \<Rightarrow> pyval list" where
  "event_records J b = List.map_filter (event_of_line J) (bytes_splitlines b)"

definition recorded_ids :: "json_lib \<Rightarrow> string \<Rightarrow> string list" where
  "recorded_ids J b =
     List.map_filter (\<lambda>v. case py_get v ''event_id'' of PStr i \<Rightarrow> Some i | _ \<Rightarrow> None) (event_records J b)"

definition next_sequence :: "json_lib \<Rightarrow> string \<Rightarrow> int" where
  "next_sequence J b = fold max (List.map_filter py_seq (event_records J b)) 0 + 1"

datatype 'a json_file = Absent | Unreadable | Parsed 'a

record 's snapshot =
  snap_state :: 's
  snap_events :: "event_record list"

record 's disk =
  holds_json :: "'s json_file"
  journal_json :: "'s snapshot json_file"
  events_jsonl :: "string option"
  events_torn :: string

text \<open>\<open>_CoordinationStoreError\<close> is the one error the store raises itself.\<close>

datatype store_error = StoreError

section \<open>Steps\<close>

datatype 's disk_step =
    WriteHolds 's | WriteJournal "'s snapshot" | AppendTorn string | TruncateEvents nat
  | AppendEvents string | UnlinkJournal

definition log_bytes :: "'s disk \<Rightarrow> string" where
  "log_bytes d = (case events_jsonl d of None \<Rightarrow> [] | Some b \<Rightarrow> b)"

fun do_step :: "'s disk_step \<Rightarrow> 's disk \<Rightarrow> 's disk" where
  "do_step (WriteHolds s) d = d\<lparr>holds_json := Parsed s\<rparr>"
| "do_step (WriteJournal j) d = d\<lparr>journal_json := Parsed j\<rparr>"
| "do_step (AppendTorn b) d = d\<lparr>events_torn := events_torn d @ b\<rparr>"
| "do_step (TruncateEvents n) d = d\<lparr>events_jsonl := map_option (take n) (events_jsonl d)\<rparr>"
| "do_step (AppendEvents b) d = d\<lparr>events_jsonl := Some (log_bytes d @ b)\<rparr>"
| "do_step UnlinkJournal d = d\<lparr>journal_json := Absent\<rparr>"

definition run_steps :: "'s disk_step list \<Rightarrow> 's disk \<Rightarrow> 's disk" where
  "run_steps ss d = fold do_step ss d"

text \<open>\<open>_repair_torn_tail_locked\<close>.\<close>

definition repair_steps :: "json_lib \<Rightarrow> 's disk \<Rightarrow> 's disk_step list" where
  "repair_steps J d =
     (case events_jsonl d of
        None \<Rightarrow> []
      | Some b \<Rightarrow>
          if b = [] \<or> last b = newline then []
          else
            (let n = length (complete_lines b); tail = drop n b
             in [AppendTorn (torn_marker J (length tail) @ tail @ [newline]), TruncateEvents n]))"

text \<open>\<open>_append_events_idempotently_locked\<close>: an id that the log has, or that was just written, is left out.\<close>

fun missing_events :: "string set \<Rightarrow> event_record list \<Rightarrow> event_record list" where
  "missing_events ids [] = []"
| "missing_events ids (e # es) =
     (if ev_id e \<in> ids then missing_events ids es else e # missing_events (insert (ev_id e) ids) es)"

definition append_steps :: "json_lib \<Rightarrow> event_record list \<Rightarrow> 's disk \<Rightarrow> 's disk_step list" where
  "append_steps J es d =
     repair_steps J d @
     map (\<lambda>e. AppendEvents (event_line J e))
       (missing_events (set (recorded_ids J (log_bytes (run_steps (repair_steps J d) d)))) es)"

definition project_steps :: "json_lib \<Rightarrow> 's snapshot \<Rightarrow> 's disk \<Rightarrow> 's disk_step list" where
  "project_steps J j d =
     (if holds_json d = Parsed (snap_state j) then [] else [WriteHolds (snap_state j)]) @
     append_steps J (snap_events j) d @ [UnlinkJournal]"

text \<open>\<open>_load_journal\<close> with the validator of the state, and \<open>_recover_journal_locked\<close>.\<close>

definition load_journal :: "('s \<Rightarrow> bool) \<Rightarrow> 's disk \<Rightarrow> store_error + 's snapshot option" where
  "load_journal valid d =
     (case journal_json d of
        Absent \<Rightarrow> Inr None
      | Unreadable \<Rightarrow> Inl StoreError
      | Parsed j \<Rightarrow>
          if valid (snap_state j) \<and> list_all (\<lambda>e. 1 \<le> ev_seq e) (snap_events j) then Inr (Some j)
          else Inl StoreError)"

definition recover_steps :: "json_lib \<Rightarrow> ('s \<Rightarrow> bool) \<Rightarrow> 's disk \<Rightarrow> store_error + 's disk_step list" where
  "recover_steps J valid d =
     (case load_journal valid d of
        Inl x \<Rightarrow> Inl x
      | Inr None \<Rightarrow> Inr []
      | Inr (Some j) \<Rightarrow> Inr (project_steps J j d))"

definition recover :: "json_lib \<Rightarrow> ('s \<Rightarrow> bool) \<Rightarrow> 's disk \<Rightarrow> store_error + 's disk" where
  "recover J valid d = map_sum id (\<lambda>ss. run_steps ss d) (recover_steps J valid d)"

section \<open>Commit\<close>

text \<open>What a commit takes from outside: the uuids and the clock readings of its events.\<close>

record commit_env =
  uuid :: "nat \<Rightarrow> string"
  stamp :: "nat \<Rightarrow> rat"

record event_spec =
  es_kind :: string
  es_fields :: pyval
  es_actor :: string
  es_id :: "string option"

fun build_events :: "commit_env \<Rightarrow> nat \<Rightarrow> int \<Rightarrow> event_spec list \<Rightarrow> event_record list" where
  "build_events E i n [] = []"
| "build_events E i n (s # ss) =
     \<lparr>ev_id = (case es_id s of None \<Rightarrow> uuid E i | Some x \<Rightarrow> x), ev_seq = n, ev_ts = stamp E i,
      ev_kind = es_kind s, ev_actor = es_actor s, ev_fields = es_fields s\<rparr> # build_events E (Suc i) (n + 1) ss"

definition commit_repairs :: "json_lib \<Rightarrow> event_spec list \<Rightarrow> 's disk \<Rightarrow> 's disk_step list" where
  "commit_repairs J specs d = (if specs = [] then [] else repair_steps J d)"

definition commit_events :: "json_lib \<Rightarrow> commit_env \<Rightarrow> event_spec list \<Rightarrow> 's disk \<Rightarrow> event_record list" where
  "commit_events J E specs d =
     build_events E 0 (next_sequence J (log_bytes (run_steps (commit_repairs J specs d) d))) specs"

definition commit_steps ::
    "json_lib \<Rightarrow> commit_env \<Rightarrow> 's \<Rightarrow> event_spec list \<Rightarrow> 's disk \<Rightarrow> 's disk_step list" where
  "commit_steps J E s specs d =
     (let j = \<lparr>snap_state = s, snap_events = commit_events J E specs d\<rparr>;
          before = commit_repairs J specs d @ [WriteJournal j]
      in before @ project_steps J j (run_steps before d))"

text \<open>A refusal by the validator comes after the repair and before the journal is written.\<close>

definition commit_transition ::
    "json_lib \<Rightarrow> ('s \<Rightarrow> bool) \<Rightarrow> commit_env \<Rightarrow> 's \<Rightarrow> event_spec list \<Rightarrow> 's disk \<Rightarrow>
       (store_error + event_record list) \<times> 's disk" where
  "commit_transition J valid E s specs d =
     (if valid s then (Inr (commit_events J E specs d), run_steps (commit_steps J E s specs d) d)
      else (Inl StoreError, run_steps (commit_repairs J specs d) d))"

section \<open>Crashes\<close>

fun partial_step :: "'s disk_step \<Rightarrow> 's disk \<Rightarrow> 's disk list" where
  "partial_step (AppendEvents b) d = d # map (\<lambda>k. do_step (AppendEvents (take k b)) d) [0..<length b]"
| "partial_step (AppendTorn b) d = d # map (\<lambda>k. do_step (AppendTorn (take k b)) d) [0..<length b]"
| "partial_step _ d = [d]"

fun crash_disks :: "'s disk_step list \<Rightarrow> 's disk \<Rightarrow> 's disk list" where
  "crash_disks [] d = [d]"
| "crash_disks (s # ss) d = partial_step s d @ crash_disks ss (do_step s d)"

text \<open>Any number of crashes: the first in the commit, each later one in the recovery that follows.\<close>

inductive crashed ::
    "json_lib \<Rightarrow> ('s \<Rightarrow> bool) \<Rightarrow> 's disk_step list \<Rightarrow> 's disk \<Rightarrow> 's disk \<Rightarrow> bool"
  for J valid ss d where
  first_crash: "d' \<in> set (crash_disks ss d) \<Longrightarrow> crashed J valid ss d d'"
| next_crash: "crashed J valid ss d d' \<Longrightarrow> recover_steps J valid d' = Inr rs \<Longrightarrow>
    d'' \<in> set (crash_disks rs d') \<Longrightarrow> crashed J valid ss d d''"

text \<open>What a reader of the store can see once the torn tail is out: the state, no journal, the log's lines.\<close>

definition durable :: "'s disk \<Rightarrow> 's json_file \<times> 's snapshot json_file \<times> string" where
  "durable d = (holds_json d, journal_json d, complete_lines (log_bytes d))"

text \<open>The behaviour of \<open>json\<close> relied on: the text of an event is one line and reads back as that event.\<close>

definition codec_ok :: "json_lib \<Rightarrow> event_record \<Rightarrow> bool" where
  "codec_ok J e \<longleftrightarrow>
     list_all (\<lambda>c. c \<noteq> newline \<and> c \<noteq> CHR 0x0D) (dumps J (event_json e)) \<and> dumps J (event_json e) \<noteq> [] \<and>
     (case loads J (dumps J (event_json e)) of
        None \<Rightarrow> False
      | Some v \<Rightarrow> is_mapping v \<and> py_get v ''event_id'' = PStr (ev_id e) \<and> py_get v ''seq'' = PInt (ev_seq e) \<and>
          py_get v ''kind'' = PStr (ev_kind e))"

end
