(* ===== verification/CoordRecovery.thy ===== *)
theory CoordRecovery
  imports CoordJournal
begin

text \<open>
  Lemmas on the files of \<open>CoordJournal\<close>: the lines of a log, what a repair keeps, and the states of
  the disk a commit passes through.  They end in the invariant that a crash keeps and recovery uses.
\<close>

section \<open>Complete lines\<close>

lemma complete_Nil [simp]: "complete_lines [] = []"
  by (simp add: complete_lines_def)

lemma complete_snoc: "complete_lines (b @ [c]) = (if c = newline then b @ [c] else complete_lines b)"
  by (simp add: complete_lines_def)

lemma complete_append_plain: "newline \<notin> set x \<Longrightarrow> complete_lines (b @ x) = complete_lines b"
proof (induction x rule: rev_induct)
  case (snoc c x)
  then have "c \<noteq> newline" "complete_lines (b @ x) = complete_lines b" by auto
  then show ?case by (simp add: complete_snoc append_assoc [symmetric] del: append_assoc)
qed simp

lemma complete_append_line: "complete_lines (b @ x @ [newline]) = b @ x @ [newline]"
  by (simp add: complete_snoc append_assoc [symmetric] del: append_assoc)

lemma complete_split: "\<exists>x. b = complete_lines b @ x \<and> newline \<notin> set x"
proof (induction b rule: rev_induct)
  case (snoc c b)
  then obtain x where x: "b = complete_lines b @ x" "newline \<notin> set x" by blast
  show ?case
  proof (cases "c = newline")
    case False
    then have "b @ [c] = complete_lines (b @ [c]) @ (x @ [c]) \<and> newline \<notin> set (x @ [c])"
      using x by (simp add: complete_snoc)
    then show ?thesis by blast
  qed (simp add: complete_snoc)
qed simp

definition whole :: "string \<Rightarrow> bool" where
  "whole b \<longleftrightarrow> b = [] \<or> last b = newline"

lemma whole_complete [simp]: "whole (complete_lines b)"
proof (induction b rule: rev_induct)
  case (snoc c b)
  then show ?case by (simp add: complete_snoc whole_def)
qed (simp add: whole_def)

lemma complete_whole: "whole b \<Longrightarrow> complete_lines b = b"
  by (cases b rule: rev_cases) (auto simp: whole_def complete_snoc)

lemma whole_line [simp]: "whole (b @ event_line J e)"
  by (simp add: whole_def event_line_def)

lemma take_complete: "take (length (complete_lines b)) b = complete_lines b"
  using complete_split [of b] by (metis append_eq_conv_conj)

section \<open>Lines of a log that grows\<close>

lemma lines_append: "whole b \<Longrightarrow> b \<noteq> [] \<Longrightarrow> bytes_lines_from cur (b @ x) = bytes_lines_from cur b @ bytes_splitlines x"
proof (induction cur b rule: bytes_lines_from.induct)
  case (2 cur c cs)
  show ?case
  proof (cases "cs = []")
    case True
    then show ?thesis using 2 by (simp add: whole_def bytes_splitlines_def)
  next
    case False
    then have w: "whole cs" using 2(5) by (simp add: whole_def)
    show ?thesis
    proof (cases "c = newline")
      case True
      then show ?thesis using 2(1) w False by simp
    next
      case nl: False
      show ?thesis
      proof (cases "c = CHR 0x0D")
        case cr: True
        obtain d ds where cs: "cs = d # ds" using False by (cases cs) auto
        show ?thesis
        proof (cases "d = newline")
          case True
          then show ?thesis
            using 2(2) [OF nl cr cs] w cs nl cr
            by (cases "ds = []") (auto simp: whole_def bytes_splitlines_def)
        next
          case dn: False
          then show ?thesis using 2(3) [OF nl cr cs dn] w False cs nl cr by simp
        qed
      next
        case cr: False
        then show ?thesis using 2(4) nl w False by simp
      qed
    qed
  qed
qed simp

lemma splitlines_append: "whole b \<Longrightarrow> bytes_splitlines (b @ x) = bytes_splitlines b @ bytes_splitlines x"
  using lines_append [of b "[]" x] by (cases "b = []") (simp_all add: bytes_splitlines_def)

lemma lines_plain:
  "list_all (\<lambda>c. c \<noteq> newline \<and> c \<noteq> CHR 0x0D) x \<Longrightarrow> bytes_lines_from cur (x @ [newline]) = [rev cur @ x]"
  by (induction x arbitrary: cur) auto

lemma splitlines_line: "codec_ok J e \<Longrightarrow> bytes_splitlines (event_line J e) = [dumps J (event_json e)]"
  by (simp add: bytes_splitlines_def event_line_def lines_plain codec_ok_def)

lemma line_plain: "codec_ok J e \<Longrightarrow> k < length (event_line J e) \<Longrightarrow> newline \<notin> set (take k (event_line J e))"
  by (auto simp: event_line_def codec_ok_def list_all_iff dest: in_set_takeD)

lemma map_filter_append: "List.map_filter f (xs @ ys) = List.map_filter f xs @ List.map_filter f ys"
  by (simp add: List.map_filter_def)

lemma recorded_append:
  assumes "codec_ok J e" "1 \<le> ev_seq e" "whole b"
  shows "recorded_ids J (b @ event_line J e) = recorded_ids J b @ [ev_id e]"
proof -
  obtain v where v: "loads J (dumps J (event_json e)) = Some v" "is_mapping v"
      "py_get v ''event_id'' = PStr (ev_id e)" "py_get v ''seq'' = PInt (ev_seq e)" "py_get v ''kind'' = PStr (ev_kind e)"
    using assms(1) by (auto simp: codec_ok_def split: option.splits)
  then have "event_of_line J (dumps J (event_json e)) = Some v"
    using assms(2) by (simp add: event_of_line_def)
  then show ?thesis
    using v assms
    by (simp add: recorded_ids_def event_records_def splitlines_append splitlines_line map_filter_append map_filter_simps)
qed

definition log_lines :: "json_lib \<Rightarrow> event_record list \<Rightarrow> string" where
  "log_lines J es = concat (map (event_line J) es)"

lemma log_lines_simps [simp]:
  "log_lines J [] = []"
  "log_lines J (e # es) = event_line J e @ log_lines J es"
  "log_lines J (es @ fs) = log_lines J es @ log_lines J fs"
  by (simp_all add: log_lines_def)

definition good_events :: "json_lib \<Rightarrow> event_record list \<Rightarrow> bool" where
  "good_events J es \<longleftrightarrow> list_all (\<lambda>e. codec_ok J e \<and> 1 \<le> ev_seq e) es"

lemma whole_lines [simp]: "whole b \<Longrightarrow> whole (b @ log_lines J es)"
  by (cases es rule: rev_cases) (simp_all add: append_assoc [symmetric] del: append_assoc)

lemma recorded_lines:
  "good_events J es \<Longrightarrow> whole b \<Longrightarrow> recorded_ids J (b @ log_lines J es) = recorded_ids J b @ map ev_id es"
proof (induction es arbitrary: b)
  case (Cons e es)
  then show ?case
    using Cons.IH [of "b @ event_line J e"] by (simp add: good_events_def recorded_append)
qed simp

section \<open>What is still to append\<close>

lemma set_missing: "set (missing_events ids es) \<subseteq> set es"
  by (induction ids es rule: missing_events.induct) auto

lemma missing_fresh:
  "distinct (map ev_id es) \<Longrightarrow> ids \<inter> ev_id ` set es = {} \<Longrightarrow> missing_events ids es = es"
  by (induction ids es rule: missing_events.induct) auto

lemma missing_take:
  "missing_events (ids \<union> ev_id ` set (take k (missing_events ids es))) es = drop k (missing_events ids es)"
proof (induction ids es arbitrary: k rule: missing_events.induct)
  case (2 ids e es)
  show ?case
  proof (cases "ev_id e \<in> ids")
    case True
    then show ?thesis using 2(1) by simp
  next
    case False
    show ?thesis
    proof (cases k)
      case 0
      then show ?thesis using False by simp
    next
      case (Suc j)
      with 2(2) [OF False, of j] False show ?thesis by (simp add: Un_assoc [symmetric])
    qed
  qed
qed simp

section \<open>Repairs\<close>

lemma log_bytes_simps [simp]:
  "log_bytes (d\<lparr>holds_json := h\<rparr>) = log_bytes d"
  "log_bytes (d\<lparr>journal_json := j\<rparr>) = log_bytes d"
  "log_bytes (d\<lparr>events_torn := t\<rparr>) = log_bytes d"
  "log_bytes (d\<lparr>events_jsonl := Some b\<rparr>) = b"
  by (simp_all add: log_bytes_def)

lemma run_steps_simps [simp]:
  "run_steps [] d = d"
  "run_steps (s # ss) d = run_steps ss (do_step s d)"
  "run_steps (ss @ ts) d = run_steps ts (run_steps ss d)"
  by (simp_all add: run_steps_def)

lemma repaired_log: "log_bytes (run_steps (repair_steps J d) d) = complete_lines (log_bytes d)"
  by (cases "events_jsonl d")
     (auto simp: repair_steps_def Let_def log_bytes_def take_complete complete_whole whole_def)

lemma repaired_files:
  "holds_json (run_steps (repair_steps J d) d) = holds_json d"
  "journal_json (run_steps (repair_steps J d) d) = journal_json d"
  by (auto simp: repair_steps_def Let_def split: option.splits)

lemma crash_append: "set (crash_disks (ss @ ts) d) \<subseteq> set (crash_disks ss d) \<union> set (crash_disks ts (run_steps ss d))"
  by (induction ss arbitrary: d) auto

lemma crash_step: "d \<in> set (partial_step s d)"
  by (cases s) auto

lemma crash_repair:
  "d' \<in> set (crash_disks (repair_steps J d) d) \<Longrightarrow>
     holds_json d' = holds_json d \<and> journal_json d' = journal_json d \<and>
     complete_lines (log_bytes d') = complete_lines (log_bytes d)"
  by (auto simp: repair_steps_def Let_def log_bytes_def take_complete complete_whole split: option.splits if_splits)

section \<open>Appends\<close>

lemma appended_log:
  "log_bytes (run_steps (map (\<lambda>e. AppendEvents (event_line J e)) es) d) = log_bytes d @ log_lines J es"
  by (induction es arbitrary: d) simp_all

lemma appended_files:
  "holds_json (run_steps (map (\<lambda>e. AppendEvents (event_line J e)) es) d) = holds_json d"
  "journal_json (run_steps (map (\<lambda>e. AppendEvents (event_line J e)) es) d) = journal_json d"
  by (induction es arbitrary: d) simp_all

lemma partial_append:
  assumes "d' \<in> set (partial_step (AppendEvents (event_line J e)) d)" "codec_ok J e"
  shows "holds_json d' = holds_json d \<and> journal_json d' = journal_json d \<and>
    complete_lines (log_bytes d') = complete_lines (log_bytes d)"
  using assms by (auto simp: complete_append_plain line_plain)

lemma crash_appends:
  assumes "d' \<in> set (crash_disks (map (\<lambda>e. AppendEvents (event_line J e)) es) d)"
    "good_events J es" "whole (log_bytes d)"
  shows "holds_json d' = holds_json d \<and> journal_json d' = journal_json d \<and>
    (\<exists>m. complete_lines (log_bytes d') = log_bytes d @ log_lines J (take m es))"
  using assms
proof (induction es arbitrary: d)
  case Nil
  then show ?case by (simp add: complete_whole)
next
  case (Cons e es)
  have good: "codec_ok J e" "good_events J es" using Cons.prems(2) by (simp_all add: good_events_def)
  let ?d = "do_step (AppendEvents (event_line J e)) d"
  consider "d' \<in> set (partial_step (AppendEvents (event_line J e)) d)"
    | "d' \<in> set (crash_disks (map (\<lambda>e. AppendEvents (event_line J e)) es) ?d)"
    using Cons.prems(1) by (auto simp del: partial_step.simps do_step.simps)
  then show ?case
  proof cases
    case 1
    have "complete_lines (log_bytes d) = log_bytes d @ log_lines J (take 0 (e # es))"
      using Cons.prems(3) by (simp add: complete_whole)
    with partial_append [OF 1 good(1)] show ?thesis by metis
  next
    case 2
    from Cons.IH [OF 2 good(2)] obtain m where
      "holds_json d' = holds_json d" "journal_json d' = journal_json d"
      "complete_lines (log_bytes d') = log_bytes d @ log_lines J (take (Suc m) (e # es))"
      by auto
    then show ?thesis by blast
  qed
qed

section \<open>A journal waiting to be projected\<close>

definition still_missing :: "json_lib \<Rightarrow> 's snapshot \<Rightarrow> 's disk \<Rightarrow> event_record list" where
  "still_missing J j d = missing_events (set (recorded_ids J (complete_lines (log_bytes d)))) (snap_events j)"

definition pending :: "json_lib \<Rightarrow> 's snapshot \<Rightarrow> 's disk \<Rightarrow> 's disk \<Rightarrow> bool" where
  "pending J j d d' \<longleftrightarrow>
     journal_json d' = Parsed j \<and> (holds_json d' = holds_json d \<or> holds_json d' = Parsed (snap_state j)) \<and>
     (\<exists>k. complete_lines (log_bytes d') =
        complete_lines (log_bytes d) @ log_lines J (take k (still_missing J j d)))"

definition projected :: "json_lib \<Rightarrow> 's snapshot \<Rightarrow> 's disk \<Rightarrow> 's json_file \<times> 's snapshot json_file \<times> string" where
  "projected J j d =
     (Parsed (snap_state j), Absent, complete_lines (log_bytes d) @ log_lines J (still_missing J j d))"

lemma good_missing: "good_events J (snap_events j) \<Longrightarrow> good_events J (still_missing J j d)"
  using set_missing [of _ "snap_events j"] by (auto simp: good_events_def still_missing_def list_all_iff)

lemma good_take_drop: "good_events J es \<Longrightarrow> good_events J (take k es) \<and> good_events J (drop k es)"
  by (auto simp: good_events_def list_all_iff dest: in_set_takeD in_set_dropD)

lemma append_steps_pending:
  assumes "complete_lines (log_bytes d') = complete_lines (log_bytes d) @ log_lines J (take k (still_missing J j d))"
    and "good_events J (snap_events j)"
  shows "append_steps J (snap_events j) d' =
    repair_steps J d' @ map (\<lambda>e. AppendEvents (event_line J e)) (drop k (still_missing J j d))"
  using assms good_take_drop [OF good_missing [OF assms(2), of d], of k]
  by (simp add: append_steps_def repaired_log recorded_lines still_missing_def missing_take)

lemma repair_cong: "events_jsonl d = events_jsonl d' \<Longrightarrow> repair_steps J d = repair_steps J d'"
  by (simp add: repair_steps_def)

text \<open>The projection in its four stages.\<close>

definition holds_steps :: "'s snapshot \<Rightarrow> 's disk \<Rightarrow> 's disk_step list" where
  "holds_steps j d = (if holds_json d = Parsed (snap_state j) then [] else [WriteHolds (snap_state j)])"

lemma holds_steps_run:
  "holds_json (run_steps (holds_steps j d) d) = Parsed (snap_state j)"
  "journal_json (run_steps (holds_steps j d) d) = journal_json d"
  "events_jsonl (run_steps (holds_steps j d) d) = events_jsonl d"
  by (simp_all add: holds_steps_def)

lemma holds_steps_log: "log_bytes (run_steps (holds_steps j d) d) = log_bytes d"
  by (simp add: log_bytes_def holds_steps_run)

lemma holds_steps_crash:
  "d' \<in> set (crash_disks (holds_steps j d) d) \<Longrightarrow>
     journal_json d' = journal_json d \<and> log_bytes d' = log_bytes d \<and>
     (holds_json d' = holds_json d \<or> holds_json d' = Parsed (snap_state j))"
  by (auto simp: holds_steps_def split: if_splits)

lemma project_stages:
  assumes "complete_lines (log_bytes d') = complete_lines (log_bytes d) @ log_lines J (take k (still_missing J j d))"
    and "good_events J (snap_events j)"
  shows "project_steps J j d' = holds_steps j d' @ repair_steps J (run_steps (holds_steps j d') d') @
    map (\<lambda>e. AppendEvents (event_line J e)) (drop k (still_missing J j d)) @ [UnlinkJournal]"
  using repair_cong [OF holds_steps_run(3) [of j d'], of J]
  by (simp add: project_steps_def append_steps_pending [OF assms] holds_steps_def)

lemma pending_project:
  assumes "pending J j d d'" "good_events J (snap_events j)"
  shows "durable (run_steps (project_steps J j d') d') = projected J j d"
proof -
  obtain k where k: "complete_lines (log_bytes d') =
      complete_lines (log_bytes d) @ log_lines J (take k (still_missing J j d))"
    using assms(1) by (auto simp: pending_def)
  have "log_lines J (take k (still_missing J j d)) @ log_lines J (drop k (still_missing J j d)) =
      log_lines J (still_missing J j d)"
    by (metis append_take_drop_id log_lines_simps(3))
  then show ?thesis
    using k
    by (simp add: project_stages [OF k assms(2)] durable_def projected_def appended_log appended_files
        repaired_log repaired_files holds_steps_run holds_steps_log complete_whole)
qed

lemma pending_crash:
  assumes pend: "pending J j d d'" and good: "good_events J (snap_events j)"
    and crash: "d'' \<in> set (crash_disks (project_steps J j d') d')"
  shows "pending J j d d'' \<or> durable d'' = projected J j d"
proof -
  obtain k where k: "complete_lines (log_bytes d') =
      complete_lines (log_bytes d) @ log_lines J (take k (still_missing J j d))"
    and files: "journal_json d' = Parsed j" "holds_json d' = holds_json d \<or> holds_json d' = Parsed (snap_state j)"
    using pend by (auto simp: pending_def)
  let ?H = "holds_steps j d'"
  let ?d1 = "run_steps ?H d'"
  let ?R = "repair_steps J ?d1"
  let ?d2 = "run_steps ?R ?d1"
  let ?A = "map (\<lambda>e. AppendEvents (event_line J e)) (drop k (still_missing J j d))"
  let ?d3 = "run_steps ?A ?d2"
  have log2: "log_bytes ?d2 = complete_lines (log_bytes d) @ log_lines J (take k (still_missing J j d))"
    by (simp add: repaired_log holds_steps_log k)
  have files2: "holds_json ?d2 = Parsed (snap_state j)" "journal_json ?d2 = Parsed j"
    by (simp_all add: repaired_files holds_steps_run files)
  have "d'' \<in> set (crash_disks ?H d') \<union> set (crash_disks ?R ?d1) \<union> set (crash_disks ?A ?d2) \<union>
      set (crash_disks [UnlinkJournal] ?d3)"
    using crash crash_append [of ?H "?R @ ?A @ [UnlinkJournal]" d'] crash_append [of ?R "?A @ [UnlinkJournal]" ?d1]
      crash_append [of ?A "[UnlinkJournal]" ?d2]
    unfolding project_stages [OF k good] by blast
  then consider "d'' \<in> set (crash_disks ?H d')" | "d'' \<in> set (crash_disks ?R ?d1)"
    | "d'' \<in> set (crash_disks ?A ?d2)" | "d'' = ?d3" | "d'' = do_step UnlinkJournal ?d3"
    by auto
  then show ?thesis
  proof cases
    case 1
    from holds_steps_crash [OF this] k files have "pending J j d d''" by (auto simp: pending_def)
    then show ?thesis ..
  next
    case 2
    from crash_repair [OF this] k files have "pending J j d d''"
      by (auto simp: pending_def holds_steps_run holds_steps_log)
    then show ?thesis ..
  next
    case 3
    have "good_events J (drop k (still_missing J j d))" by (simp add: good_take_drop good_missing good)
    from crash_appends [OF 3 this] obtain m where
      "holds_json d'' = holds_json ?d2" "journal_json d'' = journal_json ?d2"
      "complete_lines (log_bytes d'') = log_bytes ?d2 @ log_lines J (take m (drop k (still_missing J j d)))"
      unfolding log2 by auto
    moreover have "log_lines J (take k (still_missing J j d)) @ log_lines J (take m (drop k (still_missing J j d))) =
        log_lines J (take (k + m) (still_missing J j d))"
      by (metis take_add log_lines_simps(3))
    ultimately have "pending J j d d''" unfolding pending_def files2 log2 by auto
    then show ?thesis ..
  next
    case 4
    have "log_bytes ?d3 = complete_lines (log_bytes d) @ log_lines J (take (length (still_missing J j d)) (still_missing J j d))"
      unfolding appended_log log2 by (simp add: log_lines_simps(3) [symmetric] del: log_lines_simps)
    then have "complete_lines (log_bytes d'') =
        complete_lines (log_bytes d) @ log_lines J (take (length (still_missing J j d)) (still_missing J j d))"
      unfolding 4 by (simp add: complete_whole)
    then have "pending J j d d''" unfolding pending_def 4 appended_files files2 by blast
    then show ?thesis ..
  next
    case 5
    have "log_bytes ?d3 = complete_lines (log_bytes d) @ log_lines J (still_missing J j d)"
      unfolding appended_log log2 by (simp add: log_lines_simps(3) [symmetric] del: log_lines_simps)
    then have "durable d'' = projected J j d"
      unfolding 5 durable_def projected_def by (simp add: appended_files files2 complete_whole)
    then show ?thesis ..
  qed
qed

section \<open>Commits\<close>

lemma build_seq: "1 \<le> n \<Longrightarrow> list_all (\<lambda>e. 1 \<le> ev_seq e) (build_events E i n specs)"
  by (induction E i n specs rule: build_events.induct) auto

lemma next_sequence_pos: "1 \<le> next_sequence J b"
proof -
  have "x \<le> fold max xs x" for xs and x :: int
    by (induction xs arbitrary: x) (auto intro: order.trans [OF max.cobounded2])
  from this [of 0] show ?thesis by (simp add: next_sequence_def)
qed

lemma commit_seq: "list_all (\<lambda>e. 1 \<le> ev_seq e) (commit_events J E specs d)"
  by (simp add: commit_events_def build_seq next_sequence_pos)

text \<open>
  The stages of a commit: until the journal is there nothing a reader sees has changed, from then on
  the disk is pending or projected, and recovery makes it projected.
\<close>

definition commit_snapshot :: "json_lib \<Rightarrow> commit_env \<Rightarrow> 's \<Rightarrow> event_spec list \<Rightarrow> 's disk \<Rightarrow> 's snapshot" where
  "commit_snapshot J E s specs d = \<lparr>snap_state = s, snap_events = commit_events J E specs d\<rparr>"

lemma commit_repairs_run:
  "complete_lines (log_bytes (run_steps (commit_repairs J specs d) d)) = complete_lines (log_bytes d)"
  "holds_json (run_steps (commit_repairs J specs d) d) = holds_json d"
  "journal_json (run_steps (commit_repairs J specs d) d) = journal_json d"
  by (simp_all add: commit_repairs_def repaired_log repaired_files complete_whole)

lemma commit_repairs_crash:
  "d' \<in> set (crash_disks (commit_repairs J specs d) d) \<Longrightarrow>
     holds_json d' = holds_json d \<and> journal_json d' = journal_json d \<and>
     complete_lines (log_bytes d') = complete_lines (log_bytes d)"
  by (cases "specs = []") (simp_all add: commit_repairs_def crash_repair)

lemma still_missing_cong:
  "complete_lines (log_bytes d') = complete_lines (log_bytes d) \<Longrightarrow> still_missing J j d' = still_missing J j d"
  by (simp add: still_missing_def)

lemma written_pending:
  "pending J (commit_snapshot J E s specs d) d
     (run_steps (commit_repairs J specs d @ [WriteJournal (commit_snapshot J E s specs d)]) d)"
proof -
  have "complete_lines (log_bytes d) = complete_lines (log_bytes d) @
      log_lines J (take 0 (still_missing J (commit_snapshot J E s specs d) d))" by simp
  then show ?thesis unfolding pending_def by (simp add: commit_repairs_run) (metis take_0 log_lines_simps(1) append_Nil2)
qed

lemma commit_steps_alt:
  "commit_steps J E s specs d =
     (let j = commit_snapshot J E s specs d; before = commit_repairs J specs d @ [WriteJournal j]
      in before @ project_steps J j (run_steps before d))"
  by (simp add: commit_steps_def commit_snapshot_def Let_def)

lemma commit_durable:
  assumes "good_events J (commit_events J E specs d)"
  shows "durable (run_steps (commit_steps J E s specs d) d) = projected J (commit_snapshot J E s specs d) d"
  using pending_project [OF written_pending, of J E s specs d] assms
  by (simp add: commit_steps_alt Let_def commit_snapshot_def)

lemma commit_crash:
  assumes "good_events J (commit_events J E specs d)"
    and "d' \<in> set (crash_disks (commit_steps J E s specs d) d)"
  shows "durable d' = durable d \<or> pending J (commit_snapshot J E s specs d) d d' \<or>
    durable d' = projected J (commit_snapshot J E s specs d) d"
proof -
  let ?j = "commit_snapshot J E s specs d"
  let ?C = "commit_repairs J specs d"
  let ?d2 = "run_steps (?C @ [WriteJournal ?j]) d"
  have good: "good_events J (snap_events ?j)" using assms(1) by (simp add: commit_snapshot_def)
  have "d' \<in> set (crash_disks ?C d) \<union> set (crash_disks [WriteJournal ?j] (run_steps ?C d)) \<union>
      set (crash_disks (project_steps J ?j ?d2) ?d2)"
    using assms(2) crash_append [of "?C @ [WriteJournal ?j]" "project_steps J ?j ?d2" d]
      crash_append [of ?C "[WriteJournal ?j]" d]
    unfolding commit_steps_alt Let_def by blast
  then consider "d' \<in> set (crash_disks ?C d)" | "d' = run_steps ?C d" | "d' = ?d2"
    | "d' \<in> set (crash_disks (project_steps J ?j ?d2) ?d2)"
    by auto
  then show ?thesis
  proof cases
    case 1
    then show ?thesis by (simp add: commit_repairs_crash durable_def)
  next
    case 2
    then show ?thesis by (simp add: commit_repairs_run durable_def)
  next
    case 3
    have "pending J ?j d d'" unfolding 3 by (rule written_pending)
    then show ?thesis by blast
  next
    case 4
    then show ?thesis using pending_crash [OF written_pending good] by blast
  qed
qed

lemma recover_pending:
  assumes "pending J j d d'" "valid (snap_state j)" "good_events J (snap_events j)"
  shows "recover_steps J valid d' = Inr (project_steps J j d')"
  using assms by (auto simp: pending_def recover_steps_def load_journal_def good_events_def list_all_iff)

lemma recover_clean: "journal_json d' = Absent \<Longrightarrow> recover_steps J valid d' = Inr []"
  by (simp add: recover_steps_def load_journal_def)

lemma crashed_stages:
  assumes "crashed J valid (commit_steps J E s specs d) d d'"
    and "journal_json d = Absent" "valid s" "good_events J (commit_events J E specs d)"
  shows "durable d' = durable d \<or> pending J (commit_snapshot J E s specs d) d d' \<or>
    durable d' = projected J (commit_snapshot J E s specs d) d"
  using assms(1)
proof (induction rule: crashed.induct)
  case (first_crash d')
  with commit_crash [OF assms(4)] show ?case by blast
next
  case (next_crash d' rs d'')
  let ?j = "commit_snapshot J E s specs d"
  have j: "valid (snap_state ?j)" "good_events J (snap_events ?j)"
    using assms(3,4) by (simp_all add: commit_snapshot_def)
  show ?case
  proof (cases "pending J ?j d d'")
    case True
    with recover_pending [OF True, of valid] j next_crash.hyps have "d'' \<in> set (crash_disks (project_steps J ?j d') d')" by simp
    with pending_crash [OF True j(2)] show ?thesis by blast
  next
    case False
    with next_crash.IH have "durable d' = durable d \<or> durable d' = projected J ?j d" by blast
    moreover from this have "journal_json d' = Absent" using assms(2) by (auto simp: durable_def projected_def)
    ultimately show ?thesis using next_crash.hyps recover_clean [of d' J valid] by auto
  qed
qed

lemma crash_recovers:
  assumes "crashed J valid (commit_steps J E s specs d) d d'"
    and "journal_json d = Absent" "valid s" "good_events J (commit_events J E specs d)"
  shows "\<exists>d''. recover J valid d' = Inr d'' \<and>
    (durable d'' = durable d \<or> durable d'' = durable (run_steps (commit_steps J E s specs d) d))"
proof -
  let ?j = "commit_snapshot J E s specs d"
  have j: "valid (snap_state ?j)" "good_events J (snap_events ?j)"
    using assms(3,4) by (simp_all add: commit_snapshot_def)
  have final: "durable (run_steps (commit_steps J E s specs d) d) = projected J ?j d"
    by (rule commit_durable [OF assms(4)])
  show ?thesis
  proof (cases "pending J ?j d d'")
    case True
    with recover_pending [OF True, of valid] j pending_project [OF True j(2)] final show ?thesis
      by (simp add: recover_def)
  next
    case False
    with crashed_stages [OF assms] have "durable d' = durable d \<or> durable d' = projected J ?j d" by blast
    moreover from this have "journal_json d' = Absent" using assms(2) by (auto simp: durable_def projected_def)
    ultimately show ?thesis using recover_clean [of d' J valid] final by (auto simp: recover_def)
  qed
qed

text \<open>A commit without crashes; what it does to the log needs the events to be encoded well.\<close>

lemma project_files:
  "holds_json (run_steps (project_steps J j d) d) = Parsed (snap_state j)"
  "journal_json (run_steps (project_steps J j d) d) = Absent"
proof -
  have "holds_json (run_steps ss d) = holds_json d \<and> journal_json (run_steps ss d) = journal_json d"
    if "\<forall>s \<in> set ss. \<exists>b n. s = AppendTorn b \<or> s = TruncateEvents n \<or> s = AppendEvents b"
    for ss :: "'a disk_step list" and d
    using that by (induction ss arbitrary: d) auto
  note keep = this
  have quiet: "\<forall>s \<in> set (append_steps J (snap_events j) d). \<exists>b n. s = AppendTorn b \<or> s = TruncateEvents n \<or> s = AppendEvents b"
    by (auto simp: append_steps_def repair_steps_def Let_def split: option.splits if_splits)
  show "holds_json (run_steps (project_steps J j d) d) = Parsed (snap_state j)"
    "journal_json (run_steps (project_steps J j d) d) = Absent"
    by (simp_all add: project_steps_def keep [OF quiet])
qed

lemma committed_files:
  assumes "commit_transition J valid E s specs d = (Inr es, d')"
  shows "valid s" "es = commit_events J E specs d" "holds_json d' = Parsed s" "journal_json d' = Absent"
  using assms
  by (auto simp: commit_transition_def commit_steps_def Let_def project_files split: if_splits)

lemma commit_refused:
  "commit_transition J valid E s specs d = (Inl x, d') \<Longrightarrow>
     \<not> valid s \<and> holds_json d' = holds_json d \<and> journal_json d' = journal_json d"
  by (auto simp: commit_transition_def commit_repairs_run split: if_splits)

lemma commit_valid:
  "valid s \<Longrightarrow> \<exists>es d'. commit_transition J valid E s specs d = (Inr es, d')"
  by (simp add: commit_transition_def)

lemma committed_log:
  assumes "commit_transition J valid E s specs d = (Inr es, d')" "good_events J es"
  shows "complete_lines (log_bytes d') = complete_lines (log_bytes d) @
       log_lines J (missing_events (set (recorded_ids J (complete_lines (log_bytes d)))) es)"
  using assms commit_durable [of J E specs d s]
  by (auto simp: commit_transition_def durable_def projected_def commit_snapshot_def still_missing_def
      split: if_splits)

end
