(* ===== verification/CoordState.thy ===== *)
theory CoordState
  imports CoordRecovery "HOL-Library.AList"
begin

text \<open>
  The state that \<open>coordination.py\<close> keeps in \<open>holds.json\<close>: holds with fencing tokens, fenced
  resource values and the claims extension, and the validators that every load and every commit run.
  What a JSON object with fixed keys holds is a record; a dict is an association list with \<open>AList.update\<close>.
  The text of a wave's key, \<open>json.dumps([task_ref, wave_id])\<close>, is the pair.  A message body and the channel
  extension carry the size of their canonical text, which the validator bounds.  The control extension
  is not part of the state.
\<close>

section \<open>Numbers and JSON values\<close>

text \<open>What rounds to a finite double.\<close>

definition float_finite :: "rat \<Rightarrow> bool" where
  "float_finite q \<longleftrightarrow> \<bar>q\<bar> < 2 ^ 1024 - 2 ^ 970"

lemma float_finite_code [code]: "float_finite q = (if \<bar>q\<bar> < 1000000 then True else \<bar>q\<bar> < 2 ^ 1024 - 2 ^ 970)"
proof -
  have "(1000000::rat) \<le> 2 ^ 1024 - 2 ^ 970" by simp
  then show ?thesis by (auto simp: float_finite_def)
qed

fun is_number :: "pyval \<Rightarrow> bool" where
  "is_number (PInt i) = float_finite (of_int i)"
| "is_number (PFloat (Finite q)) = True"
| "is_number _ = False"

fun number_of :: "pyval \<Rightarrow> rat" where
  "number_of (PInt i) = of_int i"
| "number_of (PFloat (Finite q)) = q"
| "number_of _ = 0"

text \<open>\<open>json.dumps(v, allow_nan=False)\<close> does not raise.\<close>

fun json_key :: "pyval \<Rightarrow> bool" where
  "json_key (PStr _) = True"
| "json_key (PInt _) = True"
| "json_key (PBool _) = True"
| "json_key PNone = True"
| "json_key (PFloat (Finite _)) = True"
| "json_key _ = False"

fun json_dumpable :: "pyval \<Rightarrow> bool" where
  "json_dumpable (PDict kvs) = list_all (\<lambda>kv. json_key (fst kv) \<and> json_dumpable (snd kv)) kvs"
| "json_dumpable (PList vs) = list_all json_dumpable vs"
| "json_dumpable (PTuple vs) = list_all json_dumpable vs"
| "json_dumpable (PFloat (Finite _)) = True"
| "json_dumpable (PFloat _) = False"
| "json_dumpable (PBytes _) = False"
| "json_dumpable (PObj _ _) = False"
| "json_dumpable _ = True"

text \<open>
  Dicts inside a match or a resource value have text keys, as the JSON that callers send has.  For others
  \<open>_valid_match\<close> is modelled as it is, but not what the later \<open>json.dumps(..., sort_keys=True)\<close> of a commit does to them: keys of
  several types raise \<open>TypeError\<close> before anything is written, and other keys come back as text.
\<close>

definition valid_match :: "pyval \<Rightarrow> bool" where
  "valid_match m \<longleftrightarrow> m = PNone \<or> is_mapping m \<and> list_all (\<lambda>kv. is_pstr (fst kv)) (py_items m) \<and> json_dumpable m"

section \<open>Holds and resources\<close>

record hold_record =
  hr_resource :: string
  hr_owner :: string
  hr_token :: int
  hr_expires :: rat
  hr_until :: "string option"
  hr_match :: pyval
  hr_released :: bool
  hr_reason :: "string option"

record resource_record =
  rr_highest :: int
  rr_value :: pyval

section \<open>Claims\<close>

record claim_owner =
  ow_principal :: string
  ow_session :: string

record claim_authority =
  au_id :: string
  au_epoch :: int
  au_task :: string
  au_wave :: string

datatype claim_state = ClaimAvailable | Claimed | ClaimCompleted

record claim_record =
  cl_state :: claim_state
  cl_owner :: claim_owner
  cl_token :: int
  cl_expires :: rat

text \<open>\<open>_view\<close> of an item with and without a record, and the errors of \<open>_error\<close>.\<close>

datatype claim_response =
    ViewOf string claim_record
  | AvailableView string
  | HeldByView string claim_record
  | ClaimError string

record claim_receipt =
  cc_fingerprint :: string
  cc_response :: claim_response

record claim_wave =
  cw_authority :: claim_authority
  cw_last_time :: rat
  cw_items :: "(string \<times> claim_record) list"
  cw_receipts :: "(string \<times> claim_receipt) list"

type_synonym wave_key = "string \<times> string"

section \<open>Channels\<close>

record json_body =
  jb_value :: pyval
  jb_bytes :: nat

record channel_message =
  cm_id :: string
  cm_version :: int
  cm_recipients :: "string list"
  cm_body :: json_body
  cm_sender :: claim_owner
  cm_acks :: "(string \<times> claim_owner) list"

text \<open>\<open>ce_ack\<close> is the acknowledgment of a \<open>message.acked\<close> event; \<open>message.sent\<close> has none.\<close>

record channel_event =
  ce_cursor :: int
  ce_message :: string
  ce_version :: int
  ce_sender :: claim_owner
  ce_recipients :: "string list"
  ce_ack :: "claim_owner option"

datatype channel_response =
    MessageView channel_message
  | AckView string int claim_owner
  | EventPage "channel_event list" int bool
  | ChannelError string

record channel_receipt =
  ch_fingerprint :: string
  ch_response :: channel_response

record channel_wave =
  hw_authority :: claim_authority
  hw_messages :: "(string \<times> channel_message) list"
  hw_receipts :: "(string \<times> channel_receipt) list"
  hw_events :: "channel_event list"
  hw_highwater :: int

type_synonym channel_waves = "(wave_key \<times> channel_wave) list"

record coord_state =
  next_token :: int
  holds :: "hold_record list"
  resources :: "(string \<times> resource_record) list"
  claims :: "(wave_key \<times> claim_wave) list option"
  channels :: "(channel_waves \<times> nat) option"

type_synonym coord_disk = "coord_state disk"

definition default_state :: coord_state where
  "default_state = \<lparr>next_token = 1, holds = [], resources = [], claims = None, channels = None\<rparr>"

section \<open>Validators\<close>

definition claim_text :: "string \<Rightarrow> bool" where
  "claim_text s \<longleftrightarrow> py_strip s \<noteq> []"

definition valid_authority :: "claim_authority \<Rightarrow> bool" where
  "valid_authority a \<longleftrightarrow> claim_text (au_id a) \<and> claim_text (au_task a) \<and> claim_text (au_wave a) \<and> 0 < au_epoch a"

definition claim_wave_key :: "claim_authority \<Rightarrow> wave_key" where
  "claim_wave_key a = (au_task a, au_wave a)"

definition valid_owner :: "claim_owner \<Rightarrow> bool" where
  "valid_owner ow \<longleftrightarrow> claim_text (ow_principal ow) \<and> claim_text (ow_session ow)"

definition valid_claim_record :: "int \<Rightarrow> claim_record \<Rightarrow> bool" where
  "valid_claim_record nt r \<longleftrightarrow> valid_owner (cl_owner r) \<and> 0 < cl_token r \<and> cl_token r < nt"

definition valid_fingerprint :: "string \<Rightarrow> bool" where
  "valid_fingerprint f \<longleftrightarrow> length f = 64 \<and> list_all (\<lambda>c. c \<in> set ''0123456789abcdef'') f"

fun valid_response :: "int \<Rightarrow> (string \<times> claim_record) list \<Rightarrow> claim_response \<Rightarrow> bool" where
  "valid_response nt items (ViewOf w r) =
     (claim_text w \<and> valid_claim_record nt r \<and> w \<in> fst ` set items)"
| "valid_response nt items (AvailableView w) = False"
| "valid_response nt items (HeldByView w r) =
     (claim_text w \<and> valid_claim_record nt r \<and> cl_state r = Claimed \<and> w \<in> fst ` set items)"
| "valid_response nt items (ClaimError c) = (c = ''stale_token'' \<or> c = ''completed'')"

definition valid_claim_wave :: "int \<Rightarrow> wave_key \<times> claim_wave \<Rightarrow> bool" where
  "valid_claim_wave nt kw =
     (case kw of (k, w) \<Rightarrow>
        valid_authority (cw_authority w) \<and> k = claim_wave_key (cw_authority w) \<and>
        length (cw_items w) \<le> length (cw_receipts w) \<and> length (cw_receipts w) \<le> 10000 \<and>
        list_all (\<lambda>ir. claim_text (fst ir) \<and> valid_claim_record nt (snd ir)) (cw_items w) \<and>
        list_all (\<lambda>or. claim_text (fst or) \<and> valid_fingerprint (cc_fingerprint (snd or)) \<and>
          valid_response nt (cw_items w) (cc_response (snd or))) (cw_receipts w))"

definition claim_tokens :: "(wave_key \<times> claim_wave) list \<Rightarrow> int list" where
  "claim_tokens ws = concat (map (\<lambda>kw. map (\<lambda>ir. cl_token (snd ir)) (cw_items (snd kw))) ws)"

definition valid_claim_extension :: "(wave_key \<times> claim_wave) list \<Rightarrow> int \<Rightarrow> bool" where
  "valid_claim_extension ws nt \<longleftrightarrow> list_all (valid_claim_wave nt) ws \<and> distinct (claim_tokens ws)"

section \<open>The validator of channels\<close>

definition utf8_bytes :: "string \<Rightarrow> nat" where
  "utf8_bytes s = sum_list (map (\<lambda>c. if of_char c < (128::nat) then 1 else 2) s)"

definition short_text :: "string \<Rightarrow> bool" where
  "short_text s \<longleftrightarrow> claim_text s \<and> utf8_bytes s \<le> 256"

text \<open>\<open>json_value\<close> at a depth.\<close>

fun strict_json :: "nat \<Rightarrow> pyval \<Rightarrow> bool" where
  "strict_json d (PDict kvs) = (d \<le> 32 \<and>
     list_all (\<lambda>kv. is_pstr (fst kv) \<and> d + 1 \<le> 32 \<and> strict_json (d + 1) (snd kv)) kvs)"
| "strict_json d (PList vs) = (d \<le> 32 \<and> list_all (strict_json (d + 1)) vs)"
| "strict_json d (PFloat (Finite _)) = (d \<le> 32)"
| "strict_json d (PFloat _) = False"
| "strict_json d (PTuple _) = False"
| "strict_json d (PBytes _) = False"
| "strict_json d (PObj _ _) = False"
| "strict_json d _ = (d \<le> 32)"

definition channel_owner :: "claim_owner \<Rightarrow> bool" where
  "channel_owner ow \<longleftrightarrow> short_text (ow_principal ow) \<and> short_text (ow_session ow)"

definition valid_recipients :: "string list \<Rightarrow> bool" where
  "valid_recipients rs \<longleftrightarrow> 1 \<le> length rs \<and> length rs \<le> 32 \<and> list_all short_text rs \<and> distinct rs"

definition valid_body :: "json_body \<Rightarrow> bool" where
  "valid_body b \<longleftrightarrow> is_mapping (jb_value b) \<and> strict_json 0 (jb_value b) \<and> jb_bytes b \<le> 4096"

definition valid_acks :: "string list \<Rightarrow> (string \<times> claim_owner) list \<Rightarrow> bool" where
  "valid_acks rs acks \<longleftrightarrow> fst ` set acks \<subseteq> set rs \<and>
     list_all (\<lambda>pa. short_text (fst pa) \<and> channel_owner (snd pa) \<and> ow_principal (snd pa) = fst pa) acks"

definition valid_message :: "string \<times> channel_message \<Rightarrow> bool" where
  "valid_message km \<longleftrightarrow>
     (case km of (k, m) \<Rightarrow>
        short_text k \<and> cm_id m = k \<and> cm_version m = 1 \<and> valid_recipients (cm_recipients m) \<and>
        channel_owner (cm_sender m) \<and> valid_body (cm_body m) \<and> valid_acks (cm_recipients m) (cm_acks m))"

definition valid_channel_event :: "(string \<times> channel_message) list \<Rightarrow> channel_event \<Rightarrow> bool" where
  "valid_channel_event msgs e \<longleftrightarrow>
     short_text (ce_message e) \<and> ce_version e = 1 \<and> channel_owner (ce_sender e) \<and> valid_recipients (ce_recipients e) \<and>
     (case map_of msgs (ce_message e) of
        None \<Rightarrow> False
      | Some m \<Rightarrow> ce_sender e = cm_sender m \<and> ce_recipients e = cm_recipients m \<and>
          (case ce_ack e of
             None \<Rightarrow> ce_version e = cm_version m
           | Some ow \<Rightarrow> channel_owner ow \<and> ow_principal ow \<in> set (cm_recipients m) \<and>
               map_of (cm_acks m) (ow_principal ow) = Some ow))"

definition sent_ids :: "channel_event list \<Rightarrow> string list" where
  "sent_ids es = map ce_message (filter (\<lambda>e. ce_ack e = None) es)"

definition ack_keys :: "channel_event list \<Rightarrow> (string \<times> string) list" where
  "ack_keys es = List.map_filter (\<lambda>e. map_option (\<lambda>ow. (ce_message e, ow_principal ow)) (ce_ack e)) es"

definition expected_acks :: "(string \<times> channel_message) list \<Rightarrow> (string \<times> string) list" where
  "expected_acks msgs = concat (map (\<lambda>km. map (\<lambda>pa. (fst km, fst pa)) (cm_acks (snd km))) msgs)"

text \<open>
  Cursors count from one; every message was sent once, and every acknowledgment announced once.  The
  messages are a dict, so their keys differ.
\<close>

definition valid_channel_events :: "(string \<times> channel_message) list \<Rightarrow> channel_event list \<Rightarrow> bool" where
  "valid_channel_events msgs es \<longleftrightarrow>
     map ce_cursor es = map (\<lambda>n. int n + 1) [0..<length es] \<and> list_all (valid_channel_event msgs) es \<and>
     distinct (sent_ids es) \<and> distinct (ack_keys es) \<and>
     set (sent_ids es) = fst ` set msgs \<and> set (ack_keys es) = set (expected_acks msgs)"

fun valid_channel_response :: "(string \<times> channel_message) list \<Rightarrow> channel_response \<Rightarrow> bool" where
  "valid_channel_response msgs (MessageView v) =
     (valid_message (cm_id v, v) \<and>
      (case map_of msgs (cm_id v) of
         None \<Rightarrow> False
       | Some m \<Rightarrow> cm_version v = cm_version m \<and> cm_recipients v = cm_recipients m \<and> cm_body v = cm_body m \<and>
           cm_sender v = cm_sender m \<and> cm_acks v = []))"
| "valid_channel_response msgs (AckView i ver ow) =
     (short_text i \<and> ver = 1 \<and> channel_owner ow \<and>
      (case map_of msgs i of
         None \<Rightarrow> False
       | Some m \<Rightarrow> ow_principal ow \<in> set (cm_recipients m) \<and> map_of (cm_acks m) (ow_principal ow) = Some ow))"
| "valid_channel_response msgs (EventPage _ _ _) = False"
| "valid_channel_response msgs (ChannelError c) =
     (c \<in> set [''message_exists'', ''not_found'', ''version_mismatch'', ''capacity''])"

definition valid_channel_wave :: "wave_key \<times> channel_wave \<Rightarrow> bool" where
  "valid_channel_wave kw \<longleftrightarrow>
     (case kw of (k, w) \<Rightarrow>
        valid_authority (hw_authority w) \<and> k = claim_wave_key (hw_authority w) \<and>
        list_all short_text [au_id (hw_authority w), au_task (hw_authority w), au_wave (hw_authority w)] \<and>
        hw_highwater w = int (length (hw_events w)) \<and>
        distinct (map fst (hw_messages w)) \<and> list_all valid_message (hw_messages w) \<and>
        valid_channel_events (hw_messages w) (hw_events w) \<and>
        list_all (\<lambda>or. short_text (fst or) \<and> valid_fingerprint (ch_fingerprint (snd or)) \<and>
          valid_channel_response (hw_messages w) (ch_response (snd or))) (hw_receipts w))"

definition channel_total :: "(channel_wave \<Rightarrow> 'a list) \<Rightarrow> channel_waves \<Rightarrow> nat" where
  "channel_total f ws = sum_list (map (\<lambda>kw. length (f (snd kw))) ws)"

definition valid_channels :: "(channel_waves \<times> nat) option \<Rightarrow> bool" where
  "valid_channels ext \<longleftrightarrow>
     (case ext of
        None \<Rightarrow> True
      | Some (ws, bytes) \<Rightarrow>
          bytes \<le> 8 * 1024 * 1024 \<and> list_all valid_channel_wave ws \<and>
          channel_total hw_messages ws \<le> 1000 \<and> channel_total hw_receipts ws \<le> 10000 \<and>
          channel_total hw_events ws \<le> 32000)"

section \<open>The state's validator\<close>

definition valid_hold :: "hold_record \<Rightarrow> bool" where
  "valid_hold h \<longleftrightarrow> 1 \<le> hr_token h \<and> valid_match (hr_match h)"

definition valid_resource :: "string \<times> resource_record \<Rightarrow> bool" where
  "valid_resource kr \<longleftrightarrow> fst kr \<noteq> [] \<and> 0 \<le> rr_highest (snd kr) \<and> json_dumpable (rr_value (snd kr))"

definition validate_state :: "coord_state \<Rightarrow> bool" where
  "validate_state s \<longleftrightarrow>
     1 \<le> next_token s \<and> list_all valid_hold (holds s) \<and> distinct (map hr_token (holds s)) \<and>
     list_all (\<lambda>h. hr_token h < next_token s) (holds s) \<and>
     list_all valid_resource (resources s) \<and>
     (case claims s of
        None \<Rightarrow> True
      | Some ws \<Rightarrow> valid_claim_extension ws (next_token s) \<and>
          distinct (map hr_token (holds s) @ claim_tokens ws)) \<and>
     valid_channels (channels s)"

definition load_store :: "coord_disk \<Rightarrow> store_error + coord_state" where
  "load_store d =
     (case holds_json d of
        Absent \<Rightarrow> Inr default_state
      | Unreadable \<Rightarrow> Inl StoreError
      | Parsed s \<Rightarrow> if validate_state s then Inr s else Inl StoreError)"

section \<open>Event schemas\<close>

datatype field_type = StrType | IntType | FloatType | BoolType | ListType | DictType

fun matches_type :: "pyval \<Rightarrow> field_type \<Rightarrow> bool" where
  "matches_type (PStr _) StrType = True"
| "matches_type (PInt _) IntType = True"
| "matches_type (PFloat _) FloatType = True"
| "matches_type (PBool _) BoolType = True"
| "matches_type (PList _) ListType = True"
| "matches_type (PDict _) DictType = True"
| "matches_type _ _ = False"

type_synonym schema = "(string \<times> field_type) list"

definition event_kinds :: "(string \<times> schema) list" where
  "event_kinds =
     [(''gate.final'', [(''lane'', StrType), (''sha'', StrType), (''verdict'', StrType)]),
      (''lane.integrated'', [(''lane'', StrType), (''sha'', StrType), (''into'', StrType)]),
      (''main.merged'', [(''sha'', StrType), (''lane'', StrType)]),
      (''hold.granted'', [(''resource'', StrType), (''owner'', StrType), (''token'', IntType)]),
      (''hold.released'',
         [(''resource'', StrType), (''owner'', StrType), (''token'', IntType), (''reason'', StrType)]),
      (''hold.expired'', [(''resource'', StrType), (''owner'', StrType), (''token'', IntType)])]"

definition schema_for :: "(string \<times> schema) list \<Rightarrow> string \<Rightarrow> schema option" where
  "schema_for K kind = map_of K kind"

datatype register_reply = Registered | InvalidSchema | ConflictingKind

text \<open>Two dicts are equal when they have the same items.\<close>

definition register_kind ::
    "string \<Rightarrow> schema \<Rightarrow> (string \<times> schema) list \<Rightarrow> register_reply \<times> (string \<times> schema) list" where
  "register_kind kind fs K =
     (if kind = [] \<or> list_ex (\<lambda>f. fst f = []) fs then (InvalidSchema, K)
      else (case map_of K kind of
        Some current \<Rightarrow> if set current = set fs then (Registered, K) else (ConflictingKind, K)
      | None \<Rightarrow> (Registered, K @ [(kind, fs)])))"

end
