(* ===== verification/CoordHolds.thy ===== *)
theory CoordHolds
  imports CoordState
begin

text \<open>
  The operations of \<open>coordination.py\<close> on holds: acquire and renew, release, the checks, the fenced
  update of a resource and the events that end holds.  Each runs under the store's lock, so it is a
  function of the disk: it recovers a journal left by a crash, loads the state, commits the expiry of
  what ran out and then its own change.  A record changed in place is the one record with its token.
\<close>

section \<open>Replies\<close>

datatype reply =
    Refused string
  | HeldByOther hold_record
  | Granted hold_record
  | ReleasedBy string
  | Applied pyval
  | EventAdded event_record
  | CheckHeld "hold_record option"
  | ActiveHolds "hold_record list"
  | Raised

type_synonym 'a op = "(store_error + 'a) \<times> coord_disk"

definition and_then :: "'a op \<Rightarrow> ('a \<Rightarrow> coord_disk \<Rightarrow> reply \<times> coord_disk) \<Rightarrow> reply \<times> coord_disk" where
  "and_then r f = (case r of (Inl _, d) \<Rightarrow> (Raised, d) | (Inr x, d) \<Rightarrow> f x d)"

definition locked :: "json_lib \<Rightarrow> coord_disk \<Rightarrow> (coord_disk \<Rightarrow> reply \<times> coord_disk) \<Rightarrow> reply \<times> coord_disk" where
  "locked J d body = (case recover J validate_state d of Inl _ \<Rightarrow> (Raised, d) | Inr d' \<Rightarrow> body d')"

section \<open>Expiry and lookup\<close>

definition is_due :: "rat \<Rightarrow> hold_record \<Rightarrow> bool" where
  "is_due now h \<longleftrightarrow> \<not> hr_released h \<and> hr_expires h \<le> now"

definition release_record :: "string \<Rightarrow> hold_record \<Rightarrow> hold_record" where
  "release_record reason h = h\<lparr>hr_released := True, hr_reason := Some reason\<rparr>"

definition expire_holds :: "rat \<Rightarrow> coord_state \<Rightarrow> coord_state" where
  "expire_holds now s =
     s\<lparr>holds := map (\<lambda>h. if is_due now h then release_record ''expired'' h else h) (holds s)\<rparr>"

definition hold_fields :: "hold_record \<Rightarrow> (pyval \<times> pyval) list" where
  "hold_fields h =
     [(PStr ''resource'', PStr (hr_resource h)), (PStr ''owner'', PStr (hr_owner h)), (PStr ''token'', PInt (hr_token h))]"

definition expired_spec :: "hold_record \<Rightarrow> event_spec" where
  "expired_spec h = \<lparr>es_kind = ''hold.expired'', es_fields = PDict (hold_fields h), es_actor = ''coordination'', es_id = None\<rparr>"

definition commit_state :: "json_lib \<Rightarrow> commit_env \<Rightarrow> coord_state \<Rightarrow> event_spec list \<Rightarrow> coord_disk \<Rightarrow> event_record list op" where
  "commit_state J E s specs d = commit_transition J validate_state E s specs d"

definition expire_locked :: "json_lib \<Rightarrow> commit_env \<Rightarrow> coord_state \<Rightarrow> rat \<Rightarrow> coord_disk \<Rightarrow> coord_state op" where
  "expire_locked J E s now d =
     (let due = filter (is_due now) (holds s); s' = expire_holds now s
      in if due = [] then (Inr s, d)
         else (case commit_state J E s' (map expired_spec due) d of
             (Inl x, d') \<Rightarrow> (Inl x, d')
           | (Inr _, d') \<Rightarrow> (Inr s', d')))"

definition active_record :: "coord_state \<Rightarrow> string \<Rightarrow> rat \<Rightarrow> hold_record option" where
  "active_record s r now =
     find (\<lambda>h. hr_resource h = r \<and> \<not> hr_released h \<and> now < hr_expires h) (rev (holds s))"

definition update_hold :: "int \<Rightarrow> (hold_record \<Rightarrow> hold_record) \<Rightarrow> coord_state \<Rightarrow> coord_state" where
  "update_hold t f s = s\<lparr>holds := map (\<lambda>h. if hr_token h = t then f h else h) (holds s)\<rparr>"

text \<open>
  What an operation takes from outside: the clock, and the uuids and stamps of its first and second
  commit.
\<close>

record op_env =
  clock :: rat
  env1 :: commit_env
  env2 :: commit_env

definition time_or :: "op_env \<Rightarrow> pyval \<Rightarrow> rat" where
  "time_or X now = (if now = PNone then clock X else number_of now)"

text \<open>
  The part every mutation shares: lock, load (a refusal when the state is invalid), expire.
\<close>

definition with_state ::
    "json_lib \<Rightarrow> op_env \<Rightarrow> rat \<Rightarrow> reply \<Rightarrow> (coord_state \<Rightarrow> coord_disk \<Rightarrow> reply \<times> coord_disk) \<Rightarrow>
       coord_disk \<Rightarrow> reply \<times> coord_disk" where
  "with_state J X now corrupt body d =
     locked J d (\<lambda>d1. case load_store d1 of
       Inl _ \<Rightarrow> (corrupt, d1)
     | Inr s \<Rightarrow> and_then (expire_locked J (env1 X) s now d1) body)"

section \<open>Acquire and renew\<close>

definition renew_record :: "rat \<Rightarrow> hold_record \<Rightarrow> hold_record" where
  "renew_record e h = h\<lparr>hr_expires := max (hr_expires h) e\<rparr>"

definition granted_spec :: "hold_record \<Rightarrow> event_spec" where
  "granted_spec h = \<lparr>es_kind = ''hold.granted'', es_fields = PDict (hold_fields h), es_actor = hr_owner h, es_id = None\<rparr>"

text \<open>What \<open>hold\<close> does with the state once what ran out has expired.\<close>

definition hold_core ::
    "json_lib \<Rightarrow> op_env \<Rightarrow> string \<Rightarrow> string \<Rightarrow> string option \<Rightarrow> pyval \<Rightarrow> rat \<Rightarrow> rat \<Rightarrow> coord_state \<Rightarrow> coord_disk \<Rightarrow>
       reply \<times> coord_disk" where
  "hold_core J X resource owner until match t expiry s d2 =
     (case active_record s resource t of
        Some c \<Rightarrow>
          if hr_owner c \<noteq> owner then (HeldByOther c, d2)
          else and_then (commit_state J (env2 X) (update_hold (hr_token c) (renew_record expiry) s) [] d2)
            (\<lambda>_ d3. (Granted (renew_record expiry c), d3))
      | None \<Rightarrow>
          (let new = \<lparr>hr_resource = resource, hr_owner = owner, hr_token = next_token s, hr_expires = expiry,
               hr_until = until, hr_match = match, hr_released = False, hr_reason = None\<rparr>
           in and_then
                (commit_state J (env2 X)
                   (s\<lparr>next_token := next_token s + 1, holds := holds s @ [new]\<rparr>) [granted_spec new] d2)
                (\<lambda>_ d3. (Granted new, d3))))"

definition hold_refusal ::
    "(string \<times> schema) list \<Rightarrow> string \<Rightarrow> string \<Rightarrow> pyval \<Rightarrow> string option \<Rightarrow> pyval \<Rightarrow> pyval \<Rightarrow> string option" where
  "hold_refusal K resource owner ttl until match now =
     (if resource = [] then Some ''invalid_resource''
      else if owner = [] then Some ''invalid_owner''
      else if \<not> is_number ttl \<or> number_of ttl \<le> 0 then Some ''invalid_ttl''
      else if now \<noteq> PNone \<and> \<not> is_number now then Some ''invalid_now''
      else if \<not> valid_match match then Some ''invalid_match''
      else if (case until of None \<Rightarrow> False | Some k \<Rightarrow> schema_for K k = None) then Some ''unknown_event_kind''
      else None)"

definition hold ::
    "json_lib \<Rightarrow> (string \<times> schema) list \<Rightarrow> op_env \<Rightarrow> string \<Rightarrow> string \<Rightarrow> pyval \<Rightarrow> string option \<Rightarrow> pyval \<Rightarrow> pyval \<Rightarrow>
       coord_disk \<Rightarrow> reply \<times> coord_disk" where
  "hold J K X resource owner ttl until match now d =
     (case hold_refusal K resource owner ttl until match now of
        Some reason \<Rightarrow> (Refused reason, d)
      | None \<Rightarrow>
          locked J d (\<lambda>d1. case load_store d1 of
            Inl _ \<Rightarrow> (Refused ''state_corrupt'', d1)
          | Inr s0 \<Rightarrow>
              if \<not> float_finite (time_or X now + number_of ttl) then (Refused ''invalid_ttl'', d1)
              else and_then (expire_locked J (env1 X) s0 (time_or X now) d1)
                (hold_core J X resource owner until match (time_or X now) (time_or X now + number_of ttl))))"

section \<open>Release and checks\<close>

definition released_spec :: "hold_record \<Rightarrow> string \<Rightarrow> string \<Rightarrow> event_spec" where
  "released_spec h reason actor =
     \<lparr>es_kind = ''hold.released'', es_fields = PDict (hold_fields h @ [(PStr ''reason'', PStr reason)]),
      es_actor = actor, es_id = None\<rparr>"

definition first_id :: "event_record list \<Rightarrow> string" where
  "first_id es = (case es of [] \<Rightarrow> [] | e # _ \<Rightarrow> ev_id e)"

definition release :: "json_lib \<Rightarrow> op_env \<Rightarrow> string \<Rightarrow> string \<Rightarrow> int \<Rightarrow> coord_disk \<Rightarrow> reply \<times> coord_disk" where
  "release J X resource owner token d =
     (if resource = [] then (Refused ''invalid_resource'', d)
      else if owner = [] then (Refused ''invalid_owner'', d)
      else with_state J X (clock X) (Refused ''state_corrupt'') (\<lambda>s d2.
        case active_record s resource (clock X) of
          None \<Rightarrow> (Refused ''not_held'', d2)
        | Some c \<Rightarrow>
            if hr_owner c \<noteq> owner then (Refused ''owner_mismatch'', d2)
            else if hr_token c \<noteq> token then (Refused ''stale_token'', d2)
            else and_then
              (commit_state J (env2 X) (update_hold (hr_token c) (release_record ''explicit'') s)
                 [released_spec c ''explicit'' owner] d2)
              (\<lambda>es d3. (ReleasedBy (first_id es), d3))) d)"

text \<open>The two checks do not catch the error of an invalid state.\<close>

definition check_held :: "json_lib \<Rightarrow> op_env \<Rightarrow> string \<Rightarrow> string option \<Rightarrow> pyval \<Rightarrow> coord_disk \<Rightarrow> reply \<times> coord_disk" where
  "check_held J X resource owner now d =
     (if now \<noteq> PNone \<and> \<not> is_number now then (Raised, d)
      else with_state J X (time_or X now) Raised (\<lambda>s d2.
        case active_record s resource (time_or X now) of
          None \<Rightarrow> (CheckHeld None, d2)
        | Some c \<Rightarrow> (CheckHeld (if Some (hr_owner c) = owner then None else Some c), d2)) d)"

definition check_fence :: "json_lib \<Rightarrow> op_env \<Rightarrow> string \<Rightarrow> int \<Rightarrow> coord_disk \<Rightarrow> reply \<times> coord_disk" where
  "check_fence J X resource token d =
     with_state J X (clock X) Raised (\<lambda>s d2.
       case active_record s resource (clock X) of
         None \<Rightarrow> (Refused ''not_held'', d2)
       | Some c \<Rightarrow> if hr_token c \<noteq> token then (Refused ''stale_token'', d2) else (Granted c, d2)) d"

definition active_holds :: "json_lib \<Rightarrow> op_env \<Rightarrow> pyval \<Rightarrow> coord_disk \<Rightarrow> reply \<times> coord_disk" where
  "active_holds J X now d =
     (if now \<noteq> PNone \<and> \<not> is_number now then (Raised, d)
      else with_state J X (time_or X now) Raised (\<lambda>s d2.
        (ActiveHolds (sort_key hr_resource (sort_key hr_token
           (filter (\<lambda>h. \<not> hr_released h \<and> time_or X now < hr_expires h) (holds s)))), d2)) d)"

section \<open>Fenced updates\<close>

text \<open>
  \<open>mutate\<close> is the caller's function on a copy of the value: the copy as it leaves it and what it
  returns, or \<open>None\<close> for an exception.
\<close>

definition mutated_value :: "json_lib \<Rightarrow> (pyval \<Rightarrow> (pyval \<times> pyval) option) \<Rightarrow> pyval \<Rightarrow> pyval option" where
  "mutated_value J mutate v =
     (case mutate v of
        None \<Rightarrow> None
      | Some (prior, replacement) \<Rightarrow> json_copy J (if replacement = PNone then prior else replacement))"

definition resource_state :: "coord_state \<Rightarrow> string \<Rightarrow> resource_record" where
  "resource_state s r =
     (case map_of (resources s) r of None \<Rightarrow> \<lparr>rr_highest = 0, rr_value = PNone\<rparr> | Some x \<Rightarrow> x)"

definition fenced_apply ::
    "json_lib \<Rightarrow> op_env \<Rightarrow> string \<Rightarrow> int \<Rightarrow> (pyval \<Rightarrow> (pyval \<times> pyval) option) \<Rightarrow> pyval \<Rightarrow> coord_disk \<Rightarrow>
       reply \<times> coord_disk" where
  "fenced_apply J X resource token mutate now d =
     (if resource = [] then (Refused ''invalid_resource'', d)
      else if token < 1 then (Refused ''invalid_token'', d)
      else if now \<noteq> PNone \<and> \<not> is_number now then (Refused ''invalid_now'', d)
      else with_state J X (time_or X now) (Refused ''state_corrupt'') (\<lambda>s d2.
        let rs = resource_state s resource
        in if token < rr_highest rs then (Refused ''stale_fence_token'', d2)
           else (case active_record s resource (time_or X now) of
               None \<Rightarrow> (Refused ''not_held'', d2)
             | Some c \<Rightarrow>
                 if hr_token c \<noteq> token then (Refused ''stale_fence_token'', d2)
                 else (case mutated_value J mutate (rr_value rs) of
                     None \<Rightarrow> (Refused ''resource_mutation_failed'', d2)
                   | Some v \<Rightarrow>
                       and_then
                         (commit_state J (env2 X)
                            (s\<lparr>resources := AList.update resource \<lparr>rr_highest = max token (rr_highest rs), rr_value = v\<rparr>
                                 (resources s)\<rparr>) [] d2)
                         (\<lambda>_ d3. (Applied v, d3))))) d)"

section \<open>Events that end holds\<close>

text \<open>
  \<open>_json_equal\<close>: equal values of the same type.  \<open>fields\<close> is the caller's dict.
\<close>

lemma zip_size [termination_simp]: "(a, b) \<in> set (zip xs ys) \<Longrightarrow> size a < Suc (size_list size xs)"
  by (meson in_set_zipE le_imp_less_Suc order_refl size_list_estimation')

fun json_equal :: "pyval \<Rightarrow> pyval \<Rightarrow> bool" where
  "json_equal (PDict kvs) (PDict kvs') =
     (list_all (\<lambda>kv. fst kv \<in> fst ` set kvs') kvs \<and> list_all (\<lambda>kv. fst kv \<in> fst ` set kvs) kvs' \<and>
      list_all (\<lambda>kv. case map_of kvs' (fst kv) of None \<Rightarrow> False | Some v \<Rightarrow> json_equal (snd kv) v) kvs)"
| "json_equal (PList xs) (PList ys) =
     (length xs = length ys \<and> list_all (\<lambda>(x, y). json_equal x y) (zip xs ys))"
| "json_equal (PTuple xs) (PTuple ys) =
     (length xs = length ys \<and> list_all (\<lambda>(x, y). json_equal x y) (zip xs ys))"
| "json_equal (PFloat f) (PFloat g) = (f \<noteq> NaN \<and> f = g)"
| "json_equal x y = (x = y)"

definition match_holds :: "pyval \<Rightarrow> pyval \<Rightarrow> bool" where
  "match_holds flds m =
     list_all (\<lambda>kv. case fst kv of PStr k \<Rightarrow> json_equal (py_get flds k) (snd kv) | _ \<Rightarrow> False) (py_items m)"

definition validate_event :: "(string \<times> schema) list \<Rightarrow> string \<Rightarrow> pyval \<Rightarrow> string \<Rightarrow> string option" where
  "validate_event K kind flds actor =
     (if kind = [] then Some ''unknown_event_kind''
      else (case schema_for K kind of
        None \<Rightarrow> Some ''unknown_event_kind''
      | Some sch \<Rightarrow>
          if \<not> is_mapping flds then Some ''event_schema_violation''
          else if actor = [] then Some ''event_schema_violation''
          else if list_ex (\<lambda>(name, ty). case py_lookup flds name of None \<Rightarrow> True | Some v \<Rightarrow> \<not> matches_type v ty) sch
          then Some ''event_schema_violation''
          else if \<not> json_dumpable flds then Some ''event_schema_violation''
          else None))"

definition ended_by :: "string \<Rightarrow> pyval \<Rightarrow> rat \<Rightarrow> hold_record \<Rightarrow> bool" where
  "ended_by kind flds now h \<longleftrightarrow>
     \<not> hr_released h \<and> now < hr_expires h \<and> hr_until h = Some kind \<and> match_holds flds (hr_match h)"

definition until_reason :: "string \<Rightarrow> string" where
  "until_reason i = ''until_event:'' @ i"

text \<open>\<open>event_id\<close> is drawn before the commit; a commit whose first event had another id would raise.\<close>

definition add_event ::
    "json_lib \<Rightarrow> (string \<times> schema) list \<Rightarrow> op_env \<Rightarrow> string \<Rightarrow> string \<Rightarrow> pyval \<Rightarrow> string \<Rightarrow> coord_disk \<Rightarrow>
       reply \<times> coord_disk" where
  "add_event J K X event_id kind flds actor d =
     (case validate_event K kind flds actor of
        Some reason \<Rightarrow> (Refused reason, d)
      | None \<Rightarrow>
          with_state J X (clock X) (Refused ''state_corrupt'') (\<lambda>s d2.
            let ended = filter (ended_by kind flds (clock X)) (holds s);
                s' = s\<lparr>holds := map (\<lambda>h. if ended_by kind flds (clock X) h
                    then release_record (until_reason event_id) h else h) (holds s)\<rparr>;
                specs = \<lparr>es_kind = kind, es_fields = flds, es_actor = actor, es_id = Some event_id\<rparr> #
                  map (\<lambda>h. released_spec h (until_reason event_id) ''coordination'') ended
            in and_then (commit_state J (env2 X) s' specs d2) (\<lambda>es d3.
                 case es of
                   [] \<Rightarrow> (Raised, d3)
                 | e # _ \<Rightarrow> if ev_id e \<noteq> event_id then (Raised, d3) else (EventAdded e, d3))) d)"

end
