(* ===== verification/CoordLaws.thy ===== *)
theory CoordLaws
  imports CoordHolds
begin

text \<open>
  What every operation of \<open>CoordHolds\<close> keeps.  A state is sound when the store's own validator accepts
  it and of two holds on one resource the older is released; then no resource has two holders.  Each
  operation is shown to act on the durable state as a function on states (\<open>hold_effect\<close> and so on),
  whatever a crash left on the disk before it.
\<close>

section \<open>Sound states and disks\<close>

definition latest_only :: "coord_state \<Rightarrow> bool" where
  "latest_only s \<longleftrightarrow>
     (\<forall>h \<in> set (holds s). \<forall>h' \<in> set (holds s).
        hr_resource h = hr_resource h' \<longrightarrow> hr_token h < hr_token h' \<longrightarrow> hr_released h)"

definition sound :: "coord_state \<Rightarrow> bool" where
  "sound s \<longleftrightarrow> validate_state s \<and> latest_only s"

definition current :: "coord_disk \<Rightarrow> coord_state" where
  "current d =
     (case journal_json d of
        Parsed j \<Rightarrow> snap_state j
      | _ \<Rightarrow> (case holds_json d of Parsed s \<Rightarrow> s | _ \<Rightarrow> default_state))"

definition sound_disk :: "coord_disk \<Rightarrow> bool" where
  "sound_disk d \<longleftrightarrow>
     (case holds_json d of Absent \<Rightarrow> True | Unreadable \<Rightarrow> False | Parsed s \<Rightarrow> sound s) \<and>
     (case journal_json d of
        Absent \<Rightarrow> True
      | Unreadable \<Rightarrow> False
      | Parsed j \<Rightarrow> sound (snap_state j) \<and> list_all (\<lambda>e. 1 \<le> ev_seq e) (snap_events j))"

definition stored :: "coord_disk \<Rightarrow> coord_state \<Rightarrow> bool" where
  "stored d s \<longleftrightarrow> sound_disk d \<and> journal_json d = Absent \<and> current d = s"

lemma sound_default [simp]: "sound default_state"
  by (simp add: sound_def validate_state_def latest_only_def default_state_def valid_channels_def)

lemma sound_current: "sound_disk d \<Longrightarrow> sound (current d)"
  by (auto simp: sound_disk_def current_def split: json_file.splits)

lemma stored_sound: "stored d s \<Longrightarrow> sound s \<and> sound_disk d"
  using sound_current by (auto simp: stored_def)

lemma stored_load: "stored d s \<Longrightarrow> load_store d = Inr s"
  by (auto simp: stored_def load_store_def sound_disk_def current_def sound_def split: json_file.splits)

lemma recover_stored:
  assumes "sound_disk d"
  shows "\<exists>d'. recover J validate_state d = Inr d' \<and> stored d' (current d)"
proof (cases "journal_json d")
  case Absent
  with assms recover_clean [of d J validate_state] show ?thesis by (simp add: recover_def stored_def)
next
  case (Parsed j)
  with assms have j: "sound (snap_state j)" "list_all (\<lambda>e. 1 \<le> ev_seq e) (snap_events j)"
    by (simp_all add: sound_disk_def)
  with Parsed have "recover J validate_state d = Inr (run_steps (project_steps J j d) d)"
    by (simp add: recover_def recover_steps_def load_journal_def sound_def)
  with Parsed j show ?thesis
    by (simp add: stored_def sound_disk_def current_def project_files)
qed (use assms in \<open>simp add: sound_disk_def\<close>)

lemma commit_stored:
  assumes "sound s"
  shows "\<exists>es d'. commit_state J E s specs d = (Inr es, d') \<and> es = commit_events J E specs d \<and> stored d' s"
proof -
  obtain es d' where c: "commit_transition J validate_state E s specs d = (Inr es, d')"
    using commit_valid [of validate_state s J E specs d] assms unfolding sound_def by blast
  from committed_files [OF c] assms c show ?thesis
    by (simp add: commit_state_def stored_def sound_disk_def current_def)
qed

section \<open>The store as its clients see it\<close>

text \<open>
  The operations of other modules enter the store (lock, recover, load) and commit new states.  What
  they rely on: entering shows the durable state and does not change it, and committing a state the
  store accepts makes it the durable state.
\<close>

locale durable_store =
  fixes enter :: "'d \<Rightarrow> 'e + 's \<times> 'd"
    and commit :: "'s \<Rightarrow> 'p \<Rightarrow> 'd \<Rightarrow> ('e + 'r) \<times> 'd"
    and good :: "'d \<Rightarrow> bool"
    and accepts :: "'s \<Rightarrow> bool"
    and view :: "'d \<Rightarrow> 's"
  assumes enter_view: "good d \<Longrightarrow> \<exists>d'. enter d = Inr (view d, d') \<and> good d' \<and> view d' = view d"
    and commit_view: "accepts s \<Longrightarrow> \<exists>r d'. commit s p d = (Inr r, d') \<and> good d' \<and> view d' = s"
    and view_accepted: "good d \<Longrightarrow> accepts (view d)"
begin

text \<open>A client that decides on the state it entered with and commits what it decided.\<close>

definition transact :: "('s \<Rightarrow> 'a \<times> ('s \<times> 'p) option) \<Rightarrow> 'd \<Rightarrow> ('e + 'a) \<times> 'd" where
  "transact decide d =
     (case enter d of
        Inl e \<Rightarrow> (Inl e, d)
      | Inr (s, d') \<Rightarrow>
          (case decide s of
             (a, None) \<Rightarrow> (Inr a, d')
           | (a, Some (s', p)) \<Rightarrow> (case commit s' p d' of (Inl e, d'') \<Rightarrow> (Inl e, d'') | (Inr _, d'') \<Rightarrow> (Inr a, d''))))"

lemma transact_view:
  assumes "good d" and ok: "\<And>a s' p. decide (view d) = (a, Some (s', p)) \<Longrightarrow> accepts s'"
  shows "\<exists>d'. transact decide d = (Inr (fst (decide (view d))), d') \<and> good d' \<and>
    view d' = (case snd (decide (view d)) of None \<Rightarrow> view d | Some (s', p) \<Rightarrow> s')"
proof -
  obtain d1 where d1: "enter d = Inr (view d, d1)" "good d1" "view d1 = view d"
    using enter_view [OF assms(1)] by blast
  obtain a c where dec: "decide (view d) = (a, c)" by fastforce
  show ?thesis
  proof (cases c)
    case None
    with d1 dec show ?thesis by (simp add: transact_def)
  next
    case (Some sp)
    obtain s' p where sp: "sp = (s', p)" by fastforce
    with ok dec Some have "accepts s'" by simp
    from commit_view [OF this, of p d1] obtain r d2 where "commit s' p d1 = (Inr r, d2)" "good d2" "view d2 = s'" by blast
    with d1 dec Some sp show ?thesis by (simp add: transact_def)
  qed
qed

text \<open>Two clients one after the other see each other's decision.\<close>

lemma transact_twice:
  assumes "good d" and "\<And>s a s' p. accepts s \<Longrightarrow> decide s = (a, Some (s', p)) \<Longrightarrow> accepts s'"
    and "transact decide d = (x, d')"
  shows "good d' \<and> view d' = (case snd (decide (view d)) of None \<Rightarrow> view d | Some (s', p) \<Rightarrow> s')"
  using transact_view [OF assms(1), of decide] assms(2,3) view_accepted [OF assms(1)] by auto

end

text \<open>Lock, recover, load.\<close>

definition enter_store :: "json_lib \<Rightarrow> coord_disk \<Rightarrow> store_error + coord_state \<times> coord_disk" where
  "enter_store J d =
     (case recover J validate_state d of
        Inl x \<Rightarrow> Inl x
      | Inr d' \<Rightarrow> map_sum id (\<lambda>s. (s, d')) (load_store d'))"

interpretation journal: durable_store "enter_store J" "commit_state J E" sound_disk sound current
  for J E
proof
  show "\<exists>d'. enter_store J d = Inr (current d, d') \<and> sound_disk d' \<and> current d' = current d" if "sound_disk d" for d
    using recover_stored [OF that, of J] by (auto simp: enter_store_def stored_load stored_def)
  show "\<exists>r d'. commit_state J E s p d = (Inr r, d') \<and> sound_disk d' \<and> current d' = s" if "sound s" for s p d
    using commit_stored [OF that, of J E p d] by (auto simp: stored_def)
  show "sound (current d)" if "sound_disk d" for d
    using that by (rule sound_current)
qed

section \<open>Changes that keep a state sound\<close>

lemma list_all_map_iff: "(\<And>x. P (f x) = P x) \<Longrightarrow> list_all P (map f xs) = list_all P xs"
  by (simp add: list_all_iff)

lemma validate_map:
  assumes "\<And>h. hr_token (f h) = hr_token h" "\<And>h. hr_match (f h) = hr_match h"
  shows "validate_state (s\<lparr>holds := map f (holds s)\<rparr>) = validate_state s"
proof -
  have tokens: "map hr_token (map f (holds s)) = map hr_token (holds s)" using assms(1) by simp
  have valid: "list_all valid_hold (map f (holds s)) = list_all valid_hold (holds s)"
    by (rule list_all_map_iff) (simp add: valid_hold_def assms)
  have below: "list_all (\<lambda>h. hr_token h < next_token s) (map f (holds s)) =
      list_all (\<lambda>h. hr_token h < next_token s) (holds s)"
    by (rule list_all_map_iff) (simp add: assms)
  have parts: "holds (s\<lparr>holds := map f (holds s)\<rparr>) = map f (holds s)"
    "next_token (s\<lparr>holds := map f (holds s)\<rparr>) = next_token s"
    "resources (s\<lparr>holds := map f (holds s)\<rparr>) = resources s"
    "claims (s\<lparr>holds := map f (holds s)\<rparr>) = claims s"
    "channels (s\<lparr>holds := map f (holds s)\<rparr>) = channels s" by simp_all
  show ?thesis unfolding validate_state_def parts tokens valid below by (rule refl)
qed

lemma latest_map:
  assumes "\<And>h. hr_token (f h) = hr_token h" "\<And>h. hr_resource (f h) = hr_resource h"
    "\<And>h. hr_released h \<Longrightarrow> hr_released (f h)" "latest_only s"
  shows "latest_only (s\<lparr>holds := map f (holds s)\<rparr>)"
  using assms by (simp add: latest_only_def)

text \<open>A change of records in place: it keeps token, resource, owner and match, and never takes a release back.\<close>

definition keeps_record :: "(hold_record \<Rightarrow> hold_record) \<Rightarrow> bool" where
  "keeps_record f \<longleftrightarrow> (\<forall>h. hr_token (f h) = hr_token h \<and> hr_resource (f h) = hr_resource h \<and>
     hr_owner (f h) = hr_owner h \<and> hr_match (f h) = hr_match h \<and> (hr_released h \<longrightarrow> hr_released (f h)))"

lemma sound_map: "keeps_record f \<Longrightarrow> sound s \<Longrightarrow> sound (s\<lparr>holds := map f (holds s)\<rparr>)"
  by (simp add: sound_def validate_map latest_map keeps_record_def)

lemma keeps_release: "keeps_record (\<lambda>h. if P h then release_record r h else h)"
  by (simp add: keeps_record_def release_record_def)

lemma keeps_update: "keeps_record f \<Longrightarrow> keeps_record (\<lambda>h. if hr_token h = t then f h else h)"
  by (simp add: keeps_record_def)

lemma keeps_renew: "keeps_record (renew_record e)"
  by (simp add: keeps_record_def renew_record_def)

lemma keeps_release_record: "keeps_record (release_record r)"
  by (simp add: keeps_record_def release_record_def)

lemma sound_expire: "sound s \<Longrightarrow> sound (expire_holds now s)"
  unfolding expire_holds_def by (rule sound_map [OF keeps_release])

lemma sound_update: "keeps_record f \<Longrightarrow> sound s \<Longrightarrow> sound (update_hold t f s)"
  unfolding update_hold_def by (rule sound_map [OF keeps_update])

lemma sound_resource:
  assumes "sound s" "resource \<noteq> []" "0 \<le> rr_highest x" "json_dumpable (rr_value x)"
  shows "sound (s\<lparr>resources := AList.update resource x (resources s)\<rparr>)"
proof -
  have "list_all valid_resource (AList.update resource x rs) " if "list_all valid_resource rs" for rs
    using that assms(2-4) by (induction rs) (auto simp: valid_resource_def)
  with assms(1) show ?thesis
    by (cases "claims s") (simp_all add: sound_def validate_state_def latest_only_def)
qed

lemma valid_wave_mono:
  assumes "nt \<le> nt'" "valid_claim_wave nt kw"
  shows "valid_claim_wave nt' kw"
proof -
  have rec: "valid_claim_record nt' r" if "valid_claim_record nt r" for r
    using that assms(1) by (simp add: valid_claim_record_def)
  have resp: "valid_response nt' items x" if "valid_response nt items x" for items x
    using that rec by (cases x) auto
  show ?thesis using assms(2) rec resp by (auto simp: valid_claim_wave_def list_all_iff split: prod.splits)
qed

lemma valid_extension_mono: "nt \<le> nt' \<Longrightarrow> valid_claim_extension ws nt \<Longrightarrow> valid_claim_extension ws nt'"
  by (auto simp: valid_claim_extension_def list_all_iff valid_wave_mono)

lemma claim_tokens_below: "valid_claim_extension ws nt \<Longrightarrow> t \<in> set (claim_tokens ws) \<Longrightarrow> t < nt"
  by (fastforce simp: valid_claim_extension_def valid_claim_wave_def claim_tokens_def list_all_iff
      valid_claim_record_def)

lemma sound_grant:
  assumes "sound s" "hr_token new = next_token s" "valid_match (hr_match new)"
    and free: "\<And>h. h \<in> set (holds s) \<Longrightarrow> hr_resource h = hr_resource new \<Longrightarrow> hr_released h"
  shows "sound (s\<lparr>next_token := next_token s + 1, holds := holds s @ [new]\<rparr>)"
proof -
  have below: "hr_token h < next_token s" if "h \<in> set (holds s)" for h
    using assms(1) that by (simp add: sound_def validate_state_def list_all_iff)
  have "valid_claim_extension ws (next_token s + 1) \<and>
      distinct (map hr_token (holds s @ [new]) @ claim_tokens ws)" if "claims s = Some ws" for ws
  proof -
    have ext: "valid_claim_extension ws (next_token s)" "distinct (map hr_token (holds s) @ claim_tokens ws)"
      using assms(1) that by (simp_all add: sound_def validate_state_def)
    then have "next_token s \<notin> set (claim_tokens ws)" "next_token s \<notin> hr_token ` set (holds s)"
      using claim_tokens_below below by force+
    with ext assms(2) valid_extension_mono [OF _ ext(1), of "next_token s + 1"] show ?thesis by auto
  qed
  moreover have "distinct (map hr_token (holds s @ [new]))"
    using assms(1,2) below by (force simp: sound_def validate_state_def)
  ultimately have "validate_state (s\<lparr>next_token := next_token s + 1, holds := holds s @ [new]\<rparr>)"
    using assms(1-3) below
    by (force simp: sound_def validate_state_def valid_hold_def list_all_iff split: option.splits)
  moreover have "latest_only (s\<lparr>next_token := next_token s + 1, holds := holds s @ [new]\<rparr>)"
    using assms(1,2) free below by (fastforce simp: sound_def latest_only_def)
  ultimately show ?thesis by (simp add: sound_def)
qed

end
