(* ===== verification/CoordEffects.thy ===== *)
theory CoordEffects
  imports CoordLaws
begin

text \<open>
  The abstract specification of the holds: each operation as a function of the durable state that
  gives the reply and the new state, and the proof that the operation on the disk refines it.
\<close>

section \<open>Specifications\<close>

definition hold_core_effect ::
    "string \<Rightarrow> string \<Rightarrow> string option \<Rightarrow> pyval \<Rightarrow> rat \<Rightarrow> rat \<Rightarrow> coord_state \<Rightarrow> reply \<times> coord_state" where
  "hold_core_effect resource owner until match t expiry s =
     (case active_record s resource t of
        Some c \<Rightarrow>
          if hr_owner c \<noteq> owner then (HeldByOther c, s)
          else (Granted (renew_record expiry c), update_hold (hr_token c) (renew_record expiry) s)
      | None \<Rightarrow>
          (let new = \<lparr>hr_resource = resource, hr_owner = owner, hr_token = next_token s, hr_expires = expiry,
               hr_until = until, hr_match = match, hr_released = False, hr_reason = None\<rparr>
           in (Granted new, s\<lparr>next_token := next_token s + 1, holds := holds s @ [new]\<rparr>)))"

definition hold_effect ::
    "(string \<times> schema) list \<Rightarrow> op_env \<Rightarrow> string \<Rightarrow> string \<Rightarrow> pyval \<Rightarrow> string option \<Rightarrow> pyval \<Rightarrow> pyval \<Rightarrow>
       coord_state \<Rightarrow> reply \<times> coord_state" where
  "hold_effect K X resource owner ttl until match now s =
     (case hold_refusal K resource owner ttl until match now of
        Some reason \<Rightarrow> (Refused reason, s)
      | None \<Rightarrow>
          let t = time_or X now; expiry = t + number_of ttl
          in if \<not> float_finite expiry then (Refused ''invalid_ttl'', s)
             else hold_core_effect resource owner until match t expiry (expire_holds t s))"

definition release_effect :: "op_env \<Rightarrow> string \<Rightarrow> string \<Rightarrow> int \<Rightarrow> coord_state \<Rightarrow> reply \<times> coord_state" where
  "release_effect X resource owner token s =
     (if resource = [] then (Refused ''invalid_resource'', s)
      else if owner = [] then (Refused ''invalid_owner'', s)
      else
        (let s1 = expire_holds (clock X) s
         in case active_record s1 resource (clock X) of
              None \<Rightarrow> (Refused ''not_held'', s1)
            | Some c \<Rightarrow>
                if hr_owner c \<noteq> owner then (Refused ''owner_mismatch'', s1)
                else if hr_token c \<noteq> token then (Refused ''stale_token'', s1)
                else (ReleasedBy (uuid (env2 X) 0), update_hold token (release_record ''explicit'') s1)))"

definition fenced_effect ::
    "json_lib \<Rightarrow> op_env \<Rightarrow> string \<Rightarrow> int \<Rightarrow> (pyval \<Rightarrow> (pyval \<times> pyval) option) \<Rightarrow> pyval \<Rightarrow> coord_state \<Rightarrow>
       reply \<times> coord_state" where
  "fenced_effect J X resource token mutate now s =
     (if resource = [] then (Refused ''invalid_resource'', s)
      else if token < 1 then (Refused ''invalid_token'', s)
      else if now \<noteq> PNone \<and> \<not> is_number now then (Refused ''invalid_now'', s)
      else
        (let t = time_or X now; s1 = expire_holds t s; rs = resource_state s1 resource
         in if token < rr_highest rs then (Refused ''stale_fence_token'', s1)
            else (case active_record s1 resource t of
                None \<Rightarrow> (Refused ''not_held'', s1)
              | Some c \<Rightarrow>
                  if hr_token c \<noteq> token then (Refused ''stale_fence_token'', s1)
                  else (case mutated_value J mutate (rr_value rs) of
                      None \<Rightarrow> (Refused ''resource_mutation_failed'', s1)
                    | Some v \<Rightarrow>
                        if json_dumpable v
                        then (Applied v, s1\<lparr>resources := AList.update resource
                                \<lparr>rr_highest = max token (rr_highest rs), rr_value = v\<rparr> (resources s1)\<rparr>)
                        else (Raised, s1)))))"

definition event_effect ::
    "(string \<times> schema) list \<Rightarrow> op_env \<Rightarrow> string \<Rightarrow> string \<Rightarrow> pyval \<Rightarrow> string \<Rightarrow> coord_state \<Rightarrow> coord_state" where
  "event_effect K X event_id kind flds actor s =
     (if validate_event K kind flds actor \<noteq> None then s
      else
        (let s1 = expire_holds (clock X) s
         in s1\<lparr>holds := map (\<lambda>h. if ended_by kind flds (clock X) h
                then release_record (until_reason event_id) h else h) (holds s1)\<rparr>))"

section \<open>The shared beginning of every operation\<close>

lemma locked_stored: "sound_disk d \<Longrightarrow> \<exists>d1. locked J d body = body d1 \<and> stored d1 (current d)"
  using recover_stored [of d J] by (auto simp: locked_def)

lemma expire_none: "filter (is_due now) (holds s) = [] \<Longrightarrow> expire_holds now s = s"
proof -
  assume "filter (is_due now) (holds s) = []"
  then have "map (\<lambda>h. if is_due now h then release_record ''expired'' h else h) (holds s) = holds s"
    by (intro map_idI) (auto simp: filter_empty_conv)
  then show ?thesis by (simp add: expire_holds_def)
qed

lemma expire_stored:
  assumes "stored d s"
  shows "\<exists>d'. expire_locked J E s now d = (Inr (expire_holds now s), d') \<and> stored d' (expire_holds now s)"
proof (cases "filter (is_due now) (holds s) = []")
  case True
  with assms show ?thesis by (simp add: expire_locked_def expire_none)
next
  case False
  have "sound (expire_holds now s)" using assms stored_sound sound_expire by blast
  from commit_stored [OF this, of J E "map expired_spec (filter (is_due now) (holds s))" d] False
  show ?thesis by (auto simp: expire_locked_def Let_def)
qed

lemma commit_then:
  assumes "sound s"
  shows "\<exists>d'. and_then (commit_state J E s specs d) f = f (commit_events J E specs d) d' \<and> stored d' s"
  using commit_stored [OF assms, of J E specs d] by (auto simp: and_then_def)

text \<open>An active record is of that resource; where there is none, every record of it is released.\<close>

lemma find_member: "find P xs = Some x \<Longrightarrow> x \<in> set xs \<and> P x"
  by (induction xs) (auto split: if_splits)

lemma active_Some:
  "active_record s r now = Some h \<Longrightarrow> h \<in> set (holds s) \<and> hr_resource h = r \<and> \<not> hr_released h \<and> now < hr_expires h"
  using find_member unfolding active_record_def by fastforce

lemma active_None:
  "active_record s r now = None \<Longrightarrow> h \<in> set (holds s) \<Longrightarrow> hr_resource h = r \<Longrightarrow> hr_released h \<or> hr_expires h \<le> now"
  by (auto simp: active_record_def find_None_iff not_less)

lemma expired_released:
  "h \<in> set (holds (expire_holds now s)) \<Longrightarrow> hr_expires h \<le> now \<Longrightarrow> hr_released h"
  by (auto simp: expire_holds_def is_due_def release_record_def split: if_splits)

lemma none_all_released:
  "active_record (expire_holds now s) r now = None \<Longrightarrow> h \<in> set (holds (expire_holds now s)) \<Longrightarrow>
     hr_resource h = r \<Longrightarrow> hr_released h"
  using active_None expired_released by blast

section \<open>Refinement\<close>

text \<open>What it means that an operation refines its specification on a disk.\<close>

definition refines :: "reply \<times> coord_disk \<Rightarrow> reply \<times> coord_state \<Rightarrow> bool" where
  "refines x y \<longleftrightarrow> fst x = fst y \<and> sound_disk (snd x) \<and> current (snd x) = snd y"

lemma refines_stored: "stored d s \<Longrightarrow> refines (r, d) (r, s)"
  by (simp add: refines_def stored_def)

lemma refines_same: "sound_disk d \<Longrightarrow> refines (r, d) (r, current d)"
  by (simp add: refines_def)

lemma refines_commit:
  assumes "sound s" "\<And>d'. stored d' s \<Longrightarrow> refines (f (commit_events J E specs d) d') (r, s)"
  shows "refines (and_then (commit_state J E s specs d) f) (r, s)"
  using commit_then [OF assms(1), of J E specs d f] assms(2) by auto

lemma refines_locked:
  "sound_disk d \<Longrightarrow> (\<And>d1. stored d1 (current d) \<Longrightarrow> refines (body d1) y) \<Longrightarrow> refines (locked J d body) y"
  using locked_stored by metis

lemma refines_expire:
  assumes "stored d s" "\<And>d2. stored d2 (expire_holds now s) \<Longrightarrow> refines (body (expire_holds now s) d2) y"
  shows "refines (and_then (expire_locked J E s now d) body) y"
  using expire_stored [OF assms(1), of J E now] assms(2) by (auto simp: and_then_def)

lemma refines_with_state:
  assumes "sound_disk d"
    and "\<And>d2. stored d2 (expire_holds now (current d)) \<Longrightarrow> refines (body (expire_holds now (current d)) d2) y"
  shows "refines (with_state J X now corrupt body d) y"
  unfolding with_state_def
proof (rule refines_locked [OF assms(1)])
  fix d1
  assume "stored d1 (current d)"
  then have "refines (and_then (expire_locked J (env1 X) (current d) now d1) body) y"
    using assms(2) by (rule refines_expire)
  then show "refines (case load_store d1 of Inl _ \<Rightarrow> (corrupt, d1)
      | Inr s \<Rightarrow> and_then (expire_locked J (env1 X) s now d1) body) y"
    using \<open>stored d1 (current d)\<close> by (simp add: stored_load)
qed

lemma hold_core_refines:
  assumes "stored d s" "valid_match match"
    and free: "\<And>h. active_record s resource t = None \<Longrightarrow> h \<in> set (holds s) \<Longrightarrow> hr_resource h = resource \<Longrightarrow> hr_released h"
  shows "refines (hold_core J X resource owner until match t e s d) (hold_core_effect resource owner until match t e s)"
proof (cases "active_record s resource t")
  case None
  let ?new = "\<lparr>hr_resource = resource, hr_owner = owner, hr_token = next_token s, hr_expires = e,
     hr_until = until, hr_match = match, hr_released = False, hr_reason = None\<rparr>"
  have "sound (s\<lparr>next_token := next_token s + 1, holds := holds s @ [?new]\<rparr>)"
    using assms(1,2) stored_sound free [OF None] by (intro sound_grant) auto
  from refines_commit [OF this] show ?thesis
    by (simp add: hold_core_def hold_core_effect_def None Let_def refines_stored)
next
  case (Some c)
  have "sound (update_hold (hr_token c) (renew_record e) s)"
    using assms(1) stored_sound by (intro sound_update [OF keeps_renew]) auto
  from refines_commit [OF this] show ?thesis
    by (simp add: hold_core_def hold_core_effect_def Some refines_stored assms(1))
qed

lemma hold_refusal_None: "hold_refusal K resource owner ttl until match now = None \<Longrightarrow> valid_match match"
  by (simp add: hold_refusal_def split: if_splits)

lemma hold_refines:
  assumes "sound_disk d"
  shows "refines (hold J K X resource owner ttl until match now d)
    (hold_effect K X resource owner ttl until match now (current d))"
proof (cases "hold_refusal K resource owner ttl until match now")
  case None
  let ?t = "time_or X now"
  have body: "refines
      (if \<not> float_finite (?t + number_of ttl) then (Refused ''invalid_ttl'', d1)
       else and_then (expire_locked J (env1 X) (current d) ?t d1)
         (hold_core J X resource owner until match ?t (?t + number_of ttl)))
      (hold_effect K X resource owner ttl until match now (current d))" if "stored d1 (current d)" for d1
  proof (cases "float_finite (?t + number_of ttl)")
    case True
    then show ?thesis
      using hold_refusal_None [OF None] none_all_released
      by (auto simp: hold_effect_def None Let_def intro!: refines_expire [OF that] hold_core_refines)
  next
    case False
    then show ?thesis by (simp add: hold_effect_def None Let_def refines_stored that)
  qed
  show ?thesis
    unfolding hold_def None option.case
    by (rule refines_locked [OF assms]) (simp add: stored_load body)
next
  case (Some r)
  then show ?thesis by (simp add: hold_def hold_effect_def refines_same assms)
qed

lemma release_refines:
  assumes "sound_disk d"
  shows "refines (release J X resource owner token d) (release_effect X resource owner token (current d))"
proof (cases "resource = [] \<or> owner = []")
  case True
  then show ?thesis using refines_same [OF assms] by (auto simp: release_def release_effect_def)
next
  case False
  let ?s = "expire_holds (clock X) (current d)"
  have s: "sound ?s" using assms sound_current sound_expire by blast
  have "refines
      (case active_record ?s resource (clock X) of
         None \<Rightarrow> (Refused ''not_held'', d2)
       | Some c \<Rightarrow>
           if hr_owner c \<noteq> owner then (Refused ''owner_mismatch'', d2)
           else if hr_token c \<noteq> token then (Refused ''stale_token'', d2)
           else and_then
             (commit_state J (env2 X) (update_hold (hr_token c) (release_record ''explicit'') ?s)
                [released_spec c ''explicit'' owner] d2)
             (\<lambda>es d3. (ReleasedBy (first_id es), d3)))
      (release_effect X resource owner token (current d))" if "stored d2 ?s" for d2
  proof (cases "active_record ?s resource (clock X)")
    case None
    then show ?thesis using False by (simp add: release_effect_def Let_def refines_stored that)
  next
    case (Some c)
    have "refines (and_then
        (commit_state J (env2 X) (update_hold (hr_token c) (release_record ''explicit'') ?s)
           [released_spec c ''explicit'' owner] d2) (\<lambda>es d3. (ReleasedBy (first_id es), d3)))
        (ReleasedBy (uuid (env2 X) 0), update_hold (hr_token c) (release_record ''explicit'') ?s)"
      by (rule refines_commit [OF sound_update [OF keeps_release_record s]])
         (simp add: first_id_def commit_events_def released_spec_def refines_stored)
    then show ?thesis using False Some by (auto simp: release_effect_def Let_def refines_stored that)
  qed
  note body = this
  from False have guards: "(resource = []) = False" "(owner = []) = False" by auto
  show ?thesis
    unfolding release_def guards if_False by (rule refines_with_state [OF assms]) (rule body)
qed

text \<open>A commit the validator refuses leaves the durable state as it was.\<close>

lemma refines_refused:
  assumes "stored d s" "\<not> validate_state s'"
  shows "refines (and_then (commit_state J E s' specs d) f) (Raised, s)"
proof -
  obtain d' where c: "commit_transition J validate_state E s' specs d = (Inl StoreError, d')"
    using assms(2) by (simp add: commit_transition_def)
  from commit_refused [OF c] assms(1) have "sound_disk d' \<and> current d' = s"
    by (auto simp: stored_def sound_disk_def current_def)
  with c show ?thesis by (simp add: and_then_def commit_state_def refines_def)
qed

lemma resource_state_pos: "validate_state s \<Longrightarrow> 0 \<le> rr_highest (resource_state s r)"
  by (force simp: validate_state_def resource_state_def list_all_iff valid_resource_def split: option.splits dest: map_of_SomeD)

lemma update_dumpable:
  "validate_state (s\<lparr>resources := AList.update r x (resources s)\<rparr>) \<Longrightarrow> json_dumpable (rr_value x)"
proof -
  assume "validate_state (s\<lparr>resources := AList.update r x (resources s)\<rparr>)"
  then have "list_all valid_resource (AList.update r x (resources s))" by (simp add: validate_state_def)
  moreover have "(r, x) \<in> set (AList.update r x (resources s))"
    by (rule map_of_SomeD) (simp add: update_conv')
  ultimately show ?thesis by (force simp: list_all_iff valid_resource_def)
qed

lemma fenced_refines:
  assumes "sound_disk d"
  shows "refines (fenced_apply J X resource token mutate now d)
    (fenced_effect J X resource token mutate now (current d))"
proof (cases "resource = [] \<or> token < 1 \<or> now \<noteq> PNone \<and> \<not> is_number now")
  case True
  then show ?thesis using refines_same [OF assms] by (auto simp: fenced_apply_def fenced_effect_def)
next
  case False
  let ?t = "time_or X now"
  let ?s = "expire_holds ?t (current d)"
  let ?rs = "resource_state ?s resource"
  let ?s' = "\<lambda>v. ?s\<lparr>resources := AList.update resource \<lparr>rr_highest = max token (rr_highest ?rs), rr_value = v\<rparr> (resources ?s)\<rparr>"
  have s: "sound ?s" using assms sound_current sound_expire by blast
  have put: "refines (and_then (commit_state J (env2 X) (?s' v) [] d2) (\<lambda>_ d3. (Applied v, d3))) (Applied v, ?s' v)"
    if "json_dumpable v" for d2 v
  proof -
    have "sound (?s' v)" using False that s by (intro sound_resource) auto
    from refines_commit [OF this] show ?thesis by (simp add: refines_stored)
  qed
  have ugly: "refines (and_then (commit_state J (env2 X) (?s' v) [] d2) (\<lambda>_ d3. (Applied v, d3))) (Raised, ?s)"
    if "stored d2 ?s" "\<not> json_dumpable v" for d2 v
  proof -
    have "\<not> validate_state (?s' v)" using that(2) update_dumpable by fastforce
    from refines_refused [OF that(1) this] show ?thesis by simp
  qed
  have "refines
      (let rs = ?rs
       in if token < rr_highest rs then (Refused ''stale_fence_token'', d2)
          else (case active_record ?s resource ?t of
              None \<Rightarrow> (Refused ''not_held'', d2)
            | Some c \<Rightarrow>
                if hr_token c \<noteq> token then (Refused ''stale_fence_token'', d2)
                else (case mutated_value J mutate (rr_value rs) of
                    None \<Rightarrow> (Refused ''resource_mutation_failed'', d2)
                  | Some v \<Rightarrow>
                      and_then (commit_state J (env2 X) (?s\<lparr>resources := AList.update resource
                          \<lparr>rr_highest = max token (rr_highest rs), rr_value = v\<rparr> (resources ?s)\<rparr>) [] d2)
                        (\<lambda>_ d3. (Applied v, d3)))))
      (fenced_effect J X resource token mutate now (current d))" if "stored d2 ?s" for d2
    using False put ugly [OF that]
    by (auto simp: fenced_effect_def Let_def refines_stored that split: option.split)
  note body = this
  from False have guards: "(resource = []) = False" "(token < 1) = False" "(now \<noteq> PNone \<and> \<not> is_number now) = False"
    by auto
  show ?thesis
    unfolding fenced_apply_def guards if_False by (rule refines_with_state [OF assms]) (rule body)
qed

text \<open>An event's reply carries its place in the log; its effect is on the holds.\<close>

lemma event_refines:
  assumes "sound_disk d"
  shows "\<exists>r. refines (add_event J K X event_id kind flds actor d)
    (r, event_effect K X event_id kind flds actor (current d)) \<and>
    (validate_event K kind flds actor = None \<longrightarrow> (\<exists>e. r = EventAdded e \<and> ev_id e = event_id \<and>
       ev_kind e = kind \<and> ev_fields e = flds \<and> ev_actor e = actor))"
proof (cases "validate_event K kind flds actor")
  case (Some a)
  then show ?thesis using refines_same [OF assms] by (auto simp: add_event_def event_effect_def)
next
  case None
  let ?s = "expire_holds (clock X) (current d)"
  let ?s' = "event_effect K X event_id kind flds actor (current d)"
  let ?specs = "\<lparr>es_kind = kind, es_fields = flds, es_actor = actor, es_id = Some event_id\<rparr> #
    map (\<lambda>h. released_spec h (until_reason event_id) ''coordination'')
      (filter (ended_by kind flds (clock X)) (holds ?s))"
  have s: "sound ?s" using assms sound_current sound_expire by blast
  have s': "sound ?s'"
    using sound_map [OF keeps_release s] None by (simp add: event_effect_def Let_def)
  obtain d1 where d1: "locked J d (\<lambda>d1. x d1) = x d1" "stored d1 (current d)" for x :: "coord_disk \<Rightarrow> reply \<times> coord_disk"
    using recover_stored [OF assms, of J] by (auto simp: locked_def)
  obtain d2 where d2: "expire_locked J (env1 X) (current d) (clock X) d1 = (Inr ?s, d2)" "stored d2 ?s"
    using expire_stored [OF d1(2)] by blast
  obtain d3 where d3: "commit_state J (env2 X) ?s' ?specs d2 = (Inr (commit_events J (env2 X) ?specs d2), d3)" "stored d3 ?s'"
    using commit_stored [OF s'] by blast
  obtain e es where es: "commit_events J (env2 X) ?specs d2 = e # es" "ev_id e = event_id" "ev_kind e = kind"
      "ev_fields e = flds" "ev_actor e = actor"
    by (simp add: commit_events_def)
  have "add_event J K X event_id kind flds actor d = (EventAdded e, d3)"
    using d3(1) None
    by (simp add: add_event_def with_state_def d1 stored_load [OF d1(2)] d2 and_then_def Let_def es event_effect_def)
  then have "refines (add_event J K X event_id kind flds actor d) (EventAdded e, ?s')"
    using d3(2) by (simp add: refines_stored)
  with es show ?thesis by blast
qed

text \<open>The reads expire what ran out and change nothing else.\<close>

lemma check_refines:
  assumes "sound_disk d"
  shows "now = PNone \<or> is_number now \<Longrightarrow> refines (check_held J X resource owner now d)
      (CheckHeld (case active_record (expire_holds (time_or X now) (current d)) resource (time_or X now) of
         None \<Rightarrow> None | Some c \<Rightarrow> if Some (hr_owner c) = owner then None else Some c),
       expire_holds (time_or X now) (current d))"
    and "refines (check_fence J X resource token d)
      (case active_record (expire_holds (clock X) (current d)) resource (clock X) of
         None \<Rightarrow> Refused ''not_held''
       | Some c \<Rightarrow> if hr_token c \<noteq> token then Refused ''stale_token'' else Granted c,
       expire_holds (clock X) (current d))"
    and "now = PNone \<or> is_number now \<Longrightarrow> refines (active_holds J X now d)
      (ActiveHolds (sort_key hr_resource (sort_key hr_token
         (filter (\<lambda>h. \<not> hr_released h \<and> time_or X now < hr_expires h)
           (holds (expire_holds (time_or X now) (current d)))))), expire_holds (time_or X now) (current d))"
  by (auto simp: check_held_def check_fence_def active_holds_def refines_stored split: option.splits
      intro!: refines_with_state [OF assms])

end
