(* ===== verification/CoordRuns.thy ===== *)
theory CoordRuns
  imports CoordEffects
begin

text \<open>
  Runs of the store: calls by any number of processes, one after the other under the lock, with
  crashes at any point.  The lemmas say what no call takes back: tokens, releases and fences.
\<close>

section \<open>Calls\<close>

datatype call =
    HoldCall string string pyval "string option" pyval pyval
  | ReleaseCall string string int
  | CheckCall string "string option" pyval
  | FenceCall string int
  | HoldsCall pyval
  | ApplyCall string int "pyval \<Rightarrow> (pyval \<times> pyval) option" pyval
  | EventCall string string pyval string

fun run_call ::
    "json_lib \<Rightarrow> (string \<times> schema) list \<Rightarrow> op_env \<Rightarrow> call \<Rightarrow> coord_disk \<Rightarrow> reply \<times> coord_disk" where
  "run_call J K X (HoldCall r ow ttl until m now) d = hold J K X r ow ttl until m now d"
| "run_call J K X (ReleaseCall r ow t) d = release J X r ow t d"
| "run_call J K X (CheckCall r ow now) d = check_held J X r ow now d"
| "run_call J K X (FenceCall r t) d = check_fence J X r t d"
| "run_call J K X (HoldsCall now) d = active_holds J X now d"
| "run_call J K X (ApplyCall r t mutate now) d = fenced_apply J X r t mutate now d"
| "run_call J K X (EventCall i kind flds actor) d = add_event J K X i kind flds actor d"

definition read_state :: "op_env \<Rightarrow> pyval \<Rightarrow> coord_state \<Rightarrow> coord_state" where
  "read_state X now s = (if now = PNone \<or> is_number now then expire_holds (time_or X now) s else s)"

fun call_state ::
    "json_lib \<Rightarrow> (string \<times> schema) list \<Rightarrow> op_env \<Rightarrow> call \<Rightarrow> coord_state \<Rightarrow> coord_state" where
  "call_state J K X (HoldCall r ow ttl until m now) s = snd (hold_effect K X r ow ttl until m now s)"
| "call_state J K X (ReleaseCall r ow t) s = snd (release_effect X r ow t s)"
| "call_state J K X (CheckCall r ow now) s = read_state X now s"
| "call_state J K X (FenceCall r t) s = expire_holds (clock X) s"
| "call_state J K X (HoldsCall now) s = read_state X now s"
| "call_state J K X (ApplyCall r t mutate now) s = snd (fenced_effect J X r t mutate now s)"
| "call_state J K X (EventCall i kind flds actor) s = event_effect K X i kind flds actor s"

lemma refinesD: "refines x y \<Longrightarrow> x = (r, d') \<Longrightarrow> r = fst y \<and> sound_disk d' \<and> current d' = snd y"
  by (auto simp: refines_def)

lemma run_call_state:
  assumes "sound_disk d" "run_call J K X c d = (r, d')"
  shows "sound_disk d' \<and> current d' = call_state J K X c (current d)"
proof (cases c)
  case (HoldCall a b cc dd e f)
  with assms refinesD [OF hold_refines [OF assms(1)]] show ?thesis by simp
next
  case (ReleaseCall a b cc)
  with assms refinesD [OF release_refines [OF assms(1)]] show ?thesis by simp
next
  case (CheckCall rs ow now)
  show ?thesis
  proof (cases "now = PNone \<or> is_number now")
    case True
    from refinesD [OF check_refines(1) [OF assms(1) this]] assms(2) CheckCall True show ?thesis
      by (simp add: read_state_def)
  next
    case False
    with assms CheckCall show ?thesis by (auto simp: check_held_def read_state_def)
  qed
next
  case (FenceCall a b)
  with assms refinesD [OF check_refines(2) [OF assms(1)]] show ?thesis by simp
next
  case (HoldsCall now)
  show ?thesis
  proof (cases "now = PNone \<or> is_number now")
    case True
    from refinesD [OF check_refines(3) [OF assms(1) this]] assms(2) HoldsCall True show ?thesis
      by (simp add: read_state_def)
  next
    case False
    with assms HoldsCall show ?thesis by (auto simp: active_holds_def read_state_def)
  qed
next
  case (ApplyCall a b cc dd)
  with assms refinesD [OF fenced_refines [OF assms(1)]] show ?thesis by simp
next
  case (EventCall i kind flds actor)
  obtain r' where "refines (add_event J K X i kind flds actor d) (r', event_effect K X i kind flds actor (current d))"
    using event_refines [OF assms(1)] by blast
  from refinesD [OF this] assms(2) EventCall show ?thesis by simp
qed

section \<open>What no call takes back\<close>

definition later :: "coord_state \<Rightarrow> coord_state \<Rightarrow> bool" where
  "later s s' \<longleftrightarrow>
     next_token s \<le> next_token s' \<and>
     (\<forall>h \<in> set (holds s). \<exists>h' \<in> set (holds s'). hr_token h' = hr_token h \<and> hr_resource h' = hr_resource h \<and>
        hr_owner h' = hr_owner h \<and> (hr_released h \<longrightarrow> hr_released h')) \<and>
     (\<forall>r. rr_highest (resource_state s r) \<le> rr_highest (resource_state s' r))"

lemma later_refl [simp]: "later s s"
  by (auto simp: later_def)

lemma later_trans:
  assumes "later a b" "later b c"
  shows "later a c"
  unfolding later_def
proof (intro conjI ballI allI)
  fix h
  assume "h \<in> set (holds a)"
  then obtain h' where "h' \<in> set (holds b)" "hr_token h' = hr_token h \<and> hr_resource h' = hr_resource h \<and>
      hr_owner h' = hr_owner h \<and> (hr_released h \<longrightarrow> hr_released h')"
    using assms(1) unfolding later_def by blast
  moreover then obtain h'' where "h'' \<in> set (holds c)" "hr_token h'' = hr_token h' \<and> hr_resource h'' = hr_resource h' \<and>
      hr_owner h'' = hr_owner h' \<and> (hr_released h' \<longrightarrow> hr_released h'')"
    using assms(2) unfolding later_def by blast
  ultimately show "\<exists>h' \<in> set (holds c). hr_token h' = hr_token h \<and> hr_resource h' = hr_resource h \<and>
      hr_owner h' = hr_owner h \<and> (hr_released h \<longrightarrow> hr_released h')"
    by (intro bexI [of _ h'']) auto
qed (use assms in \<open>auto simp: later_def intro: order.trans\<close>)

lemma later_map: "keeps_record f \<Longrightarrow> later s (s\<lparr>holds := map f (holds s)\<rparr>)"
  by (auto simp: later_def keeps_record_def resource_state_def)

lemma later_expire [simp]: "later s (expire_holds t s)"
  unfolding expire_holds_def by (rule later_map [OF keeps_release])

lemma later_update: "keeps_record f \<Longrightarrow> later s (update_hold t f s)"
  unfolding update_hold_def by (rule later_map [OF keeps_update])

lemma later_grant: "later s (s\<lparr>next_token := next_token s + 1, holds := holds s @ [new]\<rparr>)"
  by (auto simp: later_def resource_state_def)

lemma later_resource:
  "rr_highest (resource_state s r) \<le> rr_highest x \<Longrightarrow> later s (s\<lparr>resources := AList.update r x (resources s)\<rparr>)"
  by (auto simp: later_def resource_state_def update_conv')

lemma hold_later: "later s (snd (hold_effect K X r ow ttl until m now s))"
proof -
  have core: "later s (snd (hold_core_effect r ow until m t e s))" for t e s
    by (auto simp: hold_core_effect_def Let_def later_grant later_update keeps_renew split: option.split)
  show ?thesis
    by (auto simp: hold_effect_def Let_def split: option.split intro: later_trans [OF later_expire core])
qed

lemma release_later: "later s (snd (release_effect X r ow t s))"
  by (auto simp: release_effect_def Let_def split: option.split
      intro: later_trans [OF later_expire later_update [OF keeps_release_record]])

lemma fenced_later: "later s (snd (fenced_effect J X r t mutate now s))"
  by (auto simp: fenced_effect_def Let_def split: option.split
      intro: later_trans [OF later_expire later_resource])

lemma event_later: "later s (event_effect K X i kind flds actor s)"
  by (auto simp: event_effect_def Let_def intro: later_trans [OF later_expire later_map [OF keeps_release]])

lemma call_later: "later s (call_state J K X c s)"
  by (cases c) (simp_all add: hold_later release_later fenced_later event_later read_state_def)

section \<open>Crashes inside a call\<close>

lemma crash_current:
  assumes "stored d s" "sound s'" "d' \<in> set (crash_disks (commit_steps J E s' specs d) d)"
  shows "sound_disk d' \<and> (current d' = s \<or> current d' = s')"
proof -
  let ?j = "commit_snapshot J E s' specs d"
  let ?C = "commit_repairs J specs d"
  let ?d2 = "run_steps (?C @ [WriteJournal ?j]) d"
  have st: "sound_disk d" "journal_json d = Absent" "current d = s" using assms(1) by (simp_all add: stored_def)
  have pend: "sound_disk x \<and> current x = s'"
    if "journal_json x = Parsed ?j" "holds_json x = holds_json d \<or> holds_json x = Parsed s'" for x
    using that assms(2) st
    by (auto simp: sound_disk_def current_def commit_snapshot_def commit_seq split: json_file.splits)
  have quiet: "holds_json x = Parsed s' \<and> journal_json x = Parsed ?j"
    if "x \<in> set (crash_disks ss y)" "holds_json y = Parsed s' \<and> journal_json y = Parsed ?j"
      "\<forall>z \<in> set ss. \<exists>b n. z = AppendTorn b \<or> z = TruncateEvents n \<or> z = AppendEvents b" for ss x y
    using that by (induction ss arbitrary: y) fastforce+
  let ?H = "holds_steps ?j ?d2"
  let ?A = "append_steps J (snap_events ?j) ?d2"
  have A: "\<forall>z \<in> set ?A. \<exists>b n. z = AppendTorn b \<or> z = TruncateEvents n \<or> z = AppendEvents b"
    by (auto simp: append_steps_def repair_steps_def Let_def split: option.splits if_splits)
  have start: "holds_json (run_steps ?H ?d2) = Parsed s' \<and> journal_json (run_steps ?H ?d2) = Parsed ?j"
    by (simp add: holds_steps_run) (simp add: commit_snapshot_def)
  have proj: "project_steps J ?j ?d2 = ?H @ ?A @ [UnlinkJournal]"
    by (simp add: project_steps_def holds_steps_def)
  have final: "run_steps ?A (run_steps ?H ?d2) \<in> set (crash_disks ?A (run_steps ?H ?d2))"
  proof -
    have "run_steps ss y \<in> set (crash_disks ss y)" for ss and y :: coord_disk
      by (induction ss arbitrary: y) auto
    then show ?thesis .
  qed
  have "d' \<in> set (crash_disks ?C d) \<union> set (crash_disks [WriteJournal ?j] (run_steps ?C d)) \<union>
      set (crash_disks ?H ?d2) \<union> set (crash_disks ?A (run_steps ?H ?d2)) \<union>
      set (crash_disks [UnlinkJournal] (run_steps ?A (run_steps ?H ?d2)))"
    using assms(3) crash_append [of "?C @ [WriteJournal ?j]" "project_steps J ?j ?d2" d]
      crash_append [of ?C "[WriteJournal ?j]" d] crash_append [of ?H "?A @ [UnlinkJournal]" ?d2]
      crash_append [of ?A "[UnlinkJournal]" "run_steps ?H ?d2"]
    unfolding commit_steps_alt Let_def proj by blast
  then consider "d' \<in> set (crash_disks ?C d)" | "d' = run_steps ?C d" | "d' = ?d2"
    | "d' \<in> set (crash_disks ?H ?d2)" | "d' \<in> set (crash_disks ?A (run_steps ?H ?d2))"
    | "d' = do_step UnlinkJournal (run_steps ?A (run_steps ?H ?d2))"
    using final by auto
  then show ?thesis
  proof cases
    case 1
    with st show ?thesis by (auto simp: sound_disk_def current_def dest!: commit_repairs_crash)
  next
    case 2
    with st show ?thesis by (simp add: sound_disk_def current_def commit_repairs_run)
  next
    case 3
    have "sound_disk d' \<and> current d' = s'" unfolding 3 by (rule pend) (simp_all add: commit_repairs_run)
    then show ?thesis by blast
  next
    case 4
    have "journal_json d' = journal_json ?d2 \<and> (holds_json d' = holds_json ?d2 \<or> holds_json d' = Parsed s')"
      using holds_steps_crash [OF 4] by (auto simp: commit_snapshot_def)
    then have "sound_disk d' \<and> current d' = s'" by (intro pend) (auto simp: commit_repairs_run)
    then show ?thesis by blast
  next
    case 5
    from quiet [OF this start A] have "sound_disk d' \<and> current d' = s'" by (intro pend) auto
    then show ?thesis by blast
  next
    case 6
    from quiet [OF final start A] 6 assms(2) show ?thesis by (simp add: sound_disk_def current_def)
  qed
qed

section \<open>Runs\<close>

text \<open>
  A run collects the calls that returned, with their replies.  A crash happens in the commit of a
  call: of the expiry or of the call's own change (a call whose expiry committed and whose change
  crashed is a read followed by a crash).
\<close>

definition empty_disk :: coord_disk where
  "empty_disk = \<lparr>holds_json = Absent, journal_json = Absent, events_jsonl = None, events_torn = []\<rparr>"

inductive store_run :: "json_lib \<Rightarrow> (string \<times> schema) list \<Rightarrow> (call \<times> reply) list \<Rightarrow> coord_disk \<Rightarrow> bool"
  for J K where
  run_empty: "store_run J K [] empty_disk"
| run_calls: "store_run J K tr d \<Longrightarrow> run_call J K X c d = (r, d') \<Longrightarrow> store_run J K (tr @ [(c, r)]) d'"
| run_crash: "store_run J K tr d \<Longrightarrow> recover J validate_state d = Inr d1 \<Longrightarrow>
    s = expire_holds t (current d1) \<or> s = call_state J K X c (current d1) \<Longrightarrow>
    d' \<in> set (crash_disks (commit_steps J E s specs d1) d1) \<Longrightarrow> store_run J K tr d'"

lemma call_sound: "sound s \<Longrightarrow> sound (call_state J K X c s)"
proof -
  assume "sound s"
  let ?d = "empty_disk\<lparr>holds_json := Parsed s\<rparr>"
  have d: "sound_disk ?d" "current ?d = s"
    using \<open>sound s\<close> by (simp_all add: sound_disk_def current_def empty_disk_def)
  obtain r d' where "run_call J K X c ?d = (r, d')" by fastforce
  from run_call_state [OF d(1) this] d(2) sound_current show ?thesis by metis
qed

lemma crash_step_state:
  assumes "sound_disk d" "recover J validate_state d = Inr d1"
    and "s = expire_holds t (current d1) \<or> s = call_state J K X c (current d1)"
    and "d' \<in> set (crash_disks (commit_steps J E s specs d1) d1)"
  shows "sound_disk d' \<and> later (current d) (current d')"
proof -
  from recover_stored [OF assms(1), of J] assms(2) have st: "stored d1 (current d)" by simp
  then have "current d1 = current d" by (simp add: stored_def)
  moreover from this have "sound s"
    using assms(3) sound_expire call_sound sound_current [OF assms(1)] by metis
  ultimately have s: "sound s" "current d1 = current d" by blast+
  with crash_current [OF st s(1) assms(4)] assms(3) show ?thesis
    using later_expire call_later by auto
qed

lemma run_sound: "store_run J K tr d \<Longrightarrow> sound_disk d"
proof (induction rule: store_run.induct)
  case run_empty
  show ?case by (simp add: sound_disk_def empty_disk_def)
next
  case (run_calls tr d X c r d')
  then show ?case using run_call_state by blast
next
  case (run_crash tr d d1 s t X c d' E specs)
  then show ?case using crash_step_state by blast
qed

end
