(* ===== verification/CoordProperties.thy ===== *)
theory CoordProperties
  imports CoordRuns
begin

text \<open>
  Properties of the coordination store: crash recovery, the event log, mutual exclusion of holds,
  fencing tokens and the fenced resource.
\<close>

section \<open>Commits and crashes\<close>

text \<open>
  C10 (safety): a commit is atomic under any number of crashes.  When the process dies anywhere in a
  commit, and any number of recoveries die too, the next recovery that finishes does not fail, and
  what it leaves (state, no journal, complete log lines) is what was there before the commit or what
  the commit without a crash leaves.
\<close>

theorem commit_atomic:
  assumes "journal_json d = Absent" "valid s" "good_events J (commit_events J E specs d)"
    and "crashed J valid (commit_steps J E s specs d) d d'"
  shows "\<exists>d''. recover J valid d' = Inr d'' \<and>
    (durable d'' = durable d \<or> durable d'' = durable (run_steps (commit_steps J E s specs d) d))"
  using crash_recovers [OF assms(4,1,2,3)] .

definition demo_json :: json_lib where
  "demo_json =
     \<lparr>dumps = (\<lambda>v. if py_get v ''event_id'' = PStr ''a'' then ''E'' else ''F''),
      loads = (\<lambda>s. if s = ''E'' then Some (PDict [(PStr ''event_id'', PStr ''a''), (PStr ''seq'', PInt 1), (PStr ''kind'', PStr ''k'')])
         else if s = ''F'' then Some (PDict [(PStr ''event_id'', PStr ''b''), (PStr ''seq'', PInt 1), (PStr ''kind'', PStr ''k'')])
         else None),
      json_copy = Some, torn_marker = (\<lambda>_. ''torn'')\<rparr>"

definition demo_env :: commit_env where
  "demo_env = \<lparr>uuid = (\<lambda>_. ''a''), stamp = (\<lambda>_. 0)\<rparr>"

definition demo_spec :: event_spec where
  "demo_spec = \<lparr>es_kind = ''k'', es_fields = PNone, es_actor = ''x'', es_id = None\<rparr>"

definition demo_disk :: "nat disk" where
  "demo_disk = \<lparr>holds_json = Absent, journal_json = Absent, events_jsonl = None, events_torn = []\<rparr>"

lemma demo_events:
  "commit_events demo_json demo_env [demo_spec] demo_disk =
     [\<lparr>ev_id = ''a'', ev_seq = 1, ev_ts = 0, ev_kind = ''k'', ev_actor = ''x'', ev_fields = PNone\<rparr>]"
  by code_simp

lemma demo_good: "good_events demo_json (commit_events demo_json demo_env [demo_spec] demo_disk)"
  by code_simp

text \<open>The crash after two bytes of the journal's projection: the journal and half a line are there.\<close>

definition demo_crash :: "nat disk" where
  "demo_crash =
     \<lparr>holds_json = Parsed 7, journal_json = Parsed \<lparr>snap_state = 7,
        snap_events = [\<lparr>ev_id = ''a'', ev_seq = 1, ev_ts = 0, ev_kind = ''k'', ev_actor = ''x'', ev_fields = PNone\<rparr>]\<rparr>,
      events_jsonl = Some ''E'', events_torn = []\<rparr>"

lemma demo_crashed: "demo_crash \<in> set (crash_disks (commit_steps demo_json demo_env 7 [demo_spec] demo_disk) demo_disk)"
  by code_simp

theorem commit_atomic_witness:
  "\<exists>d''. recover demo_json (\<lambda>_. True) demo_crash = Inr d'' \<and>
    (durable d'' = durable demo_disk \<or>
     durable d'' = durable (run_steps (commit_steps demo_json demo_env 7 [demo_spec] demo_disk) demo_disk))"
  by (rule commit_atomic [OF _ _ demo_good first_crash [OF demo_crashed]]) (simp_all add: demo_disk_def)

text \<open>
  Property (functional): the log gets each event of a commit once.  When the ids of the new events are new
  and distinct, a commit appends exactly their lines, in order, after the complete lines of the log
  (a torn tail goes to \<open>events.torn\<close>), the new state is durable and the journal is gone.
\<close>

theorem commit_appends_once:
  assumes "commit_transition J valid E s specs d = (Inr es, d')" "good_events J es"
    and "distinct (map ev_id es)" "set (map ev_id es) \<inter> set (recorded_ids J (complete_lines (log_bytes d))) = {}"
  shows "durable d' = (Parsed s, Absent, complete_lines (log_bytes d) @ log_lines J es) \<and>
    recorded_ids J (complete_lines (log_bytes d')) =
      recorded_ids J (complete_lines (log_bytes d)) @ map ev_id es"
proof -
  have "missing_events (set (recorded_ids J (complete_lines (log_bytes d)))) es = es"
    by (rule missing_fresh) (use assms(3,4) in auto)
  then show ?thesis
    using committed_log [OF assms(1,2)] committed_files [OF assms(1)] assms(2)
    by (simp add: durable_def recorded_lines)
qed

theorem commit_appends_once_witness:
  "durable (snd (commit_transition demo_json (\<lambda>_. True) demo_env 7 [demo_spec] demo_disk)) =
     (Parsed 7, Absent, ''E'' @ [newline])"
proof -
  let ?c = "commit_transition demo_json (\<lambda>_. True) demo_env 7 [demo_spec] demo_disk"
  have c: "?c = (Inr (commit_events demo_json demo_env [demo_spec] demo_disk), snd ?c)"
    by (simp add: commit_transition_def)
  have "durable (snd ?c) = (Parsed 7, Absent, complete_lines (log_bytes demo_disk) @
      log_lines demo_json (commit_events demo_json demo_env [demo_spec] demo_disk))"
    using commit_appends_once [OF c demo_good] unfolding demo_events by (simp add: recorded_ids_def demo_disk_def
      log_bytes_def complete_lines_def event_records_def bytes_splitlines_def map_filter_simps)
  also have "complete_lines (log_bytes demo_disk) @
      log_lines demo_json (commit_events demo_json demo_env [demo_spec] demo_disk) = ''E'' @ [newline]"
    by code_simp
  finally show ?thesis .
qed

section \<open>Refinement\<close>

text \<open>
  C13 (refinement): what a call does to the durable state is its specification, whatever journal a
  crash left on the disk, and calls keep the disk sound.  Acquire, release and the fenced update also
  give the reply of the specification.
\<close>

theorem calls_refine:
  assumes "sound_disk d"
  shows "(\<forall>c r d'. run_call J K X c d = (r, d') \<longrightarrow> sound_disk d' \<and> current d' = call_state J K X c (current d)) \<and>
    fst (hold J K X rs ow ttl until m now d) = fst (hold_effect K X rs ow ttl until m now (current d)) \<and>
    fst (release J X rs ow t d) = fst (release_effect X rs ow t (current d)) \<and>
    fst (fenced_apply J X rs t mutate now d) = fst (fenced_effect J X rs t mutate now (current d))"
  using run_call_state [OF assms] hold_refines [OF assms] release_refines [OF assms] fenced_refines [OF assms]
  by (simp add: refines_def)

theorem calls_refine_witness:
  "current (snd (run_call demo_json [] \<lparr>clock = 5, env1 = demo_env, env2 = demo_env\<rparr>
     (HoldCall ''r'' ''o'' (PInt 10) None PNone PNone) empty_disk)) =
   call_state demo_json [] \<lparr>clock = 5, env1 = demo_env, env2 = demo_env\<rparr>
     (HoldCall ''r'' ''o'' (PInt 10) None PNone PNone) default_state"
proof -
  have "sound_disk empty_disk" "current empty_disk = default_state"
    by (simp_all add: sound_disk_def current_def empty_disk_def)
  with calls_refine [of empty_disk demo_json "[]" "\<lparr>clock = 5, env1 = demo_env, env2 = demo_env\<rparr>"] show ?thesis
    by (metis prod.collapse)
qed

section \<open>Invariants of runs\<close>

lemma unreleased_top:
  assumes "sound s" "h \<in> set (holds s)" "h' \<in> set (holds s)" "hr_resource h = hr_resource h'" "\<not> hr_released h"
  shows "hr_token h' \<le> hr_token h"
  using assms by (force simp: sound_def latest_only_def not_le)

lemma unreleased_unique:
  assumes "sound s" "h \<in> set (holds s)" "h' \<in> set (holds s)" "hr_resource h = hr_resource h'"
    "\<not> hr_released h" "\<not> hr_released h'"
  shows "h' = h"
proof -
  have "hr_token h' = hr_token h"
    using unreleased_top [OF assms(1-5)] unreleased_top [OF assms(1,3,2) assms(4) [symmetric] assms(6)] by simp
  moreover have "distinct (map hr_token (holds s))" using assms(1) by (simp add: sound_def validate_state_def)
  ultimately show ?thesis using assms(2,3) by (auto simp: distinct_map inj_on_def)
qed

lemma live_active:
  assumes "sound s" "h \<in> set (holds s)" "\<not> hr_released h" "t < hr_expires h"
  shows "h \<in> set (holds (expire_holds t s)) \<and> active_record (expire_holds t s) (hr_resource h) t = Some h"
proof -
  have h: "h \<in> set (holds (expire_holds t s))"
    using assms(2-4) by (force simp: expire_holds_def is_due_def)
  show ?thesis
  proof (cases "active_record (expire_holds t s) (hr_resource h) t")
    case None
    from active_None [OF None h refl] assms(3,4) show ?thesis by simp
  next
    case (Some h')
    then have "h' = h"
      using unreleased_unique [OF sound_expire [OF assms(1)] h] active_Some [OF Some] assms(3) by metis
    with h Some show ?thesis by simp
  qed
qed

text \<open>
  C11 (invariant): in every run of calls and crashes from an empty directory the store stays readable
  and no resource has two holders: the validator accepts the durable state, recovery does not fail,
  at most one record of a resource is not released, and that one has the highest token granted for it.
\<close>

theorem runs_have_one_holder:
  assumes "store_run J K tr d"
  shows "validate_state (current d) \<and> (\<exists>d'. recover J validate_state d = Inr d') \<and>
    (\<forall>h \<in> set (holds (current d)). \<forall>h' \<in> set (holds (current d)).
       hr_resource h = hr_resource h' \<and> \<not> hr_released h \<longrightarrow>
         hr_token h' \<le> hr_token h \<and> (\<not> hr_released h' \<longrightarrow> h' = h))"
proof -
  have snd: "sound_disk d" by (rule run_sound [OF assms])
  then have s: "sound (current d)" by (rule sound_current)
  then show ?thesis
    using recover_stored [OF snd, of J] unreleased_top [OF s] unreleased_unique [OF s] by (auto simp: sound_def)
qed

theorem runs_have_one_holder_witness:
  "validate_state (current (snd (run_call demo_json [] \<lparr>clock = 5, env1 = demo_env, env2 = demo_env\<rparr>
     (HoldCall ''r'' ''o'' (PInt 10) None PNone PNone) empty_disk)))"
  using runs_have_one_holder [OF run_calls [OF run_empty surjective_pairing]] by blast

text \<open>
  Property (safety): a live hold excludes everyone else.  While a record is not released and its time has
  not run out at the time of the call, another owner's acquire of that resource is refused with this
  record as the holder, and the record stays as it is; the owner's own acquire renews it under the
  same token, to the later of the two times.
\<close>

theorem live_hold_excludes:
  assumes "sound s" "h \<in> set (holds s)" "\<not> hr_released h" "time_or X now < hr_expires h"
    and "hold_refusal K (hr_resource h) ow ttl until m now = None"
    and "float_finite (time_or X now + number_of ttl)"
  shows "(ow \<noteq> hr_owner h \<longrightarrow>
      fst (hold_effect K X (hr_resource h) ow ttl until m now s) = HeldByOther h \<and>
      h \<in> set (holds (snd (hold_effect K X (hr_resource h) ow ttl until m now s)))) \<and>
    (ow = hr_owner h \<longrightarrow>
      fst (hold_effect K X (hr_resource h) ow ttl until m now s) =
        Granted (h\<lparr>hr_expires := max (hr_expires h) (time_or X now + number_of ttl)\<rparr>))"
  using live_active [OF assms(1-4)] assms(5,6)
  by (auto simp: hold_effect_def Let_def hold_core_effect_def renew_record_def)

definition held_state :: coord_state where
  "held_state = \<lparr>next_token = 2, holds = [\<lparr>hr_resource = ''r'', hr_owner = ''o'', hr_token = 1, hr_expires = 20,
      hr_until = None, hr_match = PNone, hr_released = False, hr_reason = None\<rparr>], resources = [], claims = None, channels = None\<rparr>"

lemma held_sound: "sound held_state"
  by code_simp

theorem live_hold_excludes_witness:
  "fst (hold_effect [] \<lparr>clock = 5, env1 = demo_env, env2 = demo_env\<rparr> ''r'' ''p'' (PInt 10) None PNone PNone held_state) =
     HeldByOther (hd (holds held_state))"
  using live_hold_excludes [OF held_sound, of "hd (holds held_state)" "\<lparr>clock = 5, env1 = demo_env, env2 = demo_env\<rparr>"
      PNone "[]" "''p''" "PInt 10" None PNone]
  by (simp add: held_state_def time_or_def hold_refusal_def valid_match_def float_finite_def)

section \<open>Fencing\<close>

text \<open>The tokens granted for a resource so far.\<close>

definition grants :: "string \<Rightarrow> (call \<times> reply) list \<Rightarrow> int set" where
  "grants r tr = {hr_token h | h ow ttl until m now. (HoldCall r ow ttl until m now, Granted h) \<in> set tr}"

definition has_token :: "coord_state \<Rightarrow> string \<Rightarrow> int \<Rightarrow> bool" where
  "has_token s r t \<longleftrightarrow> (\<exists>h \<in> set (holds s). hr_resource h = r \<and> hr_token h = t)"

lemma later_token: "later s s' \<Longrightarrow> has_token s r t \<Longrightarrow> has_token s' r t"
  unfolding later_def has_token_def by metis

lemma granted_token:
  assumes "fst (hold_effect K X r ow ttl until m now s) = Granted h"
  shows "has_token (snd (hold_effect K X r ow ttl until m now s)) r (hr_token h)"
proof -
  have core: "has_token (snd (hold_core_effect r ow until m t e s1)) r (hr_token h)"
    if "fst (hold_core_effect r ow until m t e s1) = Granted h" for t e s1
  proof (cases "active_record s1 r t")
    case None
    with that show ?thesis by (auto simp: hold_core_effect_def Let_def has_token_def)
  next
    case (Some c)
    with that have h: "h = renew_record e c" "hr_owner c = ow" by (auto simp: hold_core_effect_def split: if_splits)
    have "renew_record e c \<in> set (holds (update_hold (hr_token c) (renew_record e) s1))"
      using active_Some [OF Some] by (auto simp: update_hold_def)
    moreover have "hr_resource (renew_record e c) = r" "hr_token (renew_record e c) = hr_token h"
      using h active_Some [OF Some] by (simp_all add: renew_record_def)
    ultimately show ?thesis
      using h Some unfolding has_token_def hold_core_effect_def by (auto intro: bexI [of _ "renew_record e c"])
  qed
  show ?thesis
    using assms core by (auto simp: hold_effect_def Let_def split: option.splits if_splits)
qed

lemma applied_token:
  assumes "sound s" "fst (fenced_effect J X r t mutate now s) = Applied v" "has_token s r u"
  shows "u \<le> t"
proof -
  let ?s = "expire_holds (time_or X now) s"
  obtain c where c: "active_record ?s r (time_or X now) = Some c" "hr_token c = t"
    using assms(2) by (auto simp: fenced_effect_def Let_def split: if_splits option.splits)
  have "has_token ?s r u" using later_token [OF later_expire assms(3)] .
  moreover have "sound ?s" by (rule sound_expire [OF assms(1)])
  ultimately show ?thesis
    using active_Some [OF c(1)] c(2) by (force simp: has_token_def sound_def latest_only_def not_le)
qed

lemma run_grants: "store_run J K tr d \<Longrightarrow> t \<in> grants r tr \<Longrightarrow> has_token (current d) r t"
proof (induction rule: store_run.induct)
  case run_empty
  then show ?case by (simp add: grants_def)
next
  case (run_calls tr d X c rep d')
  note state = run_call_state [OF run_sound [OF run_calls.hyps(1)] run_calls.hyps(2)]
  show ?case
  proof (cases "t \<in> grants r tr")
    case True
    with run_calls.IH state show ?thesis using later_token call_later by metis
  next
    case False
    then obtain h ow ttl until m now where new: "c = HoldCall r ow ttl until m now" "rep = Granted h" "t = hr_token h"
      using run_calls.prems by (auto simp: grants_def)
    with run_calls.hyps refinesD [OF hold_refines [OF run_sound [OF run_calls.hyps(1)]]]
    have "fst (hold_effect K X r ow ttl until m now (current d)) = Granted h" by fastforce
    from granted_token [OF this] state new show ?thesis by simp
  qed
next
  case (run_crash tr d d1 s t' X c d' E specs)
  then show ?case
    using crash_step_state [OF run_sound [OF run_crash.hyps(1)] run_crash.hyps(2-4)] later_token by blast
qed

text \<open>
  C12 (safety): a stale holder never writes.  In every run of calls and crashes, when a fenced update
  of a resource was applied with a token, every token granted for that resource before it in the run
  is at most that token: once someone else was granted the resource, the old token is refused for
  good.
\<close>

theorem stale_token_never_writes:
  assumes "store_run J K tr d" "tr = before @ (ApplyCall r t mutate now, Applied v) # after"
  shows "\<forall>u \<in> grants r before. u \<le> t"
  using assms
proof (induction arbitrary: after rule: store_run.induct)
  case run_empty
  then show ?case by simp
next
  case (run_calls tr d X c rep d')
  show ?case
  proof (cases after rule: rev_cases)
    case Nil
    with run_calls.prems have eq: "tr = before" "c = ApplyCall r t mutate now" "rep = Applied v" by simp_all
    with run_calls.hyps refinesD [OF fenced_refines [OF run_sound [OF run_calls.hyps(1)]]]
    have "fst (fenced_effect J X r t mutate now (current d)) = Applied v" by fastforce
    from applied_token [OF sound_current [OF run_sound [OF run_calls.hyps(1)]] this]
      run_grants [OF run_calls.hyps(1)] eq show ?thesis by blast
  next
    case (snoc a x)
    with run_calls.prems have "tr = before @ (ApplyCall r t mutate now, Applied v) # a" by simp
    with run_calls.IH show ?thesis by blast
  qed
next
  case (run_crash tr d d1 s t' X c d' E specs)
  then show ?case by blast
qed

theorem stale_token_never_writes_witness:
  "\<exists>J K tr d before after mutate v. store_run J K tr d \<and>
     tr = before @ (ApplyCall ''r'' 1 mutate PNone, Applied v) # after \<and> grants ''r'' before = {1} \<and>
     (\<forall>u \<in> grants ''r'' before. u \<le> 1)"
proof -
  let ?X = "\<lparr>clock = 5, env1 = demo_env, env2 = demo_env\<rparr>"
  let ?h = "HoldCall ''r'' ''o'' (PInt 10) None PNone PNone"
  let ?m = "\<lambda>v. Some (v, PInt 3)"
  let ?a = "ApplyCall ''r'' 1 ?m PNone"
  let ?d1 = "snd (run_call demo_json [] ?X ?h empty_disk)"
  let ?new = "\<lparr>hr_resource = ''r'', hr_owner = ''o'', hr_token = 1, hr_expires = 15, hr_until = None,
    hr_match = PNone, hr_released = False, hr_reason = None\<rparr>"
  have h: "run_call demo_json [] ?X ?h empty_disk = (Granted ?new, ?d1)"
  proof -
    have "fst (run_call demo_json [] ?X ?h empty_disk) = Granted ?new" by code_simp
    then show ?thesis by (metis prod.collapse)
  qed
  have a: "run_call demo_json [] ?X ?a ?d1 = (Applied (PInt 3), snd (run_call demo_json [] ?X ?a ?d1))"
  proof -
    have "fst (run_call demo_json [] ?X ?a ?d1) = Applied (PInt 3)" by code_simp
    then show ?thesis by (metis prod.collapse)
  qed
  have run: "store_run demo_json [] ([(?h, Granted ?new)] @ [(?a, Applied (PInt 3))])
      (snd (run_call demo_json [] ?X ?a ?d1))"
    using run_calls [OF run_calls [OF run_empty h] a] by simp
  have "grants ''r'' [(?h, Granted ?new)] = {1}" by (auto simp: grants_def)
  moreover have "\<forall>u \<in> grants ''r'' [(?h, Granted ?new)]. u \<le> 1"
    by (rule stale_token_never_writes [OF run, of _ "''r''" 1 ?m PNone "PInt 3" "[]"]) simp
  ultimately show ?thesis using run by (metis append_Cons append_Nil)
qed

text \<open>
  Property (safety): only the holder ends a hold early.  A release that is accepted named the owner and the
  token of the live record, releases that record and no other, and no expiry, event or call ever makes
  a released record live again; a refused release changes no record that has time left.
\<close>

theorem release_is_the_holders:
  assumes "sound s"
  shows "(\<forall>i. fst (release_effect X r ow t s) = ReleasedBy i \<longrightarrow>
      (\<exists>h \<in> set (holds s). hr_resource h = r \<and> hr_owner h = ow \<and> hr_token h = t \<and> \<not> hr_released h \<and>
         (\<forall>h' \<in> set (holds (snd (release_effect X r ow t s))). hr_token h' = t \<longrightarrow> hr_released h') \<and>
         (\<forall>h' \<in> set (holds s). hr_token h' \<noteq> t \<and> \<not> is_due (clock X) h' \<longrightarrow>
            h' \<in> set (holds (snd (release_effect X r ow t s)))))) \<and>
    (\<forall>why. fst (release_effect X r ow t s) = Refused why \<longrightarrow>
      (\<forall>h' \<in> set (holds s). \<not> is_due (clock X) h' \<longrightarrow> h' \<in> set (holds (snd (release_effect X r ow t s))))) \<and>
    (\<forall>h \<in> set (holds s). hr_released h \<longrightarrow>
      (\<exists>h' \<in> set (holds (call_state J K X c s)). hr_token h' = hr_token h \<and> hr_released h'))"
proof (intro conjI allI ballI impI)
  let ?s = "expire_holds (clock X) s"
  have kept: "h' \<in> set (holds ?s)" if "h' \<in> set (holds s)" "\<not> is_due (clock X) h'" for h'
    using that by (force simp: expire_holds_def)
  show "h' \<in> set (holds (snd (release_effect X r ow t s)))"
    if "fst (release_effect X r ow t s) = Refused why" "h' \<in> set (holds s)" "\<not> is_due (clock X) h'" for why h'
    using that kept by (auto simp: release_effect_def Let_def split: option.splits if_splits)
  show "\<exists>h' \<in> set (holds (call_state J K X c s)). hr_token h' = hr_token h \<and> hr_released h'"
    if "h \<in> set (holds s)" "hr_released h" for h
    using call_later [of s J K X c] that unfolding later_def by blast
  fix i
  assume "fst (release_effect X r ow t s) = ReleasedBy i"
  then obtain c where c: "active_record ?s r (clock X) = Some c" "hr_owner c = ow" "hr_token c = t"
    "snd (release_effect X r ow t s) = update_hold t (release_record ''explicit'') ?s"
    by (auto simp: release_effect_def Let_def split: option.splits if_splits)
  have "c \<in> set (holds s)"
    using active_Some [OF c(1)] by (auto simp: expire_holds_def release_record_def is_due_def split: if_splits)
  moreover have "hr_released h'" if "h' \<in> set (holds (update_hold t (release_record ''explicit'') ?s))" "hr_token h' = t" for h'
  proof -
    from that(1) have "(\<exists>x. h' = release_record ''explicit'' x) \<or> h' \<in> set (holds ?s) \<and> hr_token h' \<noteq> t"
      unfolding update_hold_def by auto
    with that(2) show ?thesis by (auto simp: release_record_def)
  qed
  moreover have "h' \<in> set (holds (update_hold t (release_record ''explicit'') ?s))"
    if "h' \<in> set (holds s)" "hr_token h' \<noteq> t" "\<not> is_due (clock X) h'" for h'
    using kept [OF that(1,3)] that(2) by (force simp: update_hold_def)
  ultimately show "\<exists>h \<in> set (holds s). hr_resource h = r \<and> hr_owner h = ow \<and> hr_token h = t \<and> \<not> hr_released h \<and>
         (\<forall>h' \<in> set (holds (snd (release_effect X r ow t s))). hr_token h' = t \<longrightarrow> hr_released h') \<and>
         (\<forall>h' \<in> set (holds s). hr_token h' \<noteq> t \<and> \<not> is_due (clock X) h' \<longrightarrow>
            h' \<in> set (holds (snd (release_effect X r ow t s))))"
    using active_Some [OF c(1)] c by (intro bexI [of _ c]) auto
qed

theorem release_is_the_holders_witness:
  "\<exists>h \<in> set (holds held_state). hr_owner h = ''o'' \<and> hr_token h = 1 \<and> \<not> hr_released h"
proof -
  have "fst (release_effect \<lparr>clock = 5, env1 = demo_env, env2 = demo_env\<rparr> ''r'' ''o'' 1 held_state) = ReleasedBy ''a''"
    by code_simp
  with release_is_the_holders [OF held_sound] show ?thesis by blast
qed

end
