(* ===== verification/CoordClaims.thy ===== *)
theory CoordClaims
  imports CoordLaws
begin

text \<open>
  \<open>coordclaims.py\<close>: work items claimed in the coordination store, with a token from the store's
  counter, an expiry, and a receipt per operation id that answers retries.  A request is the JSON
  object the caller sends; the SHA-256 of its canonical text with authority and owner is a parameter,
  as is the length of the canonical text.
\<close>

section \<open>Requests\<close>

record claim_request =
  rq_authority :: claim_authority
  rq_op_id :: string
  rq_item :: string
  rq_operation :: string
  rq_token :: int
  rq_ttl :: "rat option"

record claim_lib =
  request_bytes :: "pyval \<Rightarrow> nat"
  fingerprint :: "claim_request \<Rightarrow> claim_authority \<Rightarrow> claim_owner \<Rightarrow> string"

fun py_text :: "pyval \<Rightarrow> bool" where
  "py_text (PStr s) = claim_text s"
| "py_text _ = False"

fun py_string :: "pyval \<Rightarrow> string" where
  "py_string (PStr s) = s"
| "py_string _ = []"

fun py_integer :: "pyval \<Rightarrow> int option" where
  "py_integer (PInt i) = Some i"
| "py_integer _ = None"

definition auth_fields :: "string list" where
  "auth_fields = [''authority_id'', ''authority_epoch'', ''task_ref'', ''wave_id'']"

definition required_fields :: "string list" where
  "required_fields = auth_fields @ [''schema_version'', ''operation_id'', ''work_item_id'', ''operation'']"

definition claim_operations :: "string list" where
  "claim_operations = [''claim'', ''renew'', ''release'', ''complete'', ''get'']"

definition has_key :: "pyval \<Rightarrow> string \<Rightarrow> bool" where
  "has_key v k \<longleftrightarrow> py_lookup v k \<noteq> None"

definition read_authority :: "pyval \<Rightarrow> claim_authority option" where
  "read_authority v =
     (if py_text (py_get v ''authority_id'') \<and> py_text (py_get v ''task_ref'') \<and> py_text (py_get v ''wave_id'')
      then (case py_integer (py_get v ''authority_epoch'') of
          None \<Rightarrow> None
        | Some n \<Rightarrow>
            if 0 < n then Some \<lparr>au_id = py_string (py_get v ''authority_id''), au_epoch = n,
              au_task = py_string (py_get v ''task_ref''), au_wave = py_string (py_get v ''wave_id'')\<rparr>
            else None)
      else None)"

text \<open>\<open>_validate_request\<close>; the trusted authority and identity are checked first.\<close>

definition validate_request ::
    "claim_lib \<Rightarrow> pyval \<Rightarrow> claim_authority \<Rightarrow> claim_owner \<Rightarrow> claim_request option" where
  "validate_request L request authority owner =
     (if \<not> valid_authority authority \<or> \<not> valid_owner owner then None
      else if \<not> is_mapping request \<or> \<not> list_all (has_key request) required_fields \<or>
        \<not> list_all (\<lambda>kv. fst kv \<in> PStr ` set (required_fields @ [''ttl_seconds'', ''token''])) (py_items request) then None
      else if py_integer (py_get request ''schema_version'') \<noteq> Some 1 then None
      else (case read_authority request of
        None \<Rightarrow> None
      | Some au \<Rightarrow>
          if \<not> py_text (py_get request ''operation_id'') \<or> \<not> py_text (py_get request ''work_item_id'') then None
          else
            (let op = py_string (py_get request ''operation''); ttl = py_get request ''ttl_seconds''
             in if \<not> is_pstr (py_get request ''operation'') \<or> op \<notin> set claim_operations then None
                else if op \<in> set [''renew'', ''release'', ''complete''] \<and>
                  (case py_integer (py_get request ''token'') of None \<Rightarrow> True | Some t \<Rightarrow> t \<le> 0) then None
                else if op \<notin> set [''renew'', ''release'', ''complete''] \<and> has_key request ''token'' then None
                else if has_key request ''ttl_seconds'' \<and>
                  (op \<notin> set [''claim'', ''renew''] \<or> \<not> is_number ttl \<or> \<not> (0 < number_of ttl \<and> number_of ttl \<le> 300)) then None
                else if request_bytes L request > 64 * 1024 then None
                else Some \<lparr>rq_authority = au, rq_op_id = py_string (py_get request ''operation_id''),
                  rq_item = py_string (py_get request ''work_item_id''), rq_operation = op,
                  rq_token = (case py_integer (py_get request ''token'') of None \<Rightarrow> 0 | Some t \<Rightarrow> t),
                  rq_ttl = (if has_key request ''ttl_seconds'' then Some (number_of ttl) else None)\<rparr>)))"

section \<open>Admission\<close>

text \<open>\<open>_TRANSITIONS\<close>.\<close>

definition claim_transitions :: "((claim_state \<times> string) \<times> claim_state) list" where
  "claim_transitions =
     [((ClaimAvailable, ''claim''), Claimed), ((Claimed, ''renew''), Claimed),
      ((Claimed, ''release''), ClaimAvailable), ((Claimed, ''complete''), ClaimCompleted),
      ((Claimed, ''expiry''), ClaimAvailable)]"

text \<open>\<open>Unadmitted\<close> is the KeyError of a pair the table has not; it is shown not to happen.\<close>

datatype admission =
    RefuseClaim claim_response
  | AdmitClaim claim_record string
  | BadClock
  | Unadmitted

definition event_word :: "string \<Rightarrow> string" where
  "event_word op =
     (if op = ''claim'' then ''granted'' else if op = ''renew'' then ''renewed''
      else if op = ''release'' then ''released'' else ''completed'')"

definition record_status :: "claim_record option \<Rightarrow> claim_state" where
  "record_status r = (case r of None \<Rightarrow> ClaimAvailable | Some x \<Rightarrow> cl_state x)"

definition stored_view :: "string \<Rightarrow> claim_record option \<Rightarrow> claim_response" where
  "stored_view item r = (case r of None \<Rightarrow> AvailableView item | Some x \<Rightarrow> ViewOf item x)"

definition admit_claim :: "claim_request \<Rightarrow> claim_owner \<Rightarrow> rat \<Rightarrow> int \<Rightarrow> claim_record option \<Rightarrow> admission" where
  "admit_claim q owner now nt r =
     (let op = rq_operation q
      in if record_status r = ClaimCompleted then RefuseClaim (ClaimError ''completed'')
         else if op = ''claim'' \<and> record_status r = Claimed then
           RefuseClaim (case r of None \<Rightarrow> AvailableView (rq_item q) | Some x \<Rightarrow> HeldByView (rq_item q) x)
         else if op \<noteq> ''claim'' \<and>
           (case r of None \<Rightarrow> True | Some x \<Rightarrow> cl_state x \<noteq> Claimed \<or> cl_owner x \<noteq> owner \<or> cl_token x \<noteq> rq_token q)
         then RefuseClaim (ClaimError ''stale_token'')
         else (case (map_of claim_transitions (record_status r, op),
               if op = ''claim'' then Some \<lparr>cl_state = Claimed, cl_owner = owner, cl_token = nt, cl_expires = now\<rparr> else r) of
             (Some st, Some x) \<Rightarrow>
               if op \<in> set [''claim'', ''renew''] then
                 (let e = now + (case rq_ttl q of None \<Rightarrow> 60 | Some t \<Rightarrow> t)
                  in if float_finite e then AdmitClaim (x\<lparr>cl_state := st, cl_expires := e\<rparr>) (event_word op) else BadClock)
               else AdmitClaim (x\<lparr>cl_state := st\<rparr>) (event_word op)
           | _ \<Rightarrow> Unadmitted))"

section \<open>The decision on a loaded state\<close>

datatype claim_reply = Response claim_response | StateCorrupt string | KeyErrorRaised

definition claim_expired :: "rat \<Rightarrow> claim_record \<Rightarrow> bool" where
  "claim_expired now r \<longleftrightarrow> cl_state r = Claimed \<and> cl_expires r \<le> now"

definition expire_claim :: "rat \<Rightarrow> claim_record option \<Rightarrow> claim_record option" where
  "expire_claim now r = map_option (\<lambda>x. if claim_expired now x then x\<lparr>cl_state := ClaimAvailable\<rparr> else x) r"

definition claim_spec ::
    "claim_authority \<Rightarrow> claim_owner \<Rightarrow> claim_request \<Rightarrow> string \<Rightarrow> claim_record \<Rightarrow> event_spec" where
  "claim_spec a owner q word r =
     \<lparr>es_kind = ''claim.'' @ word,
      es_fields = PDict
        [(PStr ''authority_id'', PStr (au_id a)), (PStr ''authority_epoch'', PInt (au_epoch a)),
         (PStr ''task_ref'', PStr (au_task a)), (PStr ''wave_id'', PStr (au_wave a)),
         (PStr ''work_item_id'', PStr (rq_item q)), (PStr ''operation_id'', PStr (rq_op_id q)),
         (PStr ''owner'', PDict [(PStr ''principal'', PStr (ow_principal (cl_owner r))),
            (PStr ''session_id'', PStr (ow_session (cl_owner r)))]),
         (PStr ''token'', PInt (cl_token r))],
      es_actor = ow_principal owner, es_id = None\<rparr>"

definition wave_map :: "coord_state \<Rightarrow> (wave_key \<times> claim_wave) list" where
  "wave_map s = (case claims s of None \<Rightarrow> [] | Some ws \<Rightarrow> ws)"

definition wave_of :: "coord_state \<Rightarrow> claim_authority \<Rightarrow> rat \<Rightarrow> claim_wave" where
  "wave_of s a now =
     (case map_of (wave_map s) (claim_wave_key a) of
        None \<Rightarrow> \<lparr>cw_authority = a, cw_last_time = now, cw_items = [], cw_receipts = []\<rparr>
      | Some w \<Rightarrow> w)"

text \<open>The state a mutation commits: the item's record, if there is one, the receipt and the watermark.\<close>

definition claim_commit ::
    "claim_request \<Rightarrow> claim_authority \<Rightarrow> string \<Rightarrow> rat \<Rightarrow> claim_record option \<Rightarrow> claim_response \<Rightarrow> int \<Rightarrow> coord_state \<Rightarrow> coord_state" where
  "claim_commit q a fp now r resp nt s =
     (let w = wave_of s a now;
          items = (case r of None \<Rightarrow> cw_items w | Some x \<Rightarrow> AList.update (rq_item q) x (cw_items w));
          w' = w\<lparr>cw_last_time := now, cw_items := items,
            cw_receipts := AList.update (rq_op_id q) \<lparr>cc_fingerprint = fp, cc_response = resp\<rparr> (cw_receipts w)\<rparr>
      in s\<lparr>next_token := nt, claims := Some (AList.update (claim_wave_key a) w' (wave_map s))\<rparr>)"

definition decide_claim ::
    "claim_request \<Rightarrow> claim_authority \<Rightarrow> claim_owner \<Rightarrow> string \<Rightarrow> rat \<Rightarrow> coord_state \<Rightarrow>
       claim_reply \<times> (coord_state \<times> event_spec list) option" where
  "decide_claim q a owner fp now s =
     (let stored = map_of (wave_map s) (claim_wave_key a); w = wave_of s a now
      in if (case stored of None \<Rightarrow> False | Some x \<Rightarrow> cw_authority x \<noteq> a) then (Response (ClaimError ''scope_mismatch''), None)
         else if (case stored of None \<Rightarrow> False | Some x \<Rightarrow> now < cw_last_time x) then (StateCorrupt ''clock_rollback'', None)
         else (case map_of (cw_receipts w) (rq_op_id q) of
           Some receipt \<Rightarrow>
             (if cc_fingerprint receipt \<noteq> fp then Response (ClaimError ''idempotency_conflict'')
              else Response (cc_response receipt), None)
         | None \<Rightarrow>
             (let r = map_of (cw_items w) (rq_item q);
                  expired = (case r of None \<Rightarrow> False | Some x \<Rightarrow> claim_expired now x);
                  r1 = expire_claim now r;
                  first = (if expired then [claim_spec a owner q ''expired'' (the r1)] else [])
              in if rq_operation q = ''get'' then (Response (stored_view (rq_item q) (if expired then None else r)), None)
                 else if 10000 \<le> length (cw_receipts w) then (Response (ClaimError ''capacity''), None)
                 else (case admit_claim q owner now (next_token s) r1 of
                     RefuseClaim resp \<Rightarrow>
                       (Response resp, Some (claim_commit q a fp now r1 resp (next_token s) s, first))
                   | AdmitClaim x word \<Rightarrow>
                       (Response (ViewOf (rq_item q) x),
                        Some (claim_commit q a fp now (Some x) (ViewOf (rq_item q) x)
                            (if rq_operation q = ''claim'' then next_token s + 1 else next_token s) s,
                          first @ [claim_spec a owner q word x]))
                   | BadClock \<Rightarrow> (StateCorrupt ''invalid_clock'', None)
                   | Unadmitted \<Rightarrow> (KeyErrorRaised, None)))))"

text \<open>
  \<open>execute\<close>.  \<open>got_lock\<close> says whether the lock came within its budget; any error of the store is
  the code \<open>state_corrupt\<close>.
\<close>

definition execute_claim ::
    "json_lib \<Rightarrow> claim_lib \<Rightarrow> commit_env \<Rightarrow> bool \<Rightarrow> rat \<Rightarrow> pyval \<Rightarrow> claim_authority \<Rightarrow> claim_owner \<Rightarrow> coord_disk \<Rightarrow>
       claim_reply \<times> coord_disk" where
  "execute_claim J L E got_lock now request a owner d =
     (case validate_request L request a owner of
        None \<Rightarrow> (Response (ClaimError ''invalid_request''), d)
      | Some q \<Rightarrow>
          if rq_authority q \<noteq> a then (Response (ClaimError ''scope_mismatch''), d)
          else if \<not> got_lock then (Response (ClaimError ''deadline''), d)
          else (case enter_store J d of
              Inl _ \<Rightarrow> (StateCorrupt [], d)
            | Inr (s, d1) \<Rightarrow>
                (case decide_claim q a owner (fingerprint L q a owner) now s of
                   (reply, None) \<Rightarrow> (reply, d1)
                 | (reply, Some (s', specs)) \<Rightarrow>
                     (case commit_state J E s' specs d1 of
                        (Inl _, d2) \<Rightarrow> (StateCorrupt [], d2)
                      | (Inr _, d2) \<Rightarrow> (reply, d2)))))"

end
