(* ===== verification/AListFacts.thy ===== *)
theory AListFacts
  imports "HOL-Library.AList"
begin

text \<open>
  Dicts as association lists: what \<open>AList.update\<close> does to the list when the key is new and when it is
  not, and what it keeps.
\<close>

lemma update_split:
  "map_of xs k = Some v \<Longrightarrow> \<exists>a b. xs = a @ (k, v) # b \<and> AList.update k v' xs = a @ (k, v') # b"
proof (induction xs)
  case (Cons x xs)
  show ?case
  proof (cases "fst x = k")
    case True
    with Cons.prems have "x # xs = [] @ (k, v) # xs \<and> AList.update k v' (x # xs) = [] @ (k, v') # xs" by (cases x) auto
    then show ?thesis by blast
  next
    case False
    with Cons.prems have "map_of xs k = Some v" by (cases x) (simp add: eq_commute)
    with Cons.IH obtain a b where "xs = a @ (k, v) # b" "AList.update k v' xs = a @ (k, v') # b" by blast
    with False have "x # xs = (x # a) @ (k, v) # b \<and> AList.update k v' (x # xs) = (x # a) @ (k, v') # b"
      by (cases x) simp
    then show ?thesis by blast
  qed
qed simp

lemma update_new: "map_of xs k = None \<Longrightarrow> AList.update k v' xs = xs @ [(k, v')]"
proof (induction xs)
  case (Cons x xs)
  then show ?case by (cases x) (simp split: if_splits)
qed simp

lemma length_update: "length (AList.update k v xs) = (if map_of xs k = None then length xs + 1 else length xs)"
proof (cases "map_of xs k")
  case (Some v')
  from update_split [OF this, of v] obtain a b where "xs = a @ (k, v') # b" "AList.update k v xs = a @ (k, v) # b" by blast
  with Some show ?thesis by simp
qed (simp add: update_new)

lemma list_all_update: "list_all P xs \<Longrightarrow> P (k, v) \<Longrightarrow> list_all P (AList.update k v xs)"
proof (cases "map_of xs k")
  case (Some v')
  from update_split [OF this, of v] obtain a b where "xs = a @ (k, v') # b" "AList.update k v xs = a @ (k, v) # b" by blast
  then show "list_all P xs \<Longrightarrow> P (k, v) \<Longrightarrow> list_all P (AList.update k v xs)" by simp
qed (simp add: update_new)

lemma keys_update: "fst ` set (AList.update k v xs) = insert k (fst ` set xs)"
  by (simp add: dom_update)

lemma delete_only: "distinct (map fst (a @ (k, v) # b)) \<Longrightarrow> AList.delete k (a @ (k, v) # b) = a @ b"
proof -
  assume d: "distinct (map fst (a @ (k, v) # b))"
  have other: "filter (\<lambda>(k', _). k \<noteq> k') xs = xs" if "k \<notin> fst ` set xs" for xs :: "('a \<times> 'b) list"
    using AList.delete_id [OF that] by (simp add: AList.delete_eq)
  show ?thesis using d by (simp add: AList.delete_eq other)
qed

end
