(* ===== verification/CoordClaimLaws.thy ===== *)
theory CoordClaimLaws
  imports CoordClaims AListFacts
begin

text \<open>
  What a claim request keeps: the store's validator accepts every state it commits, receipts stay,
  completed items stay, tokens of an item grow.
\<close>

section \<open>Tokens\<close>

definition item_tokens :: "(string \<times> claim_record) list \<Rightarrow> int list" where
  "item_tokens items = map (\<lambda>ir. cl_token (snd ir)) items"

lemma claim_tokens_simps:
  "claim_tokens [] = []"
  "claim_tokens (x # ws) = item_tokens (cw_items (snd x)) @ claim_tokens ws"
  "claim_tokens (ws @ vs) = claim_tokens ws @ claim_tokens vs"
  by (simp_all add: claim_tokens_def item_tokens_def)

text \<open>One item's record is replaced: its token stays or is the new one.\<close>

lemma item_tokens_update:
  assumes "distinct (item_tokens items)" "n \<notin> set (item_tokens items)"
    and "cl_token x = n \<or> (\<exists>r. map_of items i = Some r \<and> cl_token x = cl_token r)"
  shows "distinct (item_tokens (AList.update i x items)) \<and>
    set (item_tokens (AList.update i x items)) \<subseteq> insert n (set (item_tokens items)) \<and>
    (cl_token x \<noteq> n \<longrightarrow> set (item_tokens (AList.update i x items)) \<subseteq> set (item_tokens items))"
proof (cases "map_of items i")
  case None
  with assms show ?thesis by (auto simp: update_new item_tokens_def)
next
  case (Some r)
  from update_split [OF this, of x] obtain a b where
    "items = a @ (i, r) # b" "AList.update i x items = a @ (i, x) # b" by blast
  then obtain A B where "item_tokens items = A @ cl_token r # B" "item_tokens (AList.update i x items) = A @ cl_token x # B"
    by (simp add: item_tokens_def)
  with assms Some show ?thesis by auto
qed

lemma distinct_middle:
  assumes "distinct (H @ A @ X @ B)" "distinct Y" "set Y \<subseteq> insert n (set X)" "n \<notin> set (H @ A @ X @ B)"
  shows "distinct (H @ A @ Y @ B)"
  using assms by auto

section \<open>A commit keeps the state sound\<close>

definition request_ok :: "claim_request \<Rightarrow> bool" where
  "request_ok q \<longleftrightarrow> claim_text (rq_op_id q) \<and> claim_text (rq_item q) \<and> rq_operation q \<in> set claim_operations"

lemma py_text_string: "py_text v \<Longrightarrow> claim_text (py_string v)"
  by (cases v) auto

lemma validate_request_ok:
  assumes "validate_request L request a owner = Some q"
  shows "valid_authority a" "valid_owner owner" "request_ok q"
  using assms
  by (auto simp: validate_request_def request_ok_def Let_def py_text_string split: if_splits option.splits)

text \<open>What the validator knows of the wave a request reads.\<close>

lemma wave_valid:
  assumes "sound s" "valid_authority a" "map_of (wave_map s) (claim_wave_key a) = Some w"
  shows "valid_claim_wave (next_token s) (claim_wave_key a, w)"
  using assms map_of_SomeD [OF assms(3)]
  by (auto simp: sound_def validate_state_def wave_map_def valid_claim_extension_def list_all_iff split: option.splits)

lemma wave_of_valid:
  assumes "sound s" "valid_authority a"
    and "case map_of (wave_map s) (claim_wave_key a) of None \<Rightarrow> True | Some x \<Rightarrow> cw_authority x = a"
  shows "valid_claim_wave (next_token s) (claim_wave_key a, wave_of s a now) \<and> cw_authority (wave_of s a now) = a"
  using assms wave_valid [OF assms(1,2)]
  by (auto simp: wave_of_def valid_claim_wave_def split: option.splits)

lemma state_tokens:
  assumes "sound s"
  shows "distinct (map hr_token (holds s) @ claim_tokens (wave_map s)) \<and>
    next_token s \<notin> set (map hr_token (holds s) @ claim_tokens (wave_map s))"
proof -
  have "hr_token h < next_token s" if "h \<in> set (holds s)" for h
    using assms that by (simp add: sound_def validate_state_def list_all_iff)
  moreover have "t < next_token s" if "t \<in> set (claim_tokens (wave_map s))" for t
  proof (cases "claims s")
    case None
    with that show ?thesis by (simp add: wave_map_def claim_tokens_simps)
  next
    case (Some ws)
    with assms have "valid_claim_extension ws (next_token s)" by (simp add: sound_def validate_state_def)
    with that Some show ?thesis by (simp add: wave_map_def claim_tokens_below)
  qed
  moreover have "distinct (map hr_token (holds s) @ claim_tokens (wave_map s))"
    using assms by (cases "claims s") (simp_all add: sound_def validate_state_def wave_map_def claim_tokens_simps)
  ultimately show ?thesis by force
qed

lemma wave_tokens_in: "map_of ws k = Some w \<Longrightarrow> set (item_tokens (cw_items w)) \<subseteq> set (claim_tokens ws)"
  by (induction ws) (auto simp: claim_tokens_simps split: if_splits)

text \<open>The whole state after one wave has been replaced by a valid one with tokens old or new.\<close>

lemma replace_wave_sound:
  assumes s: "sound s" and nt: "nt = next_token s \<or> nt = next_token s + 1"
    and valid: "valid_claim_wave nt (k, w')"
    and dist: "distinct (item_tokens (cw_items w'))"
    and toks: "set (item_tokens (cw_items w')) \<subseteq> insert (next_token s)
      (case map_of (wave_map s) k of None \<Rightarrow> {} | Some w \<Rightarrow> set (item_tokens (cw_items w)))"
  shows "sound (s\<lparr>next_token := nt, claims := Some (AList.update k w' (wave_map s))\<rparr>)"
proof -
  let ?ws = "wave_map s"
  let ?H = "map hr_token (holds s)"
  let ?ws' = "AList.update k w' ?ws"
  note tokens = state_tokens [OF s]
  have all: "list_all (valid_claim_wave (next_token s)) ?ws"
    using s by (auto simp: sound_def validate_state_def wave_map_def valid_claim_extension_def split: option.splits)
  have mono: "next_token s \<le> nt" using nt by auto
  have "list_all (valid_claim_wave nt) ?ws'"
    using all valid_wave_mono [OF mono] valid by (intro list_all_update) (auto simp: list_all_iff)
  moreover have dist': "distinct (?H @ claim_tokens ?ws')"
  proof (cases "map_of ?ws k")
    case None
    then have "claim_tokens ?ws' = claim_tokens ?ws @ [] @ item_tokens (cw_items w')"
      by (simp add: update_new claim_tokens_simps)
    moreover have "set (item_tokens (cw_items w')) \<subseteq> {next_token s}" using toks None by simp
    then have "set (item_tokens (cw_items w')) \<inter> set (?H @ claim_tokens ?ws) = {}" using tokens by blast
    ultimately show ?thesis using tokens dist by auto
  next
    case (Some w)
    from update_split [OF this, of w'] obtain x y where
      split: "?ws = x @ (k, w) # y" "?ws' = x @ (k, w') # y" by blast
    then have "claim_tokens ?ws = claim_tokens x @ item_tokens (cw_items w) @ claim_tokens y"
      "claim_tokens ?ws' = claim_tokens x @ item_tokens (cw_items w') @ claim_tokens y"
      by (simp_all add: claim_tokens_simps)
    with tokens dist toks Some show ?thesis
      using distinct_middle [of ?H "claim_tokens x" "item_tokens (cw_items w)" "claim_tokens y" "item_tokens (cw_items w')"
        "next_token s"] by simp
  qed
  ultimately have "valid_claim_extension ?ws' nt \<and> distinct (?H @ claim_tokens ?ws')"
    by (simp add: valid_claim_extension_def)
  moreover have "list_all (\<lambda>h. hr_token h < nt) (holds s)" "1 \<le> nt"
    using s mono by (auto simp: sound_def validate_state_def list_all_iff)
  ultimately show ?thesis
    using s by (simp add: sound_def validate_state_def latest_only_def)
qed

lemma commit_sound:
  assumes s: "sound s" and a: "valid_authority a" and q: "request_ok q" and fp: "valid_fingerprint fp"
    and auth: "case map_of (wave_map s) (claim_wave_key a) of None \<Rightarrow> True | Some x \<Rightarrow> cw_authority x = a"
    and fresh: "map_of (cw_receipts (wave_of s a now)) (rq_op_id q) = None"
    and room: "length (cw_receipts (wave_of s a now)) < 10000"
    and nt: "nt = next_token s \<or> nt = next_token s + 1"
    and r: "\<And>x. r = Some x \<Longrightarrow> valid_claim_record nt x \<and> (cl_token x = next_token s \<or>
      (\<exists>y. map_of (cw_items (wave_of s a now)) (rq_item q) = Some y \<and> cl_token x = cl_token y))"
    and resp: "\<And>items. (\<And>x. r = Some x \<Longrightarrow> rq_item q \<in> fst ` set items) \<Longrightarrow> valid_response nt items resp"
  shows "sound (claim_commit q a fp now r resp nt s)"
proof -
  let ?w = "wave_of s a now"
  let ?items = "case r of None \<Rightarrow> cw_items ?w | Some x \<Rightarrow> AList.update (rq_item q) x (cw_items ?w)"
  let ?w' = "?w\<lparr>cw_last_time := now, cw_items := ?items,
    cw_receipts := AList.update (rq_op_id q) \<lparr>cc_fingerprint = fp, cc_response = resp\<rparr> (cw_receipts ?w)\<rparr>"
  have w: "valid_claim_wave (next_token s) (claim_wave_key a, ?w)" "cw_authority ?w = a"
    using wave_of_valid [OF s a auth] by blast+
  have mono: "next_token s \<le> nt" using nt by auto
  have w_nt: "valid_claim_wave nt (claim_wave_key a, ?w)" by (rule valid_wave_mono [OF mono w(1)])
  have keys: "fst ` set (cw_items ?w) \<subseteq> fst ` set ?items"
    by (cases r) (auto simp: keys_update)
  have old: "valid_response nt ?items x" if "valid_response nt (cw_items ?w) x" for x
    using that keys by (cases x) auto
  have "list_all (\<lambda>ir. claim_text (fst ir) \<and> valid_claim_record nt (snd ir)) ?items"
    using w_nt r q by (cases r) (auto simp: valid_claim_wave_def request_ok_def intro!: list_all_update)
  moreover have "list_all (\<lambda>or. claim_text (fst or) \<and> valid_fingerprint (cc_fingerprint (snd or)) \<and>
      valid_response nt ?items (cc_response (snd or)))
      (AList.update (rq_op_id q) \<lparr>cc_fingerprint = fp, cc_response = resp\<rparr> (cw_receipts ?w))"
  proof (rule list_all_update)
    show "list_all (\<lambda>or. claim_text (fst or) \<and> valid_fingerprint (cc_fingerprint (snd or)) \<and>
        valid_response nt ?items (cc_response (snd or))) (cw_receipts ?w)"
      using w_nt old by (auto simp: valid_claim_wave_def list_all_iff)
    show "claim_text (fst (rq_op_id q, \<lparr>cc_fingerprint = fp, cc_response = resp\<rparr>)) \<and>
        valid_fingerprint (cc_fingerprint (snd (rq_op_id q, \<lparr>cc_fingerprint = fp, cc_response = resp\<rparr>))) \<and>
        valid_response nt ?items (cc_response (snd (rq_op_id q, \<lparr>cc_fingerprint = fp, cc_response = resp\<rparr>)))"
      using q fp resp [of ?items] by (auto simp: request_ok_def keys_update)
  qed
  moreover have "length ?items \<le> length (cw_receipts ?w) + 1"
    using w_nt by (cases r) (auto simp: valid_claim_wave_def length_update)
  ultimately have valid: "valid_claim_wave nt (claim_wave_key a, ?w')"
    using w_nt w(2) fresh room by (simp add: valid_claim_wave_def length_update)
  have in_state: "set (item_tokens (cw_items ?w)) \<subseteq> set (claim_tokens (wave_map s)) \<and> distinct (item_tokens (cw_items ?w))"
  proof (cases "map_of (wave_map s) (claim_wave_key a)")
    case None
    then show ?thesis by (simp add: wave_of_def item_tokens_def)
  next
    case (Some x)
    obtain u v where "wave_map s = u @ (claim_wave_key a, x) # v"
      using update_split [OF Some] by blast
    then have "distinct (item_tokens (cw_items x))"
      using state_tokens [OF s] by (auto simp: claim_tokens_simps)
    with Some wave_tokens_in [OF Some] show ?thesis by (simp add: wave_of_def)
  qed
  then have out: "next_token s \<notin> set (item_tokens (cw_items ?w))" using state_tokens [OF s] by auto
  have items: "distinct (item_tokens ?items) \<and> set (item_tokens ?items) \<subseteq> insert (next_token s) (set (item_tokens (cw_items ?w)))"
  proof (cases r)
    case None
    with in_state show ?thesis by auto
  next
    case (Some x)
    with item_tokens_update [of "cw_items ?w" "next_token s" x "rq_item q"] in_state out r show ?thesis by auto
  qed
  have "set (item_tokens (cw_items ?w)) =
      (case map_of (wave_map s) (claim_wave_key a) of None \<Rightarrow> {} | Some w \<Rightarrow> set (item_tokens (cw_items w)))"
    by (auto simp: wave_of_def item_tokens_def split: option.splits)
  with items have "sound (s\<lparr>next_token := nt, claims := Some (AList.update (claim_wave_key a) ?w' (wave_map s))\<rparr>)"
    by (intro replace_wave_sound [OF s nt valid]) auto
  then show ?thesis by (simp add: claim_commit_def Let_def)
qed

section \<open>Admission, case by case\<close>

lemma expire_claim_Some:
  "expire_claim now r = Some x \<longleftrightarrow>
     (\<exists>y. r = Some y \<and> x = (if claim_expired now y then y\<lparr>cl_state := ClaimAvailable\<rparr> else y))"
  by (cases r) (auto simp: expire_claim_def)

lemma transition_table:
  "map_of claim_transitions (ClaimAvailable, ''claim'') = Some Claimed"
  "map_of claim_transitions (Claimed, ''renew'') = Some Claimed"
  "map_of claim_transitions (Claimed, ''release'') = Some ClaimAvailable"
  "map_of claim_transitions (Claimed, ''complete'') = Some ClaimCompleted"
  by (simp_all add: claim_transitions_def)

lemma admit_claim_op:
  assumes "admit_claim q owner now nt r = AdmitClaim x word" "rq_operation q = ''claim''"
  shows "record_status r = ClaimAvailable \<and> cl_token x = nt \<and> cl_owner x = owner \<and> cl_state x = Claimed"
  using assms
  by (cases "record_status r") (auto simp: admit_claim_def Let_def transition_table split: if_splits)

lemma admit_other_op:
  assumes "admit_claim q owner now nt r = AdmitClaim x word" "rq_operation q \<noteq> ''claim''"
  shows "\<exists>y. r = Some y \<and> cl_state y = Claimed \<and> cl_owner y = owner \<and> cl_token y = rq_token q \<and>
    cl_token x = cl_token y \<and> cl_owner x = owner"
proof -
  obtain y where y: "r = Some y" "cl_state y = Claimed" "cl_owner y = owner" "cl_token y = rq_token q"
    using assms by (cases r) (auto simp: admit_claim_def Let_def split: if_splits)
  moreover have "cl_token x = cl_token y \<and> cl_owner x = cl_owner y"
    using assms y by (auto simp: admit_claim_def Let_def record_status_def split: if_splits option.splits)
  ultimately show ?thesis by blast
qed

lemma refuse_cases:
  assumes "admit_claim q owner now nt r = RefuseClaim resp"
  shows "resp = ClaimError ''completed'' \<or> resp = ClaimError ''stale_token'' \<or>
    (\<exists>x. r = Some x \<and> cl_state x = Claimed \<and> resp = HeldByView (rq_item q) x)"
  using assms
  by (cases r) (auto simp: admit_claim_def Let_def record_status_def split: if_splits option.splits)

lemma always_admitted:
  assumes "rq_operation q \<in> set claim_operations" "rq_operation q \<noteq> ''get''"
  shows "admit_claim q owner now nt r \<noteq> Unadmitted"
proof (cases "rq_operation q = ''claim''")
  case True
  then show ?thesis
    by (cases "record_status r") (auto simp: admit_claim_def Let_def transition_table split: option.split)
next
  case False
  then have op: "rq_operation q \<in> {''renew'', ''release'', ''complete''}"
    using assms by (auto simp: claim_operations_def)
  show ?thesis
  proof (cases "\<exists>x. r = Some x \<and> cl_state x = Claimed \<and> cl_owner x = owner \<and> cl_token x = rq_token q")
    case True
    with op show ?thesis by (auto simp: admit_claim_def Let_def record_status_def transition_table split: if_splits)
  next
    case no: False
    have "admit_claim q owner now nt r = RefuseClaim (ClaimError ''completed'') \<or>
        admit_claim q owner now nt r = RefuseClaim (ClaimError ''stale_token'')"
      using no False by (cases r) (auto simp: admit_claim_def Let_def)
    then show ?thesis by auto
  qed
qed

section \<open>Decisions\<close>

text \<open>A decision that commits, opened: what was read and what is committed.\<close>

lemma decide_commits:
  assumes "decide_claim q a owner fp now s = (reply, Some (s', specs))"
  shows "(case map_of (wave_map s) (claim_wave_key a) of None \<Rightarrow> True | Some x \<Rightarrow> cw_authority x = a \<and> cw_last_time x \<le> now) \<and>
    map_of (cw_receipts (wave_of s a now)) (rq_op_id q) = None \<and>
    length (cw_receipts (wave_of s a now)) < 10000 \<and> rq_operation q \<noteq> ''get'' \<and>
    (let r1 = expire_claim now (map_of (cw_items (wave_of s a now)) (rq_item q))
     in (\<exists>resp. admit_claim q owner now (next_token s) r1 = RefuseClaim resp \<and> reply = Response resp \<and>
           s' = claim_commit q a fp now r1 resp (next_token s) s) \<or>
        (\<exists>x word. admit_claim q owner now (next_token s) r1 = AdmitClaim x word \<and> reply = Response (ViewOf (rq_item q) x) \<and>
           s' = claim_commit q a fp now (Some x) (ViewOf (rq_item q) x)
             (if rq_operation q = ''claim'' then next_token s + 1 else next_token s) s))"
proof -
  let ?st = "map_of (wave_map s) (claim_wave_key a)"
  let ?w = "wave_of s a now"
  let ?r1 = "expire_claim now (map_of (cw_items ?w) (rq_item q))"
  have auth: "case ?st of None \<Rightarrow> True | Some x \<Rightarrow> cw_authority x = a \<and> cw_last_time x \<le> now"
    using assms by (auto simp: decide_claim_def Let_def not_less split: option.splits if_splits)
  then have go: "\<not> (case ?st of None \<Rightarrow> False | Some x \<Rightarrow> cw_authority x \<noteq> a)"
    "\<not> (case ?st of None \<Rightarrow> False | Some x \<Rightarrow> now < cw_last_time x)" by (auto split: option.splits)
  have none: "map_of (cw_receipts ?w) (rq_op_id q) = None"
    using assms go by (auto simp: decide_claim_def Let_def split: option.splits if_splits)
  have rest: "rq_operation q \<noteq> ''get''" "length (cw_receipts ?w) < 10000"
    using assms go none by (auto simp: decide_claim_def Let_def split: if_splits)
  have "(\<exists>resp. admit_claim q owner now (next_token s) ?r1 = RefuseClaim resp \<and> reply = Response resp \<and>
        s' = claim_commit q a fp now ?r1 resp (next_token s) s) \<or>
      (\<exists>x word. admit_claim q owner now (next_token s) ?r1 = AdmitClaim x word \<and> reply = Response (ViewOf (rq_item q) x) \<and>
        s' = claim_commit q a fp now (Some x) (ViewOf (rq_item q) x)
          (if rq_operation q = ''claim'' then next_token s + 1 else next_token s) s)"
    using assms go none rest
    by (cases "admit_claim q owner now (next_token s) ?r1") (simp_all add: decide_claim_def Let_def)
  with auth none rest show ?thesis by (simp add: Let_def)
qed

lemma item_valid:
  assumes "sound s" "valid_authority a"
    and "case map_of (wave_map s) (claim_wave_key a) of None \<Rightarrow> True | Some x \<Rightarrow> cw_authority x = a"
    and "map_of (cw_items (wave_of s a now)) i = Some y"
  shows "valid_claim_record (next_token s) y"
  using wave_of_valid [OF assms(1-3), of now] map_of_SomeD [OF assms(4)]
  by (auto simp: valid_claim_wave_def list_all_iff)

lemma decide_sound:
  assumes s: "sound s" and a: "valid_authority a" and ow: "valid_owner owner" and q: "request_ok q"
    and fp: "valid_fingerprint fp"
    and dec: "decide_claim q a owner fp now s = (reply, Some (s', specs))"
  shows "sound s'"
proof -
  let ?w = "wave_of s a now"
  let ?r = "map_of (cw_items ?w) (rq_item q)"
  let ?r1 = "expire_claim now ?r"
  note c = decide_commits [OF dec]
  have auth: "case map_of (wave_map s) (claim_wave_key a) of None \<Rightarrow> True | Some x \<Rightarrow> cw_authority x = a"
    using c by (auto split: option.splits)
  note base = commit_sound [OF s a q fp auth, of now]
  have fresh: "map_of (cw_receipts ?w) (rq_op_id q) = None" "length (cw_receipts ?w) < 10000" using c by simp_all
  have r1: "\<exists>y. ?r = Some y \<and> cl_token x = cl_token y \<and> valid_claim_record (next_token s) x" if "?r1 = Some x" for x
    using that item_valid [OF s a auth] by (auto simp: expire_claim_Some valid_claim_record_def)
  have pos: "1 \<le> next_token s" using s by (simp add: sound_def validate_state_def)
  consider resp where "admit_claim q owner now (next_token s) ?r1 = RefuseClaim resp"
      "s' = claim_commit q a fp now ?r1 resp (next_token s) s"
    | x word where "admit_claim q owner now (next_token s) ?r1 = AdmitClaim x word"
      "s' = claim_commit q a fp now (Some x) (ViewOf (rq_item q) x)
        (if rq_operation q = ''claim'' then next_token s + 1 else next_token s) s"
    using c by (auto simp: Let_def)
  then show ?thesis
  proof cases
    case 1
    have "valid_response (next_token s) items resp" if "\<And>x. ?r1 = Some x \<Longrightarrow> rq_item q \<in> fst ` set items" for items
      using refuse_cases [OF 1(1)] r1 that q by (auto simp: request_ok_def)
    then show ?thesis unfolding 1(2) using r1 by (intro base fresh) auto
  next
    case 2
    show ?thesis
    proof (cases "rq_operation q = ''claim''")
      case True
      from admit_claim_op [OF 2(1) True] pos ow have "valid_claim_record (next_token s + 1) x" "cl_token x = next_token s"
        by (simp_all add: valid_claim_record_def)
      with q show ?thesis unfolding 2(2) by (intro base fresh) (auto simp: True request_ok_def)
    next
      case False
      obtain y where y: "?r1 = Some y" "cl_token x = cl_token y" "cl_owner x = owner"
        using admit_other_op [OF 2(1) False] by blast
      with r1 [OF y(1)] ow obtain z where z: "?r = Some z" "cl_token x = cl_token z" "valid_claim_record (next_token s) x"
        by (auto simp: valid_claim_record_def)
      with q False show ?thesis unfolding 2(2) by (intro base fresh) (auto simp: request_ok_def)
    qed
  qed
qed

section \<open>What stays\<close>

definition wave_kept :: "claim_wave \<Rightarrow> claim_wave \<Rightarrow> bool" where
  "wave_kept w w' \<longleftrightarrow> cw_authority w' = cw_authority w \<and> cw_last_time w \<le> cw_last_time w' \<and>
     (\<forall>i c. map_of (cw_receipts w) i = Some c \<longrightarrow> map_of (cw_receipts w') i = Some c) \<and>
     (\<forall>i r. map_of (cw_items w) i = Some r \<longrightarrow>
        (\<exists>r'. map_of (cw_items w') i = Some r' \<and> cl_token r \<le> cl_token r' \<and> (cl_state r = ClaimCompleted \<longrightarrow> r' = r)))"

definition claims_kept :: "coord_state \<Rightarrow> coord_state \<Rightarrow> bool" where
  "claims_kept s s' \<longleftrightarrow>
     (\<forall>k w. map_of (wave_map s) k = Some w \<longrightarrow> (\<exists>w'. map_of (wave_map s') k = Some w' \<and> wave_kept w w'))"

lemma wave_kept_refl: "wave_kept w w"
  by (simp add: wave_kept_def)

lemma wave_kept_trans:
  assumes "wave_kept u v" "wave_kept v w"
  shows "wave_kept u w"
  unfolding wave_kept_def
proof (intro conjI allI impI)
  fix i r
  assume "map_of (cw_items u) i = Some r"
  then obtain r' where r': "map_of (cw_items v) i = Some r'" "cl_token r \<le> cl_token r'" "cl_state r = ClaimCompleted \<longrightarrow> r' = r"
    using assms(1) unfolding wave_kept_def by blast
  then obtain r'' where "map_of (cw_items w) i = Some r''" "cl_token r' \<le> cl_token r''" "cl_state r' = ClaimCompleted \<longrightarrow> r'' = r'"
    using assms(2) unfolding wave_kept_def by blast
  with r' show "\<exists>r'. map_of (cw_items w) i = Some r' \<and> cl_token r \<le> cl_token r' \<and> (cl_state r = ClaimCompleted \<longrightarrow> r' = r)"
    by auto
qed (use assms in \<open>auto simp: wave_kept_def\<close>)

lemma claims_kept_refl: "claims_kept s s"
  using wave_kept_refl by (auto simp: claims_kept_def)

lemma claims_kept_trans: "claims_kept s t \<Longrightarrow> claims_kept t u \<Longrightarrow> claims_kept s u"
  unfolding claims_kept_def using wave_kept_trans by blast

lemma claims_kept_same: "claims s' = claims s \<Longrightarrow> claims_kept s s'"
  using wave_kept_refl by (auto simp: claims_kept_def wave_map_def)

text \<open>What \<open>claim_commit\<close> stores.\<close>

lemma wave_map_commit:
  "map_of (wave_map (claim_commit q a fp now r resp nt s)) =
     (map_of (wave_map s))(claim_wave_key a \<mapsto>
       (wave_of s a now)\<lparr>cw_last_time := now,
         cw_items := (case r of None \<Rightarrow> cw_items (wave_of s a now) | Some x \<Rightarrow> AList.update (rq_item q) x (cw_items (wave_of s a now))),
         cw_receipts := AList.update (rq_op_id q) \<lparr>cc_fingerprint = fp, cc_response = resp\<rparr> (cw_receipts (wave_of s a now))\<rparr>)"
  by (simp add: claim_commit_def Let_def wave_map_def update_conv')

lemma commit_kept:
  assumes "case map_of (wave_map s) (claim_wave_key a) of None \<Rightarrow> True | Some x \<Rightarrow> cw_authority x = a \<and> cw_last_time x \<le> now"
    and "map_of (cw_receipts (wave_of s a now)) (rq_op_id q) = None"
    and "\<And>x y. r = Some x \<Longrightarrow> map_of (cw_items (wave_of s a now)) (rq_item q) = Some y \<Longrightarrow>
      cl_token y \<le> cl_token x \<and> (cl_state y = ClaimCompleted \<longrightarrow> x = y)"
  shows "claims_kept s (claim_commit q a fp now r resp nt s)"
  unfolding claims_kept_def
proof (intro allI impI)
  fix k w
  assume w: "map_of (wave_map s) k = Some w"
  show "\<exists>w'. map_of (wave_map (claim_commit q a fp now r resp nt s)) k = Some w' \<and> wave_kept w w'"
  proof (cases "k = claim_wave_key a")
    case True
    with w have "wave_of s a now = w" by (simp add: wave_of_def)
    with w True assms show ?thesis
      by (auto simp: wave_map_commit wave_kept_def update_conv' split: option.splits)
  next
    case False
    with w wave_kept_refl show ?thesis by (simp add: wave_map_commit)
  qed
qed

lemma decide_kept:
  assumes s: "sound s" and a: "valid_authority a"
    and dec: "decide_claim q a owner fp now s = (reply, Some (s', specs))"
  shows "claims_kept s s'"
proof -
  let ?w = "wave_of s a now"
  let ?r = "map_of (cw_items ?w) (rq_item q)"
  let ?r1 = "expire_claim now ?r"
  note c = decide_commits [OF dec]
  then have auth: "case map_of (wave_map s) (claim_wave_key a) of None \<Rightarrow> True | Some x \<Rightarrow> cw_authority x = a"
    by (auto split: option.splits)
  note kept = commit_kept [OF conjunct1 [OF c] conjunct1 [OF conjunct2 [OF c]]]
  consider resp where "s' = claim_commit q a fp now ?r1 resp (next_token s) s"
    | x word where "admit_claim q owner now (next_token s) ?r1 = AdmitClaim x word"
      "s' = claim_commit q a fp now (Some x) (ViewOf (rq_item q) x)
        (if rq_operation q = ''claim'' then next_token s + 1 else next_token s) s"
    using c by (auto simp: Let_def)
  then show ?thesis
  proof cases
    case 1
    show ?thesis unfolding 1 by (rule kept) (auto simp: expire_claim_Some claim_expired_def)
  next
    case 2
    have "cl_token y \<le> cl_token x \<and> cl_state y \<noteq> ClaimCompleted" if y: "?r = Some y" for y
    proof (cases "rq_operation q = ''claim''")
      case True
      have "cl_token y < next_token s" using item_valid [OF s a auth y] by (simp add: valid_claim_record_def)
      moreover have "record_status ?r1 = ClaimAvailable \<and> cl_token x = next_token s"
        using admit_claim_op [OF 2(1) True] by blast
      ultimately show ?thesis using y by (auto simp: record_status_def expire_claim_def claim_expired_def split: if_splits)
    next
      case False
      from admit_other_op [OF 2(1) False] y show ?thesis by (auto simp: expire_claim_Some split: if_splits)
    qed
    then show ?thesis unfolding 2(2) by (intro kept) auto
  qed
qed

end
