(* ===== verification/ClaimProperties.thy ===== *)
theory ClaimProperties
  imports CoordClaimLaws CoordProperties
begin

text \<open>
  Properties of \<open>CoordClaims\<close>: the store never refuses what a request commits, a retry gets the
  stored reply, a live claim is its owner's, and the store's runs mix requests with calls on holds.
\<close>

section \<open>The store accepts every request\<close>

definition digest_ok :: "claim_lib \<Rightarrow> bool" where
  "digest_ok L \<longleftrightarrow> (\<forall>q a owner. valid_fingerprint (fingerprint L q a owner))"

lemma never_unadmitted:
  assumes "request_ok q"
  shows "fst (decide_claim q a owner fp now s) \<noteq> KeyErrorRaised \<and> fst (decide_claim q a owner fp now s) \<noteq> StateCorrupt []"
  using assms always_admitted [of q owner now "next_token s"]
  by (auto simp: decide_claim_def Let_def request_ok_def split: option.split admission.split)

text \<open>\<open>execute\<close> is a client of the store's interface.\<close>

lemma execute_transact:
  assumes "validate_request L request a owner = Some q" "rq_authority q = a" "got_lock" "sound_disk d"
  shows "execute_claim J L E got_lock now request a owner d =
    (case durable_store.transact (enter_store J) (commit_state J E)
        (decide_claim q a owner (fingerprint L q a owner) now) d of
       (Inl _, d') \<Rightarrow> (StateCorrupt [], d')
     | (Inr x, d') \<Rightarrow> (x, d'))"
  using assms journal.enter_view [OF assms(4), of J]
  by (auto simp: execute_claim_def journal.transact_def split: sum.split prod.split option.split)

text \<open>
  C14 (invariant): a request is a transaction of the store.  On a sound disk, whatever a crash left
  there, \<open>execute\<close> ends on a sound disk; the validator never refuses what it commits and no pair is
  missing from the transition table; every receipt, every completed item and every token it had read
  is still there, and its holds are untouched.  Relied on: a digest is 64 hexadecimal digits.
\<close>

theorem request_keeps_store:
  assumes "sound_disk d" "digest_ok L" "execute_claim J L E got_lock now request a owner d = (reply, d')"
  shows "sound_disk d' \<and> (reply \<noteq> StateCorrupt [] \<and> reply \<noteq> KeyErrorRaised) \<and>
    claims_kept (current d) (current d') \<and> holds (current d') = holds (current d)"
proof -
  consider (refused) "d' = d" "\<exists>c. reply = Response (ClaimError c)"
    | (run) q where "validate_request L request a owner = Some q" "rq_authority q = a" "got_lock"
    using assms(3) by (auto simp: execute_claim_def split: option.splits if_splits)
  then show ?thesis
  proof cases
    case refused
    with assms(1) claims_kept_refl show ?thesis by auto
  next
    case run
    note ok = validate_request_ok [OF run(1)]
    let ?dec = "decide_claim q a owner (fingerprint L q a owner) now"
    have accepted: "sound s'" if "?dec (current d) = (x, Some (s', p))" for x s' p
      using decide_sound [OF sound_current [OF assms(1)] ok _ that] assms(2) by (simp add: digest_ok_def)
    obtain d1 where d1: "durable_store.transact (enter_store J) (commit_state J E) ?dec d =
        (Inr (fst (?dec (current d))), d1)" "sound_disk d1"
      "current d1 = (case snd (?dec (current d)) of None \<Rightarrow> current d | Some (s', p) \<Rightarrow> s')"
      using journal.transact_view [OF assms(1), of ?dec J E] accepted by blast
    have res: "reply = fst (?dec (current d))" "d' = d1"
      using assms(3) execute_transact [OF run assms(1), of J E now] d1(1) by simp_all
    have "claims_kept (current d) (current d1) \<and> holds (current d1) = holds (current d)"
    proof (cases "snd (?dec (current d))")
      case None
      with d1(3) claims_kept_refl show ?thesis by simp
    next
      case (Some sp)
      obtain s' p where sp: "sp = (s', p)" by fastforce
      with Some have dec: "?dec (current d) = (fst (?dec (current d)), Some (s', p))" by (metis prod.collapse)
      have "holds s' = holds (current d)"
        using decide_commits [OF dec] by (auto simp: Let_def claim_commit_def)
      with decide_kept [OF sound_current [OF assms(1)] ok(1) dec] d1(3) Some sp show ?thesis by simp
    qed
    with never_unadmitted [OF ok(3)] d1(2) res show ?thesis by simp
  qed
qed

definition demo_claims :: claim_lib where
  "demo_claims = \<lparr>request_bytes = (\<lambda>_. 10), fingerprint = (\<lambda>_ _ _. replicate 64 (CHR ''0''))\<rparr>"

definition demo_authority :: claim_authority where
  "demo_authority = \<lparr>au_id = ''A'', au_epoch = 1, au_task = ''T'', au_wave = ''W''\<rparr>"

definition demo_owner :: claim_owner where
  "demo_owner = \<lparr>ow_principal = ''p'', ow_session = ''s''\<rparr>"

definition demo_request :: pyval where
  "demo_request = PDict [(PStr ''schema_version'', PInt 1), (PStr ''authority_id'', PStr ''A''),
     (PStr ''authority_epoch'', PInt 1), (PStr ''task_ref'', PStr ''T''), (PStr ''wave_id'', PStr ''W''),
     (PStr ''operation_id'', PStr ''op1''), (PStr ''work_item_id'', PStr ''item''), (PStr ''operation'', PStr ''claim'')]"

lemma demo_digest: "digest_ok demo_claims"
  by (simp add: digest_ok_def demo_claims_def valid_fingerprint_def list_all_iff)

lemma empty_sound: "sound_disk empty_disk" "current empty_disk = default_state"
  by (simp_all add: sound_disk_def current_def empty_disk_def)

theorem request_keeps_store_witness:
  "sound_disk (snd (execute_claim demo_json demo_claims demo_env True 5 demo_request demo_authority demo_owner empty_disk))"
  using request_keeps_store [OF empty_sound(1) demo_digest surjective_pairing] by blast

section \<open>Retries\<close>

text \<open>
  What may happen to the store between a request and its retry: requests of anyone, and calls on
  holds, events and fenced resources.
\<close>

inductive store_evolves :: "coord_state \<Rightarrow> coord_state \<Rightarrow> bool" for s where
  evolve_none: "store_evolves s s"
| evolve_request: "store_evolves s s1 \<Longrightarrow> valid_authority a \<Longrightarrow> valid_owner owner \<Longrightarrow> request_ok q \<Longrightarrow>
    valid_fingerprint fp \<Longrightarrow> decide_claim q a owner fp now s1 = (reply, Some (s2, specs)) \<Longrightarrow> store_evolves s s2"
| evolve_call: "store_evolves s s1 \<Longrightarrow> store_evolves s (call_state J K X c s1)"

lemma call_extensions:
  "claims (call_state J K X c s) = claims s"
  "channels (call_state J K X c s) = channels s"
proof -
  have e: "claims (expire_holds t s) = claims s" "channels (expire_holds t s) = channels s" for t s
    by (simp_all add: expire_holds_def)
  have u: "claims (update_hold t f s) = claims s" "channels (update_hold t f s) = channels s" for t f s
    by (simp_all add: update_hold_def)
  have h: "claims (snd (hold_core_effect r ow until m t ex s)) = claims s"
    "channels (snd (hold_core_effect r ow until m t ex s)) = channels s" for r ow until m t ex s
    by (simp_all add: hold_core_effect_def Let_def u split: option.split)
  show "claims (call_state J K X c s) = claims s" "channels (call_state J K X c s) = channels s"
    by (cases c; simp add: hold_effect_def release_effect_def fenced_effect_def event_effect_def read_state_def
      Let_def e u h split: option.split)+
qed

lemma evolves_kept: "store_evolves s s' \<Longrightarrow> sound s \<Longrightarrow> sound s' \<and> claims_kept s s'"
proof (induction rule: store_evolves.induct)
  case evolve_none
  then show ?case by (simp add: claims_kept_refl)
next
  case (evolve_request s1 a owner q fp now reply s2 specs)
  then show ?case using decide_sound decide_kept claims_kept_trans by meson
next
  case (evolve_call s1 J K X c)
  then show ?case
    using call_sound claims_kept_trans [OF _ claims_kept_same [OF call_extensions(1)]] by blast
qed

text \<open>
  C15 (functional): a retry gets the stored reply and does nothing.  Once a mutation was committed with
  a reply (a grant or a refusal), the same request by the same owner is answered with that reply and
  commits nothing, at any later time and after any requests and calls in between, even when the claim
  has expired or was taken by another; the operation id with other content is refused.
\<close>

theorem retry_is_answered:
  assumes "sound s" "valid_authority a" "valid_owner owner" "request_ok q" "valid_fingerprint fp"
    and "decide_claim q a owner fp now s = (reply, Some (s', specs))" "store_evolves s' s''"
    and "\<And>w. map_of (wave_map s'') (claim_wave_key a) = Some w \<Longrightarrow> cw_last_time w \<le> now'"
  shows "decide_claim q a owner fp now' s'' = (reply, None) \<and>
    (\<forall>q' fp'. rq_op_id q' = rq_op_id q \<and> fp' \<noteq> fp \<longrightarrow>
       decide_claim q' a owner fp' now' s'' = (Response (ClaimError ''idempotency_conflict''), None))"
proof -
  have s': "sound s'" by (rule decide_sound [OF assms(1-6)])
  note c = decide_commits [OF assms(6)]
  obtain resp where resp: "reply = Response resp"
    "\<exists>w. map_of (wave_map s') (claim_wave_key a) = Some w \<and> cw_authority w = a \<and>
       map_of (cw_receipts w) (rq_op_id q) = Some \<lparr>cc_fingerprint = fp, cc_response = resp\<rparr>"
  proof -
    have auth: "cw_authority (wave_of s a now) = a"
      using c by (auto simp: wave_of_def split: option.splits)
    have "\<exists>resp r nt. reply = Response resp \<and> s' = claim_commit q a fp now r resp nt s"
      using c by (auto simp: Let_def)
    then obtain r resp nt where "reply = Response resp" "s' = claim_commit q a fp now r resp nt s" by blast
    then show ?thesis using auth by (intro that) (auto simp: wave_map_commit update_conv')
  qed
  then obtain w where w: "map_of (wave_map s') (claim_wave_key a) = Some w" "cw_authority w = a"
    "map_of (cw_receipts w) (rq_op_id q) = Some \<lparr>cc_fingerprint = fp, cc_response = resp\<rparr>" by blast
  from evolves_kept [OF assms(7) s'] w obtain w' where w': "map_of (wave_map s'') (claim_wave_key a) = Some w'"
    "cw_authority w' = a" "map_of (cw_receipts w') (rq_op_id q) = Some \<lparr>cc_fingerprint = fp, cc_response = resp\<rparr>"
    unfolding claims_kept_def wave_kept_def by metis
  with assms(8) [OF w'(1)] resp(1) show ?thesis by (simp add: decide_claim_def wave_of_def Let_def not_less)
qed

definition demo_q :: claim_request where
  "demo_q = \<lparr>rq_authority = demo_authority, rq_op_id = ''op1'', rq_item = ''item'', rq_operation = ''claim'',
     rq_token = 0, rq_ttl = None\<rparr>"

definition demo_claimed :: coord_state where
  "demo_claimed = \<lparr>next_token = 2, holds = [], resources = [],
     claims = Some [((''T'', ''W''), \<lparr>cw_authority = demo_authority, cw_last_time = 5,
       cw_items = [(''item'', \<lparr>cl_state = Claimed, cl_owner = demo_owner, cl_token = 1, cl_expires = 65\<rparr>)],
       cw_receipts = [(''op1'', \<lparr>cc_fingerprint = replicate 64 (CHR ''0''),
         cc_response = ViewOf ''item'' \<lparr>cl_state = Claimed, cl_owner = demo_owner, cl_token = 1, cl_expires = 65\<rparr>\<rparr>)]\<rparr>)],
     channels = None\<rparr>"

lemma demo_decides:
  "decide_claim demo_q demo_authority demo_owner (replicate 64 (CHR ''0'')) 5 default_state =
     (Response (ViewOf ''item'' \<lparr>cl_state = Claimed, cl_owner = demo_owner, cl_token = 1, cl_expires = 65\<rparr>),
      Some (demo_claimed, [claim_spec demo_authority demo_owner demo_q ''granted''
        \<lparr>cl_state = Claimed, cl_owner = demo_owner, cl_token = 1, cl_expires = 65\<rparr>]))"
  by code_simp

theorem retry_is_answered_witness:
  "decide_claim demo_q demo_authority demo_owner (replicate 64 (CHR ''0'')) 1000 demo_claimed =
     (Response (ViewOf ''item'' \<lparr>cl_state = Claimed, cl_owner = demo_owner, cl_token = 1, cl_expires = 65\<rparr>), None)"
proof -
  have "valid_authority demo_authority" "valid_owner demo_owner" "request_ok demo_q"
    "valid_fingerprint (replicate 64 (CHR ''0''))" by code_simp+
  from retry_is_answered [OF sound_default this demo_decides evolve_none, of 1000] show ?thesis
    by (simp add: demo_claimed_def wave_map_def claim_wave_key_def demo_authority_def)
qed

section \<open>Ownership\<close>

definition item_record :: "coord_state \<Rightarrow> claim_authority \<Rightarrow> string \<Rightarrow> claim_record option" where
  "item_record s a i =
     (case map_of (wave_map s) (claim_wave_key a) of None \<Rightarrow> None | Some w \<Rightarrow> map_of (cw_items w) i)"

text \<open>
  C16 (safety): a live claim is its owner's.  While an item is claimed and its time has not run out, a
  request that commits changes the item's record only when it is a renew, release or complete by the
  owner with the claim's token; every claim of the item, also the owner's, is answered with the
  holder, and a renew, release or complete by someone else or with an old token is a stale token.
\<close>

theorem live_claim_is_the_owners:
  assumes "sound s" "valid_authority a" "item_record s a i = Some r" "cl_state r = Claimed" "now < cl_expires r"
    and "decide_claim q a owner fp now s = (reply, Some (s', specs))"
  shows "(item_record s' a i \<noteq> Some r \<longrightarrow>
      rq_item q = i \<and> rq_operation q \<noteq> ''claim'' \<and> owner = cl_owner r \<and> rq_token q = cl_token r) \<and>
    (rq_item q = i \<and> rq_operation q = ''claim'' \<longrightarrow> reply = Response (HeldByView i r)) \<and>
    (rq_item q = i \<and> rq_operation q \<noteq> ''claim'' \<and> (owner \<noteq> cl_owner r \<or> rq_token q \<noteq> cl_token r) \<longrightarrow>
      reply = Response (ClaimError ''stale_token''))"
proof -
  note c = decide_commits [OF assms(6)]
  obtain w where w: "map_of (wave_map s) (claim_wave_key a) = Some w" "map_of (cw_items w) i = Some r"
    using assms(3) by (auto simp: item_record_def split: option.splits)
  have wave: "wave_of s a now = w" using w by (simp add: wave_of_def)
  have keep: "expire_claim now (Some r) = Some r" using assms(5) by (simp add: expire_claim_def claim_expired_def)
  have other: "item_record (claim_commit q a fp now x resp nt s) a i = Some r"
    if "rq_item q \<noteq> i \<or> x = Some r" for x resp nt
    using that w wave by (cases x) (auto simp: item_record_def wave_map_commit update_conv')
  show ?thesis
  proof (cases "rq_item q = i")
    case False
    with c other show ?thesis by (auto simp: Let_def)
  next
    case True
    have r1: "expire_claim now (map_of (cw_items (wave_of s a now)) (rq_item q)) = Some r"
      using True w(2) wave keep by simp
    show ?thesis
    proof (cases "rq_operation q \<noteq> ''claim'' \<and> owner = cl_owner r \<and> rq_token q = cl_token r")
      case mine: True
      then show ?thesis using True by auto
    next
      case False
      have "admit_claim q owner now (next_token s) (Some r) =
          RefuseClaim (if rq_operation q = ''claim'' then HeldByView i r else ClaimError ''stale_token'')"
        using False True assms(4) by (auto simp: admit_claim_def Let_def record_status_def)
      with c r1 True other [of "Some r"] show ?thesis by (auto simp: Let_def)
    qed
  qed
qed

theorem live_claim_is_the_owners_witness:
  "fst (decide_claim (demo_q\<lparr>rq_op_id := ''op2''\<rparr>) demo_authority \<lparr>ow_principal = ''x'', ow_session = ''y''\<rparr>
      (replicate 64 (CHR ''1'')) 20 demo_claimed) =
    Response (HeldByView ''item'' \<lparr>cl_state = Claimed, cl_owner = demo_owner, cl_token = 1, cl_expires = 65\<rparr>)"
proof -
  let ?d = "decide_claim (demo_q\<lparr>rq_op_id := ''op2''\<rparr>) demo_authority \<lparr>ow_principal = ''x'', ow_session = ''y''\<rparr>
      (replicate 64 (CHR ''1'')) 20 demo_claimed"
  let ?r = "\<lparr>cl_state = Claimed, cl_owner = demo_owner, cl_token = 1, cl_expires = 65\<rparr>"
  have facts: "sound demo_claimed" "valid_authority demo_authority"
    "item_record demo_claimed demo_authority ''item'' = Some ?r" "snd ?d \<noteq> None" by code_simp+
  then obtain s' specs where "?d = (fst ?d, Some (s', specs))" by (metis not_None_eq prod.collapse)
  from live_claim_is_the_owners [OF facts(1-3) _ _ this] show ?thesis by (simp add: demo_q_def)
qed

text \<open>
  C17 (safety): completion is final and tokens only grow.  In any sequence of requests and calls on
  holds, a completed item keeps its record for good, and the token of an item never gets smaller; the
  tokens of all holds and claims in the store are pairwise different and below the store's counter.
\<close>

theorem completion_is_final:
  assumes "sound s" "store_evolves s s'" "item_record s a i = Some r"
  shows "(\<exists>r'. item_record s' a i = Some r' \<and> cl_token r \<le> cl_token r' \<and> (cl_state r = ClaimCompleted \<longrightarrow> r' = r)) \<and>
    distinct (map hr_token (holds s') @ claim_tokens (wave_map s')) \<and>
    next_token s' \<notin> set (map hr_token (holds s') @ claim_tokens (wave_map s'))"
proof -
  note e = evolves_kept [OF assms(2,1)]
  obtain w where w: "map_of (wave_map s) (claim_wave_key a) = Some w" "map_of (cw_items w) i = Some r"
    using assms(3) by (auto simp: item_record_def split: option.splits)
  with e obtain w' where "map_of (wave_map s') (claim_wave_key a) = Some w'" "wave_kept w w'"
    unfolding claims_kept_def by blast
  with w(2) have "\<exists>r'. item_record s' a i = Some r' \<and> cl_token r \<le> cl_token r' \<and> (cl_state r = ClaimCompleted \<longrightarrow> r' = r)"
    unfolding wave_kept_def item_record_def by auto
  with state_tokens e show ?thesis by blast
qed

theorem completion_is_final_witness:
  "\<exists>r'. item_record demo_claimed demo_authority ''item'' = Some r' \<and> 1 \<le> cl_token r'"
proof -
  let ?r = "\<lparr>cl_state = Claimed, cl_owner = demo_owner, cl_token = 1, cl_expires = 65\<rparr>"
  have "sound demo_claimed" "item_record demo_claimed demo_authority ''item'' = Some ?r" by code_simp+
  from completion_is_final [OF this(1) evolve_none this(2)] show ?thesis by auto
qed

end
