(* ===== verification/LearnedCap.thy ===== *)
theory LearnedCap
  imports PyValue
begin

text \<open>
  \<open>learned_wave_cap.py\<close>: the learned width of remote waves, kept in one JSON file.  The file is the
  value its text parses to, \<open>None\<close> when it is missing, unreadable or not JSON; each update holds the
  sibling lock, or gives up with \<open>LockDeadlineExceeded\<close> (a \<open>RuntimeError\<close>).  The properties are at
  the end.
\<close>

section \<open>The stored state\<close>

definition seed_wave_width :: int where
  "seed_wave_width = 12"

definition capacity_defer_reasons :: "string list" where
  "capacity_defer_reasons = [''vm_lane_cap'', ''vm_memory_pressure'', ''vm_measured_saturation'']"

definition clean_waves_to_climb :: int where
  "clean_waves_to_climb = 3"

text \<open>\<open>isinstance(v, int)\<close> without the booleans.\<close>

fun plain_int :: "pyval \<Rightarrow> int option" where
  "plain_int (PInt i) = Some i"
| "plain_int _ = None"

definition read_cap_state :: "pyval option \<Rightarrow> int option \<times> int" where
  "read_cap_state fl =
     (case fl of
        None \<Rightarrow> (None, 0)
      | Some payload \<Rightarrow>
          (case plain_int (if is_mapping payload then py_get payload ''learned'' else PNone) of
             None \<Rightarrow> (None, 0)
           | Some learned \<Rightarrow>
               if learned < 1 then (None, 0)
               else
                 (case plain_int (py_get_default payload ''clean_waves'' (PInt 0)) of
                    None \<Rightarrow> (Some learned, 0)
                  | Some c \<Rightarrow> (Some learned, if c < 0 then 0 else c))))"

definition read_learned_cap :: "pyval option \<Rightarrow> int option" where
  "read_learned_cap fl = fst (read_cap_state fl)"

text \<open>\<open>learned or _SEED_WAVE_WIDTH\<close>.\<close>

definition learned_or_seed :: "int option \<Rightarrow> int" where
  "learned_or_seed l = (case l of None \<Rightarrow> seed_wave_width | Some n \<Rightarrow> if n = 0 then seed_wave_width else n)"

definition store_cap :: "string \<Rightarrow> int \<Rightarrow> int \<Rightarrow> pyval option" where
  "store_cap stamp learned clean =
     Some (PDict [(PStr ''learned'', PInt learned), (PStr ''clean_waves'', PInt clean), (PStr ''updated_at'', PStr stamp)])"

section \<open>Updates\<close>

record cap_update_result =
  cu_previous :: int
  cu_current :: int
  cu_reason :: string
  cu_changed :: bool

definition record_capacity_deferral ::
    "bool \<Rightarrow> string \<Rightarrow> string \<Rightarrow> pyval option \<Rightarrow> cap_update_result result \<times> pyval option" where
  "record_capacity_deferral got_lock stamp reason fl =
     (if \<not> got_lock then (Inl RuntimeError, fl)
      else
        (let previous = learned_or_seed (fst (read_cap_state fl));
             capacity = reason \<in> set capacity_defer_reasons;
             cur = (if capacity then max 1 (previous - 1) else previous)
         in (Inr \<lparr>cu_previous = previous, cu_current = cur, cu_reason = reason, cu_changed = (cur \<noteq> previous)\<rparr>,
             if capacity then store_cap stamp cur 0 else fl)))"

definition record_clean_wave ::
    "bool \<Rightarrow> string \<Rightarrow> int \<Rightarrow> int \<Rightarrow> int \<Rightarrow> pyval option \<Rightarrow> int result \<times> pyval option" where
  "record_clean_wave got_lock stamp admitted effective maximum fl =
     (if \<not> got_lock then (Inl RuntimeError, fl)
      else
        (let (l, clean) = read_cap_state fl; learned = learned_or_seed l
         in if admitted \<noteq> effective \<or> effective < 1 \<or> learned \<ge> maximum
            then (Inr learned, store_cap stamp learned 0)
            else
              (let streak = clean + 1;
                   cur = (if streak \<ge> clean_waves_to_climb then min maximum (learned + 1) else learned)
               in (Inr cur, store_cap stamp cur (if cur \<noteq> learned then 0 else streak)))))"

definition reset_learned_cap :: "bool \<Rightarrow> string \<Rightarrow> pyval option \<Rightarrow> int result \<times> pyval option" where
  "reset_learned_cap got_lock stamp fl =
     (if \<not> got_lock then (Inl RuntimeError, fl) else (Inr seed_wave_width, store_cap stamp seed_wave_width 0))"

text \<open>\<open>consumed\<close> is the flag of the process; it is set before the reset, also when the reset raises.\<close>

definition consume_cap_reset ::
    "bool \<Rightarrow> string \<Rightarrow> string option \<Rightarrow> bool \<times> pyval option \<Rightarrow> bool result \<times> bool \<times> pyval option" where
  "consume_cap_reset got_lock stamp var cf =
     (case cf of (consumed, fl) \<Rightarrow>
        if py_strip (case var of None \<Rightarrow> [] | Some v \<Rightarrow> v) \<noteq> ''1'' then (Inr False, consumed, fl)
        else if consumed then (Inr False, consumed, fl)
        else (case reset_learned_cap got_lock stamp fl of
             (Inl e, f) \<Rightarrow> (Inl e, True, f)
           | (Inr _, f) \<Rightarrow> (Inr True, True, f)))"

section \<open>Lemmas\<close>

lemma read_stored: "1 \<le> l \<Longrightarrow> 0 \<le> c \<Longrightarrow> read_cap_state (store_cap stamp l c) = (Some l, c)"
  by (simp add: read_cap_state_def store_cap_def py_get_def py_get_default_def py_lookup_def)

text \<open>What is read is at least one and its streak not negative, whatever the file holds.\<close>

lemma read_bounds:
  assumes "read_cap_state fl = (l, c)"
  shows "0 \<le> c \<and> 1 \<le> learned_or_seed l"
proof (cases fl)
  case None
  with assms show ?thesis by (auto simp: read_cap_state_def learned_or_seed_def seed_wave_width_def)
next
  case (Some v)
  define learned where "learned = plain_int (if is_mapping v then py_get v ''learned'' else PNone)"
  define clean where "clean = plain_int (py_get_default v ''clean_waves'' (PInt 0))"
  have "read_cap_state fl = (case learned of None \<Rightarrow> (None, 0)
      | Some n \<Rightarrow> if n < 1 then (None, 0) else (case clean of None \<Rightarrow> (Some n, 0) | Some c \<Rightarrow> (Some n, if c < 0 then 0 else c)))"
    by (simp only: Some read_cap_state_def learned_def clean_def option.case)
  with assms show ?thesis
    by (cases learned; cases clean) (auto simp: learned_or_seed_def seed_wave_width_def split: if_splits)
qed

text \<open>The state of the file as an update reads it.\<close>

definition cap_of :: "pyval option \<Rightarrow> int" where
  "cap_of fl = learned_or_seed (fst (read_cap_state fl))"

definition streak_of :: "pyval option \<Rightarrow> int" where
  "streak_of fl = snd (read_cap_state fl)"

lemma cap_pos: "1 \<le> cap_of fl \<and> 0 \<le> streak_of fl"
  using read_bounds [of fl "fst (read_cap_state fl)" "snd (read_cap_state fl)"]
  by (simp add: cap_of_def streak_of_def)

lemma cap_stored: "1 \<le> l \<Longrightarrow> 0 \<le> c \<Longrightarrow> cap_of (store_cap stamp l c) = l \<and> streak_of (store_cap stamp l c) = c"
  by (simp add: cap_of_def streak_of_def read_stored learned_or_seed_def)

lemma deferral_cap:
  "cap_of (snd (record_capacity_deferral True stamp reason fl)) =
     (if reason \<in> set capacity_defer_reasons then max 1 (cap_of fl - 1) else cap_of fl) \<and>
   streak_of (snd (record_capacity_deferral True stamp reason fl)) =
     (if reason \<in> set capacity_defer_reasons then 0 else streak_of fl)"
  using cap_pos [of fl] cap_stored [of "max 1 (cap_of fl - 1)" 0]
  by (simp add: record_capacity_deferral_def Let_def cap_of_def [symmetric])

lemma clean_cap:
  "cap_of (snd (record_clean_wave True stamp a e m fl)) =
     (if a = e \<and> 1 \<le> e \<and> cap_of fl < m \<and> 2 \<le> streak_of fl then cap_of fl + 1 else cap_of fl) \<and>
   streak_of (snd (record_clean_wave True stamp a e m fl)) =
     (if a = e \<and> 1 \<le> e \<and> cap_of fl < m \<and> streak_of fl < 2 then streak_of fl + 1 else 0)"
  using cap_pos [of fl] cap_stored
  by (cases "read_cap_state fl")
     (auto simp: record_clean_wave_def Let_def cap_of_def streak_of_def clean_waves_to_climb_def min_def not_less)

section \<open>Properties\<close>

text \<open>An update of any process that got the lock, in the order of the lock.\<close>

datatype cap_event = Deferral string | CleanWave int int int

fun apply_cap_event :: "cap_event \<Rightarrow> pyval option \<Rightarrow> pyval option" where
  "apply_cap_event (Deferral r) f = snd (record_capacity_deferral True [] r f)"
| "apply_cap_event (CleanWave a e m) f = snd (record_clean_wave True [] a e m f)"

definition cap_run :: "cap_event list \<Rightarrow> pyval option \<Rightarrow> pyval option" where
  "cap_run es f = fold apply_cap_event es f"

fun is_full_wave :: "cap_event \<Rightarrow> bool" where
  "is_full_wave (CleanWave a e m) = (a = e \<and> 1 \<le> e)"
| "is_full_wave _ = False"

fun is_capacity :: "cap_event \<Rightarrow> bool" where
  "is_capacity (Deferral r) = (r \<in> set capacity_defer_reasons)"
| "is_capacity _ = False"

lemma event_bounds:
  "1 \<le> cap_of (apply_cap_event e f) \<and>
   cap_of f - (if is_capacity e then 1 else 0) \<le> cap_of (apply_cap_event e f) \<and>
   3 * cap_of (apply_cap_event e f) + min 2 (streak_of (apply_cap_event e f)) \<le>
     3 * cap_of f + min 2 (streak_of f) + (if is_full_wave e then 1 else 0)"
  using cap_pos [of f]
  by (cases e) (auto simp: deferral_cap clean_cap max_def min_def)

text \<open>
  Property (bounds): the cap climbs slowly and falls by one at a time.  After any sequence of deferrals and
  waves, from any file (also a torn one), the cap is at least 1, at most one below where it was for
  each capacity deferral, and above it by at most a third of the full-width clean waves, the streak
  already stored (counted as at most 2) included.
\<close>

theorem cap_moves_slowly:
  "1 \<le> cap_of (cap_run es f) \<and>
   cap_of f - int (length (filter is_capacity es)) \<le> cap_of (cap_run es f) \<and>
   3 * (cap_of (cap_run es f) - cap_of f) \<le> int (length (filter is_full_wave es)) + min 2 (streak_of f)"
proof (induction es arbitrary: f)
  case Nil
  then show ?case using cap_pos [of f] by (simp add: cap_run_def)
next
  case (Cons e es)
  have run: "cap_run (e # es) f = cap_run es (apply_cap_event e f)" by (simp add: cap_run_def)
  have "0 \<le> streak_of (apply_cap_event e f)" using cap_pos by blast
  then show ?case
    unfolding run using Cons.IH [of "apply_cap_event e f"] event_bounds [of e f] by (auto split: if_splits)
qed

text \<open>
  Property (functional): three clean waves at full width climb by one, and a capacity deferral between them
  starts the count again.  From a state just written by a deferral, two clean waves leave the cap and
  the third raises it, when the cap is below the maximum.
\<close>

theorem third_clean_wave_climbs:
  assumes "reason \<in> set capacity_defer_reasons" "1 \<le> w"
    and "f0 = snd (record_capacity_deferral True stamp reason f)" "cap_of f0 < m"
    and "f1 = snd (record_clean_wave True stamp w w m f0)" "f2 = snd (record_clean_wave True stamp w w m f1)"
    and "f3 = snd (record_clean_wave True stamp w w m f2)"
  shows "cap_of f1 = cap_of f0 \<and> cap_of f2 = cap_of f0 \<and> cap_of f3 = cap_of f0 + 1 \<and> streak_of f3 = 0"
proof -
  have "streak_of f0 = 0" using deferral_cap [of stamp reason f] assms(1,3) by simp
  then have "cap_of f1 = cap_of f0 \<and> streak_of f1 = 1" using clean_cap [of stamp w w m f0] assms by simp
  moreover from this have "cap_of f2 = cap_of f0 \<and> streak_of f2 = 2" using clean_cap [of stamp w w m f1] assms by simp
  ultimately show ?thesis using clean_cap [of stamp w w m f2] assms by simp
qed

theorem third_clean_wave_climbs_witness:
  "cap_of (snd (record_clean_wave True [] 4 4 20 (snd (record_clean_wave True [] 4 4 20
     (snd (record_clean_wave True [] 4 4 20 (snd (record_capacity_deferral True [] ''vm_lane_cap'' None)))))))) = 12"
  using third_clean_wave_climbs [OF _ _ refl _ refl refl refl, of "''vm_lane_cap''" 4 "[]" None 20]
  by (simp add: capacity_defer_reasons_def deferral_cap) (simp add: cap_of_def read_cap_state_def learned_or_seed_def seed_wave_width_def)

end
