(* ===== verification/SccSearch.thy ===== *)
theory SccSearch
  imports Worklist "HOL-Library.Multiset"
begin

text \<open>
  The two passes of the iterative Kosaraju search in \<open>resource_dependencies.py\<close>, over any graph given
  by sorted lists of children and parents, and the searches that mark a node when it is pushed.  The
  locale \<open>finite_digraph\<close> holds what the finishing order of the first pass guarantees, \<open>marking\<close> what a
  marking search reaches, \<open>kosaraju\<close> that the groups found are the strongly connected components.
\<close>

section \<open>The first pass\<close>

text \<open>The head of \<open>ps_stack\<close> is the end of the code's list: \<open>pop\<close> takes it.\<close>

record 'a first_pass =
  ps_stack :: "('a \<times> bool) list"
  ps_visited :: "'a list"
  ps_finish :: "'a list"

definition pass_step :: "('a \<Rightarrow> 'a list) \<Rightarrow> 'a first_pass \<Rightarrow> 'a first_pass" where
  "pass_step children s =
     (case ps_stack s of
        [] \<Rightarrow> s
      | (node, done) # rest \<Rightarrow>
          if done then s\<lparr>ps_stack := rest, ps_finish := ps_finish s @ [node]\<rparr>
          else if node \<in> set (ps_visited s) then s\<lparr>ps_stack := rest\<rparr>
          else
            (let visited = node # ps_visited s
             in s\<lparr>ps_stack := map (\<lambda>c. (c, False)) (filter (\<lambda>c. c \<notin> set visited) (children node)) @ (node, True) # rest,
                  ps_visited := visited\<rparr>))"

definition pass_root :: "('a \<Rightarrow> 'a list) \<Rightarrow> 'a \<Rightarrow> 'a first_pass \<Rightarrow> 'a first_pass" where
  "pass_root children start s =
     while (\<lambda>s. ps_stack s \<noteq> []) (pass_step children) (s\<lparr>ps_stack := [(start, False)]\<rparr>)"

definition finish_order :: "('a \<Rightarrow> 'a list) \<Rightarrow> 'a list \<Rightarrow> 'a list" where
  "finish_order children starts =
     ps_finish (fold (pass_root children) starts \<lparr>ps_stack = [], ps_visited = [], ps_finish = []\<rparr>)"

definition edges_of :: "('a \<Rightarrow> 'a list) \<Rightarrow> ('a \<times> 'a) set" where
  "edges_of children = {(x, y). y \<in> set (children x)}"

text \<open>The edges that leave a node of \<open>A\<close>.\<close>

definition edges_in :: "('a \<Rightarrow> 'a list) \<Rightarrow> 'a set \<Rightarrow> ('a \<times> 'a) set" where
  "edges_in children A = {(x, y). x \<in> A \<and> y \<in> set (children x)}"

definition same_scc :: "('a \<Rightarrow> 'a list) \<Rightarrow> 'a \<Rightarrow> 'a \<Rightarrow> bool" where
  "same_scc children x y \<longleftrightarrow> (x, y) \<in> (edges_of children)\<^sup>* \<and> (y, x) \<in> (edges_of children)\<^sup>*"

text \<open>
  What the second pass needs of a finishing order: when \<open>s\<close> is reached through nodes that finished
  before it, \<open>s\<close> reaches back.
\<close>

definition finish_ok :: "('a \<Rightarrow> 'a list) \<Rightarrow> 'a list \<Rightarrow> bool" where
  "finish_ok children fin \<longleftrightarrow> distinct fin \<and>
     (\<forall>A s B v. fin = A @ s # B \<longrightarrow> (v, s) \<in> (edges_in children (set A))\<^sup>+ \<longrightarrow> (s, v) \<in> (edges_of children)\<^sup>*)"

lemma edges_in_sub: "edges_in children A \<subseteq> edges_of children"
  by (auto simp: edges_in_def edges_of_def)

lemma edges_in_mono: "A \<subseteq> B \<Longrightarrow> edges_in children A \<subseteq> edges_in children B"
  by (auto simp: edges_in_def)

lemma edges_in_source: "(v, s) \<in> (edges_in children A)\<^sup>+ \<Longrightarrow> v \<in> A"
  by (induction rule: trancl_induct) (auto simp: edges_in_def)

text \<open>A path through \<open>insert n A\<close> avoids \<open>n\<close>, or has a part that ends in \<open>n\<close> and avoids it before.\<close>

lemma edges_in_insert:
  assumes "(v, g) \<in> (edges_in children (insert n A))\<^sup>+"
  shows "(v, g) \<in> (edges_in children A)\<^sup>+ \<or> v = n \<or> (v, n) \<in> (edges_in children A)\<^sup>+"
  using assms
proof (induction rule: trancl_induct)
  case (base y)
  then show ?case by (auto simp: edges_in_def)
next
  case (step y z)
  then show ?case by (auto simp: edges_in_def intro: trancl_into_trancl)
qed

locale finite_digraph =
  fixes children :: "'a \<Rightarrow> 'a list" and univ :: "'a set"
  assumes finite_univ: "finite univ" and children_univ: "x \<in> univ \<Longrightarrow> set (children x) \<subseteq> univ"
begin

abbreviation grey :: "('a \<times> bool) list \<Rightarrow> 'a set" where
  "grey st \<equiv> {g. (g, True) \<in> set st}"

definition stack_ok :: "'a first_pass \<Rightarrow> bool" where
  "stack_ok s \<longleftrightarrow>
     sorted_wrt (\<lambda>a b. snd b \<longrightarrow> (fst b, fst a) \<in> (edges_of children)\<^sup>*) (ps_stack s) \<and>
     (\<forall>pre g post. ps_stack s = pre @ (g, True) # post \<longrightarrow>
        set (children g) \<subseteq> set (ps_visited s) \<union> fst ` set pre) \<and>
     distinct (map fst (filter snd (ps_stack s))) \<and> fst ` set (ps_stack s) \<subseteq> univ"

definition colours_ok :: "'a first_pass \<Rightarrow> bool" where
  "colours_ok s \<longleftrightarrow>
     set (ps_visited s) = set (ps_finish s) \<union> grey (ps_stack s) \<and>
     set (ps_finish s) \<inter> grey (ps_stack s) = {} \<and> set (ps_visited s) \<subseteq> univ \<and>
     (\<forall>v \<in> set (ps_finish s). set (children v) \<subseteq> set (ps_visited s))"

definition reach_ok :: "'a first_pass \<Rightarrow> bool" where
  "reach_ok s \<longleftrightarrow> finish_ok children (ps_finish s) \<and>
     (\<forall>v. \<forall>g \<in> grey (ps_stack s). (v, g) \<in> (edges_in children (set (ps_finish s)))\<^sup>+ \<longrightarrow> (g, v) \<in> (edges_of children)\<^sup>*)"

definition pass_inv :: "'a first_pass \<Rightarrow> bool" where
  "pass_inv s \<longleftrightarrow> stack_ok s \<and> colours_ok s \<and> reach_ok s"

lemma black_stays:
  assumes "colours_ok s" "(v, n) \<in> (edges_in children (set (ps_finish s)))\<^sup>+"
  shows "n \<in> set (ps_visited s)"
proof -
  obtain c where "c \<in> set (ps_finish s)" "n \<in> set (children c)"
    using tranclD2 [OF assms(2)] by (auto simp: edges_in_def)
  then show ?thesis using assms(1) unfolding colours_ok_def by blast
qed

lemma pass_drop:
  assumes inv: "pass_inv s" and st: "ps_stack s = (n, False) # rest" and seen: "n \<in> set (ps_visited s)"
  shows "pass_inv (s\<lparr>ps_stack := rest\<rparr>)"
proof -
  have g: "grey (ps_stack s) = grey rest" using st by auto
  have "set (children x) \<subseteq> set (ps_visited s) \<union> fst ` set pre" if "rest = pre @ (x, True) # post" for pre x post
  proof -
    have "ps_stack s = ((n, False) # pre) @ (x, True) # post" using st that by simp
    then have "set (children x) \<subseteq> set (ps_visited s) \<union> fst ` set ((n, False) # pre)"
      using inv unfolding pass_inv_def stack_ok_def by blast
    then show ?thesis using seen by auto
  qed
  then have "stack_ok (s\<lparr>ps_stack := rest\<rparr>)"
    using inv st by (auto simp: pass_inv_def stack_ok_def)
  moreover have "colours_ok (s\<lparr>ps_stack := rest\<rparr>) = colours_ok s" "reach_ok (s\<lparr>ps_stack := rest\<rparr>) = reach_ok s"
    by (simp_all add: colours_ok_def reach_ok_def g)
  ultimately show ?thesis using inv by (simp add: pass_inv_def)
qed

lemma pass_enter:
  assumes inv: "pass_inv s" and st: "ps_stack s = (n, False) # rest" and new: "n \<notin> set (ps_visited s)"
    and s': "s' = s\<lparr>ps_stack := map (\<lambda>c. (c, False)) (filter (\<lambda>c. c \<notin> set (n # ps_visited s)) (children n)) @ (n, True) # rest,
                  ps_visited := n # ps_visited s\<rparr>"
  shows "pass_inv s'"
proof -
  let ?ch = "map (\<lambda>c. (c, False)) (filter (\<lambda>c. c \<notin> set (n # ps_visited s)) (children n))"
  have ok: "stack_ok s" "colours_ok s" "reach_ok s" using inv by (simp_all add: pass_inv_def)
  have n: "n \<in> univ" using ok(1) st by (auto simp: stack_ok_def)
  have g: "grey (ps_stack s) = grey rest" "grey (ps_stack s') = insert n (grey rest)" using st s' by auto
  have sorted: "sorted_wrt (\<lambda>a b. snd b \<longrightarrow> (fst b, fst a) \<in> (edges_of children)\<^sup>*) ((n, False) # rest)"
    using ok(1) st by (simp add: stack_ok_def)
  have edge: "(n, c) \<in> edges_of children" if "c \<in> set (children n)" for c using that by (simp add: edges_of_def)
  have 1: "sorted_wrt (\<lambda>a b. snd b \<longrightarrow> (fst b, fst a) \<in> (edges_of children)\<^sup>*) (ps_stack s')"
    using sorted edge unfolding s'
    by (auto simp: sorted_wrt_append sorted_wrt_map sorted_wrt_filter intro: rtrancl_into_rtrancl
        intro!: sorted_wrt_filter)
  have 2: "set (children x) \<subseteq> set (ps_visited s') \<union> fst ` set pre"
    if sp: "ps_stack s' = pre @ (x, True) # post" for pre x post
  proof -
    have no: "(x, True) \<notin> set ?ch" by auto
    have "?ch @ (n, True) # rest = pre @ (x, True) # post" using sp s' by simp
    then obtain us where "?ch = pre @ us \<and> us @ (n, True) # rest = (x, True) # post \<or>
        ?ch @ us = pre \<and> (n, True) # rest = us @ (x, True) # post"
      unfolding append_eq_append_conv2 by blast
    then obtain pre' where pre: "pre = ?ch @ pre'" "(n, True) # rest = pre' @ (x, True) # post"
    proof (elim disjE conjE)
      assume us: "?ch = pre @ us" "us @ (n, True) # rest = (x, True) # post"
      then have "us = []" using no by (cases us) auto
      then show thesis using that [of "[]"] us by simp
    next
      assume "?ch @ us = pre" "(n, True) # rest = us @ (x, True) # post"
      then show thesis using that by blast
    qed
    show ?thesis
    proof (cases pre')
      case Nil
      then show ?thesis using pre s' by (auto simp: image_image)
    next
      case (Cons y pre'')
      then have "ps_stack s = ((n, False) # pre'') @ (x, True) # post" using pre(2) st by simp
      then have "set (children x) \<subseteq> set (ps_visited s) \<union> fst ` set ((n, False) # pre'')"
        using ok(1) unfolding stack_ok_def by blast
      then show ?thesis using pre(1) Cons s' by auto
    qed
  qed
  have "n \<notin> grey rest" using new ok(2) g(1) by (auto simp: colours_ok_def)
  then have 3: "distinct (map fst (filter snd (ps_stack s')))"
    using ok(1) st s' by (auto simp: stack_ok_def filter_map o_def)
  have 4: "fst ` set (ps_stack s') \<subseteq> univ" using ok(1) st s' n children_univ [OF n] by (auto simp: stack_ok_def)
  have "stack_ok s'" using 1 2 3 4 by (auto simp: stack_ok_def)
  moreover have "ps_finish s' = ps_finish s" "set (ps_visited s') = insert n (set (ps_visited s))" by (simp_all add: s')
  note fields = this g(2)
  have "colours_ok s'"
    using ok(2) g(1) new n unfolding colours_ok_def fields by blast
  moreover have "reach_ok s'"
    using ok(3) black_stays [OF ok(2)] new g(1) unfolding reach_ok_def fields by blast
  ultimately show ?thesis by (simp add: pass_inv_def)
qed

lemma finish_ok_snoc:
  assumes ok: "finish_ok children F" and new: "n \<notin> set F"
    and ret: "\<And>v. (v, n) \<in> (edges_in children (set F))\<^sup>+ \<Longrightarrow> (n, v) \<in> (edges_of children)\<^sup>*"
  shows "finish_ok children (F @ [n])"
proof -
  have "(x, v) \<in> (edges_of children)\<^sup>*" if sp: "F @ [n] = A @ x # B" and p: "(v, x) \<in> (edges_in children (set A))\<^sup>+" for A x B v
  proof (cases B rule: rev_cases)
    case Nil
    then show ?thesis using sp p ret by simp
  next
    case (snoc B' b)
    then have "F = A @ x # B'" using sp by simp
    then show ?thesis using ok p unfolding finish_ok_def by blast
  qed
  then show ?thesis using ok new by (simp add: finish_ok_def)
qed

lemma pass_finish:
  assumes inv: "pass_inv s" and st: "ps_stack s = (n, True) # rest"
    and s': "s' = s\<lparr>ps_stack := rest, ps_finish := ps_finish s @ [n]\<rparr>"
  shows "pass_inv s'"
proof -
  let ?F = "set (ps_finish s)"
  have ok: "stack_ok s" "colours_ok s" "reach_ok s" using inv by (simp_all add: pass_inv_def)
  have g: "grey (ps_stack s) = insert n (grey rest)" using st by auto
  have "n \<notin> fst ` set (filter snd rest)" using ok(1) st by (simp add: stack_ok_def)
  then have nr: "n \<notin> grey rest" by force
  have fields: "ps_stack s' = rest" "ps_visited s' = ps_visited s" "ps_finish s' = ps_finish s @ [n]" by (simp_all add: s')
  have seen: "set (children n) \<subseteq> set (ps_visited s)" using ok(1) st unfolding stack_ok_def by (metis Un_empty_right append_Nil image_empty list.set(1))
  have "set (children x) \<subseteq> set (ps_visited s) \<union> fst ` set pre" if "rest = pre @ (x, True) # post" for pre x post
  proof -
    have "ps_stack s = ((n, True) # pre) @ (x, True) # post" using st that by simp
    then have "set (children x) \<subseteq> set (ps_visited s) \<union> fst ` set ((n, True) # pre)"
      using ok(1) unfolding stack_ok_def by blast
    then show ?thesis using ok(2) g unfolding colours_ok_def by auto
  qed
  then have "stack_ok s'" using ok(1) st unfolding stack_ok_def fields by auto
  moreover have "colours_ok s'"
    unfolding colours_ok_def fields
  proof (intro conjI)
    have "\<forall>v \<in> set (ps_finish s). set (children v) \<subseteq> set (ps_visited s)"
      using ok(2) unfolding colours_ok_def by blast
    then show "\<forall>v \<in> set (ps_finish s @ [n]). set (children v) \<subseteq> set (ps_visited s)"
      using seen by simp
    show "set (ps_visited s) = set (ps_finish s @ [n]) \<union> grey rest"
      "set (ps_finish s @ [n]) \<inter> grey rest = {}" "set (ps_visited s) \<subseteq> univ"
      using ok(2) nr unfolding colours_ok_def g by auto
  qed
  moreover have "reach_ok s'"
  proof -
    have nF: "n \<notin> ?F" using ok(2) g unfolding colours_ok_def by blast
    have to: "(a, v) \<in> (edges_of children)\<^sup>*" if "a \<in> insert n (grey rest)" "(v, a) \<in> (edges_in children ?F)\<^sup>+" for a v
      using ok(3) that unfolding reach_ok_def g by blast
    have down: "(a, n) \<in> (edges_of children)\<^sup>*" if "a \<in> grey rest" for a
      using ok(1) st that by (auto simp: stack_ok_def)
    have "(a, v) \<in> (edges_of children)\<^sup>*"
      if a: "a \<in> grey rest" and p: "(v, a) \<in> (edges_in children (insert n ?F))\<^sup>+" for a v
      using edges_in_insert [OF p] to [of a v] to [of n v] down [OF a] a by (blast intro: rtrancl_trans)
    moreover have "finish_ok children (ps_finish s @ [n])"
      using ok(3) nF to unfolding reach_ok_def by (intro finish_ok_snoc) auto
    ultimately show ?thesis unfolding reach_ok_def fields by simp
  qed
  ultimately show ?thesis by (simp add: pass_inv_def)
qed

lemma pass_inv_step:
  assumes "pass_inv s" "ps_stack s \<noteq> []"
  shows "pass_inv (pass_step children s)"
proof -
  obtain n b rest where st: "ps_stack s = (n, b) # rest" using assms(2) by (cases "ps_stack s") auto
  show ?thesis
  proof (cases "b \<or> n \<in> set (ps_visited s)")
    case True
    then show ?thesis
      using pass_finish [OF assms(1) _ refl, of n rest] pass_drop [OF assms(1), of n rest] st
      by (cases b) (simp_all add: pass_step_def)
  next
    case False
    then show ?thesis
      using pass_enter [OF assms(1) _ _ refl, of n rest] st by (simp add: pass_step_def Let_def)
  qed
qed

definition pass_order :: "('a first_pass \<times> 'a first_pass) set" where
  "pass_order = inv_image (less_than <*lex*> less_than) (\<lambda>s. (card (univ - set (ps_visited s)), length (ps_stack s)))"

lemma pass_step_decreases:
  assumes inv: "pass_inv s" and more: "ps_stack s \<noteq> []"
  shows "(pass_step children s, s) \<in> pass_order"
proof -
  obtain n b rest where st: "ps_stack s = (n, b) # rest" using more by (cases "ps_stack s") auto
  have "n \<in> univ" using inv st by (auto simp: pass_inv_def stack_ok_def)
  then have "n \<notin> set (ps_visited s) \<Longrightarrow> card (univ - insert n (set (ps_visited s))) < card (univ - set (ps_visited s))"
    using finite_univ by (intro psubset_card_mono) auto
  then show ?thesis using st by (simp add: pass_order_def pass_step_def Let_def)
qed

text \<open>Between two roots the stack is empty, so everything visited is finished.\<close>

definition between :: "'a first_pass \<Rightarrow> bool" where
  "between s \<longleftrightarrow> pass_inv s \<and> ps_stack s = []"

lemma between_iff:
  "between s \<longleftrightarrow> ps_stack s = [] \<and> set (ps_visited s) = set (ps_finish s) \<and> set (ps_finish s) \<subseteq> univ \<and>
     (\<forall>v \<in> set (ps_finish s). set (children v) \<subseteq> set (ps_finish s)) \<and> finish_ok children (ps_finish s)"
proof (cases "ps_stack s = [] \<and> set (ps_visited s) = set (ps_finish s)")
  case True
  then show ?thesis by (simp add: between_def pass_inv_def stack_ok_def colours_ok_def reach_ok_def)
next
  case False
  then show ?thesis by (auto simp: between_def pass_inv_def colours_ok_def)
qed

lemma pass_visited_mono:
  "set (ps_visited s) \<subseteq> set (ps_visited (pass_step children s))"
  by (auto simp: pass_step_def Let_def split: list.split)

lemma pass_root_between:
  assumes bt: "between s" and start: "start \<in> univ"
  shows "between (pass_root children start s) \<and>
    insert start (set (ps_visited s)) \<subseteq> set (ps_visited (pass_root children start s))"
proof -
  let ?P = "\<lambda>t. pass_inv t \<and> set (ps_visited s) \<subseteq> set (ps_visited t) \<and>
    (start \<in> set (ps_visited t) \<or> ps_stack t = [(start, False)])"
  have 0: "?P (s\<lparr>ps_stack := [(start, False)]\<rparr>)"
    using bt start unfolding between_iff
    by (simp add: pass_inv_def stack_ok_def colours_ok_def reach_ok_def Cons_eq_append_conv subset_iff)
  have 1: "?P (pass_step children t)" if "?P t" "ps_stack t \<noteq> []" for t
    using that pass_inv_step [of t] pass_visited_mono [of t] by (auto simp: pass_step_def Let_def)
  have "?P (pass_root children start s) \<and> ps_stack (pass_root children start s) = []"
    unfolding pass_root_def
    by (rule while_rule [where P = ?P and r = pass_order])
       (use 0 1 pass_step_decreases in \<open>auto simp: pass_order_def\<close>)
  then show ?thesis by (auto simp: between_def)
qed

lemma finish_order_spec:
  assumes "set starts \<subseteq> univ"
  shows "finish_ok children (finish_order children starts)" "set starts \<subseteq> set (finish_order children starts)"
    "set (finish_order children starts) \<subseteq> univ"
    "\<And>x. x \<in> set (finish_order children starts) \<Longrightarrow> set (children x) \<subseteq> set (finish_order children starts)"
proof -
  have step: "between (fold (pass_root children) xs s) \<and> set xs \<union> set (ps_visited s) \<subseteq> set (ps_visited (fold (pass_root children) xs s))"
    if "between s" "set xs \<subseteq> univ" for xs s
    using that
  proof (induction xs arbitrary: s)
    case (Cons x xs)
    then show ?case
      using pass_root_between [OF Cons.prems(1), of x] Cons.IH [of "pass_root children x s"] by fastforce
  qed simp
  define t where "t = fold (pass_root children) starts \<lparr>ps_stack = [], ps_visited = [], ps_finish = []\<rparr>"
  have "between t" "set starts \<subseteq> set (ps_visited t)"
    using step [of "\<lparr>ps_stack = [], ps_visited = [], ps_finish = []\<rparr>" starts] assms
    unfolding t_def by (simp_all add: between_iff [of "\<lparr>ps_stack = [], ps_visited = [], ps_finish = []\<rparr>"] finish_ok_def)
  then show "finish_ok children (finish_order children starts)"
    "set starts \<subseteq> set (finish_order children starts)"
    "set (finish_order children starts) \<subseteq> univ"
    "\<And>x. x \<in> set (finish_order children starts) \<Longrightarrow> set (children x) \<subseteq> set (finish_order children starts)"
    unfolding finish_order_def t_def [symmetric] between_iff by auto
qed

end

section \<open>Searches that mark when they push\<close>

text \<open>
  The head of \<open>mk_pending\<close> is popped; \<open>push new rest\<close> says where the nodes just marked go: before the
  rest, the last one first, for a stack (\<open>lifo\<close>), behind it for a queue (\<open>fifo\<close>).
\<close>

record 'a marking =
  mk_pending :: "'a list"
  mk_marked :: "'a list"
  mk_popped :: "'a list"

definition lifo :: "'a list \<Rightarrow> 'a list \<Rightarrow> 'a list" where
  "lifo new rest = rev new @ rest"

definition fifo :: "'a list \<Rightarrow> 'a list \<Rightarrow> 'a list" where
  "fifo new rest = rest @ new"

definition mark_step :: "('a \<Rightarrow> 'a list) \<Rightarrow> ('a list \<Rightarrow> 'a list \<Rightarrow> 'a list) \<Rightarrow> 'a marking \<Rightarrow> 'a marking" where
  "mark_step nbrs push s =
     (let node = hd (mk_pending s); new = filter (\<lambda>x. x \<notin> set (mk_marked s)) (nbrs node)
      in \<lparr>mk_pending = push new (tl (mk_pending s)), mk_marked = mk_marked s @ new, mk_popped = mk_popped s @ [node]\<rparr>)"

definition mark_run :: "('a \<Rightarrow> 'a list) \<Rightarrow> ('a list \<Rightarrow> 'a list \<Rightarrow> 'a list) \<Rightarrow> 'a list \<Rightarrow> 'a list \<Rightarrow> 'a marking" where
  "mark_run nbrs push pending marked =
     while (\<lambda>s. mk_pending s \<noteq> []) (mark_step nbrs push) \<lparr>mk_pending = pending, mk_marked = marked, mk_popped = []\<rparr>"

definition newly_marked :: "('a \<Rightarrow> 'a list) \<Rightarrow> 'a list \<Rightarrow> 'a list \<Rightarrow> 'a set" where
  "newly_marked nbrs pending marked = (avoid_rel (\<lambda>x. set (nbrs x)) (set marked))\<^sup>+ `` set pending"

locale marking =
  fixes nbrs :: "'a \<Rightarrow> 'a list" and push :: "'a list \<Rightarrow> 'a list \<Rightarrow> 'a list" and univ :: "'a set"
  assumes marking_finite: "finite univ" and nbrs_univ: "set (nbrs x) \<subseteq> univ"
    and nbrs_distinct: "distinct (nbrs x)" and push_mset: "mset (push new rest) = mset new + mset rest"
begin

lemma push_facts [simp]:
  "set (push new rest) = set new \<union> set rest" "length (push new rest) = length new + length rest"
  using push_mset [of new rest] mset_eq_setD [of "push new rest" "new @ rest"] mset_eq_length [of "push new rest" "new @ rest"]
  by simp_all

definition mark_inv :: "'a list \<Rightarrow> 'a list \<Rightarrow> 'a marking \<Rightarrow> bool" where
  "mark_inv P M s \<longleftrightarrow>
     set M \<subseteq> set (mk_marked s) \<and> set (mk_marked s) \<subseteq> set M \<union> newly_marked nbrs P M \<and>
     set (mk_popped s) \<union> set (mk_pending s) = set P \<union> (set (mk_marked s) - set M) \<and>
     (\<forall>x \<in> set (mk_popped s). set (nbrs x) \<subseteq> set (mk_marked s)) \<and>
     (distinct P \<and> set P \<subseteq> set M \<longrightarrow> distinct (mk_popped s @ mk_pending s))"

lemma newly_step:
  assumes "x \<in> set P \<union> newly_marked nbrs P M" "y \<in> set (nbrs x)" "y \<notin> set M"
  shows "y \<in> newly_marked nbrs P M"
  using assms by (auto simp: newly_marked_def avoid_rel_def intro: trancl_into_trancl)

lemma mark_inv_step:
  assumes inv: "mark_inv P M s" and more: "mk_pending s \<noteq> []"
  shows "mark_inv P M (mark_step nbrs push s)"
proof -
  obtain n rest where pd: "mk_pending s = n # rest" using more by (cases "mk_pending s") auto
  define new where "new = filter (\<lambda>x. x \<notin> set (mk_marked s)) (nbrs n)"
  have step: "mark_step nbrs push s =
      \<lparr>mk_pending = push new rest, mk_marked = mk_marked s @ new, mk_popped = mk_popped s @ [n]\<rparr>"
    by (simp add: mark_step_def pd new_def Let_def)
  have n: "n \<in> set P \<union> newly_marked nbrs P M" and M: "set M \<subseteq> set (mk_marked s)"
    using inv pd by (auto simp: mark_inv_def)
  have sub: "set new \<subseteq> newly_marked nbrs P M"
    using newly_step [OF n] M by (auto simp: new_def)
  have fresh: "set new \<inter> set (mk_marked s) = {}" by (auto simp: new_def)
  have "distinct (mk_popped s @ [n] @ push new rest)" if "distinct P" "set P \<subseteq> set M"
  proof -
    have "distinct (mk_popped s @ n # rest)" "set (mk_popped s @ n # rest) \<subseteq> set (mk_marked s)"
      using inv pd that unfolding mark_inv_def by auto
    moreover have "distinct new" using nbrs_distinct by (simp add: new_def)
    moreover have "distinct (push new rest) = distinct (new @ rest)"
      by (rule mset_eq_imp_distinct_iff) (simp add: push_mset)
    ultimately show ?thesis using fresh by auto
  qed
  moreover have "set (nbrs n) \<subseteq> set (mk_marked s) \<union> set new" by (auto simp: new_def)
  ultimately show ?thesis
    using inv sub fresh M unfolding mark_inv_def step pd by auto
qed

lemma mark_run_spec:
  assumes "set P \<subseteq> univ"
  shows "set (mk_marked (mark_run nbrs push P M)) = set M \<union> newly_marked nbrs P M"
    and "set (mk_popped (mark_run nbrs push P M)) = set P \<union> newly_marked nbrs P M"
    and "distinct P \<Longrightarrow> set P \<subseteq> set M \<Longrightarrow> distinct (mk_popped (mark_run nbrs push P M))"
proof -
  let ?r = "inv_image (less_than <*lex*> less_than) (\<lambda>s. (card (univ - set (mk_marked s)), length (mk_pending s)))"
  have dec: "(mark_step nbrs push s, s) \<in> ?r" if more: "mk_pending s \<noteq> []" for s
  proof -
    define new where "new = filter (\<lambda>x. x \<notin> set (mk_marked s)) (nbrs (hd (mk_pending s)))"
    have new: "set new \<subseteq> univ" "set new \<inter> set (mk_marked s) = {}" using nbrs_univ by (auto simp: new_def)
    have "card (univ - (set (mk_marked s) \<union> set new)) < card (univ - set (mk_marked s))" if "new \<noteq> []"
      using that new marking_finite by (intro psubset_card_mono) (auto simp: neq_Nil_conv)
    then show ?thesis using more
      by (cases "new = []") (simp_all add: mark_step_def Let_def new_def [symmetric])
  qed
  have stop: "mark_inv P M (mark_run nbrs push P M) \<and> mk_pending (mark_run nbrs push P M) = []"
    unfolding mark_run_def
  proof (rule while_rule [where P = "mark_inv P M" and r = ?r])
    show "mark_inv P M \<lparr>mk_pending = P, mk_marked = M, mk_popped = []\<rparr>" by (simp add: mark_inv_def)
  qed (use mark_inv_step dec in auto)
  define t where "t = mark_run nbrs push P M"
  have t: "set M \<subseteq> set (mk_marked t)" "set (mk_marked t) \<subseteq> set M \<union> newly_marked nbrs P M"
    "set (mk_popped t) = set P \<union> (set (mk_marked t) - set M)" "\<And>x. x \<in> set (mk_popped t) \<Longrightarrow> set (nbrs x) \<subseteq> set (mk_marked t)"
    using stop by (auto simp: mark_inv_def t_def [symmetric])
  have "y \<in> set (mk_marked t) - set M" if "p \<in> set P" "(p, y) \<in> (avoid_rel (\<lambda>x. set (nbrs x)) (set M))\<^sup>+" for p y
    using that(2)
    by (induction rule: trancl_induct) (use that(1) t(3,4) in \<open>auto simp: avoid_rel_def\<close>)
  then have "newly_marked nbrs P M = set (mk_marked t) - set M" using t(2) by (auto simp: newly_marked_def)
  then show "set (mk_marked t) = set M \<union> newly_marked nbrs P M" "set (mk_popped t) = set P \<union> newly_marked nbrs P M"
    using t(1,3) by auto
  show "distinct (mk_popped t)" if "distinct P" "set P \<subseteq> set M"
    using stop that by (simp add: mark_inv_def t_def)
qed

end

section \<open>The second pass\<close>

text \<open>The roots come in reverse finishing order; a root not yet assigned collects its component.\<close>

definition scc_step :: "('a \<Rightarrow> 'a list) \<Rightarrow> ('a list \<Rightarrow> 'a list) \<Rightarrow> 'a \<Rightarrow> 'a list \<times> 'a list list \<Rightarrow> 'a list \<times> 'a list list" where
  "scc_step parents by_key start ac =
     (case ac of (assigned, comps) \<Rightarrow>
        if start \<in> set assigned then (assigned, comps)
        else (let s = mark_run parents lifo [start] (assigned @ [start])
              in (mk_marked s, comps @ [by_key (mk_popped s)])))"

definition scc_components :: "('a \<Rightarrow> 'a list) \<Rightarrow> ('a \<Rightarrow> 'a list) \<Rightarrow> ('a list \<Rightarrow> 'a list) \<Rightarrow> 'a list \<Rightarrow> 'a list list" where
  "scc_components children parents by_key starts =
     snd (fold (scc_step parents by_key) (rev (finish_order children starts)) ([], []))"

locale kosaraju = finite_digraph +
  fixes parents :: "'a \<Rightarrow> 'a list" and by_key :: "'a list \<Rightarrow> 'a list"
  assumes parents_children: "x \<in> set (parents y) \<longleftrightarrow> y \<in> set (children x)"
    and sources_univ: "set (parents y) \<subseteq> univ" and parents_distinct: "distinct (parents y)"
    and by_key_mset: "mset (by_key xs) = mset xs"
begin

sublocale parent_search: marking parents lifo univ
  by unfold_locales (simp_all add: finite_univ sources_univ parents_distinct lifo_def)

lemma by_key_facts [simp]: "set (by_key xs) = set xs" "distinct (by_key xs) = distinct xs"
  using by_key_mset [of xs] mset_eq_setD mset_eq_imp_distinct_iff by blast+

text \<open>What the second pass keeps: what is assigned is closed under parents and is the union of the components.\<close>

definition scc_inv :: "'a list \<times> 'a list list \<Rightarrow> bool" where
  "scc_inv ac \<longleftrightarrow>
     (case ac of (assigned, comps) \<Rightarrow>
        set assigned \<subseteq> univ \<and> set (concat comps) = set assigned \<and> distinct (concat comps) \<and>
        (\<forall>x. set (children x) \<inter> set assigned \<noteq> {} \<longrightarrow> x \<in> set assigned) \<and>
        (\<forall>c \<in> set comps. c \<noteq> [] \<and> (\<forall>x \<in> set c. set c = {y. same_scc children x y})) \<and>
        sorted_wrt (\<lambda>c d. \<forall>x \<in> set c. \<forall>y \<in> set d. (y, x) \<notin> (edges_of children)\<^sup>*) comps)"

lemma closed_ancestors:
  assumes "\<And>x. set (children x) \<inter> A \<noteq> {} \<Longrightarrow> x \<in> A" "(x, y) \<in> (edges_of children)\<^sup>*" "y \<in> A"
  shows "x \<in> A"
  using assms(2,3)
  by (induction rule: converse_rtrancl_induct) (use assms(1) in \<open>auto simp: edges_of_def\<close>)

text \<open>The nodes collected from \<open>s\<close> are those outside \<open>A\<close> that reach \<open>s\<close>.\<close>

lemma collected_reach:
  assumes closed: "\<And>x. set (children x) \<inter> set A \<noteq> {} \<Longrightarrow> x \<in> set A" and s: "s \<notin> set A"
  shows "v \<in> insert s (newly_marked parents [s] (A @ [s])) \<longleftrightarrow> v \<notin> set A \<and> (v, s) \<in> (edges_of children)\<^sup>*"
proof
  let ?R = "avoid_rel (\<lambda>x. set (parents x)) (set (A @ [s]))"
  have "v \<notin> set A \<and> (v, s) \<in> (edges_of children)\<^sup>*" if "(s, v) \<in> ?R\<^sup>+"
    using that
    by (induction rule: trancl_induct)
       (auto simp: avoid_rel_def parents_children edges_of_def intro: converse_rtrancl_into_rtrancl)
  then show "v \<in> insert s (newly_marked parents [s] (A @ [s])) \<Longrightarrow> v \<notin> set A \<and> (v, s) \<in> (edges_of children)\<^sup>*"
    using s by (auto simp: newly_marked_def)
  assume v: "v \<notin> set A \<and> (v, s) \<in> (edges_of children)\<^sup>*"
  have "v = s \<or> (s, v) \<in> ?R\<^sup>+" if "(v, s) \<in> (edges_of children)\<^sup>*" "v \<notin> set A"
    using that
  proof (induction rule: converse_rtrancl_induct)
    case (step v w)
    then have e: "w \<in> set (children v)" by (simp add: edges_of_def)
    then have "w \<notin> set A" using closed [of v] step.prems by blast
    then have w: "w = s \<or> (s, w) \<in> ?R\<^sup>+" using step.IH by blast
    show ?case
    proof (cases "v = s")
      case False
      then have "(w, v) \<in> ?R" using e step.prems by (simp add: avoid_rel_def parents_children)
      then show ?thesis using w by (auto intro: trancl_into_trancl)
    qed simp
  qed simp
  then show "v \<in> insert s (newly_marked parents [s] (A @ [s]))" using v by (auto simp: newly_marked_def)
qed

text \<open>In the finishing order they reach it through nodes that finished earlier, so they are its component.\<close>

lemma collected_before:
  assumes closed: "\<And>x. set (children x) \<inter> set A \<noteq> {} \<Longrightarrow> x \<in> set A" and fin: "fin = early @ s # late"
    and ok: "finish_ok children fin" "univ \<subseteq> set fin" and late: "set late \<subseteq> set A"
    and s: "s \<notin> set A" and v: "v \<notin> set A" "(v, s) \<in> (edges_of children)\<^sup>*"
  shows "(s, v) \<in> (edges_of children)\<^sup>*"
proof -
  have "v = s \<or> (v, s) \<in> (edges_in children (set early))\<^sup>+" using v(2,1)
  proof (induction rule: converse_rtrancl_induct)
    case (step v w)
    then have e: "w \<in> set (children v)" by (simp add: edges_of_def)
    have "w \<notin> set A" using closed [of v] e step.prems by blast
    then have w: "w = s \<or> (w, s) \<in> (edges_in children (set early))\<^sup>+" using step.IH by blast
    have "v \<in> set fin" using e ok(2) sources_univ [of w] parents_children [of v w] by blast
    then show ?case
      using w e late step.prems by (auto simp: fin edges_in_def intro: trancl_into_trancl2)
  qed simp
  then show ?thesis using ok(1) fin unfolding finish_ok_def by blast
qed

lemma scc_inv_step:
  assumes inv: "scc_inv (assigned, comps)" and fin: "fin = early @ s # late"
    and ok: "finish_ok children fin" "set fin = univ" and late: "set late \<subseteq> set assigned"
  shows "scc_inv (scc_step parents by_key s (assigned, comps)) \<and>
    insert s (set assigned) \<subseteq> set (fst (scc_step parents by_key s (assigned, comps)))"
proof (cases "s \<in> set assigned")
  case True
  then show ?thesis using inv by (simp add: scc_step_def)
next
  case False
  define t where "t = mark_run parents lifo [s] (assigned @ [s])"
  have su: "s \<in> univ" using fin ok(2) by auto
  have closed: "\<And>x. set (children x) \<inter> set assigned \<noteq> {} \<Longrightarrow> x \<in> set assigned" using inv by (simp add: scc_inv_def)
  have t: "set (mk_marked t) = set assigned \<union> set (mk_popped t)"
    "\<And>v. v \<in> set (mk_popped t) \<longleftrightarrow> v \<notin> set assigned \<and> (v, s) \<in> (edges_of children)\<^sup>*" "distinct (mk_popped t)"
    using parent_search.mark_run_spec [of "[s]" "assigned @ [s]"] su collected_reach [OF closed False]
    unfolding t_def by auto
  have sym: "v \<notin> set assigned \<and> (v, s) \<in> (edges_of children)\<^sup>* \<longleftrightarrow> same_scc children s v" for v
    using collected_before [OF closed fin ok(1) _ late False, of v] closed_ancestors [OF closed, of s v] False ok(2)
    by (auto simp: same_scc_def)
  have pop: "v \<in> set (mk_popped t) \<longleftrightarrow> same_scc children s v" for v using t(2) sym by blast
  have "set (mk_popped t) = {y. same_scc children x y}" if "x \<in> set (mk_popped t)" for x
    using that pop by (auto simp: same_scc_def intro: rtrancl_trans)
  moreover have "x \<in> set (mk_marked t)" if "set (children x) \<inter> set (mk_marked t) \<noteq> {}" for x
  proof -
    from that obtain w where "w \<in> set (children x)" "w \<in> set assigned \<or> (w, s) \<in> (edges_of children)\<^sup>*"
      using t(1,2) by blast
    then show ?thesis using closed [of x] t(1,2)
      by (auto simp: edges_of_def intro: converse_rtrancl_into_rtrancl)
  qed
  moreover have "(y, x) \<notin> (edges_of children)\<^sup>*" if "c \<in> set comps" "x \<in> set c" "y \<in> set (mk_popped t)" for c x y
  proof -
    have "x \<in> set assigned" using inv that(1,2) by (auto simp: scc_inv_def)
    then show ?thesis using that(3) t(2) closed_ancestors [OF closed] by blast
  qed
  moreover have "s \<in> set (mk_popped t)" using t(2) False by simp
  moreover from this have "s \<in> set (by_key (mk_popped t))" by simp
  then have "by_key (mk_popped t) \<noteq> []" by force
  moreover have "set (mk_popped t) \<inter> set assigned = {}" using t(2) by blast
  moreover have "set (mk_popped t) \<subseteq> univ"
  proof -
    have "v = s \<or> v \<in> univ" if "(v, s) \<in> (edges_of children)\<^sup>*" for v
      using that by (induction rule: converse_rtrancl_induct)
        (use sources_univ parents_children in \<open>auto simp: edges_of_def\<close>)
    then show ?thesis using t(2) su by blast
  qed
  moreover have "scc_step parents by_key s (assigned, comps) = (mk_marked t, comps @ [by_key (mk_popped t)])"
    using False by (simp add: scc_step_def t_def Let_def)
  ultimately show ?thesis
    using inv t(1,3) False by (auto simp: scc_inv_def sorted_wrt_append)
qed

lemma scc_components_spec:
  assumes "set starts = univ"
  shows "set (concat (scc_components children parents by_key starts)) = univ"
    and "distinct (concat (scc_components children parents by_key starts))"
    and "\<And>c x. c \<in> set (scc_components children parents by_key starts) \<Longrightarrow> x \<in> set c \<Longrightarrow>
           set c = {y. same_scc children x y}"
    and "sorted_wrt (\<lambda>c d. \<forall>x \<in> set c. \<forall>y \<in> set d. (y, x) \<notin> (edges_of children)\<^sup>*)
           (scc_components children parents by_key starts)"
    and "[] \<notin> set (scc_components children parents by_key starts)"
proof -
  define fin where "fin = finish_order children starts"
  have fin: "finish_ok children fin" "set fin = univ"
    using finish_order_spec [of starts] assms by (auto simp: fin_def)
  have "scc_inv (fold (scc_step parents by_key) xs ([], [])) \<and>
      set xs \<subseteq> set (fst (fold (scc_step parents by_key) xs ([], [])))" if "rev fin = xs @ ys" for xs ys
    using that
  proof (induction xs arbitrary: ys rule: rev_induct)
    case Nil
    then show ?case by (simp add: scc_inv_def)
  next
    case (snoc x xs)
    obtain a c where ac: "fold (scc_step parents by_key) xs ([], []) = (a, c)" by fastforce
    have "rev (rev fin) = rev (xs @ x # ys)" using snoc.prems by simp
    then have "fin = rev ys @ x # rev xs" by simp
    moreover have "scc_inv (a, c)" "set (rev xs) \<subseteq> set a" using snoc.IH [of "x # ys"] snoc.prems ac by auto
    ultimately show ?case
      using scc_inv_step [of a c fin "rev ys" x "rev xs"] fin ac by auto
  qed
  from this [of "rev fin" "[]"]
  have "scc_inv (fst (fold (scc_step parents by_key) (rev fin) ([], [])), scc_components children parents by_key starts)"
    "univ \<subseteq> set (fst (fold (scc_step parents by_key) (rev fin) ([], [])))"
    using fin(2) by (simp_all add: scc_components_def fin_def)
  then show "set (concat (scc_components children parents by_key starts)) = univ"
    "distinct (concat (scc_components children parents by_key starts))"
    "\<And>c x. c \<in> set (scc_components children parents by_key starts) \<Longrightarrow> x \<in> set c \<Longrightarrow>
           set c = {y. same_scc children x y}"
    "sorted_wrt (\<lambda>c d. \<forall>x \<in> set c. \<forall>y \<in> set d. (y, x) \<notin> (edges_of children)\<^sup>*)
           (scc_components children parents by_key starts)"
    "[] \<notin> set (scc_components children parents by_key starts)"
    by (auto simp: scc_inv_def)
qed

end

end
