(* ===== verification/ResourceDependencies.thy ===== *)
theory ResourceDependencies
  imports ResourceLifecycle SccSearch
begin

text \<open>
  \<open>resource_dependencies.py\<close>: the analysis of a dependency inventory (components, holds, snapshots, the
  order of what is eligible) and the evaluation of a custody claim.  A Python \<open>set\<close> is a list without
  repetitions; where the code iterates over one, only what is collected matters.  The digest that sorts
  resources and the digest of the canonical JSON are arguments.
\<close>

section \<open>Proofs\<close>

record diagnostic =
  diag_code :: string
  diag_subject :: string

definition diag :: "string \<Rightarrow> string \<Rightarrow> diagnostic" where
  "diag c s = \<lparr>diag_code = c, diag_subject = s\<rparr>"

fun proof_state_name :: "proof_state \<Rightarrow> string" where
  "proof_state_name Verified = ''verified''"
| "proof_state_name Unknown = ''unknown''"
| "proof_state_name Denied = ''denied''"
| "proof_state_name Contradictory = ''contradictory''"

definition proof_problem :: "int \<Rightarrow> Proof \<Rightarrow> string option" where
  "proof_problem now p =
     (if proof_state p \<noteq> Verified then Some (''proof_'' @ proof_state_name (proof_state p))
      else if proof_evidence p = [] then Some ''proof_missing_evidence''
      else (case (observed_at p, valid_until p) of
          (Some a, Some b) \<Rightarrow>
            if b < a then Some ''proof_invalid_window''
            else if a > now then Some ''proof_future''
            else if now > b then Some ''proof_stale''
            else None
        | _ \<Rightarrow> Some ''proof_missing_freshness''))"

text \<open>\<open>tuple(dict.fromkeys(xs))\<close>.\<close>

definition keep_first :: "'a list \<Rightarrow> 'a list" where
  "keep_first xs = rev (remdups (rev xs))"

definition combined :: "evidence_ref \<Rightarrow> int \<Rightarrow> bool \<Rightarrow> Proof list \<Rightarrow> Proof" where
  "combined ev now hold proofs =
     (if hold \<or> proofs = [] \<or> list_ex (\<lambda>p. proof_problem now p \<noteq> None) proofs
      then \<lparr>proof_state = Unknown, proof_evidence = [ev], observed_at = None, valid_until = None\<rparr>
      else \<lparr>proof_state = Verified, proof_evidence = keep_first (ev # concat (map proof_evidence proofs)),
             observed_at = Some (Max (set (List.map_filter observed_at proofs))),
             valid_until = Some (Min (set (List.map_filter valid_until proofs)))\<rparr>)"

section \<open>The graph\<close>

type_synonym clearances = "(resource_identity \<times> Proof) list"

definition node_list :: "registration list \<Rightarrow> dependency_edge list \<Rightarrow> resource_identity list" where
  "node_list regs edges = remdups (map reg_resource regs @ map edge_consumer edges @ map edge_provider edges)"

definition active :: "int \<Rightarrow> dependency_edge \<Rightarrow> bool" where
  "active now e \<longleftrightarrow> edge_state e \<noteq> EdgeReleased \<or> proof_problem now (edge_proof e) \<noteq> None"

definition graph_of :: "int \<Rightarrow> dependency_edge list \<Rightarrow> resource_identity \<Rightarrow> resource_identity list" where
  "graph_of now edges r = remdups (map edge_provider (filter (\<lambda>e. active now e \<and> edge_consumer e = r) edges))"

definition reverse_of :: "int \<Rightarrow> dependency_edge list \<Rightarrow> resource_identity \<Rightarrow> resource_identity list" where
  "reverse_of now edges r = remdups (map edge_consumer (filter (\<lambda>e. active now e \<and> edge_provider e = r) edges))"

definition clearance_of :: "clearances \<Rightarrow> resource_identity \<Rightarrow> Proof" where
  "clearance_of cls r = (case map_of cls r of None \<Rightarrow> unknown_proof | Some p \<Rightarrow> p)"

section \<open>Reasons\<close>

text \<open>What is known of the arguments of one analysis; \<open>dq_key\<close> stands for \<open>canonical_digest\<close>.\<close>

record dependency_query =
  dq_registrations :: "registration list"
  dq_owner :: owner
  dq_edges :: "dependency_edge list"
  dq_inventory :: Proof
  dq_clearances :: clearances
  dq_now :: int
  dq_key :: "resource_identity \<Rightarrow> string"

definition resources_of :: "dependency_query \<Rightarrow> resource_identity list" where
  "resources_of q = map reg_resource (dq_registrations q)"

definition nodes_of :: "dependency_query \<Rightarrow> resource_identity list" where
  "nodes_of q = node_list (dq_registrations q) (dq_edges q)"

definition node_reasons :: "dependency_query \<Rightarrow> resource_identity \<Rightarrow> string list" where
  "node_reasons q r =
     (if r \<notin> set (resources_of q) then [''dependency_registration_unknown''] else []) @
     (if res_owner r \<noteq> dq_owner q then [''foreign_owner''] else []) @
     (case proof_problem (dq_now q) (clearance_of (dq_clearances q) r) of None \<Rightarrow> [] | Some p \<Rightarrow> [p]) @
     (case proof_problem (dq_now q) (dq_inventory q) of None \<Rightarrow> [] | Some p \<Rightarrow> [''inventory_'' @ p])"

definition edge_reasons :: "dependency_query \<Rightarrow> resource_identity \<Rightarrow> string list" where
  "edge_reasons q r =
     map (\<lambda>e. if proof_problem (dq_now q) (edge_proof e) \<noteq> None \<or> edge_state e = EdgeUnknown
              then ''dependency_unknown'' else ''dependency_required'')
       (filter (\<lambda>e. active (dq_now q) e \<and> edge_provider e = r) (dq_edges q))"

definition components_of :: "dependency_query \<Rightarrow> resource_identity list list" where
  "components_of q =
     scc_components (\<lambda>r. sort_key (dq_key q) (graph_of (dq_now q) (dq_edges q) r))
       (\<lambda>r. sort_key (dq_key q) (reverse_of (dq_now q) (dq_edges q) r))
       (sort_key (dq_key q)) (sort_key (dq_key q) (nodes_of q))"

definition scc_held :: "dependency_query \<Rightarrow> resource_identity list \<Rightarrow> bool" where
  "scc_held q c \<longleftrightarrow> length c > 1 \<or> list_ex (\<lambda>r. r \<in> set (graph_of (dq_now q) (dq_edges q) r)) c"

definition direct_reasons :: "dependency_query \<Rightarrow> resource_identity \<Rightarrow> string list" where
  "direct_reasons q r =
     node_reasons q r @ edge_reasons q r @
     (if list_ex (\<lambda>c. r \<in> set c \<and> scc_held q c) (components_of q) then [''scc_held''] else [])"

text \<open>The nodes that get \<open>consumer_held\<close>.\<close>

definition consumer_held :: "dependency_query \<Rightarrow> resource_identity list" where
  "consumer_held q =
     mk_marked (mark_run (graph_of (dq_now q) (dq_edges q)) fifo
       (filter (\<lambda>r. direct_reasons q r \<noteq> []) (nodes_of q)) [])"

definition reasons_of :: "dependency_query \<Rightarrow> resource_identity \<Rightarrow> string list" where
  "reasons_of q r =
     sort (remdups (direct_reasons q r @ (if r \<in> set (consumer_held q) then [''consumer_held''] else [])))"

section \<open>Snapshots and order\<close>

definition ancestors_of :: "dependency_query \<Rightarrow> resource_identity \<Rightarrow> resource_identity list" where
  "ancestors_of q r = mk_marked (mark_run (reverse_of (dq_now q) (dq_edges q)) lifo [r] [r])"

definition snapshot_of :: "dependency_query \<Rightarrow> evidence_ref \<Rightarrow> resource_identity list \<Rightarrow> resource_identity \<Rightarrow> dependency_snapshot" where
  "snapshot_of q ev component r =
     (let relevant = filter (\<lambda>e. edge_provider e \<in> set (ancestors_of q r)) (dq_edges q);
          proofs = dq_inventory q # clearance_of (dq_clearances q) r # map edge_proof relevant;
          p = combined ev (dq_now q) (reasons_of q r \<noteq> []) proofs
      in \<lparr>dep_edges = relevant, dep_inventory_complete = dq_inventory q, dep_no_live_consumers = p,
          dep_scc_clear = p, dep_members = component\<rparr>)"

definition ready_batch :: "(resource_identity \<Rightarrow> string) \<Rightarrow> dependency_edge list \<Rightarrow> resource_identity list \<Rightarrow> resource_identity list" where
  "ready_batch key edges el =
     (let ready = sort_key key (filter (\<lambda>r. \<not> list_ex (\<lambda>e. edge_provider e = r \<and> edge_consumer e \<in> set el \<and>
            edge_consumer e \<noteq> r) edges) el)
      in if ready = [] then [arg_min_list key el] else ready)"

lemma ready_batch_mem:
  assumes "el \<noteq> []"
  shows "ready_batch key edges el \<noteq> []" "set (ready_batch key edges el) \<subseteq> set el"
  using arg_min_list_in [OF assms, of key] by (auto simp: ready_batch_def Let_def)

function eligible_order :: "(resource_identity \<Rightarrow> string) \<Rightarrow> dependency_edge list \<Rightarrow> resource_identity list \<Rightarrow> resource_identity list" where
  "eligible_order key edges el =
     (if el = [] then []
      else (let batch = ready_batch key edges el
            in batch @ eligible_order key edges (filter (\<lambda>r. r \<notin> set batch) el)))"
  by pat_completeness auto
termination
proof (relation "measure (\<lambda>(key, edges, el). length el)")
  show "((key, edges, filter (\<lambda>r. r \<notin> set x) el), key, edges, el) \<in> measure (\<lambda>(key, edges, el). length el)"
    if "el \<noteq> []" "x = ready_batch key edges el" for key edges el x
  proof -
    have "hd x \<in> set el" "hd x \<in> set x" using ready_batch_mem [OF that(1), of key edges] that(2) hd_in_set by auto
    then show ?thesis using length_filter_less [of "hd x" el "\<lambda>r. r \<notin> set x"] by simp
  qed
qed simp

declare eligible_order.simps [simp del]

record dependency_analysis =
  an_snapshots :: "(resource_identity \<times> dependency_snapshot) list"
  an_order :: "resource_identity list"
  an_components :: "resource_identity list list"
  an_holds :: "diagnostic list"
  an_evidence :: evidence_ref

text \<open>\<open>aware\<close> says whether the time of the query has an offset; \<open>digest\<close> is the evidence of the payload.\<close>

definition analyze_dependencies :: "(dependency_query \<Rightarrow> evidence_ref) \<Rightarrow> bool \<Rightarrow> dependency_query \<Rightarrow> dependency_analysis result" where
  "analyze_dependencies digest aware q =
     (if \<not> aware then Inl ValueError
      else if \<not> distinct (resources_of q) then Inl ValueError
      else
        (let ev = digest q
         in Inr \<lparr>an_snapshots = concat (map (\<lambda>c. map (\<lambda>r. (r, snapshot_of q ev c r))
                   (filter (\<lambda>r. r \<in> set (resources_of q)) c)) (components_of q)),
                 an_order = eligible_order (dq_key q) (dq_edges q) (filter (\<lambda>r. reasons_of q r = []) (resources_of q)),
                 an_components = components_of q,
                 an_holds = concat (map (\<lambda>r. map (\<lambda>c. diag c (res_identity r)) (reasons_of q r))
                   (sort_key (dq_key q) (nodes_of q))),
                 an_evidence = ev\<rparr>))"

section \<open>Custody\<close>

record custody_result =
  cr_custody :: "custody_ack option"
  cr_proof :: Proof
  cr_holds :: "diagnostic list"

definition when_diag :: "bool \<Rightarrow> string \<Rightarrow> string \<Rightarrow> diagnostic list" where
  "when_diag b c s = (if b then [diag c s] else [])"

definition custody_proof_diags :: "int \<Rightarrow> custody_ack \<Rightarrow> string \<times> Proof option \<Rightarrow> diagnostic list" where
  "custody_proof_diags now cus np =
     (case np of
        (name, None) \<Rightarrow> []
      | (name, Some p) \<Rightarrow>
          (case proof_problem now p of None \<Rightarrow> [] | Some c \<Rightarrow> [diag c (''custody.'' @ name)]) @
          when_diag (name \<noteq> ''acknowledgement'' \<and> \<not> list_ex (\<lambda>e. e \<noteq> cus_archive cus) (proof_evidence p))
            ''custody_audit_missing'' (''custody.'' @ name))"

definition custody_diags :: "registration \<Rightarrow> custody_ack \<Rightarrow> owner \<Rightarrow> evidence_ref option \<Rightarrow> int \<Rightarrow> diagnostic list" where
  "custody_diags reg cus own archive now =
     when_diag (res_owner (reg_resource reg) \<noteq> own) ''foreign_owner'' ''custody'' @
     when_diag (cus_resource cus \<noteq> reg_resource reg) ''custody_resource_mismatch'' ''custody.resource'' @
     when_diag (cus_source cus \<noteq> reg_source reg) ''custody_source_mismatch'' ''custody.source'' @
     when_diag (archive \<noteq> Some (cus_archive cus)) ''custody_archive_mismatch'' ''custody.archive'' @
     when_diag (\<not> list_all (\<lambda>x. x \<in> set (cus_scope cus)) (required_scope reg)) ''custody_scope_missing'' ''custody.scope'' @
     when_diag (is_git_source (reg_source reg) \<and> cus_fsck cus = None) ''custody_fsck_missing'' ''custody.restored_fsck'' @
     concat (map (custody_proof_diags now cus)
       [(''acknowledgement'', Some (cus_acknowledgement cus)), (''fidelity'', Some (cus_fidelity cus)),
        (''restored_fsck'', cus_fsck cus)])"

definition custody_proofs :: "registration \<Rightarrow> custody_ack \<Rightarrow> Proof list" where
  "custody_proofs reg cus =
     [cus_acknowledgement cus, cus_fidelity cus] @
     (case cus_fsck cus of Some p \<Rightarrow> if is_git_source (reg_source reg) then [p] else [] | None \<Rightarrow> [])"

definition evaluate_custody ::
    "(registration \<Rightarrow> custody_ack \<Rightarrow> evidence_ref option \<Rightarrow> evidence_ref) \<Rightarrow> registration \<Rightarrow> custody_ack option \<Rightarrow>
     owner \<Rightarrow> evidence_ref option \<Rightarrow> int option \<Rightarrow> custody_result result" where
  "evaluate_custody digest reg custody own archive now =
     with_aware_now now (\<lambda>t.
       (case custody of
          None \<Rightarrow> \<lparr>cr_custody = None, cr_proof = unknown_proof,
              cr_holds = when_diag (res_owner (reg_resource reg) \<noteq> own) ''foreign_owner'' ''custody'' @
                [diag ''custody_missing'' ''custody'']\<rparr>
        | Some cus \<Rightarrow>
            (let holds = custody_diags reg cus own archive t
             in \<lparr>cr_custody = Some cus,
                 cr_proof = combined (digest reg cus archive) t (holds \<noteq> []) (custody_proofs reg cus),
                 cr_holds = holds\<rparr>)))"

section \<open>Lemmas on proofs\<close>

lemma proof_problem_None: "proof_problem now p = None \<longleftrightarrow> fresh now p"
  by (auto simp: proof_problem_def fresh_def split: option.splits)

lemma keep_first_Cons [simp]: "keep_first (x # xs) \<noteq> []"
  by (simp add: keep_first_def)

lemma set_map_filter_Some: "\<forall>x \<in> set xs. f x = Some (g x) \<Longrightarrow> set (List.map_filter f xs) = g ` set xs"
  by (induction xs) (auto simp: List.map_filter_simps)

text \<open>A combined proof is fresh when all its parts were fresh at its making and still are.\<close>

lemma fresh_combined:
  "fresh t (combined ev now hold ps) \<longleftrightarrow> \<not> hold \<and> ps \<noteq> [] \<and> (\<forall>p \<in> set ps. fresh now p \<and> fresh t p)"
proof (cases "hold \<or> ps = [] \<or> (\<exists>p \<in> set ps. \<not> fresh now p)")
  case True
  then show ?thesis
    by (auto simp: combined_def list_ex_iff proof_problem_None fresh_def [of t] simp del: not_None_eq)
next
  case False
  define a where "a p = the (observed_at p)" for p :: Proof
  define b where "b p = the (valid_until p)" for p :: Proof
  have ok: "\<forall>p \<in> set ps. proof_state p = Verified \<and> proof_evidence p \<noteq> [] \<and> observed_at p = Some (a p) \<and> valid_until p = Some (b p)"
    using False by (auto simp: fresh_def a_def b_def)
  then have ab: "set (List.map_filter observed_at ps) = a ` set ps" "set (List.map_filter valid_until ps) = b ` set ps"
    by (simp_all add: set_map_filter_Some)
  have "combined ev now hold ps =
      \<lparr>proof_state = Verified, proof_evidence = keep_first (ev # concat (map proof_evidence ps)),
       observed_at = Some (Max (a ` set ps)), valid_until = Some (Min (b ` set ps))\<rparr>"
    using False by (auto simp: combined_def list_ex_iff proof_problem_None ab)
  then have "fresh t (combined ev now hold ps) \<longleftrightarrow> Max (a ` set ps) \<le> t \<and> t \<le> Min (b ` set ps)"
    by (simp add: fresh_def)
  also have "\<dots> \<longleftrightarrow> (\<forall>p \<in> set ps. a p \<le> t \<and> t \<le> b p)" using False by auto
  also have "\<dots> \<longleftrightarrow> (\<forall>p \<in> set ps. fresh t p)" using ok by (auto simp: fresh_def)
  finally show ?thesis using False by blast
qed

section \<open>The graph is the relation of active edges\<close>

definition active_rel :: "dependency_query \<Rightarrow> (resource_identity \<times> resource_identity) set" where
  "active_rel q = {(edge_consumer e, edge_provider e) |e. e \<in> set (dq_edges q) \<and> active (dq_now q) e}"

lemma graph_mem: "p \<in> set (graph_of (dq_now q) (dq_edges q) c) \<longleftrightarrow> (c, p) \<in> active_rel q"
  by (auto simp: graph_of_def active_rel_def)

lemma reverse_mem: "c \<in> set (reverse_of (dq_now q) (dq_edges q) p) \<longleftrightarrow> (c, p) \<in> active_rel q"
  by (auto simp: reverse_of_def active_rel_def)

lemma active_nodes: "(c, p) \<in> active_rel q \<Longrightarrow> c \<in> set (nodes_of q) \<and> p \<in> set (nodes_of q)"
  by (auto simp: active_rel_def nodes_of_def node_list_def)

lemma graph_distinct [simp]:
  "distinct (graph_of now es r)" "distinct (reverse_of now es r)" "distinct (nodes_of q)"
  by (simp_all add: graph_of_def reverse_of_def nodes_of_def node_list_def)

interpretation dependency_scc: kosaraju "\<lambda>r. sort_key (dq_key q) (graph_of (dq_now q) (dq_edges q) r)" "set (nodes_of q)"
  "\<lambda>r. sort_key (dq_key q) (reverse_of (dq_now q) (dq_edges q) r)" "sort_key (dq_key q)" for q
  by unfold_locales (auto simp: graph_mem reverse_mem dest: active_nodes)

interpretation hold_search: marking "graph_of (dq_now q) (dq_edges q)" fifo "set (nodes_of q)" for q
  by unfold_locales (auto simp: graph_mem fifo_def dest: active_nodes)

interpretation consumer_search: marking "reverse_of (dq_now q) (dq_edges q)" lifo "insert r (set (nodes_of q))" for q r
  by unfold_locales (auto simp: reverse_mem lifo_def dest: active_nodes)

lemma edges_of_graph: "edges_of (\<lambda>r. sort_key (dq_key q) (graph_of (dq_now q) (dq_edges q) r)) = active_rel q"
  by (auto simp: edges_of_def graph_mem)

definition same_component :: "dependency_query \<Rightarrow> resource_identity \<Rightarrow> resource_identity \<Rightarrow> bool" where
  "same_component q x y \<longleftrightarrow> (x, y) \<in> (active_rel q)\<^sup>* \<and> (y, x) \<in> (active_rel q)\<^sup>*"

lemma components_spec:
  "set (concat (components_of q)) = set (nodes_of q)" "distinct (concat (components_of q))"
  "c \<in> set (components_of q) \<Longrightarrow> x \<in> set c \<Longrightarrow> set c = {y. same_component q x y}"
  "sorted_wrt (\<lambda>c d. \<forall>x \<in> set c. \<forall>y \<in> set d. (y, x) \<notin> (active_rel q)\<^sup>*) (components_of q)"
  "[] \<notin> set (components_of q)"
  using dependency_scc.scc_components_spec [of "sort_key (dq_key q) (nodes_of q)" q]
  unfolding components_of_def same_component_def same_scc_def edges_of_graph by simp_all

lemma set_ancestors: "set (ancestors_of q r) = {a. (a, r) \<in> (active_rel q)\<^sup>*}"
proof -
  have "newly_marked (\<lambda>r. sort_key (dq_key q) (reverse_of (dq_now q) (dq_edges q) r)) [r] [r] =
      newly_marked (reverse_of (dq_now q) (dq_edges q)) [r] [r]"
    by (simp add: newly_marked_def)
  then show ?thesis
    using consumer_search.mark_run_spec(1) [where P = "[r]" and M = "[r]" and r = r and q = q]
      dependency_scc.collected_reach [where A = "[]" and s = r and q = q]
    by (auto simp: ancestors_of_def edges_of_graph)
qed

section \<open>Who is held\<close>

lemma set_consumer_held:
  "set (consumer_held q) = {p. \<exists>r \<in> set (nodes_of q). direct_reasons q r \<noteq> [] \<and> (r, p) \<in> (active_rel q)\<^sup>+}"
proof -
  have "avoid_rel (\<lambda>x. set (graph_of (dq_now q) (dq_edges q) x)) {} = active_rel q"
    by (auto simp: avoid_rel_def graph_mem)
  then show ?thesis
    using hold_search.mark_run_spec(1) [where P = "filter (\<lambda>r. direct_reasons q r \<noteq> []) (nodes_of q)" and M = "[]" and q = q]
    by (auto simp: consumer_held_def newly_marked_def)
qed

lemma edge_reasons_Nil: "edge_reasons q r = [] \<longleftrightarrow> (\<forall>c. (c, r) \<notin> active_rel q)"
  by (auto simp: edge_reasons_def active_rel_def filter_empty_conv)

lemma alone_in_component:
  assumes "c \<in> set (components_of q)" "r \<in> set c" "\<forall>x. (x, r) \<notin> active_rel q"
  shows "c = [r]"
proof -
  have "y = r" if "y \<in> set c" for y
  proof -
    have "(y, r) \<in> (active_rel q)\<^sup>*" using components_spec(3) [OF assms(1,2)] that by (auto simp: same_component_def)
    then show ?thesis using assms(3) by (auto elim: rtranclE)
  qed
  then have "set c = {r}" using assms(2) by blast
  moreover have "distinct c" using components_spec(2) assms(1) by (simp add: distinct_concat_iff)
  ultimately show ?thesis
  proof (cases c)
    case (Cons a d)
    then have "a = r" "set d \<subseteq> {r}" "r \<notin> set d" using \<open>set c = {r}\<close> \<open>distinct c\<close> by auto
    then have "d = []" by (cases d) auto
    then show ?thesis using Cons \<open>a = r\<close> by simp
  qed simp
qed

lemma direct_reasons_Nil:
  "direct_reasons q r = [] \<longleftrightarrow> node_reasons q r = [] \<and> (\<forall>c. (c, r) \<notin> active_rel q)"
proof (cases "\<forall>c. (c, r) \<notin> active_rel q")
  case True
  then have "c = [r]" if "c \<in> set (components_of q)" "r \<in> set c" for c using alone_in_component that by blast
  then have "\<not> list_ex (\<lambda>c. r \<in> set c \<and> scc_held q c) (components_of q)"
    using True by (force simp: list_ex_iff scc_held_def graph_mem)
  then show ?thesis using True by (simp add: direct_reasons_def edge_reasons_Nil)
next
  case False
  then show ?thesis by (auto simp: direct_reasons_def edge_reasons_Nil)
qed

lemma node_reasons_Nil:
  "node_reasons q r = [] \<longleftrightarrow> r \<in> set (resources_of q) \<and> res_owner r = dq_owner q \<and>
     fresh (dq_now q) (clearance_of (dq_clearances q) r) \<and> fresh (dq_now q) (dq_inventory q)"
  by (auto simp: node_reasons_def proof_problem_None [symmetric] split: option.splits)

lemma reasons_Nil:
  "reasons_of q r = [] \<longleftrightarrow> node_reasons q r = [] \<and> (\<forall>c. (c, r) \<notin> active_rel q)"
proof -
  have "reasons_of q r = [] \<longleftrightarrow> direct_reasons q r = [] \<and> r \<notin> set (consumer_held q)"
    by (simp add: reasons_of_def flip: set_empty)
  also have "\<dots> \<longleftrightarrow> node_reasons q r = [] \<and> (\<forall>c. (c, r) \<notin> active_rel q)"
    by (auto simp: direct_reasons_Nil set_consumer_held elim: tranclE)
  finally show ?thesis .
qed

lemma not_active: "(\<forall>c. (c, r) \<notin> active_rel q) \<longleftrightarrow>
  (\<forall>e \<in> set (dq_edges q). edge_provider e = r \<longrightarrow> edge_state e = EdgeReleased \<and> fresh (dq_now q) (edge_proof e))"
  by (auto simp: active_rel_def active_def proof_problem_None [symmetric])

section \<open>The order\<close>

text \<open>\<open>precedes edges A\<close> has \<open>(c, p)\<close> when \<open>c\<close> consumes \<open>p\<close>, in any state, both in \<open>A\<close>.\<close>

definition precedes :: "dependency_edge list \<Rightarrow> resource_identity set \<Rightarrow> (resource_identity \<times> resource_identity) set" where
  "precedes edges A = {(edge_consumer e, edge_provider e) |e. e \<in> set edges \<and> edge_consumer e \<noteq> edge_provider e \<and>
     edge_consumer e \<in> A \<and> edge_provider e \<in> A}"

lemma precedes_mono: "A \<subseteq> B \<Longrightarrow> precedes edges A \<subseteq> precedes edges B"
  by (auto simp: precedes_def)

lemma sort_key_Nil: "sort_key k xs = [] \<longleftrightarrow> xs = []"
  by (metis set_empty set_sort)

lemma ready_batch_first:
  assumes "el \<noteq> []" and acyc: "acyclic (precedes edges (set el))" and "x \<in> set (ready_batch key edges el)"
  shows "(y, x) \<notin> precedes edges (set el)"
proof -
  have fin: "finite (precedes edges (set el))"
    by (rule finite_subset [of _ "set el \<times> set el"]) (auto simp: precedes_def)
  then have wf: "wf (precedes edges (set el))" using acyc finite_acyclic_wf by blast
  obtain z where z: "z \<in> set el" "\<And>y. (y, z) \<in> precedes edges (set el) \<Longrightarrow> y \<notin> set el"
    using wfE_min [OF wf hd_in_set [OF assms(1)]] by blast
  let ?ready = "filter (\<lambda>r. \<not> list_ex (\<lambda>e. edge_provider e = r \<and> edge_consumer e \<in> set el \<and> edge_consumer e \<noteq> r) edges) el"
  have "False" if "e \<in> set edges" "edge_provider e = z" "edge_consumer e \<in> set el" "edge_consumer e \<noteq> z" for e
  proof -
    have "(edge_consumer e, z) \<in> precedes edges (set el)" unfolding precedes_def using that z(1) by blast
    then show False using z(2) that(3) by blast
  qed
  then have "z \<in> set ?ready" using z(1) by (simp add: list_ex_iff) blast
  then have "sort_key key ?ready \<noteq> []" unfolding sort_key_Nil by (rule length_pos_if_in_set [THEN length_greater_0_conv [THEN iffD1]])
  then have "x \<in> set ?ready" using assms(3) by (simp add: ready_batch_def Let_def)
  then show ?thesis by (auto simp: list_ex_iff precedes_def)
qed

lemma eligible_order_perm:
  "distinct el \<Longrightarrow> set (eligible_order key edges el) = set el \<and> distinct (eligible_order key edges el)"
proof (induction key edges el rule: eligible_order.induct)
  case (1 key edges el)
  show ?case
  proof (cases "el = []")
    case False
    have "distinct (ready_batch key edges el)" using "1.prems" by (simp add: ready_batch_def Let_def)
    then show ?thesis
      using "1.IH" [OF False refl] "1.prems" ready_batch_mem [OF False, of key edges]
      by (subst (1 2) eligible_order.simps) (auto simp: Let_def)
  qed (simp add: eligible_order.simps)
qed

lemma eligible_order_sorted:
  "distinct el \<Longrightarrow> acyclic (precedes edges (set el)) \<Longrightarrow>
   sorted_wrt (\<lambda>x y. (y, x) \<notin> precedes edges (set el)) (eligible_order key edges el)"
proof (induction key edges el rule: eligible_order.induct)
  case (1 key edges el)
  show ?case
  proof (cases "el = []")
    case False
    define batch where "batch = ready_batch key edges el"
    define rest where "rest = filter (\<lambda>r. r \<notin> set batch) el"
    have eq: "eligible_order key edges el = batch @ eligible_order key edges rest"
      using False by (subst eligible_order.simps) (simp add: Let_def batch_def rest_def)
    have sub: "precedes edges (set rest) \<subseteq> precedes edges (set el)" by (rule precedes_mono) (simp add: rest_def)
    have "sorted_wrt (\<lambda>x y. (y, x) \<notin> precedes edges (set rest)) (eligible_order key edges rest)"
      using "1.IH" [OF False batch_def] "1.prems" acyclic_subset [OF _ sub] by (simp add: rest_def)
    moreover have "set (eligible_order key edges rest) = set rest"
      using eligible_order_perm [of rest] "1.prems"(1) by (simp add: rest_def)
    ultimately have "sorted_wrt (\<lambda>x y. (y, x) \<notin> precedes edges (set el)) (eligible_order key edges rest)"
      by (elim sorted_wrt_mono_rel [rotated]) (auto simp: precedes_def)
    moreover have "\<forall>x \<in> set batch. \<forall>y. (y, x) \<notin> precedes edges (set el)"
      using ready_batch_first [OF False "1.prems"(2)] by (simp add: batch_def)
    moreover have "sorted_wrt (\<lambda>x y. (y, x) \<notin> precedes edges (set el)) batch"
      by (rule sorted_wrt_mono_rel [of _ "\<lambda>_ _. True"]) (use calculation(2) in auto)
    ultimately show ?thesis by (auto simp: eq sorted_wrt_append)
  qed (simp add: eligible_order.simps)
qed

end
