(* ===== verification/DependencyProperties.thy ===== *)
theory DependencyProperties
  imports ResourceDependencies
begin

text \<open>
  What the dependency analysis (\<open>resource_dependencies.py\<close>) promises, alone and to the retention
  admission of \<open>ResourceLifecycle\<close>, which reads its snapshots and custody claims.
\<close>

section \<open>An inventory\<close>

definition sample_proof :: Proof where
  "sample_proof = \<lparr>proof_state = Verified, proof_evidence = [\<lparr>ev_ref = ''ev:1'', ev_digest = ''d''\<rparr>],
     observed_at = Some 10, valid_until = Some 90\<rparr>"

definition sample_resource :: "string \<Rightarrow> resource_identity" where
  "sample_resource n = \<lparr>res_owner = \<lparr>repository = ''repo:x''\<rparr>, res_kind = Directory, res_identity = n\<rparr>"

definition sample_registration :: "string \<Rightarrow> registration" where
  "sample_registration n = \<lparr>reg_resource = sample_resource n, reg_source = GitSource ''r'' ''t'', reg_operation = Retire,
     reg_policy = ''v1'', reg_evidence = [\<lparr>ev_ref = ''ev:1'', ev_digest = ''d''\<rparr>],
     reg_correlation = \<lparr>cor_workbay = None, cor_orca = None, cor_join = None\<rparr>, reg_stream = None\<rparr>"

definition sample_edge :: "string \<Rightarrow> string \<Rightarrow> edge_state \<Rightarrow> dependency_edge" where
  "sample_edge c p s = \<lparr>edge_consumer = sample_resource c, edge_provider = sample_resource p, edge_relation = RelSymlink,
     edge_state = s, edge_proof = sample_proof\<rparr>"

text \<open>\<open>b\<close> is released by \<open>a\<close>; \<open>c\<close> and \<open>d\<close> require each other.\<close>

definition sample_query :: dependency_query where
  "sample_query = \<lparr>dq_registrations = map sample_registration [''b'', ''a'', ''c'', ''d''], dq_owner = \<lparr>repository = ''repo:x''\<rparr>,
     dq_edges = [sample_edge ''a'' ''b'' EdgeReleased, sample_edge ''c'' ''d'' EdgeRequired, sample_edge ''d'' ''c'' EdgeRequired],
     dq_inventory = sample_proof,
     dq_clearances = map (\<lambda>n. (sample_resource n, sample_proof)) [''a'', ''b'', ''c'', ''d''],
     dq_now = 50, dq_key = res_identity\<rparr>"

definition sample_digest :: "dependency_query \<Rightarrow> evidence_ref" where
  "sample_digest q = \<lparr>ev_ref = ''r1-analysis:0'', ev_digest = ''sha256:0''\<rparr>"

lemma sample_result:
  obtains a where "analyze_dependencies sample_digest True sample_query = Inr a"
    "an_components a = map (map sample_resource) [[''c'', ''d''], [''b''], [''a'']]"
    "an_order a = map sample_resource [''a'', ''b'']"
    "map fst (an_snapshots a) = map sample_resource [''c'', ''d'', ''b'', ''a'']"
    "an_holds a = [diag ''consumer_held'' ''c'', diag ''dependency_required'' ''c'', diag ''scc_held'' ''c'',
       diag ''consumer_held'' ''d'', diag ''dependency_required'' ''d'', diag ''scc_held'' ''d'']"
proof -
  have "case analyze_dependencies sample_digest True sample_query of Inl e \<Rightarrow> False
    | Inr a \<Rightarrow> an_components a = map (map sample_resource) [[''c'', ''d''], [''b''], [''a'']] \<and>
        an_order a = map sample_resource [''a'', ''b''] \<and>
        map fst (an_snapshots a) = map sample_resource [''c'', ''d'', ''b'', ''a''] \<and>
        an_holds a = [diag ''consumer_held'' ''c'', diag ''dependency_required'' ''c'', diag ''scc_held'' ''c'',
          diag ''consumer_held'' ''d'', diag ''dependency_required'' ''d'', diag ''scc_held'' ''d'']"
    by code_simp
  then show thesis using that by (auto split: sum.splits)
qed

section \<open>The analysis\<close>

lemma analysis_Inr:
  "analyze_dependencies digest True q = Inr a \<longleftrightarrow> distinct (resources_of q) \<and>
     a = \<lparr>an_snapshots = concat (map (\<lambda>c. map (\<lambda>r. (r, snapshot_of q (digest q) c r))
            (filter (\<lambda>r. r \<in> set (resources_of q)) c)) (components_of q)),
          an_order = eligible_order (dq_key q) (dq_edges q) (filter (\<lambda>r. reasons_of q r = []) (resources_of q)),
          an_components = components_of q,
          an_holds = concat (map (\<lambda>r. map (\<lambda>c. diag c (res_identity r)) (reasons_of q r))
            (sort_key (dq_key q) (nodes_of q))),
          an_evidence = digest q\<rparr>"
  by (auto simp: analyze_dependencies_def Let_def)

definition eligible :: "dependency_query \<Rightarrow> resource_identity \<Rightarrow> bool" where
  "eligible q r \<longleftrightarrow> r \<in> set (resources_of q) \<and> res_owner r = dq_owner q \<and>
     fresh (dq_now q) (dq_inventory q) \<and> fresh (dq_now q) (clearance_of (dq_clearances q) r) \<and>
     (\<forall>e \<in> set (dq_edges q). edge_provider e = r \<longrightarrow> edge_state e = EdgeReleased \<and> fresh (dq_now q) (edge_proof e))"

lemma eligible_reasons: "reasons_of q r = [] \<longleftrightarrow> eligible q r"
  by (auto simp: reasons_Nil node_reasons_Nil not_active eligible_def)

lemma order_eligible:
  assumes "analyze_dependencies digest True q = Inr a"
  shows "set (an_order a) = {r. eligible q r}" "distinct (an_order a)"
proof -
  let ?el = "filter (\<lambda>r. reasons_of q r = []) (resources_of q)"
  have "an_order a = eligible_order (dq_key q) (dq_edges q) ?el" "distinct ?el"
    using assms by (simp_all add: analysis_Inr)
  moreover have "set ?el = {r. eligible q r}" by (auto simp: eligible_reasons eligible_def)
  ultimately show "set (an_order a) = {r. eligible q r}" "distinct (an_order a)"
    using eligible_order_perm [where el = ?el and key = "dq_key q" and edges = "dq_edges q"] by simp_all
qed

text \<open>
  C8 (equivalence): the components are the strongly connected components of the graph of active edges
  (required, unknown, or without a fresh proof), each resource in exactly one, and they are listed
  consumers first: no component reaches an earlier one.
\<close>

theorem components_are_sccs:
  assumes "analyze_dependencies digest True q = Inr a"
  shows "set (concat (an_components a)) = set (nodes_of q) \<and> distinct (concat (an_components a)) \<and>
    (\<forall>c \<in> set (an_components a). \<forall>x \<in> set c. set c = {y. (x, y) \<in> (active_rel q)\<^sup>* \<and> (y, x) \<in> (active_rel q)\<^sup>*}) \<and>
    sorted_wrt (\<lambda>c d. \<forall>x \<in> set c. \<forall>y \<in> set d. (y, x) \<notin> (active_rel q)\<^sup>*) (an_components a)"
  using components_spec [where q = q] assms unfolding analysis_Inr same_component_def by simp

theorem components_are_sccs_witness:
  "(sample_resource ''c'', sample_resource ''d'') \<in> (active_rel sample_query)\<^sup>* \<and>
   (sample_resource ''d'', sample_resource ''a'') \<notin> (active_rel sample_query)\<^sup>* \<inter> ((active_rel sample_query)\<^sup>*)\<inverse>"
proof -
  obtain a where a: "analyze_dependencies sample_digest True sample_query = Inr a"
    "an_components a = map (map sample_resource) [[''c'', ''d''], [''b''], [''a'']]"
    by (rule sample_result)
  have "set (map sample_resource [''c'', ''d'']) = {y. (sample_resource ''c'', y) \<in> (active_rel sample_query)\<^sup>* \<and> (y, sample_resource ''c'') \<in> (active_rel sample_query)\<^sup>*}"
    "set (map sample_resource [''c'', ''d'']) = {y. (sample_resource ''d'', y) \<in> (active_rel sample_query)\<^sup>* \<and> (y, sample_resource ''d'') \<in> (active_rel sample_query)\<^sup>*}"
    using components_are_sccs [OF a(1)] unfolding a(2) by auto
  moreover have "sample_resource ''a'' \<notin> set (map sample_resource [''c'', ''d''])" by (simp add: sample_resource_def)
  ultimately show ?thesis by auto
qed

text \<open>
  C9 (safety): a resource is in the eligible order, once, exactly when it is registered under the owner,
  the inventory and its clearance are fresh, and every edge to it is released with a fresh proof; when
  what is eligible has no cycle of edges, released ones included, consumers come before their providers.
\<close>

theorem eligible_exactly:
  assumes "analyze_dependencies digest True q = Inr a"
  shows "(r \<in> set (an_order a) \<longleftrightarrow> eligible q r) \<and> distinct (an_order a) \<and>
    (acyclic (precedes (dq_edges q) {r. eligible q r}) \<longrightarrow>
      sorted_wrt (\<lambda>x y. (y, x) \<notin> precedes (dq_edges q) {r. eligible q r}) (an_order a))"
proof -
  let ?el = "filter (\<lambda>r. reasons_of q r = []) (resources_of q)"
  have "an_order a = eligible_order (dq_key q) (dq_edges q) ?el" "distinct ?el"
    using assms by (simp_all add: analysis_Inr)
  moreover have "set ?el = {r. eligible q r}" by (auto simp: eligible_reasons eligible_def)
  ultimately show ?thesis
    using order_eligible [OF assms] eligible_order_sorted [where el = ?el and key = "dq_key q" and edges = "dq_edges q"]
    by simp
qed

theorem eligible_exactly_witness:
  "eligible sample_query (sample_resource ''b'') \<and> \<not> eligible sample_query (sample_resource ''c'')"
proof -
  obtain a where a: "analyze_dependencies sample_digest True sample_query = Inr a" "an_order a = map sample_resource [''a'', ''b'']"
    by (rule sample_result)
  show ?thesis
    using eligible_exactly [OF a(1), of "sample_resource ''b''"] eligible_exactly [OF a(1), of "sample_resource ''c''"] a(2)
    by (simp add: sample_resource_def)
qed

lemma snapshot_mem:
  assumes "analyze_dependencies digest True q = Inr a"
  shows "(r, s) \<in> set (an_snapshots a) \<longleftrightarrow> r \<in> set (resources_of q) \<and>
     (\<exists>c \<in> set (components_of q). r \<in> set c \<and> s = snapshot_of q (digest q) c r)"
  using assms by (auto simp: analysis_Inr)

lemma snapshot_clear:
  assumes "c \<in> set (components_of q)" "r \<in> set c"
  shows "dependency_holds r (snapshot_of q ev c r) t = [] \<longleftrightarrow>
    eligible q r \<and> fresh t (dq_inventory q) \<and> fresh t (clearance_of (dq_clearances q) r) \<and>
    (\<forall>e \<in> set (dq_edges q). edge_provider e = r \<longrightarrow> fresh t (edge_proof e))"
proof (cases "eligible q r")
  case False
  then have "\<not> fresh t (dep_scc_clear (snapshot_of q ev c r))"
    by (simp add: snapshot_of_def Let_def fresh_combined eligible_reasons)
  then show ?thesis using False by (auto simp: dependency_needed [symmetric])
next
  case True
  then have none: "\<forall>x. (x, r) \<notin> active_rel q" and released: "\<And>e. e \<in> set (dq_edges q) \<Longrightarrow> edge_provider e = r \<Longrightarrow>
      edge_state e = EdgeReleased \<and> fresh (dq_now q) (edge_proof e)"
    and now: "fresh (dq_now q) (dq_inventory q)" "fresh (dq_now q) (clearance_of (dq_clearances q) r)"
    by (auto simp: not_active eligible_def)
  have "set (ancestors_of q r) = {r}" using none by (auto simp: set_ancestors elim: rtranclE)
  then have "snapshot_of q ev c r =
      (let relevant = filter (\<lambda>e. edge_provider e = r) (dq_edges q);
           p = combined ev (dq_now q) False (dq_inventory q # clearance_of (dq_clearances q) r # map edge_proof relevant)
       in \<lparr>dep_edges = relevant, dep_inventory_complete = dq_inventory q, dep_no_live_consumers = p,
           dep_scc_clear = p, dep_members = [r]\<rparr>)"
    using True alone_in_component [OF assms none] by (simp add: snapshot_of_def Let_def eligible_reasons)
  then show ?thesis
    using True released now by (auto simp: dependency_needed [symmetric] fresh_combined Let_def)
qed

text \<open>
  C7 (refinement): the snapshots are what the retention admission needs.  Exactly the registered
  resources have one, and the admission finds no dependency hold in it at time \<open>t\<close> exactly when the
  resource is eligible and every proof behind its eligibility is still fresh at \<open>t\<close>.
\<close>

theorem snapshots_decide_admission:
  assumes "analyze_dependencies digest True q = Inr a"
  shows "(map_of (an_snapshots a) r = None \<longleftrightarrow> r \<notin> set (resources_of q)) \<and>
    (\<forall>s. map_of (an_snapshots a) r = Some s \<longrightarrow>
      (dependency_holds r s t = [] \<longleftrightarrow> eligible q r \<and> fresh t (dq_inventory q) \<and>
        fresh t (clearance_of (dq_clearances q) r) \<and>
        (\<forall>e \<in> set (dq_edges q). edge_provider e = r \<longrightarrow> fresh t (edge_proof e))))"
proof (intro conjI allI impI)
  have "r \<in> set (concat (components_of q))" if "r \<in> set (resources_of q)"
    using that unfolding components_spec(1) by (auto simp: nodes_of_def node_list_def resources_of_def)
  then show "map_of (an_snapshots a) r = None \<longleftrightarrow> r \<notin> set (resources_of q)"
    using snapshot_mem [OF assms, of r] by (force simp: map_of_eq_None_iff image_iff)
  fix s assume "map_of (an_snapshots a) r = Some s"
  then show "dependency_holds r s t = [] \<longleftrightarrow> eligible q r \<and> fresh t (dq_inventory q) \<and>
        fresh t (clearance_of (dq_clearances q) r) \<and>
        (\<forall>e \<in> set (dq_edges q). edge_provider e = r \<longrightarrow> fresh t (edge_proof e))"
    using snapshot_mem [OF assms, of r s] snapshot_clear [of _ q r "digest q" t] by (auto dest: map_of_SomeD)
qed

theorem snapshots_decide_admission_witness:
  "\<exists>a s. analyze_dependencies sample_digest True sample_query = Inr a \<and>
     map_of (an_snapshots a) (sample_resource ''b'') = Some s \<and>
     dependency_holds (sample_resource ''b'') s 60 = [] \<and> dependency_holds (sample_resource ''b'') s 95 \<noteq> []"
proof -
  obtain a where a: "analyze_dependencies sample_digest True sample_query = Inr a"
    and order: "an_order a = map sample_resource [''a'', ''b'']" by (rule sample_result)
  have "sample_resource ''b'' \<in> set (resources_of sample_query)" by code_simp
  then obtain s where s: "map_of (an_snapshots a) (sample_resource ''b'') = Some s"
    using snapshots_decide_admission [OF a] by blast
  have "eligible sample_query (sample_resource ''b'')"
    using order_eligible(1) [OF a] unfolding order by auto
  moreover have "fresh 60 sample_proof" "\<not> fresh 95 sample_proof" by (simp_all add: fresh_def sample_proof_def)
  moreover have "dq_inventory sample_query = sample_proof" "clearance_of (dq_clearances sample_query) (sample_resource ''b'') = sample_proof"
    "\<forall>e \<in> set (dq_edges sample_query). edge_proof e = sample_proof"
    by (simp add: sample_query_def, code_simp, simp add: sample_query_def sample_edge_def)
  ultimately show ?thesis
    using a s snapshots_decide_admission [OF a, of "sample_resource ''b''" 60] snapshots_decide_admission [OF a, of "sample_resource ''b''" 95]
    by simp
qed

text \<open>
  Property (functional): holds spread along the active edges and no further.  A node is told that its consumer
  is held exactly when a held node reaches it in one or more active edges, and its reason appears among
  the holds of the analysis.
\<close>

lemma problem_not_consumer_held: "proof_problem t p \<noteq> Some ''consumer_held''"
  by (cases "proof_state p") (simp_all add: proof_problem_def split: option.split)

lemma direct_not_consumer_held: "''consumer_held'' \<notin> set (direct_reasons q r)"
  using problem_not_consumer_held problem_not_consumer_held [symmetric]
  by (auto simp: direct_reasons_def node_reasons_def edge_reasons_def split: option.splits if_splits)

theorem holds_follow_edges:
  assumes "analyze_dependencies digest True q = Inr a" "p \<in> set (nodes_of q)"
  shows "(''consumer_held'' \<in> set (reasons_of q p) \<longleftrightarrow> (\<exists>c. reasons_of q c \<noteq> [] \<and> c \<in> set (nodes_of q) \<and> (c, p) \<in> (active_rel q)\<^sup>+)) \<and>
    (\<forall>d \<in> set (reasons_of q p). diag d (res_identity p) \<in> set (an_holds a))"
proof -
  have "''consumer_held'' \<in> set (reasons_of q p) \<longleftrightarrow> p \<in> set (consumer_held q)"
    using direct_not_consumer_held [of q p] by (simp add: reasons_of_def)
  also have "\<dots> \<longleftrightarrow> (\<exists>c. reasons_of q c \<noteq> [] \<and> c \<in> set (nodes_of q) \<and> (c, p) \<in> (active_rel q)\<^sup>+)"
    unfolding set_consumer_held by (auto simp: reasons_Nil direct_reasons_Nil)
  finally show ?thesis using assms by (auto simp: analysis_Inr)
qed

theorem holds_follow_edges_witness:
  "\<exists>c. reasons_of sample_query c \<noteq> [] \<and> (c, sample_resource ''d'') \<in> (active_rel sample_query)\<^sup>+"
proof -
  obtain a where a: "analyze_dependencies sample_digest True sample_query = Inr a" by (rule sample_result)
  have "sample_resource ''d'' \<in> set (nodes_of sample_query)"
    "''consumer_held'' \<in> set (reasons_of sample_query (sample_resource ''d''))" by code_simp+
  then show ?thesis using holds_follow_edges [OF a] by blast
qed

section \<open>Custody\<close>

lemma diag_simps [simp]:
  "when_diag b c s = [] \<longleftrightarrow> \<not> b"
  "custody_proof_diags now cus (n, None) = []"
  "custody_proof_diags now cus (n, Some p) = [] \<longleftrightarrow> fresh now p \<and>
     (n = ''acknowledgement'' \<or> (\<exists>e \<in> set (proof_evidence p). e \<noteq> cus_archive cus))"
  by (auto simp: when_diag_def custody_proof_diags_def list_ex_iff proof_problem_None [symmetric] split: option.splits)

lemma custody_diags_Nil:
  "custody_diags reg cus own archive now = [] \<longleftrightarrow>
     res_owner (reg_resource reg) = own \<and> archive = Some (cus_archive cus) \<and> custody_holds reg cus now = [] \<and>
     (\<forall>p \<in> insert (cus_fidelity cus) (set_option (cus_fsck cus)).
        fresh now p \<and> (\<exists>e \<in> set (proof_evidence p). e \<noteq> cus_archive cus))"
  unfolding custody_needed [symmetric]
  by (cases "cus_fsck cus") (auto simp: custody_diags_def list_all_iff)

text \<open>
  Property (refinement): a custody evaluation without holds satisfies the retention admission at that time,
  and asks for more: the right owner and archive, and audits that rest on other evidence than the archive.
  Its combined proof is fresh exactly then.
\<close>

theorem custody_accepted_exactly:
  assumes "evaluate_custody digest reg (Some cus) own archive (Some t) = Inr r"
  shows "(cr_holds r = [] \<longleftrightarrow> res_owner (reg_resource reg) = own \<and> archive = Some (cus_archive cus) \<and>
      custody_holds reg cus t = [] \<and>
      (\<forall>p \<in> insert (cus_fidelity cus) (set_option (cus_fsck cus)).
        fresh t p \<and> (\<exists>e \<in> set (proof_evidence p). e \<noteq> cus_archive cus))) \<and>
    (fresh t (cr_proof r) \<longleftrightarrow> cr_holds r = [])"
proof -
  have r: "cr_holds r = custody_diags reg cus own archive t"
    "cr_proof r = combined (digest reg cus archive) t (custody_diags reg cus own archive t \<noteq> []) (custody_proofs reg cus)"
    using assms by (auto simp: evaluate_custody_def Let_def)
  have "\<forall>p \<in> set (custody_proofs reg cus). fresh t p" if "custody_diags reg cus own archive t = []"
    using that unfolding custody_diags_Nil custody_needed [symmetric]
    by (auto simp: custody_proofs_def split: option.splits)
  then have "fresh t (cr_proof r) \<longleftrightarrow> cr_holds r = []"
    unfolding r fresh_combined by (auto simp: custody_proofs_def)
  then show ?thesis using custody_diags_Nil by (simp add: r)
qed

definition sample_custody :: custody_ack where
  "sample_custody = \<lparr>cus_resource = sample_resource ''b'', cus_source = GitSource ''r'' ''t'',
     cus_scope = [FullBytes, Types, Links, Refs, Reflogs, Ignored],
     cus_archive = \<lparr>ev_ref = ''ev:2'', ev_digest = ''e''\<rparr>, cus_acknowledgement = sample_proof,
     cus_fidelity = sample_proof, cus_fsck = Some sample_proof\<rparr>"

theorem custody_accepted_exactly_witness:
  "\<exists>r. evaluate_custody (\<lambda>_ _ _. \<lparr>ev_ref = ''r1-custody:0'', ev_digest = ''sha256:0''\<rparr>) (sample_registration ''b'')
      (Some sample_custody) \<lparr>repository = ''repo:x''\<rparr> (Some \<lparr>ev_ref = ''ev:2'', ev_digest = ''e''\<rparr>) (Some 50) = Inr r \<and>
    fresh 50 (cr_proof r) \<and> custody_holds (sample_registration ''b'') sample_custody 50 = []"
proof -
  let ?e = "evaluate_custody (\<lambda>_ _ _. \<lparr>ev_ref = ''r1-custody:0'', ev_digest = ''sha256:0''\<rparr>) (sample_registration ''b'')
      (Some sample_custody) \<lparr>repository = ''repo:x''\<rparr> (Some \<lparr>ev_ref = ''ev:2'', ev_digest = ''e''\<rparr>) (Some 50)"
  have "case ?e of Inl e \<Rightarrow> False | Inr r \<Rightarrow> cr_holds r = []" by code_simp
  then obtain r where r: "?e = Inr r" "cr_holds r = []" by (auto split: sum.splits)
  then show ?thesis using custody_accepted_exactly [OF r(1)] by blast
qed

end
