(* ===== verification/AsciiJson.thy ===== *)
theory AsciiJson
  imports PyValue
begin

text \<open>
  \<open>json.dumps(value, ensure_ascii=True, allow_nan=False, separators=(",", ":"))\<close>: the text, or None when the
  call raises, and bounds on its length.  How Python prints a finite float is an argument.
\<close>

section \<open>The text\<close>

definition json_char :: "char \<Rightarrow> string" where
  "json_char c =
     (let n = (of_char c :: nat)
      in if n = 34 \<or> n = 92 then [CHR 92, c]
         else if n = 8 then [CHR 92, CHR ''b''] else if n = 9 then [CHR 92, CHR ''t'']
         else if n = 10 then [CHR 92, CHR ''n''] else if n = 12 then [CHR 92, CHR ''f'']
         else if n = 13 then [CHR 92, CHR ''r'']
         else if 32 \<le> n \<and> n \<le> 126 then [c]
         else [CHR 92, CHR ''u'', CHR ''0'', CHR ''0'', hex_digit (n div 16), hex_digit (n mod 16)])"

definition json_string :: "string \<Rightarrow> string" where
  "json_string s = CHR 34 # concat (map json_char s) @ [CHR 34]"

text \<open>A key of a dict; a number, a truth value or \<open>None\<close> is written as text, other keys raise \<open>TypeError\<close>.\<close>

fun json_key_text :: "(rat \<Rightarrow> string) \<Rightarrow> pyval \<Rightarrow> string option" where
  "json_key_text ft (PStr s) = Some s"
| "json_key_text ft (PInt i) = Some (int_str i)"
| "json_key_text ft (PBool b) = Some (if b then ''true'' else ''false'')"
| "json_key_text ft PNone = Some ''null''"
| "json_key_text ft (PFloat (Finite q)) = Some (ft q)"
| "json_key_text ft _ = None"

definition json_member :: "string option \<Rightarrow> string option \<Rightarrow> string option" where
  "json_member k v = (case (k, v) of (Some k, Some t) \<Rightarrow> Some (json_string k @ '':'' @ t) | _ \<Rightarrow> None)"

definition json_items :: "string \<Rightarrow> string \<Rightarrow> string option list \<Rightarrow> string option" where
  "json_items l r ts = map_option (\<lambda>ts. l @ join_with '','' ts @ r) (those ts)"

fun ascii_json :: "(rat \<Rightarrow> string) \<Rightarrow> pyval \<Rightarrow> string option" where
  "ascii_json ft PNone = Some ''null''"
| "ascii_json ft (PBool b) = Some (if b then ''true'' else ''false'')"
| "ascii_json ft (PInt i) = Some (int_str i)"
| "ascii_json ft (PFloat (Finite q)) = Some (ft q)"
| "ascii_json ft (PStr s) = Some (json_string s)"
| "ascii_json ft (PList vs) = json_items ''['' '']'' (map (ascii_json ft) vs)"
| "ascii_json ft (PTuple vs) = json_items ''['' '']'' (map (ascii_json ft) vs)"
| "ascii_json ft (PDict kvs) =
     json_items ''{'' ''}'' (map (\<lambda>kv. json_member (json_key_text ft (fst kv)) (ascii_json ft (snd kv))) kvs)"
| "ascii_json ft _ = None"

section \<open>Lengths\<close>

lemma length_json_char: "length (json_char c) \<le> 6"
  by (simp add: json_char_def Let_def)

lemma length_json_string: "length (json_string s) \<le> 6 * length s + 2"
proof -
  have "length (concat (map json_char s)) \<le> 6 * length s"
    by (induction s) (use length_json_char in \<open>auto intro: add_mono simp: add.commute\<close>)
  then show ?thesis by (simp add: json_string_def)
qed

lemma length_join_with: "length (join_with '','' ts) \<le> sum_list (map (\<lambda>t. length t + 1) ts)"
  by (induction "'',''" ts rule: join_with.induct) simp_all

text \<open>\<open>v\<close> has a text of at most \<open>n\<close> characters.\<close>

definition prints_within :: "(rat \<Rightarrow> string) \<Rightarrow> pyval \<Rightarrow> nat \<Rightarrow> bool" where
  "prints_within ft v n \<longleftrightarrow> (\<exists>t. ascii_json ft v = Some t \<and> length t \<le> n)"

lemma prints_mono: "prints_within ft v m \<Longrightarrow> m \<le> n \<Longrightarrow> prints_within ft v n"
  by (auto simp: prints_within_def)

lemma prints_str: "prints_within ft (PStr s) (6 * length s + 2)"
  using length_json_string [of s] by (simp add: prints_within_def)

lemma prints_int: "prints_within ft (PInt i) (length (int_str i))"
  by (simp add: prints_within_def)

lemma those_length:
  "list_all2 (\<lambda>t n. \<exists>s. t = Some s \<and> length s \<le> n) ts ns \<Longrightarrow>
     \<exists>ss. those ts = Some ss \<and> sum_list (map (\<lambda>t. length t + 1) ss) \<le> sum_list (map (\<lambda>n. n + 1) ns)"
  by (induction rule: list_all2_induct) fastforce+

lemma json_items_length:
  assumes "list_all2 (\<lambda>t n. \<exists>s. t = Some s \<and> length s \<le> n) ts ns"
  shows "\<exists>t. json_items [a] [b] ts = Some t \<and> length t \<le> 2 + sum_list (map (\<lambda>n. n + 1) ns)"
proof -
  obtain ss where "those ts = Some ss" "sum_list (map (\<lambda>t. length t + 1) ss) \<le> sum_list (map (\<lambda>n. n + 1) ns)"
    using those_length [OF assms] by blast
  then show ?thesis using length_join_with [of ss] by (simp add: json_items_def)
qed

lemma prints_list:
  assumes "\<And>v. v \<in> set vs \<Longrightarrow> prints_within ft v n"
  shows "prints_within ft (PList vs) (2 + length vs * (n + 1))"
proof -
  have "list_all2 (\<lambda>t n. \<exists>s. t = Some s \<and> length s \<le> n) (map (ascii_json ft) vs) (replicate (length vs) n)"
    using assms by (simp add: list_all2_conv_all_nth prints_within_def)
  from json_items_length [OF this, of "CHR ''[''" "CHR '']''"] show ?thesis
    by (simp add: prints_within_def sum_list_replicate)
qed

text \<open>The same for the members of a dict with text keys.\<close>

fun members_within :: "(rat \<Rightarrow> string) \<Rightarrow> (pyval \<times> pyval) list \<Rightarrow> nat list \<Rightarrow> bool" where
  "members_within ft [] ns = (ns = [])"
| "members_within ft (kv # kvs) ns =
     (case (fst kv, ns) of
        (PStr k, n # ms) \<Rightarrow> prints_within ft (snd kv) n \<and> members_within ft kvs ms
      | _ \<Rightarrow> False)"

definition key_length :: "pyval \<Rightarrow> nat" where
  "key_length k = (case k of PStr s \<Rightarrow> length (json_string s) + 1 | _ \<Rightarrow> 0)"

lemma prints_dict:
  assumes "members_within ft kvs ns"
  shows "prints_within ft (PDict kvs) (2 + sum_list (map (\<lambda>kv. key_length (fst kv) + 1) kvs) + sum_list ns)"
proof -
  have "\<exists>ls. list_all2 (\<lambda>t n. \<exists>s. t = Some s \<and> length s \<le> n)
        (map (\<lambda>kv. json_member (json_key_text ft (fst kv)) (ascii_json ft (snd kv))) kvs) ls \<and>
      sum_list (map (\<lambda>n. n + 1) ls) = sum_list (map (\<lambda>kv. key_length (fst kv) + 1) kvs) + sum_list ns"
    using assms
  proof (induction ft kvs ns rule: members_within.induct)
    case (2 ft kv kvs ns)
    then obtain k n ms where k: "fst kv = PStr k" "ns = n # ms" "prints_within ft (snd kv) n" "members_within ft kvs ms"
      by (auto split: pyval.splits list.splits)
    from 2(1) [OF _ k(1) k(2) k(4)] k obtain ls where ls: "list_all2 (\<lambda>t n. \<exists>s. t = Some s \<and> length s \<le> n)
        (map (\<lambda>kv. json_member (json_key_text ft (fst kv)) (ascii_json ft (snd kv))) kvs) ls"
      "sum_list (map (\<lambda>n. n + 1) ls) = sum_list (map (\<lambda>kv. key_length (fst kv) + 1) kvs) + sum_list ms" by auto
    show ?case
      using k ls by (intro exI [of _ "(key_length (PStr k) + n) # ls"])
        (auto simp: prints_within_def json_member_def key_length_def)
  qed simp
  then obtain ls where ls: "list_all2 (\<lambda>t n. \<exists>s. t = Some s \<and> length s \<le> n)
        (map (\<lambda>kv. json_member (json_key_text ft (fst kv)) (ascii_json ft (snd kv))) kvs) ls"
    "sum_list (map (\<lambda>n. n + 1) ls) = sum_list (map (\<lambda>kv. key_length (fst kv) + 1) kvs) + sum_list ns" by blast
  from json_items_length [OF ls(1), of "CHR ''{''" "CHR ''}''"] show ?thesis
    by (simp only: prints_within_def ascii_json.simps ls(2) add.assoc)
qed

section \<open>Numbers\<close>

lemma nat_digits_mono: "m \<le> n \<Longrightarrow> length (nat_digits m) \<le> length (nat_digits n)"
proof (induction n arbitrary: m rule: nat_digits.induct)
  case (1 n)
  show ?case
  proof (cases "n < 10")
    case True
    then show ?thesis using "1.prems" by (simp add: nat_digits.simps [of n] nat_digits.simps [of m])
  next
    case False
    then have "length (nat_digits (m div 10)) \<le> length (nat_digits (n div 10))"
      using "1.IH" "1.prems" by (simp add: div_le_mono)
    then show ?thesis using False by (simp add: nat_digits.simps [of n] nat_digits.simps [of m])
  qed
qed

lemma int_str_mono: "0 \<le> i \<Longrightarrow> i \<le> j \<Longrightarrow> length (int_str i) \<le> length (int_str j)"
  by (simp add: int_str_def nat_digits_mono nat_mono)

end
