(* ===== verification/CoordChannels.thy ===== *)
theory CoordChannels
  imports CoordClaims AsciiJson
begin

text \<open>
  \<open>coordchannels.py\<close>: messages with acknowledgments and a cursor over their events, kept in the
  coordination store, with a receipt per operation id that answers retries.  A request is the JSON object
  the caller sends.  SHA-256, the sizes of canonical UTF-8 texts and the text of a float are parameters; the ASCII
  JSON of a response and its limit of 64 KiB are modelled.
\<close>

section \<open>Requests\<close>

record event_filters =
  ft_kind :: "string option"
  ft_message :: "string option"

datatype channel_operation =
    SendMessage string "string list" json_body
  | ReadMessage string
  | AckMessage string int
  | ReadEvents int int event_filters

record channel_request =
  cq_authority :: claim_authority
  cq_op_id :: string
  cq_operation :: channel_operation

record channel_lib =
  ch_request_bytes :: "pyval \<Rightarrow> nat"
  ch_digest :: "channel_request \<Rightarrow> claim_authority \<Rightarrow> claim_owner \<Rightarrow> string"
  ch_body_bytes :: "pyval \<Rightarrow> nat"
  ch_extension_bytes :: "channel_waves \<Rightarrow> nat"
  ch_float_text :: "rat \<Rightarrow> string"

definition channel_base_fields :: "string list" where
  "channel_base_fields = auth_fields @ [''schema_version'', ''operation_id'', ''operation'']"

definition channel_identity_fields :: "string list" where
  "channel_identity_fields = [''root'', ''principal'', ''session_id'', ''owner'']"

definition channel_fields :: "(string \<times> string list) list" where
  "channel_fields =
     [(''send'', [''message_id'', ''version'', ''recipients'', ''body'']), (''read'', [''message_id'']),
      (''ack'', [''message_id'', ''version'']), (''events'', [''after_cursor'', ''limit''])]"

definition channel_optional :: "string \<Rightarrow> string list" where
  "channel_optional op = (if op = ''events'' then [''filters''] else [])"

definition short_field :: "pyval \<Rightarrow> string option" where
  "short_field v = (case v of PStr s \<Rightarrow> if short_text s then Some s else None | _ \<Rightarrow> None)"

fun string_list :: "pyval list \<Rightarrow> string list option" where
  "string_list [] = Some []"
| "string_list (PStr s # vs) = map_option ((#) s) (string_list vs)"
| "string_list (_ # vs) = None"

definition read_recipients :: "pyval \<Rightarrow> string list option" where
  "read_recipients v =
     (case v of
        PList vs \<Rightarrow> (case string_list vs of Some rs \<Rightarrow> if valid_recipients rs then Some rs else None | None \<Rightarrow> None)
      | _ \<Rightarrow> None)"

definition read_filters :: "pyval \<Rightarrow> event_filters option" where
  "read_filters v =
     (if \<not> is_mapping v \<or> \<not> list_all (\<lambda>kv. fst kv \<in> PStr ` {''kind'', ''message_id''}) (py_items v) then None
      else if has_key v ''kind'' \<and> py_get v ''kind'' \<notin> {PStr ''message.sent'', PStr ''message.acked''} then None
      else if has_key v ''message_id'' \<and> short_field (py_get v ''message_id'') = None then None
      else Some \<lparr>ft_kind = (if has_key v ''kind'' then Some (py_string (py_get v ''kind'')) else None),
        ft_message = (if has_key v ''message_id'' then short_field (py_get v ''message_id'') else None)\<rparr>)"

definition read_send :: "channel_lib \<Rightarrow> pyval \<Rightarrow> channel_operation option" where
  "read_send L request =
     (case (short_field (py_get request ''message_id''), read_recipients (py_get request ''recipients'')) of
        (Some i, Some rs) \<Rightarrow>
          (let body = py_get request ''body''
           in if py_integer (py_get request ''version'') \<noteq> Some 1 then None
              else if \<not> is_mapping body \<or> \<not> strict_json 0 body \<or> ch_body_bytes L body > 4096 then None
              else Some (SendMessage i rs \<lparr>jb_value = body, jb_bytes = ch_body_bytes L body\<rparr>))
      | _ \<Rightarrow> None)"

definition read_ack :: "pyval \<Rightarrow> channel_operation option" where
  "read_ack request =
     (case (short_field (py_get request ''message_id''), py_integer (py_get request ''version'')) of
        (Some i, Some v) \<Rightarrow> if v \<le> 0 then None else Some (AckMessage i v)
      | _ \<Rightarrow> None)"

definition read_events_query :: "pyval \<Rightarrow> channel_operation option" where
  "read_events_query request =
     (case (py_integer (py_get request ''after_cursor''), py_integer (py_get request ''limit''),
            read_filters (py_get_default request ''filters'' (PDict []))) of
        (Some a, Some n, Some ft) \<Rightarrow> if a < 0 \<or> n < 1 \<or> 100 < n then None else Some (ReadEvents a n ft)
      | _ \<Rightarrow> None)"

definition read_operation :: "channel_lib \<Rightarrow> string \<Rightarrow> pyval \<Rightarrow> channel_operation option" where
  "read_operation L op request =
     (if op = ''send'' then read_send L request
      else if op = ''read'' then map_option ReadMessage (short_field (py_get request ''message_id''))
      else if op = ''ack'' then read_ack request
      else read_events_query request)"

text \<open>\<open>_validate_request\<close>: every check it makes raises the same answer, \<open>invalid_request\<close>.\<close>

definition short_authority :: "claim_authority \<Rightarrow> bool" where
  "short_authority a \<longleftrightarrow> valid_authority a \<and> list_all short_text [au_id a, au_task a, au_wave a]"

definition validate_channel_request ::
    "channel_lib \<Rightarrow> pyval \<Rightarrow> claim_authority \<Rightarrow> claim_owner \<Rightarrow> channel_request option" where
  "validate_channel_request L request a owner =
     (if \<not> short_authority a \<or> \<not> channel_owner owner then None
      else if \<not> is_mapping request \<or> \<not> list_all (has_key request) channel_base_fields \<or>
        list_ex (has_key request) channel_identity_fields then None
      else (case map_of channel_fields (py_string (py_get request ''operation'')) of
        None \<Rightarrow> None
      | Some fs \<Rightarrow>
          (let op = py_string (py_get request ''operation'')
           in if \<not> is_pstr (py_get request ''operation'') then None
              else if \<not> list_all (has_key request) fs \<or>
                \<not> list_all (\<lambda>kv. fst kv \<in> PStr ` set (channel_base_fields @ fs @ channel_optional op)) (py_items request) then None
              else if py_integer (py_get request ''schema_version'') \<noteq> Some 1 then None
              else if ch_request_bytes L request > 16 * 1024 \<or> \<not> strict_json 0 request then None
              else (case (short_field (py_get request ''operation_id''), read_authority request, read_operation L op request) of
                  (Some i, Some au, Some c) \<Rightarrow> Some \<lparr>cq_authority = au, cq_op_id = i, cq_operation = c\<rparr>
                | _ \<Rightarrow> None))))"

section \<open>Responses\<close>

text \<open>
  The JSON object of a response.  The members come in the order in which \<open>_message_view\<close>, \<open>_read_events\<close> and \<open>_error\<close>
  list them; what was loaded from the store has sorted keys, which gives a text of the same length.
\<close>

definition event_kind :: "channel_event \<Rightarrow> string" where
  "event_kind e = (if ce_ack e = None then ''message.sent'' else ''message.acked'')"

definition owner_json :: "claim_owner \<Rightarrow> pyval" where
  "owner_json ow = PDict [(PStr ''principal'', PStr (ow_principal ow)), (PStr ''session_id'', PStr (ow_session ow))]"

definition channel_event_value :: "channel_event \<Rightarrow> pyval" where
  "channel_event_value e = PDict
     ([(PStr ''cursor'', PInt (ce_cursor e)), (PStr ''kind'', PStr (event_kind e)), (PStr ''message_id'', PStr (ce_message e)),
       (PStr ''version'', PInt (ce_version e)), (PStr ''sender'', owner_json (ce_sender e)),
       (PStr ''recipients'', PList (map PStr (ce_recipients e)))] @
      (case ce_ack e of None \<Rightarrow> [] | Some ow \<Rightarrow> [(PStr ''acknowledgment'', owner_json ow)]))"

definition message_value :: "channel_message \<Rightarrow> pyval" where
  "message_value m = PDict
     [(PStr ''message_id'', PStr (cm_id m)), (PStr ''version'', PInt (cm_version m)),
      (PStr ''recipients'', PList (map PStr (cm_recipients m))), (PStr ''body'', jb_value (cm_body m)),
      (PStr ''sender'', owner_json (cm_sender m)),
      (PStr ''acknowledgments'', PDict (map (\<lambda>pa. (PStr (fst pa), owner_json (snd pa))) (cm_acks m)))]"

fun response_value :: "channel_response \<Rightarrow> pyval" where
  "response_value (MessageView m) =
     PDict [(PStr ''schema_version'', PInt 1), (PStr ''ok'', PBool True), (PStr ''message'', message_value m)]"
| "response_value (AckView i v ow) =
     PDict [(PStr ''schema_version'', PInt 1), (PStr ''ok'', PBool True), (PStr ''message_id'', PStr i),
       (PStr ''version'', PInt v), (PStr ''acknowledgment'', owner_json ow)]"
| "response_value (EventPage es next again) =
     PDict [(PStr ''schema_version'', PInt 1), (PStr ''ok'', PBool True),
       (PStr ''events'', PList (map channel_event_value es)), (PStr ''next_cursor'', PInt next), (PStr ''has_more'', PBool again)]"
| "response_value (ChannelError c) =
     PDict [(PStr ''schema_version'', PInt 1), (PStr ''ok'', PBool False), (PStr ''error_code'', PStr c)]"

text \<open>\<open>_response_fits\<close>: the text and its newline are within 64 KiB; a value that cannot be encoded does not fit.\<close>

definition response_fits :: "channel_lib \<Rightarrow> channel_response \<Rightarrow> bool" where
  "response_fits L resp =
     (case ascii_json (ch_float_text L) (response_value resp) of None \<Rightarrow> False | Some t \<Rightarrow> length t + 1 \<le> 64 * 1024)"

section \<open>Reading\<close>

definition visible_event :: "string \<Rightarrow> channel_event \<Rightarrow> bool" where
  "visible_event who e \<longleftrightarrow> ow_principal (ce_sender e) = who \<or> who \<in> set (ce_recipients e)"

definition event_matches :: "event_filters \<Rightarrow> channel_event \<Rightarrow> bool" where
  "event_matches ft e \<longleftrightarrow>
     (case ft_kind ft of None \<Rightarrow> True | Some k \<Rightarrow> event_kind e = k) \<and>
     (case ft_message ft of None \<Rightarrow> True | Some i \<Rightarrow> ce_message e = i)"

text \<open>The loop over the events behind the cursor: what was selected, the next cursor, whether it stopped early.\<close>

fun page_loop ::
    "channel_lib \<Rightarrow> (channel_event \<Rightarrow> bool) \<Rightarrow> int \<Rightarrow> int \<Rightarrow> channel_event list \<Rightarrow> int \<Rightarrow> channel_event list \<Rightarrow>
       channel_event list \<times> int \<times> bool" where
  "page_loop L wanted limit highwater selected next [] = (selected, highwater, False)"
| "page_loop L wanted limit highwater selected next (e # es) =
     (if wanted e then
        (if int (length selected) \<ge> limit \<or> \<not> response_fits L (EventPage (selected @ [e]) highwater False)
         then (selected, next, True)
         else page_loop L wanted limit highwater (selected @ [e]) (ce_cursor e) es)
      else page_loop L wanted limit highwater selected (ce_cursor e) es)"

definition read_channel_events :: "channel_lib \<Rightarrow> channel_wave \<Rightarrow> string \<Rightarrow> int \<Rightarrow> int \<Rightarrow> event_filters \<Rightarrow> channel_response" where
  "read_channel_events L w who after limit ft =
     (if after > hw_highwater w then ChannelError ''invalid_cursor''
      else (case page_loop L (\<lambda>e. visible_event who e \<and> event_matches ft e) limit (hw_highwater w) [] after
              (drop (nat after) (hw_events w)) of
          (selected, next, has_more) \<Rightarrow>
            (let page = EventPage selected next has_more
             in if response_fits L page then page else ChannelError ''response_too_large'')))"

definition read_message :: "channel_wave \<Rightarrow> string \<Rightarrow> string \<Rightarrow> channel_response" where
  "read_message w who i =
     (case map_of (hw_messages w) i of
        None \<Rightarrow> ChannelError ''not_found''
      | Some m \<Rightarrow>
          if ow_principal (cm_sender m) \<noteq> who \<and> who \<notin> set (cm_recipients m) then ChannelError ''not_found''
          else MessageView m)"

section \<open>Mutations\<close>

definition channel_map :: "coord_state \<Rightarrow> channel_waves" where
  "channel_map s = (case channels s of None \<Rightarrow> [] | Some (ws, _) \<Rightarrow> ws)"

definition channel_wave_of :: "coord_state \<Rightarrow> claim_authority \<Rightarrow> channel_wave" where
  "channel_wave_of s a =
     (case map_of (channel_map s) (claim_wave_key a) of
        None \<Rightarrow> \<lparr>hw_authority = a, hw_messages = [], hw_receipts = [], hw_events = [], hw_highwater = 0\<rparr>
      | Some w \<Rightarrow> w)"

definition channel_spec :: "claim_authority \<Rightarrow> string \<Rightarrow> channel_event \<Rightarrow> event_spec" where
  "channel_spec a who e =
     \<lparr>es_kind = event_kind e,
      es_fields = PDict
        ([(PStr ''authority_id'', PStr (au_id a)), (PStr ''authority_epoch'', PInt (au_epoch a)),
          (PStr ''task_ref'', PStr (au_task a)), (PStr ''wave_id'', PStr (au_wave a)),
          (PStr ''cursor'', PInt (ce_cursor e)), (PStr ''kind'', PStr (event_kind e)),
          (PStr ''message_id'', PStr (ce_message e)), (PStr ''version'', PInt (ce_version e)),
          (PStr ''sender'', owner_json (ce_sender e)), (PStr ''recipients'', PList (map PStr (ce_recipients e)))] @
         (case ce_ack e of None \<Rightarrow> [] | Some ow \<Rightarrow> [(PStr ''acknowledgment'', owner_json ow)])),
      es_actor = who, es_id = None\<rparr>"

text \<open>\<open>_record_mutation\<close>: the wave with its receipt and event, unless the reply or the extension is too large.\<close>

definition record_mutation ::
    "channel_lib \<Rightarrow> coord_state \<Rightarrow> claim_authority \<Rightarrow> string \<Rightarrow> string \<Rightarrow> string \<Rightarrow> channel_wave \<Rightarrow> channel_response \<Rightarrow>
       channel_event option \<Rightarrow> (coord_state \<times> event_spec list) option" where
  "record_mutation L s a who i fp w resp event =
     (if \<not> response_fits L resp then None
      else
        (let w1 = (case event of None \<Rightarrow> w | Some e \<Rightarrow> w\<lparr>hw_events := hw_events w @ [e], hw_highwater := ce_cursor e\<rparr>);
             w2 = w1\<lparr>hw_receipts := AList.update i \<lparr>ch_fingerprint = fp, ch_response = resp\<rparr> (hw_receipts w1)\<rparr>;
             ws = AList.update (claim_wave_key a) w2 (channel_map s);
             bytes = ch_extension_bytes L ws
         in if bytes > 8 * 1024 * 1024 then None
            else Some (s\<lparr>channels := Some (ws, bytes)\<rparr>,
              (case event of None \<Rightarrow> [] | Some e \<Rightarrow> [channel_spec a who e]))))"

text \<open>\<open>_commit_mutation\<close>: a reply without event; when it does not fit, the refusal \<open>capacity\<close>, if that fits.\<close>

definition commit_mutation ::
    "channel_lib \<Rightarrow> coord_state \<Rightarrow> claim_authority \<Rightarrow> string \<Rightarrow> string \<Rightarrow> string \<Rightarrow> channel_wave \<Rightarrow> channel_response \<Rightarrow>
       channel_response \<times> (coord_state \<times> event_spec list) option" where
  "commit_mutation L s a who i fp w resp =
     (case record_mutation L s a who i fp w resp None of
        Some c \<Rightarrow> (resp, Some c)
      | None \<Rightarrow> (ChannelError ''capacity'',
          record_mutation L s a who i fp w (ChannelError ''capacity'') None))"

text \<open>A mutation with an event; when it does not fit, only the refusal is recorded, on the old wave.\<close>

definition commit_event ::
    "channel_lib \<Rightarrow> coord_state \<Rightarrow> claim_authority \<Rightarrow> string \<Rightarrow> string \<Rightarrow> string \<Rightarrow> channel_wave \<Rightarrow> channel_wave \<Rightarrow>
       channel_response \<Rightarrow> channel_event \<Rightarrow> channel_response \<times> (coord_state \<times> event_spec list) option" where
  "commit_event L s a who i fp w w' resp e =
     (case record_mutation L s a who i fp w' resp (Some e) of
        Some c \<Rightarrow> (resp, Some c)
      | None \<Rightarrow> commit_mutation L s a who i fp w (ChannelError ''capacity''))"

definition send_message ::
    "channel_lib \<Rightarrow> coord_state \<Rightarrow> claim_authority \<Rightarrow> claim_owner \<Rightarrow> string \<Rightarrow> string \<Rightarrow> channel_wave \<Rightarrow>
       string \<Rightarrow> string list \<Rightarrow> json_body \<Rightarrow> channel_response \<times> (coord_state \<times> event_spec list) option" where
  "send_message L s a owner i fp w mid rs body =
     (if 10000 \<le> channel_total hw_receipts (channel_map s) then (ChannelError ''capacity'', None)
      else if map_of (hw_messages w) mid \<noteq> None then
        commit_mutation L s a (ow_principal owner) i fp w (ChannelError ''message_exists'')
      else if 1000 \<le> channel_total hw_messages (channel_map s) \<or> 32000 \<le> channel_total hw_events (channel_map s) then
        commit_mutation L s a (ow_principal owner) i fp w (ChannelError ''capacity'')
      else
        (let m = \<lparr>cm_id = mid, cm_version = 1, cm_recipients = rs, cm_body = body, cm_sender = owner, cm_acks = []\<rparr>;
             e = \<lparr>ce_cursor = hw_highwater w + 1, ce_message = mid, ce_version = 1, ce_sender = owner,
               ce_recipients = rs, ce_ack = None\<rparr>
         in commit_event L s a (ow_principal owner) i fp w
              (w\<lparr>hw_messages := AList.update mid m (hw_messages w)\<rparr>) (MessageView m) e))"

definition ack_message ::
    "channel_lib \<Rightarrow> coord_state \<Rightarrow> claim_authority \<Rightarrow> claim_owner \<Rightarrow> string \<Rightarrow> string \<Rightarrow> channel_wave \<Rightarrow>
       string \<Rightarrow> int \<Rightarrow> channel_response \<times> (coord_state \<times> event_spec list) option" where
  "ack_message L s a owner i fp w mid ver =
     (let p = ow_principal owner; refuse = (\<lambda>c. commit_mutation L s a p i fp w (ChannelError c))
      in if 10000 \<le> channel_total hw_receipts (channel_map s) then (ChannelError ''capacity'', None)
         else (case map_of (hw_messages w) mid of
           None \<Rightarrow> refuse ''not_found''
         | Some m \<Rightarrow>
             if p \<notin> set (cm_recipients m) then refuse ''not_found''
             else if ver \<noteq> cm_version m then refuse ''version_mismatch''
             else (case map_of (cm_acks m) p of
               Some ack \<Rightarrow> commit_mutation L s a p i fp w (AckView mid (cm_version m) ack)
             | None \<Rightarrow>
                 (let m' = m\<lparr>cm_acks := AList.update p owner (cm_acks m)\<rparr>;
                      e = \<lparr>ce_cursor = hw_highwater w + 1, ce_message = mid, ce_version = cm_version m,
                        ce_sender = cm_sender m, ce_recipients = cm_recipients m, ce_ack = Some owner\<rparr>
                  in if 32000 \<le> channel_total hw_events (channel_map s) then refuse ''capacity''
                     else if \<not> response_fits L (MessageView m') then refuse ''capacity''
                     else commit_event L s a p i fp w (w\<lparr>hw_messages := AList.update mid m' (hw_messages w)\<rparr>)
                       (AckView mid (cm_version m) owner) e))))"

section \<open>The decision on a loaded state\<close>

definition decide_channel ::
    "channel_lib \<Rightarrow> channel_request \<Rightarrow> claim_authority \<Rightarrow> claim_owner \<Rightarrow> string \<Rightarrow> coord_state \<Rightarrow>
       channel_response \<times> (coord_state \<times> event_spec list) option" where
  "decide_channel L q a owner fp s =
     (let w = channel_wave_of s a; p = ow_principal owner
      in if hw_authority w \<noteq> a then (ChannelError ''scope_mismatch'', None)
         else (case cq_operation q of
           ReadMessage i \<Rightarrow> (read_message w p i, None)
         | ReadEvents after limit ft \<Rightarrow> (read_channel_events L w p after limit ft, None)
         | SendMessage i rs body \<Rightarrow>
             (case map_of (hw_receipts w) (cq_op_id q) of
                Some r \<Rightarrow> (if ch_fingerprint r \<noteq> fp then ChannelError ''idempotency_conflict'' else ch_response r, None)
              | None \<Rightarrow> send_message L s a owner (cq_op_id q) fp w i rs body)
         | AckMessage i ver \<Rightarrow>
             (case map_of (hw_receipts w) (cq_op_id q) of
                Some r \<Rightarrow> (if ch_fingerprint r \<noteq> fp then ChannelError ''idempotency_conflict'' else ch_response r, None)
              | None \<Rightarrow> ack_message L s a owner (cq_op_id q) fp w i ver)))"

text \<open>\<open>execute\<close>.  \<open>got_lock\<close> says whether the lock came within its budget.\<close>

definition execute_channel ::
    "json_lib \<Rightarrow> channel_lib \<Rightarrow> commit_env \<Rightarrow> bool \<Rightarrow> pyval \<Rightarrow> claim_authority \<Rightarrow> claim_owner \<Rightarrow> coord_disk \<Rightarrow>
       channel_response \<times> coord_disk" where
  "execute_channel J L E got_lock request a owner d =
     (case validate_channel_request L request a owner of
        None \<Rightarrow> (ChannelError ''invalid_request'', d)
      | Some q \<Rightarrow>
          if cq_authority q \<noteq> a then (ChannelError ''scope_mismatch'', d)
          else if \<not> got_lock then (ChannelError ''deadline'', d)
          else (case enter_store J d of
              Inl _ \<Rightarrow> (ChannelError ''state_corrupt'', d)
            | Inr (s, d1) \<Rightarrow>
                (let fit = (\<lambda>resp. if response_fits L resp then resp else ChannelError ''response_too_large'')
                 in case decide_channel L q a owner (ch_digest L q a owner) s of
                      (resp, None) \<Rightarrow> (fit resp, d1)
                    | (resp, Some (s', specs)) \<Rightarrow>
                        (case commit_state J E s' specs d1 of
                           (Inl _, d2) \<Rightarrow> (ChannelError ''state_corrupt'', d2)
                         | (Inr _, d2) \<Rightarrow> (fit resp, d2)))))"

end
