(* ===== verification/CoordChannelLaws.thy ===== *)
theory CoordChannelLaws
  imports CoordChannels CoordClaimLaws
begin

text \<open>
  What a channel request may do to its wave is the relation \<open>channel_step\<close>: refuse, repeat an
  acknowledgment, send, acknowledge.  The decision procedure refines it; the validator accepts every
  state that a step leads to.
\<close>

section \<open>The steps of a wave\<close>

definition add_event :: "channel_event \<Rightarrow> (string \<times> channel_message) list \<Rightarrow> channel_wave \<Rightarrow> channel_wave" where
  "add_event e msgs w = w\<lparr>hw_messages := msgs, hw_events := hw_events w @ [e], hw_highwater := ce_cursor e\<rparr>"

definition sent_event :: "claim_owner \<Rightarrow> string \<Rightarrow> string list \<Rightarrow> channel_wave \<Rightarrow> channel_event" where
  "sent_event owner mid rs w =
     \<lparr>ce_cursor = hw_highwater w + 1, ce_message = mid, ce_version = 1, ce_sender = owner, ce_recipients = rs, ce_ack = None\<rparr>"

definition ack_event :: "claim_owner \<Rightarrow> string \<Rightarrow> channel_message \<Rightarrow> channel_wave \<Rightarrow> channel_event" where
  "ack_event owner mid m w =
     \<lparr>ce_cursor = hw_highwater w + 1, ce_message = mid, ce_version = cm_version m, ce_sender = cm_sender m,
      ce_recipients = cm_recipients m, ce_ack = Some owner\<rparr>"

definition new_message :: "claim_owner \<Rightarrow> string \<Rightarrow> string list \<Rightarrow> json_body \<Rightarrow> channel_message" where
  "new_message owner mid rs body =
     \<lparr>cm_id = mid, cm_version = 1, cm_recipients = rs, cm_body = body, cm_sender = owner, cm_acks = []\<rparr>"

inductive channel_step :: "claim_owner \<Rightarrow> channel_wave \<Rightarrow> channel_response \<Rightarrow> channel_wave \<Rightarrow> bool" for owner w where
  step_refuse: "c \<in> set [''message_exists'', ''not_found'', ''version_mismatch'', ''capacity''] \<Longrightarrow>
    channel_step owner w (ChannelError c) w"
| step_again: "map_of (hw_messages w) mid = Some m \<Longrightarrow> ow_principal owner \<in> set (cm_recipients m) \<Longrightarrow>
    map_of (cm_acks m) (ow_principal owner) = Some ack \<Longrightarrow> channel_step owner w (AckView mid (cm_version m) ack) w"
| step_send: "map_of (hw_messages w) mid = None \<Longrightarrow> short_text mid \<Longrightarrow> valid_recipients rs \<Longrightarrow> valid_body body \<Longrightarrow>
    m = new_message owner mid rs body \<Longrightarrow>
    channel_step owner w (MessageView m) (add_event (sent_event owner mid rs w) (AList.update mid m (hw_messages w)) w)"
| step_ack: "map_of (hw_messages w) mid = Some m \<Longrightarrow> ow_principal owner \<in> set (cm_recipients m) \<Longrightarrow>
    map_of (cm_acks m) (ow_principal owner) = None \<Longrightarrow>
    m' = m\<lparr>cm_acks := AList.update (ow_principal owner) owner (cm_acks m)\<rparr> \<Longrightarrow>
    channel_step owner w (AckView mid (cm_version m) owner)
      (add_event (ack_event owner mid m w) (AList.update mid m' (hw_messages w)) w)"

inductive_cases channel_step_elims: "channel_step owner w resp w'"

section \<open>Steps keep a wave's content valid\<close>

definition content_ok :: "channel_wave \<Rightarrow> bool" where
  "content_ok w \<longleftrightarrow> hw_highwater w = int (length (hw_events w)) \<and> distinct (map fst (hw_messages w)) \<and>
     list_all valid_message (hw_messages w) \<and> valid_channel_events (hw_messages w) (hw_events w)"

lemma valid_channel_wave_iff:
  "valid_channel_wave (k, w) \<longleftrightarrow> short_authority (hw_authority w) \<and> k = claim_wave_key (hw_authority w) \<and> content_ok w \<and>
     list_all (\<lambda>or. short_text (fst or) \<and> valid_fingerprint (ch_fingerprint (snd or)) \<and>
       valid_channel_response (hw_messages w) (ch_response (snd or))) (hw_receipts w)"
  by (auto simp: valid_channel_wave_def short_authority_def content_ok_def)

text \<open>Responses and events speak of messages by id, and of acknowledgments that stay.\<close>

definition messages_grow :: "(string \<times> channel_message) list \<Rightarrow> (string \<times> channel_message) list \<Rightarrow> bool" where
  "messages_grow msgs msgs' \<longleftrightarrow>
     (\<forall>i m. map_of msgs i = Some m \<longrightarrow> (\<exists>m'. map_of msgs' i = Some m' \<and> cm_version m' = cm_version m \<and>
        cm_recipients m' = cm_recipients m \<and> cm_body m' = cm_body m \<and> cm_sender m' = cm_sender m \<and>
        (\<forall>p ow. map_of (cm_acks m) p = Some ow \<longrightarrow> map_of (cm_acks m') p = Some ow)))"

lemma messages_grow_refl: "messages_grow msgs msgs"
  by (simp add: messages_grow_def)

lemma messages_growD:
  assumes "messages_grow msgs msgs'" "map_of msgs i = Some m"
  obtains m' where "map_of msgs' i = Some m'" "cm_version m' = cm_version m" "cm_recipients m' = cm_recipients m"
    "cm_body m' = cm_body m" "cm_sender m' = cm_sender m"
    "\<And>p ow. map_of (cm_acks m) p = Some ow \<Longrightarrow> map_of (cm_acks m') p = Some ow"
  using assms unfolding messages_grow_def by blast

lemma response_grows:
  assumes "messages_grow msgs msgs'" "valid_channel_response msgs r"
  shows "valid_channel_response msgs' r"
proof (cases r)
  case (MessageView v)
  then obtain m where m: "map_of msgs (cm_id v) = Some m" using assms(2) by (auto split: option.splits)
  obtain m' where "map_of msgs' (cm_id v) = Some m'" "cm_version m' = cm_version m" "cm_recipients m' = cm_recipients m"
    "cm_body m' = cm_body m" "cm_sender m' = cm_sender m"
    "\<And>p ow. map_of (cm_acks m) p = Some ow \<Longrightarrow> map_of (cm_acks m') p = Some ow"
    by (rule messages_growD [OF assms(1) m]) blast
  then show ?thesis using assms(2) MessageView m by auto
next
  case (AckView i ver ow)
  then obtain m where m: "map_of msgs i = Some m" using assms(2) by (auto split: option.splits)
  obtain m' where "map_of msgs' i = Some m'" "cm_version m' = cm_version m" "cm_recipients m' = cm_recipients m"
    "cm_body m' = cm_body m" "cm_sender m' = cm_sender m"
    "\<And>p ow. map_of (cm_acks m) p = Some ow \<Longrightarrow> map_of (cm_acks m') p = Some ow"
    by (rule messages_growD [OF assms(1) m]) blast
  then show ?thesis using assms(2) AckView m by auto
qed (use assms(2) in auto)

lemma event_grows:
  assumes "messages_grow msgs msgs'" "valid_channel_event msgs e"
  shows "valid_channel_event msgs' e"
proof -
  obtain m where m: "map_of msgs (ce_message e) = Some m" using assms(2) by (auto simp: valid_channel_event_def split: option.splits)
  obtain m' where "map_of msgs' (ce_message e) = Some m'" "cm_version m' = cm_version m" "cm_recipients m' = cm_recipients m"
    "cm_body m' = cm_body m" "cm_sender m' = cm_sender m"
    "\<And>p ow. map_of (cm_acks m) p = Some ow \<Longrightarrow> map_of (cm_acks m') p = Some ow"
    by (rule messages_growD [OF assms(1) m]) blast
  then show ?thesis using assms(2) m by (auto simp: valid_channel_event_def split: option.splits)
qed

lemma grow_send: "map_of msgs mid = None \<Longrightarrow> messages_grow msgs (AList.update mid m msgs)"
  by (auto simp: messages_grow_def update_conv')

lemma grow_ack:
  assumes "map_of msgs mid = Some m" "map_of (cm_acks m) p = None"
  shows "messages_grow msgs (AList.update mid (m\<lparr>cm_acks := AList.update p ow (cm_acks m)\<rparr>) msgs)"
  using assms by (auto simp: messages_grow_def update_conv')

lemma step_grows: "channel_step owner w resp w' \<Longrightarrow> messages_grow (hw_messages w) (hw_messages w')"
  by (erule channel_step.cases) (auto simp: messages_grow_refl grow_send grow_ack add_event_def)

text \<open>Adding an event for a new message, or for a new acknowledgment.\<close>

lemma event_lists_snoc [simp]:
  "sent_ids (es @ [e]) = sent_ids es @ (if ce_ack e = None then [ce_message e] else [])"
  "ack_keys (es @ [e]) = ack_keys es @ (case ce_ack e of None \<Rightarrow> [] | Some ow \<Rightarrow> [(ce_message e, ow_principal ow)])"
  by (auto simp: sent_ids_def ack_keys_def List.map_filter_def split: option.split)

lemma set_expected_acks:
  "set (expected_acks []) = {}"
  "set (expected_acks (km # msgs)) = {fst km} \<times> fst ` set (cm_acks (snd km)) \<union> set (expected_acks msgs)"
  "set (expected_acks (msgs @ msgs')) = set (expected_acks msgs) \<union> set (expected_acks msgs')"
  by (auto simp: expected_acks_def)

lemma expected_acks_keys: "i \<notin> fst ` set msgs \<Longrightarrow> (i, p) \<notin> set (expected_acks msgs)"
  by (induction msgs) (auto simp: set_expected_acks)

lemma expected_acks_update:
  assumes "distinct (map fst msgs)"
  shows "set (expected_acks (AList.update i m msgs)) = {(j, p) \<in> set (expected_acks msgs). j \<noteq> i} \<union> {i} \<times> fst ` set (cm_acks m)"
proof (cases "map_of msgs i")
  case None
  then have "(i, p) \<notin> set (expected_acks msgs)" for p by (intro expected_acks_keys) (simp add: map_of_eq_None_iff)
  then show ?thesis using None by (auto simp: update_new set_expected_acks)
next
  case (Some m0)
  from update_split [OF this, of m] obtain a b where ab: "msgs = a @ (i, m0) # b" "AList.update i m msgs = a @ (i, m) # b" by blast
  then have "i \<notin> fst ` set a" "i \<notin> fst ` set b" using assms by auto
  then have "(i, p) \<notin> set (expected_acks a)" "(i, p) \<notin> set (expected_acks b)" for p using expected_acks_keys by blast+
  then show ?thesis unfolding ab(2) unfolding ab(1) set_expected_acks by auto
qed

lemma expected_acks_mem:
  assumes "distinct (map fst msgs)" "map_of msgs i = Some m"
  shows "(i, p) \<in> set (expected_acks msgs) \<longleftrightarrow> p \<in> fst ` set (cm_acks m)"
proof -
  have "AList.update i m msgs = msgs"
    using update_split [OF assms(2), of m] by auto
  then show ?thesis using expected_acks_update [OF assms(1), of i m] by auto
qed

lemma content_add:
  assumes ok: "content_ok w" and grow: "messages_grow (hw_messages w) (AList.update i m (hw_messages w))"
    and m: "valid_message (i, m)" and e: "ce_cursor e = hw_highwater w + 1" "valid_channel_event (AList.update i m (hw_messages w)) e"
    and lists: "distinct (sent_ids (hw_events w @ [e]))" "distinct (ack_keys (hw_events w @ [e]))"
      "set (sent_ids (hw_events w @ [e])) = insert i (fst ` set (hw_messages w))"
      "set (ack_keys (hw_events w @ [e])) = set (expected_acks (AList.update i m (hw_messages w)))"
  shows "content_ok (add_event e (AList.update i m (hw_messages w)) w)"
proof -
  have "map ce_cursor (hw_events w @ [e]) = map (\<lambda>n. int n + 1) [0..<length (hw_events w @ [e])]"
    using ok e(1) by (simp add: content_ok_def valid_channel_events_def)
  moreover have "list_all (valid_channel_event (AList.update i m (hw_messages w))) (hw_events w)"
    using ok event_grows [OF grow] by (auto simp: content_ok_def valid_channel_events_def list_all_iff)
  moreover have "distinct (map fst (AList.update i m (hw_messages w)))"
    using ok distinct_update [of "hw_messages w" i m] by (simp add: content_ok_def)
  moreover have "list_all valid_message (AList.update i m (hw_messages w))"
    using ok m by (intro list_all_update) (auto simp: content_ok_def)
  ultimately show ?thesis
    using ok e lists unfolding content_ok_def valid_channel_events_def
    by (simp add: add_event_def keys_update del: event_lists_snoc)
qed

lemma message_lookup:
  assumes "content_ok w" "map_of (hw_messages w) i = Some m"
  shows "valid_message (i, m)"
  using assms map_of_SomeD [OF assms(2)] by (auto simp: content_ok_def list_all_iff)

lemma step_content:
  assumes "channel_step owner w resp w'" "channel_owner owner" "content_ok w"
  shows "content_ok w' \<and> valid_channel_response (hw_messages w') resp"
  using assms(1)
proof cases
  case (step_refuse c)
  then show ?thesis using assms(3) by simp
next
  case (step_again mid m ack)
  have "valid_message (mid, m)" by (rule message_lookup [OF assms(3) step_again(3)])
  then show ?thesis using step_again assms(3) map_of_SomeD [OF step_again(5)]
    by (auto simp: valid_message_def valid_acks_def list_all_iff)
next
  case (step_send mid rs body m)
  have m: "valid_message (mid, m)" using step_send assms(2)
    by (simp add: valid_message_def new_message_def valid_acks_def)
  have new: "mid \<notin> fst ` set (hw_messages w)" using step_send(3) by (simp add: map_of_eq_None_iff)
  have keys: "set (sent_ids (hw_events w)) = fst ` set (hw_messages w)" "distinct (sent_ids (hw_events w))"
    "set (ack_keys (hw_events w)) = set (expected_acks (hw_messages w))" "distinct (ack_keys (hw_events w))"
    "distinct (map fst (hw_messages w))"
    using assms(3) by (simp_all add: content_ok_def valid_channel_events_def)
  have "content_ok (add_event (sent_event owner mid rs w) (AList.update mid m (hw_messages w)) w)"
  proof (rule content_add [OF assms(3) grow_send [OF step_send(3)] m])
    show "valid_channel_event (AList.update mid m (hw_messages w)) (sent_event owner mid rs w)"
      using step_send assms(2) by (simp add: valid_channel_event_def sent_event_def update_conv' new_message_def)
    have "(mid, p) \<notin> set (expected_acks (hw_messages w))" for p
      by (rule expected_acks_keys [OF new])
    then show "set (ack_keys (hw_events w @ [sent_event owner mid rs w])) = set (expected_acks (AList.update mid m (hw_messages w)))"
      using keys step_send(7) by (auto simp: sent_event_def expected_acks_update new_message_def)
  qed (use keys new in \<open>auto simp: sent_event_def\<close>)
  then show ?thesis using step_send m
    by (simp add: add_event_def update_conv' new_message_def)
next
  case (step_ack mid m m')
  have m: "valid_message (mid, m)" by (rule message_lookup [OF assms(3) step_ack(3)])
  have m': "valid_message (mid, m')" using m step_ack assms(2)
    by (auto simp: valid_message_def valid_acks_def channel_owner_def keys_update intro!: list_all_update)
  have keys: "set (sent_ids (hw_events w)) = fst ` set (hw_messages w)" "distinct (sent_ids (hw_events w))"
    "set (ack_keys (hw_events w)) = set (expected_acks (hw_messages w))" "distinct (ack_keys (hw_events w))"
    "distinct (map fst (hw_messages w))"
    using assms(3) by (simp_all add: content_ok_def valid_channel_events_def)
  have mem: "(mid, p) \<in> set (expected_acks (hw_messages w)) \<longleftrightarrow> p \<in> fst ` set (cm_acks m)" for p
    by (rule expected_acks_mem [OF keys(5) step_ack(3)])
  have new: "(mid, ow_principal owner) \<notin> set (ack_keys (hw_events w))"
    using mem step_ack(5) keys(3) by (simp add: map_of_eq_None_iff)
  have "mid \<in> fst ` set (hw_messages w)" using map_of_SomeD [OF step_ack(3)] by force
  moreover have "content_ok (add_event (ack_event owner mid m w) (AList.update mid m' (hw_messages w)) w)"
  proof (rule content_add [OF assms(3) grow_ack [OF step_ack(3,5), of owner, folded step_ack(6)] m'])
    show "valid_channel_event (AList.update mid m' (hw_messages w)) (ack_event owner mid m w)"
      using step_ack assms(2) m by (auto simp: valid_channel_event_def ack_event_def update_conv' valid_message_def)
    show "set (ack_keys (hw_events w @ [ack_event owner mid m w])) = set (expected_acks (AList.update mid m' (hw_messages w)))"
    proof -
      have "fst ` set (cm_acks m') = insert (ow_principal owner) {p. (mid, p) \<in> set (expected_acks (hw_messages w))}"
        unfolding step_ack(6) mem by (simp add: keys_update)
      then show ?thesis unfolding expected_acks_update [OF keys(5)] using keys(3) by (auto simp: ack_event_def)
    qed
  qed (use keys new calculation in \<open>auto simp: ack_event_def\<close>)
  ultimately show ?thesis using step_ack m assms(2)
    by (simp add: add_event_def update_conv' valid_message_def)
qed

section \<open>Requests refine the steps\<close>

fun operation_ok :: "channel_operation \<Rightarrow> bool" where
  "operation_ok (SendMessage i rs body) = (short_text i \<and> valid_recipients rs \<and> valid_body body)"
| "operation_ok (AckMessage i v) = short_text i"
| "operation_ok _ = True"

definition channel_request_ok :: "channel_request \<Rightarrow> bool" where
  "channel_request_ok q \<longleftrightarrow> short_text (cq_op_id q) \<and> operation_ok (cq_operation q)"

lemma short_field_Some: "short_field v = Some s \<Longrightarrow> short_text s"
  by (cases v) (auto simp: short_field_def split: if_splits)

lemma read_operation_ok: "read_operation L op request = Some c \<Longrightarrow> operation_ok c"
  by (auto simp: read_operation_def read_send_def read_ack_def read_events_query_def read_recipients_def valid_body_def Let_def
      short_field_Some split: if_splits option.splits pyval.splits)

lemma validate_channel_request_ok:
  assumes "validate_channel_request L request a owner = Some q"
  shows "short_authority a" "channel_owner owner" "channel_request_ok q"
  using assms
  by (auto simp: validate_channel_request_def channel_request_ok_def Let_def short_field_Some read_operation_ok
      split: if_splits option.splits)

definition with_receipt :: "string \<Rightarrow> string \<Rightarrow> channel_response \<Rightarrow> channel_wave \<Rightarrow> channel_wave" where
  "with_receipt i fp resp w = w\<lparr>hw_receipts := AList.update i \<lparr>ch_fingerprint = fp, ch_response = resp\<rparr> (hw_receipts w)\<rparr>"

text \<open>A committed state: the wave took a step and has the receipt; the new totals are within the bounds.\<close>

definition committed :: "channel_lib \<Rightarrow> coord_state \<Rightarrow> claim_authority \<Rightarrow> claim_owner \<Rightarrow> string \<Rightarrow> string \<Rightarrow> channel_response \<Rightarrow> coord_state \<Rightarrow> bool" where
  "committed L s a owner i fp resp s' \<longleftrightarrow>
     (\<exists>w'. channel_step owner (channel_wave_of s a) resp w' \<and> response_fits L resp \<and>
        s' = s\<lparr>channels := Some (AList.update (claim_wave_key a) (with_receipt i fp resp w') (channel_map s),
          ch_extension_bytes L (AList.update (claim_wave_key a) (with_receipt i fp resp w') (channel_map s)))\<rparr> \<and>
        ch_extension_bytes L (AList.update (claim_wave_key a) (with_receipt i fp resp w') (channel_map s)) \<le> 8 * 1024 * 1024 \<and>
        (w' = channel_wave_of s a \<or> channel_total hw_events (channel_map s) < 32000) \<and>
        (length (hw_messages w') \<le> length (hw_messages (channel_wave_of s a)) \<or> channel_total hw_messages (channel_map s) < 1000))"

lemma record_Some_None:
  assumes "record_mutation L s a who i fp (channel_wave_of s a) resp None = Some (s', specs)"
    "channel_step owner (channel_wave_of s a) resp (channel_wave_of s a)"
  shows "committed L s a owner i fp resp s' \<and> specs = []"
  using assms by (auto simp: record_mutation_def committed_def with_receipt_def Let_def split: if_splits)

lemma commit_mutation_committed:
  assumes "commit_mutation L s a who i fp (channel_wave_of s a) resp = (r, Some (s', specs))"
    "channel_step owner (channel_wave_of s a) resp (channel_wave_of s a)"
  shows "committed L s a owner i fp r s' \<and> specs = []"
proof -
  have cap: "channel_step owner (channel_wave_of s a) (ChannelError ''capacity'') (channel_wave_of s a)"
    by (rule step_refuse) simp
  show ?thesis
    using assms record_Some_None [OF _ assms(2)] record_Some_None [OF _ cap]
    by (auto simp: commit_mutation_def split: option.splits)
qed

lemma commit_event_committed:
  assumes com: "commit_event L s a who i fp (channel_wave_of s a) (channel_wave_of s a\<lparr>hw_messages := msgs\<rparr>) resp e = (r, Some (s', specs))"
    and step: "channel_step owner (channel_wave_of s a) resp (add_event e msgs (channel_wave_of s a))"
    and room: "channel_total hw_events (channel_map s) < 32000"
      "length msgs \<le> length (hw_messages (channel_wave_of s a)) \<or> channel_total hw_messages (channel_map s) < 1000"
  shows "committed L s a owner i fp r s'"
proof (cases "record_mutation L s a who i fp (channel_wave_of s a\<lparr>hw_messages := msgs\<rparr>) resp (Some e)")
  case None
  have "channel_step owner (channel_wave_of s a) (ChannelError ''capacity'') (channel_wave_of s a)"
    by (rule step_refuse) simp
  then show ?thesis using com None commit_mutation_committed by (auto simp: commit_event_def)
next
  case (Some c)
  then have c: "c = (s', specs)" "r = resp" using com by (simp_all add: commit_event_def)
  have w: "with_receipt i fp resp (add_event e msgs (channel_wave_of s a)) =
      (let w1 = channel_wave_of s a\<lparr>hw_messages := msgs, hw_events := hw_events (channel_wave_of s a) @ [e], hw_highwater := ce_cursor e\<rparr>
       in w1\<lparr>hw_receipts := AList.update i \<lparr>ch_fingerprint = fp, ch_response = resp\<rparr> (hw_receipts w1)\<rparr>)"
    by (simp add: with_receipt_def add_event_def Let_def)
  have "response_fits L resp" "s' = s\<lparr>channels := Some (AList.update (claim_wave_key a)
          (with_receipt i fp resp (add_event e msgs (channel_wave_of s a))) (channel_map s),
        ch_extension_bytes L (AList.update (claim_wave_key a) (with_receipt i fp resp (add_event e msgs (channel_wave_of s a))) (channel_map s)))\<rparr>"
    "ch_extension_bytes L (AList.update (claim_wave_key a) (with_receipt i fp resp (add_event e msgs (channel_wave_of s a))) (channel_map s))
       \<le> 8 * 1024 * 1024"
    using Some unfolding c w by (auto simp: record_mutation_def Let_def split: if_splits)
  then show ?thesis
    unfolding committed_def c(2) using step room by (intro exI [of _ "add_event e msgs (channel_wave_of s a)"]) (simp add: add_event_def)
qed

lemma decide_channel_committed:
  assumes dec: "decide_channel L q a owner fp s = (resp, Some (s', specs))" and q: "channel_request_ok q"
  shows "committed L s a owner (cq_op_id q) fp resp s' \<and> hw_authority (channel_wave_of s a) = a \<and>
    map_of (hw_receipts (channel_wave_of s a)) (cq_op_id q) = None \<and> channel_total hw_receipts (channel_map s) < 10000"
proof -
  let ?w = "channel_wave_of s a"
  have auth: "hw_authority ?w = a" using dec by (auto simp: decide_channel_def Let_def split: if_splits)
  have none: "map_of (hw_receipts ?w) (cq_op_id q) = None"
    using dec auth by (auto simp: decide_channel_def Let_def split: channel_operation.splits option.splits)
  have refuse: "channel_step owner ?w (ChannelError c) ?w"
    if "c \<in> set [''message_exists'', ''not_found'', ''version_mismatch'', ''capacity'']" for c
    using that by (rule step_refuse)
  show ?thesis
  proof (cases "cq_operation q")
    case (SendMessage mid rs body)
    then have sm: "send_message L s a owner (cq_op_id q) fp ?w mid rs body = (resp, Some (s', specs))"
      using dec auth none by (simp add: decide_channel_def Let_def)
    have room: "channel_total hw_receipts (channel_map s) < 10000" using sm by (auto simp: send_message_def split: if_splits)
    have ok: "short_text mid" "valid_recipients rs" "valid_body body" using q SendMessage by (simp_all add: channel_request_ok_def)
    show ?thesis
    proof (cases "map_of (hw_messages ?w) mid = None \<and> channel_total hw_messages (channel_map s) < 1000 \<and>
        channel_total hw_events (channel_map s) < 32000")
      case True
      then have "commit_event L s a (ow_principal owner) (cq_op_id q) fp ?w
          (?w\<lparr>hw_messages := AList.update mid (new_message owner mid rs body) (hw_messages ?w)\<rparr>)
          (MessageView (new_message owner mid rs body)) (sent_event owner mid rs ?w) = (resp, Some (s', specs))"
        using sm room by (simp add: send_message_def Let_def new_message_def sent_event_def)
      then have "committed L s a owner (cq_op_id q) fp resp s'"
        by (rule commit_event_committed) (use True ok in \<open>auto intro: step_send\<close>)
      then show ?thesis using auth none room by simp
    next
      case False
      then obtain c where "commit_mutation L s a (ow_principal owner) (cq_op_id q) fp ?w (ChannelError c) = (resp, Some (s', specs))"
        "c \<in> set [''message_exists'', ''capacity'']"
        using sm room by (auto simp: send_message_def split: if_splits)
      then show ?thesis using commit_mutation_committed [OF _ refuse] auth none room by auto
    qed
  next
    case (AckMessage mid ver)
    then have am: "ack_message L s a owner (cq_op_id q) fp ?w mid ver = (resp, Some (s', specs))"
      using dec auth none by (simp add: decide_channel_def Let_def)
    have room: "channel_total hw_receipts (channel_map s) < 10000" using am by (auto simp: ack_message_def Let_def split: if_splits)
    consider (refused) c where "commit_mutation L s a (ow_principal owner) (cq_op_id q) fp ?w (ChannelError c) = (resp, Some (s', specs))"
        "c \<in> set [''not_found'', ''version_mismatch'', ''capacity'']"
      | (again) m ack where "map_of (hw_messages ?w) mid = Some m" "ow_principal owner \<in> set (cm_recipients m)"
        "map_of (cm_acks m) (ow_principal owner) = Some ack"
        "commit_mutation L s a (ow_principal owner) (cq_op_id q) fp ?w (AckView mid (cm_version m) ack) = (resp, Some (s', specs))"
      | (acked) m where "map_of (hw_messages ?w) mid = Some m" "ow_principal owner \<in> set (cm_recipients m)"
        "map_of (cm_acks m) (ow_principal owner) = None" "channel_total hw_events (channel_map s) < 32000"
        "commit_event L s a (ow_principal owner) (cq_op_id q) fp ?w
          (?w\<lparr>hw_messages := AList.update mid (m\<lparr>cm_acks := AList.update (ow_principal owner) owner (cm_acks m)\<rparr>) (hw_messages ?w)\<rparr>)
          (AckView mid (cm_version m) owner) (ack_event owner mid m ?w) = (resp, Some (s', specs))"
      using am room by (auto simp: ack_message_def Let_def ack_event_def not_le split: if_splits option.splits)
    then show ?thesis
    proof cases
      case refused
      then show ?thesis using commit_mutation_committed [OF refused(1) refuse] auth none room by auto
    next
      case again
      show ?thesis using commit_mutation_committed [OF again(4) step_again [OF again(1,2,3)]] auth none room by simp
    next
      case acked
      have "length (AList.update mid (m\<lparr>cm_acks := AList.update (ow_principal owner) owner (cm_acks m)\<rparr>) (hw_messages ?w)) =
          length (hw_messages ?w)"
        using acked(1) by (simp add: length_update)
      then have "committed L s a owner (cq_op_id q) fp resp s'"
        using acked by (intro commit_event_committed [OF acked(5)] step_ack [OF acked(1,2,3) refl]) auto
      then show ?thesis using auth none room by simp
    qed
  qed (use dec auth in \<open>auto simp: decide_channel_def Let_def\<close>)
qed

section \<open>The store accepts what is committed\<close>

lemma channel_map_valid:
  "sound s \<Longrightarrow> list_all valid_channel_wave (channel_map s) \<and> channel_total hw_messages (channel_map s) \<le> 1000 \<and>
     channel_total hw_receipts (channel_map s) \<le> 10000 \<and> channel_total hw_events (channel_map s) \<le> 32000"
  by (auto simp: sound_def validate_state_def valid_channels_def channel_map_def channel_total_def split: option.splits)

lemma channel_wave_valid:
  assumes "sound s" "short_authority a" "hw_authority (channel_wave_of s a) = a"
  shows "valid_channel_wave (claim_wave_key a, channel_wave_of s a)"
proof (cases "map_of (channel_map s) (claim_wave_key a)")
  case None
  then show ?thesis using assms(2)
    by (simp add: channel_wave_of_def valid_channel_wave_iff content_ok_def valid_channel_events_def sent_ids_def ack_keys_def
        expected_acks_def List.map_filter_simps)
next
  case (Some w)
  then show ?thesis using channel_map_valid [OF assms(1)] map_of_SomeD [OF Some]
    by (auto simp: channel_wave_of_def list_all_iff)
qed

lemma channel_total_update:
  assumes "w = channel_wave_of s a" "f \<lparr>hw_authority = a, hw_messages = [], hw_receipts = [], hw_events = [], hw_highwater = 0\<rparr> = []"
  shows "channel_total f (AList.update (claim_wave_key a) w' (channel_map s)) + length (f w) =
    channel_total f (channel_map s) + length (f w')"
proof (cases "map_of (channel_map s) (claim_wave_key a)")
  case None
  then show ?thesis using assms by (simp add: channel_wave_of_def update_new channel_total_def)
next
  case (Some w0)
  from update_split [OF this, of w'] obtain A B where
    ab: "channel_map s = A @ (claim_wave_key a, w0) # B" "AList.update (claim_wave_key a) w' (channel_map s) = A @ (claim_wave_key a, w') # B"
    by blast
  have "w = w0" using Some assms(1) by (simp add: channel_wave_of_def)
  then show ?thesis unfolding ab(2) unfolding ab(1) by (simp add: channel_total_def)
qed

lemma step_lengths:
  assumes "channel_step owner w resp w'"
  shows "hw_authority w' = hw_authority w \<and> hw_receipts w' = hw_receipts w \<and>
    length (hw_messages w) \<le> length (hw_messages w') \<and> length (hw_messages w') \<le> length (hw_messages w) + 1 \<and>
    (\<exists>es. hw_events w' = hw_events w @ es \<and> length es \<le> 1)"
  using assms by cases (auto simp: add_event_def length_update)

lemma channel_sound:
  assumes s: "sound s" and a: "short_authority a" "hw_authority (channel_wave_of s a) = a" and owner: "channel_owner owner"
    and i: "short_text i" "map_of (hw_receipts (channel_wave_of s a)) i = None" "channel_total hw_receipts (channel_map s) < 10000"
    and fp: "valid_fingerprint fp" and com: "committed L s a owner i fp resp s'"
  shows "sound s'"
proof -
  let ?w = "channel_wave_of s a"
  obtain w' where step: "channel_step owner ?w resp w'"
    and s': "s' = s\<lparr>channels := Some (AList.update (claim_wave_key a) (with_receipt i fp resp w') (channel_map s),
          ch_extension_bytes L (AList.update (claim_wave_key a) (with_receipt i fp resp w') (channel_map s)))\<rparr>"
    and bytes: "ch_extension_bytes L (AList.update (claim_wave_key a) (with_receipt i fp resp w') (channel_map s)) \<le> 8 * 1024 * 1024"
    and room: "w' = ?w \<or> channel_total hw_events (channel_map s) < 32000"
      "length (hw_messages w') \<le> length (hw_messages ?w) \<or> channel_total hw_messages (channel_map s) < 1000"
    using com unfolding committed_def by blast
  let ?w2 = "with_receipt i fp resp w'"
  let ?ws = "AList.update (claim_wave_key a) ?w2 (channel_map s)"
  note wv = channel_wave_valid [OF s a, unfolded valid_channel_wave_iff]
  have content: "content_ok w'" "valid_channel_response (hw_messages w') resp"
    using step_content [OF step owner] wv by blast+
  have fields: "hw_authority ?w2 = a" "hw_messages ?w2 = hw_messages w'" "hw_events ?w2 = hw_events w'"
    "hw_highwater ?w2 = hw_highwater w'" "hw_receipts ?w2 = AList.update i \<lparr>ch_fingerprint = fp, ch_response = resp\<rparr> (hw_receipts ?w)"
    using step_lengths [OF step] a(2) by (simp_all add: with_receipt_def)
  have "list_all (\<lambda>or. short_text (fst or) \<and> valid_fingerprint (ch_fingerprint (snd or)) \<and>
       valid_channel_response (hw_messages w') (ch_response (snd or))) (hw_receipts ?w)"
    using wv response_grows [OF step_grows [OF step]] by (auto simp: list_all_iff)
  then have "valid_channel_wave (claim_wave_key a, ?w2)"
    unfolding valid_channel_wave_iff content_ok_def fields using content a(1) i(1) fp
    by (auto simp: content_ok_def intro!: list_all_update)
  then have waves: "list_all valid_channel_wave ?ws" using channel_map_valid [OF s] by (intro list_all_update) auto
  have lens: "length (hw_receipts ?w2) = Suc (length (hw_receipts ?w))" using i(2) by (simp add: fields length_update)
  obtain es where es: "hw_events w' = hw_events ?w @ es" "length es \<le> 1" using step_lengths [OF step] by blast
  have total: "channel_total f ?ws + length (f ?w) = channel_total f (channel_map s) + length (f ?w2)"
    if "f \<lparr>hw_authority = a, hw_messages = [], hw_receipts = [], hw_events = [], hw_highwater = 0\<rparr> = []"
    for f :: "channel_wave \<Rightarrow> 'z list"
    by (rule channel_total_update [where f = f, OF refl that])
  have receipts: "channel_total hw_receipts ?ws \<le> 10000" using total [of hw_receipts] lens i(3) by simp
  have messages: "channel_total hw_messages ?ws \<le> 1000"
    using total [of hw_messages] fields(2) step_lengths [OF step] room(2) channel_map_valid [OF s] by simp linarith
  have events: "channel_total hw_events ?ws \<le> 32000"
  proof (cases "w' = ?w")
    case True
    then show ?thesis using total [of hw_events] fields(3) channel_map_valid [OF s] by simp
  next
    case False
    then show ?thesis using total [of hw_events] fields(3) es room(1) by simp
  qed
  have "valid_channels (Some (?ws, ch_extension_bytes L ?ws))"
    unfolding valid_channels_def option.case prod.case by (intro conjI bytes waves receipts messages events)
  moreover have "channels s' = Some (?ws, ch_extension_bytes L ?ws)" unfolding s' by simp
  ultimately have "valid_channels (channels s')" by (simp only:)
  moreover have eqs: "next_token s' = next_token s" "holds s' = holds s" "resources s' = resources s" "claims s' = claims s"
    by (simp_all add: s')
  ultimately show ?thesis using s unfolding sound_def validate_state_def latest_only_def eqs by blast
qed

lemma decide_channel_sound:
  assumes "sound s" "short_authority a" "channel_owner owner" "channel_request_ok q" "valid_fingerprint fp"
    and "decide_channel L q a owner fp s = (resp, Some (s', specs))"
  shows "sound s'"
  using channel_sound [OF assms(1,2) _ assms(3) _ _ _ assms(5)] decide_channel_committed [OF assms(6,4)] assms(4)
  by (auto simp: channel_request_ok_def)

section \<open>What stays\<close>

definition channel_wave_kept :: "channel_wave \<Rightarrow> channel_wave \<Rightarrow> bool" where
  "channel_wave_kept w w' \<longleftrightarrow> hw_authority w' = hw_authority w \<and> messages_grow (hw_messages w) (hw_messages w') \<and>
     (\<exists>es. hw_events w' = hw_events w @ es) \<and>
     (\<forall>i r. map_of (hw_receipts w) i = Some r \<longrightarrow> map_of (hw_receipts w') i = Some r)"

definition channels_kept :: "coord_state \<Rightarrow> coord_state \<Rightarrow> bool" where
  "channels_kept s s' \<longleftrightarrow> (\<forall>k w. map_of (channel_map s) k = Some w \<longrightarrow>
     (\<exists>w'. map_of (channel_map s') k = Some w' \<and> channel_wave_kept w w'))"

lemma messages_grow_trans:
  assumes "messages_grow a b" "messages_grow b c"
  shows "messages_grow a c"
  unfolding messages_grow_def
proof (intro allI impI)
  fix i m
  assume "map_of a i = Some m"
  then obtain m1 where one: "map_of b i = Some m1" "cm_version m1 = cm_version m"
    "cm_recipients m1 = cm_recipients m" "cm_body m1 = cm_body m" "cm_sender m1 = cm_sender m"
    "\<And>p ow. map_of (cm_acks m) p = Some ow \<Longrightarrow> map_of (cm_acks m1) p = Some ow"
    using messages_growD [OF assms(1)] by metis
  moreover from one(1) obtain m2 where "map_of c i = Some m2" "cm_version m2 = cm_version m1"
    "cm_recipients m2 = cm_recipients m1" "cm_body m2 = cm_body m1" "cm_sender m2 = cm_sender m1"
    "\<And>p ow. map_of (cm_acks m1) p = Some ow \<Longrightarrow> map_of (cm_acks m2) p = Some ow"
    using messages_growD [OF assms(2)] by metis
  ultimately show "\<exists>m'. map_of c i = Some m' \<and> cm_version m' = cm_version m \<and> cm_recipients m' = cm_recipients m \<and>
      cm_body m' = cm_body m \<and> cm_sender m' = cm_sender m \<and>
      (\<forall>p ow. map_of (cm_acks m) p = Some ow \<longrightarrow> map_of (cm_acks m') p = Some ow)"
    by simp
qed

lemma channel_wave_kept_refl: "channel_wave_kept w w"
  by (simp add: channel_wave_kept_def messages_grow_refl)

lemma channel_wave_kept_trans: "channel_wave_kept u v \<Longrightarrow> channel_wave_kept v w \<Longrightarrow> channel_wave_kept u w"
  unfolding channel_wave_kept_def by (auto intro: messages_grow_trans)

lemma channels_kept_trans: "channels_kept s t \<Longrightarrow> channels_kept t u \<Longrightarrow> channels_kept s u"
  unfolding channels_kept_def using channel_wave_kept_trans by blast

lemma channels_kept_same: "channels s' = channels s \<Longrightarrow> channels_kept s s'"
  using channel_wave_kept_refl by (auto simp: channels_kept_def channel_map_def)

lemma committed_kept:
  assumes com: "committed L s a owner i fp resp s'" and new: "map_of (hw_receipts (channel_wave_of s a)) i = None"
  shows "channels_kept s s' \<and> holds s' = holds s \<and> claims s' = claims s \<and>
    (\<exists>w'. map_of (channel_map s') (claim_wave_key a) = Some w' \<and> hw_authority w' = hw_authority (channel_wave_of s a) \<and>
       map_of (hw_receipts w') i = Some \<lparr>ch_fingerprint = fp, ch_response = resp\<rparr>)"
proof -
  obtain w' n where step: "channel_step owner (channel_wave_of s a) resp w'"
    and s': "s' = s\<lparr>channels := Some (AList.update (claim_wave_key a) (with_receipt i fp resp w') (channel_map s), n)\<rparr>"
    using com unfolding committed_def by blast
  have map: "map_of (channel_map s') = (map_of (channel_map s))(claim_wave_key a \<mapsto> with_receipt i fp resp w')"
    by (simp add: s' channel_map_def update_conv')
  have kept: "channel_wave_kept (channel_wave_of s a) (with_receipt i fp resp w')"
    using step_lengths [OF step] step_grows [OF step] new
    by (auto simp: channel_wave_kept_def with_receipt_def update_conv')
  have "\<exists>w''. map_of (channel_map s') k = Some w'' \<and> channel_wave_kept w w''" if "map_of (channel_map s) k = Some w" for k w
  proof (cases "k = claim_wave_key a")
    case True
    then have "channel_wave_of s a = w" using that by (simp add: channel_wave_of_def)
    then show ?thesis using True kept by (simp add: map)
  qed (use that channel_wave_kept_refl in \<open>simp add: map\<close>)
  then have "channels_kept s s'" by (simp add: channels_kept_def)
  then show ?thesis using step_lengths [OF step] by (simp add: s' map with_receipt_def update_conv' channel_map_def)
qed

section \<open>Pages\<close>

definition wanted_events :: "string \<Rightarrow> event_filters \<Rightarrow> channel_event list \<Rightarrow> channel_event list" where
  "wanted_events who ft es = filter (\<lambda>e. visible_event who e \<and> event_matches ft e) es"

text \<open>
  What a page needs of its text: a page that fits with the high-water mark as its cursor and \<open>false\<close> fits with
  any earlier cursor and \<open>true\<close>; the empty page fits, and one event fits.
\<close>

definition pages_fit :: "channel_lib \<Rightarrow> channel_wave \<Rightarrow> bool" where
  "pages_fit L w \<longleftrightarrow>
     (\<forall>es n b. response_fits L (EventPage es (hw_highwater w) False) \<and> 0 \<le> n \<and> n \<le> hw_highwater w \<longrightarrow> response_fits L (EventPage es n b)) \<and>
     response_fits L (EventPage [] (hw_highwater w) False) \<and>
     (\<forall>e \<in> set (hw_events w). response_fits L (EventPage [e] (hw_highwater w) False))"

text \<open>
  All this follows from the bounds of the validator: 32 recipients and six names of at most 256 bytes, each byte
  at most six characters of ASCII JSON, and at most 32000 events.
\<close>

lemma page_text:
  "ascii_json ft (response_value (EventPage es n b)) = map_option (\<lambda>t.
     ''{'' @ json_string ''schema_version'' @ '':1,'' @ json_string ''ok'' @ '':true,'' @ json_string ''events'' @ '':'' @ t @ '','' @
     json_string ''next_cursor'' @ '':'' @ int_str n @ '','' @ json_string ''has_more'' @ '':'' @ (if b then ''true'' else ''false'') @ ''}'')
     (ascii_json ft (PList (map channel_event_value es)))"
proof -
  have one: "int_str 1 = ''1''" by code_simp
  show ?thesis
    by (cases "ascii_json ft (PList (map channel_event_value es))")
      (simp_all add: json_items_def json_member_def one del: ascii_json.simps(6))
qed

lemma page_fits_earlier:
  assumes "response_fits L (EventPage es hw False)" "0 \<le> n" "n \<le> hw"
  shows "response_fits L (EventPage es n b)"
  using assms(1) int_str_mono [OF assms(2,3)]
  unfolding response_fits_def page_text by (auto split: option.splits)

lemma short_length: "short_text s \<Longrightarrow> length s \<le> 256"
proof -
  assume "short_text s"
  moreover have "length s \<le> utf8_bytes s" by (induction s) (auto simp: utf8_bytes_def)
  ultimately show ?thesis by (simp add: short_text_def)
qed

lemma prints_short: "short_text s \<Longrightarrow> prints_within ft (PStr s) 1538"
  by (rule prints_mono [OF prints_str]) (use short_length in fastforce)

lemma prints_owner:
  assumes "channel_owner ow" shows "prints_within ft (owner_json ow) 3200"
proof -
  have "members_within ft [(PStr ''principal'', PStr (ow_principal ow)), (PStr ''session_id'', PStr (ow_session ow))] [1538, 1538]"
    using assms prints_short by (simp add: channel_owner_def)
  moreover have "2 + sum_list (map (\<lambda>kv. key_length (fst kv) + 1) [(PStr ''principal'', PStr (ow_principal ow)),
      (PStr ''session_id'', PStr (ow_session ow))]) + sum_list [1538, 1538] \<le> 3200"
    by (simp add: key_length_def json_string_def json_char_def)
  ultimately show ?thesis unfolding owner_json_def by (rule prints_mono [OF prints_dict])
qed

lemma prints_recipients:
  assumes "valid_recipients rs" shows "prints_within ft (PList (map PStr rs)) 49300"
proof -
  have "prints_within ft v 1538" if "v \<in> set (map PStr rs)" for v
    using that assms prints_short by (auto simp: valid_recipients_def list_all_iff)
  from prints_list [OF this] show ?thesis
  proof (rule prints_mono)
    have "length rs \<le> 32" using assms by (simp add: valid_recipients_def)
    then have "length rs * 1539 \<le> 32 * 1539" by (rule mult_right_mono) simp
    then show "2 + length (map PStr rs) * (1538 + 1) \<le> 49300" by simp
  qed
qed

lemma prints_small: "0 \<le> i \<Longrightarrow> i \<le> 32000 \<Longrightarrow> prints_within ft (PInt i) 5"
proof -
  assume i: "0 \<le> i" "i \<le> 32000"
  have "length (int_str 32000) = 5" by (simp add: int_str_def nat_digits.simps)
  then show ?thesis using int_str_mono [OF i] by (intro prints_mono [OF prints_int]) simp
qed

lemma prints_event:
  assumes "valid_channel_event msgs e" "0 \<le> ce_cursor e" "ce_cursor e \<le> 32000"
  shows "prints_within ft (channel_event_value e) 58000"
proof -
  let ?base = "[(PStr ''cursor'', PInt (ce_cursor e)), (PStr ''kind'', PStr (event_kind e)), (PStr ''message_id'', PStr (ce_message e)),
       (PStr ''version'', PInt (ce_version e)), (PStr ''sender'', owner_json (ce_sender e)),
       (PStr ''recipients'', PList (map PStr (ce_recipients e)))]"
  have kind: "prints_within ft (PStr (event_kind e)) 86"
    by (rule prints_mono [OF prints_str]) (simp add: event_kind_def)
  note ok = assms(1) [unfolded valid_channel_event_def]
  have parts: "prints_within ft (PInt (ce_cursor e)) 5" "prints_within ft (PStr (ce_message e)) 1538"
    "prints_within ft (PInt (ce_version e)) 5" "prints_within ft (owner_json (ce_sender e)) 3200"
    "prints_within ft (PList (map PStr (ce_recipients e))) 49300"
    using ok assms(2,3) prints_small [of "ce_cursor e"] prints_small [of "ce_version e"] prints_short prints_owner prints_recipients
    by auto
  note keys = key_length_def json_string_def json_char_def
  show ?thesis
  proof (cases "ce_ack e")
    case None
    have "members_within ft ?base [5, 86, 1538, 5, 3200, 49300]" using parts kind by simp
    from prints_dict [OF this] show ?thesis
      unfolding channel_event_value_def by (simp add: None) (erule prints_mono, simp add: keys)
  next
    case (Some ow)
    then have "channel_owner ow" using ok by (auto split: option.splits)
    then have "members_within ft (?base @ [(PStr ''acknowledgment'', owner_json ow)]) [5, 86, 1538, 5, 3200, 49300, 3200]"
      using parts kind prints_owner by simp
    from prints_dict [OF this] show ?thesis
      unfolding channel_event_value_def by (simp add: Some) (erule prints_mono, simp add: keys)
  qed
qed

lemma event_page_fits:
  assumes "\<And>e. e \<in> set es \<Longrightarrow> prints_within (ch_float_text L) (channel_event_value e) 58000" "length es \<le> 1" "0 \<le> hw" "hw \<le> 32000"
  shows "response_fits L (EventPage es hw False)"
proof -
  have "prints_within (ch_float_text L) (PList (map channel_event_value es)) (2 + length (map channel_event_value es) * (58000 + 1))"
    by (rule prints_list) (use assms(1) in auto)
  then have "prints_within (ch_float_text L) (PList (map channel_event_value es)) 58003"
    by (rule prints_mono) (use assms(2) in simp)
  moreover have "length (int_str hw) \<le> 5"
    using int_str_mono [OF assms(3,4)] by (simp add: int_str_def nat_digits.simps [of 32000] nat_digits.simps [of 3200]
      nat_digits.simps [of 320] nat_digits.simps [of 32] nat_digits.simps [of 3])
  ultimately show ?thesis
    unfolding response_fits_def page_text by (auto simp: prints_within_def json_string_def json_char_def)
qed

lemma pages_fit_valid:
  assumes "content_ok w" "length (hw_events w) \<le> 32000"
  shows "pages_fit L w"
proof -
  have hw: "hw_highwater w = int (length (hw_events w))" and ev: "valid_channel_events (hw_messages w) (hw_events w)"
    using assms(1) by (simp_all add: content_ok_def)
  have "prints_within (ch_float_text L) (channel_event_value e) 58000" if "e \<in> set (hw_events w)" for e
  proof -
    have "ce_cursor e \<in> set (map (\<lambda>n. int n + 1) [0..<length (hw_events w)])"
      using that ev by (metis valid_channel_events_def image_eqI list.set_map)
    then have "0 \<le> ce_cursor e" "ce_cursor e \<le> 32000" using assms(2) by auto
    moreover have "valid_channel_event (hw_messages w) e" using that ev by (simp add: valid_channel_events_def list_all_iff)
    ultimately show ?thesis by (intro prints_event)
  qed
  then show ?thesis
    using page_fits_earlier event_page_fits [of "[_]" L "hw_highwater w"] event_page_fits [of "[]" L "hw_highwater w"] assms(2)
    by (auto simp: pages_fit_def hw)
qed

definition numbered :: "int \<Rightarrow> channel_event list \<Rightarrow> bool" where
  "numbered n es \<longleftrightarrow> map ce_cursor es = map (\<lambda>k. n + int k + 1) [0..<length es]"

lemma numbered_Cons: "numbered n (e # es) \<longleftrightarrow> ce_cursor e = n + 1 \<and> numbered (n + 1) es"
proof -
  have "[0..<length (e # es)] = 0 # map Suc [0..<length es]" by (simp add: upt_conv_Cons map_Suc_upt del: upt_Suc)
  then show ?thesis by (auto simp: numbered_def algebra_simps simp del: upt_Suc)
qed

lemma page_loop_spec:
  assumes "numbered nxt es" "hw = nxt + int (length es)" "response_fits L (EventPage sel hw False)" "1 \<le> limit"
    and "page_loop L P limit hw sel nxt es = (out, nx, again)"
    and "\<forall>e \<in> set es. response_fits L (EventPage [e] hw False)"
  shows "\<exists>k. k \<le> length es \<and> nx = nxt + int k \<and> out = sel @ filter P (take k es) \<and> response_fits L (EventPage out hw False) \<and>
    (\<not> again \<longrightarrow> k = length es) \<and> (again \<longrightarrow> out \<noteq> [] \<and> k < length es)"
  using assms
proof (induction es arbitrary: sel nxt)
  case (Cons e es)
  have e: "ce_cursor e = nxt + 1" "numbered (nxt + 1) es" "hw = (nxt + 1) + int (length es)"
    using Cons.prems(1,2) by (simp_all add: numbered_Cons)
  have fits: "\<forall>e \<in> set es. response_fits L (EventPage [e] hw False)" using Cons.prems(6) by simp
  show ?case
  proof (cases "P e \<and> (limit \<le> int (length sel) \<or> \<not> response_fits L (EventPage (sel @ [e]) hw False))")
    case True
    then have "out = sel" "nx = nxt" "again" using Cons.prems(5) by auto
    moreover have "sel \<noteq> []" using True Cons.prems(4,6) by auto
    ultimately show ?thesis using Cons.prems(3) by (intro exI [of _ 0]) simp
  next
    case False
    let ?sel = "if P e then sel @ [e] else sel"
    have loop: "page_loop L P limit hw ?sel (nxt + 1) es = (out, nx, again)" using False Cons.prems(5) e(1) by auto
    have "response_fits L (EventPage ?sel hw False)" using False Cons.prems(3) by auto
    from Cons.IH [OF e(2,3) this Cons.prems(4) loop fits] obtain k where k: "k \<le> length es" "nx = nxt + 1 + int k"
      "out = ?sel @ filter P (take k es)" "response_fits L (EventPage out hw False)" "\<not> again \<longrightarrow> k = length es"
      "again \<longrightarrow> out \<noteq> [] \<and> k < length es" by blast
    then show ?thesis by (intro exI [of _ "Suc k"]) auto
  qed
qed auto

lemma numbered_drop: "numbered n es \<Longrightarrow> k \<le> length es \<Longrightarrow> numbered (n + int k) (drop k es)"
proof (induction k arbitrary: n es)
  case (Suc k)
  then obtain e es' where "es = e # es'" by (cases es) auto
  then show ?case using Suc.IH [of "n + 1" es'] Suc.prems by (simp add: numbered_Cons algebra_simps)
qed simp

text \<open>One page: exactly what is wanted up to its cursor, and progress when there is more.\<close>

lemma one_page:
  assumes "content_ok w" "pages_fit L w" "k \<le> length (hw_events w)" "1 \<le> limit"
  shows "\<exists>j again. k + j \<le> length (hw_events w) \<and>
    read_channel_events L w who (int k) limit ft =
      EventPage (wanted_events who ft (take j (drop k (hw_events w)))) (int (k + j)) again \<and>
    (\<not> again \<longrightarrow> k + j = length (hw_events w)) \<and>
    (again \<longrightarrow> wanted_events who ft (take j (drop k (hw_events w))) \<noteq> [] \<and> k + j < length (hw_events w))"
proof -
  let ?P = "\<lambda>e. visible_event who e \<and> event_matches ft e"
  have hw: "hw_highwater w = int (length (hw_events w))" using assms(1) by (simp add: content_ok_def)
  have "numbered 0 (hw_events w)" using assms(1) by (simp add: content_ok_def valid_channel_events_def numbered_def add.commute)
  from numbered_drop [OF this assms(3)] have num: "numbered (int k) (drop k (hw_events w))" by simp
  obtain out nx again where loop: "page_loop L ?P limit (hw_highwater w) [] (int k) (drop k (hw_events w)) = (out, nx, again)"
    by (metis prod_cases3)
  have "\<forall>e \<in> set (drop k (hw_events w)). response_fits L (EventPage [e] (hw_highwater w) False)"
    using assms(2) by (auto simp: pages_fit_def dest: in_set_dropD)
  from page_loop_spec [OF num _ _ assms(4) loop this] obtain j where j: "j \<le> length (drop k (hw_events w))" "nx = int k + int j"
    "out = filter ?P (take j (drop k (hw_events w)))" "response_fits L (EventPage out (hw_highwater w) False)"
    "\<not> again \<longrightarrow> j = length (drop k (hw_events w))" "again \<longrightarrow> out \<noteq> [] \<and> j < length (drop k (hw_events w))"
    using assms(2,3) hw by (auto simp: pages_fit_def)
  have "0 \<le> nx" "nx \<le> hw_highwater w" using j(1,2) assms(3) hw by simp_all
  then have "response_fits L (EventPage out nx again)" using j(4) assms(2) unfolding pages_fit_def by blast
  then have "read_channel_events L w who (int k) limit ft = EventPage out (int (k + j)) again"
    using loop assms(3) hw j(2) by (simp add: read_channel_events_def)
  then show ?thesis using j assms(3) by (intro exI [of _ j] exI [of _ again]) (auto simp: wanted_events_def)
qed

text \<open>
  Reading page after page from a cursor, with at most \<open>fuel\<close> requests: the events and the last cursor.
  \<open>ask\<close> is the request for the page behind a cursor.
\<close>

fun read_all :: "nat \<Rightarrow> (int \<Rightarrow> channel_response) \<Rightarrow> int \<Rightarrow> (channel_event list \<times> int) option" where
  "read_all 0 ask after = None"
| "read_all (Suc n) ask after =
     (case ask after of
        EventPage es next again \<Rightarrow>
          if again then map_option (\<lambda>(es', c). (es @ es', c)) (read_all n ask next) else Some (es, next)
      | _ \<Rightarrow> None)"

lemma read_all_complete:
  assumes "content_ok w" "pages_fit L w" "k \<le> length (hw_events w)" "1 \<le> limit"
    and "length (hw_events w) - k < fuel"
  shows "read_all fuel (\<lambda>c. read_channel_events L w who c limit ft) (int k) =
    Some (wanted_events who ft (drop k (hw_events w)), hw_highwater w)"
  using assms(3,5)
proof (induction fuel arbitrary: k)
  case (Suc n)
  obtain j again where j: "k + j \<le> length (hw_events w)"
    "read_channel_events L w who (int k) limit ft =
      EventPage (wanted_events who ft (take j (drop k (hw_events w)))) (int (k + j)) again"
    "\<not> again \<longrightarrow> k + j = length (hw_events w)"
    "again \<longrightarrow> wanted_events who ft (take j (drop k (hw_events w))) \<noteq> [] \<and> k + j < length (hw_events w)"
    using one_page [OF assms(1,2) Suc.prems(1) assms(4), of who ft] by blast
  have split: "wanted_events who ft (drop k (hw_events w)) =
      wanted_events who ft (take j (drop k (hw_events w))) @ wanted_events who ft (drop (k + j) (hw_events w))"
    unfolding wanted_events_def filter_append [symmetric] by (simp add: add.commute flip: drop_drop)
  show ?case
  proof (cases again)
    case True
    then have "j \<noteq> 0" using j(4) by (cases j) (auto simp: wanted_events_def)
    then have "length (hw_events w) - (k + j) < n" using True Suc.prems(2) j(4) by linarith
    then show ?thesis using True j(2) Suc.IH [OF j(1)] by (simp add: split)
  next
    case False
    have "hw_highwater w = int (length (hw_events w))" using assms(1) by (simp add: content_ok_def)
    then show ?thesis using False j(2,3) split by (simp add: wanted_events_def)
  qed
qed simp

end
