(* ===== verification/ChannelProperties.thy ===== *)
theory ChannelProperties
  imports CoordChannelLaws ClaimProperties
begin

text \<open>
  Properties of \<open>CoordChannels\<close>: a request is a transaction the store never refuses, a retry gets the
  stored reply, a poller gets every event it may see exactly once, and a message keeps its content.
\<close>

section \<open>The store accepts every request\<close>

definition channel_digest_ok :: "channel_lib \<Rightarrow> bool" where
  "channel_digest_ok L \<longleftrightarrow> (\<forall>q a owner. valid_fingerprint (ch_digest L q a owner))"

definition fitting :: "channel_lib \<Rightarrow> channel_response \<Rightarrow> channel_response" where
  "fitting L resp = (if response_fits L resp then resp else ChannelError ''response_too_large'')"

lemma execute_channel_transact:
  assumes "validate_channel_request L request a owner = Some q" "cq_authority q = a" "got_lock" "sound_disk d"
  shows "execute_channel J L E got_lock request a owner d =
    (case durable_store.transact (enter_store J) (commit_state J E) (decide_channel L q a owner (ch_digest L q a owner)) d of
       (Inl _, d') \<Rightarrow> (ChannelError ''state_corrupt'', d')
     | (Inr x, d') \<Rightarrow> (fitting L x, d'))"
  using assms journal.enter_view [OF assms(4), of J]
  by (auto simp: execute_channel_def journal.transact_def fitting_def split: sum.split prod.split option.split)

lemma receipt_valid:
  assumes "sound s" "map_of (hw_receipts (channel_wave_of s a)) i = Some r"
  shows "valid_channel_response (hw_messages (channel_wave_of s a)) (ch_response r)"
proof (cases "map_of (channel_map s) (claim_wave_key a)")
  case (Some w)
  then have "valid_channel_wave (claim_wave_key a, w)"
    using channel_map_valid [OF assms(1)] map_of_SomeD [OF Some] by (auto simp: list_all_iff)
  moreover have "(i, r) \<in> set (hw_receipts w)" using Some assms(2) by (simp add: channel_wave_of_def map_of_SomeD)
  ultimately show ?thesis using Some by (force simp: valid_channel_wave_iff channel_wave_of_def list_all_iff)
qed (use assms(2) in \<open>simp add: channel_wave_of_def\<close>)

lemma never_corrupt:
  assumes "sound s"
  shows "fst (decide_channel L q a owner fp s) \<noteq> ChannelError ''state_corrupt''"
proof -
  let ?w = "channel_wave_of s a"
  have cm: "fst (commit_mutation L s a p i fp ?w x) \<noteq> ChannelError ''state_corrupt''"
    if "x \<noteq> ChannelError ''state_corrupt''" for p i x
    using that by (simp add: commit_mutation_def split: option.split)
  have ce: "fst (commit_event L s a p i fp ?w w' x e) \<noteq> ChannelError ''state_corrupt''"
    if "x \<noteq> ChannelError ''state_corrupt''" for p i w' x e
    using that cm by (simp add: commit_event_def split: option.split)
  have "fst (send_message L s a owner i fp ?w mid rs body) \<noteq> ChannelError ''state_corrupt''" for i mid rs body
    using cm ce by (simp add: send_message_def Let_def)
  moreover have "fst (ack_message L s a owner i fp ?w mid ver) \<noteq> ChannelError ''state_corrupt''" for i mid ver
    using cm ce by (simp add: ack_message_def Let_def split: option.split)
  moreover have "ch_response r \<noteq> ChannelError ''state_corrupt''" if "map_of (hw_receipts ?w) i = Some r" for i r
    using receipt_valid [OF assms that] by (cases "ch_response r") auto
  moreover have "read_channel_events L ?w p n l ft \<noteq> ChannelError ''state_corrupt''" for p n l ft
    by (simp add: read_channel_events_def Let_def split: prod.split)
  ultimately show ?thesis
    by (simp add: decide_channel_def Let_def read_message_def split: channel_operation.split option.split)
qed

text \<open>
  C18 (invariant): a channel request is a transaction of the store.  On a sound disk, whatever a crash
  left there, \<open>execute\<close> ends on a sound disk and never answers \<open>state_corrupt\<close>: the validator accepts
  every state it commits.  All messages keep their content and acknowledgments, all events their place
  and all receipts their replies; holds and claims are untouched.  Relied on: a digest is 64
  hexadecimal digits.
\<close>

theorem channel_request_keeps_store:
  assumes "sound_disk d" "channel_digest_ok L" "execute_channel J L E got_lock request a owner d = (reply, d')"
  shows "sound_disk d' \<and> reply \<noteq> ChannelError ''state_corrupt'' \<and> channels_kept (current d) (current d') \<and>
    holds (current d') = holds (current d) \<and> claims (current d') = claims (current d)"
proof -
  consider (refused) "d' = d" "reply \<noteq> ChannelError ''state_corrupt''"
    | (run) q where "validate_channel_request L request a owner = Some q" "cq_authority q = a" "got_lock"
    using assms(3) by (auto simp: execute_channel_def split: option.splits if_splits)
  then show ?thesis
  proof cases
    case refused
    with assms(1) channels_kept_same show ?thesis by auto
  next
    case run
    note ok = validate_channel_request_ok [OF run(1)]
    let ?dec = "decide_channel L q a owner (ch_digest L q a owner)"
    have accepted: "sound s'" if "?dec (current d) = (x, Some (s', p))" for x s' p
      using decide_channel_sound [OF sound_current [OF assms(1)] ok _ that] assms(2) by (simp add: channel_digest_ok_def)
    obtain d1 where d1: "durable_store.transact (enter_store J) (commit_state J E) ?dec d =
        (Inr (fst (?dec (current d))), d1)" "sound_disk d1"
      "current d1 = (case snd (?dec (current d)) of None \<Rightarrow> current d | Some (s', p) \<Rightarrow> s')"
      using journal.transact_view [OF assms(1), of ?dec J E] accepted by blast
    have res: "reply = fitting L (fst (?dec (current d)))" "d' = d1"
      using assms(3) execute_channel_transact [OF run assms(1), of J E] d1(1) by simp_all
    have "channels_kept (current d) (current d1) \<and> holds (current d1) = holds (current d) \<and>
        claims (current d1) = claims (current d)"
    proof (cases "snd (?dec (current d))")
      case None
      with d1(3) channels_kept_same show ?thesis by simp
    next
      case (Some sp)
      obtain s' p where sp: "sp = (s', p)" by fastforce
      with Some have dec: "?dec (current d) = (fst (?dec (current d)), Some (s', p))" by (metis prod.collapse)
      from decide_channel_committed [OF dec ok(3)] committed_kept d1(3) Some sp show ?thesis by auto
    qed
    with never_corrupt [OF sound_current [OF assms(1)]] d1(2) res show ?thesis by (simp add: fitting_def)
  qed
qed

definition demo_channels :: channel_lib where
  "demo_channels = \<lparr>ch_request_bytes = (\<lambda>_. 10), ch_digest = (\<lambda>_ _ _. replicate 64 (CHR ''0'')), ch_body_bytes = (\<lambda>_. 2),
     ch_extension_bytes = (\<lambda>_. 100), ch_float_text = (\<lambda>_. ''0.5'')\<rparr>"

definition demo_send :: pyval where
  "demo_send = PDict [(PStr ''schema_version'', PInt 1), (PStr ''authority_id'', PStr ''A''),
     (PStr ''authority_epoch'', PInt 1), (PStr ''task_ref'', PStr ''T''), (PStr ''wave_id'', PStr ''W''),
     (PStr ''operation_id'', PStr ''op1''), (PStr ''operation'', PStr ''send''), (PStr ''message_id'', PStr ''m1''),
     (PStr ''version'', PInt 1), (PStr ''recipients'', PList [PStr ''q'']), (PStr ''body'', PDict [])]"

lemma demo_channel_digest: "channel_digest_ok demo_channels"
  by (simp add: channel_digest_ok_def demo_channels_def valid_fingerprint_def list_all_iff)

theorem channel_request_keeps_store_witness:
  "sound_disk (snd (execute_channel demo_json demo_channels demo_env True demo_send demo_authority demo_owner empty_disk))"
  using channel_request_keeps_store [OF empty_sound(1) demo_channel_digest surjective_pairing] by blast

section \<open>Runs of the store\<close>

text \<open>Channel requests, claim requests and calls on holds, of anyone, in any order.\<close>

inductive channel_evolves :: "coord_state \<Rightarrow> coord_state \<Rightarrow> bool" for s where
  chan_none: "channel_evolves s s"
| chan_request: "channel_evolves s s1 \<Longrightarrow> short_authority a \<Longrightarrow> channel_owner owner \<Longrightarrow> channel_request_ok q \<Longrightarrow>
    valid_fingerprint fp \<Longrightarrow> decide_channel L q a owner fp s1 = (reply, Some (s2, specs)) \<Longrightarrow> channel_evolves s s2"
| chan_other: "channel_evolves s s1 \<Longrightarrow> store_evolves s1 s2 \<Longrightarrow> channel_evolves s s2"

lemma claim_keeps_channels: "decide_claim q a owner fp now s = (reply, Some (s', specs)) \<Longrightarrow> channels s' = channels s"
  by (auto simp: decide_claim_def claim_commit_def Let_def split: if_splits option.splits admission.splits)

lemma others_keep_channels: "store_evolves s s' \<Longrightarrow> channels s' = channels s"
  by (induction rule: store_evolves.induct) (simp_all add: claim_keeps_channels call_extensions)

lemma channel_evolves_kept: "channel_evolves s s' \<Longrightarrow> sound s \<Longrightarrow> sound s' \<and> channels_kept s s'"
proof (induction rule: channel_evolves.induct)
  case chan_none
  then show ?case by (simp add: channels_kept_same)
next
  case (chan_request s1 a owner q fp L reply s2 specs)
  have "channels_kept s1 s2"
    using decide_channel_committed [OF chan_request.hyps(6,4)] committed_kept by blast
  then show ?case
    using chan_request decide_channel_sound [OF _ chan_request.hyps(2-6)] channels_kept_trans by blast
next
  case (chan_other s1 s2)
  then show ?case
    using evolves_kept channels_kept_trans [OF _ channels_kept_same [OF others_keep_channels]] by blast
qed

lemma wave_evolves:
  assumes "sound s" "channel_evolves s s'" "map_of (channel_map s) (claim_wave_key a) = Some w"
  obtains w' where "map_of (channel_map s') (claim_wave_key a) = Some w'" "channel_wave_kept w w'"
    "valid_channel_wave (claim_wave_key a, w')" "channel_wave_of s' a = w'"
proof -
  note e = channel_evolves_kept [OF assms(2,1)]
  with assms(3) obtain w' where w': "map_of (channel_map s') (claim_wave_key a) = Some w'" "channel_wave_kept w w'"
    unfolding channels_kept_def by blast
  moreover have "valid_channel_wave (claim_wave_key a, w')"
    using channel_map_valid [of s'] e map_of_SomeD [OF w'(1)] by (auto simp: list_all_iff)
  ultimately show ?thesis using that by (simp add: channel_wave_of_def)
qed

section \<open>Retries\<close>

definition mutation :: "channel_operation \<Rightarrow> bool" where
  "mutation c = (case c of SendMessage _ _ _ \<Rightarrow> True | AckMessage _ _ \<Rightarrow> True | _ \<Rightarrow> False)"

lemma decide_receipt:
  assumes "map_of (channel_map s) (claim_wave_key a) = Some w" "hw_authority w = a" "mutation (cq_operation q)"
    and "map_of (hw_receipts w) (cq_op_id q) = Some r"
  shows "decide_channel L q a owner fp s =
    (if ch_fingerprint r \<noteq> fp then ChannelError ''idempotency_conflict'' else ch_response r, None)"
  using assms by (simp add: decide_channel_def channel_wave_of_def mutation_def Let_def split: channel_operation.splits)

text \<open>
  Property (functional): a retry of a send or an acknowledgment is answered from its receipt.  Once it was
  committed with a reply (a message, an acknowledgment or a refusal), the same request is answered
  with that reply and commits nothing, after any requests and calls in between; the operation id with
  other content is a conflict.  So a message is sent once however often its request arrives.
\<close>

theorem channel_retry_is_answered:
  assumes "sound s" "short_authority a" "channel_owner owner" "channel_request_ok q" "valid_fingerprint fp"
    and "decide_channel L q a owner fp s = (reply, Some (s', specs))" "channel_evolves s' s''"
  shows "decide_channel L q a owner fp s'' = (reply, None) \<and>
    (\<forall>q' fp'. cq_op_id q' = cq_op_id q \<and> mutation (cq_operation q') \<and> fp' \<noteq> fp \<longrightarrow>
       decide_channel L q' a owner fp' s'' = (ChannelError ''idempotency_conflict'', None))"
proof -
  note com = decide_channel_committed [OF assms(6,4)]
  have mut: "mutation (cq_operation q)"
    using assms(6) by (auto simp: mutation_def decide_channel_def Let_def split: channel_operation.splits if_splits)
  from com committed_kept obtain w where w: "map_of (channel_map s') (claim_wave_key a) = Some w" "hw_authority w = a"
    "map_of (hw_receipts w) (cq_op_id q) = Some \<lparr>ch_fingerprint = fp, ch_response = reply\<rparr>" by metis
  have "sound s'" by (rule decide_channel_sound [OF assms(1-6)])
  from wave_evolves [OF this assms(7) w(1)] obtain w' where w': "map_of (channel_map s'') (claim_wave_key a) = Some w'"
    "channel_wave_kept w w'" .
  then have "hw_authority w' = a" "map_of (hw_receipts w') (cq_op_id q) = Some \<lparr>ch_fingerprint = fp, ch_response = reply\<rparr>"
    using w(2,3) by (simp_all add: channel_wave_kept_def)
  then show ?thesis using decide_receipt [OF w'(1)] mut by auto
qed

definition demo_channel_q :: channel_request where
  "demo_channel_q = \<lparr>cq_authority = demo_authority, cq_op_id = ''op1'',
     cq_operation = SendMessage ''m1'' [''q''] \<lparr>jb_value = PDict [], jb_bytes = 2\<rparr>\<rparr>"

definition demo_message :: channel_message where
  "demo_message = new_message demo_owner ''m1'' [''q''] \<lparr>jb_value = PDict [], jb_bytes = 2\<rparr>"

definition demo_wave :: channel_wave where
  "demo_wave = \<lparr>hw_authority = demo_authority, hw_messages = [(''m1'', demo_message)],
     hw_receipts = [(''op1'', \<lparr>ch_fingerprint = replicate 64 (CHR ''0''), ch_response = MessageView demo_message\<rparr>)],
     hw_events = [\<lparr>ce_cursor = 1, ce_message = ''m1'', ce_version = 1, ce_sender = demo_owner,
       ce_recipients = [''q''], ce_ack = None\<rparr>], hw_highwater = 1\<rparr>"

definition demo_sent :: coord_state where
  "demo_sent = default_state\<lparr>channels := Some ([((''T'', ''W''), demo_wave)], 100)\<rparr>"

lemma demo_fits: "response_fits demo_channels (MessageView demo_message)"
proof -
  have "int_str 1 = ''1''" by code_simp
  then show ?thesis
    by (simp add: response_fits_def demo_channels_def demo_message_def new_message_def demo_owner_def message_value_def owner_json_def
        json_items_def json_member_def json_string_def json_char_def)
qed

lemma demo_channel_decides:
  "decide_channel demo_channels demo_channel_q demo_authority demo_owner (replicate 64 (CHR ''0'')) default_state =
     (MessageView demo_message, Some (demo_sent, [channel_spec demo_authority ''p''
        (sent_event demo_owner ''m1'' [''q''] (channel_wave_of default_state demo_authority))]))"
  by (simp add: decide_channel_def channel_wave_of_def channel_map_def default_state_def demo_channel_q_def send_message_def
      commit_event_def record_mutation_def demo_channels_def channel_total_def demo_sent_def demo_wave_def demo_message_def
      new_message_def sent_event_def demo_owner_def demo_authority_def claim_wave_key_def Let_def
      demo_fits [unfolded demo_channels_def demo_message_def new_message_def demo_owner_def, simplified])

lemma demo_parties: "short_authority demo_authority" "channel_owner demo_owner" "channel_request_ok demo_channel_q"
  "valid_fingerprint (replicate 64 (CHR ''0''))"
  by code_simp+

lemma demo_sent_sound: "sound demo_sent"
  by (rule decide_channel_sound [OF sound_default demo_parties demo_channel_decides])

theorem channel_retry_is_answered_witness:
  "decide_channel demo_channels demo_channel_q demo_authority demo_owner (replicate 64 (CHR ''0'')) demo_sent =
     (MessageView demo_message, None)"
  using channel_retry_is_answered [OF sound_default demo_parties demo_channel_decides chan_none] by blast

section \<open>Delivery\<close>

definition may_read :: "string \<Rightarrow> channel_message \<Rightarrow> bool" where
  "may_read who m \<longleftrightarrow> ow_principal (cm_sender m) = who \<or> who \<in> set (cm_recipients m)"

definition no_filters :: event_filters where
  "no_filters = \<lparr>ft_kind = None, ft_message = None\<rparr>"

text \<open>The request for the page behind a cursor, as \<open>owner\<close> on a state.\<close>

definition ask_page ::
    "channel_lib \<Rightarrow> claim_authority \<Rightarrow> claim_owner \<Rightarrow> string \<Rightarrow> int \<Rightarrow> event_filters \<Rightarrow> coord_state \<Rightarrow> int \<Rightarrow> channel_response" where
  "ask_page L a owner i limit ft s c =
     (let q = \<lparr>cq_authority = a, cq_op_id = i, cq_operation = ReadEvents c limit ft\<rparr>
      in fst (decide_channel L q a owner (ch_digest L q a owner) s))"

lemma ask_page_reads:
  "hw_authority (channel_wave_of s a) = a \<Longrightarrow>
     ask_page L a owner i limit ft s = (\<lambda>c. read_channel_events L (channel_wave_of s a) (ow_principal owner) c limit ft)"
  by (simp add: ask_page_def decide_channel_def Let_def fun_eq_iff)

lemma sent_events_are_messages:
  assumes "content_ok w"
  shows "distinct (sent_ids (wanted_events who no_filters (hw_events w)))"
    and "set (sent_ids (wanted_events who no_filters (hw_events w))) =
      {i. \<exists>m. map_of (hw_messages w) i = Some m \<and> may_read who m}"
proof -
  have ev: "distinct (sent_ids (hw_events w))" "set (sent_ids (hw_events w)) = fst ` set (hw_messages w)"
    "\<And>e. e \<in> set (hw_events w) \<Longrightarrow> valid_channel_event (hw_messages w) e"
    using assms by (auto simp: content_ok_def valid_channel_events_def list_all_iff)
  have sub: "sent_ids (wanted_events who no_filters es) = map ce_message (filter (visible_event who) (filter (\<lambda>e. ce_ack e = None) es))"
    for es by (simp add: sent_ids_def wanted_events_def no_filters_def event_matches_def conj_commute)
  show "distinct (sent_ids (wanted_events who no_filters (hw_events w)))"
    unfolding sub by (rule distinct_map_filter [OF ev(1) [unfolded sent_ids_def]])
  have see: "visible_event who e \<longleftrightarrow> (\<exists>m. map_of (hw_messages w) (ce_message e) = Some m \<and> may_read who m)"
    if "e \<in> set (hw_events w)" for e
    using ev(3) [OF that] by (auto simp: valid_channel_event_def visible_event_def may_read_def split: option.splits)
  show "set (sent_ids (wanted_events who no_filters (hw_events w))) =
      {i. \<exists>m. map_of (hw_messages w) i = Some m \<and> may_read who m}"
  proof (intro set_eqI iffI)
    fix i
    assume "i \<in> set (sent_ids (wanted_events who no_filters (hw_events w)))"
    then obtain e where "e \<in> set (hw_events w)" "visible_event who e" "ce_message e = i" unfolding sub by auto
    with see show "i \<in> {i. \<exists>m. map_of (hw_messages w) i = Some m \<and> may_read who m}" by auto
  next
    fix i
    assume "i \<in> {i. \<exists>m. map_of (hw_messages w) i = Some m \<and> may_read who m}"
    then obtain m where m: "map_of (hw_messages w) i = Some m" "may_read who m" by blast
    then have "i \<in> set (sent_ids (hw_events w))" unfolding ev(2) using map_of_SomeD by force
    then obtain e where e: "e \<in> set (hw_events w)" "ce_ack e = None" "ce_message e = i" by (auto simp: sent_ids_def)
    with see [OF e(1)] m have "visible_event who e" by auto
    with e show "i \<in> set (sent_ids (wanted_events who no_filters (hw_events w)))" unfolding sub by auto
  qed
qed

lemma wave_events_bound:
  assumes "sound s" "map_of (channel_map s) (claim_wave_key a) = Some w"
  shows "length (hw_events w) \<le> 32000"
proof -
  have "channel_total hw_events (channel_map s) \<le> 32000"
    using channel_map_valid [OF assms(1)] by blast
  moreover have "length (hw_events w) \<le> channel_total hw_events (channel_map s)"
    using map_of_SomeD [OF assms(2)] by (force simp: channel_total_def intro: member_le_sum_list)
  ultimately show ?thesis by simp
qed

lemma cursors_increase:
  assumes "content_ok w"
  shows "sorted_wrt (<) (map ce_cursor (wanted_events who ft (hw_events w)))"
proof -
  have "sorted_wrt (\<lambda>m n. int m + 1 < int n + 1) [0..<k]" for k
    by (rule sorted_wrt_mono_rel [OF _ sorted_wrt_upt]) simp
  then have "sorted_wrt (<) (map (\<lambda>n. int n + 1) [0..<k])" for k unfolding sorted_wrt_map .
  then have "sorted_wrt (<) (map ce_cursor (hw_events w))"
    using assms by (simp only: content_ok_def valid_channel_events_def)
  then show ?thesis by (simp add: wanted_events_def sorted_wrt_map sorted_wrt_filter)
qed

text \<open>
  C19 (liveness): a poller gets every event it may see exactly once.  Reading page after page from
  cursor 0, and later, after any requests and calls, on from the cursor it ended with, it needs at
  most one request per event and one more; together it gets the events of its principal that match the
  filters, all of them and in order, with growing cursors; without filters the announced messages are,
  once each, the messages it sent or received.  No page is ever too large: the validator's bounds on names,
  recipients and the number of events keep one event within the 64 KiB of a response.
\<close>

theorem delivered_once:
  assumes "sound s" "channel_evolves s s'" "map_of (channel_map s) (claim_wave_key a) = Some w" "hw_authority w = a"
    and "w' = channel_wave_of s' a" "1 \<le> limit" "length (hw_events w') < fuel"
  shows "\<exists>es es' c. read_all fuel (ask_page L a owner i limit ft s) 0 = Some (es, c) \<and>
    read_all fuel (ask_page L a owner i limit ft s') c = Some (es', hw_highwater w') \<and>
    es @ es' = filter (\<lambda>e. visible_event (ow_principal owner) e \<and> event_matches ft e) (hw_events w') \<and>
    sorted_wrt (<) (map ce_cursor (es @ es')) \<and>
    (ft = no_filters \<longrightarrow> distinct (sent_ids (es @ es')) \<and>
       set (sent_ids (es @ es')) = {j. \<exists>m. map_of (hw_messages w') j = Some m \<and> may_read (ow_principal owner) m})"
proof -
  let ?p = "ow_principal owner"
  obtain w1 where w1: "map_of (channel_map s') (claim_wave_key a) = Some w1" "channel_wave_kept w w1"
    "valid_channel_wave (claim_wave_key a, w1)" "channel_wave_of s' a = w1" using wave_evolves [OF assms(1,2,3)] .
  then have w': "w' = w1" using assms(5) by simp
  have wave: "channel_wave_of s a = w" using assms(3) by (simp add: channel_wave_of_def)
  have auth: "hw_authority (channel_wave_of s a) = a" "hw_authority (channel_wave_of s' a) = a"
    using wave assms(4) w1 by (simp_all add: channel_wave_kept_def)
  obtain nes where grown: "hw_events w' = hw_events w @ nes" using w1(2) w' by (auto simp: channel_wave_kept_def)
  have ok: "content_ok w" "content_ok w'"
    using w1(3) w' wave_evolves [OF assms(1) chan_none assms(3)] by (auto simp: valid_channel_wave_iff wave)
  have hw: "hw_highwater w = int (length (hw_events w))" using ok(1) by (simp add: content_ok_def)
  have fuel: "length (hw_events w) - 0 < fuel" "length (hw_events w') - length (hw_events w) < fuel"
    "length (hw_events w) \<le> length (hw_events w')" using assms(7) grown by simp_all
  have "sound s'" using channel_evolves_kept [OF assms(2,1)] by blast
  then have pages: "pages_fit L w" "pages_fit L w'"
    using pages_fit_valid [OF ok(1) wave_events_bound [OF assms(1,3)]] pages_fit_valid [OF ok(2)] wave_events_bound [OF _ w1(1)] w' by blast+
  have one: "read_all fuel (ask_page L a owner i limit ft s) 0 = Some (wanted_events ?p ft (hw_events w), hw_highwater w)"
    using read_all_complete [OF ok(1) pages(1) _ assms(6) fuel(1)] by (simp add: ask_page_reads [OF auth(1)] wave)
  have two: "read_all fuel (ask_page L a owner i limit ft s') (hw_highwater w) =
      Some (wanted_events ?p ft (drop (length (hw_events w)) (hw_events w')), hw_highwater w')"
    using read_all_complete [OF ok(2) pages(2) fuel(3) assms(6) fuel(2)] assms(5)
    by (simp add: ask_page_reads [OF auth(2)] hw)
  have all: "wanted_events ?p ft (hw_events w) @ wanted_events ?p ft (drop (length (hw_events w)) (hw_events w')) =
      wanted_events ?p ft (hw_events w')" by (simp add: grown wanted_events_def)
  have "sorted_wrt (<) (map ce_cursor (wanted_events ?p ft (hw_events w')))"
    "ft = no_filters \<longrightarrow> distinct (sent_ids (wanted_events ?p ft (hw_events w'))) \<and>
       set (sent_ids (wanted_events ?p ft (hw_events w'))) = {j. \<exists>m. map_of (hw_messages w') j = Some m \<and> may_read ?p m}"
    using cursors_increase [OF ok(2)] sent_events_are_messages [OF ok(2)] by blast+
  note rest = this
  show ?thesis
  proof (intro exI conjI)
    show "read_all fuel (ask_page L a owner i limit ft s) 0 = Some (wanted_events ?p ft (hw_events w), hw_highwater w)" by (rule one)
    show "read_all fuel (ask_page L a owner i limit ft s') (hw_highwater w) =
      Some (wanted_events ?p ft (drop (length (hw_events w)) (hw_events w')), hw_highwater w')" by (rule two)
  qed (unfold all, rule wanted_events_def, rule rest(1), rule rest(2))
qed

definition demo_q_owner :: claim_owner where
  "demo_q_owner = \<lparr>ow_principal = ''q'', ow_session = ''s''\<rparr>"

theorem delivered_once_witness:
  "\<exists>es es' c. read_all 2 (ask_page demo_channels demo_authority demo_q_owner ''r'' 1 no_filters demo_sent) 0 = Some (es, c) \<and>
     sent_ids (es @ es') = [''m1'']"
proof -
  have w: "map_of (channel_map demo_sent) (claim_wave_key demo_authority) = Some demo_wave" "hw_authority demo_wave = demo_authority"
    "demo_wave = channel_wave_of demo_sent demo_authority" "length (hw_events demo_wave) < 2"
    by (simp_all add: demo_sent_def channel_map_def demo_wave_def demo_authority_def claim_wave_key_def channel_wave_of_def)
  from delivered_once [OF demo_sent_sound chan_none w(1,2,3) _ w(4),
      where limit = 1 and owner = demo_q_owner and i = "''r''" and ft = no_filters and L = demo_channels]
  obtain es es' c where "read_all 2 (ask_page demo_channels demo_authority demo_q_owner ''r'' 1 no_filters demo_sent) 0 = Some (es, c)"
    "es @ es' = filter (\<lambda>e. visible_event (ow_principal demo_q_owner) e \<and> event_matches no_filters e) (hw_events demo_wave)"
    by auto
  moreover have "sent_ids (filter (\<lambda>e. visible_event (ow_principal demo_q_owner) e \<and> event_matches no_filters e)
      (hw_events demo_wave)) = [''m1'']" by code_simp
  ultimately show ?thesis by metis
qed

section \<open>Messages\<close>

text \<open>
  C20 (safety): a message is final and its parties' own.  After any requests and calls, a message has
  the sender, the recipients and the body it was sent with, and keeps its acknowledgments; each of
  them is by a recipient and names the principal that gave it.  Reading it answers the sender and the recipients with
  the message, and everyone else as if there were none.
\<close>

theorem message_is_final:
  assumes "sound s" "channel_evolves s s'" "map_of (channel_map s) (claim_wave_key a) = Some w" "hw_authority w = a"
    and "map_of (hw_messages w) i = Some m" "cq_operation q = ReadMessage i"
  shows "\<exists>m'. cm_sender m' = cm_sender m \<and> cm_recipients m' = cm_recipients m \<and> cm_body m' = cm_body m \<and>
    (\<forall>p ow. map_of (cm_acks m) p = Some ow \<longrightarrow> map_of (cm_acks m') p = Some ow) \<and>
    (\<forall>p ow. map_of (cm_acks m') p = Some ow \<longrightarrow> p \<in> set (cm_recipients m) \<and> ow_principal ow = p) \<and>
    (\<forall>owner fp. decide_channel L q a owner fp s' =
       (if may_read (ow_principal owner) m then MessageView m' else ChannelError ''not_found'', None))"
proof -
  obtain w' where w': "map_of (channel_map s') (claim_wave_key a) = Some w'" "channel_wave_kept w w'"
    "valid_channel_wave (claim_wave_key a, w')" "channel_wave_of s' a = w'" using wave_evolves [OF assms(1,2,3)] .
  then have grow: "messages_grow (hw_messages w) (hw_messages w')" and auth: "hw_authority w' = a"
    using assms(4) by (simp_all add: channel_wave_kept_def)
  from messages_growD [OF grow assms(5)] obtain m' where m': "map_of (hw_messages w') i = Some m'"
    "cm_recipients m' = cm_recipients m" "cm_body m' = cm_body m" "cm_sender m' = cm_sender m"
    "\<forall>p ow. map_of (cm_acks m) p = Some ow \<longrightarrow> map_of (cm_acks m') p = Some ow" by metis
  have "valid_message (i, m')"
    using w'(3) map_of_SomeD [OF m'(1)] by (auto simp: valid_channel_wave_iff content_ok_def list_all_iff)
  then have acks: "\<forall>p ow. map_of (cm_acks m') p = Some ow \<longrightarrow> p \<in> set (cm_recipients m) \<and> ow_principal ow = p"
    using m'(2) by (force simp: valid_message_def valid_acks_def list_all_iff dest: map_of_SomeD)
  have "\<forall>owner fp. decide_channel L q a owner fp s' =
      (if may_read (ow_principal owner) m then MessageView m' else ChannelError ''not_found'', None)"
    using assms(6) auth w'(4) m' by (simp add: decide_channel_def Let_def read_message_def may_read_def)
  with m' acks show ?thesis by blast
qed

theorem message_is_final_witness:
  "fst (decide_channel demo_channels (demo_channel_q\<lparr>cq_operation := ReadMessage ''m1''\<rparr>) demo_authority
     \<lparr>ow_principal = ''x'', ow_session = ''s''\<rparr> [] demo_sent) = ChannelError ''not_found''"
proof -
  have w: "map_of (channel_map demo_sent) (claim_wave_key demo_authority) = Some demo_wave" "hw_authority demo_wave = demo_authority"
    "map_of (hw_messages demo_wave) ''m1'' = Some demo_message"
    by (simp_all add: demo_sent_def channel_map_def demo_wave_def demo_authority_def claim_wave_key_def)
  have "\<not> may_read ''x'' demo_message" by code_simp
  then show ?thesis
    using message_is_final [OF demo_sent_sound chan_none w, of "demo_channel_q\<lparr>cq_operation := ReadMessage ''m1''\<rparr>" demo_channels]
    by auto
qed

end
