(* ===== verification/ConflictGate.thy ===== *)
theory ConflictGate
  imports PyValue "HOL-Library.AList"
begin

text \<open>
  The claims of \<open>conflict_gate.py\<close>: a process claims a lane by an exclusive \<open>flock\<close> on the lane's file,
  then probes the file of every lane it conflicts with.  \<open>try_claim\<close> is given twice over the same steps:
  as the steps of a call, which other processes interleave with, and as one function.  The kernel's
  table of locks is part of the state; which descriptor \<open>os.open\<close> returns, whether it fails, and what the
  caller's \<open>active_probe\<close> answers are arguments.  All calls are for one state directory: the registry of
  a process does not know the directory of a claim, so a second directory would share its entries.
\<close>

section \<open>The conflict graph\<close>

type_synonym adjacency = "(string \<times> string list) list"

definition neighbours_in :: "adjacency \<Rightarrow> string \<Rightarrow> string list" where
  "neighbours_in adj a = (case map_of adj a of None \<Rightarrow> [] | Some ns \<Rightarrow> ns)"

definition add_neighbour :: "string \<Rightarrow> string \<Rightarrow> adjacency \<Rightarrow> adjacency" where
  "add_neighbour a b adj = AList.update a (List.insert b (neighbours_in adj a)) adj"

fun edge_entry :: "pyval \<Rightarrow> (string \<times> string) option" where
  "edge_entry (PList [PStr a, PStr b]) = Some (py_strip a, py_strip b)"
| "edge_entry (PTuple [PStr a, PStr b]) = Some (py_strip a, py_strip b)"
| "edge_entry _ = None"

definition add_edge :: "pyval \<Rightarrow> adjacency \<Rightarrow> adjacency" where
  "add_edge v adj =
     (case edge_entry v of
        None \<Rightarrow> adj
      | Some (a, b) \<Rightarrow>
          if a = [] \<or> b = [] \<or> a = b then adj else add_neighbour b a (add_neighbour a b adj))"

definition load_conflict_graph :: "pyval \<Rightarrow> adjacency" where
  "load_conflict_graph manifest =
     (case py_get manifest ''conflict_edges'' of PList vs \<Rightarrow> fold add_edge vs [] | _ \<Rightarrow> [])"

section \<open>Files, descriptors and locks\<close>

text \<open>
  A claim file is named by its task and lane.  An open description is named by its process and the
  descriptor's number, which the process may reuse after a close.  \<open>flock\<close> with \<open>LOCK_NB\<close> fails when another
  description of the file has a lock that excludes the wanted one.
\<close>

datatype claim_key = ClaimPath string string

datatype handle = Handle (handle_pid: nat) (handle_fd: nat)

datatype lock_mode = LockShared | LockExclusive

record gate =
  open_files :: "handle list"
  held_locks :: "(handle \<times> claim_key \<times> lock_mode) list"
  claim_registry :: "((nat \<times> claim_key) \<times> nat) list"

definition claim_path :: "string \<Rightarrow> string \<Rightarrow> claim_key" where
  "claim_path task lane = ClaimPath task lane"

definition open_file :: "handle \<Rightarrow> gate \<Rightarrow> gate" where
  "open_file h g = g\<lparr>open_files := h # open_files g\<rparr>"

definition unlock_file :: "handle \<Rightarrow> gate \<Rightarrow> gate" where
  "unlock_file h g = g\<lparr>held_locks := filter (\<lambda>l. fst l \<noteq> h) (held_locks g)\<rparr>"

definition close_file :: "handle \<Rightarrow> gate \<Rightarrow> gate" where
  "close_file h g = (unlock_file h g)\<lparr>open_files := removeAll h (open_files g)\<rparr>"

definition excludes :: "handle \<Rightarrow> claim_key \<Rightarrow> lock_mode \<Rightarrow> handle \<times> claim_key \<times> lock_mode \<Rightarrow> bool" where
  "excludes h k m l = (case l of (h', k', m') \<Rightarrow> k' = k \<and> h' \<noteq> h \<and> (m = LockExclusive \<or> m' = LockExclusive))"

definition flock_nb :: "handle \<Rightarrow> claim_key \<Rightarrow> lock_mode \<Rightarrow> gate \<Rightarrow> gate option" where
  "flock_nb h k m g =
     (if list_ex (excludes h k m) (held_locks g) then None
      else Some ((unlock_file h g)\<lparr>held_locks := (h, k, m) # held_locks (unlock_file h g)\<rparr>))"

section \<open>The steps of a call\<close>

text \<open>
  What is left to do: probe these neighbours; drop the probe's descriptor, then probe the rest; ask
  whether a worker of these neighbours is alive.
\<close>

datatype claim_phase = Probing "string list" | Unprobing nat "string list" | Asking "string list"

record claim_call =
  gc_pid :: nat
  gc_task :: string
  gc_lane :: string
  gc_owners :: "(string \<times> string) list option"
  gc_neighbours :: "string list"
  gc_fd :: nat
  gc_phase :: claim_phase

datatype claim_outcome = ClaimAdmitted nat | ClaimRefused | ClaimRaised

definition neighbour_set :: "string \<Rightarrow> string list \<Rightarrow> string list" where
  "neighbour_set lane ns = sort (remdups (filter (\<lambda>n. n \<noteq> [] \<and> n \<noteq> lane) ns))"

definition neighbour_path :: "claim_call \<Rightarrow> string \<Rightarrow> claim_key" where
  "neighbour_path c n =
     claim_path (case gc_owners c of
         None \<Rightarrow> gc_task c
       | Some owners \<Rightarrow> (case map_of owners n of None \<Rightarrow> gc_task c | Some t \<Rightarrow> t)) n"

text \<open>\<open>release_claim\<close>: the first registry entry of the process with the descriptor goes, then the descriptor.\<close>

definition pop_registry :: "nat \<Rightarrow> nat \<Rightarrow> ((nat \<times> claim_key) \<times> nat) list \<Rightarrow> ((nat \<times> claim_key) \<times> nat) list" where
  "pop_registry pid fd reg =
     (case List.find (\<lambda>e. fst (fst e) = pid \<and> snd e = fd) reg of None \<Rightarrow> reg | Some e \<Rightarrow> AList.delete (fst e) reg)"

definition release_claim :: "nat \<Rightarrow> nat \<Rightarrow> gate \<Rightarrow> gate" where
  "release_claim pid fd g = close_file (Handle pid fd) (g\<lparr>claim_registry := pop_registry pid fd (claim_registry g)\<rparr>)"

text \<open>Steps (0) and (1): the registry, then the own file.  The result is an outcome or the rest of the call.\<close>

definition claim_begin ::
    "nat \<Rightarrow> string \<Rightarrow> string \<Rightarrow> string list \<Rightarrow> (string \<times> string) list option \<Rightarrow> nat option \<Rightarrow> gate \<Rightarrow>
       (claim_outcome + claim_call) \<times> gate" where
  "claim_begin pid task lane ns owners opened g =
     (case map_of (claim_registry g) (pid, claim_path task lane) of
        Some fd \<Rightarrow> (Inl (ClaimAdmitted fd), g)
      | None \<Rightarrow>
          (case opened of
             None \<Rightarrow> (Inl ClaimRaised, g)
           | Some fd \<Rightarrow>
               (case flock_nb (Handle pid fd) (claim_path task lane) LockExclusive (open_file (Handle pid fd) g) of
                  None \<Rightarrow> (Inl ClaimRefused, close_file (Handle pid fd) (open_file (Handle pid fd) g))
                | Some g' \<Rightarrow>
                    (Inr \<lparr>gc_pid = pid, gc_task = task, gc_lane = lane, gc_owners = owners,
                        gc_neighbours = neighbour_set lane ns, gc_fd = fd,
                        gc_phase = Probing (neighbour_set lane ns)\<rparr>, g'))))"

text \<open>
  Steps (2), (3) and (4), one action at a time.  \<open>opened\<close> is what \<open>os.open\<close> returns, \<open>None\<close> when it raises:
  then the exception leaves \<open>try_claim\<close>, with the own file still locked.  \<open>answer\<close> is what \<open>active_probe\<close>
  returns, \<open>None\<close> when it raises, which counts as no.
\<close>

definition claim_next :: "nat option \<Rightarrow> bool option \<Rightarrow> claim_call \<Rightarrow> gate \<Rightarrow> (claim_outcome + claim_call) \<times> gate" where
  "claim_next opened answer c g =
     (case gc_phase c of
        Probing [] \<Rightarrow> (Inr (c\<lparr>gc_phase := Asking (gc_neighbours c)\<rparr>), g)
      | Probing (n # ns) \<Rightarrow>
          (case opened of
             None \<Rightarrow> (Inl ClaimRaised, g)
           | Some nfd \<Rightarrow>
               (case flock_nb (Handle (gc_pid c) nfd) (neighbour_path c n) LockShared (open_file (Handle (gc_pid c) nfd) g) of
                  None \<Rightarrow> (Inl ClaimRefused,
                    release_claim (gc_pid c) (gc_fd c) (close_file (Handle (gc_pid c) nfd) (open_file (Handle (gc_pid c) nfd) g)))
                | Some g' \<Rightarrow> (Inr (c\<lparr>gc_phase := Unprobing nfd ns\<rparr>), g')))
      | Unprobing nfd ns \<Rightarrow>
          (Inr (c\<lparr>gc_phase := Probing ns\<rparr>), close_file (Handle (gc_pid c) nfd) (unlock_file (Handle (gc_pid c) nfd) g))
      | Asking (n # ns) \<Rightarrow>
          if answer = Some True then (Inl ClaimRefused, release_claim (gc_pid c) (gc_fd c) g)
          else (Inr (c\<lparr>gc_phase := Asking ns\<rparr>), g)
      | Asking [] \<Rightarrow>
          (Inl (ClaimAdmitted (gc_fd c)),
           g\<lparr>claim_registry := AList.update (gc_pid c, claim_path (gc_task c) (gc_lane c)) (gc_fd c) (claim_registry g)\<rparr>))"

section \<open>A call that runs alone\<close>

text \<open>The kernel returns the lowest free descriptor.\<close>

definition lowest_fd :: "nat \<Rightarrow> gate \<Rightarrow> nat" where
  "lowest_fd pid g =
     (case List.find (\<lambda>n. (Handle pid n) \<notin> set (open_files g)) [0..<Suc (length (open_files g))] of None \<Rightarrow> 0 | Some n \<Rightarrow> n)"

fun phase_size :: "claim_phase \<Rightarrow> nat" where
  "phase_size (Probing ns) = 2 * length ns"
| "phase_size (Unprobing _ ns) = 2 * length ns + 1"
| "phase_size (Asking ns) = length ns"

definition phase_measure :: "claim_call \<Rightarrow> nat" where
  "phase_measure c =
     phase_size (gc_phase c) + (case gc_phase c of Asking _ \<Rightarrow> 0 | _ \<Rightarrow> length (gc_neighbours c) + 1)"

text \<open>\<open>opens n\<close>: opening the file of neighbour \<open>n\<close> works; \<open>probe n\<close>: the answer of \<open>active_probe\<close>.\<close>

definition phase_lane :: "claim_call \<Rightarrow> string" where
  "phase_lane c = (case gc_phase c of Probing (n # _) \<Rightarrow> n | Asking (n # _) \<Rightarrow> n | _ \<Rightarrow> [])"

function claim_loop :: "(string \<Rightarrow> bool) \<Rightarrow> (string \<Rightarrow> bool option) \<Rightarrow> claim_call \<Rightarrow> gate \<Rightarrow> claim_outcome \<times> gate" where
  "claim_loop opens probe c g =
     (case claim_next (if opens (phase_lane c) then Some (lowest_fd (gc_pid c) g) else None) (probe (phase_lane c)) c g of
        (Inl r, g') \<Rightarrow> (r, g')
      | (Inr c', g') \<Rightarrow> claim_loop opens probe c' g')"
  by pat_completeness auto
termination
  by (relation "measure (\<lambda>(_, _, c, _). phase_measure c)")
    (auto simp: claim_next_def phase_measure_def split: claim_phase.splits list.splits option.splits if_splits)

declare claim_loop.simps [simp del]

definition try_claim ::
    "(string \<Rightarrow> bool) \<Rightarrow> (string \<Rightarrow> bool option) \<Rightarrow> nat \<Rightarrow> string \<Rightarrow> string \<Rightarrow> string list \<Rightarrow> (string \<times> string) list option \<Rightarrow>
       gate \<Rightarrow> claim_outcome \<times> gate" where
  "try_claim opens probe pid task lane ns owners g =
     (case claim_begin pid task lane ns owners (if opens lane then Some (lowest_fd pid g) else None) g of
        (Inl r, g') \<Rightarrow> (r, g')
      | (Inr c, g') \<Rightarrow> claim_loop opens probe c g')"

section \<open>Freshness of a lane's base\<close>

text \<open>What git answers in a work tree: its head, ancestry, whether it is dirty; \<open>None\<close> when git fails.\<close>

record git_tree =
  gt_head :: "string option"
  gt_ancestor :: "string \<Rightarrow> string \<Rightarrow> bool"
  gt_status :: "string option"

definition full_sha :: "string \<Rightarrow> bool" where
  "full_sha s \<longleftrightarrow> length s = 40 \<and> list_all (\<lambda>c. c \<in> set ''0123456789abcdef'') s"

definition git_stdout :: "string option \<Rightarrow> string option" where
  "git_stdout out = (case out of None \<Rightarrow> None | Some s \<Rightarrow> if py_strip s = [] then None else Some (py_strip s))"

definition worktree_is_dirty :: "git_tree \<Rightarrow> bool" where
  "worktree_is_dirty t = (case gt_status t of None \<Rightarrow> True | Some s \<Rightarrow> py_strip s \<noteq> [])"

definition effective_base :: "git_tree option \<Rightarrow> string option" where
  "effective_base wt =
     (case wt of
        None \<Rightarrow> None
      | Some t \<Rightarrow> (case git_stdout (gt_head t) of None \<Rightarrow> None | Some h \<Rightarrow> if full_sha h then Some h else None))"

definition landing_of :: "(string \<times> pyval) list \<Rightarrow> string \<Rightarrow> string option" where
  "landing_of landings n =
     (case map_of landings n of
        Some (PStr s) \<Rightarrow> if full_sha (py_strip s) then Some (py_strip s) else None
      | _ \<Rightarrow> None)"

definition stale_neighbour :: "git_tree \<Rightarrow> string \<Rightarrow> (string \<times> pyval) list \<Rightarrow> string list \<Rightarrow> string option" where
  "stale_neighbour t base landings ns =
     List.find (\<lambda>n. case landing_of landings n of None \<Rightarrow> False | Some s \<Rightarrow> \<not> gt_ancestor t s base) ns"

definition check_lane_base_freshness :: "string \<Rightarrow> pyval \<Rightarrow> git_tree option \<Rightarrow> (string \<times> pyval) list \<Rightarrow> string" where
  "check_lane_base_freshness lane manifest wt landings =
     (case effective_base wt of
        None \<Rightarrow> ''reprovision''
      | Some base \<Rightarrow>
          (case stale_neighbour (the wt) base landings
              (sort (neighbours_in (if is_mapping manifest then load_conflict_graph manifest else []) lane)) of
             None \<Rightarrow> ''ok''
           | Some n \<Rightarrow> if worktree_is_dirty (the wt) then ''refuse'' else ''reprovision''))"

end
