(* ===== verification/ConflictLaws.thy ===== *)
theory ConflictLaws
  imports ConflictGate AListFacts "HOL-Library.Multiset"
begin

text \<open>
  Runs of many claimers over \<open>ConflictGate\<close>: the steps of calls interleave with each other, with releases
  and with crashes.  The invariant says which locks the owners of claims hold and that of two owners at
  most one has got past the other's file.
\<close>

section \<open>The graph is symmetric\<close>

lemma neighbours_add: "neighbours_in (add_neighbour a b adj) x = (if x = a then List.insert b (neighbours_in adj a) else neighbours_in adj x)"
  by (auto simp: neighbours_in_def add_neighbour_def update_conv')

definition symmetric_graph :: "adjacency \<Rightarrow> bool" where
  "symmetric_graph adj \<longleftrightarrow> (\<forall>a b. b \<in> set (neighbours_in adj a) \<longrightarrow> a \<in> set (neighbours_in adj b) \<and> a \<noteq> b)"

lemma symmetric_add_edge: "symmetric_graph adj \<Longrightarrow> symmetric_graph (add_edge v adj)"
  by (auto simp: symmetric_graph_def add_edge_def neighbours_add split: option.split)

lemma conflict_graph_symmetric: "symmetric_graph (load_conflict_graph manifest)"
proof -
  have "symmetric_graph (fold add_edge vs adj)" if "symmetric_graph adj" for vs adj
    using that by (induction vs arbitrary: adj) (simp_all add: symmetric_add_edge)
  moreover have "symmetric_graph []" by (simp add: symmetric_graph_def neighbours_in_def)
  ultimately show ?thesis by (auto simp: load_conflict_graph_def split: pyval.split)
qed

section \<open>Runs\<close>

type_synonym gate_sys = "gate \<times> claim_call list"

definition own_path :: "claim_call \<Rightarrow> claim_key" where
  "own_path c = claim_path (gc_task c) (gc_lane c)"

definition probed_paths :: "claim_call \<Rightarrow> claim_key set" where
  "probed_paths c = neighbour_path c ` set (gc_neighbours c)"

definition unused :: "nat \<Rightarrow> nat option \<Rightarrow> gate \<Rightarrow> bool" where
  "unused pid opened g \<longleftrightarrow> (case opened of None \<Rightarrow> True | Some fd \<Rightarrow> (Handle pid fd) \<notin> set (open_files g))"

text \<open>The kernel closes everything of a process that dies.\<close>

definition crash :: "nat \<Rightarrow> gate \<Rightarrow> gate" where
  "crash pid g =
     \<lparr>open_files = filter (\<lambda>h. handle_pid h \<noteq> pid) (open_files g), held_locks = filter (\<lambda>l. handle_pid (fst l) \<noteq> pid) (held_locks g),
      claim_registry = filter (\<lambda>e. fst (fst e) \<noteq> pid) (claim_registry g)\<rparr>"

definition continue_calls :: "claim_call list \<Rightarrow> claim_outcome + claim_call \<Rightarrow> claim_call list \<Rightarrow> claim_call list" where
  "continue_calls cs r ds = (case r of Inl _ \<Rightarrow> cs @ ds | Inr c \<Rightarrow> cs @ c # ds)"

text \<open>\<open>conf\<close> names the paths that every call for a path has to probe.\<close>

inductive gate_step :: "(claim_key \<Rightarrow> claim_key set) \<Rightarrow> gate_sys \<Rightarrow> gate_sys \<Rightarrow> bool" for conf where
  gate_begin: "claim_begin pid task lane ns owners opened g = (r, g') \<Longrightarrow> unused pid opened g \<Longrightarrow>
    (\<And>c. r = Inr c \<Longrightarrow> probed_paths c = conf (own_path c)) \<Longrightarrow> gate_step conf (g, cs) (g', continue_calls [] r cs)"
| gate_next: "claim_next opened answer c g = (r, g') \<Longrightarrow> unused (gc_pid c) opened g \<Longrightarrow>
    gate_step conf (g, cs @ c # ds) (g', continue_calls cs r ds)"
| gate_release: "((pid, k), fd) \<in> set (claim_registry g) \<Longrightarrow> gate_step conf (g, cs) (release_claim pid fd g, cs)"
| gate_crash: "gate_step conf (g, cs) (crash pid g, filter (\<lambda>c. gc_pid c \<noteq> pid) cs)"

definition no_claims :: gate where
  "no_claims = \<lparr>open_files = [], held_locks = [], claim_registry = []\<rparr>"

inductive gate_run :: "(claim_key \<Rightarrow> claim_key set) \<Rightarrow> gate_sys \<Rightarrow> bool" for conf where
  run_start: "gate_run conf (no_claims, [])"
| run_step: "gate_run conf s \<Longrightarrow> gate_step conf s t \<Longrightarrow> gate_run conf t"

section \<open>The invariant of the locks\<close>

definition locks_ok :: "gate \<Rightarrow> bool" where
  "locks_ok g \<longleftrightarrow> distinct (map fst (held_locks g)) \<and> fst ` set (held_locks g) \<subseteq> set (open_files g) \<and>
     (\<forall>h k h' m. (h, k, LockExclusive) \<in> set (held_locks g) \<longrightarrow> (h', k, m) \<in> set (held_locks g) \<longrightarrow> h' = h)"

text \<open>Whoever owns a claim or works on one: its descriptor, its path and the paths it got past.\<close>

fun pending :: "claim_phase \<Rightarrow> string set" where
  "pending (Probing ns) = set ns"
| "pending (Unprobing _ ns) = set ns"
| "pending (Asking ns) = {}"

definition passed :: "claim_call \<Rightarrow> claim_key set" where
  "passed c = probed_paths c - neighbour_path c ` pending (gc_phase c)"

definition call_owner :: "claim_call \<Rightarrow> handle \<times> claim_key \<times> claim_key set" where
  "call_owner c = ((Handle (gc_pid c) (gc_fd c)), own_path c, passed c)"

definition entry_owner :: "(claim_key \<Rightarrow> claim_key set) \<Rightarrow> (nat \<times> claim_key) \<times> nat \<Rightarrow> handle \<times> claim_key \<times> claim_key set" where
  "entry_owner conf e = (Handle (fst (fst e)) (snd e), snd (fst e), conf (snd (fst e)))"

definition gate_owners :: "(claim_key \<Rightarrow> claim_key set) \<Rightarrow> gate_sys \<Rightarrow> (handle \<times> claim_key \<times> claim_key set) list" where
  "gate_owners conf s = map call_owner (snd s) @ map (entry_owner conf) (claim_registry (fst s))"

definition owners_ok :: "(handle \<times> claim_key \<times> lock_mode) list \<Rightarrow> (handle \<times> claim_key \<times> claim_key set) list \<Rightarrow> bool" where
  "owners_ok ls os \<longleftrightarrow> distinct (map fst os) \<and>
     (\<forall>h k P. (h, k, P) \<in> set os \<longrightarrow> (h, k, LockExclusive) \<in> set ls) \<and>
     (\<forall>h k P h' k' P'. (h, k, P) \<in> set os \<longrightarrow> (h', k', P') \<in> set os \<longrightarrow> \<not> (k' \<in> P \<and> k \<in> P'))"

text \<open>A call between a probe and its unlock holds a shared lock of its own.\<close>

definition probe_handle :: "claim_call \<Rightarrow> handle option" where
  "probe_handle c = (case gc_phase c of Unprobing nfd _ \<Rightarrow> Some (Handle (gc_pid c) nfd) | _ \<Rightarrow> None)"

definition probes_ok :: "(handle \<times> claim_key \<times> lock_mode) list \<Rightarrow> claim_call list \<Rightarrow> bool" where
  "probes_ok ls cs \<longleftrightarrow> distinct (List.map_filter probe_handle cs) \<and>
     (\<forall>c h. c \<in> set cs \<longrightarrow> probe_handle c = Some h \<longrightarrow> (\<exists>k. (h, k, LockShared) \<in> set ls))"

definition gate_ok :: "(claim_key \<Rightarrow> claim_key set) \<Rightarrow> gate_sys \<Rightarrow> bool" where
  "gate_ok conf s \<longleftrightarrow> locks_ok (fst s) \<and> owners_ok (held_locks (fst s)) (gate_owners conf s) \<and> probes_ok (held_locks (fst s)) (snd s) \<and>
     distinct (map fst (claim_registry (fst s))) \<and> (\<forall>c \<in> set (snd s). probed_paths c = conf (own_path c))"

section \<open>Owners under changes of the locks\<close>

lemma owners_perm: "mset os = mset os' \<Longrightarrow> owners_ok ls os \<Longrightarrow> owners_ok ls os'"
proof -
  assume eq: "mset os = mset os'"
  then have "mset (map fst os) = mset (map fst os')" "set os = set os'" by (simp, metis set_mset_mset)
  then show "owners_ok ls os \<Longrightarrow> owners_ok ls os'"
    unfolding owners_ok_def using mset_eq_imp_distinct_iff by metis
qed

lemma owners_grow_locks: "owners_ok ls os \<Longrightarrow> owners_ok (l # ls) os"
  by (auto simp: owners_ok_def)

lemma owners_drop_lock:
  assumes "owners_ok ls os" "h \<notin> fst ` set os"
  shows "owners_ok (filter (\<lambda>l. fst l \<noteq> h) ls) os"
proof -
  have "h' \<noteq> h" if "(h', k, P) \<in> set os" for h' k P using assms(2) that by force
  then show ?thesis using assms(1) unfolding owners_ok_def by (simp; blast)
qed

lemma owners_sub: "owners_ok ls (as @ ow # bs) \<Longrightarrow> owners_ok ls (as @ bs)"
  unfolding owners_ok_def by (simp; blast)

lemma owner_distinct: "owners_ok ls (as @ ow # bs) \<Longrightarrow> fst ow \<notin> fst ` set (as @ bs)"
  by (auto simp: owners_ok_def)

lemma owners_remove:
  assumes "owners_ok ls (as @ ow # bs)"
  shows "owners_ok (filter (\<lambda>l. fst l \<noteq> fst ow) ls) (as @ bs)"
  by (rule owners_drop_lock [OF owners_sub [OF assms] owner_distinct [OF assms]])

lemma owners_filter:
  assumes "owners_ok ls os"
  shows "owners_ok (filter (\<lambda>l. handle_pid (fst l) \<noteq> pid) ls) (filter (\<lambda>ow. handle_pid (fst ow) \<noteq> pid) os)"
  using assms unfolding owners_ok_def by (simp add: distinct_map_filter; blast)

lemma owners_add:
  assumes "owners_ok ls os" "h \<notin> fst ` set os" "(h, k, LockExclusive) \<in> set ls"
  shows "owners_ok ls ((h, k, {}) # os)"
  using assms by (auto simp: owners_ok_def)

text \<open>Getting past a path is safe while nobody owns it.\<close>

lemma owners_pass:
  assumes "owners_ok ls (as @ (h, k, P) # bs)" "P' \<subseteq> insert q P" "\<And>h'. (h', q, LockExclusive) \<notin> set ls"
  shows "owners_ok ls (as @ (h, k, P') # bs)"
proof -
  let ?os = "as @ (h, k, P) # bs"
  have free: "(h', q, Q) \<notin> set ?os" for h' Q using assms(1,3) unfolding owners_ok_def by blast
  have pair: "\<not> (k' \<in> Q \<and> k'' \<in> Q')" if "(h', k'', Q) \<in> set ?os" "(h'', k', Q') \<in> set ?os" for h' k'' Q h'' k' Q'
    using assms(1) that unfolding owners_ok_def by blast
  have old: "\<exists>Q1. (h', k', Q1) \<in> set ?os \<and> Q \<subseteq> insert q Q1" if "(h', k', Q) \<in> set (as @ (h, k, P') # bs)" for h' k' Q
  proof (cases "(h', k', Q) = (h, k, P')")
    case True
    then show ?thesis using assms(2) by (intro exI [of _ P]) simp
  next
    case False
    then have "(h', k', Q) \<in> set ?os" using that by auto
    then show ?thesis by blast
  qed
  have "\<not> (k' \<in> Q \<and> k'' \<in> Q')"
    if one: "(h', k'', Q) \<in> set (as @ (h, k, P') # bs)" and two: "(h'', k', Q') \<in> set (as @ (h, k, P') # bs)"
    for h' k'' Q h'' k' Q'
  proof -
    obtain Q1 where 1: "(h', k'', Q1) \<in> set ?os" "Q \<subseteq> insert q Q1" using old [OF one] by blast
    obtain Q2 where 2: "(h'', k', Q2) \<in> set ?os" "Q' \<subseteq> insert q Q2" using old [OF two] by blast
    have "k' \<noteq> q" "k'' \<noteq> q" using free 1(1) 2(1) by blast+
    with pair [OF 1(1) 2(1)] 1(2) 2(2) show ?thesis by blast
  qed
  moreover have "distinct (map fst (as @ (h, k, P') # bs))" using assms(1) by (simp add: owners_ok_def)
  moreover have "(h', k', LockExclusive) \<in> set ls" if "(h', k', Q) \<in> set (as @ (h, k, P') # bs)" for h' k' Q
    using assms(1) that unfolding owners_ok_def by auto
  ultimately show ?thesis unfolding owners_ok_def by blast
qed

section \<open>The locks under the operations\<close>

lemma flock_opened:
  assumes "locks_ok g" "h \<notin> set (open_files g)"
  shows "flock_nb h k m (open_file h g) =
    (if \<exists>h' m'. (h', k, m') \<in> set (held_locks g) \<and> (m = LockExclusive \<or> m' = LockExclusive) then None
     else Some (g\<lparr>open_files := h # open_files g, held_locks := (h, k, m) # held_locks g\<rparr>))"
proof -
  have new: "\<forall>l \<in> set (held_locks g). fst l \<noteq> h" using assms by (auto simp: locks_ok_def)
  then have "filter (\<lambda>l. fst l \<noteq> h) (held_locks g) = held_locks g" by (simp add: filter_id_conv)
  moreover have "list_ex (excludes h k m) (held_locks g) \<longleftrightarrow>
      (\<exists>h' m'. (h', k, m') \<in> set (held_locks g) \<and> (m = LockExclusive \<or> m' = LockExclusive))"
  proof
    assume "list_ex (excludes h k m) (held_locks g)"
    then obtain l where "l \<in> set (held_locks g)" "excludes h k m l" unfolding list_ex_iff by blast
    moreover obtain h' k' m' where "l = (h', k', m')" by (cases l)
    ultimately show "\<exists>h' m'. (h', k, m') \<in> set (held_locks g) \<and> (m = LockExclusive \<or> m' = LockExclusive)"
      unfolding excludes_def by (intro exI [of _ h'] exI [of _ m']) simp
  next
    assume "\<exists>h' m'. (h', k, m') \<in> set (held_locks g) \<and> (m = LockExclusive \<or> m' = LockExclusive)"
    then obtain h' m' where l: "(h', k, m') \<in> set (held_locks g)" "m = LockExclusive \<or> m' = LockExclusive" by blast
    moreover have "h' \<noteq> h" using new l(1) by force
    ultimately show "list_ex (excludes h k m) (held_locks g)"
      unfolding list_ex_iff by (intro bexI [of _ "(h', k, m')"]) (simp_all add: excludes_def)
  qed
  ultimately show ?thesis by (simp add: flock_nb_def open_file_def unlock_file_def)
qed

lemma close_opened:
  assumes "locks_ok g" "h \<notin> set (open_files g)"
  shows "close_file h (open_file h g) = g"
proof -
  have "\<forall>l \<in> set (held_locks g). fst l \<noteq> h" using assms by (auto simp: locks_ok_def)
  then show ?thesis using assms(2) by (simp add: close_file_def unlock_file_def open_file_def filter_id_conv)
qed

lemma locks_add:
  assumes "locks_ok g" "h \<notin> set (open_files g)"
    and "\<nexists>h' m'. (h', k, m') \<in> set (held_locks g) \<and> (m = LockExclusive \<or> m' = LockExclusive)"
  shows "locks_ok (g\<lparr>open_files := h # open_files g, held_locks := (h, k, m) # held_locks g\<rparr>)"
proof -
  have "\<forall>l \<in> set (held_locks g). fst l \<noteq> h" using assms(1,2) unfolding locks_ok_def by blast
  then have new: "h' \<noteq> h" if "(h', k', m') \<in> set (held_locks g)" for h' k' m' using that by force
  let ?g = "g\<lparr>open_files := h # open_files g, held_locks := (h, k, m) # held_locks g\<rparr>"
  have "h'' = h'" if "(h', k', LockExclusive) \<in> set (held_locks ?g)" "(h'', k', m') \<in> set (held_locks ?g)" for h' k' h'' m'
  proof -
    have mem: "(h', k', LockExclusive) = (h, k, m) \<or> (h', k', LockExclusive) \<in> set (held_locks g)"
      "(h'', k', m') = (h, k, m) \<or> (h'', k', m') \<in> set (held_locks g)" using that by simp_all
    show ?thesis
    proof (cases "(h', k', LockExclusive) = (h, k, m)")
      case True
      then show ?thesis using mem(2) assms(3) by simp
    next
      case False
      then have old: "(h', k', LockExclusive) \<in> set (held_locks g)" using mem(1) by blast
      show ?thesis
      proof (cases "(h'', k', m') = (h, k, m)")
        case True
        then show ?thesis using old assms(3) by (simp; blast)
      next
        case False
        then show ?thesis using old mem(2) assms(1) unfolding locks_ok_def by blast
      qed
    qed
  qed
  moreover have "distinct (map fst (held_locks ?g))" "fst ` set (held_locks ?g) \<subseteq> set (open_files ?g)"
    using assms(1) \<open>\<forall>l \<in> set (held_locks g). fst l \<noteq> h\<close> by (auto simp: locks_ok_def)
  ultimately show ?thesis unfolding locks_ok_def by blast
qed

lemma locks_close: "locks_ok g \<Longrightarrow> locks_ok (close_file h g)"
  unfolding locks_ok_def close_file_def unlock_file_def by (simp add: distinct_map_filter; blast)

lemma close_simps [simp]:
  "held_locks (close_file h g) = filter (\<lambda>l. fst l \<noteq> h) (held_locks g)"
  "claim_registry (close_file h g) = claim_registry g"
  by (simp_all add: close_file_def unlock_file_def)

lemma locks_registry: "locks_ok (g\<lparr>claim_registry := reg\<rparr>) = locks_ok g"
  by (simp add: locks_ok_def)

lemma pop_registry_none: "Handle pid fd \<notin> (\<lambda>e. Handle (fst (fst e)) (snd e)) ` set reg \<Longrightarrow> pop_registry pid fd reg = reg"
  by (force simp: pop_registry_def find_Some_iff split: option.split)

section \<open>Every step keeps the invariant\<close>

lemma gate_okD:
  assumes "gate_ok conf (g, cs)"
  shows "locks_ok g" "owners_ok (held_locks g) (map call_owner cs @ map (entry_owner conf) (claim_registry g))"
    "probes_ok (held_locks g) cs" "distinct (map fst (claim_registry g))" "\<forall>c \<in> set cs. probed_paths c = conf (own_path c)"
  using assms by (simp_all add: gate_ok_def gate_owners_def)

lemma owner_handles:
  assumes "locks_ok g" "owners_ok (held_locks g) os" "h \<notin> set (open_files g)"
  shows "h \<notin> fst ` set os"
proof
  assume "h \<in> fst ` set os"
  then obtain k P where "(h, k, P) \<in> set os" by auto
  then have "(h, k, LockExclusive) \<in> set (held_locks g)" using assms(2) unfolding owners_ok_def by blast
  then have "h \<in> set (open_files g)" using assms(1) unfolding locks_ok_def by force
  with assms(3) show False by blast
qed

lemma owner_not_probe:
  assumes "locks_ok g" "owners_ok (held_locks g) os" "(h, k, LockShared) \<in> set (held_locks g)"
  shows "h \<notin> fst ` set os"
proof
  assume "h \<in> fst ` set os"
  then obtain k' P where "(h, k', P) \<in> set os" by auto
  then have "(h, k', LockExclusive) \<in> set (held_locks g)" using assms(2) unfolding owners_ok_def by blast
  moreover have "distinct (map fst (held_locks g))" using assms(1) by (simp add: locks_ok_def)
  ultimately show False using assms(3) eq_key_imp_eq_value by fastforce
qed

lemma probes_grow: "probes_ok ls cs \<Longrightarrow> probes_ok (l # ls) cs"
  unfolding probes_ok_def by (simp; blast)

lemma map_filter_middle:
  "List.map_filter f (cs @ ds) = List.map_filter f cs @ List.map_filter f ds"
  "List.map_filter f (cs @ c # ds) = List.map_filter f cs @ (case f c of None \<Rightarrow> [] | Some x \<Rightarrow> [x]) @ List.map_filter f ds"
  by (simp_all add: List.map_filter_def split: option.split)

lemma probes_sub: "probes_ok ls (cs @ c # ds) \<Longrightarrow> probes_ok ls (cs @ ds)"
  unfolding probes_ok_def by (auto simp: map_filter_middle split: option.splits)

lemma probes_same:
  assumes "probes_ok ls (cs @ c # ds)" "probe_handle c' = None"
  shows "probes_ok ls (cs @ c' # ds)"
  using probes_sub [OF assms(1)] assms(2)
  unfolding probes_ok_def by (auto simp: map_filter_middle)

lemma probes_none: "probe_handle c = None \<Longrightarrow> probes_ok ls (c # cs) = probes_ok ls cs"
  by (auto simp: probes_ok_def List.map_filter_simps)

lemma probes_drop:
  assumes "probes_ok ls cs" "\<And>c. c \<in> set cs \<Longrightarrow> probe_handle c \<noteq> Some h"
  shows "probes_ok (filter (\<lambda>l. fst l \<noteq> h) ls) cs"
  using assms unfolding probes_ok_def by (simp; metis)

lemma registry_handles:
  "fst ` set (map (entry_owner conf) reg) = (\<lambda>e. Handle (fst (fst e)) (snd e)) ` set reg"
  by (simp add: entry_owner_def image_image)

text \<open>What ends a call before its claim is registered.\<close>

lemma release_unregistered:
  assumes "owners_ok ls (map call_owner (cs @ c # ds) @ map (entry_owner conf) (claim_registry g))"
  shows "release_claim (gc_pid c) (gc_fd c) g = close_file (Handle (gc_pid c) (gc_fd c)) g"
proof -
  have "Handle (gc_pid c) (gc_fd c) \<notin> fst ` set (map (entry_owner conf) (claim_registry g))"
    using assms by (auto simp: owners_ok_def call_owner_def)
  then show ?thesis unfolding release_claim_def registry_handles by (simp add: pop_registry_none)
qed

lemma end_call:
  assumes ok: "gate_ok conf (g, cs @ c # ds)" and ph: "probe_handle c = None"
  shows "gate_ok conf (g, cs @ ds)"
    and "gate_ok conf (close_file (Handle (gc_pid c) (gc_fd c)) g, cs @ ds)"
proof -
  note d = gate_okD [OF ok]
  have os: "owners_ok (held_locks g) (map call_owner cs @ call_owner c # (map call_owner ds @ map (entry_owner conf) (claim_registry g)))"
    using d(2) by simp
  have h: "fst (call_owner c) = Handle (gc_pid c) (gc_fd c)" by (simp add: call_owner_def)
  show "gate_ok conf (g, cs @ ds)"
    using owners_sub [OF os] probes_sub [OF d(3)] d by (simp add: gate_ok_def gate_owners_def)
  have mine: "Handle (gc_pid c) (gc_fd c) \<in> fst ` set (map call_owner (cs @ c # ds) @ map (entry_owner conf) (claim_registry g))"
    by (simp add: h)
  have "probe_handle c' \<noteq> Some (Handle (gc_pid c) (gc_fd c))" if "c' \<in> set (cs @ ds)" for c'
  proof
    assume "probe_handle c' = Some (Handle (gc_pid c) (gc_fd c))"
    moreover have "c' \<in> set (cs @ c # ds)" using that by simp
    ultimately obtain k where "(Handle (gc_pid c) (gc_fd c), k, LockShared) \<in> set (held_locks g)"
      using d(3) unfolding probes_ok_def by blast
    with owner_not_probe [OF d(1,2)] mine show False by blast
  qed
  then have "probes_ok (held_locks (close_file (Handle (gc_pid c) (gc_fd c)) g)) (cs @ ds)"
    using probes_drop [OF probes_sub [OF d(3)]] by simp
  then show "gate_ok conf (close_file (Handle (gc_pid c) (gc_fd c)) g, cs @ ds)"
    using owners_remove [OF os] locks_close [OF d(1)] d(4,5) h by (simp add: gate_ok_def gate_owners_def)
qed

lemma begin_ok:
  assumes ok: "gate_ok conf (g, cs)" and step: "claim_begin pid task lane ns owners opened g = (r, g')"
    and new: "unused pid opened g" and conf: "\<And>c. r = Inr c \<Longrightarrow> probed_paths c = conf (own_path c)"
  shows "gate_ok conf (g', continue_calls [] r cs)"
proof -
  note d = gate_okD [OF ok]
  consider (stay) x where "r = Inl x" "g' = g"
    | (start) fd where "map_of (claim_registry g) (pid, claim_path task lane) = None" "opened = Some fd"
    using step by (auto simp: claim_begin_def split: option.splits)
  then show ?thesis
  proof cases
    case stay
    then show ?thesis using ok by (simp add: continue_calls_def)
  next
    case start
    let ?h = "Handle pid fd" and ?k = "claim_path task lane"
    have h: "?h \<notin> set (open_files g)" using new start(2) by (simp add: unused_def)
    show ?thesis
    proof (cases "flock_nb ?h ?k LockExclusive (open_file ?h g)")
      case None
      then show ?thesis using step start ok close_opened [OF d(1) h] by (auto simp: claim_begin_def continue_calls_def)
    next
      case (Some g1)
      have free: "\<nexists>h' m'. (h', ?k, m') \<in> set (held_locks g) \<and> (LockExclusive = LockExclusive \<or> m' = LockExclusive)"
        and g1: "g1 = g\<lparr>open_files := ?h # open_files g, held_locks := (?h, ?k, LockExclusive) # held_locks g\<rparr>"
        using Some flock_opened [OF d(1) h, of ?k LockExclusive] by (auto split: if_splits)
      let ?ns = "neighbour_set lane ns"
      let ?c = "\<lparr>gc_pid = pid, gc_task = task, gc_lane = lane, gc_owners = owners, gc_neighbours = ?ns, gc_fd = fd, gc_phase = Probing ?ns\<rparr>"
      have r: "r = Inr ?c" "g' = g1" using step start Some by (auto simp: claim_begin_def)
      have own: "call_owner ?c = (?h, ?k, {})" by (simp add: call_owner_def own_path_def passed_def probed_paths_def)
      let ?os = "map call_owner cs @ map (entry_owner conf) (claim_registry g)"
      have "owners_ok (held_locks g1) ((?h, ?k, {}) # ?os)"
        using owners_add [OF owners_grow_locks [OF d(2)] owner_handles [OF d(1,2) h]] by (simp add: g1)
      moreover have "probes_ok (held_locks g1) (?c # cs)"
        using probes_grow [OF d(3), of "(?h, ?k, LockExclusive)"] probes_none [of ?c] by (simp add: g1 probe_handle_def)
      moreover have "locks_ok g1" unfolding g1 by (rule locks_add [OF d(1) h free])
      moreover have "probed_paths ?c = conf (own_path ?c)" by (rule conf [OF r(1)])
      ultimately show ?thesis using r d(4,5) own by (simp add: continue_calls_def gate_ok_def gate_owners_def g1)
    qed
  qed
qed

lemma neighbour_path_phase [simp]: "neighbour_path (c\<lparr>gc_phase := p\<rparr>) = neighbour_path c"
  by (simp add: neighbour_path_def fun_eq_iff split: option.split)

text \<open>A call that goes on with the same owner, on the same locks.\<close>

lemma keep_call:
  assumes ok: "gate_ok conf (g, cs @ c # ds)" and "call_owner c' = call_owner c" "probe_handle c' = None"
    "probed_paths c' = probed_paths c"
  shows "gate_ok conf (g, cs @ c' # ds)"
proof -
  note d = gate_okD [OF ok]
  have "own_path c' = own_path c" using assms(2) by (simp add: call_owner_def)
  then show ?thesis
    using d probes_same [OF d(3) assms(3)] assms(2,4) by (simp add: gate_ok_def gate_owners_def)
qed

lemma next_probe:
  assumes ok: "gate_ok conf (g, cs @ c # ds)" and ph: "gc_phase c = Probing (n # ns)"
    and fd: "Handle (gc_pid c) nfd \<notin> set (open_files g)"
    and lock: "flock_nb (Handle (gc_pid c) nfd) (neighbour_path c n) LockShared (open_file (Handle (gc_pid c) nfd) g) = Some g'"
  shows "gate_ok conf (g', cs @ c\<lparr>gc_phase := Unprobing nfd ns\<rparr> # ds)"
proof -
  note d = gate_okD [OF ok]
  let ?h = "Handle (gc_pid c) nfd" and ?k = "neighbour_path c n" and ?c = "c\<lparr>gc_phase := Unprobing nfd ns\<rparr>"
  have free: "\<nexists>h' m'. (h', ?k, m') \<in> set (held_locks g) \<and> (LockShared = LockExclusive \<or> m' = LockExclusive)"
    and g': "g' = g\<lparr>open_files := ?h # open_files g, held_locks := (?h, ?k, LockShared) # held_locks g\<rparr>"
    using lock flock_opened [OF d(1) fd, of ?k LockShared] by (auto split: if_splits)
  have same: "probed_paths ?c = probed_paths c" "own_path ?c = own_path c"
    by (simp_all add: probed_paths_def own_path_def)
  have grow: "passed ?c \<subseteq> insert ?k (passed c)" using ph by (auto simp: passed_def same)
  have "owners_ok (held_locks g) (map call_owner cs @ (Handle (gc_pid c) (gc_fd c), own_path c, passed ?c) #
      (map call_owner ds @ map (entry_owner conf) (claim_registry g)))"
  proof (rule owners_pass [where P = "passed c" and q = ?k])
    show "owners_ok (held_locks g) (map call_owner cs @ (Handle (gc_pid c) (gc_fd c), own_path c, passed c) #
        (map call_owner ds @ map (entry_owner conf) (claim_registry g)))"
      using d(2) by (simp add: call_owner_def)
  qed (use grow free in blast)+
  then have os: "owners_ok (held_locks g') (map call_owner (cs @ ?c # ds) @ map (entry_owner conf) (claim_registry g'))"
    using owners_grow_locks by (simp add: g' call_owner_def same)
  have fresh: "probe_handle c' \<noteq> Some ?h" if mem: "c' \<in> set (cs @ c # ds)" for c'
  proof
    assume "probe_handle c' = Some ?h"
    then obtain k where "(?h, k, LockShared) \<in> set (held_locks g)" using d(3) mem unfolding probes_ok_def by blast
    then have "?h \<in> fst ` set (held_locks g)" by force
    then show False using d(1) fd unfolding locks_ok_def by blast
  qed
  have ph': "probe_handle ?c = Some ?h" by (simp add: probe_handle_def)
  have old: "probes_ok (held_locks g) (cs @ ds)" by (rule probes_sub [OF d(3)])
  have "probes_ok (held_locks g') (cs @ ?c # ds)"
    unfolding probes_ok_def
  proof (intro conjI allI impI)
    have "?h \<notin> set (List.map_filter probe_handle cs)" "?h \<notin> set (List.map_filter probe_handle ds)"
      using fresh by (auto simp: List.map_filter_def)
    then show "distinct (List.map_filter probe_handle (cs @ ?c # ds))"
      using old ph' by (simp add: probes_ok_def map_filter_middle)
    fix c' h
    assume "c' \<in> set (cs @ ?c # ds)" "probe_handle c' = Some h"
    then show "\<exists>k. (h, k, LockShared) \<in> set (held_locks g')"
      using old ph' by (auto simp: probes_ok_def g')
  qed
  moreover have "locks_ok g'" unfolding g' by (rule locks_add [OF d(1) fd free])
  ultimately show ?thesis using os d(4,5) same by (simp add: gate_ok_def gate_owners_def g')
qed

lemma next_unprobe:
  assumes ok: "gate_ok conf (g, cs @ c # ds)" and ph: "gc_phase c = Unprobing nfd ns"
  shows "gate_ok conf (close_file (Handle (gc_pid c) nfd) g, cs @ c\<lparr>gc_phase := Probing ns\<rparr> # ds)"
proof -
  note d = gate_okD [OF ok]
  let ?h = "Handle (gc_pid c) nfd" and ?c = "c\<lparr>gc_phase := Probing ns\<rparr>"
  have same: "probed_paths ?c = probed_paths c" "own_path ?c = own_path c" "call_owner ?c = call_owner c"
    by (simp_all add: probed_paths_def own_path_def call_owner_def passed_def ph)
  have probe: "probe_handle c = Some ?h" "probe_handle ?c = None" by (simp_all add: probe_handle_def ph)
  obtain k where "(?h, k, LockShared) \<in> set (held_locks g)" using d(3) probe(1) unfolding probes_ok_def by fastforce
  from owners_drop_lock [OF d(2) owner_not_probe [OF d(1,2) this]]
  have "owners_ok (held_locks (close_file ?h g)) (map call_owner (cs @ ?c # ds) @ map (entry_owner conf) (claim_registry g))"
    using same by simp
  moreover have "probes_ok (held_locks (close_file ?h g)) (cs @ ?c # ds)"
  proof -
    have "probe_handle c' \<noteq> Some ?h" if "c' \<in> set (cs @ ds)" for c'
    proof
      assume "probe_handle c' = Some ?h"
      then have "?h \<in> set (List.map_filter probe_handle cs) \<union> set (List.map_filter probe_handle ds)"
        using that by (auto simp: List.map_filter_def image_iff)
      then show False using d(3) probe(1) by (auto simp: probes_ok_def map_filter_middle)
    qed
    then have "probes_ok (held_locks (close_file ?h g)) (cs @ ds)"
      using probes_drop [OF probes_sub [OF d(3)]] by simp
    then show ?thesis using probe(2) by (auto simp: probes_ok_def map_filter_middle)
  qed
  ultimately show ?thesis using locks_close [OF d(1)] d(4,5) same by (simp add: gate_ok_def gate_owners_def)
qed

lemma next_register:
  assumes ok: "gate_ok conf (g, cs @ c # ds)" and ph: "gc_phase c = Asking []"
  shows "gate_ok conf (g\<lparr>claim_registry := AList.update (gc_pid c, own_path c) (gc_fd c) (claim_registry g)\<rparr>, cs @ ds)"
proof -
  note d = gate_okD [OF ok]
  let ?e = "((gc_pid c, own_path c), gc_fd c)"
  have conf: "probed_paths c = conf (own_path c)" using d(5) by simp
  have entry: "entry_owner conf ?e = call_owner c"
    by (simp add: entry_owner_def call_owner_def passed_def ph conf)
  have new: "map_of (claim_registry g) (gc_pid c, own_path c) = None"
  proof (rule ccontr)
    assume "map_of (claim_registry g) (gc_pid c, own_path c) \<noteq> None"
    then obtain fd where fd: "((gc_pid c, own_path c), fd) \<in> set (claim_registry g)" using map_of_SomeD by fastforce
    let ?o = "entry_owner conf ((gc_pid c, own_path c), fd)"
    have mem: "?o \<in> set (map (entry_owner conf) (claim_registry g))" using fd by simp
    then have "(Handle (gc_pid c) fd, own_path c, LockExclusive) \<in> set (held_locks g)"
      "(Handle (gc_pid c) (gc_fd c), own_path c, LockExclusive) \<in> set (held_locks g)"
      using d(2) unfolding owners_ok_def by (auto simp: call_owner_def entry_owner_def)
    then have "Handle (gc_pid c) fd = Handle (gc_pid c) (gc_fd c)" using d(1) unfolding locks_ok_def by blast
    then have "fst ?o = fst (call_owner c)" by (simp add: call_owner_def entry_owner_def)
    moreover have "fst ` set (map call_owner (cs @ c # ds)) \<inter> fst ` set (map (entry_owner conf) (claim_registry g)) = {}"
      using d(2) unfolding owners_ok_def map_append distinct_append set_map [symmetric] by blast
    moreover have "fst (call_owner c) \<in> fst ` set (map call_owner (cs @ c # ds))" by simp
    moreover have "fst ?o \<in> fst ` set (map (entry_owner conf) (claim_registry g))" using mem by (rule imageI)
    ultimately show False by (metis IntI empty_iff)
  qed
  have "owners_ok (held_locks g) (map call_owner (cs @ ds) @ map (entry_owner conf) (claim_registry g @ [?e]))"
    by (rule owners_perm [OF _ d(2)]) (simp add: entry)
  then show ?thesis
    using d(1,4,5) probes_sub [OF d(3)] new update_new [OF new]
    by (auto simp: gate_ok_def gate_owners_def map_of_eq_None_iff locks_registry)
qed

lemma next_ok:
  assumes ok: "gate_ok conf (g, cs @ c # ds)" and step: "claim_next opened answer c g = (r, g')"
    and new: "unused (gc_pid c) opened g"
  shows "gate_ok conf (g', continue_calls cs r ds)"
proof (cases "gc_phase c")
  case (Probing ns0)
  have nop: "probe_handle c = None" by (simp add: probe_handle_def Probing)
  show ?thesis
  proof (cases ns0)
    case Nil
    let ?c = "c\<lparr>gc_phase := Asking (gc_neighbours c)\<rparr>"
    have "gate_ok conf (g, cs @ ?c # ds)"
      by (rule keep_call [OF ok])
        (simp_all add: call_owner_def own_path_def passed_def probed_paths_def probe_handle_def Probing Nil)
    then show ?thesis using step Probing Nil by (auto simp: claim_next_def continue_calls_def)
  next
    case (Cons n ns)
    show ?thesis
    proof (cases opened)
      case None
      then show ?thesis using step Probing Cons end_call(1) [OF ok nop] by (auto simp: claim_next_def continue_calls_def)
    next
      case (Some nfd)
      let ?h = "Handle (gc_pid c) nfd"
      have fd: "?h \<notin> set (open_files g)" using new Some by (simp add: unused_def)
      show ?thesis
      proof (cases "flock_nb ?h (neighbour_path c n) LockShared (open_file ?h g)")
        case None
        then have "g' = close_file (Handle (gc_pid c) (gc_fd c)) g" "r = Inl ClaimRefused"
          using step Probing Cons Some close_opened [OF gate_okD(1) [OF ok] fd]
            release_unregistered [OF gate_okD(2) [OF ok]] by (auto simp: claim_next_def)
        then show ?thesis using end_call(2) [OF ok nop] by (simp add: continue_calls_def)
      next
        case lock: (Some g1)
        then show ?thesis
          using step Probing Cons Some next_probe [OF ok Probing [unfolded Cons] fd lock]
          by (auto simp: claim_next_def continue_calls_def)
      qed
    qed
  qed
next
  case (Unprobing nfd ns)
  have "close_file h (unlock_file h g) = close_file h g" for h by (simp add: close_file_def unlock_file_def)
  then show ?thesis
    using step next_unprobe [OF ok Unprobing] Unprobing by (auto simp: claim_next_def continue_calls_def)
next
  case (Asking ns0)
  have nop: "probe_handle c = None" by (simp add: probe_handle_def Asking)
  show ?thesis
  proof (cases ns0)
    case Nil
    then show ?thesis
      using step next_register [OF ok] Asking by (auto simp: claim_next_def continue_calls_def own_path_def)
  next
    case (Cons n ns)
    let ?c = "c\<lparr>gc_phase := Asking ns\<rparr>"
    have "gate_ok conf (g, cs @ ?c # ds)"
      by (rule keep_call [OF ok])
        (simp_all add: call_owner_def own_path_def passed_def probed_paths_def probe_handle_def Asking)
    then show ?thesis
      using step Asking Cons end_call(2) [OF ok nop] release_unregistered [OF gate_okD(2) [OF ok]]
      by (auto simp: claim_next_def continue_calls_def split: if_splits)
  qed
qed

lemma release_ok:
  assumes ok: "gate_ok conf (g, cs)" and mem: "((pid, k), fd) \<in> set (claim_registry g)"
  shows "gate_ok conf (release_claim pid fd g, cs)"
proof -
  note d = gate_okD [OF ok]
  obtain r1 r2 where reg: "claim_registry g = r1 @ ((pid, k), fd) # r2" using split_list [OF mem] by blast
  let ?h = "Handle pid fd"
  have e: "fst (entry_owner conf ((pid, k), fd)) = ?h" by (simp add: entry_owner_def)
  have os: "owners_ok (held_locks g) ((map call_owner cs @ map (entry_owner conf) r1) @ entry_owner conf ((pid, k), fd) #
      map (entry_owner conf) r2)" using d(2) by (simp add: reg)
  have "\<not> (fst (fst x) = pid \<and> snd x = fd)" if "x \<in> set r1" for x
  proof
    assume "fst (fst x) = pid \<and> snd x = fd"
    then have "fst (entry_owner conf x) = ?h" by (simp add: entry_owner_def)
    then have "?h \<in> fst ` set (map (entry_owner conf) r1)" using that by force
    moreover have "?h \<notin> fst ` set ((map call_owner cs @ map (entry_owner conf) r1) @ map (entry_owner conf) r2)"
      using owner_distinct [OF os] e by simp
    ultimately show False unfolding set_append by blast
  qed
  then have "List.find (\<lambda>x. fst (fst x) = pid \<and> snd x = fd) (r1 @ ((pid, k), fd) # r2) = Some ((pid, k), fd)"
    by (induction r1) auto
  then have pop: "pop_registry pid fd (claim_registry g) = r1 @ r2"
    using d(4) delete_only [of r1 "(pid, k)" fd r2] by (simp add: pop_registry_def reg)
  have mine: "?h \<in> fst ` set (map call_owner cs @ map (entry_owner conf) (claim_registry g))"
    unfolding set_append set_map using mem e by (force simp del: map_append)
  have "probe_handle c \<noteq> Some ?h" if c: "c \<in> set cs" for c
  proof
    assume "probe_handle c = Some ?h"
    then obtain k' where "(?h, k', LockShared) \<in> set (held_locks g)" using d(3) c unfolding probes_ok_def by blast
    with owner_not_probe [OF d(1,2)] mine show False by blast
  qed
  then have "probes_ok (filter (\<lambda>l. fst l \<noteq> ?h) (held_locks g)) cs" by (rule probes_drop [OF d(3)])
  moreover have "locks_ok (release_claim pid fd g)"
    unfolding release_claim_def by (rule locks_close) (simp add: locks_registry d(1))
  ultimately show ?thesis
    using owners_remove [OF os] d(4,5) e
    by (simp add: gate_ok_def gate_owners_def release_claim_def reg pop [unfolded reg])
qed

lemma crash_ok:
  assumes ok: "gate_ok conf (g, cs)"
  shows "gate_ok conf (crash pid g, filter (\<lambda>c. gc_pid c \<noteq> pid) cs)"
proof -
  note d = gate_okD [OF ok]
  have "filter (\<lambda>ow. handle_pid (fst ow) \<noteq> pid) (map call_owner cs @ map (entry_owner conf) (claim_registry g)) =
      map call_owner (filter (\<lambda>c. gc_pid c \<noteq> pid) cs) @ map (entry_owner conf) (claim_registry (crash pid g))"
    by (simp add: filter_map comp_def call_owner_def entry_owner_def crash_def)
  with owners_filter [OF d(2), of pid]
  have "owners_ok (held_locks (crash pid g)) (map call_owner (filter (\<lambda>c. gc_pid c \<noteq> pid) cs) @
      map (entry_owner conf) (claim_registry (crash pid g)))" by (simp add: crash_def)
  moreover have "locks_ok (crash pid g)"
    using d(1) unfolding locks_ok_def crash_def by (simp add: distinct_map_filter; blast)
  moreover have "probes_ok (held_locks (crash pid g)) (filter (\<lambda>c. gc_pid c \<noteq> pid) cs)"
    unfolding probes_ok_def
  proof (intro conjI allI impI)
    have "List.map_filter probe_handle (filter (\<lambda>c. gc_pid c \<noteq> pid) cs) =
        filter (\<lambda>h. handle_pid h \<noteq> pid) (List.map_filter probe_handle cs)"
      by (induction cs) (auto simp: List.map_filter_simps probe_handle_def split: option.split claim_phase.split)
    then show "distinct (List.map_filter probe_handle (filter (\<lambda>c. gc_pid c \<noteq> pid) cs))"
      using d(3) by (simp add: probes_ok_def)
    fix c h
    assume c: "c \<in> set (filter (\<lambda>c. gc_pid c \<noteq> pid) cs)" "probe_handle c = Some h"
    then obtain k where "(h, k, LockShared) \<in> set (held_locks g)" using d(3) unfolding probes_ok_def by auto
    moreover have "handle_pid h \<noteq> pid" using c by (auto simp: probe_handle_def split: claim_phase.splits)
    ultimately show "\<exists>k. (h, k, LockShared) \<in> set (held_locks (crash pid g))" by (auto simp: crash_def)
  qed
  moreover have "distinct (map fst (claim_registry (crash pid g)))"
    using d(4) by (simp add: crash_def distinct_map_filter)
  ultimately show ?thesis using d(5) by (simp add: gate_ok_def gate_owners_def)
qed

lemma step_ok: "gate_step conf s t \<Longrightarrow> gate_ok conf s \<Longrightarrow> gate_ok conf t"
  by (induction rule: gate_step.induct) (simp_all add: begin_ok next_ok release_ok crash_ok)

lemma start_ok: "gate_ok conf (no_claims, [])"
  by (simp add: gate_ok_def gate_owners_def no_claims_def locks_ok_def owners_ok_def probes_ok_def List.map_filter_simps)

lemma gate_run_ok: "gate_run conf s \<Longrightarrow> gate_ok conf s"
  by (induction rule: gate_run.induct) (simp_all add: start_ok step_ok)

end
