(* ===== verification/ConflictProperties.thy ===== *)
theory ConflictProperties
  imports ConflictLaws
begin

text \<open>
  Properties of \<open>ConflictGate\<close>: conflicting lanes are never claimed together, what a call that runs alone
  decides, what is left behind when it raises, and when a base is fresh.
\<close>

section \<open>Exclusion\<close>

text \<open>
  C21 (safety): conflicting lanes are never claimed at the same time.  Whatever calls, releases and
  crashes of any number of processes interleave, each single action of each call on its own: when the
  conflicts are symmetric, no two registered claims conflict, and one lane has one claim, in one
  process, backed by the exclusive lock of its file.
\<close>

theorem conflicting_claims_exclude:
  assumes "gate_run conf (g, cs)" and "\<And>a b. b \<in> conf a \<Longrightarrow> a \<in> conf b"
    and "((pid, a), fd) \<in> set (claim_registry g)" "((pid', b), fd') \<in> set (claim_registry g)"
  shows "b \<notin> conf a \<and> (a = b \<longrightarrow> pid = pid' \<and> fd = fd') \<and> (Handle pid fd, a, LockExclusive) \<in> set (held_locks g)"
proof -
  note d = gate_okD [OF gate_run_ok [OF assms(1)]]
  have mem: "entry_owner conf ((pid, a), fd) \<in> set (map call_owner cs @ map (entry_owner conf) (claim_registry g))"
    "entry_owner conf ((pid', b), fd') \<in> set (map call_owner cs @ map (entry_owner conf) (claim_registry g))"
    using assms(3,4) by auto
  then have locks: "(Handle pid fd, a, LockExclusive) \<in> set (held_locks g)" "(Handle pid' fd', b, LockExclusive) \<in> set (held_locks g)"
    and apart: "\<not> (b \<in> conf a \<and> a \<in> conf b)"
    using d(2) unfolding owners_ok_def entry_owner_def fst_conv snd_conv by blast+
  have "b \<notin> conf a" using apart assms(2) by blast
  moreover have "a = b \<longrightarrow> Handle pid fd = Handle pid' fd'" using locks d(1) unfolding locks_ok_def by blast
  ultimately show ?thesis using locks(1) by simp
qed

section \<open>A call that runs alone\<close>

definition locked :: "claim_key \<Rightarrow> gate \<Rightarrow> bool" where
  "locked k g \<longleftrightarrow> list_ex (\<lambda>l. fst (snd l) = k) (held_locks g)"

definition locked_exclusively :: "claim_key \<Rightarrow> gate \<Rightarrow> bool" where
  "locked_exclusively k g \<longleftrightarrow> list_ex (\<lambda>l. snd l = (k, LockExclusive)) (held_locks g)"

lemma lowest_fd_free: "Handle pid (lowest_fd pid g) \<notin> set (open_files g)"
proof (cases "List.find (\<lambda>n. Handle pid n \<notin> set (open_files g)) [0..<Suc (length (open_files g))]")
  case None
  then have "Handle pid n \<in> set (open_files g)" if "n \<in> set [0..<Suc (length (open_files g))]" for n
    using that unfolding find_None_iff by blast
  then have "Handle pid ` {0..<Suc (length (open_files g))} \<subseteq> set (open_files g)" unfolding set_upt by blast
  then have "card (Handle pid ` {0..<Suc (length (open_files g))}) \<le> card (set (open_files g))" by (rule card_mono [rotated]) simp
  also have "\<dots> \<le> length (open_files g)" by (rule card_length)
  finally show ?thesis by (simp add: card_image inj_on_def)
next
  case (Some n)
  then have "lowest_fd pid g = n" unfolding lowest_fd_def by simp
  moreover have "Handle pid n \<notin> set (open_files g)" using Some unfolding find_Some_iff by blast
  ultimately show ?thesis by simp
qed

lemma flock_shared:
  assumes "locks_ok g"
  shows "flock_nb (Handle pid (lowest_fd pid g)) k LockShared (open_file (Handle pid (lowest_fd pid g)) g) =
    (if locked_exclusively k g then None
     else Some (g\<lparr>open_files := Handle pid (lowest_fd pid g) # open_files g,
       held_locks := (Handle pid (lowest_fd pid g), k, LockShared) # held_locks g\<rparr>))"
  unfolding flock_opened [OF assms lowest_fd_free] locked_exclusively_def list_ex_iff by (force simp: Bex_def)

lemma flock_exclusive:
  assumes "locks_ok g"
  shows "flock_nb (Handle pid (lowest_fd pid g)) k LockExclusive (open_file (Handle pid (lowest_fd pid g)) g) =
    (if locked k g then None
     else Some (g\<lparr>open_files := Handle pid (lowest_fd pid g) # open_files g,
       held_locks := (Handle pid (lowest_fd pid g), k, LockExclusive) # held_locks g\<rparr>))"
  unfolding flock_opened [OF assms lowest_fd_free] locked_def list_ex_iff by (force simp: Bex_def)

text \<open>A probe that succeeds leaves nothing behind.\<close>

lemma close_locked:
  assumes "locks_ok g" "h \<notin> set (open_files g)"
  shows "close_file h (g\<lparr>open_files := h # open_files g, held_locks := (h, k, m) # held_locks g\<rparr>) = g"
proof -
  have "\<forall>l \<in> set (held_locks g). fst l \<noteq> h" using assms by (auto simp: locks_ok_def)
  then show ?thesis using assms(2) by (simp add: close_file_def unlock_file_def filter_id_conv)
qed

lemma probe_one:
  assumes "locks_ok g" "gc_phase c = Probing (n # ns)" "opens n"
  shows "claim_loop opens probe c g =
    (if locked_exclusively (neighbour_path c n) g then (ClaimRefused, release_claim (gc_pid c) (gc_fd c) g)
     else claim_loop opens probe (c\<lparr>gc_phase := Probing ns\<rparr>) g)"
proof -
  let ?h = "Handle (gc_pid c) (lowest_fd (gc_pid c) g)"
  have step: "claim_next (if opens (phase_lane c) then Some (lowest_fd (gc_pid c) g) else None) (probe (phase_lane c)) c g =
      (if locked_exclusively (neighbour_path c n) g then (Inl ClaimRefused, release_claim (gc_pid c) (gc_fd c) g)
       else (Inr (c\<lparr>gc_phase := Unprobing (lowest_fd (gc_pid c) g) ns\<rparr>),
         g\<lparr>open_files := ?h # open_files g, held_locks := (?h, neighbour_path c n, LockShared) # held_locks g\<rparr>))"
    using assms(2,3) close_opened [OF assms(1) lowest_fd_free]
    by (simp add: claim_next_def phase_lane_def flock_shared [OF assms(1)])
  have "claim_loop opens probe (c\<lparr>gc_phase := Unprobing (lowest_fd (gc_pid c) g) ns\<rparr>)
      (g\<lparr>open_files := ?h # open_files g, held_locks := (?h, neighbour_path c n, LockShared) # held_locks g\<rparr>) =
      claim_loop opens probe (c\<lparr>gc_phase := Probing ns\<rparr>) g"
    using close_locked [OF assms(1) lowest_fd_free]
    by (subst claim_loop.simps) (simp add: claim_next_def close_file_def unlock_file_def)
  then show ?thesis by (subst claim_loop.simps) (simp add: step)
qed

lemma probe_all:
  assumes "locks_ok g" "\<forall>n \<in> set ns. opens n"
  shows "claim_loop opens probe (c\<lparr>gc_phase := Probing ns\<rparr>) g =
    (if \<exists>n \<in> set ns. locked_exclusively (neighbour_path c n) g then (ClaimRefused, release_claim (gc_pid c) (gc_fd c) g)
     else claim_loop opens probe (c\<lparr>gc_phase := Asking (gc_neighbours c)\<rparr>) g)"
  using assms(2)
proof (induction ns)
  case Nil
  then show ?case by (subst claim_loop.simps) (simp add: claim_next_def)
next
  case (Cons n ns)
  then show ?case using probe_one [OF assms(1), of "c\<lparr>gc_phase := Probing (n # ns)\<rparr>" n ns] by simp
qed

lemma ask_all:
  "claim_loop opens probe (c\<lparr>gc_phase := Asking ns\<rparr>) g =
    (if \<exists>n \<in> set ns. probe n = Some True then (ClaimRefused, release_claim (gc_pid c) (gc_fd c) g)
     else (ClaimAdmitted (gc_fd c), g\<lparr>claim_registry := AList.update (gc_pid c, own_path c) (gc_fd c) (claim_registry g)\<rparr>))"
proof (induction ns)
  case Nil
  show ?case by (subst claim_loop.simps) (simp add: claim_next_def own_path_def)
next
  case (Cons n ns)
  then show ?case by (subst claim_loop.simps) (simp add: claim_next_def phase_lane_def own_path_def)
qed

definition owner_path :: "string \<Rightarrow> (string \<times> string) list option \<Rightarrow> string \<Rightarrow> claim_key" where
  "owner_path task owners n =
     claim_path (case owners of None \<Rightarrow> task | Some os \<Rightarrow> (case map_of os n of None \<Rightarrow> task | Some t \<Rightarrow> t)) n"

text \<open>Nobody else has the descriptor that a new claim gets.\<close>

lemma unused_registry:
  assumes "gate_run conf (g, cs)" "Handle pid fd \<notin> set (open_files g)" "e \<in> set (claim_registry g)"
  shows "\<not> (fst (fst e) = pid \<and> snd e = fd)"
proof
  note d = gate_okD [OF gate_run_ok [OF assms(1)]]
  assume "fst (fst e) = pid \<and> snd e = fd"
  then have "fst (entry_owner conf e) = Handle pid fd" by (simp add: entry_owner_def)
  then have "Handle pid fd \<in> fst ` set (map call_owner cs @ map (entry_owner conf) (claim_registry g))"
    using assms(3) by force
  with owner_handles [OF d(1,2) assms(2)] show False by blast
qed

lemma release_new:
  assumes "gate_run conf (g, cs)" "Handle pid fd \<notin> set (open_files g)"
  shows "release_claim pid fd (g\<lparr>open_files := Handle pid fd # open_files g,
      held_locks := (Handle pid fd, k, LockExclusive) # held_locks g\<rparr>) = g"
    and "map_of (claim_registry g) (pid, k) = None \<Longrightarrow>
      release_claim pid fd (g\<lparr>open_files := Handle pid fd # open_files g,
        held_locks := (Handle pid fd, k, LockExclusive) # held_locks g,
        claim_registry := AList.update (pid, k) fd (claim_registry g)\<rparr>) = g"
proof -
  note ok = gate_run_ok [OF assms(1)]
  have none: "List.find (\<lambda>e. fst (fst e) = pid \<and> snd e = fd) (claim_registry g) = None"
    unfolding find_None_iff using unused_registry [OF assms] by blast
  then have pop: "pop_registry pid fd (claim_registry g) = claim_registry g" by (simp add: pop_registry_def)
  note close = close_locked [OF gate_okD(1) [OF ok] assms(2)]
  have same: "g\<lparr>open_files := fs, held_locks := ls, claim_registry := claim_registry g\<rparr> = g\<lparr>open_files := fs, held_locks := ls\<rparr>"
    for fs ls by simp
  show "release_claim pid fd (g\<lparr>open_files := Handle pid fd # open_files g,
      held_locks := (Handle pid fd, k, LockExclusive) # held_locks g\<rparr>) = g"
    using close by (simp add: release_claim_def pop same)
  assume new: "map_of (claim_registry g) (pid, k) = None"
  have "List.find (\<lambda>e. fst (fst e) = pid \<and> snd e = fd) (reg @ [((pid, k), fd)]) = Some ((pid, k), fd)"
    if "List.find (\<lambda>e. fst (fst e) = pid \<and> snd e = fd) reg = None" for reg
    using that by (induction reg) (auto split: if_splits)
  then have "pop_registry pid fd (claim_registry g @ [((pid, k), fd)]) = claim_registry g"
    using none new delete_only [of "claim_registry g" "(pid, k)" fd "[]"] gate_okD(4) [OF ok]
    by (simp add: pop_registry_def map_of_eq_None_iff)
  then show "release_claim pid fd (g\<lparr>open_files := Handle pid fd # open_files g,
        held_locks := (Handle pid fd, k, LockExclusive) # held_locks g,
        claim_registry := AList.update (pid, k) fd (claim_registry g)\<rparr>) = g"
    using close by (simp add: release_claim_def update_new [OF new] same)
qed

text \<open>
  C22 (functional): what a call decides when nothing comes between its actions.  A lane the process
  has claimed gives its descriptor again.  Otherwise, if all files open, the call is refused exactly when
  someone has a lock on the lane's file, someone has the exclusive lock of a neighbour's file, or the
  worker of a neighbour is reported alive, and a refusal leaves every table as it was; else the lane is
  claimed, and its release restores every table.
\<close>

theorem claim_alone_exactly:
  assumes "gate_run conf (g, cs)" "\<forall>n. opens n"
  shows "case map_of (claim_registry g) (pid, claim_path task lane) of
      Some fd \<Rightarrow> try_claim opens probe pid task lane ns owners g = (ClaimAdmitted fd, g)
    | None \<Rightarrow>
        if locked (claim_path task lane) g \<or>
          (\<exists>n \<in> set (neighbour_set lane ns). locked_exclusively (owner_path task owners n) g \<or> probe n = Some True)
        then try_claim opens probe pid task lane ns owners g = (ClaimRefused, g)
        else (\<exists>fd g'. try_claim opens probe pid task lane ns owners g = (ClaimAdmitted fd, g') \<and>
          map_of (claim_registry g') (pid, claim_path task lane) = Some fd \<and>
          locked_exclusively (claim_path task lane) g' \<and> release_claim pid fd g' = g)"
proof (cases "map_of (claim_registry g) (pid, claim_path task lane)")
  case (Some fd)
  then show ?thesis by (simp add: try_claim_def claim_begin_def)
next
  case None
  have ok: "locks_ok g" using gate_okD(1) [OF gate_run_ok [OF assms(1)]] .
  let ?fd = "lowest_fd pid g" and ?k = "claim_path task lane" and ?ns = "neighbour_set lane ns"
  let ?h = "Handle pid ?fd"
  let ?g = "g\<lparr>open_files := ?h # open_files g, held_locks := (?h, ?k, LockExclusive) # held_locks g\<rparr>"
  let ?c = "\<lparr>gc_pid = pid, gc_task = task, gc_lane = lane, gc_owners = owners, gc_neighbours = ?ns, gc_fd = ?fd, gc_phase = Probing ?ns\<rparr>"
  show ?thesis
  proof (cases "locked ?k g")
    case True
    then show ?thesis using None assms(2) close_opened [OF ok lowest_fd_free]
      by (simp add: try_claim_def claim_begin_def flock_exclusive [OF ok])
  next
    case False
    have "\<nexists>h' m'. (h', ?k, m') \<in> set (held_locks g) \<and> (LockExclusive = LockExclusive \<or> m' = LockExclusive)"
      using False by (force simp: locked_def list_ex_iff)
    then have ok': "locks_ok ?g" by (rule locks_add [OF ok lowest_fd_free])
    have path: "neighbour_path ?c n = owner_path task owners n" for n
      by (simp add: neighbour_path_def owner_path_def split: option.split)
    have other: "locked_exclusively (owner_path task owners n) ?g = locked_exclusively (owner_path task owners n) g"
      if "n \<in> set ?ns" for n
      using that by (auto simp: locked_exclusively_def neighbour_set_def owner_path_def claim_path_def)
    have "try_claim opens probe pid task lane ns owners g = claim_loop opens probe (?c\<lparr>gc_phase := Probing ?ns\<rparr>) ?g"
      using None False assms(2) by (simp add: try_claim_def claim_begin_def flock_exclusive [OF ok])
    also have "\<dots> = (if \<exists>n \<in> set ?ns. locked_exclusively (owner_path task owners n) g then (ClaimRefused, release_claim pid ?fd ?g)
        else claim_loop opens probe (?c\<lparr>gc_phase := Asking ?ns\<rparr>) ?g)"
      using probe_all [OF ok', where ns = ?ns and opens = opens and probe = probe and c = ?c] assms(2) other by (simp add: path)
    also have "\<dots> = (if \<exists>n \<in> set ?ns. locked_exclusively (owner_path task owners n) g \<or> probe n = Some True
        then (ClaimRefused, release_claim pid ?fd ?g)
        else (ClaimAdmitted ?fd, ?g\<lparr>claim_registry := AList.update (pid, ?k) ?fd (claim_registry g)\<rparr>))"
      using ask_all [where opens = opens and probe = probe and c = ?c and ns = ?ns and g = ?g] by (auto simp: own_path_def)
    finally have res: "try_claim opens probe pid task lane ns owners g = \<dots>" .
    have "locked_exclusively ?k (?g\<lparr>claim_registry := reg\<rparr>)" for reg by (simp add: locked_exclusively_def)
    then show ?thesis
      using None False res release_new [OF assms(1) lowest_fd_free] by (auto simp: update_conv')
  qed
qed

text \<open>Calls that run alone, one after the other, are a run.\<close>

lemma loop_run:
  "claim_loop opens probe c g = (r, g') \<Longrightarrow> gate_run conf (g, c # cs) \<Longrightarrow> gate_run conf (g', cs)"
proof (induction opens probe c g rule: claim_loop.induct)
  case (1 opens probe c g)
  let ?fd = "if opens (phase_lane c) then Some (lowest_fd (gc_pid c) g) else None"
  obtain x g1 where step: "claim_next ?fd (probe (phase_lane c)) c g = (x, g1)" by fastforce
  have "unused (gc_pid c) ?fd g" using lowest_fd_free by (simp add: unused_def)
  from run_step [OF "1.prems"(2) gate_next [of _ _ c g x g1 conf "[]" cs, simplified, OF step this]]
  have run: "gate_run conf (g1, continue_calls [] x cs)" .
  show ?case
  proof (cases x)
    case (Inl r1)
    then show ?thesis using run "1.prems"(1) step by (subst (asm) claim_loop.simps) (simp add: continue_calls_def)
  next
    case (Inr c1)
    then have "claim_loop opens probe c1 g1 = (r, g')"
      using "1.prems"(1) step by (subst (asm) claim_loop.simps) simp
    then show ?thesis using "1.IH" [OF step [symmetric] Inr] run Inr by (simp add: continue_calls_def)
  qed
qed

lemma begin_call:
  "claim_begin pid task lane ns owners opened g = (Inr c, g1) \<Longrightarrow>
     gc_task c = task \<and> gc_lane c = lane \<and> gc_owners c = owners \<and> gc_neighbours c = neighbour_set lane ns"
  by (auto simp: claim_begin_def split: option.splits)

lemma neighbour_owner: "neighbour_path c = owner_path (gc_task c) (gc_owners c)"
  by (simp add: fun_eq_iff neighbour_path_def owner_path_def)

lemma alone_run:
  assumes "try_claim opens probe pid task lane ns owners g = (r, g')" "gate_run conf (g, cs)"
    and "owner_path task owners ` set (neighbour_set lane ns) = conf (claim_path task lane)"
  shows "gate_run conf (g', cs)"
proof -
  let ?fd = "if opens lane then Some (lowest_fd pid g) else None"
  obtain x g1 where step: "claim_begin pid task lane ns owners ?fd g = (x, g1)" by fastforce
  have conf: "probed_paths c = conf (own_path c)" if "x = Inr c" for c
    using begin_call [OF step [unfolded that]] assms(3) by (simp add: probed_paths_def own_path_def neighbour_owner)
  have "unused pid ?fd g" using lowest_fd_free by (simp add: unused_def)
  from run_step [OF assms(2) gate_begin [OF step this conf]]
  have run: "gate_run conf (g1, continue_calls [] x cs)" .
  show ?thesis
  proof (cases x)
    case (Inl r1)
    then show ?thesis using run assms(1) step by (simp add: try_claim_def continue_calls_def)
  next
    case (Inr c1)
    then show ?thesis using run assms(1) step loop_run by (fastforce simp: try_claim_def continue_calls_def)
  qed
qed

section \<open>Witnesses\<close>

text \<open>Lane a conflicts with lane b; a and c are claimed by two processes.\<close>

definition demo_manifest :: pyval where
  "demo_manifest = PDict [(PStr ''conflict_edges'', PList [PList [PStr ''a'', PStr ''b'']])]"

definition demo_conflicts :: "claim_key \<Rightarrow> claim_key set" where
  "demo_conflicts k = (case k of ClaimPath t n \<Rightarrow> claim_path t ` set (neighbours_in (load_conflict_graph demo_manifest) n))"

lemma demo_conflicts_symmetric: "y \<in> demo_conflicts x \<Longrightarrow> x \<in> demo_conflicts y"
  using conflict_graph_symmetric [of demo_manifest]
  by (cases x; cases y) (auto simp: demo_conflicts_def claim_path_def symmetric_graph_def)

definition demo_claim :: "nat \<Rightarrow> string \<Rightarrow> gate \<Rightarrow> claim_outcome \<times> gate" where
  "demo_claim pid lane =
     try_claim (\<lambda>_. True) (\<lambda>_. None) pid ''T'' lane (neighbours_in (load_conflict_graph demo_manifest) lane) None"

definition demo_gate :: gate where
  "demo_gate = snd (demo_claim 2 ''c'' (snd (demo_claim 1 ''a'' no_claims)))"

lemma demo_gate_run: "gate_run demo_conflicts (demo_gate, [])"
proof -
  have n: "owner_path ''T'' None ` set (neighbour_set l (neighbours_in (load_conflict_graph demo_manifest) l)) =
      demo_conflicts (claim_path ''T'' l)" if "l = ''a'' \<or> l = ''c''" for l
  proof -
    have "neighbour_set ''a'' (neighbours_in (load_conflict_graph demo_manifest) ''a'') = [''b'']"
      "neighbours_in (load_conflict_graph demo_manifest) ''a'' = [''b'']"
      "neighbour_set ''c'' (neighbours_in (load_conflict_graph demo_manifest) ''c'') = []"
      "neighbours_in (load_conflict_graph demo_manifest) ''c'' = []" by code_simp+
    then show ?thesis using that by (auto simp: demo_conflicts_def owner_path_def claim_path_def)
  qed
  have step: "gate_run demo_conflicts (snd (demo_claim pid l g), [])"
    if "gate_run demo_conflicts (g, [])" "l = ''a'' \<or> l = ''c''" for pid l g
    unfolding demo_claim_def by (rule alone_run [OF _ that(1) n [OF that(2)], of "\<lambda>_. True" "\<lambda>_. None" pid]) (rule prod.collapse [symmetric])
  show ?thesis unfolding demo_gate_def by (intro step run_start) simp_all
qed

theorem conflicting_claims_exclude_witness:
  "claim_path ''T'' ''c'' \<notin> demo_conflicts (claim_path ''T'' ''a'')"
proof -
  have "list_all (\<lambda>e. e \<in> set (claim_registry demo_gate)) [((1, claim_path ''T'' ''a''), 0), ((2, claim_path ''T'' ''c''), 0)]"
    by code_simp
  then have "((1, claim_path ''T'' ''a''), 0) \<in> set (claim_registry demo_gate)"
    "((2, claim_path ''T'' ''c''), 0) \<in> set (claim_registry demo_gate)" by simp_all
  from conflicting_claims_exclude [OF demo_gate_run demo_conflicts_symmetric this] show ?thesis by blast
qed

theorem claim_alone_exactly_witness:
  "try_claim (\<lambda>_. True) (\<lambda>_. None) 3 ''T'' ''b'' [''a''] None demo_gate = (ClaimRefused, demo_gate)"
proof -
  have "map_of (claim_registry demo_gate) (3, claim_path ''T'' ''b'') = None"
    "list_ex (\<lambda>n. locked_exclusively (owner_path ''T'' None n) demo_gate) (neighbour_set ''b'' [''a''])" by code_simp+
  then show ?thesis
    using claim_alone_exactly [OF demo_gate_run, where opens = "\<lambda>_. True" and pid = 3 and task = "''T''" and lane = "''b''"
        and probe = "\<lambda>_. None" and ns = "[''a'']" and owners = None]
    by (auto simp: list_ex_iff split: if_splits)
qed

section \<open>A probe that raises\<close>

lemma unlocked_unregistered:
  assumes "gate_run conf (g, cs)" "\<not> locked k g"
  shows "map_of (claim_registry g) (pid, k) = None"
proof (rule ccontr)
  note d = gate_okD [OF gate_run_ok [OF assms(1)]]
  assume "map_of (claim_registry g) (pid, k) \<noteq> None"
  then obtain fd where "((pid, k), fd) \<in> set (claim_registry g)" using map_of_SomeD by fastforce
  then have "entry_owner conf ((pid, k), fd) \<in> set (map call_owner cs @ map (entry_owner conf) (claim_registry g))" by simp
  then have "(Handle pid fd, k, LockExclusive) \<in> set (held_locks g)"
    using d(2) unfolding owners_ok_def entry_owner_def fst_conv snd_conv by blast
  with assms(2) show False by (force simp: locked_def list_ex_iff)
qed

text \<open>
  C23 (error): a probe whose file cannot be opened leaks the claim.  When \<open>os.open\<close> raises for the first
  neighbour (no descriptors left, no permission), the exception leaves \<open>try_claim\<close> past both of its
  \<open>release_claim\<close> calls: the lane's file stays locked without a registry entry, so no \<open>release_claim\<close>
  finds it, and from then on every call for the lane, in any process, is refused; only the end of the
  process gives the lane back.
\<close>

theorem failed_probe_leaks_claim:
  assumes "gate_run conf (g, cs)" "\<not> locked (claim_path task lane) g"
    and "opens lane" "neighbour_set lane ns = n # rest" "\<not> opens n"
  shows "\<exists>g'. try_claim opens probe pid task lane ns owners g = (ClaimRaised, g') \<and>
    claim_registry g' = claim_registry g \<and> locked_exclusively (claim_path task lane) g' \<and> crash pid g' = crash pid g \<and>
    (\<forall>opens' probe' pid' ns' owners'. opens' lane \<longrightarrow>
       fst (try_claim opens' probe' pid' task lane ns' owners' g') = ClaimRefused)"
proof -
  have ok: "locks_ok g" using gate_okD(1) [OF gate_run_ok [OF assms(1)]] .
  let ?k = "claim_path task lane" and ?h = "Handle pid (lowest_fd pid g)"
  let ?g = "g\<lparr>open_files := ?h # open_files g, held_locks := (?h, ?k, LockExclusive) # held_locks g\<rparr>"
  note none = unlocked_unregistered [OF assms(1,2)]
  have "\<nexists>h' m'. (h', ?k, m') \<in> set (held_locks g) \<and> (LockExclusive = LockExclusive \<or> m' = LockExclusive)"
    using assms(2) by (force simp: locked_def list_ex_iff)
  then have ok': "locks_ok ?g" by (rule locks_add [OF ok lowest_fd_free])
  have "try_claim opens probe pid task lane ns owners g = (ClaimRaised, ?g)"
    using none assms(2-5)
    by (simp add: try_claim_def claim_begin_def flock_exclusive [OF ok] claim_loop.simps claim_next_def phase_lane_def)
  moreover have "locked_exclusively ?k ?g" "locked ?k ?g" by (simp_all add: locked_exclusively_def locked_def)
  moreover have "crash pid ?g = crash pid g" by (simp add: crash_def)
  moreover have "fst (try_claim opens' probe' pid' task lane ns' owners' ?g) = ClaimRefused" if "opens' lane"
    for opens' probe' pid' ns' owners'
    using that none calculation(3) by (simp add: try_claim_def claim_begin_def flock_exclusive [OF ok'])
  ultimately show ?thesis by (intro exI [of _ ?g]) simp
qed

theorem failed_probe_leaks_claim_witness:
  "\<exists>g'. try_claim (\<lambda>n. n \<noteq> ''a'') (\<lambda>_. None) 7 ''T'' ''b'' [''a''] None no_claims = (ClaimRaised, g') \<and>
     fst (try_claim (\<lambda>_. True) (\<lambda>_. None) 7 ''T'' ''b'' [''a''] None g') = ClaimRefused"
proof -
  have "\<not> locked (claim_path ''T'' ''b'') no_claims" "neighbour_set ''b'' [''a''] = [''a'']" by code_simp+
  from failed_probe_leaks_claim [OF run_start this(1) _ this(2), where opens = "\<lambda>n. n \<noteq> ''a''" and probe = "\<lambda>_. None"
      and pid = 7 and owners = None]
  show ?thesis by auto
qed

section \<open>Freshness\<close>

text \<open>
  Property (functional): a lane's base is \<open>ok\<close> exactly when the head of its work tree is readable and
  has every landing of a neighbour that is recorded with a full SHA among its ancestors; it is \<open>refuse\<close>
  exactly when one is missing and the work tree is dirty or its status unreadable.
\<close>

theorem fresh_base_exactly:
  fixes lane manifest landings wt
  defines "ns \<equiv> neighbours_in (if is_mapping manifest then load_conflict_graph manifest else []) lane"
  shows "(check_lane_base_freshness lane manifest wt landings = ''ok'' \<longleftrightarrow>
      (\<exists>t base. wt = Some t \<and> effective_base wt = Some base \<and>
        (\<forall>n s. n \<in> set ns \<and> landing_of landings n = Some s \<longrightarrow> gt_ancestor t s base))) \<and>
    (check_lane_base_freshness lane manifest wt landings = ''refuse'' \<longleftrightarrow>
      (\<exists>t base n s. wt = Some t \<and> effective_base wt = Some base \<and> n \<in> set ns \<and> landing_of landings n = Some s \<and>
        \<not> gt_ancestor t s base \<and> worktree_is_dirty t))"
proof (cases "effective_base wt")
  case None
  then show ?thesis by (simp add: check_lane_base_freshness_def)
next
  case (Some base)
  then obtain t where t: "wt = Some t" by (cases wt) (auto simp: effective_base_def)
  show ?thesis
  proof (cases "stale_neighbour t base landings (sort ns)")
    case None
    then have "\<forall>n s. n \<in> set ns \<and> landing_of landings n = Some s \<longrightarrow> gt_ancestor t s base"
      by (auto simp: stale_neighbour_def find_None_iff split: option.splits)
    then show ?thesis using None Some t by (auto simp: check_lane_base_freshness_def ns_def)
  next
    case stale: (Some n)
    then have "n \<in> set ns \<and> (\<exists>s. landing_of landings n = Some s \<and> \<not> gt_ancestor t s base)"
      unfolding stale_neighbour_def find_Some_iff by (metis nth_mem set_sort option.exhaust option.simps(4) option.simps(5))
    then show ?thesis using stale Some t by (auto simp: check_lane_base_freshness_def ns_def)
  qed
qed

end
