(* ===== verification/RouteFallback.thy ===== *)
theory RouteFallback
  imports FailureClass
begin

text \<open>
  \<open>route_fallback_policy.py\<close>: the rules that allow a capacity failure to move a lane to another route,
  the decision on a failure, and the receipt that a decision is replayed from.  The table of backends,
  SHA-256 of the rules and the JSON text of a result are parameters; the keys of mappings are strings.
\<close>

section \<open>Routes, failures, rules\<close>

record routing_quad =
  rq_backend :: "string option"
  rq_model :: "string option"
  rq_effort :: "string option"
  rq_speed :: "string option"
  rq_tier :: "string option"

record route_failure =
  rf_class :: string
  rf_evidence :: string
  rf_source :: string

record fallback_rule =
  fr_id :: string
  fr_from_backend :: string
  fr_from_model :: "string option"
  fr_to :: routing_quad

record fallback_policy =
  fp_rules :: "fallback_rule list"
  fp_source :: string

record route_lib =
  backend_names :: "string list"
  retired_backends :: "string list"
  rules_digest :: "fallback_rule list \<Rightarrow> string"
  dump_result :: "pyval \<Rightarrow> string"

definition empty_policy :: fallback_policy where
  "empty_policy = \<lparr>fp_rules = [], fp_source = ''default_deny''\<rparr>"

definition policy_digest :: "route_lib \<Rightarrow> fallback_policy \<Rightarrow> string" where
  "policy_digest R p = rules_digest R (fp_rules p)"

definition execution_location :: "string list \<Rightarrow> string option \<Rightarrow> string" where
  "execution_location admitted b = (if b \<in> Some ` set admitted then ''remote_vm'' else ''local_host'')"

section \<open>The policy from its mapping\<close>

definition check_keys :: "pyval \<Rightarrow> string list \<Rightarrow> unit result" where
  "check_keys v names =
     (if is_mapping v \<and> list_all (\<lambda>kv. fst kv \<in> PStr ` set names) (py_items v) then Inr () else Inl ValueError)"

definition required_text :: "pyval \<Rightarrow> string result" where
  "required_text v = (case v of PStr s \<Rightarrow> if py_strip s = [] then Inl ValueError else Inr s | _ \<Rightarrow> Inl ValueError)"

definition validate_backend :: "route_lib \<Rightarrow> string \<Rightarrow> string result" where
  "validate_backend R name =
     (if py_strip name \<in> set (retired_backends R) \<or> py_strip name \<notin> set (backend_names R) then Inl RuntimeError
      else Inr (py_strip name))"

definition policy_backend :: "route_lib \<Rightarrow> pyval \<Rightarrow> string result" where
  "policy_backend R v =
     bind_result (required_text v) (\<lambda>s. case validate_backend R s of Inl _ \<Rightarrow> Inl ValueError | Inr b \<Rightarrow> Inr b)"

definition optional_rule_text :: "pyval \<Rightarrow> string option result" where
  "optional_rule_text v = (if v = PNone then Inr None else bind_result (required_text v) (\<lambda>s. Inr (Some s)))"

text \<open>\<open>FallbackRule.__post_init__\<close>; \<open>on\<close> was checked before.\<close>

definition make_rule :: "string \<Rightarrow> string \<Rightarrow> string option \<Rightarrow> routing_quad \<Rightarrow> fallback_rule result" where
  "make_rule i b m q =
     (if rq_backend q \<in> {None, Some []} \<or> rq_model q \<in> {None, Some []} then Inl ValueError
      else Inr \<lparr>fr_id = i, fr_from_backend = b, fr_from_model = m, fr_to = q\<rparr>)"

definition read_target :: "route_lib \<Rightarrow> pyval \<Rightarrow> routing_quad result" where
  "read_target R v =
     bind_result (check_keys v [''backend'', ''model'', ''effort'', ''speed'', ''tier'']) (\<lambda>_.
     bind_result (policy_backend R (py_get v ''backend'')) (\<lambda>b.
     bind_result (required_text (py_get v ''model'')) (\<lambda>m.
     bind_result (optional_rule_text (py_get v ''effort'')) (\<lambda>e.
     bind_result (optional_rule_text (py_get v ''speed'')) (\<lambda>s.
     bind_result (optional_rule_text (py_get v ''tier'')) (\<lambda>t.
       Inr \<lparr>rq_backend = Some b, rq_model = Some m, rq_effort = e, rq_speed = s, rq_tier = t\<rparr>))))))"

definition read_rule :: "route_lib \<Rightarrow> string list \<Rightarrow> pyval \<Rightarrow> fallback_rule result" where
  "read_rule R seen row =
     bind_result (check_keys row [''rule_id'', ''from_backend'', ''from_model'', ''to'', ''on'']) (\<lambda>_.
     if py_get row ''on'' \<noteq> PList [PStr ''capacity''] then Inl ValueError
     else bind_result (required_text (py_get row ''rule_id'')) (\<lambda>i.
     if i \<in> set seen then Inl ValueError
     else bind_result (read_target R (py_get row ''to'')) (\<lambda>q.
     bind_result (optional_rule_text (py_get row ''from_model'')) (\<lambda>m.
     bind_result (policy_backend R (py_get row ''from_backend'')) (\<lambda>b. make_rule i b m q)))))"

fun read_rules :: "route_lib \<Rightarrow> string list \<Rightarrow> pyval list \<Rightarrow> fallback_rule list result" where
  "read_rules R seen [] = Inr []"
| "read_rules R seen (row # rows) =
     bind_result (read_rule R seen row) (\<lambda>r.
     bind_result (read_rules R (fr_id r # seen) rows) (\<lambda>rs. Inr (r # rs)))"

definition policy_from_mapping :: "route_lib \<Rightarrow> pyval \<Rightarrow> string \<Rightarrow> fallback_policy result" where
  "policy_from_mapping R data source =
     bind_result (check_keys data [''rules'']) (\<lambda>_.
     case py_get data ''rules'' of
       PList rows \<Rightarrow> bind_result (read_rules R [] rows) (\<lambda>rs. Inr \<lparr>fp_rules = rs, fp_source = source\<rparr>)
     | _ \<Rightarrow> Inl ValueError)"

section \<open>The class of a failure\<close>

text \<open>\<open>name in v\<close> for a string \<open>name\<close>.\<close>

fun contains_name :: "string \<Rightarrow> pyval \<Rightarrow> bool result" where
  "contains_name n (PList vs) = Inr (PStr n \<in> set vs)"
| "contains_name n (PTuple vs) = Inr (PStr n \<in> set vs)"
| "contains_name n (PDict kvs) = Inr (PStr n \<in> fst ` set kvs)"
| "contains_name n (PStr s) = Inr (in_str n s)"
| "contains_name n _ = Inl TypeError"

definition dispatch_markers :: "(string \<times> string list) list" where
  "dispatch_markers =
     [(''auth'', [''401'', ''403'', ''unauthorized'', ''not logged in'', ''invalid api key'', ''authentication'']),
      (''configuration'', [''resolve_effective_model'', ''allowed_models'', ''malformed backend spec'', ''missing binary'']),
      (''capacity'', [''http 402'', ''out of usage'', ''usage limit'', ''quota'', ''rate_limited'', ''rate limit''])]"

fun marker_class :: "string \<Rightarrow> (string \<times> string list) list \<Rightarrow> route_failure option" where
  "marker_class text [] = None"
| "marker_class text ((c, ms) # rest) =
     (case List.find (\<lambda>m. in_str m text) ms of
        Some m \<Rightarrow> Some \<lparr>rf_class = c, rf_evidence = m, rf_source = ''text''\<rparr>
      | None \<Rightarrow> marker_class text rest)"

definition typed_capacity :: "pyval \<Rightarrow> bool result" where
  "typed_capacity res =
     (if py_get res ''handoff_action'' = PStr ''rate_limited'' \<or> py_get res ''outcome'' = PStr ''rate_limited'' then Inr True
      else contains_name ''rate_limited'' (py_or (py_get res ''blockers'') (PTuple [])))"

definition classify_route_failure :: "py_lib \<Rightarrow> route_lib \<Rightarrow> pyval \<Rightarrow> route_failure result" where
  "classify_route_failure L R res =
     (let raw = (if is_mapping (py_get res ''raw_payload'') then py_get res ''raw_payload'' else PDict [])
      in bind_result (typed_capacity res) (\<lambda>cap.
         if cap then
           Inr \<lparr>rf_class = ''capacity'',
             rf_evidence = py_str L (py_or (py_get raw ''rate_limit_detail'') (PStr ''rate_limited'')), rf_source = ''typed''\<rparr>
         else bind_result (in_names (py_get res ''outcome'') [''remote_required'', ''routing_refused'', ''dispatch_refused'']) (\<lambda>refused.
           if refused then Inr \<lparr>rf_class = ''validation'', rf_evidence = py_str L (py_get res ''outcome''), rf_source = ''typed''\<rparr>
           else if py_get res ''failure_class'' = PStr ''configuration'' \<or> py_get raw ''failure_class'' = PStr ''configuration'' then
             Inr \<lparr>rf_class = ''configuration'', rf_evidence = ''configuration'', rf_source = ''typed''\<rparr>
           else Inr (case (if py_get raw ''origin'' = PStr ''dispatch''
                           then marker_class (py_lower (dump_result R res)) dispatch_markers else None) of
               Some f \<Rightarrow> f
             | None \<Rightarrow> \<lparr>rf_class = ''unknown'', rf_evidence = [], rf_source = ''none''\<rparr>))))"

section \<open>The decision and its receipt\<close>

record route_decision =
  rd_transition :: bool
  rd_requested :: routing_quad
  rd_effective :: "routing_quad option"
  rd_reason :: string
  rd_rule :: "string option"
  rd_failure :: route_failure
  rd_digest :: string
  rd_source :: string
  rd_decided :: string

definition rule_matches :: "routing_quad \<Rightarrow> fallback_rule \<Rightarrow> bool" where
  "rule_matches q r \<longleftrightarrow> rq_backend q = Some (fr_from_backend r) \<and>
     (fr_from_model r = None \<or> fr_from_model r = rq_model q)"

definition same_route :: "routing_quad \<Rightarrow> routing_quad \<Rightarrow> bool" where
  "same_route a b \<longleftrightarrow> rq_backend a = rq_backend b \<and> rq_model a = rq_model b \<and> rq_effort a = rq_effort b \<and> rq_speed a = rq_speed b"

definition decide_route_transition ::
    "route_lib \<Rightarrow> routing_quad \<Rightarrow> route_failure \<Rightarrow> fallback_policy \<Rightarrow> string \<Rightarrow> string list \<Rightarrow> string \<Rightarrow> route_decision" where
  "decide_route_transition R q f p mode admitted decided =
     (let d = \<lparr>rd_transition = False, rd_requested = q, rd_effective = None, rd_reason = ''fallback_not_capacity'',
           rd_rule = None, rd_failure = f, rd_digest = policy_digest R p, rd_source = fp_source p, rd_decided = decided\<rparr>
      in if rf_class f \<noteq> ''capacity'' then d
         else (case List.find (rule_matches q) (fp_rules p) of
           None \<Rightarrow> d\<lparr>rd_reason := ''fallback_not_authorized''\<rparr>
         | Some r \<Rightarrow>
             (let d1 = d\<lparr>rd_rule := Some (fr_id r)\<rparr>
              in if mode = ''remote_only'' \<and> rq_backend (fr_to r) \<notin> Some ` set admitted then d1\<lparr>rd_reason := ''remote_required''\<rparr>
                 else if same_route (fr_to r) q then d1\<lparr>rd_reason := ''fallback_same_route''\<rparr>
                 else d1\<lparr>rd_transition := True, rd_effective := Some (fr_to r), rd_reason := ''capacity_fallback_authorized''\<rparr>)))"

text \<open>A route in a receipt is the quad with its location.\<close>

record route_record =
  rr_requested :: "routing_quad \<times> string"
  rr_effective :: "(routing_quad \<times> string) option"
  rr_transition :: bool
  rr_reason :: string
  rr_rule :: "string option"
  rr_failure :: route_failure
  rr_digest :: string
  rr_source :: string
  rr_decided :: string

definition located :: "string list \<Rightarrow> routing_quad \<Rightarrow> routing_quad \<times> string" where
  "located admitted q = (q, execution_location admitted (rq_backend q))"

definition route_decision_record :: "string list \<Rightarrow> route_decision \<Rightarrow> route_record" where
  "route_decision_record admitted d =
     \<lparr>rr_requested = located admitted (rd_requested d), rr_effective = map_option (located admitted) (rd_effective d),
      rr_transition = rd_transition d, rr_reason = rd_reason d, rr_rule = rd_rule d, rr_failure = rd_failure d,
      rr_digest = rd_digest d, rr_source = rd_source d, rr_decided = rd_decided d\<rparr>"

definition replay_route_decision :: "route_lib \<Rightarrow> route_record \<Rightarrow> fallback_policy \<Rightarrow> string \<Rightarrow> string list \<Rightarrow> route_decision" where
  "replay_route_decision R w p mode admitted =
     (let q = fst (rr_requested w)
      in if rr_digest w \<noteq> policy_digest R p then
           \<lparr>rd_transition = False, rd_requested = q, rd_effective = None, rd_reason = ''fallback_policy_changed'',
            rd_rule = None, rd_failure = rr_failure w, rd_digest = policy_digest R p, rd_source = fp_source p,
            rd_decided = rr_decided w\<rparr>
         else
           (let d = decide_route_transition R q (rr_failure w) p mode admitted (rr_decided w)
            in if rr_effective (route_decision_record admitted d) \<noteq> rr_effective w
               then d\<lparr>rd_transition := False, rd_effective := None, rd_reason := ''fallback_record_mismatch''\<rparr>
               else d))"

end
