(* ===== verification/RouteProperties.thy ===== *)
theory RouteProperties
  imports RouteFallback
begin

text \<open>
  Properties of \<open>RouteFallback\<close>: which failures move a lane and where, that a replay repeats its decision
  and never widens the policy, and what a policy read from a mapping guarantees.
\<close>

section \<open>Decisions\<close>

text \<open>
  Property (functional): a lane moves exactly when the failure is one of capacity, some rule fits the
  backend and model it asked for, and the target of the first such rule is admitted where only remote
  execution is allowed and differs from what failed; it moves to that target.  A refusal names no route.
\<close>

theorem route_moves_exactly:
  fixes R q f p mode admitted decided
  defines "d \<equiv> decide_route_transition R q f p mode admitted decided"
  shows "rd_transition d = (\<exists>r rest skipped. fp_rules p = skipped @ r # rest \<and> \<not> list_ex (rule_matches q) skipped \<and>
      rule_matches q r \<and> rf_class f = ''capacity'' \<and> (mode = ''remote_only'' \<longrightarrow> rq_backend (fr_to r) \<in> Some ` set admitted) \<and>
      \<not> same_route (fr_to r) q \<and> rd_effective d = Some (fr_to r) \<and> rd_rule d = Some (fr_id r)) \<and>
    (rd_transition d \<longleftrightarrow> rd_effective d \<noteq> None)"
proof (cases "List.find (rule_matches q) (fp_rules p)")
  case None
  then have "\<not> list_ex (rule_matches q) (fp_rules p)" by (simp add: find_None_iff list_ex_iff)
  then show ?thesis using None by (auto simp: d_def decide_route_transition_def Let_def)
next
  case (Some r)
  obtain skipped rest where split: "fp_rules p = skipped @ r # rest" "\<not> list_ex (rule_matches q) skipped" "rule_matches q r"
  proof -
    obtain i where i: "i < length (fp_rules p)" "rule_matches q (fp_rules p ! i)" "r = fp_rules p ! i"
      "\<forall>j < i. \<not> rule_matches q (fp_rules p ! j)" using Some by (auto simp: find_Some_iff)
    then have "\<not> list_ex (rule_matches q) (take i (fp_rules p))" by (auto simp: list_ex_iff in_set_conv_nth)
    then show ?thesis using that i id_take_nth_drop [OF i(1)] by metis
  qed
  have first: "r' = r" if "fp_rules p = sk @ r' # rs" "\<not> list_ex (rule_matches q) sk" "rule_matches q r'" for sk r' rs
  proof -
    have "List.find (rule_matches q) (sk @ r' # rs) = Some r'" using that(2,3) by (induction sk) auto
    then show ?thesis using Some that(1) by simp
  qed
  define ok where "ok \<longleftrightarrow> rf_class f = ''capacity'' \<and> (mode = ''remote_only'' \<longrightarrow> rq_backend (fr_to r) \<in> Some ` set admitted) \<and>
    \<not> same_route (fr_to r) q"
  have d: "rd_transition d = ok" "rd_effective d = (if ok then Some (fr_to r) else None)" "ok \<longrightarrow> rd_rule d = Some (fr_id r)"
    using Some by (auto simp: d_def decide_route_transition_def Let_def ok_def)
  show ?thesis
  proof (intro conjI)
    show "rd_transition d = (\<exists>r rest skipped. fp_rules p = skipped @ r # rest \<and> \<not> list_ex (rule_matches q) skipped \<and>
        rule_matches q r \<and> rf_class f = ''capacity'' \<and> (mode = ''remote_only'' \<longrightarrow> rq_backend (fr_to r) \<in> Some ` set admitted) \<and>
        \<not> same_route (fr_to r) q \<and> rd_effective d = Some (fr_to r) \<and> rd_rule d = Some (fr_id r))" (is "_ = ?moves")
    proof
      assume "rd_transition d"
      then have ok: ok using d(1) by simp
      then show ?moves using split d(2,3) unfolding ok_def by (intro exI [of _ r] exI [of _ rest] exI [of _ skipped]) simp
    next
      assume ?moves
      then show "rd_transition d" using first unfolding d(1) ok_def by blast
    qed
  qed (simp add: d)
qed

section \<open>Replay\<close>

text \<open>
  C24 (roundtrip): replaying the receipt of a decision under the same policy, mode and admitted backends
  gives the decision back; and no receipt, altered or not, replays to a route that the policy at hand does not
  give: a replay that moves a lane decides as a fresh call would, under the recorded digest, and moves
  to the recorded target.
\<close>

theorem replay_repeats_decision:
  "replay_route_decision R (route_decision_record admitted (decide_route_transition R q f p mode admitted decided)) p mode admitted =
      decide_route_transition R q f p mode admitted decided \<and>
    (\<forall>w. rd_transition (replay_route_decision R w p mode admitted) \<longrightarrow>
      replay_route_decision R w p mode admitted =
        decide_route_transition R (fst (rr_requested w)) (rr_failure w) p mode admitted (rr_decided w) \<and>
      rr_digest w = policy_digest R p \<and>
      (\<exists>r \<in> set (fp_rules p). rule_matches (fst (rr_requested w)) r \<and>
         rd_effective (replay_route_decision R w p mode admitted) = Some (fr_to r) \<and>
         rr_effective w = Some (located admitted (fr_to r))))"
proof (intro conjI allI impI)
  let ?d = "decide_route_transition R q f p mode admitted decided"
  have echo: "rd_requested ?d = q" "rd_failure ?d = f" "rd_decided ?d = decided" "rd_digest ?d = policy_digest R p"
    by (simp_all add: decide_route_transition_def Let_def split: option.split)
  show "replay_route_decision R (route_decision_record admitted ?d) p mode admitted = ?d"
    using echo by (simp add: replay_route_decision_def route_decision_record_def located_def Let_def)
next
  fix w :: route_record
  let ?d = "decide_route_transition R (fst (rr_requested w)) (rr_failure w) p mode admitted (rr_decided w)"
  assume moves: "rd_transition (replay_route_decision R w p mode admitted)"
  then have same: "replay_route_decision R w p mode admitted = ?d" "rr_digest w = policy_digest R p"
    "rr_effective (route_decision_record admitted ?d) = rr_effective w"
    by (auto simp: replay_route_decision_def Let_def split: if_splits)
  show "replay_route_decision R w p mode admitted = ?d" "rr_digest w = policy_digest R p" by (rule same)+
  have "rd_transition ?d" using moves same(1) by simp
  then obtain r rest skipped where "fp_rules p = skipped @ r # rest" and
    m: "rule_matches (fst (rr_requested w)) r" "rd_effective ?d = Some (fr_to r)"
    using route_moves_exactly [of R "fst (rr_requested w)" "rr_failure w" p mode admitted "rr_decided w"] by blast
  then have r: "r \<in> set (fp_rules p)" "rule_matches (fst (rr_requested w)) r" "rd_effective ?d = Some (fr_to r)" by simp_all
  have "rr_effective w = Some (located admitted (fr_to r))" using same(3) r(3) by (simp add: route_decision_record_def)
  with r same(1) show "\<exists>r \<in> set (fp_rules p). rule_matches (fst (rr_requested w)) r \<and>
      rd_effective (replay_route_decision R w p mode admitted) = Some (fr_to r) \<and>
      rr_effective w = Some (located admitted (fr_to r))" by auto
qed

definition demo_route_lib :: route_lib where
  "demo_route_lib = \<lparr>backend_names = [''grok'', ''codex''], retired_backends = [], rules_digest = (\<lambda>_. ''d''), dump_result = (\<lambda>_. [])\<rparr>"

definition demo_rules :: pyval where
  "demo_rules = PDict [(PStr ''rules'', PList [PDict
     [(PStr ''rule_id'', PStr ''r1''), (PStr ''from_backend'', PStr '' grok''), (PStr ''on'', PList [PStr ''capacity'']),
      (PStr ''to'', PDict [(PStr ''backend'', PStr ''codex''), (PStr ''model'', PStr ''m'')])]])]"

definition demo_policy :: fallback_policy where
  "demo_policy = (case policy_from_mapping demo_route_lib demo_rules ''operator'' of Inr p \<Rightarrow> p | Inl _ \<Rightarrow> empty_policy)"

definition demo_requested :: routing_quad where
  "demo_requested = \<lparr>rq_backend = Some ''grok'', rq_model = Some ''x'', rq_effort = None, rq_speed = None, rq_tier = None\<rparr>"

definition demo_failure :: route_failure where
  "demo_failure = \<lparr>rf_class = ''capacity'', rf_evidence = ''quota'', rf_source = ''text''\<rparr>"

definition demo_record :: route_record where
  "demo_record = route_decision_record [] (decide_route_transition demo_route_lib demo_requested demo_failure demo_policy ''any'' [] ''now'')"

theorem replay_repeats_decision_witness:
  "\<exists>r \<in> set (fp_rules demo_policy). rr_effective demo_record = Some (located [] (fr_to r)) \<and> rq_backend (fr_to r) = Some ''codex''"
proof -
  have moves: "rd_transition (replay_route_decision demo_route_lib demo_record demo_policy ''any'' [])"
    and only: "list_all (\<lambda>r. rq_backend (fr_to r) = Some ''codex'') (fp_rules demo_policy)" by code_simp+
  from conjunct2 [OF replay_repeats_decision, THEN spec, THEN mp, OF moves] obtain r where
    "r \<in> set (fp_rules demo_policy)" "rr_effective demo_record = Some (located [] (fr_to r))" by blast
  with only show ?thesis by (auto simp: list_all_iff)
qed

section \<open>Policies\<close>

text \<open>
  Property (type): a policy read from a mapping has rules with different ids, from and to backends that
  the registry knows and has not retired, and targets with a model.
\<close>

lemma read_rule_Inr:
  assumes "read_rule R seen row = Inr r"
  shows "fr_id r \<notin> set seen \<and> fr_from_backend r \<in> set (backend_names R) - set (retired_backends R) \<and>
    rq_backend (fr_to r) \<in> Some ` (set (backend_names R) - set (retired_backends R)) \<and> rq_model (fr_to r) \<noteq> None"
  using assms
  by (auto simp: read_rule_def bind_result_Inr_iff make_rule_def policy_backend_def validate_backend_def read_target_def
      split: if_splits sum.splits)

lemma read_rules_Inr:
  "read_rules R seen rows = Inr rs \<Longrightarrow> distinct (map fr_id rs) \<and> fr_id ` set rs \<inter> set seen = {} \<and>
    (\<forall>r \<in> set rs. fr_from_backend r \<in> set (backend_names R) - set (retired_backends R) \<and>
       rq_backend (fr_to r) \<in> Some ` (set (backend_names R) - set (retired_backends R)) \<and> rq_model (fr_to r) \<noteq> None)"
proof (induction rows arbitrary: seen rs)
  case (Cons row rows)
  then obtain r rest where r: "read_rule R seen row = Inr r" "read_rules R (fr_id r # seen) rows = Inr rest" "rs = r # rest"
    by (auto simp: bind_result_Inr_iff)
  with read_rule_Inr [OF r(1)] Cons.IH [OF r(2)] show ?case by auto
qed simp

theorem policy_rules_sound:
  assumes "policy_from_mapping R data source = Inr p"
  shows "distinct (map fr_id (fp_rules p)) \<and>
    (\<forall>r \<in> set (fp_rules p). fr_from_backend r \<in> set (backend_names R) - set (retired_backends R) \<and>
       rq_backend (fr_to r) \<in> Some ` (set (backend_names R) - set (retired_backends R)) \<and> rq_model (fr_to r) \<noteq> None)"
  using assms read_rules_Inr [of R "[]"]
  by (auto simp: policy_from_mapping_def bind_result_Inr_iff split: pyval.splits)

theorem policy_rules_sound_witness: "distinct (map fr_id (fp_rules demo_policy))"
proof -
  have "policy_from_mapping demo_route_lib demo_rules ''operator'' = Inr demo_policy" by code_simp
  from policy_rules_sound [OF this] show ?thesis by blast
qed

text \<open>
  Property (functional): the typed marks of a rate limit come before everything else and always mean
  capacity; text is read only for results of the dispatch layer.
\<close>

theorem typed_capacity_first:
  assumes "typed_capacity res = Inr True"
  shows "\<exists>e. classify_route_failure L R res = Inr \<lparr>rf_class = ''capacity'', rf_evidence = e, rf_source = ''typed''\<rparr>"
  using assms by (simp add: classify_route_failure_def Let_def)

theorem typed_capacity_first_witness:
  "\<exists>f. classify_route_failure L demo_route_lib (PDict [(PStr ''blockers'', PList [PStr ''rate_limited''])]) = Inr f \<and> rf_class f = ''capacity''"
  using typed_capacity_first [of "PDict [(PStr ''blockers'', PList [PStr ''rate_limited''])]" L demo_route_lib]
  by (auto simp: typed_capacity_def py_get_def py_get_default_def py_or_def)

end
