(* ===== verification/BudgetFloor.thy ===== *)
theory BudgetFloor
  imports PyValue "HOL-Library.AList"
begin

text \<open>
  \<open>budget_floor.py\<close>: the floor of a lane's token budget, the budget recommended from measured lanes,
  and the verdict on a configured budget, with their properties.  A percentile and the headroom are
  exact here: \<open>0.9 * n\<close> and \<open>1.2 * p\<close> in floating point have the same ceiling and the same integer part as
  the rationals for \<open>n\<close> and \<open>p\<close> below \<open>2 ^ 50\<close>; a larger \<open>p\<close> gives the cap or the floor either way, until its product
  leaves the doubles and \<open>int\<close> raises.  The environment's value and what \<open>bounds_fn\<close> returns are arguments.
\<close>

section \<open>The floor\<close>

definition kind_default :: "string \<Rightarrow> int" where
  "kind_default kind = (if py_lower (py_strip kind) = ''review'' then 80000 else 120000)"

definition floor_for :: "string \<Rightarrow> string option \<Rightarrow> int result" where
  "floor_for kind env =
     (let raw = py_strip (case env of None \<Rightarrow> [] | Some s \<Rightarrow> s)
      in if raw = [] then Inr (kind_default kind)
         else (case py_int_of_str raw of
           None \<Rightarrow> Inl ValueError
         | Some n \<Rightarrow> Inr (if 0 < n then max (kind_default kind) n else kind_default kind)))"

section \<open>Totals of lanes\<close>

type_synonym lane_totals = "((string \<times> string) \<times> int) list"

definition row_key :: "py_lib \<Rightarrow> pyval \<Rightarrow> string \<times> string" where
  "row_key L row =
     (py_str L (py_or (py_get row ''task_ref'') (PStr [])), py_str L (py_or (py_get row ''lane_id'') (PStr [])))"

definition add_row :: "py_lib \<Rightarrow> pyval \<Rightarrow> lane_totals \<Rightarrow> lane_totals" where
  "add_row L row totals =
     (if \<not> is_mapping row \<or> py_get row ''phase'' = PStr ''lane_prep'' then totals
      else (case py_get row ''total_tokens'' of
        PInt n \<Rightarrow> AList.update (row_key L row)
          ((case map_of totals (row_key L row) of None \<Rightarrow> 0 | Some m \<Rightarrow> m) + n) totals
      | _ \<Rightarrow> totals))"

definition per_lane_totals :: "py_lib \<Rightarrow> pyval list \<Rightarrow> lane_totals" where
  "per_lane_totals L rows = fold (add_row L) rows []"

section \<open>The recommendation\<close>

definition nearest_rank :: "int list \<Rightarrow> nat \<Rightarrow> int" where
  "nearest_rank values pct =
     values ! (nat (max 1 (min (int (length values)) \<lceil>of_nat pct / 100 * of_nat (length values) :: rat\<rceil>)) - 1)"

definition round_up_to :: "int \<Rightarrow> int \<Rightarrow> int" where
  "round_up_to v step = (if step \<le> 0 then v else if v mod step = 0 then v else v + (step - v mod step))"

record budget_advice =
  ba_floor :: int
  ba_lanes :: nat
  ba_p50 :: "int option"
  ba_p90 :: "int option"
  ba_recommended :: int
  ba_measured :: bool

definition relevant_row :: "string \<Rightarrow> string option \<Rightarrow> pyval \<Rightarrow> bool" where
  "relevant_row backend model row \<longleftrightarrow> is_mapping row \<and> py_get row ''backend'' = PStr backend \<and>
     (case model of None \<Rightarrow> True | Some m \<Rightarrow> py_get row ''model'' = PStr m)"

text \<open>\<open>int(p90 * 1.2)\<close>: the bound is the least integer whose product with the double 1.2 is no finite double.\<close>

definition with_headroom :: "int \<Rightarrow> int result" where
  "with_headroom p =
     (if \<bar>p\<bar> \<le> 15011998757901653 * 2 ^ 970 then Inr (trunc_rat (of_int p * (6 / 5))) else Inl OverflowError)"

definition advise :: "int \<Rightarrow> int list \<Rightarrow> budget_advice result" where
  "advise fl values =
     (if length values < 5 then
        Inr \<lparr>ba_floor = fl, ba_lanes = length values, ba_p50 = None, ba_p90 = None, ba_recommended = fl, ba_measured = False\<rparr>
      else
        (let p90 = nearest_rank values 90
         in bind_result (with_headroom p90) (\<lambda>scaled.
            Inr \<lparr>ba_floor = fl, ba_lanes = length values, ba_p50 = Some (nearest_rank values 50), ba_p90 = Some p90,
             ba_recommended = max fl (min 400000 (round_up_to scaled 10000)), ba_measured = True\<rparr>)))"

definition recommend_token_budget ::
    "py_lib \<Rightarrow> pyval list \<Rightarrow> string \<Rightarrow> string option \<Rightarrow> string \<Rightarrow> string option \<Rightarrow> budget_advice result" where
  "recommend_token_budget L rows backend model kind env =
     bind_result (floor_for kind env) (\<lambda>fl.
       advise fl (sort (map snd (per_lane_totals L (filter (relevant_row backend model) rows)))))"

section \<open>The verdict\<close>

datatype severity = SevOk | SevWarn | SevRefuse

record budget_verdict =
  bv_severity :: severity
  bv_reason :: string

text \<open>\<open>bounds\<close> is what \<open>bounds_fn\<close> returned, \<open>None\<close> when it raised.\<close>

definition clock_text :: "py_lib \<Rightarrow> pyval option \<Rightarrow> string" where
  "clock_text L bounds =
     (let part = (\<lambda>k. case bounds of None \<Rightarrow> [] | Some b \<Rightarrow>
           if is_mapping b \<and> py_get b k \<noteq> PNone then [k @ ''='' @ py_str L (py_get b k)] else []);
          parts = part ''max_turns'' @ part ''timeout''
      in if parts \<noteq> [] then join_with '', '' parts
         else ''timeout='' @ (if bounds = None then ''unavailable'' else ''not_derived''))"

definition format_reason :: "py_lib \<Rightarrow> int \<Rightarrow> string \<Rightarrow> int \<Rightarrow> nat \<Rightarrow> pyval option \<Rightarrow> string \<Rightarrow> string" where
  "format_reason L budget label bound lanes bounds relation =
     ''token_budget='' @ int_str budget @ '' '' @ relation @ '' '' @ label @ '' '' @ int_str bound @
     '' with sample_lanes='' @ int_str (int lanes) @ '' ('' @ clock_text L bounds @ '')''"

definition check_token_budget :: "py_lib \<Rightarrow> int \<Rightarrow> budget_advice \<Rightarrow> pyval option \<Rightarrow> budget_verdict" where
  "check_token_budget L budget a bounds =
     (let reason = (\<lambda>label bound relation. format_reason L budget label bound (ba_lanes a) bounds relation)
      in if budget < ba_floor a then
           \<lparr>bv_severity = SevRefuse, bv_reason = reason ''floor'' (ba_floor a) ''is below''\<rparr>
         else if ba_measured a \<and> budget < ba_recommended a then
           \<lparr>bv_severity = SevWarn, bv_reason = reason ''recommended'' (ba_recommended a) ''is below''\<rparr>
         else
           \<lparr>bv_severity = SevOk, bv_reason = (if ba_measured a then reason ''recommended'' (ba_recommended a) ''meets''
             else reason ''floor'' (ba_floor a) ''meets'')\<rparr>)"

section \<open>Totals are sums\<close>

definition row_tokens :: "py_lib \<Rightarrow> string \<times> string \<Rightarrow> pyval \<Rightarrow> int" where
  "row_tokens L k row =
     (if is_mapping row \<and> py_get row ''phase'' \<noteq> PStr ''lane_prep'' \<and> row_key L row = k
      then (case py_get row ''total_tokens'' of PInt n \<Rightarrow> n | _ \<Rightarrow> 0) else 0)"

definition total_of :: "lane_totals \<Rightarrow> string \<times> string \<Rightarrow> int" where
  "total_of totals k = (case map_of totals k of None \<Rightarrow> 0 | Some n \<Rightarrow> n)"

lemma total_add_row: "total_of (add_row L row totals) k = total_of totals k + row_tokens L k row"
  by (auto simp: add_row_def row_tokens_def total_of_def update_conv' split: pyval.split option.split)

lemma distinct_add_row: "distinct (map fst totals) \<Longrightarrow> distinct (map fst (add_row L row totals))"
  by (auto simp: add_row_def distinct_update split: pyval.split)

text \<open>
  Property (functional): each lane has one total, the sum of the integer token counts of its rows
  outside preparation.
\<close>

theorem lane_total_is_sum:
  "total_of (per_lane_totals L rows) k = sum_list (map (row_tokens L k) rows) \<and> distinct (map fst (per_lane_totals L rows))"
proof -
  have "total_of (fold (add_row L) rows totals) k = total_of totals k + sum_list (map (row_tokens L k) rows)" for totals
    by (induction rows arbitrary: totals) (simp_all add: total_add_row)
  moreover have "distinct (map fst totals) \<Longrightarrow> distinct (map fst (fold (add_row L) rows totals))" for totals
    by (induction rows arbitrary: totals) (simp_all add: distinct_add_row)
  ultimately show ?thesis by (simp add: per_lane_totals_def total_of_def)
qed

section \<open>Percentiles and bounds\<close>

lemma nearest_rank_spec:
  assumes "sorted values" "values \<noteq> []" "1 \<le> pct" "pct \<le> 100"
  shows "nearest_rank values pct \<in> set values \<and>
    pct * length values \<le> 100 * length (filter (\<lambda>v. v \<le> nearest_rank values pct) values)"
proof -
  let ?n = "length values" and ?c = "\<lceil>of_nat pct / 100 * of_nat (length values) :: rat\<rceil>"
  have pos: "0 < ?c" using assms(2,3) by simp
  have le: "?c \<le> int ?n"
  proof -
    have "(of_nat pct / 100 * of_nat ?n :: rat) \<le> 1 * of_nat ?n" using assms(4) by (intro mult_right_mono) simp_all
    then show ?thesis by (simp add: ceiling_le_iff)
  qed
  define i where "i = nat ?c - 1"
  have ic: "int (Suc i) = ?c" using pos by (simp add: i_def)
  have "int i < int ?n" using ic le by linarith
  moreover have "nat (max 1 (min (int ?n) ?c)) - 1 = i" using pos le by (simp add: i_def)
  ultimately have i: "i < ?n" "nearest_rank values pct = values ! i" "int (Suc i) = ?c"
    using ic by (simp_all only: nearest_rank_def of_nat_less_iff)
  have "take (Suc i) values = filter (\<lambda>v. v \<le> values ! i) (take (Suc i) values)"
    using assms(1) i(1) by (intro filter_True [symmetric]) (auto simp: in_set_conv_nth sorted_nth_mono less_Suc_eq_le)
  then have "Suc i = length (filter (\<lambda>v. v \<le> values ! i) (take (Suc i) values))" using i(1) by (metis Suc_leI length_take min.absorb2)
  also have "\<dots> \<le> length (filter (\<lambda>v. v \<le> values ! i) (take (Suc i) values @ drop (Suc i) values))"
    by (simp del: append_take_drop_id)
  finally have many: "Suc i \<le> length (filter (\<lambda>v. v \<le> values ! i) values)" by simp
  have "(of_nat pct * of_nat ?n :: rat) \<le> 100 * of_nat (Suc i)"
  proof -
    have "(of_nat pct / 100 * of_nat ?n :: rat) \<le> of_int ?c" by (rule le_of_int_ceiling)
    then show ?thesis unfolding i(3) [symmetric] by simp
  qed
  then have "pct * ?n \<le> 100 * Suc i" by (metis of_nat_le_iff of_nat_mult of_nat_numeral)
  then show ?thesis using many i(1,2) by (auto intro: nth_mem)
qed

lemma round_up_to_spec: "0 < step \<Longrightarrow> v \<le> round_up_to v step \<and> round_up_to v step < v + step \<and> step dvd round_up_to v step"
proof -
  assume step: "0 < step"
  have "v + (step - v mod step) = step * (v div step + 1)" by (simp add: algebra_simps minus_mult_div_eq_mod [symmetric])
  then have "step dvd v + (step - v mod step)" by (metis dvd_triv_left)
  moreover have "v \<le> v + (step - v mod step)" using pos_mod_bound [OF step, of v] by linarith
  moreover have "v + (step - v mod step) < v + step" if "v mod step \<noteq> 0"
    using pos_mod_sign [OF step, of v] that by linarith
  ultimately show ?thesis using step by (auto simp: round_up_to_def)
qed

lemma length_filter_mono: "(\<And>x. P x \<Longrightarrow> Q x) \<Longrightarrow> length (filter P xs) \<le> length (filter Q xs)"
  by (induction xs) (auto intro: le_SucI)

lemma trunc_headroom: "0 \<le> p \<Longrightarrow> p \<le> trunc_rat (of_int p * (6 / 5))"
  by (simp add: trunc_rat_def le_floor_iff)

text \<open>
  C25 (bounds): the recommendation is within bounds and, below the cap, covers nine lanes of ten.  It is never below the
  floor and never above the larger of floor and 400000; it is measured exactly with five or more lanes.  Then the
  90th percentile is the total of a lane, and 90 percent of the lanes spent no more than it; a recommendation below 400000
  is at least that percentile, so it covers 90 percent of the lanes, and unless the floor decides it is the least multiple
  of 10000 that is not below the integer part of 1.2 times the percentile; from 400000 on nothing is promised about
  coverage.  A budget is refused exactly below the floor and warned about exactly between floor and
  recommendation; the recommendation itself is \<open>ok\<close>.
\<close>

theorem recommendation_bounds:
  assumes "recommend_token_budget L rows backend model kind env = Inr a"
  defines "values \<equiv> map snd (per_lane_totals L (filter (relevant_row backend model) rows))"
  shows "kind_default kind \<le> ba_floor a \<and> ba_floor a \<le> ba_recommended a \<and> ba_recommended a \<le> max (ba_floor a) 400000 \<and>
    (ba_measured a \<longleftrightarrow> 5 \<le> length values) \<and> (ba_measured a \<longleftrightarrow> ba_p90 a \<noteq> None) \<and>
    (\<forall>p. ba_p90 a = Some p \<longrightarrow> p \<in> set values \<and> 90 * length values \<le> 100 * length (filter (\<lambda>v. v \<le> p) values) \<and>
      (ba_recommended a < 400000 \<longrightarrow> p \<le> ba_recommended a \<and>
        90 * length values \<le> 100 * length (filter (\<lambda>v. v \<le> ba_recommended a) values)) \<and>
      (ba_floor a < ba_recommended a \<and> ba_recommended a < 400000 \<longrightarrow>
        10000 dvd ba_recommended a \<and> trunc_rat (of_int p * (6 / 5)) \<le> ba_recommended a \<and>
        ba_recommended a < trunc_rat (of_int p * (6 / 5)) + 10000)) \<and>
    (\<forall>budget bounds. (bv_severity (check_token_budget L budget a bounds) = SevRefuse \<longleftrightarrow> budget < ba_floor a) \<and>
      (bv_severity (check_token_budget L budget a bounds) = SevWarn \<longleftrightarrow>
         ba_measured a \<and> ba_floor a \<le> budget \<and> budget < ba_recommended a)) \<and>
    bv_severity (check_token_budget L (ba_recommended a) a bounds) = SevOk"
proof -
  obtain fl where fl: "floor_for kind env = Inr fl" "advise fl (sort values) = Inr a"
    using assms(1) by (auto simp: recommend_token_budget_def bind_result_Inr_iff values_def)
  have kd: "kind_default kind \<le> fl" "0 < kind_default kind"
    using fl(1) by (auto simp: floor_for_def kind_default_def Let_def split: if_splits option.splits)
  moreover have facts: "ba_floor a = fl" "fl \<le> ba_recommended a" "ba_recommended a \<le> max fl 400000"
    "ba_measured a \<longleftrightarrow> 5 \<le> length values" "ba_measured a \<longleftrightarrow> ba_p90 a \<noteq> None"
    using fl(2) by (auto simp: advise_def bind_result_Inr_iff Let_def split: if_splits)
  moreover have "p \<in> set values \<and> 90 * length values \<le> 100 * length (filter (\<lambda>v. v \<le> p) values) \<and>
      (ba_recommended a < 400000 \<longrightarrow> p \<le> ba_recommended a \<and>
        90 * length values \<le> 100 * length (filter (\<lambda>v. v \<le> ba_recommended a) values)) \<and>
      (ba_floor a < ba_recommended a \<and> ba_recommended a < 400000 \<longrightarrow>
        10000 dvd ba_recommended a \<and> trunc_rat (of_int p * (6 / 5)) \<le> ba_recommended a \<and>
        ba_recommended a < trunc_rat (of_int p * (6 / 5)) + 10000)" if "ba_p90 a = Some p" for p
  proof -
    let ?r = "round_up_to (trunc_rat (of_int p * (6 / 5))) 10000"
    have p: "p = nearest_rank (sort values) 90" "ba_recommended a = max fl (min 400000 ?r)"
      using fl(2) that by (auto simp: advise_def bind_result_Inr_iff with_headroom_def Let_def split: if_splits)
    have "sort values \<noteq> []" using facts that by (auto simp flip: length_greater_0_conv)
    from nearest_rank_spec [OF sorted_sort this, of 90]
    have rank: "p \<in> set values" "90 * length values \<le> 100 * length (filter (\<lambda>v. v \<le> p) values)"
      unfolding p(1) by (simp_all add: filter_sort)
    note up = round_up_to_spec [of 10000 "trunc_rat (of_int p * (6 / 5))"]
    have low: "p \<le> ba_recommended a" if "ba_recommended a < 400000"
    proof (cases "0 \<le> p")
      case True
      have "?r \<le> ba_recommended a" using that p(2) by linarith
      then show ?thesis using trunc_headroom [OF True] up by linarith
    next
      case False
      then show ?thesis using kd facts(2) by linarith
    qed
    have "length (filter (\<lambda>v. v \<le> p) values) \<le> length (filter (\<lambda>v. v \<le> ba_recommended a) values)" if "ba_recommended a < 400000"
      using low [OF that] by (intro length_filter_mono) auto
    moreover have "ba_recommended a = ?r" if "ba_floor a < ba_recommended a" "ba_recommended a < 400000"
      using that p(2) facts(1) by linarith
    ultimately show ?thesis using rank low up by fastforce
  qed
  moreover have "(bv_severity (check_token_budget L budget a bounds) = SevRefuse \<longleftrightarrow> budget < ba_floor a) \<and>
      (bv_severity (check_token_budget L budget a bounds) = SevWarn \<longleftrightarrow>
         ba_measured a \<and> ba_floor a \<le> budget \<and> budget < ba_recommended a)" for budget bounds
    by (auto simp: check_token_budget_def Let_def)
  moreover have "bv_severity (check_token_budget L (ba_recommended a) a bounds) = SevOk"
    using facts(1,2) by (simp add: check_token_budget_def Let_def)
  ultimately show ?thesis by blast
qed

text \<open>Five lanes of one task; lane e spent 90000 and then 50000 tokens.\<close>

definition demo_row :: "string \<Rightarrow> int \<Rightarrow> pyval" where
  "demo_row lane n = PDict [(PStr ''backend'', PStr ''grok''), (PStr ''phase'', PStr ''implement''), (PStr ''task_ref'', PStr ''T''),
     (PStr ''lane_id'', PStr lane), (PStr ''total_tokens'', PInt n)]"

definition demo_rows :: "pyval list" where
  "demo_rows = [demo_row ''a'' 100000, demo_row ''b'' 110000, demo_row ''c'' 120000, demo_row ''d'' 130000,
     demo_row ''e'' 90000, demo_row ''e'' 50000]"

lemma demo_advice:
  "recommend_token_budget L demo_rows ''grok'' None ''implement'' None =
     Inr \<lparr>ba_floor = 120000, ba_lanes = 5, ba_p50 = Some 120000, ba_p90 = Some 140000, ba_recommended = 170000, ba_measured = True\<rparr>"
proof -
  have "map snd (per_lane_totals L (filter (relevant_row ''grok'' None) demo_rows)) = [100000, 110000, 120000, 130000, 140000]"
    by (simp add: demo_rows_def demo_row_def relevant_row_def per_lane_totals_def add_row_def row_key_def py_get_def
        py_get_default_def py_or_def)
  moreover have "floor_for ''implement'' None = Inr 120000"
    by (simp add: floor_for_def kind_default_def py_strip_def py_lower_def py_isspace_def py_lower_char_def)
  moreover have "nearest_rank [100000, 110000, 120000, 130000, 140000] 90 = 140000"
    "nearest_rank [100000, 110000, 120000, 130000, 140000] 50 = 120000" by code_simp+
  moreover have "with_headroom 140000 = Inr 168000" "round_up_to 168000 10000 = 170000" by code_simp+
  ultimately show ?thesis by (simp add: recommend_token_budget_def bind_result_def advise_def Let_def)
qed

theorem recommendation_bounds_witness:
  "\<forall>L. (140000 :: int) \<in> set (map snd (per_lane_totals L (filter (relevant_row ''grok'' None) demo_rows)))"
proof
  show "(140000 :: int) \<in> set (map snd (per_lane_totals L (filter (relevant_row ''grok'' None) demo_rows)))" for L
    using recommendation_bounds [OF demo_advice [of L]] by simp
qed

end
