(* ===== verification/LifecycleLease.thy ===== *)
theory LifecycleLease
  imports PyValue "HOL-Library.AList"
begin

text \<open>
  \<open>lifecycle_coordination.py\<close>: leases on a resource, shared or exclusive, each a \<open>flock\<close> on the
  resource's sidecar file.  The model has the kernel (open descriptions, locks, descriptor tables), the
  memory of every process (its lease objects, registries and quarantine) and the calls in progress.
  The code between two releases of the registry mutex or two system calls is one step.  Clock readings
  are rationals and arguments, as are the descriptor \<open>os.open\<close> returns and whether a system call fails.
\<close>

section \<open>The kernel\<close>

text \<open>
  An open description is named by the process that opened it, a serial number and the inode of its file.
  \<open>fork\<close> copies descriptors, so several processes may refer to one description; \<open>flock\<close> locks belong to
  the description and end when its last descriptor is closed.
\<close>

datatype lease_mode = ModeShared | ModeExclusive

datatype fd_ref = FdRef (ref_pid: nat) (ref_fd: nat)

datatype desc = Desc (desc_pid: nat) (desc_serial: nat) (desc_inode: nat)

record lease_kernel =
  fd_table :: "(fd_ref \<times> desc) list"
  desc_locks :: "(desc \<times> lease_mode) list"
  sidecar_inode :: "(string \<times> nat) list"
  next_serial :: nat

definition keep_open_locks :: "lease_kernel \<Rightarrow> lease_kernel" where
  "keep_open_locks k = k\<lparr>desc_locks := filter (\<lambda>l. fst l \<in> snd ` set (fd_table k)) (desc_locks k)\<rparr>"

definition close_fds :: "nat \<Rightarrow> nat set \<Rightarrow> lease_kernel \<Rightarrow> lease_kernel" where
  "close_fds pid fds k = keep_open_locks (k\<lparr>fd_table := filter (\<lambda>e. \<not> (ref_pid (fst e) = pid \<and> ref_fd (fst e) \<in> fds)) (fd_table k)\<rparr>)"

definition close_fd :: "nat \<Rightarrow> nat \<Rightarrow> lease_kernel \<Rightarrow> lease_kernel" where
  "close_fd pid fd k = close_fds pid {fd} k"

text \<open>\<open>_open_sidecar\<close>: the file is created when it is missing.\<close>

definition open_sidecar :: "nat \<Rightarrow> nat \<Rightarrow> string \<Rightarrow> lease_kernel \<Rightarrow> lease_kernel" where
  "open_sidecar pid fd resource k =
     (case map_of (sidecar_inode k) resource of
        Some i \<Rightarrow> k\<lparr>fd_table := (FdRef pid fd, Desc pid (next_serial k) i) # fd_table k, next_serial := Suc (next_serial k)\<rparr>
      | None \<Rightarrow> k\<lparr>fd_table := (FdRef pid fd, Desc pid (next_serial k) (next_serial k)) # fd_table k,
          sidecar_inode := (resource, next_serial k) # sidecar_inode k, next_serial := Suc (next_serial k)\<rparr>)"

definition lock_excluded :: "desc \<Rightarrow> lease_mode \<Rightarrow> desc \<times> lease_mode \<Rightarrow> bool" where
  "lock_excluded d m l \<longleftrightarrow>
     fst l \<noteq> d \<and> desc_inode (fst l) = desc_inode d \<and> (m = ModeExclusive \<or> snd l = ModeExclusive)"

definition flock_desc :: "desc \<Rightarrow> lease_mode \<Rightarrow> lease_kernel \<Rightarrow> lease_kernel option" where
  "flock_desc d m k =
     (if list_ex (lock_excluded d m) (desc_locks k) then None
      else Some (k\<lparr>desc_locks := (d, m) # filter (\<lambda>l. fst l \<noteq> d) (desc_locks k)\<rparr>))"

section \<open>The memory of a process\<close>

text \<open>
  A SQLite connection is open or closed; of any other object nothing is known.  \<open>le_thread\<close> is the
  identity of the Thread object, which the surviving thread of a forked child keeps.
\<close>

datatype conn_state = OpaqueHandle | SqliteOpen | SqliteClosed

record lease =
  le_resource :: string
  le_exclusive :: bool
  le_pid :: nat
  le_thread :: nat
  le_closed :: bool
  le_fd :: "nat option"
  le_parent :: "nat option"
  le_refs :: int
  le_conn :: "nat option"

text \<open>\<open>in_fork_hook\<close>: the process was forked and has not run \<open>_after_fork_child\<close> yet.\<close>

record lease_proc =
  in_fork_hook :: bool
  lease_objs :: "nat \<rightharpoonup> lease"
  next_obj :: nat
  registered :: "nat list"
  bound_ids :: "nat list"
  pending_fds :: "nat list"
  fork_quarantine :: "nat list"
  conns :: "nat \<Rightarrow> conn_state"

datatype lease_error =
    LeaseTimeout | LeaseOwnership | LeaseOSError | LeaseBadArgument py_exn

datatype lease_phase =
    Looking | OpeningSidecar | Trying nat | Granted nat | Stale nat | Failing nat lease_error | Publishing nat

record lease_call =
  lc_pid :: nat
  lc_thread :: nat
  lc_resource :: string
  lc_exclusive :: bool
  lc_end :: rat
  lc_deadline :: "rat option"
  lc_immediate :: bool
  lc_first :: bool
  lc_phase :: lease_phase

record lease_world =
  kernel :: lease_kernel
  procs :: "nat \<Rightarrow> lease_proc"

definition put_proc :: "nat \<Rightarrow> lease_proc \<Rightarrow> lease_world \<Rightarrow> lease_world" where
  "put_proc pid p w = w\<lparr>procs := (procs w)(pid := p)\<rparr>"

section \<open>Deadlines\<close>

definition seconds_of :: "pyval \<Rightarrow> (py_exn + rat)" where
  "seconds_of v =
     (case v of
        PInt n \<Rightarrow> (if \<bar>n\<bar> < 2 ^ 1024 - 2 ^ 970 then Inr (of_int n) else Inl OverflowError)
      | PFloat (Finite q) \<Rightarrow> Inr q
      | PFloat _ \<Rightarrow> Inl ValueError
      | _ \<Rightarrow> Inl TypeError)"

text \<open>\<open>_check_deadline\<close> raises.\<close>

definition expired :: "lease_call \<Rightarrow> rat \<Rightarrow> bool" where
  "expired c now \<longleftrightarrow>
     (case lc_deadline c of None \<Rightarrow> False | Some d \<Rightarrow> d \<le> now) \<or> (\<not> (lc_immediate c \<and> lc_first c) \<and> lc_end c \<le> now)"

section \<open>Acquiring\<close>

text \<open>The start of \<open>__init__\<close>: the arguments, \<open>end\<close> from the first reading, a check at the second.\<close>

definition lease_begin ::
    "nat \<Rightarrow> nat \<Rightarrow> string \<Rightarrow> bool \<Rightarrow> pyval \<Rightarrow> pyval \<Rightarrow> rat \<Rightarrow> rat \<Rightarrow> lease_error + lease_call" where
  "lease_begin pid tid resource exclusive timeout deadline now1 now2 =
     (case seconds_of timeout of
        Inl e \<Rightarrow> Inl (LeaseBadArgument e)
      | Inr t \<Rightarrow>
          if t < 0 then Inl (LeaseBadArgument ValueError)
          else (case (if deadline = PNone then Inr None else map_sum id Some (seconds_of deadline)) of
             Inl e \<Rightarrow> Inl (LeaseBadArgument e)
           | Inr d \<Rightarrow>
               (let c = \<lparr>lc_pid = pid, lc_thread = tid, lc_resource = resource, lc_exclusive = exclusive,
                    lc_end = (case d of None \<Rightarrow> now1 + t | Some x \<Rightarrow> min (now1 + t) x), lc_deadline = d,
                    lc_immediate = (t = 0), lc_first = True, lc_phase = Looking\<rparr>
                in if expired c now2 then Inl LeaseTimeout else Inr c)))"

definition owned_by :: "lease_proc \<Rightarrow> nat \<Rightarrow> nat \<Rightarrow> string \<Rightarrow> nat \<Rightarrow> bool" where
  "owned_by p pid tid resource i =
     (case lease_objs p i of
        None \<Rightarrow> False
      | Some l \<Rightarrow> \<not> le_closed l \<and> le_pid l = pid \<and> le_resource l = resource \<and> le_thread l = tid)"

definition exclusive_root :: "lease_proc \<Rightarrow> nat \<Rightarrow> bool" where
  "exclusive_root p i = (case lease_objs p i of None \<Rightarrow> False | Some l \<Rightarrow> le_exclusive l \<and> le_parent l = None)"

definition new_lease :: "lease_call \<Rightarrow> nat option \<Rightarrow> nat option \<Rightarrow> lease" where
  "new_lease c fd parent =
     \<lparr>le_resource = lc_resource c, le_exclusive = lc_exclusive c, le_pid = lc_pid c, le_thread = lc_thread c,
      le_closed = False, le_fd = fd, le_parent = parent, le_refs = 1, le_conn = None\<rparr>"

definition add_lease :: "lease \<Rightarrow> lease_proc \<Rightarrow> lease_proc" where
  "add_lease l p = p\<lparr>lease_objs := (lease_objs p)(next_obj p \<mapsto> l), registered := next_obj p # registered p,
      next_obj := Suc (next_obj p)\<rparr>"

definition add_ref :: "nat \<Rightarrow> int \<Rightarrow> lease_proc \<Rightarrow> lease_proc" where
  "add_ref i n p = p\<lparr>lease_objs := (lease_objs p)(i := map_option (\<lambda>l. l\<lparr>le_refs := le_refs l + n\<rparr>) (lease_objs p i))\<rparr>"

datatype lease_outcome = LeaseGot nat | LeaseFailed lease_error

type_synonym lease_result = "(lease_outcome + lease_call) \<times> lease_world"

text \<open>The leases the thread already has: it borrows from its exclusive one, and never upgrades.\<close>

definition look_up :: "rat \<Rightarrow> rat \<Rightarrow> lease_call \<Rightarrow> lease_world \<Rightarrow> lease_result" where
  "look_up now1 now2 c w =
     (let p = procs w (lc_pid c);
          owned = filter (owned_by p (lc_pid c) (lc_thread c) (lc_resource c)) (registered p)
      in if expired c now1 then (Inl (LeaseFailed LeaseTimeout), w)
         else (case List.find (exclusive_root p) owned of
            Some r \<Rightarrow>
              if expired c now2 then (Inl (LeaseFailed LeaseTimeout), w)
              else (Inl (LeaseGot (next_obj p)),
                put_proc (lc_pid c) (add_lease (new_lease c None (Some r)) (add_ref r 1 p)) w)
          | None \<Rightarrow>
              if lc_exclusive c \<and> owned \<noteq> [] then (Inl (LeaseFailed LeaseOwnership), w)
              else (Inr (c\<lparr>lc_phase := OpeningSidecar\<rparr>), w)))"

text \<open>\<open>opened\<close> is the new descriptor, \<open>None\<close> when making the directory or opening the file raises.\<close>

definition open_step :: "rat \<Rightarrow> nat option \<Rightarrow> lease_call \<Rightarrow> lease_world \<Rightarrow> lease_result" where
  "open_step now opened c w =
     (if expired c now then (Inl (LeaseFailed LeaseTimeout), w)
      else (case opened of
         None \<Rightarrow> (Inl (LeaseFailed LeaseOSError), w)
       | Some fd \<Rightarrow>
           (let p = procs w (lc_pid c)
            in (Inr (c\<lparr>lc_phase := Trying fd\<rparr>),
                put_proc (lc_pid c) (p\<lparr>pending_fds := fd # pending_fds p\<rparr>)
                  (w\<lparr>kernel := open_sidecar (lc_pid c) fd (lc_resource c) (kernel w)\<rparr>)))))"

definition desc_of :: "lease_world \<Rightarrow> nat \<Rightarrow> nat \<Rightarrow> desc" where
  "desc_of w pid fd = (case map_of (fd_table (kernel w)) (FdRef pid fd) of Some d \<Rightarrow> d | None \<Rightarrow> Desc pid 0 0)"

definition call_mode :: "lease_call \<Rightarrow> lease_mode" where
  "call_mode c = (if lc_exclusive c then ModeExclusive else ModeShared)"

text \<open>\<open>ok = False\<close>: the system call fails for another reason.\<close>

definition flock_step :: "rat \<Rightarrow> rat \<Rightarrow> bool \<Rightarrow> nat \<Rightarrow> lease_call \<Rightarrow> lease_world \<Rightarrow> lease_result" where
  "flock_step now1 now2 ok fd c w =
     (if expired c now1 then (Inr (c\<lparr>lc_phase := Failing fd LeaseTimeout\<rparr>), w)
      else if \<not> ok then (Inr (c\<lparr>lc_phase := Failing fd LeaseOSError\<rparr>), w)
      else (case flock_desc (desc_of w (lc_pid c) fd) (call_mode c) (kernel w) of
         Some k \<Rightarrow> (Inr (c\<lparr>lc_phase := Granted fd\<rparr>), w\<lparr>kernel := k\<rparr>)
       | None \<Rightarrow>
           if lc_end c \<le> now2 then (Inr (c\<lparr>lc_first := False, lc_phase := Failing fd LeaseTimeout\<rparr>), w)
           else (Inr (c\<lparr>lc_first := False\<rparr>), w)))"

definition sidecar_is_held :: "lease_world \<Rightarrow> lease_call \<Rightarrow> nat \<Rightarrow> bool" where
  "sidecar_is_held w c fd \<longleftrightarrow>
     map_of (sidecar_inode (kernel w)) (lc_resource c) = Some (desc_inode (desc_of w (lc_pid c) fd))"

definition recheck_step :: "rat \<Rightarrow> rat \<Rightarrow> bool \<Rightarrow> nat \<Rightarrow> lease_call \<Rightarrow> lease_world \<Rightarrow> lease_result" where
  "recheck_step now1 now2 ok fd c w =
     (if expired c now1 then (Inr (c\<lparr>lc_phase := Failing fd LeaseTimeout\<rparr>), w)
      else if \<not> ok then (Inr (c\<lparr>lc_phase := Failing fd LeaseOSError\<rparr>), w)
      else if \<not> sidecar_is_held w c fd then (Inr (c\<lparr>lc_phase := Stale fd\<rparr>), w)
      else if expired c now2 then (Inr (c\<lparr>lc_phase := Failing fd LeaseTimeout\<rparr>), w)
      else (Inr (c\<lparr>lc_phase := Publishing fd\<rparr>), w))"

definition close_pending :: "nat \<Rightarrow> nat \<Rightarrow> lease_world \<Rightarrow> lease_world" where
  "close_pending pid fd w =
     (let p = procs w pid
      in if fd \<in> set (pending_fds p) then
           put_proc pid (p\<lparr>pending_fds := removeAll fd (pending_fds p)\<rparr>) (w\<lparr>kernel := close_fd pid fd (kernel w)\<rparr>)
         else w)"

definition stale_step :: "rat \<Rightarrow> nat \<Rightarrow> lease_call \<Rightarrow> lease_world \<Rightarrow> lease_result" where
  "stale_step now fd c w =
     (if lc_end c \<le> now then (Inl (LeaseFailed LeaseTimeout), close_pending (lc_pid c) fd w)
      else (Inr (c\<lparr>lc_first := False, lc_phase := OpeningSidecar\<rparr>), close_pending (lc_pid c) fd w))"

definition publish_step :: "rat \<Rightarrow> nat \<Rightarrow> lease_call \<Rightarrow> lease_world \<Rightarrow> lease_result" where
  "publish_step now fd c w =
     (if expired c now then (Inr (c\<lparr>lc_phase := Failing fd LeaseTimeout\<rparr>), w)
      else (let p = procs w (lc_pid c)
        in (Inl (LeaseGot (next_obj p)),
            put_proc (lc_pid c) ((add_lease (new_lease c (Some fd) None) p)\<lparr>pending_fds := removeAll fd (pending_fds p)\<rparr>) w)))"

definition lease_next :: "rat \<Rightarrow> rat \<Rightarrow> nat option \<Rightarrow> bool \<Rightarrow> lease_call \<Rightarrow> lease_world \<Rightarrow> lease_result" where
  "lease_next now1 now2 opened ok c w =
     (case lc_phase c of
        Looking \<Rightarrow> look_up now1 now2 c w
      | OpeningSidecar \<Rightarrow> open_step now1 opened c w
      | Trying fd \<Rightarrow> flock_step now1 now2 ok fd c w
      | Granted fd \<Rightarrow> recheck_step now1 now2 ok fd c w
      | Stale fd \<Rightarrow> stale_step now1 fd c w
      | Failing fd e \<Rightarrow> (Inl (LeaseFailed e), close_pending (lc_pid c) fd w)
      | Publishing fd \<Rightarrow> publish_step now1 fd c w)"

section \<open>Using and releasing\<close>

definition put_lease :: "nat \<Rightarrow> lease \<Rightarrow> lease_proc \<Rightarrow> lease_proc" where
  "put_lease i l p = p\<lparr>lease_objs := (lease_objs p)(i \<mapsto> l)\<rparr>"

definition conn_is_live :: "lease_proc \<Rightarrow> lease \<Rightarrow> bool" where
  "conn_is_live p l = (case le_conn l of None \<Rightarrow> False | Some x \<Rightarrow> conns p x \<noteq> SqliteClosed)"

definition bind_connection :: "nat \<Rightarrow> nat \<Rightarrow> nat \<Rightarrow> nat \<Rightarrow> lease_world \<Rightarrow> lease_error option \<times> lease_world" where
  "bind_connection pid tid i x w =
     (let p = procs w pid in
      case lease_objs p i of
        None \<Rightarrow> (None, w)
      | Some l \<Rightarrow>
          if le_pid l \<noteq> pid \<or> le_thread l \<noteq> tid then (Some LeaseOwnership, w)
          else if le_closed l then (Some LeaseOwnership, w)
          else if le_conn l = Some x then (None, w)
          else if conn_is_live p l then (Some LeaseOwnership, w)
          else (None, put_proc pid ((put_lease i (l\<lparr>le_conn := Some x\<rparr>) p)\<lparr>bound_ids := List.insert i (bound_ids p)\<rparr>) w))"

text \<open>\<open>_close_fd\<close> of the lease object \<open>i\<close>.\<close>

definition drop_fd :: "nat \<Rightarrow> nat \<Rightarrow> lease_world \<Rightarrow> lease_world" where
  "drop_fd pid i w =
     (let p = procs w pid in
      case lease_objs p i of
        None \<Rightarrow> w
      | Some l \<Rightarrow>
          (case le_fd l of
             None \<Rightarrow> w
           | Some fd \<Rightarrow> put_proc pid (put_lease i (l\<lparr>le_fd := None\<rparr>) p) (w\<lparr>kernel := close_fd pid fd (kernel w)\<rparr>)))"

definition refuses_release :: "lease_proc \<Rightarrow> nat \<Rightarrow> lease \<Rightarrow> bool" where
  "refuses_release p tid l \<longleftrightarrow>
     ((le_exclusive l \<or> le_parent l \<noteq> None \<or> le_conn l \<noteq> None) \<and> le_thread l \<noteq> tid) \<or> conn_is_live p l \<or>
     (le_parent l = None \<and> 1 < le_refs l)"

definition finish_release :: "nat \<Rightarrow> nat \<Rightarrow> lease \<Rightarrow> lease_world \<Rightarrow> lease_world" where
  "finish_release pid i l w =
     (let p = procs w pid;
          root = (case le_parent l of None \<Rightarrow> i | Some r \<Rightarrow> r);
          p1 = add_ref root (- 1) (put_lease i (l\<lparr>le_closed := True, le_conn := None\<rparr>) p);
          p2 = p1\<lparr>registered := removeAll i (registered p), bound_ids := removeAll i (bound_ids p)\<rparr>
      in case lease_objs p2 root of
           Some r \<Rightarrow>
             if le_refs r = 0 then drop_fd pid root (put_proc pid (p2\<lparr>registered := removeAll root (registered p2)\<rparr>) w)
             else put_proc pid p2 w
         | None \<Rightarrow> put_proc pid p2 w)"

definition release_lease :: "nat \<Rightarrow> nat \<Rightarrow> nat \<Rightarrow> lease_world \<Rightarrow> lease_error option \<times> lease_world" where
  "release_lease pid tid i w =
     (let p = procs w pid in
      case lease_objs p i of
        None \<Rightarrow> (None, w)
      | Some l \<Rightarrow>
          if le_closed l then (None, w)
          else if le_pid l \<noteq> pid then (None, drop_fd pid i (put_proc pid (put_lease i (l\<lparr>le_closed := True\<rparr>) p) w))
          else if refuses_release p tid l then (Some LeaseOwnership, w)
          else (None, finish_release pid i l w))"

text \<open>
  \<open>__del__\<close>, run by any thread when nothing refers to the object any more; then the object is gone, and
  with it its entry in the weak registry.
\<close>

definition forget_lease :: "nat \<Rightarrow> nat \<Rightarrow> lease_world \<Rightarrow> lease_world" where
  "forget_lease pid i w =
     (let p = procs w pid
      in put_proc pid (p\<lparr>lease_objs := (lease_objs p)(i := None), registered := removeAll i (registered p)\<rparr>) w)"

definition finalize_lease :: "nat \<Rightarrow> nat \<Rightarrow> nat \<Rightarrow> lease_world \<Rightarrow> lease_world" where
  "finalize_lease pid tid i w =
     (case release_lease pid tid i w of
        (None, w') \<Rightarrow> forget_lease pid i w'
      | (Some _, w') \<Rightarrow>
          (let p = procs w' pid in
           case lease_objs p i of
             None \<Rightarrow> w'
           | Some l \<Rightarrow>
               if le_parent l = None \<and> \<not> le_closed l \<and> le_refs l = 1 \<and> le_conn l = None then
                 forget_lease pid i (drop_fd pid i
                   (put_proc pid ((put_lease i (l\<lparr>le_closed := True, le_refs := 0\<rparr>) p)\<lparr>registered := removeAll i (registered p)\<rparr>) w'))
               else forget_lease pid i w'))"

section \<open>Fork and exit\<close>

text \<open>
  The child gets a copy of the memory and of every descriptor; the parent's hooks hold the registry
  mutex, so no step of the parent is half done.  Only the forking thread lives on in the child.
\<close>

definition fork_process :: "nat \<Rightarrow> nat \<Rightarrow> lease_world \<Rightarrow> lease_world" where
  "fork_process pid child w =
     (let k = kernel w
      in put_proc child ((procs w pid)\<lparr>in_fork_hook := True\<rparr>)
           (w\<lparr>kernel := k\<lparr>fd_table :=
              map (\<lambda>e. (FdRef child (ref_fd (fst e)), snd e)) (filter (\<lambda>e. ref_pid (fst e) = pid) (fd_table k)) @ fd_table k\<rparr>\<rparr>))"

definition invalidate :: "lease \<Rightarrow> lease" where
  "invalidate l = l\<lparr>le_closed := True, le_fd := None\<rparr>"

definition registered_leases :: "lease_proc \<Rightarrow> lease list" where
  "registered_leases p = List.map_filter (lease_objs p) (registered p)"

definition after_fork_child :: "nat \<Rightarrow> lease_world \<Rightarrow> lease_world" where
  "after_fork_child child w =
     (let p = procs w child;
          fds = set (pending_fds p) \<union> set (List.map_filter le_fd (registered_leases p))
      in put_proc child
           (p\<lparr>in_fork_hook := False, registered := [], bound_ids := [], pending_fds := [],
              fork_quarantine := fork_quarantine p @ List.map_filter le_conn (registered_leases p),
              lease_objs := (\<lambda>i. if i \<in> set (registered p) then map_option invalidate (lease_objs p i) else lease_objs p i)\<rparr>)
           (w\<lparr>kernel := close_fds child fds (kernel w)\<rparr>))"

definition blank_proc :: lease_proc where
  "blank_proc = \<lparr>in_fork_hook = False, lease_objs = Map.empty, next_obj = 0, registered = [], bound_ids = [],
     pending_fds = [], fork_quarantine = [], conns = (\<lambda>_. OpaqueHandle)\<rparr>"

text \<open>The end of a process: the kernel closes its descriptors.\<close>

definition exit_process :: "nat \<Rightarrow> lease_world \<Rightarrow> lease_world" where
  "exit_process pid w = put_proc pid blank_proc (w\<lparr>kernel := close_fds pid UNIV (kernel w)\<rparr>)"

end
