(* ===== verification/LifecycleLaws.thy ===== *)
theory LifecycleLaws
  imports LifecycleLease AListFacts
begin

text \<open>
  Runs of processes and threads over \<open>LifecycleLease\<close>: calls, releases, finalizers, forks, exits and
  outsiders interleave.  The invariant ties each live lease to a lock of its own process on the
  resource's present sidecar; in runs whose finalizers run on the right thread it also accounts for every
  open descriptor.
\<close>

section \<open>Runs\<close>

type_synonym lease_sys = "lease_world \<times> lease_call list"

definition continue_lease :: "lease_call list \<Rightarrow> lease_outcome + lease_call \<Rightarrow> lease_call list \<Rightarrow> lease_call list" where
  "continue_lease cs r ds = (case r of Inl _ \<Rightarrow> cs @ ds | Inr c \<Rightarrow> cs @ c # ds)"

text \<open>An outsider may remove or replace a sidecar, but not while somebody holds a lock on it.\<close>

definition replace_sidecar :: "string \<Rightarrow> bool \<Rightarrow> lease_world \<Rightarrow> lease_world" where
  "replace_sidecar r again w =
     (let k = kernel w; rest = AList.delete r (sidecar_inode k)
      in w\<lparr>kernel := k\<lparr>sidecar_inode := (if again then (r, next_serial k) # rest else rest), next_serial := Suc (next_serial k)\<rparr>\<rparr>)"

definition sidecar_unlocked :: "string \<Rightarrow> lease_kernel \<Rightarrow> bool" where
  "sidecar_unlocked r k \<longleftrightarrow> (\<forall>l \<in> set (desc_locks k). map_of (sidecar_inode k) r \<noteq> Some (desc_inode (fst l)))"

text \<open>
  Nothing refers to a lease object: it is not bound and no lease has borrowed from it.  \<open>strict\<close> runs
  finalize a borrowed lease on the thread that borrowed it.
\<close>

definition unreachable :: "bool \<Rightarrow> nat \<Rightarrow> nat \<Rightarrow> lease_proc \<Rightarrow> bool" where
  "unreachable strict tid i p \<longleftrightarrow> i \<notin> set (bound_ids p) \<and>
     (\<forall>j l. lease_objs p j = Some l \<longrightarrow> le_parent l \<noteq> Some i) \<and>
     (strict \<longrightarrow> (\<forall>l. lease_objs p i = Some l \<longrightarrow> le_parent l = None \<or> le_thread l = tid))"

inductive lease_step :: "bool \<Rightarrow> lease_sys \<Rightarrow> lease_sys \<Rightarrow> bool" for strict where
  ls_begin: "lease_begin pid tid r x t d n1 n2 = Inr c \<Longrightarrow> \<not> in_fork_hook (procs w pid) \<Longrightarrow>
    lease_step strict (w, cs) (w, c # cs)"
| ls_next: "lease_next n1 n2 opened ok c w = (r, w') \<Longrightarrow>
    (\<And>fd. opened = Some fd \<Longrightarrow> FdRef (lc_pid c) fd \<notin> fst ` set (fd_table (kernel w))) \<Longrightarrow>
    lease_step strict (w, cs @ c # ds) (w', continue_lease cs r ds)"
| ls_bind: "\<not> in_fork_hook (procs w pid) \<Longrightarrow> lease_step strict (w, cs) (snd (bind_connection pid tid i x w), cs)"
| ls_conns: "lease_step strict (w, cs) (put_proc pid ((procs w pid)\<lparr>conns := f\<rparr>) w, cs)"
| ls_release: "\<not> in_fork_hook (procs w pid) \<Longrightarrow> lease_step strict (w, cs) (snd (release_lease pid tid i w), cs)"
| ls_finalize: "\<not> in_fork_hook (procs w pid) \<Longrightarrow> unreachable strict tid i (procs w pid) \<Longrightarrow>
    lease_step strict (w, cs) (finalize_lease pid tid i w, cs)"
| ls_fork: "\<not> in_fork_hook (procs w pid) \<Longrightarrow> child \<noteq> pid \<Longrightarrow> child \<notin> ref_pid ` fst ` set (fd_table (kernel w)) \<Longrightarrow>
    child \<notin> lc_pid ` set cs \<Longrightarrow> lease_step strict (w, cs) (fork_process pid child w, cs)"
| ls_hook: "in_fork_hook (procs w pid) \<Longrightarrow> lease_step strict (w, cs) (after_fork_child pid w, cs)"
| ls_exit: "lease_step strict (w, cs) (exit_process pid w, filter (\<lambda>c. lc_pid c \<noteq> pid) cs)"
| ls_replace: "sidecar_unlocked r (kernel w) \<Longrightarrow> lease_step strict (w, cs) (replace_sidecar r again w, cs)"

definition blank_world :: lease_world where
  "blank_world = \<lparr>kernel = \<lparr>fd_table = [], desc_locks = [], sidecar_inode = [], next_serial = 1\<rparr>, procs = (\<lambda>_. blank_proc)\<rparr>"

inductive lease_run :: "bool \<Rightarrow> lease_sys \<Rightarrow> bool" for strict where
  lr_start: "lease_run strict (blank_world, [])"
| lr_step: "lease_run strict s \<Longrightarrow> lease_step strict s t \<Longrightarrow> lease_run strict t"

section \<open>The invariant of the kernel\<close>

definition kernel_ok :: "lease_kernel \<Rightarrow> bool" where
  "kernel_ok k \<longleftrightarrow> distinct (map fst (fd_table k)) \<and>
     (\<forall>p fd fd' d. (FdRef p fd, d) \<in> set (fd_table k) \<longrightarrow> (FdRef p fd', d) \<in> set (fd_table k) \<longrightarrow> fd = fd') \<and>
     (\<forall>e \<in> set (fd_table k). desc_serial (snd e) < next_serial k) \<and>
     fst ` set (desc_locks k) \<subseteq> snd ` set (fd_table k) \<and>
     (\<forall>d d' m. (d, ModeExclusive) \<in> set (desc_locks k) \<longrightarrow> (d', m) \<in> set (desc_locks k) \<longrightarrow>
        desc_inode d = desc_inode d' \<longrightarrow> d = d')"

lemma kernel_okI:
  assumes "distinct (map fst (fd_table k))"
    and "\<And>p fd fd' d. (FdRef p fd, d) \<in> set (fd_table k) \<Longrightarrow> (FdRef p fd', d) \<in> set (fd_table k) \<Longrightarrow> fd = fd'"
    and "\<And>x d. (x, d) \<in> set (fd_table k) \<Longrightarrow> desc_serial d < next_serial k"
    and "\<And>d m. (d, m) \<in> set (desc_locks k) \<Longrightarrow> \<exists>x. (x, d) \<in> set (fd_table k)"
    and "\<And>d d' m. (d, ModeExclusive) \<in> set (desc_locks k) \<Longrightarrow> (d', m) \<in> set (desc_locks k) \<Longrightarrow>
      desc_inode d = desc_inode d' \<Longrightarrow> d = d'"
  shows "kernel_ok k"
proof -
  have "fst ` set (desc_locks k) \<subseteq> snd ` set (fd_table k)" using assms(4) by force
  moreover have "\<forall>e \<in> set (fd_table k). desc_serial (snd e) < next_serial k" using assms(3) by (metis prod.collapse)
  ultimately show ?thesis unfolding kernel_ok_def using assms(1,2,5) by blast
qed

lemma kernel_okD:
  assumes "kernel_ok k"
  shows "distinct (map fst (fd_table k))"
    "(FdRef p fd, d) \<in> set (fd_table k) \<Longrightarrow> (FdRef p fd', d) \<in> set (fd_table k) \<Longrightarrow> fd = fd'"
    "(x, d) \<in> set (fd_table k) \<Longrightarrow> desc_serial d < next_serial k"
    "(d, m) \<in> set (desc_locks k) \<Longrightarrow> \<exists>x. (x, d) \<in> set (fd_table k)"
    "(d, ModeExclusive) \<in> set (desc_locks k) \<Longrightarrow> (d', m) \<in> set (desc_locks k) \<Longrightarrow>
      desc_inode d = desc_inode d' \<Longrightarrow> d = d'"
proof -
  note k = assms [unfolded kernel_ok_def]
  note k1 = conjunct1 [OF k] and r1 = conjunct2 [OF k]
  note k2 = conjunct1 [OF r1] and r2 = conjunct2 [OF r1]
  note k3 = conjunct1 [OF r2] and r3 = conjunct2 [OF r2]
  note k4 = conjunct1 [OF r3] and k5 = conjunct2 [OF r3]
  show "distinct (map fst (fd_table k))" by (rule k1)
  show "(FdRef p fd, d) \<in> set (fd_table k) \<Longrightarrow> (FdRef p fd', d) \<in> set (fd_table k) \<Longrightarrow> fd = fd'" using k2 by blast
  show "(x, d) \<in> set (fd_table k) \<Longrightarrow> desc_serial d < next_serial k" using k3 by fastforce
  show "(d, m) \<in> set (desc_locks k) \<Longrightarrow> \<exists>x. (x, d) \<in> set (fd_table k)" using k4 by force
  show "(d, ModeExclusive) \<in> set (desc_locks k) \<Longrightarrow> (d', m) \<in> set (desc_locks k) \<Longrightarrow>
      desc_inode d = desc_inode d' \<Longrightarrow> d = d'" using k5 by blast
qed

text \<open>A descriptor of a process is on a description that the process opened; it has a lock; on the present sidecar.\<close>

definition fd_opened :: "lease_kernel \<Rightarrow> fd_ref \<Rightarrow> bool" where
  "fd_opened k x \<longleftrightarrow> (\<exists>d. (x, d) \<in> set (fd_table k) \<and> desc_pid d = ref_pid x)"

definition fd_locked :: "lease_kernel \<Rightarrow> fd_ref \<Rightarrow> lease_mode \<Rightarrow> bool" where
  "fd_locked k x m \<longleftrightarrow> (\<exists>d. (x, d) \<in> set (fd_table k) \<and> desc_pid d = ref_pid x \<and> (d, m) \<in> set (desc_locks k))"

definition anchored :: "lease_kernel \<Rightarrow> fd_ref \<Rightarrow> lease_mode \<Rightarrow> string \<Rightarrow> bool" where
  "anchored k x m r \<longleftrightarrow> (\<exists>d. (x, d) \<in> set (fd_table k) \<and> desc_pid d = ref_pid x \<and> (d, m) \<in> set (desc_locks k) \<and>
     map_of (sidecar_inode k) r = Some (desc_inode d))"

definition kernel_keeps :: "fd_ref set \<Rightarrow> lease_kernel \<Rightarrow> lease_kernel \<Rightarrow> bool" where
  "kernel_keeps X k k' \<longleftrightarrow> (\<forall>x. x \<notin> X \<longrightarrow> (fd_opened k x \<longrightarrow> fd_opened k' x) \<and>
     (\<forall>m. fd_locked k x m \<longrightarrow> fd_locked k' x m) \<and> (\<forall>m r. anchored k x m r \<longrightarrow> anchored k' x m r))"

lemma kernel_keepsD:
  assumes "kernel_keeps X k k'" "x \<notin> X"
  shows "fd_opened k x \<Longrightarrow> fd_opened k' x" "fd_locked k x m \<Longrightarrow> fd_locked k' x m" "anchored k x m r \<Longrightarrow> anchored k' x m r"
  using assms unfolding kernel_keeps_def by blast+

lemma kernel_keeps_refl: "kernel_keeps X k k"
  by (simp add: kernel_keeps_def)

lemma keep_tables:
  assumes "\<And>x d. x \<notin> X \<Longrightarrow> (x, d) \<in> set (fd_table k) \<Longrightarrow> (x, d) \<in> set (fd_table k')"
    and "\<And>x d m. x \<notin> X \<Longrightarrow> (x, d) \<in> set (fd_table k) \<Longrightarrow> desc_pid d = ref_pid x \<Longrightarrow>
      (d, m) \<in> set (desc_locks k) \<Longrightarrow> (d, m) \<in> set (desc_locks k')"
    and "\<And>r i. map_of (sidecar_inode k) r = Some i \<Longrightarrow> map_of (sidecar_inode k') r = Some i"
  shows "kernel_keeps X k k'"
  unfolding kernel_keeps_def fd_opened_def fd_locked_def anchored_def using assms by blast

lemma close_fds_simps [simp]:
  "sidecar_inode (close_fds p F k) = sidecar_inode k" "next_serial (close_fds p F k) = next_serial k"
  by (simp_all add: close_fds_def keep_open_locks_def)

lemma close_table: "(x, d) \<in> set (fd_table (close_fds p F k)) \<longleftrightarrow> (x, d) \<in> set (fd_table k) \<and> \<not> (ref_pid x = p \<and> ref_fd x \<in> F)"
  by (simp add: close_fds_def keep_open_locks_def)

lemma close_locks: "(d, m) \<in> set (desc_locks (close_fds p F k)) \<longleftrightarrow>
    (d, m) \<in> set (desc_locks k) \<and> (\<exists>x. (x, d) \<in> set (fd_table (close_fds p F k)))"
proof -
  have "d \<in> snd ` set t \<longleftrightarrow> (\<exists>x. (x, d) \<in> set t)" for t :: "(fd_ref \<times> desc) list" by force
  then have "d \<in> snd ` set (fd_table (close_fds p F k)) \<longleftrightarrow> (\<exists>x. (x, d) \<in> set (fd_table (close_fds p F k)))" .
  then show ?thesis by (simp add: close_fds_def keep_open_locks_def)
qed

lemma close_fds_ok: assumes "kernel_ok k" shows "kernel_ok (close_fds p F k)"
proof (rule kernel_okI)
  note d = kernel_okD [OF assms]
  show "distinct (map fst (fd_table (close_fds p F k)))"
    using d(1) by (simp add: close_fds_def keep_open_locks_def distinct_map_filter)
  show "fd = fd'" if "(FdRef q fd, x) \<in> set (fd_table (close_fds p F k))" "(FdRef q fd', x) \<in> set (fd_table (close_fds p F k))" for q fd fd' x
    using d(2) that unfolding close_table by blast
  show "desc_serial e < next_serial (close_fds p F k)" if "(x, e) \<in> set (fd_table (close_fds p F k))" for x e
    using d(3) [of x e] that unfolding close_table close_fds_simps by blast
  show "\<exists>x. (x, e) \<in> set (fd_table (close_fds p F k))" if "(e, m) \<in> set (desc_locks (close_fds p F k))" for e m
    using that unfolding close_locks by blast
  show "e = e'" if "(e, ModeExclusive) \<in> set (desc_locks (close_fds p F k))" "(e', m) \<in> set (desc_locks (close_fds p F k))"
      "desc_inode e = desc_inode e'" for e e' m
    using d(5) that unfolding close_locks by blast
qed

lemma close_fds_keeps: "kernel_keeps (FdRef p ` F) k (close_fds p F k)"
proof (rule keep_tables)
  fix x d m assume x: "x \<notin> FdRef p ` F" "(x, d) \<in> set (fd_table k)"
  show in': "(x, d) \<in> set (fd_table (close_fds p F k))" using x by (cases x) (auto simp: close_table)
  show "(d, m) \<in> set (desc_locks k) \<Longrightarrow> (d, m) \<in> set (desc_locks (close_fds p F k))" using in' by (auto simp: close_locks)
qed simp

lemma open_sidecar_ok:
  assumes "kernel_ok k" "FdRef p fd \<notin> fst ` set (fd_table k)"
  shows "kernel_ok (open_sidecar p fd r k)" "kernel_keeps {} k (open_sidecar p fd r k)" "fd_opened (open_sidecar p fd r k) (FdRef p fd)"
proof -
  have new: "Desc q (next_serial k) i \<noteq> d" if "(x, d) \<in> set (fd_table k)" for x d q i
    using assms(1) that unfolding kernel_ok_def by (metis desc.sel(2) nat_less_le snd_conv)
  have "\<exists>i s. open_sidecar p fd r k =
      k\<lparr>fd_table := (FdRef p fd, Desc p (next_serial k) i) # fd_table k, sidecar_inode := s, next_serial := Suc (next_serial k)\<rparr> \<and>
    (\<forall>r' i'. map_of (sidecar_inode k) r' = Some i' \<longrightarrow> map_of s r' = Some i')"
  proof (cases "map_of (sidecar_inode k) r")
    case None
    then show ?thesis by (intro exI [of _ "next_serial k"] exI [of _ "(r, next_serial k) # sidecar_inode k"]) (auto simp: open_sidecar_def)
  next
    case (Some i)
    then show ?thesis by (intro exI [of _ i] exI [of _ "sidecar_inode k"]) (simp add: open_sidecar_def)
  qed
  then obtain i s where eq: "open_sidecar p fd r k =
      k\<lparr>fd_table := (FdRef p fd, Desc p (next_serial k) i) # fd_table k, sidecar_inode := s, next_serial := Suc (next_serial k)\<rparr>"
    and s: "\<And>r' i'. map_of (sidecar_inode k) r' = Some i' \<Longrightarrow> map_of s r' = Some i'" by blast
  show "fd_opened (open_sidecar p fd r k) (FdRef p fd)" by (auto simp: fd_opened_def eq)
  show "kernel_keeps {} k (open_sidecar p fd r k)" by (rule keep_tables) (simp_all add: eq s)
  note d = kernel_okD [OF assms(1)]
  have t: "(x, e) \<in> set (fd_table (open_sidecar p fd r k)) \<longleftrightarrow>
      x = FdRef p fd \<and> e = Desc p (next_serial k) i \<or> (x, e) \<in> set (fd_table k)" for x e by (auto simp: eq)
  have l: "desc_locks (open_sidecar p fd r k) = desc_locks k" "next_serial (open_sidecar p fd r k) = Suc (next_serial k)"
    by (simp_all add: eq)
  show "kernel_ok (open_sidecar p fd r k)"
  proof (rule kernel_okI)
    show "distinct (map fst (fd_table (open_sidecar p fd r k)))" using d(1) assms(2) by (simp add: eq)
    show "f = f'" if "(FdRef q f, x) \<in> set (fd_table (open_sidecar p fd r k))" "(FdRef q f', x) \<in> set (fd_table (open_sidecar p fd r k))" for q f f' x
      using that new d(2) unfolding t by blast
    show "desc_serial e < next_serial (open_sidecar p fd r k)" if "(x, e) \<in> set (fd_table (open_sidecar p fd r k))" for x e
      using that d(3) [of x e] unfolding t l by auto
    show "\<exists>x. (x, e) \<in> set (fd_table (open_sidecar p fd r k))" if "(e, m) \<in> set (desc_locks (open_sidecar p fd r k))" for e m
      using that d(4) unfolding t l by blast
  qed (use d(5) in \<open>simp add: l; blast\<close>)
qed

lemma flock_ok:
  assumes "kernel_ok k" "flock_desc d m k = Some k'" "(x, d) \<in> set (fd_table k)" "desc_pid d = ref_pid x"
  shows "kernel_ok k'" "fd_table k' = fd_table k" "sidecar_inode k' = sidecar_inode k" "fd_locked k' x m"
    "kernel_keeps {x} k k'"
proof -
  have free: "\<not> list_ex (lock_excluded d m) (desc_locks k)" and eq: "k' = k\<lparr>desc_locks := (d, m) # filter (\<lambda>l. fst l \<noteq> d) (desc_locks k)\<rparr>"
    using assms(2) by (auto simp: flock_desc_def split: if_splits)
  show "fd_table k' = fd_table k" "sidecar_inode k' = sidecar_inode k" by (simp_all add: eq)
  show "fd_locked k' x m" using assms(3,4) by (auto simp: fd_locked_def eq)
  note kd = kernel_okD [OF assms(1)]
  show "kernel_ok k'"
  proof (rule kernel_okI)
    show "\<exists>x. (x, e) \<in> set (fd_table k')" if "(e, m') \<in> set (desc_locks k')" for e m'
    proof (cases "e = d")
      case True
      then show ?thesis using assms(3) by (auto simp: eq)
    next
      case False
      then show ?thesis using that kd(4) [of e m'] by (simp add: eq)
    qed
    show "d1 = d2" if "(d1, ModeExclusive) \<in> set (desc_locks k')" "(d2, m2) \<in> set (desc_locks k')" "desc_inode d1 = desc_inode d2" for d1 d2 m2
    proof (rule ccontr)
      assume ne: "d1 \<noteq> d2"
      have free': "m \<noteq> ModeExclusive \<and> m' \<noteq> ModeExclusive"
        if "(e, m') \<in> set (desc_locks k)" "e \<noteq> d" "desc_inode e = desc_inode d" for e m'
        using free that unfolding list_ex_iff lock_excluded_def by force
      have mem: "(e, m') \<in> set (desc_locks k') \<longleftrightarrow> e = d \<and> m' = m \<or> e \<noteq> d \<and> (e, m') \<in> set (desc_locks k)" for e m'
        by (auto simp: eq)
      have "d1 = d \<or> d2 = d" using that ne kd(5) [of d1 d2 m2] unfolding mem by blast
      then show False using that ne free' [of d1 ModeExclusive] free' [of d2 m2] unfolding mem by (elim disjE) simp_all
    qed
    show "f = f'" if "(FdRef q f, e) \<in> set (fd_table k')" "(FdRef q f', e) \<in> set (fd_table k')" for q f f' e
      using kd(2) that by (simp add: eq)
    show "desc_serial e < next_serial k'" if "(y, e) \<in> set (fd_table k')" for y e using kd(3) [of y e] that by (simp add: eq)
  qed (use kd(1) in \<open>simp add: eq\<close>)
  show "kernel_keeps {x} k k'"
  proof (rule keep_tables)
    fix y e m' assume y: "y \<notin> {x}" "(y, e) \<in> set (fd_table k)" "desc_pid e = ref_pid y" "(e, m') \<in> set (desc_locks k)"
    have "e \<noteq> d"
    proof
      assume "e = d"
      with y assms(3,4) kd(2) [of "ref_pid x" "ref_fd x" d "ref_fd y"] have "ref_fd x = ref_fd y" by (metis fd_ref.collapse)
      with y assms(4) \<open>e = d\<close> show False by (metis fd_ref.expand singletonI)
    qed
    with y show "(e, m') \<in> set (desc_locks k')" by (simp add: eq)
  qed (simp_all add: eq)
qed

lemma replace_ok:
  assumes "kernel_ok k" "sidecar_unlocked r k" "kernel w = k"
  shows "kernel_ok (kernel (replace_sidecar r again w))" "kernel_keeps {} k (kernel (replace_sidecar r again w))"
proof -
  let ?k = "kernel (replace_sidecar r again w)"
  have t: "fd_table ?k = fd_table k" "desc_locks ?k = desc_locks k" "next_serial ?k = Suc (next_serial k)"
    using assms(3) by (simp_all add: replace_sidecar_def Let_def)
  have s: "r' \<noteq> r \<Longrightarrow> map_of (sidecar_inode ?k) r' = map_of (sidecar_inode k) r'" for r'
    using assms(3) by (simp add: replace_sidecar_def Let_def delete_conv')
  note d = kernel_okD [OF assms(1)]
  show "kernel_ok ?k"
    by (rule kernel_okI; unfold t) (rule d(1) d(2) d(4) d(5) less_SucI [OF d(3)]; assumption)+
  have "anchored ?k x m r'" if "anchored k x m r'" for x m r'
  proof -
    have "r' \<noteq> r" using that assms(2) by (force simp: anchored_def sidecar_unlocked_def)
    then show ?thesis using that s by (simp add: anchored_def t)
  qed
  then show "kernel_keeps {} k ?k" by (simp add: kernel_keeps_def fd_opened_def fd_locked_def t)
qed

lemma fork_kernel_ok:
  assumes "kernel_ok k" "child \<noteq> pid" "child \<notin> ref_pid ` fst ` set (fd_table k)"
  defines "k' \<equiv> k\<lparr>fd_table := map (\<lambda>e. (FdRef child (ref_fd (fst e)), snd e)) (filter (\<lambda>e. ref_pid (fst e) = pid) (fd_table k)) @ fd_table k\<rparr>"
  shows "kernel_ok k'" "kernel_keeps {} k k'"
    "\<And>x d. (x, d) \<in> set (fd_table k') \<longleftrightarrow> (x, d) \<in> set (fd_table k) \<or> (ref_pid x = child \<and> (FdRef pid (ref_fd x), d) \<in> set (fd_table k))"
proof -
  show mem: "(x, d) \<in> set (fd_table k') \<longleftrightarrow> (x, d) \<in> set (fd_table k) \<or> (ref_pid x = child \<and> (FdRef pid (ref_fd x), d) \<in> set (fd_table k))" for x d
    by (cases x) (force simp: k'_def image_iff)
  have none: "(FdRef child fd, d) \<notin> set (fd_table k)" for fd d using assms(3) by force
  show "kernel_keeps {} k k'" by (rule keep_tables) (simp_all add: k'_def)
  have "distinct (map fst (fd_table k'))"
  proof -
    let ?sub = "filter (\<lambda>e. ref_pid (fst e) = pid) (fd_table k)"
    have d: "distinct (map fst (fd_table k))" using assms(1) by (simp add: kernel_ok_def)
    then have "distinct (map fst ?sub)" by (rule distinct_map_filter)
    then have "distinct (map (\<lambda>e. FdRef child (ref_fd (fst e))) ?sub)"
      by (simp add: distinct_map inj_on_def) (metis fd_ref.expand)
    moreover have "FdRef child fd \<notin> fst ` set (fd_table k)" for fd using none by force
    ultimately show ?thesis using d by (auto simp: k'_def comp_def)
  qed
  moreover have "fd1 = fd2" if "(FdRef q fd1, d) \<in> set (fd_table k')" "(FdRef q fd2, d) \<in> set (fd_table k')" for q fd1 fd2 d
    using that none kernel_okD(2) [OF assms(1)] unfolding mem fd_ref.sel by blast
  moreover have "desc_serial d < next_serial k'" if "(x, d) \<in> set (fd_table k')" for x d
    using that kernel_okD(3) [OF assms(1)] unfolding mem by (auto simp: k'_def)
  moreover have "\<exists>x. (x, d) \<in> set (fd_table k')" if "(d, m) \<in> set (desc_locks k')" for d m
    using that kernel_okD(4) [OF assms(1)] unfolding mem by (auto simp: k'_def)
  moreover have "desc_locks k' = desc_locks k" by (simp add: k'_def)
  ultimately show "kernel_ok k'" using kernel_okD(5) [OF assms(1)] by (intro kernel_okI) auto
qed

section \<open>The invariant of the leases\<close>

definition open_leases :: "lease_proc \<Rightarrow> nat \<rightharpoonup> lease" where
  "open_leases P = (\<lambda>i. case lease_objs P i of Some l \<Rightarrow> if le_closed l then None else Some l | None \<Rightarrow> None)"

definition borrowers :: "(nat \<rightharpoonup> lease) \<Rightarrow> nat \<Rightarrow> nat set" where
  "borrowers ls i = {j. \<exists>l. ls j = Some l \<and> le_parent l = Some i}"

definition mode_of :: "lease \<Rightarrow> lease_mode" where
  "mode_of l = (if le_exclusive l then ModeExclusive else ModeShared)"

definition root_ok :: "bool \<Rightarrow> lease_kernel \<Rightarrow> nat \<Rightarrow> (nat \<rightharpoonup> lease) \<Rightarrow> nat set \<Rightarrow> nat \<Rightarrow> lease \<Rightarrow> bool" where
  "root_ok strict k p ls pend i l \<longleftrightarrow>
     (\<exists>fd. le_fd l = Some fd \<and> fd \<notin> pend \<and> anchored k (FdRef p fd) (mode_of l) (le_resource l) \<and>
        (\<forall>j l'. ls j = Some l' \<longrightarrow> le_parent l' = None \<longrightarrow> le_fd l' = Some fd \<longrightarrow> j = i)) \<and>
     1 + int (card (borrowers ls i)) \<le> le_refs l \<and> (strict \<longrightarrow> le_refs l = 1 + int (card (borrowers ls i)))"

definition borrower_ok :: "(nat \<rightharpoonup> lease) \<Rightarrow> lease \<Rightarrow> nat \<Rightarrow> bool" where
  "borrower_ok ls l r \<longleftrightarrow> (\<exists>lr. ls r = Some lr \<and> le_parent lr = None \<and> le_exclusive lr \<and>
     le_resource lr = le_resource l \<and> le_thread lr = le_thread l)"

definition lease_ok :: "bool \<Rightarrow> lease_kernel \<Rightarrow> nat \<Rightarrow> lease_proc \<Rightarrow> nat \<Rightarrow> lease \<Rightarrow> bool" where
  "lease_ok strict k p P i l \<longleftrightarrow> le_pid l = p \<and> i < next_obj P \<and> (le_conn l \<noteq> None \<longrightarrow> i \<in> set (bound_ids P)) \<and>
     (case le_parent l of
        None \<Rightarrow> root_ok strict k p (open_leases P) (set (pending_fds P)) i l
      | Some r \<Rightarrow> borrower_ok (open_leases P) l r)"

definition proc_ok :: "bool \<Rightarrow> lease_kernel \<Rightarrow> nat \<Rightarrow> lease_proc \<Rightarrow> bool" where
  "proc_ok strict k p P \<longleftrightarrow> dom (open_leases P) \<subseteq> set (registered P) \<and>
     (\<not> in_fork_hook P \<longrightarrow> (\<forall>i l. open_leases P i = Some l \<longrightarrow> lease_ok strict k p P i l))"

fun phase_fd :: "lease_phase \<Rightarrow> nat option" where
  "phase_fd Looking = None"
| "phase_fd OpeningSidecar = None"
| "phase_fd (Trying fd) = Some fd"
| "phase_fd (Granted fd) = Some fd"
| "phase_fd (Stale fd) = Some fd"
| "phase_fd (Failing fd e) = Some fd"
| "phase_fd (Publishing fd) = Some fd"

definition call_key :: "lease_call \<Rightarrow> fd_ref option" where
  "call_key c = map_option (FdRef (lc_pid c)) (phase_fd (lc_phase c))"

fun phase_ok :: "lease_kernel \<Rightarrow> nat \<Rightarrow> lease_mode \<Rightarrow> string \<Rightarrow> lease_phase \<Rightarrow> bool" where
  "phase_ok k p m r Looking = True"
| "phase_ok k p m r OpeningSidecar = True"
| "phase_ok k p m r (Trying fd) = fd_opened k (FdRef p fd)"
| "phase_ok k p m r (Granted fd) = fd_locked k (FdRef p fd) m"
| "phase_ok k p m r (Stale fd) = fd_opened k (FdRef p fd)"
| "phase_ok k p m r (Failing fd e) = fd_opened k (FdRef p fd)"
| "phase_ok k p m r (Publishing fd) = anchored k (FdRef p fd) m r"

definition call_ok :: "lease_world \<Rightarrow> lease_call \<Rightarrow> bool" where
  "call_ok w c \<longleftrightarrow> \<not> in_fork_hook (procs w (lc_pid c)) \<and> phase_ok (kernel w) (lc_pid c) (call_mode c) (lc_resource c) (lc_phase c) \<and>
     (\<forall>fd. phase_fd (lc_phase c) = Some fd \<longrightarrow> fd \<in> set (pending_fds (procs w (lc_pid c))))"

definition sys_ok :: "bool \<Rightarrow> lease_sys \<Rightarrow> bool" where
  "sys_ok strict s \<longleftrightarrow> kernel_ok (kernel (fst s)) \<and> (\<forall>p. proc_ok strict (kernel (fst s)) p (procs (fst s) p)) \<and>
     distinct (List.map_filter call_key (snd s)) \<and> (\<forall>c \<in> set (snd s). call_ok (fst s) c)"

subsection \<open>Frames\<close>

lemma anchored_locked: "anchored k x m r \<Longrightarrow> fd_locked k x m"
  by (auto simp: anchored_def fd_locked_def)

lemma locked_opened: "fd_locked k x m \<Longrightarrow> fd_opened k x"
  by (auto simp: fd_locked_def fd_opened_def)

lemma opened_mem: "fd_opened k x \<Longrightarrow> x \<in> fst ` set (fd_table k)"
  by (force simp: fd_opened_def)

lemma phase_opened: "phase_ok k p m r ph \<Longrightarrow> phase_fd ph = Some fd \<Longrightarrow> fd_opened k (FdRef p fd)"
  by (cases ph) (auto dest: anchored_locked locked_opened)

lemma phase_keeps:
  assumes "phase_ok k p m r ph" "kernel_keeps X k k'" "\<And>fd. phase_fd ph = Some fd \<Longrightarrow> FdRef p fd \<notin> X"
  shows "phase_ok k' p m r ph"
  using assms(1) kernel_keepsD [OF assms(2)] assms(3) by (cases ph) auto

lemma root_keeps:
  assumes "root_ok strict k p ls pend i l" "kernel_keeps X k k'" "\<And>fd. le_fd l = Some fd \<Longrightarrow> FdRef p fd \<notin> X"
    and "\<And>fd. le_fd l = Some fd \<Longrightarrow> fd \<notin> pend \<Longrightarrow> fd \<notin> pend'"
  shows "root_ok strict k' p ls pend' i l"
  using assms(1,3,4) kernel_keepsD(3) [OF assms(2)] unfolding root_ok_def by blast

lemma lease_keeps:
  assumes "lease_ok strict k p P i l" "open_leases P' = open_leases P" "next_obj P \<le> next_obj P'" "set (bound_ids P) \<subseteq> set (bound_ids P')"
    and "kernel_keeps X k k'" "\<And>fd. le_parent l = None \<Longrightarrow> le_fd l = Some fd \<Longrightarrow> FdRef p fd \<notin> X \<and> (fd \<in> set (pending_fds P') \<longrightarrow> fd \<in> set (pending_fds P))"
  shows "lease_ok strict k' p P' i l"
proof (cases "le_parent l")
  case None
  then have "root_ok strict k p (open_leases P) (set (pending_fds P)) i l" using assms(1) by (simp add: lease_ok_def)
  then have "root_ok strict k' p (open_leases P) (set (pending_fds P')) i l"
    by (rule root_keeps [OF _ assms(5)]) (use None assms(6) in blast)+
  then show ?thesis using None assms(1-4) by (auto simp: lease_ok_def)
next
  case (Some r)
  then show ?thesis using assms(1-4) by (auto simp: lease_ok_def)
qed

lemma proc_keeps:
  assumes "proc_ok strict k p P" "open_leases P' = open_leases P" "next_obj P \<le> next_obj P'" "set (bound_ids P) \<subseteq> set (bound_ids P')"
    and "set (registered P) \<subseteq> set (registered P')" "in_fork_hook P' = in_fork_hook P"
    and "kernel_keeps X k k'"
    and "\<And>i l fd. \<not> in_fork_hook P \<Longrightarrow> open_leases P i = Some l \<Longrightarrow> le_parent l = None \<Longrightarrow> le_fd l = Some fd \<Longrightarrow>
      FdRef p fd \<notin> X \<and> (fd \<in> set (pending_fds P') \<longrightarrow> fd \<in> set (pending_fds P))"
  shows "proc_ok strict k' p P'"
  using assms(1,5,6) lease_keeps [OF _ assms(2-4,7)] assms(8) unfolding proc_ok_def assms(2) by blast

lemma sys_okD:
  assumes "sys_ok strict (w, cs)"
  shows "kernel_ok (kernel w)" "proc_ok strict (kernel w) p (procs w p)" "distinct (List.map_filter call_key cs)"
    "c \<in> set cs \<Longrightarrow> call_ok w c"
  using assms unfolding sys_ok_def fst_conv snd_conv by blast+

lemma lease_root:
  assumes "proc_ok strict k p P" "\<not> in_fork_hook P" "open_leases P i = Some l" "le_parent l = None"
  shows "root_ok strict k p (open_leases P) (set (pending_fds P)) i l"
  using assms unfolding proc_ok_def lease_ok_def by fastforce

lemma root_fd:
  assumes "proc_ok strict k p P" "\<not> in_fork_hook P" "open_leases P i = Some l" "le_parent l = None" "le_fd l = Some fd"
  shows "fd \<notin> set (pending_fds P)" "anchored k (FdRef p fd) (mode_of l) (le_resource l)"
    "open_leases P j = Some l' \<Longrightarrow> le_parent l' = None \<Longrightarrow> le_fd l' = Some fd \<Longrightarrow> j = i"
  using lease_root [OF assms(1-4)] assms(5) unfolding root_ok_def by auto

text \<open>A step that changes the memory of one process, some of its descriptors and some calls.\<close>

lemma sys_step:
  assumes "sys_ok strict (w, cs)" "kernel_ok (kernel w')" "kernel_keeps X (kernel w) (kernel w')"
    and "\<And>q. q \<noteq> p \<Longrightarrow> procs w' q = procs w q" "\<And>x. x \<in> X \<Longrightarrow> ref_pid x = p"
    and "proc_ok strict (kernel w') p (procs w' p)" "in_fork_hook (procs w' p) = in_fork_hook (procs w p)"
    and "\<And>c fd. c \<in> set cs' \<Longrightarrow> lc_pid c = p \<Longrightarrow> c \<in> set cs \<Longrightarrow> phase_fd (lc_phase c) = Some fd \<Longrightarrow>
      FdRef p fd \<notin> X \<and> (fd \<in> set (pending_fds (procs w p)) \<longrightarrow> fd \<in> set (pending_fds (procs w' p)))"
    and "\<And>c. c \<in> set cs' \<Longrightarrow> c \<notin> set cs \<Longrightarrow> call_ok w' c" "distinct (List.map_filter call_key cs')"
  shows "sys_ok strict (w', cs')"
proof -
  note d = sys_okD [OF assms(1)]
  have "proc_ok strict (kernel w') q (procs w' q)" for q
  proof (cases "q = p")
    case False
    show ?thesis unfolding assms(4) [OF False]
      by (rule proc_keeps [OF d(2) _ _ _ _ _ assms(3)]) (use False assms(5) in force)+
  qed (simp add: assms(6))
  moreover have "call_ok w' c" if "c \<in> set cs'" "c \<in> set cs" for c
  proof (cases "lc_pid c = p")
    case True
    have "phase_ok (kernel w') (lc_pid c) (call_mode c) (lc_resource c) (lc_phase c)"
      by (rule phase_keeps [OF _ assms(3)]) (use d(4) [OF that(2)] assms(8) [OF that(1) True that(2)] True in \<open>auto simp: call_ok_def\<close>)
    then show ?thesis using d(4) [OF that(2)] assms(7) assms(8) [OF that(1) True that(2)] True by (auto simp: call_ok_def)
  next
    case False
    then have "FdRef (lc_pid c) fd \<notin> X" for fd using assms(5) by force
    then have "phase_ok (kernel w') (lc_pid c) (call_mode c) (lc_resource c) (lc_phase c)"
      by (intro phase_keeps [OF _ assms(3)]) (use d(4) [OF that(2)] in \<open>auto simp: call_ok_def\<close>)
    then show ?thesis using d(4) [OF that(2)] assms(4) [OF False] by (auto simp: call_ok_def)
  qed
  ultimately show ?thesis using assms(2,9,10) unfolding sys_ok_def by auto
qed

subsection \<open>Changes of the live leases\<close>

lemma open_leases_simps [simp]:
  "open_leases (put_lease i l P) = (open_leases P)(i := (if le_closed l then None else Some l))"
  "open_leases (add_lease l P) = (open_leases P)(next_obj P := (if le_closed l then None else Some l))"
  "open_leases (P\<lparr>lease_objs := (lease_objs P)(i := None)\<rparr>) = (open_leases P)(i := None)"
  "open_leases (add_ref i n P) = (open_leases P)(i := map_option (\<lambda>l. l\<lparr>le_refs := le_refs l + n\<rparr>) (open_leases P i))"
  "open_leases (P\<lparr>registered := xs\<rparr>) = open_leases P" "open_leases (P\<lparr>bound_ids := xs\<rparr>) = open_leases P"
  "open_leases (P\<lparr>pending_fds := xs\<rparr>) = open_leases P" "open_leases (P\<lparr>conns := f\<rparr>) = open_leases P"
  "open_leases (P\<lparr>in_fork_hook := b\<rparr>) = open_leases P" "open_leases (P\<lparr>fork_quarantine := xs\<rparr>) = open_leases P"
  by (auto simp: open_leases_def put_lease_def add_lease_def add_ref_def fun_eq_iff split: option.split)

lemma open_lease_obj: "open_leases P i = Some l \<longleftrightarrow> lease_objs P i = Some l \<and> \<not> le_closed l"
  by (auto simp: open_leases_def split: option.split if_splits)

lemma put_proc_simps [simp]:
  "kernel (put_proc p P w) = kernel w" "procs (put_proc p P w) = (procs w)(p := P)"
  by (simp_all add: put_proc_def)

lemma mode_of_simps [simp]: "mode_of (l\<lparr>le_refs := n\<rparr>) = mode_of l" "mode_of (l\<lparr>le_conn := x\<rparr>) = mode_of l"
  by (simp_all add: mode_of_def)

lemma borrowers_upd:
  "borrowers (ls(i := None)) r = borrowers ls r - {i}"
  "borrowers (ls(i \<mapsto> l)) r = (if le_parent l = Some r then insert i (borrowers ls r) else borrowers ls r - {i})"
  by (auto simp: borrowers_def)

lemma finite_borrowers: "proc_ok strict k p P \<Longrightarrow> finite (borrowers (open_leases P) i)"
  by (rule finite_subset [of _ "set (registered P)"]) (auto simp: proc_ok_def borrowers_def dom_def)

lemma lease_okD:
  assumes "proc_ok strict k p P" "\<not> in_fork_hook P" "open_leases P i = Some l"
  shows "le_pid l = p" "i < next_obj P" "le_conn l \<noteq> None \<Longrightarrow> i \<in> set (bound_ids P)"
    "le_parent l = None \<Longrightarrow> root_ok strict k p (open_leases P) (set (pending_fds P)) i l"
    "le_parent l = Some r \<Longrightarrow> borrower_ok (open_leases P) l r"
  using assms unfolding proc_ok_def lease_ok_def by fastforce+

lemma shut_lease:
  assumes ok: "proc_ok strict k p P" and hook: "\<not> in_fork_hook P" "in_fork_hook P' = in_fork_hook P"
    and ls: "open_leases P' = (open_leases P)(i := None)" and none: "borrowers (open_leases P) i = {}"
    and root: "\<And>l. open_leases P i = Some l \<Longrightarrow> strict \<Longrightarrow> le_parent l = None"
    and same: "next_obj P' = next_obj P" "pending_fds P' = pending_fds P"
      "set (bound_ids P) - {i} \<subseteq> set (bound_ids P')" "set (registered P) - {i} \<subseteq> set (registered P')"
    and keeps: "kernel_keeps (FdRef p ` F) k k'" "\<And>fd. fd \<in> F \<Longrightarrow> \<exists>l. open_leases P i = Some l \<and> le_parent l = None \<and> le_fd l = Some fd"
  shows "proc_ok strict k' p P'"
proof -
  have "lease_ok strict k' p P' j l" if j: "open_leases P' j = Some l" for j l
  proof -
    have ji: "j \<noteq> i" "open_leases P j = Some l" using j by (auto simp: ls split: if_splits)
    note d = lease_okD [OF ok hook(1) ji(2)]
    show ?thesis
    proof (cases "le_parent l")
      case None
      from d(4) [OF None] obtain fd where fd: "le_fd l = Some fd" and r: "root_ok strict k p (open_leases P) (set (pending_fds P)) j l"
        by (auto simp: root_ok_def)
      have card: "card (borrowers (open_leases P') j) \<le> card (borrowers (open_leases P) j)"
        "strict \<Longrightarrow> borrowers (open_leases P') j = borrowers (open_leases P) j"
        using finite_borrowers [OF ok] root unfolding ls borrowers_upd
        by (auto intro!: card_mono) (auto simp: borrowers_def)
      have "fd \<notin> F" using keeps(2) root_fd(3) [OF ok hook(1) ji(2) None fd] ji by blast
      then have "FdRef p fd \<notin> FdRef p ` F" by blast
      then have "anchored k' (FdRef p fd) (mode_of l) (le_resource l)"
        using r fd kernel_keepsD(3) [OF keeps(1)] by (auto simp: root_ok_def)
      moreover have "\<forall>j' l'. open_leases P' j' = Some l' \<longrightarrow> le_parent l' = None \<longrightarrow> le_fd l' = Some fd \<longrightarrow> j' = j"
        using r fd by (auto simp: root_ok_def ls)
      ultimately have "root_ok strict k' p (open_leases P') (set (pending_fds P')) j l"
        using r fd card unfolding root_ok_def same by auto
      then show ?thesis using d(1-3) None same ji(1) by (auto simp: lease_ok_def)
    next
      case (Some r)
      then have "r \<noteq> i" using none ji(2) by (auto simp: borrowers_def)
      then have "borrower_ok (open_leases P') l r" using d(5) [OF Some] by (auto simp: borrower_ok_def ls)
      then show ?thesis using d(1-3) Some same ji(1) by (auto simp: lease_ok_def)
    qed
  qed
  moreover have "dom (open_leases P') \<subseteq> set (registered P')" using ok same(4) unfolding proc_ok_def ls by auto
  ultimately show ?thesis by (simp add: proc_ok_def)
qed

lemma unborrow_lease:
  assumes ok: "proc_ok strict k p P" and hook: "\<not> in_fork_hook P" "in_fork_hook P' = in_fork_hook P"
    and i: "open_leases P i = Some l" "le_parent l = Some r" "open_leases P r = Some lr"
    and ls: "open_leases P' = (open_leases P)(i := None, r \<mapsto> lr\<lparr>le_refs := le_refs lr - 1\<rparr>)"
    and same: "next_obj P' = next_obj P" "pending_fds P' = pending_fds P"
      "set (bound_ids P) - {i} \<subseteq> set (bound_ids P')" "set (registered P) - {i} \<subseteq> set (registered P')"
  shows "proc_ok strict k p P'"
proof -
  have lr: "le_parent lr = None" using lease_okD(5) [OF ok hook(1) i(1,2)] i(3) by (simp add: borrower_ok_def)
  have ne: "r \<noteq> i" using lr i by auto
  have fin: "finite (borrowers (open_leases P) j)" for j by (rule finite_borrowers [OF ok])
  have "lease_ok strict k p P' j l'" if j: "open_leases P' j = Some l'" for j l'
  proof -
    obtain l0 where l0: "j \<noteq> i" "open_leases P j = Some l0" "l' = l0\<lparr>le_refs := le_refs l'\<rparr>"
      "le_refs l' = le_refs l0 - (if j = r then 1 else 0)"
      using j i(3) ne by (auto simp: ls split: if_splits)
    note d = lease_okD [OF ok hook(1) l0(2)]
    have eqs: "le_parent l' = le_parent l0" "le_fd l' = le_fd l0" "le_pid l' = le_pid l0" "le_conn l' = le_conn l0" "mode_of l' = mode_of l0"
      "le_resource l' = le_resource l0" "le_thread l' = le_thread l0"
      by (subst l0(3); simp)+
    show ?thesis
    proof (cases "le_parent l0")
      case None
      have rt: "root_ok strict k p (open_leases P) (set (pending_fds P)) j l0" by (rule d(4) [OF None])
      have b: "borrowers (open_leases P') j = borrowers (open_leases P) j - {i}"
        using ne lr i(3) unfolding ls borrowers_upd by (auto simp: borrowers_def)
      have "i \<in> borrowers (open_leases P) j \<longleftrightarrow> j = r" using i(1,2) by (auto simp: borrowers_def)
      then have "int (card (borrowers (open_leases P') j)) = int (card (borrowers (open_leases P) j)) - (if j = r then 1 else 0)"
        unfolding b using card_Suc_Diff1 [OF fin [of j], of i] by (cases "j = r") (simp_all del: card_Diff_insert)
      moreover have "\<forall>j' l'. open_leases P' j' = Some l' \<longrightarrow> le_parent l' = None \<longrightarrow> le_fd l' = Some fd \<longrightarrow> j' = j" if "le_fd l0 = Some fd" for fd
        using rt that i(3) lr by (auto simp: root_ok_def ls)
      ultimately have "root_ok strict k p (open_leases P') (set (pending_fds P')) j l'"
        using rt l0(4) unfolding root_ok_def same eqs by auto
      then show ?thesis using d(1-3) None same l0(1) by (auto simp: lease_ok_def eqs)
    next
      case (Some r')
      then have bo: "borrower_ok (open_leases P) l0 r'" by (rule d(5))
      then have "r' \<noteq> i" using i(1,2) by (auto simp: borrower_ok_def)
      then have "borrower_ok (open_leases P') l' r'" using bo i(3) by (auto simp: borrower_ok_def ls eqs)
      then show ?thesis using d(1-3) Some same l0(1) by (auto simp: lease_ok_def eqs)
    qed
  qed
  moreover have "dom (open_leases P') \<subseteq> set (registered P')" using ok same(4) i ne unfolding proc_ok_def ls by auto
  ultimately show ?thesis by (simp add: proc_ok_def)
qed

lemma borrow_lease:
  assumes ok: "proc_ok strict k p P" and hook: "\<not> in_fork_hook P" "in_fork_hook P' = in_fork_hook P"
    and r: "open_leases P r = Some lr" "le_parent lr = None" "le_exclusive lr"
    and b: "le_parent l = Some r" "le_pid l = p" "le_conn l = None" "le_resource l = le_resource lr" "le_thread l = le_thread lr"
    and ls: "open_leases P' = (open_leases P)(next_obj P \<mapsto> l, r \<mapsto> lr\<lparr>le_refs := le_refs lr + 1\<rparr>)"
    and same: "next_obj P' = Suc (next_obj P)" "pending_fds P' = pending_fds P" "bound_ids P' = bound_ids P"
      "set (registered P') = insert (next_obj P) (set (registered P))"
  shows "proc_ok strict k p P'"
proof -
  let ?n = "next_obj P"
  have below: "open_leases P j = Some l0 \<Longrightarrow> j < ?n" for j l0 using lease_okD(2) [OF ok hook(1)] by blast
  have new: "open_leases P ?n = None" using below [of ?n] by (cases "open_leases P ?n") auto
  have ne: "r \<noteq> ?n" using below [OF r(1)] by simp
  have fin: "finite (borrowers (open_leases P) j)" for j by (rule finite_borrowers [OF ok])
  have "lease_ok strict k p P' j l'" if j: "open_leases P' j = Some l'" "j \<noteq> ?n" for j l'
  proof -
    obtain l0 where l0: "open_leases P j = Some l0" "l' = l0\<lparr>le_refs := le_refs l'\<rparr>"
      "le_refs l' = le_refs l0 + (if j = r then 1 else 0)"
      using j r(1) by (auto simp: ls split: if_splits)
    note d = lease_okD [OF ok hook(1) l0(1)]
    have eqs: "le_parent l' = le_parent l0" "le_fd l' = le_fd l0" "le_pid l' = le_pid l0" "le_conn l' = le_conn l0" "mode_of l' = mode_of l0"
      "le_resource l' = le_resource l0" "le_thread l' = le_thread l0"
      by (subst l0(2); simp)+
    show ?thesis
    proof (cases "le_parent l0")
      case None
      have rt: "root_ok strict k p (open_leases P) (set (pending_fds P)) j l0" by (rule d(4) [OF None])
      have bs: "borrowers (open_leases P') j = (if j = r then insert ?n (borrowers (open_leases P) j) else borrowers (open_leases P) j)"
        using b(1) r new ne by (auto simp: ls borrowers_def)
      have "?n \<notin> borrowers (open_leases P) j" using new by (simp add: borrowers_def)
      then have "int (card (borrowers (open_leases P') j)) = int (card (borrowers (open_leases P) j)) + (if j = r then 1 else 0)"
        unfolding bs using fin [of j] by (cases "j = r") simp_all
      moreover have "\<forall>j' l'. open_leases P' j' = Some l' \<longrightarrow> le_parent l' = None \<longrightarrow> le_fd l' = Some fd \<longrightarrow> j' = j" if "le_fd l0 = Some fd" for fd
        using rt that r b(1) by (auto simp: root_ok_def ls)
      ultimately have "root_ok strict k p (open_leases P') (set (pending_fds P')) j l'"
        using rt l0(3) unfolding root_ok_def same eqs by auto
      then show ?thesis using d(1-3) None same by (auto simp: lease_ok_def eqs)
    next
      case (Some r')
      then have bo: "borrower_ok (open_leases P) l0 r'" by (rule d(5))
      then have "r' \<noteq> ?n" using new by (auto simp: borrower_ok_def)
      then have "borrower_ok (open_leases P') l' r'" using bo r by (auto simp: borrower_ok_def ls eqs)
      then show ?thesis using d(1-3) Some same by (auto simp: lease_ok_def eqs)
    qed
  qed
  moreover have "lease_ok strict k p P' ?n l'" if "open_leases P' ?n = Some l'" for l'
    using that b r ne same by (auto simp: lease_ok_def ls borrower_ok_def)
  moreover have "dom (open_leases P') \<subseteq> set (registered P')" using ok same(4) r unfolding proc_ok_def ls by auto
  ultimately show ?thesis unfolding proc_ok_def by metis
qed

lemma add_root:
  assumes ok: "proc_ok strict k p P" and hook: "\<not> in_fork_hook P" "in_fork_hook P' = in_fork_hook P"
    and l: "le_parent l = None" "le_pid l = p" "le_conn l = None" "le_fd l = Some fd" "le_refs l = 1"
    and fd: "fd \<in> set (pending_fds P)" "anchored k (FdRef p fd) (mode_of l) (le_resource l)"
    and ls: "open_leases P' = (open_leases P)(next_obj P \<mapsto> l)"
    and same: "next_obj P' = Suc (next_obj P)" "set (pending_fds P') = set (pending_fds P) - {fd}" "bound_ids P' = bound_ids P"
      "set (registered P') = insert (next_obj P) (set (registered P))"
  shows "proc_ok strict k p P'"
proof -
  let ?n = "next_obj P"
  have below: "open_leases P j = Some l0 \<Longrightarrow> j < ?n" for j l0 using lease_okD(2) [OF ok hook(1)] by blast
  have new: "open_leases P ?n = None" using below [of ?n] by (cases "open_leases P ?n") auto
  have bs: "borrowers (open_leases P') j = borrowers (open_leases P) j" for j
    using l(1) new by (auto simp: ls borrowers_def)
  have other: "le_fd l0 \<noteq> Some fd" if "open_leases P j = Some l0" "le_parent l0 = None" for j l0
    using root_fd(1) [OF ok hook(1) that] fd(1) by blast
  have "lease_ok strict k p P' j l0" if j: "open_leases P' j = Some l0" "j \<noteq> ?n" for j l0
  proof -
    have l0: "open_leases P j = Some l0" using j by (simp add: ls)
    note d = lease_okD [OF ok hook(1) l0]
    show ?thesis
    proof (cases "le_parent l0")
      case None
      have "root_ok strict k p (open_leases P') (set (pending_fds P')) j l0"
        using d(4) [OF None] other [OF l0 None] l(4) unfolding root_ok_def bs same by (auto simp: ls)
      then show ?thesis using d(1-3) None same by (auto simp: lease_ok_def)
    next
      case (Some r')
      then have bo: "borrower_ok (open_leases P) l0 r'" by (rule d(5))
      then have "borrower_ok (open_leases P') l0 r'" using new by (auto simp: borrower_ok_def ls)
      then show ?thesis using d(1-3) Some same by (auto simp: lease_ok_def)
    qed
  qed
  moreover have "lease_ok strict k p P' ?n l"
  proof -
    have "j = ?n" if "open_leases P' j = Some l'" "le_parent l' = None" "le_fd l' = Some fd" for j l'
      using that other [of j l'] by (auto simp: ls split: if_splits)
    moreover have "borrowers (open_leases P) ?n = {}"
    proof -
      have False if "open_leases P j = Some l'" "le_parent l' = Some ?n" for j l'
        using lease_okD(5) [OF ok hook(1) that] new by (simp add: borrower_ok_def)
      then show ?thesis by (auto simp: borrowers_def)
    qed
    ultimately have "root_ok strict k p (open_leases P') (set (pending_fds P')) ?n l"
      using l fd(2) unfolding root_ok_def bs same by auto
    then show ?thesis using l same by (simp add: lease_ok_def)
  qed
  moreover have "open_leases P' ?n = Some l" by (simp add: ls)
  moreover have "dom (open_leases P') \<subseteq> set (registered P')" using ok same(4) unfolding proc_ok_def ls by auto
  ultimately show ?thesis unfolding proc_ok_def by (metis option.inject)
qed

lemma bind_lease:
  assumes ok: "proc_ok strict k p P" and hook: "\<not> in_fork_hook P" "in_fork_hook P' = in_fork_hook P"
    and i: "open_leases P i = Some l" and ls: "open_leases P' = (open_leases P)(i \<mapsto> l\<lparr>le_conn := x\<rparr>)"
    and same: "next_obj P' = next_obj P" "pending_fds P' = pending_fds P" "set (bound_ids P') = insert i (set (bound_ids P))"
      "registered P' = registered P"
  shows "proc_ok strict k p P'"
proof -
  have bs: "borrowers (open_leases P') j = borrowers (open_leases P) j" for j
    using i by (auto simp: ls borrowers_def)
  have "lease_ok strict k p P' j l'" if j: "open_leases P' j = Some l'" for j l'
  proof -
    obtain l0 where l0: "open_leases P j = Some l0" "l' = l0 \<or> (l' = l0\<lparr>le_conn := x\<rparr> \<and> j = i)"
      using j i by (auto simp: ls split: if_splits)
    note d = lease_okD [OF ok hook(1) l0(1)]
    have eqs: "le_parent l' = le_parent l0" "le_fd l' = le_fd l0" "le_pid l' = le_pid l0" "le_refs l' = le_refs l0" "mode_of l' = mode_of l0"
      "le_resource l' = le_resource l0" "le_thread l' = le_thread l0"
      using l0(2) by auto
    have conn: "le_conn l' \<noteq> None \<longrightarrow> j \<in> set (bound_ids P')" using l0(2) d(3) same by auto
    show ?thesis
    proof (cases "le_parent l0")
      case None
      have "root_ok strict k p (open_leases P') (set (pending_fds P')) j l'"
        using d(4) [OF None] i unfolding root_ok_def bs same eqs by (auto simp: ls split: if_splits)
      then show ?thesis using d(1,2) conn None same by (auto simp: lease_ok_def eqs)
    next
      case (Some r')
      then have "borrower_ok (open_leases P') l' r'" using d(5) [OF Some] i by (auto simp: borrower_ok_def ls eqs)
      then show ?thesis using d(1,2) conn Some same by (auto simp: lease_ok_def eqs)
    qed
  qed
  moreover have "dom (open_leases P') \<subseteq> set (registered P')" using ok same(4) i unfolding proc_ok_def ls by auto
  ultimately show ?thesis by (simp add: proc_ok_def)
qed

end
