(* ===== verification/LifecycleRuns.thy ===== *)
theory LifecycleRuns
  imports LifecycleLaws
begin

text \<open>
  Every step of \<open>lease_step\<close> keeps the invariant \<open>sys_ok\<close>: one lemma for each operation, then the rule
  induction over runs.
\<close>

section \<open>Calls come and go\<close>

lemma map_filter_mid: "List.map_filter f (cs @ c # ds) =
    List.map_filter f cs @ (case f c of None \<Rightarrow> [] | Some x \<Rightarrow> [x]) @ List.map_filter f ds"
  by (simp add: List.map_filter_def split: option.split)

lemma map_filter_mem: "x \<in> set (List.map_filter f cs) \<longleftrightarrow> (\<exists>c \<in> set cs. f c = Some x)"
  by (force simp: List.map_filter_def)

lemma map_filter_both: "List.map_filter f (cs @ ds) = List.map_filter f cs @ List.map_filter f ds"
  by (simp add: List.map_filter_def)

lemma key_other:
  "distinct (List.map_filter call_key (cs @ c # ds)) \<Longrightarrow> call_key c = Some x \<Longrightarrow> c' \<in> set (cs @ ds) \<Longrightarrow> call_key c' \<noteq> Some x"
  by (auto simp: map_filter_mid map_filter_mem)

lemma keys_sub: "distinct (List.map_filter call_key (cs @ c # ds)) \<Longrightarrow> distinct (List.map_filter call_key (cs @ ds))"
  by (auto simp: map_filter_mid map_filter_both split: option.splits)

lemma drop_call: "sys_ok strict (w, cs @ c # ds) \<Longrightarrow> sys_ok strict (w, cs @ ds)"
  unfolding sys_ok_def fst_conv snd_conv using keys_sub by auto

lemma insert_call:
  assumes "sys_ok strict (w, cs @ ds)" "call_ok w c" "\<And>x c'. call_key c = Some x \<Longrightarrow> c' \<in> set (cs @ ds) \<Longrightarrow> call_key c' \<noteq> Some x"
  shows "sys_ok strict (w, cs @ c # ds)"
proof -
  have "distinct (List.map_filter call_key (cs @ c # ds))"
    using assms(1,3) by (auto simp: sys_ok_def map_filter_mid map_filter_both map_filter_mem split: option.split)
  then show ?thesis using assms(1,2) by (auto simp: sys_ok_def)
qed

lemma replace_call:
  assumes "sys_ok strict (w, cs @ c # ds)" "call_ok w c'" "call_key c' = None \<or> call_key c' = call_key c"
  shows "sys_ok strict (w, cs @ c' # ds)"
proof (rule insert_call [OF drop_call [OF assms(1)] assms(2)])
  fix x c0 assume a: "call_key c' = Some x" "c0 \<in> set (cs @ ds)"
  then have "call_key c = Some x" using assms(3) by auto
  then show "call_key c0 \<noteq> Some x" using key_other [OF sys_okD(3) [OF assms(1)] _ a(2)] by blast
qed

lemma call_key_simps [simp]: "call_key (c\<lparr>lc_phase := ph\<rparr>) = map_option (FdRef (lc_pid c)) (phase_fd ph)"
  "call_key (c\<lparr>lc_first := b\<rparr>) = call_key c" "call_key (c\<lparr>lc_first := b, lc_phase := ph\<rparr>) = map_option (FdRef (lc_pid c)) (phase_fd ph)"
  by (simp_all add: call_key_def)

lemma call_mode_simps [simp]: "call_mode (c\<lparr>lc_phase := ph\<rparr>) = call_mode c" "call_mode (c\<lparr>lc_first := b\<rparr>) = call_mode c"
  by (simp_all add: call_mode_def)

lemma call_ok_idle: "\<not> in_fork_hook (procs w (lc_pid c)) \<Longrightarrow> lc_phase c = Looking \<or> lc_phase c = OpeningSidecar \<Longrightarrow> call_ok w c"
  by (auto simp: call_ok_def)

text \<open>The call \<open>c\<close> ends or goes on after a step that changes the memory of its process.\<close>

lemma call_step:
  assumes ok: "sys_ok strict (w, cs @ c # ds)" and k: "kernel_ok (kernel w')" "kernel_keeps X (kernel w) (kernel w')"
    and p: "\<And>q. q \<noteq> lc_pid c \<Longrightarrow> procs w' q = procs w q" "proc_ok strict (kernel w') (lc_pid c) (procs w' (lc_pid c))"
      "in_fork_hook (procs w' (lc_pid c)) = in_fork_hook (procs w (lc_pid c))"
    and X: "\<And>x. x \<in> X \<Longrightarrow> call_key c = Some x"
    and pend: "\<And>fd. fd \<in> set (pending_fds (procs w (lc_pid c))) \<Longrightarrow> call_key c \<noteq> Some (FdRef (lc_pid c) fd) \<Longrightarrow>
      fd \<in> set (pending_fds (procs w' (lc_pid c)))"
  shows "sys_ok strict (w', cs @ ds)"
proof (rule sys_step [OF drop_call [OF ok] k])
  have "ref_pid x = lc_pid c" if "call_key c = Some x" for x using that by (auto simp: call_key_def)
  then show "\<And>x. x \<in> X \<Longrightarrow> ref_pid x = lc_pid c" using X by blast
  fix c' fd assume c': "c' \<in> set (cs @ ds)" "lc_pid c' = lc_pid c" "phase_fd (lc_phase c') = Some fd"
  then have "call_key c' = Some (FdRef (lc_pid c) fd)" by (simp add: call_key_def)
  then have "call_key c \<noteq> Some (FdRef (lc_pid c) fd)" using key_other [OF sys_okD(3) [OF ok] _ c'(1)] by metis
  then show "FdRef (lc_pid c) fd \<notin> X \<and> (fd \<in> set (pending_fds (procs w (lc_pid c))) \<longrightarrow> fd \<in> set (pending_fds (procs w' (lc_pid c))))"
    using X pend by blast
qed (use p sys_okD(3) [OF drop_call [OF ok]] in auto)

section \<open>The steps of a call\<close>

lemma world_kernel_simps [simp]: "kernel (w\<lparr>kernel := k\<rparr>) = k" "procs (w\<lparr>kernel := k\<rparr>) = procs w"
  by simp_all

lemma close_pending_ok:
  assumes ok: "sys_ok strict (w, cs @ c # ds)" and fd: "phase_fd (lc_phase c) = Some fd"
  shows "sys_ok strict (close_pending (lc_pid c) fd w, cs @ ds)"
proof -
  note d = sys_okD [OF ok]
  let ?p = "lc_pid c" and ?P = "procs w (lc_pid c)"
  have c: "call_ok w c" using d(4) by simp
  then have pend: "fd \<in> set (pending_fds ?P)" and hook: "\<not> in_fork_hook ?P" using fd by (auto simp: call_ok_def)
  have eq: "close_pending ?p fd w =
      put_proc ?p (?P\<lparr>pending_fds := removeAll fd (pending_fds ?P)\<rparr>) (w\<lparr>kernel := close_fds ?p {fd} (kernel w)\<rparr>)"
    using pend by (simp add: close_pending_def Let_def close_fd_def)
  have keeps: "kernel_keeps {FdRef ?p fd} (kernel w) (close_fds ?p {fd} (kernel w))"
    using close_fds_keeps [of ?p "{fd}"] by simp
  have "proc_ok strict (close_fds ?p {fd} (kernel w)) ?p (?P\<lparr>pending_fds := removeAll fd (pending_fds ?P)\<rparr>)"
  proof (rule proc_keeps [OF d(2) [of ?p] _ _ _ _ _ keeps])
    fix i l fd' assume "open_leases ?P i = Some l" "le_parent l = None" "le_fd l = Some fd'"
    from root_fd(1) [OF d(2) hook this] pend
    show "FdRef ?p fd' \<notin> {FdRef ?p fd} \<and>
        (fd' \<in> set (pending_fds (?P\<lparr>pending_fds := removeAll fd (pending_fds ?P)\<rparr>)) \<longrightarrow> fd' \<in> set (pending_fds ?P))" by auto
  qed simp_all
  then show ?thesis unfolding eq
    using close_fds_ok [OF d(1)] keeps fd
    by (intro call_step [OF ok, where X = "{FdRef ?p fd}"]) (simp_all add: call_key_def, blast?)
qed

lemma find_mem: "List.find P xs = Some x \<Longrightarrow> x \<in> set xs \<and> P x"
  by (metis find_Some_iff nth_mem)

lemma look_up_ok:
  assumes ok: "sys_ok strict (w, cs @ c # ds)" and ph: "lc_phase c = Looking" and res: "look_up n1 n2 c w = (r, w')"
  shows "sys_ok strict (w', continue_lease cs r ds)"
proof -
  note d = sys_okD [OF ok]
  let ?p = "lc_pid c" and ?P = "procs w (lc_pid c)"
  have hook: "\<not> in_fork_hook ?P" using d(4) [of c] by (simp add: call_ok_def)
  let ?owned = "filter (owned_by ?P ?p (lc_thread c) (lc_resource c)) (registered ?P)"
  have stop: ?thesis if "w' = w" "\<exists>e. r = Inl e" using that drop_call [OF ok] by (auto simp: continue_lease_def)
  have go: ?thesis if "w' = w" "r = Inr (c\<lparr>lc_phase := OpeningSidecar\<rparr>)"
    using that replace_call [OF ok, of "c\<lparr>lc_phase := OpeningSidecar\<rparr>"] hook by (simp add: continue_lease_def call_ok_idle)
  show ?thesis
  proof (cases "expired c n1 \<or> List.find (exclusive_root ?P) ?owned = None \<or> expired c n2")
    case True
    then show ?thesis using res stop go
      by (cases "expired c n1"; cases "List.find (exclusive_root ?P) ?owned") (auto simp: look_up_def Let_def split: if_splits)
  next
    case False
    then obtain i where i: "List.find (exclusive_root ?P) ?owned = Some i" and n: "\<not> expired c n1" "\<not> expired c n2" by auto
    then have "owned_by ?P ?p (lc_thread c) (lc_resource c) i" "exclusive_root ?P i" using find_mem [OF i] by simp_all
    then obtain lr where lr: "open_leases ?P i = Some lr" "le_parent lr = None" "le_exclusive lr" "le_resource lr = lc_resource c"
      "le_thread lr = lc_thread c"
      by (auto simp: owned_by_def exclusive_root_def open_lease_obj split: option.splits)
    let ?P' = "add_lease (new_lease c None (Some i)) (add_ref i 1 ?P)"
    have w': "w' = put_proc ?p ?P' w" "r = Inl (LeaseGot (next_obj ?P))"
      using res i n by (auto simp: look_up_def Let_def)
    have next': "next_obj (add_ref i 1 ?P) = next_obj ?P" "registered (add_ref i 1 ?P) = registered ?P" by (simp_all add: add_ref_def)
    have "i < next_obj ?P" using lease_okD(2) [OF d(2) hook lr(1)] .
    then have "proc_ok strict (kernel w) ?p ?P'"
      by (intro borrow_lease [OF d(2) hook _ lr(1-3), where l = "new_lease c None (Some i)"])
        (use lr in \<open>simp_all add: new_lease_def next' fun_upd_twist\<close>, simp_all add: add_lease_def add_ref_def)
    then have "sys_ok strict (w', cs @ ds)"
      using d(1) kernel_keeps_refl
      by (intro call_step [OF ok, where X = "{}"]) (simp_all add: w' add_lease_def add_ref_def)
    then show ?thesis by (simp add: continue_lease_def w')
  qed
qed

lemma open_step_ok:
  assumes ok: "sys_ok strict (w, cs @ c # ds)" and ph: "lc_phase c = OpeningSidecar" and res: "open_step now opened c w = (r, w')"
    and fresh: "\<And>fd. opened = Some fd \<Longrightarrow> FdRef (lc_pid c) fd \<notin> fst ` set (fd_table (kernel w))"
  shows "sys_ok strict (w', continue_lease cs r ds)"
proof (cases "expired c now \<or> opened = None")
  case True
  then show ?thesis using res drop_call [OF ok] by (auto simp: open_step_def continue_lease_def split: option.splits if_splits)
next
  case False
  then obtain fd where fd: "opened = Some fd" "\<not> expired c now" by auto
  note d = sys_okD [OF ok]
  let ?p = "lc_pid c" and ?P = "procs w (lc_pid c)" and ?c = "c\<lparr>lc_phase := Trying fd\<rparr>"
  let ?k = "open_sidecar ?p fd (lc_resource c) (kernel w)" and ?P' = "?P\<lparr>pending_fds := fd # pending_fds ?P\<rparr>"
  have hook: "\<not> in_fork_hook ?P" using d(4) [of c] by (simp add: call_ok_def)
  note k = open_sidecar_ok [OF d(1) fresh [OF fd(1)], of "lc_resource c"]
  have w': "w' = put_proc ?p ?P' (w\<lparr>kernel := ?k\<rparr>)" "r = Inr ?c" using res fd by (auto simp: open_step_def Let_def)
  have "proc_ok strict ?k ?p ?P'"
  proof (rule proc_keeps [OF d(2) _ _ _ _ _ k(2)])
    fix i l fd' assume "open_leases ?P i = Some l" "le_parent l = None" "le_fd l = Some fd'"
    from root_fd(2) [OF d(2) hook this] have "FdRef ?p fd' \<in> fst ` set (fd_table (kernel w))"
      using anchored_locked locked_opened opened_mem by blast
    then have "fd' \<noteq> fd" using fresh [OF fd(1)] by auto
    then show "FdRef ?p fd' \<notin> {} \<and> (fd' \<in> set (pending_fds ?P') \<longrightarrow> fd' \<in> set (pending_fds ?P))" by simp
  qed simp_all
  then have ok': "sys_ok strict (w', cs @ ds)"
    using k(1,2) by (intro call_step [OF ok, where X = "{}"]) (simp_all add: w')
  have "call_key c' \<noteq> Some (FdRef ?p fd)" if "c' \<in> set (cs @ ds)" for c'
  proof
    assume key: "call_key c' = Some (FdRef ?p fd)"
    then have f: "phase_fd (lc_phase c') = Some fd" "lc_pid c' = ?p" by (auto simp: call_key_def)
    have "call_ok w c'" using d(4) that by auto
    then have "FdRef ?p fd \<in> fst ` set (fd_table (kernel w))"
      using phase_opened [OF _ f(1)] f(2) opened_mem unfolding call_ok_def by metis
    then show False using fresh [OF fd(1)] by blast
  qed
  moreover have "call_ok w' ?c" using k(3) hook by (simp add: call_ok_def w')
  ultimately have "sys_ok strict (w', cs @ ?c # ds)" by (intro insert_call [OF ok']) auto
  then show ?thesis by (simp add: w'(2) continue_lease_def)
qed

lemma desc_of_mem:
  assumes "kernel_ok (kernel w)" "(FdRef p fd, d) \<in> set (fd_table (kernel w))"
  shows "desc_of w p fd = d"
  using assms by (simp add: desc_of_def kernel_okD(1))

lemma fail_call:
  assumes "sys_ok strict (w, cs @ c # ds)" "phase_fd (lc_phase c) = Some fd" "phase_fd ph = Some fd" "ph = Failing fd e \<or> ph = Stale fd \<or> ph = Trying fd"
  shows "sys_ok strict (w, cs @ c\<lparr>lc_phase := ph\<rparr> # ds)" "sys_ok strict (w, cs @ c\<lparr>lc_first := b, lc_phase := ph\<rparr> # ds)"
proof -
  have c: "call_ok w c" using sys_okD(4) [OF assms(1)] by simp
  then have "fd_opened (kernel w) (FdRef (lc_pid c) fd)" using phase_opened assms(2) unfolding call_ok_def by blast
  then have "call_ok w (c\<lparr>lc_phase := ph\<rparr>)" "call_ok w (c\<lparr>lc_first := b, lc_phase := ph\<rparr>)"
    using c assms(2-4) by (auto simp: call_ok_def)
  then show "sys_ok strict (w, cs @ c\<lparr>lc_phase := ph\<rparr> # ds)" "sys_ok strict (w, cs @ c\<lparr>lc_first := b, lc_phase := ph\<rparr> # ds)"
    using replace_call [OF assms(1)] assms(2,3) by (simp_all add: call_key_def)
qed

lemma flock_step_ok:
  assumes ok: "sys_ok strict (w, cs @ c # ds)" and ph: "lc_phase c = Trying fd" and res: "flock_step n1 n2 b fd c w = (r, w')"
  shows "sys_ok strict (w', continue_lease cs r ds)"
proof -
  note d = sys_okD [OF ok]
  note fail = fail_call [OF ok, of fd, unfolded ph phase_fd.simps, OF refl]
  let ?p = "lc_pid c" and ?P = "procs w (lc_pid c)" and ?f = "flock_desc (desc_of w (lc_pid c) fd) (call_mode c) (kernel w)"
  have c: "call_ok w c" using d(4) by simp
  then obtain e where e: "(FdRef ?p fd, e) \<in> set (fd_table (kernel w))" "desc_pid e = ?p"
    by (auto simp: call_ok_def ph fd_opened_def)
  show ?thesis
  proof (cases "expired c n1 \<or> \<not> b \<or> ?f = None")
    case True
    have same: "c\<lparr>lc_first := False, lc_phase := Trying fd\<rparr> = c\<lparr>lc_first := False\<rparr>" using ph by (cases c) simp
    have stay: "sys_ok strict (w, cs @ c\<lparr>lc_first := False\<rparr> # ds)" using fail(2) [of "Trying fd" _ False] same by simp
    show ?thesis using True res fail(1) [of "Failing fd _"] fail(2) [of "Failing fd _"] stay
      by (auto simp: flock_step_def continue_lease_def split: if_splits)
  next
    case False
    then obtain k where k: "?f = Some k" by blast
    then have w': "w' = w\<lparr>kernel := k\<rparr>" "r = Inr (c\<lparr>lc_phase := Granted fd\<rparr>)" using res False by (auto simp: flock_step_def)
    have "?f = flock_desc e (call_mode c) (kernel w)" using desc_of_mem [OF d(1) e(1)] by simp
    then have k': "flock_desc e (call_mode c) (kernel w) = Some k" using k by simp
    note f = flock_ok [OF d(1) k' e(1)] 
    have pid: "desc_pid e = ref_pid (FdRef ?p fd)" using e(2) by simp
    have "proc_ok strict k ?p ?P"
    proof (rule proc_keeps [OF d(2) _ _ _ _ _ f(5) [OF pid]])
      fix i l fd' assume "\<not> in_fork_hook ?P" "open_leases ?P i = Some l" "le_parent l = None" "le_fd l = Some fd'"
      from root_fd(1) [OF d(2) this] have "fd' \<noteq> fd" using c by (auto simp: call_ok_def ph)
      then show "FdRef ?p fd' \<notin> {FdRef ?p fd} \<and> (fd' \<in> set (pending_fds ?P) \<longrightarrow> fd' \<in> set (pending_fds ?P))" by simp
    qed simp_all
    then have ok': "sys_ok strict (w', cs @ ds)"
      using f(1) [OF pid] f(5) [OF pid] by (intro call_step [OF ok, where X = "{FdRef ?p fd}"]) (simp_all add: w' call_key_def ph)
    have "call_ok w' (c\<lparr>lc_phase := Granted fd\<rparr>)"
      using c f(4) [OF pid] by (simp add: call_ok_def ph w' call_mode_def)
    moreover have "call_key c = Some (FdRef ?p fd)" by (simp add: call_key_def ph)
    then have "call_key c' \<noteq> Some (FdRef ?p fd)" if "c' \<in> set (cs @ ds)" for c' using key_other [OF d(3) _ that] by blast
    ultimately have "sys_ok strict (w', cs @ c\<lparr>lc_phase := Granted fd\<rparr> # ds)" by (intro insert_call [OF ok']) auto
    then show ?thesis by (simp add: w'(2) continue_lease_def)
  qed
qed

lemma recheck_step_ok:
  assumes ok: "sys_ok strict (w, cs @ c # ds)" and ph: "lc_phase c = Granted fd" and res: "recheck_step n1 n2 b fd c w = (r, w')"
  shows "sys_ok strict (w', continue_lease cs r ds)"
proof -
  note d = sys_okD [OF ok]
  note fail = fail_call [OF ok, of fd, unfolded ph phase_fd.simps, OF refl]
  have c: "call_ok w c" using d(4) by simp
  have "sys_ok strict (w, cs @ c\<lparr>lc_phase := Publishing fd\<rparr> # ds)" if held: "sidecar_is_held w c fd"
  proof -
    obtain e where e: "(FdRef (lc_pid c) fd, e) \<in> set (fd_table (kernel w))" "desc_pid e = lc_pid c" "(e, call_mode c) \<in> set (desc_locks (kernel w))"
      using c by (auto simp: call_ok_def ph fd_locked_def)
    then have "anchored (kernel w) (FdRef (lc_pid c) fd) (call_mode c) (lc_resource c)"
      using held desc_of_mem [OF d(1) e(1)] by (auto simp: sidecar_is_held_def anchored_def)
    then have "call_ok w (c\<lparr>lc_phase := Publishing fd\<rparr>)" using c by (simp add: call_ok_def ph call_mode_def)
    then show ?thesis by (rule replace_call [OF ok]) (simp add: call_key_def ph)
  qed
  then show ?thesis using res fail(1) [of "Failing fd _"] fail(1) [of "Stale fd"]
    by (auto simp: recheck_step_def continue_lease_def split: if_splits)
qed

lemma publish_step_ok:
  assumes ok: "sys_ok strict (w, cs @ c # ds)" and ph: "lc_phase c = Publishing fd" and res: "publish_step n fd c w = (r, w')"
  shows "sys_ok strict (w', continue_lease cs r ds)"
proof (cases "expired c n")
  case True
  then show ?thesis using res fail_call(1) [OF ok, of fd "Failing fd _"] ph by (auto simp: publish_step_def continue_lease_def)
next
  case False
  note d = sys_okD [OF ok]
  let ?p = "lc_pid c" and ?P = "procs w (lc_pid c)" and ?l = "new_lease c (Some fd) None"
  let ?P' = "(add_lease ?l ?P)\<lparr>pending_fds := removeAll fd (pending_fds ?P)\<rparr>"
  have w': "w' = put_proc ?p ?P' w" "r = Inl (LeaseGot (next_obj ?P))" using res False by (auto simp: publish_step_def Let_def)
  have c: "call_ok w c" using d(4) by simp
  then have hook: "\<not> in_fork_hook ?P" and pend: "fd \<in> set (pending_fds ?P)"
    and anch: "anchored (kernel w) (FdRef ?p fd) (mode_of ?l) (le_resource ?l)"
    by (auto simp: call_ok_def ph new_lease_def mode_of_def call_mode_def)
  have "proc_ok strict (kernel w) ?p ?P'"
    by (rule add_root [OF d(2) hook _ _ _ _ _ _ pend anch]) (simp_all add: new_lease_def, simp_all add: add_lease_def)
  then have "sys_ok strict (w', cs @ ds)"
    using d(1) kernel_keeps_refl by (intro call_step [OF ok, where X = "{}"]) (auto simp: w' call_key_def ph add_lease_def)
  then show ?thesis by (simp add: continue_lease_def w')
qed

lemma stale_step_ok:
  assumes ok: "sys_ok strict (w, cs @ c # ds)" and ph: "lc_phase c = Stale fd" and res: "stale_step n fd c w = (r, w')"
  shows "sys_ok strict (w', continue_lease cs r ds)"
proof -
  let ?w = "close_pending (lc_pid c) fd w" and ?c = "c\<lparr>lc_first := False, lc_phase := OpeningSidecar\<rparr>"
  have ok': "sys_ok strict (?w, cs @ ds)" by (rule close_pending_ok [OF ok]) (simp add: ph)
  have "\<not> in_fork_hook (procs ?w (lc_pid c))"
    using sys_okD(4) [OF ok, of c] by (simp add: call_ok_def close_pending_def Let_def)
  then have "sys_ok strict (?w, cs @ ?c # ds)" by (intro insert_call [OF ok' call_ok_idle]) simp_all
  then show ?thesis using res ok' by (auto simp: stale_step_def continue_lease_def split: if_splits)
qed

lemma next_step_ok:
  assumes "sys_ok strict (w, cs @ c # ds)" "lease_next n1 n2 opened ok c w = (r, w')"
    and "\<And>fd. opened = Some fd \<Longrightarrow> FdRef (lc_pid c) fd \<notin> fst ` set (fd_table (kernel w))"
  shows "sys_ok strict (w', continue_lease cs r ds)"
proof (cases "lc_phase c")
  case (Failing fd e)
  then show ?thesis using assms(2) close_pending_ok [OF assms(1), of fd] by (auto simp: lease_next_def continue_lease_def)
qed (use assms look_up_ok open_step_ok flock_step_ok recheck_step_ok stale_step_ok publish_step_ok in
    \<open>fastforce simp: lease_next_def\<close>)+

section \<open>Release, finalizers, connections\<close>

text \<open>A step on the memory of a process that leaves its pending descriptors alone.\<close>

lemma proc_step:
  assumes ok: "sys_ok strict (w, cs)" and eq: "w' = put_proc p P' (w\<lparr>kernel := k\<rparr>)"
    and k: "kernel_ok k" "kernel_keeps (FdRef p ` F) (kernel w) k"
    and P: "proc_ok strict k p P'" "in_fork_hook P' = in_fork_hook (procs w p)" "pending_fds P' = pending_fds (procs w p)"
    and F: "\<And>fd. fd \<in> F \<Longrightarrow> fd \<notin> set (pending_fds (procs w p))"
  shows "sys_ok strict (w', cs)"
proof (rule sys_step [OF ok, where p = p and X = "FdRef p ` F"])
  fix c fd assume c: "c \<in> set cs" "lc_pid c = p" "phase_fd (lc_phase c) = Some fd"
  then have "fd \<in> set (pending_fds (procs w p))" using sys_okD(4) [OF ok c(1)] by (auto simp: call_ok_def)
  then show "FdRef p fd \<notin> FdRef p ` F \<and> (fd \<in> set (pending_fds (procs w p)) \<longrightarrow> fd \<in> set (pending_fds (procs w' p)))"
    using F P(3) by (auto simp: eq)
qed (use k P sys_okD(3) [OF ok] in \<open>auto simp: eq\<close>)

lemma conns_ok: "sys_ok strict (w, cs) \<Longrightarrow> sys_ok strict (put_proc p ((procs w p)\<lparr>conns := f\<rparr>) w, cs)"
proof -
  assume ok: "sys_ok strict (w, cs)"
  note d = sys_okD [OF ok]
  have "proc_ok strict (kernel w) p ((procs w p)\<lparr>conns := f\<rparr>)"
    by (rule proc_keeps [OF d(2) _ _ _ _ _ kernel_keeps_refl [of "{}"]]) simp_all
  then show ?thesis
    by (intro proc_step [OF ok, where F = "{}" and k = "kernel w" and p = p and P' = "(procs w p)\<lparr>conns := f\<rparr>"])
      (simp_all add: d(1) kernel_keeps_refl)
qed

lemma bind_ok:
  assumes ok: "sys_ok strict (w, cs)" and hook: "\<not> in_fork_hook (procs w p)"
  shows "sys_ok strict (snd (bind_connection p tid i x w), cs)"
proof -
  note d = sys_okD [OF ok]
  let ?P = "procs w p"
  show ?thesis
  proof (cases "snd (bind_connection p tid i x w) = w")
    case False
    then obtain l where l: "lease_objs ?P i = Some l" "\<not> le_closed l" and
      eq: "snd (bind_connection p tid i x w) =
        put_proc p ((put_lease i (l\<lparr>le_conn := Some x\<rparr>) ?P)\<lparr>bound_ids := List.insert i (bound_ids ?P)\<rparr>) w"
      by (auto simp: bind_connection_def Let_def split: option.splits if_splits)
    have "proc_ok strict (kernel w) p ((put_lease i (l\<lparr>le_conn := Some x\<rparr>) ?P)\<lparr>bound_ids := List.insert i (bound_ids ?P)\<rparr>)"
      by (rule bind_lease [OF d(2) hook _ _, of _ i l "Some x"]) (use l in \<open>simp_all add: open_lease_obj\<close>, simp_all add: put_lease_def)
    then show ?thesis
      by (intro proc_step [OF ok, where F = "{}" and k = "kernel w" and p = p and
          P' = "(put_lease i (l\<lparr>le_conn := Some x\<rparr>) ?P)\<lparr>bound_ids := List.insert i (bound_ids ?P)\<rparr>"])
        (simp_all add: eq d(1) kernel_keeps_refl put_lease_def)
  qed (simp add: ok)
qed

lemma drop_fd_eq:
  "lease_objs P i = Some l \<Longrightarrow> le_fd l = Some fd \<Longrightarrow>
     drop_fd p i (put_proc p P w) = put_proc p (put_lease i (l\<lparr>le_fd := None\<rparr>) P) (w\<lparr>kernel := close_fds p {fd} (kernel w)\<rparr>)"
  by (simp add: drop_fd_def put_proc_def close_fd_def)

lemma no_borrower:
  assumes "proc_ok strict k p P" "\<not> in_fork_hook P" "open_leases P i = Some l" "le_parent l = None" "le_refs l \<le> 1"
  shows "le_refs l = 1" "borrowers (open_leases P) i = {}"
proof -
  have "1 + int (card (borrowers (open_leases P) i)) \<le> le_refs l" using lease_root [OF assms(1-4)] by (simp add: root_ok_def)
  then have "card (borrowers (open_leases P) i) = 0" "le_refs l = 1" using assms(5) by simp_all
  then show "le_refs l = 1" "borrowers (open_leases P) i = {}" using finite_borrowers [OF assms(1)] by simp_all
qed

text \<open>What a release that is not refused does to the memory and the kernel.\<close>

lemma finish_root:
  assumes "proc_ok strict (kernel w) p (procs w p)" "\<not> in_fork_hook (procs w p)" "open_leases (procs w p) i = Some l"
    and "le_parent l = None" "le_refs l = 1"
  shows "\<exists>fd P'. le_fd l = Some fd \<and> fd \<notin> set (pending_fds (procs w p)) \<and>
    finish_release p i l w = put_proc p P' (w\<lparr>kernel := close_fds p {fd} (kernel w)\<rparr>) \<and>
    open_leases P' = (open_leases (procs w p))(i := None) \<and> next_obj P' = next_obj (procs w p) \<and>
    pending_fds P' = pending_fds (procs w p) \<and> bound_ids P' = removeAll i (bound_ids (procs w p)) \<and>
    registered P' = removeAll i (registered (procs w p)) \<and> in_fork_hook P' = in_fork_hook (procs w p)"
proof -
  let ?P = "procs w p" and ?l = "l\<lparr>le_closed := True, le_conn := None\<rparr>"
  obtain fd where fd: "le_fd l = Some fd" "fd \<notin> set (pending_fds ?P)"
    using lease_root [OF assms(1-4)] by (auto simp: root_ok_def)
  let ?P1 = "(add_ref i (- 1) (put_lease i ?l ?P))\<lparr>bound_ids := removeAll i (bound_ids ?P), registered := removeAll i (removeAll i (registered ?P))\<rparr>"
  have obj: "lease_objs ?P1 i = Some (?l\<lparr>le_refs := 0\<rparr>)" using assms(5) by (simp add: add_ref_def put_lease_def)
  have "finish_release p i l w = drop_fd p i (put_proc p ?P1 w)"
    using assms(4,5) by (simp add: finish_release_def Let_def add_ref_def put_lease_def)
  also have "\<dots> = put_proc p (put_lease i (l\<lparr>le_closed := True, le_conn := None, le_refs := 0, le_fd := None\<rparr>) ?P1)
      (w\<lparr>kernel := close_fds p {fd} (kernel w)\<rparr>)"
    using drop_fd_eq [OF obj, of fd p w] fd(1) by simp
  finally show ?thesis using fd
    by (intro exI [of _ fd] exI [of _ "put_lease i (l\<lparr>le_closed := True, le_conn := None, le_refs := 0, le_fd := None\<rparr>) ?P1"])
      (simp add: put_lease_def [of _ _ "?P1"] , simp add: add_ref_def put_lease_def open_leases_def fun_eq_iff)
qed

lemma finish_borrowed:
  assumes "proc_ok strict (kernel w) p (procs w p)" "\<not> in_fork_hook (procs w p)" "open_leases (procs w p) i = Some l" "le_parent l = Some r"
  shows "\<exists>lr P'. open_leases (procs w p) r = Some lr \<and> finish_release p i l w = put_proc p P' w \<and>
    open_leases P' = (open_leases (procs w p))(i := None, r \<mapsto> lr\<lparr>le_refs := le_refs lr - 1\<rparr>) \<and> next_obj P' = next_obj (procs w p) \<and>
    pending_fds P' = pending_fds (procs w p) \<and> bound_ids P' = removeAll i (bound_ids (procs w p)) \<and>
    registered P' = removeAll i (registered (procs w p)) \<and> in_fork_hook P' = in_fork_hook (procs w p)"
proof -
  let ?P = "procs w p" and ?l = "l\<lparr>le_closed := True, le_conn := None\<rparr>"
  obtain lr where lr: "open_leases ?P r = Some lr" "le_parent lr = None"
    using lease_okD(5) [OF assms] by (auto simp: borrower_ok_def)
  have ne: "r \<noteq> i" using lr assms(3,4) by auto
  have "i \<in> borrowers (open_leases ?P) r" using assms(3,4) by (auto simp: borrowers_def)
  then have "0 < card (borrowers (open_leases ?P) r)" using finite_borrowers [OF assms(1)] by (auto simp: card_gt_0_iff)
  then have refs: "le_refs lr - 1 \<noteq> 0" using lease_root [OF assms(1,2) lr] by (auto simp: root_ok_def)
  let ?P1 = "(add_ref r (- 1) (put_lease i ?l ?P))\<lparr>registered := removeAll i (registered ?P), bound_ids := removeAll i (bound_ids ?P)\<rparr>"
  have "lease_objs ?P1 r = Some (lr\<lparr>le_refs := le_refs lr - 1\<rparr>)"
    using lr ne by (simp add: add_ref_def put_lease_def open_lease_obj)
  then have "finish_release p i l w = put_proc p ?P1 w"
    using assms(4) refs by (simp add: finish_release_def Let_def)
  moreover have "open_leases ?P1 = (open_leases ?P)(i := None, r \<mapsto> lr\<lparr>le_refs := le_refs lr - 1\<rparr>)"
    using lr ne by (simp add: fun_upd_twist)
  ultimately show ?thesis using lr(1) by (intro exI [of _ lr] exI [of _ ?P1]) (simp add: add_ref_def put_lease_def)
qed

lemma finish_ok:
  assumes ok: "sys_ok strict (w, cs)" and hook: "\<not> in_fork_hook (procs w p)" and l: "open_leases (procs w p) i = Some l"
    and free: "le_parent l = None \<Longrightarrow> le_refs l \<le> 1"
  shows "sys_ok strict (finish_release p i l w, cs) \<and> open_leases (procs (finish_release p i l w) p) i = None \<and>
    in_fork_hook (procs (finish_release p i l w) p) = in_fork_hook (procs w p)"
proof -
  note d = sys_okD [OF ok]
  let ?P = "procs w p"
  show ?thesis
  proof (cases "le_parent l")
    case None
    note nb = no_borrower [OF d(2) hook l None free [OF None]]
    obtain fd P' where fd: "le_fd l = Some fd" "fd \<notin> set (pending_fds ?P)"
      and eq: "finish_release p i l w = put_proc p P' (w\<lparr>kernel := close_fds p {fd} (kernel w)\<rparr>)"
      and P': "open_leases P' = (open_leases ?P)(i := None)" "next_obj P' = next_obj ?P" "pending_fds P' = pending_fds ?P"
        "bound_ids P' = removeAll i (bound_ids ?P)" "registered P' = removeAll i (registered ?P)" "in_fork_hook P' = in_fork_hook ?P"
      using finish_root [OF d(2) hook l None nb(1)] by blast
    note keeps = close_fds_keeps [of p "{fd}" "kernel w"]
    have "proc_ok strict (close_fds p {fd} (kernel w)) p P'"
      by (rule shut_lease [OF d(2) hook P'(6,1) nb(2) _ P'(2,3) _ _ keeps]) (use None l fd P' in auto)
    then have "sys_ok strict (finish_release p i l w, cs)"
      using proc_step [OF ok eq close_fds_ok [OF d(1)] keeps _ P'(6,3)] fd(2) by blast
    then show ?thesis by (simp add: eq P')
  next
    case (Some r)
    obtain lr P' where lr: "open_leases ?P r = Some lr" and eq: "finish_release p i l w = put_proc p P' w"
      and P': "open_leases P' = (open_leases ?P)(i := None, r \<mapsto> lr\<lparr>le_refs := le_refs lr - 1\<rparr>)" "next_obj P' = next_obj ?P"
        "pending_fds P' = pending_fds ?P" "bound_ids P' = removeAll i (bound_ids ?P)" "registered P' = removeAll i (registered ?P)"
        "in_fork_hook P' = in_fork_hook ?P"
      using finish_borrowed [OF d(2) hook l Some] by blast
    have "r \<noteq> i" using lease_okD(5) [OF d(2) hook l Some] l Some by (auto simp: borrower_ok_def)
    then have none: "open_leases P' i = None" by (simp add: P')
    have "proc_ok strict (kernel w) p P'"
      by (rule unborrow_lease [OF d(2) hook P'(6) l Some lr P'(1-3)]) (auto simp: P')
    then have "sys_ok strict (finish_release p i l w, cs)"
      by (intro proc_step [OF ok, where F = "{}" and k = "kernel w" and p = p and P' = P']) (simp_all add: eq d(1) kernel_keeps_refl P')
    then show ?thesis using none by (simp add: eq P')
  qed
qed

lemma release_lease_ok:
  assumes ok: "sys_ok strict (w, cs)" and hook: "\<not> in_fork_hook (procs w p)"
  shows "sys_ok strict (snd (release_lease p tid i w), cs)"
proof (cases "snd (release_lease p tid i w) = w")
  case False
  then obtain l where l: "open_leases (procs w p) i = Some l" "le_pid l \<noteq> p \<or> \<not> refuses_release (procs w p) tid l"
    by (auto simp: release_lease_def Let_def open_lease_obj split: option.splits if_splits)
  have "le_pid l = p" using lease_okD(1) [OF sys_okD(2) [OF ok] hook l(1)] .
  then have "\<not> refuses_release (procs w p) tid l" "snd (release_lease p tid i w) = finish_release p i l w"
    using l by (auto simp: release_lease_def Let_def open_lease_obj)
  then show ?thesis using finish_ok [OF ok hook l(1)] by (auto simp: refuses_release_def)
qed (simp add: ok)

lemma forget_eq: "forget_lease p i (put_proc p P w) =
    put_proc p (P\<lparr>lease_objs := (lease_objs P)(i := None), registered := removeAll i (registered P)\<rparr>) w"
  by (simp add: forget_lease_def put_proc_def)

text \<open>An object that nothing refers to may go, whether or not it is closed, but in strict runs no open borrower may.\<close>

lemma forget_ok:
  assumes ok: "sys_ok strict (w, cs)" and hook: "\<not> in_fork_hook (procs w p)"
    and none: "borrowers (open_leases (procs w p)) i = {}"
    and root: "\<And>l. open_leases (procs w p) i = Some l \<Longrightarrow> strict \<Longrightarrow> le_parent l = None"
  shows "sys_ok strict (forget_lease p i w, cs)"
proof -
  note d = sys_okD [OF ok]
  let ?P' = "(procs w p)\<lparr>lease_objs := (lease_objs (procs w p))(i := None), registered := removeAll i (registered (procs w p))\<rparr>"
  have open': "open_leases ?P' = (open_leases (procs w p))(i := None)" by (auto simp: open_leases_def fun_eq_iff)
  have keeps: "kernel_keeps (FdRef p ` {}) (kernel w) (kernel w)" by (rule kernel_keeps_refl)
  have "proc_ok strict (kernel w) p ?P'"
    by (rule shut_lease [OF d(2) hook _ open' none root _ _ _ _ keeps]) auto
  then show ?thesis
    by (intro proc_step [OF ok, where F = "{}" and k = "kernel w" and p = p and P' = ?P'])
      (simp_all add: forget_lease_def Let_def d(1) kernel_keeps_refl)
qed

lemma closed_no_borrower:
  assumes "proc_ok strict k p P" "\<not> in_fork_hook P" "open_leases P i = None"
  shows "borrowers (open_leases P) i = {}"
proof -
  have False if "open_leases P j = Some l" "le_parent l = Some i" for j l
    using lease_okD(5) [OF assms(1,2) that] assms(3) by (simp add: borrower_ok_def)
  then show ?thesis by (auto simp: borrowers_def)
qed

lemma unreachable_borrowers: "unreachable strict tid i P \<Longrightarrow> borrowers (open_leases P) i = {}"
  by (auto simp: unreachable_def borrowers_def open_lease_obj)

lemma release_cases:
  assumes "proc_ok strict k p (procs w p)" "\<not> in_fork_hook (procs w p)"
  shows "(open_leases (procs w p) i = None \<and> release_lease p tid i w = (None, w)) \<or>
    (\<exists>l. open_leases (procs w p) i = Some l \<and>
       (if refuses_release (procs w p) tid l then release_lease p tid i w = (Some LeaseOwnership, w)
        else release_lease p tid i w = (None, finish_release p i l w)))"
proof (cases "open_leases (procs w p) i")
  case None
  then show ?thesis by (auto simp: release_lease_def open_leases_def Let_def split: option.splits if_splits)
next
  case (Some l)
  have "le_pid l = p" using lease_okD(1) [OF assms Some] .
  with Some show ?thesis by (auto simp: release_lease_def Let_def open_lease_obj)
qed

lemma finalize_refused:
  assumes ok: "sys_ok strict (w, cs)" and hook: "\<not> in_fork_hook (procs w p)" and un: "unreachable strict tid i (procs w p)"
    and l: "open_leases (procs w p) i = Some l" "refuses_release (procs w p) tid l"
    and eq: "release_lease p tid i w = (Some LeaseOwnership, w)"
  shows "sys_ok strict (finalize_lease p tid i w, cs)"
proof -
  note d = sys_okD [OF ok]
  let ?P = "procs w p" and ?l = "l\<lparr>le_closed := True, le_refs := 0\<rparr>"
  note none = unreachable_borrowers [OF un]
  have conn: "le_conn l = None" using lease_okD(3) [OF d(2) hook l(1)] un unfolding unreachable_def by blast
  have obj: "lease_objs ?P i = Some l" "\<not> le_closed l" using l(1) by (simp_all add: open_lease_obj)
  show ?thesis
  proof (cases "le_parent l = None \<and> le_refs l = 1")
    case True
    then have root: "le_parent l = None" by simp
    obtain fd where fd: "le_fd l = Some fd" "fd \<notin> set (pending_fds ?P)"
      using lease_root [OF d(2) hook l(1) root] by (auto simp: root_ok_def)
    let ?P1 = "(put_lease i ?l ?P)\<lparr>registered := removeAll i (registered ?P)\<rparr>"
    let ?P2 = "put_lease i (?l\<lparr>le_fd := None\<rparr>) ?P1"
    let ?P3 = "?P2\<lparr>lease_objs := (lease_objs ?P2)(i := None), registered := removeAll i (registered ?P2)\<rparr>"
    have "lease_objs ?P1 i = Some ?l" by (simp add: put_lease_def)
    from drop_fd_eq [OF this, of fd p w] fd(1) have
      "drop_fd p i (put_proc p ?P1 w) = put_proc p ?P2 (w\<lparr>kernel := close_fds p {fd} (kernel w)\<rparr>)" by simp
    moreover have "finalize_lease p tid i w = forget_lease p i (drop_fd p i (put_proc p ?P1 w))"
      using True conn obj by (simp add: finalize_lease_def eq Let_def)
    ultimately have fin: "finalize_lease p tid i w = put_proc p ?P3 (w\<lparr>kernel := close_fds p {fd} (kernel w)\<rparr>)"
      by (simp only: forget_eq)
    have open': "open_leases ?P3 = (open_leases ?P)(i := None)" by (auto simp: open_leases_def put_lease_def fun_eq_iff)
    have P3: "in_fork_hook ?P3 = in_fork_hook ?P" "next_obj ?P3 = next_obj ?P" "pending_fds ?P3 = pending_fds ?P"
      "bound_ids ?P3 = bound_ids ?P" "set (registered ?P3) = set (registered ?P) - {i}" by (simp_all add: put_lease_def)
    note keeps = close_fds_keeps [of p "{fd}" "kernel w"]
    have "proc_ok strict (close_fds p {fd} (kernel w)) p ?P3"
      by (rule shut_lease [OF d(2) hook P3(1) open' none _ P3(2,3) _ _ keeps]) (use root l(1) fd P3 in auto)
    then show ?thesis using proc_step [OF ok fin close_fds_ok [OF d(1)] keeps _ P3(1,3)] fd(2) by blast
  next
    case False
    then have fin: "finalize_lease p tid i w = forget_lease p i w"
      using obj by (auto simp: finalize_lease_def eq Let_def)
    have "le_parent l' = None" if "open_leases ?P i = Some l'" strict for l'
    proof (rule ccontr)
      assume "le_parent l' \<noteq> None"
      then have "le_thread l = tid" "le_parent l \<noteq> None" using that l(1) un obj(1) by (auto simp: unreachable_def)
      then show False using l(2) conn by (simp add: refuses_release_def conn_is_live_def)
    qed
    then show ?thesis unfolding fin by (rule forget_ok [OF ok hook none])
  qed
qed

lemma finalize_ok:
  assumes ok: "sys_ok strict (w, cs)" and hook: "\<not> in_fork_hook (procs w p)" and un: "unreachable strict tid i (procs w p)"
  shows "sys_ok strict (finalize_lease p tid i w, cs)"
proof -
  note r = release_cases [OF sys_okD(2) [OF ok] hook, of i tid]
  consider "open_leases (procs w p) i = None" "release_lease p tid i w = (None, w)"
    | l where "open_leases (procs w p) i = Some l" "\<not> refuses_release (procs w p) tid l"
        "release_lease p tid i w = (None, finish_release p i l w)"
    | l where "open_leases (procs w p) i = Some l" "refuses_release (procs w p) tid l" "release_lease p tid i w = (Some LeaseOwnership, w)"
    using r by (auto split: if_splits)
  then show ?thesis
  proof cases
    case 1
    have "sys_ok strict (forget_lease p i w, cs)"
      by (rule forget_ok [OF ok hook closed_no_borrower [OF sys_okD(2) [OF ok] hook 1(1)]]) (simp add: 1(1))
    then show ?thesis by (simp add: finalize_lease_def 1)
  next
    case (2 l)
    have free: "le_parent l = None \<Longrightarrow> le_refs l \<le> 1" using 2(2) by (auto simp: refuses_release_def)
    let ?w = "finish_release p i l w"
    have ok': "sys_ok strict (?w, cs)" and none: "open_leases (procs ?w p) i = None" and hook': "\<not> in_fork_hook (procs ?w p)"
      using finish_ok [OF ok hook 2(1) free] hook by auto
    have "sys_ok strict (forget_lease p i ?w, cs)"
      by (rule forget_ok [OF ok' hook' closed_no_borrower [OF sys_okD(2) [OF ok'] hook' none]]) (simp add: none)
    then show ?thesis by (simp add: finalize_lease_def 2(3))
  next
    case (3 l)
    show ?thesis by (rule finalize_refused [OF ok hook un 3])
  qed
qed

section \<open>Fork, exit, outsiders\<close>

text \<open>A step that replaces the memory of a process that has no call.\<close>

lemma memory_step:
  assumes ok: "sys_ok strict (w, cs)" and eq: "w' = put_proc p P' (w\<lparr>kernel := k\<rparr>)"
    and k: "kernel_ok k" "kernel_keeps X (kernel w) k" "\<And>x. x \<in> X \<Longrightarrow> ref_pid x = p"
    and P: "proc_ok strict k p P'" and cs: "set cs' \<subseteq> set cs" "distinct (List.map_filter call_key cs')" "p \<notin> lc_pid ` set cs'"
  shows "sys_ok strict (w', cs')"
proof -
  note d = sys_okD [OF ok]
  have "proc_ok strict k q (procs w' q)" for q
  proof (cases "q = p")
    case False
    have "proc_ok strict k q (procs w q)"
      by (rule proc_keeps [OF d(2) _ _ _ _ _ k(2)]) (use False k(3) in force)+
    then show ?thesis using False by (simp add: eq)
  qed (simp add: eq P)
  moreover have "call_ok w' c" if "c \<in> set cs'" for c
  proof -
    have c: "call_ok w c" "lc_pid c \<noteq> p" using that cs d(4) by auto
    then have "FdRef (lc_pid c) fd \<notin> X" for fd using k(3) by force
    then have "phase_ok k (lc_pid c) (call_mode c) (lc_resource c) (lc_phase c)"
      by (intro phase_keeps [OF _ k(2)]) (use c(1) in \<open>auto simp: call_ok_def\<close>)
    then show ?thesis using c by (simp add: call_ok_def eq)
  qed
  ultimately show ?thesis using k(1) cs(2) by (simp add: sys_ok_def eq)
qed

lemma fork_ok:
  assumes ok: "sys_ok strict (w, cs)" and new: "child \<noteq> pid" "child \<notin> ref_pid ` fst ` set (fd_table (kernel w))" "child \<notin> lc_pid ` set cs"
  shows "sys_ok strict (fork_process pid child w, cs)"
proof -
  note d = sys_okD [OF ok]
  note k = fork_kernel_ok [OF d(1) new(1,2)]
  have "proc_ok strict k child ((procs w pid)\<lparr>in_fork_hook := True\<rparr>)" for k
    using d(2) [of pid] by (simp add: proc_ok_def)
  then show ?thesis
    by (intro memory_step [OF ok _ k(1,2)]) (use new(3) d(3) in \<open>auto simp: fork_process_def Let_def put_proc_def\<close>)
qed

lemma hook_opens: "proc_ok strict k p P \<Longrightarrow> open_leases (P\<lparr>in_fork_hook := b, registered := r, bound_ids := s, pending_fds := t,
    fork_quarantine := q, lease_objs := (\<lambda>i. if i \<in> set (registered P) then map_option invalidate (lease_objs P i) else lease_objs P i)\<rparr>) = Map.empty"
  by (auto simp: proc_ok_def open_leases_def fun_eq_iff invalidate_def dom_def subset_iff split: option.splits if_splits)

lemma hook_ok:
  assumes ok: "sys_ok strict (w, cs)" and hook: "in_fork_hook (procs w p)"
  shows "sys_ok strict (after_fork_child p w, cs)"
proof -
  note d = sys_okD [OF ok]
  have "proc_ok strict k p P'" if "open_leases P' = Map.empty" for k P' using that by (simp add: proc_ok_def)
  then show ?thesis
    by (intro memory_step [OF ok _ close_fds_ok [OF d(1)] close_fds_keeps, of _ p])
      (use d(3,4) hook hook_opens [OF d(2)] in \<open>auto simp: after_fork_child_def Let_def put_proc_def call_ok_def\<close>)
qed

lemma keys_filter: "distinct (List.map_filter f cs) \<Longrightarrow> distinct (List.map_filter f (filter P cs))"
proof (induction cs)
  case (Cons c cs)
  then show ?case by (cases "f c") (auto simp: List.map_filter_simps map_filter_mem)
qed simp

lemma exit_ok:
  assumes ok: "sys_ok strict (w, cs)"
  shows "sys_ok strict (exit_process p w, filter (\<lambda>c. lc_pid c \<noteq> p) cs)"
proof -
  note d = sys_okD [OF ok]
  have "proc_ok strict k p blank_proc" for k by (simp add: proc_ok_def blank_proc_def open_leases_def)
  then show ?thesis
    by (intro memory_step [OF ok _ close_fds_ok [OF d(1)] close_fds_keeps, of _ p])
      (use keys_filter [OF d(3)] in \<open>auto simp: exit_process_def put_proc_def\<close>)
qed

lemma replace_sidecar_ok:
  assumes ok: "sys_ok strict (w, cs)" and free: "sidecar_unlocked r (kernel w)"
  shows "sys_ok strict (replace_sidecar r again w, cs)"
proof -
  note d = sys_okD [OF ok]
  let ?w = "replace_sidecar r again w"
  note k = replace_ok [OF d(1) free refl, of again]
  have same: "procs ?w = procs w" by (simp add: replace_sidecar_def Let_def)
  have "proc_ok strict (kernel ?w) 0 (procs w 0)" by (rule proc_keeps [OF d(2) _ _ _ _ _ k(2)]) simp_all
  then show ?thesis by (intro sys_step [OF ok k, of 0]) (simp_all add: same d(3))
qed

section \<open>All runs\<close>

lemma begin_call_idle: "lease_begin pid tid r x t d n1 n2 = Inr c \<Longrightarrow> lc_pid c = pid \<and> lc_phase c = Looking"
  by (auto simp: lease_begin_def Let_def split: sum.splits if_splits)

lemma begin_lease_ok:
  assumes ok: "sys_ok strict (w, cs)" and c: "lease_begin pid tid r x t d n1 n2 = Inr c" "\<not> in_fork_hook (procs w pid)"
  shows "sys_ok strict (w, c # cs)"
proof -
  note b = begin_call_idle [OF c(1)]
  have "sys_ok strict (w, [] @ c # cs)"
    by (rule insert_call) (use ok b c(2) in \<open>auto simp: call_ok_def call_key_def\<close>)
  then show ?thesis by simp
qed

lemma lease_step_ok: "lease_step strict s t \<Longrightarrow> sys_ok strict s \<Longrightarrow> sys_ok strict t"
proof (induction rule: lease_step.induct)
  case (ls_next n1 n2 opened ok c w r w' cs ds)
  then show ?case using next_step_ok by blast
qed (auto intro: begin_lease_ok bind_ok conns_ok release_lease_ok finalize_ok fork_ok hook_ok exit_ok replace_sidecar_ok)

lemma blank_ok: "sys_ok strict (blank_world, [])"
  by (simp add: sys_ok_def blank_world_def kernel_ok_def proc_ok_def blank_proc_def open_leases_def List.map_filter_def)

lemma lease_run_ok: "lease_run strict s \<Longrightarrow> sys_ok strict s"
  by (induction rule: lease_run.induct) (auto intro: blank_ok lease_step_ok)

end
