(* ===== verification/LifecycleAccount.thy ===== *)
theory LifecycleAccount
  imports LifecycleRuns
begin

text \<open>
  Where every open descriptor belongs in runs whose finalizers run on the right thread: to one call in
  progress or to one live lease, and in a child that has not run its fork hook to what the hook will close.
\<close>

section \<open>Owners of descriptors\<close>

definition root_fds :: "lease_proc \<Rightarrow> nat set" where
  "root_fds P = {fd. \<exists>i l. open_leases P i = Some l \<and> le_parent l = None \<and> le_fd l = Some fd}"

definition call_keys :: "lease_call list \<Rightarrow> fd_ref set" where
  "call_keys cs = {x. \<exists>c \<in> set cs. call_key c = Some x}"

lemma call_keys_simps [simp]:
  "call_keys [] = {}" "call_keys (cs @ ds) = call_keys cs \<union> call_keys ds"
  "call_keys (c # cs) = set_option (call_key c) \<union> call_keys cs"
  by (auto simp: call_keys_def)

lemma call_keys_continue [simp]:
  "call_keys (continue_lease cs (Inl x) ds) = call_keys cs \<union> call_keys ds"
  "call_keys (continue_lease cs (Inr c) ds) = call_keys cs \<union> (set_option (call_key c) \<union> call_keys ds)"
  by (simp_all add: continue_lease_def)

definition fd_accounted :: "lease_world \<Rightarrow> lease_call list \<Rightarrow> fd_ref \<Rightarrow> bool" where
  "fd_accounted w cs x \<longleftrightarrow>
     (let P = procs w (ref_pid x)
      in if in_fork_hook P then ref_fd x \<in> set (pending_fds P) \<union> set (List.map_filter le_fd (registered_leases P))
         else x \<in> call_keys cs \<or> ref_fd x \<in> root_fds P)"

definition accounted :: "lease_sys \<Rightarrow> bool" where
  "accounted s \<longleftrightarrow> (\<forall>x \<in> fst ` set (fd_table (kernel (fst s))). fd_accounted (fst s) (snd s) x)"

lemma accountedD: "accounted (w, cs) \<Longrightarrow> x \<in> fst ` set (fd_table (kernel w)) \<Longrightarrow> fd_accounted w cs x"
  unfolding accounted_def by simp blast

lemma fd_accounted_live: "\<not> in_fork_hook (procs w (ref_pid x)) \<Longrightarrow>
    fd_accounted w cs x \<longleftrightarrow> x \<in> call_keys cs \<or> ref_fd x \<in> root_fds (procs w (ref_pid x))"
  by (simp add: fd_accounted_def Let_def)

lemma fd_accounted_other:
  assumes "fd_accounted w cs x" "procs w' (ref_pid x) = procs w (ref_pid x)" "x \<in> call_keys cs \<Longrightarrow> x \<in> call_keys cs'"
  shows "fd_accounted w' cs' x"
  using assms(1,3) unfolding fd_accounted_def Let_def assms(2) by (auto split: if_splits)

text \<open>
  A step of process \<open>p\<close>, which has run its hook: \<open>N\<close> are new descriptors, \<open>G\<close> those it closed.
\<close>

lemma account_live:
  assumes acc: "accounted (w, cs)" and hook: "\<not> in_fork_hook (procs w p)" "in_fork_hook (procs w' p) = in_fork_hook (procs w p)"
    and procs: "\<And>q. q \<noteq> p \<Longrightarrow> procs w' q = procs w q"
    and tab: "fst ` set (fd_table (kernel w')) \<subseteq> N \<union> (fst ` set (fd_table (kernel w)) - G)"
    and new: "\<And>x. x \<in> N \<Longrightarrow> fd_accounted w' cs' x"
    and calls: "call_keys cs - G \<subseteq> call_keys cs' \<union> FdRef p ` root_fds (procs w' p)"
    and roots: "\<And>fd. fd \<in> root_fds (procs w p) \<Longrightarrow> FdRef p fd \<notin> G \<Longrightarrow> fd \<in> root_fds (procs w' p)"
  shows "accounted (w', cs')"
proof -
  have "fd_accounted w' cs' x" if "x \<in> fst ` set (fd_table (kernel w))" "x \<notin> G" for x
  proof -
    have was: "fd_accounted w cs x" using accountedD [OF acc that(1)] .
    have key: "x \<in> call_keys cs \<Longrightarrow> x \<in> call_keys cs' \<or> (ref_pid x = p \<and> ref_fd x \<in> root_fds (procs w' p))"
      using calls that(2) by fastforce
    show ?thesis
    proof (cases "ref_pid x = p")
      case True
      then have "ref_fd x \<in> root_fds (procs w p) \<Longrightarrow> ref_fd x \<in> root_fds (procs w' p)" using roots [of "ref_fd x"] that(2) by (cases x) auto
      then show ?thesis using was hook key True by (auto simp: fd_accounted_live)
    next
      case False
      then show ?thesis using was key unfolding fd_accounted_def Let_def procs [OF False] by (auto split: if_splits)
    qed
  qed
  then have "fd_accounted w' cs' x" if "x \<in> fst ` set (fd_table (kernel w'))" for x using that tab new by blast
  then show ?thesis unfolding accounted_def by simp
qed

lemma account_calls: "accounted (w, cs) \<Longrightarrow> call_keys cs \<subseteq> call_keys cs' \<Longrightarrow> accounted (w, cs')"
  unfolding accounted_def fd_accounted_def Let_def by (auto split: if_splits)

section \<open>The steps of a call\<close>

lemma root_fds_same:
  assumes "\<And>i l. open_leases P i = Some l \<Longrightarrow> le_parent l = None \<Longrightarrow>
    \<exists>l'. open_leases P' i = Some l' \<and> le_parent l' = None \<and> le_fd l' = le_fd l"
  shows "root_fds P \<subseteq> root_fds P'"
  using assms by (fastforce simp: root_fds_def)

lemma close_refs: "fst ` set (fd_table (close_fds p F k)) = fst ` set (fd_table k) - FdRef p ` F"
proof -
  have "x \<in> FdRef p ` F \<longleftrightarrow> ref_pid x = p \<and> ref_fd x \<in> F" for x by (cases x) auto
  then show ?thesis by (force simp: close_fds_def keep_open_locks_def)
qed

lemma close_pending_account:
  assumes ok: "sys_ok strict (w, cs @ c # ds)" and acc: "accounted (w, cs @ c # ds)" and fd: "phase_fd (lc_phase c) = Some fd"
  shows "accounted (close_pending (lc_pid c) fd w, cs @ ds)"
proof -
  have c: "call_ok w c" "call_key c = Some (FdRef (lc_pid c) fd)" using sys_okD(4) [OF ok] fd by (simp_all add: call_key_def)
  have eq: "close_pending (lc_pid c) fd w = put_proc (lc_pid c)
      ((procs w (lc_pid c))\<lparr>pending_fds := removeAll fd (pending_fds (procs w (lc_pid c)))\<rparr>) (w\<lparr>kernel := close_fds (lc_pid c) {fd} (kernel w)\<rparr>)"
    using c(1) fd by (simp add: close_pending_def Let_def close_fd_def call_ok_def)
  show ?thesis unfolding eq
    by (rule account_live [OF acc, where p = "lc_pid c" and N = "{}" and G = "{FdRef (lc_pid c) fd}"])
      (use c in \<open>auto simp: call_ok_def close_refs root_fds_def\<close>)
qed

lemma look_up_account:
  assumes ok: "sys_ok strict (w, cs @ c # ds)" and acc: "accounted (w, cs @ c # ds)" and ph: "lc_phase c = Looking"
    and res: "look_up n1 n2 c w = (r, w')"
  shows "accounted (w', continue_lease cs r ds)"
proof -
  let ?p = "lc_pid c" and ?P = "procs w (lc_pid c)"
  have key: "call_key c = None" by (simp add: call_key_def ph)
  have hook: "\<not> in_fork_hook ?P" using sys_okD(4) [OF ok, of c] by (simp add: call_ok_def)
  show ?thesis
  proof (cases "w' = w")
    case True
    show ?thesis unfolding True by (rule account_calls [OF acc]) (cases r; auto simp: key)
  next
    case False
    then obtain i where i: "r = Inl (LeaseGot (next_obj ?P))"
      "w' = put_proc ?p (add_lease (new_lease c None (Some i)) (add_ref i 1 ?P)) w"
      using res by (auto simp: look_up_def Let_def split: if_splits option.splits)
    have next': "next_obj (add_ref i 1 ?P) = next_obj ?P" by (simp add: add_ref_def)
    have "root_fds ?P \<subseteq> root_fds (add_lease (new_lease c None (Some i)) (add_ref i 1 ?P))"
    proof (rule root_fds_same)
      fix j l assume l: "open_leases ?P j = Some l" "le_parent l = None"
      have "j < next_obj ?P" using lease_okD(2) [OF sys_okD(2) [OF ok] hook l(1)] .
      then show "\<exists>l'. open_leases (add_lease (new_lease c None (Some i)) (add_ref i 1 ?P)) j = Some l' \<and> le_parent l' = None \<and> le_fd l' = le_fd l"
        using l by (auto simp: next')
    qed
    then show ?thesis unfolding i
      by (intro account_live [OF acc, where p = ?p and N = "{}" and G = "{}"])
        (use hook key in \<open>auto simp: add_lease_def add_ref_def\<close>)
  qed
qed

lemma open_step_account:
  assumes ok: "sys_ok strict (w, cs @ c # ds)" and acc: "accounted (w, cs @ c # ds)" and ph: "lc_phase c = OpeningSidecar"
    and res: "open_step n opened c w = (r, w')"
  shows "accounted (w', continue_lease cs r ds)"
proof (cases "expired c n \<or> opened = None")
  case True
  then obtain e where "w' = w" "r = Inl e" using res by (auto simp: open_step_def split: option.splits if_splits)
  then show ?thesis using account_calls [OF acc, of "continue_lease cs r ds"] by (simp add: call_key_def ph)
next
  case False
  then obtain fd where fd: "opened = Some fd" "\<not> expired c n" by auto
  let ?p = "lc_pid c" and ?P = "procs w (lc_pid c)"
  have hook: "\<not> in_fork_hook ?P" using sys_okD(4) [OF ok, of c] by (simp add: call_ok_def)
  have w': "w' = put_proc ?p (?P\<lparr>pending_fds := fd # pending_fds ?P\<rparr>) (w\<lparr>kernel := open_sidecar ?p fd (lc_resource c) (kernel w)\<rparr>)"
    "r = Inr (c\<lparr>lc_phase := Trying fd\<rparr>)" using res fd by (auto simp: open_step_def Let_def)
  have tab: "fst ` set (fd_table (open_sidecar ?p fd (lc_resource c) (kernel w))) = insert (FdRef ?p fd) (fst ` set (fd_table (kernel w)))"
    by (simp add: open_sidecar_def split: option.split)
  have "fd_accounted w' (continue_lease cs r ds) (FdRef ?p fd)"
    using hook by (simp add: fd_accounted_live w')
  then show ?thesis
    by (intro account_live [OF acc, where p = ?p and N = "{FdRef ?p fd}" and G = "{}"])
      (use hook tab ph in \<open>auto simp: w' call_key_def root_fds_def\<close>)
qed

lemma same_table_account:
  assumes acc: "accounted (w, cs @ c # ds)" and w': "procs w' = procs w" "fd_table (kernel w') = fd_table (kernel w)"
    and r: "r = Inr c'" "call_key c' = call_key c"
  shows "accounted (w', continue_lease cs r ds)"
  using acc unfolding accounted_def fd_accounted_def Let_def fst_conv snd_conv w' r(1) call_keys_continue call_keys_simps r(2) .

lemma flock_table: "flock_desc d m k = Some k' \<Longrightarrow> fd_table k' = fd_table k"
  by (auto simp: flock_desc_def split: if_splits)

lemma publish_account:
  assumes ok: "sys_ok strict (w, cs @ c # ds)" and acc: "accounted (w, cs @ c # ds)" and ph: "lc_phase c = Publishing fd"
    and res: "publish_step n fd c w = (r, w')"
  shows "accounted (w', continue_lease cs r ds)"
proof (cases "expired c n")
  case True
  then show ?thesis using res by (intro same_table_account [OF acc, where c' = "c\<lparr>lc_phase := Failing fd LeaseTimeout\<rparr>"])
    (auto simp: publish_step_def call_key_def ph)
next
  case False
  let ?p = "lc_pid c" and ?P = "procs w (lc_pid c)" and ?l = "new_lease c (Some fd) None"
  let ?P' = "(add_lease ?l ?P)\<lparr>pending_fds := removeAll fd (pending_fds ?P)\<rparr>"
  have w': "w' = put_proc ?p ?P' w" "r = Inl (LeaseGot (next_obj ?P))" using res False by (auto simp: publish_step_def Let_def)
  have hook: "\<not> in_fork_hook ?P" using sys_okD(4) [OF ok, of c] by (simp add: call_ok_def)
  have "root_fds ?P \<subseteq> root_fds ?P'"
  proof (rule root_fds_same)
    fix j l assume l: "open_leases ?P j = Some l" "le_parent l = None"
    have "j < next_obj ?P" using lease_okD(2) [OF sys_okD(2) [OF ok] hook l(1)] .
    then show "\<exists>l'. open_leases ?P' j = Some l' \<and> le_parent l' = None \<and> le_fd l' = le_fd l" using l by auto
  qed
  moreover have "open_leases ?P' (next_obj ?P) = Some ?l" by (simp add: new_lease_def)
  then have "fd \<in> root_fds ?P'" unfolding root_fds_def by (force simp: new_lease_def)
  ultimately show ?thesis unfolding w'
    by (intro account_live [OF acc, where p = ?p and N = "{}" and G = "{}"])
      (use hook ph in \<open>auto simp: add_lease_def call_key_def\<close>)
qed

lemma next_account:
  assumes ok: "sys_ok strict (w, cs @ c # ds)" and acc: "accounted (w, cs @ c # ds)" and res: "lease_next n1 n2 opened b c w = (r, w')"
  shows "accounted (w', continue_lease cs r ds)"
proof (cases "lc_phase c")
  case Looking
  then show ?thesis using look_up_account [OF ok acc] res by (simp add: lease_next_def)
next
  case OpeningSidecar
  then show ?thesis using open_step_account [OF ok acc] res by (simp add: lease_next_def)
next
  case (Trying fd)
  then show ?thesis using res
    by (intro same_table_account [OF acc, where c' = "case r of Inr x \<Rightarrow> x"])
      (auto simp: lease_next_def flock_step_def call_key_def flock_table split: option.splits if_splits)
next
  case (Granted fd)
  then show ?thesis using res
    by (intro same_table_account [OF acc, where c' = "case r of Inr x \<Rightarrow> x"])
      (auto simp: lease_next_def recheck_step_def call_key_def split: if_splits)
next
  case (Stale fd)
  have "accounted (close_pending (lc_pid c) fd w, cs @ ds)" by (rule close_pending_account [OF ok acc]) (simp add: Stale)
  moreover have "w' = close_pending (lc_pid c) fd w" "call_keys (cs @ ds) \<subseteq> call_keys (continue_lease cs r ds)"
    using res Stale by (auto simp: lease_next_def stale_step_def split: if_splits)
  ultimately show ?thesis using account_calls by blast
next
  case (Failing fd e)
  have "accounted (close_pending (lc_pid c) fd w, cs @ ds)" by (rule close_pending_account [OF ok acc]) (simp add: Failing)
  then show ?thesis using res Failing by (auto simp: lease_next_def continue_lease_def)
next
  case (Publishing fd)
  then show ?thesis using publish_account [OF ok acc] res by (simp add: lease_next_def)
qed

section \<open>Release, finalizers, forks\<close>

lemma root_fds_simps [simp]:
  "root_fds (P\<lparr>conns := f\<rparr>) = root_fds P" "root_fds (P\<lparr>bound_ids := xs\<rparr>) = root_fds P"
  by (simp_all add: root_fds_def)

text \<open>A step that leaves the calls alone.\<close>

lemma account_proc:
  assumes acc: "accounted (w, cs)" and hook: "\<not> in_fork_hook (procs w p)" "in_fork_hook P' = in_fork_hook (procs w p)"
    and w': "w' = put_proc p P' (w\<lparr>kernel := close_fds p F (kernel w)\<rparr>)"
    and roots: "root_fds (procs w p) - F \<subseteq> root_fds P'" and calls: "\<And>fd. fd \<in> F \<Longrightarrow> FdRef p fd \<notin> call_keys cs"
  shows "accounted (w', cs)"
proof (rule account_live [OF acc hook(1), where N = "{}" and G = "FdRef p ` F"])
  show "fst ` set (fd_table (kernel w')) \<subseteq> {} \<union> (fst ` set (fd_table (kernel w)) - FdRef p ` F)" by (simp add: w' close_refs)
  show "fd \<in> root_fds (procs w' p)" if "fd \<in> root_fds (procs w p)" "FdRef p fd \<notin> FdRef p ` F" for fd
    using that roots by (auto simp: w')
qed (auto simp: w' hook(2))

lemma account_memory:
  assumes "accounted (w, cs)" "\<not> in_fork_hook (procs w p)" "in_fork_hook P' = in_fork_hook (procs w p)"
    and "root_fds (procs w p) \<subseteq> root_fds P'"
  shows "accounted (put_proc p P' w, cs)"
proof (rule account_live [OF assms(1,2), where N = "{}" and G = "{}"])
  show "fd \<in> root_fds (procs (put_proc p P' w) p)" if "fd \<in> root_fds (procs w p)" for fd using that assms(4) by auto
qed (use assms(3) in simp_all)

lemma call_fd_pending:
  assumes "sys_ok strict (w, cs)" "FdRef p fd \<in> call_keys cs"
  shows "fd \<in> set (pending_fds (procs w p))" "\<not> in_fork_hook (procs w p)"
proof -
  obtain c where c: "c \<in> set cs" "phase_fd (lc_phase c) = Some fd" "lc_pid c = p" using assms(2) by (auto simp: call_keys_def call_key_def)
  then show "fd \<in> set (pending_fds (procs w p))" "\<not> in_fork_hook (procs w p)"
    using sys_okD(4) [OF assms(1) c(1)] by (auto simp: call_ok_def)
qed

lemma shut_roots:
  assumes "open_leases P' = (open_leases P)(i := None)" "\<And>l. open_leases P i = Some l \<Longrightarrow> le_parent l = None \<Longrightarrow> le_fd l = Some fd \<Longrightarrow> fd \<in> F"
    and "\<And>l. open_leases P i = Some l \<Longrightarrow> le_parent l = None \<Longrightarrow> \<exists>fd \<in> F. le_fd l = Some fd"
  shows "root_fds P - F \<subseteq> root_fds P'"
proof
  fix g assume "g \<in> root_fds P - F"
  then obtain j l where l: "open_leases P j = Some l" "le_parent l = None" "le_fd l = Some g" "g \<notin> F" by (auto simp: root_fds_def)
  then have "j \<noteq> i" using assms(3) by fastforce
  then show "g \<in> root_fds P'" using l(1-3) unfolding root_fds_def assms(1) by auto
qed

lemma finish_account:
  assumes ok: "sys_ok strict (w, cs)" and acc: "accounted (w, cs)" and hook: "\<not> in_fork_hook (procs w p)"
    and l: "open_leases (procs w p) i = Some l" and free: "le_parent l = None \<Longrightarrow> le_refs l \<le> 1"
  shows "accounted (finish_release p i l w, cs)"
proof (cases "le_parent l")
  case None
  note nb = no_borrower [OF sys_okD(2) [OF ok] hook l None free [OF None]]
  obtain fd P' where fd: "le_fd l = Some fd" "fd \<notin> set (pending_fds (procs w p))"
    and eq: "finish_release p i l w = put_proc p P' (w\<lparr>kernel := close_fds p {fd} (kernel w)\<rparr>)"
    and P': "open_leases P' = (open_leases (procs w p))(i := None)" "in_fork_hook P' = in_fork_hook (procs w p)"
    using finish_root [OF sys_okD(2) [OF ok] hook l None nb(1)] by blast
  have "root_fds (procs w p) - {fd} \<subseteq> root_fds P'" by (rule shut_roots [OF P'(1)]) (use l fd in auto)
  moreover have "FdRef p fd \<notin> call_keys cs" using call_fd_pending(1) [OF ok] fd(2) by blast
  ultimately show ?thesis using account_proc [OF acc hook P'(2) eq] by blast
next
  case (Some r)
  obtain lr P' where lr: "open_leases (procs w p) r = Some lr" and eq: "finish_release p i l w = put_proc p P' w"
    and P': "open_leases P' = (open_leases (procs w p))(i := None, r \<mapsto> lr\<lparr>le_refs := le_refs lr - 1\<rparr>)" "in_fork_hook P' = in_fork_hook (procs w p)"
    using finish_borrowed [OF sys_okD(2) [OF ok] hook l Some] by blast
  have "root_fds (procs w p) \<subseteq> root_fds P'"
    by (rule root_fds_same) (use lr l Some in \<open>auto simp: P' split: if_splits\<close>)
  then show ?thesis unfolding eq by (rule account_memory [OF acc hook P'(2)])
qed

lemma forget_account:
  assumes acc: "accounted (w, cs)" and hook: "\<not> in_fork_hook (procs w p)" and none: "open_leases (procs w p) i = None"
  shows "accounted (forget_lease p i w, cs)"
proof -
  let ?P' = "(procs w p)\<lparr>lease_objs := (lease_objs (procs w p))(i := None), registered := removeAll i (registered (procs w p))\<rparr>"
  have "open_leases ?P' = open_leases (procs w p)" using none by (auto simp: open_leases_def fun_eq_iff split: option.splits if_splits)
  then have "root_fds (procs w p) \<subseteq> root_fds ?P'" by (simp add: root_fds_def)
  then show ?thesis using account_memory [OF acc hook, of ?P'] by (simp add: forget_lease_def Let_def)
qed

lemma refused_account:
  assumes ok: "sys_ok True (w, cs)" and acc: "accounted (w, cs)" and hook: "\<not> in_fork_hook (procs w p)"
    and un: "unreachable True tid i (procs w p)"
    and l: "open_leases (procs w p) i = Some l" "refuses_release (procs w p) tid l"
    and eq: "release_lease p tid i w = (Some LeaseOwnership, w)"
  shows "accounted (finalize_lease p tid i w, cs)"
proof -
  note d = sys_okD [OF ok]
  let ?P = "procs w p" and ?l = "l\<lparr>le_closed := True, le_refs := 0\<rparr>"
  have conn: "le_conn l = None" using lease_okD(3) [OF d(2) hook l(1)] un unfolding unreachable_def by blast
  have obj: "lease_objs ?P i = Some l" "\<not> le_closed l" using l(1) by (simp_all add: open_lease_obj)
  have root: "le_parent l = None"
  proof (rule ccontr)
    assume "le_parent l \<noteq> None"
    then have "le_thread l = tid" using un obj(1) by (auto simp: unreachable_def)
    then show False using l(2) conn \<open>le_parent l \<noteq> None\<close> by (simp add: refuses_release_def conn_is_live_def)
  qed
  have refs: "le_refs l = 1"
    using lease_root [OF d(2) hook l(1) root] unreachable_borrowers [OF un] by (simp add: root_ok_def)
  obtain fd where fd: "le_fd l = Some fd" "fd \<notin> set (pending_fds ?P)"
    using lease_root [OF d(2) hook l(1) root] by (auto simp: root_ok_def)
  let ?P1 = "(put_lease i ?l ?P)\<lparr>registered := removeAll i (registered ?P)\<rparr>"
  let ?P2 = "put_lease i (?l\<lparr>le_fd := None\<rparr>) ?P1"
  let ?P3 = "?P2\<lparr>lease_objs := (lease_objs ?P2)(i := None), registered := removeAll i (registered ?P2)\<rparr>"
  have "lease_objs ?P1 i = Some ?l" by (simp add: put_lease_def)
  from drop_fd_eq [OF this, of fd p w] fd(1) have
    "drop_fd p i (put_proc p ?P1 w) = put_proc p ?P2 (w\<lparr>kernel := close_fds p {fd} (kernel w)\<rparr>)" by simp
  moreover have "finalize_lease p tid i w = forget_lease p i (drop_fd p i (put_proc p ?P1 w))"
    using root refs conn obj by (simp add: finalize_lease_def eq Let_def)
  ultimately have fin: "finalize_lease p tid i w = put_proc p ?P3 (w\<lparr>kernel := close_fds p {fd} (kernel w)\<rparr>)"
    by (simp only: forget_eq)
  have open': "open_leases ?P3 = (open_leases ?P)(i := None)" by (auto simp: open_leases_def put_lease_def fun_eq_iff)
  have "root_fds ?P - {fd} \<subseteq> root_fds ?P3" by (rule shut_roots [OF open']) (use l(1) fd in auto)
  moreover have "FdRef p fd \<notin> call_keys cs" using call_fd_pending(1) [OF ok] fd(2) by blast
  moreover have "in_fork_hook ?P3 = in_fork_hook ?P" by (simp add: put_lease_def)
  ultimately show ?thesis using account_proc [OF acc hook _ fin] by blast
qed

lemma finalize_account:
  assumes ok: "sys_ok True (w, cs)" and acc: "accounted (w, cs)" and hook: "\<not> in_fork_hook (procs w p)"
    and un: "unreachable True tid i (procs w p)"
  shows "accounted (finalize_lease p tid i w, cs)"
proof -
  note r = release_cases [OF sys_okD(2) [OF ok] hook, of i tid]
  consider "open_leases (procs w p) i = None" "release_lease p tid i w = (None, w)"
    | l where "open_leases (procs w p) i = Some l" "\<not> refuses_release (procs w p) tid l"
        "release_lease p tid i w = (None, finish_release p i l w)"
    | l where "open_leases (procs w p) i = Some l" "refuses_release (procs w p) tid l" "release_lease p tid i w = (Some LeaseOwnership, w)"
    using r by (auto split: if_splits)
  then show ?thesis
  proof cases
    case 1
    then show ?thesis using forget_account [OF acc hook 1(1)] by (simp add: finalize_lease_def)
  next
    case (2 l)
    have free: "le_parent l = None \<Longrightarrow> le_refs l \<le> 1" using 2(2) by (auto simp: refuses_release_def)
    let ?w = "finish_release p i l w"
    have none: "open_leases (procs ?w p) i = None" and hook': "\<not> in_fork_hook (procs ?w p)"
      using finish_ok [OF ok hook 2(1) free] hook by auto
    show ?thesis using forget_account [OF finish_account [OF ok acc hook 2(1) free] hook' none] by (simp add: finalize_lease_def 2(3))
  next
    case (3 l)
    show ?thesis by (rule refused_account [OF ok acc hook un 3])
  qed
qed

lemma release_account:
  assumes ok: "sys_ok strict (w, cs)" and acc: "accounted (w, cs)" and hook: "\<not> in_fork_hook (procs w p)"
  shows "accounted (snd (release_lease p tid i w), cs)"
  using release_cases [OF sys_okD(2) [OF ok] hook, of i tid]
proof (elim disjE exE conjE)
  fix l assume l: "open_leases (procs w p) i = Some l"
    "if refuses_release (procs w p) tid l then release_lease p tid i w = (Some LeaseOwnership, w)
     else release_lease p tid i w = (None, finish_release p i l w)"
  have free: "\<not> refuses_release (procs w p) tid l \<Longrightarrow> le_parent l = None \<Longrightarrow> le_refs l \<le> 1" by (auto simp: refuses_release_def)
  show ?thesis using l(2) acc finish_account [OF ok acc hook l(1) free] by (auto split: if_splits)
qed (simp add: acc)

lemma bind_account:
  assumes acc: "accounted (w, cs)" and hook: "\<not> in_fork_hook (procs w p)"
  shows "accounted (snd (bind_connection p tid i x w), cs)"
proof (cases "snd (bind_connection p tid i x w) = w")
  case False
  then obtain l where l: "lease_objs (procs w p) i = Some l" "\<not> le_closed l" and
    eq: "snd (bind_connection p tid i x w) =
      put_proc p ((put_lease i (l\<lparr>le_conn := Some x\<rparr>) (procs w p))\<lparr>bound_ids := List.insert i (bound_ids (procs w p))\<rparr>) w"
    by (auto simp: bind_connection_def Let_def split: option.splits if_splits)
  have "root_fds (procs w p) \<subseteq> root_fds (put_lease i (l\<lparr>le_conn := Some x\<rparr>) (procs w p))"
    by (rule root_fds_same) (use l in \<open>auto simp: open_lease_obj\<close>)
  then show ?thesis unfolding eq by (intro account_memory [OF acc hook]) (simp_all add: put_lease_def)
qed (simp add: acc)

lemma conns_account: "accounted (w, cs) \<Longrightarrow> accounted (put_proc p ((procs w p)\<lparr>conns := f\<rparr>) w, cs)"
proof -
  assume acc: "accounted (w, cs)"
  let ?w = "put_proc p ((procs w p)\<lparr>conns := f\<rparr>) w"
  have "fd_accounted ?w cs x = fd_accounted w cs x" for x
    by (cases "ref_pid x = p") (simp_all add: fd_accounted_def registered_leases_def Let_def)
  then show "accounted (?w, cs)" using acc by (simp add: accounted_def)
qed

lemma fork_account:
  assumes ok: "sys_ok strict (w, cs)" and acc: "accounted (w, cs)" and hook: "\<not> in_fork_hook (procs w pid)"
    and new: "child \<noteq> pid" "child \<notin> ref_pid ` fst ` set (fd_table (kernel w))" "child \<notin> lc_pid ` set cs"
  shows "accounted (fork_process pid child w, cs)"
proof -
  let ?w = "fork_process pid child w" and ?P = "procs w pid"
  note mem = fork_kernel_ok(3) [OF sys_okD(1) [OF ok] new(1,2)]
  have procs: "procs ?w q = (if q = child then ?P\<lparr>in_fork_hook := True\<rparr> else procs w q)" for q
    by (simp add: fork_process_def Let_def put_proc_def)
  have "fd_accounted ?w cs x" if x: "(x, d) \<in> set (fd_table (kernel ?w))" for x d
  proof -
    have "(x, d) \<in> set (fd_table (kernel w)) \<or> (ref_pid x = child \<and> (FdRef pid (ref_fd x), d) \<in> set (fd_table (kernel w)))"
      using x mem by (simp add: fork_process_def Let_def)
    then show ?thesis
    proof
      assume old: "(x, d) \<in> set (fd_table (kernel w))"
      then have "fd_accounted w cs x" using accountedD [OF acc] by force
      moreover have "ref_pid x \<noteq> child" using old new(2) by force
      ultimately show ?thesis by (elim fd_accounted_other) (simp_all add: procs)
    next
      assume y: "ref_pid x = child \<and> (FdRef pid (ref_fd x), d) \<in> set (fd_table (kernel w))"
      then have "fd_accounted w cs (FdRef pid (ref_fd x))" using accountedD [OF acc] by force
      then have "FdRef pid (ref_fd x) \<in> call_keys cs \<or> ref_fd x \<in> root_fds ?P" using hook by (simp add: fd_accounted_live)
      then have "ref_fd x \<in> set (pending_fds ?P) \<union> set (List.map_filter le_fd (registered_leases ?P))"
      proof
        assume "ref_fd x \<in> root_fds ?P"
        then obtain i l where l: "open_leases ?P i = Some l" "le_fd l = Some (ref_fd x)" by (auto simp: root_fds_def)
        then have "i \<in> set (registered ?P)" using sys_okD(2) [OF ok, of pid] by (auto simp: proc_ok_def)
        then have "l \<in> set (registered_leases ?P)" using l(1) by (force simp: registered_leases_def map_filter_mem open_lease_obj)
        then show ?thesis using l(2) by (force simp: map_filter_mem)
      qed (use call_fd_pending(1) [OF ok] in blast)
      then show ?thesis using y by (simp add: fd_accounted_def Let_def procs registered_leases_def)
    qed
  qed
  then show ?thesis unfolding accounted_def by force
qed

text \<open>The hook closes everything the child has.\<close>

lemma hook_closes_all:
  assumes acc: "accounted (w, cs)" and hook: "in_fork_hook (procs w p)"
  shows "ref_pid ` fst ` set (fd_table (kernel (after_fork_child p w))) \<subseteq> - {p}"
proof -
  let ?P = "procs w p"
  let ?F = "set (pending_fds ?P) \<union> set (List.map_filter le_fd (registered_leases ?P))"
  have k: "kernel (after_fork_child p w) = close_fds p ?F (kernel w)" by (simp add: after_fork_child_def Let_def)
  have "x \<in> FdRef p ` ?F" if "x \<in> fst ` set (fd_table (kernel w))" "ref_pid x = p" for x
  proof -
    have "ref_fd x \<in> ?F" using accountedD [OF acc that(1)] hook unfolding fd_accounted_def that(2) Let_def by simp
    then show ?thesis using that(2) by (metis fd_ref.collapse image_eqI)
  qed
  then show ?thesis unfolding k close_refs by auto
qed

lemma hook_account:
  assumes ok: "sys_ok strict (w, cs)" and acc: "accounted (w, cs)" and hook: "in_fork_hook (procs w p)"
  shows "accounted (after_fork_child p w, cs)"
proof -
  let ?w = "after_fork_child p w"
  have procs: "procs ?w q = procs w q" if "q \<noteq> p" for q using that by (simp add: after_fork_child_def Let_def)
  have "fd_accounted ?w cs x" if x: "x \<in> fst ` set (fd_table (kernel ?w))" for x
  proof -
    have p: "ref_pid x \<noteq> p" using hook_closes_all [OF acc hook] x by blast
    have "x \<in> fst ` set (fd_table (kernel w))" using x by (auto simp: after_fork_child_def Let_def close_refs)
    then show ?thesis by (rule fd_accounted_other [OF accountedD [OF acc] procs [OF p]])
  qed
  then show ?thesis unfolding accounted_def by simp
qed

lemma exit_account:
  assumes acc: "accounted (w, cs)"
  shows "accounted (exit_process p w, filter (\<lambda>c. lc_pid c \<noteq> p) cs)"
proof -
  let ?w = "exit_process p w"
  have "fd_accounted ?w (filter (\<lambda>c. lc_pid c \<noteq> p) cs) x" if x: "x \<in> fst ` set (fd_table (kernel ?w))" for x
  proof -
    have old: "x \<in> fst ` set (fd_table (kernel w))" "x \<notin> FdRef p ` UNIV" using x by (auto simp: exit_process_def close_refs)
    then have p: "ref_pid x \<noteq> p" by (metis fd_ref.collapse rangeI)
    have "x \<in> call_keys (filter (\<lambda>c. lc_pid c \<noteq> p) cs) \<longleftrightarrow> x \<in> call_keys cs" using p by (auto simp: call_keys_def call_key_def)
    then show ?thesis by (intro fd_accounted_other [OF accountedD [OF acc old(1)]]) (simp_all add: exit_process_def p)
  qed
  then show ?thesis unfolding accounted_def by simp
qed

lemma step_account: "lease_step True s t \<Longrightarrow> sys_ok True s \<Longrightarrow> accounted s \<Longrightarrow> accounted t"
proof (induction rule: lease_step.induct)
  case (ls_begin pid tid r x t d n1 n2 c w cs)
  then show ?case using account_calls [of w cs "c # cs"] by auto
next
  case (ls_next n1 n2 opened ok c w r w' cs ds)
  then show ?case using next_account by blast
next
  case (ls_replace r w cs again)
  then show ?case by (simp add: accounted_def fd_accounted_def replace_sidecar_def Let_def)
qed (auto intro: bind_account conns_account release_account finalize_account fork_account hook_account exit_account)

lemma run_account: "lease_run True s \<Longrightarrow> accounted s"
proof (induction rule: lease_run.induct)
  case lr_start
  then show ?case by (simp add: accounted_def blank_world_def)
next
  case (lr_step s t)
  then show ?case using step_account lease_run_ok by blast
qed

end
