(* ===== verification/LifecycleProperties.thy ===== *)
theory LifecycleProperties
  imports LifecycleAccount
begin

text \<open>
  Properties of \<open>LifecycleLease\<close>: exclusion across threads, processes and forks, where descriptors end up, what
  a forked child owns, what a release does, deadlines, and a finalizer that leaves the fence behind.
\<close>

section \<open>Live leases\<close>

definition lease_live :: "lease_world \<Rightarrow> nat \<Rightarrow> nat \<Rightarrow> lease \<Rightarrow> bool" where
  "lease_live w p i l \<longleftrightarrow> \<not> in_fork_hook (procs w p) \<and> lease_objs (procs w p) i = Some l \<and> \<not> le_closed l"

definition root_id :: "nat \<Rightarrow> lease \<Rightarrow> nat" where
  "root_id i l = (case le_parent l of None \<Rightarrow> i | Some r \<Rightarrow> r)"

lemma live_open: "lease_live w p i l \<longleftrightarrow> \<not> in_fork_hook (procs w p) \<and> open_leases (procs w p) i = Some l"
  by (auto simp: lease_live_def open_lease_obj)

text \<open>The root of a live lease: a live lease of its own process and thread with a lock on the present sidecar.\<close>

lemma live_root:
  assumes "sys_ok strict (w, cs)" "lease_live w p i l"
  obtains lr fd d where "lease_live w p (root_id i l) lr" "le_parent lr = None" "le_resource lr = le_resource l" "le_thread lr = le_thread l"
    "le_parent l = None \<longrightarrow> lr = l" "le_parent l \<noteq> None \<longrightarrow> le_exclusive lr" "le_fd lr = Some fd"
    "(FdRef p fd, d) \<in> set (fd_table (kernel w))" "desc_pid d = p" "(d, mode_of lr) \<in> set (desc_locks (kernel w))"
    "map_of (sidecar_inode (kernel w)) (le_resource l) = Some (desc_inode d)"
proof -
  note P = sys_okD(2) [OF assms(1), of p]
  have hook: "\<not> in_fork_hook (procs w p)" and l: "open_leases (procs w p) i = Some l" using assms(2) by (auto simp: live_open)
  obtain lr where lr: "open_leases (procs w p) (root_id i l) = Some lr" "le_parent lr = None" "le_resource lr = le_resource l"
    "le_thread lr = le_thread l" "le_parent l = None \<longrightarrow> lr = l" "le_parent l \<noteq> None \<longrightarrow> le_exclusive lr"
    using l lease_okD(5) [OF P hook l] by (cases "le_parent l") (auto simp: root_id_def borrower_ok_def)
  obtain fd where fd: "le_fd lr = Some fd" using lease_root [OF P hook lr(1,2)] by (auto simp: root_ok_def)
  from root_fd(2) [OF P hook lr(1,2) fd] obtain d where "(FdRef p fd, d) \<in> set (fd_table (kernel w))" "desc_pid d = p"
    "(d, mode_of lr) \<in> set (desc_locks (kernel w))" "map_of (sidecar_inode (kernel w)) (le_resource l) = Some (desc_inode d)"
    by (auto simp: anchored_def lr(3))
  then show ?thesis using that lr fd hook by (simp add: live_open)
qed

section \<open>Exclusion\<close>

text \<open>
  C26 (safety): while a lease is an exclusive fence, or borrowed from one, every live lease on the same
  resource, in any process, belongs to the same process and the same thread and to the same fence.  This
  holds under any interleaving of acquisitions, releases, finalizers, forks, exits and replacements of
  unlocked sidecars, so no writer overlaps with a removal.
\<close>

theorem exclusive_lease_excludes:
  assumes "lease_run strict (w, cs)" "lease_live w p i l" "lease_live w q j m"
    and "le_resource m = le_resource l" "le_exclusive l \<or> le_parent l \<noteq> None"
  shows "q = p \<and> le_thread m = le_thread l \<and> root_id j m = root_id i l"
proof -
  note ok = lease_run_ok [OF assms(1)]
  obtain lr fd d where l: "lease_live w p (root_id i l) lr" "le_parent lr = None" "le_resource lr = le_resource l"
    "le_thread lr = le_thread l" "le_parent l = None \<longrightarrow> lr = l" "le_parent l \<noteq> None \<longrightarrow> le_exclusive lr" "le_fd lr = Some fd"
    "(FdRef p fd, d) \<in> set (fd_table (kernel w))" "desc_pid d = p" "(d, mode_of lr) \<in> set (desc_locks (kernel w))"
    "map_of (sidecar_inode (kernel w)) (le_resource l) = Some (desc_inode d)" by (rule live_root [OF ok assms(2)])
  obtain mr fe e where m: "lease_live w q (root_id j m) mr" "le_parent mr = None" "le_resource mr = le_resource m"
    "le_thread mr = le_thread m" "le_parent m = None \<longrightarrow> mr = m" "le_parent m \<noteq> None \<longrightarrow> le_exclusive mr" "le_fd mr = Some fe"
    "(FdRef q fe, e) \<in> set (fd_table (kernel w))" "desc_pid e = q" "(e, mode_of mr) \<in> set (desc_locks (kernel w))"
    "map_of (sidecar_inode (kernel w)) (le_resource m) = Some (desc_inode e)" by (rule live_root [OF ok assms(3)])
  have "mode_of lr = ModeExclusive" using l(5,6) assms(5) by (auto simp: mode_of_def)
  then have same: "d = e" using kernel_okD(5) [OF sys_okD(1) [OF ok]] l(10,11) m(10,11) assms(4) by fastforce
  then have pq: "q = p" using l(9) m(9) by simp
  have "fd = fe" using kernel_okD(2) [OF sys_okD(1) [OF ok]] l(8) m(8) same pq by blast
  then have root: "root_id j m = root_id i l"
    using root_fd(3) [OF sys_okD(2) [OF ok], of p "root_id i l" lr fd "root_id j m" mr] l m pq by (auto simp: live_open)
  then have "mr = lr" using l(1) m(1) pq by (simp add: live_open)
  then show ?thesis using pq root l(4) m(4) by simp
qed

section \<open>Descriptors\<close>

text \<open>
  C27 (invariant): in every run, no descriptor has two owners among the acquisitions in progress and the live
  root leases, and the root of every live lease holds its lock, in its mode, on the file that is now the
  resource's sidecar.  In a \<open>strict\<close> run, one in which the collector finalizes borrowed leases only on the thread that
  took them, no descriptor leaks either: every descriptor of a process that has run its fork hook belongs to an
  acquisition in progress, which closes it when it fails, or to a live lease.  C29 shows that the condition is needed.
\<close>

theorem no_descriptor_leaks:
  assumes "lease_run strict (w, cs)"
  shows "(\<forall>p fd d. (FdRef p fd, d) \<in> set (fd_table (kernel w)) \<and> \<not> in_fork_hook (procs w p) \<longrightarrow>
      ((\<exists>c \<in> set cs. call_key c = Some (FdRef p fd)) \<longrightarrow> \<not> (\<exists>i l. lease_live w p i l \<and> le_parent l = None \<and> le_fd l = Some fd)) \<and>
      (\<forall>i l j m. lease_live w p i l \<and> le_parent l = None \<and> le_fd l = Some fd \<and>
         lease_live w p j m \<and> le_parent m = None \<and> le_fd m = Some fd \<longrightarrow> j = i) \<and>
      (strict \<longrightarrow> (\<exists>c \<in> set cs. call_key c = Some (FdRef p fd)) \<or>
         (\<exists>i l. lease_live w p i l \<and> le_parent l = None \<and> le_fd l = Some fd))) \<and>
    (\<forall>p i l. lease_live w p i l \<and> le_parent l = None \<longrightarrow>
      (\<exists>fd. le_fd l = Some fd \<and> anchored (kernel w) (FdRef p fd) (mode_of l) (le_resource l)))"
proof (intro conjI allI impI)
  note ok = lease_run_ok [OF assms]
  fix p fd d assume a: "(FdRef p fd, d) \<in> set (fd_table (kernel w)) \<and> \<not> in_fork_hook (procs w p)"
  note P = sys_okD(2) [OF ok, of p]
  show "\<not> (\<exists>i l. lease_live w p i l \<and> le_parent l = None \<and> le_fd l = Some fd)" if "\<exists>c \<in> set cs. call_key c = Some (FdRef p fd)"
  proof -
    from that have "FdRef p fd \<in> call_keys cs" by (auto simp: call_keys_def)
    then have "fd \<in> set (pending_fds (procs w p))" by (rule call_fd_pending(1) [OF ok])
    then show ?thesis using root_fd(1) [OF P] by (fastforce simp: live_open)
  qed
  show "j = i" if "lease_live w p i l \<and> le_parent l = None \<and> le_fd l = Some fd \<and>
      lease_live w p j m \<and> le_parent m = None \<and> le_fd m = Some fd" for i l j m
    using root_fd(3) [OF P] that by (auto simp: live_open)
  show "(\<exists>c \<in> set cs. call_key c = Some (FdRef p fd)) \<or> (\<exists>i l. lease_live w p i l \<and> le_parent l = None \<and> le_fd l = Some fd)"
    if strict
  proof -
    have "accounted (w, cs)" using assms that run_account by simp
    then have "fd_accounted w cs (FdRef p fd)" using accountedD a by force
    then have "FdRef p fd \<in> call_keys cs \<or> fd \<in> root_fds (procs w p)" using a by (simp add: fd_accounted_live)
    then show ?thesis using a by (auto simp: call_keys_def root_fds_def live_open)
  qed
next
  fix p i l assume "lease_live w p i l \<and> le_parent l = None"
  then have "root_ok strict (kernel w) p (open_leases (procs w p)) (set (pending_fds (procs w p))) i l"
    by (intro lease_root [OF sys_okD(2) [OF lease_run_ok [OF assms]]]) (simp_all add: live_open)
  then show "\<exists>fd. le_fd l = Some fd \<and> anchored (kernel w) (FdRef p fd) (mode_of l) (le_resource l)"
    by (auto simp: root_ok_def)
qed

section \<open>Forks\<close>

text \<open>
  C28 (safety): a forked child owns no lease.  When the child runs its hook, whatever happened since the fork, it
  is left with no live lease, every connection bound to an inherited lease is quarantined, and every lock whose
  description another process still has open stays held.  In a \<open>strict\<close> run, where the collector finalizes borrowed
  leases only on the thread that took them, the child is left with no sidecar descriptor either.  Otherwise the
  descriptor of a fence that was leaked as in C29 and then collected belongs to no lease, and the hook does not find it.
\<close>

theorem fork_child_owns_nothing:
  assumes "lease_run strict (w, cs)" "in_fork_hook (procs w p)"
  defines "w' \<equiv> after_fork_child p w"
  shows "(strict \<longrightarrow> (\<forall>fd d. (FdRef p fd, d) \<notin> set (fd_table (kernel w')))) \<and> (\<forall>i l. \<not> lease_live w' p i l) \<and>
    (\<forall>i l x. i \<in> set (registered (procs w p)) \<and> lease_objs (procs w p) i = Some l \<and> le_conn l = Some x \<longrightarrow>
      x \<in> set (fork_quarantine (procs w' p))) \<and>
    (\<forall>q fd d m. q \<noteq> p \<and> (FdRef q fd, d) \<in> set (fd_table (kernel w)) \<and> (d, m) \<in> set (desc_locks (kernel w)) \<longrightarrow>
      (FdRef q fd, d) \<in> set (fd_table (kernel w')) \<and> (d, m) \<in> set (desc_locks (kernel w')))"
proof (intro conjI allI impI)
  note ok = lease_run_ok [OF assms(1)]
  let ?P = "procs w p"
  have P': "open_leases (procs w' p) = Map.empty"
    using hook_opens [OF sys_okD(2) [OF ok]] by (simp add: w'_def after_fork_child_def Let_def)
  show "(FdRef p fd, d) \<notin> set (fd_table (kernel w'))" if strict for fd d
    using hook_closes_all [OF run_account assms(2)] assms(1) that by (force simp: w'_def)
  show "\<not> lease_live w' p i l" for i l by (simp add: live_open P')
  show "x \<in> set (fork_quarantine (procs w' p))"
    if "i \<in> set (registered ?P) \<and> lease_objs ?P i = Some l \<and> le_conn l = Some x" for i l x
    using that by (force simp: w'_def after_fork_child_def Let_def registered_leases_def map_filter_mem)
  fix q fd d m assume a: "q \<noteq> p \<and> (FdRef q fd, d) \<in> set (fd_table (kernel w)) \<and> (d, m) \<in> set (desc_locks (kernel w))"
  show in': "(FdRef q fd, d) \<in> set (fd_table (kernel w'))"
    using a by (simp add: w'_def after_fork_child_def Let_def close_table)
  show "(d, m) \<in> set (desc_locks (kernel w'))"
    using a in' by (auto simp: w'_def after_fork_child_def Let_def close_locks)
qed

section \<open>Releases\<close>

text \<open>
  Property (functional): \<open>release\<close> on a live lease is refused exactly when an exclusive, borrowed or
  bound lease is released by another thread, its connection may still be open, or leases borrowed from
  it are live; then nothing changes.  Otherwise the lease is closed; the last reference to a root closes its
  descriptor and so gives up its lock; and a second release does nothing.
\<close>

theorem release_exactly:
  fixes tid
  assumes "lease_run True (w, cs)" "lease_live w p i l"
  defines "w' \<equiv> snd (release_lease p tid i w)"
  shows "(fst (release_lease p tid i w) \<noteq> None \<longleftrightarrow>
      ((le_exclusive l \<or> le_parent l \<noteq> None \<or> le_conn l \<noteq> None) \<and> le_thread l \<noteq> tid) \<or> conn_is_live (procs w p) l \<or>
      (\<exists>j m. lease_live w p j m \<and> le_parent m = Some i)) \<and>
    (fst (release_lease p tid i w) \<noteq> None \<longrightarrow> w' = w) \<and>
    (fst (release_lease p tid i w) = None \<longrightarrow> (\<forall>m. \<not> lease_live w' p i m) \<and>
      (case le_parent l of
         None \<Rightarrow> \<exists>fd. le_fd l = Some fd \<and> kernel w' = close_fds p {fd} (kernel w)
       | Some r \<Rightarrow> kernel w' = kernel w))"
proof -
  note ok = lease_run_ok [OF assms(1)]
  let ?P = "procs w p"
  have hook: "\<not> in_fork_hook ?P" and l: "open_leases ?P i = Some l" using assms(2) by (auto simp: live_open)
  note P = sys_okD(2) [OF ok, of p]
  have borrowed: "(\<exists>j m. lease_live w p j m \<and> le_parent m = Some i) \<longleftrightarrow> borrowers (open_leases ?P) i \<noteq> {}"
    using hook by (auto simp: borrowers_def live_open)
  have root: "le_parent l = None \<Longrightarrow> 1 < le_refs l \<longleftrightarrow> borrowers (open_leases ?P) i \<noteq> {}"
    using lease_root [OF P hook l] finite_borrowers [OF P] by (auto simp: root_ok_def)
  have none: "le_parent l \<noteq> None \<Longrightarrow> borrowers (open_leases ?P) i = {}"
    using lease_okD(5) [OF P hook] l by (force simp: borrowers_def borrower_ok_def)
  have refused: "refuses_release ?P tid l \<longleftrightarrow> ((le_exclusive l \<or> le_parent l \<noteq> None \<or> le_conn l \<noteq> None) \<and> le_thread l \<noteq> tid) \<or>
      conn_is_live ?P l \<or> (\<exists>j m. lease_live w p j m \<and> le_parent m = Some i)"
    unfolding refuses_release_def borrowed using root none by blast
  show ?thesis
  proof (cases "refuses_release ?P tid l")
    case True
    then have "release_lease p tid i w = (Some LeaseOwnership, w)"
      using l lease_okD(1) [OF P hook l] by (simp add: release_lease_def Let_def open_lease_obj)
    then show ?thesis using True refused by (simp add: w'_def)
  next
    case False
    then have rel: "release_lease p tid i w = (None, finish_release p i l w)"
      using l lease_okD(1) [OF P hook l] by (simp add: release_lease_def Let_def open_lease_obj)
    have free: "le_parent l = None \<Longrightarrow> le_refs l \<le> 1" using False by (auto simp: refuses_release_def)
    have "\<not> lease_live w' p i m" for m using finish_ok [OF ok hook l free] by (simp add: w'_def rel live_open)
    moreover have "case le_parent l of None \<Rightarrow> \<exists>fd. le_fd l = Some fd \<and> kernel w' = close_fds p {fd} (kernel w)
       | Some r \<Rightarrow> kernel w' = kernel w"
    proof (cases "le_parent l")
      case None
      then show ?thesis using finish_root [OF P hook l None no_borrower(1) [OF P hook l None free [OF None]]] by (auto simp: w'_def rel)
    next
      case (Some r)
      then show ?thesis using finish_borrowed [OF P hook l Some] by (auto simp: w'_def rel)
    qed
    ultimately show ?thesis using False refused by (simp add: w'_def rel)
  qed
qed

section \<open>Deadlines\<close>

text \<open>
  Property (bounds): an explicit deadline is never extended.  An acquisition keeps its end and its
  deadline through all its steps, and at a reading at or after the deadline no step opens a sidecar, takes a
  lock or hands out a lease, borrowed ones included.
\<close>

theorem deadline_never_extended:
  assumes "lease_next n1 n2 opened ok c w = (r, w')"
  shows "(\<forall>c'. r = Inr c' \<longrightarrow> lc_end c' = lc_end c \<and> lc_deadline c' = lc_deadline c) \<and>
    (\<forall>d. lc_deadline c = Some d \<and> d \<le> n1 \<longrightarrow> (\<forall>i. r \<noteq> Inl (LeaseGot i)) \<and>
       set (fd_table (kernel w')) \<subseteq> set (fd_table (kernel w)) \<and> set (desc_locks (kernel w')) \<subseteq> set (desc_locks (kernel w)))"
proof -
  have close: "set (fd_table (kernel (close_pending p fd w))) \<subseteq> set (fd_table (kernel w)) \<and>
      set (desc_locks (kernel (close_pending p fd w))) \<subseteq> set (desc_locks (kernel w))" for p fd
    by (auto simp: close_pending_def Let_def close_fd_def close_fds_def keep_open_locks_def)
  show ?thesis
  proof (cases "lc_phase c")
    case (Stale fd)
    then show ?thesis using assms close by (auto simp: lease_next_def stale_step_def split: if_splits)
  next
    case (Failing fd e)
    then show ?thesis using assms close by (auto simp: lease_next_def)
  qed (use assms in \<open>auto simp: lease_next_def look_up_def open_step_def flock_step_def recheck_step_def publish_step_def Let_def
      expired_def split: option.splits if_splits\<close>)
qed

section \<open>A finalizer on the wrong thread\<close>

text \<open>
  C29 (error): a borrowed lease that is finalized by another thread leaves the fence behind.  The
  collector may run \<open>__del__\<close> on any thread; the release it tries is refused there and only a root has a
  fallback, so the reference of the borrowed lease is never given back.  From then on no thread can
  release the root, although no borrowed lease exists, and even its own finalizer keeps the descriptor
  open: the resource stays locked until the process ends.
\<close>

theorem off_thread_finalizer_leaks:
  assumes "lease_run strict (w, cs)" "lease_live w p b m" "le_parent m = Some r" "lease_live w p r l"
    and "unreachable False tid b (procs w p)" "tid \<noteq> le_thread m"
  defines "w' \<equiv> finalize_lease p tid b w"
  shows "lease_objs (procs w' p) b = None \<and> kernel w' = kernel w \<and> lease_live w' p r l \<and>
    (\<forall>t. release_lease p t r w' = (Some LeaseOwnership, w') \<and> kernel (finalize_lease p t r w') = kernel w)"
proof -
  note ok = lease_run_ok [OF assms(1)]
  let ?P = "procs w p"
  have hook: "\<not> in_fork_hook ?P" and m: "open_leases ?P b = Some m" and l: "open_leases ?P r = Some l"
    using assms(2,4) by (auto simp: live_open)
  note P = sys_okD(2) [OF ok, of p]
  have root: "le_parent l = None" "r \<noteq> b" using lease_okD(5) [OF P hook m assms(3)] l m assms(3) by (auto simp: borrower_ok_def)
  have "b \<in> borrowers (open_leases ?P) r" using m assms(3) by (auto simp: borrowers_def)
  then have "0 < card (borrowers (open_leases ?P) r)" using finite_borrowers [OF P] by (auto simp: card_gt_0_iff)
  then have refs: "1 < le_refs l" using lease_root [OF P hook l root(1)] by (auto simp: root_ok_def)
  have objs: "lease_objs ?P b = Some m" "\<not> le_closed m" "lease_objs ?P r = Some l" "\<not> le_closed l" "le_pid m = p" "le_pid l = p"
    using m l lease_okD(1) [OF P hook] by (auto simp: open_lease_obj)
  have "release_lease p tid b w = (Some LeaseOwnership, w)"
    using objs assms(3,6) by (auto simp: release_lease_def Let_def refuses_release_def)
  then have w': "w' = forget_lease p b w" using objs assms(3) by (simp add: w'_def finalize_lease_def Let_def)
  have l': "lease_objs (procs w' p) r = Some l" "in_fork_hook (procs w' p) = in_fork_hook ?P" "lease_objs (procs w' p) b = None" "kernel w' = kernel w"
    using objs root(2) by (simp_all add: w' forget_lease_def Let_def)
  have stuck: "release_lease p t r w' = (Some LeaseOwnership, w')" for t
    using l'(1) objs refs root(1) by (simp add: release_lease_def Let_def refuses_release_def)
  have "finalize_lease p t r w' = forget_lease p r w'" for t
    using l'(1) refs by (simp add: finalize_lease_def stuck Let_def)
  then have "kernel (finalize_lease p t r w') = kernel w" for t by (simp add: forget_lease_def Let_def l'(4))
  then show ?thesis using l' stuck hook objs by (simp add: lease_live_def)
qed

section \<open>Witnesses\<close>

text \<open>A call that runs alone at reading 0.\<close>

fun lease_alone :: "nat \<Rightarrow> nat \<Rightarrow> lease_call \<Rightarrow> lease_world \<Rightarrow> (lease_outcome \<times> lease_world) option" where
  "lease_alone 0 fd c w = None"
| "lease_alone (Suc n) fd c w =
     (if lc_phase c = OpeningSidecar \<and> FdRef (lc_pid c) fd \<in> fst ` set (fd_table (kernel w)) then None
      else (case lease_next 0 0 (if lc_phase c = OpeningSidecar then Some fd else None) True c w of
         (Inl out, w') \<Rightarrow> Some (out, w')
       | (Inr c', w') \<Rightarrow> lease_alone n fd c' w'))"

lemma alone_lease_run:
  "lease_alone n fd c w = Some (out, w') \<Longrightarrow> lease_run strict (w, c # cs) \<Longrightarrow> lease_run strict (w', cs)"
proof (induction n arbitrary: c w)
  case (Suc n)
  let ?op = "if lc_phase c = OpeningSidecar then Some fd else None"
  obtain r w1 where step: "lease_next 0 0 ?op True c w = (r, w1)" by fastforce
  have fresh: "\<not> (lc_phase c = OpeningSidecar \<and> FdRef (lc_pid c) fd \<in> fst ` set (fd_table (kernel w)))"
    using Suc.prems(1) by (auto split: if_splits)
  have "lease_step strict (w, [] @ c # cs) (w1, continue_lease [] r cs)"
    by (rule ls_next [OF step]) (use fresh in \<open>simp split: if_splits\<close>)
  then have run: "lease_run strict (w1, continue_lease [] r cs)" using Suc.prems(2) lr_step by fastforce
  show ?case
  proof (cases r)
    case (Inl o')
    then show ?thesis using Suc.prems(1) step fresh run by (auto simp: continue_lease_def split: if_splits)
  next
    case (Inr c')
    then have "lease_alone n fd c' w1 = Some (out, w')" using Suc.prems(1) step fresh by (auto split: if_splits)
    then show ?thesis using Suc.IH run Inr by (simp add: continue_lease_def)
  qed
qed simp

text \<open>Thread 7 of process 5 takes the fence on \<open>r\<close>, then borrows from it.\<close>

definition demo_take :: "bool \<Rightarrow> lease_world \<Rightarrow> lease_world" where
  "demo_take exclusive w =
     (case lease_begin 5 7 ''r'' exclusive (PFloat (Finite 1)) PNone 0 0 of
        Inl _ \<Rightarrow> w
      | Inr c \<Rightarrow> (case lease_alone 9 3 c w of None \<Rightarrow> w | Some (_, w') \<Rightarrow> w'))"

lemma take_run:
  assumes "lease_run strict (w, [])" "\<not> in_fork_hook (procs w 5)"
  shows "lease_run strict (demo_take x w, [])"
proof (cases "lease_begin 5 7 ''r'' x (PFloat (Finite 1)) PNone 0 0")
  case (Inr c)
  have "lease_run strict (w, [c])" by (rule lr_step [OF assms(1) ls_begin [OF Inr assms(2)]])
  then have "lease_run strict (w', [])" if "lease_alone 9 3 c w = Some (out, w')" for out w'
    using alone_lease_run [OF that] by blast
  then show ?thesis using assms(1) Inr by (simp add: demo_take_def split: option.split)
qed (use assms(1) in \<open>simp add: demo_take_def\<close>)

lemma lease_alone_step: "0 < n \<Longrightarrow> lease_alone n fd c w =
     (if lc_phase c = OpeningSidecar \<and> FdRef (lc_pid c) fd \<in> fst ` set (fd_table (kernel w)) then None
      else (case lease_next 0 0 (if lc_phase c = OpeningSidecar then Some fd else None) True c w of
         (Inl out, w') \<Rightarrow> Some (out, w')
       | (Inr c', w') \<Rightarrow> lease_alone (n - 1) fd c' w'))"
  by (cases n) (simp_all split: prod.split sum.split)

definition demo_fence :: lease_world where
  "demo_fence = demo_take True blank_world"

definition demo_borrowed :: lease_world where
  "demo_borrowed = demo_take False demo_fence"

definition demo_lease :: "bool \<Rightarrow> nat option \<Rightarrow> nat option \<Rightarrow> int \<Rightarrow> lease" where
  "demo_lease x fd parent refs = \<lparr>le_resource = ''r'', le_exclusive = x, le_pid = 5, le_thread = 7, le_closed = False, le_fd = fd,
     le_parent = parent, le_refs = refs, le_conn = None\<rparr>"

lemmas lease_steps = lease_next_def look_up_def open_step_def flock_step_def recheck_step_def publish_step_def Let_def
  put_proc_def open_sidecar_def desc_of_def flock_desc_def lock_excluded_def sidecar_is_held_def add_lease_def new_lease_def add_ref_def
  owned_by_def exclusive_root_def expired_def call_mode_def

lemma demo_begin: "lease_begin 5 7 ''r'' x (PFloat (Finite 1)) PNone 0 0 =
    Inr \<lparr>lc_pid = 5, lc_thread = 7, lc_resource = ''r'', lc_exclusive = x, lc_end = 1, lc_deadline = None, lc_immediate = False,
      lc_first = True, lc_phase = Looking\<rparr>"
  by (simp add: lease_begin_def seconds_of_def expired_def Let_def)

lemma demo_fence_eq: "demo_fence =
    \<lparr>kernel = \<lparr>fd_table = [(FdRef 5 3, Desc 5 1 1)], desc_locks = [(Desc 5 1 1, ModeExclusive)], sidecar_inode = [(''r'', 1)], next_serial = 2\<rparr>,
     procs = (\<lambda>_. blank_proc)(5 := blank_proc\<lparr>lease_objs := [0 \<mapsto> demo_lease True (Some 3) None 1], next_obj := 1, registered := [0]\<rparr>)\<rparr>"
  by (simp add: demo_fence_def demo_take_def lease_alone_step demo_begin blank_world_def lease_steps blank_proc_def demo_lease_def)

lemma demo_borrowed_eq: "demo_borrowed =
    \<lparr>kernel = \<lparr>fd_table = [(FdRef 5 3, Desc 5 1 1)], desc_locks = [(Desc 5 1 1, ModeExclusive)], sidecar_inode = [(''r'', 1)], next_serial = 2\<rparr>,
     procs = (\<lambda>_. blank_proc)(5 := blank_proc\<lparr>lease_objs := [0 \<mapsto> demo_lease True (Some 3) None 2, 1 \<mapsto> demo_lease False None (Some 0) 1],
       next_obj := 2, registered := [1, 0]\<rparr>)\<rparr>"
  by (simp add: demo_borrowed_def demo_fence_eq demo_take_def lease_alone_step demo_begin lease_steps blank_proc_def demo_lease_def
      numeral_2_eq_2)

lemma demo_runs: "lease_run strict (demo_fence, [])" "lease_run strict (demo_borrowed, [])"
proof -
  show fence: "lease_run strict (demo_fence, [])"
    unfolding demo_fence_def by (rule take_run [OF lr_start]) (simp add: blank_world_def blank_proc_def)
  show "lease_run strict (demo_borrowed, [])"
    unfolding demo_borrowed_def by (rule take_run [OF fence]) (simp add: demo_fence_eq blank_proc_def)
qed

lemma demo_live:
  "lease_live demo_borrowed 5 0 (demo_lease True (Some 3) None 2)" "lease_live demo_borrowed 5 1 (demo_lease False None (Some 0) 1)"
  by (simp_all add: lease_live_def demo_borrowed_eq blank_proc_def demo_lease_def)

theorem exclusive_lease_excludes_witness:
  "lease_live demo_borrowed 5 1 (demo_lease False None (Some 0) 1) \<and>
   root_id 1 (demo_lease False None (Some 0) 1) = root_id 0 (demo_lease True (Some 3) None 2)"
proof -
  have "le_resource (demo_lease False None (Some 0) 1) = le_resource (demo_lease True (Some 3) None 2)"
    "le_exclusive (demo_lease True (Some 3) None 2) \<or> le_parent (demo_lease True (Some 3) None 2) \<noteq> None"
    by (simp_all add: demo_lease_def)
  from exclusive_lease_excludes [OF demo_runs(2) demo_live(1) demo_live(2) this] show ?thesis using demo_live(2) by blast
qed

theorem no_descriptor_leaks_witness:
  "\<exists>i l. lease_live demo_borrowed 5 i l \<and> le_parent l = None \<and> le_fd l = Some 3"
proof -
  have "(FdRef 5 3, Desc 5 1 1) \<in> set (fd_table (kernel demo_borrowed))" "\<not> in_fork_hook (procs demo_borrowed 5)"
    by (simp_all add: demo_borrowed_eq blank_proc_def)
  then show ?thesis using no_descriptor_leaks [OF demo_runs(2)] by fastforce
qed

theorem fork_child_owns_nothing_witness:
  "(Desc 5 1 1, ModeExclusive) \<in> set (desc_locks (kernel (after_fork_child 6 (fork_process 5 6 demo_borrowed))))"
proof -
  let ?w = "fork_process 5 6 demo_borrowed"
  have "lease_run True (?w, [])"
    by (rule lr_step [OF demo_runs(2) ls_fork]) (simp_all add: demo_borrowed_eq blank_proc_def)
  moreover have "in_fork_hook (procs ?w 6)" by (simp add: fork_process_def Let_def)
  ultimately have "\<forall>q fd d m. q \<noteq> 6 \<and> (FdRef q fd, d) \<in> set (fd_table (kernel ?w)) \<and> (d, m) \<in> set (desc_locks (kernel ?w)) \<longrightarrow>
      (FdRef q fd, d) \<in> set (fd_table (kernel (after_fork_child 6 ?w))) \<and> (d, m) \<in> set (desc_locks (kernel (after_fork_child 6 ?w)))"
    by (intro conjunct2 [OF conjunct2 [OF conjunct2 [OF fork_child_owns_nothing]]])
  moreover have "(5 :: nat) \<noteq> 6 \<and> (FdRef 5 3, Desc 5 1 1) \<in> set (fd_table (kernel ?w)) \<and>
    (Desc 5 1 1, ModeExclusive) \<in> set (desc_locks (kernel ?w))"
    by (simp add: fork_process_def Let_def demo_borrowed_eq)
  ultimately show ?thesis by blast
qed

theorem off_thread_finalizer_leaks_witness:
  "fst (release_lease 5 7 0 (finalize_lease 5 8 1 demo_borrowed)) = Some LeaseOwnership"
proof -
  have "unreachable False 8 1 (procs demo_borrowed 5)"
    by (auto simp: unreachable_def demo_borrowed_eq blank_proc_def demo_lease_def split: if_splits)
  moreover have "le_parent (demo_lease False None (Some 0) 1) = Some 0" "8 \<noteq> le_thread (demo_lease False None (Some 0) 1)"
    by (simp_all add: demo_lease_def)
  ultimately show ?thesis using off_thread_finalizer_leaks [OF demo_runs(2) demo_live(2) _ demo_live(1)] by fastforce
qed

theorem release_exactly_witness:
  "fst (release_lease 5 7 0 demo_borrowed) \<noteq> None"
proof -
  have "\<exists>j m. lease_live demo_borrowed 5 j m \<and> le_parent m = Some 0" using demo_live(2) by (force simp: demo_lease_def)
  then show ?thesis using release_exactly [OF demo_runs(2) demo_live(1), of 7] by blast
qed

end
