(* ===== verification/WaveJournal.thy ===== *)
theory WaveJournal
  imports PyValue
begin

text \<open>
  The append-only journal of a wave (\<open>wave_journal.py\<close>): event envelopes and their JSON, the reading of a
  chain of Git commits, and the publication of an event by compare-and-swap.

  Git is not under \<open>src/\<close>.  A function that runs it is a tree of its commands: each \<open>Call\<close> names one command
  and says what the code does with each reply, so several callers can be interleaved command by command.
  What Git answers is left to \<open>JournalGit\<close>.  JSON text, UTF-8, SHA-256 and \<open>datetime.fromisoformat\<close> are
  fields of \<open>journal_lib\<close>; a field that returns None stands for a call that raises.  \<open>run_subprocess\<close> is taken
  outside any Handoff write lock.
\<close>

section \<open>Errors\<close>

text \<open>\<open>JournalError\<close> with its field and reason, or another Python exception.\<close>

datatype journal_exn = Journal string string | Raised py_exn

type_synonym 'a journal = "journal_exn + 'a"

definition bind_journal :: "'a journal \<Rightarrow> ('a \<Rightarrow> 'b journal) \<Rightarrow> 'b journal" where
  "bind_journal r f = (case r of Inl e \<Rightarrow> Inl e | Inr x \<Rightarrow> f x)"

definition check :: "bool \<Rightarrow> string \<Rightarrow> string \<Rightarrow> unit journal" where
  "check ok field reason = (if ok then Inr () else Inl (Journal field reason))"

definition or_raise :: "'a option \<Rightarrow> journal_exn \<Rightarrow> 'a journal" where
  "or_raise v e = (case v of None \<Rightarrow> Inl e | Some x \<Rightarrow> Inr x)"

lemma bind_journal_simps [simp]:
  "bind_journal (Inl e) f = Inl e" "bind_journal (Inr x) f = f x"
  "check True a b = Inr ()" "check False a b = Inl (Journal a b)"
  "or_raise None e = Inl e" "or_raise (Some x) e = Inr x"
  by (simp_all add: bind_journal_def check_def or_raise_def)

lemma bind_journal_Inr_iff: "bind_journal r f = Inr y \<longleftrightarrow> (\<exists>x. r = Inr x \<and> f x = Inr y)"
  by (cases r) auto

lemma check_Inr_iff: "check ok a b = Inr u \<longleftrightarrow> ok" by (cases ok) auto

lemma or_raise_Inr_iff: "or_raise v e = Inr x \<longleftrightarrow> v = Some x" by (cases v) auto

lemmas journal_Inr = bind_journal_Inr_iff check_Inr_iff or_raise_Inr_iff

record journal_lib =
  json_text :: "pyval \<Rightarrow> string option"
  json_value :: "string \<Rightarrow> pyval option"
  utf8_encode :: "string \<Rightarrow> string option"
  utf8_decode :: "string \<Rightarrow> string option"
  sha256_hex :: "string \<Rightarrow> string"
  iso_seconds :: "string \<Rightarrow> int result"

section \<open>Names\<close>

definition wave_id_char :: "char \<Rightarrow> bool" where
  "wave_id_char c = (let n = (of_char c :: nat) in (97 \<le> n \<and> n \<le> 122) \<or> (48 \<le> n \<and> n \<le> 57))"

definition ends_with :: "string \<Rightarrow> string \<Rightarrow> bool" where
  "ends_with s t = starts_with (rev s) (rev t)"

definition wave_id_ok :: "string \<Rightarrow> bool" where
  "wave_id_ok w \<longleftrightarrow>
     (case w of [] \<Rightarrow> False | c # cs \<Rightarrow>
        wave_id_char c \<and> length cs \<le> 63 \<and> list_all (\<lambda>d. wave_id_char d \<or> d \<in> {CHR ''.'', CHR ''_'', CHR ''-''}) cs) \<and>
     \<not> in_str ''..'' w \<and> \<not> ends_with w ''.lock'' \<and> \<not> ends_with w ''.''"

fun validate_wave_id :: "pyval \<Rightarrow> string journal" where
  "validate_wave_id (PStr w) = (if wave_id_ok w then Inr w else Inl (Journal ''wave'' ''invalid_wave_id''))"
| "validate_wave_id _ = Inl (Journal ''wave'' ''invalid_wave_id'')"

definition ref_name :: "string \<Rightarrow> string" where
  "ref_name w = ''refs/workbay/journal/'' @ w"

definition wave_ref :: "pyval \<Rightarrow> string journal" where
  "wave_ref w = bind_journal (validate_wave_id w) (\<lambda>w. Inr (ref_name w))"

definition fetch_refspec :: "pyval \<Rightarrow> string journal" where
  "fetch_refspec w = bind_journal (wave_ref w) (\<lambda>r. Inr (CHR ''+'' # r @ '':'' @ r))"

definition derive_event_id :: "journal_lib \<Rightarrow> string \<Rightarrow> string \<Rightarrow> int \<Rightarrow> string journal" where
  "derive_event_id L w p n =
     bind_journal (or_raise (utf8_encode L (w @ [CHR 0x1F] @ p @ [CHR 0x1F] @ int_str n)) (Raised ValueError))
       (\<lambda>b. Inr (CHR ''e'' # take 24 (sha256_hex L b)))"

section \<open>Event envelopes\<close>

record journal_event =
  je_id :: string
  je_wave :: string
  je_kind :: string
  je_producer :: string
  je_seq :: int
  je_parent :: "string option"
  je_ts :: string
  je_fields :: pyval

text \<open>
  The constructor's arguments before it has looked at them; \<open>schema_version\<close> is 1 in every event that the
  constructor lets through.
\<close>

record raw_event =
  raw_version :: pyval
  raw_id :: pyval
  raw_wave :: pyval
  raw_kind :: pyval
  raw_producer :: pyval
  raw_seq :: pyval
  raw_parent :: pyval
  raw_ts :: pyval
  raw_fields :: pyval

definition replace_z :: "string \<Rightarrow> string" where
  "replace_z s = concat (map (\<lambda>c. if c = CHR ''Z'' then ''+00:00'' else [c]) s)"

definition git_date :: "journal_lib \<Rightarrow> string \<Rightarrow> string journal" where
  "git_date L ts =
     (case iso_seconds L (replace_z ts) of
        Inr n \<Rightarrow> Inr (CHR ''@'' # int_str n @ '' +0000'')
      | Inl e \<Rightarrow> if e = ValueError then Inl (Journal ''ts'' ''invalid_timestamp'') else Inl (Raised e))"

definition seq_in_range :: "int \<Rightarrow> bool" where
  "seq_in_range n \<longleftrightarrow> - (2 ^ 63) \<le> n \<and> n \<le> 2 ^ 63 - 1"

fun as_str :: "string \<Rightarrow> pyval \<Rightarrow> string journal" where
  "as_str name (PStr s) = Inr s"
| "as_str name _ = Inl (Journal name ''wrong_type'')"

fun as_int :: "string \<Rightarrow> pyval \<Rightarrow> int journal" where
  "as_int name (PInt n) = Inr n"
| "as_int name _ = Inl (Journal name ''wrong_type'')"

fun as_parent :: "pyval \<Rightarrow> string option journal" where
  "as_parent PNone = Inr None"
| "as_parent (PStr s) = Inr (Some s)"
| "as_parent _ = Inl (Journal ''causal_parent'' ''wrong_type'')"

definition as_dict :: "pyval \<Rightarrow> pyval journal" where
  "as_dict v = (if is_mapping v then Inr v else Inl (Journal ''fields'' ''wrong_type''))"

definition check_version :: "pyval \<Rightarrow> unit journal" where
  "check_version v = bind_journal (as_int ''schema_version'' v) (\<lambda>n. check (n = 1) ''schema_version'' ''unknown_schema_version'')"

definition validate_producer_seq :: "int \<Rightarrow> unit journal" where
  "validate_producer_seq n = check (seq_in_range n) ''producer_seq'' ''outside_sqlite_int64''"

definition make_event :: "journal_lib \<Rightarrow> raw_event \<Rightarrow> journal_event journal" where
  "make_event L r =
     bind_journal (check_version (raw_version r)) (\<lambda>_.
     bind_journal (validate_wave_id (raw_wave r)) (\<lambda>w.
     bind_journal (as_str ''event_id'' (raw_id r)) (\<lambda>i.
     bind_journal (as_str ''kind'' (raw_kind r)) (\<lambda>k.
     bind_journal (as_str ''producer'' (raw_producer r)) (\<lambda>p.
     bind_journal (as_str ''ts'' (raw_ts r)) (\<lambda>t.
     bind_journal (as_int ''producer_seq'' (raw_seq r)) (\<lambda>n.
     bind_journal (validate_producer_seq n) (\<lambda>_.
     bind_journal (as_parent (raw_parent r)) (\<lambda>c.
     bind_journal (as_dict (raw_fields r)) (\<lambda>f.
     bind_journal (git_date L t) (\<lambda>_.
     bind_journal (derive_event_id L w p n) (\<lambda>d.
     bind_journal (check (i = d) ''event_id'' ''does_not_match_producer_sequence'') (\<lambda>_.
     Inr \<lparr>je_id = i, je_wave = w, je_kind = k, je_producer = p, je_seq = n, je_parent = c, je_ts = t,
          je_fields = f\<rparr>)))))))))))))"

definition opt_text :: "string option \<Rightarrow> pyval" where
  "opt_text v = (case v of None \<Rightarrow> PNone | Some s \<Rightarrow> PStr s)"

definition event_value :: "journal_event \<Rightarrow> pyval" where
  "event_value e = PDict
     [(PStr ''schema_version'', PInt 1), (PStr ''event_id'', PStr (je_id e)), (PStr ''wave'', PStr (je_wave e)),
      (PStr ''kind'', PStr (je_kind e)), (PStr ''producer'', PStr (je_producer e)), (PStr ''producer_seq'', PInt (je_seq e)),
      (PStr ''causal_parent'', opt_text (je_parent e)), (PStr ''ts'', PStr (je_ts e)), (PStr ''fields'', je_fields e)]"

definition to_json :: "journal_lib \<Rightarrow> journal_event \<Rightarrow> string journal" where
  "to_json L e = or_raise (json_text L (event_value e)) (Journal ''fields'' ''not_json_serializable'')"

definition required_event_keys :: "string list" where
  "required_event_keys =
     [''schema_version'', ''event_id'', ''wave'', ''kind'', ''producer'', ''producer_seq'', ''causal_parent'', ''ts'', ''fields'']"

fun check_present :: "pyval \<Rightarrow> string list \<Rightarrow> unit journal" where
  "check_present d [] = Inr ()"
| "check_present d (k # ks) = (if py_lookup d k = None then Inl (Journal k ''missing_key'') else check_present d ks)"

definition raw_of_dict :: "pyval \<Rightarrow> raw_event" where
  "raw_of_dict d = \<lparr>raw_version = py_get d ''schema_version'', raw_id = py_get d ''event_id'', raw_wave = py_get d ''wave'',
     raw_kind = py_get d ''kind'', raw_producer = py_get d ''producer'', raw_seq = py_get d ''producer_seq'',
     raw_parent = py_get d ''causal_parent'', raw_ts = py_get d ''ts'', raw_fields = py_get d ''fields''\<rparr>"

text \<open>The checks of types that \<open>from_json\<close> makes before it calls the constructor.\<close>

definition check_types :: "raw_event \<Rightarrow> unit journal" where
  "check_types r =
     bind_journal (check_version (raw_version r)) (\<lambda>_.
     bind_journal (as_str ''event_id'' (raw_id r)) (\<lambda>_.
     bind_journal (as_str ''wave'' (raw_wave r)) (\<lambda>_.
     bind_journal (as_str ''kind'' (raw_kind r)) (\<lambda>_.
     bind_journal (as_str ''producer'' (raw_producer r)) (\<lambda>_.
     bind_journal (as_str ''ts'' (raw_ts r)) (\<lambda>_.
     bind_journal (as_int ''producer_seq'' (raw_seq r)) (\<lambda>_.
     bind_journal (as_parent (raw_parent r)) (\<lambda>_.
     bind_journal (as_dict (raw_fields r)) (\<lambda>_. Inr ())))))))))"

definition from_json :: "journal_lib \<Rightarrow> pyval \<Rightarrow> journal_event journal" where
  "from_json L v =
     bind_journal (as_str ''json'' v) (\<lambda>s.
     bind_journal (or_raise (json_value L s) (Journal ''json'' ''invalid_json'')) (\<lambda>d.
     bind_journal (check (is_mapping d) ''json'' ''wrong_type'') (\<lambda>_.
     bind_journal (check_present d required_event_keys) (\<lambda>_.
     bind_journal (check (set (map fst (py_items d)) \<subseteq> set (map PStr required_event_keys)) ''fields'' ''unexpected_key'') (\<lambda>_.
     bind_journal (check_types (raw_of_dict d)) (\<lambda>_. make_event L (raw_of_dict d)))))))"

text \<open>Bytes of an \<open>event.json\<close> blob as an event.\<close>

definition event_of_blob :: "journal_lib \<Rightarrow> string \<Rightarrow> journal_event journal" where
  "event_of_blob L b =
     bind_journal (or_raise (utf8_decode L b) (Journal ''event.json'' ''invalid_utf8'')) (\<lambda>s. from_json L (PStr s))"

definition same_append_payload :: "journal_lib \<Rightarrow> journal_event \<Rightarrow> journal_event \<Rightarrow> bool \<Rightarrow> bool journal" where
  "same_append_payload L old new compare_ts =
     (if je_id old \<noteq> je_id new \<or> je_wave old \<noteq> je_wave new \<or> je_kind old \<noteq> je_kind new \<or>
         je_producer old \<noteq> je_producer new \<or> je_seq old \<noteq> je_seq new \<or> je_parent old \<noteq> je_parent new \<or>
         (compare_ts \<and> je_ts old \<noteq> je_ts new)
      then Inr False
      else bind_journal (or_raise (json_text L (je_fields old)) (Raised ValueError)) (\<lambda>a.
           bind_journal (or_raise (json_text L (je_fields new)) (Raised ValueError)) (\<lambda>b. Inr (a = b))))"

section \<open>Git commands\<close>

text \<open>
  The commands the module runs.  \<open>git_argv\<close> is the command line after \<open>git -C repo\<close>; the input of
  \<open>cat-file --batch\<close>, \<open>hash-object\<close> and \<open>mktree\<close> is their argument here, and \<open>commit-tree\<close> also gets the name,
  the address and the date of author and committer.
\<close>

datatype git_command =
    SymbolicRef string
  | VerifyRef string
  | RevListParents int string
  | CatFileBatch string
  | ShowObjectFormat
  | HashObject string
  | MkTree string
  | CommitTree string "string option" string "string \<times> string" string
  | UpdateRef string string string

fun git_argv :: "git_command \<Rightarrow> string list" where
  "git_argv (SymbolicRef r) = [''symbolic-ref'', ''--quiet'', r]"
| "git_argv (VerifyRef r) = [''rev-parse'', ''--verify'', ''--quiet'', r]"
| "git_argv (RevListParents n r) = [''rev-list'', ''--parents'', ''--max-count='' @ int_str n, r]"
| "git_argv (CatFileBatch inp) = [''cat-file'', ''--batch'']"
| "git_argv ShowObjectFormat = [''rev-parse'', ''--show-object-format'']"
| "git_argv (HashObject inp) = [''hash-object'', ''-w'', ''--stdin'']"
| "git_argv (MkTree inp) = [''mktree'']"
| "git_argv (CommitTree t p m who date) =
     [''commit-tree'', t] @ (case p of None \<Rightarrow> [] | Some c \<Rightarrow> [''-p'', c]) @ [''-m'', m]"
| "git_argv (UpdateRef r new old) = [''update-ref'', ''--no-deref'', r, new, old]"

datatype git_reply = Completed int string string | TimedOut | NotRunnable

datatype 'a git_run = Return 'a | Raise journal_exn | Call git_command "git_reply \<Rightarrow> 'a git_run"

primrec run_then :: "'a git_run \<Rightarrow> ('a \<Rightarrow> 'b git_run) \<Rightarrow> 'b git_run" where
  "run_then (Return x) f = f x"
| "run_then (Raise e) f = Raise e"
| "run_then (Call c k) f = Call c (\<lambda>r. run_then (k r) f)"

definition given :: "'a journal \<Rightarrow> ('a \<Rightarrow> 'b git_run) \<Rightarrow> 'b git_run" where
  "given r f = (case r of Inl e \<Rightarrow> Raise e | Inr x \<Rightarrow> f x)"

text \<open>An argument with a null byte raises before the process starts.\<close>

definition run_git :: "git_command \<Rightarrow> (int \<times> string \<times> string) git_run" where
  "run_git c =
     (if list_ex (\<lambda>a. CHR 0x00 \<in> set a) (git_argv c) then Raise (Raised ValueError)
      else Call c (\<lambda>r. case r of
             Completed rc out err \<Rightarrow> Return (rc, out, err)
           | TimedOut \<Rightarrow> Raise (Journal ''git'' ''timeout'')
           | NotRunnable \<Rightarrow> Raise (Journal ''git'' ''unavailable'')))"

definition checked_git :: "git_command \<Rightarrow> string git_run" where
  "checked_git c =
     run_then (run_git c) (\<lambda>(rc, out, err).
       if rc \<noteq> 0 then Raise (Journal ''git'' ''command_failed'') else Return out)"

section \<open>Reading a chain\<close>

text \<open>\<open>b.find(newline, start)\<close> and \<open>b[i:j]\<close>, where a negative index counts from the end.\<close>

definition slice_index :: "int \<Rightarrow> string \<Rightarrow> nat" where
  "slice_index i b = nat (min (int (length b)) (if i < 0 then max 0 (int (length b) + i) else i))"

definition py_slice :: "int \<Rightarrow> int \<Rightarrow> string \<Rightarrow> string" where
  "py_slice i j b = take (slice_index j b - slice_index i b) (drop (slice_index i b) b)"

definition find_newline :: "int \<Rightarrow> string \<Rightarrow> int" where
  "find_newline i b =
     (let rest = drop (slice_index i b) b
      in if CHR 0x0A \<in> set rest then int (slice_index i b + length (takeWhile (\<lambda>c. c \<noteq> CHR 0x0A) rest)) else - 1)"

definition bytes_space :: "char \<Rightarrow> bool" where
  "bytes_space c = (let n = (of_char c :: nat) in (9 \<le> n \<and> n \<le> 13) \<or> n = 32)"

fun bytes_split :: "string \<Rightarrow> string list" where
  "bytes_split [] = []"
| "bytes_split (c # cs) =
     (if bytes_space c then bytes_split cs
      else (c # takeWhile (\<lambda>x. \<not> bytes_space x) cs) # bytes_split (dropWhile (\<lambda>x. \<not> bytes_space x) cs))"

definition blob_requests :: "string list \<Rightarrow> string" where
  "blob_requests ids = concat (map (\<lambda>c. c @ '':event.json'' @ [CHR 0x0A]) ids)"

text \<open>One turn of the loop of \<open>_cat_batch\<close>: the content read at an offset and the next offset.\<close>

definition batch_entry :: "string \<Rightarrow> int \<Rightarrow> (string \<times> int) journal" where
  "batch_entry resp offset =
     (let header_end = find_newline offset resp
      in bind_journal (check (0 \<le> header_end) ''event.json'' ''truncated_cat_file_response'') (\<lambda>_.
         let header = bytes_split (py_slice offset header_end resp)
         in bind_journal (check (length header = 3 \<and> header ! 1 = ''blob'') ''event.json'' ''invalid_blob_header'') (\<lambda>_.
            bind_journal (or_raise (py_int_of_str (header ! 2)) (Journal ''event.json'' ''invalid_blob_size'')) (\<lambda>size.
            let content_start = header_end + 1; content_end = content_start + size
            in bind_journal (check (content_end < int (length resp) \<and> py_slice content_end (content_end + 1) resp = [CHR 0x0A])
                   ''event.json'' ''truncated_blob'') (\<lambda>_.
               Inr (py_slice content_start content_end resp, content_end + 1))))))"

fun batch_entries :: "string \<Rightarrow> int \<Rightarrow> string list \<Rightarrow> string list journal" where
  "batch_entries resp offset [] = bind_journal (check (offset = int (length resp)) ''event.json'' ''unexpected_cat_file_data'') (\<lambda>_. Inr [])"
| "batch_entries resp offset (c # cs) =
     bind_journal (batch_entry resp offset) (\<lambda>(content, next).
     bind_journal (batch_entries resp next cs) (\<lambda>contents. Inr (content # contents)))"

definition cat_batch :: "string list \<Rightarrow> string list git_run" where
  "cat_batch ids = run_then (checked_git (CatFileBatch (blob_requests ids))) (\<lambda>resp. given (batch_entries resp 0 ids) Return)"

definition ascii_text :: "string \<Rightarrow> string journal" where
  "ascii_text b = (if list_all (\<lambda>c. of_char c < (128::nat)) b then Inr b else Inl (Raised ValueError))"

definition commit_lines :: "string \<Rightarrow> string list list" where
  "commit_lines out = rev (map py_split_ws (filter (\<lambda>l. l \<noteq> []) (py_splitlines out)))"

text \<open>The loop over the commits; \<open>prev\<close> is the line before, when the index is above 0.\<close>

fun check_linear :: "string list option \<Rightarrow> string list list \<Rightarrow> unit journal" where
  "check_linear prev [] = Inr ()"
| "check_linear prev (commit # rest) =
     (let parents = tl commit
      in if 1 < length parents \<or> (prev \<noteq> None \<and> length parents \<noteq> 1) then Inl (Journal ''chain'' ''non_linear'')
         else (case prev of
             None \<Rightarrow> check_linear (Some commit) rest
           | Some [] \<Rightarrow> Inl (Raised IndexError)
           | Some (p # _) \<Rightarrow>
               if hd parents \<noteq> p then Inl (Journal ''chain'' ''non_linear'') else check_linear (Some commit) rest))"

fun commit_ids :: "string list list \<Rightarrow> string list journal" where
  "commit_ids [] = Inr []"
| "commit_ids ([] # rest) = Inl (Raised IndexError)"
| "commit_ids ((c # ps) # rest) = bind_journal (commit_ids rest) (\<lambda>cs. Inr (c # cs))"

fun chain_events :: "journal_lib \<Rightarrow> string \<Rightarrow> string list \<Rightarrow> string list \<Rightarrow> (string \<times> journal_event) list journal" where
  "chain_events L w (c # cs) (b # bs) =
     bind_journal (event_of_blob L b) (\<lambda>e.
     bind_journal (check (je_wave e = w) ''wave'' ''ref_event_mismatch'') (\<lambda>_.
     bind_journal (chain_events L w cs bs) (\<lambda>es. Inr ((c, e) # es))))"
| "chain_events L w [] [] = Inr []"
| "chain_events L w _ _ = Inl (Raised ValueError)"

definition max_events_default :: int where
  "max_events_default = 100000"

definition commits_of_output :: "int \<Rightarrow> string \<Rightarrow> string list journal" where
  "commits_of_output max_events out =
     bind_journal (ascii_text out) (\<lambda>text.
     let commits = commit_lines text
     in bind_journal (check_linear None commits) (\<lambda>_.
        bind_journal (check (int (length commits) \<le> max_events) ''max_events'' ''truncated'') (\<lambda>_. commit_ids commits)))"

definition read_events :: "journal_lib \<Rightarrow> pyval \<Rightarrow> string list \<Rightarrow> (string \<times> journal_event) list git_run" where
  "read_events L wave ids =
     (if ids = [] then Return []
      else run_then (cat_batch ids) (\<lambda>contents.
           given (bind_journal (validate_wave_id wave) (\<lambda>w. chain_events L w ids contents)) Return))"

definition read_listed :: "journal_lib \<Rightarrow> pyval \<Rightarrow> int \<Rightarrow> string \<Rightarrow> (string \<times> journal_event) list git_run" where
  "read_listed L wave limit ref =
     run_then (checked_git (RevListParents (limit + 1) ref)) (\<lambda>out. given (commits_of_output limit out) (read_events L wave))"

definition read_chain :: "journal_lib \<Rightarrow> pyval \<Rightarrow> pyval \<Rightarrow> (string \<times> journal_event) list git_run" where
  "read_chain L wave max_events =
     given (wave_ref wave) (\<lambda>ref.
     given (case max_events of PInt n \<Rightarrow> if n < 0 then Inl (Journal ''max_events'' ''invalid_limit'') else Inr n
            | _ \<Rightarrow> Inl (Journal ''max_events'' ''invalid_limit'')) (\<lambda>limit.
     run_then (run_git (VerifyRef ref)) (\<lambda>(rc, out, err).
     if rc = 1 \<and> err = [] then Return []
     else if rc \<noteq> 0 then Raise (Journal ''git'' ''command_failed'')
     else read_listed L wave limit ref)))"

definition read_journal :: "journal_lib \<Rightarrow> pyval \<Rightarrow> pyval \<Rightarrow> journal_event list git_run" where
  "read_journal L wave max_events = run_then (read_chain L wave max_events) (\<lambda>chain. Return (map snd chain))"

section \<open>Appending an event\<close>

datatype append_reply = Appended string string | Duplicate | Refused string

record append_args =
  aa_wave :: pyval
  aa_kind :: pyval
  aa_fields :: pyval
  aa_producer :: pyval
  aa_seq :: pyval
  aa_parent :: pyval
  aa_ts :: pyval
  aa_retries :: pyval

record prepared =
  pr_event :: journal_event
  pr_payload :: string
  pr_date :: string
  pr_ts_given :: bool
  pr_retries :: nat

definition event_id_for_payload :: "journal_lib \<Rightarrow> string \<Rightarrow> pyval \<Rightarrow> pyval \<Rightarrow> string journal" where
  "event_id_for_payload L w producer seq =
     bind_journal (as_str ''producer'' producer) (\<lambda>p.
     bind_journal (as_int ''producer_seq'' seq) (\<lambda>n.
     bind_journal (validate_producer_seq n) (\<lambda>_. derive_event_id L w p n)))"

definition normalize_append_event :: "journal_lib \<Rightarrow> string \<Rightarrow> append_args \<Rightarrow> prepared journal" where
  "normalize_append_event L now a =
     bind_journal (validate_wave_id (aa_wave a)) (\<lambda>w.
     bind_journal (as_str ''kind'' (aa_kind a)) (\<lambda>k.
     bind_journal (as_dict (aa_fields a)) (\<lambda>f.
     bind_journal (case aa_retries a of PInt n \<Rightarrow> if n < 1 then Inl (Journal ''max_retries'' ''invalid_limit'') else Inr (nat n)
               | _ \<Rightarrow> Inl (Journal ''max_retries'' ''invalid_limit'')) (\<lambda>retries.
     bind_journal (as_str ''ts'' (if aa_ts a = PNone then PStr now else aa_ts a)) (\<lambda>ts.
     bind_journal (git_date L ts) (\<lambda>date.
     bind_journal (or_raise (json_text L f) (Raised ValueError)) (\<lambda>t.
     bind_journal (or_raise (json_value L t) (Raised ValueError)) (\<lambda>cloned.
     bind_journal (event_id_for_payload L w (aa_producer a) (aa_seq a)) (\<lambda>i.
     bind_journal (make_event L \<lparr>raw_version = PInt 1, raw_id = PStr i, raw_wave = PStr w, raw_kind = PStr k,
         raw_producer = aa_producer a, raw_seq = aa_seq a, raw_parent = aa_parent a, raw_ts = PStr ts, raw_fields = cloned\<rparr>) (\<lambda>e.
     bind_journal (to_json L e) (\<lambda>json.
     bind_journal (or_raise (utf8_encode L json) (Raised ValueError)) (\<lambda>payload.
     Inr \<lparr>pr_event = e, pr_payload = payload, pr_date = date, pr_ts_given = (aa_ts a \<noteq> PNone), pr_retries = retries\<rparr>))))))))))))"

definition is_symbolic_ref :: "string \<Rightarrow> bool git_run" where
  "is_symbolic_ref ref =
     run_then (run_git (SymbolicRef ref)) (\<lambda>(rc, out, err).
       if rc = 0 then Return True else if rc = 1 then Return False else Raise (Journal ''git'' ''command_failed''))"

definition check_existing_event ::
    "journal_lib \<Rightarrow> (string \<times> journal_event) list \<Rightarrow> journal_event \<Rightarrow> bool \<Rightarrow> append_reply option journal" where
  "check_existing_event L chain e ts_given =
     (case map_of (rev (map (\<lambda>ce. (je_id (snd ce), snd ce)) chain)) (je_id e) of
        None \<Rightarrow> Inr None
      | Some old \<Rightarrow> bind_journal (same_append_payload L old e ts_given) (\<lambda>same.
          Inr (Some (if same then Duplicate else Refused ''event_id_conflict''))))"

definition stripped :: "string git_run \<Rightarrow> (string \<Rightarrow> 'b git_run) \<Rightarrow> 'b git_run" where
  "stripped p f = run_then p (\<lambda>out. given (ascii_text out) (\<lambda>t. f (py_strip t)))"

definition old_value_of :: "string option \<Rightarrow> (string \<Rightarrow> 'b git_run) \<Rightarrow> 'b git_run" where
  "old_value_of old_tip f =
     (case old_tip of
        Some c \<Rightarrow> f c
      | None \<Rightarrow> stripped (checked_git ShowObjectFormat) (\<lambda>fmt.
          if fmt = ''sha1'' then f (replicate 40 CHR ''0'')
          else if fmt = ''sha256'' then f (replicate 64 CHR ''0'')
          else Raise (Journal ''git'' ''unsupported_object_format'')))"

definition publish_event_attempt ::
    "(string \<times> string) \<Rightarrow> string \<Rightarrow> string option \<Rightarrow> prepared \<Rightarrow> string option git_run" where
  "publish_event_attempt who ref old_tip p =
     old_value_of old_tip (\<lambda>old_value.
     stripped (checked_git (HashObject (pr_payload p))) (\<lambda>blob.
     stripped (checked_git (MkTree (''100644 blob '' @ blob @ [CHR 0x09] @ ''event.json'' @ [CHR 0x0A]))) (\<lambda>tree.
     let e = pr_event p;
         message = ''journal '' @ je_wave e @ '' '' @ je_id e @ '' '' @ je_kind e
     in stripped (checked_git (CommitTree tree old_tip message who (pr_date p))) (\<lambda>new_tip.
        run_then (run_git (UpdateRef ref new_tip old_value)) (\<lambda>(rc, out, err).
          Return (if rc = 0 then Some new_tip else None))))))"

text \<open>One attempt after the chain was read; \<open>retry\<close> is the rest of the loop.\<close>

definition append_attempt ::
    "journal_lib \<Rightarrow> (string \<times> string) \<Rightarrow> prepared \<Rightarrow> append_reply git_run \<Rightarrow> (string \<times> journal_event) list \<Rightarrow> append_reply git_run" where
  "append_attempt L who p retry chain =
     (let e = pr_event p
      in given (check_existing_event L chain e (pr_ts_given p)) (\<lambda>existing.
         case existing of
           Some reply \<Rightarrow> Return reply
         | None \<Rightarrow>
             if (case je_parent e of None \<Rightarrow> False | Some c \<Rightarrow> c \<notin> set (map (je_id \<circ> snd) chain))
             then Return (Refused ''unknown_causal_parent'')
             else run_then (publish_event_attempt who (ref_name (je_wave e)) (if chain = [] then None else Some (fst (last chain))) p)
                    (\<lambda>new_tip. case new_tip of
                       Some c \<Rightarrow> Return (Appended (je_id e) c)
                     | None \<Rightarrow> retry)))"

primrec append_attempts :: "journal_lib \<Rightarrow> (string \<times> string) \<Rightarrow> prepared \<Rightarrow> nat \<Rightarrow> append_reply git_run" where
  "append_attempts L who p 0 = Return (Refused ''cas_exhausted'')"
| "append_attempts L who p (Suc n) =
     run_then (is_symbolic_ref (ref_name (je_wave (pr_event p)))) (\<lambda>symbolic.
       if symbolic then Return (Refused ''symbolic_ref'')
       else run_then (read_chain L (PStr (je_wave (pr_event p))) (PInt max_events_default))
              (append_attempt L who p (append_attempts L who p n)))"

definition append_normalized :: "journal_lib \<Rightarrow> (string \<times> string) \<Rightarrow> prepared \<Rightarrow> append_reply git_run" where
  "append_normalized L who p =
     given (wave_ref (PStr (je_wave (pr_event p)))) (\<lambda>_. append_attempts L who p (pr_retries p))"

text \<open>\<open>append\<close> turns \<open>JournalError\<close>, \<open>TypeError\<close> and \<open>ValueError\<close> into a reply; other exceptions leave it.\<close>

primrec answered :: "append_reply git_run \<Rightarrow> append_reply git_run" where
  "answered (Return r) = Return r"
| "answered (Raise e) =
     (case e of
        Journal field reason \<Rightarrow> Return (Refused reason)
      | Raised x \<Rightarrow> if x = TypeError \<or> x = ValueError then Return (Refused ''invalid_event'') else Raise e)"
| "answered (Call c k) = Call c (\<lambda>r. answered (k r))"

definition append_event :: "journal_lib \<Rightarrow> (string \<times> string) \<Rightarrow> string \<Rightarrow> append_args \<Rightarrow> append_reply git_run" where
  "append_event L who now a = answered (given (normalize_append_event L now a) (append_normalized L who))"

end
