(* ===== verification/JournalGit.thy ===== *)
theory JournalGit
  imports WaveJournal
begin

text \<open>
  What the journal relies on in Git, and the callers that share a repository.  A repository is seen through
  its blobs, the trees that hold one \<open>event.json\<close>, its commits and its refs; \<open>git_allows\<close> is the documented
  behaviour of each command, with failures and timeouts (after which a ref may or may not have moved).  A
  property about Git takes a relation that stays within it.  Callers are programs whose commands interleave.
\<close>

section \<open>Repositories\<close>

record git_view =
  gv_blobs :: "string \<rightharpoonup> string"
  gv_trees :: "string \<rightharpoonup> string"
  gv_commits :: "string \<rightharpoonup> string \<times> string list"
  gv_tips :: "string \<rightharpoonup> string"

definition hex_char :: "char \<Rightarrow> bool" where
  "hex_char c = (let n = (of_char c :: nat) in (48 \<le> n \<and> n \<le> 57) \<or> (97 \<le> n \<and> n \<le> 102))"

definition object_id :: "string \<Rightarrow> bool" where
  "object_id s \<longleftrightarrow> list_all hex_char s \<and> list_ex (\<lambda>c. c \<noteq> CHR ''0'') s"

definition null_id :: "string \<Rightarrow> bool" where
  "null_id s \<longleftrightarrow> list_all (\<lambda>c. c = CHR ''0'') s"

definition content_of :: "git_view \<Rightarrow> string \<Rightarrow> string option" where
  "content_of g c =
     (case gv_commits g c of None \<Rightarrow> None
      | Some (t, ps) \<Rightarrow> (case gv_trees g t of None \<Rightarrow> None | Some b \<Rightarrow> gv_blobs g b))"

definition objects_grow :: "git_view \<Rightarrow> git_view \<Rightarrow> bool" where
  "objects_grow g g' \<longleftrightarrow>
     gv_blobs g \<subseteq>\<^sub>m gv_blobs g' \<and> gv_trees g \<subseteq>\<^sub>m gv_trees g' \<and> gv_commits g \<subseteq>\<^sub>m gv_commits g'"

definition git_ok :: "git_view \<Rightarrow> bool" where
  "git_ok g \<longleftrightarrow> (\<forall>c \<in> dom (gv_commits g). object_id c)"

text \<open>A linear history, newest commit first: each commit has the next one as its only parent, the last has none.\<close>

fun history :: "(string \<rightharpoonup> string \<times> string list) \<Rightarrow> string list \<Rightarrow> bool" where
  "history C [] = True"
| "history C (c # cs) = ((case C c of None \<Rightarrow> False | Some (t, ps) \<Rightarrow> ps = take 1 cs) \<and> history C cs)"

section \<open>Commands\<close>

fun rev_list_lines :: "string list \<Rightarrow> string list" where
  "rev_list_lines [] = []"
| "rev_list_lines (c # cs) = join_with '' '' (c # take 1 cs) # rev_list_lines cs"

definition unlines :: "string list \<Rightarrow> string" where
  "unlines ls = concat (map (\<lambda>l. l @ [CHR 0x0A]) ls)"

definition batch_record :: "string \<Rightarrow> string \<Rightarrow> string" where
  "batch_record i b = i @ '' blob '' @ nat_digits (length b) @ [CHR 0x0A] @ b @ [CHR 0x0A]"

definition tree_entry :: "string \<Rightarrow> string" where
  "tree_entry b = ''100644 blob '' @ b @ [CHR 0x09] @ ''event.json'' @ [CHR 0x0A]"

definition prints_id :: "string \<Rightarrow> (string \<Rightarrow> bool) \<Rightarrow> bool" where
  "prints_id out P \<longleftrightarrow> (\<exists>i. out = i @ [CHR 0x0A] \<and> object_id i \<and> P i)"

text \<open>What the output of a command that exits with \<open>rc\<close> says.\<close>

fun git_answers :: "git_command \<Rightarrow> git_view \<Rightarrow> int \<Rightarrow> string \<Rightarrow> string \<Rightarrow> git_view \<Rightarrow> bool" where
  "git_answers (SymbolicRef r) g rc out err g' = True"
| "git_answers (VerifyRef r) g rc out err g' =
     ((rc = 0 \<longrightarrow> gv_tips g r \<noteq> None) \<and> (rc = 1 \<and> err = [] \<longrightarrow> gv_tips g r = None))"
| "git_answers (RevListParents n r) g rc out err g' =
     (rc = 0 \<longrightarrow> (\<forall>c cs. gv_tips g r = Some c \<and> history (gv_commits g) (c # cs) \<and> 0 \<le> n \<longrightarrow>
        out = unlines (take (nat n) (rev_list_lines (c # cs)))))"
| "git_answers (CatFileBatch inp) g rc out err g' =
     (rc = 0 \<longrightarrow> (\<forall>ids bs. inp = blob_requests ids \<and> map (content_of g) ids = map Some bs \<longrightarrow>
        (\<exists>is. length is = length bs \<and> list_all object_id is \<and> out = concat (map2 batch_record is bs))))"
| "git_answers ShowObjectFormat g rc out err g' = True"
| "git_answers (HashObject b) g rc out err g' = (rc = 0 \<longrightarrow> prints_id out (\<lambda>i. gv_blobs g' i = Some b))"
| "git_answers (MkTree inp) g rc out err g' =
     (rc = 0 \<longrightarrow> prints_id out (\<lambda>i. \<forall>b. inp = tree_entry b \<and> object_id b \<longrightarrow> gv_trees g' i = Some b))"
| "git_answers (CommitTree t p m who d) g rc out err g' =
     (rc = 0 \<longrightarrow> prints_id out (\<lambda>i. gv_commits g' i = Some (t, case p of None \<Rightarrow> [] | Some c \<Rightarrow> [c])))"
| "git_answers (UpdateRef r new old) g rc out err g' = (rc = 0 \<longrightarrow> gv_tips g' r = Some new)"

definition ref_moves :: "string \<Rightarrow> string \<Rightarrow> string \<Rightarrow> git_view \<Rightarrow> git_view \<Rightarrow> bool" where
  "ref_moves r new old g g' \<longleftrightarrow>
     gv_tips g' = (gv_tips g)(r \<mapsto> new) \<and> gv_tips g r = (if null_id old then None else Some old)"

text \<open>
  \<open>update-ref\<close> moves a ref under its lock, only from the value it was told, and reports success only after it
  has; no other command moves a ref.  Objects are named by their content and stay.
\<close>

fun git_moves :: "git_command \<Rightarrow> git_view \<Rightarrow> git_reply \<Rightarrow> git_view \<Rightarrow> bool" where
  "git_moves (UpdateRef r new old) g reply g' =
     (case reply of
        Completed rc out err \<Rightarrow> if rc = 0 then ref_moves r new old g g' else gv_tips g' = gv_tips g \<or> ref_moves r new old g g'
      | _ \<Rightarrow> gv_tips g' = gv_tips g \<or> ref_moves r new old g g')"
| "git_moves c g reply g' = (gv_tips g' = gv_tips g)"

definition git_allows :: "git_command \<Rightarrow> git_view \<Rightarrow> git_reply \<Rightarrow> git_view \<Rightarrow> bool" where
  "git_allows c g reply g' \<longleftrightarrow>
     objects_grow g g' \<and> git_ok g' \<and> git_moves c g reply g' \<and>
     (case reply of Completed rc out err \<Rightarrow> git_answers c g rc out err g' | _ \<Rightarrow> True)"

type_synonym git = "git_command \<Rightarrow> git_view \<Rightarrow> git_reply \<Rightarrow> git_view \<Rightarrow> bool"

definition git_sound :: "git \<Rightarrow> bool" where
  "git_sound git \<longleftrightarrow> (\<forall>c g reply g'. git_ok g \<and> git c g reply g' \<longrightarrow> git_allows c g reply g')"

section \<open>Journals in a repository\<close>

text \<open>\<open>chain\<close>, oldest first, is what the ref of wave \<open>w\<close> holds.\<close>

definition stores :: "journal_lib \<Rightarrow> git_view \<Rightarrow> string \<Rightarrow> string \<times> journal_event \<Rightarrow> bool" where
  "stores L g w ce \<longleftrightarrow>
     (case content_of g (fst ce) of None \<Rightarrow> False | Some b \<Rightarrow> event_of_blob L b = Inr (snd ce)) \<and> je_wave (snd ce) = w"

definition journal_is :: "journal_lib \<Rightarrow> git_view \<Rightarrow> string \<Rightarrow> (string \<times> journal_event) list \<Rightarrow> bool" where
  "journal_is L g w chain \<longleftrightarrow>
     gv_tips g (ref_name w) = (if chain = [] then None else Some (fst (last chain))) \<and>
     history (gv_commits g) (rev (map fst chain)) \<and> list_all (stores L g w) chain"

text \<open>Event ids do not repeat, and a causal parent is the id of an earlier event.\<close>

fun ordered_after :: "string list \<Rightarrow> journal_event list \<Rightarrow> bool" where
  "ordered_after seen [] = True"
| "ordered_after seen (e # es) =
     (je_id e \<notin> set seen \<and> (case je_parent e of None \<Rightarrow> True | Some p \<Rightarrow> p \<in> set seen) \<and> ordered_after (seen @ [je_id e]) es)"

definition journals_ok :: "journal_lib \<Rightarrow> git_view \<Rightarrow> bool" where
  "journals_ok L g \<longleftrightarrow>
     git_ok g \<and> (\<forall>w. wave_id_ok w \<longrightarrow> (\<exists>chain. journal_is L g w chain \<and> ordered_after [] (map snd chain)))"

text \<open>Two events with the same envelope whose fields have the same text.\<close>

definition same_event :: "journal_lib \<Rightarrow> journal_event \<Rightarrow> journal_event \<Rightarrow> bool" where
  "same_event L a b \<longleftrightarrow> a\<lparr>je_fields := PNone\<rparr> = b\<lparr>je_fields := PNone\<rparr> \<and> json_text L (je_fields a) = json_text L (je_fields b)"

text \<open>
  What is relied on in \<open>json\<close> and UTF-8: encoded text decodes to itself, and the sorted text of an event whose
  fields were read from JSON reads back as a dict with the same keys and values, the fields up to the order of
  their keys.
\<close>

definition lib_ok :: "journal_lib \<Rightarrow> bool" where
  "lib_ok L \<longleftrightarrow>
     (\<forall>s b. utf8_encode L s = Some b \<longrightarrow> utf8_decode L b = Some s) \<and>
     (\<forall>e t0 t. json_value L t0 = Some (je_fields e) \<and> json_text L (event_value e) = Some t \<longrightarrow>
        (\<exists>items f. json_value L t = Some (PDict items) \<and> distinct (map fst items) \<and>
           set items = set (py_items (event_value (e\<lparr>je_fields := f\<rparr>))) \<and>
           (is_mapping (je_fields e) \<longrightarrow> is_mapping f) \<and> json_text L f = json_text L (je_fields e)))"

section \<open>Callers\<close>

type_synonym journal_call = "prepared \<times> append_reply git_run"

type_synonym journal_world = "git_view \<times> journal_call list"

definition prepares :: "journal_lib \<Rightarrow> prepared \<Rightarrow> bool" where
  "prepares L p \<longleftrightarrow> (\<exists>now a. normalize_append_event L now a = Inr p)"

inductive journal_step :: "journal_lib \<Rightarrow> git \<Rightarrow> journal_world \<Rightarrow> journal_world \<Rightarrow> bool" for L git where
  js_start: "prepares L p \<Longrightarrow> journal_step L git (g, ps) (g, ps @ [(p, answered (append_normalized L who p))])"
| js_call: "git c g reply g' \<Longrightarrow> journal_step L git (g, ps @ (p, Call c k) # qs) (g', ps @ (p, k reply) # qs)"
| js_other: "objects_grow g g' \<Longrightarrow> git_ok g' \<Longrightarrow> (\<forall>w. gv_tips g' (ref_name w) = gv_tips g (ref_name w)) \<Longrightarrow>
    journal_step L git (g, ps) (g', ps)"

inductive journal_run :: "journal_lib \<Rightarrow> git \<Rightarrow> journal_world \<Rightarrow> journal_world \<Rightarrow> bool" for L git where
  jr_refl: "journal_run L git s s"
| jr_step: "journal_run L git s t \<Longrightarrow> journal_step L git t u \<Longrightarrow> journal_run L git s u"

text \<open>One program alone, from the first command to its result.\<close>

inductive runs_alone :: "git \<Rightarrow> 'a git_run \<Rightarrow> git_view \<Rightarrow> 'a journal \<Rightarrow> git_view \<Rightarrow> bool" for git where
  ra_return: "runs_alone git (Return x) g (Inr x) g"
| ra_raise: "runs_alone git (Raise e) g (Inl e) g"
| ra_call: "git c g reply g' \<Longrightarrow> runs_alone git (k reply) g' res g'' \<Longrightarrow> runs_alone git (Call c k) g res g''"

end
