(* ===== verification/JournalText.thy ===== *)
theory JournalText
  imports JournalGit
begin

text \<open>
  The texts Git prints, read back: the lines of \<open>rev-list --parents\<close>, the records of \<open>cat-file --batch\<close>, printed ids,
  decimal sizes, and the linear histories they describe.
\<close>

section \<open>Characters of object ids\<close>

definition plain_char :: "char \<Rightarrow> bool" where
  "plain_char c = (let n = (of_char c :: nat) in 33 \<le> n \<and> n < 127)"

lemma plain_charD:
  assumes "plain_char c"
  shows "\<not> py_isspace c" "\<not> is_line_break c" "\<not> bytes_space c" "c \<noteq> CHR 0x0A" "of_char c < (128::nat)"
    "of_char c \<noteq> (13::nat)" "c \<noteq> CHR 0x00" "of_char c < (127::nat)"
  using assms by (auto simp: plain_char_def py_isspace_def is_line_break_def bytes_space_def Let_def)

lemma hex_plain: "hex_char c \<Longrightarrow> plain_char c"
  by (auto simp: hex_char_def plain_char_def Let_def)

lemma object_id_plain: "object_id s \<Longrightarrow> list_all plain_char s"
  by (auto simp: object_id_def list_all_iff hex_plain)

lemma object_id_nonempty [simp]: "\<not> object_id []"
  by (simp add: object_id_def)

lemma object_id_not_null: "object_id s \<Longrightarrow> \<not> null_id s"
  by (auto simp: object_id_def null_id_def list_all_iff list_ex_iff)

section \<open>Decimal numbers\<close>

lemma digit_chars [simp]:
  "d < 10 \<Longrightarrow> is_digit (char_of (48 + d :: nat))" "d < 10 \<Longrightarrow> of_char (char_of (48 + d :: nat)) = 48 + d"
  by (simp_all add: is_digit_def)

lemma nat_digits_plain: "list_all plain_char (nat_digits n) \<and> nat_digits n \<noteq> [] \<and> list_all is_digit (nat_digits n)"
proof (induction n rule: nat_digits.induct)
  case (1 n)
  have "n < 10 \<Longrightarrow> plain_char (char_of (48 + n))" "plain_char (char_of (48 + n mod 10))" by (simp_all add: plain_char_def Let_def)
  then show ?case using 1 by (subst (1 2 3) nat_digits.simps) auto
qed

lemma digits_value_append:
  "list_all is_digit s \<Longrightarrow> digits_value acc (s @ t) = digits_value (fold (\<lambda>c n. 10 * n + (of_char c - 48)) s acc) t"
  by (induction s arbitrary: acc) auto

lemma digits_value_nat: "digits_value 0 (nat_digits n) = Some n"
proof (induction n rule: nat_digits.induct)
  case (1 n)
  show ?case
  proof (cases "n < 10")
    case True
    then show ?thesis by (subst nat_digits.simps) simp
  next
    case False
    have d: "list_all is_digit (nat_digits (n div 10))" using nat_digits_plain by blast
    have "Some (fold (\<lambda>c n. 10 * n + (of_char c - 48)) (nat_digits (n div 10)) 0) = Some (n div 10)"
      using 1 [OF False] digits_value_append [OF d, of 0 "[]"] by simp
    then show ?thesis using False by (subst nat_digits.simps) (simp add: digits_value_append [OF d])
  qed
qed

lemma strip_plain: "list_all (\<lambda>c. \<not> py_isspace c) s \<Longrightarrow> py_strip s = s"
proof -
  assume a: "list_all (\<lambda>c. \<not> py_isspace c) s"
  have "dropWhile py_isspace s = s" "dropWhile py_isspace (rev s) = rev s"
    using a hd_in_set [of s] hd_in_set [of "rev s"] by (auto simp: dropWhile_eq_self_iff list_all_iff)
  then show ?thesis by (simp add: py_strip_def)
qed

lemma int_of_nat_digits: "py_int_of_str (nat_digits n) = Some (int n)"
proof -
  have p: "list_all plain_char (nat_digits n)" "nat_digits n \<noteq> []" "list_all is_digit (nat_digits n)" using nat_digits_plain by auto
  have s: "py_strip (nat_digits n) = nat_digits n"
    by (rule strip_plain) (use p(1) plain_charD(1) in \<open>auto simp: list_all_iff\<close>)
  obtain c cs where cs: "nat_digits n = c # cs" using p(2) by (cases "nat_digits n") auto
  then have "is_digit c" "c \<noteq> CHR ''-''" "c \<noteq> CHR ''+''" using p(3) by (auto simp: is_digit_def)
  then show ?thesis using digits_value_nat [of n] s unfolding cs by (simp add: py_int_of_str_def parse_digits_def)
qed

section \<open>Printed ids\<close>

lemma strip_line:
  assumes "list_all plain_char s" shows "py_strip (s @ [CHR 0x0A]) = s"
proof -
  have a: "list_all (\<lambda>c. \<not> py_isspace c) s" using assms plain_charD(1) by (auto simp: list_all_iff)
  have nl: "py_isspace (CHR 0x0A)" by (simp add: py_isspace_def)
  show ?thesis
  proof (cases s)
    case Nil
    then show ?thesis using nl by (simp add: py_strip_def)
  next
    case (Cons c cs)
    then have "dropWhile py_isspace (s @ [CHR 0x0A]) = s @ [CHR 0x0A]" using a by simp
    moreover have "dropWhile py_isspace (rev s) = rev s"
      using a hd_in_set [of "rev s"] by (auto simp: dropWhile_eq_self_iff list_all_iff)
    ultimately show ?thesis using nl by (simp add: py_strip_def)
  qed
qed

lemma ascii_plain:
  assumes "list_all plain_char s" shows "ascii_text (s @ [CHR 0x0A]) = Inr (s @ [CHR 0x0A])"
  using assms plain_charD(5) by (auto simp: ascii_text_def list_all_iff)

section \<open>Lines of rev-list\<close>

lemma printed_line:
  "list_all (\<lambda>c. \<not> is_line_break c \<and> of_char c \<noteq> (13::nat)) l \<Longrightarrow>
   splitlines_from cur (l @ CHR 0x0A # rest) = (rev cur @ l) # splitlines_from [] rest"
  by (induction l arbitrary: cur) (auto simp: is_line_break_def Let_def)

lemma splitlines_unlines:
  "list_all (list_all (\<lambda>c. \<not> is_line_break c \<and> of_char c \<noteq> (13::nat))) ls \<Longrightarrow> py_splitlines (unlines ls) = ls"
  unfolding py_splitlines_def unlines_def by (induction ls) (auto simp: printed_line)

lemma split_ws_word:
  assumes "list_all plain_char w" "w \<noteq> []" "rest = [] \<or> py_isspace (hd rest)"
  shows "py_split_ws (w @ rest) = w # py_split_ws rest"
proof -
  obtain c cs where w: "w = c # cs" using assms(2) by (cases w) auto
  have ns: "\<not> py_isspace d" if "d \<in> set w" for d using assms(1) that plain_charD(1) by (auto simp: list_all_iff)
  have tw: "takeWhile (\<lambda>x. \<not> py_isspace x) (cs @ rest) = cs" "dropWhile (\<lambda>x. \<not> py_isspace x) (cs @ rest) = rest"
    using ns w assms(3) by (auto simp: takeWhile_append2 dropWhile_append2 takeWhile_eq_Nil_iff dropWhile_eq_self_iff)
  show ?thesis using ns w tw by simp
qed

definition plain_words :: "string list \<Rightarrow> bool" where
  "plain_words ws \<longleftrightarrow> list_all (\<lambda>w. list_all plain_char w \<and> w \<noteq> []) ws"

lemma split_ws_join: "plain_words ws \<Longrightarrow> py_split_ws (join_with '' '' ws) = ws"
proof (induction ws rule: induct_list012)
  case (2 w)
  then show ?case using split_ws_word [of w "[]"] by (simp add: plain_words_def)
next
  case (3 v w ws)
  have "py_isspace (CHR '' '')" by (simp add: py_isspace_def)
  then show ?case using 3 split_ws_word [of v "CHR '' '' # join_with '' '' (w # ws)"] by (simp add: plain_words_def)
qed simp

fun parent_lines :: "string list \<Rightarrow> string list list" where
  "parent_lines [] = []"
| "parent_lines (c # cs) = (c # take 1 cs) # parent_lines cs"

lemma rev_list_lines_join: "rev_list_lines cs = map (join_with '' '') (parent_lines cs)"
  by (induction cs) auto

lemma parent_lines_length [simp]: "length (parent_lines cs) = length cs"
  by (induction cs) auto

lemma parent_lines_words: "list_all object_id cs \<Longrightarrow> list_all plain_words (parent_lines cs)"
proof (induction cs)
  case (Cons c cs)
  then show ?case by (cases cs) (auto simp: plain_words_def object_id_plain)
qed simp

lemma join_chars: "plain_words ws \<Longrightarrow> c \<in> set (join_with '' '' ws) \<Longrightarrow> plain_char c \<or> c = CHR '' ''"
  by (induction ws rule: induct_list012) (auto simp: plain_words_def list_all_iff)

lemma join_nonempty: "plain_words ws \<Longrightarrow> ws \<noteq> [] \<Longrightarrow> join_with '' '' ws \<noteq> []"
  by (cases ws rule: remdups_adj.cases) (auto simp: plain_words_def)

lemma commit_lines_text:
  assumes "list_all plain_words ls" "[] \<notin> set ls"
  shows "commit_lines (unlines (map (join_with '' '') ls)) = rev ls"
    and "ascii_text (unlines (map (join_with '' '') ls)) = Inr (unlines (map (join_with '' '') ls))"
proof -
  have ok: "\<not> is_line_break c \<and> of_char c \<noteq> (13::nat) \<and> of_char c < (128::nat)"
    if "l \<in> set ls" "c \<in> set (join_with '' '' l)" for c l
  proof -
    have "plain_char c \<or> c = CHR '' ''" using join_chars assms(1) that by (auto simp: list_all_iff)
    then show ?thesis using plain_charD(2,5,6) by (auto simp: is_line_break_def)
  qed
  have "py_splitlines (unlines (map (join_with '' '') ls)) = map (join_with '' '') ls"
    by (rule splitlines_unlines) (use ok in \<open>auto simp: list_all_iff\<close>)
  moreover have "filter (\<lambda>l. l \<noteq> []) (map (join_with '' '') ls) = map (join_with '' '') ls"
    using assms join_nonempty by (intro filter_True) (auto simp: list_all_iff)
  moreover have "map py_split_ws (map (join_with '' '') ls) = ls"
    using assms(1) by (simp add: list_all_iff split_ws_join map_idI)
  ultimately show "commit_lines (unlines (map (join_with '' '') ls)) = rev ls" by (simp add: commit_lines_def)
  show "ascii_text (unlines (map (join_with '' '') ls)) = Inr (unlines (map (join_with '' '') ls))"
    using ok by (auto simp: ascii_text_def unlines_def list_all_iff)
qed

section \<open>Linear histories\<close>

lemma check_linear_append:
  "check_linear prev (xs @ ys) =
     bind_journal (check_linear prev xs) (\<lambda>_. check_linear (if xs = [] then prev else Some (last xs)) ys)"
  by (induction xs arbitrary: prev) (auto simp: Let_def split: option.splits list.splits)

lemma parent_lines_hd: "ls = take n (parent_lines cs) \<Longrightarrow> ls \<noteq> [] \<Longrightarrow> \<exists>ps. hd ls = hd cs # ps \<and> cs \<noteq> []"
  by (cases cs; cases n) auto

lemma check_linear_lines: "check_linear None (rev (take n (parent_lines cs))) = Inr ()"
proof (induction cs arbitrary: n)
  case (Cons c cs)
  show ?case
  proof (cases n)
    case (Suc m)
    show ?thesis
    proof (cases "take m (parent_lines cs) = []")
      case True
      have "check_linear None [c # take 1 cs] = Inr ()" by (cases cs) auto
      then show ?thesis using Suc True by (simp del: take_eq_Nil)
    next
      case False
      obtain ps where ps: "hd (take m (parent_lines cs)) = hd cs # ps" "cs \<noteq> []"
        using parent_lines_hd [OF refl False] by blast
      have "check_linear (Some (hd cs # ps)) [c # take 1 cs] = Inr ()" using ps(2) by (cases cs) auto
      then show ?thesis using Cons False Suc ps(1) by (simp add: check_linear_append last_rev)
    qed
  qed simp
qed simp

lemma commit_ids_lines: "commit_ids (rev (parent_lines cs)) = Inr (rev cs)"
proof -
  have app: "commit_ids (ls @ [c # ps]) = bind_journal (commit_ids ls) (\<lambda>js. Inr (js @ [c]))" for ls c ps
    by (induction ls rule: commit_ids.induct) (auto simp: bind_journal_def split: sum.splits)
  show ?thesis by (induction cs) (auto simp: app)
qed

lemma parent_lines_take: "length cs \<le> n \<Longrightarrow> take n (parent_lines cs) = parent_lines cs"
  by simp

lemma commits_of_rev_list:
  assumes "list_all object_id cs" "0 \<le> limit"
  shows "commits_of_output limit (unlines (take (nat (limit + 1)) (rev_list_lines cs))) =
    (if int (length cs) \<le> limit then Inr (rev cs) else Inl (Journal ''max_events'' ''truncated''))"
proof -
  let ?ls = "take (nat (limit + 1)) (parent_lines cs)"
  have ls: "list_all plain_words ?ls" "[] \<notin> set ?ls"
    using parent_lines_words [OF assms(1)] by (auto simp: list_all_iff dest!: in_set_takeD) (induction cs, auto)
  have printed: "take (nat (limit + 1)) (rev_list_lines cs) = map (join_with '' '') ?ls"
    by (simp add: rev_list_lines_join take_map)
  have len: "int (length (rev ?ls)) \<le> limit \<longleftrightarrow> int (length cs) \<le> limit" using assms(2) by auto
  show ?thesis
  proof (cases "int (length cs) \<le> limit")
    case True
    then have "?ls = parent_lines cs" using assms(2) by (intro parent_lines_take) auto
    then show ?thesis
      using True check_linear_lines [of "length cs" cs] commit_lines_text [OF ls]
      by (simp add: commits_of_output_def printed commit_ids_lines)
  next
    case False
    then show ?thesis
      using check_linear_lines [of "nat (limit + 1)" cs] commit_lines_text [OF ls] len
      by (simp add: commits_of_output_def printed)
  qed
qed

lemma history_ids: "history (gv_commits g) cs \<Longrightarrow> git_ok g \<Longrightarrow> list_all object_id cs"
  by (induction cs) (auto simp: git_ok_def dom_def split: option.splits)

lemma history_unique: "history C (c # xs) \<Longrightarrow> history C (c # ys) \<Longrightarrow> xs = ys"
proof (induction xs arbitrary: c ys)
  case Nil
  then show ?case by (cases ys) (auto split: option.splits)
next
  case (Cons x xs)
  then obtain zs where "ys = x # zs" by (cases ys) (auto split: option.splits)
  moreover have "history C (x # xs)" "history C (x # zs)" using Cons.prems calculation by (auto split: option.splits)
  ultimately show ?case using Cons.IH by blast
qed

lemma history_suffix: "history C (xs @ ys) \<Longrightarrow> history C ys"
  by (induction xs) auto

lemma history_distinct: "history C cs \<Longrightarrow> distinct cs"
proof (induction cs)
  case (Cons c cs)
  have "c \<notin> set cs"
  proof
    assume "c \<in> set cs"
    then obtain xs ys where cs: "cs = xs @ c # ys" using split_list by fastforce
    then have "history C (c # ys)" using Cons.prems history_suffix [of C "c # xs" "c # ys"] by simp
    then have "cs = ys" using history_unique Cons.prems by blast
    then show False using cs by auto
  qed
  then show ?case using Cons by simp
qed simp

lemma history_mono: "history C cs \<Longrightarrow> C \<subseteq>\<^sub>m C' \<Longrightarrow> history C' cs"
  by (induction cs) (auto simp: map_le_def dom_def split: option.splits)

section \<open>Records of cat-file\<close>

lemma slice_index_nat [simp]: "k \<le> length b \<Longrightarrow> slice_index (int k) b = k"
  by (simp add: slice_index_def)

lemma py_slice_nat: "i \<le> j \<Longrightarrow> j \<le> length b \<Longrightarrow> py_slice (int i) (int j) b = take (j - i) (drop i b)"
  by (simp add: py_slice_def)

lemma py_slice_mid: "py_slice (int (length p)) (int (length p + length m)) (p @ m @ q) = m"
  by (subst py_slice_nat) simp_all

lemma find_newline_at:
  assumes "CHR 0x0A \<notin> set h"
  shows "find_newline (int (length p)) (p @ h @ CHR 0x0A # q) = int (length p + length h)"
proof -
  have "takeWhile (\<lambda>c. c \<noteq> CHR 0x0A) (h @ CHR 0x0A # q) = h" using assms by (auto simp: takeWhile_append)
  then show ?thesis by (simp add: find_newline_def Let_def)
qed

lemma bytes_split_word:
  assumes "list_all plain_char w" "w \<noteq> []" "rest = [] \<or> bytes_space (hd rest)"
  shows "bytes_split (w @ rest) = w # bytes_split rest"
proof -
  obtain c cs where w: "w = c # cs" using assms(2) by (cases w) auto
  have ns: "\<not> bytes_space d" if "d \<in> set w" for d using assms(1) that plain_charD(3) by (auto simp: list_all_iff)
  have tw: "takeWhile (\<lambda>x. \<not> bytes_space x) (cs @ rest) = cs" "dropWhile (\<lambda>x. \<not> bytes_space x) (cs @ rest) = rest"
    using ns w assms(3) by (auto simp: takeWhile_append2 dropWhile_append2 takeWhile_eq_Nil_iff dropWhile_eq_self_iff)
  show ?thesis using ns w tw by simp
qed

lemma batch_header:
  assumes "object_id i"
  shows "bytes_split (i @ '' blob '' @ nat_digits n) = [i, ''blob'', nat_digits n]"
    and "CHR 0x0A \<notin> set (i @ '' blob '' @ nat_digits n)"
proof -
  have d: "list_all plain_char (nat_digits n)" "nat_digits n \<noteq> []" using nat_digits_plain by auto
  have i: "list_all plain_char i" "i \<noteq> []" using assms object_id_plain by auto
  have sp: "bytes_space (CHR '' '')" by (simp add: bytes_space_def)
  have "bytes_split (''blob'' @ CHR '' '' # nat_digits n) = [''blob'', nat_digits n]"
    using bytes_split_word [of "''blob''" "CHR '' '' # nat_digits n"] bytes_split_word [OF d, of "[]"] sp
    by (simp add: plain_char_def)
  then show "bytes_split (i @ '' blob '' @ nat_digits n) = [i, ''blob'', nat_digits n]"
    using bytes_split_word [OF i, of "CHR '' '' # ''blob'' @ CHR '' '' # nat_digits n"] sp by simp
  show "CHR 0x0A \<notin> set (i @ '' blob '' @ nat_digits n)"
    using i d plain_charD(4) by (auto simp: list_all_iff)
qed

lemma batch_entry_record:
  assumes "object_id i"
  shows "batch_entry (p @ batch_record i b @ q) (int (length p)) = Inr (b, int (length (p @ batch_record i b)))"
proof -
  define h where "h = i @ '' blob '' @ nat_digits (length b)"
  have rec: "p @ batch_record i b @ q = p @ h @ CHR 0x0A # b @ CHR 0x0A # q" by (simp add: batch_record_def h_def)
  let ?r = "p @ h @ CHR 0x0A # b @ CHR 0x0A # q"
  have hend: "find_newline (int (length p)) ?r = int (length p + length h)"
    by (rule find_newline_at) (use batch_header(2) [OF assms] in \<open>simp add: h_def\<close>)
  have hd: "py_slice (int (length p)) (int (length p + length h)) ?r = h" by (rule py_slice_mid)
  have fields: "bytes_split h = [i, ''blob'', nat_digits (length b)]" unfolding h_def by (rule batch_header(1) [OF assms])
  define st en where "st = int (length p + length h + 1)" and "en = int (length p + length h + 1 + length b)"
  have body: "py_slice st en ?r = b"
    using py_slice_mid [of "p @ h @ [CHR 0x0A]" b "CHR 0x0A # q"] by (simp add: st_def en_def)
  have nl: "py_slice en (en + 1) ?r = [CHR 0x0A]"
    using py_slice_mid [of "p @ h @ [CHR 0x0A] @ b" "[CHR 0x0A]" q] by (simp add: en_def ac_simps)
  have idx: "int (length p + length h) + 1 = st" "st + int (length b) = en" "en < int (length ?r)"
    "en + 1 = int (length (p @ batch_record i b))" by (simp_all add: st_def en_def batch_record_def h_def)
  show ?thesis
    unfolding rec idx(4) [symmetric] batch_entry_def Let_def hend hd fields idx(1)
    using idx(3) by (simp add: int_of_nat_digits idx(2) body nl)
qed

text \<open>\<open>_cat_batch\<close> reads back what \<open>cat-file --batch\<close> printed, whatever bytes the blobs hold.\<close>

lemma batch_entries_records:
  assumes "length ns = length bs" "list_all object_id ns" "length ids = length bs"
  shows "batch_entries (p @ concat (map2 batch_record ns bs)) (int (length p)) ids = Inr bs"
  using assms
proof (induction ns bs arbitrary: p ids rule: list_induct2)
  case (Cons n ns b bs)
  then obtain c cs where ids: "ids = c # cs" "length cs = length bs" by (cases ids) auto
  have "batch_entry (p @ batch_record n b @ concat (map2 batch_record ns bs)) (int (length p)) =
      Inr (b, int (length (p @ batch_record n b)))" using Cons.prems(1) by (intro batch_entry_record) simp
  moreover have "batch_entries ((p @ batch_record n b) @ concat (map2 batch_record ns bs)) (int (length (p @ batch_record n b))) cs = Inr bs"
    by (rule Cons.IH) (use Cons.prems(1) ids(2) in auto)
  ultimately show ?case unfolding ids(1) by simp
qed simp

end
