(* ===== verification/JournalLaws.thy ===== *)
theory JournalLaws
  imports JournalText
begin

text \<open>
  The rely and guarantee of the journal.  \<open>evolves\<close> is what every command of every caller may do to the
  repository; \<open>safe Q p\<close> says that each command of \<open>p\<close> stays within it, whatever the others do between its commands,
  and that a result satisfies \<open>Q\<close>.
\<close>

section \<open>How journals change\<close>

definition evolves :: "journal_lib \<Rightarrow> git_view \<Rightarrow> git_view \<Rightarrow> bool" where
  "evolves L g g' \<longleftrightarrow>
     objects_grow g g' \<and> journals_ok L g' \<and>
     (\<forall>w chain. wave_id_ok w \<and> journal_is L g w chain \<longrightarrow> (\<exists>late. journal_is L g' w (chain @ late)))"

lemma objects_grow_refl [simp]: "objects_grow g g"
  by (simp add: objects_grow_def)

lemma objects_grow_trans: "objects_grow a b \<Longrightarrow> objects_grow b c \<Longrightarrow> objects_grow a c"
  unfolding objects_grow_def by (blast intro: map_le_trans)

lemma evolves_refl: "journals_ok L g \<Longrightarrow> evolves L g g"
  unfolding evolves_def by (metis append_Nil2 objects_grow_refl)

lemma evolves_trans: "evolves L a b \<Longrightarrow> evolves L b c \<Longrightarrow> evolves L a c"
  unfolding evolves_def by (metis append_assoc objects_grow_trans)

lemma evolvesD: "evolves L g g' \<Longrightarrow> objects_grow g g' \<and> journals_ok L g'"
  by (simp add: evolves_def)

lemma evolves_journal:
  assumes "evolves L g g'" "wave_id_ok w" "journal_is L g w chain"
  obtains late where "journal_is L g' w (chain @ late)"
  using assms unfolding evolves_def by blast

lemma map_le_SomeD: "m \<subseteq>\<^sub>m m' \<Longrightarrow> m x = Some y \<Longrightarrow> m' x = Some y"
  by (auto simp: map_le_def dom_def)

lemma content_grows:
  assumes "objects_grow g g'" "content_of g c = Some b" shows "content_of g' c = Some b"
proof -
  obtain t ps i where "gv_commits g c = Some (t, ps)" "gv_trees g t = Some i" "gv_blobs g i = Some b"
    using assms(2) by (auto simp: content_of_def split: option.splits)
  then have "gv_commits g' c = Some (t, ps)" "gv_trees g' t = Some i" "gv_blobs g' i = Some b"
    using assms(1) map_le_SomeD by (auto simp: objects_grow_def)
  then show ?thesis by (simp add: content_of_def)
qed

lemma stores_grows: "objects_grow g g' \<Longrightarrow> stores L g w ce \<Longrightarrow> stores L g' w ce"
  by (auto simp: stores_def content_grows split: option.splits)

lemma journal_grows:
  assumes "journal_is L g w chain" "objects_grow g g'" "gv_tips g' (ref_name w) = gv_tips g (ref_name w)"
  shows "journal_is L g' w chain"
  using assms stores_grows [OF assms(2)] history_mono
  by (auto simp: journal_is_def objects_grow_def list_all_iff)

lemma journals_okD:
  assumes "journals_ok L g" "wave_id_ok w"
  obtains chain where "journal_is L g w chain" "ordered_after [] (map snd chain)"
  using assms by (auto simp: journals_ok_def)

lemma quiet_evolves:
  assumes "journals_ok L g" "objects_grow g g'" "git_ok g'" "\<forall>w. gv_tips g' (ref_name w) = gv_tips g (ref_name w)"
  shows "evolves L g g'"
proof -
  have keep: "journal_is L g' w chain" if "journal_is L g w chain" for w chain
    using journal_grows [OF that assms(2)] assms(4) by blast
  then have "journals_ok L g'" using assms(1,3) unfolding journals_ok_def by blast
  then show ?thesis using keep assms(2) unfolding evolves_def by (metis append_Nil2)
qed

section \<open>A ref holds one journal\<close>

lemma history_same_hd:
  assumes "history C xs" "history C ys" "xs \<noteq> []" "ys \<noteq> []" "hd xs = hd ys"
  shows "xs = ys"
  using assms history_unique [of C "hd xs" "tl xs" "tl ys"] by (metis list.collapse)

lemma stores_event_unique: "stores L g w (c, e) \<Longrightarrow> stores L g w (c, e') \<Longrightarrow> e = e'"
  by (auto simp: stores_def split: option.splits)

lemma journal_unique:
  assumes "journal_is L g w a" "journal_is L g w b"
  shows "a = b"
proof -
  have empty: "a = [] \<longleftrightarrow> b = []" using assms by (auto simp: journal_is_def split: if_splits)
  have ids: "map fst a = map fst b"
  proof (cases "a = []")
    case False
    have "rev (map fst a) = rev (map fst b)"
      by (rule history_same_hd [of "gv_commits g"])
        (use assms False empty in \<open>auto simp: journal_is_def hd_rev last_map\<close>)
    then show ?thesis by simp
  qed (use empty in simp)
  have "stores L g w x" if "x \<in> set a \<union> set b" for x using assms that by (auto simp: journal_is_def list_all_iff)
  then show ?thesis using ids
  proof (induction a b rule: list_induct2')
    case (4 x xs y ys)
    then have "fst x = fst y" "stores L g w x" "stores L g w y" by auto
    then have "x = y" using stores_event_unique [of L g w "fst x" "snd x" "snd y"] by (metis prod.collapse)
    then show ?case using 4 by auto
  qed auto
qed

lemma journal_distinct: "journal_is L g w chain \<Longrightarrow> distinct (map fst chain)"
  using history_distinct by (fastforce simp: journal_is_def)

lemma journal_ids: "journal_is L g w chain \<Longrightarrow> git_ok g \<Longrightarrow> list_all object_id (map fst chain)"
  using history_ids [of g "rev (map fst chain)"] by (simp add: journal_is_def)

lemma prefix_of_tip:
  assumes "journal_is L g w (chain @ late)"
    and "gv_tips g (ref_name w) = (if chain = [] then None else Some (fst (last chain)))"
  shows "late = []"
proof (rule ccontr)
  assume late: "late \<noteq> []"
  then have chain: "chain \<noteq> []" "fst (last chain) = fst (last late)" using assms by (auto simp: journal_is_def split: if_splits)
  then have "fst (last late) \<in> set (map fst chain) \<inter> set (map fst late)" using late by (metis IntI image_eqI last_in_set list.set_map)
  then show False using journal_distinct [OF assms(1)] by auto
qed

lemma ref_name_inj [simp]: "ref_name a = ref_name b \<longleftrightarrow> a = b"
  by (simp add: ref_name_def)

lemma ordered_append:
  "ordered_after seen (xs @ [e]) \<longleftrightarrow> ordered_after seen xs \<and> je_id e \<notin> set seen \<union> je_id ` set xs \<and>
     (case je_parent e of None \<Rightarrow> True | Some p \<Rightarrow> p \<in> set seen \<union> je_id ` set xs)"
  by (induction xs arbitrary: seen) (auto split: option.splits)

lemma publish_evolves:
  assumes ok: "journals_ok L g" and g: "objects_grow g g'" "git_ok g'"
    and tips: "gv_tips g' = (gv_tips g)(ref_name w \<mapsto> c)" and j: "journal_is L g w chain"
    and ord: "ordered_after [] (map snd chain @ [e])" and st: "stores L g' w (c, e)"
    and par: "gv_commits g' c = Some (t, if chain = [] then [] else [fst (last chain)])"
  shows "evolves L g g' \<and> journal_is L g' w (chain @ [(c, e)])"
proof -
  have other: "journal_is L g' v ch" if "journal_is L g v ch" "v \<noteq> w" for v ch
    by (rule journal_grows [OF that(1) g(1)]) (use tips that(2) in simp)
  have hist: "history (gv_commits g') (rev (map fst chain))"
    using j g(1) history_mono by (auto simp: journal_is_def objects_grow_def)
  have "take 1 (rev (map fst chain)) = (if chain = [] then [] else [fst (last chain)])"
    by (cases chain rule: rev_cases) auto
  then have new: "journal_is L g' w (chain @ [(c, e)])"
    using tips hist par st j stores_grows [OF g(1)] by (auto simp: journal_is_def list_all_iff)
  have "journals_ok L g'"
    unfolding journals_ok_def
  proof (intro conjI allI impI)
    fix v assume v: "wave_id_ok v"
    show "\<exists>ch. journal_is L g' v ch \<and> ordered_after [] (map snd ch)"
    proof (cases "v = w")
      case True
      then show ?thesis using new ord by (intro exI [of _ "chain @ [(c, e)]"]) simp
    next
      case False
      then show ?thesis using other journals_okD [OF ok v] by metis
    qed
  qed (rule g(2))
  moreover have "\<exists>late. journal_is L g' v (ch @ late)" if "journal_is L g v ch" for v ch
  proof (cases "v = w")
    case True
    then show ?thesis using journal_unique [OF j] that new by blast
  qed (use other [OF that] append_Nil2 in metis)
  ultimately show ?thesis using new g(1) unfolding evolves_def by blast
qed

section \<open>Programs that keep the journals\<close>

primrec safe :: "journal_lib \<Rightarrow> (git_view \<Rightarrow> 'a \<Rightarrow> bool) \<Rightarrow> 'a git_run \<Rightarrow> git_view \<Rightarrow> bool" where
  "safe L Q (Return x) g = Q g x"
| "safe L Q (Raise e) g = True"
| "safe L Q (Call c k) g =
     (\<forall>g1 reply g2. evolves L g g1 \<and> git_allows c g1 reply g2 \<longrightarrow> evolves L g1 g2 \<and> safe L Q (k reply) g2)"

definition stable :: "journal_lib \<Rightarrow> (git_view \<Rightarrow> 'a \<Rightarrow> bool) \<Rightarrow> bool" where
  "stable L Q \<longleftrightarrow> (\<forall>g g' x. Q g x \<and> evolves L g g' \<longrightarrow> Q g' x)"

lemma safe_stable:
  assumes "stable L Q" shows "safe L Q p g \<Longrightarrow> evolves L g g' \<Longrightarrow> safe L Q p g'"
proof (induction p)
  case (Return x)
  then show ?case using assms by (auto simp: stable_def)
next
  case (Call c k)
  show ?case unfolding safe.simps
  proof (intro allI impI)
    fix g1 reply g2 assume a: "evolves L g' g1 \<and> git_allows c g1 reply g2"
    then have "evolves L g g1" using Call.prems(2) evolves_trans by blast
    then show "evolves L g1 g2 \<and> safe L Q (k reply) g2" using Call.prems(1) a unfolding safe.simps by blast
  qed
qed simp

lemma safe_then:
  assumes "safe L R p g" "\<And>x g'. R g' x \<Longrightarrow> safe L Q (f x) g'"
  shows "safe L Q (run_then p f) g"
  using assms(1)
proof (induction p arbitrary: g)
  case (Call c k)
  then show ?case unfolding run_then.simps safe.simps by blast
qed (simp_all add: assms(2))

lemma safe_given:
  assumes "\<And>x. r = Inr x \<Longrightarrow> safe L Q (f x) g" shows "safe L Q (given r f) g"
  using assms by (cases r) (simp_all add: given_def)

lemma safe_answered:
  assumes "safe L Q p g" "\<And>g' reason. Q g' (Refused reason)" shows "safe L Q (answered p) g"
  using assms(1)
proof (induction p arbitrary: g)
  case (Call c k)
  then show ?case unfolding answered.simps safe.simps by blast
qed (simp_all add: assms(2) split: journal_exn.split)

lemma safe_mono: "safe L R p g \<Longrightarrow> (\<And>g' x. R g' x \<Longrightarrow> Q g' x) \<Longrightarrow> safe L Q p g"
proof (induction p arbitrary: g)
  case (Call c k)
  then show ?case unfolding safe.simps by blast
qed simp_all

text \<open>A command that moves no ref keeps the journals; what it answered is all that is learned.\<close>

fun moves_ref :: "git_command \<Rightarrow> bool" where
  "moves_ref (UpdateRef r new old) = True"
| "moves_ref c = False"

lemma allows_quiet: "\<not> moves_ref c \<Longrightarrow> git_allows c g reply g' \<Longrightarrow> gv_tips g' = gv_tips g"
  by (cases c) (auto simp: git_allows_def)

lemma allows_evolves: "\<not> moves_ref c \<Longrightarrow> journals_ok L g \<Longrightarrow> git_allows c g reply g' \<Longrightarrow> evolves L g g'"
  using allows_quiet by (intro quiet_evolves) (auto simp: git_allows_def)

lemma safe_run_git:
  assumes "\<not> moves_ref c"
    and "\<And>g1 rc out err g2. evolves L g g1 \<Longrightarrow> evolves L g1 g2 \<Longrightarrow> git_answers c g1 rc out err g2 \<Longrightarrow>
      gv_tips g2 = gv_tips g1 \<Longrightarrow> Q g2 (rc, out, err)"
  shows "safe L Q (run_git c) g"
proof (cases "list_ex (\<lambda>a. CHR 0x00 \<in> set a) (git_argv c)")
  case False
  have "evolves L g1 g2 \<and> safe L Q (case reply of Completed rc out err \<Rightarrow> Return (rc, out, err)
             | TimedOut \<Rightarrow> Raise (Journal ''git'' ''timeout'') | NotRunnable \<Rightarrow> Raise (Journal ''git'' ''unavailable'')) g2"
    if "evolves L g g1" "git_allows c g1 reply g2" for g1 reply g2
  proof -
    have ev: "evolves L g1 g2" using allows_evolves [OF assms(1)] evolvesD [OF that(1)] that(2) by blast
    show ?thesis
    proof (cases reply)
      case (Completed rc out err)
      have "git_answers c g1 rc out err g2" using that(2) Completed by (simp add: git_allows_def)
      then show ?thesis using assms(2) [OF that(1) ev] allows_quiet [OF assms(1) that(2)] ev Completed by simp
    qed (use ev in simp_all)
  qed
  then have "safe L Q (Call c (\<lambda>reply. case reply of Completed rc out err \<Rightarrow> Return (rc, out, err)
             | TimedOut \<Rightarrow> Raise (Journal ''git'' ''timeout'') | NotRunnable \<Rightarrow> Raise (Journal ''git'' ''unavailable''))) g"
    unfolding safe.simps by blast
  then show ?thesis using False by (simp only: run_git_def if_False)
qed (simp add: run_git_def)

lemma safe_checked_git:
  assumes "\<not> moves_ref c"
    and "\<And>g1 out err g2. evolves L g g1 \<Longrightarrow> evolves L g1 g2 \<Longrightarrow> git_answers c g1 0 out err g2 \<Longrightarrow> Q g2 out"
  shows "safe L Q (checked_git c) g"
  unfolding checked_git_def
  by (rule safe_then [OF safe_run_git [OF assms(1), where Q = "\<lambda>g (rc, out, err). rc = 0 \<longrightarrow> Q g out"]])
    (use assms(2) in \<open>auto split: prod.splits\<close>)

lemma safe_prints:
  assumes "\<not> moves_ref c"
    and "\<And>g1 out err g2. git_answers c g1 0 out err g2 \<Longrightarrow> prints_id out (P g2)"
    and "\<And>g2 i. evolves L g g2 \<Longrightarrow> object_id i \<Longrightarrow> P g2 i \<Longrightarrow> safe L Q (f i) g2"
  shows "safe L Q (stripped (checked_git c) f) g"
  unfolding stripped_def
proof (rule safe_then [where R = "\<lambda>g2 out. evolves L g g2 \<and> prints_id out (P g2)"])
  show "safe L (\<lambda>g2 out. evolves L g g2 \<and> prints_id out (P g2)) (checked_git c) g"
    by (rule safe_checked_git [OF assms(1)]) (use assms(2) evolves_trans in blast)
next
  fix out g2 assume a: "evolves L g g2 \<and> prints_id out (P g2)"
  then obtain i where i: "out = i @ [CHR 0x0A]" "object_id i" "P g2 i" by (auto simp: prints_id_def)
  then have "ascii_text out = Inr out" "py_strip out = i"
    using ascii_plain strip_line object_id_plain by auto
  then show "safe L Q (given (ascii_text out) (\<lambda>t. f (py_strip t))) g2"
    using assms(3) a i by (simp add: given_def)
qed

section \<open>An event read back\<close>

lemma make_event_iff:
  "make_event L r = Inr e \<longleftrightarrow>
     raw_version r = PInt 1 \<and> raw_id r = PStr (je_id e) \<and> raw_wave r = PStr (je_wave e) \<and> wave_id_ok (je_wave e) \<and>
     raw_kind r = PStr (je_kind e) \<and> raw_producer r = PStr (je_producer e) \<and> raw_seq r = PInt (je_seq e) \<and> seq_in_range (je_seq e) \<and>
     raw_parent r = opt_text (je_parent e) \<and> raw_ts r = PStr (je_ts e) \<and> raw_fields r = je_fields e \<and> is_mapping (je_fields e) \<and>
     (\<exists>d. git_date L (je_ts e) = Inr d) \<and> derive_event_id L (je_wave e) (je_producer e) (je_seq e) = Inr (je_id e)"
proof -
  have s: "as_str n v = Inr x \<longleftrightarrow> v = PStr x" for n v x by (cases v) auto
  have i: "as_int n v = Inr x \<longleftrightarrow> v = PInt x" for n v x by (cases v) auto
  have p: "as_parent v = Inr x \<longleftrightarrow> v = opt_text x" for v x by (cases v; cases x) (auto simp: opt_text_def)
  have w: "validate_wave_id v = Inr x \<longleftrightarrow> v = PStr x \<and> wave_id_ok x" for v x by (cases v) auto
  have d: "as_dict v = Inr x \<longleftrightarrow> v = x \<and> is_mapping x" for v x by (auto simp: as_dict_def)
  show ?thesis
    unfolding make_event_def check_version_def validate_producer_seq_def journal_Inr s i p w d by (cases e) auto
qed

definition raw_of_event :: "journal_event \<Rightarrow> raw_event" where
  "raw_of_event e = raw_of_dict (event_value e)"

lemma raw_of_event_fields [simp]:
  "raw_version (raw_of_event e) = PInt 1" "raw_id (raw_of_event e) = PStr (je_id e)" "raw_wave (raw_of_event e) = PStr (je_wave e)"
  "raw_kind (raw_of_event e) = PStr (je_kind e)" "raw_producer (raw_of_event e) = PStr (je_producer e)"
  "raw_seq (raw_of_event e) = PInt (je_seq e)" "raw_parent (raw_of_event e) = opt_text (je_parent e)"
  "raw_ts (raw_of_event e) = PStr (je_ts e)" "raw_fields (raw_of_event e) = je_fields e"
  by (simp_all add: raw_of_event_def raw_of_dict_def event_value_def py_get_def py_get_default_def py_lookup_def)

definition valid_event :: "journal_lib \<Rightarrow> journal_event \<Rightarrow> bool" where
  "valid_event L e \<longleftrightarrow> make_event L (raw_of_event e) = Inr e"

lemma make_event_valid: "make_event L r = Inr e \<Longrightarrow> valid_event L e"
  by (simp add: valid_event_def make_event_iff)

lemma valid_event_fields: "valid_event L e \<Longrightarrow> is_mapping f \<Longrightarrow> valid_event L (e\<lparr>je_fields := f\<rparr>)"
  by (simp add: valid_event_def make_event_iff)

lemma check_types_valid: "valid_event L e \<Longrightarrow> check_types (raw_of_event e) = Inr ()"
  by (auto simp: valid_event_def make_event_iff check_types_def check_version_def as_dict_def opt_text_def split: option.split)

lemma event_keys:
  "distinct (map fst (py_items (event_value e)))" "map fst (py_items (event_value e)) = map PStr required_event_keys"
  by (simp_all add: event_value_def required_event_keys_def)

lemma from_json_items:
  assumes "json_value L t = Some (PDict items)" "distinct (map fst items)" "set items = set (py_items (event_value e))" "valid_event L e"
  shows "from_json L (PStr t) = Inr e"
proof -
  have "map_of items = map_of (py_items (event_value e))"
    using assms(2,3) event_keys(1) by (subst map_of_inject_set) auto
  then have look: "py_lookup (PDict items) k = py_lookup (event_value e) k" for k by (simp add: py_lookup_def)
  then have raw: "raw_of_dict (PDict items) = raw_of_event e"
    by (simp add: raw_of_event_def raw_of_dict_def py_get_def py_get_default_def)
  have "set (map fst items) = set (map PStr required_event_keys)"
    using assms(3) event_keys(2) [of e] by (metis list.set_map)
  moreover have "check_present (PDict items) required_event_keys = Inr ()"
    by (simp add: look required_event_keys_def) (simp add: py_lookup_def event_value_def)
  ultimately show ?thesis
    using assms(1,4) check_types_valid [OF assms(4)] by (simp add: from_json_def raw valid_event_def)
qed

lemma same_event_fields: "json_text L f = json_text L (je_fields e) \<Longrightarrow> same_event L (e\<lparr>je_fields := f\<rparr>) e"
  by (simp add: same_event_def)

lemma event_read_back:
  assumes "lib_ok L" "valid_event L e" "json_value L t0 = Some (je_fields e)" "json_text L (event_value e) = Some t"
    "utf8_encode L t = Some b"
  shows "\<exists>e'. event_of_blob L b = Inr e' \<and> same_event L e' e"
proof -
  obtain items f where i: "json_value L t = Some (PDict items)" "distinct (map fst items)"
    "set items = set (py_items (event_value (e\<lparr>je_fields := f\<rparr>)))" "is_mapping (je_fields e) \<longrightarrow> is_mapping f"
    "json_text L f = json_text L (je_fields e)"
    using assms(1,3,4) unfolding lib_ok_def by metis
  have "valid_event L (e\<lparr>je_fields := f\<rparr>)"
    using assms(2) i(4) valid_event_fields by (simp add: valid_event_def make_event_iff)
  then have "from_json L (PStr t) = Inr (e\<lparr>je_fields := f\<rparr>)" by (rule from_json_items [OF i(1-3)])
  moreover have "utf8_decode L b = Some t" using assms(1,5) by (simp add: lib_ok_def)
  ultimately show ?thesis using same_event_fields [OF i(5)] by (auto simp: event_of_blob_def)
qed

lemma prepared_facts:
  assumes "lib_ok L" "prepares L p"
  obtains e' where "event_of_blob L (pr_payload p) = Inr e'" "same_event L e' (pr_event p)" "wave_id_ok (je_wave (pr_event p))"
proof -
  obtain now a where n: "normalize_append_event L now a = Inr p" using assms(2) by (auto simp: prepares_def)
  obtain w k ts date retries t c i e json b where parts: "json_value L t = Some c"
    "make_event L \<lparr>raw_version = PInt 1, raw_id = PStr i, raw_wave = PStr w, raw_kind = PStr k,
       raw_producer = aa_producer a, raw_seq = aa_seq a, raw_parent = aa_parent a, raw_ts = PStr ts, raw_fields = c\<rparr> = Inr e"
    "to_json L e = Inr json" "utf8_encode L json = Some b"
    "Inr \<lparr>pr_event = e, pr_payload = b, pr_date = date, pr_ts_given = (aa_ts a \<noteq> PNone), pr_retries = retries\<rparr> = (Inr p :: prepared journal)"
    using n unfolding normalize_append_event_def bind_journal_Inr_iff or_raise_Inr_iff by blast
  have "p = \<lparr>pr_event = e, pr_payload = b, pr_date = date, pr_ts_given = (aa_ts a \<noteq> PNone), pr_retries = retries\<rparr>"
    using parts(5) by simp
  then have p: "pr_event p = e" "pr_payload p = b" by simp_all
  have "json_value L t = Some (je_fields e)" "wave_id_ok (je_wave e)" using parts(1,2) by (simp_all add: make_event_iff)
  moreover have "json_text L (event_value e) = Some json" using parts(3) by (simp add: to_json_def or_raise_Inr_iff)
  ultimately show ?thesis
    using that p parts(4) event_read_back [OF assms(1) make_event_valid [OF parts(2)]] by metis
qed

end
