(* ===== verification/JournalRuns.thy ===== *)
theory JournalRuns
  imports JournalLaws
begin

text \<open>
  Reading and publishing keep the journals whatever the other callers do, and a reply of \<open>append\<close> tells the truth.
\<close>

section \<open>Reading\<close>

definition read_prefix :: "journal_lib \<Rightarrow> string \<Rightarrow> git_view \<Rightarrow> (string \<times> journal_event) list \<Rightarrow> bool" where
  "read_prefix L w g chain \<longleftrightarrow> (\<exists>late. journal_is L g w (chain @ late) \<and> ordered_after [] (map snd (chain @ late)))"

lemma ordered_journal:
  assumes "journals_ok L g" "wave_id_ok w" "journal_is L g w chain" shows "ordered_after [] (map snd chain)"
  using journals_okD [OF assms(1,2)] journal_unique [OF assms(3)] by metis

lemma read_prefixI: "journals_ok L g \<Longrightarrow> wave_id_ok w \<Longrightarrow> journal_is L g w (chain @ late) \<Longrightarrow> read_prefix L w g chain"
  using ordered_journal unfolding read_prefix_def by blast

lemma stable_read_prefix:
  assumes "wave_id_ok w" shows "stable L (read_prefix L w)"
  unfolding stable_def
proof (intro allI impI)
  fix g g' chain assume a: "read_prefix L w g chain \<and> evolves L g g'"
  then obtain late where "journal_is L g w (chain @ late)" by (auto simp: read_prefix_def)
  then obtain late' where "journal_is L g' w ((chain @ late) @ late')" using evolves_journal a assms by blast
  then show "read_prefix L w g' chain" using read_prefixI [OF _ assms, of L g' chain "late @ late'"] evolvesD a by auto
qed

lemma chain_events_stored:
  assumes "list_all (stores L g w) chain" "map (content_of g) (map fst chain) = map Some bs"
  shows "chain_events L w (map fst chain) bs = Inr chain"
  using assms
proof (induction chain arbitrary: bs)
  case (Cons ce chain)
  then obtain b bs' where b: "bs = b # bs'" by (cases bs) auto
  then have "event_of_blob L b = Inr (snd ce)" "je_wave (snd ce) = w" using Cons.prems by (auto simp: stores_def)
  then show ?case using Cons b by simp
qed simp

lemma stored_contents: "list_all (stores L g w) chain \<Longrightarrow> \<exists>bs. map (content_of g) (map fst chain) = map Some bs"
proof (induction chain)
  case (Cons ce chain)
  then obtain b bs where "content_of g (fst ce) = Some b" "map (content_of g) (map fst chain) = map Some bs"
    by (auto simp: stores_def split: option.splits)
  then show ?case by (intro exI [of _ "b # bs"]) simp
qed simp

lemma cat_batch_answer:
  assumes "git_answers (CatFileBatch (blob_requests (map fst chain))) g 0 out err g'" "list_all (stores L g w) chain"
  shows "\<exists>bs. batch_entries out 0 (map fst chain) = Inr bs \<and> chain_events L w (map fst chain) bs = Inr chain"
proof -
  obtain bs where bs: "map (content_of g) (map fst chain) = map Some bs" using stored_contents [OF assms(2)] by blast
  then obtain ns where "length ns = length bs" "list_all object_id ns" "out = concat (map2 batch_record ns bs)"
    using assms(1) by fastforce
  moreover have "length (map fst chain) = length bs" using arg_cong [OF bs, of length] by simp
  ultimately have "batch_entries out 0 (map fst chain) = Inr bs" using batch_entries_records [of ns bs "map fst chain" "[]"] by simp
  then show ?thesis using chain_events_stored [OF assms(2) bs] by blast
qed

lemma rev_list_answer:
  assumes "git_answers (RevListParents (limit + 1) (ref_name w)) g 0 out err g'" "journal_is L g w chain" "chain \<noteq> []" "0 \<le> limit" "git_ok g"
  shows "commits_of_output limit out =
    (if int (length chain) \<le> limit then Inr (map fst chain) else Inl (Journal ''max_events'' ''truncated''))"
proof -
  let ?ids = "rev (map fst chain)"
  have h: "history (gv_commits g) ?ids" "gv_tips g (ref_name w) = Some (hd ?ids)"
    using assms(2,3) by (auto simp: journal_is_def hd_rev last_map)
  have "?ids \<noteq> []" using assms(3) by simp
  then have "?ids = hd ?ids # tl ?ids" by simp
  then have "history (gv_commits g) (hd ?ids # tl ?ids)" using h(1) by metis
  then have "out = unlines (take (nat (limit + 1)) (rev_list_lines (hd ?ids # tl ?ids)))"
    using assms(1,4) h(2) by fastforce
  then have "out = unlines (take (nat (limit + 1)) (rev_list_lines ?ids))" using \<open>?ids = hd ?ids # tl ?ids\<close> by metis
  then show ?thesis using commits_of_rev_list [OF history_ids [OF h(1) assms(5)] assms(4)] by simp
qed

lemma journals_git_ok: "journals_ok L g \<Longrightarrow> git_ok g"
  by (simp add: journals_ok_def)

lemma journal_storesD: "journal_is L g w chain \<Longrightarrow> list_all (stores L g w) chain"
  by (simp add: journal_is_def)

lemma safe_cat_batch:
  assumes w: "wave_id_ok w" and j: "journals_ok L g" "journal_is L g w chain"
  shows "safe L (\<lambda>g' contents. journals_ok L g' \<and> (\<exists>late. journal_is L g' w (chain @ late)) \<and>
     chain_events L w (map fst chain) contents = Inr chain) (cat_batch (map fst chain)) g"
    (is "safe L ?Q _ _")
  unfolding cat_batch_def
proof (rule safe_then [where R = "\<lambda>g' out. \<exists>bs. batch_entries out 0 (map fst chain) = Inr bs \<and> ?Q g' bs"])
  show "safe L (\<lambda>g' out. \<exists>bs. batch_entries out 0 (map fst chain) = Inr bs \<and> ?Q g' bs)
      (checked_git (CatFileBatch (blob_requests (map fst chain)))) g"
  proof (rule safe_checked_git)
    fix g1 out err g2
    assume a: "evolves L g g1" "evolves L g1 g2" "git_answers (CatFileBatch (blob_requests (map fst chain))) g1 0 out err g2"
    have "list_all (stores L g1 w) chain"
      using journal_storesD [OF j(2)] stores_grows evolvesD [OF a(1)] by (auto simp: list_all_iff)
    then obtain bs where bs: "batch_entries out 0 (map fst chain) = Inr bs" "chain_events L w (map fst chain) bs = Inr chain"
      using cat_batch_answer [OF a(3)] by blast
    obtain late where "journal_is L g2 w (chain @ late)" using evolves_journal [OF evolves_trans [OF a(1,2)] w j(2)] by blast
    then show "\<exists>bs. batch_entries out 0 (map fst chain) = Inr bs \<and> ?Q g2 bs" using bs evolvesD [OF a(2)] by blast
  qed simp
next
  fix out g' assume "\<exists>bs. batch_entries out 0 (map fst chain) = Inr bs \<and> ?Q g' bs"
  then show "safe L ?Q (given (batch_entries out 0 (map fst chain)) Return) g'" by (auto simp: given_def)
qed

lemma safe_read_events:
  assumes w: "wave_id_ok w" and j: "journals_ok L g" "journal_is L g w chain"
  shows "safe L (read_prefix L w) (read_events L (PStr w) (map fst chain)) g"
proof (cases "chain = []")
  case True
  then show ?thesis using read_prefixI [OF j(1) w, of "[]" "[]"] j(2) by (simp add: read_events_def)
next
  case False
  have "safe L (read_prefix L w) (run_then (cat_batch (map fst chain)) (\<lambda>contents.
      given (bind_journal (validate_wave_id (PStr w)) (\<lambda>w. chain_events L w (map fst chain) contents)) Return)) g"
    by (rule safe_then [OF safe_cat_batch [OF w j]]) (use w in \<open>auto simp: given_def intro: read_prefixI\<close>)
  then show ?thesis using False by (simp add: read_events_def)
qed

definition lists_chain :: "journal_lib \<Rightarrow> string \<Rightarrow> int \<Rightarrow> git_view \<Rightarrow> string \<Rightarrow> bool" where
  "lists_chain L w n g out \<longleftrightarrow> journals_ok L g \<and> (\<exists>chain. journal_is L g w chain \<and>
     (commits_of_output n out = Inr (map fst chain) \<or> (\<exists>e. commits_of_output n out = Inl e)))"

lemma safe_rev_list:
  assumes w: "wave_id_ok w" and j: "journals_ok L g" "gv_tips g (ref_name w) \<noteq> None" and n: "0 \<le> n"
  shows "safe L (lists_chain L w n) (checked_git (RevListParents (n + 1) (ref_name w))) g"
  unfolding checked_git_def
proof (rule safe_then [OF safe_run_git [where Q = "\<lambda>g' (rc, out, err). rc = 0 \<longrightarrow> lists_chain L w n g' out"]], simp, goal_cases)
  case (1 g1 rc out err g2)
  obtain c where c: "journal_is L g w c" using journals_okD [OF j(1) w] by blast
  then have "c \<noteq> []" using j(2) by (auto simp: journal_is_def)
  moreover obtain l where l: "journal_is L g1 w (c @ l)" using evolves_journal [OF 1(1) w c] by blast
  ultimately have ne: "c @ l \<noteq> []" by simp
  have "journal_is L g2 w (c @ l)" using journal_grows [OF l] evolvesD [OF 1(2)] 1(4) by simp
  moreover have "rc = 0 \<Longrightarrow> commits_of_output n out =
      (if int (length (c @ l)) \<le> n then Inr (map fst (c @ l)) else Inl (Journal ''max_events'' ''truncated''))"
    using rev_list_answer [OF _ l ne n journals_git_ok] 1(3) evolvesD [OF 1(1)] by blast
  ultimately show ?case
    using evolvesD [OF 1(2)] by (cases "int (length (c @ l)) \<le> n") (auto simp: lists_chain_def simp del: map_append)
qed (auto split: prod.splits)

lemma safe_read_listed:
  assumes w: "wave_id_ok w" and j: "journals_ok L g" "gv_tips g (ref_name w) \<noteq> None" and n: "0 \<le> n"
  shows "safe L (read_prefix L w) (read_listed L (PStr w) n (ref_name w)) g"
  unfolding read_listed_def
proof (rule safe_then [OF safe_rev_list [OF assms]], rule safe_given)
  fix out g2 ids assume a: "lists_chain L w n g2 out" "commits_of_output n out = Inr ids"
  then show "safe L (read_prefix L w) (read_events L (PStr w) ids) g2"
    using safe_read_events [OF w] by (auto simp: lists_chain_def)
qed

lemma safe_read_chain:
  assumes w: "wave_id_ok w" and j: "journals_ok L g"
  shows "safe L (read_prefix L w) (read_chain L (PStr w) limit) g"
proof -
  have step: "safe L (read_prefix L w) (run_then (run_git (VerifyRef (ref_name w))) (\<lambda>(rc, out, err).
     if rc = 1 \<and> err = [] then Return [] else if rc \<noteq> 0 then Raise (Journal ''git'' ''command_failed'')
     else read_listed L (PStr w) n (ref_name w))) g" if "0 \<le> n" for n
  proof (rule safe_then [OF safe_run_git [where Q = "\<lambda>g2 (rc, out, err). journals_ok L g2 \<and>
      (rc = 0 \<longrightarrow> gv_tips g2 (ref_name w) \<noteq> None)"]], simp, goal_cases)
    case (2 x g')
    then have ok: "journals_ok L g'" by (auto split: prod.splits)
    have "read_prefix L w g' []" using journals_okD [OF ok w] by (auto simp: read_prefix_def)
    then show ?case using 2 safe_read_listed [OF w _ _ that] by (auto split: prod.splits)
  qed (use evolvesD in auto)
  have "wave_ref (PStr w) = Inr (ref_name w)" using w by (simp add: wave_ref_def)
  then show ?thesis using step by (cases limit) (simp_all add: read_chain_def given_def)
qed

section \<open>Publishing\<close>

definition reply_true :: "journal_lib \<Rightarrow> prepared \<Rightarrow> git_view \<Rightarrow> append_reply \<Rightarrow> bool" where
  "reply_true L p g r =
     (let e = pr_event p
      in case r of
           Appended i c \<Rightarrow> i = je_id e \<and> (\<exists>chain e'. journal_is L g (je_wave e) chain \<and> (c, e') \<in> set chain \<and> same_event L e' e)
         | Duplicate \<Rightarrow> (\<exists>chain c e'. journal_is L g (je_wave e) chain \<and> (c, e') \<in> set chain \<and>
              same_append_payload L e' e (pr_ts_given p) = Inr True)
         | Refused reason \<Rightarrow> True)"

lemma stable_reply:
  assumes "wave_id_ok (je_wave (pr_event p))" shows "stable L (reply_true L p)"
  unfolding stable_def
proof (intro allI impI)
  fix g g' r assume a: "reply_true L p g r \<and> evolves L g g'"
  have keep: "\<exists>chain'. journal_is L g' (je_wave (pr_event p)) chain' \<and> set chain \<subseteq> set chain'"
    if "journal_is L g (je_wave (pr_event p)) chain" for chain
    using evolves_journal [OF conjunct2 [OF a] assms that] by (metis set_append Un_upper1)
  show "reply_true L p g' r"
    using a keep by (cases r) (auto simp: reply_true_def Let_def, (meson subsetD)+)
qed

text \<open>The moment of publication: the ref is still what was read, so the journal gets exactly one event more.\<close>

lemma publish_moment:
  assumes w: "wave_id_ok w" and ev: "evolves L g g1" and pre: "read_prefix L w g chain"
    and allowed: "git_allows (UpdateRef (ref_name w) c old) g1 reply g2"
    and old: "(chain = [] \<and> null_id old) \<or> (chain \<noteq> [] \<and> old = fst (last chain))"
    and st: "stores L g1 w (c, e)" and par: "gv_commits g1 c = Some (t, if chain = [] then [] else [fst (last chain)])"
    and ord: "je_id e \<notin> je_id ` snd ` set chain" "case je_parent e of None \<Rightarrow> True | Some i \<Rightarrow> i \<in> je_id ` snd ` set chain"
  shows "evolves L g1 g2 \<and> (\<forall>out err. reply = Completed 0 out err \<longrightarrow> journal_is L g2 w (chain @ [(c, e)]))"
proof -
  have ok1: "journals_ok L g1" using evolvesD [OF ev] by blast
  have grow: "objects_grow g1 g2" "git_ok g2" using allowed by (auto simp: git_allows_def)
  obtain late where j: "journal_is L g1 w (chain @ late)"
    using pre evolves_journal [OF ev w] unfolding read_prefix_def by (metis append_assoc)
  have moved: "evolves L g1 g2 \<and> journal_is L g2 w (chain @ [(c, e)])" if m: "ref_moves (ref_name w) c old g1 g2"
  proof -
    have "chain \<noteq> [] \<Longrightarrow> object_id old" using old journal_ids [OF j journals_git_ok [OF ok1]] by (auto simp: list_all_iff)
    then have "gv_tips g1 (ref_name w) = (if chain = [] then None else Some (fst (last chain)))"
      using m old object_id_not_null by (auto simp: ref_moves_def)
    then have j1: "journal_is L g1 w chain" using prefix_of_tip [OF j] j by simp
    have "ordered_after [] (map snd chain @ [e])"
      unfolding ordered_append using ordered_journal [OF ok1 w j1] ord by (auto simp: image_image split: option.splits)
    then show ?thesis
      using publish_evolves [OF ok1 grow _ j1 _ stores_grows [OF grow(1) st]] m par grow(1)
      by (auto simp: ref_moves_def objects_grow_def dest: map_le_SomeD)
  qed
  have "ref_moves (ref_name w) c old g1 g2 \<or> gv_tips g2 = gv_tips g1" "\<forall>out err. reply = Completed 0 out err \<longrightarrow> ref_moves (ref_name w) c old g1 g2"
    using allowed by (auto simp: git_allows_def split: git_reply.splits if_splits)
  then show ?thesis using moved quiet_evolves [OF ok1 grow] by metis
qed

definition published :: "journal_lib \<Rightarrow> string \<Rightarrow> journal_event \<Rightarrow> git_view \<Rightarrow> string option \<Rightarrow> bool" where
  "published L w e g r \<longleftrightarrow> journals_ok L g \<and> (case r of None \<Rightarrow> True | Some c \<Rightarrow> \<exists>chain. journal_is L g w chain \<and> (c, e) \<in> set chain)"

lemma safe_update_ref:
  assumes w: "wave_id_ok w" and pre: "read_prefix L w g chain"
    and old: "(chain = [] \<and> null_id old) \<or> (chain \<noteq> [] \<and> old = fst (last chain))"
    and st: "stores L g w (c, e)" and par: "gv_commits g c = Some (t, if chain = [] then [] else [fst (last chain)])"
    and ord: "je_id e \<notin> je_id ` snd ` set chain" "case je_parent e of None \<Rightarrow> True | Some i \<Rightarrow> i \<in> je_id ` snd ` set chain"
  shows "safe L (published L w e) (run_then (run_git (UpdateRef (ref_name w) c old)) (\<lambda>(rc, out, err).
      Return (if rc = 0 then Some c else None))) g"
proof -
  have "evolves L g1 g2 \<and> safe L (published L w e) (run_then (case reply of
             Completed rc out err \<Rightarrow> Return (rc, out, err) | TimedOut \<Rightarrow> Raise (Journal ''git'' ''timeout'')
           | NotRunnable \<Rightarrow> Raise (Journal ''git'' ''unavailable'')) (\<lambda>(rc, out, err). Return (if rc = 0 then Some c else None))) g2"
    if "evolves L g g1" "git_allows (UpdateRef (ref_name w) c old) g1 reply g2" for g1 reply g2
  proof -
    have grow: "objects_grow g g1" using evolvesD that(1) by blast
    have st': "stores L g1 w (c, e)" by (rule stores_grows [OF grow st])
    have par': "gv_commits g1 c = Some (t, if chain = [] then [] else [fst (last chain)])"
      using grow par by (auto simp: objects_grow_def dest: map_le_SomeD)
    from publish_moment [OF w that(1) pre that(2) old st' par' ord]
    show ?thesis by (cases reply) (auto simp: published_def dest: evolvesD)
  qed
  then show ?thesis unfolding run_git_def by (simp del: safe.simps(3)) (auto simp: safe.simps(3))
qed

definition tip_of :: "(string \<times> journal_event) list \<Rightarrow> string option" where
  "tip_of chain = (if chain = [] then None else Some (fst (last chain)))"

lemma safe_old_value:
  assumes "chain = [] \<Longrightarrow> (\<And>g' z. evolves L g g' \<Longrightarrow> null_id z \<Longrightarrow> safe L Q (f z) g')"
    and "chain \<noteq> [] \<Longrightarrow> safe L Q (f (fst (last chain))) g"
  shows "safe L Q (old_value_of (tip_of chain) f) g"
proof (cases "chain = []")
  case True
  have zero: "null_id (replicate n CHR ''0'')" for n by (simp add: null_id_def list_all_iff)
  have "safe L Q (stripped (checked_git ShowObjectFormat) (\<lambda>fmt.
          if fmt = ''sha1'' then f (replicate 40 CHR ''0'')
          else if fmt = ''sha256'' then f (replicate 64 CHR ''0'')
          else Raise (Journal ''git'' ''unsupported_object_format''))) g"
    unfolding stripped_def
  proof (rule safe_then [OF safe_checked_git [where Q = "\<lambda>g' out. evolves L g g'"]], goal_cases)
    case (3 out g')
    then show ?case by (intro safe_given) (use assms(1) [OF True 3 zero] in simp)
  qed (auto intro: evolves_trans)
  then show ?thesis using True by (simp add: old_value_of_def tip_of_def)
qed (use assms(2) in \<open>simp add: old_value_of_def tip_of_def\<close>)

text \<open>What a publication carries from command to command, and what it needs to know at the start.\<close>

definition publishing :: "journal_lib \<Rightarrow> string \<Rightarrow> (string \<times> journal_event) list \<Rightarrow> prepared \<Rightarrow> journal_event \<Rightarrow> git_view \<Rightarrow> bool" where
  "publishing L w chain p e g \<longleftrightarrow>
     wave_id_ok w \<and> je_wave e = w \<and> read_prefix L w g chain \<and> event_of_blob L (pr_payload p) = Inr e \<and>
     je_id e \<notin> je_id ` snd ` set chain \<and> (case je_parent e of None \<Rightarrow> True | Some i \<Rightarrow> i \<in> je_id ` snd ` set chain)"

definition old_of :: "(string \<times> journal_event) list \<Rightarrow> string \<Rightarrow> bool" where
  "old_of chain z \<longleftrightarrow> (chain = [] \<and> null_id z) \<or> (chain \<noteq> [] \<and> z = fst (last chain))"

lemma publishing_evolves: "publishing L w chain p e g \<Longrightarrow> evolves L g g' \<Longrightarrow> publishing L w chain p e g'"
  using stable_read_prefix unfolding publishing_def stable_def by blast

lemma grown: "evolves L g g' \<Longrightarrow> gv_blobs g x = Some y \<Longrightarrow> gv_blobs g' x = Some y"
  "evolves L g g' \<Longrightarrow> gv_trees g x = Some y \<Longrightarrow> gv_trees g' x = Some y"
  by (auto dest!: evolvesD simp: objects_grow_def dest: map_le_SomeD)

lemma safe_commit:
  assumes pub: "publishing L w chain p e g" and old: "old_of chain z"
    and tree: "gv_trees g t = Some b" "gv_blobs g b = Some (pr_payload p)"
  shows "safe L (published L w e) (stripped (checked_git (CommitTree t (tip_of chain) m who d)) (\<lambda>new_tip.
        run_then (run_git (UpdateRef (ref_name w) new_tip z)) (\<lambda>(rc, out, err).
          Return (if rc = 0 then Some new_tip else None)))) g"
proof (rule safe_prints [where P = "\<lambda>g' i. gv_commits g' i = Some (t, if chain = [] then [] else [fst (last chain)])"])
  fix g2 c assume a: "evolves L g g2" "gv_commits g2 c = Some (t, if chain = [] then [] else [fst (last chain)])"
  have "content_of g2 c = Some (pr_payload p)" using a(2) grown [OF a(1)] tree by (simp add: content_of_def)
  moreover note pub' = publishing_evolves [OF pub a(1)]
  ultimately show "safe L (published L w e) (run_then (run_git (UpdateRef (ref_name w) c z)) (\<lambda>(rc, out, err).
          Return (if rc = 0 then Some c else None))) g2"
    using pub' old by (intro safe_update_ref [OF _ _ _ _ a(2)]) (auto simp: publishing_def old_of_def stores_def)
qed (auto simp: tip_of_def)

lemma safe_tree:
  assumes pub: "publishing L w chain p e g" and old: "old_of chain z"
    and blob: "object_id b" "gv_blobs g b = Some (pr_payload p)"
  shows "safe L (published L w e)
     (stripped (checked_git (MkTree (''100644 blob '' @ b @ [CHR 0x09] @ ''event.json'' @ [CHR 0x0A]))) (\<lambda>tree.
     stripped (checked_git (CommitTree tree (tip_of chain) m who d)) (\<lambda>new_tip.
        run_then (run_git (UpdateRef (ref_name w) new_tip z)) (\<lambda>(rc, out, err).
          Return (if rc = 0 then Some new_tip else None))))) g"
proof (rule safe_prints [where P = "\<lambda>g' i. gv_trees g' i = Some b"])
  fix g1 out err g2 assume "git_answers (MkTree (''100644 blob '' @ b @ [CHR 0x09] @ ''event.json'' @ [CHR 0x0A])) g1 0 out err g2"
  then show "prints_id out (\<lambda>i. gv_trees g2 i = Some b)" using blob(1) by (auto simp: prints_id_def tree_entry_def)
next
  fix g2 i assume a: "evolves L g g2" "gv_trees g2 i = Some b"
  show "safe L (published L w e) (stripped (checked_git (CommitTree i (tip_of chain) m who d)) (\<lambda>new_tip.
        run_then (run_git (UpdateRef (ref_name w) new_tip z)) (\<lambda>(rc, out, err).
          Return (if rc = 0 then Some new_tip else None)))) g2"
    by (rule safe_commit [OF publishing_evolves [OF pub a(1)] old a(2) grown(1) [OF a(1) blob(2)]])
qed simp

lemma safe_publish:
  assumes pub: "publishing L w chain p e g" and w: "je_wave (pr_event p) = w"
  shows "safe L (published L w e) (publish_event_attempt who (ref_name w) (tip_of chain) p) g"
proof -
  have blob: "safe L (published L w e) (stripped (checked_git (HashObject (pr_payload p))) (\<lambda>blob.
     stripped (checked_git (MkTree (''100644 blob '' @ blob @ [CHR 0x09] @ ''event.json'' @ [CHR 0x0A]))) (\<lambda>tree.
     stripped (checked_git (CommitTree tree (tip_of chain) m who d)) (\<lambda>new_tip.
        run_then (run_git (UpdateRef (ref_name w) new_tip z)) (\<lambda>(rc, out, err).
          Return (if rc = 0 then Some new_tip else None)))))) g1"
    if "publishing L w chain p e g1" "old_of chain z" for z g1 m d
  proof (rule safe_prints [where P = "\<lambda>g' i. gv_blobs g' i = Some (pr_payload p)"], goal_cases)
    case (3 g2 i)
    show ?case by (rule safe_tree [OF publishing_evolves [OF that(1) 3(1)] that(2) 3(2,3)])
  qed simp_all
  show ?thesis
    unfolding publish_event_attempt_def Let_def
  proof (rule safe_old_value)
    fix g' z assume "chain = []" "evolves L g g'" "null_id z"
    then have "publishing L w chain p e g'" "old_of chain z" using publishing_evolves [OF pub] by (auto simp: old_of_def)
    then show "safe L (published L w e) (stripped (checked_git (HashObject (pr_payload p))) (\<lambda>blob.
     stripped (checked_git (MkTree (''100644 blob '' @ blob @ [CHR 0x09] @ ''event.json'' @ [CHR 0x0A]))) (\<lambda>tree.
     stripped (checked_git (CommitTree tree (tip_of chain)
        (''journal '' @ je_wave (pr_event p) @ '' '' @ je_id (pr_event p) @ '' '' @ je_kind (pr_event p)) who (pr_date p))) (\<lambda>new_tip.
        run_then (run_git (UpdateRef (ref_name w) new_tip z)) (\<lambda>(rc, out, err).
          Return (if rc = 0 then Some new_tip else None)))))) g'" by (rule blob)
  qed (use blob [OF pub] in \<open>simp add: old_of_def\<close>)
qed

lemma map_of_ids:
  "map_of (rev (map (\<lambda>ce. (je_id (snd ce), snd ce)) chain)) i = None \<longleftrightarrow> i \<notin> je_id ` snd ` set chain"
  "map_of (rev (map (\<lambda>ce. (je_id (snd ce), snd ce)) chain)) i = Some e \<Longrightarrow> \<exists>c. (c, e) \<in> set chain \<and> je_id e = i"
  by (auto simp: map_of_eq_None_iff image_image dest!: map_of_SomeD) blast

lemma same_event_simps:
  "same_event L a b \<Longrightarrow> je_id a = je_id b" "same_event L a b \<Longrightarrow> je_wave a = je_wave b"
  "same_event L a b \<Longrightarrow> je_parent a = je_parent b"
  by (cases a; cases b; simp add: same_event_def)+

definition retry_safe :: "journal_lib \<Rightarrow> prepared \<Rightarrow> append_reply git_run \<Rightarrow> bool" where
  "retry_safe L p q \<longleftrightarrow> (\<forall>g. journals_ok L g \<longrightarrow> safe L (reply_true L p) q g)"

lemma safe_publish_reply:
  assumes pub: "publishing L (je_wave (pr_event p)) chain p e g" and e: "same_event L e (pr_event p)" and retry: "retry_safe L p q"
  shows "safe L (reply_true L p) (run_then (publish_event_attempt who (ref_name (je_wave (pr_event p))) (tip_of chain) p)
      (\<lambda>new_tip. case new_tip of Some c \<Rightarrow> Return (Appended (je_id (pr_event p)) c) | None \<Rightarrow> q)) g"
proof (rule safe_then [OF safe_publish [OF pub refl]])
  fix r g2 assume r: "published L (je_wave (pr_event p)) e g2 r"
  show "safe L (reply_true L p) (case r of Some c \<Rightarrow> Return (Appended (je_id (pr_event p)) c) | None \<Rightarrow> q) g2"
  proof (cases r)
    case None
    then show ?thesis using retry r by (simp add: retry_safe_def published_def)
  next
    case (Some c)
    then obtain ch where "journal_is L g2 (je_wave (pr_event p)) ch" "(c, e) \<in> set ch" using r by (auto simp: published_def)
    then have "reply_true L p g2 (Appended (je_id (pr_event p)) c)" unfolding reply_true_def Let_def using e by auto
    then show ?thesis using Some by simp
  qed
qed

lemma existing_true:
  assumes "read_prefix L (je_wave (pr_event p)) g chain"
    and "check_existing_event L chain (pr_event p) (pr_ts_given p) = Inr (Some r)"
  shows "reply_true L p g r"
proof -
  obtain old same where o: "map_of (rev (map (\<lambda>ce. (je_id (snd ce), snd ce)) chain)) (je_id (pr_event p)) = Some old"
    "same_append_payload L old (pr_event p) (pr_ts_given p) = Inr same" "r = (if same then Duplicate else Refused ''event_id_conflict'')"
    using assms(2) by (auto simp: check_existing_event_def bind_journal_Inr_iff split: option.splits)
  obtain c where c: "(c, old) \<in> set chain" using map_of_ids(2) [OF o(1)] by blast
  obtain late where "journal_is L g (je_wave (pr_event p)) (chain @ late)" using assms(1) by (auto simp: read_prefix_def)
  moreover have "(c, old) \<in> set (chain @ late)" using c by simp
  ultimately have "reply_true L p g Duplicate" if "same = True" using o(2) unfolding that reply_true_def Let_def append_reply.case by blast
  then show ?thesis using o(3) by (cases same) (simp_all add: reply_true_def)
qed

lemma safe_attempt:
  assumes e: "event_of_blob L (pr_payload p) = Inr e" "same_event L e (pr_event p)" and w: "wave_id_ok (je_wave (pr_event p))"
    and retry: "retry_safe L p q" and pre: "read_prefix L (je_wave (pr_event p)) g chain"
  shows "safe L (reply_true L p) (append_attempt L who p q chain) g"
  unfolding append_attempt_def Let_def
proof (rule safe_given, goal_cases)
  case (1 existing)
  show ?case
  proof (cases existing)
    case None
    then have fresh: "je_id e \<notin> je_id ` snd ` set chain"
      using 1 map_of_ids(1) [of chain] same_event_simps(1) [OF e(2)]
      by (auto simp: check_existing_event_def bind_journal_Inr_iff split: option.splits)
    show ?thesis
    proof (cases "case je_parent (pr_event p) of None \<Rightarrow> False | Some c \<Rightarrow> c \<notin> set (map (je_id \<circ> snd) chain)")
      case False
      then have "publishing L (je_wave (pr_event p)) chain p e g"
        using fresh pre w e same_event_simps(2,3) [OF e(2)] by (auto simp: publishing_def image_image split: option.splits)
      from safe_publish_reply [OF this e(2) retry] show ?thesis using None False by (simp add: tip_of_def)
    qed (use None in \<open>simp add: reply_true_def\<close>)
  next
    case (Some r)
    then show ?thesis using existing_true [OF pre] 1 by simp
  qed
qed

text \<open>Every attempt of an append, under any interference, keeps the journals and ends in a true reply.\<close>

lemma safe_attempts:
  assumes e: "event_of_blob L (pr_payload p) = Inr e" "same_event L e (pr_event p)" and w: "wave_id_ok (je_wave (pr_event p))"
  shows "retry_safe L p (append_attempts L who p n)"
proof (induction n)
  case (Suc n)
  have "safe L (reply_true L p) (append_attempts L who p (Suc n)) g" if ok: "journals_ok L g" for g
    unfolding append_attempts.simps
  proof (rule safe_then [where R = "\<lambda>g' _. journals_ok L g'"])
    show "safe L (\<lambda>g' _. journals_ok L g') (is_symbolic_ref (ref_name (je_wave (pr_event p)))) g"
      unfolding is_symbolic_ref_def
      by (rule safe_then [OF safe_run_git [where Q = "\<lambda>g' _. journals_ok L g'"]]) (auto dest: evolvesD)
  next
    fix symbolic g' assume ok': "journals_ok L g'"
    show "safe L (reply_true L p) (if symbolic then Return (Refused ''symbolic_ref'')
       else run_then (read_chain L (PStr (je_wave (pr_event p))) (PInt max_events_default))
              (append_attempt L who p (append_attempts L who p n))) g'"
      using safe_then [OF safe_read_chain [OF w ok'] safe_attempt [OF e w Suc.IH]] by (simp add: reply_true_def)
  qed
  then show ?case by (simp add: retry_safe_def)
qed (simp add: retry_safe_def reply_true_def)

lemma safe_append:
  assumes "lib_ok L" "prepares L p" "journals_ok L g"
  shows "safe L (reply_true L p) (answered (append_normalized L who p)) g"
proof -
  obtain e where e: "event_of_blob L (pr_payload p) = Inr e" "same_event L e (pr_event p)" "wave_id_ok (je_wave (pr_event p))"
    using prepared_facts [OF assms(1,2)] .
  show ?thesis
    unfolding append_normalized_def
    by (rule safe_answered [OF safe_given]) (use safe_attempts [OF e] assms(3) in \<open>auto simp: retry_safe_def reply_true_def\<close>)
qed

section \<open>Callers together\<close>

definition world_ok :: "journal_lib \<Rightarrow> journal_world \<Rightarrow> bool" where
  "world_ok L s \<longleftrightarrow> journals_ok L (fst s) \<and>
     (\<forall>(p, q) \<in> set (snd s). prepares L p \<and> safe L (reply_true L p) q (fst s))"

lemma prepares_wave: "lib_ok L \<Longrightarrow> prepares L p \<Longrightarrow> wave_id_ok (je_wave (pr_event p))"
  using prepared_facts by metis

lemma journal_step_ok:
  assumes lib: "lib_ok L" and git: "git_sound git" and step: "journal_step L git s t" and ok: "world_ok L s"
  shows "evolves L (fst s) (fst t) \<and> world_ok L t"
proof -
  have keep: "safe L (reply_true L p) q g'" if "prepares L p" "safe L (reply_true L p) q g" "evolves L g g'" for p q g g'
    using safe_stable [OF stable_reply] prepares_wave [OF lib that(1)] that(2,3) by blast
  show ?thesis using step
  proof cases
    case (js_start p g ps who)
    then show ?thesis using ok evolves_refl safe_append [OF lib] by (auto simp: world_ok_def)
  next
    case (js_call c g reply g' ps p k qs)
    have j: "journals_ok L g" and p: "prepares L p" "safe L (reply_true L p) (Call c k) g" using ok js_call by (auto simp: world_ok_def)
    have "git_allows c g reply g'" using git js_call(3) journals_git_ok [OF j] by (simp add: git_sound_def)
    then have ev: "evolves L g g'" and q: "safe L (reply_true L p) (k reply) g'"
      using p(2) evolves_refl [OF j] unfolding safe.simps by blast+
    have "world_ok L t" unfolding world_ok_def js_call(2) fst_conv snd_conv
    proof (intro conjI ballI)
      fix x assume "x \<in> set (ps @ (p, k reply) # qs)"
      then consider "x = (p, k reply)" | "x \<in> set (snd s)" using js_call(1) by auto
      then show "case x of (p, q) \<Rightarrow> prepares L p \<and> safe L (reply_true L p) q g'"
      proof cases
        case 2
        then have "case x of (p, q) \<Rightarrow> prepares L p \<and> safe L (reply_true L p) q g" using ok js_call(1) by (auto simp: world_ok_def)
        then show ?thesis using keep [OF _ _ ev] by (auto split: prod.splits)
      qed (use p(1) q in simp)
    qed (use ev evolvesD in blast)
    then show ?thesis using ev js_call by simp
  next
    case (js_other g g' ps)
    then have ev: "evolves L g g'" using ok quiet_evolves by (auto simp: world_ok_def)
    then show ?thesis using ok js_other keep evolvesD by (fastforce simp: world_ok_def)
  qed
qed

lemma journal_run_ok:
  assumes "journal_run L git s t" "lib_ok L" "git_sound git" "world_ok L s"
  shows "evolves L (fst s) (fst t) \<and> world_ok L t"
  using assms(1,4)
proof induction
  case (jr_refl s)
  then show ?case using evolves_refl unfolding world_ok_def by blast
next
  case (jr_step s t u)
  then show ?case using journal_step_ok [OF assms(2,3)] evolves_trans by blast
qed

end
