(* ===== verification/JournalAlone.thy ===== *)
theory JournalAlone
  imports JournalRuns
begin

text \<open>
  A caller that has the repository to itself, with a Git that answers every command: what reading and
  appending return, exactly.
\<close>

section \<open>A working Git\<close>

text \<open>Every command completes; a conditional one says whether its condition held.\<close>

fun git_replies :: "git_command \<Rightarrow> git_view \<Rightarrow> int \<Rightarrow> string \<Rightarrow> string \<Rightarrow> bool" where
  "git_replies (SymbolicRef r) g rc out err = (rc = 1)"
| "git_replies (VerifyRef r) g rc out err = (if gv_tips g r = None then rc = 1 \<and> err = [] else rc = 0)"
| "git_replies ShowObjectFormat g rc out err = (rc = 0 \<and> out = ''sha1'' @ [CHR 0x0A])"
| "git_replies (UpdateRef r new old) g rc out err = (gv_tips g r = (if null_id old then None else Some old) \<longrightarrow> rc = 0)"
| "git_replies c g rc out err = (rc = 0)"

definition git_works :: "git \<Rightarrow> bool" where
  "git_works git \<longleftrightarrow>
     (\<forall>c g reply g'. git c g reply g' \<longrightarrow> (case reply of Completed rc out err \<Rightarrow> git_replies c g rc out err | _ \<Rightarrow> False))"

primrec always :: "git \<Rightarrow> (git_view \<Rightarrow> 'a journal \<Rightarrow> bool) \<Rightarrow> 'a git_run \<Rightarrow> git_view \<Rightarrow> bool" where
  "always git Q (Return x) g = Q g (Inr x)"
| "always git Q (Raise e) g = Q g (Inl e)"
| "always git Q (Call c k) g = (\<forall>reply g'. git c g reply g' \<longrightarrow> always git Q (k reply) g')"

lemma always_run: "runs_alone git p g res g' \<Longrightarrow> always git Q p g \<Longrightarrow> Q g' res"
  by (induction rule: runs_alone.induct) auto

lemma always_then:
  assumes "always git R p g" "\<And>x g'. R g' (Inr x) \<Longrightarrow> always git Q (f x) g'" "\<And>e g'. R g' (Inl e) \<Longrightarrow> Q g' (Inl e)"
  shows "always git Q (run_then p f) g"
  using assms by (induction p arbitrary: g) simp_all

lemma always_mono: "always git R p g \<Longrightarrow> (\<And>g' r. R g' r \<Longrightarrow> Q g' r) \<Longrightarrow> always git Q p g"
  by (induction p arbitrary: g) auto

definition git_ready :: "git \<Rightarrow> bool" where
  "git_ready git \<longleftrightarrow> git_sound git \<and> git_works git"

definition argv_plain :: "git_command \<Rightarrow> bool" where
  "argv_plain c \<longleftrightarrow> list_all (\<lambda>a. CHR 0x00 \<notin> set a) (git_argv c)"

lemma always_run_git:
  assumes "git_ready git" "git_ok g" "argv_plain c"
    and "\<And>rc out err g'. git_allows c g (Completed rc out err) g' \<Longrightarrow> git_replies c g rc out err \<Longrightarrow> Q g' (Inr (rc, out, err))"
  shows "always git Q (run_git c) g"
proof -
  have "always git Q (case reply of Completed rc out err \<Rightarrow> Return (rc, out, err) | TimedOut \<Rightarrow> Raise (Journal ''git'' ''timeout'')
      | NotRunnable \<Rightarrow> Raise (Journal ''git'' ''unavailable'')) g'" if r: "git c g reply g'" for reply g'
  proof -
    have "git_allows c g reply g'" using assms(1) r assms(2) by (auto simp: git_ready_def git_sound_def)
    moreover have "case reply of Completed rc out err \<Rightarrow> git_replies c g rc out err | _ \<Rightarrow> False"
      using assms(1) r unfolding git_ready_def git_works_def by blast
    ultimately show ?thesis using assms(4) by (cases reply) auto
  qed
  moreover have "\<not> list_ex (\<lambda>a. CHR 0x00 \<in> set a) (git_argv c)" using assms(3) by (auto simp: argv_plain_def list_all_iff list_ex_iff)
  ultimately show ?thesis by (simp add: run_git_def)
qed

fun exits_0 :: "git_command \<Rightarrow> bool" where
  "exits_0 (SymbolicRef r) = False"
| "exits_0 (VerifyRef r) = False"
| "exits_0 (UpdateRef r new old) = False"
| "exits_0 c = True"

lemma exits_0D: "exits_0 c \<Longrightarrow> git_replies c g rc out err \<Longrightarrow> rc = 0" "exits_0 c \<Longrightarrow> \<not> moves_ref c"
  by (cases c; simp)+

lemma always_checked:
  assumes "git_ready git" "git_ok g" "argv_plain c" "exits_0 c"
    and "\<And>out err g'. git_allows c g (Completed 0 out err) g' \<Longrightarrow> git_replies c g 0 out err \<Longrightarrow> Q g' (Inr out)"
  shows "always git Q (checked_git c) g"
  unfolding checked_git_def
proof (rule always_then [OF always_run_git [OF assms(1-3), where Q = "\<lambda>g' r. case r of
    Inr (rc, out, err) \<Rightarrow> rc = 0 \<and> Q g' (Inr out) | Inl e \<Rightarrow> False"]], goal_cases)
  case (1 rc out err g')
  moreover have "rc = 0" by (rule exits_0D(1) [OF assms(4) 1(2)])
  ultimately show ?case using assms(5) by simp
qed (auto split: prod.splits)

lemma allows_answers: "git_allows c g (Completed rc out err) g' \<Longrightarrow> git_answers c g rc out err g'"
  by (simp only: git_allows_def git_reply.case)

definition same_tips :: "git_view \<Rightarrow> git_view \<Rightarrow> bool" where
  "same_tips g g' \<longleftrightarrow> git_ok g' \<and> objects_grow g g' \<and> gv_tips g' = gv_tips g"

lemma same_tips_refl: "git_ok g \<Longrightarrow> same_tips g g"
  by (simp add: same_tips_def)

lemma same_tips_trans: "same_tips a b \<Longrightarrow> same_tips b c \<Longrightarrow> same_tips a c"
  unfolding same_tips_def using objects_grow_trans by auto

lemma same_tips_journal: "same_tips g g' \<Longrightarrow> journal_is L g w chain \<Longrightarrow> journal_is L g' w chain"
  using journal_grows by (simp add: same_tips_def)

lemma same_tipsI: "\<not> moves_ref c \<Longrightarrow> git_allows c g reply g' \<Longrightarrow> same_tips g g'"
  using allows_quiet by (auto simp: same_tips_def git_allows_def)

lemma always_prints:
  assumes "git_ready git" "git_ok g" "argv_plain c" "exits_0 c"
    and "\<And>out err g'. git_answers c g 0 out err g' \<Longrightarrow> prints_id out (P g')"
    and "\<And>g' i. same_tips g g' \<Longrightarrow> object_id i \<Longrightarrow> P g' i \<Longrightarrow> always git Q (f i) g'"
  shows "always git Q (stripped (checked_git c) f) g"
  unfolding stripped_def
proof (rule always_then [OF always_checked [OF assms(1-4), where Q = "\<lambda>g' r. case r of
    Inr out \<Rightarrow> same_tips g g' \<and> prints_id out (P g') | Inl e \<Rightarrow> False"]], goal_cases)
  case (1 out err g')
  then show ?case using assms(5) same_tipsI [OF exits_0D(2) [OF assms(4)] 1(1)] by (auto simp: git_allows_def)
next
  case (2 out g')
  then obtain i where i: "out = i @ [CHR 0x0A]" "object_id i" "P g' i" by (auto simp: prints_id_def)
  then have "ascii_text out = Inr out" "py_strip out = i" using ascii_plain strip_line object_id_plain by auto
  then show ?case using assms(6) 2 i by (simp add: given_def)
qed simp

section \<open>Reading alone\<close>

definition read_result :: "git_view \<Rightarrow> int \<Rightarrow> (string \<times> journal_event) list \<Rightarrow> git_view \<Rightarrow> (string \<times> journal_event) list journal \<Rightarrow> bool" where
  "read_result g n chain g' res \<longleftrightarrow> same_tips g g' \<and>
     res = (if int (length chain) \<le> n then Inr chain else Inl (Journal ''max_events'' ''truncated''))"

lemma ref_plain: "wave_id_ok w \<Longrightarrow> CHR 0x00 \<notin> set (ref_name w)"
  by (auto simp: wave_id_ok_def ref_name_def wave_id_char_def list_all_iff split: list.splits)

lemma int_str_plain: "CHR 0x00 \<notin> set (int_str n)"
proof -
  have "CHR 0x00 \<notin> set (nat_digits m)" for m using nat_digits_plain [of m] plain_charD(7) by (auto simp: list_all_iff)
  then show ?thesis by (simp add: int_str_def)
qed

lemma always_cat_batch:
  assumes "git_ready git" "git_ok g" "list_all (stores L g w) chain"
  shows "always git (\<lambda>g' r. same_tips g g' \<and> (\<exists>bs. r = Inr bs \<and> chain_events L w (map fst chain) bs = Inr chain))
    (cat_batch (map fst chain)) g"
  unfolding cat_batch_def
proof (rule always_then [OF always_checked [OF assms(1,2), where Q = "\<lambda>g' r. same_tips g g' \<and> (\<exists>out bs. r = Inr out \<and>
      batch_entries out 0 (map fst chain) = Inr bs \<and> chain_events L w (map fst chain) bs = Inr chain)"]], goal_cases)
  case (3 out err g')
  from cat_batch_answer [OF allows_answers [OF 3(1)] assms(3)] same_tipsI [OF _ 3(1)] show ?case by auto
qed (auto simp: argv_plain_def given_def)

lemma always_read_events:
  assumes "git_ready git" "git_ok g" "wave_id_ok w" "list_all (stores L g w) chain"
  shows "always git (\<lambda>g' r. same_tips g g' \<and> r = Inr chain) (read_events L (PStr w) (map fst chain)) g"
proof (cases "chain = []")
  case False
  have "always git (\<lambda>g' r. same_tips g g' \<and> r = Inr chain) (run_then (cat_batch (map fst chain)) (\<lambda>contents.
      given (bind_journal (validate_wave_id (PStr w)) (\<lambda>w. chain_events L w (map fst chain) contents)) Return)) g"
    by (rule always_then [OF always_cat_batch [OF assms(1,2,4)]]) (use assms(3) in \<open>auto simp: given_def\<close>)
  then show ?thesis using False by (simp add: read_events_def)
qed (simp add: read_events_def same_tips_refl [OF assms(2)])

lemma always_read_listed:
  assumes git: "git_ready git" and ok: "git_ok g" and w: "wave_id_ok w" and j: "journal_is L g w chain" "chain \<noteq> []" and n: "0 \<le> n"
  shows "always git (read_result g n chain) (read_listed L (PStr w) n (ref_name w)) g"
  unfolding read_listed_def
proof (rule always_then [OF always_checked [OF git ok, where Q = "\<lambda>g' r. same_tips g g' \<and> (\<exists>out. r = Inr out \<and> commits_of_output n out =
      (if int (length chain) \<le> n then Inr (map fst chain) else Inl (Journal ''max_events'' ''truncated'')))"]], goal_cases)
  case (3 out err g')
  from rev_list_answer [OF allows_answers [OF 3(1)] j n ok] same_tipsI [OF _ 3(1)] show ?case by auto
next
  case (4 out g')
  then have st: "same_tips g g'" by simp
  have "always git (\<lambda>g'' r. same_tips g' g'' \<and> r = Inr chain) (read_events L (PStr w) (map fst chain)) g'"
    using st by (intro always_read_events [OF git _ w] journal_storesD [OF same_tips_journal [OF st j(1)]]) (simp add: same_tips_def)
  then have "always git (\<lambda>g'' r. same_tips g g'' \<and> r = Inr chain) (read_events L (PStr w) (map fst chain)) g'"
    by (rule always_mono) (use same_tips_trans [OF st] in blast)
  then show ?case using 4 by (auto simp: given_def read_result_def elim: always_mono)
qed (use ref_plain [OF w] int_str_plain in \<open>auto simp: argv_plain_def\<close>)

lemma always_read_chain:
  assumes git: "git_ready git" and ok: "git_ok g" and w: "wave_id_ok w" and j: "journal_is L g w chain" and n: "0 \<le> n"
  shows "always git (read_result g n chain) (read_chain L (PStr w) (PInt n)) g"
proof -
  have tip: "gv_tips g (ref_name w) = None \<longleftrightarrow> chain = []" using j by (simp add: journal_is_def)
  have "always git (read_result g n chain) (run_then (run_git (VerifyRef (ref_name w))) (\<lambda>(rc, out, err).
     if rc = 1 \<and> err = [] then Return [] else if rc \<noteq> 0 then Raise (Journal ''git'' ''command_failed'')
     else read_listed L (PStr w) n (ref_name w))) g"
  proof (rule always_then [OF always_run_git [OF git ok, where Q = "\<lambda>g' r. same_tips g g' \<and> (\<exists>rc out err. r = Inr (rc, out, err) \<and>
        git_replies (VerifyRef (ref_name w)) g rc out err)"]], goal_cases)
    case (2 rc out err g')
    then show ?case using same_tipsI [OF _ 2(1)] by auto
  next
    case (3 x g')
    then have st: "same_tips g g'" by auto
    have listed: "always git (read_result g n chain) (read_listed L (PStr w) n (ref_name w)) g'" if "chain \<noteq> []"
      by (rule always_mono [OF always_read_listed [OF git _ w same_tips_journal [OF st j] that n]])
        (use st same_tips_trans [OF st] in \<open>auto simp: read_result_def same_tips_def\<close>)
    show ?case using 3 tip st listed n by (auto simp: read_result_def split: if_splits)
  qed (use ref_plain [OF w] in \<open>auto simp: argv_plain_def\<close>)
  then show ?thesis using w n by (simp add: read_chain_def wave_ref_def given_def)
qed

section \<open>Appending alone\<close>

lemma same_tips_evolves: "journals_ok L g \<Longrightarrow> same_tips g g' \<Longrightarrow> evolves L g g'"
  by (rule quiet_evolves) (auto simp: same_tips_def)

lemma id_plain: "object_id c \<Longrightarrow> CHR 0x00 \<notin> set c"
  using object_id_plain plain_charD(7) by (auto simp: list_all_iff)

lemma old_of_plain:
  assumes "old_of chain z" "list_all object_id (map fst chain)"
  shows "CHR 0x00 \<notin> set z" "(if null_id z then None else Some z) = tip_of chain"
proof -
  have "chain \<noteq> [] \<Longrightarrow> object_id (fst (last chain))" using assms(2) by (auto simp: list_all_iff)
  then show "CHR 0x00 \<notin> set z" "(if null_id z then None else Some z) = tip_of chain"
    using assms(1) object_id_not_null id_plain by (auto simp: old_of_def tip_of_def null_id_def list_all_iff)
qed

text \<open>What a publication in progress has, when nobody else writes.\<close>

definition ready_to_publish ::
    "journal_lib \<Rightarrow> string \<Rightarrow> (string \<times> journal_event) list \<Rightarrow> prepared \<Rightarrow> journal_event \<Rightarrow> git_view \<Rightarrow> bool" where
  "ready_to_publish L w chain p e g \<longleftrightarrow> journals_ok L g \<and> journal_is L g w chain \<and> publishing L w chain p e g"

lemma ready_same_tips: "ready_to_publish L w chain p e g \<Longrightarrow> same_tips g g' \<Longrightarrow> ready_to_publish L w chain p e g'"
  using same_tips_evolves same_tips_journal publishing_evolves evolvesD unfolding ready_to_publish_def by blast

definition appended_to :: "journal_lib \<Rightarrow> string \<Rightarrow> (string \<times> journal_event) list \<Rightarrow> journal_event \<Rightarrow> git_view \<Rightarrow> string option journal \<Rightarrow> bool" where
  "appended_to L w chain e g r \<longleftrightarrow> (\<exists>c. r = Inr (Some c) \<and> journal_is L g w (chain @ [(c, e)]))"

lemma always_update:
  assumes git: "git_ready git" and pub: "ready_to_publish L w chain p e g" and old: "old_of chain z" and c: "object_id c"
    and st: "stores L g w (c, e)" and par: "gv_commits g c = Some (t, if chain = [] then [] else [fst (last chain)])"
  shows "always git (appended_to L w chain e) (run_then (run_git (UpdateRef (ref_name w) c z)) (\<lambda>(rc, out, err).
      Return (if rc = 0 then Some c else None))) g"
proof -
  have ok: "journals_ok L g" "journal_is L g w chain" and P: "wave_id_ok w" "read_prefix L w g chain" "je_id e \<notin> je_id ` snd ` set chain"
    "case je_parent e of None \<Rightarrow> True | Some i \<Rightarrow> i \<in> je_id ` snd ` set chain"
    using pub by (auto simp: ready_to_publish_def publishing_def)
  note ids = journal_ids [OF ok(2) journals_git_ok [OF ok(1)]]
  have tip: "gv_tips g (ref_name w) = (if null_id z then None else Some z)"
    using ok(2) old_of_plain(2) [OF old ids] by (simp add: journal_is_def tip_of_def)
  show ?thesis
  proof (rule always_then [OF always_run_git [OF git journals_git_ok [OF ok(1)], where Q = "\<lambda>g' r. (\<exists>out err. r = Inr (0, out, err)) \<and>
      journal_is L g' w (chain @ [(c, e)])"]], goal_cases)
    case (2 rc out err g')
    then have "rc = 0" using tip by simp
    then show ?case
      using publish_moment [OF P(1) evolves_refl [OF ok(1)] P(2) 2(1) _ st par P(3,4)] old by (auto simp: old_of_def)
  qed (use ref_plain [OF P(1)] id_plain [OF c] old_of_plain(1) [OF old ids] in \<open>auto simp: argv_plain_def appended_to_def\<close>)
qed

lemma always_commit:
  assumes git: "git_ready git" and pub: "ready_to_publish L w chain p e g" and old: "old_of chain z"
    and tree: "object_id t" "gv_trees g t = Some b" "gv_blobs g b = Some (pr_payload p)" and m: "CHR 0x00 \<notin> set m"
  shows "always git (appended_to L w chain e) (stripped (checked_git (CommitTree t (tip_of chain) m who d)) (\<lambda>new_tip.
        run_then (run_git (UpdateRef (ref_name w) new_tip z)) (\<lambda>(rc, out, err).
          Return (if rc = 0 then Some new_tip else None)))) g"
proof (rule always_prints [OF git, where P = "\<lambda>g' i. gv_commits g' i = Some (t, if chain = [] then [] else [fst (last chain)])"])
  note ok = journals_git_ok [of L g]
  show "git_ok g" using pub ok by (simp add: ready_to_publish_def)
  have "list_all object_id (map fst chain)" using pub journal_ids ok by (auto simp: ready_to_publish_def)
  then show "argv_plain (CommitTree t (tip_of chain) m who d)"
    using id_plain tree(1) m by (auto simp: argv_plain_def tip_of_def list_all_iff)
next
  fix g2 c assume a: "same_tips g g2" "object_id c" "gv_commits g2 c = Some (t, if chain = [] then [] else [fst (last chain)])"
  note pub' = ready_same_tips [OF pub a(1)]
  have ev: "evolves L g g2" using same_tips_evolves a(1) pub by (simp add: ready_to_publish_def)
  have "content_of g2 c = Some (pr_payload p)" using a(3) grown [OF ev] tree by (simp add: content_of_def)
  then have "stores L g2 w (c, e)" using pub' by (simp add: stores_def ready_to_publish_def publishing_def)
  then show "always git (appended_to L w chain e) (run_then (run_git (UpdateRef (ref_name w) c z)) (\<lambda>(rc, out, err).
          Return (if rc = 0 then Some c else None))) g2"
    by (rule always_update [OF git pub' old a(2) _ a(3)])
qed (auto simp: tip_of_def)

lemma always_tree:
  assumes git: "git_ready git" and pub: "ready_to_publish L w chain p e g" and old: "old_of chain z"
    and blob: "object_id b" "gv_blobs g b = Some (pr_payload p)" and m: "CHR 0x00 \<notin> set m"
  shows "always git (appended_to L w chain e)
     (stripped (checked_git (MkTree (''100644 blob '' @ b @ [CHR 0x09] @ ''event.json'' @ [CHR 0x0A]))) (\<lambda>tree.
     stripped (checked_git (CommitTree tree (tip_of chain) m who d)) (\<lambda>new_tip.
        run_then (run_git (UpdateRef (ref_name w) new_tip z)) (\<lambda>(rc, out, err).
          Return (if rc = 0 then Some new_tip else None))))) g"
proof (rule always_prints [OF git, where P = "\<lambda>g' i. gv_trees g' i = Some b"])
  show "git_ok g" using pub journals_git_ok by (auto simp: ready_to_publish_def)
  fix g1 out err g2 assume "git_answers (MkTree (''100644 blob '' @ b @ [CHR 0x09] @ ''event.json'' @ [CHR 0x0A])) g 0 out err g2"
  then show "prints_id out (\<lambda>i. gv_trees g2 i = Some b)" using blob(1) by (auto simp: prints_id_def tree_entry_def)
next
  fix g2 i assume a: "same_tips g g2" "object_id i" "gv_trees g2 i = Some b"
  have "evolves L g g2" using same_tips_evolves a(1) pub by (simp add: ready_to_publish_def)
  then show "always git (appended_to L w chain e) (stripped (checked_git (CommitTree i (tip_of chain) m who d)) (\<lambda>new_tip.
        run_then (run_git (UpdateRef (ref_name w) new_tip z)) (\<lambda>(rc, out, err).
          Return (if rc = 0 then Some new_tip else None)))) g2"
    using always_commit [OF git ready_same_tips [OF pub a(1)] old a(2,3) grown(1) [OF _ blob(2)] m] by blast
qed (auto simp: argv_plain_def)

lemma always_blob:
  assumes git: "git_ready git" and pub: "ready_to_publish L w chain p e g" and old: "old_of chain z" and m: "CHR 0x00 \<notin> set m"
  shows "always git (appended_to L w chain e) (stripped (checked_git (HashObject (pr_payload p))) (\<lambda>blob.
     stripped (checked_git (MkTree (''100644 blob '' @ blob @ [CHR 0x09] @ ''event.json'' @ [CHR 0x0A]))) (\<lambda>tree.
     stripped (checked_git (CommitTree tree (tip_of chain) m who d)) (\<lambda>new_tip.
        run_then (run_git (UpdateRef (ref_name w) new_tip z)) (\<lambda>(rc, out, err).
          Return (if rc = 0 then Some new_tip else None)))))) g"
proof (rule always_prints [OF git, where P = "\<lambda>g' i. gv_blobs g' i = Some (pr_payload p)"], goal_cases)
  case (5 g2 i)
  show ?case by (rule always_tree [OF git ready_same_tips [OF pub 5(1)] old 5(2,3) m])
qed (use pub journals_git_ok in \<open>auto simp: argv_plain_def ready_to_publish_def\<close>)

lemma always_publish:
  assumes git: "git_ready git" and pub: "ready_to_publish L w chain p e g" and w: "je_wave (pr_event p) = w"
    and m: "CHR 0x00 \<notin> set (je_id (pr_event p) @ je_kind (pr_event p))"
  shows "always git (appended_to L w chain e) (publish_event_attempt who (ref_name w) (tip_of chain) p) g"
proof -
  let ?m = "''journal '' @ je_wave (pr_event p) @ '' '' @ je_id (pr_event p) @ '' '' @ je_kind (pr_event p)"
  have ok: "git_ok g" using pub journals_git_ok by (auto simp: ready_to_publish_def)
  have "wave_id_ok w" using pub by (simp add: ready_to_publish_def publishing_def)
  then have "CHR 0x00 \<notin> set w" using ref_plain by (auto simp: ref_name_def)
  then have m': "CHR 0x00 \<notin> set ?m" using m w by simp
  show ?thesis
  proof (cases "chain = []")
    case True
    let ?z = "replicate 40 CHR ''0''"
    have z: "old_of chain ?z" using True by (simp add: old_of_def null_id_def list_all_iff)
    have fmt: "ascii_text (''sha1'' @ [CHR 0x0A]) = Inr (''sha1'' @ [CHR 0x0A])" "py_strip (''sha1'' @ [CHR 0x0A]) = ''sha1''"
      by (rule ascii_plain, simp add: plain_char_def) (rule strip_line, simp add: plain_char_def)
    have tip: "tip_of chain = None" using True by (simp add: tip_of_def)
    show ?thesis
      unfolding publish_event_attempt_def Let_def old_value_of_def stripped_def [where p = "checked_git ShowObjectFormat"] tip option.case
    proof (rule always_then [OF always_checked [OF git ok, where Q = "\<lambda>g' r. same_tips g g' \<and> r = Inr (''sha1'' @ [CHR 0x0A])"]], goal_cases)
      case (3 out err g')
      then show ?case using same_tipsI [OF _ 3(1)] by simp
    next
      case (4 out g')
      then show ?case
        using always_blob [OF git ready_same_tips [OF pub] z m', of g' who "pr_date p"] fmt tip by (simp add: given_def del: append.simps)
    qed (auto simp: argv_plain_def)
  next
    case False
    then have "old_of chain (fst (last chain))" by (simp add: old_of_def)
    from always_blob [OF git pub this m'] show ?thesis
      using False by (simp add: publish_event_attempt_def Let_def old_value_of_def tip_of_def)
  qed
qed

text \<open>The reply of an append, as a function of the journal: what an event with its id says, else its parent, else success.\<close>

definition append_outcome ::
    "journal_lib \<Rightarrow> (string \<times> journal_event) list \<Rightarrow> prepared \<Rightarrow> journal_event \<Rightarrow> append_reply \<Rightarrow> (string \<times> journal_event) list \<Rightarrow> bool" where
  "append_outcome L chain p e r chain' \<longleftrightarrow>
     (case find (\<lambda>ce. je_id (snd ce) = je_id (pr_event p)) chain of
        Some (c, old) \<Rightarrow> chain' = chain \<and>
          r = (case same_append_payload L old (pr_event p) (pr_ts_given p) of
                 Inr True \<Rightarrow> Duplicate | Inr False \<Rightarrow> Refused ''event_id_conflict'' | Inl _ \<Rightarrow> Refused ''invalid_event'')
      | None \<Rightarrow>
          if (case je_parent (pr_event p) of None \<Rightarrow> True | Some i \<Rightarrow> i \<in> je_id ` snd ` set chain)
          then \<exists>c. r = Appended (je_id (pr_event p)) c \<and> chain' = chain @ [(c, e)]
          else r = Refused ''unknown_causal_parent'' \<and> chain' = chain)"

definition append_exact :: "journal_lib \<Rightarrow> (string \<times> journal_event) list \<Rightarrow> prepared \<Rightarrow> journal_event \<Rightarrow> git_view \<Rightarrow> append_reply journal \<Rightarrow> bool" where
  "append_exact L chain p e g res \<longleftrightarrow> (\<exists>r chain'. res = Inr r \<and> append_outcome L chain p e r chain' \<and>
     journal_is L g (je_wave (pr_event p)) chain')"

definition answer_exn :: "append_reply journal \<Rightarrow> append_reply journal" where
  "answer_exn res =
     (case res of
        Inl (Journal f r) \<Rightarrow> Inr (Refused r)
      | Inl (Raised x) \<Rightarrow> if x = TypeError \<or> x = ValueError then Inr (Refused ''invalid_event'') else Inl (Raised x)
      | Inr r \<Rightarrow> Inr r)"

lemma always_answered: "always git (\<lambda>g' r. Q g' (answer_exn r)) p g \<Longrightarrow> always git Q (answered p) g"
  by (induction p arbitrary: g) (auto simp: answer_exn_def split: journal_exn.splits)

lemma ordered_distinct:
  "ordered_after seen es \<Longrightarrow> distinct (map je_id es) \<and> je_id ` set es \<inter> set seen = {}"
  by (induction es arbitrary: seen) fastforce+

lemma map_of_rev_find:
  assumes "distinct (map (je_id \<circ> snd) chain)"
  shows "map_of (rev (map (\<lambda>ce. (je_id (snd ce), snd ce)) chain)) i = map_option snd (find (\<lambda>ce. je_id (snd ce) = i) chain)"
proof -
  have d: "distinct (map fst (map (\<lambda>ce. (je_id (snd ce), snd ce)) chain))" using assms by (simp add: comp_def)
  then have "distinct (map fst (rev (map (\<lambda>ce. (je_id (snd ce), snd ce)) chain)))" by (simp only: rev_map [symmetric] distinct_rev)
  then have "map_of (rev (map (\<lambda>ce. (je_id (snd ce), snd ce)) chain)) = map_of (map (\<lambda>ce. (je_id (snd ce), snd ce)) chain)"
    using d by (subst map_of_inject_set) simp_all
  moreover have "map_of (map (\<lambda>ce. (je_id (snd ce), snd ce)) chain) i = map_option snd (find (\<lambda>ce. je_id (snd ce) = i) chain)"
    by (induction chain) auto
  ultimately show ?thesis by simp
qed

lemma find_None_ids: "find (\<lambda>ce. je_id (snd ce) = i) chain = None \<longleftrightarrow> i \<notin> je_id ` snd ` set chain"
  by (force simp: find_None_iff)

text \<open>The event an append starts with, read back from its payload.\<close>

definition starts_append :: "journal_lib \<Rightarrow> prepared \<Rightarrow> journal_event \<Rightarrow> bool" where
  "starts_append L p e \<longleftrightarrow> event_of_blob L (pr_payload p) = Inr e \<and> same_event L e (pr_event p) \<and> wave_id_ok (je_wave (pr_event p)) \<and>
     CHR 0x00 \<notin> set (je_id (pr_event p) @ je_kind (pr_event p))"

lemma always_attempt:
  assumes git: "git_ready git" and e: "starts_append L p e"
    and ok: "journals_ok L g" and j: "journal_is L g (je_wave (pr_event p)) chain"
  shows "always git (\<lambda>g' r. append_exact L chain p e g' (answer_exn r)) (append_attempt L who p q chain) g"
proof -
  let ?ev = "pr_event p" and ?w = "je_wave (pr_event p)"
  have w: "wave_id_ok ?w" and E: "event_of_blob L (pr_payload p) = Inr e" "same_event L e ?ev"
    "CHR 0x00 \<notin> set (je_id ?ev @ je_kind ?ev)" using e by (auto simp: starts_append_def)
  have ord: "ordered_after [] (map snd chain)" by (rule ordered_journal [OF ok w j])
  then have "distinct (map (je_id \<circ> snd) chain)" using ordered_distinct by fastforce
  note look = map_of_rev_find [OF this, of "je_id ?ev"]
  show ?thesis
  proof (cases "find (\<lambda>ce. je_id (snd ce) = je_id ?ev) chain")
    case None
    then have ex: "check_existing_event L chain ?ev (pr_ts_given p) = Inr None" using look by (simp add: check_existing_event_def)
    show ?thesis
    proof (cases "case je_parent ?ev of None \<Rightarrow> True | Some i \<Rightarrow> i \<in> je_id ` snd ` set chain")
      case False
      then show ?thesis using None ex j
        by (auto simp: append_attempt_def Let_def given_def append_exact_def append_outcome_def answer_exn_def image_image split: option.splits)
    next
      case True
      then have pub: "ready_to_publish L ?w chain p e g"
        using None ok j w E same_event_simps [OF E(2)] find_None_ids [of "je_id ?ev" chain] read_prefixI [OF ok w, of chain "[]"]
        by (simp add: ready_to_publish_def publishing_def)
      have "always git (\<lambda>g' r. append_exact L chain p e g' (answer_exn r)) (run_then (publish_event_attempt who (ref_name ?w) (tip_of chain) p)
          (\<lambda>new_tip. case new_tip of Some c \<Rightarrow> Return (Appended (je_id ?ev) c) | None \<Rightarrow> q)) g"
        by (rule always_then [OF always_publish [OF git pub refl E(3)]])
          (use None True in \<open>auto simp: appended_to_def append_exact_def append_outcome_def answer_exn_def\<close>)
      then show ?thesis using True ex
        by (auto simp: append_attempt_def Let_def given_def tip_of_def image_image split: option.splits)
    qed
  next
    case (Some co)
    obtain c old where co: "co = (c, old)" by (cases co)
    have "check_existing_event L chain ?ev (pr_ts_given p) = bind_journal (same_append_payload L old ?ev (pr_ts_given p)) (\<lambda>same.
          Inr (Some (if same then Duplicate else Refused ''event_id_conflict'')))"
      using look Some co by (simp add: check_existing_event_def)
    moreover have "same_append_payload L old ?ev (pr_ts_given p) = Inl x \<Longrightarrow> x = Raised ValueError" for x
      by (auto simp: same_append_payload_def bind_journal_def or_raise_def split: if_splits sum.splits option.splits)
    ultimately show ?thesis using Some co j
      by (cases "same_append_payload L old ?ev (pr_ts_given p)")
        (auto simp: append_attempt_def given_def append_exact_def append_outcome_def answer_exn_def)
  qed
qed

lemma always_append:
  assumes git: "git_ready git" and e: "starts_append L p e"
    and ok: "journals_ok L g" and j: "journal_is L g (je_wave (pr_event p)) chain"
    and len: "int (length chain) \<le> max_events_default"
  shows "always git (\<lambda>g' r. append_exact L chain p e g' (answer_exn r)) (append_attempts L who p (Suc n)) g"
proof -
  let ?w = "je_wave (pr_event p)"
  have w: "wave_id_ok ?w" using e by (simp add: starts_append_def)
  note same = same_tips_journal [OF _ j] and jok = same_tips_evolves [OF ok, THEN evolvesD]
  have read: "always git (\<lambda>g' r. append_exact L chain p e g' (answer_exn r)) (run_then (read_chain L (PStr ?w) (PInt max_events_default))
              (append_attempt L who p (append_attempts L who p n))) g1" if st: "same_tips g g1" for g1
  proof (rule always_then [OF always_read_chain [OF git _ w same [OF st]]], goal_cases)
    case (3 x g2)
    then have "same_tips g g2" "x = chain" using len same_tips_trans [OF st] by (auto simp: read_result_def)
    then show ?case using always_attempt [OF git e] jok same by blast
  qed (use st len in \<open>auto simp: read_result_def same_tips_def max_events_default_def\<close>)
  have sym: "always git (\<lambda>g' r. same_tips g g' \<and> r = Inr False) (is_symbolic_ref (ref_name ?w)) g"
    unfolding is_symbolic_ref_def
  proof (rule always_then [OF always_run_git [OF git journals_git_ok [OF ok], where Q = "\<lambda>g' r. same_tips g g' \<and> (\<exists>out err. r = Inr (1, out, err))"]], goal_cases)
    case (2 rc out err g')
    then show ?case using same_tipsI [OF _ 2(1)] by auto
  qed (use ref_plain [OF w] in \<open>auto simp: argv_plain_def\<close>)
  show ?thesis
    unfolding append_attempts.simps by (rule always_then [OF sym]) (use read in auto)
qed

end
