(* ===== verification/JournalStore.thy ===== *)
theory JournalStore
  imports WaveJournal
begin

text \<open>
  The local SQLite projection of a journal (\<open>open_journal_store\<close>, \<open>_validate_store\<close>, \<open>import_journal\<close>).  A
  database is what the code reads from it: its schema objects, its identity numbers, its columns and its rows
  in the order of \<open>SELECT\<close>.  A cell is a value as \<open>sqlite3\<close> returns it.  The paths, the pinned descriptor of the
  inspector process and its cleanup are not modelled beyond the checks of names.
\<close>

section \<open>Paths\<close>

text \<open>The file system as \<open>_check_store_path\<close> asks it; \<open>fold_name\<close> is the NFC form of a final name, case folded.\<close>

record path_host =
  path_exists :: "string \<Rightarrow> bool"
  same_file :: "string \<Rightarrow> string \<Rightarrow> bool"
  path_parent :: "string \<Rightarrow> string"
  fold_name :: "string \<Rightarrow> string"

definition identity_refused :: journal_exn where
  "identity_refused = Journal ''store_path'' ''journal_store_identity_refused''"

definition path_clashes :: "path_host \<Rightarrow> string \<Rightarrow> string \<Rightarrow> bool" where
  "path_clashes h path canonical \<longleftrightarrow>
     path = canonical \<or> (path_exists h canonical \<and> path_exists h path \<and> same_file h path canonical) \<or>
     (fold_name h path = fold_name h canonical \<and> path_exists h (path_parent h path) \<and>
      path_exists h (path_parent h canonical) \<and> same_file h (path_parent h path) (path_parent h canonical))"

definition check_store_path :: "path_host \<Rightarrow> string \<Rightarrow> string list \<Rightarrow> unit journal" where
  "check_store_path h path destinations =
     (if list_ex (path_clashes h path) destinations then Inl identity_refused else Inr ())"

section \<open>The database\<close>

record journal_row =
  jr_id :: pyval
  jr_wave :: pyval
  jr_kind :: pyval
  jr_producer :: pyval
  jr_seq :: pyval
  jr_parent :: pyval
  jr_sha :: pyval
  jr_payload :: pyval
  jr_imported :: pyval

record column_info =
  co_name :: string
  co_type :: string
  co_notnull :: int
  co_default :: pyval
  co_pk :: int
  co_hidden :: int

record journal_db =
  db_objects :: "(string \<times> string \<times> string) list"
  db_app_id :: int
  db_user_version :: int
  db_columns :: "column_info list"
  db_indexes :: "(string \<times> int) list"
  db_foreign_keys :: nat
  db_meta_columns :: "column_info list"
  db_versions :: "pyval list"
  db_rows :: "journal_row list"

definition journal_application_id :: int where
  "journal_application_id = 0x57424A4E"

definition journal_store_version :: int where
  "journal_store_version = 1"

definition journal_columns :: "(string \<times> string \<times> int \<times> int) list" where
  "journal_columns =
     [(''event_id'', ''TEXT'', 0, 1), (''wave'', ''TEXT'', 1, 0), (''kind'', ''TEXT'', 1, 0), (''producer'', ''TEXT'', 1, 0),
      (''producer_seq'', ''INTEGER'', 1, 0), (''causal_parent'', ''TEXT'', 0, 0), (''payload_sha256'', ''TEXT'', 1, 0),
      (''payload'', ''TEXT'', 1, 0), (''imported_at'', ''TEXT'', 1, 0)]"

definition upper_text :: "string \<Rightarrow> string" where
  "upper_text s = map (\<lambda>c. let n = (of_char c :: nat) in if 97 \<le> n \<and> n \<le> 122 then char_of (n - 32) else c) s"

definition payload_hash :: "journal_lib \<Rightarrow> string \<Rightarrow> string journal" where
  "payload_hash L s = bind_journal (or_raise (utf8_encode L s) (Raised ValueError)) (\<lambda>b. Inr (sha256_hex L b))"

text \<open>A row that a store without a marker must hold for the event its payload parses to.\<close>

definition canonical_row :: "journal_lib \<Rightarrow> journal_row \<Rightarrow> unit journal" where
  "canonical_row L r =
     bind_journal (from_json L (jr_payload r)) (\<lambda>e.
     bind_journal (to_json L e) (\<lambda>payload.
     bind_journal (payload_hash L payload) (\<lambda>sha.
     if [jr_id r, jr_wave r, jr_kind r, jr_producer r, jr_seq r, jr_parent r, jr_sha r, jr_payload r] =
          [PStr (je_id e), PStr (je_wave e), PStr (je_kind e), PStr (je_producer e), PInt (je_seq e), opt_text (je_parent e),
           PStr sha, PStr payload] \<and> is_pstr (jr_imported r)
     then Inr () else Inl identity_refused)))"

text \<open>The loop over the rows, which turns \<open>JournalError\<close>, \<open>TypeError\<close> and \<open>ValueError\<close> into the refusal.\<close>

fun canonical_rows :: "journal_lib \<Rightarrow> journal_row list \<Rightarrow> unit journal" where
  "canonical_rows L [] = Inr ()"
| "canonical_rows L (r # rs) =
     (case canonical_row L r of
        Inr _ \<Rightarrow> canonical_rows L rs
      | Inl (Raised x) \<Rightarrow> if x = TypeError \<or> x = ValueError then Inl identity_refused else Inl (Raised x)
      | Inl (Journal _ _) \<Rightarrow> Inl identity_refused)"

datatype store_kind = EmptyStore | SupportedStore | LegacyStore

definition table_names :: "(string \<times> string \<times> string) list \<Rightarrow> string set" where
  "table_names objs = set (map (\<lambda>(t, n, b). n) (filter (\<lambda>(t, n, b). t = ''table'') objs))"

definition allowed_object :: "string \<times> string \<times> string \<Rightarrow> bool" where
  "allowed_object ob = (case ob of (kind, name, tab) \<Rightarrow>
     kind = ''table'' \<or> (kind = ''index'' \<and> name = ''sqlite_autoindex_journal_events_1'' \<and> tab = ''journal_events''))"

definition journal_schema_ok :: "journal_db \<Rightarrow> bool" where
  "journal_schema_ok d \<longleftrightarrow>
     map (\<lambda>c. (co_name c, upper_text (co_type c), co_notnull c, co_pk c)) (db_columns d) = journal_columns \<and>
     list_all (\<lambda>c. co_default c = PNone \<and> co_hidden c = 0) (db_columns d) \<and>
     db_indexes d = [(''pk'', 0)] \<and> db_foreign_keys d = 0"

definition meta_ok :: "journal_db \<Rightarrow> bool" where
  "meta_ok d \<longleftrightarrow>
     map (\<lambda>c. (co_name c, upper_text (co_type c), co_notnull c, co_default c, co_pk c, co_hidden c)) (db_meta_columns d) =
       [(''version'', ''INTEGER'', 1, PNone, 0, 0)] \<and>
     db_app_id d = journal_application_id \<and> take 2 (db_versions d) = [PInt journal_store_version]"

definition validate_store :: "journal_lib \<Rightarrow> bool \<Rightarrow> journal_db \<Rightarrow> store_kind journal" where
  "validate_store L allow_empty d =
     (let objs = take 4 (db_objects d); names = table_names objs; refused = Inl identity_refused
      in if length objs = 4 then refused
         else if objs = [] then
           (if allow_empty \<and> db_app_id d = 0 \<and> db_user_version d = 0 then Inr EmptyStore else refused)
         else if names \<noteq> {''journal_events''} \<and> names \<noteq> {''journal_events'', ''journal_store_meta''} then refused
         else if \<not> list_all allowed_object objs then refused
         else if \<not> journal_schema_ok d then refused
         else if names = {''journal_events'', ''journal_store_meta''} then (if meta_ok d then Inr SupportedStore else refused)
         else if db_app_id d \<noteq> 0 \<or> db_user_version d \<noteq> 0 then refused
         else if max_events_default < int (length (db_rows d)) then refused
         else bind_journal (canonical_rows L (db_rows d)) (\<lambda>_. Inr LegacyStore))"

text \<open>
  Opening for writing: the path is checked, the store is validated on a read-only connection, on the
  writable one, and again under the write lock, where other connections can no longer change it.  \<open>d0\<close>, \<open>d1\<close> and
  \<open>d2\<close> are the contents at those three moments.
\<close>

definition column_of :: "string \<times> string \<times> int \<times> int \<Rightarrow> column_info" where
  "column_of c = (case c of (n, t, nn, pk) \<Rightarrow>
     \<lparr>co_name = n, co_type = t, co_notnull = nn, co_default = PNone, co_pk = pk, co_hidden = 0\<rparr>)"

definition create_events :: "journal_db \<Rightarrow> journal_db" where
  "create_events d = d\<lparr>db_objects := [(''table'', ''journal_events'', ''journal_events''),
       (''index'', ''sqlite_autoindex_journal_events_1'', ''journal_events'')],
     db_columns := map column_of journal_columns, db_indexes := [(''pk'', 0)], db_foreign_keys := 0, db_rows := []\<rparr>"

definition adopt_store :: "journal_db \<Rightarrow> journal_db" where
  "adopt_store d = d\<lparr>db_objects := insort_key (\<lambda>ob. fst (snd ob)) (''table'', ''journal_store_meta'', ''journal_store_meta'') (db_objects d),
     db_meta_columns := [column_of (''version'', ''INTEGER'', 1, 0)], db_versions := [PInt journal_store_version],
     db_app_id := journal_application_id\<rparr>"

definition prepare_store :: "store_kind \<Rightarrow> journal_db \<Rightarrow> journal_db" where
  "prepare_store k d =
     (let d' = if k = EmptyStore then create_events d else d
      in if k \<noteq> SupportedStore then adopt_store d' else d')"

definition open_for_writing ::
    "journal_lib \<Rightarrow> path_host \<Rightarrow> string \<Rightarrow> string list \<Rightarrow> journal_db \<Rightarrow> journal_db \<Rightarrow> journal_db \<Rightarrow> journal_db journal" where
  "open_for_writing L h path destinations d0 d1 d2 =
     bind_journal (check_store_path h path destinations) (\<lambda>_.
     bind_journal (validate_store L True d0) (\<lambda>_.
     bind_journal (validate_store L True d1) (\<lambda>_.
     bind_journal (validate_store L True d2) (\<lambda>k. Inr (prepare_store k d2)))))"

section \<open>Importing\<close>

record import_state =
  im_rows :: "journal_row list"
  im_available :: "string set"
  im_inserted :: nat
  im_duplicates :: nat
  im_conflicts :: "string list"
  im_orphans :: "string list"

text \<open>\<open>str\<close> of a cell of a TEXT column.\<close>

fun cell_text :: "pyval \<Rightarrow> string" where
  "cell_text (PStr s) = s"
| "cell_text (PBytes b) = repr_bytes b"
| "cell_text (PInt n) = int_str n"
| "cell_text _ = ''None''"

definition row_of_event :: "journal_event \<Rightarrow> string \<Rightarrow> string \<Rightarrow> string \<Rightarrow> journal_row" where
  "row_of_event e sha payload imported_at =
     \<lparr>jr_id = PStr (je_id e), jr_wave = PStr (je_wave e), jr_kind = PStr (je_kind e), jr_producer = PStr (je_producer e),
      jr_seq = PInt (je_seq e), jr_parent = opt_text (je_parent e), jr_sha = PStr sha, jr_payload = PStr payload,
      jr_imported = PStr imported_at\<rparr>"

definition find_row :: "journal_row list \<Rightarrow> string \<Rightarrow> journal_row option" where
  "find_row rows i = find (\<lambda>r. jr_id r = PStr i) rows"

definition stored_hash :: "journal_lib \<Rightarrow> pyval \<Rightarrow> pyval journal" where
  "stored_hash L v = (case v of PStr s \<Rightarrow> bind_journal (payload_hash L s) (\<lambda>h. Inr (PStr h)) | _ \<Rightarrow> Inr PNone)"

definition import_event :: "journal_lib \<Rightarrow> string \<Rightarrow> journal_event \<Rightarrow> import_state \<Rightarrow> import_state journal" where
  "import_event L imported_at e s =
     (let orphans = (if (case je_parent e of None \<Rightarrow> False | Some c \<Rightarrow> c \<notin> im_available s)
                     then im_orphans s @ [je_id e] else im_orphans s);
          s = s\<lparr>im_orphans := orphans, im_available := insert (je_id e) (im_available s)\<rparr>
      in bind_journal (to_json L e) (\<lambda>payload.
         bind_journal (payload_hash L payload) (\<lambda>sha.
         case find_row (im_rows s) (je_id e) of
           None \<Rightarrow> Inr (s\<lparr>im_rows := im_rows s @ [row_of_event e sha payload imported_at], im_inserted := im_inserted s + 1\<rparr>)
         | Some row \<Rightarrow>
             bind_journal (stored_hash L (jr_payload row)) (\<lambda>actual.
             Inr (if jr_sha row = PStr sha \<and> actual = jr_sha row then s\<lparr>im_duplicates := im_duplicates s + 1\<rparr>
                  else s\<lparr>im_conflicts := im_conflicts s @ [je_id e]\<rparr>)))))"

fun import_events :: "journal_lib \<Rightarrow> string \<Rightarrow> journal_event list \<Rightarrow> import_state \<Rightarrow> import_state journal" where
  "import_events L t [] s = Inr s"
| "import_events L t (e # es) s = bind_journal (import_event L t e s) (import_events L t es)"

record import_reply =
  ir_ok :: bool
  ir_reason :: "string option"
  ir_read :: nat
  ir_inserted :: nat
  ir_duplicates :: nat
  ir_conflicts :: "string list"
  ir_orphans :: "string list"

definition start_import :: "journal_row list \<Rightarrow> import_state" where
  "start_import rows = \<lparr>im_rows = rows, im_available = set (map (cell_text \<circ> jr_id) rows), im_inserted = 0, im_duplicates = 0,
     im_conflicts = [], im_orphans = []\<rparr>"

definition refused_reply :: "string \<Rightarrow> nat \<Rightarrow> import_reply" where
  "refused_reply reason n = \<lparr>ir_ok = False, ir_reason = Some reason, ir_read = n, ir_inserted = 0, ir_duplicates = 0,
     ir_conflicts = [], ir_orphans = []\<rparr>"

definition import_reply_of :: "nat \<Rightarrow> import_state \<Rightarrow> import_reply" where
  "import_reply_of n s = \<lparr>ir_ok = (im_conflicts s = []), ir_reason = None, ir_read = n, ir_inserted = im_inserted s,
     ir_duplicates = im_duplicates s, ir_conflicts = im_conflicts s, ir_orphans = im_orphans s\<rparr>"

text \<open>
  \<open>import_journal\<close> after the journal has been read: the reply and the committed database.  \<open>sql_fails\<close> says that an SQL
  statement, or the commit, raised; \<open>unsettled\<close> that the inspector could not be settled after the commit.  An
  exception of \<open>to_json\<close> or of an encoding leaves the function and rolls the transaction back.
\<close>

definition import_read ::
    "journal_lib \<Rightarrow> path_host \<Rightarrow> string \<Rightarrow> string list \<Rightarrow> string \<Rightarrow> bool \<Rightarrow> bool \<Rightarrow> journal_event list \<Rightarrow>
     journal_db \<Rightarrow> journal_db \<Rightarrow> journal_db \<Rightarrow> import_reply journal \<times> journal_db" where
  "import_read L h path destinations imported_at sql_fails unsettled events d0 d1 d2 =
     (case open_for_writing L h path destinations d0 d1 d2 of
        Inl (Raised x) \<Rightarrow> (Inl (Raised x), d2)
      | Inl (Journal field reason) \<Rightarrow> (Inr (refused_reply reason (length events)), d2)
      | Inr d \<Rightarrow>
          if sql_fails then (Inr (refused_reply ''store_failed'' (length events)), d2)
          else (case import_events L imported_at events (start_import (db_rows d)) of
              Inl e \<Rightarrow> (Inl e, d2)
            | Inr s \<Rightarrow>
                let reply = import_reply_of (length events) s
                in (Inr (if unsettled then reply\<lparr>ir_ok := False, ir_reason := Some ''inspector_unsettled_after_commit''\<rparr>
                         else reply), d\<lparr>db_rows := im_rows s\<rparr>)))"

end
