(* ===== verification/JournalImport.thy ===== *)
theory JournalImport
  imports JournalStore JournalGit
begin

text \<open>What an import does to the rows, in closed form, and which stores pass the validation before and after.\<close>

section \<open>Rows of events\<close>

definition printed :: "journal_lib \<Rightarrow> journal_event \<Rightarrow> (string \<times> string) journal" where
  "printed L e = bind_journal (to_json L e) (\<lambda>payload. bind_journal (payload_hash L payload) (\<lambda>sha. Inr (payload, sha)))"

definition row_for :: "journal_lib \<Rightarrow> string \<Rightarrow> journal_event \<Rightarrow> journal_row" where
  "row_for L t e = (case printed L e of Inr (payload, sha) \<Rightarrow> row_of_event e sha payload t | Inl _ \<Rightarrow> undefined)"

definition printable :: "journal_lib \<Rightarrow> journal_event \<Rightarrow> bool" where
  "printable L e \<longleftrightarrow> (case printed L e of Inr _ \<Rightarrow> True | Inl _ \<Rightarrow> False)"

text \<open>The row holds the text of this very event, and its hash column is the hash of that text.\<close>

definition carries :: "journal_lib \<Rightarrow> journal_event \<Rightarrow> journal_row \<Rightarrow> bool" where
  "carries L e r \<longleftrightarrow>
     (case printed L e of
        Inr (payload, sha) \<Rightarrow> jr_sha r = PStr sha \<and> stored_hash L (jr_payload r) = Inr (jr_sha r)
      | Inl _ \<Rightarrow> False)"

definition hashable :: "journal_lib \<Rightarrow> journal_row list \<Rightarrow> string \<Rightarrow> bool" where
  "hashable L rows i \<longleftrightarrow> (case find_row rows i of None \<Rightarrow> True | Some r \<Rightarrow>
     (case stored_hash L (jr_payload r) of Inr h \<Rightarrow> True | Inl e \<Rightarrow> False))"

definition fresh_events :: "journal_row list \<Rightarrow> journal_event list \<Rightarrow> journal_event list" where
  "fresh_events rows es = filter (\<lambda>e. find_row rows (je_id e) = None) es"

definition clashing_events :: "journal_lib \<Rightarrow> journal_row list \<Rightarrow> journal_event list \<Rightarrow> journal_event list" where
  "clashing_events L rows es =
     filter (\<lambda>e. case find_row rows (je_id e) of None \<Rightarrow> False | Some r \<Rightarrow> \<not> carries L e r) es"

definition matching_events :: "journal_lib \<Rightarrow> journal_row list \<Rightarrow> journal_event list \<Rightarrow> journal_event list" where
  "matching_events L rows es =
     filter (\<lambda>e. case find_row rows (je_id e) of None \<Rightarrow> False | Some r \<Rightarrow> carries L e r) es"

fun orphans_after :: "string set \<Rightarrow> journal_event list \<Rightarrow> string list" where
  "orphans_after known [] = []"
| "orphans_after known (e # es) =
     (case je_parent e of None \<Rightarrow> [] | Some c \<Rightarrow> if c \<in> known then [] else [je_id e]) @ orphans_after (insert (je_id e) known) es"

definition import_result :: "journal_lib \<Rightarrow> string \<Rightarrow> journal_event list \<Rightarrow> import_state \<Rightarrow> import_state" where
  "import_result L t es s =
     \<lparr>im_rows = im_rows s @ map (row_for L t) (fresh_events (im_rows s) es),
      im_available = im_available s \<union> je_id ` set es,
      im_inserted = im_inserted s + length (fresh_events (im_rows s) es),
      im_duplicates = im_duplicates s + length (matching_events L (im_rows s) es),
      im_conflicts = im_conflicts s @ map je_id (clashing_events L (im_rows s) es),
      im_orphans = im_orphans s @ orphans_after (im_available s) es\<rparr>"

lemma row_for_id [simp]: "printable L e \<Longrightarrow> jr_id (row_for L t e) = PStr (je_id e)"
  by (auto simp: printable_def row_for_def row_of_event_def split: sum.splits)

lemma carries_row_for: "printable L e \<Longrightarrow> carries L e (row_for L t e)"
  by (auto simp: printable_def row_for_def row_of_event_def carries_def stored_hash_def printed_def bind_journal_Inr_iff split: sum.splits)

lemma find_row_append: "find_row (rows @ late) i = (case find_row rows i of None \<Rightarrow> find_row late i | Some r \<Rightarrow> Some r)"
  by (induction rows) (auto simp: find_row_def)

lemma find_row_fresh:
  "list_all (printable L) es \<Longrightarrow> i \<notin> je_id ` set es \<Longrightarrow> find_row (map (row_for L t) es) i = None"
  by (induction es) (auto simp: find_row_def)

lemma import_event_eq:
  assumes "printable L e" "hashable L (im_rows s) (je_id e)"
  shows "import_event L t e s = Inr (import_result L t [e] s)"
proof -
  obtain payload sha where p: "to_json L e = Inr payload" "payload_hash L payload = Inr sha"
    using assms(1) by (auto simp: printable_def printed_def bind_journal_def split: sum.splits)
  have pr: "printed L e = Inr (payload, sha)" by (simp add: printed_def p)
  show ?thesis
  proof (cases "find_row (im_rows s) (je_id e)")
    case None
    then show ?thesis
      by (simp add: import_event_def Let_def p import_result_def fresh_events_def clashing_events_def matching_events_def row_for_def pr
          split: option.splits)
  next
    case (Some r)
    then obtain h where "stored_hash L (jr_payload r) = Inr h" using assms(2) by (auto simp: hashable_def split: sum.splits)
    then show ?thesis using Some
      by (auto simp: import_event_def Let_def p import_result_def fresh_events_def clashing_events_def matching_events_def carries_def pr
          split: option.splits)
  qed
qed

lemma find_after_one:
  assumes "printable L e" "i \<noteq> je_id e"
  shows "find_row (im_rows (import_result L t [e] s)) i = find_row (im_rows s) i"
proof -
  have "find_row (im_rows s @ [row_for L t e]) i = find_row (im_rows s) i"
    using assms unfolding find_row_append by (simp add: find_row_def split: option.split)
  then show ?thesis by (simp add: import_result_def fresh_events_def)
qed

lemma result_Cons:
  assumes "printable L e" "je_id e \<notin> je_id ` set es"
  shows "import_result L t es (import_result L t [e] s) = import_result L t (e # es) s"
proof -
  let ?rows = "im_rows (import_result L t [e] s)"
  have same: "find_row ?rows (je_id x) = find_row (im_rows s) (je_id x)" if "x \<in> set es" for x
  proof -
    have "je_id x \<noteq> je_id e" using assms(2) that by (metis imageI)
    then show ?thesis by (rule find_after_one [OF assms(1)])
  qed
  have "fresh_events ?rows es = fresh_events (im_rows s) es" "clashing_events L ?rows es = clashing_events L (im_rows s) es"
    "matching_events L ?rows es = matching_events L (im_rows s) es"
    unfolding fresh_events_def clashing_events_def matching_events_def by (rule filter_cong [OF refl], simp add: same)+
  then have "import_result L t es (import_result L t [e] s) = \<lparr>im_rows = ?rows @ map (row_for L t) (fresh_events (im_rows s) es),
      im_available = im_available s \<union> {je_id e} \<union> je_id ` set es,
      im_inserted = im_inserted (import_result L t [e] s) + length (fresh_events (im_rows s) es),
      im_duplicates = im_duplicates (import_result L t [e] s) + length (matching_events L (im_rows s) es),
      im_conflicts = im_conflicts (import_result L t [e] s) @ map je_id (clashing_events L (im_rows s) es),
      im_orphans = im_orphans (import_result L t [e] s) @ orphans_after (im_available s \<union> {je_id e}) es\<rparr>"
    by (subst import_result_def) (simp add: import_result_def)
  then show ?thesis
    by (simp add: import_result_def fresh_events_def clashing_events_def matching_events_def split: option.splits)
qed

lemma import_events_eq:
  assumes "distinct (map je_id es)" "list_all (printable L) es" "list_all (\<lambda>e. hashable L (im_rows s) (je_id e)) es"
  shows "import_events L t es s = Inr (import_result L t es s)"
  using assms
proof (induction es arbitrary: s)
  case Nil
  then show ?case by (simp add: import_result_def fresh_events_def clashing_events_def matching_events_def)
next
  case (Cons e es)
  let ?s = "import_result L t [e] s"
  have e: "import_event L t e s = Inr ?s" by (rule import_event_eq) (use Cons.prems in auto)
  have "hashable L (im_rows ?s) (je_id x)" if "x \<in> set es" for x
  proof -
    have "je_id e \<notin> je_id ` set es" using Cons.prems(1) by simp
    then have "je_id x \<noteq> je_id e" using that by (metis imageI)
    moreover have "hashable L (im_rows s) (je_id x)" using Cons.prems(3) that by (auto simp: list_all_iff)
    ultimately have "je_id x \<noteq> je_id e" "hashable L (im_rows s) (je_id x)" .
    then show ?thesis using Cons.prems(2) by (simp add: hashable_def find_after_one)
  qed
  then have "import_events L t es ?s = Inr (import_result L t es ?s)" using Cons.prems by (intro Cons.IH) (auto simp: list_all_iff)
  then show ?case using e result_Cons [of L e es t s] Cons.prems by simp
qed

lemma no_orphans: "ordered_after seen es \<Longrightarrow> set seen \<subseteq> known \<Longrightarrow> orphans_after known es = []"
proof (induction es arbitrary: seen known)
  case (Cons e es)
  have "orphans_after (insert (je_id e) known) es = []" by (rule Cons.IH [of "seen @ [je_id e]"]) (use Cons.prems in auto)
  then show ?case using Cons.prems by (auto split: option.splits)
qed simp

lemma events_split: "length (fresh_events rows es) + length (matching_events L rows es) + length (clashing_events L rows es) = length es"
  by (induction es) (auto simp: fresh_events_def matching_events_def clashing_events_def split: option.splits)

section \<open>After an import\<close>

lemma find_row_for:
  assumes "e \<in> set es" "list_all (printable L) es" "distinct (map je_id es)"
  shows "find_row (map (row_for L t) es) (je_id e) = Some (row_for L t e)"
  using assms
proof (induction es)
  case (Cons x es)
  show ?case
  proof (cases "e = x")
    case False
    then have "je_id x \<noteq> je_id e" using Cons.prems by (auto simp: image_iff)
    then show ?thesis using Cons False by (simp add: find_row_def)
  qed (use Cons.prems in \<open>simp add: find_row_def\<close>)
qed simp

text \<open>A second import of the same events inserts nothing and finds the same conflicts.\<close>

lemma imported_rows:
  assumes "distinct (map je_id es)" "list_all (printable L) es" "e \<in> set es"
    and rows: "rows' = rows @ map (row_for L t) (fresh_events rows es)"
  shows "find_row rows' (je_id e) = Some (case find_row rows (je_id e) of None \<Rightarrow> row_for L t e | Some r \<Rightarrow> r)"
proof (cases "find_row rows (je_id e)")
  case None
  then have "e \<in> set (fresh_events rows es)" using assms(3) by (simp add: fresh_events_def)
  moreover have "list_all (printable L) (fresh_events rows es)" "distinct (map je_id (fresh_events rows es))"
    using assms(1,2) by (auto simp: fresh_events_def list_all_iff distinct_map_filter)
  ultimately show ?thesis using None find_row_for by (simp add: rows find_row_append)
qed (simp add: rows find_row_append)

lemma imported_again:
  assumes "distinct (map je_id es)" "list_all (printable L) es"
    and rows: "rows' = rows @ map (row_for L t) (fresh_events rows es)"
  shows "fresh_events rows' es = []" "clashing_events L rows' es = clashing_events L rows es"
proof -
  note found = imported_rows [OF assms(1,2) _ rows]
  show "fresh_events rows' es = []" unfolding fresh_events_def by (rule filter_False) (use found in auto)
  show "clashing_events L rows' es = clashing_events L rows es"
    unfolding clashing_events_def
    by (rule filter_cong [OF refl]) (use found carries_row_for assms(2) in \<open>auto simp: list_all_iff split: option.splits\<close>)
qed

lemma hashable_again:
  assumes "distinct (map je_id es)" "list_all (printable L) es" "list_all (\<lambda>e. hashable L rows (je_id e)) es"
    and rows: "rows' = rows @ map (row_for L t) (fresh_events rows es)"
  shows "list_all (\<lambda>e. hashable L rows' (je_id e)) es"
proof -
  have "hashable L rows' (je_id e)" if e: "e \<in> set es" for e
  proof (cases "find_row rows (je_id e)")
    case None
    have "carries L e (row_for L t e)" using carries_row_for assms(2) e by (auto simp: list_all_iff)
    then show ?thesis using imported_rows [OF assms(1,2) e rows] None by (auto simp: hashable_def carries_def split: sum.splits)
  next
    case (Some r)
    then show ?thesis using imported_rows [OF assms(1,2) e rows] assms(3) e by (auto simp: hashable_def list_all_iff)
  qed
  then show ?thesis by (simp add: list_all_iff)
qed

section \<open>Stores\<close>

lemma created_supported:
  "validate_store L allow (prepare_store EmptyStore d) = Inr SupportedStore"
proof -
  have sorted: "insort_key (\<lambda>ob. fst (snd ob)) (''table'', ''journal_store_meta'', ''journal_store_meta'')
      [(''table'', ''journal_events'', ''journal_events''), (''index'', ''sqlite_autoindex_journal_events_1'', ''journal_events'')] =
      [(''table'', ''journal_events'', ''journal_events''), (''table'', ''journal_store_meta'', ''journal_store_meta''),
       (''index'', ''sqlite_autoindex_journal_events_1'', ''journal_events'')]"
    by code_simp
  have schema: "journal_schema_ok (prepare_store EmptyStore d)"
    by (simp add: journal_schema_ok_def prepare_store_def adopt_store_def create_events_def journal_columns_def column_of_def upper_text_def)
  have meta: "meta_ok (prepare_store EmptyStore d)"
    by (simp add: meta_ok_def prepare_store_def adopt_store_def create_events_def column_of_def upper_text_def
        journal_application_id_def journal_store_version_def)
  have objs: "db_objects (prepare_store EmptyStore d) =
      [(''table'', ''journal_events'', ''journal_events''), (''table'', ''journal_store_meta'', ''journal_store_meta''),
       (''index'', ''sqlite_autoindex_journal_events_1'', ''journal_events'')]"
    using sorted by (simp add: prepare_store_def adopt_store_def create_events_def)
  have names: "table_names [(''table'', ''journal_events'', ''journal_events''), (''table'', ''journal_store_meta'', ''journal_store_meta''),
       (''index'', ''sqlite_autoindex_journal_events_1'', ''journal_events'')] = {''journal_events'', ''journal_store_meta''}"
    by (simp add: table_names_def del: set_filter set_map)
  show ?thesis
    using schema meta objs names by (simp add: validate_store_def Let_def allowed_object_def)
qed

lemma supported_branch:
  "(if a then Inl i else if b then (if c then Inr EmptyStore else Inl i) else if d then Inl i else if e then Inl i
    else if f then Inl i else if g then (if m then Inr SupportedStore else Inl i) else if h then Inl i
    else if k then Inl i else bind_journal x (\<lambda>_. Inr LegacyStore)) = Inr SupportedStore \<longleftrightarrow>
   \<not> a \<and> \<not> b \<and> \<not> d \<and> \<not> e \<and> \<not> f \<and> g \<and> m"
  by (cases x) auto

lemma validate_rows:
  assumes "validate_store L allow d = Inr SupportedStore"
  shows "validate_store L allow (d\<lparr>db_rows := rows\<rparr>) = Inr SupportedStore"
proof -
  have "journal_schema_ok (d\<lparr>db_rows := rows\<rparr>) = journal_schema_ok d" "meta_ok (d\<lparr>db_rows := rows\<rparr>) = meta_ok d"
    "db_objects (d\<lparr>db_rows := rows\<rparr>) = db_objects d"
    by (simp_all add: journal_schema_ok_def meta_ok_def)
  then show ?thesis using assms unfolding validate_store_def Let_def supported_branch by simp
qed

end
