(* ===== verification/JournalProperties.thy ===== *)
theory JournalProperties
  imports JournalAlone JournalImport
begin

text \<open>
  Properties of \<open>WaveJournal\<close> and \<open>JournalStore\<close>: what concurrent callers of \<open>append\<close> can do to a journal, what a
  reply of \<open>append\<close> means, what one call alone does, and what an import leaves in the local store.
\<close>

section \<open>Callers together\<close>

lemma journal_start_ok: "journals_ok L g \<Longrightarrow> world_ok L (g, [])"
  by (simp add: world_ok_def)

text \<open>
  C30 (invariant): a journal only grows.  Any number of callers may append to any waves of one repository,
  each stopped between any two Git commands, with commands that fail or time out after they took effect;
  from one moment to a later one, the journal of every wave keeps what it had, in the same order and in the
  same commits, and in what was added no event id repeats and every causal parent is an earlier event.
\<close>

theorem journals_only_grow:
  assumes "lib_ok L" "git_sound git" "journals_ok L g0"
    and "journal_run L git (g0, []) (g, ps)" "journal_run L git (g, ps) (g', ps')" "wave_id_ok w"
  shows "\<exists>chain late. journal_is L g w chain \<and> journal_is L g' w (chain @ late) \<and> ordered_after [] (map snd (chain @ late))"
proof -
  have ok: "world_ok L (g, ps)" using journal_run_ok [OF assms(4,1,2) journal_start_ok [OF assms(3)]] by simp
  have ev: "evolves L g g'" and ok': "journals_ok L g'" using journal_run_ok [OF assms(5,1,2) ok] by (auto simp: world_ok_def)
  obtain chain where c: "journal_is L g w chain" using ok journals_okD assms(6) by (metis world_ok_def fst_conv)
  obtain late where l: "journal_is L g' w (chain @ late)" using evolves_journal [OF ev assms(6) c] .
  then show ?thesis using c ordered_journal [OF ok' assms(6) l] by blast
qed

lemma filter_distinct:
  assumes "distinct (map f xs)" "x \<in> set xs" shows "filter (\<lambda>y. f y = f x) xs = [x]"
  using assms
proof (induction xs)
  case (Cons a xs)
  show ?case
  proof (cases "x = a")
    case True
    then have "f x \<notin> f ` set xs" using Cons.prems(1) by simp
    then have "filter (\<lambda>y. f y = f x) xs = []" unfolding filter_empty_conv by (metis imageI)
    then show ?thesis using True by simp
  next
    case False
    then have "f a \<noteq> f x" using Cons.prems by force
    then show ?thesis using Cons False by simp
  qed
qed simp

lemma once_in_chain:
  assumes "journals_ok L g" "wave_id_ok w" "journal_is L g w chain" "(c, e) \<in> set chain"
  shows "filter (\<lambda>ce. je_id (snd ce) = je_id e) chain = [(c, e)]"
proof -
  have "distinct (map (je_id \<circ> snd) chain)"
    using ordered_distinct [OF ordered_journal [OF assms(1-3)]] by simp
  from filter_distinct [OF this assms(4)] show ?thesis by simp
qed

text \<open>
  C31 (safety): an acknowledged event is in the journal exactly once.  When a call has returned success with
  a commit, that commit is the only one of the wave whose event has this id, and it holds the event of the
  call; when it has returned \<open>duplicate\<close>, the only event with this id has the payload of the call.  This holds
  at the moment of the reply and ever after, for all interleavings and for retries after a lost reply.
\<close>

theorem acknowledged_exactly_once:
  assumes "lib_ok L" "git_sound git" "journals_ok L g0" "journal_run L git (g0, []) (g, ps)"
    and "(p, Return r) \<in> set ps" "journal_is L g (je_wave (pr_event p)) chain"
  shows "(\<forall>i c. r = Appended i c \<longrightarrow> i = je_id (pr_event p) \<and>
      (\<exists>e. filter (\<lambda>ce. je_id (snd ce) = i) chain = [(c, e)] \<and> same_event L e (pr_event p))) \<and>
    (r = Duplicate \<longrightarrow> (\<exists>c e. filter (\<lambda>ce. je_id (snd ce) = je_id (pr_event p)) chain = [(c, e)] \<and>
      same_append_payload L e (pr_event p) (pr_ts_given p) = Inr True))"
proof -
  have ok: "world_ok L (g, ps)" using journal_run_ok [OF assms(4,1,2) journal_start_ok [OF assms(3)]] by simp
  then have j: "journals_ok L g" and p: "prepares L p" "reply_true L p g r" using assms(5) by (auto simp: world_ok_def)
  note w = prepares_wave [OF assms(1) p(1)]
  have once: "filter (\<lambda>ce. je_id (snd ce) = je_id e) chain = [(c, e)]"
    if "journal_is L g (je_wave (pr_event p)) ch" "(c, e) \<in> set ch" for ch c e
    using once_in_chain [OF j w assms(6)] journal_unique [OF assms(6) that(1)] that(2) by simp
  have id: "je_id e = je_id (pr_event p)" if "same_append_payload L e (pr_event p) t = Inr True" for e t
    using that by (auto simp: same_append_payload_def split: if_splits)
  show ?thesis
  proof (cases r)
    case (Appended i c)
    then obtain ch e where "i = je_id (pr_event p)" "journal_is L g (je_wave (pr_event p)) ch" "(c, e) \<in> set ch" "same_event L e (pr_event p)"
      using p(2) by (auto simp: reply_true_def Let_def)
    moreover from this have "filter (\<lambda>ce. je_id (snd ce) = i) chain = [(c, e)]" using once same_event_simps(1) by metis
    ultimately show ?thesis using Appended by blast
  next
    case Duplicate
    then obtain ch c e where "journal_is L g (je_wave (pr_event p)) ch" "(c, e) \<in> set ch"
      "same_append_payload L e (pr_event p) (pr_ts_given p) = Inr True"
      using p(2) by (auto simp: reply_true_def Let_def)
    moreover from this have "filter (\<lambda>ce. je_id (snd ce) = je_id (pr_event p)) chain = [(c, e)]" using once id by metis
    ultimately show ?thesis using Duplicate by blast
  qed simp
qed

section \<open>One caller alone\<close>

lemma normalized_retries:
  assumes "normalize_append_event L now a = Inr p" shows "\<exists>n. pr_retries p = Suc n"
proof -
  obtain e b date retries where p: "(case aa_retries a of PInt n \<Rightarrow> if n < 1 then Inl (Journal ''max_retries'' ''invalid_limit'') else Inr (nat n)
      | _ \<Rightarrow> Inl (Journal ''max_retries'' ''invalid_limit'')) = Inr retries"
    "Inr \<lparr>pr_event = e, pr_payload = b, pr_date = date, pr_ts_given = (aa_ts a \<noteq> PNone), pr_retries = retries\<rparr> = (Inr p :: prepared journal)"
    using assms unfolding normalize_append_event_def bind_journal_Inr_iff by blast
  have "p = \<lparr>pr_event = e, pr_payload = b, pr_date = date, pr_ts_given = (aa_ts a \<noteq> PNone), pr_retries = retries\<rparr>" using p(2) by simp
  moreover have "0 < retries" using p(1) by (auto split: pyval.splits if_splits)
  ultimately show ?thesis by (metis gr0_implies_Suc prepared.select_convs(5))
qed

text \<open>
  C32 (functional): what \<open>append\<close> does when nobody else writes and Git answers.  If the journal has an event with
  the id, the reply is \<open>duplicate\<close> for the same payload and \<open>event_id_conflict\<close> for another, and the journal stays;
  otherwise, if the causal parent is unknown, the call is refused and the journal stays; otherwise the
  event is added at the end and the reply names its commit.
\<close>

theorem append_alone_exactly:
  assumes "lib_ok L" "git_ready git" "journals_ok L g" "normalize_append_event L now a = Inr p"
    and "journal_is L g (je_wave (pr_event p)) chain" "int (length chain) \<le> max_events_default"
    and "CHR 0x00 \<notin> set (je_id (pr_event p) @ je_kind (pr_event p))"
    and "runs_alone git (append_event L who now a) g res g'"
  shows "\<exists>e r chain'. event_of_blob L (pr_payload p) = Inr e \<and> same_event L e (pr_event p) \<and> res = Inr r \<and>
    append_outcome L chain p e r chain' \<and> journal_is L g' (je_wave (pr_event p)) chain'"
proof -
  have "prepares L p" using assms(4) by (auto simp: prepares_def)
  then obtain e where e: "event_of_blob L (pr_payload p) = Inr e" "same_event L e (pr_event p)" "wave_id_ok (je_wave (pr_event p))"
    using prepared_facts [OF assms(1)] by blast
  then have start: "starts_append L p e" using assms(7) by (simp add: starts_append_def)
  obtain n where n: "pr_retries p = Suc n" using normalized_retries [OF assms(4)] by blast
  have "append_event L who now a = answered (append_attempts L who p (Suc n))"
    using assms(4) e(3) n by (simp add: append_event_def given_def append_normalized_def wave_ref_def)
  moreover have "always git (append_exact L chain p e) (answered (append_attempts L who p (Suc n))) g"
    by (rule always_answered, rule always_append [OF assms(2) start assms(3,5,6)])
  ultimately have "append_exact L chain p e g' res" using always_run [OF assms(8)] by simp
  then show ?thesis using e by (auto simp: append_exact_def)
qed

text \<open>
  Property (functional): reading returns the events of the journal in order, or refuses when there are more than
  the limit; it never returns a part.
\<close>

theorem read_alone_exactly:
  assumes "git_ready git" "journals_ok L g" "wave_id_ok w" "journal_is L g w chain" "0 \<le> n"
    and "runs_alone git (read_journal L (PStr w) (PInt n)) g res g'"
  shows "res = (if int (length chain) \<le> n then Inr (map snd chain) else Inl (Journal ''max_events'' ''truncated'')) \<and>
    gv_tips g' = gv_tips g"
proof -
  have "always git (\<lambda>g' res. res = (if int (length chain) \<le> n then Inr (map snd chain) else Inl (Journal ''max_events'' ''truncated'')) \<and>
    gv_tips g' = gv_tips g) (read_journal L (PStr w) (PInt n)) g"
    unfolding read_journal_def
    by (rule always_then [OF always_read_chain [OF assms(1) journals_git_ok [OF assms(2)] assms(3-5)]])
      (auto simp: read_result_def same_tips_def split: if_splits)
  from always_run [OF assms(6) this] show ?thesis .
qed

text \<open>
  Property (error): the event after the hundred-thousandth is accepted and seals its journal.  \<open>append\<close> reads at most
  that many events before it publishes one more, so the call succeeds, and from then on every read with the
  default limit refuses the whole journal as \<open>truncated\<close>, the acknowledged event included.
\<close>

theorem full_journal_sealed:
  assumes "lib_ok L" "git_ready git" "journals_ok L g" "normalize_append_event L now a = Inr p"
    and "journal_is L g (je_wave (pr_event p)) chain" "int (length chain) = max_events_default"
    and "CHR 0x00 \<notin> set (je_id (pr_event p) @ je_kind (pr_event p))"
    and "runs_alone git (append_event L who now a) g (Inr (Appended i c)) g1" "journals_ok L g1"
    and "runs_alone git (read_journal L (PStr (je_wave (pr_event p))) (PInt max_events_default)) g1 res g2"
  shows "res = Inl (Journal ''max_events'' ''truncated'')"
proof -
  have len: "int (length chain) \<le> max_events_default" using assms(6) by simp
  obtain e r chain' where o: "Inr (Appended i c) = Inr r" "append_outcome L chain p e r chain'" "journal_is L g1 (je_wave (pr_event p)) chain'"
    using append_alone_exactly [OF assms(1-5) len assms(7,8)] by blast
  have "(case same_append_payload L old (pr_event p) t of Inr True \<Rightarrow> Duplicate | Inr False \<Rightarrow> Refused ''event_id_conflict''
      | Inl _ \<Rightarrow> Refused ''invalid_event'') \<noteq> Appended i c" for old t
    by (cases "same_append_payload L old (pr_event p) t") (auto split: bool.split)
  then have "length chain' = Suc (length chain)" using o
    by (fastforce simp: append_outcome_def split: option.splits if_splits)
  then have "\<not> int (length chain') \<le> max_events_default" using assms(6) by simp
  then show ?thesis
    using read_alone_exactly [OF assms(2,9) prepares_wave [OF assms(1)] o(3) _ assms(10)] assms(4) by (auto simp: prepares_def max_events_default_def)
qed

text \<open>
  Property (error): a timestamp whose conversion to UTC leaves the range of dates makes \<open>append\<close> raise
  \<open>OverflowError\<close>, which is neither a \<open>JournalError\<close> nor a \<open>ValueError\<close>, instead of refusing the event.
\<close>

theorem overflowing_timestamp_raises:
  assumes "iso_seconds L (replace_z ts) = Inl OverflowError" "aa_ts a = PStr ts" "aa_wave a = PStr w" "wave_id_ok w"
    and "aa_kind a = PStr k" "is_mapping (aa_fields a)" "aa_retries a = PInt 8"
  shows "append_event L who now a = Raise (Raised OverflowError)"
  using assms by (simp add: append_event_def normalize_append_event_def as_dict_def git_date_def given_def)

section \<open>Importing\<close>

text \<open>
  C33 (functional): an import loses nothing and overwrites nothing.  Of the events of a journal it adds a row for
  each one whose id the store has not got, after the rows it had; an event whose row has another payload is
  reported as a conflict, any other one as a duplicate, and none as an orphan.  Importing the same journal
  again changes no row and reports the same conflicts.
\<close>

theorem import_exactly:
  assumes "ordered_after [] es" "list_all (printable L) es" "list_all (\<lambda>e. hashable L rows (je_id e)) es"
  shows "\<exists>s s2. import_events L t es (start_import rows) = Inr s \<and> import_events L t2 es (start_import (im_rows s)) = Inr s2 \<and>
    im_rows s = rows @ map (row_for L t) (fresh_events rows es) \<and>
    im_inserted s = length (fresh_events rows es) \<and> im_conflicts s = map je_id (clashing_events L rows es) \<and>
    im_inserted s + im_duplicates s + length (im_conflicts s) = length es \<and> im_orphans s = [] \<and>
    im_rows s2 = im_rows s \<and> im_inserted s2 = 0 \<and> im_conflicts s2 = im_conflicts s \<and>
    im_duplicates s2 + length (im_conflicts s2) = length es \<and> im_orphans s2 = []"
proof -
  have d: "distinct (map je_id es)" using ordered_distinct [OF assms(1)] by blast
  define s where "s = import_result L t es (start_import rows)"
  have s: "import_events L t es (start_import rows) = Inr s"
    unfolding s_def by (rule import_events_eq [OF d assms(2)]) (use assms(3) in \<open>simp add: start_import_def\<close>)
  have rows: "im_rows s = rows @ map (row_for L t) (fresh_events rows es)" by (simp add: s_def import_result_def start_import_def)
  have s2: "import_events L t2 es (start_import (im_rows s)) = Inr (import_result L t2 es (start_import (im_rows s)))"
    by (rule import_events_eq [OF d assms(2)])
      (use hashable_again [OF d assms(2,3) rows] in \<open>simp add: start_import_def\<close>)
  show ?thesis
    using s s2 rows imported_again [OF d assms(2) rows] events_split [of rows es L] events_split [of "im_rows s" es L] no_orphans [OF assms(1)]
    by (intro exI [of _ s] exI [of _ "import_result L t2 es (start_import (im_rows s))"])
      (simp add: s_def import_result_def start_import_def)
qed

text \<open>
  C34 (roundtrip): a journal imported into a new store can be imported again.  The first import creates the
  store, inserts every event and reports no conflict and no orphan; the store it leaves is recognised as a
  journal store, and the second import reports every event as a duplicate and leaves the store as it was.
\<close>

theorem import_new_store:
  assumes "ordered_after [] es" "list_all (printable L) es" "check_store_path h path destinations = Inr ()"
    and "db_objects d = []" "db_app_id d = 0" "db_user_version d = 0" "db_rows d = []"
  shows "\<exists>d'. import_read L h path destinations t False False es d d d =
      (Inr \<lparr>ir_ok = True, ir_reason = None, ir_read = length es, ir_inserted = length es, ir_duplicates = 0, ir_conflicts = [], ir_orphans = []\<rparr>, d') \<and>
    validate_store L False d' = Inr SupportedStore \<and> db_rows d' = map (row_for L t) es \<and>
    import_read L h path destinations t2 False False es d' d' d' =
      (Inr \<lparr>ir_ok = True, ir_reason = None, ir_read = length es, ir_inserted = 0, ir_duplicates = length es, ir_conflicts = [], ir_orphans = []\<rparr>, d')"
proof -
  let ?d1 = "prepare_store EmptyStore d"
  have empty: "fresh_events [] es = es" "clashing_events L [] es = []" by (simp_all add: fresh_events_def clashing_events_def find_row_def)
  have hash: "list_all (\<lambda>e. hashable L [] (je_id e)) es" by (simp add: hashable_def find_row_def list_all_iff)
  obtain s s2 where s: "import_events L t es (start_import []) = Inr s" "import_events L t2 es (start_import (im_rows s)) = Inr s2"
    "im_rows s = map (row_for L t) es" "im_inserted s = length es" "im_conflicts s = []"
    "im_inserted s + im_duplicates s + length (im_conflicts s) = length es" "im_orphans s = []"
    "im_rows s2 = im_rows s" "im_inserted s2 = 0" "im_conflicts s2 = im_conflicts s" "im_orphans s2 = []"
    "im_duplicates s2 + length (im_conflicts s2) = length es"
    using import_exactly [OF assms(1,2) hash, of t t2] empty by auto
  define d' where "d' = ?d1\<lparr>db_rows := im_rows s\<rparr>"
  have d1: "db_rows ?d1 = []" "validate_store L True d = Inr EmptyStore"
    using assms(4-6) by (simp_all add: prepare_store_def adopt_store_def create_events_def validate_store_def)
  have sup: "validate_store L allow d' = Inr SupportedStore" for allow
    using created_supported [of L allow d] unfolding d'_def
    by (rule validate_rows)
  have first: "import_read L h path destinations t False False es d d d =
      (Inr \<lparr>ir_ok = True, ir_reason = None, ir_read = length es, ir_inserted = length es, ir_duplicates = 0, ir_conflicts = [], ir_orphans = []\<rparr>, d')"
    using assms(3) d1 s by (simp add: import_read_def open_for_writing_def import_reply_of_def d'_def)
  have "prepare_store SupportedStore d' = d'" "db_rows d' = im_rows s" "d'\<lparr>db_rows := im_rows s\<rparr> = d'"
    by (simp_all add: prepare_store_def d'_def)
  then have "import_read L h path destinations t2 False False es d' d' d' =
      (Inr \<lparr>ir_ok = True, ir_reason = None, ir_read = length es, ir_inserted = 0, ir_duplicates = length es, ir_conflicts = [], ir_orphans = []\<rparr>, d')"
    using assms(3) sup s by (simp add: import_read_def open_for_writing_def import_reply_of_def)
  then show ?thesis using first sup s(3) \<open>db_rows d' = im_rows s\<close> by (intro exI [of _ d']) simp
qed

section \<open>Witnesses\<close>

text \<open>
  Two events of wave \<open>w\<close>, with texts \<open>1\<close> and \<open>2\<close>, and a repository in which the first one is appended: the nine states
  and commands of that call.
\<close>

definition demo_event :: "char \<Rightarrow> int \<Rightarrow> string option \<Rightarrow> journal_event" where
  "demo_event c n parent = \<lparr>je_id = CHR ''e'' # ''w'' @ [CHR 0x1F] @ ''p'' @ [CHR 0x1F, c], je_wave = ''w'', je_kind = ''lane.submitted'',
     je_producer = ''p'', je_seq = n, je_parent = parent, je_ts = ''t'', je_fields = PDict []\<rparr>"

definition demo_first :: journal_event where "demo_first = demo_event CHR ''1'' 1 None"
definition demo_second :: journal_event where "demo_second = demo_event CHR ''2'' 2 (Some (je_id demo_first))"

definition demo_journal_lib :: journal_lib where
  "demo_journal_lib = \<lparr>json_text = map_of [(PDict [], ''{}''), (event_value demo_first, ''1''), (event_value demo_second, ''2'')],
     json_value = map_of [(''{}'', PDict []), (''1'', event_value demo_first), (''2'', event_value demo_second)],
     utf8_encode = Some, utf8_decode = Some, sha256_hex = id, iso_seconds = (\<lambda>_. Inr 0)\<rparr>"

definition demo_args :: append_args where
  "demo_args = \<lparr>aa_wave = PStr ''w'', aa_kind = PStr ''lane.submitted'', aa_fields = PDict [], aa_producer = PStr ''p'', aa_seq = PInt 1,
     aa_parent = PNone, aa_ts = PStr ''t'', aa_retries = PInt 8\<rparr>"

definition demo_prepared :: prepared where
  "demo_prepared = \<lparr>pr_event = demo_first, pr_payload = ''1'', pr_date = ''@0 +0000'', pr_ts_given = True, pr_retries = 8\<rparr>"

lemma demo_normalized: "normalize_append_event demo_journal_lib now demo_args = Inr demo_prepared"
  by code_simp

lemma demo_values [simp]: "event_value e = PDict [] \<longleftrightarrow> False" "event_value a = event_value b \<longleftrightarrow> a = b"
  by (simp_all add: event_value_def opt_text_def) (cases a; cases b; auto split: option.splits)

lemma demo_journal_lib_ok: "lib_ok demo_journal_lib"
proof -
  have "\<exists>items f. json_value demo_journal_lib t = Some (PDict items) \<and> distinct (map fst items) \<and>
      set items = set (py_items (event_value (e\<lparr>je_fields := f\<rparr>))) \<and> (is_mapping (je_fields e) \<longrightarrow> is_mapping f) \<and>
      json_text demo_journal_lib f = json_text demo_journal_lib (je_fields e)"
    if t: "json_text demo_journal_lib (event_value e) = Some t" for e t
  proof -
    have e: "e = demo_first \<and> t = ''1'' \<or> e = demo_second \<and> t = ''2''" using t by (auto simp: demo_journal_lib_def split: if_splits)
    have "event_value e = PDict (py_items (event_value e))" by (simp add: event_value_def)
    moreover have "json_value demo_journal_lib t = Some (event_value e)" using e by (auto simp: demo_journal_lib_def)
    ultimately show ?thesis using event_keys(1) [of e] by (intro exI [of _ "py_items (event_value e)"] exI [of _ "je_fields e"]) simp
  qed
  then show ?thesis unfolding lib_ok_def by (auto simp: demo_journal_lib_def)
qed

definition demo_repo :: "string list \<Rightarrow> string list \<Rightarrow> string list \<Rightarrow> bool \<Rightarrow> git_view" where
  "demo_repo blobs trees commits moved =
     \<lparr>gv_blobs = (\<lambda>i. if i \<in> set blobs then Some ''1'' else None), gv_trees = (\<lambda>i. if i \<in> set trees then Some ''b1'' else None),
      gv_commits = (\<lambda>i. if i \<in> set commits then Some (''a1'', []) else None),
      gv_tips = (if moved then [ref_name ''w'' \<mapsto> ''c1''] else Map.empty)\<rparr>"

definition demo_steps :: "(git_command \<times> git_view \<times> git_reply \<times> git_view) list" where
  "demo_steps =
     (let r = ref_name ''w''; done = (\<lambda>out. Completed 0 (out @ [CHR 0x0A]) []);
          g0 = demo_repo [] [] [] False; g1 = demo_repo [''b1''] [] [] False; g2 = demo_repo [''b1''] [''a1''] [] False;
          g3 = demo_repo [''b1''] [''a1''] [''c1''] False; g4 = demo_repo [''b1''] [''a1''] [''c1''] True
      in [(SymbolicRef r, g0, Completed 1 [] [], g0), (VerifyRef r, g0, Completed 1 [] [], g0),
          (ShowObjectFormat, g0, done ''sha1'', g0), (HashObject ''1'', g0, done ''b1'', g1),
          (MkTree (tree_entry ''b1''), g1, done ''a1'', g2),
          (CommitTree ''a1'' None (''journal '' @ je_wave demo_first @ '' '' @ je_id demo_first @ '' '' @ je_kind demo_first) (''n'', ''m'') ''@0 +0000'', g2, done ''c1'', g3),
          (UpdateRef r ''c1'' (replicate 40 CHR ''0''), g3, Completed 0 [] [], g4)])"

definition demo_git :: git where
  "demo_git c g reply g' \<longleftrightarrow> (c, g, reply, g') \<in> set demo_steps"

lemma demo_ids: "object_id ''a1''" "object_id ''b1''" "object_id ''c1''" "null_id (replicate 40 CHR ''0'')"
  by code_simp+

lemma demo_repo_ok [simp]: "git_ok (demo_repo bs ts [] m)" "git_ok (demo_repo bs ts [''c1''] m)"
  using demo_ids(3) by (auto simp: git_ok_def demo_repo_def split: if_splits)

lemma demo_grows:
  "set bs \<subseteq> set bs' \<Longrightarrow> set ts \<subseteq> set ts' \<Longrightarrow> set cs \<subseteq> set cs' \<Longrightarrow> objects_grow (demo_repo bs ts cs m) (demo_repo bs' ts' cs' m')"
  by (auto simp: objects_grow_def demo_repo_def map_le_def)

lemma tree_entry_inj: "tree_entry a = tree_entry b \<longleftrightarrow> a = b"
  by (simp add: tree_entry_def)

lemma demo_ready: "git_ready demo_git"
proof -
  have "list_all (\<lambda>(c, g, reply, g'). git_allows c g reply g' \<and>
      (case reply of Completed rc out err \<Rightarrow> git_replies c g rc out err | _ \<Rightarrow> False)) demo_steps"
    unfolding demo_steps_def Let_def list.pred_inject prod.case git_reply.case
    by (intro conjI TrueI; simp add: git_allows_def demo_grows demo_ids prints_id_def tree_entry_inj ref_moves_def; simp add: demo_repo_def)
  then show ?thesis unfolding git_ready_def git_sound_def git_works_def demo_git_def list_all_iff by blast
qed

lemma demo_empty_journals: "journals_ok demo_journal_lib (demo_repo [] [] [] False)"
proof -
  have "journal_is demo_journal_lib (demo_repo [] [] [] False) w []" for w by (simp add: journal_is_def demo_repo_def)
  then show ?thesis unfolding journals_ok_def by (metis demo_repo_ok(1) list.simps(8) ordered_after.simps(1))
qed

lemma alone_run_git:
  assumes "git c g (Completed rc out err) g'" "argv_plain c" "runs_alone git (f (rc, out, err)) g' res g''"
  shows "runs_alone git (run_then (run_git c) f) g res g''"
proof -
  have "\<not> list_ex (\<lambda>a. CHR 0x00 \<in> set a) (git_argv c)" using assms(2) by (auto simp: argv_plain_def list_all_iff list_ex_iff)
  then show ?thesis using ra_call [where git = git and reply = "Completed rc out err", OF assms(1), of "\<lambda>r. run_then (case r of Completed rc out err \<Rightarrow> Return (rc, out, err)
      | TimedOut \<Rightarrow> Raise (Journal ''git'' ''timeout'') | NotRunnable \<Rightarrow> Raise (Journal ''git'' ''unavailable'')) f" res g''] assms(3)
    by (simp add: run_git_def)
qed

lemma run_then_assoc: "run_then (run_then p f) h = run_then p (\<lambda>x. run_then (f x) h)"
  by (induction p) simp_all

lemma alone_then: "runs_alone git p g (Inr x) g' \<Longrightarrow> runs_alone git (f x) g' res g'' \<Longrightarrow> runs_alone git (run_then p f) g res g''"
  by (induction p g "Inr x :: 'a journal" g' rule: runs_alone.induct) (auto intro: ra_call)

lemma alone_answered: "runs_alone git p g (Inr r) g' \<Longrightarrow> runs_alone git (answered p) g (Inr r) g'"
  by (induction p g "Inr r :: append_reply journal" g' rule: runs_alone.induct) (auto intro: runs_alone.intros)

lemma alone_stripped:
  assumes "git c g (Completed 0 (i @ [CHR 0x0A]) err) g'" "argv_plain c" "list_all plain_char i" "runs_alone git (f i) g' res g''"
  shows "runs_alone git (stripped (checked_git c) f) g res g''"
  unfolding stripped_def checked_git_def run_then_assoc
  by (rule alone_run_git [where git = git, OF assms(1,2)])
    (use assms(4) ascii_plain [OF assms(3)] strip_line [OF assms(3)] in \<open>simp add: given_def\<close>)

abbreviation "demo_start \<equiv> demo_repo [] [] [] False"
abbreviation "demo_end \<equiv> demo_repo [''b1''] [''a1''] [''c1''] True"

lemma plain_texts: "list_all plain_char ''sha1''" "list_all plain_char ''a1''" "list_all plain_char ''b1''" "list_all plain_char ''c1''"
  by (simp_all add: plain_char_def)

lemma demo_rows:
  "demo_git (SymbolicRef (ref_name ''w'')) demo_start (Completed 1 [] []) demo_start"
  "demo_git (VerifyRef (ref_name ''w'')) demo_start (Completed 1 [] []) demo_start"
  "demo_git ShowObjectFormat demo_start (Completed 0 (''sha1'' @ [CHR 0x0A]) []) demo_start"
  "demo_git (HashObject ''1'') demo_start (Completed 0 (''b1'' @ [CHR 0x0A]) []) (demo_repo [''b1''] [] [] False)"
  "demo_git (MkTree (tree_entry ''b1'')) (demo_repo [''b1''] [] [] False) (Completed 0 (''a1'' @ [CHR 0x0A]) []) (demo_repo [''b1''] [''a1''] [] False)"
  "demo_git (CommitTree ''a1'' None (''journal '' @ je_wave demo_first @ '' '' @ je_id demo_first @ '' '' @ je_kind demo_first) (''n'', ''m'') ''@0 +0000'')
     (demo_repo [''b1''] [''a1''] [] False) (Completed 0 (''c1'' @ [CHR 0x0A]) []) (demo_repo [''b1''] [''a1''] [''c1''] False)"
  "demo_git (UpdateRef (ref_name ''w'') ''c1'' (replicate 40 CHR ''0'')) (demo_repo [''b1''] [''a1''] [''c1''] False) (Completed 0 [] []) demo_end"
  unfolding demo_git_def demo_steps_def Let_def list.set by blast+

lemma demo_argv:
  "argv_plain (SymbolicRef (ref_name ''w''))" "argv_plain (VerifyRef (ref_name ''w''))" "argv_plain ShowObjectFormat"
  "argv_plain (HashObject b)" "argv_plain (MkTree b)"
  "argv_plain (CommitTree ''a1'' None (''journal '' @ je_wave demo_first @ '' '' @ je_id demo_first @ '' '' @ je_kind demo_first) who d)"
  "argv_plain (UpdateRef (ref_name ''w'') ''c1'' (replicate 40 CHR ''0''))"
  by (simp_all add: argv_plain_def ref_name_def demo_first_def demo_event_def)

lemma demo_publish:
  "runs_alone demo_git (publish_event_attempt (''n'', ''m'') (ref_name ''w'') None demo_prepared) demo_start (Inr (Some ''c1'')) demo_end"
proof -
  have fields: "pr_payload demo_prepared = ''1''" "pr_event demo_prepared = demo_first" "pr_date demo_prepared = ''@0 +0000''"
    by (simp_all add: demo_prepared_def)
  show ?thesis
    unfolding publish_event_attempt_def old_value_of_def option.case Let_def fields
    by (rule alone_stripped [where git = demo_git and i = "''sha1''", OF demo_rows(3) demo_argv(3) plain_texts(1)], simp only: if_True refl,
        rule alone_stripped [where git = demo_git and i = "''b1''", OF demo_rows(4) demo_argv(4) plain_texts(3)],
        unfold tree_entry_def [symmetric],
        rule alone_stripped [where git = demo_git and i = "''a1''", OF demo_rows(5) demo_argv(5) plain_texts(2)],
        rule alone_stripped [where git = demo_git and i = "''c1''", OF demo_rows(6) demo_argv(6) plain_texts(4)],
        rule alone_run_git [where git = demo_git, OF demo_rows(7) demo_argv(7)]) (simp add: ra_return)
qed

lemma demo_append: "runs_alone demo_git (append_normalized demo_journal_lib (''n'', ''m'') demo_prepared) demo_start
    (Inr (Appended (je_id demo_first) ''c1'')) demo_end"
proof -
  have fields: "pr_event demo_prepared = demo_first" "je_wave demo_first = ''w''" "je_parent demo_first = None" "pr_retries demo_prepared = Suc 7"
    by (simp_all add: demo_prepared_def demo_first_def demo_event_def)
  have w: "wave_ref (PStr ''w'') = Inr (ref_name ''w'')" by code_simp
  have read: "runs_alone demo_git (read_chain demo_journal_lib (PStr ''w'') (PInt max_events_default)) demo_start (Inr []) demo_start"
    unfolding read_chain_def w given_def sum.case pyval.case
    by (simp add: max_events_default_def, rule alone_run_git [where git = demo_git, OF demo_rows(2) demo_argv(2)]) (simp add: ra_return)
  have attempt: "runs_alone demo_git (append_attempt demo_journal_lib (''n'', ''m'') demo_prepared q []) demo_start
      (Inr (Appended (je_id demo_first) ''c1'')) demo_end" for q
    unfolding append_attempt_def Let_def fields check_existing_event_def
    by (simp add: given_def, rule alone_then [where git = demo_git, OF demo_publish]) (simp add: ra_return)
  show ?thesis
    unfolding append_normalized_def fields w given_def sum.case append_attempts.simps is_symbolic_ref_def run_then_assoc
    by (rule alone_run_git [where git = demo_git, OF demo_rows(1) demo_argv(1)], simp, rule alone_then [where git = demo_git, OF read], rule attempt)
qed

lemma demo_journal: "journal_is demo_journal_lib demo_end ''w'' [(''c1'', demo_first)]"
proof -
  have "event_of_blob demo_journal_lib ''1'' = Inr demo_first" by code_simp
  then show ?thesis by (simp add: journal_is_def stores_def content_of_def demo_repo_def) (simp add: demo_first_def demo_event_def)
qed

lemma alone_journal_run:
  assumes "runs_alone git q g (Inr r) g'" "journal_run L git s (g, [(p, q)])"
  shows "journal_run L git s (g', [(p, Return r)])"
  using assms
proof (induction q g "Inr r :: append_reply journal" g' rule: runs_alone.induct)
  case (ra_call c g reply g' k g'')
  have "journal_step L git (g, [] @ (p, Call c k) # []) (g', [] @ (p, k reply) # [])" by (rule js_call [where git = git, OF ra_call(1)])
  then have "journal_run L git s (g', [(p, k reply)])" using ra_call.prems jr_step by fastforce
  then show ?case using ra_call by blast
qed simp

lemma demo_calls:
  "journal_run demo_journal_lib demo_git (demo_start, []) (demo_start, [(demo_prepared, answered (append_normalized demo_journal_lib (''n'', ''m'') demo_prepared))])"
  "journal_run demo_journal_lib demo_git (demo_start, []) (demo_end, [(demo_prepared, Return (Appended (je_id demo_first) ''c1''))])"
proof -
  have p: "prepares demo_journal_lib demo_prepared" using demo_normalized by (auto simp: prepares_def)
  show start: "journal_run demo_journal_lib demo_git (demo_start, []) (demo_start, [(demo_prepared, answered (append_normalized demo_journal_lib (''n'', ''m'') demo_prepared))])"
  proof (rule jr_step [OF jr_refl])
    show "journal_step demo_journal_lib demo_git (demo_start, []) (demo_start, [(demo_prepared, answered (append_normalized demo_journal_lib (''n'', ''m'') demo_prepared))])"
      using js_start [OF p, of demo_git demo_start "[]"] by simp
  qed
  show "journal_run demo_journal_lib demo_git (demo_start, []) (demo_end, [(demo_prepared, Return (Appended (je_id demo_first) ''c1''))])"
    by (rule alone_journal_run [OF alone_answered [OF demo_append] start])
qed

lemma demo_sound: "git_sound demo_git"
  using demo_ready by (simp add: git_ready_def)

theorem journals_only_grow_witness:
  "\<exists>chain late. journal_is demo_journal_lib demo_start ''w'' chain \<and> journal_is demo_journal_lib demo_end ''w'' (chain @ late) \<and>
     ordered_after [] (map snd (chain @ late))"
proof -
  have w: "wave_id_ok ''w''" by code_simp
  from journals_only_grow [OF demo_journal_lib_ok demo_sound demo_empty_journals jr_refl demo_calls(2) w] show ?thesis .
qed

theorem acknowledged_exactly_once_witness:
  "\<exists>e. filter (\<lambda>ce. je_id (snd ce) = je_id demo_first) [(''c1'', demo_first)] = [(''c1'', e)] \<and> same_event demo_journal_lib e demo_first"
proof -
  have p: "pr_event demo_prepared = demo_first" "je_wave demo_first = ''w''" by (simp_all add: demo_prepared_def demo_first_def demo_event_def)
  have in': "(demo_prepared, Return (Appended (je_id demo_first) ''c1'')) \<in> set [(demo_prepared, Return (Appended (je_id demo_first) ''c1''))]" by simp
  have j: "journal_is demo_journal_lib demo_end (je_wave (pr_event demo_prepared)) [(''c1'', demo_first)]" using demo_journal p by simp
  from acknowledged_exactly_once [OF demo_journal_lib_ok demo_sound demo_empty_journals demo_calls(2) in' j]
  show ?thesis unfolding p by blast
qed

theorem append_alone_exactly_witness:
  "\<exists>r chain'. append_outcome demo_journal_lib [] demo_prepared demo_first r chain' \<and> journal_is demo_journal_lib demo_end ''w'' chain'"
proof -
  have p: "pr_event demo_prepared = demo_first" "je_wave demo_first = ''w''" "pr_payload demo_prepared = ''1''"
    by (simp_all add: demo_prepared_def demo_first_def demo_event_def)
  have j: "journal_is demo_journal_lib demo_start (je_wave (pr_event demo_prepared)) []" by (simp add: journal_is_def demo_repo_def)
  have len: "int (length ([] :: (string \<times> journal_event) list)) \<le> max_events_default" by (simp add: max_events_default_def)
  have plain: "CHR 0x00 \<notin> set (je_id (pr_event demo_prepared) @ je_kind (pr_event demo_prepared))"
    by (simp add: p demo_first_def demo_event_def)
  have run: "runs_alone demo_git (append_event demo_journal_lib (''n'', ''m'') [] demo_args) demo_start (Inr (Appended (je_id demo_first) ''c1'')) demo_end"
    unfolding append_event_def demo_normalized given_def sum.case by (rule alone_answered [OF demo_append])
  have e: "event_of_blob demo_journal_lib ''1'' = Inr demo_first" by code_simp
  from append_alone_exactly [OF demo_journal_lib_ok demo_ready demo_empty_journals demo_normalized j len plain run] e
  show ?thesis unfolding p by auto
qed

definition demo_store :: journal_db where
  "demo_store = \<lparr>db_objects = [], db_app_id = 0, db_user_version = 0, db_columns = [], db_indexes = [], db_foreign_keys = 0,
     db_meta_columns = [], db_versions = [], db_rows = []\<rparr>"

definition demo_paths :: path_host where
  "demo_paths = \<lparr>path_exists = (\<lambda>_. True), same_file = (=), path_parent = (\<lambda>_. ''d''), fold_name = id\<rparr>"

lemma demo_journal_events: "ordered_after [] [demo_first, demo_second]" "list_all (printable demo_journal_lib) [demo_first, demo_second]"
  by code_simp+

theorem import_exactly_witness:
  "\<exists>s. import_events demo_journal_lib ''t'' [demo_first, demo_second] (start_import [row_for demo_journal_lib ''u'' demo_first]) = Inr s \<and>
     im_inserted s = 1 \<and> im_orphans s = []"
proof -
  let ?rows = "[row_for demo_journal_lib ''u'' demo_first]"
  have "list_all (\<lambda>e. hashable demo_journal_lib ?rows (je_id e)) [demo_first, demo_second]" by code_simp
  moreover have "length (fresh_events ?rows [demo_first, demo_second]) = 1" by code_simp
  ultimately show ?thesis using import_exactly [OF demo_journal_events, of ?rows "''t''" "''t''"] by auto
qed

theorem import_new_store_witness:
  "\<exists>d'. validate_store demo_journal_lib False d' = Inr SupportedStore \<and> db_rows d' = map (row_for demo_journal_lib ''t'') [demo_first, demo_second]"
proof -
  have "check_store_path demo_paths ''/d/journal.db'' [''/d/handoff.db''] = Inr ()" by code_simp
  from import_new_store [OF demo_journal_events this, of demo_store "''t''" "''u''"] show ?thesis by (auto simp: demo_store_def)
qed

end
