(* ===== verification/Spec2Isabelle.thy ===== *)
theory Spec2Isabelle
  imports WaveProperties AdmissionProperties BreakerProperties LaneProperties RetentionProperties
    ConvergenceProperties CoordProperties ClaimProperties LearnedCap DependencyProperties
    ChannelProperties ConflictProperties RouteProperties BudgetFloor LifecycleProperties JournalProperties
begin

text \<open>
  A verification library for the orchestration core of WorkBay.

  \<^bold>\<open>The program.\<close>  WorkBay runs coding agents in lanes.  A wave is a set of lanes with
  dependencies and owned paths; the scheduler decides which lanes may run together, admission decides
  whether the host has room for one more, the dispatch breaker keeps a failing backend from being
  asked again, the lane planner orders and lands what the lanes produced, the coordination store
  gives processes holds, fencing tokens and claims that survive crashes, the control machine says
  which events a candidate may take on its way to being shipped, and the retention contract says when
  a finished resource may be destroyed.  Paths below are under
  \<open>src/packages/mcp-workbay-orchestrator/src/workbay_orchestrator_mcp/orchestration/\<close> and
  \<open>src/packages/workbay-protocol/src/workbay_protocol/\<close>.

  \<^bold>\<open>Theories and sources.\<close>
  \<^item> \<open>Prelude\<close>: names of types, exceptions as values, tables filled by a loop.  \<open>PyValue\<close>: Python values,
    \<open>str\<close> methods, \<open>int\<close>, \<open>float\<close>, \<open>repr\<close>.  \<open>Fnmatch\<close>: glob patterns.
    \<open>AListFacts\<close>: updates of association lists.
  \<^item> \<open>wave_scheduler.py\<close>: \<open>WaveDag\<close> (specs and \<open>validate\<close>), \<open>CycleSearch\<close> (the recursive cycle search),
    \<open>KahnOrder\<close> (the heap-driven order), \<open>WaveOrder\<close> (topological order, levels, critical path),
    \<open>Selection\<close> and \<open>WaveFrontier\<close> (conflicts, blocking, frontier).  \<open>WaveProperties\<close>.
  \<^item> \<open>wave_admission.py\<close>: \<open>WaveAdmission\<close> (gauge readers over a host record, costs of pending work, the
    decision).  \<open>AdmissionProperties\<close>.
  \<^item> \<open>dispatch_breaker.py\<close>: \<open>BreakerState\<close> (rows and their JSON), \<open>DispatchBreaker\<close> (the operations),
    \<open>FailureClass\<close> (classification of results), \<open>BreakerLaws\<close> and \<open>BreakerTrials\<close> (lemmas on calls and
    on runs of calls).  \<open>BreakerProperties\<close>.
  \<^item> \<open>lane_ready_set.py\<close>: \<open>Worklist\<close>, \<open>LaneGraph\<close> (ready set, ancestors, descendants), \<open>LaneChains\<close>
    (memoised longest chains), \<open>LaneLayers\<close> (layers, slack), \<open>LandingSet\<close>.  \<open>LaneProperties\<close>.
  \<^item> \<open>resource_lifecycle.py\<close>: \<open>ResourceLifecycle\<close> (packets and the two admissions).  \<open>RetentionProperties\<close>.
  \<^item> \<open>convergence.py\<close>: \<open>Convergence\<close> (control machine, packets, validators, published schemas, merge
    capabilities).  \<open>ConvergenceProperties\<close>.
  \<^item> \<open>coordination.py\<close>: \<open>CoordJournal\<close> (files, commit and recovery as steps on the disk),
    \<open>CoordRecovery\<close> (what a crash leaves), \<open>CoordState\<close> (the state and its validators), \<open>CoordHolds\<close>
    (the operations), \<open>CoordLaws\<close> (the invariant and the interface \<open>durable_store\<close>), \<open>CoordEffects\<close>
    (the specification of each operation and the refinement), \<open>CoordRuns\<close> (runs with crashes).
    \<open>CoordProperties\<close>.
  \<^item> \<open>coordclaims.py\<close>: \<open>CoordClaims\<close> (requests, admission, the commit), \<open>CoordClaimLaws\<close>.
    \<open>ClaimProperties\<close>; a claim request is a client of \<open>durable_store\<close>.
  \<^item> \<open>coordchannels.py\<close>: \<open>AsciiJson\<close> (\<open>json.dumps\<close> in ASCII and the length of its text), \<open>CoordChannels\<close> (requests,
    reading, responses and their limit, mutations, \<open>execute\<close>), \<open>CoordChannelLaws\<close>
    (the steps of a wave as a relation, what they keep, pages and why they fit).  \<open>ChannelProperties\<close>; a channel request is
    a client of \<open>durable_store\<close> too, and shares the state and the runs with holds and claims.
  \<^item> \<open>resource_dependencies.py\<close>: \<open>SccSearch\<close> (Kosaraju's two passes and the marking searches, over any
    graph), \<open>ResourceDependencies\<close> (the analysis and the custody evaluation).  \<open>DependencyProperties\<close>.
  \<^item> \<open>conflict_gate.py\<close>: \<open>ConflictGate\<close> (the conflict graph, the kernel's locks, a claim call as interleaved
    steps and as one function, the freshness of a lane's base), \<open>ConflictLaws\<close> (the invariant of all
    interleavings).  \<open>ConflictProperties\<close>.
  \<^item> \<open>lifecycle_coordination.py\<close>: \<open>LifecycleLease\<close> (descriptors and locks of the kernel, the memory of each
    process, the steps of an acquisition, binding, release, finalizers, fork hooks), \<open>LifecycleLaws\<close> (runs
    and the invariant), \<open>LifecycleRuns\<close> (every step keeps it), \<open>LifecycleAccount\<close> (where each descriptor
    belongs).  \<open>LifecycleProperties\<close>.
  \<^item> \<open>wave_journal.py\<close>: \<open>WaveJournal\<close> (envelopes, programs of Git commands, reading and appending), \<open>JournalStore\<close>
    (the local store and the import), \<open>JournalGit\<close> (the documented behaviour of Git, callers interleaved command
    by command), \<open>JournalText\<close> (the texts Git prints, read back), \<open>JournalLaws\<close> and \<open>JournalRuns\<close> (rely and
    guarantee of every program), \<open>JournalAlone\<close> (one caller alone), \<open>JournalImport\<close> (an import in closed form).
    \<open>JournalProperties\<close>.
  \<^item> \<open>route_fallback_policy.py\<close>: \<open>RouteFallback\<close> (rules, classification, decision, receipt, replay).
    \<open>RouteProperties\<close>.
  \<^item> \<open>budget_floor.py\<close>: \<open>BudgetFloor\<close> (floors, totals, the recommendation, the verdict and their properties).
  \<^item> \<open>learned_wave_cap.py\<close>: \<open>LearnedCap\<close> (the stored cap, its updates and its properties).

  \<^bold>\<open>How code is modelled.\<close>  A function of the source is a function here with the same branches; a
  class is a record, an enum a datatype, a dict an association list or a map.  A Python exception is
  the left side of a sum.  Python's integers are \<open>int\<close>; a finite float is a rational, so the rounding
  of float arithmetic is not modelled, overflow is where the code meets it.  A loop over a worklist or
  a heap is a recursive function with a termination proof, or \<open>while\<close> with fuel that is shown enough
  (\<open>Worklist\<close>: one unit per node and edge; \<open>LaneChains\<close>: the number of lanes bounds the depth).  What a
  process reads from outside (files, git, clocks, uuids, digests, JSON text) is an argument.  Functions
  that hold a lock are steps; what several processes do is a sequence of steps, for the store with
  crashes between the single writes.

  \<^bold>\<open>What is shown.\<close>
  \<^item> Waves: the frontier is safe and maximal, orders are topological with the least lane first,
    validation is exactly well-formedness, the critical path is heaviest.
  \<^item> Admission: a lane is admitted exactly when every value was measured and every bound holds; nothing
    unmeasured is admitted.
  \<^item> Breaker: latches hold until a reset, one trial at a time, thresholds exact, inspection predicts
    admission, stored rows read back, late results do no harm.
  \<^item> Lanes: ready sets, layers, chains and critical lanes equal their graph-theoretic meaning; landing
    candidates are disjoint.  A repeated prerequisite can put a lane before its own prerequisites are done.
  \<^item> Retention: both admissions are equivalent to their proofs being fresh and matching.
  \<^item> Convergence: nothing is finished that was not reviewed; validators equal published schemas, except that a review
    attempt must also have its times in order; merge capabilities are used once.
  \<^item> Store: commits are atomic under any number of crashes and append their events once; in every run
    one holder per resource, tokens only grow, a stale token never writes; operations refine an abstract
    specification.  Claims: a request is a transaction that is always accepted, retries get the stored
    answer, a live claim is its owner's, completion is final.  Channels: the same transactions and
    retries; a poller gets every event it may see once, since one event always fits in a response; a message is
    final and read by its parties only.
  \<^item> Dependencies: components are the strongly connected components, the eligible order is exactly what
    is clear, and snapshots and custody results decide the retention admission's dependency and custody
    checks.
  \<^item> Conflict gate: lanes that conflict are never claimed by two processes at once, however the steps of their
    calls interleave and whichever process dies; a call that runs alone is admitted exactly when it should
    be, and an exception in a probe leaks the claim.
  \<^item> Lifecycle leases: an exclusive fence excludes every lease of other threads and processes, across
    forks, exits and replaced sidecars; a forked child owns no lease.  As long as borrowed leases are finalized only on
    the thread that took them, no descriptor leaks; one finalized elsewhere leaves its fence behind.
  \<^item> Wave journal: under any interleaving of Git commands, failures and timeouts included, a journal only grows
    and an acknowledged event is in it exactly once; one call alone does exactly what the journal says; an import adds
    every new event and overwrites none.  A journal that passes its limit is sealed for reading, and a timestamp
    beyond the range of dates raises.
  \<^item> Routing: a replay repeats its decision and never widens the policy.  Budgets: the recommendation is
    between floor and cap and, below the cap, covers nine lanes of ten.
  \<^item> Learned cap: it stays positive, falls by one per capacity deferral, climbs by one after three clean
    waves.

  \<^bold>\<open>Not modelled.\<close>  The command lines and servers; the handoff database and its API; the adapters that
  start agents, remote execution, offloading and reaping (processes, ssh, git, docker); rendering and
  bootstrapping; the executor, the supervisor and the transports of waves, which drive the modelled scheduler, admission
  and journal; the control extension of the store, its validator and \<open>coordcontrols.py\<close>;
  the path resolution of lifecycle leases; the inspector process of the journal's store and its pinned descriptor; the
  barrier for tests and \<open>observe_integration_base\<close> of the conflict gate, and calls for several state directories in one
  process; \<open>effort_policy.py\<close>, a lookup in tables; pydantic's single-field checks.  Each is listed with its reason in the manifest.
\<close>

end
